(* ===== verification/Prelude.thy ===== *)
theory Prelude
  imports Main "HOL-Library.Word"
begin

text \<open>
  Shared vocabulary of the development.

  The C code reports failure by crashing (a null or dangling pointer, a write outside a
  buffer, \<open>abort()\<close>), by raising a Perl exception (\<open>Perl_croak\<close>, \<open>modperl_croak\<close>) or by
  never returning. Each of these is a constructor of \<open>c_error\<close>; an operation that can fail
  returns \<open>'a res\<close>, a sum whose left side is the error. Operations are sequenced with
  \<open>and_then\<close>.
\<close>

section \<open>Failures of the C code as values\<close>

datatype c_error =
    NullDeref          \<comment> \<open>a null pointer is followed\<close>
  | UseAfterFree       \<comment> \<open>a pointer to memory that is not allocated is followed\<close>
  | OutOfBounds        \<comment> \<open>a buffer or an array is accessed outside its bounds\<close>
  | WrongType          \<comment> \<open>an object is used as a structure it is not\<close>
  | Aborted            \<comment> \<open>the process calls \<open>abort()\<close>\<close>
  | Exited             \<comment> \<open>the process calls \<open>exit(1)\<close>\<close>
  | Diverges           \<comment> \<open>a loop visits more nodes than were ever allocated\<close>
  | Croak string       \<comment> \<open>a Perl exception is raised\<close>

type_synonym 'a res = "c_error + 'a"

definition and_then :: "'a res \<Rightarrow> ('a \<Rightarrow> 'b res) \<Rightarrow> 'b res" where
  "and_then m f = (case m of Inl e \<Rightarrow> Inl e | Inr x \<Rightarrow> f x)"

named_theorems res_simps \<open>rewrite rules for results and their sequencing\<close>

lemma and_then_Inl [simp, res_simps]: "and_then (Inl e) f = Inl e"
  by (simp add: and_then_def)

lemma and_then_Inr [simp, res_simps]: "and_then (Inr x) f = f x"
  by (simp add: and_then_def)

lemma and_then_eq_Inr: "and_then m f = Inr y \<longleftrightarrow> (\<exists>x. m = Inr x \<and> f x = Inr y)"
  by (cases m) auto

lemma and_then_eq_Inl:
  "and_then m f = Inl e \<longleftrightarrow> m = Inl e \<or> (\<exists>x. m = Inr x \<and> f x = Inl e)"
  by (cases m) auto

lemma and_then_assoc: "and_then (and_then m f) g = and_then m (\<lambda>x. and_then (f x) g)"
  by (cases m) auto

lemma and_then_cong [fundef_cong]:
  "m = m' \<Longrightarrow> (\<And>x. m' = Inr x \<Longrightarrow> f x = f' x) \<Longrightarrow> and_then m f = and_then m' f'"
  by (cases m') auto

section \<open>Status codes\<close>

text \<open>The status values of httpd and APR that the code compares with.\<close>

definition HTTP_INTERNAL_SERVER_ERROR :: int where "HTTP_INTERNAL_SERVER_ERROR = 500"
definition OK :: int where "OK = 0"
definition DECLINED :: int where "DECLINED = -1"
definition APR_SUCCESS :: int where "APR_SUCCESS = 0"
definition HTTP_MOVED_TEMPORARILY :: int where "HTTP_MOVED_TEMPORARILY = 302"

section \<open>Lists\<close>

lemma remove1_append_eq:
  "x \<notin> set xs \<Longrightarrow> remove1 x (xs @ x # ys) = xs @ ys"
  by (induction xs) auto

lemma distinct_length_bound:
  assumes "distinct xs" "set xs \<subseteq> {..<(n::nat)}"
  shows "length xs \<le> n"
proof -
  have "length xs = card (set xs)" using assms(1) by (simp add: distinct_card)
  also have "\<dots> \<le> card {..<n}" using assms(2) by (intro card_mono) auto
  finally show ?thesis by simp
qed

lemma split_at_member:
  assumes "x \<in> set xs"
  obtains ys zs where "xs = ys @ x # zs" "x \<notin> set ys"
  using assms by (meson split_list_first)

lemma distinct_concat_nth:
  assumes "\<And>i. i < length xss \<Longrightarrow> distinct (xss ! i)"
    "\<And>i j. i < length xss \<Longrightarrow> j < length xss \<Longrightarrow> i \<noteq> j \<Longrightarrow> set (xss ! i) \<inter> set (xss ! j) = {}"
  shows "distinct (concat xss)"
  using assms
proof (induction xss)
  case (Cons xs xss)
  have "distinct (concat xss)"
    using Cons.prems by (intro Cons.IH) force+
  moreover have "set xs \<inter> set ys = {}" if "ys \<in> set xss" for ys
  proof -
    from that obtain j where "j < length xss" "ys = xss ! j" by (auto simp: in_set_conv_nth)
    with Cons.prems(2) [of 0 "Suc j"] show ?thesis by simp
  qed
  ultimately show ?case using Cons.prems(1) [of 0] by auto
qed simp

end
