(* ===== verification/Tilist.thy ===== *)
theory Tilist
  imports Prelude
begin

text \<open>
  The doubly linked lists of \<^verbatim>\<open>src/src/modules/perl/modperl_tipool.c\<close>
  (\<open>modperl_list_*\<close>), on an explicit heap of nodes.

  A node address is a \<open>nat\<close>, a pointer is a \<open>nat option\<close> with \<open>None\<close> for \<open>NULL\<close>. The heap maps
  the addresses of live nodes to their contents, and \<open>brk\<close> is the next address \<open>malloc\<close>
  hands out: a freed address is not reused, so that following a pointer to a freed node is
  an error of the model. The loops of the code run with \<open>brk + 1\<close> units of fuel: a walk that
  takes more steps than nodes were ever allocated has met a node twice and never ends.

  The lemmas show that on a well formed list (\<open>dlist\<close>) every operation returns, and that it
  does what the list operation of the same name does, leaving every other node alone.
\<close>

section \<open>Nodes and the heap\<close>

record lnode =
  lprev :: "nat option"
  lnext :: "nat option"
  ldata :: nat

record lheap =
  cells :: "nat \<rightharpoonup> lnode"
  brk :: nat

definition peek :: "lheap \<Rightarrow> nat option \<Rightarrow> lnode res" where
  "peek h p = (case p of
       None \<Rightarrow> Inl NullDeref
     | Some a \<Rightarrow> (case cells h a of None \<Rightarrow> Inl UseAfterFree | Some n \<Rightarrow> Inr n))"

definition put_cell :: "lheap \<Rightarrow> nat \<Rightarrow> lnode \<Rightarrow> lheap" where
  "put_cell h a n = h\<lparr>cells := (cells h)(a \<mapsto> n)\<rparr>"

definition poke :: "lheap \<Rightarrow> nat option \<Rightarrow> (lnode \<Rightarrow> lnode) \<Rightarrow> lheap res" where
  "poke h p f = and_then (peek h p) (\<lambda>n. Inr (put_cell h (the p) (f n)))"

definition free_cell :: "lheap \<Rightarrow> nat option \<Rightarrow> lheap res" where
  "free_cell h p = and_then (peek h p) (\<lambda>_. Inr (h\<lparr>cells := (cells h)(the p := None)\<rparr>))"

section \<open>The operations\<close>

definition modperl_list_new :: "lheap \<Rightarrow> nat \<times> lheap" where
  "modperl_list_new h =
     (brk h,
      h\<lparr>cells := (cells h)(brk h \<mapsto> \<lparr>lprev = None, lnext = None, ldata = 0\<rparr>),
        brk := Suc (brk h)\<rparr>)"

fun list_last_loop :: "nat \<Rightarrow> lheap \<Rightarrow> nat option \<Rightarrow> nat option res" where
  "list_last_loop 0 h list = Inl Diverges"
| "list_last_loop (Suc fuel) h list =
     and_then (peek h list) (\<lambda>n. case lnext n of
         None \<Rightarrow> Inr list
       | Some q \<Rightarrow> list_last_loop fuel h (Some q))"

definition modperl_list_last :: "lheap \<Rightarrow> nat option \<Rightarrow> nat option res" where
  "modperl_list_last h list = list_last_loop (Suc (brk h)) h list"

fun list_first_loop :: "nat \<Rightarrow> lheap \<Rightarrow> nat option \<Rightarrow> nat option res" where
  "list_first_loop 0 h list = Inl Diverges"
| "list_first_loop (Suc fuel) h list =
     and_then (peek h list) (\<lambda>n. case lprev n of
         None \<Rightarrow> Inr list
       | Some q \<Rightarrow> list_first_loop fuel h (Some q))"

definition modperl_list_first :: "lheap \<Rightarrow> nat option \<Rightarrow> nat option res" where
  "modperl_list_first h list = list_first_loop (Suc (brk h)) h list"

definition modperl_list_append ::
    "lheap \<Rightarrow> nat option \<Rightarrow> nat option \<Rightarrow> (nat option \<times> lheap) res" where
  "modperl_list_append h list new_list =
     and_then (poke h new_list (\<lambda>n. n\<lparr>lprev := None, lnext := None\<rparr>)) (\<lambda>h1.
       if list = None then Inr (new_list, h1)
       else and_then (modperl_list_last h1 list) (\<lambda>last.
            and_then (poke h1 last (\<lambda>n. n\<lparr>lnext := new_list\<rparr>)) (\<lambda>h2.
            and_then (poke h2 new_list (\<lambda>n. n\<lparr>lprev := last\<rparr>)) (\<lambda>h3.
              Inr (list, h3)))))"

definition modperl_list_prepend ::
    "lheap \<Rightarrow> nat option \<Rightarrow> nat option \<Rightarrow> (nat option \<times> lheap) res" where
  "modperl_list_prepend h list new_list =
     and_then (poke h new_list (\<lambda>n. n\<lparr>lprev := None, lnext := None\<rparr>)) (\<lambda>h1.
       if list = None then Inr (new_list, h1)
       else and_then (peek h1 list) (\<lambda>l.
            and_then
              (if lprev l \<noteq> None
               then and_then (poke h1 (lprev l) (\<lambda>n. n\<lparr>lnext := new_list\<rparr>)) (\<lambda>h2.
                    and_then (peek h2 list) (\<lambda>l'.
                      poke h2 new_list (\<lambda>n. n\<lparr>lprev := lprev l'\<rparr>)))
               else Inr h1) (\<lambda>h3.
            and_then (poke h3 list (\<lambda>n. n\<lparr>lprev := new_list\<rparr>)) (\<lambda>h4.
            and_then (poke h4 new_list (\<lambda>n. n\<lparr>lnext := list\<rparr>)) (\<lambda>h5.
              Inr (new_list, h5))))))"

text \<open>
  \<open>modperl_list_remove\<close> and \<open>modperl_list_remove_data\<close> search for a node and, when they
  find it, run the same block of code, which is \<open>list_unlink\<close>.
\<close>

definition list_unlink :: "lheap \<Rightarrow> nat option \<Rightarrow> nat option \<Rightarrow> (nat option \<times> lheap) res" where
  "list_unlink h list tmp =
     and_then (peek h tmp) (\<lambda>t.
     and_then
       (if lprev t \<noteq> None then poke h (lprev t) (\<lambda>n. n\<lparr>lnext := lnext t\<rparr>) else Inr h) (\<lambda>h1.
     and_then (peek h1 tmp) (\<lambda>t1.
     and_then
       (if lnext t1 \<noteq> None then poke h1 (lnext t1) (\<lambda>n. n\<lparr>lprev := lprev t1\<rparr>) else Inr h1) (\<lambda>h2.
     if list = tmp
     then and_then (peek h2 list) (\<lambda>l. Inr (lnext l, h2))
     else Inr (list, h2)))))"

fun list_remove_loop ::
    "nat \<Rightarrow> lheap \<Rightarrow> nat option \<Rightarrow> nat option \<Rightarrow> nat option \<Rightarrow> (nat option \<times> lheap) res" where
  "list_remove_loop 0 h list rlist tmp = Inl Diverges"
| "list_remove_loop (Suc fuel) h list rlist tmp =
     (if tmp = None then Inr (list, h)
      else if tmp \<noteq> rlist
      then and_then (peek h tmp) (\<lambda>n. list_remove_loop fuel h list rlist (lnext n))
      else list_unlink h list tmp)"

definition modperl_list_remove ::
    "lheap \<Rightarrow> nat option \<Rightarrow> nat option \<Rightarrow> (nat option \<times> lheap) res" where
  "modperl_list_remove h list rlist = list_remove_loop (Suc (brk h)) h list rlist list"

text \<open>The out parameter \<open>listp\<close> of the code is the second component of the result; it keeps
  its value \<open>listp\<close> when no node carries the data.\<close>

fun list_remove_data_loop ::
    "nat \<Rightarrow> lheap \<Rightarrow> nat option \<Rightarrow> nat \<Rightarrow> nat option \<Rightarrow> nat option
      \<Rightarrow> (nat option \<times> nat option \<times> lheap) res" where
  "list_remove_data_loop 0 h list data listp tmp = Inl Diverges"
| "list_remove_data_loop (Suc fuel) h list data listp tmp =
     (if tmp = None then Inr (list, listp, h)
      else and_then (peek h tmp) (\<lambda>n.
        if ldata n \<noteq> data
        then list_remove_data_loop fuel h list data listp (lnext n)
        else and_then (list_unlink h list tmp) (\<lambda>(list', h'). Inr (list', tmp, h'))))"

definition modperl_list_remove_data ::
    "lheap \<Rightarrow> nat option \<Rightarrow> nat \<Rightarrow> nat option \<Rightarrow> (nat option \<times> nat option \<times> lheap) res" where
  "modperl_list_remove_data h list data listp =
     list_remove_data_loop (Suc (brk h)) h list data listp list"

section \<open>Well formed lists\<close>

text \<open>
  \<open>dseg h pv p as q\<close>: the nodes \<open>as\<close> form a doubly linked segment that starts at \<open>p\<close>, whose
  first node points back to \<open>pv\<close> and whose last node points forward to \<open>q\<close>.
\<close>

fun dseg :: "lheap \<Rightarrow> nat option \<Rightarrow> nat option \<Rightarrow> nat list \<Rightarrow> nat option \<Rightarrow> bool" where
  "dseg h pv p [] q \<longleftrightarrow> p = q"
| "dseg h pv p (a # as) q \<longleftrightarrow> p = Some a \<and>
     (case cells h a of None \<Rightarrow> False | Some n \<Rightarrow> lprev n = pv \<and> dseg h (Some a) (lnext n) as q)"

definition dlist :: "lheap \<Rightarrow> nat option \<Rightarrow> nat list \<Rightarrow> bool" where
  "dlist h p as \<longleftrightarrow> dseg h None p as None \<and> distinct as"

definition heap_ok :: "lheap \<Rightarrow> nat list \<Rightarrow> bool" where
  "heap_ok h as \<longleftrightarrow> (\<forall>a \<in> set as. a < brk h) \<and> (\<forall>a. brk h \<le> a \<longrightarrow> cells h a = None)"

definition lastp :: "nat option \<Rightarrow> nat list \<Rightarrow> nat option" where
  "lastp pv as = (if as = [] then pv else Some (last as))"

definition headp :: "nat list \<Rightarrow> nat option" where
  "headp as = (case as of [] \<Rightarrow> None | a # _ \<Rightarrow> Some a)"

definition node_data :: "lheap \<Rightarrow> nat \<Rightarrow> nat" where
  "node_data h a = (case cells h a of None \<Rightarrow> 0 | Some n \<Rightarrow> ldata n)"

section \<open>Heap lemmas\<close>

lemma cells_put_cell [simp]: "cells (put_cell h a n) = (cells h)(a \<mapsto> n)"
  by (simp add: put_cell_def)

lemma brk_put_cell [simp]: "brk (put_cell h a n) = brk h"
  by (simp add: put_cell_def)

lemma peek_simps [simp]:
  "peek h None = Inl NullDeref"
  "cells h a = Some n \<Longrightarrow> peek h (Some a) = Inr n"
  "cells h a = None \<Longrightarrow> peek h (Some a) = Inl UseAfterFree"
  by (simp_all add: peek_def)

lemma poke_simps [simp]:
  "poke h None f = Inl NullDeref"
  "cells h a = Some n \<Longrightarrow> poke h (Some a) f = Inr (put_cell h a (f n))"
  by (simp_all add: poke_def)

lemma free_cell_simp [simp]:
  "cells h a = Some n \<Longrightarrow> free_cell h (Some a) = Inr (h\<lparr>cells := (cells h)(a := None)\<rparr>)"
  by (simp add: free_cell_def)

lemma lastp_simps [simp]:
  "lastp pv [] = pv" "lastp pv (as @ [a]) = Some a" "lastp pv (a # as) = lastp (Some a) as"
  by (simp_all add: lastp_def)

lemma headp_simps [simp]: "headp [] = None" "headp (a # as) = Some a"
  by (simp_all add: headp_def)

section \<open>Segments\<close>

lemma dseg_append:
  "dseg h pv p (as @ bs) q \<longleftrightarrow> (\<exists>m. dseg h pv p as m \<and> dseg h (lastp pv as) m bs q)"
  by (induction as arbitrary: pv p) (auto split: option.splits)

lemma dseg_cells: "dseg h pv p as q \<Longrightarrow> a \<in> set as \<Longrightarrow> \<exists>n. cells h a = Some n"
  by (induction as arbitrary: pv p) (auto split: option.splits)

lemma dseg_cong:
  "(\<And>a. a \<in> set as \<Longrightarrow> cells h' a = cells h a) \<Longrightarrow> dseg h' pv p as q = dseg h pv p as q"
  by (induction as arbitrary: pv p) (auto split: option.splits)

lemma dseg_upd_other [simp]:
  "a \<notin> set as \<Longrightarrow> dseg (put_cell h a n) pv p as q = dseg h pv p as q"
  by (rule dseg_cong) auto

lemma dseg_start: "dseg h pv p as None \<Longrightarrow> p = headp as"
  by (cases as) auto

lemma dseg_set_next:
  assumes "dseg h pv p (as @ [b]) q" "cells h b = Some n" "b \<notin> set as"
  shows "dseg (put_cell h b (n\<lparr>lnext := q'\<rparr>)) pv p (as @ [b]) q'"
  using assms by (auto simp: dseg_append split: option.splits)

lemma dseg_set_prev:
  assumes "dseg h pv p (b # bs) q" "cells h b = Some n" "b \<notin> set bs"
  shows "dseg (put_cell h b (n\<lparr>lprev := pv'\<rparr>)) pv' p (b # bs) q"
  using assms by auto

lemma dseg_middle:
  assumes "dseg h pv p (as @ b # bs) None"
  obtains n where "cells h b = Some n" "lprev n = lastp pv as" "lnext n = headp bs"
    "dseg h pv p as (Some b)" "dseg h (Some b) (headp bs) bs None"
proof -
  from assms obtain n where n: "cells h b = Some n" "lprev n = lastp pv as"
      "dseg h pv p as (Some b)" "dseg h (Some b) (lnext n) bs None"
    by (auto simp: dseg_append split: option.splits)
  moreover from n(4) have "lnext n = headp bs" by (rule dseg_start)
  ultimately show thesis using that by auto
qed

section \<open>Every loop returns on a well formed list\<close>

lemma dlist_fuel: "dlist h p as \<Longrightarrow> heap_ok h as \<Longrightarrow> length as < Suc (brk h)"
  using distinct_length_bound [of as "brk h"] by (force simp: dlist_def heap_ok_def)

lemma dlist_start: "dlist h p as \<Longrightarrow> p = headp as"
  by (auto simp: dlist_def dest: dseg_start)

lemma list_last_loop_dseg:
  "dseg h pv p as None \<Longrightarrow> as \<noteq> [] \<Longrightarrow> length as \<le> fuel
    \<Longrightarrow> list_last_loop fuel h p = Inr (Some (last as))"
proof (induction as arbitrary: pv p fuel)
  case (Cons a as)
  then obtain f where "fuel = Suc f" by (cases fuel) auto
  with Cons show ?case by (cases as) (auto split: option.splits)
qed simp

lemma modperl_list_last_dlist:
  assumes "dlist h p as" "as \<noteq> []" "heap_ok h as"
  shows "modperl_list_last h p = Inr (Some (last as))"
proof -
  have "dseg h None p as None" "length as \<le> Suc (brk h)"
    using assms(1) dlist_fuel [OF assms(1,3)] by (auto simp: dlist_def)
  then show ?thesis
    unfolding modperl_list_last_def using assms(2) by (intro list_last_loop_dseg)
qed

lemma list_first_loop_dseg:
  "dseg h None p (as @ [a]) q \<Longrightarrow> length as < fuel
    \<Longrightarrow> list_first_loop fuel h (Some a) = Inr p"
proof (induction as arbitrary: a q fuel rule: rev_induct)
  case Nil
  then show ?case by (cases fuel) (auto split: option.splits)
next
  case (snoc b as)
  then obtain f where f: "fuel = Suc f" by (cases fuel) auto
  from snoc.prems(1) have "dseg h None p (as @ [b]) (Some a)"
    by (auto simp: dseg_append split: option.splits)
  with snoc.IH [of b "Some a" f] snoc.prems f show ?case
    by (auto simp: dseg_append split: option.splits)
qed

lemma modperl_list_first_dlist:
  assumes "dlist h p as" "a \<in> set as" "heap_ok h as"
  shows "modperl_list_first h (Some a) = Inr p"
proof -
  from assms(2) obtain xs ys where as: "as = (xs @ [a]) @ ys"
    by (metis append_Cons append_Nil append_assoc split_list)
  with assms(1) obtain q where "dseg h None p (xs @ [a]) q"
    unfolding dlist_def using dseg_append [of h None p "xs @ [a]" ys None] by blast
  moreover have "length xs < Suc (brk h)"
    using dlist_fuel [OF assms(1,3)] as by simp
  ultimately show ?thesis
    unfolding modperl_list_first_def by (rule list_first_loop_dseg)
qed

section \<open>What the operations do to a well formed list\<close>

text \<open>\<open>same_elsewhere h h' S\<close>: the heaps agree outside the nodes \<open>S\<close>, and every node keeps its
  data.\<close>

definition same_elsewhere :: "lheap \<Rightarrow> lheap \<Rightarrow> nat set \<Rightarrow> bool" where
  "same_elsewhere h h' S \<longleftrightarrow> brk h' = brk h \<and> dom (cells h') = dom (cells h) \<and>
     (\<forall>a. a \<notin> S \<longrightarrow> cells h' a = cells h a) \<and> (\<forall>a. node_data h' a = node_data h a)"

lemma same_elsewhere_refl [simp]: "same_elsewhere h h S"
  by (simp add: same_elsewhere_def)

lemma node_data_cell [simp]: "cells h a = Some n \<Longrightarrow> node_data h a = ldata n"
  by (simp add: node_data_def)

lemma node_data_put_cell [simp]:
  "node_data (put_cell h a n) b = (if b = a then ldata n else node_data h b)"
  by (simp add: node_data_def)

lemma same_elsewhere_put:
  assumes "same_elsewhere h h' S" "cells h' a \<noteq> None" "a \<in> S" "ldata n' = node_data h' a"
  shows "same_elsewhere h (put_cell h' a n') S"
proof -
  have "dom (cells (put_cell h' a n')) = dom (cells h')"
    using assms(2) by auto
  then show ?thesis using assms unfolding same_elsewhere_def by auto
qed

lemma same_elsewhere_mono: "same_elsewhere h h' S \<Longrightarrow> S \<subseteq> T \<Longrightarrow> same_elsewhere h h' T"
  by (auto simp: same_elsewhere_def)

lemma dlist_elsewhere:
  assumes "dlist h p as" "same_elsewhere h h' S" "set as \<inter> S = {}"
  shows "dlist h' p as"
proof -
  have "dseg h' None p as None = dseg h None p as None"
    using assms(2,3) by (intro dseg_cong) (auto simp: same_elsewhere_def)
  with assms(1) show ?thesis by (simp add: dlist_def)
qed

lemma heap_ok_elsewhere:
  assumes "heap_ok h as" "same_elsewhere h h' S"
  shows "heap_ok h' as"
proof -
  have "brk h' = brk h" "dom (cells h') = dom (cells h)"
    using assms(2) by (auto simp: same_elsewhere_def)
  moreover from this(2) have "cells h' a = None \<longleftrightarrow> cells h a = None" for a
    by (metis domIff)
  ultimately show ?thesis using assms(1) by (simp add: heap_ok_def)
qed

lemma heap_ok_append [simp]: "heap_ok h (as @ bs) \<longleftrightarrow> heap_ok h as \<and> heap_ok h bs"
  by (auto simp: heap_ok_def)

lemma heap_ok_subset: "heap_ok h as \<Longrightarrow> set bs \<subseteq> set as \<Longrightarrow> heap_ok h bs"
  by (auto simp: heap_ok_def)

text \<open>A freshly allocated node, with its data already stored.\<close>

definition new_cell :: "lheap \<Rightarrow> nat \<Rightarrow> lheap" where
  "new_cell h d = h\<lparr>cells := (cells h)(brk h \<mapsto> \<lparr>lprev = None, lnext = None, ldata = d\<rparr>),
     brk := Suc (brk h)\<rparr>"

lemma modperl_list_new_store:
  "modperl_list_new h = (a, h1) \<Longrightarrow>
     a = brk h \<and> poke h1 (Some a) (\<lambda>n. n\<lparr>ldata := d\<rparr>) = Inr (new_cell h d)"
  by (auto simp: modperl_list_new_def new_cell_def put_cell_def)

lemma new_cell_other:
  assumes "heap_ok h as"
  shows "dlist h p as \<Longrightarrow> dlist (new_cell h d) p as" "heap_ok (new_cell h d) as" "brk h \<notin> set as"
    "a \<in> set as \<Longrightarrow> node_data (new_cell h d) a = node_data h a"
proof -
  show "brk h \<notin> set as" using assms by (auto simp: heap_ok_def)
  then have "dseg (new_cell h d) None p as None = dseg h None p as None"
    by (intro dseg_cong) (auto simp: new_cell_def)
  then show "dlist h p as \<Longrightarrow> dlist (new_cell h d) p as" by (simp add: dlist_def)
  show "heap_ok (new_cell h d) as" using assms by (auto simp: heap_ok_def new_cell_def)
  show "a \<in> set as \<Longrightarrow> node_data (new_cell h d) a = node_data h a"
    using \<open>brk h \<notin> set as\<close> by (auto simp: node_data_def new_cell_def)
qed

lemma new_cell_self [simp]:
  "cells (new_cell h d) (brk h) = Some \<lparr>lprev = None, lnext = None, ldata = d\<rparr>"
  "brk (new_cell h d) = Suc (brk h)"
  by (simp_all add: new_cell_def)

lemma free_other:
  assumes "a \<notin> set as"
  shows "dlist h p as \<Longrightarrow> dlist (h\<lparr>cells := (cells h)(a := None)\<rparr>) p as"
    "heap_ok h as \<Longrightarrow> heap_ok (h\<lparr>cells := (cells h)(a := None)\<rparr>) as"
    "b \<in> set as \<Longrightarrow> node_data (h\<lparr>cells := (cells h)(a := None)\<rparr>) b = node_data h b"
proof -
  have "dseg (h\<lparr>cells := (cells h)(a := None)\<rparr>) None p as None = dseg h None p as None"
    using assms by (intro dseg_cong) auto
  then show "dlist h p as \<Longrightarrow> dlist (h\<lparr>cells := (cells h)(a := None)\<rparr>) p as"
    by (simp add: dlist_def)
  show "heap_ok h as \<Longrightarrow> heap_ok (h\<lparr>cells := (cells h)(a := None)\<rparr>) as"
    by (auto simp: heap_ok_def)
  show "b \<in> set as \<Longrightarrow> node_data (h\<lparr>cells := (cells h)(a := None)\<rparr>) b = node_data h b"
    using assms by (auto simp: node_data_def)
qed

lemma modperl_list_append_dlist:
  assumes l: "dlist h p as" and ok: "heap_ok h as" and a: "cells h a = Some n" "a \<notin> set as"
  obtains h' where "modperl_list_append h p (Some a) = Inr (headp (as @ [a]), h')"
    "dlist h' (headp (as @ [a])) (as @ [a])" "same_elsewhere h h' (insert a (set as))"
proof (cases "as = []")
  case True
  with assms show ?thesis
    by (intro that [of "put_cell h a (n\<lparr>lprev := None, lnext := None\<rparr>)"])
       (auto simp: modperl_list_append_def dlist_def intro!: same_elsewhere_put)
next
  case False
  then obtain bs b where as: "as = bs @ [b]" using rev_exhaust by blast
  let ?h1 = "put_cell h a (n\<lparr>lprev := None, lnext := None\<rparr>)"
  have d1: "dlist ?h1 p as" using l a(2) by (simp add: dlist_def)
  have se1: "same_elsewhere h ?h1 (insert a (set as))"
    using a by (intro same_elsewhere_put) auto
  have last: "modperl_list_last ?h1 p = Inr (Some b)"
    using modperl_list_last_dlist [OF d1 False heap_ok_elsewhere [OF ok se1]] as by simp
  obtain m where m: "cells h b = Some m" using l as by (auto simp: dlist_def dest: dseg_cells)
  let ?h2 = "put_cell ?h1 b (m\<lparr>lnext := Some a\<rparr>)"
  let ?h3 = "put_cell ?h2 a (n\<lparr>lnext := None, lprev := Some b\<rparr>)"
  have ab: "a \<noteq> b" using a(2) as by auto
  have d2: "dseg ?h2 None p (bs @ [b]) (Some a)"
    using dseg_set_next [of ?h1 None p bs b None m "Some a"] d1 as m ab by (auto simp: dlist_def)
  have "dseg ?h3 None p as (Some a)" using d2 as a(2) by simp
  then have "dseg ?h3 None p (as @ [a]) None" using as by (auto simp: dseg_append)
  moreover have "same_elsewhere h ?h3 (insert a (set as))"
    using se1 as m ab by (intro same_elsewhere_put [of _ ?h2] same_elsewhere_put [of _ ?h1]) auto
  moreover have p: "p = headp (as @ [a])" "p \<noteq> None"
    using dlist_start [OF l] False by (cases as; auto)+
  moreover have "modperl_list_append h p (Some a) = Inr (p, ?h3)"
    using last a m ab p(2) by (simp add: modperl_list_append_def)
  ultimately show ?thesis using l a(2) by (intro that [of ?h3]) (auto simp: dlist_def)
qed

lemma modperl_list_prepend_dlist:
  assumes l: "dlist h p as" and a: "cells h a = Some n" "a \<notin> set as"
  obtains h' where "modperl_list_prepend h p (Some a) = Inr (Some a, h')"
    "dlist h' (Some a) (a # as)" "same_elsewhere h h' (insert a (set as))"
proof (cases as)
  case Nil
  with assms show ?thesis
    by (intro that [of "put_cell h a (n\<lparr>lprev := None, lnext := None\<rparr>)"])
       (auto simp: modperl_list_prepend_def dlist_def intro!: same_elsewhere_put)
next
  case (Cons b bs)
  with l obtain m where b: "p = Some b" "cells h b = Some m" "lprev m = None" "b \<notin> set bs"
    by (auto simp: dlist_def split: option.splits)
  let ?h1 = "put_cell h a (n\<lparr>lprev := None, lnext := None\<rparr>)"
  let ?h4 = "put_cell ?h1 b (m\<lparr>lprev := Some a\<rparr>)"
  let ?h5 = "put_cell ?h4 a (n\<lparr>lprev := None, lnext := Some b\<rparr>)"
  have ab: "a \<noteq> b" using a(2) Cons by auto
  have "dseg ?h4 (Some a) p as None"
    using dseg_set_prev [of ?h1 None p b bs None m "Some a"] l a(2) b Cons ab
    by (auto simp: dlist_def)
  then have "dseg ?h5 None (Some a) (a # as) None" using a(2) b by simp
  moreover have "same_elsewhere h ?h5 (insert a (set as))"
    using a b Cons ab
    by (intro same_elsewhere_put [of _ ?h4] same_elsewhere_put [of _ ?h1]
          same_elsewhere_put [of _ h]) auto
  moreover have "modperl_list_prepend h p (Some a) = Inr (Some a, ?h5)"
    using a b ab by (simp add: modperl_list_prepend_def)
  ultimately show ?thesis using l a(2) by (intro that [of ?h5]) (auto simp: dlist_def)
qed

text \<open>Unlinking a node: first the predecessor is redirected, then the successor.\<close>

lemma unlink_prev:
  assumes d: "dseg h None p (xs @ a # ys) None" "distinct (xs @ a # ys)"
  obtains h1 where
    "(if lastp None xs \<noteq> None then poke h (lastp None xs) (\<lambda>n. n\<lparr>lnext := headp ys\<rparr>) else Inr h)
       = Inr h1"
    "dseg h1 None (headp (xs @ ys)) xs (headp ys)" "dseg h1 (Some a) (headp ys) ys None"
    "cells h1 a = cells h a" "same_elsewhere h h1 (set xs)"
proof (cases xs rule: rev_exhaust)
  case Nil
  have "dseg h (Some a) (headp ys) ys None" using d(1) by (rule dseg_middle)
  with Nil show ?thesis by (intro that [of h]) auto
next
  case (snoc zs b)
  from d(1) obtain n where n: "cells h a = Some n" "dseg h None p xs (Some a)"
      "dseg h (Some a) (headp ys) ys None"
    by (rule dseg_middle)
  obtain m where m: "cells h b = Some m" using n(2) snoc by (auto dest: dseg_cells)
  let ?h1 = "put_cell h b (m\<lparr>lnext := headp ys\<rparr>)"
  have "dseg ?h1 None p xs (headp ys)"
    using dseg_set_next [of h None p zs b "Some a" m "headp ys"] n(2) snoc m d(2) by auto
  moreover have "p = headp (xs @ ys)" using d(1) snoc by (cases zs) auto
  moreover have "dseg ?h1 (Some a) (headp ys) ys None" using n(3) d(2) snoc by auto
  ultimately show ?thesis
    using snoc m d(2) by (intro that [of ?h1]) (auto intro: same_elsewhere_put)
qed

lemma unlink_next:
  assumes "dseg h1 (Some a) (headp ys) ys None" "dseg h1 None (headp (xs @ ys)) xs (headp ys)"
    and "distinct (xs @ a # ys)"
  obtains h2 where
    "(if headp ys \<noteq> None then poke h1 (headp ys) (\<lambda>n. n\<lparr>lprev := lastp None xs\<rparr>) else Inr h1)
       = Inr h2"
    "dseg h2 None (headp (xs @ ys)) (xs @ ys) None" "cells h2 a = cells h1 a"
    "same_elsewhere h1 h2 (set ys)"
proof (cases ys)
  case Nil
  with assms show ?thesis by (intro that [of h1]) auto
next
  case (Cons b bs)
  with assms(1) obtain m where m: "cells h1 b = Some m" by (auto split: option.splits)
  let ?h2 = "put_cell h1 b (m\<lparr>lprev := lastp None xs\<rparr>)"
  have "dseg ?h2 (lastp None xs) (headp ys) ys None"
    using dseg_set_prev [of h1 "Some a" "headp ys" b bs None m "lastp None xs"] assms(1,3) Cons m
    by auto
  moreover have "dseg ?h2 None (headp (xs @ ys)) xs (headp ys)" using assms(2,3) Cons by auto
  ultimately have "dseg ?h2 None (headp (xs @ ys)) (xs @ ys) None"
    by (auto simp: dseg_append)
  then show ?thesis
    using Cons m assms(3) by (intro that [of ?h2]) (auto intro: same_elsewhere_put)
qed

lemma same_elsewhere_trans:
  "same_elsewhere h h1 S \<Longrightarrow> same_elsewhere h1 h2 T \<Longrightarrow> same_elsewhere h h2 (S \<union> T)"
  by (auto simp: same_elsewhere_def)

lemma list_unlink_dlist:
  assumes l: "dlist h p (xs @ a # ys)"
  obtains h' where "list_unlink h p (Some a) = Inr (headp (xs @ ys), h')"
    "dlist h' (headp (xs @ ys)) (xs @ ys)" "same_elsewhere h h' (set xs \<union> set ys)"
proof -
  have d: "dseg h None p (xs @ a # ys) None" "distinct (xs @ a # ys)"
    using l by (auto simp: dlist_def)
  obtain n where n: "cells h a = Some n" "lprev n = lastp None xs" "lnext n = headp ys"
    using d(1) by (rule dseg_middle)
  obtain h1 where h1: "(if lastp None xs \<noteq> None
        then poke h (lastp None xs) (\<lambda>n. n\<lparr>lnext := headp ys\<rparr>) else Inr h) = Inr h1"
      "dseg h1 None (headp (xs @ ys)) xs (headp ys)" "dseg h1 (Some a) (headp ys) ys None"
      "cells h1 a = cells h a" "same_elsewhere h h1 (set xs)"
    using d by (rule unlink_prev)
  obtain h2 where h2: "(if headp ys \<noteq> None
        then poke h1 (headp ys) (\<lambda>n. n\<lparr>lprev := lastp None xs\<rparr>) else Inr h1) = Inr h2"
      "dseg h2 None (headp (xs @ ys)) (xs @ ys) None" "cells h2 a = cells h1 a"
      "same_elsewhere h1 h2 (set ys)"
    using h1(3,2) d(2) by (rule unlink_next)
  have p: "p = headp (xs @ a # ys)" by (rule dlist_start [OF l])
  have head: "(if p = Some a then and_then (peek h2 p) (\<lambda>l. Inr (lnext l, h2)) else Inr (p, h2))
      = Inr (headp (xs @ ys), h2)"
    using p n h1(4) h2(3) d(2) by (cases xs) auto
  have peeks: "peek h (Some a) = Inr n" "peek h1 (Some a) = Inr n" using n h1(4) by auto
  have "list_unlink h p (Some a) = Inr (headp (xs @ ys), h2)"
    using peeks by (simp only: list_unlink_def and_then_Inr n(2,3) h1(1) h2(1) head)
  then show ?thesis
    using h2(2) d(2) same_elsewhere_trans [OF h1(5) h2(4)]
    by (intro that [of h2]) (auto simp: dlist_def)
qed

lemma list_remove_loop_walk:
  assumes "dseg h pv p (xs @ a # ys) None" "a \<notin> set xs" "length xs < fuel"
  shows "list_remove_loop fuel h list (Some a) p = list_unlink h list (Some a)"
  using assms
proof (induction xs arbitrary: pv p fuel)
  case Nil
  then show ?case by (cases fuel) auto
next
  case (Cons x xs)
  then show ?case by (cases fuel) (auto split: option.splits)
qed

lemma list_remove_loop_absent:
  assumes "dseg h pv p as None" "a \<notin> set as" "length as < fuel"
  shows "list_remove_loop fuel h list (Some a) p = Inr (list, h)"
  using assms
proof (induction as arbitrary: pv p fuel)
  case Nil
  then show ?case by (cases fuel) auto
next
  case (Cons x xs)
  then show ?case by (cases fuel) (auto split: option.splits)
qed

lemma modperl_list_remove_dlist:
  assumes l: "dlist h p as" and ok: "heap_ok h as"
  obtains h' where "modperl_list_remove h p (Some a) = Inr (headp (remove1 a as), h')"
    "dlist h' (headp (remove1 a as)) (remove1 a as)" "same_elsewhere h h' (set as - {a})"
proof (cases "a \<in> set as")
  case True
  then obtain xs ys where as: "as = xs @ a # ys" "a \<notin> set xs" by (rule split_at_member)
  then have r: "remove1 a as = xs @ ys" by (simp add: remove1_append_eq)
  obtain h' where h': "list_unlink h p (Some a) = Inr (headp (xs @ ys), h')"
      "dlist h' (headp (xs @ ys)) (xs @ ys)" "same_elsewhere h h' (set xs \<union> set ys)"
    using l unfolding as by (rule list_unlink_dlist)
  have "modperl_list_remove h p (Some a) = list_unlink h p (Some a)"
    unfolding modperl_list_remove_def
    using l as dlist_fuel [OF l ok] by (intro list_remove_loop_walk) (auto simp: dlist_def)
  moreover have "set xs \<union> set ys \<subseteq> set as - {a}" using as l by (auto simp: dlist_def)
  ultimately show ?thesis
    using h' r by (intro that [of h']) (auto intro: same_elsewhere_mono)
next
  case False
  then have "modperl_list_remove h p (Some a) = Inr (p, h)"
    unfolding modperl_list_remove_def
    using l dlist_fuel [OF l ok] by (intro list_remove_loop_absent) (auto simp: dlist_def)
  with False l dlist_start [OF l] show ?thesis
    by (intro that [of h]) (auto simp: remove1_idem)
qed

lemma modperl_list_remove_head:
  assumes l: "dlist h p (a # as)" and ok: "heap_ok h (a # as)"
  obtains h' where "modperl_list_remove h p (Some a) = Inr (headp as, h')"
    "dlist h' (headp as) as" "same_elsewhere h h' (set as)"
proof -
  have na: "a \<notin> set as" using l by (simp add: dlist_def)
  obtain h' where "modperl_list_remove h p (Some a) = Inr (headp (remove1 a (a # as)), h')"
      "dlist h' (headp (remove1 a (a # as))) (remove1 a (a # as))"
      "same_elsewhere h h' (set (a # as) - {a})"
    using l ok by (rule modperl_list_remove_dlist)
  with na show ?thesis by (intro that [of h']) auto
qed

text \<open>Removal by data: the first node that carries it is unlinked and handed back.\<close>

lemma list_remove_data_loop_walk:
  assumes "dseg h pv p (xs @ a # ys) None" "\<forall>x \<in> set xs. node_data h x \<noteq> d" "node_data h a = d"
    and "length xs < fuel"
  shows "list_remove_data_loop fuel h list d lp p =
    and_then (list_unlink h list (Some a)) (\<lambda>(l', h'). Inr (l', Some a, h'))"
  using assms
proof (induction xs arbitrary: pv p fuel)
  case Nil
  then show ?case by (cases fuel) (auto simp: node_data_def split: option.splits)
next
  case (Cons x xs)
  then show ?case by (cases fuel) (auto simp: node_data_def split: option.splits)
qed

lemma list_remove_data_loop_absent:
  assumes "dseg h pv p as None" "\<forall>x \<in> set as. node_data h x \<noteq> d" "length as < fuel"
  shows "list_remove_data_loop fuel h list d lp p = Inr (list, lp, h)"
  using assms
proof (induction as arbitrary: pv p fuel)
  case Nil
  then show ?case by (cases fuel) auto
next
  case (Cons x xs)
  then show ?case by (cases fuel) (auto simp: node_data_def split: option.splits)
qed

lemma modperl_list_remove_data_absent:
  assumes l: "dlist h p as" and ok: "heap_ok h as" and d: "d \<notin> node_data h ` set as"
  shows "modperl_list_remove_data h p d lp = Inr (p, lp, h)"
  unfolding modperl_list_remove_data_def
  using l d dlist_fuel [OF l ok] by (intro list_remove_data_loop_absent) (auto simp: dlist_def)

lemma modperl_list_remove_data_dlist:
  assumes l: "dlist h p (xs @ a # ys)" and ok: "heap_ok h (xs @ a # ys)"
    and d: "node_data h a = d" "\<forall>x \<in> set xs. node_data h x \<noteq> d"
  obtains h' where "modperl_list_remove_data h p d lp = Inr (headp (xs @ ys), Some a, h')"
    "dlist h' (headp (xs @ ys)) (xs @ ys)" "same_elsewhere h h' (set xs \<union> set ys)"
proof -
  obtain h' where h': "list_unlink h p (Some a) = Inr (headp (xs @ ys), h')"
      "dlist h' (headp (xs @ ys)) (xs @ ys)" "same_elsewhere h h' (set xs \<union> set ys)"
    using l by (rule list_unlink_dlist)
  have "modperl_list_remove_data h p d lp =
      and_then (list_unlink h p (Some a)) (\<lambda>(l', h'). Inr (l', Some a, h'))"
    unfolding modperl_list_remove_data_def
    using l d dlist_fuel [OF l ok] by (intro list_remove_data_loop_walk) (auto simp: dlist_def)
  with h' show ?thesis by (intro that [of h']) auto
qed

end
