(* ===== verification/Tipool.thy ===== *)
theory Tipool
  imports Tilist
begin

text \<open>
  The thread item pool of \<^verbatim>\<open>src/src/modules/perl/modperl_tipool.c\<close>: an idle list and a busy
  list of nodes, each node holding one item, and the two counters \<open>in_use\<close> and \<open>size\<close>.

  Every operation here runs with \<open>tiplock\<close> held, so it is one atomic step; the waiting loop of
  \<open>modperl_tipool_pop\<close>, which releases the lock, is the outcome \<open>Blocked\<close>, and the theory
  \<^verbatim>\<open>Tipool_Threads\<close> runs the operations of several threads against each other.
  The callbacks of \<open>modperl_tipool_vtbl_t\<close> act on a world \<open>'w\<close> that the pool does not look
  into (the user data of the pool is part of it).

  \<open>tipool_abs\<close> relates the linked structure to the two lists of items it stands for, and the
  lemmas \<open>..._refines\<close> show that each operation implements a function on these two lists.
\<close>

section \<open>State\<close>

record tipool_config =
  cfg_start :: int
  cfg_min_spare :: int
  cfg_max_spare :: int
  cfg_max :: int
  cfg_max_requests :: int

record 'w tipool_vtbl =
  tipool_sgrow :: "'w \<Rightarrow> nat \<times> 'w"
  tipool_rgrow :: "('w \<Rightarrow> nat \<times> 'w) option"
  tipool_destroy_item :: "(nat \<Rightarrow> 'w \<Rightarrow> 'w) option"

record 'w tipool =
  idle :: "nat option"
  busy :: "nat option"
  in_use :: int
  tsize :: int
  cfg :: tipool_config
  func :: "'w tipool_vtbl"
  theap :: lheap
  world :: 'w

section \<open>Operations\<close>

definition modperl_tipool_new :: "tipool_config \<Rightarrow> 'w tipool_vtbl \<Rightarrow> lheap \<Rightarrow> 'w \<Rightarrow> 'w tipool" where
  "modperl_tipool_new c f h w =
     \<lparr>idle = None, busy = None, in_use = 0, tsize = 0, cfg = c, func = f, theap = h, world = w\<rparr>"

definition modperl_tipool_add :: "'w tipool \<Rightarrow> nat \<Rightarrow> 'w tipool res" where
  "modperl_tipool_add tp item =
     (let (listp, h) = modperl_list_new (theap tp) in
      and_then (poke h (Some listp) (\<lambda>n. n\<lparr>ldata := item\<rparr>)) (\<lambda>h1.
      and_then (modperl_list_append h1 (idle tp) (Some listp)) (\<lambda>(l, h2).
        Inr (tp\<lparr>idle := l, theap := h2, tsize := tsize tp + 1\<rparr>))))"

definition modperl_tipool_remove :: "'w tipool \<Rightarrow> nat option \<Rightarrow> 'w tipool res" where
  "modperl_tipool_remove tp listp =
     and_then (modperl_list_remove (theap tp) (idle tp) listp) (\<lambda>(l, h).
       Inr (tp\<lparr>idle := l, theap := h, tsize := tsize tp - 1\<rparr>))"

fun tipool_init_loop :: "nat \<Rightarrow> 'w tipool \<Rightarrow> 'w tipool res" where
  "tipool_init_loop 0 tp = Inr tp"
| "tipool_init_loop (Suc n) tp =
     (let (item, w) = tipool_sgrow (func tp) (world tp) in
      and_then (modperl_tipool_add (tp\<lparr>world := w\<rparr>) item) (\<lambda>tp'. tipool_init_loop n tp'))"

definition modperl_tipool_init :: "'w tipool \<Rightarrow> 'w tipool res" where
  "modperl_tipool_init tp = tipool_init_loop (nat (cfg_start (cfg tp))) tp"

fun tipool_destroy_loop :: "nat \<Rightarrow> 'w tipool \<Rightarrow> 'w tipool res" where
  "tipool_destroy_loop 0 tp = Inl Diverges"
| "tipool_destroy_loop (Suc fuel) tp =
     (if idle tp = None then Inr tp
      else and_then (peek (theap tp) (idle tp)) (\<lambda>n.
        let w = (case tipool_destroy_item (func tp) of
                   None \<Rightarrow> world tp | Some d \<Rightarrow> d (ldata n) (world tp)) in
        and_then (free_cell (theap tp) (idle tp)) (\<lambda>h.
          tipool_destroy_loop fuel
            (tp\<lparr>world := w, tsize := tsize tp - 1, theap := h, idle := lnext n\<rparr>))))"

definition modperl_tipool_destroy :: "'w tipool \<Rightarrow> 'w tipool res" where
  "modperl_tipool_destroy tp = tipool_destroy_loop (Suc (brk (theap tp))) tp"

text \<open>\<open>tipool_rgrow\<close> and \<open>modperl_tipool_add\<close> together, as both callers use them.\<close>

definition tipool_grow :: "'w tipool \<Rightarrow> 'w tipool res" where
  "tipool_grow tp = (case tipool_rgrow (func tp) of
       None \<Rightarrow> Inr tp
     | Some g \<Rightarrow> (let (item, w) = g (world tp) in modperl_tipool_add (tp\<lparr>world := w\<rparr>) item))"

datatype 'w pop_outcome = Blocked "'w tipool" | Popped "nat option" "'w tipool"

definition tipool_pop_take :: "'w tipool \<Rightarrow> 'w pop_outcome res" where
  "tipool_pop_take tp =
     (let head = idle tp in
      and_then (modperl_list_remove (theap tp) (idle tp) head) (\<lambda>(l, h).
      and_then (modperl_list_append h (busy tp) head) (\<lambda>(b, h').
        if head = None then Inl Aborted
        else Inr (Popped head
          (tp\<lparr>idle := l, busy := b, in_use := in_use tp + 1, theap := h'\<rparr>)))))"

definition modperl_tipool_pop :: "'w tipool \<Rightarrow> 'w pop_outcome res" where
  "modperl_tipool_pop tp =
     (if tsize tp = in_use tp
      then and_then (if tsize tp < cfg_max (cfg tp) then tipool_grow tp else Inr tp) (\<lambda>tp1.
             if tsize tp1 = in_use tp1 then Inr (Blocked tp1) else tipool_pop_take tp1)
      else tipool_pop_take tp)"

text \<open>The body of the waiting loop after a wake-up: the condition is tested again.\<close>

definition tipool_pop_resume :: "'w tipool \<Rightarrow> 'w pop_outcome res" where
  "tipool_pop_resume tp =
     (if tsize tp = in_use tp then Inr (Blocked tp) else tipool_pop_take tp)"

text \<open>
  \<open>modperl_tipool_putback_base\<close> returns the new pool and whether it reached
  \<open>modperl_tipool_broadcast\<close>, that is, whether \<open>COND_SIGNAL\<close> was called.
\<close>

definition tipool_shrink :: "'w tipool \<Rightarrow> nat option \<Rightarrow> bool \<Rightarrow> 'w tipool res" where
  "tipool_shrink tp listp max_requests =
     and_then (modperl_tipool_remove tp listp) (\<lambda>tp1.
     and_then (peek (theap tp1) listp) (\<lambda>n.
       let w = (case tipool_destroy_item (func tp1) of
                  None \<Rightarrow> world tp1 | Some d \<Rightarrow> d (ldata n) (world tp1)) in
     and_then (free_cell (theap tp1) listp) (\<lambda>h.
       let tp2 = tp1\<lparr>world := w, theap := h\<rparr> in
       if max_requests \<and> tsize tp2 - in_use tp2 < cfg_min_spare (cfg tp2)
       then tipool_grow tp2 else Inr tp2)))"

definition modperl_tipool_putback_base ::
    "'w tipool \<Rightarrow> nat option \<Rightarrow> nat \<Rightarrow> int \<Rightarrow> ('w tipool \<times> bool) res" where
  "modperl_tipool_putback_base tp listp data num_requests =
     and_then
       (if listp \<noteq> None
        then and_then (modperl_list_remove (theap tp) (busy tp) listp) (\<lambda>(b, h).
               Inr (b, listp, h))
        else modperl_list_remove_data (theap tp) (busy tp) data listp) (\<lambda>(b, listp', h).
     let tp1 = tp\<lparr>busy := b, theap := h\<rparr> in
     if listp' = None then Inr (tp1, False)
     else and_then (modperl_list_prepend h (idle tp1) listp') (\<lambda>(l, h2).
       let tp2 = tp1\<lparr>idle := l, theap := h2, in_use := in_use tp1 - 1\<rparr> in
       if in_use tp2 = cfg_max (cfg tp2) - 1 then Inr (tp2, True)
       else
         let max_spare = (tsize tp2 - in_use tp2 > cfg_max_spare (cfg tp2));
             max_requests = (num_requests > 0 \<and> num_requests > cfg_max_requests (cfg tp2))
         in if max_spare \<or> max_requests
            then and_then (tipool_shrink tp2 listp' max_requests) (\<lambda>tp3. Inr (tp3, True))
            else Inr (tp2, True)))"

definition modperl_tipool_putback_data :: "'w tipool \<Rightarrow> nat \<Rightarrow> int \<Rightarrow> ('w tipool \<times> bool) res" where
  "modperl_tipool_putback_data tp data num_requests =
     modperl_tipool_putback_base tp None data num_requests"

definition modperl_tipool_putback ::
    "'w tipool \<Rightarrow> nat option \<Rightarrow> int \<Rightarrow> ('w tipool \<times> bool) res" where
  "modperl_tipool_putback tp listp num_requests =
     modperl_tipool_putback_base tp listp 0 num_requests"

section \<open>The two lists of items a pool stands for\<close>

definition tipool_rel :: "'w tipool \<Rightarrow> nat list \<Rightarrow> nat list \<Rightarrow> bool" where
  "tipool_rel tp is bs \<longleftrightarrow>
     dlist (theap tp) (idle tp) is \<and> dlist (theap tp) (busy tp) bs \<and>
     set is \<inter> set bs = {} \<and> heap_ok (theap tp) (is @ bs) \<and>
     in_use tp = int (length bs) \<and> tsize tp = int (length is + length bs)"

definition tipool_abs :: "'w tipool \<Rightarrow> nat list \<Rightarrow> nat list \<Rightarrow> bool" where
  "tipool_abs tp I B \<longleftrightarrow> (\<exists>is bs. tipool_rel tp is bs \<and>
     I = map (node_data (theap tp)) is \<and> B = map (node_data (theap tp)) bs)"

text \<open>
  The specification: a pool is the list \<open>I\<close> of idle items, the list \<open>B\<close> of busy items and the
  world of the callbacks.
\<close>

fun spec_grow :: "'w tipool_vtbl \<Rightarrow> nat list \<times> 'w \<Rightarrow> nat list \<times> 'w" where
  "spec_grow f (I, w) = (case tipool_rgrow f of
       None \<Rightarrow> (I, w)
     | Some g \<Rightarrow> (let (x, w') = g w in (I @ [x], w')))"

fun spec_destroy :: "'w tipool_vtbl \<Rightarrow> nat \<Rightarrow> 'w \<Rightarrow> 'w" where
  "spec_destroy f x w = (case tipool_destroy_item f of None \<Rightarrow> w | Some d \<Rightarrow> d x w)"

definition spec_pop_grow ::
    "tipool_config \<Rightarrow> 'w tipool_vtbl \<Rightarrow> nat list \<Rightarrow> nat list \<Rightarrow> 'w \<Rightarrow> nat list \<times> 'w" where
  "spec_pop_grow c f I B w =
     (if I = [] \<and> int (length B) < cfg_max c then spec_grow f (I, w) else (I, w))"

definition spec_putback ::
    "tipool_config \<Rightarrow> 'w tipool_vtbl \<Rightarrow> int \<Rightarrow> nat \<Rightarrow> nat list \<Rightarrow> nat list \<Rightarrow> 'w
      \<Rightarrow> nat list \<times> nat list \<times> 'w" where
  "spec_putback c f n x I B w =
     (let B' = remove1 x B;
          max_spare = (int (length I) + 1 > cfg_max_spare c);
          max_requests = (n > 0 \<and> n > cfg_max_requests c)
      in if x \<notin> set B then (I, B, w)
         else if int (length B') = cfg_max c - 1 \<or> \<not> (max_spare \<or> max_requests)
         then (x # I, B', w)
         else let w1 = spec_destroy f x w;
                  (I', w') = (if max_requests \<and> int (length I) < cfg_min_spare c
                              then spec_grow f (I, w1) else (I, w1))
              in (I', B', w'))"

section \<open>The operations implement the specification\<close>

lemma tipool_relI [intro?]:
  assumes "dlist (theap tp) (idle tp) is" "dlist (theap tp) (busy tp) bs"
    "set is \<inter> set bs = {}" "heap_ok (theap tp) is" "heap_ok (theap tp) bs"
    "in_use tp = int (length bs)" "tsize tp = int (length is + length bs)"
  shows "tipool_rel tp is bs"
  using assms by (simp add: tipool_rel_def)

lemma tipool_relD:
  assumes "tipool_rel tp is bs"
  shows "dlist (theap tp) (idle tp) is" "dlist (theap tp) (busy tp) bs"
    "set is \<inter> set bs = {}" "heap_ok (theap tp) is" "heap_ok (theap tp) bs"
    "in_use tp = int (length bs)" "tsize tp = int (length is + length bs)"
  using assms by (simp_all add: tipool_rel_def)

lemma tipool_rel_world [simp]: "tipool_rel (tp\<lparr>world := w\<rparr>) is bs = tipool_rel tp is bs"
  by (simp add: tipool_rel_def)

lemma tipool_abs_world [simp]: "tipool_abs (tp\<lparr>world := w\<rparr>) I B = tipool_abs tp I B"
  by (simp add: tipool_abs_def)

lemma tipool_abs_counts:
  assumes "tipool_abs tp I B"
  shows "in_use tp = int (length B)" "tsize tp = int (length I) + int (length B)"
  using assms by (auto simp: tipool_abs_def tipool_rel_def)

lemma same_elsewhere_data: "same_elsewhere h h' S \<Longrightarrow> node_data h' a = node_data h a"
  by (simp add: same_elsewhere_def)

lemma same_elsewhere_cell: "same_elsewhere h h' S \<Longrightarrow> cells h a \<noteq> None \<Longrightarrow> cells h' a \<noteq> None"
  by (metis domIff same_elsewhere_def)

lemma modperl_tipool_new_abs:
  assumes "heap_ok h []"
  shows "tipool_abs (modperl_tipool_new c f h w) [] []"
  using assms unfolding tipool_abs_def
  by (intro exI [of _ "[]"]) (simp add: tipool_rel_def modperl_tipool_new_def dlist_def)

lemma modperl_tipool_add_rel:
  assumes "tipool_rel tp is bs"
  obtains h where
    "modperl_tipool_add tp x = Inr (tp\<lparr>idle := headp (is @ [brk (theap tp)]), theap := h,
        tsize := tsize tp + 1\<rparr>)"
    "tipool_rel (tp\<lparr>idle := headp (is @ [brk (theap tp)]), theap := h, tsize := tsize tp + 1\<rparr>)
       (is @ [brk (theap tp)]) bs"
    "map (node_data h) (is @ [brk (theap tp)]) = map (node_data (theap tp)) is @ [x]"
    "map (node_data h) bs = map (node_data (theap tp)) bs"
proof -
  let ?a = "brk (theap tp)" and ?h1 = "new_cell (theap tp) x"
  note r = tipool_relD [OF assms]
  note iw = new_cell_other(1,2,4) [OF r(4), where d = x]
    and bw = new_cell_other(1,2,4) [OF r(5), where d = x]
    and fresh = new_cell_other(3) [OF r(4)] new_cell_other(3) [OF r(5)]
  obtain h2 where h2: "modperl_list_append ?h1 (idle tp) (Some ?a) = Inr (headp (is @ [?a]), h2)"
      "dlist h2 (headp (is @ [?a])) (is @ [?a])" "same_elsewhere ?h1 h2 (insert ?a (set is))"
    using iw(1) [OF r(1)] iw(2) new_cell_self(1) fresh(1) by (rule modperl_list_append_dlist)
  have ok: "heap_ok h2 (is @ [?a])" "heap_ok h2 bs"
    using heap_ok_elsewhere [OF iw(2) h2(3)] heap_ok_elsewhere [OF bw(2) h2(3)] h2(3)
    by (auto simp: heap_ok_def same_elsewhere_def)
  have "dlist h2 (busy tp) bs"
    using bw(1) [OF r(2)] h2(3) fresh(2) r(3) by (intro dlist_elsewhere [OF _ h2(3)]) auto
  moreover have "modperl_tipool_add tp x = Inr (tp\<lparr>idle := headp (is @ [?a]), theap := h2,
      tsize := tsize tp + 1\<rparr>)"
    using h2(1) modperl_list_new_store [of "theap tp"]
    by (auto simp: modperl_tipool_add_def split: prod.splits)
  moreover have "map (node_data h2) (is @ [?a]) = map (node_data (theap tp)) is @ [x]"
      "map (node_data h2) bs = map (node_data (theap tp)) bs"
    using same_elsewhere_data [OF h2(3)] iw(3) bw(3) by auto
  ultimately show ?thesis
    using r h2(2) ok fresh by (intro that) (auto intro!: tipool_relI)
qed

lemma modperl_tipool_add_refines:
  assumes "tipool_abs tp I B"
  obtains tp' where "modperl_tipool_add tp x = Inr tp'" "tipool_abs tp' (I @ [x]) B"
    "world tp' = world tp" "cfg tp' = cfg tp" "func tp' = func tp"
proof -
  from assms obtain "is" bs where ib: "tipool_rel tp is bs"
      "I = map (node_data (theap tp)) is" "B = map (node_data (theap tp)) bs"
    by (auto simp: tipool_abs_def)
  from ib(1) obtain h where h: "modperl_tipool_add tp x = Inr (tp\<lparr>idle := headp (is @ [brk (theap tp)]),
        theap := h, tsize := tsize tp + 1\<rparr>)"
      "tipool_rel (tp\<lparr>idle := headp (is @ [brk (theap tp)]), theap := h, tsize := tsize tp + 1\<rparr>)
         (is @ [brk (theap tp)]) bs"
      "map (node_data h) (is @ [brk (theap tp)]) = map (node_data (theap tp)) is @ [x]"
      "map (node_data h) bs = map (node_data (theap tp)) bs"
    by (rule modperl_tipool_add_rel)
  have "tipool_abs (tp\<lparr>idle := headp (is @ [brk (theap tp)]), theap := h, tsize := tsize tp + 1\<rparr>)
      (I @ [x]) B"
    unfolding tipool_abs_def using h(2-4) ib by (intro exI conjI) auto
  then show ?thesis by (rule that [OF h(1)]) simp_all
qed

lemma tipool_grow_refines:
  assumes "tipool_abs tp I B"
  obtains tp' where "tipool_grow tp = Inr tp'"
    "tipool_abs tp' (fst (spec_grow (func tp) (I, world tp))) B"
    "world tp' = snd (spec_grow (func tp) (I, world tp))" "cfg tp' = cfg tp" "func tp' = func tp"
proof (cases "tipool_rgrow (func tp)")
  case None
  with assms show ?thesis by (intro that [of tp]) (auto simp: tipool_grow_def)
next
  case (Some g)
  obtain x w where g: "g (world tp) = (x, w)" by fastforce
  have "tipool_abs (tp\<lparr>world := w\<rparr>) I B" using assms by simp
  then obtain tp' where "modperl_tipool_add (tp\<lparr>world := w\<rparr>) x = Inr tp'"
      "tipool_abs tp' (I @ [x]) B" "world tp' = w" "cfg tp' = cfg tp" "func tp' = func tp"
    by (rule modperl_tipool_add_refines) auto
  with Some g show ?thesis by (intro that [of tp']) (auto simp: tipool_grow_def)
qed

lemma dlist_cell:
  assumes "dlist h p as" "a \<in> set as"
  obtains n where "cells h a = Some n"
  using assms by (auto simp: dlist_def dest: dseg_cells)

lemma dlist_cell_elsewhere:
  assumes "dlist h p as" "same_elsewhere h h' S" "a \<in> set as"
  obtains n where "cells h' a = Some n"
proof -
  obtain m where "cells h a = Some m" using assms(1,3) by (rule dlist_cell)
  then have "cells h' a \<noteq> None" using same_elsewhere_cell [OF assms(2)] by simp
  then show ?thesis using that by auto
qed

lemma tipool_pop_take_rel:
  assumes "tipool_rel tp (a # is) bs"
  obtains h where
    "tipool_pop_take tp = Inr (Popped (Some a)
       (tp\<lparr>idle := headp is, busy := headp (bs @ [a]), in_use := in_use tp + 1, theap := h\<rparr>))"
    "tipool_rel (tp\<lparr>idle := headp is, busy := headp (bs @ [a]), in_use := in_use tp + 1, theap := h\<rparr>)
       is (bs @ [a])"
    "\<forall>b. node_data h b = node_data (theap tp) b"
proof -
  note r = tipool_relD [OF assms]
  have na: "a \<notin> set bs" "a \<notin> set is" using r(1,3) by (auto simp: dlist_def)
  obtain h1 where h1: "modperl_list_remove (theap tp) (idle tp) (Some a) = Inr (headp is, h1)"
      "dlist h1 (headp is) is" "same_elsewhere (theap tp) h1 (set is)"
    using r(1,4) by (rule modperl_list_remove_head)
  have b1: "dlist h1 (busy tp) bs" by (rule dlist_elsewhere [OF r(2) h1(3)]) (use r(3) in auto)
  obtain n where n: "cells h1 a = Some n"
    using r(1) h1(3) by (rule dlist_cell_elsewhere [where a = a]) simp
  obtain h2 where h2: "modperl_list_append h1 (busy tp) (Some a) = Inr (headp (bs @ [a]), h2)"
      "dlist h2 (headp (bs @ [a])) (bs @ [a])" "same_elsewhere h1 h2 (insert a (set bs))"
    using b1 heap_ok_elsewhere [OF r(5) h1(3)] n na(1) by (rule modperl_list_append_dlist)
  have "dlist h2 (headp is) is" by (rule dlist_elsewhere [OF h1(2) h2(3)]) (use na r(3) in auto)
  moreover have "heap_ok h2 (a # is)" "heap_ok h2 bs"
    using r(4,5) h1(3) h2(3) heap_ok_elsewhere by blast+
  moreover have "tipool_pop_take tp = Inr (Popped (Some a)
      (tp\<lparr>idle := headp is, busy := headp (bs @ [a]), in_use := in_use tp + 1, theap := h2\<rparr>))"
    using h1(1) h2(1) dlist_start [OF r(1)] by (simp add: tipool_pop_take_def)
  moreover have "node_data h2 b = node_data (theap tp) b" for b
    using same_elsewhere_data [OF h1(3)] same_elsewhere_data [OF h2(3)] by simp
  ultimately show ?thesis
    using r h2(2) na by (intro that) (auto intro!: tipool_relI simp: heap_ok_def)
qed

lemma tipool_pop_take_refines:
  assumes "tipool_abs tp (x # I) B"
  obtains a tp' where "tipool_pop_take tp = Inr (Popped (Some a) tp')"
    "tipool_abs tp' I (B @ [x])" "\<exists>n. cells (theap tp') a = Some n \<and> ldata n = x"
    "world tp' = world tp" "cfg tp' = cfg tp" "func tp' = func tp"
proof -
  from assms obtain "is'" bs where "tipool_rel tp is' bs" "x # I = map (node_data (theap tp)) is'"
      and B: "B = map (node_data (theap tp)) bs"
    by (auto simp: tipool_abs_def)
  then obtain a "is" where a: "tipool_rel tp (a # is) bs" "node_data (theap tp) a = x"
      "I = map (node_data (theap tp)) is"
    by (cases is') auto
  from a(1) obtain h where h: "tipool_pop_take tp = Inr (Popped (Some a)
       (tp\<lparr>idle := headp is, busy := headp (bs @ [a]), in_use := in_use tp + 1, theap := h\<rparr>))"
      "tipool_rel (tp\<lparr>idle := headp is, busy := headp (bs @ [a]), in_use := in_use tp + 1, theap := h\<rparr>)
         is (bs @ [a])"
      "\<forall>b. node_data h b = node_data (theap tp) b"
    by (rule tipool_pop_take_rel)
  have "tipool_abs (tp\<lparr>idle := headp is, busy := headp (bs @ [a]), in_use := in_use tp + 1, theap := h\<rparr>)
      I (B @ [x])"
    unfolding tipool_abs_def using h(2,3) a B by (intro exI conjI) auto
  moreover obtain n where "cells h a = Some n"
    using tipool_relD(2) [OF h(2)] by (auto elim: dlist_cell)
  moreover have "node_data h a = x" using h(3) a(2) by simp
  ultimately show ?thesis by (intro that [OF h(1)]) auto
qed

lemma tipool_pop_take_empty:
  assumes "tipool_abs tp [] B"
  shows "tipool_pop_take tp = Inl NullDeref"
proof -
  have "idle tp = None" using assms by (auto simp: tipool_abs_def tipool_rel_def dlist_def)
  then show ?thesis
    by (simp add: tipool_pop_take_def modperl_list_remove_def modperl_list_append_def)
qed

text \<open>
  \<open>pop_ok tp I B w r\<close>: from a pool of idle items \<open>I\<close>, the outcome \<open>r\<close> takes the first item when
  there is one, and blocks otherwise.
\<close>

definition pop_ok ::
    "'w tipool \<Rightarrow> nat list \<Rightarrow> nat list \<Rightarrow> 'w \<Rightarrow> 'w pop_outcome \<Rightarrow> bool" where
  "pop_ok tp I B w r = (case r of
       Blocked tp' \<Rightarrow> I = [] \<and> tipool_abs tp' [] B \<and> world tp' = w \<and>
         cfg tp' = cfg tp \<and> func tp' = func tp
     | Popped p tp' \<Rightarrow> (\<exists>a n x I'. p = Some a \<and> I = x # I' \<and> cells (theap tp') a = Some n \<and> ldata n = x \<and>
         tipool_abs tp' I' (B @ [x]) \<and> world tp' = w \<and> cfg tp' = cfg tp \<and> func tp' = func tp))"

lemma tipool_pop_resume_refines:
  assumes "tipool_abs tp I B"
  obtains r where "tipool_pop_resume tp = Inr r" "pop_ok tp I B (world tp) r"
proof (cases I)
  case Nil
  then have "tsize tp = in_use tp" using tipool_abs_counts [OF assms] by simp
  with Nil assms show ?thesis
    by (intro that [of "Blocked tp"]) (auto simp: tipool_pop_resume_def pop_ok_def)
next
  case (Cons x I')
  then have "tsize tp \<noteq> in_use tp" using tipool_abs_counts [OF assms] by simp
  moreover obtain a tp' where "tipool_pop_take tp = Inr (Popped (Some a) tp')"
      "tipool_abs tp' I' (B @ [x])" "\<exists>n. cells (theap tp') a = Some n \<and> ldata n = x"
      "world tp' = world tp" "cfg tp' = cfg tp" "func tp' = func tp"
    using assms unfolding Cons by (rule tipool_pop_take_refines)
  ultimately show ?thesis using Cons
    by (intro that [of "Popped (Some a) tp'"]) (auto simp: tipool_pop_resume_def pop_ok_def)
qed

lemma modperl_tipool_pop_refines:
  assumes "tipool_abs tp I B"
  obtains r where "modperl_tipool_pop tp = Inr r"
    "pop_ok tp (fst (spec_pop_grow (cfg tp) (func tp) I B (world tp))) B
       (snd (spec_pop_grow (cfg tp) (func tp) I B (world tp))) r"
proof -
  note counts = tipool_abs_counts [OF assms]
  have full: "tsize tp = in_use tp \<longleftrightarrow> I = []" using counts by auto
  obtain tp1 where tp1: "(if I = [] \<and> tsize tp < cfg_max (cfg tp) then tipool_grow tp else Inr tp) = Inr tp1"
      "tipool_abs tp1 (fst (spec_pop_grow (cfg tp) (func tp) I B (world tp))) B"
      "world tp1 = snd (spec_pop_grow (cfg tp) (func tp) I B (world tp))"
      "cfg tp1 = cfg tp" "func tp1 = func tp"
  proof (cases "I = [] \<and> tsize tp < cfg_max (cfg tp)")
    case True
    then have "spec_pop_grow (cfg tp) (func tp) I B (world tp) = spec_grow (func tp) (I, world tp)"
      using counts by (simp add: spec_pop_grow_def)
    moreover obtain tp' where "tipool_grow tp = Inr tp'"
        "tipool_abs tp' (fst (spec_grow (func tp) (I, world tp))) B"
        "world tp' = snd (spec_grow (func tp) (I, world tp))" "cfg tp' = cfg tp" "func tp' = func tp"
      using assms by (rule tipool_grow_refines)
    ultimately show thesis using True by (intro that [of tp']) auto
  next
    case False
    then have "spec_pop_grow (cfg tp) (func tp) I B (world tp) = (I, world tp)"
      using counts by (auto simp: spec_pop_grow_def)
    with False assms show thesis by (intro that [of tp]) auto
  qed
  obtain r where r: "tipool_pop_resume tp1 = Inr r"
      "pop_ok tp1 (fst (spec_pop_grow (cfg tp) (func tp) I B (world tp))) B (world tp1) r"
    using tp1(2) by (rule tipool_pop_resume_refines)
  have "modperl_tipool_pop tp = tipool_pop_resume tp1"
    using tp1(1) full by (cases "I = []") (auto simp: modperl_tipool_pop_def tipool_pop_resume_def)
  moreover have "pop_ok tp = pop_ok tp1" using tp1(4,5) by (intro ext) (simp add: pop_ok_def split: pop_outcome.split)
  ultimately show ?thesis using r tp1(3) by (intro that) auto
qed

text \<open>Putting an item back: the node moves to the front of the idle list.\<close>

lemma putback_move_rel:
  assumes rel: "tipool_rel tp is (xs @ a # ys)" and x: "\<forall>b \<in> set xs. node_data (theap tp) b \<noteq> x"
    and a: "node_data (theap tp) a = x"
  obtains h h2 where
    "modperl_list_remove_data (theap tp) (busy tp) x None = Inr (headp (xs @ ys), Some a, h)"
    "modperl_list_prepend h (idle tp) (Some a) = Inr (Some a, h2)"
    "tipool_rel (tp\<lparr>busy := headp (xs @ ys), idle := Some a, theap := h2, in_use := in_use tp - 1\<rparr>)
       (a # is) (xs @ ys)"
    "\<forall>b. node_data h2 b = node_data (theap tp) b"
proof -
  note r = tipool_relD [OF rel]
  have na: "a \<notin> set is" "a \<notin> set xs \<union> set ys" using r(2,3) by (auto simp: dlist_def)
  obtain h where h: "modperl_list_remove_data (theap tp) (busy tp) x None
        = Inr (headp (xs @ ys), Some a, h)"
      "dlist h (headp (xs @ ys)) (xs @ ys)" "same_elsewhere (theap tp) h (set xs \<union> set ys)"
    using r(2,5) a x by (rule modperl_list_remove_data_dlist)
  have i1: "dlist h (idle tp) is" by (rule dlist_elsewhere [OF r(1) h(3)]) (use r(3) in auto)
  obtain n where n: "cells h a = Some n"
    using r(2) h(3) by (rule dlist_cell_elsewhere [where a = a]) simp
  obtain h2 where h2: "modperl_list_prepend h (idle tp) (Some a) = Inr (Some a, h2)"
      "dlist h2 (Some a) (a # is)" "same_elsewhere h h2 (insert a (set is))"
    using i1 n na(1) by (rule modperl_list_prepend_dlist)
  have "dlist h2 (headp (xs @ ys)) (xs @ ys)"
    by (rule dlist_elsewhere [OF h(2) h2(3)]) (use na r(3) in auto)
  moreover have "heap_ok h2 is" "heap_ok h2 (xs @ a # ys)"
    using r(4,5) h(3) h2(3) heap_ok_elsewhere by blast+
  moreover have "\<forall>b. node_data h2 b = node_data (theap tp) b"
    using same_elsewhere_data [OF h(3)] same_elsewhere_data [OF h2(3)] by simp
  ultimately show ?thesis
    using r h(1) h2(1,2) na by (intro that) (auto intro!: tipool_relI simp: heap_ok_def)
qed

text \<open>Destroying the item at the front of the idle list.\<close>

lemma tipool_shrink_refines:
  assumes rel: "tipool_rel tp (a # is) bs"
    and names: "node_data (theap tp) a = x" "map (node_data (theap tp)) is = I"
      "map (node_data (theap tp)) bs = B" "world tp = w" "cfg tp = c" "func tp = f"
    and J: "J = (if mr \<and> int (length I) < cfg_min_spare c
        then spec_grow f (I, spec_destroy f x w) else (I, spec_destroy f x w))"
  obtains tp' where "tipool_shrink tp (Some a) mr = Inr tp'" "tipool_abs tp' (fst J) B"
    "world tp' = snd J" "cfg tp' = c" "func tp' = f"
proof -
  let ?w = "spec_destroy f x w"
  have len: "length is = length I" using names(2) by auto
  note r = tipool_relD [OF rel]
  have na: "a \<notin> set is" "a \<notin> set bs" using r(1,3) by (auto simp: dlist_def)
  obtain h where h: "modperl_list_remove (theap tp) (idle tp) (Some a) = Inr (headp is, h)"
      "dlist h (headp is) is" "same_elsewhere (theap tp) h (set is)"
    using r(1,4) by (rule modperl_list_remove_head)
  obtain n where n: "cells h a = Some n"
    using r(1) h(3) by (rule dlist_cell_elsewhere [where a = a]) simp
  have nd: "ldata n = x" using same_elsewhere_data [OF h(3), of a] n names(1) by simp
  let ?h = "h\<lparr>cells := (cells h)(a := None)\<rparr>"
  let ?tp2 = "tp\<lparr>idle := headp is, tsize := tsize tp - 1, world := ?w, theap := ?h\<rparr>"
  have hb: "dlist h (busy tp) bs" by (rule dlist_elsewhere [OF r(2) h(3)]) (use r(3) in auto)
  have ok: "heap_ok h is" "heap_ok h bs"
    using heap_ok_elsewhere [OF r(4) h(3)] heap_ok_elsewhere [OF r(5) h(3)]
    by (auto simp: heap_ok_def)
  have "tipool_rel ?tp2 is bs"
    using r h(2) hb ok na free_other [OF na(1)] free_other [OF na(2)] by (auto intro!: tipool_relI)
  moreover have "map (node_data ?h) is = I" "map (node_data ?h) bs = B"
    using na same_elsewhere_data [OF h(3)] names(2,3) by (auto simp: free_other)
  ultimately have abs: "tipool_abs ?tp2 I B" unfolding tipool_abs_def by fastforce
  have cnt: "tsize ?tp2 - in_use ?tp2 = int (length I)" using r len by simp
  have eq: "tipool_shrink tp (Some a) mr =
      (if mr \<and> int (length I) < cfg_min_spare c then tipool_grow ?tp2 else Inr ?tp2)"
    using h(1) n nd cnt names(4-6)
    by (simp add: tipool_shrink_def modperl_tipool_remove_def Let_def split: option.split)
  show ?thesis
  proof (cases "mr \<and> int (length I) < cfg_min_spare c")
    case True
    obtain tp' where "tipool_grow ?tp2 = Inr tp'" "tipool_abs tp' (fst (spec_grow f (I, ?w))) B"
        "world tp' = snd (spec_grow f (I, ?w))" "cfg tp' = c" "func tp' = f"
      using abs by (rule tipool_grow_refines) (use names(5,6) in auto)
    with True eq J show ?thesis by (intro that [of tp']) auto
  next
    case False
    with abs eq J names(5,6) show ?thesis by (intro that [of ?tp2]) auto
  qed
qed

lemma tipool_absI:
  assumes "tipool_rel tp is bs"
    "map (node_data (theap tp)) is = I" "map (node_data (theap tp)) bs = B"
  shows "tipool_abs tp I B"
  using assms by (auto simp: tipool_abs_def)

lemma tipool_absE:
  assumes "tipool_abs tp I B"
  obtains "is" bs where "tipool_rel tp is bs"
    "I = map (node_data (theap tp)) is" "B = map (node_data (theap tp)) bs"
  using assms by (auto simp: tipool_abs_def)

lemma split_at_image:
  assumes "x \<in> f ` set bs"
  obtains xs a ys where "bs = xs @ a # ys" "f a = x" "\<forall>b \<in> set xs. f b \<noteq> x"
proof -
  from assms have "\<exists>b \<in> set bs. f b = x" by auto
  then show ?thesis using split_list_first_prop [of bs "\<lambda>b. f b = x"] that by blast
qed

lemma putback_data_run:
  assumes abs: "tipool_abs tp I B" and x: "x \<in> set B"
  obtains tp2 a "is" bs where
    "modperl_tipool_putback_data tp x n =
       (if int (length (remove1 x B)) = cfg_max (cfg tp) - 1 \<or>
           \<not> (int (length I) + 1 > cfg_max_spare (cfg tp) \<or> n > 0 \<and> n > cfg_max_requests (cfg tp))
        then Inr (tp2, True)
        else and_then (tipool_shrink tp2 (Some a) (n > 0 \<and> n > cfg_max_requests (cfg tp)))
               (\<lambda>tp3. Inr (tp3, True)))"
    "tipool_rel tp2 (a # is) bs" "node_data (theap tp2) a = x"
    "map (node_data (theap tp2)) is = I" "map (node_data (theap tp2)) bs = remove1 x B"
    "world tp2 = world tp" "cfg tp2 = cfg tp" "func tp2 = func tp"
proof -
  from abs obtain "is" bs where ib: "tipool_rel tp is bs"
      "I = map (node_data (theap tp)) is" "B = map (node_data (theap tp)) bs"
    by (rule tipool_absE)
  from x obtain xs a ys where bs: "bs = xs @ a # ys" and a: "node_data (theap tp) a = x"
      and xs: "\<forall>b \<in> set xs. node_data (theap tp) b \<noteq> x"
    unfolding ib(3) set_map by (rule split_at_image)
  from ib(1) have "tipool_rel tp is (xs @ a # ys)" by (simp add: bs)
  from this xs a obtain h h2 where h:
      "modperl_list_remove_data (theap tp) (busy tp) x None = Inr (headp (xs @ ys), Some a, h)"
      "modperl_list_prepend h (idle tp) (Some a) = Inr (Some a, h2)"
      "tipool_rel (tp\<lparr>busy := headp (xs @ ys), idle := Some a, theap := h2, in_use := in_use tp - 1\<rparr>)
         (a # is) (xs @ ys)"
      "\<forall>b. node_data h2 b = node_data (theap tp) b"
    by (rule putback_move_rel)
  let ?tp2 = "tp\<lparr>busy := headp (xs @ ys), idle := Some a, theap := h2, in_use := in_use tp - 1\<rparr>"
  have rem: "remove1 x B = map (node_data (theap tp)) (xs @ ys)"
    using xs a ib(3) bs by (auto simp: remove1_append)
  have cnt: "in_use ?tp2 = int (length (remove1 x B))"
      "tsize ?tp2 - in_use ?tp2 = int (length I) + 1"
    using tipool_relD(6,7) [OF h(3)] rem ib(2) by auto
  have "modperl_tipool_putback_data tp x n =
      (if int (length (remove1 x B)) = cfg_max (cfg tp) - 1 \<or>
           \<not> (int (length I) + 1 > cfg_max_spare (cfg tp) \<or> n > 0 \<and> n > cfg_max_requests (cfg tp))
        then Inr (?tp2, True)
        else and_then (tipool_shrink ?tp2 (Some a) (n > 0 \<and> n > cfg_max_requests (cfg tp)))
               (\<lambda>tp3. Inr (tp3, True)))"
    using h(1,2) cnt
    by (auto simp: modperl_tipool_putback_data_def modperl_tipool_putback_base_def Let_def)
  then show ?thesis using h(3,4) a ib(2) rem by (intro that [OF _ h(3)]) auto
qed

lemma modperl_tipool_putback_data_absent:
  assumes "tipool_abs tp I B" "x \<notin> set B"
  shows "modperl_tipool_putback_data tp x n = Inr (tp, False)"
proof -
  from assms(1) obtain "is" bs where ib: "tipool_rel tp is bs"
      "B = map (node_data (theap tp)) bs"
    by (rule tipool_absE)
  have "modperl_list_remove_data (theap tp) (busy tp) x None = Inr (busy tp, None, theap tp)"
    using tipool_relD(2,5) [OF ib(1)] ib(2) assms(2)
    by (intro modperl_list_remove_data_absent) auto
  then show ?thesis
    by (simp add: modperl_tipool_putback_data_def modperl_tipool_putback_base_def)
qed

lemma modperl_tipool_putback_data_refines:
  assumes abs: "tipool_abs tp I B"
    and spec: "spec_putback (cfg tp) (func tp) n x I B (world tp) = (I', B', w')"
  obtains tp' where "modperl_tipool_putback_data tp x n = Inr (tp', x \<in> set B)"
    "tipool_abs tp' I' B'" "world tp' = w'" "cfg tp' = cfg tp" "func tp' = func tp"
proof (cases "x \<in> set B")
  case False
  with abs spec modperl_tipool_putback_data_absent [OF abs False] show ?thesis
    by (intro that [of tp]) (auto simp: spec_putback_def)
next
  case True
  let ?mr = "n > 0 \<and> n > cfg_max_requests (cfg tp)"
  let ?keep = "int (length (remove1 x B)) = cfg_max (cfg tp) - 1 \<or>
      \<not> (int (length I) + 1 > cfg_max_spare (cfg tp) \<or> ?mr)"
  from abs True obtain tp2 a "is" bs where run:
      "modperl_tipool_putback_data tp x n = (if ?keep then Inr (tp2, True)
         else and_then (tipool_shrink tp2 (Some a) ?mr) (\<lambda>tp3. Inr (tp3, True)))"
      and rel: "tipool_rel tp2 (a # is) bs" "node_data (theap tp2) a = x"
        "map (node_data (theap tp2)) is = I" "map (node_data (theap tp2)) bs = remove1 x B"
      and env: "world tp2 = world tp" "cfg tp2 = cfg tp" "func tp2 = func tp"
    by (rule putback_data_run)
  let ?grown = "if ?mr \<and> int (length I) < cfg_min_spare (cfg tp)
      then spec_grow (func tp) (I, spec_destroy (func tp) x (world tp))
      else (I, spec_destroy (func tp) x (world tp))"
  show ?thesis
  proof (cases ?keep)
    case keep: True
    then have "I' = x # I" "B' = remove1 x B" "w' = world tp"
      using spec True by (auto simp: spec_putback_def Let_def)
    moreover have "tipool_abs tp2 (x # I) (remove1 x B)"
      using rel by (intro tipool_absI [OF rel(1)]) auto
    ultimately show ?thesis using run keep True env by (intro that [of tp2]) auto
  next
    case drop: False
    then have sp: "I' = fst ?grown" "w' = snd ?grown" "B' = remove1 x B"
      using spec True by (auto simp: spec_putback_def Let_def split: prod.splits if_splits)
    from rel(1-4) env obtain tp' where "tipool_shrink tp2 (Some a) ?mr = Inr tp'"
        "tipool_abs tp' (fst ?grown) (remove1 x B)" "world tp' = snd ?grown"
        "cfg tp' = cfg tp" "func tp' = func tp"
      by (rule tipool_shrink_refines) (rule refl)
    with run drop True sp show ?thesis by (intro that [of tp']) auto
  qed
qed

text \<open>Start-up and shut-down.\<close>

fun spec_init :: "'w tipool_vtbl \<Rightarrow> nat \<Rightarrow> 'w \<Rightarrow> nat list \<times> 'w" where
  "spec_init f 0 w = ([], w)"
| "spec_init f (Suc n) w =
     (let (x, w1) = tipool_sgrow f w; (xs, w2) = spec_init f n w1 in (x # xs, w2))"

lemma tipool_init_loop_refines:
  "tipool_abs tp I B \<Longrightarrow> \<exists>tp'. tipool_init_loop n tp = Inr tp' \<and>
     tipool_abs tp' (I @ fst (spec_init (func tp) n (world tp))) B \<and>
     world tp' = snd (spec_init (func tp) n (world tp)) \<and> cfg tp' = cfg tp \<and> func tp' = func tp"
proof (induction n arbitrary: tp I)
  case (Suc n)
  obtain x w1 where g: "tipool_sgrow (func tp) (world tp) = (x, w1)" by fastforce
  have "tipool_abs (tp\<lparr>world := w1\<rparr>) I B" using Suc.prems by simp
  then obtain tp1 where "modperl_tipool_add (tp\<lparr>world := w1\<rparr>) x = Inr tp1"
      "tipool_abs tp1 (I @ [x]) B" "world tp1 = w1" "cfg tp1 = cfg tp" "func tp1 = func tp"
    by (rule modperl_tipool_add_refines) auto
  with Suc.IH [of tp1 "I @ [x]"] g show ?case by (auto simp: split: prod.splits)
qed auto

definition free_all :: "lheap \<Rightarrow> nat list \<Rightarrow> lheap" where
  "free_all h as = h\<lparr>cells := cells h |` (- set as)\<rparr>"

lemma free_all_Nil [simp]: "free_all h [] = h"
  by (simp add: free_all_def restrict_map_def)

lemma cells_free_all:
  "cells (free_all h as) a = (if a \<in> set as then None else cells h a)"
  "brk (free_all h as) = brk h"
  by (simp_all add: free_all_def restrict_map_def)

lemma tipool_destroy_loop_run:
  assumes "dseg (theap tp) pv (idle tp) is None" "distinct is" "length is < fuel"
  shows "tipool_destroy_loop fuel tp =
    Inr (tp\<lparr>idle := None, tsize := tsize tp - int (length is), theap := free_all (theap tp) is,
      world := fold (spec_destroy (func tp)) (map (node_data (theap tp)) is) (world tp)\<rparr>)"
  using assms
proof (induction "is" arbitrary: tp pv fuel)
  case Nil
  then show ?case by (cases fuel) simp_all
next
  case (Cons a "is")
  then obtain f where f: "fuel = Suc f" by (cases fuel) auto
  from Cons.prems(1) obtain n where n: "idle tp = Some a" "cells (theap tp) a = Some n"
      "dseg (theap tp) (Some a) (lnext n) is None"
    by (auto split: option.splits)
  let ?h = "(theap tp)\<lparr>cells := (cells (theap tp))(a := None)\<rparr>"
  let ?tp1 = "tp\<lparr>world := spec_destroy (func tp) (ldata n) (world tp), tsize := tsize tp - 1,
    theap := ?h, idle := lnext n\<rparr>"
  have d: "dseg ?h (Some a) (lnext n) is None = dseg (theap tp) (Some a) (lnext n) is None"
    using Cons.prems(2) by (intro dseg_cong) auto
  have m: "map (node_data ?h) is = map (node_data (theap tp)) is"
    using Cons.prems(2) by (auto simp: node_data_def)
  have "(cells (theap tp))(a := None) |` (- set is) = cells (theap tp) |` (- set (a # is))"
    by (auto simp: restrict_map_def)
  then have h: "free_all ?h is = free_all (theap tp) (a # is)"
    by (simp add: free_all_def)
  have "tipool_destroy_loop fuel tp = tipool_destroy_loop f ?tp1"
    using f n by (simp add: Let_def split: option.split)
  also have "\<dots> = Inr (?tp1\<lparr>idle := None, tsize := tsize ?tp1 - int (length is),
      theap := free_all ?h is,
      world := fold (spec_destroy (func tp)) (map (node_data ?h) is) (world ?tp1)\<rparr>)"
    using Cons.IH [of ?tp1 "Some a" f] d n(3) Cons.prems f by (simp del: spec_destroy.simps)
  finally show ?case using n m h by (simp del: spec_destroy.simps)
qed

lemma modperl_tipool_destroy_refines:
  assumes "tipool_abs tp I B"
  obtains tp' where "modperl_tipool_destroy tp = Inr tp'" "tipool_abs tp' [] B"
    "world tp' = fold (spec_destroy (func tp)) I (world tp)"
proof -
  from assms obtain "is" bs where ib: "tipool_rel tp is bs"
      "I = map (node_data (theap tp)) is" "B = map (node_data (theap tp)) bs"
    by (rule tipool_absE)
  note r = tipool_relD [OF ib(1)]
  let ?tp = "tp\<lparr>idle := None, tsize := tsize tp - int (length is), theap := free_all (theap tp) is,
      world := fold (spec_destroy (func tp)) (map (node_data (theap tp)) is) (world tp)\<rparr>"
  have "modperl_tipool_destroy tp = Inr ?tp"
    unfolding modperl_tipool_destroy_def
    using r(1) dlist_fuel [OF r(1,4)] by (intro tipool_destroy_loop_run) (auto simp: dlist_def)
  moreover have "dseg (free_all (theap tp) is) None (busy tp) bs None = dseg (theap tp) None (busy tp) bs None"
    using r(3) by (intro dseg_cong) (auto simp: cells_free_all)
  then have "tipool_rel ?tp [] bs"
    using r by (intro tipool_relI) (auto simp: dlist_def heap_ok_def cells_free_all)
  then have "tipool_abs ?tp [] B"
    using r(3) ib(3) by (intro tipool_absI) (auto simp: cells_free_all node_data_def)
  ultimately show ?thesis using ib(2) by (intro that [of ?tp]) auto
qed

end
