(* ===== verification/Tipool_Threads.thy ===== *)
theory Tipool_Threads
  imports Tipool "HOL-Library.Multiset"
begin

text \<open>
  Several threads that share one pool. The pool's mutex makes each critical section of
  \<open>modperl_tipool_pop\<close> and \<open>modperl_tipool_putback_data\<close> one atomic step. A thread that finds
  \<open>size == in_use\<close> waits on the condition variable; \<open>COND_SIGNAL\<close> wakes one waiting thread,
  and, as POSIX allows, a thread may also wake up for no reason. A woken thread has to get
  the mutex again and re-tests the condition of the \<open>while\<close> loop; another thread may have
  taken the item before it.

  Shown for every interleaving: no operation crashes, no item is held by two threads, the
  counters agree with the lists, a wake-up is never lost, and, when the pool is configured to
  keep at least one spare item, the threads cannot all wait for each other.
\<close>

section \<open>The system of threads\<close>

record 'w tsys =
  pool :: "'w tipool"
  waiting :: "nat list"            \<comment> \<open>threads inside \<open>COND_WAIT\<close>\<close>
  ready :: "nat list"              \<comment> \<open>threads woken up that do not have the mutex yet\<close>
  holders :: "(nat \<times> nat) list"   \<comment> \<open>thread and the item it took\<close>

datatype tevent =
    Pop nat                          \<comment> \<open>a thread calls \<open>modperl_tipool_pop\<close>\<close>
  | Resume nat                       \<comment> \<open>a woken thread gets the mutex\<close>
  | Spurious nat                     \<comment> \<open>a waiting thread wakes up without a signal\<close>
  | Putback nat nat int "nat option" \<comment> \<open>a thread returns an item; the thread the signal wakes\<close>

definition after_pop :: "'w tsys \<Rightarrow> nat \<Rightarrow> 'w pop_outcome res \<Rightarrow> 'w tsys res" where
  "after_pop s t r = and_then r (\<lambda>r. case r of
       Blocked p \<Rightarrow> Inr (s\<lparr>pool := p, waiting := t # waiting s\<rparr>)
     | Popped head p \<Rightarrow> and_then (peek (theap p) head) (\<lambda>n.
         Inr (s\<lparr>pool := p, holders := (t, ldata n) # holders s\<rparr>)))"

text \<open>\<open>None\<close>: the event cannot happen in this state. \<open>Some (Inl e)\<close>: the code crashes.\<close>

fun texec :: "tevent \<Rightarrow> 'w tsys \<Rightarrow> 'w tsys res option" where
  "texec (Pop t) s =
     (if t \<in> set (waiting s) \<or> t \<in> set (ready s) then None
      else Some (after_pop s t (modperl_tipool_pop (pool s))))"
| "texec (Resume t) s =
     (if t \<notin> set (ready s) then None
      else Some (after_pop (s\<lparr>ready := remove1 t (ready s)\<rparr>) t (tipool_pop_resume (pool s))))"
| "texec (Spurious t) s =
     (if t \<notin> set (waiting s) then None
      else Some (Inr (s\<lparr>waiting := remove1 t (waiting s), ready := t # ready s\<rparr>)))"
| "texec (Putback t x n woken) s =
     (if (t, x) \<notin> set (holders s) then None
      else (case modperl_tipool_putback_data (pool s) x n of
          Inl e \<Rightarrow> Some (Inl e)
        | Inr (p, sig) \<Rightarrow>
            let s1 = s\<lparr>pool := p, holders := remove1 (t, x) (holders s)\<rparr> in
            (case woken of
               None \<Rightarrow> if sig \<and> waiting s \<noteq> [] then None else Some (Inr s1)
             | Some u \<Rightarrow>
                 if sig \<and> u \<in> set (waiting s)
                 then Some (Inr (s1\<lparr>waiting := remove1 u (waiting s), ready := u # ready s\<rparr>))
                 else None)))"

inductive treach :: "'w tsys \<Rightarrow> 'w tsys \<Rightarrow> bool" for s0 where
  start: "treach s0 s0"
| step: "treach s0 s \<Longrightarrow> texec e s = Some (Inr s') \<Longrightarrow> treach s0 s'"

fun texec_all :: "tevent list \<Rightarrow> 'w tsys \<Rightarrow> 'w tsys res option" where
  "texec_all [] s = Some (Inr s)"
| "texec_all (e # es) s = (case texec e s of
       Some (Inr s') \<Rightarrow> texec_all es s'
     | r \<Rightarrow> r)"

lemma texec_all_treach: "texec_all es s = Some (Inr s') \<Longrightarrow> treach s0 s \<Longrightarrow> treach s0 s'"
  by (induction es arbitrary: s) (auto split: option.splits sum.splits intro: treach.step)

definition tsys_start :: "'w tipool \<Rightarrow> 'w tsys" where
  "tsys_start p = \<lparr>pool = p, waiting = [], ready = [], holders = []\<rparr>"

section \<open>What the pool expects of its callbacks\<close>

text \<open>
  An item source: in a sane world the pointers that the grow callbacks hand out are new (they come
  from \<open>malloc\<close>), and destroying a live item ends its life and no other. \<open>live\<close> is the set of items
  that exist in a world; a world stops being sane when a callback is called on a dead item.
\<close>

locale item_source =
  fixes f :: "'w tipool_vtbl" and live :: "'w \<Rightarrow> nat set" and sane :: "'w \<Rightarrow> bool"
  assumes sgrow_fresh: "sane w \<Longrightarrow> tipool_sgrow f w = (x, w') \<Longrightarrow>
      x \<notin> live w \<and> live w' = insert x (live w) \<and> sane w'"
    and rgrow_fresh: "sane w \<Longrightarrow> tipool_rgrow f = Some g \<Longrightarrow> g w = (x, w') \<Longrightarrow>
      x \<notin> live w \<and> live w' = insert x (live w) \<and> sane w'"
    and destroy_live: "sane w \<Longrightarrow> tipool_destroy_item f = Some d \<Longrightarrow> x \<in> live w \<Longrightarrow>
      live (d x w) = live w - {x} \<and> sane (d x w)"
begin

definition items_ok :: "nat list \<Rightarrow> nat list \<Rightarrow> 'w \<Rightarrow> bool" where
  "items_ok I B w \<longleftrightarrow> distinct (I @ B) \<and> set (I @ B) \<subseteq> live w \<and> sane w"

lemma spec_init_items:
  assumes "items_ok I B w"
  shows "items_ok (I @ fst (spec_init f n w)) B (snd (spec_init f n w))"
  using assms
proof (induction n arbitrary: I w)
  case (Suc n)
  obtain x w1 where g: "tipool_sgrow f w = (x, w1)" by fastforce
  from sgrow_fresh [OF _ g] Suc.prems have "items_ok (I @ [x]) B w1" by (auto simp: items_ok_def)
  from Suc.IH [OF this] g show ?case by (auto split: prod.splits)
qed simp

lemma spec_grow_items:
  assumes "items_ok I B w"
  shows "items_ok (fst (spec_grow f (I, w))) B (snd (spec_grow f (I, w)))"
proof (cases "tipool_rgrow f")
  case None
  with assms show ?thesis by simp
next
  case (Some g)
  obtain x w' where "g w = (x, w')" by fastforce
  with Some rgrow_fresh [OF _ Some this] assms show ?thesis by (auto simp: items_ok_def)
qed

lemma spec_pop_grow_items:
  assumes "items_ok I B w"
  shows "items_ok (fst (spec_pop_grow c f I B w)) B (snd (spec_pop_grow c f I B w))"
  using assms spec_grow_items [OF assms] by (auto simp: spec_pop_grow_def simp del: spec_grow.simps)

lemma spec_destroy_items:
  assumes "items_ok (x # I) B w"
  shows "items_ok I B (spec_destroy f x w)"
proof (cases "tipool_destroy_item f")
  case (Some d)
  with destroy_live [OF _ Some, of w x] assms show ?thesis by (auto simp: items_ok_def)
qed (use assms in \<open>auto simp: items_ok_def\<close>)

lemma spec_putback_items:
  assumes ok: "items_ok I B w" and spec: "spec_putback c f n x I B w = (I', B', w')"
  shows "items_ok I' B' w'"
proof (cases "x \<in> set B")
  case False
  with assms show ?thesis by (simp add: spec_putback_def)
next
  case True
  then have moved: "items_ok (x # I) (remove1 x B) w"
    using ok by (auto simp: items_ok_def)
  then have "items_ok I (remove1 x B) (spec_destroy f x w)" by (rule spec_destroy_items)
  note spec_grow_items [OF this] this moved
  then show ?thesis using spec True
    by (auto simp: spec_putback_def Let_def split: if_splits prod.splits simp del: spec_grow.simps spec_destroy.simps)
qed

definition tinv :: "'w tsys \<Rightarrow> bool" where
  "tinv s \<longleftrightarrow> (\<exists>I B. tipool_abs (pool s) I B \<and> func (pool s) = f \<and>
     items_ok I B (world (pool s)) \<and> mset B = mset (map snd (holders s)) \<and>
     (waiting s \<noteq> [] \<longrightarrow> length I \<le> length (ready s)))"

lemma after_pop_ok:
  assumes r: "pop_ok p I B w r" and p: "func p = f" "cfg p = c" and ok: "items_ok I B w"
    and m: "mset B = mset (map snd (holders s))"
    and len: "waiting s \<noteq> [] \<longrightarrow> length (tl I) \<le> length (ready s)"
  obtains s' where "after_pop s t (Inr r) = Inr s'" "tinv s'" "cfg (pool s') = c"
    "ready s' = ready s" "waiting s' = (if I = [] then t # waiting s else waiting s)"
proof (cases r)
  case (Blocked p')
  let ?s = "s\<lparr>pool := p', waiting := t # waiting s\<rparr>"
  have "tinv ?s"
    unfolding tinv_def using Blocked assms
    by (intro exI [of _ "[]"] exI [of _ B]) (auto simp: pop_ok_def)
  with Blocked assms show ?thesis
    by (intro that [of ?s]) (auto simp: after_pop_def pop_ok_def)
next
  case (Popped head p')
  with r obtain a n I' where x: "head = Some a" "I = ldata n # I'" "cells (theap p') a = Some n"
      "tipool_abs p' I' (B @ [ldata n])" "world p' = w" "cfg p' = cfg p" "func p' = func p"
    by (auto simp: pop_ok_def)
  let ?s = "s\<lparr>pool := p', holders := (t, ldata n) # holders s\<rparr>"
  have "items_ok I' (B @ [ldata n]) w" using ok x(2) by (auto simp: items_ok_def)
  then have "tinv ?s"
    unfolding tinv_def using x p m len by (intro exI [of _ I'] exI [of _ "B @ [ldata n]"]) auto
  with Popped x p show ?thesis by (intro that [of ?s]) (auto simp: after_pop_def)
qed

lemma tinvE:
  assumes "tinv s"
  obtains I B where "tipool_abs (pool s) I B" "func (pool s) = f"
    "items_ok I B (world (pool s))" "mset B = mset (map snd (holders s))"
    "waiting s \<noteq> [] \<longrightarrow> length I \<le> length (ready s)"
  using assms by (auto simp: tinv_def)

lemma spec_pop_grow_length: "length (tl (fst (spec_pop_grow c g I B w))) \<le> length I"
  by (auto simp: spec_pop_grow_def split: option.split prod.split)

lemma pop_ok_step:
  assumes inv: "tinv s" and ev: "texec (Pop t) s = Some r"
  shows "\<exists>s'. r = Inr s' \<and> tinv s' \<and> cfg (pool s') = cfg (pool s)"
proof -
  from inv obtain I B where s: "tipool_abs (pool s) I B" "func (pool s) = f"
      "items_ok I B (world (pool s))" "mset B = mset (map snd (holders s))"
      "waiting s \<noteq> [] \<longrightarrow> length I \<le> length (ready s)" by (rule tinvE)
  let ?g = "spec_pop_grow (cfg (pool s)) (func (pool s)) I B (world (pool s))"
  obtain q where q: "modperl_tipool_pop (pool s) = Inr q"
      "pop_ok (pool s) (fst ?g) B (snd ?g) q"
    using s(1) by (rule modperl_tipool_pop_refines)
  have ok: "items_ok (fst ?g) B (snd ?g)" using spec_pop_grow_items [OF s(3)] s(2) by simp
  have len: "waiting s \<noteq> [] \<longrightarrow> length (tl (fst ?g)) \<le> length (ready s)"
    using s(5) spec_pop_grow_length [of "cfg (pool s)" "func (pool s)" I B "world (pool s)"]
    by (meson le_trans)
  obtain s' where "after_pop s t (Inr q) = Inr s'" "tinv s'" "cfg (pool s') = cfg (pool s)"
    using q(2) s(2) refl ok s(4) len by (rule after_pop_ok)
  moreover have "r = after_pop s t (Inr q)" using q(1) ev by (auto split: if_splits)
  ultimately show ?thesis by metis
qed

lemma resume_ok_step:
  assumes inv: "tinv s" and ev: "texec (Resume t) s = Some r"
  shows "\<exists>s'. r = Inr s' \<and> tinv s' \<and> cfg (pool s') = cfg (pool s)"
proof -
  from inv obtain I B where s: "tipool_abs (pool s) I B" "func (pool s) = f"
      "items_ok I B (world (pool s))" "mset B = mset (map snd (holders s))"
      "waiting s \<noteq> [] \<longrightarrow> length I \<le> length (ready s)" by (rule tinvE)
  have t: "t \<in> set (ready s)" using ev by (auto split: if_splits)
  let ?s = "s\<lparr>ready := remove1 t (ready s)\<rparr>"
  obtain q where q: "tipool_pop_resume (pool s) = Inr q" "pop_ok (pool s) I B (world (pool s)) q"
    using s(1) by (rule tipool_pop_resume_refines)
  have m: "mset B = mset (map snd (holders ?s))" using s(4) by simp
  have len: "waiting ?s \<noteq> [] \<longrightarrow> length (tl I) \<le> length (ready ?s)"
    using s(5) t by (auto simp: length_remove1)
  obtain s' where "after_pop ?s t (Inr q) = Inr s'" "tinv s'" "cfg (pool s') = cfg (pool s)"
    using q(2) s(2) refl s(3) m len by (rule after_pop_ok)
  with q(1) ev t show ?thesis by auto
qed

lemma spec_putback_length:
  assumes "spec_putback c g n x I B w = (I', B', w')"
  shows "length I' \<le> length I + 1"
  using assms
  by (auto simp: spec_putback_def Let_def split: if_splits prod.splits option.splits)

lemma spec_putback_busy:
  assumes "spec_putback c g n x I B w = (I', B', w')"
  shows "B' = remove1 x B"
  using assms
  by (auto simp: spec_putback_def Let_def remove1_idem split: if_splits prod.splits)

lemma putback_ok_step:
  assumes inv: "tinv s" and ev: "texec (Putback t x n u) s = Some r"
  shows "\<exists>s'. r = Inr s' \<and> tinv s' \<and> cfg (pool s') = cfg (pool s)"
proof -
  from inv obtain I B where s: "tipool_abs (pool s) I B" "func (pool s) = f"
      "items_ok I B (world (pool s))" "mset B = mset (map snd (holders s))"
      "waiting s \<noteq> [] \<longrightarrow> length I \<le> length (ready s)" by (rule tinvE)
  have h: "(t, x) \<in> set (holders s)" using ev by (auto split: if_splits)
  then have "x \<in> set (map snd (holders s))" by force
  then have x: "x \<in> set B" using mset_eq_setD [OF s(4)] by blast
  obtain I' B' w' where spec:
      "spec_putback (cfg (pool s)) (func (pool s)) n x I B (world (pool s)) = (I', B', w')"
    using prod_cases3 by blast
  obtain p where p: "modperl_tipool_putback_data (pool s) x n = Inr (p, x \<in> set B)"
      "tipool_abs p I' B'" "world p = w'" "cfg p = cfg (pool s)" "func p = func (pool s)"
    using s(1) spec by (rule modperl_tipool_putback_data_refines)
  have ok: "items_ok I' B' w'" using s(2,3) spec spec_putback_items by blast
  have m: "mset B' = mset (map snd (remove1 (t, x) (holders s)))"
    using spec_putback_busy [OF spec] s(4) h
    by (simp add: image_mset_Diff)
  have len: "length I' \<le> length I + 1" by (rule spec_putback_length [OF spec])
  obtain s' where s': "r = Inr s'" "pool s' = p" "holders s' = remove1 (t, x) (holders s)"
      "waiting s' \<noteq> [] \<longrightarrow> length I' \<le> length (ready s')"
    using ev h p(1) x len s(5) by (force simp: Let_def split: if_splits option.splits)
  then have "tinv s'"
    unfolding tinv_def using p ok m s(2) by (intro exI [of _ I'] exI [of _ B']) auto
  with s'(1,2) p(4) show ?thesis by auto
qed

lemma spurious_ok_step:
  assumes inv: "tinv s" and ev: "texec (Spurious t) s = Some r"
  shows "\<exists>s'. r = Inr s' \<and> tinv s' \<and> cfg (pool s') = cfg (pool s)"
  using assms by (force simp: tinv_def split: if_splits)

lemma texec_ok:
  assumes "tinv s" "texec e s = Some r"
  shows "\<exists>s'. r = Inr s' \<and> tinv s' \<and> cfg (pool s') = cfg (pool s)"
  using assms pop_ok_step resume_ok_step spurious_ok_step putback_ok_step by (cases e) blast+

lemma treach_tinv:
  assumes "treach s0 s" "tinv s0"
  shows "tinv s \<and> cfg (pool s) = cfg (pool s0)"
  using assms by (induction rule: treach.induct) (auto dest: texec_ok)

text \<open>A pool that keeps a spare item: somebody who waits has an item to wait for.\<close>

definition keeps_spare :: "tipool_config \<Rightarrow> bool" where
  "keeps_spare c \<longleftrightarrow> 1 \<le> cfg_max c \<and> 1 \<le> cfg_max_spare c \<and> 1 \<le> cfg_min_spare c \<and>
     tipool_rgrow f \<noteq> None"

definition tspare :: "'w tsys \<Rightarrow> bool" where
  "tspare s \<longleftrightarrow> (waiting s \<noteq> [] \<or> ready s \<noteq> [] \<longrightarrow> 1 \<le> tsize (pool s))"

lemma spec_pop_grow_nonempty:
  assumes "keeps_spare c" "fst (spec_pop_grow c f I B w) = []"
  shows "B \<noteq> []"
  using assms
  by (auto simp: spec_pop_grow_def keeps_spare_def split: option.splits prod.splits if_splits)

lemma spec_putback_nonempty:
  assumes "keeps_spare c" "x \<in> set B" "spec_putback c f n x I B w = (I', B', w')"
  shows "I' \<noteq> []"
  using assms
  by (auto simp: spec_putback_def Let_def keeps_spare_def
        split: if_splits prod.splits option.splits)

lemma popped_size:
  assumes "pop_ok p I B w r" "after_pop s t (Inr r) = Inr s'" "I \<noteq> [] \<or> B \<noteq> []"
  shows "1 \<le> tsize (pool s')"
proof (cases r)
  case (Blocked p')
  with assms tipool_abs_counts(2) [of p' "[]" B] show ?thesis
    by (cases B) (auto simp: pop_ok_def after_pop_def)
next
  case (Popped head p')
  with assms show ?thesis
    by (auto simp: pop_ok_def after_pop_def dest!: tipool_abs_counts(2))
qed

lemma tspare_step:
  assumes inv: "tinv s" "tspare s" and c: "keeps_spare (cfg (pool s))"
    and ev: "texec e s = Some (Inr s')"
  shows "tspare s'"
proof -
  from inv(1) obtain I B where s: "tipool_abs (pool s) I B" "func (pool s) = f"
      "mset B = mset (map snd (holders s))" by (rule tinvE)
  show ?thesis
  proof (cases e)
    case (Pop t)
    let ?g = "spec_pop_grow (cfg (pool s)) (func (pool s)) I B (world (pool s))"
    obtain q where q: "modperl_tipool_pop (pool s) = Inr q" "pop_ok (pool s) (fst ?g) B (snd ?g) q"
      using s(1) by (rule modperl_tipool_pop_refines)
    have "fst ?g \<noteq> [] \<or> B \<noteq> []" using spec_pop_grow_nonempty [OF c] s(2) by metis
    then show ?thesis
      using popped_size [OF q(2)] ev q(1) Pop by (auto simp: tspare_def split: if_splits)
  next
    case (Resume t)
    then have t: "t \<in> set (ready s)" using ev by (auto split: if_splits)
    then have "1 \<le> tsize (pool s)" using inv(2) by (auto simp: tspare_def)
    then have "I \<noteq> [] \<or> B \<noteq> []" using tipool_abs_counts [OF s(1)] by auto
    moreover obtain q where "tipool_pop_resume (pool s) = Inr q"
        "pop_ok (pool s) I B (world (pool s)) q"
      using s(1) by (rule tipool_pop_resume_refines)
    ultimately show ?thesis
      using popped_size ev Resume t by (fastforce simp: tspare_def)
  next
    case (Spurious t)
    then show ?thesis using ev inv(2) by (auto simp: tspare_def split: if_splits)
  next
    case (Putback t x n u)
    then have h: "(t, x) \<in> set (holders s)" using ev by (auto split: if_splits)
    then have "x \<in> set (map snd (holders s))" by force
    then have x: "x \<in> set B" using mset_eq_setD [OF s(3)] by blast
    obtain I' B' w' where spec:
        "spec_putback (cfg (pool s)) (func (pool s)) n x I B (world (pool s)) = (I', B', w')"
      using prod_cases3 by blast
    obtain p where p: "modperl_tipool_putback_data (pool s) x n = Inr (p, x \<in> set B)"
        "tipool_abs p I' B'"
      using s(1) spec by (rule modperl_tipool_putback_data_refines)
    have "I' \<noteq> []" using spec_putback_nonempty [OF c x] spec s(2) by simp
    then have "1 \<le> tsize p" using tipool_abs_counts(2) [OF p(2)] by (cases I') auto
    moreover have "pool s' = p"
      using ev h p(1) Putback by (auto simp: Let_def split: if_splits option.splits)
    ultimately show ?thesis by (simp add: tspare_def)
  qed
qed

lemma treach_tspare:
  assumes "treach s0 s" "tinv s0" "tspare s0" "keeps_spare (cfg (pool s0))"
  shows "tspare s"
  using assms
proof (induction rule: treach.induct)
  case (step s e s')
  then show ?case using treach_tinv [OF step.hyps(1)] tspare_step [of s e s'] by auto
qed auto

lemma no_deadlock:
  assumes "tinv s" "tspare s" "waiting s \<noteq> []"
  shows "holders s \<noteq> [] \<or> ready s \<noteq> [] \<and> (\<exists>a p. tipool_pop_resume (pool s) = Inr (Popped (Some a) p))"
proof -
  from assms(1) obtain I B where s: "tipool_abs (pool s) I B"
      "mset B = mset (map snd (holders s))" "waiting s \<noteq> [] \<longrightarrow> length I \<le> length (ready s)"
    by (rule tinvE)
  have "1 \<le> tsize (pool s)" using assms(2,3) by (auto simp: tspare_def)
  then consider "B \<noteq> []" | "I \<noteq> []" using tipool_abs_counts [OF s(1)] by fastforce
  then show ?thesis
  proof cases
    case 1
    then show ?thesis using s(2) by auto
  next
    case 2
    obtain r where "tipool_pop_resume (pool s) = Inr r" "pop_ok (pool s) I B (world (pool s)) r"
      using s(1) by (rule tipool_pop_resume_refines)
    with 2 s(3) assms(3) show ?thesis by (cases r) (auto simp: pop_ok_def)
  qed
qed

lemma tsys_start_inv:
  assumes "tipool_abs p I []" "func p = f" "items_ok I [] (world p)"
  shows "tinv (tsys_start p)" "tspare (tsys_start p)"
proof -
  show "tinv (tsys_start p)"
    unfolding tinv_def tsys_start_def using assms by (intro exI [of _ I] exI [of _ "[]"]) simp
  show "tspare (tsys_start p)" by (simp add: tspare_def tsys_start_def)
qed

lemma holders_distinct:
  assumes "tinv s"
  shows "distinct (map snd (holders s))"
proof -
  from assms obtain I B where "items_ok I B (world (pool s))"
      "mset B = mset (map snd (holders s))" by (rule tinvE)
  then have "distinct B" "mset B = mset (map snd (holders s))" by (auto simp: items_ok_def)
  then show ?thesis by (metis mset_eq_imp_distinct_iff)
qed

lemma init_start:
  assumes "heap_ok h []" "sane w"
  obtains p where "modperl_tipool_init (modperl_tipool_new c f h w) = Inr p"
    "tinv (tsys_start p)" "tspare (tsys_start p)" "cfg p = c"
proof -
  let ?p = "modperl_tipool_new c f h w"
  have p: "func ?p = f" "world ?p = w" "cfg ?p = c" by (simp_all add: modperl_tipool_new_def)
  obtain q where q: "modperl_tipool_init ?p = Inr q"
      "tipool_abs q (fst (spec_init f (nat (cfg_start c)) w)) []"
      "world q = snd (spec_init f (nat (cfg_start c)) w)" "cfg q = c" "func q = f"
    using tipool_init_loop_refines [OF modperl_tipool_new_abs [OF assms(1), of c f w], of "nat (cfg_start c)"] p
    by (auto simp: modperl_tipool_init_def)
  have "items_ok (fst (spec_init f (nat (cfg_start c)) w)) [] (world q)"
    using spec_init_items [of "[]" "[]" w] assms(2) q(3) by (simp add: items_ok_def)
  from tsys_start_inv [OF q(2,5) this] q(1,4) show ?thesis by (intro that)
qed

lemma reach_safe:
  assumes "tinv s0" "treach s0 s"
  shows "texec e s \<noteq> Some (Inl err)" "distinct (map snd (holders s))"
    "set (map snd (holders s)) \<subseteq> live (world (pool s))" "sane (world (pool s))"
    "in_use (pool s) = int (length (holders s))"
proof -
  have inv: "tinv s" using treach_tinv assms by blast
  then show "texec e s \<noteq> Some (Inl err)" using texec_ok by fastforce
  show "distinct (map snd (holders s))" using inv by (rule holders_distinct)
  from inv obtain I B where s: "tipool_abs (pool s) I B" "items_ok I B (world (pool s))"
      "mset B = mset (map snd (holders s))" by (rule tinvE)
  show "set (map snd (holders s)) \<subseteq> live (world (pool s))" "sane (world (pool s))"
    using s(2) mset_eq_setD [OF s(3)] by (auto simp: items_ok_def)
  show "in_use (pool s) = int (length (holders s))"
    using tipool_abs_counts(1) [OF s(1)] arg_cong [OF s(3), of size] by simp
qed

lemma reach_no_lost_wakeup:
  assumes "tinv s0" "treach s0 s" "waiting s \<noteq> []"
  shows "tsize (pool s) - in_use (pool s) \<le> int (length (ready s))"
proof -
  from treach_tinv [OF assms(2,1)] obtain I B where "tipool_abs (pool s) I B"
      "waiting s \<noteq> [] \<longrightarrow> length I \<le> length (ready s)" by (blast elim: tinvE)
  with assms(3) tipool_abs_counts [of "pool s" I B] show ?thesis by simp
qed

end

end
