(* ===== verification/Svptr_Table.thy ===== *)
theory Svptr_Table
  imports Prelude "HOL-Library.Multiset"
begin

unbundle bit_operations_syntax

text \<open>
  The pointer table of \<^verbatim>\<open>src/src/modules/perl/modperl_svptr_table.c\<close>: a hash table from
  pointers (64-bit words) to SV pointers (\<open>nat\<close>, with \<open>0\<close> for \<open>NULL\<close>). A bucket is the chain of
  its \<open>PTR_TBL_ENT_t\<close> entries from the head on; the array is the list of buckets.

  \<open>ptr_tbl_ok\<close> is the invariant of the table, \<open>ptr_map\<close> the contract of a map that the operations
  satisfy, with the doubling of the bucket array (\<open>modperl_svptr_table_split\<close>) invisible to
  lookups. Copying and destroying a table visit the buckets \<open>0 .. tbl_max - 1\<close> only.
\<close>

section \<open>The table\<close>

type_synonym ptr = "64 word"

record ptr_tbl =
  tbl_ary :: "(ptr \<times> nat) list list"
  tbl_max :: "64 word"
  tbl_items :: "64 word"

definition tbl_index :: "ptr_tbl \<Rightarrow> ptr \<Rightarrow> nat" where
  "tbl_index tbl key = unat (key AND tbl_max tbl)"

definition tbl_bucket :: "ptr_tbl \<Rightarrow> nat \<Rightarrow> (ptr \<times> nat) list" where
  "tbl_bucket tbl i = (if i < length (tbl_ary tbl) then tbl_ary tbl ! i else [])"

definition modperl_svptr_table_new :: ptr_tbl where
  "modperl_svptr_table_new = \<lparr>tbl_ary = replicate (unat (511 + 1 :: 64 word)) [],
     tbl_max = 511, tbl_items = 0\<rparr>"

fun chain_fetch :: "(ptr \<times> nat) list \<Rightarrow> ptr \<Rightarrow> nat" where
  "chain_fetch [] sv = 0"
| "chain_fetch ((oldval, newval) # ents) sv =
     (if oldval = sv then newval else chain_fetch ents sv)"

definition modperl_svptr_table_fetch :: "ptr_tbl \<Rightarrow> ptr \<Rightarrow> nat" where
  "modperl_svptr_table_fetch tbl sv = chain_fetch (tbl_bucket tbl (tbl_index tbl sv)) sv"

text \<open>The inner loop of the split: entries that do not stay in bucket \<open>i\<close> are unlinked one by one
  and pushed on the front of the bucket \<open>i + oldsize\<close>.\<close>

fun split_chain ::
    "64 word \<Rightarrow> nat \<Rightarrow> (ptr \<times> nat) list \<Rightarrow> (ptr \<times> nat) list
      \<Rightarrow> (ptr \<times> nat) list \<times> (ptr \<times> nat) list" where
  "split_chain newmax i [] cur = ([], cur)"
| "split_chain newmax i ((oldval, newval) # ents) cur =
     (if unat (newmax AND oldval) \<noteq> i
      then split_chain newmax i ents ((oldval, newval) # cur)
      else (let (keep, cur') = split_chain newmax i ents cur in ((oldval, newval) # keep, cur')))"

fun split_loop :: "64 word \<Rightarrow> nat \<Rightarrow> nat \<Rightarrow> nat \<Rightarrow> (ptr \<times> nat) list list \<Rightarrow> (ptr \<times> nat) list list" where
  "split_loop newmax oldsize 0 i ary = ary"
| "split_loop newmax oldsize (Suc n) i ary =
     (let (keep, cur) = split_chain newmax i (ary ! i) (ary ! (i + oldsize)) in
      split_loop newmax oldsize n (Suc i) (ary[i := keep, i + oldsize := cur]))"

definition modperl_svptr_table_split :: "ptr_tbl \<Rightarrow> ptr_tbl" where
  "modperl_svptr_table_split tbl =
     (let oldsize = tbl_max tbl + 1;
          newsize = oldsize * 2;
          ary = tbl_ary tbl @ replicate (unat (newsize - oldsize)) [];
          newmax = newsize - 1
      in tbl\<lparr>tbl_max := newmax,
             tbl_ary := split_loop newmax (unat oldsize) (unat oldsize) 0 ary\<rparr>)"

fun chain_update :: "(ptr \<times> nat) list \<Rightarrow> ptr \<Rightarrow> nat \<Rightarrow> (ptr \<times> nat) list option" where
  "chain_update [] oldv newv = None"
| "chain_update ((oldval, newval) # ents) oldv newv =
     (if oldval = oldv then Some ((oldval, newv) # ents)
      else map_option ((#) (oldval, newval)) (chain_update ents oldv newv))"

definition modperl_svptr_table_store :: "ptr_tbl \<Rightarrow> ptr \<Rightarrow> nat \<Rightarrow> ptr_tbl" where
  "modperl_svptr_table_store tbl oldv newv =
     (let ix = tbl_index tbl oldv; chain = tbl_bucket tbl ix in
      case chain_update chain oldv newv of
        Some chain' \<Rightarrow> tbl\<lparr>tbl_ary := (tbl_ary tbl)[ix := chain']\<rparr>
      | None \<Rightarrow>
          let tbl' = tbl\<lparr>tbl_ary := (tbl_ary tbl)[ix := (oldv, newv) # chain],
                         tbl_items := tbl_items tbl + 1\<rparr>
          in if chain = [] \<and> tbl_items tbl' > tbl_max tbl'
             then modperl_svptr_table_split tbl' else tbl')"

fun chain_delete :: "(ptr \<times> nat) list \<Rightarrow> ptr \<Rightarrow> ((ptr \<times> nat) list \<times> nat) option" where
  "chain_delete [] key = None"
| "chain_delete ((oldval, newval) # ents) key =
     (if oldval = key then Some (ents, newval)
      else map_option (\<lambda>(es, v). ((oldval, newval) # es, v)) (chain_delete ents key))"

text \<open>The second component is the SV whose reference count is decremented, if any.\<close>

definition modperl_svptr_table_delete :: "ptr_tbl \<Rightarrow> ptr \<Rightarrow> ptr_tbl \<times> nat option" where
  "modperl_svptr_table_delete tbl key =
     (let ix = tbl_index tbl key in
      case chain_delete (tbl_bucket tbl ix) key of
        None \<Rightarrow> (tbl, None)
      | Some (chain', v) \<Rightarrow>
          (tbl\<lparr>tbl_ary := (tbl_ary tbl)[ix := chain'], tbl_items := tbl_items tbl - 1\<rparr>, Some v))"

text \<open>\<open>dup\<close> is \<open>my_sv_dup\<close> into the new interpreter. The loop runs to \<open>tbl_max\<close>, exclusively.\<close>

definition modperl_svptr_table_clone :: "(nat \<Rightarrow> nat) \<Rightarrow> ptr_tbl \<Rightarrow> ptr_tbl" where
  "modperl_svptr_table_clone dup source =
     \<lparr>tbl_ary = map (\<lambda>i. if i < unat (tbl_max source)
                 then map (\<lambda>(oldval, newval). (oldval, dup newval)) (tbl_bucket source i) else [])
               [0..<unat (tbl_max source + 1)],
      tbl_max = tbl_max source, tbl_items = tbl_items source\<rparr>"

text \<open>The loop of \<open>clear\<close>: \<open>rest\<close> are the buckets after the current one. The result is the
  sequence of the keys of the entries that \<open>Safefree\<close> is called on.\<close>

function clear_loop ::
    "(ptr \<times> nat) list \<Rightarrow> (ptr \<times> nat) list list \<Rightarrow> ptr list \<Rightarrow> ptr list" where
  "clear_loop entry rest freed =
     (let (entry', freed') = (case entry of [] \<Rightarrow> ([], freed) | e # es \<Rightarrow> (es, freed @ [fst e])) in
      if entry' = [] then (case rest of [] \<Rightarrow> freed' | b # bs \<Rightarrow> clear_loop b bs freed')
      else clear_loop entry' rest freed')"
  by pat_completeness auto
termination
  by (relation "measures [\<lambda>(e, r, f). length r, \<lambda>(e, r, f). length e]")
     (auto split: list.splits)

definition modperl_svptr_table_clear :: "ptr_tbl \<Rightarrow> ptr_tbl \<times> ptr list" where
  "modperl_svptr_table_clear tbl =
     (if tbl_items tbl = 0 then (tbl, [])
      else (tbl\<lparr>tbl_items := 0\<rparr>,
            clear_loop (tbl_bucket tbl 0) (map (tbl_bucket tbl) [1..<Suc (unat (tbl_max tbl))]) []))"

text \<open>\<open>destroy\<close> decrements the SVs of the buckets it visits, then frees every entry.\<close>

definition modperl_svptr_table_destroy :: "ptr_tbl \<Rightarrow> nat list \<times> ptr list" where
  "modperl_svptr_table_destroy tbl =
     (filter (\<lambda>v. v \<noteq> 0) (map snd (concat (map (tbl_bucket tbl) [0..<unat (tbl_max tbl)]))),
      snd (modperl_svptr_table_clear tbl))"

section \<open>The invariant\<close>

definition tbl_keys :: "(ptr \<times> nat) list \<Rightarrow> ptr list" where
  "tbl_keys chain = map fst chain"

definition ptr_tbl_ok :: "nat \<Rightarrow> ptr_tbl \<Rightarrow> bool" where
  "ptr_tbl_ok n tbl \<longleftrightarrow> 0 < n \<and> n < 64 \<and> tbl_max tbl = mask n \<and>
     length (tbl_ary tbl) = 2 ^ n \<and>
     (\<forall>i < 2 ^ n. distinct (tbl_keys (tbl_ary tbl ! i)) \<and>
        (\<forall>k \<in> set (tbl_keys (tbl_ary tbl ! i)). unat k mod 2 ^ n = i))"

lemma unat_and_mask: "unat (k AND mask n) = unat (k :: ptr) mod 2 ^ n"
proof -
  have "unat (k AND mask n) = take_bit n (unat k)"
    by (simp only: take_bit_eq_mask [symmetric] unsigned_take_bit_eq)
  then show ?thesis by (simp only: take_bit_eq_mod)
qed

lemma tbl_index_ok: "ptr_tbl_ok n tbl \<Longrightarrow> tbl_index tbl k = unat k mod 2 ^ n"
  by (simp add: tbl_index_def ptr_tbl_ok_def unat_and_mask)

lemma tbl_index_less: "ptr_tbl_ok n tbl \<Longrightarrow> tbl_index tbl k < 2 ^ n"
  by (simp add: tbl_index_ok)

lemma tbl_bucket_ok: "ptr_tbl_ok n tbl \<Longrightarrow> i < 2 ^ n \<Longrightarrow> tbl_bucket tbl i = tbl_ary tbl ! i"
  by (simp add: tbl_bucket_def ptr_tbl_ok_def)

text \<open>The finite map a table stands for.\<close>

definition tbl_map :: "ptr_tbl \<Rightarrow> ptr \<Rightarrow> nat option" where
  "tbl_map tbl k = map_of (tbl_bucket tbl (tbl_index tbl k)) k"

definition ptr_tbl_inv :: "ptr_tbl \<Rightarrow> bool" where
  "ptr_tbl_inv tbl \<longleftrightarrow>
     (\<exists>n. ptr_tbl_ok n tbl) \<and> unat (tbl_items tbl) = card (dom (tbl_map tbl))"

lemma tbl_map_ok: "ptr_tbl_ok n tbl \<Longrightarrow> tbl_map tbl k = map_of (tbl_ary tbl ! (unat k mod 2 ^ n)) k"
  by (simp add: tbl_map_def tbl_bucket_ok tbl_index_ok)

lemma bucket_keys:
  assumes "ptr_tbl_ok n tbl" "i < 2 ^ n"
  shows "distinct (tbl_keys (tbl_ary tbl ! i))"
    "k \<in> set (tbl_keys (tbl_ary tbl ! i)) \<Longrightarrow> unat k mod 2 ^ n = i"
  using assms by (auto simp: ptr_tbl_ok_def)

text \<open>Replacing the bucket of one key.\<close>

lemma set_bucket_ok:
  assumes ok: "ptr_tbl_ok n tbl" and c: "distinct (tbl_keys c)"
    "\<And>x. x \<in> set (tbl_keys c) \<Longrightarrow> unat x mod 2 ^ n = unat k mod 2 ^ n"
    and t: "tbl_max tbl' = tbl_max tbl" "tbl_ary tbl' = (tbl_ary tbl)[unat k mod 2 ^ n := c]"
    and m: "map_of c = (map_of (tbl_ary tbl ! (unat k mod 2 ^ n)))(k := v)"
  shows "ptr_tbl_ok n tbl'" and "tbl_map tbl' = (tbl_map tbl)(k := v)"
proof -
  show ok': "ptr_tbl_ok n tbl'"
    using ok c t by (auto simp: ptr_tbl_ok_def nth_list_update)
  have len: "unat k mod 2 ^ n < length (tbl_ary tbl)" using ok by (simp add: ptr_tbl_ok_def)
  show "tbl_map tbl' = (tbl_map tbl)(k := v)"
  proof (rule ext)
    fix x
    show "tbl_map tbl' x = ((tbl_map tbl)(k := v)) x"
      using len m by (cases "unat x mod 2 ^ n = unat k mod 2 ^ n")
        (auto simp: tbl_map_ok [OF ok] tbl_map_ok [OF ok'] t)
  qed
qed

section \<open>Chains\<close>

lemma tbl_keys_simps [simp]:
  "tbl_keys [] = []" "tbl_keys ((k, v) # c) = k # tbl_keys c"
  "tbl_keys (c @ d) = tbl_keys c @ tbl_keys d" "tbl_keys (rev c) = rev (tbl_keys c)"
  "tbl_keys (map (\<lambda>(k, v). (k, dup v)) c) = tbl_keys c"
  by (induction c) (auto simp: tbl_keys_def rev_map split: prod.split)

lemma distinct_keys_filter: "distinct (tbl_keys c) \<Longrightarrow> distinct (tbl_keys (filter P c))"
  by (simp add: tbl_keys_def distinct_map_filter)

lemma dom_map_of_keys: "dom (map_of c) = set (tbl_keys c)"
  by (simp add: tbl_keys_def dom_map_of_conv_image_fst)

lemma map_of_absent: "map_of c k = None \<longleftrightarrow> k \<notin> set (tbl_keys c)"
  by (simp add: tbl_keys_def map_of_eq_None_iff)

lemma chain_fetch_map_of: "chain_fetch c k = (case map_of c k of None \<Rightarrow> 0 | Some v \<Rightarrow> v)"
  by (induction c) auto

lemma chain_update_None: "chain_update c k v = None \<longleftrightarrow> k \<notin> set (tbl_keys c)"
  by (induction c) (auto split: if_splits)

lemma chain_update_Some:
  assumes "chain_update c k v = Some c'"
  shows "tbl_keys c' = tbl_keys c" and "map_of c' = (map_of c)(k \<mapsto> v)"
    and "k \<in> set (tbl_keys c)"
  using assms by (induction c arbitrary: c') (auto split: if_splits simp: fun_upd_twist)

lemma chain_delete_None: "chain_delete c k = None \<longleftrightarrow> k \<notin> set (tbl_keys c)"
  by (induction c) (auto split: if_splits)

lemma chain_delete_Some:
  assumes "chain_delete c k = Some (c', v)" "distinct (tbl_keys c)"
  shows "tbl_keys c' = remove1 k (tbl_keys c)" "map_of c k = Some v"
    "map_of c' = (map_of c)(k := None)"
  using assms by (induction c arbitrary: c' v) (auto split: if_splits simp: map_of_absent fun_eq_iff)

lemma map_of_filter_fst:
  "map_of (filter (\<lambda>e. P (fst e)) c) k = (if P k then map_of c k else None)"
  by (induction c) auto

lemma map_of_rev_distinct: "distinct (tbl_keys c) \<Longrightarrow> map_of (rev c) = map_of c"
  by (metis map_of_inject_set set_rev tbl_keys_def distinct_rev rev_map)

lemma split_chain_eq:
  "split_chain m i c d =
     (filter (\<lambda>e. unat (m AND fst e) = i) c, rev (filter (\<lambda>e. unat (m AND fst e) \<noteq> i) c) @ d)"
  by (induction c arbitrary: d) (auto split: prod.split)

section \<open>Doubling the bucket array\<close>

lemma split_loop_nth:
  assumes "length ary = 2 * oldsize" "i + n = oldsize" "j < 2 * oldsize"
  shows "split_loop m oldsize n i ary ! j =
    (if i \<le> j \<and> j < oldsize then filter (\<lambda>e. unat (m AND fst e) = j) (ary ! j)
     else if i + oldsize \<le> j
     then rev (filter (\<lambda>e. unat (m AND fst e) \<noteq> j - oldsize) (ary ! (j - oldsize))) @ ary ! j
     else ary ! j)"
  using assms
proof (induction n arbitrary: i ary)
  case (Suc n)
  let ?ary = "ary[i := filter (\<lambda>e. unat (m AND fst e) = i) (ary ! i),
    i + oldsize := rev (filter (\<lambda>e. unat (m AND fst e) \<noteq> i) (ary ! i)) @ ary ! (i + oldsize)]"
  have "split_loop m oldsize (Suc n) i ary ! j = split_loop m oldsize n (Suc i) ?ary ! j"
    by (simp add: split_chain_eq)
  also have "\<dots> = (if Suc i \<le> j \<and> j < oldsize then filter (\<lambda>e. unat (m AND fst e) = j) (?ary ! j)
     else if Suc i + oldsize \<le> j
     then rev (filter (\<lambda>e. unat (m AND fst e) \<noteq> j - oldsize) (?ary ! (j - oldsize))) @ ?ary ! j
     else ?ary ! j)"
    using Suc.prems by (intro Suc.IH) auto
  also have "\<dots> = (if i \<le> j \<and> j < oldsize then filter (\<lambda>e. unat (m AND fst e) = j) (ary ! j)
     else if i + oldsize \<le> j
     then rev (filter (\<lambda>e. unat (m AND fst e) \<noteq> j - oldsize) (ary ! (j - oldsize))) @ ary ! j
     else ary ! j)"
    using Suc.prems by (cases "j = i + oldsize") (auto simp: nth_list_update)
  finally show ?case .
qed auto

lemma length_split_loop [simp]: "length (split_loop m oldsize n i ary) = length ary"
  by (induction n arbitrary: i ary) (auto simp: split_chain_eq)

lemma unat_pow2: "n < 64 \<Longrightarrow> unat (2 ^ n :: 64 word) = 2 ^ n"
proof -
  assume n: "n < 64"
  have "unat (of_nat (2 ^ n) :: 64 word) = 2 ^ n mod 2 ^ 64"
    by (simp add: unsigned_of_nat take_bit_eq_mod del: of_nat_power)
  also have "\<dots> = 2 ^ n" using n by (intro mod_less power_strict_increasing) auto
  finally show ?thesis by simp
qed

lemma word_sizes:
  assumes "n < 63"
  shows "unat (mask n + 1 :: 64 word) = 2 ^ n"
    "unat ((mask n + 1) * 2 - (mask n + 1) :: 64 word) = 2 ^ n"
    "(mask n + 1) * 2 - 1 = (mask (Suc n) :: 64 word)"
proof -
  have eq: "mask n + 1 = (2 ^ n :: 64 word)" by (simp add: mask_eq_exp_minus_1)
  have u: "unat (2 ^ n :: 64 word) = 2 ^ n" by (rule unat_pow2) (use assms in simp)
  then show "unat (mask n + 1 :: 64 word) = 2 ^ n" by (simp add: eq)
  show "unat ((mask n + 1) * 2 - (mask n + 1) :: 64 word) = 2 ^ n" using u by (simp add: eq)
  show "(mask n + 1) * 2 - 1 = (mask (Suc n) :: 64 word)"
    by (simp add: eq mask_eq_exp_minus_1 mult.commute)
qed

lemma split_ary:
  assumes ok: "ptr_tbl_ok n tbl" and n: "n < 63" and j: "j < 2 ^ Suc n"
  shows "tbl_ary (modperl_svptr_table_split tbl) ! j =
    (if j < 2 ^ n then filter (\<lambda>e. unat (fst e) mod 2 ^ Suc n = j) (tbl_ary tbl ! j)
     else rev (filter (\<lambda>e. unat (fst e) mod 2 ^ Suc n \<noteq> j - 2 ^ n) (tbl_ary tbl ! (j - 2 ^ n))))"
proof -
  have m: "tbl_max tbl = mask n" "length (tbl_ary tbl) = 2 ^ n" using ok by (auto simp: ptr_tbl_ok_def)
  have a: "tbl_ary (modperl_svptr_table_split tbl) =
      split_loop (mask (Suc n)) (2 ^ n) (2 ^ n) 0 (tbl_ary tbl @ replicate (2 ^ n) [])"
    by (simp only: modperl_svptr_table_split_def Let_def m word_sizes [OF n]) simp
  have idx: "unat (mask (Suc n) AND k) = unat k mod 2 ^ Suc n" for k :: ptr
    using unat_and_mask [of k "Suc n"] by (simp add: and.commute)
  show ?thesis
    unfolding a using j m(2)
    by (subst split_loop_nth) (auto simp: idx nth_append)
qed

lemma mod_double_cases:
  fixes k :: nat
  shows "k mod 2 ^ Suc n = k mod 2 ^ n \<or> k mod 2 ^ Suc n = k mod 2 ^ n + 2 ^ n"
  using mod_double_nat [of k "2 ^ n"] by (auto simp: mult.commute)

lemma split_ok:
  assumes ok: "ptr_tbl_ok n tbl" and n: "n < 63"
  shows "ptr_tbl_ok (Suc n) (modperl_svptr_table_split tbl)"
    "tbl_map (modperl_svptr_table_split tbl) = tbl_map tbl"
proof -
  let ?s = "modperl_svptr_table_split tbl"
  have m: "tbl_max tbl = mask n" "length (tbl_ary tbl) = 2 ^ n" using ok by (auto simp: ptr_tbl_ok_def)
  have s: "tbl_max ?s = mask (Suc n)" "length (tbl_ary ?s) = 2 ^ Suc n"
    by (simp_all only: modperl_svptr_table_split_def Let_def m word_sizes [OF n]) (simp_all add: m)
  have "distinct (tbl_keys (tbl_ary ?s ! i)) \<and>
      (\<forall>k \<in> set (tbl_keys (tbl_ary ?s ! i)). unat k mod 2 ^ Suc n = i)" if i: "i < 2 ^ Suc n" for i
  proof (cases "i < 2 ^ n")
    case True
    have b: "tbl_ary ?s ! i = filter (\<lambda>e. unat (fst e) mod 2 ^ Suc n = i) (tbl_ary tbl ! i)"
      using split_ary [OF ok n i] True by simp
    show ?thesis unfolding b using bucket_keys [OF ok True] by (auto simp: tbl_keys_def distinct_map_filter)
  next
    case False
    let ?j = "i - 2 ^ n"
    have j: "?j < 2 ^ n" using i False by simp
    have b: "tbl_ary ?s ! i = rev (filter (\<lambda>e. unat (fst e) mod 2 ^ Suc n \<noteq> ?j) (tbl_ary tbl ! ?j))"
      using split_ary [OF ok n i] False by simp
    have "unat k mod 2 ^ Suc n = i"
      if "k \<in> set (tbl_keys (tbl_ary tbl ! ?j))" "unat k mod 2 ^ Suc n \<noteq> ?j" for k
      using bucket_keys(2) [OF ok j that(1)] that(2) mod_double_cases [of "unat k" n] False by auto
    then show ?thesis unfolding b using bucket_keys(1) [OF ok j]
      by (auto simp: distinct_keys_filter) (auto simp: tbl_keys_def)
  qed
  then show ok': "ptr_tbl_ok (Suc n) ?s" using n s by (simp add: ptr_tbl_ok_def)
  show "tbl_map ?s = tbl_map tbl"
  proof (rule ext)
    fix k :: ptr
    let ?i = "unat k mod 2 ^ Suc n"
    have i: "?i < 2 ^ Suc n" by simp
    consider (low) "?i = unat k mod 2 ^ n" | (high) "?i = unat k mod 2 ^ n + 2 ^ n"
      using mod_double_cases by blast
    then show "tbl_map ?s k = tbl_map tbl k"
    proof cases
      case low
      then have lt: "?i < 2 ^ n" by simp
      have "tbl_ary ?s ! ?i = filter (\<lambda>e. unat (fst e) mod 2 ^ Suc n = ?i) (tbl_ary tbl ! ?i)"
        using split_ary [OF ok n i] lt by (simp del: power_Suc)
      then show ?thesis
        using map_of_filter_fst [of "\<lambda>x. unat x mod 2 ^ Suc n = ?i" "tbl_ary tbl ! ?i" k]
        by (simp add: tbl_map_ok [OF ok'] tbl_map_ok [OF ok] low del: power_Suc)
    next
      case high
      let ?j = "unat k mod 2 ^ n"
      have "\<not> ?i < 2 ^ n" "?i - 2 ^ n = ?j" using high by simp_all
      then have "tbl_ary ?s ! ?i =
          rev (filter (\<lambda>e. unat (fst e) mod 2 ^ Suc n \<noteq> ?j) (tbl_ary tbl ! ?j))"
        using split_ary [OF ok n i] by (simp del: power_Suc)
      moreover have "distinct (tbl_keys (filter (\<lambda>e. unat (fst e) mod 2 ^ Suc n \<noteq> ?j) (tbl_ary tbl ! ?j)))"
        using bucket_keys(1) [OF ok, of ?j] by (simp add: distinct_keys_filter del: power_Suc)
      ultimately have "tbl_map ?s k =
          map_of (filter (\<lambda>e. unat (fst e) mod 2 ^ Suc n \<noteq> ?j) (tbl_ary tbl ! ?j)) k"
        by (simp add: tbl_map_ok [OF ok'] map_of_rev_distinct del: power_Suc)
      then show ?thesis
        using high map_of_filter_fst [of "\<lambda>x. unat x mod 2 ^ Suc n \<noteq> ?j" "tbl_ary tbl ! ?j" k]
        by (simp add: tbl_map_ok [OF ok] del: power_Suc)
    qed
  qed
qed

section \<open>The operations on the map\<close>

definition tbl_room :: "ptr_tbl \<Rightarrow> bool" where
  "tbl_room tbl \<longleftrightarrow> card (dom (tbl_map tbl)) < 2 ^ 62"

lemma new_map: "ptr_tbl_inv modperl_svptr_table_new" "tbl_map modperl_svptr_table_new = Map.empty"
proof -
  have m: "tbl_map modperl_svptr_table_new = Map.empty"
    by (auto simp: tbl_map_def modperl_svptr_table_new_def tbl_bucket_def fun_eq_iff)
  have "ptr_tbl_ok 9 modperl_svptr_table_new"
    by (simp add: ptr_tbl_ok_def modperl_svptr_table_new_def mask_eq_exp_minus_1)
  with m show "ptr_tbl_inv modperl_svptr_table_new" "tbl_map modperl_svptr_table_new = Map.empty"
    by (auto simp: ptr_tbl_inv_def) (simp add: modperl_svptr_table_new_def)
qed

lemma new_fields:
  "tbl_max modperl_svptr_table_new = 511" "tbl_items modperl_svptr_table_new = 0"
  "tbl_bucket modperl_svptr_table_new i = []"
  by (auto simp: modperl_svptr_table_new_def tbl_bucket_def)

lemma fetch_map: "modperl_svptr_table_fetch tbl k = (case tbl_map tbl k of None \<Rightarrow> 0 | Some v \<Rightarrow> v)"
  by (simp add: modperl_svptr_table_fetch_def tbl_map_def chain_fetch_map_of)

lemma tbl_map_items [simp]: "tbl_map (tbl\<lparr>tbl_items := i\<rparr>) = tbl_map tbl"
  by (simp add: tbl_map_def tbl_bucket_def tbl_index_def fun_eq_iff)

lemma ptr_tbl_ok_items [simp]: "ptr_tbl_ok n (tbl\<lparr>tbl_items := i\<rparr>) = ptr_tbl_ok n tbl"
  by (simp add: ptr_tbl_ok_def)

lemma split_items [simp]: "tbl_items (modperl_svptr_table_split tbl) = tbl_items tbl"
  by (simp add: modperl_svptr_table_split_def Let_def)

lemma unat_mask: "n < 64 \<Longrightarrow> unat (mask n :: 64 word) = 2 ^ n - 1"
  by (simp add: mask_eq_exp_minus_1 unat_sub word_le_nat_alt unat_pow2)

lemma items_above_mask:
  assumes "n < 64" "(mask n :: 64 word) < x" "unat x \<le> 2 ^ 62"
  shows "n < 63"
proof (rule ccontr)
  assume "\<not> n < 63"
  then have "n = 63" using assms(1) by simp
  then show False
    using assms(2,3) unat_mask [of n] by (simp add: word_less_nat_alt)
qed

lemma store_map:
  assumes inv: "ptr_tbl_inv tbl" and room: "tbl_room tbl"
  shows "ptr_tbl_inv (modperl_svptr_table_store tbl k v)"
    "tbl_map (modperl_svptr_table_store tbl k v) = (tbl_map tbl)(k \<mapsto> v)"
proof -
  from inv obtain n where ok: "ptr_tbl_ok n tbl" and items: "unat (tbl_items tbl) = card (dom (tbl_map tbl))"
    by (auto simp: ptr_tbl_inv_def)
  let ?c = "tbl_ary tbl ! (unat k mod 2 ^ n)"
  have lt: "unat k mod 2 ^ n < 2 ^ n" by simp
  note keys = bucket_keys [OF ok lt]
  have ix: "tbl_index tbl k = unat k mod 2 ^ n" "tbl_bucket tbl (unat k mod 2 ^ n) = ?c"
    using tbl_index_ok [OF ok] tbl_bucket_ok [OF ok lt] by simp_all
  have "ptr_tbl_inv (modperl_svptr_table_store tbl k v) \<and>
      tbl_map (modperl_svptr_table_store tbl k v) = (tbl_map tbl)(k \<mapsto> v)"
  proof (cases "chain_update ?c k v")
    case (Some c')
    let ?t = "tbl\<lparr>tbl_ary := (tbl_ary tbl)[unat k mod 2 ^ n := c']\<rparr>"
    have st: "modperl_svptr_table_store tbl k v = ?t"
      by (simp add: modperl_svptr_table_store_def ix Some)
    note u = chain_update_Some [OF Some]
    have c': "distinct (tbl_keys c')" "\<And>x. x \<in> set (tbl_keys c') \<Longrightarrow> unat x mod 2 ^ n = unat k mod 2 ^ n"
      using u(1) keys by simp_all
    have "ptr_tbl_ok n ?t" "tbl_map ?t = (tbl_map tbl)(k \<mapsto> v)"
      by (rule set_bucket_ok [OF ok c' _ _ u(2)]; simp)+
    moreover have "k \<in> dom (tbl_map tbl)"
      using u(3) by (simp add: tbl_map_ok [OF ok] dom_def dom_map_of_keys [unfolded dom_def, THEN eqset_imp_iff, simplified])
    ultimately show ?thesis
      unfolding st using items by (auto simp: ptr_tbl_inv_def insert_absorb)
  next
    case None
    let ?t = "tbl\<lparr>tbl_ary := (tbl_ary tbl)[unat k mod 2 ^ n := (k, v) # ?c], tbl_items := tbl_items tbl + 1\<rparr>"
    have st: "modperl_svptr_table_store tbl k v =
        (if ?c = [] \<and> tbl_items ?t > tbl_max ?t then modperl_svptr_table_split ?t else ?t)"
      by (simp add: modperl_svptr_table_store_def ix None Let_def)
    have absent: "k \<notin> set (tbl_keys ?c)" using None by (simp add: chain_update_None)
    have c': "distinct (tbl_keys ((k, v) # ?c))"
      "\<And>x. x \<in> set (tbl_keys ((k, v) # ?c)) \<Longrightarrow> unat x mod 2 ^ n = unat k mod 2 ^ n"
      using absent keys by auto
    have t: "ptr_tbl_ok n ?t" "tbl_map ?t = (tbl_map tbl)(k \<mapsto> v)"
      by (rule set_bucket_ok [OF ok c']; simp)+
    have new: "k \<notin> dom (tbl_map tbl)"
      using absent by (simp add: tbl_map_ok [OF ok] domIff map_of_absent)
    have "card (dom (tbl_map tbl)) < 2 ^ 62" using room by (simp add: tbl_room_def)
    then have u: "unat (tbl_items tbl + 1) = Suc (card (dom (tbl_map tbl)))" "unat (tbl_items tbl + 1) \<le> 2 ^ 62"
      using items by (simp_all add: unat_word_ariths)
    have inv': "ptr_tbl_inv ?t"
      using t new u(1) by (auto simp: ptr_tbl_inv_def)
    show ?thesis
    proof (cases "?c = [] \<and> tbl_items ?t > tbl_max ?t")
      case True
      have "n < 64" "tbl_max tbl = mask n" using ok by (auto simp: ptr_tbl_ok_def)
      then have "n < 63" using True u(2) by (intro items_above_mask [of n "tbl_items tbl + 1"]) auto
      note split_ok [OF t(1) this]
      then show ?thesis unfolding st using True t(2) inv'
        by (auto simp: ptr_tbl_inv_def)
    next
      case False
      then show ?thesis unfolding st using t(2) inv' by auto
    qed
  qed
  then show "ptr_tbl_inv (modperl_svptr_table_store tbl k v)"
    "tbl_map (modperl_svptr_table_store tbl k v) = (tbl_map tbl)(k \<mapsto> v)" by auto
qed

lemma delete_map:
  assumes inv: "ptr_tbl_inv tbl"
  shows "ptr_tbl_inv (fst (modperl_svptr_table_delete tbl k))"
    "tbl_map (fst (modperl_svptr_table_delete tbl k)) = (tbl_map tbl)(k := None)"
    "snd (modperl_svptr_table_delete tbl k) = tbl_map tbl k"
proof -
  from inv obtain n where ok: "ptr_tbl_ok n tbl" and items: "unat (tbl_items tbl) = card (dom (tbl_map tbl))"
    by (auto simp: ptr_tbl_inv_def)
  let ?c = "tbl_ary tbl ! (unat k mod 2 ^ n)"
  have lt: "unat k mod 2 ^ n < 2 ^ n" by simp
  note keys = bucket_keys [OF ok lt]
  have ix: "tbl_index tbl k = unat k mod 2 ^ n" "tbl_bucket tbl (unat k mod 2 ^ n) = ?c"
    using tbl_index_ok [OF ok] tbl_bucket_ok [OF ok lt] by simp_all
  have "ptr_tbl_inv (fst (modperl_svptr_table_delete tbl k)) \<and>
      tbl_map (fst (modperl_svptr_table_delete tbl k)) = (tbl_map tbl)(k := None) \<and>
      snd (modperl_svptr_table_delete tbl k) = tbl_map tbl k"
  proof (cases "chain_delete ?c k")
    case None
    then have "tbl_map tbl k = None" by (simp add: chain_delete_None tbl_map_ok [OF ok] map_of_absent)
    with inv None show ?thesis
      by (auto simp: modperl_svptr_table_delete_def ix fun_upd_idem)
  next
    case (Some r)
    then obtain c' v where d: "chain_delete ?c k = Some (c', v)" by (cases r) auto
    let ?t = "tbl\<lparr>tbl_ary := (tbl_ary tbl)[unat k mod 2 ^ n := c'], tbl_items := tbl_items tbl - 1\<rparr>"
    have st: "modperl_svptr_table_delete tbl k = (?t, Some v)"
      by (simp add: modperl_svptr_table_delete_def ix d)
    note u = chain_delete_Some [OF d keys(1)]
    have c': "distinct (tbl_keys c')" "\<And>x. x \<in> set (tbl_keys c') \<Longrightarrow> unat x mod 2 ^ n = unat k mod 2 ^ n"
      using u(1) keys by (auto dest: set_remove1_subset [THEN subsetD])
    have t: "ptr_tbl_ok n ?t" "tbl_map ?t = (tbl_map tbl)(k := None)"
      by (rule set_bucket_ok [OF ok c' _ _ u(3)]; simp)+
    have kv: "tbl_map tbl k = Some v" using u(2) by (simp add: tbl_map_ok [OF ok])
    then have pos: "0 < card (dom (tbl_map tbl))" by (auto simp: card_gt_0_iff)
    have "unat (tbl_items tbl - 1) = card (dom (tbl_map tbl)) - 1"
      using pos items by (subst unat_sub) (auto simp: word_le_nat_alt)
    then show ?thesis
      unfolding st using t kv by (auto simp: ptr_tbl_inv_def card_Diff_singleton domI)
  qed
  then show "ptr_tbl_inv (fst (modperl_svptr_table_delete tbl k))"
    "tbl_map (fst (modperl_svptr_table_delete tbl k)) = (tbl_map tbl)(k := None)"
    "snd (modperl_svptr_table_delete tbl k) = tbl_map tbl k" by auto
qed

section \<open>The contract of a pointer map\<close>

datatype tbl_cmd = TblStore ptr nat | TblDelete ptr

primrec run_cmds :: "('t \<Rightarrow> ptr \<Rightarrow> nat \<Rightarrow> 't) \<Rightarrow> ('t \<Rightarrow> ptr \<Rightarrow> 't) \<Rightarrow> 't \<Rightarrow> tbl_cmd list \<Rightarrow> 't" where
  "run_cmds st del t [] = t"
| "run_cmds st del t (c # cs) =
     run_cmds st del (case c of TblStore k v \<Rightarrow> st t k v | TblDelete k \<Rightarrow> del t k) cs"

locale pointer_map =
  fixes inv :: "'t \<Rightarrow> bool" and lookup :: "'t \<Rightarrow> ptr \<Rightarrow> nat option" and bound :: nat
    and new :: 't and store :: "'t \<Rightarrow> ptr \<Rightarrow> nat \<Rightarrow> 't" and delete :: "'t \<Rightarrow> ptr \<Rightarrow> 't"
  assumes new_inv: "inv new" and new_lookup: "lookup new = Map.empty"
    and store_inv: "inv t \<Longrightarrow> card (dom (lookup t)) < bound \<Longrightarrow> inv (store t k v)"
    and store_lookup: "inv t \<Longrightarrow> card (dom (lookup t)) < bound \<Longrightarrow>
      lookup (store t k v) = (lookup t)(k \<mapsto> v)"
    and delete_inv: "inv t \<Longrightarrow> inv (delete t k)"
    and delete_lookup: "inv t \<Longrightarrow> lookup (delete t k) = (lookup t)(k := None)"
begin

lemma card_upd_le: "card (dom (m(k := x))) \<le> Suc (card (dom (m :: ptr \<Rightarrow> nat option)))"
  by (cases x) (auto simp: card_insert_if card_Diff_singleton_if)

lemma run_from:
  assumes "inv t" "card (dom (lookup t)) + length cs \<le> bound"
  shows "inv (run_cmds store delete t cs) \<and> lookup (run_cmds store delete t cs) =
    run_cmds (\<lambda>m k v. m(k \<mapsto> v)) (\<lambda>m k. m(k := None)) (lookup t) cs"
  using assms
proof (induction cs arbitrary: t)
  case (Cons c cs)
  let ?t = "case c of TblStore k v \<Rightarrow> store t k v | TblDelete k \<Rightarrow> delete t k"
  have lt: "card (dom (lookup t)) < bound" using Cons.prems by simp
  have inv: "inv ?t" using Cons.prems(1) lt by (cases c) (auto intro: store_inv delete_inv)
  have l: "lookup ?t = (case c of TblStore k v \<Rightarrow> (lookup t)(k \<mapsto> v) | TblDelete k \<Rightarrow> (lookup t)(k := None))"
    using Cons.prems(1) lt by (cases c) (auto simp: store_lookup delete_lookup)
  have "card (dom (lookup ?t)) \<le> Suc (card (dom (lookup t)))"
    unfolding l by (cases c) (auto intro: card_upd_le simp del: dom_fun_upd fun_upd_apply)
  then have "card (dom (lookup ?t)) + length cs \<le> bound" using Cons.prems(2) by simp
  from Cons.IH [OF inv this] show ?case unfolding l by (cases c) (simp_all del: fun_upd_apply)
qed simp

lemma run_new:
  assumes "length cs \<le> bound"
  shows "inv (run_cmds store delete new cs)"
    "lookup (run_cmds store delete new cs) =
       run_cmds (\<lambda>m k v. m(k \<mapsto> v)) (\<lambda>m k. m(k := None)) Map.empty cs"
  using run_from [OF new_inv] assms by (simp_all add: new_lookup)

end

interpretation svptr: pointer_map ptr_tbl_inv tbl_map "2 ^ 62" modperl_svptr_table_new
  modperl_svptr_table_store "\<lambda>t k. fst (modperl_svptr_table_delete t k)"
  using new_map store_map delete_map by unfold_locales (auto simp: tbl_room_def)

section \<open>Copying, clearing and destroying\<close>

lemma tbl_map_clone:
  assumes "ptr_tbl_ok n tbl"
  shows "ptr_tbl_ok n (modperl_svptr_table_clone dup tbl)"
    "tbl_map (modperl_svptr_table_clone dup tbl) k =
       (if tbl_index tbl k < unat (tbl_max tbl) then map_option dup (tbl_map tbl k) else None)"
proof -
  let ?c = "modperl_svptr_table_clone dup tbl"
  have t: "tbl_max tbl = mask n" "n < 64" "0 < n" "length (tbl_ary tbl) = 2 ^ n"
    using assms by (auto simp: ptr_tbl_ok_def)
  have e: "unat (mask n + 1 :: 64 word) = 2 ^ n" using t(2) by (simp add: mask_eq_exp_minus_1 unat_pow2)
  have a: "tbl_ary ?c ! i = (if i < unat (tbl_max tbl)
      then map (\<lambda>(k, v). (k, dup v)) (tbl_ary tbl ! i) else [])" if "i < 2 ^ n" for i
    using that by (simp add: modperl_svptr_table_clone_def t e tbl_bucket_def)
  show ok: "ptr_tbl_ok n ?c"
    using assms t e by (auto simp: ptr_tbl_ok_def a) (simp_all add: modperl_svptr_table_clone_def t e)
  have "map_of (map (\<lambda>(k, v). (k, dup v)) c) k = map_option dup (map_of c k)" for c
    by (induction c) auto
  then show "tbl_map ?c k =
       (if tbl_index tbl k < unat (tbl_max tbl) then map_option dup (tbl_map tbl k) else None)"
    by (simp add: tbl_map_ok [OF ok] tbl_map_ok [OF assms] a tbl_index_ok [OF assms])
qed

lemma aligned_index:
  assumes "ptr_tbl_ok n tbl" "even (unat k)"
  shows "tbl_index tbl k < unat (tbl_max tbl)"
proof -
  have t: "tbl_max tbl = mask n" "n < 64" "0 < n" using assms(1) by (auto simp: ptr_tbl_ok_def)
  have "tbl_index tbl k \<le> 2 ^ n - 1" using tbl_index_less [OF assms(1), of k] by simp
  moreover have "even (tbl_index tbl k)" using assms t(3) by (simp add: tbl_index_ok dvd_mod)
  moreover have "odd (2 ^ n - 1 :: nat)" using t(3) by simp
  ultimately have "tbl_index tbl k < 2 ^ n - 1" by (metis le_neq_implies_less)
  then show ?thesis using t by (simp add: unat_mask)
qed

lemma clear_loop_eq: "clear_loop e rest freed = freed @ tbl_keys e @ concat (map tbl_keys rest)"
proof (induction e rest freed rule: clear_loop.induct)
  case (1 e rest freed)
  show ?case
    using 1 by (subst clear_loop.simps) (auto split: list.splits simp: Let_def tbl_keys_def [abs_def])
qed

definition tbl_entries :: "ptr_tbl \<Rightarrow> (ptr \<times> nat) list" where
  "tbl_entries tbl = concat (tbl_ary tbl)"

lemma tbl_entries_ok:
  assumes "ptr_tbl_ok n tbl"
  shows "distinct (tbl_keys (tbl_entries tbl))" "set (tbl_keys (tbl_entries tbl)) = dom (tbl_map tbl)"
    "(k, v) \<in> set (tbl_entries tbl) \<Longrightarrow> tbl_map tbl k = Some v"
proof -
  have len: "length (tbl_ary tbl) = 2 ^ n" using assms by (simp add: ptr_tbl_ok_def)
  have keys: "tbl_keys (tbl_entries tbl) = concat (map tbl_keys (tbl_ary tbl))"
    by (simp add: tbl_entries_def tbl_keys_def [abs_def] map_concat)
  have b: "unat k mod 2 ^ n = i" if "i < 2 ^ n" "(k, v) \<in> set (tbl_ary tbl ! i)" for k v i
    using bucket_keys(2) [OF assms that(1)] that(2) by (force simp: tbl_keys_def)
  have disj: "set (tbl_keys (tbl_ary tbl ! i)) \<inter> set (tbl_keys (tbl_ary tbl ! j)) = {}"
    if "i < 2 ^ n" "j < 2 ^ n" "i \<noteq> j" for i j
    using that bucket_keys(2) [OF assms that(1)] bucket_keys(2) [OF assms that(2)] by blast
  show "distinct (tbl_keys (tbl_entries tbl))"
    unfolding keys using len bucket_keys(1) [OF assms] disj by (intro distinct_concat_nth) auto
  show e: "tbl_map tbl k = Some v" if kv: "(k, v) \<in> set (tbl_entries tbl)" for k v
  proof -
    from kv len obtain i where i: "i < 2 ^ n" "(k, v) \<in> set (tbl_ary tbl ! i)"
      by (metis in_set_conv_nth set_concat UN_E tbl_entries_def)
    then show ?thesis
      using bucket_keys(1) [OF assms i(1)] b [OF i] by (simp add: tbl_map_ok [OF assms] tbl_keys_def map_of_is_SomeI)
  qed
  have e': "(k, v) \<in> set (tbl_entries tbl)" if "tbl_map tbl k = Some v" for k v
  proof -
    let ?i = "unat k mod 2 ^ n"
    have "tbl_ary tbl ! ?i \<in> set (tbl_ary tbl)" using len by simp
    moreover have "(k, v) \<in> set (tbl_ary tbl ! ?i)"
      using that by (simp add: tbl_map_ok [OF assms] map_of_SomeD)
    ultimately show ?thesis unfolding tbl_entries_def set_concat by blast
  qed
  show "set (tbl_keys (tbl_entries tbl)) = dom (tbl_map tbl)"
  proof (rule set_eqI)
    fix k
    have "k \<in> set (tbl_keys (tbl_entries tbl)) \<longleftrightarrow> (\<exists>v. (k, v) \<in> set (tbl_entries tbl))"
      by (simp add: tbl_keys_def image_iff Bex_def)
    also have "\<dots> \<longleftrightarrow> (\<exists>v. tbl_map tbl k = Some v)" using e e' by blast
    finally show "k \<in> set (tbl_keys (tbl_entries tbl)) \<longleftrightarrow> k \<in> dom (tbl_map tbl)" by (simp add: dom_def)
  qed
qed

lemma bucket_range:
  assumes "ptr_tbl_ok n tbl" "j \<le> 2 ^ n"
  shows "map (tbl_bucket tbl) [0..<j] = take j (tbl_ary tbl)"
  using assms by (intro nth_equalityI) (auto simp: ptr_tbl_ok_def tbl_bucket_def)

lemma clear_freed:
  assumes "ptr_tbl_inv tbl"
  shows "snd (modperl_svptr_table_clear tbl) = tbl_keys (tbl_entries tbl)"
proof -
  obtain n where ok: "ptr_tbl_ok n tbl" and items: "unat (tbl_items tbl) = card (dom (tbl_map tbl))"
    using assms by (auto simp: ptr_tbl_inv_def)
  have t: "unat (tbl_max tbl) = 2 ^ n - 1" "length (tbl_ary tbl) = 2 ^ n"
    using ok by (auto simp: ptr_tbl_ok_def unat_mask)
  have "tbl_bucket tbl 0 # map (tbl_bucket tbl) [1..<2 ^ n] = map (tbl_bucket tbl) [0..<2 ^ n]"
    by (subst (2) upt_conv_Cons) auto
  then have "tbl_keys (tbl_bucket tbl 0) @ concat (map tbl_keys (map (tbl_bucket tbl) [1..<2 ^ n]))
      = concat (map tbl_keys (map (tbl_bucket tbl) [0..<2 ^ n]))"
    by (metis concat.simps(2) list.simps(9))
  also have "\<dots> = tbl_keys (tbl_entries tbl)"
    using bucket_range [OF ok, of "2 ^ n"] t(2)
    by (simp add: tbl_entries_def tbl_keys_def [abs_def] map_concat)
  finally have "clear_loop (tbl_bucket tbl 0) (map (tbl_bucket tbl) [1..<Suc (unat (tbl_max tbl))]) [] =
      tbl_keys (tbl_entries tbl)"
    by (simp add: clear_loop_eq t(1) del: clear_loop.simps)
  moreover have "tbl_items tbl = 0 \<Longrightarrow> tbl_keys (tbl_entries tbl) = []"
    using tbl_entries_ok(2) [OF ok] items by (simp add: card_eq_0_iff)
  ultimately show ?thesis by (simp add: modperl_svptr_table_clear_def)
qed

section \<open>Properties\<close>

text \<open>
  C13 After any sequence of at most $2^{62}$ stores and deletes on a new table, a fetch returns the
  value of the last store of the key that no delete of the key followed, and \<open>NULL\<close> when there is
  none: bucket chains, entry counting and the doubling of the bucket array are invisible.
\<close>

theorem svptr_table_run:
  assumes "length cmds \<le> 2 ^ 62"
  shows "modperl_svptr_table_fetch
      (run_cmds modperl_svptr_table_store (\<lambda>t k. fst (modperl_svptr_table_delete t k))
         modperl_svptr_table_new cmds) key =
    (case run_cmds (\<lambda>m k v. m(k \<mapsto> v)) (\<lambda>m k. m(k := None)) Map.empty cmds key of
       None \<Rightarrow> 0 | Some v \<Rightarrow> v)"
  using svptr.run_new(2) [OF assms] by (simp add: fetch_map)

theorem svptr_table_run_witness:
  "modperl_svptr_table_fetch
     (run_cmds modperl_svptr_table_store (\<lambda>t k. fst (modperl_svptr_table_delete t k))
        modperl_svptr_table_new [TblStore 512 7, TblStore 1024 8, TblStore 512 9, TblDelete 1024]) 512 = 9"
  using svptr_table_run [of "[TblStore 512 7, TblStore 1024 8, TblStore 512 9, TblDelete 1024]" 512]
  by simp

text \<open>
  C14 Doubling the bucket array of a well-formed table keeps the table well formed for the new
  size and changes the result of no fetch, as long as the doubled size fits the word.
\<close>

theorem svptr_table_split_fetch:
  assumes "ptr_tbl_ok n tbl" "n < 63"
  shows "ptr_tbl_ok (Suc n) (modperl_svptr_table_split tbl) \<and>
    modperl_svptr_table_fetch (modperl_svptr_table_split tbl) key = modperl_svptr_table_fetch tbl key"
  using split_ok [OF assms] by (simp add: fetch_map)

theorem svptr_table_split_fetch_witness:
  "modperl_svptr_table_fetch (modperl_svptr_table_split
     \<lparr>tbl_ary = [[(6, 60), (4, 40)], [(3, 30)]], tbl_max = 1, tbl_items = 3\<rparr>) 6 = 60"
proof -
  let ?t = "\<lparr>tbl_ary = [[(6, 60), (4, 40)], [(3, 30)]], tbl_max = 1, tbl_items = 3\<rparr>"
  have "ptr_tbl_ok 1 ?t"
    by (auto simp: ptr_tbl_ok_def less_2_cases_iff mask_eq_exp_minus_1)
  from svptr_table_split_fetch [OF this, of 6] show ?thesis
    by (simp add: modperl_svptr_table_fetch_def tbl_bucket_def tbl_index_def)
qed

text \<open>
  The copy of a table whose keys are all aligned (even) addresses, which is what the code
  stores, holds for every key the duplicate of the SV the source holds.
\<close>

theorem svptr_table_clone_aligned:
  assumes "ptr_tbl_inv tbl" "\<forall>k \<in> dom (tbl_map tbl). even (unat k)"
  shows "ptr_tbl_inv (modperl_svptr_table_clone dup tbl) \<and>
    tbl_map (modperl_svptr_table_clone dup tbl) k = map_option dup (tbl_map tbl k)"
proof -
  obtain n where ok: "ptr_tbl_ok n tbl" and items: "unat (tbl_items tbl) = card (dom (tbl_map tbl))"
    using assms by (auto simp: ptr_tbl_inv_def)
  have m: "tbl_map (modperl_svptr_table_clone dup tbl) k = map_option dup (tbl_map tbl k)" for k
    using tbl_map_clone(2) [OF ok, of dup k] aligned_index [OF ok, of k] assms(2)
    by (cases "tbl_map tbl k") (auto simp: dom_def)
  moreover have "dom (tbl_map (modperl_svptr_table_clone dup tbl)) = dom (tbl_map tbl)"
    using m by (auto simp: dom_def)
  moreover have "tbl_items (modperl_svptr_table_clone dup tbl) = tbl_items tbl"
    by (simp add: modperl_svptr_table_clone_def)
  ultimately show ?thesis using tbl_map_clone(1) [OF ok, of dup] items by (auto simp: ptr_tbl_inv_def)
qed

theorem svptr_table_clone_aligned_witness:
  "tbl_map (modperl_svptr_table_clone (\<lambda>v. v + 100)
     (modperl_svptr_table_store modperl_svptr_table_new 4096 5)) 4096 = Some 105"
proof -
  let ?t = "modperl_svptr_table_store modperl_svptr_table_new 4096 5"
  have room: "tbl_room modperl_svptr_table_new" by (simp add: tbl_room_def new_map)
  note st = store_map [OF new_map(1) room, of 4096 5]
  have "\<forall>k \<in> dom (tbl_map ?t). even (unat k)" by (simp add: st(2) new_map(2))
  from svptr_table_clone_aligned [OF st(1) this, of "\<lambda>v. v + 100" 4096] show ?thesis
    by (simp add: st(2))
qed

text \<open>
  Without that alignment the copy loses entries: the copying loop stops before the last
  bucket, so a key that hashes there is absent from every copy.
\<close>

theorem svptr_table_clone_last_bucket:
  assumes "ptr_tbl_inv tbl" "key AND tbl_max tbl = tbl_max tbl"
  shows "modperl_svptr_table_fetch (modperl_svptr_table_clone dup tbl) key = 0"
proof -
  obtain n where "ptr_tbl_ok n tbl" using assms by (auto simp: ptr_tbl_inv_def)
  from tbl_map_clone(2) [OF this] assms(2) show ?thesis by (simp add: fetch_map tbl_index_def)
qed

theorem svptr_table_clone_last_bucket_witness:
  "modperl_svptr_table_fetch (modperl_svptr_table_store modperl_svptr_table_new 511 5) 511 = 5 \<and>
   modperl_svptr_table_fetch (modperl_svptr_table_clone id
     (modperl_svptr_table_store modperl_svptr_table_new 511 5)) 511 = 0"
proof -
  let ?t = "modperl_svptr_table_store modperl_svptr_table_new 511 5"
  have room: "tbl_room modperl_svptr_table_new" by (simp add: tbl_room_def new_map)
  note st = store_map [OF new_map(1) room, of 511 5]
  have "tbl_max ?t = 511"
    by (simp add: modperl_svptr_table_store_def Let_def new_fields)
  with svptr_table_clone_last_bucket [OF st(1), of 511 id] show ?thesis
    by (simp add: fetch_map st(2))
qed

text \<open>
  Clearing a well-formed table frees the entry of every key of the table exactly once, the last
  bucket included.
\<close>

theorem svptr_table_clear_frees:
  assumes "ptr_tbl_inv tbl"
  shows "distinct (snd (modperl_svptr_table_clear tbl)) \<and>
    set (snd (modperl_svptr_table_clear tbl)) = dom (tbl_map tbl)"
proof -
  obtain n where "ptr_tbl_ok n tbl" using assms by (auto simp: ptr_tbl_inv_def)
  from tbl_entries_ok [OF this] show ?thesis by (simp add: clear_freed [OF assms])
qed

theorem svptr_table_clear_frees_witness:
  "set (snd (modperl_svptr_table_clear (modperl_svptr_table_store modperl_svptr_table_new 511 5))) = {511}"
proof -
  have room: "tbl_room modperl_svptr_table_new" by (simp add: tbl_room_def new_map)
  note st = store_map [OF new_map(1) room, of 511 5]
  from svptr_table_clear_frees [OF st(1)] show ?thesis by (simp add: st(2) new_map(2))
qed

end
