(* ===== verification/Interp.thy ===== *)
theory Interp
  imports Tipool_Threads Svptr_Table
begin

text \<open>
  The interpreter pool of \<^verbatim>\<open>src/src/modules/perl/modperl_interp.c\<close> (built with ithreads): creating
  and destroying interpreters, the callbacks that let the thread item pool hold them, and the
  selection of an interpreter for a request or a connection.

  An \<open>iworld\<close> is what the callbacks of the pool act on: the \<open>modperl_interp_t\<close> objects, the Perl
  runtimes, the context of the running thread (\<open>PERL_SET_CONTEXT\<close>) and a fault, set when an object that
  does not exist is used. An \<open>istate\<close> adds the pools of all servers, the requests, and the entries
  under \<open>MODPERL_INTERP\<close> of the APR pools together with the cleanups registered with them.
  \<open>perl_clone\<close> and \<open>sv_dup\<close> belong to Perl and are parameters (\<open>perl_api\<close>).
\<close>

unbundle bit_operations_syntax

section \<open>Interpreters and Perl runtimes\<close>

record interp =
  mip :: nat
  perl :: nat                    \<comment> \<open>\<open>0\<close> for \<open>NULL\<close>\<close>
  num_requests :: int
  iflags :: "8 word"
  irequest :: "nat option"
  refcnt :: int

definition MpInterpIN_USE_f :: "8 word" where "MpInterpIN_USE_f = 1"
definition MpInterpPUTBACK_f :: "8 word" where "MpInterpPUTBACK_f = 2"
definition MpInterpCLONED_f :: "8 word" where "MpInterpCLONED_f = 4"
definition MpInterpBASE_f :: "8 word" where "MpInterpBASE_f = 8"

lemmas interp_flags =
  MpInterpIN_USE_f_def MpInterpPUTBACK_f_def MpInterpCLONED_f_def MpInterpBASE_f_def

definition flag_on :: "8 word \<Rightarrow> interp \<Rightarrow> interp" where
  "flag_on f i = i\<lparr>iflags := iflags i OR f\<rparr>"

definition flag_off :: "8 word \<Rightarrow> interp \<Rightarrow> interp" where
  "flag_off f i = i\<lparr>iflags := iflags i AND NOT f\<rparr>"

definition has_flag :: "8 word \<Rightarrow> interp \<Rightarrow> bool" where
  "has_flag f i \<longleftrightarrow> iflags i AND f \<noteq> 0"

lemma has_flag_off [simp]:
  "\<not> has_flag f (flag_off f i)" "\<not> has_flag f (flag_off g (flag_off f i))"
proof -
  have "(x AND NOT f) AND f = 0" "((x AND NOT f) AND NOT g) AND f = 0" for x :: "8 word"
    by (auto simp: bit_eq_iff bit_simps)
  then show "\<not> has_flag f (flag_off f i)" "\<not> has_flag f (flag_off g (flag_off f i))"
    by (simp_all add: has_flag_def flag_off_def)
qed

record 'p perl_rt =
  config_table :: "ptr_tbl option"
  thx_key :: "nat option"
  scopestack_ix :: nat
  dl_librefs :: "nat list"
  perl_data :: 'p

record 'p perl_api =
  perl_clone :: "'p perl_rt \<Rightarrow> 'p perl_rt"
  sv_dup :: "nat \<Rightarrow> nat"

record 'p iworld =
  interps :: "nat \<Rightarrow> interp option"
  ibrk :: nat
  perls :: "nat \<Rightarrow> 'p perl_rt option"
  pbrk :: nat
  thx :: nat
  dlclosed :: "nat list"
  ifault :: "c_error option"

definition modperl_interp_clone_init :: "interp \<Rightarrow> 'p perl_rt \<Rightarrow> interp \<times> 'p perl_rt" where
  "modperl_interp_clone_init i rt =
     (flag_on MpInterpCLONED_f i,
      rt\<lparr>scopestack_ix := (if scopestack_ix rt = 0 then 1 else scopestack_ix rt), dl_librefs := []\<rparr>)"

definition modperl_interp_new ::
    "'p perl_api \<Rightarrow> nat \<Rightarrow> nat \<Rightarrow> 'p iworld \<Rightarrow> nat \<times> 'p iworld" where
  "modperl_interp_new api m pl w =
     (let a = ibrk w;
          i = \<lparr>mip = m, perl = 0, num_requests = 0, iflags = 0, irequest = None, refcnt = 0\<rparr>
      in if pl = 0 then (a, w\<lparr>interps := (interps w)(a \<mapsto> i), ibrk := Suc a\<rparr>)
         else case perls w pl of
           None \<Rightarrow> (a, w\<lparr>ifault := Some UseAfterFree\<rparr>)
         | Some rt \<Rightarrow>
             let q = pbrk w;
                 rt1 = perl_clone api rt;
                 rt2 = (case config_table rt of
                          None \<Rightarrow> rt1
                        | Some source \<Rightarrow> rt1\<lparr>config_table :=
                            Some (modperl_svptr_table_clone (sv_dup api) source)\<rparr>);
                 (i', rt3) = modperl_interp_clone_init (i\<lparr>perl := q\<rparr>) rt2
             in (a, w\<lparr>interps := (interps w)(a \<mapsto> i'), ibrk := Suc a,
                     perls := (perls w)(q \<mapsto> rt3), pbrk := Suc q, thx := pl\<rparr>))"

text \<open>\<open>modperl_perl_destruct\<close> ends the runtime; the libraries it had opened are closed after it.\<close>

definition modperl_interp_destroy :: "nat \<Rightarrow> 'p iworld \<Rightarrow> 'p iworld" where
  "modperl_interp_destroy a w = (case interps w a of
       None \<Rightarrow> w\<lparr>ifault := Some UseAfterFree\<rparr>
     | Some i \<Rightarrow> (case perls w (perl i) of
         None \<Rightarrow> w\<lparr>ifault := Some UseAfterFree\<rparr>
       | Some rt \<Rightarrow>
           w\<lparr>thx := perl i, perls := (perls w)(perl i := None),
             dlclosed := dlclosed w @ dl_librefs rt,
             interps := (interps w)(a := None)\<rparr>))"

definition interp_pool_grow :: "'p perl_api \<Rightarrow> nat \<Rightarrow> nat \<Rightarrow> 'p iworld \<Rightarrow> nat \<times> 'p iworld" where
  "interp_pool_grow api m parent w = (case interps w parent of
       None \<Rightarrow> (ibrk w, w\<lparr>ifault := Some UseAfterFree\<rparr>)
     | Some i \<Rightarrow> modperl_interp_new api m (perl i) w)"

definition interp_pool_shrink :: "nat \<Rightarrow> 'p iworld \<Rightarrow> 'p iworld" where
  "interp_pool_shrink item w = modperl_interp_destroy item w"

definition interp_pool_func :: "'p perl_api \<Rightarrow> nat \<Rightarrow> nat \<Rightarrow> 'p iworld tipool_vtbl" where
  "interp_pool_func api m parent =
     \<lparr>tipool_sgrow = interp_pool_grow api m parent,
      tipool_rgrow = Some (interp_pool_grow api m parent),
      tipool_destroy_item = Some interp_pool_shrink\<rparr>"

section \<open>The interpreter pool is an item source\<close>

text \<open>
  Every interpreter object is older than the next address \<open>malloc\<close> returns and owns a runtime of its
  own; the parent of the pool exists and nothing that does not exist has been used.
\<close>

definition iworld_ok :: "'p iworld \<Rightarrow> bool" where
  "iworld_ok w \<longleftrightarrow> ifault w = None \<and> 0 < pbrk w \<and> dom (perls w) \<subseteq> {1..<pbrk w} \<and>
     (\<forall>a i. interps w a = Some i \<longrightarrow> a < ibrk w \<and> perl i \<in> dom (perls w)) \<and>
     (\<forall>a b i j. interps w a = Some i \<longrightarrow> interps w b = Some j \<longrightarrow> perl i = perl j \<longrightarrow> a = b)"

definition clones :: "nat \<Rightarrow> nat \<Rightarrow> 'p iworld \<Rightarrow> nat set" where
  "clones m parent w = {a. a \<noteq> parent \<and> (\<exists>i. interps w a = Some i \<and> mip i = m)}"

definition iworld_sane :: "nat \<Rightarrow> 'p iworld \<Rightarrow> bool" where
  "iworld_sane parent w \<longleftrightarrow> iworld_ok w \<and> parent \<in> dom (interps w)"

lemma interp_new_clone:
  assumes ok: "iworld_ok w" and pl: "pl \<in> dom (perls w)"
    and new: "modperl_interp_new api m pl w = (a, w')"
  shows "a \<notin> dom (interps w)" "iworld_ok w'" "dom (interps w') = insert a (dom (interps w))"
    "interps w' = (interps w)(a := interps w' a)" "\<exists>i. interps w' a = Some i \<and> perl i \<notin> dom (perls w) \<and>
       mip i = m \<and> has_flag MpInterpCLONED_f i \<and> num_requests i = 0 \<and> irequest i = None \<and> refcnt i = 0"
proof -
  obtain rt where rt: "perls w pl = Some rt" using pl by blast
  have bounds: "dom (perls w) \<subseteq> {1..<pbrk w}" "0 < pbrk w"
    "\<And>b j. interps w b = Some j \<Longrightarrow> b < ibrk w \<and> perl j \<in> dom (perls w)"
    using ok unfolding iworld_ok_def by blast+
  have pl0: "pl \<noteq> 0" using pl bounds(1) by force
  let ?i = "\<lparr>mip = m, perl = pbrk w, num_requests = 0, iflags = 4, irequest = None, refcnt = 0\<rparr>"
  from new rt pl0 obtain rt3 where w': "a = ibrk w"
      "w' = w\<lparr>interps := (interps w)(ibrk w \<mapsto> ?i), ibrk := Suc (ibrk w),
             perls := (perls w)(pbrk w \<mapsto> rt3), pbrk := Suc (pbrk w), thx := pl\<rparr>"
    by (auto simp: modperl_interp_new_def modperl_interp_clone_init_def flag_on_def interp_flags Let_def)
  have fresh: "pbrk w \<notin> dom (perls w)" using bounds(1) by force
  show "a \<notin> dom (interps w)" using bounds(3) w'(1) by (auto dest: less_irrefl_nat)
  show "dom (interps w') = insert a (dom (interps w))" "interps w' = (interps w)(a := interps w' a)"
    using w' by auto
  show "\<exists>i. interps w' a = Some i \<and> perl i \<notin> dom (perls w) \<and>
       mip i = m \<and> has_flag MpInterpCLONED_f i \<and> num_requests i = 0 \<and> irequest i = None \<and> refcnt i = 0"
    using w' fresh by (auto simp: has_flag_def interp_flags)
  have "perl j \<noteq> pbrk w" if "interps w b = Some j" for b j using bounds(3) [OF that] fresh by metis
  moreover have "b < Suc (ibrk w)" if "interps w b = Some j" for b j using bounds(3) [OF that] by simp
  ultimately show "iworld_ok w'"
    using ok w' by (auto simp: iworld_ok_def) blast
qed

lemma interp_destroy_live:
  assumes ok: "iworld_ok w" and a: "a \<in> dom (interps w)"
  shows "iworld_ok (modperl_interp_destroy a w)"
    "interps (modperl_interp_destroy a w) = (interps w)(a := None)"
proof -
  obtain i where i: "interps w a = Some i" using a by blast
  have "perl i \<in> dom (perls w)" using ok i unfolding iworld_ok_def by blast
  then obtain rt where rt: "perls w (perl i) = Some rt" by blast
  have "perl j \<noteq> perl i" if "interps w b = Some j" "b \<noteq> a" for b j
    using ok i that unfolding iworld_ok_def by blast
  then show "iworld_ok (modperl_interp_destroy a w)"
    using ok by (auto simp: modperl_interp_destroy_def i rt iworld_ok_def)
  show "interps (modperl_interp_destroy a w) = (interps w)(a := None)"
    by (simp add: modperl_interp_destroy_def i rt)
qed

lemma interp_pool_grow_sane:
  assumes "iworld_sane parent w" "interp_pool_grow api m parent w = (x, w')"
  shows "x \<notin> clones m parent w \<and> clones m parent w' = insert x (clones m parent w) \<and> iworld_sane parent w'"
proof -
  obtain i where i: "interps w parent = Some i" "iworld_ok w" using assms(1) by (auto simp: iworld_sane_def)
  then have pl: "perl i \<in> dom (perls w)" unfolding iworld_ok_def by blast
  have "modperl_interp_new api m (perl i) w = (x, w')" using assms(2) i by (simp add: interp_pool_grow_def)
  note new = interp_new_clone [OF i(2) pl this]
  obtain j where j: "interps w' = (interps w)(x \<mapsto> j)" "mip j = m" using new(4,5) by metis
  then show ?thesis using new(1,2) i(1) by (auto simp: clones_def iworld_sane_def)
qed

interpretation interp_source: item_source "interp_pool_func api m parent" "clones m parent" "iworld_sane parent"
proof unfold_locales
  fix w w' :: "'a iworld" and x
  assume "iworld_sane parent w"
  then show "tipool_sgrow (interp_pool_func api m parent) w = (x, w') \<Longrightarrow>
      x \<notin> clones m parent w \<and> clones m parent w' = insert x (clones m parent w) \<and> iworld_sane parent w'"
    by (simp add: interp_pool_func_def interp_pool_grow_sane)
next
  fix w w' :: "'a iworld" and x g
  assume "iworld_sane parent w" "tipool_rgrow (interp_pool_func api m parent) = Some g" "g w = (x, w')"
  then show "x \<notin> clones m parent w \<and> clones m parent w' = insert x (clones m parent w) \<and> iworld_sane parent w'"
    using interp_pool_grow_sane [of parent w api m x w'] by (simp add: interp_pool_func_def)
next
  fix w :: "'a iworld" and x d
  assume "iworld_sane parent w" "tipool_destroy_item (interp_pool_func api m parent) = Some d"
    and x: "x \<in> clones m parent w"
  then have w: "iworld_ok w" "parent \<in> dom (interps w)" "x \<noteq> parent" "x \<in> dom (interps w)"
    and d: "d x w = modperl_interp_destroy x w"
    by (auto simp: clones_def iworld_sane_def interp_pool_func_def interp_pool_shrink_def)
  show "clones m parent (d x w) = clones m parent w - {x} \<and> iworld_sane parent (d x w)"
    using interp_destroy_live [OF w(1,4)] w(2,3) unfolding d
    by (auto simp: iworld_sane_def clones_def)
qed

section \<open>Servers, requests and pools of the running process\<close>

datatype modperl_interp_scope_e =
  SCOPE_UNDEF | SCOPE_HANDLER | SCOPE_SUBREQUEST | SCOPE_REQUEST | SCOPE_CONNECTION

fun modperl_interp_scope_desc :: "modperl_interp_scope_e \<Rightarrow> string" where
  "modperl_interp_scope_desc SCOPE_UNDEF = ''undef''"
| "modperl_interp_scope_desc SCOPE_HANDLER = ''handler''"
| "modperl_interp_scope_desc SCOPE_SUBREQUEST = ''subrequest''"
| "modperl_interp_scope_desc SCOPE_REQUEST = ''request''"
| "modperl_interp_scope_desc SCOPE_CONNECTION = ''connection''"

record 'p interp_pool =
  mip_server :: nat
  mip_tipool :: "'p iworld tipool option"
  mip_parent :: nat

record srv_interp =
  scfg_mip :: "nat option"
  interp_scope :: modperl_interp_scope_e
  interp_pool_cfg :: tipool_config

text \<open>
  A request is numbered later than the request it is a subrequest of. \<open>r_dir_scope\<close> is the
  \<open>PerlInterpScope\<close> of its per-directory configuration, \<open>None\<close> if it has no such configuration.
\<close>

record request =
  r_main :: "nat option"
  r_pool :: nat
  r_conn_pool :: nat
  r_server :: nat
  r_dir_scope :: "modperl_interp_scope_e option"
  rcfg_interp :: "nat option"
  rcfg_cleanup_registered :: bool

record 'p istate =
  iw :: "'p iworld"
  mips :: "nat \<Rightarrow> 'p interp_pool option"
  mip_brk :: nat
  scfgs :: "nat \<Rightarrow> srv_interp option"
  reqs :: "nat \<Rightarrow> request option"
  userdata :: "nat \<Rightarrow> nat option"         \<comment> \<open>the entry \<open>MODPERL_INTERP\<close> of each APR pool\<close>
  pool_cleanups :: "nat \<Rightarrow> nat list"      \<comment> \<open>arguments of the registered \<open>modperl_interp_unselect\<close>\<close>
  requests_cleaned :: "nat list"          \<comment> \<open>calls of \<open>modperl_config_request_cleanup\<close>\<close>
  threaded_mpm :: bool

definition the_obj :: "'a option \<Rightarrow> c_error \<Rightarrow> 'a res" where
  "the_obj x e = (case x of None \<Rightarrow> Inl e | Some y \<Rightarrow> Inr y)"

lemma the_obj_simps [simp]: "the_obj None e = Inl e" "the_obj (Some y) e = Inr y"
  by (simp_all add: the_obj_def)

definition get_interp_obj :: "'p istate \<Rightarrow> nat \<Rightarrow> interp res" where
  "get_interp_obj st a = the_obj (interps (iw st) a) UseAfterFree"

definition upd_interp :: "nat \<Rightarrow> (interp \<Rightarrow> interp) \<Rightarrow> 'p iworld \<Rightarrow> 'p iworld" where
  "upd_interp a f w = w\<lparr>interps := (interps w)(a := map_option f (interps w a))\<rparr>"

definition set_tipool :: "nat \<Rightarrow> 'p interp_pool \<Rightarrow> 'p iworld tipool \<Rightarrow> 'p istate \<Rightarrow> 'p istate" where
  "set_tipool m mp tp st =
     st\<lparr>mips := (mips st)(m \<mapsto> mp\<lparr>mip_tipool := Some tp\<rparr>), iw := world tp\<rparr>"

text \<open>\<open>modperl_thx_interp_get\<close> and \<open>modperl_thx_interp_set\<close>: the entry in \<open>PL_modglobal\<close>.\<close>

definition modperl_thx_interp_get :: "'p iworld \<Rightarrow> nat \<Rightarrow> nat option" where
  "modperl_thx_interp_get w pl = Option.bind (perls w pl) (\<lambda>rt.
     case thx_key rt of None \<Rightarrow> None | Some a \<Rightarrow> if a = 0 then None else Some a)"

definition modperl_thx_interp_set :: "nat \<Rightarrow> nat \<Rightarrow> 'p iworld \<Rightarrow> 'p iworld" where
  "modperl_thx_interp_set pl a w =
     w\<lparr>perls := (perls w)(pl := map_option (\<lambda>rt. rt\<lparr>thx_key := Some a\<rparr>) (perls w pl))\<rparr>"

section \<open>Operations\<close>

text \<open>The result of an operation that may have to wait for an interpreter.\<close>

datatype ('a, 's) isel = IBlocked 's | IGot 'a 's

definition modperl_interp_init :: "'p perl_api \<Rightarrow> lheap \<Rightarrow> nat \<Rightarrow> nat \<Rightarrow> 'p istate \<Rightarrow> 'p istate res" where
  "modperl_interp_init api h s pl st =
     and_then (the_obj (scfgs st s) NullDeref) (\<lambda>scfg.
       let m = mip_brk st;
           (parent, w) = modperl_interp_new api m 0 (iw st);
           w1 = upd_interp parent (\<lambda>i. i\<lparr>perl := pl\<rparr>) w;
           tp = (if threaded_mpm st
                 then Some (modperl_tipool_new (interp_pool_cfg scfg) (interp_pool_func api m parent) h w1)
                 else None)
       in Inr (st\<lparr>iw := w1, mip_brk := Suc m,
                  mips := (mips st)(m \<mapsto> \<lparr>mip_server = s, mip_tipool = tp, mip_parent = parent\<rparr>),
                  scfgs := (scfgs st)(s \<mapsto> scfg\<lparr>scfg_mip := Some m\<rparr>)\<rparr>))"

definition modperl_interp_get :: "nat \<Rightarrow> 'p istate \<Rightarrow> (nat, 'p istate) isel res" where
  "modperl_interp_get s st =
     and_then (the_obj (scfgs st s) NullDeref) (\<lambda>scfg.
     and_then (the_obj (scfg_mip scfg) NullDeref) (\<lambda>m.
     and_then (the_obj (mips st m) UseAfterFree) (\<lambda>mp.
     and_then (the_obj (mip_tipool mp) NullDeref) (\<lambda>tp.
     and_then (modperl_tipool_pop (tp\<lparr>world := iw st\<rparr>)) (\<lambda>r. case r of
         Blocked tp' \<Rightarrow> Inr (IBlocked (set_tipool m mp tp' st))
       | Popped head tp' \<Rightarrow>
           and_then (peek (theap tp') head) (\<lambda>n.
             let a = ldata n; st1 = set_tipool m mp tp' st in
             and_then (get_interp_obj st1 a) (\<lambda>_.
               Inr (IGot a (st1\<lparr>iw := upd_interp a (flag_on MpInterpIN_USE_f) (iw st1)\<rparr>)))))))))"

definition modperl_interp_pool_destroy :: "nat \<Rightarrow> 'p istate \<Rightarrow> 'p istate res" where
  "modperl_interp_pool_destroy m st =
     and_then (the_obj (mips st m) UseAfterFree) (\<lambda>mp.
     and_then (case mip_tipool mp of
                 None \<Rightarrow> Inr (iw st)
               | Some tp \<Rightarrow> and_then (modperl_tipool_destroy (tp\<lparr>world := iw st\<rparr>)) (\<lambda>tp'. Inr (world tp')))
       (\<lambda>w. let st1 = st\<lparr>iw := w, mips := (mips st)(m \<mapsto> mp\<lparr>mip_tipool := None\<rparr>)\<rparr> in
         and_then (get_interp_obj st1 (mip_parent mp)) (\<lambda>i.
           if has_flag MpInterpBASE_f i
           then Inr (st1\<lparr>iw := modperl_interp_destroy (mip_parent mp) w\<rparr>) else Inr st1)))"

text \<open>
  \<open>modperl_config_request_cleanup\<close> runs the cleanup handlers of the request; it is an entry in
  \<open>requests_cleaned\<close> here. \<open>rcfg\<close> lives as long as the request.
\<close>

definition interp_request_cleanup :: "nat \<Rightarrow> 'p istate \<Rightarrow> 'p istate res" where
  "interp_request_cleanup r st =
     and_then (the_obj (reqs st r) UseAfterFree) (\<lambda>q.
       Inr (st\<lparr>requests_cleaned := requests_cleaned st @ [r],
               reqs := (reqs st)(r \<mapsto> q\<lparr>rcfg_cleanup_registered := False\<rparr>)\<rparr>))"

definition modperl_interp_unselect :: "nat \<Rightarrow> 'p istate \<Rightarrow> 'p istate res" where
  "modperl_interp_unselect a st =
     and_then (get_interp_obj st a) (\<lambda>i.
       if refcnt i \<noteq> 0
       then Inr (st\<lparr>iw := upd_interp a (\<lambda>i. i\<lparr>refcnt := refcnt i - 1\<rparr>) (iw st)\<rparr>)
       else
         and_then (case irequest i of None \<Rightarrow> Inr st | Some r \<Rightarrow> interp_request_cleanup r st) (\<lambda>st1.
         let w = modperl_thx_interp_set (perl i) 0
                   (upd_interp a (\<lambda>i. flag_off MpInterpPUTBACK_f (flag_off MpInterpIN_USE_f i)) (iw st1))
         in and_then (the_obj (mips st1 (mip i)) UseAfterFree) (\<lambda>mp.
            and_then (the_obj (mip_tipool mp) NullDeref) (\<lambda>tp.
            and_then (modperl_tipool_putback_data (tp\<lparr>world := w\<rparr>) a (num_requests i)) (\<lambda>(tp', _).
              Inr (set_tipool (mip i) mp tp' st1))))))"

definition modperl_interp_pool_get :: "nat \<Rightarrow> 'p istate \<Rightarrow> nat option" where
  "modperl_interp_pool_get p st = userdata st p"

definition modperl_interp_pool_set :: "nat \<Rightarrow> nat \<Rightarrow> bool \<Rightarrow> 'p istate \<Rightarrow> 'p istate" where
  "modperl_interp_pool_set p a cleanup st =
     st\<lparr>userdata := (userdata st)(p \<mapsto> a),
        pool_cleanups := (if cleanup then (pool_cleanups st)(p := a # pool_cleanups st p)
                          else pool_cleanups st)\<rparr>"

text \<open>
  \<open>is_startup\<close>: the pool is the configuration pool of the process. A server without \<open>mip\<close> gets it
  from \<open>modperl_init_vhost\<close>, the parameter \<open>init_vhost\<close>.
\<close>

definition modperl_interp_pool_select ::
    "(nat \<Rightarrow> 'p istate \<Rightarrow> 'p istate res) \<Rightarrow> bool \<Rightarrow> nat \<Rightarrow> nat \<Rightarrow> 'p istate
      \<Rightarrow> (nat, 'p istate) isel res" where
  "modperl_interp_pool_select init_vhost is_startup p s st =
     (case scfgs st s of
        Some scfg \<Rightarrow>
          if is_startup \<or> \<not> threaded_mpm st
          then and_then (if scfg_mip scfg = None then init_vhost s st else Inr st) (\<lambda>st1.
               and_then (the_obj (Option.bind (scfgs st1 s) scfg_mip) NullDeref) (\<lambda>m.
               and_then (the_obj (mips st1 m) UseAfterFree) (\<lambda>mp. Inr (IGot (mip_parent mp) st1))))
          else (case modperl_interp_pool_get p st of
              Some a \<Rightarrow> Inr (IGot a st)
            | None \<Rightarrow> and_then (modperl_interp_get s st) (\<lambda>r. case r of
                  IBlocked st' \<Rightarrow> Inr (IBlocked st')
                | IGot a st' \<Rightarrow> Inr (IGot a (modperl_interp_pool_set p a True st'))))
      | None \<Rightarrow> (case modperl_interp_pool_get p st of
              Some a \<Rightarrow> Inr (IGot a st)
            | None \<Rightarrow> Inl NullDeref))"

text \<open>The loop over the main requests of a subrequest: the last pool it looked into, and the interpreter
  found there.\<close>

function interp_main_lookup :: "'p istate \<Rightarrow> nat \<Rightarrow> (nat \<times> nat option) res" where
  "interp_main_lookup st m = (case reqs st m of
       None \<Rightarrow> Inl UseAfterFree
     | Some q \<Rightarrow> (case userdata st (r_pool q) of
         Some a \<Rightarrow> Inr (r_pool q, Some a)
       | None \<Rightarrow> (case r_main q of
           None \<Rightarrow> Inr (r_pool q, None)
         | Some m' \<Rightarrow> if m' < m then interp_main_lookup st m' else Inl Diverges)))"
  by pat_completeness auto
termination by (relation "measure snd") auto

declare interp_main_lookup.simps [simp del]

definition interp_scope_of :: "request option \<Rightarrow> srv_interp \<Rightarrow> modperl_interp_scope_e" where
  "interp_scope_of ro scfg = (case ro of
       None \<Rightarrow> SCOPE_CONNECTION
     | Some q \<Rightarrow> (case r_dir_scope q of
         Some d \<Rightarrow> if d \<noteq> SCOPE_UNDEF then d else interp_scope scfg
       | None \<Rightarrow> interp_scope scfg))"

text \<open>
  Where the code looks for an interpreter that is already selected: the pool it ends up with (\<open>p\<close> of
  the C code, \<open>None\<close> for \<open>NULL\<close>) and the interpreter, if one was found. \<open>c\<close> is the pool of the connection.
\<close>

definition interp_find ::
    "request option \<Rightarrow> nat option \<Rightarrow> modperl_interp_scope_e \<Rightarrow> 'p istate
      \<Rightarrow> (nat option \<times> nat option) res" where
  "interp_find ro c scope st =
     (if c \<noteq> None \<and> scope = SCOPE_CONNECTION then Inr (c, userdata st (the c))
      else case ro of
        None \<Rightarrow> Inr (None, None)
      | Some q \<Rightarrow>
          and_then (case r_main q of
              Some m \<Rightarrow> if scope = SCOPE_REQUEST then interp_main_lookup st m
                        else Inr (r_pool q, userdata st (r_pool q))
            | None \<Rightarrow> Inr (r_pool q, userdata st (r_pool q))) (\<lambda>(p, found).
            Inr (Some p, case found of Some a \<Rightarrow> Some a | None \<Rightarrow> userdata st (r_conn_pool q))))"

text \<open>The end of the selection: the context and the entry in \<open>PL_modglobal\<close>.\<close>

definition interp_use :: "nat \<Rightarrow> 'p istate \<Rightarrow> (nat option, 'p istate) isel res" where
  "interp_use a st = and_then (get_interp_obj st a) (\<lambda>i.
     Inr (IGot (Some a) (st\<lparr>iw := modperl_thx_interp_set (perl i) a ((iw st)\<lparr>thx := perl i\<rparr>)\<rparr>)))"

definition modperl_interp_select ::
    "nat option \<Rightarrow> nat option \<Rightarrow> nat \<Rightarrow> 'p istate \<Rightarrow> (nat option, 'p istate) isel res" where
  "modperl_interp_select r c s st =
     and_then (case r of None \<Rightarrow> Inr None
               | Some r' \<Rightarrow> and_then (the_obj (reqs st r') UseAfterFree) (\<lambda>q. Inr (Some q))) (\<lambda>ro.
     and_then (the_obj (scfgs st s) NullDeref) (\<lambda>scfg.
     if \<not> threaded_mpm st
     then and_then (the_obj (scfg_mip scfg) NullDeref) (\<lambda>m.
          and_then (the_obj (mips st m) UseAfterFree) (\<lambda>mp.
          and_then (get_interp_obj st (mip_parent mp)) (\<lambda>i.
            Inr (IGot (Some (mip_parent mp)) (st\<lparr>iw := (iw st)\<lparr>thx := perl i\<rparr>\<rparr>)))))
     else case Option.bind ro rcfg_interp of
       Some a \<Rightarrow> Inr (IGot (Some a) st)
     | None \<Rightarrow>
         let scope = interp_scope_of ro scfg in
         and_then (interp_find ro c scope st) (\<lambda>(p, found). case found of
           Some a \<Rightarrow> Inr (IGot (Some a) st)
         | None \<Rightarrow>
             and_then (modperl_interp_get s st) (\<lambda>g. case g of
               IBlocked st' \<Rightarrow> Inr (IBlocked st')
             | IGot a st1 \<Rightarrow>
                 let st2 = st1\<lparr>iw := upd_interp a (\<lambda>i. i\<lparr>num_requests := num_requests i + 1\<rparr>) (iw st1)\<rparr> in
                 if scope = SCOPE_HANDLER
                 then (case (r, ro) of
                     (Some r', Some q) \<Rightarrow>
                       let w = upd_interp a (\<lambda>i. flag_on MpInterpPUTBACK_f (i\<lparr>irequest := Some r'\<rparr>)) (iw st2);
                           st3 = st2\<lparr>iw := w, reqs := (reqs st2)(r' \<mapsto> q\<lparr>rcfg_cleanup_registered := True\<rparr>)\<rparr>
                       in interp_use a st3
                   | _ \<Rightarrow> Inl NullDeref)
                 else (case p of
                     None \<Rightarrow> Inr (IGot None st2)
                   | Some p' \<Rightarrow> interp_use a (modperl_interp_pool_set p' a True st2))))))"

section \<open>The pool of a server within the process\<close>

definition mip_inv :: "'p perl_api \<Rightarrow> 'p istate \<Rightarrow> nat \<Rightarrow> nat list \<Rightarrow> nat list \<Rightarrow> bool" where
  "mip_inv api st m I B \<longleftrightarrow> (\<exists>mp tp. mips st m = Some mp \<and> mip_tipool mp = Some tp \<and>
     tipool_abs tp I B \<and> func tp = interp_pool_func api m (mip_parent mp) \<and>
     item_source.items_ok (clones m (mip_parent mp)) (iworld_sane (mip_parent mp)) I B (iw st))"

lemma mip_invE:
  assumes "mip_inv api st m I B"
  obtains mp tp where "mips st m = Some mp" "mip_tipool mp = Some tp" "tipool_abs tp I B"
    "func tp = interp_pool_func api m (mip_parent mp)" "distinct (I @ B)"
    "set (I @ B) \<subseteq> clones m (mip_parent mp) (iw st)" "iworld_sane (mip_parent mp) (iw st)"
  using assms by (auto simp: mip_inv_def interp_source.items_ok_def)

lemma mip_inv_item:
  assumes "mip_inv api st m I B" "a \<in> set (I @ B)"
  obtains i rt where "interps (iw st) a = Some i" "mip i = m" "perls (iw st) (perl i) = Some rt"
proof -
  from assms(1) obtain mp tp where "mips st m = Some mp" "mip_tipool mp = Some tp" "tipool_abs tp I B"
    "func tp = interp_pool_func api m (mip_parent mp)" "distinct (I @ B)"
    "set (I @ B) \<subseteq> clones m (mip_parent mp) (iw st)" "iworld_sane (mip_parent mp) (iw st)"
    by (rule mip_invE)
  with assms(2) obtain i where "interps (iw st) a = Some i" "mip i = m" "iworld_ok (iw st)"
    by (auto simp: clones_def iworld_sane_def)
  moreover from this have "perl i \<in> dom (perls (iw st))" unfolding iworld_ok_def by blast
  ultimately show ?thesis using that by blast
qed

text \<open>Changes of an interpreter's bookkeeping fields and of its Perl runtime keep the invariant.\<close>

definition same_objects :: "'p iworld \<Rightarrow> 'p iworld \<Rightarrow> bool" where
  "same_objects w w' \<longleftrightarrow> ibrk w' = ibrk w \<and> pbrk w' = pbrk w \<and> ifault w' = ifault w \<and>
     dom (perls w') = dom (perls w) \<and>
     (\<forall>a. map_option (\<lambda>i. (mip i, perl i)) (interps w' a) = map_option (\<lambda>i. (mip i, perl i)) (interps w a))"

lemma same_objects_trans: "same_objects w w1 \<Longrightarrow> same_objects w1 w2 \<Longrightarrow> same_objects w w2"
  by (simp add: same_objects_def)

lemma same_objects_upd:
  assumes "\<And>i. mip (f i) = mip i \<and> perl (f i) = perl i"
  shows "same_objects w (upd_interp a f w)"
  using assms by (auto simp: same_objects_def upd_interp_def option.map_comp comp_def)

lemma same_objects_thx [simp]:
  "same_objects w (modperl_thx_interp_set pl a w)" "same_objects w (w\<lparr>thx := pl\<rparr>)"
  by (auto simp: same_objects_def modperl_thx_interp_set_def dom_def)

lemma same_objects_obj:
  assumes "same_objects w w'"
  shows "interps w' a = Some i' \<Longrightarrow> \<exists>i. interps w a = Some i \<and> mip i' = mip i \<and> perl i' = perl i"
    "interps w a = Some i \<Longrightarrow> \<exists>i'. interps w' a = Some i' \<and> mip i' = mip i \<and> perl i' = perl i"
proof -
  have "map_option (\<lambda>i. (mip i, perl i)) (interps w' a) = map_option (\<lambda>i. (mip i, perl i)) (interps w a)"
    using assms by (simp add: same_objects_def)
  then show "interps w' a = Some i' \<Longrightarrow> \<exists>i. interps w a = Some i \<and> mip i' = mip i \<and> perl i' = perl i"
    "interps w a = Some i \<Longrightarrow> \<exists>i'. interps w' a = Some i' \<and> mip i' = mip i \<and> perl i' = perl i"
    by (cases "interps w a"; cases "interps w' a"; simp)+
qed

lemma same_objects_ok:
  assumes "same_objects w w'" "iworld_ok w"
  shows "iworld_ok w'"
proof -
  have eq: "ibrk w' = ibrk w" "pbrk w' = pbrk w" "ifault w' = ifault w" "dom (perls w') = dom (perls w)"
    using assms(1) by (simp_all add: same_objects_def)
  have objs: "a < ibrk w \<and> perl i \<in> dom (perls w)" if "interps w' a = Some i" for a i
    using same_objects_obj(1) [OF assms(1) that] assms(2) unfolding iworld_ok_def by metis
  have inj: "a = b" if "interps w' a = Some i" "interps w' b = Some j" "perl i = perl j" for a b i j
    using same_objects_obj(1) [OF assms(1) that(1)] same_objects_obj(1) [OF assms(1) that(2)] that(3)
      assms(2) unfolding iworld_ok_def by metis
  have "ifault w = None" "0 < pbrk w" "dom (perls w) \<subseteq> {1..<pbrk w}"
    using assms(2) unfolding iworld_ok_def by blast+
  with objs inj show ?thesis unfolding iworld_ok_def eq by blast
qed

lemma same_objects_clones:
  assumes "same_objects w w'"
  shows "clones m parent w' = clones m parent w" "dom (interps w') = dom (interps w)"
  using same_objects_obj [OF assms] by (force simp: clones_def)+

lemma same_objects_items:
  assumes "same_objects w w'" "item_source.items_ok (clones m parent) (iworld_sane parent) I B w"
  shows "item_source.items_ok (clones m parent) (iworld_sane parent) I B w'"
  using assms(2) same_objects_clones [OF assms(1)] same_objects_ok [OF assms(1)]
  by (auto simp: interp_source.items_ok_def iworld_sane_def)

lemma mip_inv_same:
  assumes "mip_inv api st m I B" "same_objects (iw st) (iw st')" "mips st' = mips st"
  shows "mip_inv api st' m I B"
  using assms same_objects_items [OF assms(2)] by (auto simp: mip_inv_def)

text \<open>Taking an interpreter out of the pool of its server.\<close>

lemma modperl_interp_get_run:
  assumes inv: "mip_inv api st m I B" and s: "scfgs st s = Some scfg" "scfg_mip scfg = Some m"
  obtains (blocked) st' where "modperl_interp_get s st = Inr (IBlocked st')" "mip_inv api st' m [] B"
      "I = []" "st'\<lparr>iw := iw st, mips := mips st\<rparr> = st"
  | (got) a i I' st' where "modperl_interp_get s st = Inr (IGot a st')" "mip_inv api st' m I' (B @ [a])"
      "a \<notin> set B" "I' = tl I" "interps (iw st') a = Some i" "has_flag MpInterpIN_USE_f i"
      "st'\<lparr>iw := iw st, mips := mips st\<rparr> = st"
proof -
  from inv obtain mp tp where mt: "mips st m = Some mp" "mip_tipool mp = Some tp" "tipool_abs tp I B"
      "func tp = interp_pool_func api m (mip_parent mp)"
      and items: "item_source.items_ok (clones m (mip_parent mp)) (iworld_sane (mip_parent mp)) I B (iw st)"
    unfolding mip_inv_def by blast
  let ?tp = "tp\<lparr>world := iw st\<rparr>"
  let ?g = "spec_pop_grow (cfg tp) (func tp) I B (iw st)"
  have "tipool_abs ?tp I B" using mt(3) by simp
  then obtain r where r: "modperl_tipool_pop ?tp = Inr r" "pop_ok ?tp (fst ?g) B (snd ?g) r"
    by (rule modperl_tipool_pop_refines) simp
  have ok: "item_source.items_ok (clones m (mip_parent mp)) (iworld_sane (mip_parent mp)) (fst ?g) B (snd ?g)"
    unfolding mt(4) by (rule interp_source.spec_pop_grow_items [OF items])
  have run: "modperl_interp_get s st = (case r of
         Blocked tp' \<Rightarrow> Inr (IBlocked (set_tipool m mp tp' st))
       | Popped head tp' \<Rightarrow> and_then (peek (theap tp') head) (\<lambda>n.
             let a = ldata n; st1 = set_tipool m mp tp' st in
             and_then (get_interp_obj st1 a) (\<lambda>_.
               Inr (IGot a (st1\<lparr>iw := upd_interp a (flag_on MpInterpIN_USE_f) (iw st1)\<rparr>)))))"
    using r(1) by (simp add: modperl_interp_get_def s mt(1,2))
  show thesis
  proof (cases r)
    case (Blocked tp')
    with r(2) have b: "fst ?g = []" "tipool_abs tp' [] B" "world tp' = snd ?g" "func tp' = func tp"
      by (auto simp: pop_ok_def)
    have "I = []" using b(1) by (auto simp: spec_pop_grow_def split: if_splits)
    moreover have "mip_inv api (set_tipool m mp tp' st) m [] B"
      using b mt ok by (auto simp: mip_inv_def set_tipool_def)
    ultimately show thesis using run Blocked by (intro blocked [of "set_tipool m mp tp' st"]) (auto simp: set_tipool_def)
  next
    case (Popped head tp')
    with r(2) obtain l n I' where p: "head = Some l" "fst ?g = ldata n # I'" "cells (theap tp') l = Some n"
        "tipool_abs tp' I' (B @ [ldata n])" "world tp' = snd ?g" "func tp' = func tp"
      by (auto simp: pop_ok_def)
    let ?a = "ldata n" let ?st1 = "set_tipool m mp tp' st"
    have ok': "item_source.items_ok (clones m (mip_parent mp)) (iworld_sane (mip_parent mp)) I' (B @ [?a]) (snd ?g)"
      using ok p(2) by (auto simp: interp_source.items_ok_def)
    then have inv1: "mip_inv api ?st1 m I' (B @ [?a])"
      using p mt by (auto simp: mip_inv_def set_tipool_def)
    obtain i where i: "interps (iw ?st1) ?a = Some i"
      using mip_inv_item [OF inv1, of ?a] by auto
    let ?st2 = "?st1\<lparr>iw := upd_interp ?a (flag_on MpInterpIN_USE_f) (iw ?st1)\<rparr>"
    have "mip_inv api ?st2 m I' (B @ [?a])"
      by (rule mip_inv_same [OF inv1]) (auto simp: flag_on_def intro!: same_objects_upd)
    moreover have "?a \<notin> set B" using ok p(2) by (auto simp: interp_source.items_ok_def)
    moreover have "I' = tl I" using p(2) by (cases I) (auto simp: spec_pop_grow_def split: if_splits prod.splits option.splits)
    moreover have "interps (iw ?st2) ?a = Some (flag_on MpInterpIN_USE_f i)" using i by (simp add: upd_interp_def)
    moreover have "has_flag MpInterpIN_USE_f (flag_on MpInterpIN_USE_f i)"
      by (simp add: has_flag_def flag_on_def interp_flags and.commute bit.conj_disj_distrib)
    moreover have "modperl_interp_get s st = Inr (IGot ?a ?st2)"
      using run Popped p(1,3) i by (simp add: peek_def get_interp_obj_def Let_def)
    ultimately show thesis by (intro got) (auto simp: set_tipool_def)
  qed
qed

text \<open>Giving an interpreter back.\<close>

definition mip_cfg :: "'p istate \<Rightarrow> nat \<Rightarrow> tipool_config option" where
  "mip_cfg st m = Option.bind (mips st m) (\<lambda>mp. map_option cfg (mip_tipool mp))"

lemma interp_request_cleanup_run:
  assumes "\<forall>r. irequest i = Some r \<longrightarrow> reqs st r \<noteq> None"
  obtains st1 where "(case irequest i of None \<Rightarrow> Inr st | Some r \<Rightarrow> interp_request_cleanup r st) = Inr st1"
    "mips st1 = mips st" "iw st1 = iw st" "userdata st1 = userdata st"
proof (cases "irequest i")
  case (Some r)
  then obtain q where "reqs st r = Some q" using assms by auto
  with Some show ?thesis
    by (intro that [of "st\<lparr>requests_cleaned := requests_cleaned st @ [r],
               reqs := (reqs st)(r \<mapsto> q\<lparr>rcfg_cleanup_registered := False\<rparr>)\<rparr>"])
      (auto simp: interp_request_cleanup_def)
qed (auto intro: that)

lemma modperl_interp_unselect_run:
  assumes inv: "mip_inv api st m I B" and a: "a \<in> set B" and i: "interps (iw st) a = Some i"
    and rc: "refcnt i = 0" and rq: "\<forall>r. irequest i = Some r \<longrightarrow> reqs st r \<noteq> None"
    and c: "mip_cfg st m = Some c"
  obtains st' I' where "modperl_interp_unselect a st = Inr st'" "mip_inv api st' m I' (remove1 a B)"
    "userdata st' = userdata st" "mip_cfg st' m = Some c"
    "int (length I) < cfg_max_spare c \<and> num_requests i \<le> cfg_max_requests c \<longrightarrow>
       I' = a # I \<and> (\<exists>i'. interps (iw st') a = Some i' \<and> \<not> has_flag MpInterpIN_USE_f i' \<and>
         \<not> has_flag MpInterpPUTBACK_f i' \<and> modperl_thx_interp_get (iw st') (perl i') = None \<and>
         irequest i' = irequest i \<and> refcnt i' = refcnt i)"
proof -
  from inv obtain mp tp where mt: "mips st m = Some mp" "mip_tipool mp = Some tp" "tipool_abs tp I B"
      "func tp = interp_pool_func api m (mip_parent mp)"
      and items: "item_source.items_ok (clones m (mip_parent mp)) (iworld_sane (mip_parent mp)) I B (iw st)"
    unfolding mip_inv_def by blast
  have a': "a \<in> set (I @ B)" using a by simp
  obtain i' rt' where "interps (iw st) a = Some i'" "mip i' = m" "perls (iw st) (perl i') = Some rt'"
    using inv a' by (rule mip_inv_item)
  with i have m: "mip i = m" by simp
  have cfg: "cfg tp = c" using c mt by (simp add: mip_cfg_def)
  from rq obtain st1 where st1: "(case irequest i of None \<Rightarrow> Inr st | Some r \<Rightarrow> interp_request_cleanup r st) = Inr st1"
      "mips st1 = mips st" "iw st1 = iw st" "userdata st1 = userdata st"
    by (rule interp_request_cleanup_run)
  define g where "g = (\<lambda>i. flag_off MpInterpPUTBACK_f (flag_off MpInterpIN_USE_f i))"
  define w where "w = modperl_thx_interp_set (perl i) 0 (upd_interp a g (iw st))"
  have "same_objects (iw st) (upd_interp a g (iw st))"
    by (rule same_objects_upd) (simp add: g_def flag_off_def)
  then have same: "same_objects (iw st) w"
    unfolding w_def by (rule same_objects_trans) simp
  note ok = same_objects_items [OF same items]
  let ?tp = "tp\<lparr>world := w\<rparr>"
  obtain I' B' w' where spec: "spec_putback (cfg ?tp) (func ?tp) (num_requests i) a I B (world ?tp) = (I', B', w')"
    using prod_cases3 by blast
  have "tipool_abs ?tp I B" using mt(3) by simp
  then obtain tp' where tp': "modperl_tipool_putback_data ?tp a (num_requests i) = Inr (tp', a \<in> set B)"
      "tipool_abs tp' I' B'" "world tp' = w'" "cfg tp' = cfg tp" "func tp' = func tp"
    using spec by (rule modperl_tipool_putback_data_refines) auto
  let ?st = "set_tipool m mp tp' st1"
  have B': "B' = remove1 a B" using interp_source.spec_putback_busy [OF spec] .
  have run: "modperl_interp_unselect a st = Inr ?st"
    using tp'(1) by (simp add: modperl_interp_unselect_def get_interp_obj_def i rc st1 m mt(1,2) Let_def w_def g_def)
  have "item_source.items_ok (clones m (mip_parent mp)) (iworld_sane (mip_parent mp)) I' B' w'"
    using ok spec mt(4) by (auto intro: interp_source.spec_putback_items)
  then have inv': "mip_inv api ?st m I' (remove1 a B)"
    using tp' B' mt(4) by (auto simp: mip_inv_def set_tipool_def)
  have kept: "I' = a # I \<and> (\<exists>i'. interps (iw ?st) a = Some i' \<and> \<not> has_flag MpInterpIN_USE_f i' \<and>
         \<not> has_flag MpInterpPUTBACK_f i' \<and> modperl_thx_interp_get (iw ?st) (perl i') = None \<and>
         irequest i' = irequest i \<and> refcnt i' = refcnt i)"
    if "int (length I) < cfg_max_spare c \<and> num_requests i \<le> cfg_max_requests c"
  proof -
    have eq: "I' = a # I" "w' = w" using spec that a cfg by (auto simp: spec_putback_def Let_def)
    have "interps w a = Some (g i)" using i by (simp add: w_def modperl_thx_interp_set_def upd_interp_def)
    moreover have "modperl_thx_interp_get w (perl (g i)) = None"
      by (auto simp: w_def g_def flag_off_def modperl_thx_interp_get_def modperl_thx_interp_set_def
          split: option.splits bind_splits)
    moreover have "\<not> has_flag MpInterpIN_USE_f (g i)" "\<not> has_flag MpInterpPUTBACK_f (g i)"
      by (simp_all add: g_def)
    moreover have "irequest (g i) = irequest i" "refcnt (g i) = refcnt i" by (simp_all add: g_def flag_off_def)
    ultimately show ?thesis using eq tp'(3) by (simp add: set_tipool_def)
  qed
  have "mip_cfg ?st m = Some c" using tp'(4) cfg by (simp add: mip_cfg_def set_tipool_def)
  with run inv' kept st1(4) show ?thesis by (intro that [of ?st I']) (auto simp: set_tipool_def)
qed

section \<open>Selecting an interpreter\<close>

text \<open>A selection in a request or connection scope of a threaded server, when no pool holds one yet.\<close>

definition interp_scope_pool :: "'p istate \<Rightarrow> nat option \<Rightarrow> nat option \<Rightarrow> nat \<Rightarrow> nat option" where
  "interp_scope_pool st r c s = (case scfgs st s of
       None \<Rightarrow> None
     | Some scfg \<Rightarrow> let ro = Option.bind r (reqs st) in
         if interp_scope_of ro scfg = SCOPE_HANDLER then None
         else (case interp_find ro c (interp_scope_of ro scfg) st of
             Inr (p, None) \<Rightarrow> p
           | _ \<Rightarrow> None))"

lemma interp_use_run:
  assumes "interps (iw st) a = Some i"
  shows "interp_use a st = Inr (IGot (Some a)
    (st\<lparr>iw := modperl_thx_interp_set (perl i) a ((iw st)\<lparr>thx := perl i\<rparr>)\<rparr>))"
  using assms by (simp add: interp_use_def get_interp_obj_def)

lemma modperl_interp_select_new:
  assumes inv: "mip_inv api st m I B" and s: "scfgs st s = Some scfg" "scfg_mip scfg = Some m"
    and live: "\<forall>r'. r = Some r' \<longrightarrow> reqs st r' \<noteq> None" and thr: "threaded_mpm st"
    and rc: "Option.bind (Option.bind r (reqs st)) rcfg_interp = None"
    and p: "interp_scope_pool st r c s = Some p"
  obtains (waits) st' where "modperl_interp_select r c s st = Inr (IBlocked st')" "I = []" "mip_inv api st' m [] B"
  | (got) a i I' st' where "modperl_interp_select r c s st = Inr (IGot (Some a) st')"
      "mip_inv api st' m I' (B @ [a])" "a \<notin> set B" "interps (iw st') a = Some i"
      "has_flag MpInterpIN_USE_f i" "thx (iw st') = perl i"
      "userdata st' = (userdata st)(p \<mapsto> a)" "pool_cleanups st' p = a # pool_cleanups st p"
      "reqs st' = reqs st" "scfgs st' = scfgs st" "threaded_mpm st'"
proof -
  let ?ro = "Option.bind r (reqs st)"
  let ?scope = "interp_scope_of ?ro scfg"
  have ns: "?scope \<noteq> SCOPE_HANDLER" and find: "interp_find ?ro c ?scope st = Inr (Some p, None)"
    using p s(1) by (auto simp: interp_scope_pool_def Let_def split: if_splits sum.splits option.splits)
  have ro: "(case r of None \<Rightarrow> Inr None
      | Some r' \<Rightarrow> and_then (the_obj (reqs st r') UseAfterFree) (\<lambda>q. Inr (Some q))) = Inr ?ro"
    using live by (cases r) auto
  have run: "modperl_interp_select r c s st = and_then (modperl_interp_get s st) (\<lambda>g. case g of
               IBlocked st' \<Rightarrow> Inr (IBlocked st')
             | IGot a st1 \<Rightarrow> interp_use a (modperl_interp_pool_set p a True
                 (st1\<lparr>iw := upd_interp a (\<lambda>i. i\<lparr>num_requests := num_requests i + 1\<rparr>) (iw st1)\<rparr>)))"
    by (simp add: modperl_interp_select_def ro s(1) thr rc find ns Let_def del: Option.bind_assoc)
  from inv s show thesis
  proof (cases rule: modperl_interp_get_run)
    case (blocked st')
    with run show thesis by (intro waits) auto
  next
    case (got a i I' st1)
    let ?n = "\<lambda>i. i\<lparr>num_requests := num_requests i + 1\<rparr>"
    let ?st2 = "st1\<lparr>iw := upd_interp a ?n (iw st1)\<rparr>"
    let ?st3 = "modperl_interp_pool_set p a True ?st2"
    let ?w = "modperl_thx_interp_set (perl i) a ((iw ?st3)\<lparr>thx := perl i\<rparr>)"
    let ?st4 = "?st3\<lparr>iw := ?w\<rparr>"
    have a: "interps (iw ?st3) a = Some (?n i)"
      using got(5) by (simp add: modperl_interp_pool_set_def upd_interp_def)
    have run': "modperl_interp_select r c s st = Inr (IGot (Some a) ?st4)"
      using run got(1) interp_use_run [OF a] by simp
    have "same_objects (iw st1) (upd_interp a ?n (iw st1))" by (rule same_objects_upd) simp
    then have "same_objects (iw st1) (iw ?st4)"
      by (simp add: modperl_interp_pool_set_def)
        (blast intro: same_objects_trans same_objects_thx)
    with got(2) have inv4: "mip_inv api ?st4 m I' (B @ [a])"
      by (rule mip_inv_same) (simp add: modperl_interp_pool_set_def)
    have eqs: "reqs st1 = reqs st" "scfgs st1 = scfgs st" "threaded_mpm st1 = threaded_mpm st"
      "userdata st1 = userdata st" "pool_cleanups st1 = pool_cleanups st"
      using got(7) by (metis istate.select_convs istate.surjective istate.update_convs)+
    show thesis
      by (rule that(2) [OF run' inv4 got(3), of "?n i"])
        (use a got(6) thr eqs in \<open>auto simp: modperl_interp_pool_set_def modperl_thx_interp_set_def has_flag_def\<close>)
  qed
qed

lemma modperl_interp_select_found:
  assumes "scfgs st s = Some scfg" "threaded_mpm st" "\<forall>r'. r = Some r' \<longrightarrow> reqs st r' \<noteq> None"
    "Option.bind (Option.bind r (reqs st)) rcfg_interp = None"
    "interp_find (Option.bind r (reqs st)) c (interp_scope_of (Option.bind r (reqs st)) scfg) st = Inr (p, Some a)"
  shows "modperl_interp_select r c s st = Inr (IGot (Some a) st)"
proof -
  have ro: "(case r of None \<Rightarrow> Inr None
      | Some r' \<Rightarrow> and_then (the_obj (reqs st r') UseAfterFree) (\<lambda>q. Inr (Some q))) = Inr (Option.bind r (reqs st))"
    using assms(3) by (cases r) auto
  with assms show ?thesis by (simp add: modperl_interp_select_def Let_def del: Option.bind_assoc)
qed

section \<open>Walking the pools\<close>

text \<open>
  The walker is called for each runtime in turn; the result of a walk is the list of the runtimes, with
  the context that was set at the end. \<open>0\<close> stands for a \<open>NULL\<close> interpreter.
\<close>

fun mip_walk_loop :: "nat \<Rightarrow> lheap \<Rightarrow> nat option \<Rightarrow> 'p istate \<Rightarrow> nat list res" where
  "mip_walk_loop 0 h head st = Inl Diverges"
| "mip_walk_loop (Suc fuel) h head st =
     (if head = None then Inr []
      else and_then (peek h head) (\<lambda>n.
           and_then (get_interp_obj st (ldata n)) (\<lambda>i.
           and_then (mip_walk_loop fuel h (lnext n) st) (\<lambda>ps. Inr (perl i # ps)))))"

definition modperl_interp_mip_walk :: "nat \<Rightarrow> nat \<Rightarrow> nat option \<Rightarrow> 'p istate \<Rightarrow> (nat list \<times> 'p istate) res" where
  "modperl_interp_mip_walk current_perl parent_perl mo st =
     and_then (the_obj mo NullDeref) (\<lambda>m.
     and_then (the_obj (mips st m) UseAfterFree) (\<lambda>mp.
     and_then (case mip_tipool mp of
                 None \<Rightarrow> Inr []
               | Some tp \<Rightarrow> mip_walk_loop (Suc (brk (theap tp))) (theap tp) (idle tp) st) (\<lambda>ps.
       Inr ((if parent_perl \<noteq> 0 then [parent_perl] else []) @ ps,
            st\<lparr>iw := (iw st)\<lparr>thx := (if current_perl = 0 then thx (iw st) else current_perl)\<rparr>\<rparr>))))"

definition srv_mip :: "nat \<Rightarrow> 'p istate \<Rightarrow> (nat \<times> nat) res" where
  "srv_mip s st =
     and_then (the_obj (scfgs st s) NullDeref) (\<lambda>scfg.
     and_then (the_obj (scfg_mip scfg) NullDeref) (\<lambda>m.
     and_then (the_obj (mips st m) UseAfterFree) (\<lambda>mp.
     and_then (get_interp_obj st (mip_parent mp)) (\<lambda>i. Inr (m, perl i)))))"

fun walk_servers_loop :: "nat \<Rightarrow> nat \<Rightarrow> nat \<Rightarrow> nat list \<Rightarrow> 'p istate \<Rightarrow> (nat list \<times> 'p istate) res" where
  "walk_servers_loop current_perl base_mip base_perl [] st = Inr ([], st)"
| "walk_servers_loop current_perl base_mip base_perl (s # ss) st =
     and_then (srv_mip s st) (\<lambda>(m, pl).
       let pl' = (if pl = base_perl then 0 else pl);
           m' = (if m = base_mip then None else Some m)
       in and_then (if pl' \<noteq> 0 \<or> m' \<noteq> None then modperl_interp_mip_walk current_perl pl' m' st
                    else Inr ([], st)) (\<lambda>(ps, st1).
          and_then (walk_servers_loop current_perl base_mip base_perl ss st1) (\<lambda>(qs, st2).
            Inr (ps @ qs, st2))))"

definition modperl_interp_mip_walk_servers :: "nat \<Rightarrow> nat \<Rightarrow> nat list \<Rightarrow> 'p istate \<Rightarrow> (nat list \<times> 'p istate) res" where
  "modperl_interp_mip_walk_servers current_perl base_server vhosts st =
     and_then (srv_mip base_server st) (\<lambda>(m, pl).
     and_then (modperl_interp_mip_walk current_perl pl (Some m) st) (\<lambda>(ps, st1).
     and_then (walk_servers_loop current_perl m pl vhosts st1) (\<lambda>(qs, st2).
       Inr (ps @ qs, st2))))"

lemma mip_walk_loop_run:
  assumes "dseg h prv head as None" "length as < fuel" "\<forall>a \<in> set as. interps (iw st) (node_data h a) \<noteq> None"
  shows "mip_walk_loop fuel h head st = Inr (map (\<lambda>a. perl (the (interps (iw st) (node_data h a)))) as)"
  using assms
proof (induction "as" arbitrary: fuel prv head)
  case Nil
  then show ?case by (cases fuel) auto
next
  case (Cons a as)
  then obtain fu where fu: "fuel = Suc fu" by (cases fuel) auto
  from Cons.prems(1) obtain n where n: "head = Some a" "cells h a = Some n" "dseg h (Some a) (lnext n) as None"
    by (auto split: option.splits)
  obtain i where i: "interps (iw st) (node_data h a) = Some i" using Cons.prems(3) by auto
  have "mip_walk_loop fu h (lnext n) st = Inr (map (\<lambda>a. perl (the (interps (iw st) (node_data h a)))) as)"
    using Cons.prems(2,3) fu by (intro Cons.IH [OF n(3)]) auto
  with n i fu show ?case by (simp add: peek_def node_data_def get_interp_obj_def)
qed

lemma mip_walk_run:
  assumes "mip_inv api st m I B"
  shows "modperl_interp_mip_walk cur pl (Some m) st =
    Inr ((if pl \<noteq> 0 then [pl] else []) @ map (\<lambda>a. perl (the (interps (iw st) a))) I,
         st\<lparr>iw := (iw st)\<lparr>thx := (if cur = 0 then thx (iw st) else cur)\<rparr>\<rparr>)"
proof -
  from assms obtain mp tp where mt: "mips st m = Some mp" "mip_tipool mp = Some tp" "tipool_abs tp I B"
      "func tp = interp_pool_func api m (mip_parent mp)" "distinct (I @ B)"
      "set (I @ B) \<subseteq> clones m (mip_parent mp) (iw st)" "iworld_sane (mip_parent mp) (iw st)" by (rule mip_invE)
  from mt(3) obtain "is" bs where ib: "tipool_rel tp is bs"
      "I = map (node_data (theap tp)) is" "B = map (node_data (theap tp)) bs" by (rule tipool_absE)
  note r = tipool_relD [OF ib(1)]
  have "\<forall>a \<in> set is. interps (iw st) (node_data (theap tp) a) \<noteq> None"
    using mt(6) ib(2) by (auto simp: clones_def)
  then have "mip_walk_loop (Suc (brk (theap tp))) (theap tp) (idle tp) st =
      Inr (map (\<lambda>a. perl (the (interps (iw st) (node_data (theap tp) a)))) is)"
    using r(1) dlist_fuel [OF r(1,4)] by (intro mip_walk_loop_run [of _ None]) (auto simp: dlist_def)
  then show ?thesis using mt ib(2) by (simp add: modperl_interp_mip_walk_def comp_def)
qed

definition srv_ok :: "'p perl_api \<Rightarrow> 'p istate \<Rightarrow> nat \<Rightarrow> nat list \<Rightarrow> bool" where
  "srv_ok api st s I \<longleftrightarrow> (\<exists>scfg m B. scfgs st s = Some scfg \<and> scfg_mip scfg = Some m \<and> mip_inv api st m I B)"

lemma srv_mip_run:
  assumes "srv_ok api st s I"
  obtains m B pl where "srv_mip s st = Inr (m, pl)" "mip_inv api st m I B" "pl \<noteq> 0"
    "map_option (\<lambda>i. perl i) (Option.bind (mips st m) (\<lambda>mp. interps (iw st) (mip_parent mp))) = Some pl"
proof -
  from assms obtain scfg m B where s: "scfgs st s = Some scfg" "scfg_mip scfg = Some m" "mip_inv api st m I B"
    by (auto simp: srv_ok_def)
  from s(3) obtain mp tp where mt: "mips st m = Some mp" "mip_tipool mp = Some tp" "tipool_abs tp I B"
      "func tp = interp_pool_func api m (mip_parent mp)" "distinct (I @ B)"
      "set (I @ B) \<subseteq> clones m (mip_parent mp) (iw st)" "iworld_sane (mip_parent mp) (iw st)" by (rule mip_invE)
  obtain i where i: "interps (iw st) (mip_parent mp) = Some i" "iworld_ok (iw st)"
    using mt(7) by (auto simp: iworld_sane_def)
  then have "perl i \<in> dom (perls (iw st))" "dom (perls (iw st)) \<subseteq> {1..<pbrk (iw st)}"
    unfolding iworld_ok_def by blast+
  then have "perl i \<noteq> 0" by force
  with s mt(1) i(1) show ?thesis
    by (intro that [of m "perl i" B]) (simp_all add: srv_mip_def get_interp_obj_def)
qed

lemma srv_ok_thx: "srv_ok api (st\<lparr>iw := (iw st)\<lparr>thx := x\<rparr>\<rparr>) s I \<longleftrightarrow> srv_ok api st s I"
proof -
  have "mip_inv api (st\<lparr>iw := (iw st)\<lparr>thx := x\<rparr>\<rparr>) m I B \<longleftrightarrow> mip_inv api st m I B" for m B
  proof
    assume "mip_inv api st m I B"
    then show "mip_inv api (st\<lparr>iw := (iw st)\<lparr>thx := x\<rparr>\<rparr>) m I B" by (rule mip_inv_same) simp_all
  next
    assume "mip_inv api (st\<lparr>iw := (iw st)\<lparr>thx := x\<rparr>\<rparr>) m I B"
    then show "mip_inv api st m I B" by (rule mip_inv_same) (simp_all add: same_objects_def)
  qed
  then show ?thesis by (simp add: srv_ok_def)
qed

lemma set_thx_twice: "(st\<lparr>iw := (iw st)\<lparr>thx := x\<rparr>\<rparr>)\<lparr>iw := (iw st)\<lparr>thx := y\<rparr>\<rparr> = st\<lparr>iw := (iw st)\<lparr>thx := y\<rparr>\<rparr>"
  by simp

text \<open>The walk over the virtual hosts never hands a null pool on: two servers with the same pool have the
  same parent.\<close>

lemma walk_servers_loop_run:
  assumes "list_all2 (srv_ok api st) ss Is" "cur \<noteq> 0" "thx (iw st) = cur"
    "map_option (\<lambda>i. perl i) (Option.bind (mips st bm) (\<lambda>mp. interps (iw st) (mip_parent mp))) = Some bpl"
  shows "\<exists>qs. walk_servers_loop cur bm bpl ss st = Inr (qs, st) \<and>
    (\<forall>j < length ss. fst (the (case srv_mip (ss ! j) st of Inl e \<Rightarrow> None | Inr x \<Rightarrow> Some x)) = bm \<or>
       (\<lambda>a. perl (the (interps (iw st) a))) ` set (Is ! j) \<subseteq> set qs)"
  using assms(1)
proof (induction ss Is rule: list_all2_induct)
  case (Cons s ss I Is)
  from Cons.IH obtain qs where qs: "walk_servers_loop cur bm bpl ss st = Inr (qs, st)"
    "\<forall>j < length ss. fst (the (case srv_mip (ss ! j) st of Inl e \<Rightarrow> None | Inr x \<Rightarrow> Some x)) = bm \<or>
       (\<lambda>a. perl (the (interps (iw st) a))) ` set (Is ! j) \<subseteq> set qs" by blast
  from Cons.hyps(1) obtain m B pl where m: "srv_mip s st = Inr (m, pl)" "mip_inv api st m I B" "pl \<noteq> 0"
      "map_option (\<lambda>i. perl i) (Option.bind (mips st m) (\<lambda>mp. interps (iw st) (mip_parent mp))) = Some pl"
    by (rule srv_mip_run)
  have st: "st\<lparr>iw := (iw st)\<lparr>thx := cur\<rparr>\<rparr> = st" using assms(3) by auto
  show ?case
  proof (cases "m = bm")
    case True
    then have "pl = bpl" using m(4) assms(4) by simp
    with True m(1) qs show ?thesis by (auto simp: nth_Cons split: nat.splits)
  next
    case False
    define ps where "ps = (if (if pl = bpl then 0 else pl) \<noteq> 0 then [if pl = bpl then 0 else pl] else []) @
      map (\<lambda>a. perl (the (interps (iw st) a))) I"
    have "modperl_interp_mip_walk cur (if pl = bpl then 0 else pl) (Some m) st = Inr (ps, st)"
      unfolding ps_def using mip_walk_run [OF m(2), of cur] assms(2) st by simp
    then have "walk_servers_loop cur bm bpl (s # ss) st = Inr (ps @ qs, st)"
      using False m(1) qs(1) by (simp add: Let_def)
    moreover have "(\<lambda>a. perl (the (interps (iw st) a))) ` set I \<subseteq> set ps" by (auto simp: ps_def)
    ultimately show ?thesis using qs(2) by (force simp: nth_Cons split: nat.splits)
  qed
qed simp

lemma dseg_unique: "dseg h pv p as None \<Longrightarrow> dseg h pv p bs None \<Longrightarrow> as = bs"
proof (induction "as" arbitrary: pv p bs)
  case Nil
  then show ?case by (cases bs) auto
next
  case (Cons a as)
  then show ?case by (cases bs) (auto split: option.splits)
qed

lemma mip_inv_unique: "mip_inv api st m I B \<Longrightarrow> mip_inv api st m J C \<Longrightarrow> I = J"
  unfolding mip_inv_def tipool_abs_def tipool_rel_def dlist_def by (metis dseg_unique option.inject)

lemma walk_servers_run:
  assumes base: "srv_ok api st s I" and hosts: "list_all2 (srv_ok api st) ss Is" and cur: "cur \<noteq> 0"
  obtains ps st' where "modperl_interp_mip_walk_servers cur s ss st = Inr (ps, st')" "thx (iw st') = cur"
    "\<forall>J \<in> set (I # Is). (\<lambda>a. perl (the (interps (iw st) a))) ` set J \<subseteq> set ps"
proof -
  from base obtain m B pl where m: "srv_mip s st = Inr (m, pl)" "mip_inv api st m I B" "pl \<noteq> 0"
      "map_option (\<lambda>i. perl i) (Option.bind (mips st m) (\<lambda>mp. interps (iw st) (mip_parent mp))) = Some pl"
    by (rule srv_mip_run)
  let ?st = "st\<lparr>iw := (iw st)\<lparr>thx := cur\<rparr>\<rparr>"
  let ?p = "\<lambda>a. perl (the (interps (iw st) a))"
  have eq: "interps (iw ?st) = interps (iw st)" "mips ?st = mips st" "thx (iw ?st) = cur" by simp_all
  have hosts': "list_all2 (srv_ok api ?st) ss Is" using hosts by (simp add: srv_ok_thx cong: list.rel_cong)
  obtain qs where qs: "walk_servers_loop cur m pl ss ?st = Inr (qs, ?st)"
    "\<forall>j < length ss. fst (the (case srv_mip (ss ! j) ?st of Inl e \<Rightarrow> None | Inr x \<Rightarrow> Some x)) = m \<or>
       ?p ` set (Is ! j) \<subseteq> set qs"
    using walk_servers_loop_run [OF hosts' cur eq(3), of m pl] m(4) by (auto simp: eq)
  have run: "modperl_interp_mip_walk_servers cur s ss st = Inr ((pl # map ?p I) @ qs, ?st)"
    using m qs(1) cur by (simp add: modperl_interp_mip_walk_servers_def mip_walk_run [OF m(2)])
  have "?p ` set J \<subseteq> set ((pl # map ?p I) @ qs)" if "J \<in> set (I # Is)" for J
  proof (cases "J = I")
    case False
    then obtain j where j: "j < length Is" "J = Is ! j" using \<open>J \<in> set (I # Is)\<close> by (auto simp: in_set_conv_nth)
    then have ok: "srv_ok api ?st (ss ! j) J" "j < length ss" using hosts' by (auto simp: list_all2_conv_all_nth)
    from ok(1) obtain m' B' pl' where m': "srv_mip (ss ! j) ?st = Inr (m', pl')" "mip_inv api ?st m' J B'"
      by (rule srv_mip_run)
    have "m' \<noteq> m"
    proof
      assume "m' = m"
      then have "mip_inv api st m J B'" using mip_inv_same [OF m'(2)] by (simp add: same_objects_def)
      from mip_inv_unique [OF this m(2)] False show False by simp
    qed
    then have "?p ` set (Is ! j) \<subseteq> set qs" using qs(2) [rule_format, OF ok(2)] m'(1) by simp
    then show ?thesis unfolding j(2) set_append by (rule le_supI2)
  qed auto
  with run show ?thesis by (intro that [of "(pl # map ?p I) @ qs" ?st]) auto
qed

text \<open>Once an interpreter is stored in the pool of the scope, the search finds it there.\<close>

lemma main_lookup_again:
  assumes "interp_main_lookup st m = Inr (p, None)" "userdata st' = (userdata st)(p \<mapsto> a)" "reqs st' = reqs st"
  shows "\<exists>p'. interp_main_lookup st' m = Inr (p', Some a)"
  using assms
proof (induction st m rule: interp_main_lookup.induct)
  case (1 st m)
  then obtain q where q: "reqs st m = Some q" by (cases "reqs st m") (auto simp: interp_main_lookup.simps [of st m])
  have none: "userdata st (r_pool q) = None"
    using 1(2) q by (auto simp: interp_main_lookup.simps [of st m] split: option.splits)
  show ?case
  proof (cases "r_main q")
    case None
    then have "p = r_pool q" using 1(2) q none by (simp add: interp_main_lookup.simps [of st m])
    then show ?thesis using q 1(3,4) by (simp add: interp_main_lookup.simps [of st' m])
  next
    case (Some m')
    then have lt: "m' < m" "interp_main_lookup st m' = Inr (p, None)"
      using 1(2) q none by (auto simp: interp_main_lookup.simps [of st m] split: if_splits)
    from 1(1) [OF q none Some lt(1) lt(2) 1(3,4)] show ?thesis
      using q 1(3,4) Some lt(1) none by (auto simp: interp_main_lookup.simps [of st' m] split: option.splits)
  qed
qed

lemma interp_find_again:
  assumes "interp_find ro c scope st = Inr (Some p, None)" "userdata st' = (userdata st)(p \<mapsto> a)" "reqs st' = reqs st"
  shows "\<exists>p'. interp_find ro c scope st' = Inr (p', Some a)"
proof (cases "c \<noteq> None \<and> scope = SCOPE_CONNECTION")
  case True
  then show ?thesis using assms by (auto simp: interp_find_def)
next
  case False
  then obtain q where q: "ro = Some q" using assms(1) by (cases ro) (auto simp: interp_find_def)
  show ?thesis
  proof (cases "r_main q \<noteq> None \<and> scope = SCOPE_REQUEST")
    case True
    then obtain m where m: "r_main q = Some m" "scope = SCOPE_REQUEST" by auto
    then have "interp_main_lookup st m = Inr (p, None)"
      using assms(1) q by (auto simp: interp_find_def and_then_eq_Inr split: option.splits)
    from main_lookup_again [OF this assms(2,3)] m q show ?thesis by (auto simp: interp_find_def)
  next
    case nomain: False
    then have "p = r_pool q" "userdata st p = None"
      using assms(1) q False by (auto simp: interp_find_def and_then_eq_Inr split: option.splits if_splits)
    then show ?thesis using nomain False q assms(2) by (auto simp: interp_find_def split: option.splits)
  qed
qed

section \<open>Properties\<close>

text \<open>A process with one server, one parent interpreter and no clones, for concrete runs.\<close>

definition demo_api :: "unit perl_api" where
  "demo_api = \<lparr>perl_clone = (\<lambda>rt. rt), sv_dup = (\<lambda>v. v)\<rparr>"

definition demo_world :: "unit iworld" where
  "demo_world = \<lparr>interps = [1 \<mapsto> \<lparr>mip = 0, perl = 1, num_requests = 0, iflags = 8, irequest = None, refcnt = 0\<rparr>],
     ibrk = 2, perls = [1 \<mapsto> \<lparr>config_table = None, thx_key = None, scopestack_ix = 1, dl_librefs = [], perl_data = ()\<rparr>],
     pbrk = 2, thx = 1, dlclosed = [], ifault = None\<rparr>"

definition demo_cfg :: tipool_config where
  "demo_cfg = \<lparr>cfg_start = 0, cfg_min_spare = 1, cfg_max_spare = 3, cfg_max = 2, cfg_max_requests = 2000\<rparr>"

definition demo_pool :: "tipool_config \<Rightarrow> unit iworld tipool" where
  "demo_pool c = modperl_tipool_new c (interp_pool_func demo_api 0 1) \<lparr>cells = Map.empty, brk = 0\<rparr> demo_world"

definition demo_state :: "tipool_config \<Rightarrow> modperl_interp_scope_e \<Rightarrow> unit istate" where
  "demo_state c dir_scope = \<lparr>iw = demo_world,
     mips = [0 \<mapsto> \<lparr>mip_server = 0, mip_tipool = Some (demo_pool c), mip_parent = 1\<rparr>], mip_brk = 1,
     scfgs = [0 \<mapsto> \<lparr>scfg_mip = Some 0, interp_scope = SCOPE_REQUEST, interp_pool_cfg = c\<rparr>],
     reqs = [5 \<mapsto> \<lparr>r_main = None, r_pool = 50, r_conn_pool = 40, r_server = 0, r_dir_scope = Some dir_scope,
                   rcfg_interp = None, rcfg_cleanup_registered = False\<rparr>,
             6 \<mapsto> \<lparr>r_main = Some 5, r_pool = 60, r_conn_pool = 40, r_server = 0, r_dir_scope = None,
                   rcfg_interp = None, rcfg_cleanup_registered = False\<rparr>],
     userdata = Map.empty, pool_cleanups = (\<lambda>_. []), requests_cleaned = [], threaded_mpm = True\<rparr>"

lemma demo_world_sane: "iworld_sane 1 demo_world"
  by (auto simp: iworld_sane_def iworld_ok_def demo_world_def split: if_splits)

lemma demo_heap_ok: "heap_ok \<lparr>cells = Map.empty, brk = 0\<rparr> []"
  by (simp add: heap_ok_def)

lemma demo_init: "cfg_start c = 0 \<Longrightarrow> modperl_tipool_init (modperl_tipool_new c f h w) = Inr (modperl_tipool_new c f h w)"
  by (simp add: modperl_tipool_init_def modperl_tipool_new_def)

lemma demo_mip_inv: "mip_inv demo_api (demo_state c d) 0 [] []"
proof -
  have "tipool_abs (demo_pool c) [] []" unfolding demo_pool_def by (rule modperl_tipool_new_abs [OF demo_heap_ok])
  then show ?thesis
    using demo_world_sane
    by (auto simp: mip_inv_def demo_state_def interp_source.items_ok_def demo_pool_def modperl_tipool_new_def)
qed

text \<open>
  C1 However the threads of a server interleave, no operation on the interpreter pool follows a null
  or dangling pointer, aborts or destroys an interpreter twice; two threads never hold the same
  interpreter; every interpreter held exists and belongs to the pool; and \<open>in_use\<close> is the number of
  interpreters held.
\<close>

theorem interp_pool_threads_safe:
  assumes "heap_ok h []" "iworld_sane parent w"
    "modperl_tipool_init (modperl_tipool_new c (interp_pool_func api m parent) h w) = Inr p"
    "treach (tsys_start p) s"
  shows "texec e s \<noteq> Some (Inl err) \<and> distinct (map snd (holders s)) \<and>
    set (map snd (holders s)) \<subseteq> clones m parent (world (pool s)) \<and>
    ifault (world (pool s)) = None \<and> in_use (pool s) = int (length (holders s))"
proof -
  obtain p' where "modperl_tipool_init (modperl_tipool_new c (interp_pool_func api m parent) h w) = Inr p'"
      "item_source.tinv (interp_pool_func api m parent) (clones m parent) (iworld_sane parent) (tsys_start p')"
    using assms(1,2) by (rule interp_source.init_start)
  then have "item_source.tinv (interp_pool_func api m parent) (clones m parent) (iworld_sane parent) (tsys_start p)"
    using assms(3) by simp
  from interp_source.reach_safe [OF this assms(4)] show ?thesis
    by (auto simp: iworld_sane_def iworld_ok_def)
qed

theorem interp_pool_threads_safe_witness:
  "texec (Pop 7) (tsys_start (demo_pool demo_cfg)) \<noteq> Some (Inl NullDeref) \<and>
   in_use (pool (tsys_start (demo_pool demo_cfg))) = 0"
proof -
  have "modperl_tipool_init (demo_pool demo_cfg) = Inr (demo_pool demo_cfg)"
    unfolding demo_pool_def by (rule demo_init) (simp add: demo_cfg_def)
  from interp_pool_threads_safe [OF demo_heap_ok demo_world_sane this [unfolded demo_pool_def] treach.start, of "Pop 7" NullDeref]
  show ?thesis by (simp add: demo_pool_def tsys_start_def)
qed

text \<open>
  C2 When the pool may hold an interpreter, and \<open>PerlInterpMaxSpare\<close> and \<open>PerlInterpMinSpare\<close> are at least
  one, the threads cannot all wait for each other: while a thread waits, either some thread holds an
  interpreter, or a thread that has been woken up will get one as soon as it runs.
\<close>

theorem interp_pool_no_deadlock:
  assumes "heap_ok h []" "iworld_sane parent w"
    "modperl_tipool_init (modperl_tipool_new c (interp_pool_func api m parent) h w) = Inr p"
    "1 \<le> cfg_max c" "1 \<le> cfg_max_spare c" "1 \<le> cfg_min_spare c"
    "treach (tsys_start p) s" "waiting s \<noteq> []"
  shows "holders s \<noteq> [] \<or>
    ready s \<noteq> [] \<and> (\<exists>a q. tipool_pop_resume (pool s) = Inr (Popped (Some a) q))"
proof -
  let ?f = "interp_pool_func api m parent"
  obtain p' where p': "modperl_tipool_init (modperl_tipool_new c ?f h w) = Inr p'"
      "item_source.tinv ?f (clones m parent) (iworld_sane parent) (tsys_start p')"
      "item_source.tspare (tsys_start p')" "cfg p' = c"
    using assms(1,2) by (rule interp_source.init_start)
  have "item_source.keeps_spare ?f (cfg (pool (tsys_start p')))"
    unfolding interp_source.keeps_spare_def
    using assms(4-6) p'(4) by (simp add: tsys_start_def interp_pool_func_def)
  moreover have "p' = p" using assms(3) p'(1) by simp
  ultimately show ?thesis
    using interp_source.treach_tinv [OF assms(7), of api m parent] interp_source.treach_tspare [OF assms(7), of api m parent]
      interp_source.no_deadlock [OF _ _ assms(8), of api m parent] p'(2,3) by blast
qed

theorem interp_pool_no_deadlock_witness:
  "case texec_all [Pop 1, Pop 2, Pop 3] (tsys_start (demo_pool demo_cfg)) of
     Some (Inr s) \<Rightarrow> waiting s = [3] \<and> (holders s \<noteq> [] \<or>
       ready s \<noteq> [] \<and> (\<exists>a q. tipool_pop_resume (pool s) = Inr (Popped (Some a) q)))
   | _ \<Rightarrow> False"
proof -
  have init: "modperl_tipool_init (demo_pool demo_cfg) = Inr (demo_pool demo_cfg)"
    unfolding demo_pool_def by (rule demo_init) (simp add: demo_cfg_def)
  have "(case texec_all [Pop 1, Pop 2, Pop 3] (tsys_start (demo_pool demo_cfg)) of
      Some (Inr s) \<Rightarrow> waiting s = [3] | _ \<Rightarrow> False)" by code_simp
  then obtain s where s: "texec_all [Pop 1, Pop 2, Pop 3] (tsys_start (demo_pool demo_cfg)) = Some (Inr s)"
      "waiting s = [3]" by (auto split: option.splits sum.splits)
  have "treach (tsys_start (demo_pool demo_cfg)) s"
    using texec_all_treach [OF s(1) treach.start] .
  from interp_pool_no_deadlock [OF demo_heap_ok demo_world_sane init [unfolded demo_pool_def] _ _ _ this [unfolded demo_pool_def]]
    s(2) have "holders s \<noteq> [] \<or> ready s \<noteq> [] \<and> (\<exists>a q. tipool_pop_resume (pool s) = Inr (Popped (Some a) q))"
    by (simp add: demo_cfg_def)
  with s show ?thesis by simp
qed

text \<open>
  C3 No wake-up is lost: while a thread waits, every idle interpreter has been announced to a thread
  that is on its way, so idle interpreters never outnumber the woken threads.
\<close>

theorem interp_pool_no_lost_wakeup:
  assumes "heap_ok h []" "iworld_sane parent w"
    "modperl_tipool_init (modperl_tipool_new c (interp_pool_func api m parent) h w) = Inr p"
    "treach (tsys_start p) s" "waiting s \<noteq> []"
  shows "tsize (pool s) - in_use (pool s) \<le> int (length (ready s))"
proof -
  obtain p' where "modperl_tipool_init (modperl_tipool_new c (interp_pool_func api m parent) h w) = Inr p'"
      "item_source.tinv (interp_pool_func api m parent) (clones m parent) (iworld_sane parent) (tsys_start p')"
    using assms(1,2) by (rule interp_source.init_start)
  then have "item_source.tinv (interp_pool_func api m parent) (clones m parent) (iworld_sane parent) (tsys_start p)"
    using assms(3) by simp
  from interp_source.reach_no_lost_wakeup [OF this assms(4,5)] show ?thesis .
qed

theorem interp_pool_no_lost_wakeup_witness:
  "case texec_all [Pop 1, Pop 2, Pop 3, Pop 4, Putback 1 2 1 (Some 3)] (tsys_start (demo_pool demo_cfg)) of
     Some (Inr s) \<Rightarrow> waiting s = [4] \<and> tsize (pool s) - in_use (pool s) \<le> int (length (ready s))
   | _ \<Rightarrow> False"
proof -
  let ?run = "texec_all [Pop 1, Pop 2, Pop 3, Pop 4, Putback 1 2 1 (Some 3)] (tsys_start (demo_pool demo_cfg))"
  have init: "modperl_tipool_init (demo_pool demo_cfg) = Inr (demo_pool demo_cfg)"
    unfolding demo_pool_def by (rule demo_init) (simp add: demo_cfg_def)
  have "(case ?run of Some (Inr s) \<Rightarrow> waiting s = [4] | _ \<Rightarrow> False)" by code_simp
  then obtain s where s: "?run = Some (Inr s)" "waiting s = [4]" by (auto split: option.splits sum.splits)
  have "treach (tsys_start (demo_pool demo_cfg)) s" using texec_all_treach [OF s(1) treach.start] .
  from interp_pool_no_lost_wakeup [OF demo_heap_ok demo_world_sane init [unfolded demo_pool_def] this [unfolded demo_pool_def]]
    s(2) have "tsize (pool s) - in_use (pool s) \<le> int (length (ready s))" by simp
  with s show ?thesis by simp
qed

text \<open>
  The spare condition is needed: with \<open>PerlInterpMaxSpare 0\<close> a thread can wait for ever. In a run of four
  threads on a pool for two interpreters, one thread waits in the end although no interpreter exists
  and the pool could grow, because a waiting thread never tries to grow the pool again.
\<close>

theorem interp_pool_starvation:
  "case texec_all [Pop 1, Pop 2, Pop 3, Pop 4, Putback 1 2 1 (Some 3), Putback 2 3 1 (Some 4), Resume 3,
        Resume 4, Putback 3 2 1 (Some 4), Resume 4]
        (tsys_start (demo_pool (demo_cfg\<lparr>cfg_min_spare := 0, cfg_max_spare := 0\<rparr>))) of
     Some (Inr s) \<Rightarrow> waiting s = [4] \<and> ready s = [] \<and> holders s = [] \<and>
       tsize (pool s) = 0 \<and> tsize (pool s) < cfg_max (cfg (pool s))
   | _ \<Rightarrow> False"
  by code_simp

text \<open>
  C4 Selecting an interpreter for a request or connection that has none yet: the thread either has to wait (then
  the pool had no idle interpreter) or gets an interpreter that nobody else holds, which is marked as in use, becomes the
  context of the thread, is stored in the scope's pool, and is registered to be given back when that
  pool ends.
\<close>

theorem interp_select_new:
  assumes "mip_inv api st m I B" "scfgs st s = Some scfg" "scfg_mip scfg = Some m"
    "\<forall>r'. r = Some r' \<longrightarrow> reqs st r' \<noteq> None" "threaded_mpm st"
    "Option.bind (Option.bind r (reqs st)) rcfg_interp = None"
    "interp_scope_pool st r c s = Some p"
  shows "(\<exists>st'. modperl_interp_select r c s st = Inr (IBlocked st') \<and> I = []) \<or>
    (\<exists>a i I' st'. modperl_interp_select r c s st = Inr (IGot (Some a) st') \<and>
       mip_inv api st' m I' (B @ [a]) \<and> a \<notin> set B \<and> interps (iw st') a = Some i \<and>
       has_flag MpInterpIN_USE_f i \<and> thx (iw st') = perl i \<and> userdata st' = (userdata st)(p \<mapsto> a) \<and>
       pool_cleanups st' p = a # pool_cleanups st p)"
  using assms by (cases rule: modperl_interp_select_new) blast+

theorem interp_select_new_witness:
  "\<exists>a st'. modperl_interp_select (Some 5) None 0 (demo_state demo_cfg SCOPE_UNDEF) = Inr (IGot (Some a) st') \<and>
     userdata st' 50 = Some a"
proof -
  let ?st = "demo_state demo_cfg SCOPE_UNDEF"
  have scfg: "scfgs ?st 0 = Some \<lparr>scfg_mip = Some 0, interp_scope = SCOPE_REQUEST, interp_pool_cfg = demo_cfg\<rparr>"
    by (simp add: demo_state_def)
  have p: "interp_scope_pool ?st (Some 5) None 0 = Some 50"
    by (simp add: interp_scope_pool_def interp_scope_of_def interp_find_def demo_state_def)
  have "case modperl_interp_select (Some 5) None 0 ?st of Inr (IBlocked st') \<Rightarrow> False | _ \<Rightarrow> True" by code_simp
  with interp_select_new [OF demo_mip_inv scfg _ _ _ _ p] show ?thesis
    by (auto simp: demo_state_def)
qed

text \<open>
  A second selection for the same request or connection returns the interpreter of the first one and changes
  nothing, for every scope but the handler scope: the interpreter is shared by all phases.
\<close>

theorem interp_select_again:
  assumes "mip_inv api st m I B" "scfgs st s = Some scfg" "scfg_mip scfg = Some m"
    "\<forall>r'. r = Some r' \<longrightarrow> reqs st r' \<noteq> None" "threaded_mpm st"
    "Option.bind (Option.bind r (reqs st)) rcfg_interp = None"
    "interp_scope_pool st r c s = Some p"
    "modperl_interp_select r c s st = Inr (IGot (Some a) st')"
  shows "modperl_interp_select r c s st' = Inr (IGot (Some a) st')"
  using assms(1-7)
proof (cases rule: modperl_interp_select_new)
  case (waits st2)
  with assms(8) show ?thesis by simp
next
  case (got b i I' st2)
  then have eq: "st2 = st'" "b = a" using assms(8) by simp_all
  note got = got [unfolded eq]
  have "interp_find (Option.bind r (reqs st)) c (interp_scope_of (Option.bind r (reqs st)) scfg) st = Inr (Some p, None)"
    using assms(2,7) by (auto simp: interp_scope_pool_def Let_def split: if_splits sum.splits option.splits)
  from interp_find_again [OF this got(7,9)] obtain p' where
    "interp_find (Option.bind r (reqs st')) c (interp_scope_of (Option.bind r (reqs st')) scfg) st' = Inr (p', Some a)"
    using got(9) by auto
  then show ?thesis
    using assms(2,4,6) got(9-11) by (intro modperl_interp_select_found) (simp_all del: Option.bind_assoc)
qed

theorem interp_select_again_witness:
  "case modperl_interp_select (Some 5) None 0 (demo_state demo_cfg SCOPE_UNDEF) of
     Inr (IGot (Some a) st') \<Rightarrow> modperl_interp_select (Some 5) None 0 st' = Inr (IGot (Some a) st')
   | _ \<Rightarrow> False"
proof -
  let ?st = "demo_state demo_cfg SCOPE_UNDEF"
  have scfg: "scfgs ?st 0 = Some \<lparr>scfg_mip = Some 0, interp_scope = SCOPE_REQUEST, interp_pool_cfg = demo_cfg\<rparr>"
    by (simp add: demo_state_def)
  have p: "interp_scope_pool ?st (Some 5) None 0 = Some 50"
    by (simp add: interp_scope_pool_def interp_scope_of_def interp_find_def demo_state_def)
  have "case modperl_interp_select (Some 5) None 0 ?st of Inr (IGot (Some a) st') \<Rightarrow> True | _ \<Rightarrow> False" by code_simp
  then obtain a st' where sel: "modperl_interp_select (Some 5) None 0 ?st = Inr (IGot (Some a) st')"
    by (auto split: sum.splits isel.splits option.splits)
  from interp_select_again [OF demo_mip_inv scfg _ _ _ _ p sel] sel show ?thesis
    by (auto simp: demo_state_def)
qed

text \<open>
  In the request scope a subrequest uses the interpreter of the request it belongs to.
\<close>

theorem interp_select_subrequest:
  assumes "scfgs st s = Some scfg" "threaded_mpm st" "reqs st r = Some q" "reqs st m = Some qm"
    "r_main q = Some m" "rcfg_interp q = None" "interp_scope_of (Some q) scfg = SCOPE_REQUEST"
    "userdata st (r_pool qm) = Some a"
  shows "modperl_interp_select (Some r) c s st = Inr (IGot (Some a) st)"
  using assms by (intro modperl_interp_select_found [where p = "Some (r_pool qm)"])
    (auto simp: interp_find_def interp_main_lookup.simps [of st m])

theorem interp_select_subrequest_witness:
  "case modperl_interp_select (Some 5) None 0 (demo_state demo_cfg SCOPE_UNDEF) of
     Inr (IGot (Some a) st') \<Rightarrow> modperl_interp_select (Some 6) None 0 st' = Inr (IGot (Some a) st')
   | _ \<Rightarrow> False"
proof -
  let ?st = "demo_state demo_cfg SCOPE_UNDEF"
  have scfg: "scfgs ?st 0 = Some \<lparr>scfg_mip = Some 0, interp_scope = SCOPE_REQUEST, interp_pool_cfg = demo_cfg\<rparr>"
    by (simp add: demo_state_def)
  have p: "interp_scope_pool ?st (Some 5) None 0 = Some 50"
    by (simp add: interp_scope_pool_def interp_scope_of_def interp_find_def demo_state_def)
  have nb: "case modperl_interp_select (Some 5) None 0 ?st of Inr (IBlocked st') \<Rightarrow> False | _ \<Rightarrow> True" by code_simp
  have facts: "\<forall>r'. Some 5 = Some r' \<longrightarrow> reqs ?st r' \<noteq> None" "threaded_mpm ?st"
    "Option.bind (Option.bind (Some 5) (reqs ?st)) rcfg_interp = None"
    by (simp_all add: demo_state_def)
  from demo_mip_inv scfg srv_interp.select_convs(1) facts p show ?thesis
  proof (cases rule: modperl_interp_select_new)
    case (got a i I' st')
    then have f: "scfgs st' = scfgs ?st" "reqs st' = reqs ?st" "threaded_mpm st'" "userdata st' 50 = Some a" by simp_all
    have "modperl_interp_select (Some 6) None 0 st' = Inr (IGot (Some a) st')"
      by (rule interp_select_subrequest [where m = 5]) (use f scfg in \<open>auto simp: demo_state_def interp_scope_of_def\<close>)
    with got(1) show ?thesis by simp
  qed (use nb in simp)
qed

text \<open>
  C5 When the scope's pool ends, the interpreter selected for it goes back: the busy list of the server's pool is
  what it was before the selection. A request recorded in the interpreter has to be alive then.
\<close>

theorem interp_select_unselect:
  assumes "mip_inv api st m I B" "scfgs st s = Some scfg" "scfg_mip scfg = Some m"
    "\<forall>r'. r = Some r' \<longrightarrow> reqs st r' \<noteq> None" "threaded_mpm st"
    "Option.bind (Option.bind r (reqs st)) rcfg_interp = None"
    "interp_scope_pool st r c s = Some p"
    "modperl_interp_select r c s st = Inr (IGot (Some a) st')"
    "interps (iw st') a = Some i" "refcnt i = 0" "\<forall>r. irequest i = Some r \<longrightarrow> reqs st' r \<noteq> None"
  shows "\<exists>st'' I''. modperl_interp_unselect a st' = Inr st'' \<and> mip_inv api st'' m I'' B"
  using assms(1-7)
proof (cases rule: modperl_interp_select_new)
  case (waits st2)
  with assms(8) show ?thesis by simp
next
  case (got b j I' st2)
  then have eq: "st2 = st'" "b = a" using assms(8) by simp_all
  note got = got [unfolded eq]
  have a: "a \<in> set (B @ [a])" "remove1 a (B @ [a]) = B" using got(3) by (simp_all add: remove1_append)
  obtain cf' where "mip_cfg st' m = Some cf'"
    using got(2) by (auto simp: mip_inv_def mip_cfg_def)
  with got(2) a(1) assms(9-11) obtain st'' I'' where
    "modperl_interp_unselect a st' = Inr st''" "mip_inv api st'' m I'' (remove1 a (B @ [a]))"
    by (rule modperl_interp_unselect_run)
  then show ?thesis using a(2) by auto
qed

theorem interp_select_unselect_witness:
  "case modperl_interp_select (Some 5) None 0 (demo_state demo_cfg SCOPE_UNDEF) of
     Inr (IGot (Some a) st') \<Rightarrow> \<exists>st'' I''. modperl_interp_unselect a st' = Inr st'' \<and> mip_inv demo_api st'' 0 I'' []
   | _ \<Rightarrow> False"
proof -
  let ?st = "demo_state demo_cfg SCOPE_UNDEF"
  have scfg: "scfgs ?st 0 = Some \<lparr>scfg_mip = Some 0, interp_scope = SCOPE_REQUEST, interp_pool_cfg = demo_cfg\<rparr>"
    by (simp add: demo_state_def)
  have p: "interp_scope_pool ?st (Some 5) None 0 = Some 50"
    by (simp add: interp_scope_pool_def interp_scope_of_def interp_find_def demo_state_def)
  have "case modperl_interp_select (Some 5) None 0 ?st of
      Inr (IGot (Some a) st') \<Rightarrow> (case interps (iw st') a of Some i \<Rightarrow> refcnt i = 0 \<and> irequest i = None | None \<Rightarrow> False)
    | _ \<Rightarrow> False" by code_simp
  then obtain a st' i where sel: "modperl_interp_select (Some 5) None 0 ?st = Inr (IGot (Some a) st')"
      "interps (iw st') a = Some i" "refcnt i = 0" "irequest i = None"
    by (auto split: sum.splits isel.splits option.splits)
  from interp_select_unselect [OF demo_mip_inv scfg _ _ _ _ p sel(1-3)] sel show ?thesis
    by (auto simp: demo_state_def)
qed

text \<open>
  The request recorded in an interpreter is never cleared. When an interpreter used with \<open>PerlInterpScope handler\<close>
  goes back to the idle list, it keeps the pointer to the request it served; once that request is gone, giving the
  same interpreter back again, from whatever scope, follows the dangling pointer.
\<close>

theorem interp_unselect_stale_request:
  fixes st :: "'p istate"
  assumes "mip_inv api st m I B" "a \<in> set B" "interps (iw st) a = Some i" "refcnt i = 0"
    "irequest i = Some r" "reqs st r \<noteq> None" "mip_cfg st m = Some c"
    "int (length I) < cfg_max_spare c" "num_requests i \<le> cfg_max_requests c"
  shows "\<exists>st' i'. modperl_interp_unselect a st = Inr st' \<and> mip_inv api st' m (a # I) (remove1 a B) \<and>
    interps (iw st') a = Some i' \<and> irequest i' = Some r \<and>
    (\<forall>st'' :: 'p istate. interps (iw st'') a = Some i' \<longrightarrow> reqs st'' r = None \<longrightarrow>
       modperl_interp_unselect a st'' = Inl UseAfterFree)"
proof -
  have rq: "\<forall>r. irequest i = Some r \<longrightarrow> reqs st r \<noteq> None" using assms(5,6) by simp
  obtain st' I' where st': "modperl_interp_unselect a st = Inr st'" "mip_inv api st' m I' (remove1 a B)"
    "userdata st' = userdata st" "mip_cfg st' m = Some c"
    "int (length I) < cfg_max_spare c \<and> num_requests i \<le> cfg_max_requests c \<longrightarrow>
       I' = a # I \<and> (\<exists>i'. interps (iw st') a = Some i' \<and> \<not> has_flag MpInterpIN_USE_f i' \<and>
         \<not> has_flag MpInterpPUTBACK_f i' \<and> modperl_thx_interp_get (iw st') (perl i') = None \<and>
         irequest i' = irequest i \<and> refcnt i' = refcnt i)"
    using assms(1-4) rq assms(7) by (rule modperl_interp_unselect_run)
  from st'(5) assms(8,9) obtain i' where i': "I' = a # I" "interps (iw st') a = Some i'"
      "irequest i' = Some r" "refcnt i' = 0" using assms(4,5) by auto
  have "modperl_interp_unselect a st'' = Inl UseAfterFree"
    if "interps (iw st'') a = Some i'" "reqs st'' r = None" for st'' :: "'p istate"
    using that i'(3,4) by (simp add: modperl_interp_unselect_def get_interp_obj_def interp_request_cleanup_def)
  with st'(1,2) i' show ?thesis by auto
qed

theorem interp_unselect_stale_request_witness:
  "\<exists>a st st' i'. modperl_interp_unselect a (st :: unit istate) = Inr st' \<and> interps (iw st') a = Some i' \<and>
     irequest i' = Some 5 \<and> modperl_interp_unselect a (st'\<lparr>reqs := Map.empty\<rparr>) = Inl UseAfterFree"
proof -
  let ?st = "demo_state demo_cfg SCOPE_UNDEF"
  have scfg: "scfgs ?st 0 = Some \<lparr>scfg_mip = Some 0, interp_scope = SCOPE_REQUEST, interp_pool_cfg = demo_cfg\<rparr>"
    by (simp add: demo_state_def)
  have ev: "case modperl_interp_get 0 ?st of
      Inr (IGot a st1) \<Rightarrow> (case interps (iw st1) a of Some i \<Rightarrow> refcnt i = 0 \<and> num_requests i = 0 | None \<Rightarrow> False) \<and>
        reqs st1 5 \<noteq> None \<and> map_option cfg_max_spare (mip_cfg st1 0) = Some 3 \<and>
        map_option cfg_max_requests (mip_cfg st1 0) = Some 2000
    | _ \<Rightarrow> False" by code_simp
  from demo_mip_inv scfg srv_interp.select_convs(1) show ?thesis
  proof (cases rule: modperl_interp_get_run)
    case (got a i I' st1)
    let ?i = "i\<lparr>irequest := Some 5\<rparr>"
    let ?st2 = "st1\<lparr>iw := upd_interp a (\<lambda>i. i\<lparr>irequest := Some 5\<rparr>) (iw st1)\<rparr>"
    obtain c where c: "mip_cfg st1 0 = Some c" "cfg_max_spare c = 3" "cfg_max_requests c = 2000"
        "refcnt i = 0" "num_requests i = 0" "reqs st1 5 \<noteq> None"
      using ev got(1,5) by auto
    have inv: "mip_inv demo_api ?st2 0 I' ([] @ [a])"
      by (rule mip_inv_same [OF got(2)]) (auto intro!: same_objects_upd)
    have i: "interps (iw ?st2) a = Some ?i" using got(5) by (simp add: upd_interp_def)
    show ?thesis
    proof (cases "int (length I') < 3")
      case True
      have "mip_cfg ?st2 0 = Some c" using c(1) by (simp add: mip_cfg_def)
      from interp_unselect_stale_request [OF inv _ i _ _ _ this] c True obtain st' i' where
        u: "modperl_interp_unselect a ?st2 = Inr st'" "interps (iw st') a = Some i'" "irequest i' = Some 5"
        "\<forall>st'' :: unit istate. interps (iw st'') a = Some i' \<longrightarrow> reqs st'' 5 = None \<longrightarrow> modperl_interp_unselect a st'' = Inl UseAfterFree"
        by auto
      have "modperl_interp_unselect a (st'\<lparr>reqs := Map.empty\<rparr>) = Inl UseAfterFree"
        by (rule u(4) [rule_format]) (simp_all add: u(2))
      with u(1-3) show ?thesis by fast
    next
      case False
      then show ?thesis using got(4) by simp
    qed
  qed (use ev in simp)
qed

text \<open>
  A walk over all servers calls the walker on the idle interpreters of every server's pool, fails for
  no server, and sets the context back.
\<close>

theorem interp_walk_servers:
  assumes "srv_ok api st s I" "list_all2 (srv_ok api st) ss Is" "cur \<noteq> 0"
  shows "\<exists>ps st'. modperl_interp_mip_walk_servers cur s ss st = Inr (ps, st') \<and> thx (iw st') = cur \<and>
    (\<forall>J \<in> set (I # Is). (\<lambda>a. perl (the (interps (iw st) a))) ` set J \<subseteq> set ps)"
proof -
  from assms obtain ps st' where "modperl_interp_mip_walk_servers cur s ss st = Inr (ps, st')" "thx (iw st') = cur"
    "\<forall>J \<in> set (I # Is). (\<lambda>a. perl (the (interps (iw st) a))) ` set J \<subseteq> set ps"
    by (rule walk_servers_run)
  then show ?thesis by (intro exI conjI)
qed

theorem interp_walk_servers_witness:
  "\<exists>ps st'. modperl_interp_mip_walk_servers 1 0 [0] (demo_state demo_cfg SCOPE_UNDEF) = Inr (ps, st') \<and>
     thx (iw st') = 1"
proof -
  have ok: "srv_ok demo_api (demo_state demo_cfg SCOPE_UNDEF) 0 []"
    using demo_mip_inv [of demo_cfg SCOPE_UNDEF] unfolding srv_ok_def by (auto simp: demo_state_def)
  from interp_walk_servers [OF ok, of "[0]" "[[]]" 1] ok show ?thesis by auto
qed

end
