(* ===== verification/Mgv.thy ===== *)
theory Mgv
  imports Prelude
begin

text \<open>
  Glob names of \<^verbatim>\<open>src/src/modules/perl/modperl_mgv.c\<close>: a Perl name such as \<open>My::Class::method\<close> is kept as
  a chain of \<open>modperl_mgv_t\<close> nodes, one for each component, with its length and its precomputed hash
  value; every node but the last carries the trailing \<open>::\<close>. A chain is the list of its nodes.
  \<open>PERL_HASH\<close> belongs to Perl and is the parameter \<open>hash\<close> throughout.

  Compiling and printing are inverse to each other, equality of chains is equality of names, and a
  lookup walks the nested symbol tables along the components.
\<close>

section \<open>Nodes and chains\<close>

record mgv =
  mname :: string
  mlen :: nat
  mhash :: "64 word"

type_synonym hash_fun = "string \<Rightarrow> 64 word"

definition mgv_node :: "hash_fun \<Rightarrow> string \<Rightarrow> mgv" where
  "mgv_node hash n = \<lparr>mname = n, mlen = length n, mhash = hash n\<rparr>"

text \<open>\<open>modperl_mgv_new_name\<close>: a node for a class name; its hash value stays \<open>0\<close>.\<close>

definition modperl_mgv_new_name :: "string \<Rightarrow> mgv list" where
  "modperl_mgv_new_name n = [\<lparr>mname = n, mlen = length n, mhash = 0\<rparr>]"

fun modperl_mgv_equal :: "mgv list \<Rightarrow> mgv list \<Rightarrow> bool" where
  "modperl_mgv_equal (m1 # ms1) (m2 # ms2) =
     (if mhash m1 \<noteq> mhash m2 then False
      else if mlen m1 \<noteq> mlen m2 then False
      else if take (mlen m1) (mname m1) \<noteq> take (mlen m1) (mname m2) then False
      else modperl_mgv_equal ms1 ms2)"
| "modperl_mgv_equal _ _ = True"

text \<open>
  The loop of \<open>modperl_mgv_compile\<close>: \<open>namend\<close> and \<open>name\<close> are the two positions in the string \<open>s\<close>, \<open>acc\<close>
  the nodes made so far.
\<close>

function mgv_compile_loop :: "hash_fun \<Rightarrow> string \<Rightarrow> nat \<Rightarrow> nat \<Rightarrow> mgv list \<Rightarrow> mgv list" where
  "mgv_compile_loop hash s namend name acc =
     (if namend < length s then
        (if s ! namend = CHR '':'' \<and> Suc namend < length s \<and> s ! Suc namend = CHR '':'' then
           mgv_compile_loop hash s (Suc namend) (namend + 2)
             (if name < namend
              then acc @ [mgv_node hash (take (namend - name) (drop name s) @ ''::'')] else acc)
         else mgv_compile_loop hash s (Suc namend) name acc)
      else acc @ [mgv_node hash (take (namend - name) (drop name s))])"
  by pat_completeness auto
termination by (relation "measure (\<lambda>(hash, s, namend, name, acc). length s - namend)") auto

declare mgv_compile_loop.simps [simp del]

definition modperl_mgv_compile :: "hash_fun \<Rightarrow> string \<Rightarrow> mgv list" where
  "modperl_mgv_compile hash s = mgv_compile_loop hash s 0 0 []"

definition modperl_mgv_append :: "hash_fun \<Rightarrow> mgv list \<Rightarrow> string \<Rightarrow> mgv list res" where
  "modperl_mgv_append hash symbol name =
     (if symbol = [] then Inl NullDeref
      else let m = last symbol; n = mname m @ ''::''; l = mlen m + 2 in
        Inr (butlast symbol @ [\<lparr>mname = n, mlen = l, mhash = hash (take l n)\<rparr>] @ modperl_mgv_compile hash name))"

fun modperl_mgv_last :: "mgv list \<Rightarrow> mgv res" where
  "modperl_mgv_last [] = Inl NullDeref"
| "modperl_mgv_last [m] = Inr m"
| "modperl_mgv_last (m # ms) = modperl_mgv_last ms"

definition modperl_mgv_last_name :: "mgv list \<Rightarrow> string res" where
  "modperl_mgv_last_name symbol = and_then (modperl_mgv_last symbol) (\<lambda>m. Inr (mname m))"

text \<open>
  \<open>modperl_mgv_as_string\<close> copies the names into a buffer; with \<open>package\<close> the last node is left out and the
  trailing \<open>::\<close> is cut off by a store two characters before the end.
\<close>

definition modperl_mgv_as_string :: "mgv list \<Rightarrow> bool \<Rightarrow> string res" where
  "modperl_mgv_as_string symbol package =
     (if package \<and> symbol = [] then Inl NullDeref
      else let nodes = (if package then butlast symbol else symbol);
               len = sum_list (map mlen nodes);
               string = concat (map (\<lambda>m. take (mlen m) (mname m)) nodes)
           in if package then (if len < 2 then Inl OutOfBounds else Inr (take (len - 2) string))
              else Inr string)"

section \<open>Symbol tables\<close>

text \<open>A glob is a number with the symbol table it holds, if any; a symbol table is its list of entries.\<close>

datatype glob = Glob (gv_id: nat) (gv_hv: "(string \<times> glob) list option")

definition modperl_perl_hv_fetch_he ::
    "hash_fun \<Rightarrow> (string \<times> glob) list option \<Rightarrow> string \<Rightarrow> nat \<Rightarrow> 64 word \<Rightarrow> glob option res" where
  "modperl_perl_hv_fetch_he hash hv key klen h = (case hv of
       None \<Rightarrow> Inl NullDeref
     | Some entries \<Rightarrow>
         let h' = (if h = 0 then hash (take klen key) else h) in
         Inr (map_option snd (List.find
           (\<lambda>(k, g). hash k = h' \<and> length k = klen \<and> k = take klen key) entries)))"

datatype gv_result = NoGv | FoundGv nat | ClassName string

fun mgv_lookup_loop :: "hash_fun \<Rightarrow> (string \<times> glob) list option \<Rightarrow> mgv list \<Rightarrow> gv_result res" where
  "mgv_lookup_loop hash stash [] = Inr NoGv"
| "mgv_lookup_loop hash stash (m # ms) =
     and_then (modperl_perl_hv_fetch_he hash stash (mname m) (mlen m) (mhash m)) (\<lambda>he. case he of
         None \<Rightarrow> Inr NoGv
       | Some g \<Rightarrow> if ms \<noteq> [] then mgv_lookup_loop hash (gv_hv g) ms else Inr (FoundGv (gv_id g)))"

definition modperl_mgv_lookup :: "hash_fun \<Rightarrow> (string \<times> glob) list option \<Rightarrow> mgv list \<Rightarrow> gv_result res" where
  "modperl_mgv_lookup hash defstash symbol = (case symbol of
       [] \<Rightarrow> Inl NullDeref
     | m # _ \<Rightarrow> if mhash m = 0 then Inr (ClassName (take (mlen m) (mname m)))
                else mgv_lookup_loop hash defstash symbol)"

text \<open>
  A virtual host with its own parent interpreter loads the module again when the name is not found.
  \<open>require_module\<close> stands for \<open>modperl_require_module\<close>, which runs Perl code: it may change the symbol
  table, or the whole state of the interpreter.
\<close>

definition modperl_mgv_require_module ::
    "(string \<Rightarrow> 'd \<Rightarrow> bool \<times> 'd) \<Rightarrow> mgv list \<Rightarrow> 'd \<Rightarrow> (bool \<times> 'd) res" where
  "modperl_mgv_require_module require_module symbol defstash =
     and_then (modperl_mgv_as_string symbol True) (\<lambda>package. Inr (require_module package defstash))"

definition modperl_mgv_lookup_autoload ::
    "hash_fun \<Rightarrow> (string \<Rightarrow> (string \<times> glob) list option \<Rightarrow> bool \<times> (string \<times> glob) list option) \<Rightarrow> bool
      \<Rightarrow> mgv list \<Rightarrow> (string \<times> glob) list option \<Rightarrow> (gv_result \<times> (string \<times> glob) list option) res" where
  "modperl_mgv_lookup_autoload hash require_module own_parent symbol defstash =
     and_then (modperl_mgv_lookup hash defstash symbol) (\<lambda>gv.
       if gv \<noteq> NoGv \<or> \<not> own_parent then Inr (gv, defstash)
       else and_then (modperl_mgv_require_module require_module symbol defstash) (\<lambda>(_, defstash').
            and_then (modperl_mgv_lookup hash defstash' symbol) (\<lambda>gv'. Inr (gv', defstash'))))"

section \<open>Names as lists of components\<close>

fun pkg_join :: "string list \<Rightarrow> string" where
  "pkg_join [] = []"
| "pkg_join [c] = c"
| "pkg_join (c # cs) = c @ ''::'' @ pkg_join cs"

definition plain :: "string \<Rightarrow> bool" where
  "plain c \<longleftrightarrow> c \<noteq> [] \<and> CHR '':'' \<notin> set c"

definition comp_nodes :: "hash_fun \<Rightarrow> string list \<Rightarrow> mgv list" where
  "comp_nodes hash cs = map (\<lambda>c. mgv_node hash (c @ ''::'')) (butlast cs) @ [mgv_node hash (last cs)]"

lemma comp_nodes_simps [simp]:
  "comp_nodes hash [c] = [mgv_node hash c]"
  "cs \<noteq> [] \<Longrightarrow> comp_nodes hash (c # cs) = mgv_node hash (c @ ''::'') # comp_nodes hash cs"
  by (simp_all add: comp_nodes_def)

lemma pkg_join_Cons: "cs \<noteq> [] \<Longrightarrow> pkg_join (c # cs) = c @ ''::'' @ pkg_join cs"
  by (cases cs) auto

lemma compile_scan:
  assumes "CHR '':'' \<notin> set c" "k \<le> length c"
  shows "mgv_compile_loop hash (pre @ c @ rest) (length pre + k) (length pre) acc =
    mgv_compile_loop hash (pre @ c @ rest) (length pre + length c) (length pre) acc"
  using assms(2)
proof (induction "length c - k" arbitrary: k)
  case (Suc d)
  then have k: "k < length c" by simp
  have nth: "(pre @ c @ rest) ! (length pre + k) = c ! k" using k by (simp add: nth_append)
  have "c ! k \<noteq> CHR '':''" using assms(1) k by (metis nth_mem)
  then have "mgv_compile_loop hash (pre @ c @ rest) (length pre + k) (length pre) acc =
      mgv_compile_loop hash (pre @ c @ rest) (length pre + Suc k) (length pre) acc"
    using k nth by (subst mgv_compile_loop.simps) simp
  then show ?case using Suc.hyps(1) [of "Suc k"] Suc.hyps(2) k by simp
qed simp

lemma compile_separator:
  assumes "CHR '':'' \<notin> set c" "c \<noteq> []" "rest = [] \<or> hd rest \<noteq> CHR '':''"
  shows "mgv_compile_loop hash (pre @ c @ ''::'' @ rest) (length pre) (length pre) acc =
    mgv_compile_loop hash ((pre @ c @ ''::'') @ rest) (length (pre @ c @ ''::'')) (length (pre @ c @ ''::''))
      (acc @ [mgv_node hash (c @ ''::'')])"
proof -
  let ?s = "pre @ c @ ''::'' @ rest" and ?e = "length pre + length c"
  have "mgv_compile_loop hash ?s (length pre) (length pre) acc = mgv_compile_loop hash ?s ?e (length pre) acc"
    using compile_scan [OF assms(1), of 0 hash pre "''::'' @ rest"] by simp
  also have "\<dots> = mgv_compile_loop hash ?s (Suc ?e) (?e + 2) (acc @ [mgv_node hash (c @ ''::'')])"
    using assms(2) by (subst mgv_compile_loop.simps) (simp add: nth_append)
  also have "\<dots> = mgv_compile_loop hash ?s (?e + 2) (?e + 2) (acc @ [mgv_node hash (c @ ''::'')])"
    using assms(3) by (subst mgv_compile_loop.simps) (cases rest; auto simp: nth_append)
  finally show ?thesis by (simp add: add.commute add.left_commute)
qed

lemma compile_join_from:
  assumes "cs \<noteq> []" "\<forall>c \<in> set cs. plain c"
  shows "mgv_compile_loop hash (pre @ pkg_join cs) (length pre) (length pre) acc = acc @ comp_nodes hash cs"
  using assms
proof (induction cs arbitrary: pre acc rule: pkg_join.induct)
  case (2 c)
  have "mgv_compile_loop hash (pre @ c @ []) (length pre + 0) (length pre) acc =
      mgv_compile_loop hash (pre @ c @ []) (length pre + length c) (length pre) acc"
    using 2 by (intro compile_scan) (auto simp: plain_def)
  also have "\<dots> = acc @ [mgv_node hash c]" by (subst mgv_compile_loop.simps) simp
  finally show ?case by simp
next
  case (3 c c' cs)
  let ?r = "pkg_join (c' # cs)"
  have "?r = [] \<or> hd ?r \<noteq> CHR '':''"
    using 3(3) by (cases cs; cases c') (auto simp: plain_def)
  then have "mgv_compile_loop hash (pre @ c @ ''::'' @ ?r) (length pre) (length pre) acc =
      mgv_compile_loop hash ((pre @ c @ ''::'') @ ?r) (length (pre @ c @ ''::'')) (length (pre @ c @ ''::''))
        (acc @ [mgv_node hash (c @ ''::'')])"
    using 3(3) by (intro compile_separator) (auto simp: plain_def)
  also have "\<dots> = (acc @ [mgv_node hash (c @ ''::'')]) @ comp_nodes hash (c' # cs)"
    using 3 by (intro 3(1)) auto
  finally show ?case by simp
qed simp

lemma compile_join:
  assumes "cs \<noteq> []" "\<forall>c \<in> set cs. plain c"
  shows "modperl_mgv_compile hash (pkg_join cs) = comp_nodes hash cs"
  using compile_join_from [OF assms, of hash "[]" "[]"] by (simp add: modperl_mgv_compile_def)

lemma comp_nodes_string: "cs \<noteq> [] \<Longrightarrow> concat (map (\<lambda>m. take (mlen m) (mname m)) (comp_nodes hash cs)) = pkg_join cs"
  by (induction cs rule: pkg_join.induct) (auto simp: mgv_node_def)

lemma butlast_comp_nodes: "butlast (comp_nodes hash cs) = map (\<lambda>c. mgv_node hash (c @ ''::'')) (butlast cs)"
  by (simp add: comp_nodes_def butlast_append)

lemma pkg_join_colons: "cs \<noteq> [] \<Longrightarrow> concat (map (\<lambda>c. c @ ''::'') cs) = pkg_join cs @ ''::''"
  by (induction cs rule: pkg_join.induct) auto

lemma append_comp_nodes:
  assumes "cs \<noteq> []" "ds \<noteq> []" "\<forall>c \<in> set ds. plain c"
  shows "modperl_mgv_append hash (comp_nodes hash cs) (pkg_join ds) = Inr (comp_nodes hash (cs @ ds))"
proof -
  have "last (comp_nodes hash cs) = mgv_node hash (last cs)" "comp_nodes hash cs \<noteq> []" by (auto simp: comp_nodes_def)
  moreover have "comp_nodes hash (cs @ ds) =
      map (\<lambda>c. mgv_node hash (c @ ''::'')) cs @ comp_nodes hash ds"
    using assms(2) by (simp add: comp_nodes_def butlast_append)
  moreover have "map (\<lambda>c. mgv_node hash (c @ ''::'')) cs =
      map (\<lambda>c. mgv_node hash (c @ ''::'')) (butlast cs) @ [mgv_node hash (last cs @ ''::'')]"
    using arg_cong [OF append_butlast_last_id [OF assms(1)], of "map (\<lambda>c. mgv_node hash (c @ ''::''))"] by simp
  ultimately show ?thesis
    using compile_join [OF assms(2,3)]
    by (simp add: modperl_mgv_append_def butlast_comp_nodes Let_def mgv_node_def)
qed

lemma plain_key_neq: "plain c \<Longrightarrow> c \<noteq> d @ ''::''"
  by (auto simp: plain_def)

lemma equal_comp_nodes:
  assumes "cs \<noteq> []" "ds \<noteq> []" "\<forall>c \<in> set cs \<union> set ds. plain c"
  shows "modperl_mgv_equal (comp_nodes hash cs) (comp_nodes hash ds) \<longleftrightarrow> cs = ds"
  using assms
proof (induction cs arbitrary: ds rule: pkg_join.induct)
  case (2 c)
  then obtain d ds' where "ds = d # ds'" by (cases ds) auto
  with 2 show ?case
    using plain_key_neq [of c d] by (cases ds') (auto simp: mgv_node_def)
next
  case (3 c c' cs)
  then obtain d ds' where ds: "ds = d # ds'" by (cases ds) auto
  show ?case
  proof (cases ds')
    case Nil
    with 3 ds show ?thesis using plain_key_neq [of d c] by (auto simp: mgv_node_def)
  next
    case (Cons e es)
    have "modperl_mgv_equal (comp_nodes hash (c' # cs)) (comp_nodes hash ds') \<longleftrightarrow> c' # cs = ds'"
      using 3 ds Cons by (intro 3(1)) auto
    with ds Cons show ?thesis by (auto simp: mgv_node_def)
  qed
qed simp

section \<open>Lookups along the components\<close>

fun stash_walk :: "(string \<times> glob) list option \<Rightarrow> string list \<Rightarrow> gv_result res" where
  "stash_walk hv [] = Inr NoGv"
| "stash_walk hv (k # ks) = (case hv of
       None \<Rightarrow> Inl NullDeref
     | Some entries \<Rightarrow> (case map_of entries k of
         None \<Rightarrow> Inr NoGv
       | Some g \<Rightarrow> if ks = [] then Inr (FoundGv (gv_id g)) else stash_walk (gv_hv g) ks))"

lemma find_key: "map_option snd (List.find (\<lambda>(k, g). hash k = hash n \<and> length k = length n \<and> k = n) es) = map_of es n"
  by (induction es) (auto split: prod.splits)

lemma fetch_he_node:
  "modperl_perl_hv_fetch_he hash hv (mname (mgv_node hash n)) (mlen (mgv_node hash n)) (mhash (mgv_node hash n)) =
    (case hv of None \<Rightarrow> Inl NullDeref | Some es \<Rightarrow> Inr (map_of es n))"
  using find_key [of hash n] by (auto simp: modperl_perl_hv_fetch_he_def mgv_node_def Let_def split: option.splits)

lemma lookup_loop_nodes:
  "mgv_lookup_loop hash hv (map (mgv_node hash) ks) = stash_walk hv ks"
proof (induction ks arbitrary: hv)
  case (Cons k ks)
  show ?case
  proof (cases hv)
    case (Some es)
    then show ?thesis using Cons by (cases "map_of es k") (auto simp: fetch_he_node)
  qed (simp add: fetch_he_node)
qed simp

section \<open>Properties\<close>

text \<open>
  C37 Compiling a package name, appending a method name and printing the result gives the
  fully qualified name; printing only the package gives the package back.
\<close>

theorem mgv_compile_roundtrip:
  assumes "cs \<noteq> []" "\<forall>c \<in> set cs. plain c" "plain name"
  shows "\<exists>symbol. modperl_mgv_append hash (modperl_mgv_compile hash (pkg_join cs)) name = Inr symbol \<and>
    modperl_mgv_as_string symbol False = Inr (pkg_join cs @ ''::'' @ name) \<and>
    modperl_mgv_as_string symbol True = Inr (pkg_join cs) \<and>
    modperl_mgv_last_name symbol = Inr name"
proof -
  let ?sym = "comp_nodes hash (cs @ [name])"
  have app: "modperl_mgv_append hash (modperl_mgv_compile hash (pkg_join cs)) name = Inr ?sym"
    using append_comp_nodes [of cs "[name]" hash] compile_join [of cs hash] assms by simp
  have full: "modperl_mgv_as_string ?sym False = Inr (pkg_join (cs @ [name]))"
    using comp_nodes_string [of "cs @ [name]" hash] by (simp add: modperl_mgv_as_string_def)
  have join: "pkg_join (cs @ [name]) = pkg_join cs @ ''::'' @ name"
    using assms(1) by (induction cs rule: pkg_join.induct) auto
  have s: "concat (map (\<lambda>m. take (mlen m) (mname m)) (butlast ?sym)) = pkg_join cs @ ''::''"
    using pkg_join_colons [OF assms(1)] by (simp add: butlast_comp_nodes comp_def mgv_node_def)
  have "sum_list (map mlen (butlast ?sym)) = length (concat (map (\<lambda>c. c @ ''::'') cs))"
    by (simp add: butlast_comp_nodes comp_def mgv_node_def length_concat)
  then have l: "sum_list (map mlen (butlast ?sym)) = length (pkg_join cs) + 2"
    using pkg_join_colons [OF assms(1)] by simp
  have pkg: "modperl_mgv_as_string ?sym True = Inr (pkg_join cs)"
    using s l by (simp add: modperl_mgv_as_string_def Let_def comp_nodes_def)
  have "modperl_mgv_last xs = Inr (last xs)" if "xs \<noteq> []" for xs
    using that by (induction xs rule: modperl_mgv_last.induct) auto
  then have "modperl_mgv_last_name ?sym = Inr name"
    by (simp add: modperl_mgv_last_name_def comp_nodes_def mgv_node_def)
  with app full join pkg show ?thesis by auto
qed

theorem mgv_compile_roundtrip_witness:
  "\<exists>symbol. modperl_mgv_append (\<lambda>_. 1) (modperl_mgv_compile (\<lambda>_. 1) ''My::App'') ''handler'' = Inr symbol \<and>
     modperl_mgv_as_string symbol False = Inr ''My::App::handler''"
  using mgv_compile_roundtrip [of "[''My'', ''App'']" "''handler''" "\<lambda>_. 1"] by (auto simp: plain_def)

text \<open>
  Two compiled names are equal as chains exactly when they have the same components, so a name is never
  taken for a prefix of itself.
\<close>

theorem mgv_equal_compiled:
  assumes "cs \<noteq> []" "ds \<noteq> []" "\<forall>c \<in> set cs \<union> set ds. plain c"
  shows "modperl_mgv_equal (modperl_mgv_compile hash (pkg_join cs)) (modperl_mgv_compile hash (pkg_join ds)) \<longleftrightarrow> cs = ds"
  using equal_comp_nodes [OF assms] compile_join [of cs hash] compile_join [of ds hash] assms by simp

theorem mgv_equal_compiled_witness:
  "\<not> modperl_mgv_equal (modperl_mgv_compile (\<lambda>_. 1) ''My::App'') (modperl_mgv_compile (\<lambda>_. 1) ''My::App::x'')"
  using mgv_equal_compiled [of "[''My'', ''App'']" "[''My'', ''App'', ''x'']" "\<lambda>_. 1"] by (simp add: plain_def)

text \<open>
  C38 Looking up a compiled name walks the nested symbol tables along its components, whatever the hash
  function, provided the hash value of the first component is not \<open>0\<close>.
\<close>

theorem mgv_lookup_walk:
  assumes "cs \<noteq> []" "\<forall>c \<in> set cs. plain c" "mhash (hd (comp_nodes hash cs)) \<noteq> 0"
  shows "modperl_mgv_lookup hash defstash (modperl_mgv_compile hash (pkg_join cs)) =
    stash_walk defstash (map (\<lambda>c. c @ ''::'') (butlast cs) @ [last cs])"
proof -
  have nodes: "comp_nodes hash cs = map (mgv_node hash) (map (\<lambda>c. c @ ''::'') (butlast cs) @ [last cs])"
    by (simp add: comp_nodes_def comp_def)
  obtain m ms where m: "comp_nodes hash cs = m # ms" by (cases "comp_nodes hash cs") (auto simp: comp_nodes_def)
  have "modperl_mgv_lookup hash defstash (m # ms) = mgv_lookup_loop hash defstash (m # ms)"
    using assms(3) m by (simp add: modperl_mgv_lookup_def del: mgv_lookup_loop.simps)
  then show ?thesis
    using lookup_loop_nodes [of hash defstash] nodes m compile_join [OF assms(1,2), of hash] by metis
qed

theorem mgv_lookup_walk_witness:
  "modperl_mgv_lookup (\<lambda>_. 1) (Some [(''My::'', Glob 1 (Some [(''run'', Glob 2 None)]))])
     (modperl_mgv_compile (\<lambda>_. 1) ''My::run'') = Inr (FoundGv 2)"
  using mgv_lookup_walk [of "[''My'', ''run'']" "\<lambda>_. 1" "Some [(''My::'', Glob 1 (Some [(''run'', Glob 2 None)]))]"]
  by (simp add: plain_def mgv_node_def)

text \<open>
  Asking for the package of a name that has only one component stores before the start of the buffer.
\<close>

theorem mgv_package_of_single:
  assumes "plain c"
  shows "modperl_mgv_as_string (modperl_mgv_compile hash c) True = Inl OutOfBounds"
  using compile_join [of "[c]" hash] assms by (simp add: modperl_mgv_as_string_def)

theorem mgv_package_of_single_witness:
  "modperl_mgv_as_string (modperl_mgv_compile (\<lambda>_. 1) ''handler'') True = Inl OutOfBounds"
  by (rule mgv_package_of_single) (simp add: plain_def)

end
