(* ===== verification/Handler.thy ===== *)
theory Handler
  imports Mgv
begin

text \<open>
  Handlers of \<^verbatim>\<open>src/src/modules/perl/modperl_handler.c\<close> and their resolution
  (\<open>modperl_mgv_resolve\<close> of \<^verbatim>\<open>modperl_mgv.c\<close>).

  Handlers and arrays of handlers are objects with addresses, because configurations share them: an
  array slot of a configuration (\<open>MpAV **\<close>) is a \<open>slot\<close>, holding the address of an array or nothing; an array
  is a list of addresses of handlers. The Perl interpreter is a state \<open>'p\<close> with the operations of
  \<open>perl_ops\<close>; these belong to Perl and are parameters.
\<close>

unbundle bit_operations_syntax

section \<open>Handlers\<close>

record handler =
  mgv_obj :: "mgv list option"
  mgv_cv :: "mgv list option"
  hname :: "string option"
  hflags :: "8 word"
  attrs :: "16 word"

definition MpHandlerPARSED_f :: "8 word" where "MpHandlerPARSED_f = 1"
definition MpHandlerMETHOD_f :: "8 word" where "MpHandlerMETHOD_f = 2"
definition MpHandlerOBJECT_f :: "8 word" where "MpHandlerOBJECT_f = 4"
definition MpHandlerANON_f :: "8 word" where "MpHandlerANON_f = 8"
definition MpHandlerAUTOLOAD_f :: "8 word" where "MpHandlerAUTOLOAD_f = 16"
definition MpHandlerDYNAMIC_f :: "8 word" where "MpHandlerDYNAMIC_f = 32"
definition MpHandlerFAKE_f :: "8 word" where "MpHandlerFAKE_f = 64"

lemmas handler_flags =
  MpHandlerPARSED_f_def MpHandlerMETHOD_f_def MpHandlerOBJECT_f_def MpHandlerANON_f_def
  MpHandlerAUTOLOAD_f_def MpHandlerDYNAMIC_f_def MpHandlerFAKE_f_def

definition hflag_on :: "8 word \<Rightarrow> handler \<Rightarrow> handler" where
  "hflag_on f h = h\<lparr>hflags := hflags h OR f\<rparr>"

definition hflag_off :: "8 word \<Rightarrow> handler \<Rightarrow> handler" where
  "hflag_off f h = h\<lparr>hflags := hflags h AND NOT f\<rparr>"

definition hflag :: "8 word \<Rightarrow> handler \<Rightarrow> bool" where
  "hflag f h \<longleftrightarrow> hflags h AND f \<noteq> 0"

definition new_handler_obj :: handler where
  "new_handler_obj = \<lparr>mgv_obj = None, mgv_cv = None, hname = None, hflags = 0, attrs = 0\<rparr>"

definition modperl_handler_new :: "string \<Rightarrow> handler" where
  "modperl_handler_new name =
     (if name \<noteq> [] \<and> hd name = CHR ''+''
      then (hflag_on MpHandlerAUTOLOAD_f new_handler_obj)\<lparr>hname := Some (tl name)\<rparr>
      else if name \<noteq> [] \<and> hd name = CHR ''-''
      then (hflag_off MpHandlerAUTOLOAD_f new_handler_obj)\<lparr>hname := Some (tl name)\<rparr>
      else new_handler_obj\<lparr>hname := Some name\<rparr>)"

definition modperl_handler_name :: "handler \<Rightarrow> string" where
  "modperl_handler_name h = (case hname h of
       Some n \<Rightarrow> n
     | None \<Rightarrow> (case mgv_obj h of Some (m # _) \<Rightarrow> mname m | _ \<Rightarrow> ''anonsub''))"

text \<open>A handler without a name cannot be copied: \<open>modperl_handler_new\<close> reads its first character.\<close>

definition modperl_handler_dup :: "handler \<Rightarrow> handler res" where
  "modperl_handler_dup h = (case hname h of None \<Rightarrow> Inl NullDeref | Some n \<Rightarrow> Inr (modperl_handler_new n))"

definition modperl_handler_equal :: "handler \<Rightarrow> handler \<Rightarrow> bool res" where
  "modperl_handler_equal h1 h2 = (case (mgv_cv h1, mgv_cv h2) of
       (Some m1, Some m2) \<Rightarrow> Inr (modperl_mgv_equal m1 m2)
     | _ \<Rightarrow> (case (hname h1, hname h2) of
         (Some n1, Some n2) \<Rightarrow> Inr (n1 = n2)
       | _ \<Rightarrow> Inl NullDeref))"

section \<open>Configurations and the Perl interpreter\<close>

datatype handler_type = PER_DIR | PER_SRV | PRE_CONNECTION | CONNECTION | FILES | PROCESS

text \<open>A slot is an element of one of the arrays \<open>handlers_...\<close> of a per-directory, per-server or
  per-request configuration.\<close>

datatype slot =
    DirSlot nat nat
  | SrvSlot nat handler_type nat
  | ReqSlot nat handler_type nat

datatype perl_err = NoErr | ErrStr string | ExitErr

record 'p hstate =
  hobjs :: "nat \<Rightarrow> handler option"
  hbrk :: nat
  arrays :: "nat \<Rightarrow> nat list option"
  abrk :: nat
  slots :: "slot \<Rightarrow> nat option"
  anon_cnt :: int
  anonsubs :: "string \<Rightarrow> nat option"
  errsv :: perl_err
  perlst :: 'p

datatype objkind = NotTrue | NotObject | ObjectOf string

record 'p perl_ops =
  p_hash :: hash_fun
  p_defstash :: "'p \<Rightarrow> (string \<times> glob) list option"
  p_eval_anon :: "string \<Rightarrow> 'p \<Rightarrow> nat option res \<times> 'p"
  p_get_cv :: "string \<Rightarrow> 'p \<Rightarrow> (nat \<times> string \<times> string) option"
  p_attrs :: "nat \<Rightarrow> 'p \<Rightarrow> 16 word"
  p_is_method :: "nat \<Rightarrow> 'p \<Rightarrow> bool"
  p_object :: "nat \<Rightarrow> 'p \<Rightarrow> objkind"
  p_stash :: "string \<Rightarrow> 'p \<Rightarrow> string option"
  p_fetchmethod :: "string \<Rightarrow> string \<Rightarrow> 'p \<Rightarrow> (nat \<times> string) option"
  p_loaded :: "string \<Rightarrow> 'p \<Rightarrow> bool"
  p_require :: "string \<Rightarrow> bool \<Rightarrow> 'p \<Rightarrow> bool \<times> 'p"
  p_deep_resolve :: "handler \<Rightarrow> 'p \<Rightarrow> (handler \<times> 'p) res"
  p_printf_anon :: "int \<Rightarrow> string"

definition new_handler :: "handler \<Rightarrow> 'p hstate \<Rightarrow> nat \<times> 'p hstate" where
  "new_handler h st = (hbrk st, st\<lparr>hobjs := (hobjs st)(hbrk st \<mapsto> h), hbrk := Suc (hbrk st)\<rparr>)"

definition new_array :: "nat list \<Rightarrow> 'p hstate \<Rightarrow> nat \<times> 'p hstate" where
  "new_array xs st = (abrk st, st\<lparr>arrays := (arrays st)(abrk st \<mapsto> xs), abrk := Suc (abrk st)\<rparr>)"

definition get_handler :: "'p hstate \<Rightarrow> nat \<Rightarrow> handler res" where
  "get_handler st a = (case hobjs st a of None \<Rightarrow> Inl UseAfterFree | Some h \<Rightarrow> Inr h)"

definition get_array :: "'p hstate \<Rightarrow> nat \<Rightarrow> nat list res" where
  "get_array st a = (case arrays st a of None \<Rightarrow> Inl UseAfterFree | Some xs \<Rightarrow> Inr xs)"

definition set_handler :: "nat \<Rightarrow> handler \<Rightarrow> 'p hstate \<Rightarrow> 'p hstate" where
  "set_handler a h st = st\<lparr>hobjs := (hobjs st)(a \<mapsto> h)\<rparr>"

section \<open>Anonymous subroutines\<close>

text \<open>\<open>modperl_handler_anon_next\<close> with the global counter; \<open>p_printf_anon\<close> formats \<open>anon%d\<close>.\<close>

definition modperl_handler_anon_next :: "'p perl_ops \<Rightarrow> 'p hstate \<Rightarrow> mgv list \<times> 'p hstate" where
  "modperl_handler_anon_next ops st =
     (let n = anon_cnt st + 1
      in ([mgv_node (p_hash ops) (p_printf_anon ops n)], st\<lparr>anon_cnt := n\<rparr>))"

definition modperl_handler_anon_add :: "mgv list \<Rightarrow> nat \<Rightarrow> 'p hstate \<Rightarrow> 'p hstate res" where
  "modperl_handler_anon_add anon cv st = (case anon of
       [] \<Rightarrow> Inl NullDeref
     | m # _ \<Rightarrow> Inr (st\<lparr>anonsubs := (anonsubs st)(mname m \<mapsto> cv)\<rparr>))"

definition modperl_handler_anon_get :: "mgv list option \<Rightarrow> 'p hstate \<Rightarrow> nat res" where
  "modperl_handler_anon_get anon st = (case anon of
       Some (m # _) \<Rightarrow> (case anonsubs st (mname m) of
           Some cv \<Rightarrow> Inr cv
         | None \<Rightarrow> Inl (Croak ''can't find ANONSUB's entry''))
     | _ \<Rightarrow> Inl NullDeref)"

definition modperl_handler_new_anon :: "'p perl_ops \<Rightarrow> nat \<Rightarrow> 'p hstate \<Rightarrow> (handler \<times> 'p hstate) res" where
  "modperl_handler_new_anon ops cv st =
     (let (anon, st1) = modperl_handler_anon_next ops st;
          h = hflag_on MpHandlerANON_f (hflag_on MpHandlerPARSED_f new_handler_obj)
      in and_then (modperl_handler_anon_add anon cv st1) (\<lambda>st2. Inr (h\<lparr>mgv_obj := Some anon\<rparr>, st2)))"

section \<open>Resolving a handler\<close>

fun strstr_arrow :: "string \<Rightarrow> (string \<times> string) option" where
  "strstr_arrow (c # d # s) =
     (if c = CHR ''-'' \<and> d = CHR ''>'' then Some ([], s)
      else map_option (\<lambda>(pre, suf). (c # pre, suf)) (strstr_arrow (d # s)))"
| "strstr_arrow _ = None"

text \<open>The end of \<open>modperl_mgv_resolve\<close>: loading the class and finding the method.\<close>

definition MP_FILTER_HAS_INIT_HANDLER :: "16 word" where "MP_FILTER_HAS_INIT_HANDLER = 4"

definition deep_resolve :: "'p perl_ops \<Rightarrow> handler \<Rightarrow> 'p hstate \<Rightarrow> (handler \<times> 'p hstate) res" where
  "deep_resolve ops h st =
     (if attrs h AND MP_FILTER_HAS_INIT_HANDLER \<noteq> 0
      then and_then (p_deep_resolve ops h (perlst st)) (\<lambda>(h', pl). Inr (h', st\<lparr>perlst := pl\<rparr>))
      else Inr (h, st))"

definition resolve_method ::
    "'p perl_ops \<Rightarrow> handler \<Rightarrow> string \<Rightarrow> string \<Rightarrow> string \<Rightarrow> 'p hstate \<Rightarrow> (bool \<times> handler \<times> 'p hstate) res" where
  "resolve_method ops h stash name handler_name st =
     (case p_fetchmethod ops stash handler_name (perlst st) of
        Some (cv, gvstash) \<Rightarrow>
          let h1 = (if p_is_method ops cv (perlst st) then hflag_on MpHandlerMETHOD_f h else h);
              h2 = (if hflag MpHandlerMETHOD_f h1 \<and> mgv_obj h1 = None
                    then h1\<lparr>mgv_obj := Some (modperl_mgv_new_name stash)\<rparr> else h1);
              h3 = h2\<lparr>attrs := p_attrs ops cv (perlst st)\<rparr>
          in and_then (modperl_mgv_append (p_hash ops) (modperl_mgv_compile (p_hash ops) gvstash) handler_name)
               (\<lambda>sym. and_then (deep_resolve ops (hflag_on MpHandlerPARSED_f (h3\<lparr>mgv_cv := Some sym\<rparr>)) st)
                  (\<lambda>(h4, st'). Inr (True, h4, st')))
      | None \<Rightarrow>
          if hflag MpHandlerAUTOLOAD_f h then Inl (Croak (''failed to resolve handler '' @ name))
          else Inr (False, h, st))"

definition resolve_class ::
    "'p perl_ops \<Rightarrow> handler \<Rightarrow> string option \<Rightarrow> string \<Rightarrow> string \<Rightarrow> bool \<Rightarrow> 'p hstate
      \<Rightarrow> (bool \<times> handler \<times> 'p hstate) res" where
  "resolve_class ops h stash name handler_name logfailure st =
     (let need = (stash = None \<and> hflag MpHandlerAUTOLOAD_f h \<and> \<not> p_loaded ops name (perlst st));
          (loaded, pl) = (if need then p_require ops name logfailure (perlst st) else (True, perlst st));
          st1 = st\<lparr>perlst := pl\<rparr>
      in if \<not> loaded
         then (if logfailure then Inl (Croak (''failed to load '' @ name @ '' package''))
               else Inr (False, h, st1))
         else case (case stash of Some s \<Rightarrow> Some s | None \<Rightarrow> p_stash ops name (perlst st1)) of
             None \<Rightarrow> Inr (False, h, st1)
           | Some s \<Rightarrow> resolve_method ops h s name handler_name st1)"

definition modperl_mgv_resolve ::
    "'p perl_ops \<Rightarrow> handler \<Rightarrow> string \<Rightarrow> bool \<Rightarrow> 'p hstate \<Rightarrow> (bool \<times> handler \<times> 'p hstate) res" where
  "modperl_mgv_resolve ops h name logfailure st =
     (if hflag MpHandlerANON_f h then Inr (True, h, st)
      else if take 4 name = ''sub '' then
        let h1 = hflag_on MpHandlerANON_f (hflag_on MpHandlerPARSED_f h);
            (r, pl) = p_eval_anon ops name (perlst st);
            st1 = st\<lparr>perlst := pl\<rparr>
        in and_then r (\<lambda>cvo. case cvo of
             None \<Rightarrow> Inl (Croak (''expected anonymous sub, got '' @ name))
           | Some cv \<Rightarrow>
               let (anon, st2) = modperl_handler_anon_next ops st1 in
               and_then (modperl_handler_anon_add anon cv st2) (\<lambda>st3.
                 Inr (True, h1\<lparr>hname := None, mgv_obj := Some anon\<rparr>, st3)))
      else case strstr_arrow name of
        Some (package, meth) \<Rightarrow>
          let h1 = hflag_on MpHandlerMETHOD_f h in
          if package \<noteq> [] \<and> hd package = CHR ''$'' then
            let symb = modperl_mgv_compile (p_hash ops) (tl package); h2 = h1\<lparr>mgv_obj := Some symb\<rparr> in
            and_then (modperl_mgv_lookup (p_hash ops) (p_defstash ops (perlst st)) symb) (\<lambda>gv.
              case (case gv of FoundGv g \<Rightarrow> p_object ops g (perlst st) | _ \<Rightarrow> NotTrue) of
                ObjectOf s \<Rightarrow>
                  resolve_class ops (hflag_on MpHandlerOBJECT_f h2) (Some s) package meth logfailure st
              | _ \<Rightarrow> Inr (False, h2, st))
          else resolve_class ops h1 (p_stash ops package (perlst st)) package meth logfailure st
      | None \<Rightarrow> (case p_get_cv ops name (perlst st) of
          Some (cv, pkg, nm) \<Rightarrow>
            and_then (modperl_mgv_append (p_hash ops) (modperl_mgv_compile (p_hash ops) pkg) nm) (\<lambda>sym.
            and_then (deep_resolve ops (hflag_on MpHandlerPARSED_f
                (h\<lparr>attrs := p_attrs ops cv (perlst st), mgv_cv := Some sym\<rparr>)) st) (\<lambda>(h', st').
              Inr (True, h', st')))
        | None \<Rightarrow> resolve_class ops h None name ''handler'' logfailure st))"

text \<open>
  \<open>modperl_handler_resolve\<close>: \<open>a\<close> is \<open>*handp\<close>, the result is the new \<open>*handp\<close> with the status
  (\<open>0\<close> for \<open>OK\<close>).
\<close>

definition errsv_prepend :: "string \<Rightarrow> perl_err \<Rightarrow> perl_err" where
  "errsv_prepend pat e = (case e of ErrStr s \<Rightarrow> ErrStr (pat @ s) | NoErr \<Rightarrow> ErrStr pat | ExitErr \<Rightarrow> ErrStr pat)"

definition modperl_handler_resolve ::
    "'p perl_ops \<Rightarrow> bool \<Rightarrow> bool \<Rightarrow> nat \<Rightarrow> 'p hstate \<Rightarrow> (nat \<times> int \<times> 'p hstate) res" where
  "modperl_handler_resolve ops threaded has_pool a st =
     and_then (get_handler st a) (\<lambda>h0.
     and_then (if threaded \<and> has_pool \<and> \<not> hflag MpHandlerPARSED_f h0 \<and> \<not> hflag MpHandlerDYNAMIC_f h0
               then and_then (modperl_handler_dup h0) (\<lambda>h'. Inr (new_handler h' st))
               else Inr (a, st)) (\<lambda>(a', st1).
     and_then (get_handler st1 a') (\<lambda>h.
       if hflag MpHandlerPARSED_f h then Inr (a', OK, st1)
       else let h1 = hflag_on MpHandlerAUTOLOAD_f h in
         (case hname h1 of
            None \<Rightarrow> Inl NullDeref
          | Some n \<Rightarrow> and_then (modperl_mgv_resolve ops h1 n False st1) (\<lambda>(ok, h2, st2).
              let st3 = set_handler a' h2 st2 in
              if ok then Inr (a', OK, st3)
              else Inr (a', HTTP_INTERNAL_SERVER_ERROR,
                st3\<lparr>errsv := errsv_prepend (''failed to resolve handler '' @ n @ '': '') (errsv st3)\<rparr>))))))"

section \<open>Arrays of handlers\<close>

text \<open>
  The inner and the outer loop of \<open>modperl_handler_array_merge\<close>: \<open>mrg\<close> is the merged array so far.
\<close>

fun merge_inner :: "'p hstate \<Rightarrow> handler \<Rightarrow> nat list \<Rightarrow> nat list \<Rightarrow> nat list res" where
  "merge_inner st b [] mrg = Inr mrg"
| "merge_inner st b (a # as) mrg =
     and_then (get_handler st a) (\<lambda>h.
     and_then (modperl_handler_equal b h) (\<lambda>eq. merge_inner st b as (if eq then mrg else mrg @ [a])))"

fun merge_outer :: "'p hstate \<Rightarrow> nat list \<Rightarrow> nat list \<Rightarrow> nat list \<Rightarrow> nat list res" where
  "merge_outer st [] add mrg = Inr mrg"
| "merge_outer st (b # bs) add mrg =
     and_then (get_handler st b) (\<lambda>h.
     and_then (merge_inner st h add mrg) (\<lambda>mrg'. merge_outer st bs add mrg'))"

definition modperl_handler_array_merge ::
    "nat option \<Rightarrow> nat option \<Rightarrow> 'p hstate \<Rightarrow> (nat option \<times> 'p hstate) res" where
  "modperl_handler_array_merge base_a add_a st = (case (base_a, add_a) of
       (_, None) \<Rightarrow> Inr (base_a, st)
     | (None, _) \<Rightarrow> Inr (add_a, st)
     | (Some b, Some a) \<Rightarrow>
         and_then (get_array st b) (\<lambda>bs.
         and_then (get_array st a) (\<lambda>as.
         and_then (merge_outer st bs as bs) (\<lambda>mrg.
           let (m, st') = new_array mrg st in Inr (Some m, st')))))"

datatype handler_action = ACTION_GET | ACTION_PUSH | ACTION_SET

fun handler_desc :: "handler_type \<Rightarrow> string" where
  "handler_desc PER_DIR = ''per_dir''"
| "handler_desc PER_SRV = ''per_srv''"
| "handler_desc PRE_CONNECTION = ''pre_connection''"
| "handler_desc CONNECTION = ''connection''"
| "handler_desc FILES = ''files''"
| "handler_desc PROCESS = ''process''"

text \<open>
  \<open>modperl_handler_lookup_handlers\<close>. \<open>dcfg\<close>, \<open>scfg\<close> and \<open>rcfg\<close> are the configurations, \<open>None\<close> for \<open>NULL\<close>; a
  \<open>typ\<close> of \<open>None\<close> is a number that is no handler type. Process handlers are reported as files handlers
  when it is too late to modify them.
\<close>

definition lookup_slots ::
    "nat option \<Rightarrow> nat \<Rightarrow> nat option \<Rightarrow> handler_type \<Rightarrow> nat \<Rightarrow> handler_action
      \<Rightarrow> (slot \<times> slot option) res" where
  "lookup_slots dcfg scfg rcfg typ idx action =
     (case typ of
        PER_DIR \<Rightarrow> (case dcfg of
            None \<Rightarrow> Inl NullDeref
          | Some d \<Rightarrow> Inr (DirSlot d idx, map_option (\<lambda>r. ReqSlot r PER_DIR idx) rcfg))
      | PER_SRV \<Rightarrow> Inr (SrvSlot scfg PER_SRV idx, map_option (\<lambda>r. ReqSlot r PER_SRV idx) rcfg)
      | t \<Rightarrow> if action \<noteq> ACTION_GET \<and> rcfg \<noteq> None
             then Inl (Croak (''too late to modify '' @ handler_desc (if t = PROCESS then FILES else t) @ '' handlers''))
             else Inr (SrvSlot scfg t idx, None))"

definition set_slot :: "slot \<Rightarrow> nat \<Rightarrow> 'p hstate \<Rightarrow> 'p hstate" where
  "set_slot sl a st = st\<lparr>slots := (slots st)(sl \<mapsto> a)\<rparr>"

definition slot_new :: "slot \<Rightarrow> nat list \<Rightarrow> 'p hstate \<Rightarrow> 'p hstate" where
  "slot_new sl xs st = (let (a, st') = new_array xs st in set_slot sl a st')"

definition slot_clear :: "nat \<Rightarrow> 'p hstate \<Rightarrow> 'p hstate" where
  "slot_clear a st = st\<lparr>arrays := (arrays st)(a \<mapsto> [])\<rparr>"

definition lookup_action :: "handler_action \<Rightarrow> slot \<Rightarrow> slot option \<Rightarrow> 'p hstate \<Rightarrow> 'p hstate res" where
  "lookup_action action avp ravp st = (case action of
       ACTION_GET \<Rightarrow> Inr st
     | ACTION_PUSH \<Rightarrow> (case ravp of
         Some rs \<Rightarrow>
           if slots st rs \<noteq> None then Inr st
           else (case slots st avp of
               Some a \<Rightarrow> and_then (get_array st a) (\<lambda>xs. Inr (slot_new rs xs st))
             | None \<Rightarrow> Inr (slot_new rs [] st))
       | None \<Rightarrow> if slots st avp = None then Inr (slot_new avp [] st) else Inr st)
     | ACTION_SET \<Rightarrow> (case ravp of
         Some rs \<Rightarrow> (case slots st rs of
             Some a \<Rightarrow> Inr (slot_clear a st)
           | None \<Rightarrow> Inr (slot_new rs [] st))
       | None \<Rightarrow> (case slots st avp of
             Some a \<Rightarrow> Inr (slot_clear a st)
           | None \<Rightarrow> Inr (slot_new avp [] st))))"

definition modperl_handler_lookup_handlers ::
    "nat option \<Rightarrow> nat \<Rightarrow> nat option \<Rightarrow> handler_type option \<Rightarrow> nat \<Rightarrow> handler_action \<Rightarrow> 'p hstate
      \<Rightarrow> (slot option \<times> 'p hstate) res" where
  "modperl_handler_lookup_handlers dcfg scfg rcfg typ idx action st = (case typ of
       None \<Rightarrow> Inr (None, st)
     | Some t \<Rightarrow>
         and_then (lookup_slots dcfg scfg rcfg t idx action) (\<lambda>(avp, ravp).
         and_then (lookup_action action avp ravp st) (\<lambda>st'.
           Inr (Some (case ravp of
               Some rs \<Rightarrow> if slots st' rs \<noteq> None then rs else avp
             | None \<Rightarrow> avp), st'))))"

text \<open>\<open>handler_lookup\<close> is the generated table of handler names, \<open>dir_defaults\<close> the per-directory configuration of a
  server (\<open>modperl_config_dir_get_defaults\<close>).\<close>

definition modperl_handler_get_handlers ::
    "(string \<Rightarrow> (nat \<times> handler_type) option) \<Rightarrow> (nat \<Rightarrow> nat option) \<Rightarrow> (nat \<times> nat option \<times> nat option) option \<Rightarrow> nat
      \<Rightarrow> string \<Rightarrow> handler_action \<Rightarrow> 'p hstate \<Rightarrow> (slot option \<times> 'p hstate) res" where
  "modperl_handler_get_handlers handler_lookup dir_defaults r scfg name action st =
     (let dcfg = (case r of None \<Rightarrow> dir_defaults scfg | Some (_, d, _) \<Rightarrow> d);
          rcfg = (case r of None \<Rightarrow> None | Some (_, _, rc) \<Rightarrow> rc)
      in case handler_lookup name of
           None \<Rightarrow> Inr (None, st)
         | Some (idx, typ) \<Rightarrow> modperl_handler_lookup_handlers dcfg scfg rcfg (Some typ) idx action st)"

section \<open>Adding handlers from Perl\<close>

datatype sv = SvPV string | SvAnonCV nat | SvNamedCV string string | SvCVNoGv | SvAV "sv list" | SvOther | SvRV sv

fun sv_deref :: "sv \<Rightarrow> sv" where
  "sv_deref (SvRV s) = s"
| "sv_deref s = s"

definition modperl_handler_new_from_sv :: "'p perl_ops \<Rightarrow> sv \<Rightarrow> 'p hstate \<Rightarrow> (handler option \<times> 'p hstate) res" where
  "modperl_handler_new_from_sv ops s st = (case sv_deref s of
       SvPV name \<Rightarrow> Inr (Some (modperl_handler_new name), st)
     | SvAnonCV cv \<Rightarrow> and_then (modperl_handler_new_anon ops cv st) (\<lambda>(h, st'). Inr (Some h, st'))
     | SvCVNoGv \<Rightarrow> Inl (Croak ''can't resolve the code reference'')
     | SvNamedCV pkg nm \<Rightarrow> Inr (Some (modperl_handler_new (pkg @ ''::'' @ nm)), st)
     | _ \<Rightarrow> Inr (None, st))"

definition modperl_handler_push_handlers ::
    "'p perl_ops \<Rightarrow> nat \<Rightarrow> sv \<Rightarrow> 'p hstate \<Rightarrow> (bool \<times> 'p hstate) res" where
  "modperl_handler_push_handlers ops arr s st =
     and_then (modperl_handler_new_from_sv ops s st) (\<lambda>(ho, st1). case ho of
         None \<Rightarrow> Inr (False, st1)
       | Some h \<Rightarrow>
           let (a, st2) = new_handler h st1 in
           and_then (get_array st2 arr) (\<lambda>xs. Inr (True, st2\<lparr>arrays := (arrays st2)(arr \<mapsto> xs @ [a])\<rparr>)))"

definition push_sv_handler :: "'p perl_ops \<Rightarrow> nat \<Rightarrow> sv \<Rightarrow> 'p hstate \<Rightarrow> 'p hstate res" where
  "push_sv_handler ops arr s st =
     and_then (modperl_handler_push_handlers ops arr s st) (\<lambda>(ok, st1).
       if \<not> ok then Inr st1
       else and_then (get_array st1 arr) (\<lambda>xs.
            and_then (if xs = [] then Inl OutOfBounds else get_handler st1 (last xs)) (\<lambda>h.
              Inr (set_handler (last xs) (hflag_on MpHandlerDYNAMIC_f h) st1))))"

fun push_sv_handlers :: "'p perl_ops \<Rightarrow> nat \<Rightarrow> sv list \<Rightarrow> 'p hstate \<Rightarrow> 'p hstate res" where
  "push_sv_handlers ops arr [] st = Inr st"
| "push_sv_handlers ops arr (s # ss) st =
     and_then (push_sv_handler ops arr s st) (\<lambda>st'. push_sv_handlers ops arr ss st')"

definition modperl_handler_perl_add_handlers ::
    "'p perl_ops \<Rightarrow> (string \<Rightarrow> (nat \<times> handler_type) option) \<Rightarrow> (nat \<Rightarrow> nat option)
      \<Rightarrow> (nat \<times> nat option \<times> nat option) option \<Rightarrow> nat \<Rightarrow> string \<Rightarrow> sv \<Rightarrow> handler_action \<Rightarrow> 'p hstate
      \<Rightarrow> (bool \<times> 'p hstate) res" where
  "modperl_handler_perl_add_handlers ops handler_lookup dir_defaults r scfg name s action st =
     and_then (modperl_handler_get_handlers handler_lookup dir_defaults r scfg name action st) (\<lambda>(sl, st1).
       case Option.bind sl (slots st1) of
         None \<Rightarrow> Inr (False, st1)
       | Some arr \<Rightarrow>
           and_then (case s of
               SvRV (SvAV ss) \<Rightarrow> push_sv_handlers ops arr ss st1
             | _ \<Rightarrow> push_sv_handler ops arr s st1) (\<lambda>st2. Inr (True, st2)))"

text \<open>The elements \<open>modperl_handler_perl_get_handlers\<close> returns to Perl.\<close>

definition the_name :: "handler \<Rightarrow> string res" where
  "the_name h = (case hname h of None \<Rightarrow> Inl NullDeref | Some n \<Rightarrow> Inr n)"

datatype handler_ref = CodeRef nat | HandlerName "string option"

fun perl_get_handlers_loop :: "'p perl_ops \<Rightarrow> nat list \<Rightarrow> 'p hstate \<Rightarrow> (handler_ref list \<times> 'p hstate) res" where
  "perl_get_handlers_loop ops [] st = Inr ([], st)"
| "perl_get_handlers_loop ops (a # as) st =
     and_then (get_handler st a) (\<lambda>h0.
     and_then (if hflag MpHandlerPARSED_f h0 then Inr (h0, st)
               else if \<not> hflag MpHandlerDYNAMIC_f h0
               then and_then (modperl_handler_dup h0) (\<lambda>h.
                    and_then (the_name h) (\<lambda>n.
                    and_then (modperl_mgv_resolve ops h n True st) (\<lambda>(_, h', st'). Inr (h', st'))))
               else and_then (the_name h0) (\<lambda>n.
                    and_then (modperl_mgv_resolve ops h0 n True st) (\<lambda>(_, h', st'). Inr (h', set_handler a h' st'))))
       (\<lambda>(h, st1).
     and_then (case mgv_cv h of
         Some symb \<Rightarrow> and_then (modperl_mgv_lookup (p_hash ops) (p_defstash ops (perlst st1)) symb) (\<lambda>gv.
             Inr (case gv of FoundGv g \<Rightarrow> [CodeRef g] | _ \<Rightarrow> []))
       | None \<Rightarrow> Inr [HandlerName (hname h)]) (\<lambda>rs.
     and_then (perl_get_handlers_loop ops as st1) (\<lambda>(rs', st2). Inr (rs @ rs', st2)))))"

definition modperl_handler_perl_get_handlers ::
    "'p perl_ops \<Rightarrow> slot option \<Rightarrow> 'p hstate \<Rightarrow> (handler_ref list option \<times> 'p hstate) res" where
  "modperl_handler_perl_get_handlers ops handp st = (case Option.bind handp (slots st) of
       None \<Rightarrow> Inr (None, st)
     | Some arr \<Rightarrow> and_then (get_array st arr) (\<lambda>xs.
         and_then (perl_get_handlers_loop ops xs st) (\<lambda>(rs, st'). Inr (Some rs, st'))))"

section \<open>Flags\<close>

lemma hflag_on_same: "f \<noteq> 0 \<Longrightarrow> hflag f (hflag_on f h)"
proof -
  have "(x OR f) AND f = f" for x :: "8 word" by (auto simp: bit_eq_iff bit_simps)
  then show "f \<noteq> 0 \<Longrightarrow> ?thesis" by (simp add: hflag_def hflag_on_def)
qed

lemma hflag_on_other: "f AND g = 0 \<Longrightarrow> hflag f (hflag_on g h) = hflag f h"
proof -
  assume "f AND g = 0"
  then have "(x OR g) AND f = x AND f" for x :: "8 word"
    by (simp add: bit.conj_disj_distrib and.commute)
  then show ?thesis by (simp add: hflag_def hflag_on_def)
qed

lemma hflag_simps [simp]:
  "hflag MpHandlerPARSED_f (hflag_on MpHandlerPARSED_f h)" "hflag MpHandlerANON_f (hflag_on MpHandlerANON_f h)"
  "hflag MpHandlerAUTOLOAD_f (hflag_on MpHandlerAUTOLOAD_f h)" "hflag MpHandlerDYNAMIC_f (hflag_on MpHandlerDYNAMIC_f h)"
  "hflag MpHandlerMETHOD_f (hflag_on MpHandlerMETHOD_f h)"
  "hflag MpHandlerPARSED_f (hflag_on MpHandlerANON_f h) = hflag MpHandlerPARSED_f h"
  "hflag MpHandlerPARSED_f (hflag_on MpHandlerMETHOD_f h) = hflag MpHandlerPARSED_f h"
  "hflag MpHandlerPARSED_f (hflag_on MpHandlerOBJECT_f h) = hflag MpHandlerPARSED_f h"
  "hflag MpHandlerPARSED_f (hflag_on MpHandlerAUTOLOAD_f h) = hflag MpHandlerPARSED_f h"
  "hflag MpHandlerANON_f (hflag_on MpHandlerPARSED_f h) = hflag MpHandlerANON_f h"
  "hflag MpHandlerANON_f (hflag_on MpHandlerMETHOD_f h) = hflag MpHandlerANON_f h"
  "hflag MpHandlerANON_f (hflag_on MpHandlerOBJECT_f h) = hflag MpHandlerANON_f h"
  "hflag MpHandlerANON_f (hflag_on MpHandlerAUTOLOAD_f h) = hflag MpHandlerANON_f h"
  "hflag MpHandlerMETHOD_f (hflag_on MpHandlerPARSED_f h) = hflag MpHandlerMETHOD_f h"
  "hflag MpHandlerMETHOD_f (hflag_on MpHandlerANON_f h) = hflag MpHandlerMETHOD_f h"
  "hflag MpHandlerMETHOD_f (hflag_on MpHandlerOBJECT_f h) = hflag MpHandlerMETHOD_f h"
  "hflag MpHandlerMETHOD_f (hflag_on MpHandlerAUTOLOAD_f h) = hflag MpHandlerMETHOD_f h"
  "hflag MpHandlerFAKE_f (hflag_on MpHandlerMETHOD_f h) = hflag MpHandlerFAKE_f h"
  "hflag MpHandlerFAKE_f (hflag_on MpHandlerOBJECT_f h) = hflag MpHandlerFAKE_f h"
  "hflag MpHandlerFAKE_f (hflag_on MpHandlerAUTOLOAD_f h) = hflag MpHandlerFAKE_f h"
  by (simp_all add: hflag_on_same hflag_on_other handler_flags)

lemma hflag_fields [simp]:
  "hflag f (h\<lparr>mgv_obj := x\<rparr>) = hflag f h" "hflag f (h\<lparr>mgv_cv := y\<rparr>) = hflag f h"
  "hflag f (h\<lparr>hname := n\<rparr>) = hflag f h" "hflag f (h\<lparr>attrs := a\<rparr>) = hflag f h"
  "mgv_obj (hflag_on f h) = mgv_obj h" "mgv_cv (hflag_on f h) = mgv_cv h" "hname (hflag_on f h) = hname h"
  by (simp_all add: hflag_def hflag_on_def)

section \<open>What resolving a handler achieves\<close>

text \<open>What is assumed of \<open>modperl_filter_resolve_init_handler\<close>, which fills in \<open>handler->next\<close>: it leaves
  the rest of the handler alone.\<close>

definition deep_keeps :: "'p perl_ops \<Rightarrow> bool" where
  "deep_keeps ops \<longleftrightarrow> (\<forall>h p h' p'. p_deep_resolve ops h p = Inr (h', p') \<longrightarrow>
     hflags h' = hflags h \<and> mgv_cv h' = mgv_cv h \<and> mgv_obj h' = mgv_obj h \<and> hname h' = hname h)"

definition same_objs :: "'p hstate \<Rightarrow> 'p hstate \<Rightarrow> bool" where
  "same_objs st st' \<longleftrightarrow> hobjs st' = hobjs st \<and> hbrk st' = hbrk st \<and> arrays st' = arrays st \<and>
     abrk st' = abrk st \<and> slots st' = slots st"

lemma same_objs_refl [simp]: "same_objs st st"
  by (simp add: same_objs_def)

lemma deep_resolve_keeps:
  assumes "deep_keeps ops" "deep_resolve ops h st = Inr (h', st')"
  shows "hflags h' = hflags h \<and> mgv_cv h' = mgv_cv h \<and> mgv_obj h' = mgv_obj h \<and> same_objs st st' \<and>
    anonsubs st' = anonsubs st \<and> hname h' = hname h"
  using assms by (auto simp: deep_resolve_def deep_keeps_def and_then_eq_Inr same_objs_def split: if_splits)

definition callable :: "handler \<Rightarrow> 'p hstate \<Rightarrow> bool" where
  "callable h st \<longleftrightarrow> hflag MpHandlerPARSED_f h \<and>
     (if hflag MpHandlerANON_f h then (\<exists>m. mgv_obj h = Some [m] \<and> anonsubs st (mname m) \<noteq> None)
      else mgv_cv h \<noteq> None) \<and>
     (hflag MpHandlerMETHOD_f h \<longrightarrow> mgv_obj h \<noteq> None)"

lemma hflags_eq_hflag: "hflags h' = hflags h \<Longrightarrow> hflag f h' = hflag f h"
  by (simp add: hflag_def)

lemma resolve_method_ok:
  assumes "deep_keeps ops" "\<not> hflag MpHandlerANON_f h"
    "resolve_method ops h stash name hn st = Inr (ok, h', st')"
  shows "same_objs st st' \<and> anonsubs st' = anonsubs st \<and> (ok \<longrightarrow> callable h' st') \<and> (\<not> ok \<longrightarrow> h' = h)"
proof (cases "p_fetchmethod ops stash hn (perlst st)")
  case None
  with assms(3) show ?thesis by (auto simp: resolve_method_def split: if_splits)
next
  case (Some cg)
  obtain cv gs where cg: "cg = (cv, gs)" by (cases cg)
  define h1 where "h1 = (if p_is_method ops cv (perlst st) then hflag_on MpHandlerMETHOD_f h else h)"
  define h2 where "h2 = (if hflag MpHandlerMETHOD_f h1 \<and> mgv_obj h1 = None
      then h1\<lparr>mgv_obj := Some (modperl_mgv_new_name stash)\<rparr> else h1)"
  from assms(3) Some obtain symb where ok: ok
      and d: "deep_resolve ops (hflag_on MpHandlerPARSED_f (h2\<lparr>attrs := p_attrs ops cv (perlst st), mgv_cv := Some symb\<rparr>)) st
        = Inr (h', st')"
    unfolding resolve_method_def cg h1_def h2_def by (auto simp: and_then_eq_Inr Let_def)
  have h2: "\<not> hflag MpHandlerANON_f h2" "hflag MpHandlerMETHOD_f h2 \<longrightarrow> mgv_obj h2 \<noteq> None"
    using assms(2) by (auto simp: h2_def h1_def)
  note k = deep_resolve_keeps [OF assms(1) d]
  have fl: "hflag f h' = hflag f (hflag_on MpHandlerPARSED_f (h2\<lparr>attrs := p_attrs ops cv (perlst st), mgv_cv := Some symb\<rparr>))" for f
    using k by (intro hflags_eq_hflag) simp
  show ?thesis using k h2 ok by (simp add: callable_def fl)
qed

lemma resolve_class_ok:
  assumes "deep_keeps ops" "\<not> hflag MpHandlerANON_f h"
    "resolve_class ops h stash name hn lf st = Inr (ok, h', st')"
  shows "same_objs st st' \<and> anonsubs st' = anonsubs st \<and> (ok \<longrightarrow> callable h' st') \<and> (\<not> ok \<longrightarrow> h' = h)"
proof -
  let ?need = "stash = None \<and> hflag MpHandlerAUTOLOAD_f h \<and> \<not> p_loaded ops name (perlst st)"
  obtain ld pl where l: "(if ?need then p_require ops name lf (perlst st) else (True, perlst st)) = (ld, pl)"
    by fastforce
  let ?st = "st\<lparr>perlst := pl\<rparr>"
  have same: "same_objs st ?st" "anonsubs ?st = anonsubs st" by (simp_all add: same_objs_def)
  have run: "resolve_class ops h stash name hn lf st =
      (if \<not> ld then (if lf then Inl (Croak (''failed to load '' @ name @ '' package'')) else Inr (False, h, ?st))
       else case (case stash of Some s \<Rightarrow> Some s | None \<Rightarrow> p_stash ops name (perlst ?st)) of
             None \<Rightarrow> Inr (False, h, ?st)
           | Some s \<Rightarrow> resolve_method ops h s name hn ?st)"
    unfolding resolve_class_def Let_def l by simp
  show ?thesis
  proof (cases ld)
    case False
    with assms(3) same show ?thesis unfolding run by (auto split: if_splits)
  next
    case True
    show ?thesis
    proof (cases "case stash of Some s \<Rightarrow> Some s | None \<Rightarrow> p_stash ops name (perlst ?st)")
      case None
      with assms(3) True same show ?thesis unfolding run by simp
    next
      case (Some s)
      with assms(3) True have "resolve_method ops h s name hn ?st = Inr (ok, h', st')" unfolding run by simp
      from resolve_method_ok [OF assms(1,2) this] same show ?thesis by (simp add: same_objs_def)
    qed
  qed
qed

lemma resolve_anon_add:
  assumes "modperl_handler_anon_next ops st = (anon, st2)" "modperl_handler_anon_add anon cv st2 = Inr st3"
  shows "same_objs st st3 \<and> (\<exists>m. anon = [m] \<and> anonsubs st3 (mname m) = Some cv)"
  using assms by (auto simp: modperl_handler_anon_next_def modperl_handler_anon_add_def same_objs_def Let_def)

text \<open>
  What a resolution does to a handler that is not resolved yet, whether it finds the subroutine or not. A handler that failed before may already be marked as a
  method, if its name has an arrow. Anonymous subs that were registered stay.
\<close>

definition anon_kept :: "'p hstate \<Rightarrow> 'p hstate \<Rightarrow> bool" where
  "anon_kept st st' \<longleftrightarrow> (\<forall>n. anonsubs st n \<noteq> None \<longrightarrow> anonsubs st' n \<noteq> None)"

lemma anon_kept_refl [simp]: "anonsubs st' = anonsubs st \<Longrightarrow> anon_kept st st'"
  by (simp add: anon_kept_def)

lemma callable_kept: "callable h st \<Longrightarrow> anon_kept st st' \<Longrightarrow> callable h st'"
  by (auto simp: callable_def anon_kept_def split: if_splits)

definition unresolved :: "handler \<Rightarrow> string \<Rightarrow> bool" where
  "unresolved h name \<longleftrightarrow> \<not> hflag MpHandlerANON_f h \<and> (hflag MpHandlerMETHOD_f h \<longrightarrow> strstr_arrow name \<noteq> None)"

lemma mgv_resolve_strong:
  assumes deep: "deep_keeps ops" and un: "unresolved h name"
    and r: "modperl_mgv_resolve ops h name lf st = Inr (ok, h', st')"
  shows "same_objs st st' \<and> anon_kept st st' \<and> (ok \<longrightarrow> callable h' st') \<and>
    (\<not> ok \<longrightarrow> unresolved h' name \<and> hname h' = hname h \<and> hflag MpHandlerPARSED_f h' = hflag MpHandlerPARSED_f h \<and>
      hflag MpHandlerFAKE_f h' = hflag MpHandlerFAKE_f h)"
proof -
  have h: "\<not> hflag MpHandlerANON_f h" using un by (simp add: unresolved_def)
  show ?thesis
  proof (cases "take 4 name = ''sub ''")
    case True
    obtain rr pl where e: "p_eval_anon ops name (perlst st) = (rr, pl)" by fastforce
    obtain anon st2 where n: "modperl_handler_anon_next ops (st\<lparr>perlst := pl\<rparr>) = (anon, st2)" by fastforce
    from True r h n e obtain cv where ok: ok and
        s: "modperl_handler_anon_next ops (st\<lparr>perlst := pl\<rparr>) = (anon, st2)"
          "modperl_handler_anon_add anon cv st2 = Inr st'"
          "h' = (hflag_on MpHandlerANON_f (hflag_on MpHandlerPARSED_f h))\<lparr>hname := None, mgv_obj := Some anon\<rparr>"
      by (auto simp: modperl_mgv_resolve_def Let_def and_then_eq_Inr split: option.splits)
    from resolve_anon_add [OF s(1,2)] s ok show ?thesis
      by (auto simp: callable_def same_objs_def anon_kept_def modperl_handler_anon_next_def modperl_handler_anon_add_def Let_def)
  next
    case sub: False
    show ?thesis
    proof (cases "strstr_arrow name")
      case None
      show ?thesis
      proof (cases "p_get_cv ops name (perlst st)")
        case gcv: None
        from r sub None gcv h have "resolve_class ops h None name ''handler'' lf st = Inr (ok, h', st')"
          by (simp add: modperl_mgv_resolve_def)
        from resolve_class_ok [OF deep h this] un show ?thesis by auto
      next
        case (Some c)
        obtain cv pkg nm where c: "c = (cv, pkg, nm)" by (cases c)
        from r sub None Some h obtain symb where
          d: "deep_resolve ops (hflag_on MpHandlerPARSED_f (h\<lparr>attrs := p_attrs ops cv (perlst st), mgv_cv := Some symb\<rparr>)) st
            = Inr (h', st')"
          by (auto simp: modperl_mgv_resolve_def c and_then_eq_Inr)
        note k = deep_resolve_keeps [OF deep d]
        have fl: "hflag f h' = hflag f (hflag_on MpHandlerPARSED_f (h\<lparr>attrs := p_attrs ops cv (perlst st), mgv_cv := Some symb\<rparr>))" for f
          using k by (intro hflags_eq_hflag) simp
        have "ok" using r sub None Some h by (auto simp: modperl_mgv_resolve_def c and_then_eq_Inr)
        then show ?thesis using k h un None by (simp add: callable_def fl unresolved_def)
      qed
    next
      case (Some pm)
      obtain package meth where pm: "pm = (package, meth)" by (cases pm)
      let ?h1 = "hflag_on MpHandlerMETHOD_f h"
      show ?thesis
      proof (cases "package \<noteq> [] \<and> hd package = CHR ''$''")
        case False
        with r sub Some pm h have "resolve_class ops ?h1 (p_stash ops package (perlst st)) package meth lf st = Inr (ok, h', st')"
          by (auto simp: modperl_mgv_resolve_def Let_def)
        from resolve_class_ok [OF deep _ this] h Some pm show ?thesis by (auto simp: unresolved_def)
      next
        case True
        let ?symb = "modperl_mgv_compile (p_hash ops) (tl package)"
        from r sub Some pm h True obtain gv where
          o: "(case (case gv of FoundGv g \<Rightarrow> p_object ops g (perlst st) | _ \<Rightarrow> NotTrue) of
                ObjectOf s \<Rightarrow> resolve_class ops (hflag_on MpHandlerOBJECT_f (?h1\<lparr>mgv_obj := Some ?symb\<rparr>)) (Some s) package meth lf st
              | _ \<Rightarrow> Inr (False, ?h1\<lparr>mgv_obj := Some ?symb\<rparr>, st)) = Inr (ok, h', st')"
          by (auto simp: modperl_mgv_resolve_def Let_def and_then_eq_Inr)
        show ?thesis
        proof (cases "case gv of FoundGv g \<Rightarrow> p_object ops g (perlst st) | _ \<Rightarrow> NotTrue")
          case (ObjectOf s)
          with o have "resolve_class ops (hflag_on MpHandlerOBJECT_f (?h1\<lparr>mgv_obj := Some ?symb\<rparr>)) (Some s) package meth lf st
              = Inr (ok, h', st')" by simp
          from resolve_class_ok [OF deep _ this] h Some pm show ?thesis by (auto simp: unresolved_def)
        qed (use o h Some pm in \<open>auto simp: unresolved_def\<close>)
      qed
    qed
  qed
qed

lemma mgv_resolve_ok:
  assumes "deep_keeps ops" "\<not> hflag MpHandlerANON_f h" "\<not> hflag MpHandlerMETHOD_f h"
    and "modperl_mgv_resolve ops h name lf st = Inr (ok, h', st')"
  shows "same_objs st st' \<and> (ok \<longrightarrow> callable h' st')"
  using mgv_resolve_strong [OF assms(1) _ assms(4)] assms(2,3) by (simp add: unresolved_def)

section \<open>Slots and arrays\<close>

definition slot_list :: "'p hstate \<Rightarrow> slot \<Rightarrow> nat list option" where
  "slot_list st sl = Option.bind (slots st sl) (arrays st)"

text \<open>Every array a slot points to exists, and the arrays of a request belong to it alone.\<close>

definition slots_ok :: "'p hstate \<Rightarrow> bool" where
  "slots_ok st \<longleftrightarrow> (\<forall>sl a. slots st sl = Some a \<longrightarrow> a < abrk st \<and> arrays st a \<noteq> None) \<and>
     (\<forall>r t i sl a. slots st (ReqSlot r t i) = Some a \<longrightarrow> slots st sl = Some a \<longrightarrow> sl = ReqSlot r t i)"

lemma slots_okD:
  assumes "slots_ok st" "slots st sl = Some a"
  shows "a < abrk st" "\<exists>xs. arrays st a = Some xs"
  using assms by (auto simp: slots_ok_def)

lemma slot_new_simps:
  "slots (slot_new sl xs st) = (slots st)(sl \<mapsto> abrk st)"
  "arrays (slot_new sl xs st) = (arrays st)(abrk st \<mapsto> xs)"
  "abrk (slot_new sl xs st) = Suc (abrk st)" "hobjs (slot_new sl xs st) = hobjs st" "hbrk (slot_new sl xs st) = hbrk st"
  by (auto simp: slot_new_def new_array_def set_slot_def)

lemma slot_new_lists:
  assumes "slots_ok st"
  shows "slot_list (slot_new sl xs st) sl' = (if sl' = sl then Some xs else slot_list st sl')"
  using slots_okD(1) [OF assms, of sl'] by (cases "slots st sl'") (auto simp: slot_list_def slot_new_simps)

lemma slot_new_ok: "slots_ok st \<Longrightarrow> slots_ok (slot_new sl xs st)"
proof -
  assume ok: "slots_ok st"
  have lt: "a < abrk st" "arrays st a \<noteq> None" if "slots st s = Some a" for s a
    using slots_okD [OF ok that] by auto
  have own: "s = ReqSlot r t i" if "slots st (ReqSlot r t i) = Some a" "slots st s = Some a" for r t i s a
    using ok that unfolding slots_ok_def by blast
  show ?thesis
    unfolding slots_ok_def slot_new_simps
  proof (intro conjI allI impI)
    fix s a assume "((slots st)(sl \<mapsto> abrk st)) s = Some a"
    then show "a < Suc (abrk st)" "((arrays st)(abrk st \<mapsto> xs)) a \<noteq> None"
      using lt [of s a] by (auto split: if_splits)
  next
    fix r t i s a
    assume "((slots st)(sl \<mapsto> abrk st)) (ReqSlot r t i) = Some a" "((slots st)(sl \<mapsto> abrk st)) s = Some a"
    then show "s = ReqSlot r t i"
      using own [of r t i a s] lt(1) [of s a] lt(1) [of "ReqSlot r t i" a] by (auto split: if_splits)
  qed
qed

lemma slot_clear_lists:
  assumes "slots_ok st" "slots st (ReqSlot r t i) = Some a"
  shows "slot_list (slot_clear a st) sl' = (if sl' = ReqSlot r t i then Some [] else slot_list st sl')"
proof (cases "sl' = ReqSlot r t i")
  case False
  then have "slots st sl' \<noteq> Some a" using assms unfolding slots_ok_def by blast
  then show ?thesis using False by (cases "slots st sl'") (auto simp: slot_list_def slot_clear_def)
qed (use assms in \<open>auto simp: slot_list_def slot_clear_def\<close>)

lemma slot_clear_ok: "slots_ok st \<Longrightarrow> slots_ok (slot_clear a st)"
  by (simp add: slots_ok_def slot_clear_def)

text \<open>The effect of a push or set on the slots of a request.\<close>

definition phase_slot :: "nat \<Rightarrow> nat \<Rightarrow> handler_type \<Rightarrow> nat \<Rightarrow> slot" where
  "phase_slot d scfg t i = (if t = PER_DIR then DirSlot d i else SrvSlot scfg t i)"

definition phase_handlers :: "nat \<Rightarrow> nat \<Rightarrow> nat \<Rightarrow> handler_type \<Rightarrow> nat \<Rightarrow> 'p hstate \<Rightarrow> nat list" where
  "phase_handlers d scfg r t i st = (case slot_list st (ReqSlot r t i) of
       Some xs \<Rightarrow> xs
     | None \<Rightarrow> (case slot_list st (phase_slot d scfg t i) of Some xs \<Rightarrow> xs | None \<Rightarrow> []))"

lemma lookup_request_run:
  assumes ok: "slots_ok st" and t: "t = PER_DIR \<or> t = PER_SRV" and act: "action \<noteq> ACTION_GET"
  obtains st' where
    "modperl_handler_lookup_handlers (Some d) scfg (Some r) (Some t) i action st = Inr (Some (ReqSlot r t i), st')"
    "slots_ok st'" "hobjs st' = hobjs st" "hbrk st' = hbrk st"
    "slot_list st' (ReqSlot r t i) =
       Some (if action = ACTION_SET then [] else phase_handlers d scfg r t i st)"
    "\<forall>sl. sl \<noteq> ReqSlot r t i \<longrightarrow> slot_list st' sl = slot_list st sl"
proof -
  let ?rs = "ReqSlot r t i" and ?av = "phase_slot d scfg t i"
  have sl: "lookup_slots (Some d) scfg (Some r) t i action = Inr (?av, Some ?rs)"
    using t by (auto simp: lookup_slots_def phase_slot_def)
  define st' where "st' = (case slots st ?rs of
      Some a \<Rightarrow> if action = ACTION_SET then slot_clear a st else st
    | None \<Rightarrow> slot_new ?rs (if action = ACTION_SET then [] else
        (case slot_list st ?av of Some xs \<Rightarrow> xs | None \<Rightarrow> [])) st)"
  have run: "lookup_action action ?av (Some ?rs) st = Inr st'"
    using act slots_okD(2) [OF ok, of ?av]
    by (cases action; cases "slots st ?rs"; cases "slots st ?av")
       (auto simp: lookup_action_def st'_def slot_list_def get_array_def)
  have set: "slots st' ?rs \<noteq> None"
    by (auto simp: st'_def slot_new_simps slot_clear_def split: option.splits)
  have "modperl_handler_lookup_handlers (Some d) scfg (Some r) (Some t) i action st = Inr (Some ?rs, st')"
    using sl run set by (simp add: modperl_handler_lookup_handlers_def)
  moreover have "slots_ok st'"
    using ok by (auto simp: st'_def slot_new_ok slot_clear_ok split: option.splits)
  moreover have "hobjs st' = hobjs st" "hbrk st' = hbrk st"
    by (auto simp: st'_def slot_new_simps slot_clear_def split: option.splits)
  moreover have "slot_list st' ?rs = Some (if action = ACTION_SET then [] else phase_handlers d scfg r t i st)"
  proof (cases "slots st ?rs")
    case None
    then have "slot_list st ?rs = None" by (simp add: slot_list_def)
    with None show ?thesis by (simp add: st'_def slot_new_lists [OF ok] phase_handlers_def)
  next
    case (Some a)
    then obtain xs where "slot_list st ?rs = Some xs" using slots_okD(2) [OF ok Some] by (auto simp: slot_list_def)
    with Some show ?thesis using act
      by (cases action) (auto simp: st'_def slot_clear_lists [OF ok Some] phase_handlers_def)
  qed
  moreover have "\<forall>sl. sl \<noteq> ?rs \<longrightarrow> slot_list st' sl = slot_list st sl"
  proof (cases "slots st ?rs")
    case (Some a)
    then show ?thesis by (simp add: st'_def slot_clear_lists [OF ok Some])
  qed (simp add: st'_def slot_new_lists [OF ok])
  ultimately show ?thesis by (rule that)
qed

text \<open>Pushing one handler.\<close>

lemma new_from_sv_same:
  assumes "modperl_handler_new_from_sv ops s st = Inr (ho, st')"
  shows "same_objs st st'"
  using assms
  by (auto simp: modperl_handler_new_from_sv_def modperl_handler_new_anon_def and_then_eq_Inr Let_def
      same_objs_def modperl_handler_anon_next_def modperl_handler_anon_add_def split: sv.splits)

definition pushed :: "nat \<Rightarrow> 'p hstate \<Rightarrow> 'p hstate \<Rightarrow> nat list \<Rightarrow> bool" where
  "pushed arr st st' ys \<longleftrightarrow> slots st' = slots st \<and> abrk st' = abrk st \<and>
     (\<forall>a. a \<noteq> arr \<longrightarrow> arrays st' a = arrays st a) \<and>
     (\<forall>xs. arrays st arr = Some xs \<longrightarrow> arrays st' arr = Some (xs @ ys)) \<and>
     (\<forall>a. a < hbrk st \<longrightarrow> hobjs st' a = hobjs st a) \<and> hbrk st \<le> hbrk st' \<and>
     (\<forall>y \<in> set ys. hbrk st \<le> y \<and> y < hbrk st' \<and> (\<exists>h. hobjs st' y = Some h \<and> hflag MpHandlerDYNAMIC_f h))"

lemma push_sv_handler_pushed:
  assumes r: "push_sv_handler ops arr s st = Inr st'" and a: "arrays st arr = Some xs"
  shows "\<exists>ys. length ys \<le> 1 \<and> pushed arr st st' ys"
proof -
  from r obtain ok st1 where p: "modperl_handler_push_handlers ops arr s st = Inr (ok, st1)"
      and rest: "(if \<not> ok then Inr st1
       else and_then (get_array st1 arr) (\<lambda>xs.
            and_then (if xs = [] then Inl OutOfBounds else get_handler st1 (last xs)) (\<lambda>h.
              Inr (set_handler (last xs) (hflag_on MpHandlerDYNAMIC_f h) st1)))) = Inr st'"
    by (auto simp: push_sv_handler_def and_then_eq_Inr)
  from p obtain ho st0 where n: "modperl_handler_new_from_sv ops s st = Inr (ho, st0)"
      and pu: "(case ho of None \<Rightarrow> Inr (False, st0)
       | Some h \<Rightarrow> let (a, st2) = new_handler h st0 in
           and_then (get_array st2 arr) (\<lambda>xs. Inr (True, st2\<lparr>arrays := (arrays st2)(arr \<mapsto> xs @ [a])\<rparr>))) = Inr (ok, st1)"
    by (auto simp: modperl_handler_push_handlers_def and_then_eq_Inr)
  note same = new_from_sv_same [OF n, unfolded same_objs_def]
  show ?thesis
  proof (cases ho)
    case None
    then show ?thesis using pu rest same by (intro exI [of _ "[]"]) (auto simp: pushed_def)
  next
    case (Some h)
    have "arrays st0 arr = Some xs" using same a by simp
    then have st1: "ok" "st1 = st0\<lparr>hobjs := (hobjs st0)(hbrk st0 \<mapsto> h), hbrk := Suc (hbrk st0),
        arrays := (arrays st0)(arr \<mapsto> xs @ [hbrk st0])\<rparr>"
      using pu Some by (auto simp: new_handler_def get_array_def)
    then have "st' = set_handler (hbrk st0) (hflag_on MpHandlerDYNAMIC_f h) st1"
      using rest by (simp add: get_array_def get_handler_def)
    then show ?thesis using st1 same a
      by (intro exI [of _ "[hbrk st]"]) (auto simp: pushed_def set_handler_def)
  qed
qed

lemma pushed_refl: "pushed arr st st []"
  by (simp add: pushed_def)

lemma pushed_trans:
  assumes "pushed arr st st1 ys" "pushed arr st1 st2 zs"
  shows "pushed arr st st2 (ys @ zs)"
  using assms unfolding pushed_def by (auto 0 3)

lemma push_sv_handlers_pushed:
  assumes "push_sv_handlers ops arr ss st = Inr st'" "arrays st arr = Some xs"
  shows "\<exists>ys. length ys \<le> length ss \<and> pushed arr st st' ys"
  using assms
proof (induction ss arbitrary: st xs)
  case Nil
  then show ?case using pushed_refl by auto
next
  case (Cons s ss)
  then obtain st1 where st1: "push_sv_handler ops arr s st = Inr st1" "push_sv_handlers ops arr ss st1 = Inr st'"
    by (auto simp: and_then_eq_Inr)
  obtain ys where ys: "length ys \<le> 1" "pushed arr st st1 ys"
    using push_sv_handler_pushed [OF st1(1) Cons.prems(2)] by blast
  then have "arrays st1 arr = Some (xs @ ys)" using Cons.prems(2) by (simp add: pushed_def)
  from Cons.IH [OF st1(2) this] obtain zs where "length zs \<le> length ss" "pushed arr st1 st' zs" by blast
  with ys pushed_trans [OF ys(2)] show ?case by (intro exI [of _ "ys @ zs"]) auto
qed

lemma pushed_slots:
  assumes "pushed arr st st' ys" "slots_ok st" "slots st (ReqSlot r t i) = Some arr" "slot_list st (ReqSlot r t i) = Some xs"
  shows "slot_list st' (ReqSlot r t i) = Some (xs @ ys)"
    "sl \<noteq> ReqSlot r t i \<Longrightarrow> slot_list st' sl = slot_list st sl"
proof -
  show "slot_list st' (ReqSlot r t i) = Some (xs @ ys)"
    using assms by (simp add: slot_list_def pushed_def)
  assume "sl \<noteq> ReqSlot r t i"
  then have "slots st sl \<noteq> Some arr" using assms(2,3) unfolding slots_ok_def by blast
  then show "slot_list st' sl = slot_list st sl"
    using assms(1) by (cases "slots st sl") (auto simp: slot_list_def pushed_def)
qed

section \<open>Merging arrays\<close>

lemma merge_inner_run:
  assumes "\<forall>a \<in> set as. \<exists>h e. hobjs st a = Some h \<and> modperl_handler_equal b h = Inr e"
  shows "merge_inner st b as mrg =
    Inr (mrg @ filter (\<lambda>a. modperl_handler_equal b (the (hobjs st a)) = Inr False) as)"
  using assms
proof (induction "as" arbitrary: mrg)
  case (Cons a as)
  then obtain h e where "hobjs st a = Some h" "modperl_handler_equal b h = Inr e" by auto
  with Cons show ?case by (cases e) (auto simp: get_handler_def)
qed simp

lemma merge_outer_run:
  assumes "\<forall>b \<in> set bs. \<exists>h. hobjs st b = Some h \<and>
      (\<forall>a \<in> set as. \<exists>h' e. hobjs st a = Some h' \<and> modperl_handler_equal h h' = Inr e)"
  shows "merge_outer st bs as mrg = Inr (mrg @ concat (map (\<lambda>b.
      filter (\<lambda>a. modperl_handler_equal (the (hobjs st b)) (the (hobjs st a)) = Inr False) as) bs))"
  using assms
proof (induction bs arbitrary: mrg)
  case (Cons b bs)
  then obtain h where "hobjs st b = Some h"
      "\<forall>a \<in> set as. \<exists>h' e. hobjs st a = Some h' \<and> modperl_handler_equal h h' = Inr e" by auto
  with Cons show ?case by (simp add: get_handler_def merge_inner_run)
qed simp

section \<open>Properties\<close>

text \<open>
  Pushing or setting handlers of a request at request time (\<open>$r->push_handlers\<close>, \<open>$r->set_handlers\<close>): the
  request then runs the handlers it had (none for a set) followed by the new ones, and the configuration of
  every directory, server and other request is unchanged.
\<close>

theorem handler_add_request:
  assumes "slots_ok st" "handler_lookup name = Some (i, t)" "t = PER_DIR \<or> t = PER_SRV" "action \<noteq> ACTION_GET"
    "modperl_handler_perl_add_handlers ops handler_lookup dd (Some (q, Some d, Some r)) scfg name s action st = Inr (b, st')"
  shows "b \<and> (\<exists>ys. slot_list st' (ReqSlot r t i) =
        Some ((if action = ACTION_SET then [] else phase_handlers d scfg r t i st) @ ys) \<and>
      (\<forall>y \<in> set ys. hbrk st \<le> y)) \<and>
    (\<forall>sl. sl \<noteq> ReqSlot r t i \<longrightarrow> slot_list st' sl = slot_list st sl) \<and>
    (\<forall>a. a < hbrk st \<longrightarrow> hobjs st' a = hobjs st a)"
proof -
  let ?rs = "ReqSlot r t i" and ?old = "if action = ACTION_SET then [] else phase_handlers d scfg r t i st"
  obtain st1 where l: "modperl_handler_lookup_handlers (Some d) scfg (Some r) (Some t) i action st = Inr (Some ?rs, st1)"
    "slots_ok st1" "hobjs st1 = hobjs st" "hbrk st1 = hbrk st" "slot_list st1 ?rs = Some ?old"
    "\<forall>sl. sl \<noteq> ?rs \<longrightarrow> slot_list st1 sl = slot_list st sl"
    using assms(1,3,4) by (rule lookup_request_run)
  obtain arr where arr: "slots st1 ?rs = Some arr" "arrays st1 arr = Some ?old"
    using l(5) by (auto simp: slot_list_def bind_eq_Some_conv)
  from assms(5) l(1) arr(1) obtain b' where
    p: "(case s of SvRV (SvAV ss) \<Rightarrow> push_sv_handlers ops arr ss st1 | _ \<Rightarrow> push_sv_handler ops arr s st1) = Inr st'" "b"
    by (auto simp: modperl_handler_perl_add_handlers_def modperl_handler_get_handlers_def assms(2) and_then_eq_Inr)
  obtain ys where ys: "pushed arr st1 st' ys"
  proof (cases "\<exists>ss. s = SvRV (SvAV ss)")
    case True
    then obtain ss where "push_sv_handlers ops arr ss st1 = Inr st'" using p(1) by auto
    from push_sv_handlers_pushed [OF this arr(2)] that show ?thesis by blast
  next
    case False
    then have "push_sv_handler ops arr s st1 = Inr st'"
      using p(1) by (auto split: sv.splits)
    from push_sv_handler_pushed [OF this arr(2)] that show ?thesis by blast
  qed
  note ps = pushed_slots [OF ys l(2) arr(1) l(5)]
  have "\<forall>y \<in> set ys. hbrk st \<le> y" "\<forall>a. a < hbrk st \<longrightarrow> hobjs st' a = hobjs st a"
    using ys l(3,4) by (auto simp: pushed_def)
  with ps l(6) p(2) show ?thesis by auto
qed

text \<open>A configuration with one server handler, for concrete runs.\<close>

definition demo_ops :: "unit perl_ops" where
  "demo_ops = \<lparr>p_hash = (\<lambda>_. 1), p_defstash = (\<lambda>_. Some [(''My::'', Glob 1 (Some [(''handler'', Glob 2 None)]))]),
     p_eval_anon = (\<lambda>_ p. (Inr (Some 9), p)), p_get_cv = (\<lambda>n _. if n = ''My::handler'' then Some (2, ''My'', ''handler'') else None),
     p_attrs = (\<lambda>_ _. 0), p_is_method = (\<lambda>_ _. False), p_object = (\<lambda>_ _. NotTrue), p_stash = (\<lambda>_ _. None),
     p_fetchmethod = (\<lambda>_ _ _. None), p_loaded = (\<lambda>_ _. True), p_require = (\<lambda>_ _ p. (True, p)),
     p_deep_resolve = (\<lambda>h p. Inr (h, p)), p_printf_anon = (\<lambda>_. ''anon'')\<rparr>"

definition demo_hstate :: "unit hstate" where
  "demo_hstate = \<lparr>hobjs = [0 \<mapsto> modperl_handler_new ''My::handler''], hbrk = 1, arrays = [0 \<mapsto> [0]], abrk = 1,
     slots = [DirSlot 0 3 \<mapsto> 0], anon_cnt = 0, anonsubs = Map.empty, errsv = NoErr, perlst = ()\<rparr>"

lemma demo_slots_ok: "slots_ok demo_hstate"
  by (auto simp: slots_ok_def demo_hstate_def split: if_splits)

theorem handler_add_request_witness:
  "case modperl_handler_perl_add_handlers demo_ops (\<lambda>_. Some (3, PER_DIR)) (\<lambda>_. None) (Some (0, Some 0, Some 7)) 0
       ''PerlFixupHandler'' (SvRV (SvAV [SvPV ''My::other''])) ACTION_PUSH demo_hstate of
     Inr (b, st') \<Rightarrow> b \<and> slot_list st' (DirSlot 0 3) = Some [0]
   | Inl e \<Rightarrow> False"
proof -
  let ?run = "modperl_handler_perl_add_handlers demo_ops (\<lambda>_. Some (3, PER_DIR)) (\<lambda>_. None) (Some (0, Some 0, Some 7)) 0
       ''PerlFixupHandler'' (SvRV (SvAV [SvPV ''My::other''])) ACTION_PUSH demo_hstate"
  have "case ?run of Inr x \<Rightarrow> True | Inl e \<Rightarrow> False" by code_simp
  then obtain b st' where run: "?run = Inr (b, st')" by (auto split: sum.splits)
  from handler_add_request [OF demo_slots_ok refl _ _ run] run show ?thesis
    by (auto simp: demo_hstate_def slot_list_def)
qed

text \<open>
  Handlers of the connection, pre-connection, files and process phases cannot be changed any more at request time:
  every push or set croaks and changes nothing.
\<close>

theorem handler_too_late:
  assumes "handler_lookup name = Some (i, t)" "t \<notin> {PER_DIR, PER_SRV}" "action \<noteq> ACTION_GET"
  shows "\<exists>msg. modperl_handler_perl_add_handlers ops handler_lookup dd (Some (q, d, Some r)) scfg name s action st
    = Inl (Croak msg)"
  using assms by (cases t) (auto simp: modperl_handler_perl_add_handlers_def modperl_handler_get_handlers_def
      modperl_handler_lookup_handlers_def lookup_slots_def)

theorem handler_too_late_witness:
  "\<exists>msg. modperl_handler_perl_add_handlers demo_ops (\<lambda>_. Some (0, PROCESS)) (\<lambda>_. None) (Some (0, Some 0, Some 7)) 0
     ''PerlChildInitHandler'' (SvPV ''x'') ACTION_PUSH demo_hstate = Inl (Croak msg)"
  by (rule handler_too_late [where i = 0 and t = PROCESS]) simp_all

text \<open>
  A handler that was resolved can be called: it is marked as parsed, an anonymous sub is registered under its number,
  any other handler has the name of its code, and a method handler has its class or object.
\<close>

theorem handler_resolve_callable:
  assumes "deep_keeps ops" "\<not> hflag MpHandlerANON_f h" "\<not> hflag MpHandlerMETHOD_f h"
    "modperl_mgv_resolve ops h name logfailure st = Inr (True, h', st')"
  shows "callable h' st'"
  using mgv_resolve_ok [OF assms] by simp

theorem handler_resolve_callable_witness:
  "case modperl_mgv_resolve demo_ops (modperl_handler_new ''My::handler'') ''My::handler'' True demo_hstate of
     Inr (ok, h', st') \<Rightarrow> ok \<and> callable h' st'
   | Inl e \<Rightarrow> False"
proof -
  let ?r = "modperl_mgv_resolve demo_ops (modperl_handler_new ''My::handler'') ''My::handler'' True demo_hstate"
  have "case ?r of Inr (ok, x) \<Rightarrow> ok | Inl e \<Rightarrow> False" by code_simp
  then obtain h' st' where r: "?r = Inr (True, h', st')" by (auto split: sum.splits)
  have "deep_keeps demo_ops" by (simp add: deep_keeps_def demo_ops_def)
  from handler_resolve_callable [OF this _ _ r] r show ?thesis
    by (simp add: modperl_handler_new_def new_handler_obj_def hflag_def)
qed



text \<open>
  What merging two handler arrays really computes: the base handlers, followed, for each base handler, by all added
  handlers that differ from it. With \<open>n\<close> base handlers an added handler that is new is therefore run \<open>n\<close> times.
\<close>

theorem handler_merge_duplicates:
  assumes "arrays st b = Some bs" "arrays st a = Some as"
    "\<forall>x \<in> set bs \<union> set as. \<exists>h. hobjs st x = Some h \<and> mgv_cv h = None \<and> hname h = Some (nm x)"
    "\<forall>x \<in> set bs. \<forall>y \<in> set as. nm x \<noteq> nm y"
  shows "\<exists>m st'. modperl_handler_array_merge (Some b) (Some a) st = Inr (Some m, st') \<and>
    arrays st' m = Some (bs @ concat (replicate (length bs) as))"
proof -
  have eq: "modperl_handler_equal (the (hobjs st x)) (the (hobjs st y)) = Inr False"
    if x: "x \<in> set bs" and y: "y \<in> set as" for x y
  proof -
    obtain h where h: "hobjs st x = Some h" "mgv_cv h = None" "hname h = Some (nm x)" using assms(3) x by auto
    obtain g where g: "hobjs st y = Some g" "mgv_cv g = None" "hname g = Some (nm y)" using assms(3) y by auto
    from h g show ?thesis using assms(4) x y by (simp add: modperl_handler_equal_def)
  qed
  have "\<forall>x \<in> set bs. \<exists>h. hobjs st x = Some h \<and>
      (\<forall>y \<in> set as. \<exists>h' e. hobjs st y = Some h' \<and> modperl_handler_equal h h' = Inr e)"
  proof
    fix x assume x: "x \<in> set bs"
    then obtain h where h: "hobjs st x = Some h" using assms(3) by auto
    have "\<exists>h' e. hobjs st y = Some h' \<and> modperl_handler_equal h h' = Inr e" if y: "y \<in> set as" for y
    proof -
      obtain g where g: "hobjs st y = Some g" using assms(3) y by auto
      with eq [OF x y] h show ?thesis by auto
    qed
    with h show "\<exists>h. hobjs st x = Some h \<and>
        (\<forall>y \<in> set as. \<exists>h' e. hobjs st y = Some h' \<and> modperl_handler_equal h h' = Inr e)" by simp
  qed
  note run = merge_outer_run [OF this, of bs]
  have "concat (map (\<lambda>x. filter (\<lambda>y. modperl_handler_equal (the (hobjs st x)) (the (hobjs st y)) = Inr False) as) xs) =
      concat (replicate (length xs) as)" if "set xs \<subseteq> set bs" for xs
    using that by (induction xs) (auto simp: eq intro!: filter_True)
  from this [of bs] run assms(1,2) show ?thesis
    by (simp add: modperl_handler_array_merge_def get_array_def new_array_def)
qed

theorem handler_merge_duplicates_witness:
  "let st = demo_hstate\<lparr>hobjs := [0 \<mapsto> modperl_handler_new ''A'', 1 \<mapsto> modperl_handler_new ''B'', 2 \<mapsto> modperl_handler_new ''C''],
             arrays := [0 \<mapsto> [0, 1], 1 \<mapsto> [2]]\<rparr> in
   \<exists>m st'. modperl_handler_array_merge (Some 0) (Some 1) st = Inr (Some m, st') \<and> arrays st' m = Some [0, 1, 2, 2]"
proof -
  let ?st = "demo_hstate\<lparr>hobjs := [0 \<mapsto> modperl_handler_new ''A'', 1 \<mapsto> modperl_handler_new ''B'', 2 \<mapsto> modperl_handler_new ''C''],
             arrays := [0 \<mapsto> [0, 1], 1 \<mapsto> [2]]\<rparr>"
  let ?nm = "\<lambda>x::nat. if x = 0 then ''A'' else if x = 1 then ''B'' else ''C''"
  have new: "mgv_cv (modperl_handler_new n) = None" for n
    by (simp add: modperl_handler_new_def new_handler_obj_def hflag_on_def hflag_off_def)
  have "\<forall>x \<in> set [0, 1] \<union> set [2]. \<exists>h. hobjs ?st x = Some h \<and> mgv_cv h = None \<and> hname h = Some (?nm x)"
    by (simp add: new) (simp add: modperl_handler_new_def)
  from handler_merge_duplicates [of ?st 0 "[0, 1]" 1 "[2]", OF _ _ this] show ?thesis by simp
qed

text \<open>
  Merging arrays crashes when the base holds an anonymous sub that has been resolved: such a handler has no name, and
  the comparison reads it.
\<close>

theorem handler_merge_anon_crash:
  assumes "arrays st b = Some (x # bs)" "arrays st a = Some (y # as)" "hobjs st x = Some h" "hobjs st y = Some h'"
    "hname h = None" "mgv_cv h = None"
  shows "modperl_handler_array_merge (Some b) (Some a) st = Inl NullDeref"
  using assms by (simp add: modperl_handler_array_merge_def get_array_def get_handler_def modperl_handler_equal_def)

theorem handler_merge_anon_crash_witness:
  "case modperl_mgv_resolve demo_ops (modperl_handler_new ''sub { 1 }'') ''sub { 1 }'' True demo_hstate of
     Inr (ok, h', st') \<Rightarrow> modperl_handler_array_merge (Some 1) (Some 0)
       (st'\<lparr>hobjs := (hobjs st')(5 \<mapsto> h'), arrays := [0 \<mapsto> [0], 1 \<mapsto> [5]]\<rparr>) = Inl NullDeref
   | Inl e \<Rightarrow> False"
proof -
  let ?r = "modperl_mgv_resolve demo_ops (modperl_handler_new ''sub { 1 }'') ''sub { 1 }'' True demo_hstate"
  have "case ?r of Inr (ok, h', st') \<Rightarrow> hname h' = None \<and> mgv_cv h' = None \<and> hobjs st' 0 \<noteq> None | Inl e \<Rightarrow> False"
    by code_simp
  then obtain ok h' st' h0 where r: "?r = Inr (ok, h', st')" "hname h' = None" "mgv_cv h' = None" "hobjs st' 0 = Some h0"
    by (auto split: sum.splits)
  from handler_merge_anon_crash [of "st'\<lparr>hobjs := (hobjs st')(5 \<mapsto> h'), arrays := [0 \<mapsto> [0], 1 \<mapsto> [5]]\<rparr>" 1 5 "[]" 0 0 "[]" h' h0]
  show ?thesis using r by simp
qed

end
