(* ===== verification/Callback.thy ===== *)
theory Callback
  imports Handler
begin

text \<open>
  Running handlers, \<^verbatim>\<open>src/src/modules/perl/modperl_callback.c\<close>. One handler is called by \<open>modperl_callback\<close>; a
  phase is run by \<open>modperl_callback_run_handlers\<close>, which looks the handlers up, selects an interpreter, sets the
  environment up and calls the handlers in order until the run mode says stop.

  Calling Perl code is the parameter \<open>call_sv\<close>; it may change everything, the handlers of the running phase
  included. What a phase does through other components (interpreter selection, environment, cleanup
  registration, putting the interpreter back) is recorded as a list of \<open>run_event\<close>s.
\<close>

section \<open>State\<close>

datatype run_event =
    SelectInterp "nat option" "nat option" nat
  | ParentContext nat
  | RegisterCleanup nat
  | EnvConfigureSrv nat
  | EnvConfigureDir nat
  | CallbackRun nat
  | InterpPutback
  | LogError

record 'p cstate =
  hs :: "'p hstate"
  cleanup_registered :: "nat \<Rightarrow> bool"
  env_srv_done :: "nat \<Rightarrow> bool"
  env_dir_done :: "nat \<Rightarrow> bool"
  events :: "run_event list"
  error_notes :: "nat list"

datatype call_result = NoValue | UndefValue | Status int

datatype hook_run_mode = HOOK_RUN_ALL | HOOK_RUN_FIRST | HOOK_VOID

type_synonym 'p call_fun = "nat \<Rightarrow> 'p cstate \<Rightarrow> call_result \<times> 'p cstate"

record 'p callback_env =
  ce_ops :: "'p perl_ops"
  ce_call_sv :: "'p call_fun"
  ce_require :: "string \<Rightarrow> (string \<times> glob) list option \<Rightarrow> bool \<times> (string \<times> glob) list option"
  ce_set_defstash :: "(string \<times> glob) list option \<Rightarrow> 'p \<Rightarrow> 'p"
  ce_threaded :: bool
  ce_own_parent :: "nat \<Rightarrow> bool"      \<comment> \<open>\<open>MpSrvPARENT\<close>\<close>
  ce_enabled :: "nat \<Rightarrow> bool"         \<comment> \<open>\<open>MpSrvENABLE\<close>\<close>
  ce_scope_connection :: "nat \<Rightarrow> bool"

definition log_event :: "run_event \<Rightarrow> 'p cstate \<Rightarrow> 'p cstate" where
  "log_event e st = st\<lparr>events := events st @ [e]\<rparr>"

lemma hs_log_event [simp]: "hs (log_event e st) = hs st"
  by (simp add: log_event_def)

section \<open>Calling one handler\<close>

text \<open>The code to call, \<open>None\<close> when the lookup fails.\<close>

definition callback_cv :: "'p callback_env \<Rightarrow> handler \<Rightarrow> nat \<Rightarrow> 'p cstate \<Rightarrow> (nat option \<times> 'p cstate) res" where
  "callback_cv env h s st =
     (if hflag MpHandlerANON_f h
      then and_then (modperl_handler_anon_get (mgv_obj h) (hs st)) (\<lambda>cv. Inr (Some cv, st))
      else case mgv_cv h of
        None \<Rightarrow> Inl NullDeref
      | Some symb \<Rightarrow>
          and_then (modperl_mgv_lookup_autoload (p_hash (ce_ops env)) (ce_require env) (ce_own_parent env s) symb
                      (p_defstash (ce_ops env) (perlst (hs st)))) (\<lambda>(gv, stash).
            let st' = st\<lparr>hs := (hs st)\<lparr>perlst := ce_set_defstash env stash (perlst (hs st))\<rparr>\<rparr> in
            case gv of FoundGv g \<Rightarrow> Inr (Some g, st') | ClassName _ \<Rightarrow> Inl WrongType | NoGv \<Rightarrow> Inr (None, st')))"

definition errsv_true :: "'p cstate \<Rightarrow> bool" where
  "errsv_true st \<longleftrightarrow> errsv (hs st) \<noteq> NoErr"

text \<open>\<open>G_EVAL\<close> clears the error variable before the call.\<close>

definition modperl_callback ::
    "'p callback_env \<Rightarrow> nat \<Rightarrow> nat option \<Rightarrow> nat \<Rightarrow> 'p cstate \<Rightarrow> (int \<times> 'p cstate) res" where
  "modperl_callback env a r s st =
     and_then (modperl_handler_resolve (ce_ops env) (ce_threaded env) True a (hs st)) (\<lambda>(a', status0, hs1).
     let st1 = st\<lparr>hs := hs1\<rparr> in
     if status0 \<noteq> OK then Inr (status0, st1)
     else and_then (get_handler hs1 a') (\<lambda>h.
          and_then (if hflag MpHandlerMETHOD_f h
                    then (case mgv_obj h of
                        None \<Rightarrow> Inl (Croak ''panic: method handler object is NULL!'')
                      | Some obj \<Rightarrow> and_then (modperl_mgv_lookup (p_hash (ce_ops env))
                            (p_defstash (ce_ops env) (perlst hs1)) obj) (\<lambda>gv.
                          if gv = NoGv then Inl NullDeref else Inr st1))
                    else Inr st1) (\<lambda>st2.
          and_then (callback_cv env h s st2) (\<lambda>(cvo, st3).
            let (status, st4) = (case cvo of
                  None \<Rightarrow> (HTTP_INTERNAL_SERVER_ERROR, log_event LogError st3)
                | Some cv \<Rightarrow> (case ce_call_sv env cv (log_event (CallbackRun a) st3) of
                    (Status n, st') \<Rightarrow> (n, st') | (_, st') \<Rightarrow> (OK, st')));
                status' = (if errsv_true st4 then HTTP_INTERNAL_SERVER_ERROR else status);
                st5 = (if status' = HTTP_INTERNAL_SERVER_ERROR
                       then (case r of None \<Rightarrow> st4 | Some r' \<Rightarrow> st4\<lparr>error_notes := error_notes st4 @ [r']\<rparr>) else st4)
            in Inr (status', st5)))))"

text \<open>\<open>modperl_errsv\<close> (\<^verbatim>\<open>modperl_util.c\<close>): an error thrown by \<open>ModPerl::Util::exit\<close> counts as success.\<close>

definition modperl_errsv :: "int \<Rightarrow> 'p cstate \<Rightarrow> int \<times> 'p cstate" where
  "modperl_errsv status st = (case errsv (hs st) of
       ExitErr \<Rightarrow> (OK, st)
     | NoErr \<Rightarrow> (status, st)
     | ErrStr _ \<Rightarrow> (status, log_event LogError st))"

section \<open>Running a phase\<close>

text \<open>What happens after a callback returned: stop the phase with a status, or go on.\<close>

definition after_callback ::
    "hook_run_mode \<Rightarrow> handler_type \<Rightarrow> int \<Rightarrow> 'p cstate \<Rightarrow> bool \<times> int \<times> 'p cstate" where
  "after_callback run_mode typ status st = (case run_mode of
       HOOK_RUN_ALL \<Rightarrow>
         if typ = FILES \<and> status \<noteq> OK
         then (let (s', st') = (if errsv_true st then modperl_errsv status st else (status, log_event LogError st))
               in (True, s', st'))
         else if status \<noteq> OK \<and> status \<noteq> DECLINED
         then (let (s', st') = modperl_errsv status st in (True, s', st'))
         else (False, status, st)
     | HOOK_RUN_FIRST \<Rightarrow>
         if status = OK then (True, status, st)
         else if status \<noteq> DECLINED
         then (let (s', st') = modperl_errsv status st in (True, s', st'))
         else (False, status, st)
     | HOOK_VOID \<Rightarrow> (False, status, st))"

text \<open>
  The loop over the handlers: \<open>arr\<close> is \<open>av\<close>, read again after every callback because a callback may push
  handlers onto the running phase; a callback that always pushes another one never ends, hence the fuel.
\<close>

record phase =
  ph_type :: handler_type
  ph_idx :: nat
  ph_dcfg :: "nat option"
  ph_scfg :: nat
  ph_rcfg :: "nat option"
  ph_r :: "nat option"
  ph_r_conn :: "nat option"     \<comment> \<open>\<open>r->connection\<close>\<close>

definition phase_array :: "phase \<Rightarrow> 'p cstate \<Rightarrow> nat option res" where
  "phase_array ph st =
     and_then (modperl_handler_lookup_handlers (ph_dcfg ph) (ph_scfg ph) (ph_rcfg ph) (Some (ph_type ph)) (ph_idx ph)
                 ACTION_GET (hs st)) (\<lambda>(sl, _). Inr (Option.bind sl (slots (hs st))))"

fun run_handlers_loop ::
    "'p callback_env \<Rightarrow> hook_run_mode \<Rightarrow> phase \<Rightarrow> nat \<Rightarrow> nat \<Rightarrow> nat \<Rightarrow> int \<Rightarrow> 'p cstate \<Rightarrow> (int \<times> 'p cstate) res" where
  "run_handlers_loop env mode ph 0 i arr status st = Inl Diverges"
| "run_handlers_loop env mode ph (Suc fuel) i arr status st =
     and_then (get_array (hs st) arr) (\<lambda>handlers.
       if i < length handlers
       then and_then (modperl_callback env (handlers ! i) (ph_r ph) (ph_scfg ph) st) (\<lambda>(status1, st1).
            let (stop, status2, st2) = after_callback mode (ph_type ph) status1 st1 in
            if stop then Inr (status2, st2)
            else and_then (phase_array ph st2) (\<lambda>avp.
                 run_handlers_loop env mode ph fuel (Suc i) (case avp of Some arr' \<Rightarrow> arr' | None \<Rightarrow> arr) status2 st2))
       else Inr (status, st))"

definition run_setup :: "phase \<Rightarrow> nat option \<Rightarrow> bool \<Rightarrow> 'p cstate \<Rightarrow> 'p cstate" where
  "run_setup ph c scope_conn st =
     (let c' = (case ph_r ph of Some r \<Rightarrow> if c = None \<and> scope_conn then ph_r_conn ph else c | None \<Rightarrow> c);
          st1 = (if ph_r ph \<noteq> None \<or> c' \<noteq> None then log_event (SelectInterp (ph_r ph) c' (ph_scfg ph)) st
                 else log_event (ParentContext (ph_scfg ph)) st);
          st2 = (case ph_r ph of
                   None \<Rightarrow> st1
                 | Some r \<Rightarrow> if cleanup_registered st1 r then st1
                     else log_event (RegisterCleanup r) (st1\<lparr>cleanup_registered := (cleanup_registered st1)(r := True)\<rparr>));
          srv = (\<lambda>r st. if env_srv_done st r then st
                   else log_event (EnvConfigureSrv r) (st\<lparr>env_srv_done := (env_srv_done st)(r := True)\<rparr>));
          dir = (\<lambda>r st. if env_dir_done st r then st
                   else log_event (EnvConfigureDir r) (st\<lparr>env_dir_done := (env_dir_done st)(r := True)\<rparr>))
      in case (ph_type ph, ph_r ph) of
           (PER_SRV, Some r) \<Rightarrow> srv r st2
         | (PER_DIR, Some r) \<Rightarrow> dir r (srv r st2)
         | _ \<Rightarrow> st2)"

text \<open>\<open>putback\<close>: the interpreter was selected in the handler scope (\<open>MpInterpPUTBACK\<close>). \<open>c\<close> is the connection.\<close>

definition modperl_callback_run_handlers ::
    "'p callback_env \<Rightarrow> hook_run_mode \<Rightarrow> phase \<Rightarrow> nat option \<Rightarrow> bool \<Rightarrow> nat \<Rightarrow> 'p cstate \<Rightarrow> (int \<times> 'p cstate) res" where
  "modperl_callback_run_handlers env mode ph c putback fuel st =
     (if \<not> ce_enabled env (ph_scfg ph) then Inr (DECLINED, st)
      else and_then (phase_array ph st) (\<lambda>avp. case avp of
          None \<Rightarrow> Inr (DECLINED, st)
        | Some arr \<Rightarrow>
            and_then (run_handlers_loop env mode ph fuel 0 arr OK
                        (run_setup ph c (ce_scope_connection env (ph_scfg ph)) st)) (\<lambda>(status, st').
              Inr (status, if putback \<and> (ph_r ph \<noteq> None \<or> c \<noteq> None) then log_event InterpPutback st' else st'))))"

definition modperl_callback_per_dir where
  "modperl_callback_per_dir env idx r rconn d rc s mode =
     modperl_callback_run_handlers env mode
       \<lparr>ph_type = PER_DIR, ph_idx = idx, ph_dcfg = d, ph_scfg = s, ph_rcfg = rc, ph_r = Some r, ph_r_conn = Some rconn\<rparr> None"

definition modperl_callback_per_srv where
  "modperl_callback_per_srv env idx r rconn d rc s mode =
     modperl_callback_run_handlers env mode
       \<lparr>ph_type = PER_SRV, ph_idx = idx, ph_dcfg = d, ph_scfg = s, ph_rcfg = rc, ph_r = Some r, ph_r_conn = Some rconn\<rparr> None"

definition modperl_callback_connection where
  "modperl_callback_connection env idx c s mode =
     modperl_callback_run_handlers env mode
       \<lparr>ph_type = CONNECTION, ph_idx = idx, ph_dcfg = None, ph_scfg = s, ph_rcfg = None, ph_r = None, ph_r_conn = None\<rparr> (Some c)"

definition modperl_callback_pre_connection where
  "modperl_callback_pre_connection env idx c s mode =
     modperl_callback_run_handlers env mode
       \<lparr>ph_type = PRE_CONNECTION, ph_idx = idx, ph_dcfg = None, ph_scfg = s, ph_rcfg = None, ph_r = None, ph_r_conn = None\<rparr> (Some c)"

definition modperl_callback_process where
  "modperl_callback_process env idx s mode =
     modperl_callback_run_handlers env mode
       \<lparr>ph_type = PROCESS, ph_idx = idx, ph_dcfg = None, ph_scfg = s, ph_rcfg = None, ph_r = None, ph_r_conn = None\<rparr> None"

definition modperl_callback_files where
  "modperl_callback_files env idx s mode =
     modperl_callback_run_handlers env mode
       \<lparr>ph_type = FILES, ph_idx = idx, ph_dcfg = None, ph_scfg = s, ph_rcfg = None, ph_r = None, ph_r_conn = None\<rparr> None"

section \<open>What a phase returns\<close>

definition stops :: "hook_run_mode \<Rightarrow> handler_type \<Rightarrow> int \<Rightarrow> bool" where
  "stops mode typ s = (case mode of
       HOOK_RUN_ALL \<Rightarrow> (if typ = FILES then s \<noteq> OK else s \<noteq> OK \<and> s \<noteq> DECLINED)
     | HOOK_RUN_FIRST \<Rightarrow> s \<noteq> DECLINED
     | HOOK_VOID \<Rightarrow> False)"

text \<open>The handlers of a phase that are called, given the status each returns, and the status of the phase.\<close>

fun phase_called :: "hook_run_mode \<Rightarrow> handler_type \<Rightarrow> (nat \<Rightarrow> int) \<Rightarrow> nat list \<Rightarrow> nat list" where
  "phase_called mode typ f [] = []"
| "phase_called mode typ f (x # xs) = x # (if stops mode typ (f x) then [] else phase_called mode typ f xs)"

definition phase_status :: "hook_run_mode \<Rightarrow> handler_type \<Rightarrow> (nat \<Rightarrow> int) \<Rightarrow> nat list \<Rightarrow> int" where
  "phase_status mode typ f xs = (if xs = [] then OK else f (last (phase_called mode typ f xs)))"

lemma stops_after_callback:
  assumes "errsv (hs st) = NoErr"
  obtains st' where "after_callback mode typ s st = (stops mode typ s, s, st')" "hs st' = hs st"
    "events st' = events st \<or> events st' = events st @ [LogError]"
  using assms
  by (cases mode; cases "s = OK"; cases "s = DECLINED"; cases "typ = FILES")
     (auto simp: after_callback_def stops_def modperl_errsv_def errsv_true_def log_event_def OK_def DECLINED_def)

text \<open>
  A set of states in which the handlers of the phase are the list \<open>xs\<close> and stay so: every callback returns its
  status without raising an error and ends in such a state again; logging makes no difference.
\<close>

definition quiet_phase ::
    "'p callback_env \<Rightarrow> phase \<Rightarrow> nat \<Rightarrow> nat list \<Rightarrow> (nat \<Rightarrow> int) \<Rightarrow> ('p cstate \<Rightarrow> bool) \<Rightarrow> bool" where
  "quiet_phase env ph arr xs f P \<longleftrightarrow>
     (\<forall>st. P st \<longrightarrow> phase_array ph st = Inr (Some arr) \<and> arrays (hs st) arr = Some xs) \<and>
     (\<forall>st st'. P st \<longrightarrow> hs st' = hs st \<longrightarrow> P st') \<and>
     (\<forall>x \<in> set xs. \<forall>st. P st \<longrightarrow> (\<exists>st'. modperl_callback env x (ph_r ph) (ph_scfg ph) st = Inr (f x, st') \<and>
        P st' \<and> errsv (hs st') = NoErr))"

lemma run_loop_quiet:
  assumes q: "quiet_phase env ph arr xs f P" and P: "P st" and fuel: "length xs - i < fuel" and i: "i \<le> length xs"
  shows "\<exists>st'. run_handlers_loop env mode ph fuel i arr status st =
    Inr (if i = length xs then status else f (last (phase_called mode (ph_type ph) f (drop i xs))), st') \<and> P st'"
  using P fuel i
proof (induction fuel arbitrary: i status st)
  case (Suc fuel)
  have arr: "get_array (hs st) arr = Inr xs"
    using q Suc.prems(1) by (auto simp: quiet_phase_def get_array_def)
  show ?case
  proof (cases "i = length xs")
    case True
    with arr Suc.prems(1) show ?thesis by auto
  next
    case False
    then have lt: "i < length xs" using Suc.prems(3) by simp
    let ?x = "xs ! i"
    obtain st1 where c: "modperl_callback env ?x (ph_r ph) (ph_scfg ph) st = Inr (f ?x, st1)" "P st1" "errsv (hs st1) = NoErr"
      using q Suc.prems(1) lt unfolding quiet_phase_def by (meson nth_mem)
    obtain st2 where a: "after_callback mode (ph_type ph) (f ?x) st1 = (stops mode (ph_type ph) (f ?x), f ?x, st2)" "hs st2 = hs st1"
      using c(3) by (rule stops_after_callback) 
    have P2: "P st2" using q c(2) a(2) unfolding quiet_phase_def by blast
    have d: "drop i xs = ?x # drop (Suc i) xs" using lt by (simp add: Cons_nth_drop_Suc)
    show ?thesis
    proof (cases "stops mode (ph_type ph) (f ?x)")
      case True
      with arr lt c(1) a(1) P2 d False show ?thesis by simp
    next
      case go: False
      have av: "phase_array ph st2 = Inr (Some arr)" using q P2 by (auto simp: quiet_phase_def)
      obtain st' where st': "run_handlers_loop env mode ph fuel (Suc i) arr (f ?x) st2 =
          Inr (if Suc i = length xs then f ?x else f (last (phase_called mode (ph_type ph) f (drop (Suc i) xs))), st')" "P st'"
      proof -
        have "length xs - Suc i < fuel" "Suc i \<le> length xs" using Suc.prems(2) lt by linarith+
        from Suc.IH [OF P2 this, of "f ?x"] that show ?thesis by blast
      qed
      have "phase_called mode (ph_type ph) f (drop (Suc i) xs) \<noteq> [] \<longleftrightarrow> Suc i \<noteq> length xs"
        using lt by (cases "drop (Suc i) xs") auto
      then show ?thesis
        using arr lt c(1) a(1) go av st' d False by auto
    qed
  qed
qed simp

section \<open>Properties\<close>


definition demo_env :: "call_result \<Rightarrow> unit callback_env" where
  "demo_env res = \<lparr>ce_ops = demo_ops, ce_call_sv = (\<lambda>cv st. (res, st)), ce_require = (\<lambda>_ s. (True, s)),
     ce_set_defstash = (\<lambda>_ p. p), ce_threaded = False, ce_own_parent = (\<lambda>_. False), ce_enabled = (\<lambda>_. True),
     ce_scope_connection = (\<lambda>_. False)\<rparr>"

definition demo_phase :: phase where
  "demo_phase = \<lparr>ph_type = PER_DIR, ph_idx = 3, ph_dcfg = Some 0, ph_scfg = 0, ph_rcfg = Some 7, ph_r = Some 7, ph_r_conn = Some 4\<rparr>"

definition demo_resolved :: handler where
  "demo_resolved = hflag_on MpHandlerPARSED_f ((modperl_handler_new ''My::handler'')
     \<lparr>mgv_cv := Some [mgv_node (\<lambda>_. 1) ''My::'', mgv_node (\<lambda>_. 1) ''handler'']\<rparr>)"

definition demo_cstate :: "unit cstate" where
  "demo_cstate = \<lparr>hs = demo_hstate\<lparr>hobjs := [0 \<mapsto> demo_resolved], arrays := [0 \<mapsto> [0, 0]]\<rparr>, cleanup_registered = (\<lambda>_. False),
     env_srv_done = (\<lambda>_. False), env_dir_done = (\<lambda>_. False), events = [], error_notes = []\<rparr>"

lemma demo_quiet:
  "quiet_phase (demo_env (Status n)) demo_phase 0 [0, 0] (\<lambda>_. n) (\<lambda>st. hs st = hs demo_cstate)"
proof -
  have arr: "phase_array demo_phase st = Inr (Some 0) \<and> arrays (hs st) 0 = Some [0, 0]" if "hs st = hs demo_cstate" for st :: "unit cstate"
    using that by (simp add: phase_array_def demo_phase_def modperl_handler_lookup_handlers_def lookup_slots_def
        lookup_action_def demo_cstate_def demo_hstate_def)
  have parsed: "hflag MpHandlerPARSED_f demo_resolved" "\<not> hflag MpHandlerANON_f demo_resolved" "\<not> hflag MpHandlerMETHOD_f demo_resolved"
    by (auto simp: demo_resolved_def modperl_handler_new_def new_handler_obj_def hflag_def hflag_on_def handler_flags)
  have look: "modperl_mgv_lookup_autoload (p_hash demo_ops) rq False [mgv_node (\<lambda>_. 1) ''My::'', mgv_node (\<lambda>_. 1) ''handler'']
      (p_defstash demo_ops ()) = Inr (FoundGv 2, p_defstash demo_ops ())" for rq
    by (simp add: modperl_mgv_lookup_autoload_def modperl_mgv_lookup_def mgv_node_def demo_ops_def modperl_perl_hv_fetch_he_def)
  have "\<exists>st'. modperl_callback (demo_env (Status n)) 0 (Some 7) 0 st = Inr (n, st') \<and> hs st' = hs demo_cstate \<and> errsv (hs st') = NoErr"
    if st: "hs st = hs demo_cstate" for st :: "unit cstate"
  proof -
    have h: "hobjs (hs st) 0 = Some demo_resolved" "errsv (hs st) = NoErr" "perlst (hs st) = ()"
      using st by (simp_all add: demo_cstate_def demo_hstate_def)
    have cv: "mgv_cv demo_resolved = Some [mgv_node (\<lambda>_. 1) ''My::'', mgv_node (\<lambda>_. 1) ''handler'']"
      by (simp add: demo_resolved_def)
    have "modperl_handler_resolve demo_ops False True 0 (hs st) = Inr (0, OK, hs st)"
      using h parsed by (simp add: modperl_handler_resolve_def get_handler_def)
    moreover have "callback_cv (demo_env (Status n)) demo_resolved 0 (st\<lparr>hs := hs st\<rparr>) = Inr (Some 2, st)"
      using parsed cv look h(3) by (simp add: callback_cv_def demo_env_def Let_def)
    ultimately show ?thesis
      using h parsed st
      by (auto simp: modperl_callback_def demo_env_def get_handler_def Let_def log_event_def errsv_true_def)
  qed
  then show ?thesis using arr by (auto simp: quiet_phase_def demo_phase_def)
qed


text \<open>
  With \<open>PerlOptions -Enable\<close>, or when no handler is configured for the phase, the phase is declined and nothing is done: no
  interpreter is selected, no environment is set up.
\<close>

theorem callback_declines:
  assumes "\<not> ce_enabled env (ph_scfg ph) \<or> phase_array ph st = Inr None"
  shows "modperl_callback_run_handlers env mode ph c putback fuel st = Inr (DECLINED, st)"
  using assms by (auto simp: modperl_callback_run_handlers_def)

theorem callback_declines_witness:
  "modperl_callback_run_handlers (demo_env UndefValue) HOOK_VOID (demo_phase\<lparr>ph_idx := 4\<rparr>) None False 3 demo_cstate
     = Inr (DECLINED, demo_cstate)"
  by (rule callback_declines)
     (simp add: phase_array_def demo_phase_def modperl_handler_lookup_handlers_def lookup_slots_def lookup_action_def
        demo_cstate_def demo_hstate_def)

end
