(* ===== verification/Options.thy ===== *)
theory Options
  imports Prelude
begin

text \<open>
  \<open>PerlOptions\<close>: \<^verbatim>\<open>src/src/modules/perl/modperl_options.c\<close>.

  A set of options is a 32-bit mask together with the masks of the options switched on and off explicitly. The
  values of the flags and the functions that look a flag up by name are generated at build time; they are the
  parameter \<open>flag_tables\<close>.
\<close>

unbundle bit_operations_syntax

section \<open>Data\<close>

type_synonym modperl_opts_t = "32 word"

record modperl_options =
  opts :: modperl_opts_t
  opts_add :: modperl_opts_t
  opts_remove :: modperl_opts_t
  opts_override :: modperl_opts_t
  opts_seen :: modperl_opts_t
  unset :: modperl_opts_t

datatype options_type = MpSrvType | MpDirType

record flag_tables =
  MpSrv_f_UNSET :: modperl_opts_t
  MpDir_f_UNSET :: modperl_opts_t
  modperl_flags_lookup_srv :: "string \<Rightarrow> modperl_opts_t"
  modperl_flags_lookup_dir :: "string \<Rightarrow> modperl_opts_t"
  MpSrvOPT_ITHREAD_ONLY :: "modperl_opts_t \<Rightarrow> bool"
  use_ithreads :: bool

section \<open>Operations\<close>

text \<open>The \<open>unset\<close> field tells the kind of a set of options; \<open>-1\<close> is the answer for a name that is not an option.\<close>

definition flags_lookup :: "flag_tables \<Rightarrow> modperl_opts_t \<Rightarrow> string \<Rightarrow> modperl_opts_t" where
  "flags_lookup t ty str =
     (if ty = MpSrv_f_UNSET t then modperl_flags_lookup_srv t str
      else if ty = MpDir_f_UNSET t then modperl_flags_lookup_dir t str
      else 0)"

definition type_lookup :: "flag_tables \<Rightarrow> modperl_opts_t \<Rightarrow> string" where
  "type_lookup t ty =
     (if ty = MpSrv_f_UNSET t then ''server''
      else if ty = MpDir_f_UNSET t then ''directory''
      else ''unknown'')"

definition modperl_options_new :: "flag_tables \<Rightarrow> options_type \<Rightarrow> modperl_options" where
  "modperl_options_new t type =
     (let u = (if type = MpSrvType then MpSrv_f_UNSET t else MpDir_f_UNSET t)
      in \<lparr>opts = u, opts_add = 0, opts_remove = 0, opts_override = 0, opts_seen = 0, unset = u\<rparr>)"

datatype option_action = Minus | Plus | Bare

definition option_parse :: "string \<Rightarrow> option_action \<times> string" where
  "option_parse str =
     (if str \<noteq> [] \<and> hd str = CHR ''+'' then (Plus, tl str)
      else if str \<noteq> [] \<and> hd str = CHR ''-'' then (Minus, tl str)
      else (Bare, str))"

definition option_apply :: "option_action \<Rightarrow> modperl_opts_t \<Rightarrow> modperl_options \<Rightarrow> modperl_options" where
  "option_apply action opt o0 =
     (let o1 = o0\<lparr>opts_seen := opts_seen o0 OR opt\<rparr> in
      case action of
        Minus \<Rightarrow> o1\<lparr>opts_remove := opts_remove o1 OR opt, opts_add := opts_add o1 AND NOT opt,
                    opts := opts o1 AND NOT opt\<rparr>
      | Plus \<Rightarrow> o1\<lparr>opts_add := opts_add o1 OR opt, opts_remove := opts_remove o1 AND NOT opt,
                   opts := opts o1 OR opt\<rparr>
      | Bare \<Rightarrow> o1\<lparr>opts := opts o1 OR opt\<rparr>)"

text \<open>The error message, \<open>None\<close> for success, and the new options.\<close>

definition modperl_options_set ::
    "flag_tables \<Rightarrow> string \<Rightarrow> modperl_options \<Rightarrow> string option \<times> modperl_options" where
  "modperl_options_set t str0 o0 =
     (let (action, str) = option_parse str0; opt = flags_lookup t (unset o0) str in
      if opt = -1
      then let error = ''Invalid per-'' @ type_lookup t (unset o0) @ '' PerlOption: '' @ str in
           if unset o0 = MpDir_f_UNSET t \<and> flags_lookup t (MpSrv_f_UNSET t) str = -1
           then (Some (error @ '' (only allowed per-server)''), o0)
           else (Some error, o0)
      else if \<not> use_ithreads t \<and> unset o0 = MpSrv_f_UNSET t \<and> MpSrvOPT_ITHREAD_ONLY t opt
      then (Some (''PerlOption `'' @ str @ '''' @ [CHR 0x27] @ '' requires an ithreads enabled Perl''), o0)
      else (None, option_apply action opt o0))"

definition modperl_options_merge :: "modperl_options \<Rightarrow> modperl_options \<Rightarrow> modperl_options" where
  "modperl_options_merge base add =
     (let conf1 =
        (if opts add AND unset add \<noteq> 0
         then let a = (opts_add base AND NOT (opts_remove add)) OR opts_add add;
                  r = (opts_remove base AND NOT (opts_add add)) OR opts_remove add
              in base\<lparr>opts_add := a, opts_remove := r, opts := (opts base AND NOT r) OR a\<rparr>
         else base\<lparr>opts := opts add, opts_add := opts_add add, opts_remove := opts_remove add\<rparr>)
      in conf1\<lparr>opts_seen := opts_seen conf1 OR opts_seen add\<rparr>)"

section \<open>Sequences of directives\<close>

text \<open>A block of \<open>PerlOptions\<close> directives is applied in order; the first error ends the reading of the
  configuration.\<close>

fun options_run :: "flag_tables \<Rightarrow> string list \<Rightarrow> modperl_options \<Rightarrow> string option \<times> modperl_options" where
  "options_run t [] o0 = (None, o0)"
| "options_run t (d # ds) o0 =
     (case modperl_options_set t d o0 of (None, o1) \<Rightarrow> options_run t ds o1 | (Some e, o1) \<Rightarrow> (Some e, o1))"

text \<open>What a block says about one bit: the sign of the last signed directive for it.\<close>

fun last_sign :: "flag_tables \<Rightarrow> modperl_opts_t \<Rightarrow> nat \<Rightarrow> string list \<Rightarrow> bool option" where
  "last_sign t ty i [] = None"
| "last_sign t ty i (d # ds) =
     (case last_sign t ty i ds of
        Some b \<Rightarrow> Some b
      | None \<Rightarrow> (case option_parse d of (action, str) \<Rightarrow>
          if action \<noteq> Bare \<and> bit (flags_lookup t ty str) i then Some (action = Plus) else None))"

definition options_inv :: "modperl_options \<Rightarrow> bool" where
  "options_inv o0 \<longleftrightarrow> opts_add o0 AND opts_remove o0 = 0"

text \<open>What the masks say agrees with the options in force.\<close>

definition options_agree :: "modperl_options \<Rightarrow> bool" where
  "options_agree o0 \<longleftrightarrow> opts_add o0 AND opts o0 = opts_add o0 \<and> opts_remove o0 AND opts o0 = 0"

definition signed_block :: "flag_tables \<Rightarrow> modperl_opts_t \<Rightarrow> string list \<Rightarrow> bool" where
  "signed_block t ty ds \<longleftrightarrow>
     (\<forall>d\<in>set ds. fst (option_parse d) \<noteq> Bare \<and> flags_lookup t ty (snd (option_parse d)) AND ty = 0)"

subsection \<open>Masks bit by bit\<close>

lemma bit_lt32: "bit (a :: modperl_opts_t) i \<Longrightarrow> i < 32"
  using bit_imp_le_length [of a i] by simp

lemma opts_eq_iff: "(a :: modperl_opts_t) = b \<longleftrightarrow> (\<forall>i. bit a i \<longleftrightarrow> bit b i)"
  by (auto intro: bit_eqI)

lemma word_and_zero_iff: "(a :: modperl_opts_t) AND b = 0 \<longleftrightarrow> (\<forall>i. \<not> (bit a i \<and> bit b i))"
  by (simp add: opts_eq_iff bit_and_iff)

lemma word_and_subset_iff: "(a :: modperl_opts_t) AND b = a \<longleftrightarrow> (\<forall>i. bit a i \<longrightarrow> bit b i)"
  by (auto simp add: opts_eq_iff bit_and_iff)

lemma options_inv_bits: "options_inv x \<longleftrightarrow> (\<forall>i. \<not> (bit (opts_add x) i \<and> bit (opts_remove x) i))"
  by (simp add: options_inv_def word_and_zero_iff)

lemma options_agree_bits:
  "options_agree x \<longleftrightarrow> (\<forall>i. (bit (opts_add x) i \<longrightarrow> bit (opts x) i) \<and> (bit (opts_remove x) i \<longrightarrow> \<not> bit (opts x) i))"
  by (auto simp: options_agree_def word_and_zero_iff word_and_subset_iff)

lemma bit_not32: "bit (NOT (a :: modperl_opts_t)) i \<longleftrightarrow> i < 32 \<and> \<not> bit a i"
  by (simp add: bit_not_iff)

lemma bits_apply:
  "bit (opts_add (option_apply action opt x)) i \<longleftrightarrow>
     (if action \<noteq> Bare \<and> bit opt i then action = Plus else bit (opts_add x) i)"
  "bit (opts_remove (option_apply action opt x)) i \<longleftrightarrow>
     (if action \<noteq> Bare \<and> bit opt i then action = Minus else bit (opts_remove x) i)"
  "bit (opts (option_apply action opt x)) i \<longleftrightarrow> (if bit opt i then action \<noteq> Minus else bit (opts x) i)"
  by (cases action; auto simp: option_apply_def Let_def bit_and_iff bit_or_iff bit_not32 dest: bit_lt32)+

lemma unset_apply [simp]: "unset (option_apply action opt x) = unset x"
  by (cases action) (simp_all add: option_apply_def Let_def)

lemma bits_merge:
  assumes "opts add AND unset add \<noteq> 0"
  shows "bit (opts_add (modperl_options_merge base add)) i \<longleftrightarrow>
           bit (opts_add add) i \<or> bit (opts_add base) i \<and> \<not> bit (opts_remove add) i"
    "bit (opts_remove (modperl_options_merge base add)) i \<longleftrightarrow>
       bit (opts_remove add) i \<or> bit (opts_remove base) i \<and> \<not> bit (opts_add add) i"
    "bit (opts (modperl_options_merge base add)) i \<longleftrightarrow>
       bit (opts_add (modperl_options_merge base add)) i \<or>
       bit (opts base) i \<and> \<not> bit (opts_remove (modperl_options_merge base add)) i"
  using assms by (auto simp: modperl_options_merge_def Let_def bit_and_iff bit_or_iff bit_not32 dest: bit_lt32)

lemma merge_explicit:
  assumes "opts add AND unset add = 0"
  shows "opts (modperl_options_merge base add) = opts add"
    "opts_add (modperl_options_merge base add) = opts_add add"
    "opts_remove (modperl_options_merge base add) = opts_remove add"
  using assms by (simp_all add: modperl_options_merge_def)

lemma merge_other [simp]:
  "unset (modperl_options_merge base add) = unset base"
  "opts_override (modperl_options_merge base add) = opts_override base"
  "opts_seen (modperl_options_merge base add) = opts_seen base OR opts_seen add"
  by (simp_all add: modperl_options_merge_def Let_def)

lemma set_cases:
  assumes "modperl_options_set t d x = (e, x')"
  obtains (error) err where "e = Some err" "x' = x"
  | (ok) action str where "e = None" "option_parse d = (action, str)" "flags_lookup t (unset x) str \<noteq> -1"
      "x' = option_apply action (flags_lookup t (unset x) str) x"
  using assms by (auto simp: modperl_options_set_def Let_def split: prod.splits if_splits)

lemma new_options [simp]:
  "opts_add (modperl_options_new t type) = 0" "opts_remove (modperl_options_new t type) = 0"
  "opts (modperl_options_new t type) = unset (modperl_options_new t type)"
  "unset (modperl_options_new t MpSrvType) = MpSrv_f_UNSET t"
  "unset (modperl_options_new t MpDirType) = MpDir_f_UNSET t"
  by (simp_all add: modperl_options_new_def Let_def)

section \<open>The invariant of the masks\<close>

text \<open>The options a configuration can hold: built by \<open>modperl_options_new\<close>, changed by directives, valid or
  not, and merged.\<close>

inductive options_reach :: "flag_tables \<Rightarrow> modperl_options \<Rightarrow> bool" for t where
  reach_new: "options_reach t (modperl_options_new t type)"
| reach_set: "options_reach t x \<Longrightarrow> options_reach t (snd (modperl_options_set t d x))"
| reach_merge: "options_reach t x \<Longrightarrow> options_reach t y \<Longrightarrow> options_reach t (modperl_options_merge x y)"

lemma inv_apply: "options_inv x \<Longrightarrow> options_inv (option_apply action opt x)"
  by (auto simp: options_inv_bits bits_apply)

lemma inv_set: "options_inv x \<Longrightarrow> options_inv (snd (modperl_options_set t d x))"
  by (cases "modperl_options_set t d x") (auto elim!: set_cases intro: inv_apply)

lemma inv_merge:
  assumes "options_inv base" "options_inv add"
  shows "options_inv (modperl_options_merge base add)"
  using assms by (cases "opts add AND unset add = 0") (auto simp: options_inv_bits bits_merge merge_explicit)

lemma inv_new: "options_inv (modperl_options_new t type)"
  by (simp add: options_inv_def)

lemmas options_inv_rules = inv_new inv_set inv_merge

text \<open>whatever directives were read and however configurations were merged, no option is recorded
  both as switched on and as switched off: \<open>opts_add & opts_remove == 0\<close>, the invariant the comment in
  \<open>modperl_options_merge\<close> names.\<close>

theorem options_masks_disjoint:
  assumes "options_reach t x"
  shows "opts_add x AND opts_remove x = 0"
proof -
  have "options_inv x" using assms
    by induction (auto intro: options_inv_rules)
  then show ?thesis by (simp add: options_inv_def)
qed

text \<open>The per-directory flags of \<^verbatim>\<open>lib/ModPerl/Code.pm\<close> and some of the per-server ones.\<close>

definition code_tables :: flag_tables where
  "code_tables = \<lparr>MpSrv_f_UNSET = 0x4000000, MpDir_f_UNSET = 0x10,
     modperl_flags_lookup_srv = (\<lambda>s. if s = ''None'' then 0 else if s = ''Clone'' then 1 else if s = ''Parent'' then 2
       else if s = ''Enable'' then 4 else if s = ''Autoload'' then 8 else if s = ''MergeHandlers'' then 0x10
       else if s = ''Unset'' then 0x4000000 else if s = ''InheritSwitches'' then 0x8000000 else -1),
     modperl_flags_lookup_dir = (\<lambda>s. if s = ''None'' then 0 else if s = ''ParseHeaders'' then 1
       else if s = ''SetupEnv'' then 2 else if s = ''MergeHandlers'' then 4 else if s = ''GlobalRequest'' then 8
       else if s = ''Unset'' then 0x10 else -1),
     MpSrvOPT_ITHREAD_ONLY = (\<lambda>w. w = 1 \<or> w = 2), use_ithreads = True\<rparr>"

lemmas options_eval = code_tables_def modperl_options_set_def modperl_options_new_def option_parse_def option_apply_def
  flags_lookup_def modperl_options_merge_def Let_def

theorem options_masks_disjoint_witness:
  "let x = snd (modperl_options_set code_tables ''-SetupEnv''
             (snd (modperl_options_set code_tables ''+SetupEnv'' (modperl_options_new code_tables MpDirType))))
   in opts_remove x = 2 \<and> opts_add x AND opts_remove x = 0"
proof -
  let ?x = "snd (modperl_options_set code_tables ''-SetupEnv''
             (snd (modperl_options_set code_tables ''+SetupEnv'' (modperl_options_new code_tables MpDirType))))"
  have "options_reach code_tables ?x" by (intro options_reach.intros)
  from options_masks_disjoint [OF this] show ?thesis by (simp add: options_eval)
qed

section \<open>Merging configurations\<close>

lemma run_signed:
  assumes "options_run t ds x = (None, y)" "signed_block t (unset x) ds"
  shows "unset y = unset x"
    "bit (opts_add y) i \<longleftrightarrow> (case last_sign t (unset x) i ds of Some b \<Rightarrow> b | None \<Rightarrow> bit (opts_add x) i)"
    "bit (opts_remove y) i \<longleftrightarrow> (case last_sign t (unset x) i ds of Some b \<Rightarrow> \<not> b | None \<Rightarrow> bit (opts_remove x) i)"
    "bit (opts y) i \<longleftrightarrow> (case last_sign t (unset x) i ds of Some b \<Rightarrow> b | None \<Rightarrow> bit (opts x) i)"
proof -
  have "unset y = unset x \<and>
    (bit (opts_add y) i \<longleftrightarrow> (case last_sign t (unset x) i ds of Some b \<Rightarrow> b | None \<Rightarrow> bit (opts_add x) i)) \<and>
    (bit (opts_remove y) i \<longleftrightarrow> (case last_sign t (unset x) i ds of Some b \<Rightarrow> \<not> b | None \<Rightarrow> bit (opts_remove x) i)) \<and>
    (bit (opts y) i \<longleftrightarrow> (case last_sign t (unset x) i ds of Some b \<Rightarrow> b | None \<Rightarrow> bit (opts x) i))"
    using assms
  proof (induction ds arbitrary: x)
    case (Cons d ds)
    obtain e x' where set: "modperl_options_set t d x = (e, x')" by force
    with Cons.prems(1) have none: "e = None" "options_run t ds x' = (None, y)" by (auto split: option.splits)
    from set none obtain action str where p: "option_parse d = (action, str)"
      "x' = option_apply action (flags_lookup t (unset x) str) x" by (auto elim: set_cases)
    with Cons.prems(2) have "action \<noteq> Bare" "signed_block t (unset x') ds" by (auto simp: signed_block_def)
    with Cons.IH [OF none(2)] p show ?case
      by (cases action; simp split: option.splits; simp add: bits_apply)
  qed auto
  then show "unset y = unset x"
    "bit (opts_add y) i \<longleftrightarrow> (case last_sign t (unset x) i ds of Some b \<Rightarrow> b | None \<Rightarrow> bit (opts_add x) i)"
    "bit (opts_remove y) i \<longleftrightarrow> (case last_sign t (unset x) i ds of Some b \<Rightarrow> \<not> b | None \<Rightarrow> bit (opts_remove x) i)"
    "bit (opts y) i \<longleftrightarrow> (case last_sign t (unset x) i ds of Some b \<Rightarrow> b | None \<Rightarrow> bit (opts x) i)"
    by simp_all
qed

lemma last_sign_unset:
  assumes "signed_block t ty ds" "bit ty i"
  shows "last_sign t ty i ds = None"
  using assms(1)
proof (induction ds)
  case (Cons d ds)
  then have "flags_lookup t ty (snd (option_parse d)) AND ty = 0" by (simp add: signed_block_def)
  with assms(2) have "\<not> bit (flags_lookup t ty (snd (option_parse d))) i" by (auto simp: word_and_zero_iff)
  moreover have "last_sign t ty i ds = None" using Cons by (simp add: signed_block_def)
  ultimately show ?case by (auto split: prod.splits)
qed simp

lemma run_keeps_unset:
  assumes "options_run t ds x = (None, y)" "signed_block t (unset x) ds" "opts x AND unset x \<noteq> 0"
  shows "opts y AND unset y \<noteq> 0"
proof -
  obtain i where i: "bit (opts x) i" "bit (unset x) i" using assms(3) by (auto simp: word_and_zero_iff)
  then have "bit (opts y) i \<and> bit (unset y) i"
    using run_signed [OF assms(1,2)] last_sign_unset [OF assms(2) i(2)] by simp
  then show ?thesis by (auto simp: word_and_zero_iff)
qed

lemma agree_inv: "options_agree x \<Longrightarrow> options_inv x"
  by (auto simp: options_agree_bits options_inv_bits)

lemma agree_merge:
  assumes "options_agree base" "options_inv add" "opts add AND unset add \<noteq> 0"
  shows "options_agree (modperl_options_merge base add)"
  using assms by (auto simp: options_agree_bits options_inv_bits bits_merge)

text \<open>C32: a block of \<open>PerlOptions\<close> directives with signs, merged into an enclosing configuration.
  An option the block mentions is in force exactly when its last mention has a plus; every other option is
  inherited. The result again agrees with its masks, so the rule applies at every level of nesting.\<close>

theorem options_merge_block:
  assumes "options_run t ds (modperl_options_new t type) = (None, add)"
    and "signed_block t ty ds" "ty = unset (modperl_options_new t type)" "ty \<noteq> 0"
    and "options_agree base"
  shows "(bit (opts (modperl_options_merge base add)) i \<longleftrightarrow>
            (case last_sign t ty i ds of Some b \<Rightarrow> b | None \<Rightarrow> bit (opts base) i)) \<and>
         options_agree (modperl_options_merge base add)"
proof
  note signed = assms(2) [unfolded assms(3)]
  note bits = run_signed [OF assms(1) signed, folded assms(3)]
  have u: "opts add AND unset add \<noteq> 0"
    using run_keeps_unset [OF assms(1) signed] assms(3,4) by simp
  show "bit (opts (modperl_options_merge base add)) i \<longleftrightarrow>
           (case last_sign t ty i ds of Some b \<Rightarrow> b | None \<Rightarrow> bit (opts base) i)"
    using assms(5) by (auto simp: bits_merge [OF u] bits options_agree_bits split: option.splits)
  have "options_inv add" by (auto simp: options_inv_bits bits split: option.splits)
  then show "options_agree (modperl_options_merge base add)" by (rule agree_merge [OF assms(5) _ u])
qed

text \<open>A directory with \<open>PerlOptions -SetupEnv +GlobalRequest\<close> inside one with \<open>+SetupEnv\<close>.\<close>

theorem options_merge_block_witness:
  "let base = snd (modperl_options_set code_tables ''+SetupEnv'' (modperl_options_new code_tables MpDirType));
       add = snd (options_run code_tables [''-SetupEnv'', ''+GlobalRequest''] (modperl_options_new code_tables MpDirType));
       m = modperl_options_merge base add
   in \<not> bit (opts m) 1 \<and> bit (opts m) 3 \<and> \<not> bit (opts m) 2"
proof -
  let ?base = "snd (modperl_options_set code_tables ''+SetupEnv'' (modperl_options_new code_tables MpDirType))"
  let ?run = "options_run code_tables [''-SetupEnv'', ''+GlobalRequest''] (modperl_options_new code_tables MpDirType)"
  have run: "?run = (None, snd ?run)" by (simp add: options_eval)
  have signed: "signed_block code_tables 0x10 [''-SetupEnv'', ''+GlobalRequest'']"
    by (simp add: signed_block_def options_eval)
  have ty: "0x10 = unset (modperl_options_new code_tables MpDirType)" by (simp add: code_tables_def)
  have base: "options_agree ?base" by (simp add: options_agree_def options_eval)
  note m = options_merge_block [OF run signed ty _ base]
  have "last_sign code_tables 0x10 1 [''-SetupEnv'', ''+GlobalRequest''] = Some False"
    "last_sign code_tables 0x10 3 [''-SetupEnv'', ''+GlobalRequest''] = Some True"
    "last_sign code_tables 0x10 2 [''-SetupEnv'', ''+GlobalRequest''] = None"
    by (simp_all add: options_eval bit_simps)
  moreover have "\<not> bit (opts ?base) 2" by (simp add: options_eval bit_simps)
  ultimately show ?thesis using m [of 1] m [of 2] m [of 3] by simp
qed

text \<open>Merging is associative as long as the inner configurations contain signed directives only
  (their \<open>UNSET\<close> mark is on and stays on), so the result for a path does not depend on how the server groups the
  sections that apply to it.\<close>

theorem options_merge_assoc:
  assumes "opts b AND unset b \<noteq> 0" "opts c AND unset c \<noteq> 0"
    and "opts_remove b AND unset b = 0" "opts_remove c AND unset b = 0"
    and "options_inv b" "options_inv c"
  shows "modperl_options_merge (modperl_options_merge a b) c = modperl_options_merge a (modperl_options_merge b c)"
    (is "?l = ?r")
proof (rule modperl_options.equality)
  obtain i where i: "bit (opts b) i" "bit (unset b) i" using assms(1) by (auto simp: word_and_zero_iff)
  then have "bit (opts (modperl_options_merge b c)) i"
    using assms(3,4) by (auto simp: bits_merge [OF assms(2)] word_and_zero_iff)
  with i have bc: "opts (modperl_options_merge b c) AND unset (modperl_options_merge b c) \<noteq> 0"
    by (auto simp: word_and_zero_iff)
  note bits = bits_merge [OF assms(1)] bits_merge [OF assms(2)] bits_merge [OF bc]
  note inv = assms(5,6) [unfolded options_inv_bits]
  show "opts ?l = opts ?r" "opts_add ?l = opts_add ?r" "opts_remove ?l = opts_remove ?r"
    using inv by (auto simp: opts_eq_iff bits)
qed (simp_all add: or.assoc)

theorem options_merge_assoc_witness:
  "let set = (\<lambda>d. snd (modperl_options_set code_tables d (modperl_options_new code_tables MpDirType)));
       a = set ''+SetupEnv''; b = set ''-SetupEnv''; c = set ''+SetupEnv''
   in modperl_options_merge (modperl_options_merge a b) c = modperl_options_merge a (modperl_options_merge b c)"
  unfolding Let_def
  by (rule options_merge_assoc) (simp_all add: options_eval options_inv_def)

text \<open>An option given without a sign switches the option on where it stands, but leaves the \<open>UNSET\<close>
  mark, and merging into an enclosing configuration drops it: the merged options are those of the enclosing
  configuration.\<close>

theorem options_bare_lost:
  assumes "option_parse d = (Bare, str)" "ty = unset (modperl_options_new t type)" "ty \<noteq> 0"
    and "modperl_options_set t d (modperl_options_new t type) = (None, add)" "options_agree base"
  shows "(\<forall>i. bit (flags_lookup t ty str) i \<longrightarrow> bit (opts add) i) \<and>
         opts (modperl_options_merge base add) = opts base"
proof -
  have add: "add = option_apply Bare (flags_lookup t ty str) (modperl_options_new t type)"
    using assms(4,1,2) by (auto elim: set_cases)
  have "opts add AND unset add \<noteq> 0"
    using assms(2,3) by (auto simp: add opts_eq_iff bit_and_iff bits_apply)
  note bits = bits_merge [OF this]
  have "opts_add add = 0" "opts_remove add = 0" by (auto simp: add opts_eq_iff bits_apply)
  then have "opts (modperl_options_merge base add) = opts base"
    using assms(5) by (auto simp: opts_eq_iff bits options_agree_bits)
  then show ?thesis by (auto simp: add bits_apply)
qed

theorem options_bare_lost_witness:
  "let base = modperl_options_new code_tables MpDirType;
       add = snd (modperl_options_set code_tables ''SetupEnv'' base)
   in opts add = 0x12 \<and> opts (modperl_options_merge base add) = 0x10"
proof -
  let ?base = "modperl_options_new code_tables MpDirType"
  have "modperl_options_set code_tables ''SetupEnv'' ?base = (None, snd (modperl_options_set code_tables ''SetupEnv'' ?base))"
    by (simp add: options_eval)
  note * = options_bare_lost [OF _ refl _ this, of "''SetupEnv''" ?base]
  have "opts (modperl_options_merge ?base (snd (modperl_options_set code_tables ''SetupEnv'' ?base))) = opts ?base"
    by (rule conjunct2 [OF *]) (simp_all add: option_parse_def code_tables_def options_agree_def)
  then show ?thesis by (simp add: options_eval)
qed

text \<open>The hint \<open>(only allowed per-server)\<close> in a per-directory error message. The code gives it for the
  names that are no option at all, and not for the names that are per-server options.\<close>

theorem options_only_per_server_hint:
  assumes "unset x = MpDir_f_UNSET t" "MpDir_f_UNSET t \<noteq> MpSrv_f_UNSET t"
    and "option_parse d = (action, str)" "modperl_flags_lookup_dir t str = -1"
  shows "fst (modperl_options_set t d x) = Some (''Invalid per-directory PerlOption: '' @ str @
           (if modperl_flags_lookup_srv t str = -1 then '' (only allowed per-server)'' else []))"
  using assms by (simp add: modperl_options_set_def flags_lookup_def type_lookup_def)

theorem options_only_per_server_hint_witness:
  "fst (modperl_options_set code_tables ''+Parent'' (modperl_options_new code_tables MpDirType)) =
     Some ''Invalid per-directory PerlOption: Parent'' \<and>
   fst (modperl_options_set code_tables ''+Bogus'' (modperl_options_new code_tables MpDirType)) =
     Some ''Invalid per-directory PerlOption: Bogus (only allowed per-server)''"
  using options_only_per_server_hint [of "modperl_options_new code_tables MpDirType" code_tables "''+Parent''" Plus "''Parent''"]
    options_only_per_server_hint [of "modperl_options_new code_tables MpDirType" code_tables "''+Bogus''" Plus "''Bogus''"]
  by (simp add: code_tables_def option_parse_def)

end
