(* ===== verification/Apr_Table.thy ===== *)
theory Apr_Table
  imports Prelude
begin

text \<open>
  The tables of the Apache Portable Runtime, which hold the \<open>PerlSetVar\<close>, \<open>PerlAddVar\<close>, \<open>PerlSetEnv\<close> and
  \<open>PerlPassEnv\<close> entries. APR is a library: its operations are the fields of \<open>apr_table_ops\<close>, over any
  representation \<open>'t\<close> of tables. What mod\_perl relies on is \<open>apr_table_laws\<close>: the documented effect of each operation on the list of
  the values of a key. Keys are compared without regard to case. An entry of a table always has a key and a value, so
  the tests of mod\_perl for null keys and values always succeed.
\<close>

section \<open>Operations and their laws\<close>

record 't apr_table_ops =
  apr_table_make :: 't
  apr_table_elts :: "'t \<Rightarrow> (string \<times> string) list"
  apr_table_copy :: "'t \<Rightarrow> 't"
  apr_table_setn :: "string \<Rightarrow> string \<Rightarrow> 't \<Rightarrow> 't"
  apr_table_addn :: "string \<Rightarrow> string \<Rightarrow> 't \<Rightarrow> 't"
  apr_table_unset :: "string \<Rightarrow> 't \<Rightarrow> 't"
  apr_table_overlay :: "'t \<Rightarrow> 't \<Rightarrow> 't"
  apr_table_compress_set :: "'t \<Rightarrow> 't"
  apr_table_overlap_set :: "'t \<Rightarrow> 't \<Rightarrow> 't"

definition ascii_lower :: "char \<Rightarrow> char" where
  "ascii_lower c = (if of_char c \<ge> (65 :: nat) \<and> of_char c \<le> (90 :: nat) then char_of (of_char c + (32 :: nat)) else c)"

definition strcase_eq :: "string \<Rightarrow> string \<Rightarrow> bool" where
  "strcase_eq a b \<longleftrightarrow> map ascii_lower a = map ascii_lower b"

definition key_vals :: "string \<Rightarrow> (string \<times> string) list \<Rightarrow> string list" where
  "key_vals k es = map snd (filter (\<lambda>e. strcase_eq k (fst e)) es)"

definition tvals :: "'t apr_table_ops \<Rightarrow> string \<Rightarrow> 't \<Rightarrow> string list" where
  "tvals T k t = key_vals k (apr_table_elts T t)"

text \<open>The keys as they are spelled in the table.\<close>

definition tkeys :: "'t apr_table_ops \<Rightarrow> 't \<Rightarrow> string set" where
  "tkeys T t = fst ` set (apr_table_elts T t)"

definition apr_is_empty_table :: "'t apr_table_ops \<Rightarrow> 't \<Rightarrow> bool" where
  "apr_is_empty_table T t \<longleftrightarrow> apr_table_elts T t = []"

definition apr_table_get :: "'t apr_table_ops \<Rightarrow> 't \<Rightarrow> string \<Rightarrow> string option" where
  "apr_table_get T t k = (case tvals T k t of [] \<Rightarrow> None | v # _ \<Rightarrow> Some v)"

definition last_only :: "'a list \<Rightarrow> 'a list" where
  "last_only xs = (if xs = [] then [] else [last xs])"

definition apr_table_laws :: "'t apr_table_ops \<Rightarrow> bool" where
  "apr_table_laws T \<longleftrightarrow>
     apr_table_elts T (apr_table_make T) = [] \<and>
     (\<forall>t k. tvals T k (apr_table_copy T t) = tvals T k t) \<and>
     (\<forall>t k k' v. tvals T k (apr_table_setn T k' v t) = (if strcase_eq k k' then [v] else tvals T k t)) \<and>
     (\<forall>t k k' v. tvals T k (apr_table_addn T k' v t) = tvals T k t @ (if strcase_eq k k' then [v] else [])) \<and>
     (\<forall>t k k'. tvals T k (apr_table_unset T k' t) = (if strcase_eq k k' then [] else tvals T k t)) \<and>
     (\<forall>t u k. tvals T k (apr_table_overlay T t u) = tvals T k t @ tvals T k u) \<and>
     (\<forall>t k. tvals T k (apr_table_compress_set T t) = last_only (tvals T k t)) \<and>
     (\<forall>t u k. tvals T k (apr_table_overlap_set T t u) = last_only (tvals T k t @ tvals T k u)) \<and>
     (\<forall>t k v. tkeys T (apr_table_setn T k v t) \<subseteq> insert k (tkeys T t)) \<and>
     (\<forall>t k. tkeys T (apr_table_unset T k t) \<subseteq> tkeys T t) \<and>
     (\<forall>t. tkeys T (apr_table_copy T t) \<subseteq> tkeys T t) \<and>
     (\<forall>t u. tkeys T (apr_table_overlay T t u) \<subseteq> tkeys T t \<union> tkeys T u) \<and>
     (\<forall>t u. tkeys T (apr_table_overlap_set T t u) \<subseteq> tkeys T t \<union> tkeys T u)"

section \<open>Consequences\<close>

lemma strcase_eq_refl [simp]: "strcase_eq a a"
  by (simp add: strcase_eq_def)

lemma strcase_eq_commute: "strcase_eq a b \<longleftrightarrow> strcase_eq b a"
  by (auto simp: strcase_eq_def)

lemma strcase_eq_trans: "strcase_eq a b \<Longrightarrow> strcase_eq b c \<Longrightarrow> strcase_eq a c"
  by (simp add: strcase_eq_def)

lemma last_only_simps [simp]:
  "last_only [] = []" "last_only (xs @ [x]) = [x]" "last_only [x] = [x]" "last_only xs = [] \<longleftrightarrow> xs = []"
  by (auto simp: last_only_def)

lemma last_only_append: "last_only (xs @ ys) = (if ys = [] then last_only xs else last_only ys)"
  by (simp add: last_only_def)

lemma key_vals_Nil [simp]: "key_vals k [] = []"
  by (simp add: key_vals_def)

lemma key_vals_append [simp]: "key_vals k (es @ fs) = key_vals k es @ key_vals k fs"
  by (simp add: key_vals_def)

lemma key_vals_empty_iff: "key_vals k es = [] \<longleftrightarrow> (\<forall>e\<in>set es. \<not> strcase_eq k (fst e))"
  by (auto simp: key_vals_def filter_empty_conv)

lemma apr_table_lawsD:
  assumes "apr_table_laws T"
  shows "apr_table_elts T (apr_table_make T) = []"
    "tvals T k (apr_table_make T) = []"
    "tvals T k (apr_table_copy T t) = tvals T k t"
    "tvals T k (apr_table_setn T k' v t) = (if strcase_eq k k' then [v] else tvals T k t)"
    "tvals T k (apr_table_addn T k' v t) = tvals T k t @ (if strcase_eq k k' then [v] else [])"
    "tvals T k (apr_table_unset T k' t) = (if strcase_eq k k' then [] else tvals T k t)"
    "tvals T k (apr_table_overlay T t u) = tvals T k t @ tvals T k u"
    "tvals T k (apr_table_compress_set T t) = last_only (tvals T k t)"
    "tvals T k (apr_table_overlap_set T t u) = last_only (tvals T k t @ tvals T k u)"
  using assms by (simp_all add: apr_table_laws_def tvals_def key_vals_def)

lemma apr_table_keysD:
  assumes "apr_table_laws T"
  shows "tkeys T (apr_table_make T) = {}" "tkeys T (apr_table_setn T k v t) \<subseteq> insert k (tkeys T t)"
    "tkeys T (apr_table_unset T k t) \<subseteq> tkeys T t" "tkeys T (apr_table_copy T t) \<subseteq> tkeys T t"
    "tkeys T (apr_table_overlay T t u) \<subseteq> tkeys T t \<union> tkeys T u"
    "tkeys T (apr_table_overlap_set T t u) \<subseteq> tkeys T t \<union> tkeys T u"
  using assms by (simp_all add: apr_table_laws_def tkeys_def)

lemma tvals_keys: "tvals T k t \<noteq> [] \<longleftrightarrow> (\<exists>k'\<in>tkeys T t. strcase_eq k k')"
  by (auto simp: tvals_def tkeys_def key_vals_empty_iff)

section \<open>Tables as lists of entries\<close>

text \<open>An instance of the laws: a table is the list of its entries.\<close>

fun entries_compress :: "(string \<times> string) list \<Rightarrow> (string \<times> string) list" where
  "entries_compress [] = []"
| "entries_compress (e # es) = (if key_vals (fst e) es = [] then e # entries_compress es else entries_compress es)"

definition entries_unset :: "string \<Rightarrow> (string \<times> string) list \<Rightarrow> (string \<times> string) list" where
  "entries_unset k es = filter (\<lambda>e. \<not> strcase_eq k (fst e)) es"

definition list_tables :: "(string \<times> string) list apr_table_ops" where
  "list_tables = \<lparr>apr_table_make = [], apr_table_elts = (\<lambda>t. t), apr_table_copy = (\<lambda>t. t),
     apr_table_setn = (\<lambda>k v t. entries_unset k t @ [(k, v)]), apr_table_addn = (\<lambda>k v t. t @ [(k, v)]),
     apr_table_unset = entries_unset, apr_table_overlay = (@), apr_table_compress_set = entries_compress,
     apr_table_overlap_set = (\<lambda>t u. entries_compress (t @ u))\<rparr>"

lemma key_vals_cong: "strcase_eq k k' \<Longrightarrow> key_vals k es = key_vals k' es"
  by (simp add: key_vals_def strcase_eq_def)

lemma key_vals_unset: "key_vals k (entries_unset k' es) = (if strcase_eq k k' then [] else key_vals k es)"
proof (cases "strcase_eq k k'")
  case True
  then show ?thesis by (auto simp: key_vals_def entries_unset_def filter_empty_conv strcase_eq_def)
next
  case False
  then have "(\<lambda>e :: string \<times> string. \<not> strcase_eq k' (fst e) \<and> strcase_eq k (fst e)) = (\<lambda>e. strcase_eq k (fst e))"
    by (auto simp: strcase_eq_def)
  with False show ?thesis by (simp add: key_vals_def entries_unset_def conj_commute)
qed

lemma key_vals_Cons: "key_vals k (e # es) = (if strcase_eq k (fst e) then [snd e] else []) @ key_vals k es"
  by (simp add: key_vals_def)

lemma key_vals_compress: "key_vals k (entries_compress es) = last_only (key_vals k es)"
proof (induction es)
  case (Cons e es)
  have "strcase_eq k (fst e) \<Longrightarrow> key_vals (fst e) es = key_vals k es"
    by (rule key_vals_cong) (simp add: strcase_eq_commute)
  with Cons.IH show ?case by (auto simp: key_vals_Cons last_only_def)
qed (simp add: key_vals_def)

lemma set_compress: "set (entries_compress es) \<subseteq> set es"
  by (induction es) auto

lemma list_tables_laws: "apr_table_laws list_tables"
  unfolding apr_table_laws_def list_tables_def tvals_def tkeys_def apr_table_ops.simps
  by (auto simp: key_vals_unset key_vals_compress key_vals_Cons strcase_eq_commute)
    (force simp: entries_unset_def dest: subsetD [OF set_compress])+

end
