(* ===== verification/Config.thy ===== *)
theory Config
  imports Apr_Table Options Handler Interp
begin

text \<open>
  Per-server and per-directory configurations and their merging, \<^verbatim>\<open>src/src/modules/perl/modperl_config.c\<close>.

  Configurations are objects with addresses, because handler arrays live in slots named by the configuration
  (theory Handler) and because a merged configuration shares arrays with the configurations it was made from.
  The arrays of strings (\<open>PerlModule\<close>, \<open>PerlRequire\<close>, \<open>argv\<close>) are addresses in the store \<open>strs\<close>;
  tables are always fresh and are values. The build is the one with interpreter threads.
\<close>

unbundle bit_operations_syntax

section \<open>State\<close>

record 't dir_cfg =
  location :: "string option"
  d_SetEnv :: 't
  d_setvars :: 't
  d_configvars :: 't
  d_flags :: modperl_options
  d_interp_scope :: modperl_interp_scope_e

record 't srv_cfg =
  s_setvars :: 't
  s_configvars :: 't
  s_SetEnv :: 't
  s_PassEnv :: 't
  PerlRequire :: nat
  PerlModule :: nat
  PerlPostConfigRequire :: nat
  s_mip :: "nat option"
  s_pool_cfg :: "tipool_config option"
  s_interp_scope :: modperl_interp_scope_e
  argv :: nat
  s_flags :: modperl_options
  modules :: "nat option"
  server :: "nat option"

record ('t, 'p) cfg_state =
  chs :: "'p hstate"
  dirs :: "nat \<Rightarrow> 't dir_cfg option"
  dir_brk :: nat
  srvs :: "nat \<Rightarrow> 't srv_cfg option"
  srv_brk :: nat
  strs :: "nat \<Rightarrow> string list option"
  str_brk :: nat
  files :: "nat \<Rightarrow> (string \<times> nat) list option"     \<comment> \<open>arrays of \<open>modperl_require_file_t\<close>\<close>
  file_brk :: nat
  global_server :: "nat option"
  mpm_threaded :: bool

text \<open>
  What the configuration needs from the build (the generated flags, the number of handler slots of each type) and
  from the server: \<open>argv0\<close> is \<open>s->process->argv[0]\<close>, \<open>is_running\<close> is \<open>modperl_is_running()\<close>, \<open>init_vhost\<close> starts
  Perl for a virtual host (\<open>modperl_init_vhost\<close> in \<^verbatim>\<open>mod_perl.c\<close>).
\<close>

record ('t, 'p) cfg_env =
  tops :: "'t apr_table_ops"
  tables :: flag_tables
  MpDir_f_MERGE_HANDLERS :: modperl_opts_t
  MpSrv_f_MERGE_HANDLERS :: modperl_opts_t
  MpSrv_f_INHERIT_SWITCHES :: modperl_opts_t
  MpSrv_f_ENABLE :: modperl_opts_t
  MpSrv_f_HOOKS_ALL :: modperl_opts_t
  handler_num :: "handler_type \<Rightarrow> nat"
  argv0 :: "nat \<Rightarrow> string"
  is_virtual :: "nat \<Rightarrow> bool"
  is_threaded :: bool
  is_running :: bool
  init_vhost :: "nat \<Rightarrow> ('t, 'p) cfg_state \<Rightarrow> bool \<times> ('t, 'p) cfg_state"

definition get_dir :: "('t, 'p) cfg_state \<Rightarrow> nat \<Rightarrow> 't dir_cfg res" where
  "get_dir st d = (case dirs st d of None \<Rightarrow> Inl UseAfterFree | Some x \<Rightarrow> Inr x)"

definition get_srv :: "('t, 'p) cfg_state \<Rightarrow> nat \<Rightarrow> 't srv_cfg res" where
  "get_srv st s = (case srvs st s of None \<Rightarrow> Inl UseAfterFree | Some x \<Rightarrow> Inr x)"

definition get_strs :: "('t, 'p) cfg_state \<Rightarrow> nat \<Rightarrow> string list res" where
  "get_strs st a = (case strs st a of None \<Rightarrow> Inl UseAfterFree | Some x \<Rightarrow> Inr x)"

definition put_dir :: "nat \<Rightarrow> 't dir_cfg \<Rightarrow> ('t, 'p) cfg_state \<Rightarrow> ('t, 'p) cfg_state" where
  "put_dir d x st = st\<lparr>dirs := (dirs st)(d \<mapsto> x)\<rparr>"

definition put_srv :: "nat \<Rightarrow> 't srv_cfg \<Rightarrow> ('t, 'p) cfg_state \<Rightarrow> ('t, 'p) cfg_state" where
  "put_srv s x st = st\<lparr>srvs := (srvs st)(s \<mapsto> x)\<rparr>"

definition new_strs :: "('t, 'p) cfg_state \<Rightarrow> nat \<times> ('t, 'p) cfg_state" where
  "new_strs st = (str_brk st, st\<lparr>strs := (strs st)(str_brk st \<mapsto> []), str_brk := Suc (str_brk st)\<rparr>)"

definition str_push :: "nat \<Rightarrow> string \<Rightarrow> ('t, 'p) cfg_state \<Rightarrow> ('t, 'p) cfg_state res" where
  "str_push a x st = and_then (get_strs st a) (\<lambda>xs. Inr (st\<lparr>strs := (strs st)(a \<mapsto> xs @ [x])\<rparr>))"

section \<open>Merging tables\<close>

text \<open>\<open>modperl_table_overlap\<close>, for \<open>PerlSetEnv\<close> and \<open>PerlPassEnv\<close>; \<open>merge_config_add_vars\<close>, for
  \<open>PerlSetVar\<close> and \<open>PerlAddVar\<close>, with its loop over the entries of \<open>unset\<close> (here \<open>unsets\<close>).\<close>

definition modperl_table_overlap :: "'t apr_table_ops \<Rightarrow> 't \<Rightarrow> 't \<Rightarrow> 't" where
  "modperl_table_overlap T base add = apr_table_compress_set T (apr_table_overlay T base add)"

fun unset_loop :: "'t apr_table_ops \<Rightarrow> (string \<times> string) list \<Rightarrow> 't \<Rightarrow> 't" where
  "unset_loop T [] temp = temp"
| "unset_loop T (e # es) temp = unset_loop T es (apr_table_unset T (fst e) temp)"

definition merge_config_add_vars :: "'t apr_table_ops \<Rightarrow> 't \<Rightarrow> 't \<Rightarrow> 't \<Rightarrow> 't" where
  "merge_config_add_vars T base unsets add =
     apr_table_overlay T (unset_loop T (apr_table_elts T unsets) (apr_table_copy T base)) add"

section \<open>Directories\<close>

definition dir_cfg_init :: "('t, 'p) cfg_env \<Rightarrow> 't dir_cfg" where
  "dir_cfg_init E = \<lparr>location = None, d_SetEnv = apr_table_make (tops E), d_setvars = apr_table_make (tops E),
     d_configvars = apr_table_make (tops E), d_flags = modperl_options_new (tables E) MpDirType,
     d_interp_scope = SCOPE_UNDEF\<rparr>"

text \<open>\<open>apr_pcalloc\<close> clears the handler slots of a new configuration.\<close>

fun slot_of_dir :: "nat \<Rightarrow> slot \<Rightarrow> bool" where
  "slot_of_dir d (DirSlot d' i) = (d' = d)"
| "slot_of_dir d _ = False"

fun slot_of_srv :: "nat \<Rightarrow> slot \<Rightarrow> bool" where
  "slot_of_srv s (SrvSlot s' typ i) = (s' = s)"
| "slot_of_srv s _ = False"

definition clear_slots :: "(slot \<Rightarrow> bool) \<Rightarrow> 'p hstate \<Rightarrow> 'p hstate" where
  "clear_slots P st = st\<lparr>slots := (\<lambda>sl. if P sl then None else slots st sl)\<rparr>"

definition modperl_config_dir_new :: "('t, 'p) cfg_env \<Rightarrow> ('t, 'p) cfg_state \<Rightarrow> nat \<times> ('t, 'p) cfg_state" where
  "modperl_config_dir_new E st =
     (dir_brk st, st\<lparr>chs := clear_slots (slot_of_dir (dir_brk st)) (chs st),
        dirs := (dirs st)(dir_brk st \<mapsto> dir_cfg_init E), dir_brk := Suc (dir_brk st)\<rparr>)"

definition modperl_config_dir_create ::
    "('t, 'p) cfg_env \<Rightarrow> string option \<Rightarrow> ('t, 'p) cfg_state \<Rightarrow> nat \<times> ('t, 'p) cfg_state" where
  "modperl_config_dir_create E dir st =
     (let (d, st1) = modperl_config_dir_new E st
      in (d, put_dir d ((dir_cfg_init E)\<lparr>location := dir, d_interp_scope := SCOPE_UNDEF\<rparr>) st1))"

text \<open>\<open>merge_item\<close> and \<open>merge_handlers\<close>; \<open>slot_merge\<close> is one round of a loop over handler slots.\<close>

definition merge_item :: "'a option \<Rightarrow> 'a option \<Rightarrow> 'a option" where
  "merge_item base add = (if add \<noteq> None then add else base)"

definition merge_scope :: "modperl_interp_scope_e \<Rightarrow> modperl_interp_scope_e \<Rightarrow> modperl_interp_scope_e" where
  "merge_scope base add = (if add \<noteq> SCOPE_UNDEF then add else base)"

definition slot_put :: "slot \<Rightarrow> nat option \<Rightarrow> 'p hstate \<Rightarrow> 'p hstate" where
  "slot_put sl a st = st\<lparr>slots := (slots st)(sl := a)\<rparr>"

definition slot_merge :: "bool \<Rightarrow> (nat \<Rightarrow> slot) \<Rightarrow> nat \<Rightarrow> nat \<Rightarrow> nat \<Rightarrow> 'p hstate \<Rightarrow> 'p hstate res" where
  "slot_merge flag slot_of base add mrg st =
     (if flag
      then and_then (modperl_handler_array_merge (slots st (slot_of base)) (slots st (slot_of add)) st)
             (\<lambda>(a, st'). Inr (slot_put (slot_of mrg) a st'))
      else Inr (slot_put (slot_of mrg) (merge_item (slots st (slot_of base)) (slots st (slot_of add))) st))"

fun slots_merge_loop ::
    "bool \<Rightarrow> (nat \<Rightarrow> nat \<Rightarrow> slot) \<Rightarrow> nat list \<Rightarrow> nat \<Rightarrow> nat \<Rightarrow> nat \<Rightarrow> 'p hstate \<Rightarrow> 'p hstate res" where
  "slots_merge_loop flag slot_of [] base add mrg st = Inr st"
| "slots_merge_loop flag slot_of (i # is) base add mrg st =
     and_then (slot_merge flag (\<lambda>c. slot_of c i) base add mrg st) (\<lambda>st'.
       slots_merge_loop flag slot_of is base add mrg st')"

definition dir_merge_fields :: "'t apr_table_ops \<Rightarrow> 't dir_cfg \<Rightarrow> 't dir_cfg \<Rightarrow> 't dir_cfg" where
  "dir_merge_fields T base add =
     \<lparr>location = merge_item (location base) (location add),
      d_SetEnv = modperl_table_overlap T (d_SetEnv base) (d_SetEnv add),
      d_setvars = modperl_table_overlap T (d_setvars base) (d_setvars add),
      d_configvars = merge_config_add_vars T (d_configvars base) (d_setvars add) (d_configvars add),
      d_flags = modperl_options_merge (d_flags base) (d_flags add),
      d_interp_scope = merge_scope (d_interp_scope base) (d_interp_scope add)\<rparr>"

definition modperl_config_dir_merge ::
    "('t, 'p) cfg_env \<Rightarrow> nat \<Rightarrow> nat \<Rightarrow> ('t, 'p) cfg_state \<Rightarrow> (nat \<times> ('t, 'p) cfg_state) res" where
  "modperl_config_dir_merge E basev addv st0 =
     (let (mrgv, st1) = modperl_config_dir_new E st0 in
      and_then (get_dir st1 basev) (\<lambda>base.
      and_then (get_dir st1 addv) (\<lambda>add.
        let mrg = dir_merge_fields (tops E) base add
        in and_then (slots_merge_loop (opts (d_flags mrg) AND MpDir_f_MERGE_HANDLERS E \<noteq> 0) DirSlot
                       [0..<handler_num E PER_DIR] basev addv mrgv (chs st1)) (\<lambda>hs'.
           Inr (mrgv, put_dir mrgv mrg (st1\<lparr>chs := hs'\<rparr>))))))"

section \<open>Servers\<close>

definition srv_cfg_init :: "('t, 'p) cfg_env \<Rightarrow> 't srv_cfg" where
  "srv_cfg_init E =
     (let fl = modperl_options_new (tables E) MpSrvType in
      \<lparr>s_setvars = apr_table_make (tops E), s_configvars = apr_table_make (tops E), s_SetEnv = apr_table_make (tops E),
       s_PassEnv = apr_table_make (tops E), PerlRequire = 0, PerlModule = 0, PerlPostConfigRequire = 0,
       s_mip = None, s_pool_cfg = None, s_interp_scope = SCOPE_UNDEF, argv = 0,
       s_flags = fl\<lparr>opts := opts fl OR MpSrv_f_ENABLE E OR MpSrv_f_HOOKS_ALL E\<rparr>, modules = None, server = None\<rparr>)"

definition modperl_config_srv_new ::
    "('t, 'p) cfg_env \<Rightarrow> nat \<Rightarrow> ('t, 'p) cfg_state \<Rightarrow> (nat \<times> ('t, 'p) cfg_state) res" where
  "modperl_config_srv_new E s st =
     (let (pm, st1) = new_strs st; (pr, st2) = new_strs st1; (av, st3) = new_strs st2; pc = file_brk st3; c = srv_brk st3;
          st4 = st3\<lparr>files := (files st3)(pc \<mapsto> []), file_brk := Suc pc, srv_brk := Suc c,
                    chs := clear_slots (slot_of_srv c) (chs st3)\<rparr>;
          st5 = put_srv c ((srv_cfg_init E)\<lparr>PerlModule := pm, PerlRequire := pr, PerlPostConfigRequire := pc, argv := av\<rparr>) st4
      in and_then (str_push av (argv0 E s) st5) (\<lambda>st6. Inr (c, st6)))"

definition default_pool_cfg :: tipool_config where
  "default_pool_cfg = \<lparr>cfg_start = 3, cfg_min_spare = 3, cfg_max_spare = 3, cfg_max = 5, cfg_max_requests = 2000\<rparr>"

text \<open>\<open>modperl_init_globals\<close> (\<^verbatim>\<open>mod_perl.c\<close>): the parts of the global state that are modelled.\<close>

definition modperl_init_globals :: "('t, 'p) cfg_env \<Rightarrow> nat \<Rightarrow> ('t, 'p) cfg_state \<Rightarrow> ('t, 'p) cfg_state" where
  "modperl_init_globals E s st =
     st\<lparr>mpm_threaded := is_threaded E, global_server := Some s, chs := (chs st)\<lparr>anon_cnt := 0\<rparr>\<rparr>"

definition modperl_config_srv_create ::
    "('t, 'p) cfg_env \<Rightarrow> nat \<Rightarrow> ('t, 'p) cfg_state \<Rightarrow> (nat \<times> ('t, 'p) cfg_state) res" where
  "modperl_config_srv_create E s st =
     and_then (modperl_config_srv_new E s st) (\<lambda>(c, st1).
     and_then (get_srv st1 c) (\<lambda>scfg.
       let st2 = (if is_virtual E s then st1 else modperl_init_globals E s st1)
       in Inr (c, put_srv c (scfg\<lparr>s_pool_cfg := Some default_pool_cfg, s_interp_scope := SCOPE_REQUEST,
                                 server := Some s\<rparr>) st2)))"

definition modperl_config_srv_argv_init ::
    "nat \<Rightarrow> ('t, 'p) cfg_state \<Rightarrow> (string list \<times> ('t, 'p) cfg_state) res" where
  "modperl_config_srv_argv_init c st =
     and_then (get_srv st c) (\<lambda>scfg.
     and_then (str_push (argv scfg) ''-e;0'' st) (\<lambda>st1.
     and_then (get_strs st1 (argv scfg)) (\<lambda>av. Inr (av, st1))))"

definition srv_merge_types :: "handler_type list" where
  "srv_merge_types = [PER_SRV, FILES, PROCESS, PRE_CONNECTION, CONNECTION]"

fun srv_slots_merge ::
    "('t, 'p) cfg_env \<Rightarrow> bool \<Rightarrow> handler_type list \<Rightarrow> nat \<Rightarrow> nat \<Rightarrow> nat \<Rightarrow> 'p hstate \<Rightarrow> 'p hstate res" where
  "srv_slots_merge E flag [] base add mrg st = Inr st"
| "srv_slots_merge E flag (typ # ts) base add mrg st =
     and_then (slots_merge_loop flag (\<lambda>c i. SrvSlot c typ i) [0..<handler_num E typ] base add mrg st) (\<lambda>st'.
       srv_slots_merge E flag ts base add mrg st')"

text \<open>The first part of \<open>modperl_config_srv_merge\<close>, all fields but \<open>mip\<close>. \<open>PerlModule\<close>, \<open>PerlRequire\<close> and
  \<open>PerlPostConfigRequire\<close> are never null in \<open>add\<close>, so \<open>merge_item\<close> takes them from \<open>add\<close>.\<close>

definition srv_merge_fields ::
    "'t apr_table_ops \<Rightarrow> ('t, 'p) cfg_env \<Rightarrow> 't srv_cfg \<Rightarrow> 't srv_cfg \<Rightarrow> 't srv_cfg \<Rightarrow> 't srv_cfg" where
  "srv_merge_fields T E base add mrg = mrg\<lparr>
     modules := merge_item (modules base) (modules add),
     PerlModule := PerlModule add, PerlRequire := PerlRequire add, PerlPostConfigRequire := PerlPostConfigRequire add,
     s_SetEnv := modperl_table_overlap T (s_SetEnv base) (s_SetEnv add),
     s_PassEnv := modperl_table_overlap T (s_PassEnv base) (s_PassEnv add),
     s_configvars := merge_config_add_vars T (s_configvars base) (s_setvars add) (s_configvars add),
     s_setvars := modperl_table_overlap T (s_setvars base) (s_setvars add),
     server := merge_item (server base) (server add),
     s_pool_cfg := merge_item (s_pool_cfg base) (s_pool_cfg add),
     s_interp_scope := merge_scope (s_interp_scope base) (s_interp_scope add),
     argv := (if opts (s_flags add) AND MpSrv_f_INHERIT_SWITCHES E \<noteq> 0 then argv base else argv add),
     s_flags := modperl_options_merge (s_flags base) (s_flags add)\<rparr>"

definition modperl_config_srv_merge ::
    "('t, 'p) cfg_env \<Rightarrow> nat \<Rightarrow> nat \<Rightarrow> ('t, 'p) cfg_state \<Rightarrow> (nat \<times> ('t, 'p) cfg_state) res" where
  "modperl_config_srv_merge E basev addv st0 =
     and_then (get_srv st0 addv) (\<lambda>add0.
     case server add0 of None \<Rightarrow> Inl NullDeref | Some srv \<Rightarrow>
     and_then (modperl_config_srv_new E srv st0) (\<lambda>(mrgv, st1).
     and_then (get_srv st1 basev) (\<lambda>base. and_then (get_srv st1 addv) (\<lambda>add. and_then (get_srv st1 mrgv) (\<lambda>mrg0.
       let mrg = srv_merge_fields (tops E) E base add mrg0;
           flag = (opts (s_flags mrg) AND MpSrv_f_MERGE_HANDLERS E \<noteq> 0)
       in and_then (srv_slots_merge E flag srv_merge_types basev addv mrgv (chs st1)) (\<lambda>hs'.
          let st2 = put_srv mrgv mrg (st1\<lparr>chs := hs'\<rparr>);
              (ok, st3) = (if is_running E
                           then (case server mrg of None \<Rightarrow> (False, st2) | Some sv \<Rightarrow> init_vhost E sv st2) else (True, st2))
          in if \<not> ok then Inl Aborted
             else and_then (get_srv st3 basev) (\<lambda>base'. and_then (get_srv st3 addv) (\<lambda>add'.
                  and_then (get_srv st3 mrgv) (\<lambda>mrg'.
                    Inr (mrgv, put_srv mrgv (mrg'\<lparr>s_mip := merge_item (s_mip base') (s_mip add')\<rparr>) st3))))))))))"

section \<open>Loading modules, asking for options\<close>

text \<open>\<open>require\<close> loads a module or a file into the interpreter and says whether that worked.\<close>

fun apply_loop :: "(string \<Rightarrow> 'w \<Rightarrow> bool \<times> 'w) \<Rightarrow> string list \<Rightarrow> 'w \<Rightarrow> bool \<times> 'w" where
  "apply_loop require [] w = (True, w)"
| "apply_loop require (x # xs) w =
     (case require x w of (True, w') \<Rightarrow> apply_loop require xs w' | (False, w') \<Rightarrow> (False, w'))"

definition modperl_config_apply_PerlModule ::
    "(string \<Rightarrow> 'w \<Rightarrow> bool \<times> 'w) \<Rightarrow> 't srv_cfg \<Rightarrow> ('t, 'p) cfg_state \<Rightarrow> 'w \<Rightarrow> (bool \<times> 'w) res" where
  "modperl_config_apply_PerlModule require_module scfg st w =
     and_then (get_strs st (PerlModule scfg)) (\<lambda>entries. Inr (apply_loop require_module entries w))"

definition modperl_config_apply_PerlRequire ::
    "(string \<Rightarrow> 'w \<Rightarrow> bool \<times> 'w) \<Rightarrow> 't srv_cfg \<Rightarrow> ('t, 'p) cfg_state \<Rightarrow> 'w \<Rightarrow> (bool \<times> 'w) res" where
  "modperl_config_apply_PerlRequire require_file scfg st w =
     and_then (get_strs st (PerlRequire scfg)) (\<lambda>entries. Inr (apply_loop require_file entries w))"

definition modperl_config_is_perl_option_enabled ::
    "flag_tables \<Rightarrow> 't dir_cfg option \<Rightarrow> 't srv_cfg \<Rightarrow> string \<Rightarrow> bool res" where
  "modperl_config_is_perl_option_enabled t dcfg scfg name = (case dcfg of
       Some d \<Rightarrow> (let flag = modperl_flags_lookup_dir t name in
         if flag \<noteq> -1 then Inr (opts (d_flags d) AND flag \<noteq> 0)
         else Inl (Croak (''PerlOptions '' @ name @ '' is not a directory option'')))
     | None \<Rightarrow> (let flag = modperl_flags_lookup_srv t name in
         if flag \<noteq> -1 then Inr (opts (s_flags scfg) AND flag \<noteq> 0)
         else Inl (Croak (''PerlOptions '' @ name @ '' is not a server option''))))"

section \<open>What merging computes\<close>

subsection \<open>Tables\<close>

lemma tvals_overlap:
  assumes "apr_table_laws T"
  shows "tvals T k (modperl_table_overlap T base add) =
           last_only (if tvals T k add = [] then tvals T k base else tvals T k add)"
  by (simp add: modperl_table_overlap_def apr_table_lawsD [OF assms] last_only_append)

lemma tvals_unset_loop:
  assumes "apr_table_laws T"
  shows "tvals T k (unset_loop T es t) = (if key_vals k es = [] then tvals T k t else [])"
  by (induction es arbitrary: t) (auto simp: apr_table_lawsD [OF assms] key_vals_Cons)

lemma tvals_add_vars:
  assumes "apr_table_laws T"
  shows "tvals T k (merge_config_add_vars T base unsets add) =
           (if tvals T k unsets = [] then tvals T k base else []) @ tvals T k add"
  by (simp add: merge_config_add_vars_def apr_table_lawsD [OF assms] tvals_unset_loop [OF assms])
    (simp add: tvals_def)

subsection \<open>Handler slots\<close>

text \<open>Without \<open>MERGE_HANDLERS\<close> the loop only assigns slots of \<open>mrg\<close>.\<close>

definition slots_inherit ::
    "(nat \<Rightarrow> nat \<Rightarrow> slot) \<Rightarrow> nat list \<Rightarrow> nat \<Rightarrow> nat \<Rightarrow> nat \<Rightarrow> 'p hstate \<Rightarrow> 'p hstate \<Rightarrow> bool" where
  "slots_inherit slot_of is base add mrg st st' \<longleftrightarrow>
     hobjs st' = hobjs st \<and> arrays st' = arrays st \<and>
     (\<forall>i\<in>set is. slots st' (slot_of mrg i) = merge_item (slots st (slot_of base i)) (slots st (slot_of add i))) \<and>
     (\<forall>sl. (\<forall>i\<in>set is. sl \<noteq> slot_of mrg i) \<longrightarrow> slots st' sl = slots st sl)"

lemma slots_merge_loop_plain:
  assumes "distinct is" "\<And>i j. slot_of base i \<noteq> slot_of mrg j" "\<And>i j. slot_of add i \<noteq> slot_of mrg j"
    "inj (slot_of mrg)"
  shows "\<exists>st'. slots_merge_loop False slot_of is base add mrg st = Inr st' \<and> slots_inherit slot_of is base add mrg st st'"
  using assms(1)
proof (induction "is" arbitrary: st)
  case Nil
  then show ?case by (simp add: slots_inherit_def)
next
  case (Cons i "is")
  let ?st1 = "slot_put (slot_of mrg i) (merge_item (slots st (slot_of base i)) (slots st (slot_of add i))) st"
  obtain st' where st': "slots_merge_loop False slot_of is base add mrg ?st1 = Inr st'"
    "slots_inherit slot_of is base add mrg ?st1 st'" using Cons by auto
  have frame: "slots ?st1 sl = slots st sl" if "sl \<noteq> slot_of mrg i" for sl using that by (simp add: slot_put_def)
  have "\<forall>j\<in>set is. slot_of mrg i \<noteq> slot_of mrg j" using Cons.prems by (auto simp: inj_eq [OF assms(4)])
  then have here: "slots st' (slot_of mrg i) = slots ?st1 (slot_of mrg i)"
    using st'(2) unfolding slots_inherit_def by blast
  have "slots st' (slot_of mrg j) = merge_item (slots st (slot_of base j)) (slots st (slot_of add j))"
    if j: "j \<in> set (i # is)" for j
  proof (cases "j = i")
    case True
    with here show ?thesis by (simp add: slot_put_def)
  next
    case False
    with j st'(2) have "slots st' (slot_of mrg j) = merge_item (slots ?st1 (slot_of base j)) (slots ?st1 (slot_of add j))"
      by (simp add: slots_inherit_def)
    then show ?thesis by (simp add: frame assms(2,3))
  qed
  moreover have "hobjs st' = hobjs st" "arrays st' = arrays st" using st'(2) by (simp_all add: slots_inherit_def slot_put_def)
  moreover have "slots st' sl = slots st sl" if "\<forall>j\<in>set (i # is). sl \<noteq> slot_of mrg j" for sl
    using that st'(2) by (simp add: slots_inherit_def frame)
  ultimately have "slots_inherit slot_of (i # is) base add mrg st st'" unfolding slots_inherit_def by blast
  with st'(1) show ?case by (simp add: slot_merge_def)
qed

subsection \<open>Directories\<close>

lemma dir_new_simps:
  "modperl_config_dir_new E st = (d, st1) \<Longrightarrow> d = dir_brk st \<and> dirs st1 = (dirs st)(d \<mapsto> dir_cfg_init E) \<and>
     dir_brk st1 = Suc d \<and> chs st1 = clear_slots (slot_of_dir d) (chs st) \<and> srvs st1 = srvs st"
  by (auto simp: modperl_config_dir_new_def)

text \<open>
  Merging a section into its parent (without \<open>PerlOptions +MergeHandlers\<close>). The result has the options
  merged by \<open>modperl_options_merge\<close>; the interpreter scope, the location and, phase by phase, the handlers of the section
  where it sets them and of the parent otherwise; each \<open>PerlSetEnv\<close> variable with the section's last value, or the
  parent's. Neither the section nor the parent nor any other configuration or handler is changed.
\<close>

theorem config_dir_merge:
  assumes "apr_table_laws (tops E)" "dirs st b = Some base" "dirs st a = Some add" "b < dir_brk st" "a < dir_brk st"
    and "opts (modperl_options_merge (d_flags base) (d_flags add)) AND MpDir_f_MERGE_HANDLERS E = 0"
  shows "\<exists>m st' mrg. modperl_config_dir_merge E b a st = Inr (m, st') \<and> m = dir_brk st \<and> dirs st' = (dirs st)(m \<mapsto> mrg) \<and>
     d_flags mrg = modperl_options_merge (d_flags base) (d_flags add) \<and>
     d_interp_scope mrg = (if d_interp_scope add = SCOPE_UNDEF then d_interp_scope base else d_interp_scope add) \<and>
     location mrg = (if location add = None then location base else location add) \<and>
     (\<forall>k. tvals (tops E) k (d_SetEnv mrg) =
        last_only (if tvals (tops E) k (d_SetEnv add) = [] then tvals (tops E) k (d_SetEnv base)
                   else tvals (tops E) k (d_SetEnv add))) \<and>
     (\<forall>i < handler_num E PER_DIR. slots (chs st') (DirSlot m i) =
        (if slots (chs st) (DirSlot a i) = None then slots (chs st) (DirSlot b i) else slots (chs st) (DirSlot a i))) \<and>
     (\<forall>sl. \<not> slot_of_dir m sl \<longrightarrow> slots (chs st') sl = slots (chs st) sl) \<and>
     hobjs (chs st') = hobjs (chs st) \<and> arrays (chs st') = arrays (chs st)"
proof -
  let ?m = "dir_brk st"
  obtain st1 where new: "modperl_config_dir_new E st = (?m, st1)" by (simp add: modperl_config_dir_new_def)
  note st1 = dir_new_simps [OF new]
  have get: "get_dir st1 b = Inr base" "get_dir st1 a = Inr add" using assms(2-5) st1 by (auto simp: get_dir_def)
  have ne: "DirSlot b i \<noteq> DirSlot ?m j" "DirSlot a i \<noteq> DirSlot ?m j" for i j using assms(4,5) by auto
  have "\<exists>hs'. slots_merge_loop False DirSlot [0..<handler_num E PER_DIR] b a ?m (chs st1) = Inr hs' \<and>
      slots_inherit DirSlot [0..<handler_num E PER_DIR] b a ?m (chs st1) hs'"
    by (rule slots_merge_loop_plain [OF _ ne]) (simp_all add: inj_def)
  then obtain hs' where hs': "slots_merge_loop False DirSlot [0..<handler_num E PER_DIR] b a ?m (chs st1) = Inr hs'"
    "slots_inherit DirSlot [0..<handler_num E PER_DIR] b a ?m (chs st1) hs'" by blast
  have slots1: "slots (chs st1) sl = slots (chs st) sl" if "\<not> slot_of_dir ?m sl" for sl
    using that st1 by (simp add: clear_slots_def)
  have "slots hs' (DirSlot ?m i) =
      (if slots (chs st) (DirSlot a i) = None then slots (chs st) (DirSlot b i) else slots (chs st) (DirSlot a i))"
    if "i < handler_num E PER_DIR" for i
  proof -
    have "slots hs' (DirSlot ?m i) = merge_item (slots (chs st1) (DirSlot b i)) (slots (chs st1) (DirSlot a i))"
      using hs'(2) that by (simp add: slots_inherit_def)
    moreover have "slots (chs st1) (DirSlot b i) = slots (chs st) (DirSlot b i)"
      "slots (chs st1) (DirSlot a i) = slots (chs st) (DirSlot a i)" using assms(4,5) by (simp_all add: slots1)
    ultimately show ?thesis by (simp add: merge_item_def)
  qed
  moreover have "slots hs' sl = slots (chs st) sl" if "\<not> slot_of_dir ?m sl" for sl
  proof -
    have "\<forall>i\<in>set [0..<handler_num E PER_DIR]. sl \<noteq> DirSlot ?m i" using that by auto
    then have "slots hs' sl = slots (chs st1) sl" using hs'(2) unfolding slots_inherit_def by blast
    then show ?thesis using slots1 [OF that] by simp
  qed
  moreover have "hobjs hs' = hobjs (chs st) \<and> arrays hs' = arrays (chs st)"
    using hs'(2) st1 by (simp add: slots_inherit_def clear_slots_def)
  moreover have "modperl_config_dir_merge E b a st =
      Inr (?m, put_dir ?m (dir_merge_fields (tops E) base add) (st1\<lparr>chs := hs'\<rparr>))"
    using assms(6) hs'(1) by (simp add: modperl_config_dir_merge_def new get dir_merge_fields_def)
  ultimately show ?thesis
    using st1 by (intro exI [of _ ?m] exI [of _ "put_dir ?m (dir_merge_fields (tops E) base add) (st1\<lparr>chs := hs'\<rparr>)"]
        exI [of _ "dir_merge_fields (tops E) base add"])
      (simp add: put_dir_def dir_merge_fields_def tvals_overlap [OF assms(1)] merge_scope_def merge_item_def)
qed

definition demo_cfg_env :: "((string \<times> string) list, unit) cfg_env" where
  "demo_cfg_env = \<lparr>tops = list_tables, tables = code_tables, MpDir_f_MERGE_HANDLERS = 4, MpSrv_f_MERGE_HANDLERS = 0x10,
     MpSrv_f_INHERIT_SWITCHES = 0x8000000, MpSrv_f_ENABLE = 4, MpSrv_f_HOOKS_ALL = 0x3FFFFE0,
     handler_num = (\<lambda>typ. if typ = PER_DIR then 2 else 1), argv0 = (\<lambda>s. ''httpd''), is_virtual = (\<lambda>s. s \<noteq> 0),
     is_threaded = True, is_running = False, init_vhost = (\<lambda>s st. (True, st))\<rparr>"

definition demo_cfg_state :: "((string \<times> string) list, unit) cfg_state" where
  "demo_cfg_state = \<lparr>chs = demo_hstate\<lparr>slots := (\<lambda>sl. if sl = DirSlot 0 0 then Some 7 else if sl = DirSlot 0 1 then Some 8
        else if sl = DirSlot 1 1 then Some 9 else None)\<rparr>,
     dirs = (\<lambda>d. if d = 0 then Some ((dir_cfg_init demo_cfg_env)\<lparr>d_SetEnv := [(''A'', ''x'')]\<rparr>)
        else if d = 1 then Some ((dir_cfg_init demo_cfg_env)\<lparr>d_SetEnv := [(''a'', ''y'')], d_interp_scope := SCOPE_HANDLER\<rparr>)
        else None), dir_brk = 2,
     srvs = (\<lambda>_. None), srv_brk = 0, strs = (\<lambda>_. None), str_brk = 0, files = (\<lambda>_. None), file_brk = 0,
     global_server = None, mpm_threaded = False\<rparr>"

theorem config_dir_merge_witness:
  "\<exists>st' mrg. modperl_config_dir_merge demo_cfg_env 0 1 demo_cfg_state = Inr (2, st') \<and> dirs st' 2 = Some mrg \<and>
     d_interp_scope mrg = SCOPE_HANDLER \<and> tvals list_tables ''A'' (d_SetEnv mrg) = [''y''] \<and>
     slots (chs st') (DirSlot 2 0) = Some 7 \<and> slots (chs st') (DirSlot 2 1) = Some 9"
proof -
  have [simp]: "strcase_eq ''A'' ''a''" by code_simp
  let ?b = "(dir_cfg_init demo_cfg_env)\<lparr>d_SetEnv := [(''A'', ''x'')]\<rparr>"
  let ?a = "(dir_cfg_init demo_cfg_env)\<lparr>d_SetEnv := [(''a'', ''y'')], d_interp_scope := SCOPE_HANDLER\<rparr>"
  have laws: "apr_table_laws (tops demo_cfg_env)" by (simp add: demo_cfg_env_def list_tables_laws)
  have dirs: "dirs demo_cfg_state 0 = Some ?b" "dirs demo_cfg_state 1 = Some ?a" "0 < dir_brk demo_cfg_state" "1 < dir_brk demo_cfg_state"
    by (simp_all add: demo_cfg_state_def)
  have flag: "opts (modperl_options_merge (d_flags ?b) (d_flags ?a)) AND MpDir_f_MERGE_HANDLERS demo_cfg_env = 0"
    by (simp add: dir_cfg_init_def demo_cfg_env_def options_eval)
  have vals: "tvals list_tables ''A'' (d_SetEnv ?a) = [''y'']"
    by (simp add: tvals_def key_vals_def list_tables_def)
  have tops: "tops demo_cfg_env = list_tables" by (simp add: demo_cfg_env_def)
  have slots: "slots (chs demo_cfg_state) (DirSlot 1 0) = None" "slots (chs demo_cfg_state) (DirSlot 1 1) = Some 9"
    "slots (chs demo_cfg_state) (DirSlot 0 0) = Some 7" "dir_brk demo_cfg_state = 2" "handler_num demo_cfg_env PER_DIR = 2"
    by (simp_all add: demo_cfg_state_def demo_cfg_env_def)
  obtain st' mrg where m: "modperl_config_dir_merge demo_cfg_env 0 1 demo_cfg_state = Inr (2, st')"
    "dirs st' = (dirs demo_cfg_state)(2 \<mapsto> mrg)" "d_interp_scope mrg = (if d_interp_scope ?a = SCOPE_UNDEF then d_interp_scope ?b else d_interp_scope ?a)"
    "\<forall>k. tvals list_tables k (d_SetEnv mrg) = last_only (if tvals list_tables k (d_SetEnv ?a) = []
        then tvals list_tables k (d_SetEnv ?b) else tvals list_tables k (d_SetEnv ?a))"
    "\<forall>i < 2. slots (chs st') (DirSlot 2 i) = (if slots (chs demo_cfg_state) (DirSlot 1 i) = None
        then slots (chs demo_cfg_state) (DirSlot 0 i) else slots (chs demo_cfg_state) (DirSlot 1 i))"
    using config_dir_merge [OF laws dirs flag] unfolding tops slots(4,5) by blast
  have "tvals list_tables ''A'' (d_SetEnv mrg) = [''y'']" unfolding m(4) [rule_format, of "''A''"] vals by simp
  moreover have "slots (chs st') (DirSlot 2 0) = Some 7" "slots (chs st') (DirSlot 2 1) = Some 9"
    using m(5) [rule_format, of 0] m(5) [rule_format, of 1] slots by simp_all
  ultimately show ?thesis using m(1-3) by auto
qed

subsection \<open>Servers\<close>

lemma srv_new_ok:
  "\<exists>st1 mrg. modperl_config_srv_new E s st = Inr (srv_brk st, st1) \<and> srvs st1 = (srvs st)(srv_brk st \<mapsto> mrg) \<and>
     chs st1 = clear_slots (slot_of_srv (srv_brk st)) (chs st) \<and> srv_brk st1 = Suc (srv_brk st) \<and> s_mip mrg = None \<and>
     argv mrg = str_brk st + 2 \<and> str_brk st1 = str_brk st + 3 \<and> strs st1 (argv mrg) = Some [argv0 E s] \<and>
     (\<forall>a < str_brk st. strs st1 a = strs st a)"
proof -
  let ?mrg = "(srv_cfg_init E)\<lparr>PerlModule := str_brk st, PerlRequire := str_brk st + 1, PerlPostConfigRequire := file_brk st,
    argv := str_brk st + 2\<rparr>"
  show ?thesis
    by (simp add: modperl_config_srv_new_def new_strs_def put_srv_def str_push_def get_strs_def Let_def)
      (rule exI [of _ ?mrg], simp add: srv_cfg_init_def Let_def)
qed

lemma srv_slots_plain:
  assumes "distinct ts" "base \<noteq> mrg" "add \<noteq> mrg"
  shows "\<exists>st'. srv_slots_merge E False ts base add mrg st = Inr st' \<and>
     (\<forall>ty\<in>set ts. \<forall>i < handler_num E ty. slots st' (SrvSlot mrg ty i) =
        merge_item (slots st (SrvSlot base ty i)) (slots st (SrvSlot add ty i))) \<and>
     (\<forall>sl. (\<forall>ty\<in>set ts. \<forall>i. sl \<noteq> SrvSlot mrg ty i) \<longrightarrow> slots st' sl = slots st sl)"
  using assms(1)
proof (induction ts arbitrary: st)
  case (Cons ty ts)
  have "\<exists>st1. slots_merge_loop False (\<lambda>c i. SrvSlot c ty i) [0..<handler_num E ty] base add mrg st = Inr st1 \<and>
      slots_inherit (\<lambda>c i. SrvSlot c ty i) [0..<handler_num E ty] base add mrg st st1"
    by (rule slots_merge_loop_plain) (use assms(2,3) in \<open>simp_all add: inj_def\<close>)
  then obtain st1 where st1: "slots_merge_loop False (\<lambda>c i. SrvSlot c ty i) [0..<handler_num E ty] base add mrg st = Inr st1"
    "slots_inherit (\<lambda>c i. SrvSlot c ty i) [0..<handler_num E ty] base add mrg st st1" by blast
  have frame: "slots st1 sl = slots st sl" if "\<forall>i. sl \<noteq> SrvSlot mrg ty i" for sl
    using st1(2) that by (simp add: slots_inherit_def)
  have here: "slots st1 (SrvSlot mrg ty i) = merge_item (slots st (SrvSlot base ty i)) (slots st (SrvSlot add ty i))"
    if "i < handler_num E ty" for i using st1(2) that by (simp add: slots_inherit_def)
  obtain st' where st': "srv_slots_merge E False ts base add mrg st1 = Inr st'"
    "\<forall>t\<in>set ts. \<forall>i < handler_num E t. slots st' (SrvSlot mrg t i) =
        merge_item (slots st1 (SrvSlot base t i)) (slots st1 (SrvSlot add t i))"
    "\<forall>sl. (\<forall>t\<in>set ts. \<forall>i. sl \<noteq> SrvSlot mrg t i) \<longrightarrow> slots st' sl = slots st1 sl"
    using Cons.IH [of st1] Cons.prems by auto
  have "slots st' (SrvSlot mrg t i) = merge_item (slots st (SrvSlot base t i)) (slots st (SrvSlot add t i))"
    if t: "t \<in> set (ty # ts)" "i < handler_num E t" for t i
  proof (cases "t = ty")
    case True
    with st'(3) Cons.prems have "slots st' (SrvSlot mrg t i) = slots st1 (SrvSlot mrg t i)" by auto
    with here t True show ?thesis by simp
  next
    case False
    with st'(2) t have "slots st' (SrvSlot mrg t i) = merge_item (slots st1 (SrvSlot base t i)) (slots st1 (SrvSlot add t i))" by simp
    then show ?thesis using assms(2,3) by (simp add: frame)
  qed
  moreover have "slots st' sl = slots st sl" if "\<forall>t\<in>set (ty # ts). \<forall>i. sl \<noteq> SrvSlot mrg t i" for sl
    using st'(3) that frame by simp
  ultimately show ?case using st1(1) st'(1) by auto
qed simp

text \<open>The merge of two servers outside a running server, without \<open>MERGE_HANDLERS\<close>: it always succeeds.\<close>

lemma srv_merge_ok:
  assumes "srvs st b = Some base" "srvs st a = Some add" "b < srv_brk st" "a < srv_brk st" "server add = Some srv"
    and "\<not> is_running E" "opts (modperl_options_merge (s_flags base) (s_flags add)) AND MpSrv_f_MERGE_HANDLERS E = 0"
  shows "\<exists>st' mrg0 mrg. modperl_config_srv_merge E b a st = Inr (srv_brk st, st') \<and> srvs st' = (srvs st)(srv_brk st \<mapsto> mrg) \<and>
     mrg = (srv_merge_fields (tops E) E base add mrg0)\<lparr>s_mip := merge_item (s_mip base) (s_mip add)\<rparr> \<and>
     (\<forall>ty\<in>set srv_merge_types. \<forall>i < handler_num E ty. slots (chs st') (SrvSlot (srv_brk st) ty i) =
        merge_item (slots (chs st) (SrvSlot b ty i)) (slots (chs st) (SrvSlot a ty i))) \<and>
     (\<forall>sl. \<not> slot_of_srv (srv_brk st) sl \<longrightarrow> slots (chs st') sl = slots (chs st) sl) \<and>
     (\<forall>x < str_brk st. strs st' x = strs st x)"
proof -
  let ?m = "srv_brk st"
  obtain st1 mrg0 where new: "modperl_config_srv_new E srv st = Inr (?m, st1)" "srvs st1 = (srvs st)(?m \<mapsto> mrg0)"
    "chs st1 = clear_slots (slot_of_srv ?m) (chs st)" "\<forall>x < str_brk st. strs st1 x = strs st x"
    using srv_new_ok [of E srv st] by blast
  have get: "get_srv st1 b = Inr base" "get_srv st1 a = Inr add" "get_srv st1 ?m = Inr mrg0" "get_srv st a = Inr add"
    using assms(1-4) new(2) by (auto simp: get_srv_def)
  let ?mrg = "srv_merge_fields (tops E) E base add mrg0"
  have flags: "s_flags ?mrg = modperl_options_merge (s_flags base) (s_flags add)" by (simp add: srv_merge_fields_def)
  have ne: "b \<noteq> ?m" "a \<noteq> ?m" using assms(3,4) by auto
  obtain hs' where hs': "srv_slots_merge E False srv_merge_types b a ?m (chs st1) = Inr hs'"
    "\<forall>ty\<in>set srv_merge_types. \<forall>i < handler_num E ty. slots hs' (SrvSlot ?m ty i) =
        merge_item (slots (chs st1) (SrvSlot b ty i)) (slots (chs st1) (SrvSlot a ty i))"
    "\<forall>sl. (\<forall>ty\<in>set srv_merge_types. \<forall>i. sl \<noteq> SrvSlot ?m ty i) \<longrightarrow> slots hs' sl = slots (chs st1) sl"
    using srv_slots_plain [of srv_merge_types b ?m a E "chs st1"] ne by (auto simp: srv_merge_types_def)
  have slots1: "slots (chs st1) sl = slots (chs st) sl" if "\<not> slot_of_srv ?m sl" for sl
    using that new(3) by (simp add: clear_slots_def)
  let ?st2 = "put_srv ?m ?mrg (st1\<lparr>chs := hs'\<rparr>)"
  have get2: "get_srv ?st2 b = Inr base" "get_srv ?st2 a = Inr add" "get_srv ?st2 ?m = Inr ?mrg"
    using get ne by (auto simp: get_srv_def put_srv_def)
  have "modperl_config_srv_merge E b a st =
      Inr (?m, put_srv ?m (?mrg\<lparr>s_mip := merge_item (s_mip base) (s_mip add)\<rparr>) ?st2)"
    using assms(5-7) hs'(1) by (simp add: modperl_config_srv_merge_def get new(1) flags get2 Let_def)
  moreover have "slots hs' (SrvSlot ?m ty i) = merge_item (slots (chs st) (SrvSlot b ty i)) (slots (chs st) (SrvSlot a ty i))"
    if "ty \<in> set srv_merge_types" "i < handler_num E ty" for ty i
    using hs'(2) that ne by (simp add: slots1)
  moreover have "slots hs' sl = slots (chs st) sl" if "\<not> slot_of_srv ?m sl" for sl
  proof -
    have "\<forall>ty\<in>set srv_merge_types. \<forall>i. sl \<noteq> SrvSlot ?m ty i" using that by auto
    with hs'(3) have "slots hs' sl = slots (chs st1) sl" by blast
    then show ?thesis by (simp add: slots1 [OF that])
  qed
  ultimately show ?thesis
    using new(2,4)
    by (intro exI [of _ "put_srv ?m (?mrg\<lparr>s_mip := merge_item (s_mip base) (s_mip add)\<rparr>) ?st2"] exI [of _ mrg0]
        exI [of _ "?mrg\<lparr>s_mip := merge_item (s_mip base) (s_mip add)\<rparr>"]) (simp add: put_srv_def)
qed

lemma srv_create_ok:
  "\<exists>st1 scfg. modperl_config_srv_create E s st = Inr (srv_brk st, st1) \<and> srvs st1 = (srvs st)(srv_brk st \<mapsto> scfg) \<and>
     srv_brk st1 = Suc (srv_brk st) \<and> s_pool_cfg scfg = Some default_pool_cfg \<and> s_interp_scope scfg = SCOPE_REQUEST \<and>
     server scfg = Some s"
proof -
  obtain st1 mrg where "modperl_config_srv_new E s st = Inr (srv_brk st, st1)" "srvs st1 = (srvs st)(srv_brk st \<mapsto> mrg)"
    "srv_brk st1 = Suc (srv_brk st)" using srv_new_ok [of E s st] by blast
  then show ?thesis
    by (auto simp: modperl_config_srv_create_def get_srv_def put_srv_def modperl_init_globals_def Let_def)
qed

text \<open>
  A virtual host that has no interpreter directives of its own. Whatever interpreter scope and pool sizes
  the main server is configured with, the merged configuration of the virtual host has the built-in defaults, because every
  configuration is created with them and they count as set.
\<close>

theorem config_vhost_pool_defaults:
  assumes "modperl_config_srv_create E s st = Inr (c, st1)" "srvs st b = Some base" "b < srv_brk st" "\<not> is_running E"
    and "\<forall>add. srvs st1 c = Some add \<longrightarrow>
           opts (modperl_options_merge (s_flags base) (s_flags add)) AND MpSrv_f_MERGE_HANDLERS E = 0"
  shows "\<exists>m st2 mrg. modperl_config_srv_merge E b c st1 = Inr (m, st2) \<and> srvs st2 m = Some mrg \<and>
     s_interp_scope mrg = SCOPE_REQUEST \<and> s_pool_cfg mrg = Some default_pool_cfg"
proof -
  obtain add where c: "c = srv_brk st" "srvs st1 = (srvs st)(c \<mapsto> add)" "srv_brk st1 = Suc c"
    "s_pool_cfg add = Some default_pool_cfg" "s_interp_scope add = SCOPE_REQUEST" "server add = Some s"
    using srv_create_ok [of E s st] assms(1) by auto
  then have "srvs st1 b = Some base" "srvs st1 c = Some add" "b < srv_brk st1" "c < srv_brk st1" using assms(2,3) by auto
  from srv_merge_ok [OF this c(6) assms(4)] assms(5) \<open>srvs st1 c = Some add\<close>
  obtain st2 mrg0 where "modperl_config_srv_merge E b c st1 = Inr (srv_brk st1, st2)"
    "srvs st2 (srv_brk st1) =
       Some ((srv_merge_fields (tops E) E base add mrg0)\<lparr>s_mip := merge_item (s_mip base) (s_mip add)\<rparr>)" by auto
  then show ?thesis by (auto simp: srv_merge_fields_def merge_item_def merge_scope_def c)
qed

definition demo_base_srv :: "(string \<times> string) list srv_cfg" where
  "demo_base_srv = (srv_cfg_init demo_cfg_env)\<lparr>s_interp_scope := SCOPE_CONNECTION, s_pool_cfg := Some (default_pool_cfg\<lparr>cfg_max := 50\<rparr>),
     server := Some 0, argv := 0\<rparr>"

definition demo_srv_state :: "((string \<times> string) list, unit) cfg_state" where
  "demo_srv_state = demo_cfg_state\<lparr>srvs := (\<lambda>c. if c = 0 then Some demo_base_srv else None), srv_brk := 1,
     strs := (\<lambda>a. if a = 0 then Some [''httpd'', ''-w''] else None), str_brk := 1\<rparr>"

theorem config_vhost_pool_defaults_witness:
  "\<exists>c st1 m st2 mrg. modperl_config_srv_create demo_cfg_env 1 demo_srv_state = Inr (c, st1) \<and>
     modperl_config_srv_merge demo_cfg_env 0 c st1 = Inr (m, st2) \<and> srvs st2 m = Some mrg \<and>
     s_interp_scope demo_base_srv = SCOPE_CONNECTION \<and> s_interp_scope mrg = SCOPE_REQUEST"
proof -
  obtain st1 scfg where st1: "modperl_config_srv_create demo_cfg_env 1 demo_srv_state = Inr (1, st1)" "srvs st1 1 = Some scfg"
    "s_flags scfg = s_flags (srv_cfg_init demo_cfg_env)"
    by (simp add: modperl_config_srv_create_def modperl_config_srv_new_def demo_srv_state_def demo_cfg_state_def
        new_strs_def put_srv_def str_push_def get_strs_def get_srv_def demo_cfg_env_def Let_def)
  have base: "srvs demo_srv_state 0 = Some demo_base_srv" "0 < srv_brk demo_srv_state" "\<not> is_running demo_cfg_env"
    by (simp_all add: demo_srv_state_def demo_cfg_env_def)
  have "opts (modperl_options_merge (s_flags demo_base_srv) (s_flags (srv_cfg_init demo_cfg_env)))
      AND MpSrv_f_MERGE_HANDLERS demo_cfg_env = 0"
    by (simp add: demo_base_srv_def srv_cfg_init_def demo_cfg_env_def options_eval)
  then have "\<forall>add. srvs st1 1 = Some add \<longrightarrow> opts (modperl_options_merge (s_flags demo_base_srv) (s_flags add))
      AND MpSrv_f_MERGE_HANDLERS demo_cfg_env = 0" using st1(2,3) by simp
  from config_vhost_pool_defaults [OF st1(1) base this] st1(1) show ?thesis by (auto simp: demo_base_srv_def)
qed

text \<open>
  The arguments of the Perl of a virtual host. With \<open>PerlOptions +InheritSwitches\<close> the merged configuration shares the
  array of the main server, not a copy: when the main server and then the virtual host start their interpreters, the
  second one gets the terminating \<open>-e;0\<close> twice, and the array of the main server has changed too. Without the option the virtual
  host has the arguments of its own directives.
\<close>

theorem config_argv_inherit:
  assumes "srvs st b = Some base" "srvs st a = Some add" "b < srv_brk st" "a < srv_brk st" "server add = Some srv"
    and "\<not> is_running E" "opts (modperl_options_merge (s_flags base) (s_flags add)) AND MpSrv_f_MERGE_HANDLERS E = 0"
    and "strs st (argv base) = Some bs" "strs st (argv add) = Some as" "argv base < str_brk st" "argv add < str_brk st" "argv base \<noteq> argv add"
  shows "\<exists>m st' st1 st2. modperl_config_srv_merge E b a st = Inr (m, st') \<and>
     modperl_config_srv_argv_init b st' = Inr (bs @ [''-e;0''], st1) \<and>
     modperl_config_srv_argv_init m st1 =
       Inr ((if opts (s_flags add) AND MpSrv_f_INHERIT_SWITCHES E \<noteq> 0 then bs @ [''-e;0'', ''-e;0''] else as @ [''-e;0'']), st2)"
proof -
  let ?m = "srv_brk st"
  obtain st' mrg0 where m: "modperl_config_srv_merge E b a st = Inr (?m, st')"
    "srvs st' = (srvs st)(?m \<mapsto> (srv_merge_fields (tops E) E base add mrg0)\<lparr>s_mip := merge_item (s_mip base) (s_mip add)\<rparr>)"
    "\<forall>x < str_brk st. strs st' x = strs st x"
    using srv_merge_ok [OF assms(1-7)] by blast
  have base: "get_srv st' b = Inr base" using m(2) assms(1,3) by (auto simp: get_srv_def)
  define st1 where "st1 = st'\<lparr>strs := (strs st')(argv base \<mapsto> bs @ [''-e;0''])\<rparr>"
  have init_b: "modperl_config_srv_argv_init b st' = Inr (bs @ [''-e;0''], st1)"
    using m(3) assms(8,10) by (simp add: modperl_config_srv_argv_init_def base str_push_def get_strs_def st1_def)
  have "\<exists>st2. modperl_config_srv_argv_init ?m st1 =
      Inr ((if opts (s_flags add) AND MpSrv_f_INHERIT_SWITCHES E \<noteq> 0 then bs @ [''-e;0'', ''-e;0''] else as @ [''-e;0'']), st2)"
    using m(2,3) assms(8-12)
    by (simp add: modperl_config_srv_argv_init_def st1_def get_srv_def str_push_def get_strs_def srv_merge_fields_def)
  with m(1) init_b show ?thesis by blast
qed

definition demo_vhost_srv :: "(string \<times> string) list srv_cfg" where
  "demo_vhost_srv = (srv_cfg_init demo_cfg_env)\<lparr>server := Some 1, argv := 1,
     s_flags := snd (modperl_options_set code_tables ''+InheritSwitches'' (s_flags (srv_cfg_init demo_cfg_env)))\<rparr>"

theorem config_argv_inherit_witness:
  "\<exists>m st' st1 st2. modperl_config_srv_merge demo_cfg_env 0 1
       (demo_srv_state\<lparr>srvs := [0 \<mapsto> demo_base_srv, 1 \<mapsto> demo_vhost_srv], srv_brk := 2,
          strs := [0 \<mapsto> [''httpd'', ''-w''], 1 \<mapsto> [''httpd'']], str_brk := 2\<rparr>) = Inr (m, st') \<and>
     modperl_config_srv_argv_init 0 st' = Inr ([''httpd'', ''-w'', ''-e;0''], st1) \<and>
     modperl_config_srv_argv_init m st1 = Inr ([''httpd'', ''-w'', ''-e;0'', ''-e;0''], st2)"
proof -
  let ?st = "demo_srv_state\<lparr>srvs := [0 \<mapsto> demo_base_srv, 1 \<mapsto> demo_vhost_srv], srv_brk := 2,
          strs := [0 \<mapsto> [''httpd'', ''-w''], 1 \<mapsto> [''httpd'']], str_brk := 2\<rparr>"
  have s: "srvs ?st 0 = Some demo_base_srv" "srvs ?st 1 = Some demo_vhost_srv" "0 < srv_brk ?st" "1 < srv_brk ?st"
    "server demo_vhost_srv = Some 1" "\<not> is_running demo_cfg_env"
    by (simp_all add: demo_vhost_srv_def demo_cfg_env_def)
  have f: "opts (modperl_options_merge (s_flags demo_base_srv) (s_flags demo_vhost_srv)) AND MpSrv_f_MERGE_HANDLERS demo_cfg_env = 0"
    by (simp add: demo_base_srv_def demo_vhost_srv_def srv_cfg_init_def demo_cfg_env_def options_eval)
  have inh: "opts (s_flags demo_vhost_srv) AND MpSrv_f_INHERIT_SWITCHES demo_cfg_env \<noteq> 0"
    by (simp add: demo_vhost_srv_def srv_cfg_init_def demo_cfg_env_def options_eval)
  have a: "argv demo_base_srv = 0" "argv demo_vhost_srv = 1" by (simp_all add: demo_base_srv_def demo_vhost_srv_def)
  have "strs ?st (argv demo_base_srv) = Some [''httpd'', ''-w'']" "strs ?st (argv demo_vhost_srv) = Some [''httpd'']"
    "argv demo_base_srv < str_brk ?st" "argv demo_vhost_srv < str_brk ?st" "argv demo_base_srv \<noteq> argv demo_vhost_srv"
    by (simp_all add: a)
  from config_argv_inherit [OF s f this] inh show ?thesis by simp
qed

end
