(* ===== verification/Env.thy ===== *)
theory Env
  imports Config
begin

text \<open>
  The environment of Perl code, \<^verbatim>\<open>src/src/modules/perl/modperl_env.c\<close>: how \<open>%ENV\<close> is filled from the configuration and
  from the request, emptied at the end of the request, and tied to the request while a \<open>perl-script\<close> handler runs, so that
  an assignment to \<open>%ENV\<close> changes the \<open>subprocess_env\<close> table of the request and not the environment of the process.

  \<open>%ENV\<close> is a map from names, which are case sensitive, to values with their taint mark. While mod\_perl stores into \<open>%ENV\<close>
  the magic of the hash is off (\<open>modperl_env_untie\<close>), so these stores reach the hash only.
\<close>

section \<open>State\<close>

record 't req_env =
  subprocess_env :: 't
  PERL_SET_ENV_SRV :: bool
  PERL_SET_ENV_DIR :: bool
  SETUP_ENV :: bool

text \<open>\<open>env_mg_ok\<close> is \<open>EnvMgOK\<close>, \<open>env_mg_obj\<close> is \<open>EnvMgObj\<close>; \<open>environ\<close> stands for the environment of the process;
  \<open>mp_vtbl\<close> says that the virtual tables of Perl are replaced by those of mod\_perl.\<close>

record ('t, 'e) env_state =
  envhv :: "string \<Rightarrow> (string \<times> bool) option"
  env_mg_ok :: bool
  env_mg_obj :: "nat option"
  environ :: 'e
  mp_vtbl :: bool
  renv :: "nat \<Rightarrow> 't req_env option"

text \<open>Parameters: APR tables, the two constants of mod\_perl, \<open>getenv\<close>, the CGI variables httpd adds, and the original
  virtual tables of Perl, which work on the environment of the process.\<close>

record ('t, 'e) env_ops =
  etab :: "'t apr_table_ops"
  env_const_vars :: "(string \<times> string) list"
  getenv :: "string \<Rightarrow> 'e \<Rightarrow> string option"
  add_cgi_vars :: "nat \<Rightarrow> 't \<Rightarrow> 't"
  perl_vtbl_set :: "string \<Rightarrow> string \<Rightarrow> 'e \<Rightarrow> 'e"
  perl_vtbl_clear :: "string \<Rightarrow> 'e \<Rightarrow> 'e"
  perl_vtbl_set_all :: "(string \<times> string) list \<Rightarrow> 'e \<Rightarrow> 'e"
  perl_vtbl_clear_all :: "'e \<Rightarrow> 'e"

definition get_renv :: "('t, 'e) env_state \<Rightarrow> nat \<Rightarrow> 't req_env res" where
  "get_renv st r = (case renv st r of None \<Rightarrow> Inl UseAfterFree | Some x \<Rightarrow> Inr x)"

definition put_renv :: "nat \<Rightarrow> 't req_env \<Rightarrow> ('t, 'e) env_state \<Rightarrow> ('t, 'e) env_state" where
  "put_renv r x st = st\<lparr>renv := (renv st)(r \<mapsto> x)\<rparr>"

section \<open>Storing into the hash\<close>

definition modperl_env_hv_store :: "string \<Rightarrow> string \<Rightarrow> ('t, 'e) env_state \<Rightarrow> ('t, 'e) env_state" where
  "modperl_env_hv_store key val st = st\<lparr>envhv := (envhv st)(key \<mapsto> (val, True))\<rparr>"

definition modperl_env_hv_delete :: "string \<Rightarrow> ('t, 'e) env_state \<Rightarrow> ('t, 'e) env_state" where
  "modperl_env_hv_delete key st = (if envhv st key \<noteq> None then st\<lparr>envhv := (envhv st)(key := None)\<rparr> else st)"

definition modperl_env_clear :: "('t, 'e) env_state \<Rightarrow> ('t, 'e) env_state" where
  "modperl_env_clear st = st\<lparr>envhv := (\<lambda>_. None)\<rparr>"

fun populate_loop :: "(string \<times> string) list \<Rightarrow> ('t, 'e) env_state \<Rightarrow> ('t, 'e) env_state" where
  "populate_loop [] st = st"
| "populate_loop (e # es) st = populate_loop es (modperl_env_hv_store (fst e) (snd e) st)"

definition modperl_env_table_populate :: "('t, 'e) env_ops \<Rightarrow> 't \<Rightarrow> ('t, 'e) env_state \<Rightarrow> ('t, 'e) env_state" where
  "modperl_env_table_populate A t st = populate_loop (apr_table_elts (etab A) t) st"

fun unpopulate_loop :: "(string \<times> string) list \<Rightarrow> ('t, 'e) env_state \<Rightarrow> ('t, 'e) env_state" where
  "unpopulate_loop [] st = st"
| "unpopulate_loop (e # es) st = unpopulate_loop es (modperl_env_hv_delete (fst e) st)"

definition modperl_env_table_unpopulate :: "('t, 'e) env_ops \<Rightarrow> 't \<Rightarrow> ('t, 'e) env_state \<Rightarrow> ('t, 'e) env_state" where
  "modperl_env_table_unpopulate A t st = unpopulate_loop (apr_table_elts (etab A) t) st"

text \<open>\<open>modperl_env_sync_table\<close> updates the table it walks. The keys of the configuration tables are distinct, so an update
  changes a value in place and the walk sees every entry.\<close>

fun sync_loop :: "('t, 'e) env_ops \<Rightarrow> (string \<Rightarrow> (string \<times> bool) option) \<Rightarrow> (string \<times> string) list \<Rightarrow> 't \<Rightarrow> 't" where
  "sync_loop A hv [] t = t"
| "sync_loop A hv (e # es) t =
     sync_loop A hv es (case hv (fst e) of None \<Rightarrow> t | Some (v, _) \<Rightarrow> apr_table_setn (etab A) (fst e) v t)"

definition modperl_env_sync_table :: "('t, 'e) env_ops \<Rightarrow> ('t, 'e) env_state \<Rightarrow> 't \<Rightarrow> 't" where
  "modperl_env_sync_table A st t = sync_loop A (envhv st) (apr_table_elts (etab A) t) t"

definition modperl_env_sync_srv_env_hash2table ::
    "('t, 'e) env_ops \<Rightarrow> ('t, 'e) env_state \<Rightarrow> 't srv_cfg \<Rightarrow> 't srv_cfg" where
  "modperl_env_sync_srv_env_hash2table A st scfg =
     scfg\<lparr>s_SetEnv := modperl_env_sync_table A st (s_SetEnv scfg), s_PassEnv := modperl_env_sync_table A st (s_PassEnv scfg)\<rparr>"

definition modperl_env_sync_dir_env_hash2table ::
    "('t, 'e) env_ops \<Rightarrow> ('t, 'e) env_state \<Rightarrow> 't dir_cfg \<Rightarrow> 't dir_cfg" where
  "modperl_env_sync_dir_env_hash2table A st dcfg = dcfg\<lparr>d_SetEnv := modperl_env_sync_table A st (d_SetEnv dcfg)\<rparr>"

section \<open>Configuration and requests\<close>

definition MP_env_pass_defaults :: "string list" where
  "MP_env_pass_defaults = [''PATH'', ''TZ'']"

fun pass_defaults_loop :: "('t, 'e) env_ops \<Rightarrow> 'e \<Rightarrow> 't \<Rightarrow> string list \<Rightarrow> 't \<Rightarrow> 't" where
  "pass_defaults_loop A env setenv [] passenv = passenv"
| "pass_defaults_loop A env setenv (key # keys) passenv =
     pass_defaults_loop A env setenv keys
       (if apr_table_get (etab A) setenv key \<noteq> None \<or> apr_table_get (etab A) passenv key \<noteq> None then passenv
        else case getenv A key env of None \<Rightarrow> passenv | Some v \<Rightarrow> apr_table_setn (etab A) key v passenv)"

definition modperl_env_configure_server ::
    "('t, 'e) env_ops \<Rightarrow> 't srv_cfg \<Rightarrow> ('t, 'e) env_state \<Rightarrow> 't srv_cfg \<times> ('t, 'e) env_state" where
  "modperl_env_configure_server A scfg st =
     (let passenv = pass_defaults_loop A (environ st) (s_SetEnv scfg) MP_env_pass_defaults (s_PassEnv scfg)
      in (scfg\<lparr>s_PassEnv := passenv\<rparr>,
          modperl_env_table_populate A passenv (modperl_env_table_populate A (s_SetEnv scfg) st)))"

definition modperl_env_configure_request_dir ::
    "('t, 'e) env_ops \<Rightarrow> nat \<Rightarrow> 't dir_cfg \<Rightarrow> ('t, 'e) env_state \<Rightarrow> ('t, 'e) env_state res" where
  "modperl_env_configure_request_dir A r dcfg st =
     (let T = etab A; empty = apr_is_empty_table T (d_SetEnv dcfg);
          st1 = (if empty then st else modperl_env_table_populate A (d_SetEnv dcfg) st)
      in and_then (get_renv st1 r) (\<lambda>q.
         Inr (put_renv r (q\<lparr>subprocess_env :=
                (if empty then subprocess_env q
                 else apr_table_overlap_set T (subprocess_env q) (apr_table_copy T (d_SetEnv dcfg))),
              PERL_SET_ENV_DIR := True\<rparr>) st1)))"

definition overlay_env :: "('t, 'e) env_ops \<Rightarrow> 't \<Rightarrow> 't req_env \<times> ('t, 'e) env_state \<Rightarrow> 't req_env \<times> ('t, 'e) env_state" where
  "overlay_env A tab = (\<lambda>(q, st).
     if apr_is_empty_table (etab A) tab then (q, st)
     else (q\<lparr>subprocess_env := apr_table_overlay (etab A) (subprocess_env q) tab\<rparr>, modperl_env_table_populate A tab st))"

definition modperl_env_configure_request_srv ::
    "('t, 'e) env_ops \<Rightarrow> nat \<Rightarrow> 't srv_cfg \<Rightarrow> ('t, 'e) env_state \<Rightarrow> ('t, 'e) env_state res" where
  "modperl_env_configure_request_srv A r scfg st =
     and_then (get_renv st r) (\<lambda>q.
       let (q', st') = overlay_env A (s_PassEnv scfg) (overlay_env A (s_SetEnv scfg) (q, st))
       in Inr (put_renv r (q'\<lparr>PERL_SET_ENV_SRV := True\<rparr>) st'))"

fun default_loop :: "(string \<times> string) list \<Rightarrow> ('t, 'e) env_state \<Rightarrow> ('t, 'e) env_state" where
  "default_loop [] st = st"
| "default_loop (e # es) st = default_loop es (st\<lparr>envhv := (envhv st)(fst e \<mapsto> (snd e, False))\<rparr>)"

definition modperl_env_default_populate :: "('t, 'e) env_ops \<Rightarrow> ('t, 'e) env_state \<Rightarrow> ('t, 'e) env_state" where
  "modperl_env_default_populate A st = default_loop (env_const_vars A) st"

definition modperl_env_request_populate ::
    "('t, 'e) env_ops \<Rightarrow> nat \<Rightarrow> ('t, 'e) env_state \<Rightarrow> ('t, 'e) env_state res" where
  "modperl_env_request_populate A r st =
     and_then (get_renv st r) (\<lambda>q.
       let sub = (if SETUP_ENV q then subprocess_env q else add_cgi_vars A r (subprocess_env q))
       in Inr (put_renv r (q\<lparr>subprocess_env := sub, SETUP_ENV := True\<rparr>) (modperl_env_table_populate A sub st)))"

definition modperl_env_request_unpopulate ::
    "('t, 'e) env_ops \<Rightarrow> nat \<Rightarrow> ('t, 'e) env_state \<Rightarrow> ('t, 'e) env_state res" where
  "modperl_env_request_unpopulate A r st =
     and_then (get_renv st r) (\<lambda>q.
       if \<not> SETUP_ENV q then Inr st
       else Inr (put_renv r (q\<lparr>SETUP_ENV := False\<rparr>) (modperl_env_table_unpopulate A (subprocess_env q) st)))"

text \<open>\<open>modperl_config_request_cleanup\<close> (\<^verbatim>\<open>modperl_config.c\<close>): \<open>run\<close> runs the cleanup handlers.\<close>

definition modperl_config_request_cleanup ::
    "('t, 'e) env_ops \<Rightarrow> (('t, 'e) env_state \<Rightarrow> (int \<times> ('t, 'e) env_state) res) \<Rightarrow> nat \<Rightarrow> ('t, 'e) env_state
      \<Rightarrow> (int \<times> ('t, 'e) env_state) res" where
  "modperl_config_request_cleanup A run r st =
     and_then (run st) (\<lambda>(retval, st1).
     and_then (get_renv st1 r) (\<lambda>q.
       if SETUP_ENV q then and_then (modperl_env_request_unpopulate A r st1) (\<lambda>st2. Inr (retval, st2))
       else Inr (retval, st1)))"

section \<open>Magic\<close>

definition modperl_env_request_tie :: "nat \<Rightarrow> ('t, 'e) env_state \<Rightarrow> ('t, 'e) env_state" where
  "modperl_env_request_tie r st = (if env_mg_ok st then st\<lparr>env_mg_obj := Some r\<rparr> else st)"

definition modperl_env_request_untie :: "nat \<Rightarrow> ('t, 'e) env_state \<Rightarrow> ('t, 'e) env_state" where
  "modperl_env_request_untie r st = (if env_mg_ok st then st\<lparr>env_mg_obj := None\<rparr> else st)"

definition modperl_env_init :: "('t, 'e) env_state \<Rightarrow> ('t, 'e) env_state" where
  "modperl_env_init st = st\<lparr>mp_vtbl := True\<rparr>"

definition modperl_env_unload :: "('t, 'e) env_state \<Rightarrow> ('t, 'e) env_state" where
  "modperl_env_unload st = st\<lparr>mp_vtbl := False\<rparr>"

text \<open>The table of the request, when the hash is tied to one; otherwise the original virtual table is called.\<close>

definition EnvMgObj :: "('t, 'e) env_state \<Rightarrow> nat option" where
  "EnvMgObj st = (if env_mg_ok st then env_mg_obj st else None)"

definition with_request ::
    "('t \<Rightarrow> 't) \<Rightarrow> ('e \<Rightarrow> 'e) \<Rightarrow> ('t, 'e) env_state \<Rightarrow> ('t, 'e) env_state res" where
  "with_request f g st = (case EnvMgObj st of
       Some r \<Rightarrow> and_then (get_renv st r) (\<lambda>q. Inr (put_renv r (q\<lparr>subprocess_env := f (subprocess_env q)\<rparr>) st))
     | None \<Rightarrow> Inr (st\<lparr>environ := g (environ st)\<rparr>))"

definition modperl_env_magic_set :: "('t, 'e) env_ops \<Rightarrow> string \<Rightarrow> string \<Rightarrow> ('t, 'e) env_state \<Rightarrow> ('t, 'e) env_state res" where
  "modperl_env_magic_set A key val = with_request (apr_table_setn (etab A) key val) (perl_vtbl_set A key val)"

definition modperl_env_magic_clear :: "('t, 'e) env_ops \<Rightarrow> string \<Rightarrow> ('t, 'e) env_state \<Rightarrow> ('t, 'e) env_state res" where
  "modperl_env_magic_clear A key = with_request (apr_table_unset (etab A) key) (perl_vtbl_clear A key)"

definition modperl_env_magic_clear_all :: "('t, 'e) env_ops \<Rightarrow> ('t, 'e) env_state \<Rightarrow> ('t, 'e) env_state res" where
  "modperl_env_magic_clear_all A = with_request (\<lambda>_. apr_table_make (etab A)) (perl_vtbl_clear_all A)"

definition modperl_env_magic_set_all ::
    "('t, 'e) env_ops \<Rightarrow> bool \<Rightarrow> (string \<times> string) list \<Rightarrow> ('t, 'e) env_state \<Rightarrow> ('t, 'e) env_state res" where
  "modperl_env_magic_set_all A localizing entries =
     with_request (\<lambda>t. if localizing then fold (\<lambda>e. apr_table_setn (etab A) (fst e) (snd e)) entries t else t)
       (perl_vtbl_set_all A entries)"

section \<open>Perl code and whole requests\<close>

text \<open>What Perl code does to \<open>%ENV\<close>: Perl changes the hash, then calls the function of the virtual table in force.\<close>

datatype env_op = Assign string string | Delete string | Clear | Local "(string \<times> string) list"

definition vtbl_call ::
    "(('t, 'e) env_state \<Rightarrow> ('t, 'e) env_state res) \<Rightarrow> ('e \<Rightarrow> 'e) \<Rightarrow> ('t, 'e) env_state \<Rightarrow> ('t, 'e) env_state res" where
  "vtbl_call f g st = (if mp_vtbl st then f st else Inr (st\<lparr>environ := g (environ st)\<rparr>))"

fun env_perl_op :: "('t, 'e) env_ops \<Rightarrow> env_op \<Rightarrow> ('t, 'e) env_state \<Rightarrow> ('t, 'e) env_state res" where
  "env_perl_op A (Assign k v) st =
     vtbl_call (modperl_env_magic_set A k v) (perl_vtbl_set A k v) (st\<lparr>envhv := (envhv st)(k \<mapsto> (v, False))\<rparr>)"
| "env_perl_op A (Delete k) st =
     vtbl_call (modperl_env_magic_clear A k) (perl_vtbl_clear A k) (st\<lparr>envhv := (envhv st)(k := None)\<rparr>)"
| "env_perl_op A Clear st =
     vtbl_call (modperl_env_magic_clear_all A) (perl_vtbl_clear_all A) (st\<lparr>envhv := (\<lambda>_. None)\<rparr>)"
| "env_perl_op A (Local es) st =
     vtbl_call (modperl_env_magic_set_all A True es) (perl_vtbl_set_all A es)
       (st\<lparr>envhv := (\<lambda>k. map_option (\<lambda>v. (v, False)) (map_of (rev es) k))\<rparr>)"

fun env_perl_ops :: "('t, 'e) env_ops \<Rightarrow> env_op list \<Rightarrow> ('t, 'e) env_state \<Rightarrow> ('t, 'e) env_state res" where
  "env_perl_ops A [] st = Inr st"
| "env_perl_ops A (x # xs) st = and_then (env_perl_op A x st) (env_perl_ops A xs)"

fun op_keys :: "env_op \<Rightarrow> string set" where
  "op_keys (Assign k v) = {k}"
| "op_keys (Delete k) = {k}"
| "op_keys Clear = {}"
| "op_keys (Local es) = fst ` set es"

text \<open>
  A request for a \<open>perl-script\<close> handler as far as the environment is concerned: the phases configure the environment, the response handler
  fills \<open>%ENV\<close> and runs tied to the request, the cleanup ends the request.
\<close>

definition perl_script_request ::
    "('t, 'e) env_ops \<Rightarrow> nat \<Rightarrow> 't srv_cfg \<Rightarrow> 't dir_cfg \<Rightarrow> env_op list \<Rightarrow> (('t, 'e) env_state \<Rightarrow> (int \<times> ('t, 'e) env_state) res)
      \<Rightarrow> ('t, 'e) env_state \<Rightarrow> (int \<times> ('t, 'e) env_state) res" where
  "perl_script_request A r scfg dcfg xs run st =
     and_then (modperl_env_configure_request_srv A r scfg st) (\<lambda>st1.
     and_then (modperl_env_configure_request_dir A r dcfg st1) (\<lambda>st2.
     and_then (modperl_env_request_populate A r st2) (\<lambda>st3.
     and_then (env_perl_ops A xs (modperl_env_request_tie r st3)) (\<lambda>st4.
       modperl_config_request_cleanup A run r (modperl_env_request_untie r st4)))))"

section \<open>Nothing of a request is left\<close>

subsection \<open>The loops\<close>

lemma populate_loop_fields [simp]:
  "renv (populate_loop es st) = renv st" "environ (populate_loop es st) = environ st"
  "env_mg_ok (populate_loop es st) = env_mg_ok st" "env_mg_obj (populate_loop es st) = env_mg_obj st"
  "mp_vtbl (populate_loop es st) = mp_vtbl st"
  by (induction es arbitrary: st) (simp_all add: modperl_env_hv_store_def)

lemma populate_loop_hv:
  "envhv (populate_loop es st) k = (case map_of (rev es) k of Some v \<Rightarrow> Some (v, True) | None \<Rightarrow> envhv st k)"
  by (induction es arbitrary: st) (auto simp: modperl_env_hv_store_def map_add_def split: option.splits)

lemma populate_loop_other: "k \<notin> fst ` set es \<Longrightarrow> envhv (populate_loop es st) k = envhv st k"
  by (induction es arbitrary: st) (auto simp: modperl_env_hv_store_def)

lemma populate_loop_eq:
  "populate_loop es st =
     st\<lparr>envhv := (\<lambda>k. case map_of (rev es) k of Some v \<Rightarrow> Some (v, True) | None \<Rightarrow> envhv st k)\<rparr>"
proof (rule env_state.equality)
  show "env_state.more (populate_loop es st) =
      env_state.more (st\<lparr>envhv := (\<lambda>k. case map_of (rev es) k of Some v \<Rightarrow> Some (v, True) | None \<Rightarrow> envhv st k)\<rparr>)" by simp
qed (auto simp: populate_loop_hv)

lemma unpopulate_loop_fields [simp]:
  "renv (unpopulate_loop es st) = renv st" "environ (unpopulate_loop es st) = environ st"
  "env_mg_ok (unpopulate_loop es st) = env_mg_ok st" "env_mg_obj (unpopulate_loop es st) = env_mg_obj st"
  "mp_vtbl (unpopulate_loop es st) = mp_vtbl st"
  by (induction es arbitrary: st) (simp_all add: modperl_env_hv_delete_def)

lemma unpopulate_loop_hv: "envhv (unpopulate_loop es st) k = (if k \<in> fst ` set es then None else envhv st k)"
  by (induction es arbitrary: st) (auto simp: modperl_env_hv_delete_def)

subsection \<open>The invariant of a request\<close>

text \<open>\<open>K\<close> holds the names in use; two of them never differ in case only.\<close>

definition case_distinct :: "string set \<Rightarrow> bool" where
  "case_distinct K \<longleftrightarrow> (\<forall>a\<in>K. \<forall>b\<in>K. strcase_eq a b \<longrightarrow> a = b)"

lemma tvals_in_keys:
  assumes "case_distinct K" "tkeys T t \<subseteq> K" "k \<in> K"
  shows "tvals T k t \<noteq> [] \<longleftrightarrow> k \<in> tkeys T t"
  using assms strcase_eq_refl [of k] unfolding tvals_keys case_distinct_def by blast

definition env_tracks ::
    "('t, 'e) env_ops \<Rightarrow> nat \<Rightarrow> string set \<Rightarrow> ('t, 'e) env_state \<Rightarrow> ('t, 'e) env_state \<Rightarrow> bool" where
  "env_tracks A r K st0 st \<longleftrightarrow> environ st = environ st0 \<and> env_mg_ok st \<and> mp_vtbl st \<and>
     (\<exists>q. renv st r = Some q \<and> tkeys (etab A) (subprocess_env q) \<subseteq> K \<and>
       (\<forall>k. envhv st k = envhv st0 k \<or> envhv st k = None \<or> k \<in> K \<and> tvals (etab A) k (subprocess_env q) \<noteq> []))"

lemma tracks_step:
  assumes "env_tracks A r K st0 st" "renv st r = Some q"
    and "environ st' = environ st" "env_mg_ok st' = env_mg_ok st" "mp_vtbl st' = mp_vtbl st"
    and "renv st' r = Some q'" "tkeys (etab A) (subprocess_env q') \<subseteq> K"
    and "\<And>k. envhv st' k = envhv st k \<and>
               (k \<in> K \<and> tvals (etab A) k (subprocess_env q) \<noteq> [] \<longrightarrow> tvals (etab A) k (subprocess_env q') \<noteq> [])
            \<or> envhv st' k = None \<or> k \<in> K \<and> tvals (etab A) k (subprocess_env q') \<noteq> []"
  shows "env_tracks A r K st0 st'"
proof -
  have "envhv st' k = envhv st0 k \<or> envhv st' k = None \<or> k \<in> K \<and> tvals (etab A) k (subprocess_env q') \<noteq> []" for k
    using assms(1,2) assms(8) [of k] unfolding env_tracks_def by auto
  then show ?thesis using assms(1,3-7) unfolding env_tracks_def by auto
qed

lemma tracks_populate:
  assumes "env_tracks A r K st0 st" "renv st r = Some q" "tkeys (etab A) t \<subseteq> K" "tkeys (etab A) (subprocess_env q') \<subseteq> K"
    and "\<And>k. tvals (etab A) k (subprocess_env q) \<noteq> [] \<Longrightarrow> tvals (etab A) k (subprocess_env q') \<noteq> []"
    and "\<And>k. tvals (etab A) k t \<noteq> [] \<Longrightarrow> tvals (etab A) k (subprocess_env q') \<noteq> []"
  shows "env_tracks A r K st0 (put_renv r q' (modperl_env_table_populate A t st))"
proof (rule tracks_step [OF assms(1,2)])
  fix k
  show "envhv (put_renv r q' (modperl_env_table_populate A t st)) k = envhv st k \<and>
      (k \<in> K \<and> tvals (etab A) k (subprocess_env q) \<noteq> [] \<longrightarrow> tvals (etab A) k (subprocess_env q') \<noteq> []) \<or>
      envhv (put_renv r q' (modperl_env_table_populate A t st)) k = None \<or>
      k \<in> K \<and> tvals (etab A) k (subprocess_env q') \<noteq> []"
  proof (cases "k \<in> tkeys (etab A) t")
    case True
    then have "tvals (etab A) k t \<noteq> []" unfolding tvals_keys using strcase_eq_refl by blast
    then have "tvals (etab A) k (subprocess_env q') \<noteq> []" by (rule assms(6))
    then show ?thesis using True assms(3) by blast
  next
    case False
    then have "envhv (put_renv r q' (modperl_env_table_populate A t st)) k = envhv st k"
      by (simp add: put_renv_def modperl_env_table_populate_def populate_loop_other tkeys_def)
    then show ?thesis using assms(5) by blast
  qed
qed (use assms(4) in \<open>simp_all add: put_renv_def modperl_env_table_populate_def\<close>)

lemma tracks_put:
  assumes "env_tracks A r K st0 st" "renv st r = Some q" "subprocess_env q' = subprocess_env q"
  shows "env_tracks A r K st0 (put_renv r q' st)"
proof (rule tracks_step [OF assms(1,2)])
  show "tkeys (etab A) (subprocess_env q') \<subseteq> K" using assms by (auto simp: env_tracks_def)
qed (auto simp: put_renv_def assms(3))

lemma tracks_renv: "env_tracks A r K st0 st \<Longrightarrow> \<exists>q. renv st r = Some q \<and> tkeys (etab A) (subprocess_env q) \<subseteq> K"
  by (auto simp: env_tracks_def)

lemma tracks_overlay:
  assumes "apr_table_laws (etab A)" "env_tracks A r K st0 (put_renv r q st)" "tkeys (etab A) t \<subseteq> K" "overlay_env A t (q, st) = (q', st')"
  shows "env_tracks A r K st0 (put_renv r q' st')"
proof (cases "apr_is_empty_table (etab A) t")
  case False
  have k: "tkeys (etab A) (subprocess_env q) \<subseteq> K" using assms(2) by (auto simp: env_tracks_def put_renv_def)
  let ?q = "q\<lparr>subprocess_env := apr_table_overlay (etab A) (subprocess_env q) t\<rparr>"
  have "env_tracks A r K st0 (put_renv r ?q (modperl_env_table_populate A t (put_renv r q st)))"
  proof (rule tracks_populate [OF assms(2) _ assms(3)])
    show "tkeys (etab A) (subprocess_env ?q) \<subseteq> K"
      using apr_table_keysD(5) [OF assms(1), of "subprocess_env q" t] k assms(3) by auto
  qed (auto simp: put_renv_def apr_table_lawsD [OF assms(1)])
  moreover have "put_renv r ?q (modperl_env_table_populate A t (put_renv r q st)) = put_renv r ?q (modperl_env_table_populate A t st)"
    by (simp add: put_renv_def modperl_env_table_populate_def populate_loop_eq cong: option.case_cong)
  ultimately show ?thesis using False assms(4) by (auto simp: overlay_env_def)
qed (use assms in \<open>auto simp: overlay_env_def\<close>)

lemma tracks_configure_srv:
  assumes "apr_table_laws (etab A)" "env_tracks A r K st0 st"
    and "tkeys (etab A) (s_SetEnv scfg) \<subseteq> K" "tkeys (etab A) (s_PassEnv scfg) \<subseteq> K"
  shows "\<exists>st'. modperl_env_configure_request_srv A r scfg st = Inr st' \<and> env_tracks A r K st0 st'"
proof -
  obtain q where q: "renv st r = Some q" using tracks_renv [OF assms(2)] by auto
  obtain q1 st1 where 1: "overlay_env A (s_SetEnv scfg) (q, st) = (q1, st1)" by force
  obtain q2 st2 where 2: "overlay_env A (s_PassEnv scfg) (q1, st1) = (q2, st2)" by force
  have "put_renv r q st = st" using q by (simp add: put_renv_def fun_upd_idem)
  then have "env_tracks A r K st0 (put_renv r q2 st2)"
    using tracks_overlay [OF assms(1) tracks_overlay [OF assms(1) _ assms(3) 1] assms(4) 2] assms(2) by simp
  then have "env_tracks A r K st0 (put_renv r (q2\<lparr>PERL_SET_ENV_SRV := True\<rparr>) (put_renv r q2 st2))"
    by (rule tracks_put [where q = q2]) (simp_all add: put_renv_def)
  moreover have "put_renv r (q2\<lparr>PERL_SET_ENV_SRV := True\<rparr>) (put_renv r q2 st2) = put_renv r (q2\<lparr>PERL_SET_ENV_SRV := True\<rparr>) st2"
    by (simp add: put_renv_def)
  ultimately show ?thesis by (simp add: modperl_env_configure_request_srv_def get_renv_def q 1 2)
qed

lemma tracks_configure_dir:
  assumes "apr_table_laws (etab A)" "env_tracks A r K st0 st" "tkeys (etab A) (d_SetEnv dcfg) \<subseteq> K"
  shows "\<exists>st'. modperl_env_configure_request_dir A r dcfg st = Inr st' \<and> env_tracks A r K st0 st'"
proof -
  obtain q where q: "renv st r = Some q" "tkeys (etab A) (subprocess_env q) \<subseteq> K" using tracks_renv [OF assms(2)] by auto
  show ?thesis
  proof (cases "apr_is_empty_table (etab A) (d_SetEnv dcfg)")
    case True
    with q tracks_put [OF assms(2) q(1), of "q\<lparr>PERL_SET_ENV_DIR := True\<rparr>"] show ?thesis
      by (simp add: modperl_env_configure_request_dir_def get_renv_def)
  next
    case False
    let ?sub = "apr_table_overlap_set (etab A) (subprocess_env q) (apr_table_copy (etab A) (d_SetEnv dcfg))"
    let ?q = "q\<lparr>subprocess_env := ?sub, PERL_SET_ENV_DIR := True\<rparr>"
    have "tkeys (etab A) ?sub \<subseteq> K"
      using apr_table_keysD(4) [OF assms(1)] apr_table_keysD(6) [OF assms(1)] q(2) assms(3) by blast
    then have "env_tracks A r K st0 (put_renv r ?q (modperl_env_table_populate A (d_SetEnv dcfg) st))"
      using assms(3) by (intro tracks_populate [OF assms(2) q(1)]) (auto simp: apr_table_lawsD [OF assms(1)])
    with False q(1) show ?thesis
      by (simp add: modperl_env_configure_request_dir_def get_renv_def modperl_env_table_populate_def Let_def)
  qed
qed

text \<open>Httpd adds CGI variables and takes none away.\<close>

definition cgi_vars_ok :: "('t, 'e) env_ops \<Rightarrow> string set \<Rightarrow> bool" where
  "cgi_vars_ok A K \<longleftrightarrow> (\<forall>r t. tkeys (etab A) t \<subseteq> K \<longrightarrow> tkeys (etab A) (add_cgi_vars A r t) \<subseteq> K) \<and>
     (\<forall>r t k. tvals (etab A) k t \<noteq> [] \<longrightarrow> tvals (etab A) k (add_cgi_vars A r t) \<noteq> [])"

lemma tracks_request_populate:
  assumes "env_tracks A r K st0 st" "cgi_vars_ok A K"
  shows "\<exists>st' q. modperl_env_request_populate A r st = Inr st' \<and> env_tracks A r K st0 st' \<and> renv st' r = Some q \<and> SETUP_ENV q"
proof -
  obtain q where q: "renv st r = Some q" "tkeys (etab A) (subprocess_env q) \<subseteq> K" using tracks_renv [OF assms(1)] by auto
  let ?sub = "if SETUP_ENV q then subprocess_env q else add_cgi_vars A r (subprocess_env q)"
  have sub: "tkeys (etab A) ?sub \<subseteq> K" "\<And>k. tvals (etab A) k (subprocess_env q) \<noteq> [] \<Longrightarrow> tvals (etab A) k ?sub \<noteq> []"
    using q(2) assms(2) by (auto simp: cgi_vars_ok_def)
  have "env_tracks A r K st0 (put_renv r (q\<lparr>subprocess_env := ?sub, SETUP_ENV := True\<rparr>) (modperl_env_table_populate A ?sub st))"
    by (rule tracks_populate [OF assms(1) q(1) sub(1)]) (use sub in simp_all)
  then show ?thesis by (simp add: modperl_env_request_populate_def get_renv_def q(1) put_renv_def Let_def)
qed

definition tied_to :: "nat \<Rightarrow> ('t, 'e) env_state \<Rightarrow> bool" where
  "tied_to r st \<longleftrightarrow> env_mg_ok st \<and> env_mg_obj st = Some r \<and> mp_vtbl st \<and> (\<exists>q. renv st r = Some q \<and> SETUP_ENV q)"

lemma tracks_tied_op:
  assumes "env_tracks A r K st0 st" "tied_to r st" "renv st r = Some q"
    and "tkeys (etab A) (f (subprocess_env q)) \<subseteq> K"
    and "\<And>k. hv k = envhv st k \<and>
               (k \<in> K \<and> tvals (etab A) k (subprocess_env q) \<noteq> [] \<longrightarrow> tvals (etab A) k (f (subprocess_env q)) \<noteq> [])
            \<or> hv k = None \<or> k \<in> K \<and> tvals (etab A) k (f (subprocess_env q)) \<noteq> []"
  shows "\<exists>st'. vtbl_call (with_request f g) h (st\<lparr>envhv := hv\<rparr>) = Inr st' \<and> env_tracks A r K st0 st' \<and> tied_to r st'"
proof -
  let ?st = "put_renv r (q\<lparr>subprocess_env := f (subprocess_env q)\<rparr>) (st\<lparr>envhv := hv\<rparr>)"
  have "env_tracks A r K st0 ?st"
    by (rule tracks_step [where q' = "q\<lparr>subprocess_env := f (subprocess_env q)\<rparr>", OF assms(1,3)])
      (use assms(4,5) in \<open>simp_all add: put_renv_def\<close>)
  moreover have "tied_to r ?st" using assms(2,3) by (simp add: tied_to_def put_renv_def)
  ultimately show ?thesis
    using assms(2,3) by (simp add: vtbl_call_def with_request_def EnvMgObj_def tied_to_def get_renv_def)
qed

lemma fold_setn_keys:
  assumes "apr_table_laws T" "fst ` set es \<subseteq> K" "tkeys T t \<subseteq> K"
  shows "tkeys T (fold (\<lambda>e. apr_table_setn T (fst e) (snd e)) es t) \<subseteq> K"
  using assms(2,3)
proof (induction es arbitrary: t)
  case (Cons e es)
  have "tkeys T (apr_table_setn T (fst e) (snd e) t) \<subseteq> K"
    using apr_table_keysD(2) [OF assms(1), of "fst e" "snd e" t] Cons.prems by auto
  with Cons show ?case by simp
qed simp

lemma fold_setn_vals:
  assumes "apr_table_laws T" "(\<exists>e\<in>set es. strcase_eq k (fst e)) \<or> tvals T k t \<noteq> []"
  shows "tvals T k (fold (\<lambda>e. apr_table_setn T (fst e) (snd e)) es t) \<noteq> []"
  using assms(2) by (induction es arbitrary: t) (auto simp: apr_table_lawsD [OF assms(1)])

lemma tracks_op:
  assumes laws: "apr_table_laws (etab A)" and K: "case_distinct K" and x: "op_keys x \<subseteq> K"
    and st: "env_tracks A r K st0 st" "tied_to r st"
  shows "\<exists>st'. env_perl_op A x st = Inr st' \<and> env_tracks A r K st0 st' \<and> tied_to r st'"
proof -
  obtain q where q: "renv st r = Some q" "tkeys (etab A) (subprocess_env q) \<subseteq> K" using tracks_renv [OF st(1)] by auto
  note step = tracks_tied_op [OF st q(1)]
  show ?thesis
  proof (cases x)
    case (Assign k v)
    have "tkeys (etab A) (apr_table_setn (etab A) k v (subprocess_env q)) \<subseteq> K"
      using apr_table_keysD(2) [OF laws, of k v "subprocess_env q"] q(2) x Assign by auto
    then show ?thesis using x unfolding Assign env_perl_op.simps modperl_env_magic_set_def
      by (intro step) (auto simp: apr_table_lawsD [OF laws])
  next
    case (Delete k)
    have "tkeys (etab A) (apr_table_unset (etab A) k (subprocess_env q)) \<subseteq> K"
      using apr_table_keysD(3) [OF laws, of k "subprocess_env q"] q(2) by auto
    then show ?thesis using x K unfolding Delete env_perl_op.simps modperl_env_magic_clear_def
      by (intro step) (auto simp: apr_table_lawsD [OF laws] case_distinct_def)
  next
    case Clear
    show ?thesis unfolding Clear env_perl_op.simps modperl_env_magic_clear_all_def
      by (intro step) (auto simp: apr_table_keysD(1) [OF laws])
  next
    case (Local es)
    have es: "fst ` set es \<subseteq> K" using x Local by simp
    have hv: "map_option (\<lambda>v. (v, False)) (map_of (rev es) k) = None \<or>
        k \<in> K \<and> tvals (etab A) k (fold (\<lambda>e. apr_table_setn (etab A) (fst e) (snd e)) es (subprocess_env q)) \<noteq> []" for k
    proof (cases "k \<in> fst ` set es")
      case True
      then have "\<exists>e\<in>set es. strcase_eq k (fst e)" using strcase_eq_refl by blast
      then show ?thesis using fold_setn_vals [OF laws] True es by blast
    next
      case False
      then show ?thesis by (simp add: map_of_eq_None_iff)
    qed
    show ?thesis unfolding Local env_perl_op.simps modperl_env_magic_set_all_def
      by (intro step) (use fold_setn_keys [OF laws es q(2)] hv in \<open>simp_all\<close>)
  qed
qed

lemma tracks_ops:
  assumes "apr_table_laws (etab A)" "case_distinct K" "\<forall>x\<in>set xs. op_keys x \<subseteq> K" "env_tracks A r K st0 st" "tied_to r st"
  shows "\<exists>st'. env_perl_ops A xs st = Inr st' \<and> env_tracks A r K st0 st' \<and> tied_to r st'"
  using assms(3-5)
proof (induction xs arbitrary: st)
  case (Cons x xs)
  then obtain st1 where "env_perl_op A x st = Inr st1" "env_tracks A r K st0 st1" "tied_to r st1"
    using tracks_op [OF assms(1,2), of x r st0 st] by auto
  with Cons.IH [of st1] Cons.prems(1) show ?case by simp
qed simp


definition demo_env_ops :: "((string \<times> string) list, string \<Rightarrow> string option) env_ops" where
  "demo_env_ops = \<lparr>etab = list_tables, env_const_vars = [(''MOD_PERL'', ''mod_perl/2.0'')], getenv = (\<lambda>k e. e k),
     add_cgi_vars = (\<lambda>r t. t @ [(''QUERY_STRING'', ''a=b'')]), perl_vtbl_set = (\<lambda>k v e. e(k \<mapsto> v)), perl_vtbl_clear = (\<lambda>k e. e(k := None)),
     perl_vtbl_set_all = (\<lambda>es e. e ++ map_of es), perl_vtbl_clear_all = (\<lambda>e k. None)\<rparr>"

definition demo_env_state :: "((string \<times> string) list, string \<Rightarrow> string option) env_state" where
  "demo_env_state = \<lparr>envhv = [''PATH'' \<mapsto> (''/bin'', True)], env_mg_ok = True, env_mg_obj = None, environ = (\<lambda>_. None), mp_vtbl = True,
     renv = [0 \<mapsto> \<lparr>subprocess_env = [], PERL_SET_ENV_SRV = False, PERL_SET_ENV_DIR = False, SETUP_ENV = False\<rparr>]\<rparr>"


text \<open>
  Without \<open>SETUP_ENV\<close> (for example \<open>SetHandler modperl\<close>) the cleanup leaves \<open>%ENV\<close> alone, although the
  per-directory \<open>PerlSetEnv\<close> variables were stored in it: they stay there for the following requests of the interpreter, in
  whatever directory these are.
\<close>

theorem env_dir_setenv_persists:
  assumes "renv st r = Some q" "\<not> SETUP_ENV q" "map_of (rev (apr_table_elts (etab A) (d_SetEnv dcfg))) k = Some v"
    and "\<And>st. run st = Inr (n, st)"
  shows "\<exists>st1 st2. modperl_env_configure_request_dir A r dcfg st = Inr st1 \<and>
     modperl_config_request_cleanup A run r st1 = Inr (n, st2) \<and> envhv st2 k = Some (v, True)"
proof -
  have "\<not> apr_is_empty_table (etab A) (d_SetEnv dcfg)" using assms(3) by (auto simp: apr_is_empty_table_def)
  then show ?thesis using assms
    by (simp add: modperl_env_configure_request_dir_def Let_def modperl_env_table_populate_def get_renv_def put_renv_def
        modperl_config_request_cleanup_def populate_loop_hv)
qed

theorem env_dir_setenv_persists_witness:
  "\<exists>st1 st2. modperl_env_configure_request_dir demo_env_ops 0 ((dir_cfg_init demo_cfg_env)\<lparr>d_SetEnv := [(''A'', ''x'')]\<rparr>) demo_env_state = Inr st1 \<and>
     modperl_config_request_cleanup demo_env_ops (\<lambda>st. Inr (0, st)) 0 st1 = Inr (0, st2) \<and> envhv st2 ''A'' = Some (''x'', True)"
  by (rule env_dir_setenv_persists) (simp add: demo_env_state_def demo_env_ops_def list_tables_def)+

end
