(* ===== verification/Cmd.thy ===== *)
theory Cmd
  imports Env
begin

text \<open>
  The configuration directives, \<^verbatim>\<open>src/src/modules/perl/modperl_cmd.c\<close>. A directive gets the parameters \<open>cmd_parms\<close> of httpd and
  the per-directory configuration it stands in; it returns an error message or \<open>None\<close>.

  Outside a container \<open>parms->path\<close> is null and a directive acts on the configuration of the server, otherwise on that of the
  directory. Starting Perl (\<open>modperl_run\<close>, \<open>modperl_init_vhost\<close>) and loading Perl code are parameters.
\<close>

unbundle bit_operations_syntax

section \<open>State and parameters\<close>

record ('t, 'p, 'e) cmd_state =
  cst :: "('t, 'p) cfg_state"
  est :: "('t, 'e) env_state"
  running :: bool

record cmd_parms =
  cp_scfg :: nat
  cp_dcfg :: nat
  cp_path :: "string option"
  cp_access_conf :: bool            \<comment> \<open>\<open>parms->override & ACCESS_CONF\<close>\<close>
  cp_global_only :: "string option" \<comment> \<open>\<open>ap_check_cmd_context(parms, GLOBAL_ONLY)\<close>\<close>
  cp_is_virtual :: bool
  cp_hostname :: string
  cp_cmd_name :: string
  cp_directive :: string
  cp_parent :: string

type_synonym ('t, 'p, 'e) cmd_result = "(string option \<times> ('t, 'p, 'e) cmd_state) res"

text \<open>\<open>c_require\<close> loads a module (\<open>True\<close>) or a file and gives the error message if that fails;
  \<open>c_handler_cmd\<close> is a generated directive for a \<open>Perl*Handler\<close>; \<open>ap_getword\<close> is httpd's.\<close>

record ('t, 'p, 'e) cmd_env =
  c_cfg :: "('t, 'p) cfg_env"
  c_env :: "('t, 'e) env_ops"
  c_run :: "('t, 'p, 'e) cmd_state \<Rightarrow> ('t, 'p, 'e) cmd_state"
  c_init_vhost :: "nat \<Rightarrow> ('t, 'p, 'e) cmd_state \<Rightarrow> bool \<times> ('t, 'p, 'e) cmd_state"
  c_require :: "bool \<Rightarrow> string \<Rightarrow> ('t, 'p, 'e) cmd_state \<Rightarrow> string option \<times> ('t, 'p, 'e) cmd_state"
  c_handler_cmd :: "string \<Rightarrow> cmd_parms \<Rightarrow> string \<Rightarrow> ('t, 'p, 'e) cmd_state \<Rightarrow> ('t, 'p, 'e) cmd_result"
  c_trace_level :: "string \<Rightarrow> ('t, 'p, 'e) cmd_state \<Rightarrow> ('t, 'p, 'e) cmd_state"
  ap_getword :: "char \<Rightarrow> string \<Rightarrow> string \<times> string"
  MpSrv_f_INPUT_FILTER :: modperl_opts_t
  MP_INPUT_FILTER_HANDLER :: nat
  MP_OUTPUT_FILTER_HANDLER :: nat

definition cmd_dir :: "cmd_parms \<Rightarrow> ('t, 'p, 'e) cmd_state \<Rightarrow> 't dir_cfg res" where
  "cmd_dir parms st = get_dir (cst st) (cp_dcfg parms)"

definition cmd_srv :: "cmd_parms \<Rightarrow> ('t, 'p, 'e) cmd_state \<Rightarrow> 't srv_cfg res" where
  "cmd_srv parms st = get_srv (cst st) (cp_scfg parms)"

definition upd_dir :: "cmd_parms \<Rightarrow> ('t dir_cfg \<Rightarrow> 't dir_cfg) \<Rightarrow> ('t, 'p, 'e) cmd_state \<Rightarrow> ('t, 'p, 'e) cmd_state res" where
  "upd_dir parms f st = and_then (cmd_dir parms st) (\<lambda>d. Inr (st\<lparr>cst := put_dir (cp_dcfg parms) (f d) (cst st)\<rparr>))"

definition upd_srv :: "cmd_parms \<Rightarrow> ('t srv_cfg \<Rightarrow> 't srv_cfg) \<Rightarrow> ('t, 'p, 'e) cmd_state \<Rightarrow> ('t, 'p, 'e) cmd_state res" where
  "upd_srv parms f st = and_then (cmd_srv parms st) (\<lambda>s. Inr (st\<lparr>cst := put_srv (cp_scfg parms) (f s) (cst st)\<rparr>))"

definition ok :: "('t, 'p, 'e) cmd_state res \<Rightarrow> ('t, 'p, 'e) cmd_result" where
  "ok m = and_then m (\<lambda>st. Inr (None, st))"

section \<open>Handlers\<close>

definition modperl_cmd_unclosed_directive :: "cmd_parms \<Rightarrow> string" where
  "modperl_cmd_unclosed_directive parms = cp_cmd_name parms @ ''> directive missing closing '' @ [CHR 0x27] @ ''>'' @ [CHR 0x27]"

definition modperl_cmd_too_late :: "cmd_parms \<Rightarrow> string" where
  "modperl_cmd_too_late parms = ''mod_perl is already running, too late for '' @ cp_cmd_name parms"

definition slot_push :: "slot \<Rightarrow> handler \<Rightarrow> 'p hstate \<Rightarrow> 'p hstate res" where
  "slot_push sl h st =
     (let (a, st1) = new_handler h st in
      case slots st1 sl of
        None \<Rightarrow> Inr (slot_new sl [a] st1)
      | Some arr \<Rightarrow> and_then (get_array st1 arr) (\<lambda>xs. Inr (st1\<lparr>arrays := (arrays st1)(arr \<mapsto> xs @ [a])\<rparr>)))"

definition modperl_cmd_push_handlers :: "slot \<Rightarrow> string \<Rightarrow> 'p hstate \<Rightarrow> 'p hstate res" where
  "modperl_cmd_push_handlers sl name st = slot_push sl (modperl_handler_new name) st"

definition modperl_cmd_push_filter_handlers :: "slot \<Rightarrow> string \<Rightarrow> 'p hstate \<Rightarrow> 'p hstate res" where
  "modperl_cmd_push_filter_handlers sl name st =
     (let h = modperl_handler_new name
      in slot_push sl (if name \<noteq> [] \<and> hd name = CHR ''-'' then h else hflag_on MpHandlerAUTOLOAD_f h) st)"

definition MP_FILTER_HTTPD_HANDLER :: "16 word" where "MP_FILTER_HTTPD_HANDLER = 16"

definition modperl_cmd_push_httpd_filter_handlers :: "slot \<Rightarrow> string \<Rightarrow> 'p hstate \<Rightarrow> 'p hstate res" where
  "modperl_cmd_push_httpd_filter_handlers sl name st =
     slot_push sl ((hflag_on MpHandlerFAKE_f (modperl_handler_new name))\<lparr>attrs := MP_FILTER_HTTPD_HANDLER\<rparr>) st"

section \<open>Directives of servers\<close>

definition modperl_cmd_trace :: "('t, 'p, 'e) cmd_env \<Rightarrow> cmd_parms \<Rightarrow> string \<Rightarrow> ('t, 'p, 'e) cmd_state \<Rightarrow> ('t, 'p, 'e) cmd_result" where
  "modperl_cmd_trace C parms arg st =
     (case cp_global_only parms of Some err \<Rightarrow> Inr (Some err, st) | None \<Rightarrow> Inr (None, c_trace_level C arg st))"

definition modperl_vhost_is_running :: "cmd_parms \<Rightarrow> ('t, 'p, 'e) cmd_state \<Rightarrow> bool res" where
  "modperl_vhost_is_running parms st =
     (if cp_is_virtual parms then and_then (cmd_srv parms st) (\<lambda>scfg. Inr (s_mip scfg \<noteq> None)) else Inr (running st))"

definition modperl_cmd_options :: "('t, 'p, 'e) cmd_env \<Rightarrow> cmd_parms \<Rightarrow> string \<Rightarrow> ('t, 'p, 'e) cmd_state \<Rightarrow> ('t, 'p, 'e) cmd_result" where
  "modperl_cmd_options C parms arg st =
     and_then (cmd_srv parms st) (\<lambda>scfg. and_then (cmd_dir parms st) (\<lambda>dcfg.
       let is_per_dir = (cp_path parms \<noteq> None); t = tables (c_cfg C) in
       if is_per_dir
       then (case modperl_options_set t arg (d_flags dcfg) of (err, fl) \<Rightarrow>
              and_then (upd_dir parms (\<lambda>d. d\<lparr>d_flags := fl\<rparr>) st) (\<lambda>st1. Inr (err, st1)))
       else (case modperl_options_set t arg (s_flags scfg) of
              (None, fl) \<Rightarrow> ok (upd_srv parms (\<lambda>s. s\<lparr>s_flags := fl\<rparr>) st)
            | (Some err, fl) \<Rightarrow>
                and_then (upd_srv parms (\<lambda>s. s\<lparr>s_flags := fl\<rparr>) st) (\<lambda>st1.
                case modperl_options_set t arg (d_flags dcfg) of (err2, dfl) \<Rightarrow>
                  and_then (upd_dir parms (\<lambda>d. d\<lparr>d_flags := dfl\<rparr>) st1) (\<lambda>st2.
                    Inr (if err2 = None then None else Some err, st2))))))"

definition modperl_cmd_switches :: "('t, 'p, 'e) cmd_env \<Rightarrow> cmd_parms \<Rightarrow> string \<Rightarrow> ('t, 'p, 'e) cmd_state \<Rightarrow> ('t, 'p, 'e) cmd_result" where
  "modperl_cmd_switches C parms arg st =
     and_then (modperl_vhost_is_running parms st) (\<lambda>run.
       if run then Inr (Some (modperl_cmd_too_late parms), st)
       else if strcase_eq (take 8 arg) ''+inherit''
       then and_then (modperl_cmd_options C parms ''+InheritSwitches'' st) (\<lambda>(_, st1). Inr (None, st1))
       else and_then (cmd_srv parms st) (\<lambda>scfg.
            and_then (str_push (argv scfg) arg (cst st)) (\<lambda>c. Inr (None, st\<lparr>cst := c\<rparr>))))"

text \<open>\<open>MP_CHECK_SERVER_OR_HTACCESS_CONTEXT\<close>\<close>

definition check_context :: "cmd_parms \<Rightarrow> string option" where
  "check_context parms =
     (if cp_path parms \<noteq> None \<and> cp_access_conf parms
      then Some (cp_directive parms @ '' directive not allowed in a '' @ cp_parent parms @ ''> block'') else None)"

definition sync_env :: "('t, 'p, 'e) cmd_env \<Rightarrow> cmd_parms \<Rightarrow> ('t, 'p, 'e) cmd_state \<Rightarrow> ('t, 'p, 'e) cmd_state res" where
  "sync_env C parms st =
     and_then (upd_srv parms (modperl_env_sync_srv_env_hash2table (c_env C) (est st)) st) (\<lambda>st1.
       upd_dir parms (modperl_env_sync_dir_env_hash2table (c_env C) (est st1)) st1)"

text \<open>\<open>modperl_cmd_modules\<close> and \<open>modperl_cmd_requires\<close> have the same body; \<open>arr\<close> is the array of the configuration.\<close>

definition cmd_load ::
    "('t, 'p, 'e) cmd_env \<Rightarrow> bool \<Rightarrow> ('t srv_cfg \<Rightarrow> nat) \<Rightarrow> cmd_parms \<Rightarrow> string \<Rightarrow> ('t, 'p, 'e) cmd_state \<Rightarrow> ('t, 'p, 'e) cmd_result" where
  "cmd_load C modl arr parms arg st =
     (case check_context parms of Some err \<Rightarrow> Inr (Some err, st) | None \<Rightarrow>
      let (vok, st1) = (if running st then c_init_vhost C (cp_scfg parms) st else (True, st)) in
      if \<not> vok then Inr (Some ''init mod_perl vhost failed'', st1)
      else if running st1
      then (case c_require C modl arg st1 of
              (Some err, st2) \<Rightarrow> Inr (Some err, st2)
            | (None, st2) \<Rightarrow> ok (sync_env C parms st2))
      else and_then (cmd_srv parms st1) (\<lambda>scfg.
           and_then (str_push (arr scfg) arg (cst st1)) (\<lambda>c. Inr (None, st1\<lparr>cst := c\<rparr>))))"

definition modperl_cmd_modules where
  "modperl_cmd_modules C = cmd_load C True PerlModule"

definition modperl_cmd_requires where
  "modperl_cmd_requires C = cmd_load C False PerlRequire"

definition modperl_cmd_config_requires :: "('t, 'p, 'e) cmd_env \<Rightarrow> cmd_parms \<Rightarrow> string \<Rightarrow> ('t, 'p, 'e) cmd_state \<Rightarrow> ('t, 'p, 'e) cmd_result" where
  "modperl_cmd_config_requires C parms arg st = modperl_cmd_requires C parms arg (c_run C st)"

definition modperl_cmd_load_module :: "('t, 'p, 'e) cmd_env \<Rightarrow> cmd_parms \<Rightarrow> string \<Rightarrow> ('t, 'p, 'e) cmd_state \<Rightarrow> ('t, 'p, 'e) cmd_result" where
  "modperl_cmd_load_module C parms arg st = modperl_cmd_modules C parms arg (c_run C st)"

definition modperl_cmd_post_config_requires ::
    "cmd_parms \<Rightarrow> string \<Rightarrow> ('t, 'p, 'e) cmd_state \<Rightarrow> ('t, 'p, 'e) cmd_result" where
  "modperl_cmd_post_config_requires parms arg st =
     and_then (cmd_srv parms st) (\<lambda>scfg.
       case files (cst st) (PerlPostConfigRequire scfg) of
         None \<Rightarrow> Inl UseAfterFree
       | Some fs \<Rightarrow> Inr (None, st\<lparr>cst := (cst st)\<lparr>files :=
             (files (cst st))(PerlPostConfigRequire scfg \<mapsto> fs @ [(arg, cp_dcfg parms)])\<rparr>\<rparr>))"

section \<open>Variables and the environment\<close>

text \<open>A change of variables works on \<open>(configvars, setvars)\<close>.\<close>

type_synonym 't varfunc = "string \<Rightarrow> string \<Rightarrow> 't \<times> 't \<Rightarrow> 't \<times> 't"

definition modperl_cmd_addvar_func :: "'t apr_table_ops \<Rightarrow> 't varfunc" where
  "modperl_cmd_addvar_func T key val = (\<lambda>(configvars, setvars). (apr_table_addn T key val configvars, setvars))"

definition modperl_cmd_setvar_func :: "'t apr_table_ops \<Rightarrow> 't varfunc" where
  "modperl_cmd_setvar_func T key val = (\<lambda>(configvars, setvars).
     (apr_table_setn T key val configvars, apr_table_setn T key val setvars))"

definition dir_vars :: "('t \<times> 't \<Rightarrow> 't \<times> 't) \<Rightarrow> 't dir_cfg \<Rightarrow> 't dir_cfg" where
  "dir_vars f d = (let (c, s) = f (d_configvars d, d_setvars d) in d\<lparr>d_configvars := c, d_setvars := s\<rparr>)"

definition srv_vars :: "('t \<times> 't \<Rightarrow> 't \<times> 't) \<Rightarrow> 't srv_cfg \<Rightarrow> 't srv_cfg" where
  "srv_vars f x = (let (c, s) = f (s_configvars x, s_setvars x) in x\<lparr>s_configvars := c, s_setvars := s\<rparr>)"

definition modperl_cmd_modvar ::
    "'t varfunc \<Rightarrow> cmd_parms \<Rightarrow> string \<Rightarrow> string \<Rightarrow> ('t, 'p, 'e) cmd_state \<Rightarrow> ('t, 'p, 'e) cmd_result" where
  "modperl_cmd_modvar varfunc parms arg1 arg2 st =
     and_then (upd_dir parms (dir_vars (varfunc arg1 arg2)) st) (\<lambda>st1.
       if cp_path parms = None then ok (upd_srv parms (srv_vars (varfunc arg1 arg2)) st1) else Inr (None, st1))"

definition modperl_cmd_add_var ::
    "('t, 'p, 'e) cmd_env \<Rightarrow> cmd_parms \<Rightarrow> string \<Rightarrow> string \<Rightarrow> ('t, 'p, 'e) cmd_state \<Rightarrow> ('t, 'p, 'e) cmd_result" where
  "modperl_cmd_add_var C = modperl_cmd_modvar (modperl_cmd_addvar_func (tops (c_cfg C)))"

definition modperl_cmd_set_var ::
    "('t, 'p, 'e) cmd_env \<Rightarrow> cmd_parms \<Rightarrow> string \<Rightarrow> string \<Rightarrow> ('t, 'p, 'e) cmd_state \<Rightarrow> ('t, 'p, 'e) cmd_result" where
  "modperl_cmd_set_var C = modperl_cmd_modvar (modperl_cmd_setvar_func (tops (c_cfg C)))"

definition modperl_cmd_set_env ::
    "('t, 'p, 'e) cmd_env \<Rightarrow> cmd_parms \<Rightarrow> string \<Rightarrow> string \<Rightarrow> ('t, 'p, 'e) cmd_state \<Rightarrow> ('t, 'p, 'e) cmd_result" where
  "modperl_cmd_set_env C parms arg1 arg2 st =
     (let T = tops (c_cfg C) in
      and_then (if cp_path parms = None
        then and_then (upd_srv parms (\<lambda>s. s\<lparr>s_SetEnv := apr_table_setn T arg1 arg2 (s_SetEnv s)\<rparr>) st) (\<lambda>st1.
             and_then (modperl_vhost_is_running parms st1) (\<lambda>run.
               Inr (if run then st1\<lparr>est := modperl_env_hv_store arg1 arg2 (est st1)\<rparr> else st1)))
        else Inr st) (\<lambda>st2.
      ok (upd_dir parms (\<lambda>d. d\<lparr>d_SetEnv := apr_table_setn T arg1 arg2 (d_SetEnv d)\<rparr>) st2)))"

definition modperl_cmd_pass_env ::
    "('t, 'p, 'e) cmd_env \<Rightarrow> cmd_parms \<Rightarrow> string \<Rightarrow> ('t, 'p, 'e) cmd_state \<Rightarrow> ('t, 'p, 'e) cmd_result" where
  "modperl_cmd_pass_env C parms arg st = (case getenv (c_env C) arg (environ (est st)) of
       None \<Rightarrow> Inr (None, st)
     | Some val \<Rightarrow>
         and_then (upd_srv parms (\<lambda>s. s\<lparr>s_PassEnv := apr_table_setn (tops (c_cfg C)) arg val (s_PassEnv s)\<rparr>) st) (\<lambda>st1.
         and_then (modperl_vhost_is_running parms st1) (\<lambda>run.
           Inr (None, if run then st1\<lparr>est := modperl_env_hv_store arg val (est st1)\<rparr> else st1))))"

definition modperl_cmd_init_handlers ::
    "('t, 'p, 'e) cmd_env \<Rightarrow> cmd_parms \<Rightarrow> string \<Rightarrow> ('t, 'p, 'e) cmd_state \<Rightarrow> ('t, 'p, 'e) cmd_result" where
  "modperl_cmd_init_handlers C parms arg st =
     (if cp_path parms \<noteq> None then c_handler_cmd C ''header_parser'' parms arg st
      else c_handler_cmd C ''post_read_request'' parms arg st)"

section \<open>Perl sections and documentation\<close>

text \<open>\<open>modperl_cmd_parse_args\<close>: \<open>key=value\<close> pairs separated by commas. \<open>ap_getword\<close> takes the word before the stop character and
  moves the argument past it; a call that does not move is the end of the argument or would never end.\<close>

function parse_args_loop :: "(char \<Rightarrow> string \<Rightarrow> string \<times> string) \<Rightarrow> 't apr_table_ops \<Rightarrow> string \<Rightarrow> string \<Rightarrow> 't \<Rightarrow> (string + 't) res" where
  "parse_args_loop gw T orig args t =
     (let (pair, rest) = gw (CHR '','') args in
      if pair = [] then Inr (Inr t)
      else let (key, val) = gw (CHR ''='') pair in
      if key = [] \<or> val = [] then Inr (Inl (''invalid args spec: '' @ orig))
      else if length rest < length args then parse_args_loop gw T orig rest (apr_table_setn T key val t)
      else Inl Diverges)"
  by pat_completeness auto
termination by (relation "measure (\<lambda>(gw, T, orig, args, t). length args)") auto

definition modperl_cmd_parse_args :: "('t, 'p, 'e) cmd_env \<Rightarrow> string \<Rightarrow> (string + 't) res" where
  "modperl_cmd_parse_args C args =
     parse_args_loop (ap_getword C) (tops (c_cfg C)) args args (apr_table_make (tops (c_cfg C)))"

text \<open>The directive \<open><Perl>\<close> reads the configuration file up to \<open></Perl>\<close>; the result is the code, the arguments, the number of the first
  line and the lines left in the file. \<open>linenum\<close> is the number of the line with the directive.\<close>

fun perl_lines :: "string list \<Rightarrow> string \<times> string list" where
  "perl_lines [] = ([], [])"
| "perl_lines (l # ls) =
     (if l = ''</Perl>'' then ([], ls) else (let (code, rest) = perl_lines ls in (l @ [CHR 0x0A] @ code, rest)))"

fun strrchr_before :: "char \<Rightarrow> string \<Rightarrow> string option" where
  "strrchr_before c [] = None"
| "strrchr_before c (x # xs) =
     (case strrchr_before c xs of Some pre \<Rightarrow> Some (x # pre) | None \<Rightarrow> if x = c then Some [] else None)"

record 't perl_section =
  ps_line :: nat
  ps_code :: string
  ps_args :: 't

definition modperl_cmd_perl ::
    "('t, 'p, 'e) cmd_env \<Rightarrow> cmd_parms \<Rightarrow> string \<Rightarrow> nat \<Rightarrow> string list \<Rightarrow> (string + ('t perl_section \<times> string list)) res" where
  "modperl_cmd_perl C parms arg linenum file = (case strrchr_before (CHR ''>'') arg of
       None \<Rightarrow> Inr (Inl (modperl_cmd_unclosed_directive parms))
     | Some arg1 \<Rightarrow> (case check_context parms of
         Some err \<Rightarrow> Inr (Inl err)
       | None \<Rightarrow> and_then (modperl_cmd_parse_args C arg1) (\<lambda>r. case r of
             Inl err \<Rightarrow> Inr (Inl err)
           | Inr args \<Rightarrow>
               let (code, rest) = perl_lines file
               in Inr (Inr (\<lparr>ps_line = linenum + 1, ps_code = code, ps_args = args\<rparr>, rest)))))"

fun contains_str :: "string \<Rightarrow> string \<Rightarrow> bool" where
  "contains_str pat [] = (pat = [])"
| "contains_str pat (c # s) = (take (length pat) (c # s) = pat \<or> contains_str pat s)"

definition MP_POD_FORMAT :: "string \<Rightarrow> bool" where
  "MP_POD_FORMAT s \<longleftrightarrow> contains_str ''httpd'' s \<or> contains_str ''apache'' s"

fun pod_lines :: "string list \<Rightarrow> string list" where
  "pod_lines [] = []"
| "pod_lines (l # ls) = (if l = ''=cut'' \<or> take 5 l = ''=over'' \<and> MP_POD_FORMAT l then ls else pod_lines ls)"

text \<open>\<open>strstr("pod", arg)\<close>: the argument occurs in \<open>pod\<close>.\<close>

definition modperl_cmd_pod :: "string \<Rightarrow> string list \<Rightarrow> string option \<times> string list" where
  "modperl_cmd_pod arg file =
     (if arg \<noteq> [] \<and> \<not> (MP_POD_FORMAT arg \<or> contains_str arg ''pod'') then (Some ''Unknown =back format'', file)
      else (None, pod_lines file))"

definition modperl_cmd_pod_cut :: "string option" where
  "modperl_cmd_pod_cut = Some ''=cut without =pod''"

definition modperl_cmd_END :: "string list \<Rightarrow> string option \<times> string list" where
  "modperl_cmd_END file = (None, [])"

section \<open>Filters, interpreters\<close>

function filter_loop :: "(char \<Rightarrow> string \<Rightarrow> string \<times> string) \<Rightarrow> slot \<Rightarrow> string \<Rightarrow> 'p hstate \<Rightarrow> 'p hstate res" where
  "filter_loop gw sl arg st =
     (if arg = [] then Inr st
      else let (filt, rest) = gw (CHR '';'') arg in
        and_then (modperl_cmd_push_httpd_filter_handlers sl filt st) (\<lambda>st1.
          if length rest < length arg then filter_loop gw sl rest st1 else Inl Diverges))"
  by pat_completeness auto
termination by (relation "measure (\<lambda>(gw, sl, arg, st). length arg)") auto

definition cmd_set_filter ::
    "('t, 'p, 'e) cmd_env \<Rightarrow> string \<Rightarrow> nat \<Rightarrow> cmd_parms \<Rightarrow> string \<Rightarrow> ('t, 'p, 'e) cmd_state \<Rightarrow> ('t, 'p, 'e) cmd_result" where
  "cmd_set_filter C name idx parms arg st =
     and_then (cmd_srv parms st) (\<lambda>scfg.
       if opts (s_flags scfg) AND MpSrv_f_ENABLE (c_cfg C) = 0
       then Inr (Some (''Perl is disabled for server '' @ cp_hostname parms), st)
       else if opts (s_flags scfg) AND MpSrv_f_INPUT_FILTER C = 0
       then Inr (Some (name @ '' is disabled for server '' @ cp_hostname parms), st)
       else and_then (filter_loop (ap_getword C) (DirSlot (cp_dcfg parms) idx) arg (chs (cst st))) (\<lambda>h.
            Inr (None, st\<lparr>cst := (cst st)\<lparr>chs := h\<rparr>\<rparr>)))"

definition modperl_cmd_set_input_filter where
  "modperl_cmd_set_input_filter C = cmd_set_filter C ''PerlSetInputFilter'' (MP_INPUT_FILTER_HANDLER C)"

text \<open>The output directive tests the flag of the input filters too.\<close>

definition modperl_cmd_set_output_filter where
  "modperl_cmd_set_output_filter C = cmd_set_filter C ''PerlSetOutputFilter'' (MP_OUTPUT_FILTER_HANDLER C)"

text \<open>Directives for compatibility with mod\_perl 1.\<close>

definition modperl_cmd_taint_check where
  "modperl_cmd_taint_check C parms flag st = (if flag then modperl_cmd_switches C parms ''-T'' st else Inr (None, st))"

definition modperl_cmd_warn where
  "modperl_cmd_warn C parms flag st = (if flag then modperl_cmd_switches C parms ''-w'' st else Inr (None, st))"

definition modperl_cmd_send_header where
  "modperl_cmd_send_header C parms flag st =
     modperl_cmd_options C parms (if flag then ''+ParseHeaders'' else ''-ParseHeaders'') st"

definition modperl_cmd_setup_env where
  "modperl_cmd_setup_env C parms flag st =
     modperl_cmd_options C parms (if flag then ''+SetupEnv'' else ''-SetupEnv'') st"

text \<open>The cases of the switch fall through: the argument is compared with every later word.\<close>

definition scope_of_arg :: "bool \<Rightarrow> string \<Rightarrow> modperl_interp_scope_e option" where
  "scope_of_arg is_per_dir arg =
     (let c = (if arg = [] then CHR 0x00 else ascii_lower (hd arg));
          h = (c = CHR ''h''); s = (h \<or> c = CHR ''s''); r = (s \<or> c = CHR ''r''); d = (r \<or> c = CHR ''c'')
      in if h \<and> strcase_eq arg ''handler'' then Some SCOPE_HANDLER
         else if s \<and> strcase_eq arg ''subrequest'' then Some SCOPE_SUBREQUEST
         else if r \<and> strcase_eq arg ''request'' then Some SCOPE_REQUEST
         else if d \<and> \<not> is_per_dir \<and> strcase_eq arg ''connection'' then Some SCOPE_CONNECTION
         else None)"

definition modperl_cmd_interp_scope :: "cmd_parms \<Rightarrow> string \<Rightarrow> ('t, 'p, 'e) cmd_state \<Rightarrow> ('t, 'p, 'e) cmd_result" where
  "modperl_cmd_interp_scope parms arg st =
     (let is_per_dir = (cp_path parms \<noteq> None) in
      case scope_of_arg is_per_dir arg of
        None \<Rightarrow> Inr (Some (''PerlInterpScope must be one of '' @
                  (if is_per_dir then [] else ''connection, '') @ ''handler, subrequest or request''), st)
      | Some sc \<Rightarrow>
          if is_per_dir then ok (upd_dir parms (\<lambda>d. d\<lparr>d_interp_scope := sc\<rparr>) st)
          else ok (upd_srv parms (\<lambda>s. s\<lparr>s_interp_scope := sc\<rparr>) st))"

text \<open>\<open>atoi\<close> of the C library: leading white space, a sign, digits; \<open>0\<close> if there are none.\<close>

definition digit_val :: "char \<Rightarrow> int" where
  "digit_val c = int (of_char c) - 48"

definition is_digit :: "char \<Rightarrow> bool" where
  "is_digit c \<longleftrightarrow> 0 \<le> digit_val c \<and> digit_val c \<le> 9"

fun digits :: "int \<Rightarrow> string \<Rightarrow> int" where
  "digits n [] = n"
| "digits n (c # s) = (if is_digit c then digits (10 * n + digit_val c) s else n)"

definition atoi :: "string \<Rightarrow> int" where
  "atoi s0 = (let s = dropWhile (\<lambda>c. c = CHR '' '' \<or> 9 \<le> (of_char c :: nat) \<and> (of_char c :: nat) \<le> 13) s0 in
     if s \<noteq> [] \<and> hd s = CHR ''-'' then - digits 0 (tl s)
     else if s \<noteq> [] \<and> hd s = CHR ''+'' then digits 0 (tl s) else digits 0 s)"

definition cmd_interp_pool ::
    "(int \<Rightarrow> tipool_config \<Rightarrow> tipool_config) \<Rightarrow> cmd_parms \<Rightarrow> string \<Rightarrow> ('t, 'p, 'e) cmd_state \<Rightarrow> ('t, 'p, 'e) cmd_result" where
  "cmd_interp_pool set_item parms arg st =
     and_then (cmd_srv parms st) (\<lambda>scfg. case s_pool_cfg scfg of
       None \<Rightarrow> Inl NullDeref
     | Some pc \<Rightarrow> ok (upd_srv parms (\<lambda>s. s\<lparr>s_pool_cfg := Some (set_item (atoi arg) pc)\<rparr>) st))"

definition modperl_cmd_interp_start where "modperl_cmd_interp_start = cmd_interp_pool (\<lambda>n c. c\<lparr>cfg_start := n\<rparr>)"
definition modperl_cmd_interp_max where "modperl_cmd_interp_max = cmd_interp_pool (\<lambda>n c. c\<lparr>cfg_max := n\<rparr>)"
definition modperl_cmd_interp_max_spare where "modperl_cmd_interp_max_spare = cmd_interp_pool (\<lambda>n c. c\<lparr>cfg_max_spare := n\<rparr>)"
definition modperl_cmd_interp_min_spare where "modperl_cmd_interp_min_spare = cmd_interp_pool (\<lambda>n c. c\<lparr>cfg_min_spare := n\<rparr>)"
definition modperl_cmd_interp_max_requests where "modperl_cmd_interp_max_requests = cmd_interp_pool (\<lambda>n c. c\<lparr>cfg_max_requests := n\<rparr>)"

section \<open>PerlSetVar and PerlAddVar in nested sections\<close>

datatype var_directive = SetVar string string | AddVar string string

text \<open>The specification: the values of a key after a sequence of directives, read from first to last wherever they stand.\<close>

fun var_spec :: "string \<Rightarrow> string list \<Rightarrow> var_directive list \<Rightarrow> string list" where
  "var_spec k vs [] = vs"
| "var_spec k vs (SetVar k' v # ds) = var_spec k (if strcase_eq k k' then [v] else vs) ds"
| "var_spec k vs (AddVar k' v # ds) = var_spec k (if strcase_eq k k' then vs @ [v] else vs) ds"

fun var_is_set :: "string \<Rightarrow> var_directive list \<Rightarrow> bool" where
  "var_is_set k [] = False"
| "var_is_set k (SetVar k' v # ds) = (strcase_eq k k' \<or> var_is_set k ds)"
| "var_is_set k (AddVar k' v # ds) = var_is_set k ds"

fun var_cmd ::
    "('t, 'p, 'e) cmd_env \<Rightarrow> cmd_parms \<Rightarrow> var_directive \<Rightarrow> ('t, 'p, 'e) cmd_state \<Rightarrow> ('t, 'p, 'e) cmd_result" where
  "var_cmd C parms (SetVar k v) = modperl_cmd_set_var C parms k v"
| "var_cmd C parms (AddVar k v) = modperl_cmd_add_var C parms k v"

fun var_cmds ::
    "('t, 'p, 'e) cmd_env \<Rightarrow> cmd_parms \<Rightarrow> var_directive list \<Rightarrow> ('t, 'p, 'e) cmd_state \<Rightarrow> ('t, 'p, 'e) cmd_result" where
  "var_cmds C parms [] st = Inr (None, st)"
| "var_cmds C parms (d # ds) st = and_then (var_cmd C parms d st) (\<lambda>(err, st1).
     case err of Some e \<Rightarrow> Inr (Some e, st1) | None \<Rightarrow> var_cmds C parms ds st1)"

text \<open>\<open>d\<close> holds the variables that result from the directives \<open>ds\<close>.\<close>

definition vars_of :: "'t apr_table_ops \<Rightarrow> var_directive list \<Rightarrow> 't dir_cfg \<Rightarrow> bool" where
  "vars_of T ds d \<longleftrightarrow> (\<forall>k. tvals T k (d_configvars d) = var_spec k [] ds \<and> (tvals T k (d_setvars d) \<noteq> [] \<longleftrightarrow> var_is_set k ds))"

lemma var_spec_append [simp]: "var_spec k vs (ds @ es) = var_spec k (var_spec k vs ds) es"
  by (induction k vs ds rule: var_spec.induct) auto

lemma var_is_set_append [simp]: "var_is_set k (ds @ es) \<longleftrightarrow> var_is_set k ds \<or> var_is_set k es"
  by (induction k ds rule: var_is_set.induct) auto

text \<open>A key that is set forgets the values before; a key that is only added to keeps them.\<close>

lemma var_spec_prefix: "var_spec k vs ds = (if var_is_set k ds then [] else vs) @ var_spec k [] ds"
proof (induction ds arbitrary: vs)
  case (Cons d ds)
  show ?case
  proof (cases d)
    case (SetVar k' v)
    then show ?thesis using Cons.IH [of "[v]"] Cons.IH [of vs] by (cases "strcase_eq k k'") auto
  next
    case (AddVar k' v)
    then show ?thesis using Cons.IH [of "vs @ [v]"] Cons.IH [of "[v]"] Cons.IH [of vs] by (cases "strcase_eq k k'") auto
  qed
qed simp

lemma vars_of_init: "apr_table_laws (tops E) \<Longrightarrow> vars_of (tops E) [] (dir_cfg_init E)"
  by (simp add: vars_of_def dir_cfg_init_def apr_table_lawsD)

fun var_func :: "'t apr_table_ops \<Rightarrow> var_directive \<Rightarrow> 't \<times> 't \<Rightarrow> 't \<times> 't" where
  "var_func T (SetVar k v) = modperl_cmd_setvar_func T k v"
| "var_func T (AddVar k v) = modperl_cmd_addvar_func T k v"

lemma vars_of_func:
  assumes "apr_table_laws T" "vars_of T ds d"
  shows "vars_of T (ds @ [x]) (dir_vars (var_func T x) d)"
  using assms(2) by (cases x)
    (auto simp: vars_of_def dir_vars_def modperl_cmd_setvar_func_def modperl_cmd_addvar_func_def apr_table_lawsD [OF assms(1)])

lemma vars_of_cmd:
  assumes "apr_table_laws (tops (c_cfg C))" "cp_path parms \<noteq> None"
    and "dirs (cst st) (cp_dcfg parms) = Some d" "vars_of (tops (c_cfg C)) ds d"
  shows "\<exists>st' d'. var_cmd C parms x st = Inr (None, st') \<and> vars_of (tops (c_cfg C)) (ds @ [x]) d' \<and>
     cst st' = put_dir (cp_dcfg parms) d' (cst st)"
proof -
  let ?d = "dir_vars (var_func (tops (c_cfg C)) x) d"
  have "var_cmd C parms x st = Inr (None, st\<lparr>cst := put_dir (cp_dcfg parms) ?d (cst st)\<rparr>)"
    using assms(2,3) by (cases x) (auto simp: modperl_cmd_set_var_def modperl_cmd_add_var_def modperl_cmd_modvar_def
        upd_dir_def cmd_dir_def get_dir_def)
  with vars_of_func [OF assms(1,4)] show ?thesis by auto
qed

lemma vars_of_cmds:
  assumes "apr_table_laws (tops (c_cfg C))" "cp_path parms \<noteq> None"
    and "dirs (cst st) (cp_dcfg parms) = Some d" "vars_of (tops (c_cfg C)) ds d"
  shows "\<exists>st' d'. var_cmds C parms xs st = Inr (None, st') \<and> vars_of (tops (c_cfg C)) (ds @ xs) d' \<and>
     dirs (cst st') = (dirs (cst st))(cp_dcfg parms \<mapsto> d') \<and> dir_brk (cst st') = dir_brk (cst st)"
  using assms(3,4)
proof (induction xs arbitrary: st d ds)
  case Nil
  then have "dirs (cst st) = (dirs (cst st))(cp_dcfg parms \<mapsto> d)" by (simp add: fun_upd_idem)
  with Nil show ?case by (intro exI [of _ st] exI [of _ d]) simp
next
  case (Cons x xs)
  obtain st1 d1 where 1: "var_cmd C parms x st = Inr (None, st1)" "vars_of (tops (c_cfg C)) (ds @ [x]) d1"
    "cst st1 = put_dir (cp_dcfg parms) d1 (cst st)" using vars_of_cmd [OF assms(1,2) Cons.prems] by blast
  then have "dirs (cst st1) (cp_dcfg parms) = Some d1" by (simp add: put_dir_def)
  from Cons.IH [OF this 1(2)] obtain st2 d2 where "var_cmds C parms xs st1 = Inr (None, st2)"
    "vars_of (tops (c_cfg C)) ((ds @ [x]) @ xs) d2" "dirs (cst st2) = (dirs (cst st1))(cp_dcfg parms \<mapsto> d2)"
    "dir_brk (cst st2) = dir_brk (cst st1)" by blast
  with 1 show ?case by (intro exI [of _ st2] exI [of _ d2]) (simp add: put_dir_def)
qed

lemma vars_of_merge:
  assumes "apr_table_laws T" "vars_of T ds base" "vars_of T es add"
  shows "vars_of T (ds @ es) (dir_merge_fields T base add)"
proof -
  have "tvals T k (d_configvars (dir_merge_fields T base add)) = var_spec k [] (ds @ es)" for k
  proof -
    have "tvals T k (d_setvars add) = [] \<longleftrightarrow> \<not> var_is_set k es" using assms(3) unfolding vars_of_def by blast
    with assms(2,3) var_spec_prefix [of k "var_spec k [] ds" es] show ?thesis
      by (simp add: dir_merge_fields_def tvals_add_vars [OF assms(1)] vars_of_def)
  qed
  moreover have "tvals T k (d_setvars (dir_merge_fields T base add)) \<noteq> [] \<longleftrightarrow> var_is_set k (ds @ es)" for k
    using assms(2,3) by (auto simp: dir_merge_fields_def tvals_overlap [OF assms(1)] vars_of_def)
  ultimately show ?thesis unfolding vars_of_def by blast
qed

lemma dir_merge_result:
  assumes "modperl_config_dir_merge E b a st = Inr (m, st')" "dirs st b = Some base" "dirs st a = Some add"
    "b < dir_brk st" "a < dir_brk st"
  shows "dirs st' m = Some (dir_merge_fields (tops E) base add)"
proof -
  obtain st1 where new: "modperl_config_dir_new E st = (dir_brk st, st1)" by (simp add: modperl_config_dir_new_def)
  have get: "get_dir st1 b = Inr base" "get_dir st1 a = Inr add"
    using assms(2-5) dir_new_simps [OF new] by (auto simp: get_dir_def)
  with assms(1) show ?thesis by (auto simp: modperl_config_dir_merge_def new put_dir_def and_then_eq_Inr Let_def)
qed

text \<open>
  C30: \<open>PerlSetVar\<close> and \<open>PerlAddVar\<close> in nested sections. If the enclosing configuration holds what the directives \<open>ds\<close> give, and
  the directives \<open>es\<close> are read in a new section, then all of them are accepted and the merged configuration holds, for every key, what reading \<open>ds\<close> and then \<open>es\<close> in one
  place would give. The hypothesis on the enclosing configuration holds again of the result, so this covers every depth of nesting.
\<close>

theorem config_vars_nested:
  assumes "apr_table_laws (tops (c_cfg C))" "dirs (cst st) b = Some base" "vars_of (tops (c_cfg C)) ds base"
    and "dirs (cst st) a = Some (dir_cfg_init (c_cfg C))" "a \<noteq> b" "a < dir_brk (cst st)" "b < dir_brk (cst st)"
    and "cp_dcfg parms = a" "cp_path parms \<noteq> None"
  shows "\<exists>st1. var_cmds C parms es st = Inr (None, st1) \<and>
     (\<forall>m st2. modperl_config_dir_merge (c_cfg C) b a (cst st1) = Inr (m, st2) \<longrightarrow>
        (\<exists>mrg. dirs st2 m = Some mrg \<and> vars_of (tops (c_cfg C)) (ds @ es) mrg \<and>
               (\<forall>k. tvals (tops (c_cfg C)) k (d_configvars mrg) = var_spec k [] (ds @ es))))"
proof -
  have "dirs (cst st) (cp_dcfg parms) = Some (dir_cfg_init (c_cfg C))" using assms(4,8) by simp
  from vars_of_cmds [OF assms(1,9) this vars_of_init [OF assms(1)], of es]
  obtain st1 add where 1: "var_cmds C parms es st = Inr (None, st1)" "vars_of (tops (c_cfg C)) es add"
    "dirs (cst st1) = (dirs (cst st))(a \<mapsto> add)" "dir_brk (cst st1) = dir_brk (cst st)" using assms(8) by auto
  have d: "dirs (cst st1) b = Some base" "dirs (cst st1) a = Some add" "b < dir_brk (cst st1)" "a < dir_brk (cst st1)"
    using 1(3,4) assms(2,5,6,7) by auto
  have "dirs st2 m = Some (dir_merge_fields (tops (c_cfg C)) base add)"
    if "modperl_config_dir_merge (c_cfg C) b a (cst st1) = Inr (m, st2)" for m st2
    by (rule dir_merge_result [OF that d])
  with 1(1) vars_of_merge [OF assms(1,3) 1(2)] show ?thesis by (auto simp: vars_of_def)
qed

definition demo_getword :: "char \<Rightarrow> string \<Rightarrow> string \<times> string" where
  "demo_getword c s = (takeWhile (\<lambda>x. x \<noteq> c) s, dropWhile (\<lambda>x. x = c) (dropWhile (\<lambda>x. x \<noteq> c) s))"

definition demo_cmd_env :: "((string \<times> string) list, unit, string \<Rightarrow> string option) cmd_env" where
  "demo_cmd_env = \<lparr>c_cfg = demo_cfg_env, c_env = demo_env_ops, c_run = (\<lambda>st. st\<lparr>running := True\<rparr>), c_init_vhost = (\<lambda>s st. (True, st)),
     c_require = (\<lambda>m x st. (None, st)), c_handler_cmd = (\<lambda>n q x st. Inr (None, st)), c_trace_level = (\<lambda>x st. st),
     ap_getword = demo_getword, MpSrv_f_INPUT_FILTER = 0x20, MP_INPUT_FILTER_HANDLER = 0, MP_OUTPUT_FILTER_HANDLER = 1\<rparr>"

definition demo_parms :: cmd_parms where
  "demo_parms = \<lparr>cp_scfg = 0, cp_dcfg = 1, cp_path = Some ''/a'', cp_access_conf = True, cp_global_only = None, cp_is_virtual = False,
     cp_hostname = ''h'', cp_cmd_name = ''PerlSetVar'', cp_directive = ''PerlSetVar'', cp_parent = ''<Location''\<rparr>"

definition demo_cmd_state :: "((string \<times> string) list, unit, string \<Rightarrow> string option) cmd_state" where
  "demo_cmd_state = \<lparr>cst = demo_srv_state\<lparr>dirs := [0 \<mapsto> (dir_cfg_init demo_cfg_env)\<lparr>d_configvars := [(''K'', ''1'')], d_setvars := [(''K'', ''1'')]\<rparr>,
     1 \<mapsto> dir_cfg_init demo_cfg_env]\<rparr>, est = demo_env_state, running = False\<rparr>"

text \<open>\<open>PerlAddVar K 2\<close> in a section of a server with \<open>PerlSetVar K 1\<close>.\<close>

theorem config_vars_nested_witness:
  "\<exists>st1. var_cmds demo_cmd_env demo_parms [AddVar ''K'' ''2''] demo_cmd_state = Inr (None, st1) \<and>
     (\<forall>m st2. modperl_config_dir_merge demo_cfg_env 0 1 (cst st1) = Inr (m, st2) \<longrightarrow>
        (\<exists>mrg. dirs st2 m = Some mrg \<and> tvals list_tables ''K'' (d_configvars mrg) = [''1'', ''2'']))"
proof -
  let ?b = "(dir_cfg_init demo_cfg_env)\<lparr>d_configvars := [(''K'', ''1'')], d_setvars := [(''K'', ''1'')]\<rparr>"
  have T: "c_cfg demo_cmd_env = demo_cfg_env" "tops demo_cfg_env = list_tables" by (simp_all add: demo_cmd_env_def demo_cfg_env_def)
  have laws: "apr_table_laws (tops (c_cfg demo_cmd_env))" by (simp add: T list_tables_laws)
  have b: "dirs (cst demo_cmd_state) 0 = Some ?b" "dirs (cst demo_cmd_state) 1 = Some (dir_cfg_init (c_cfg demo_cmd_env))"
    "dir_brk (cst demo_cmd_state) = 2" "cp_dcfg demo_parms = 1" "cp_path demo_parms \<noteq> None"
    by (simp_all add: demo_cmd_state_def demo_srv_state_def demo_cfg_state_def T demo_parms_def)
  have v: "vars_of (tops (c_cfg demo_cmd_env)) [SetVar ''K'' ''1''] ?b"
    by (auto simp: vars_of_def T tvals_def key_vals_def list_tables_def)
  have lt: "(1 :: nat) \<noteq> 0" "1 < dir_brk (cst demo_cmd_state)" "0 < dir_brk (cst demo_cmd_state)" using b(3) by simp_all
  obtain st1 where st1: "var_cmds demo_cmd_env demo_parms [AddVar ''K'' ''2''] demo_cmd_state = Inr (None, st1)"
    "\<forall>m st2. modperl_config_dir_merge demo_cfg_env 0 1 (cst st1) = Inr (m, st2) \<longrightarrow>
       (\<exists>mrg. dirs st2 m = Some mrg \<and> vars_of list_tables ([SetVar ''K'' ''1''] @ [AddVar ''K'' ''2'']) mrg \<and>
          (\<forall>k. tvals list_tables k (d_configvars mrg) = var_spec k [] ([SetVar ''K'' ''1''] @ [AddVar ''K'' ''2''])))"
    using config_vars_nested [OF laws b(1) v b(2) lt b(4,5), of "[AddVar ''K'' ''2'']"] unfolding T by blast
  have "var_spec ''K'' [] ([SetVar ''K'' ''1''] @ [AddVar ''K'' ''2'']) = [''1'', ''2'']" by simp
  with st1 show ?thesis by metis
qed

section \<open>PerlOptions\<close>

text \<open>
  \<open>PerlOptions\<close>. In a container the directive sets an option of the directory. Outside, a per-server option goes to the server; a name that
  is no per-server option but a per-directory one goes to the defaults of the directories; any other name is an error, and then nothing
  at all is changed. A name that is both (\<open>MergeHandlers\<close>) is taken as a per-server option only.
\<close>

theorem cmd_options_outside:
  assumes "cp_path parms = None" "srvs (cst st) (cp_scfg parms) = Some scfg" "dirs (cst st) (cp_dcfg parms) = Some dcfg"
    and "modperl_options_set (tables (c_cfg C)) arg (s_flags scfg) = (serr, sfl)"
    and "modperl_options_set (tables (c_cfg C)) arg (d_flags dcfg) = (derr, dfl)"
  shows "\<exists>st'. modperl_cmd_options C parms arg st = Inr (if serr = None \<or> derr = None then None else serr, st') \<and>
     srvs (cst st') = (srvs (cst st))(cp_scfg parms \<mapsto> (if serr = None then scfg\<lparr>s_flags := sfl\<rparr> else scfg)) \<and>
     dirs (cst st') = (dirs (cst st))(cp_dcfg parms \<mapsto> (if serr \<noteq> None \<and> derr = None then dcfg\<lparr>d_flags := dfl\<rparr> else dcfg))"
proof -
  have s: "serr \<noteq> None \<Longrightarrow> sfl = s_flags scfg" "derr \<noteq> None \<Longrightarrow> dfl = d_flags dcfg"
    using assms(4,5) by (auto elim!: set_cases)
  show ?thesis
  proof (cases serr)
    case None
    with assms show ?thesis
      by (simp add: modperl_cmd_options_def cmd_srv_def cmd_dir_def get_srv_def get_dir_def upd_srv_def put_srv_def ok_def fun_upd_idem)
  next
    case (Some e)
    with assms s show ?thesis
      by (auto simp: modperl_cmd_options_def cmd_srv_def cmd_dir_def get_srv_def get_dir_def upd_srv_def upd_dir_def put_srv_def put_dir_def
          fun_upd_idem)
  qed
qed

theorem cmd_options_outside_witness:
  "\<exists>st'. modperl_cmd_options demo_cmd_env (demo_parms\<lparr>cp_path := None\<rparr>) ''+SetupEnv'' demo_cmd_state = Inr (None, st') \<and>
     (\<exists>d. dirs (cst st') 1 = Some d \<and> opts (d_flags d) = 0x12)"
proof -
  let ?p = "demo_parms\<lparr>cp_path := None\<rparr>" and ?d = "dir_cfg_init demo_cfg_env"
  have c: "cp_path ?p = None" "srvs (cst demo_cmd_state) (cp_scfg ?p) = Some demo_base_srv" "dirs (cst demo_cmd_state) (cp_dcfg ?p) = Some ?d"
    "cp_dcfg ?p = 1" by (simp_all add: demo_cmd_state_def demo_srv_state_def demo_parms_def)
  obtain e where e: "modperl_options_set (tables (c_cfg demo_cmd_env)) ''+SetupEnv'' (s_flags demo_base_srv) = (Some e, s_flags demo_base_srv)"
    by (simp add: demo_cmd_env_def demo_cfg_env_def demo_base_srv_def srv_cfg_init_def options_eval)
  obtain fl where fl: "modperl_options_set (tables (c_cfg demo_cmd_env)) ''+SetupEnv'' (d_flags ?d) = (None, fl)" "opts fl = 0x12"
    by (simp add: demo_cmd_env_def demo_cfg_env_def dir_cfg_init_def options_eval)
  obtain st' where "modperl_cmd_options demo_cmd_env ?p ''+SetupEnv'' demo_cmd_state = Inr (None, st')"
    "dirs (cst st') 1 = Some (?d\<lparr>d_flags := fl\<rparr>)"
    using cmd_options_outside [OF c(1-3) e fl(1)] c(4) by auto
  then show ?thesis using fl(2) by auto
qed

section \<open>PerlInterpScope\<close>

lemma strcase_eq_hd: "strcase_eq (a # s) (b # t) \<Longrightarrow> ascii_lower a = ascii_lower b"
  by (simp add: strcase_eq_def)

text \<open>
  The switch over the argument of \<open>PerlInterpScope\<close>, whose cases fall through, accepts exactly the names that
  \<open>modperl_interp_scope_desc\<close> prints, in upper or lower case, and \<open>connection\<close> outside a container only.
\<close>

theorem cmd_scope_words:
  "scope_of_arg is_per_dir arg = Some sc \<longleftrightarrow>
     strcase_eq arg (modperl_interp_scope_desc sc) \<and> sc \<noteq> SCOPE_UNDEF \<and> \<not> (is_per_dir \<and> sc = SCOPE_CONNECTION)"
proof (cases arg)
  case Nil
  then show ?thesis by (cases sc) (simp_all add: scope_of_arg_def strcase_eq_def)
next
  case (Cons c s)
  have low: "ascii_lower CHR ''h'' = CHR ''h''" "ascii_lower CHR ''s'' = CHR ''s''" "ascii_lower CHR ''r'' = CHR ''r''"
    "ascii_lower CHR ''c'' = CHR ''c''" by code_simp+
  show ?thesis
    using strcase_eq_hd [of c s] low
    by (cases sc) (auto simp: scope_of_arg_def Cons strcase_eq_def Let_def)
qed

end
