(* ===== verification/Wbucket.thy ===== *)
theory Wbucket
  imports Prelude
begin

text \<open>
  The output buffer of a response and of a streaming output filter (\<^verbatim>\<open>modperl_wbucket_*\<close> in
  \<^verbatim>\<open>src/src/modules/perl/modperl_filter.c\<close>) and the parser that splits CGI style headers off the first
  bytes of a response (\<^verbatim>\<open>modperl_cgi_header_parse\<close> in \<^verbatim>\<open>modperl_cgi.c\<close>).

  The buffer is an array of \<open>MP_IOBUFSIZE\<close> bytes of which the first \<open>outcnt\<close> are pending; the bytes after
  them are whatever earlier writes left there. A pointer argument is the list of the bytes that can be read
  from it, at least as many as the length argument says.

  What the rest of httpd does is a parameter: \<open>pass_rv\<close> is the result of \<open>ap_pass_brigade\<close> after a history of
  brigades, \<open>scan_header\<close> is \<open>ap_scan_script_header_err_strs\<close> (it sees every byte that can be read from the
  pointer it is given, since it gets no length) and \<open>redirect_passes\<close> is what the internal redirect to a
  location sends down the filter chains.
\<close>

section \<open>State\<close>

text \<open>A bucket; reading one of kind \<open>FailBucket\<close> gives an error status. Metadata other than end of stream and
flush reads as no data.\<close>

datatype bucket = DataBucket string | is_FailBucket: FailBucket int | EosBucket | FlushBucket

type_synonym brigade = "bucket list"

definition MP_IOBUFSIZE :: nat where "MP_IOBUFSIZE = 8192"

text \<open>The field \<open>filters\<close> is the address of a pointer to a filter: the \<open>next\<close> field of a filter or the
\<open>output_filters\<close> field of a request.\<close>

datatype filter_slot = NextOf nat | OutputFilters nat

record wbucket =
  outcnt :: nat
  outbuf :: string
  filters :: filter_slot
  header_parse :: bool
  wb_r :: "nat option"

record request_rec =
  rq_status :: int
  rq_method :: string
  rq_method_number :: int
  rq_location :: "string option"         \<comment> \<open>\<open>Location\<close> in \<open>headers_out\<close>\<close>
  rq_content_length :: "string option"   \<comment> \<open>\<open>Content-Length\<close> in \<open>headers_in\<close>\<close>
  rq_cfg_status :: int                   \<comment> \<open>\<open>rcfg->status\<close>\<close>

datatype io_event = NoHeaderSent nat | InternalRedirect nat string | LogInfo int

record io_world =
  fl_next :: "nat \<Rightarrow> nat option"
  req_filters :: "nat \<Rightarrow> nat option"
  reqs :: "nat \<Rightarrow> request_rec"
  passed :: "(nat \<times> brigade) list"      \<comment> \<open>the calls of \<open>ap_pass_brigade\<close>, in order\<close>
  io_log :: "io_event list"

record httpd_ops =
  pass_rv :: "(nat \<times> brigade) list \<Rightarrow> int"
  scan_header :: "string \<Rightarrow> request_rec \<Rightarrow> int \<times> request_rec"
  redirect_passes :: "string \<Rightarrow> (nat \<times> brigade) list"

definition slot_filter :: "filter_slot \<Rightarrow> io_world \<Rightarrow> nat option" where
  "slot_filter sl w = (case sl of NextOf f \<Rightarrow> fl_next w f | OutputFilters r \<Rightarrow> req_filters w r)"

definition ap_pass_brigade :: "httpd_ops \<Rightarrow> nat \<Rightarrow> brigade \<Rightarrow> io_world \<Rightarrow> int \<times> io_world" where
  "ap_pass_brigade ops f bb w =
     (let w' = w\<lparr>passed := passed w @ [(f, bb)]\<rparr> in (pass_rv ops (passed w'), w'))"

definition set_req :: "nat \<Rightarrow> request_rec \<Rightarrow> io_world \<Rightarrow> io_world" where
  "set_req r rq w = w\<lparr>reqs := (reqs w)(r := rq)\<rparr>"

definition log_io :: "io_event \<Rightarrow> io_world \<Rightarrow> io_world" where
  "log_io e w = w\<lparr>io_log := io_log w @ [e]\<rparr>"

section \<open>Header parsing\<close>

definition CR :: char where "CR = CHR 0x0D"
definition LF :: char where "LF = CHR 0x0A"

text \<open>The loop that looks for the end of the headers: how many bytes it goes over.\<close>

fun header_scan :: "string \<Rightarrow> nat \<Rightarrow> nat" where
  "header_scan [] newln = 0"
| "header_scan (c # cs) newln =
     (let newln1 = (if c \<noteq> CR \<and> c \<noteq> LF then 0 else newln);
          newln2 = (if c = LF then newln1 + 1 else newln1)
      in if newln2 = 2 then 1 else Suc (header_scan cs newln2))"

text \<open>The result is the status, the length of the body and the pointer to it (\<open>None\<close> is the null pointer).\<close>

definition modperl_cgi_header_parse ::
    "httpd_ops \<Rightarrow> nat \<Rightarrow> string option \<Rightarrow> nat \<Rightarrow> io_world \<Rightarrow> (int \<times> nat \<times> string option) \<times> io_world" where
  "modperl_cgi_header_parse ops r buffer len w = (case buffer of
       None \<Rightarrow> ((DECLINED, len, None), w)
     | Some mem \<Rightarrow>
         let n = header_scan (take len mem) 0;
             (blen, body) = (if n \<ge> len then (0, None) else (len - n, Some (drop n mem)));
             (status, rq) = scan_header ops mem (reqs w r);
             w1 = set_req r rq w
         in case rq_location rq of
              None \<Rightarrow> ((status, blen, body), w1)
            | Some location \<Rightarrow>
                if location \<noteq> [] \<and> hd location = CHR ''/'' \<and> rq_status rq = 200
                then ((OK, blen, body),
                      log_io (InternalRedirect r location)
                        ((set_req r (rq\<lparr>rq_method := ''GET'', rq_method_number := 0, rq_content_length := None\<rparr>) w1)
                           \<lparr>passed := passed w @ redirect_passes ops location\<rparr>))
                else if rq_status rq = 200
                then ((HTTP_MOVED_TEMPORARILY, blen, body), set_req r (rq\<lparr>rq_cfg_status := HTTP_MOVED_TEMPORARILY\<rparr>) w1)
                else ((status, blen, body), w1))"

section \<open>Passing, flushing and writing\<close>

text \<open>The transient bucket over the first \<open>len\<close> bytes of \<open>mem\<close>, passed on with the optional flush bucket.\<close>

definition wbucket_send ::
    "httpd_ops \<Rightarrow> wbucket \<Rightarrow> string \<Rightarrow> nat \<Rightarrow> bool \<Rightarrow> io_world \<Rightarrow> (int \<times> wbucket \<times> io_world) res" where
  "wbucket_send ops wb mem len add_flush_bucket w = (case slot_filter (filters wb) w of
       None \<Rightarrow> Inl NullDeref
     | Some f \<Rightarrow>
         if len > length mem then Inl OutOfBounds
         else let (rv, w') = ap_pass_brigade ops f
                    (DataBucket (take len mem) # (if add_flush_bucket then [FlushBucket] else [])) w
              in Inr (rv, wb, w'))"

definition modperl_wbucket_pass ::
    "httpd_ops \<Rightarrow> wbucket \<Rightarrow> string \<Rightarrow> nat \<Rightarrow> bool \<Rightarrow> io_world \<Rightarrow> (int \<times> wbucket \<times> io_world) res" where
  "modperl_wbucket_pass ops wb mem len add_flush_bucket w =
     (if slot_filter (filters wb) w = None then Inl NullDeref
      else let wb1 = wb\<lparr>outcnt := 0\<rparr> in
        if header_parse wb1
        then (case wb_r wb1 of
            None \<Rightarrow> Inl NullDeref
          | Some r \<Rightarrow>
              let ((status, blen, body), w1) = modperl_cgi_header_parse ops r (Some mem) len w;
                  wb2 = wb1\<lparr>header_parse := False\<rparr>
              in if status = HTTP_MOVED_TEMPORARILY then Inr (APR_SUCCESS, wb2, w1)
                 else if status \<noteq> OK
                 then Inr (APR_SUCCESS, wb2, log_io (NoHeaderSent r) (set_req r ((reqs w1 r)\<lparr>rq_status := status\<rparr>) w1))
                 else if blen = 0 then Inr (APR_SUCCESS, wb2, w1)
                 else (case body of
                     None \<Rightarrow> Inl NullDeref
                   | Some b \<Rightarrow> wbucket_send ops wb2 b blen add_flush_bucket w1))
        else wbucket_send ops wb1 mem len add_flush_bucket w)"

definition send_output_flush :: "httpd_ops \<Rightarrow> nat option \<Rightarrow> io_world \<Rightarrow> (int \<times> io_world) res" where
  "send_output_flush ops f w = (case f of
       None \<Rightarrow> Inl NullDeref
     | Some f' \<Rightarrow> Inr (ap_pass_brigade ops f' [FlushBucket] w))"

definition modperl_wbucket_flush ::
    "httpd_ops \<Rightarrow> wbucket \<Rightarrow> bool \<Rightarrow> io_world \<Rightarrow> (int \<times> wbucket \<times> io_world) res" where
  "modperl_wbucket_flush ops wb add_flush_bucket w =
     (if outcnt wb \<noteq> 0 then modperl_wbucket_pass ops wb (outbuf wb) (outcnt wb) add_flush_bucket w
      else if add_flush_bucket
      then and_then (send_output_flush ops (slot_filter (filters wb) w) w) (\<lambda>(rv, w'). Inr (rv, wb, w'))
      else Inr (APR_SUCCESS, wb, w))"

text \<open>\<open>memcpy\<close> of \<open>bs\<close> to offset \<open>off\<close> of an array.\<close>

definition buf_put :: "nat \<Rightarrow> string \<Rightarrow> string \<Rightarrow> string" where
  "buf_put off bs buf = take off buf @ bs @ drop (off + length bs) buf"

text \<open>The sum \<open>len + outcnt\<close> is computed in \<open>apr_size_t\<close>, 64 bits wide. The result holds the status and
\<open>*wlen\<close>.\<close>

definition modperl_wbucket_write ::
    "httpd_ops \<Rightarrow> wbucket \<Rightarrow> string \<Rightarrow> nat \<Rightarrow> io_world \<Rightarrow> (int \<times> nat \<times> wbucket \<times> io_world) res" where
  "modperl_wbucket_write ops wb mem len w =
     and_then (if (len + outcnt wb) mod 2 ^ 64 > MP_IOBUFSIZE then modperl_wbucket_flush ops wb False w
               else Inr (APR_SUCCESS, wb, w)) (\<lambda>(rv, wb1, w1).
       if rv \<noteq> APR_SUCCESS then Inr (rv, 0, wb1, w1)
       else if len \<ge> MP_IOBUFSIZE
       then and_then (modperl_wbucket_pass ops wb1 mem len False w1) (\<lambda>(rv', wb2, w2). Inr (rv', len, wb2, w2))
       else if outcnt wb1 + len > length (outbuf wb1) \<or> len > length mem then Inl OutOfBounds
       else Inr (APR_SUCCESS, len,
                 wb1\<lparr>outbuf := buf_put (outcnt wb1) (take len mem) (outbuf wb1), outcnt := outcnt wb1 + len\<rparr>, w1))"

section \<open>Where the headers end\<close>

text \<open>The reference: a prefix ends the headers when it ends with two line feeds that have only carriage
returns between them.\<close>

definition tail_lf :: "string \<Rightarrow> bool" where
  "tail_lf p = (case dropWhile (\<lambda>c. c = CR) (rev p) of [] \<Rightarrow> False | d # _ \<Rightarrow> d = LF)"

definition ends_headers :: "string \<Rightarrow> bool" where
  "ends_headers p = (p \<noteq> [] \<and> last p = LF \<and> tail_lf (butlast p))"

lemma tail_lf_simps [simp]: "\<not> tail_lf []" "tail_lf (p @ [c]) = (if c = CR then tail_lf p else c = LF)"
  by (simp_all add: tail_lf_def)

lemma ends_headers_simps [simp]: "\<not> ends_headers []" "ends_headers (p @ [c]) \<longleftrightarrow> c = LF \<and> tail_lf p"
  by (simp_all add: ends_headers_def)

lemma CR_neq_LF [simp]: "CR \<noteq> LF" "LF \<noteq> CR"
  by (simp_all add: CR_def LF_def)

lemma ends_headers_iff: "ends_headers p \<longleftrightarrow> (\<exists>a k. p = a @ [LF] @ replicate k CR @ [LF])"
proof
  assume "ends_headers p"
  then obtain q where q: "p = q @ [LF]" "tail_lf q"
    by (metis append_butlast_last_id ends_headers_def)
  define b where "b = takeWhile (\<lambda>c. c = CR) (rev q)"
  have b: "b = replicate (length b) CR"
    by (rule sym, rule replicate_length_same) (auto simp: b_def dest: set_takeWhileD)
  from q(2) obtain d a where "dropWhile (\<lambda>c. c = CR) (rev q) = LF # a"
    by (auto simp: tail_lf_def split: list.splits)
  then have "rev q = replicate (length b) CR @ LF # a"
    using b by (metis b_def takeWhile_dropWhile_id)
  then have "rev (rev q) = rev (replicate (length b) CR @ LF # a)" by (rule arg_cong)
  then have "q = rev a @ [LF] @ replicate (length b) CR" by simp
  with q(1) show "\<exists>a k. p = a @ [LF] @ replicate k CR @ [LF]" by auto
next
  have "tail_lf (a @ [LF] @ replicate k CR)" for a k
    by (subst tail_lf_def, simp, subst dropWhile_append2) auto
  moreover assume "\<exists>a k. p = a @ [LF] @ replicate k CR @ [LF]"
  ultimately show "ends_headers p"
    by (metis append.assoc ends_headers_simps(2))
qed

lemma header_scan_gen:
  "n = header_scan cs (if tail_lf p then 1 else 0) \<Longrightarrow>
     n \<le> length cs \<and> (\<forall>m. 0 < m \<and> m < n \<longrightarrow> \<not> ends_headers (p @ take m cs)) \<and>
     (ends_headers (p @ take n cs) \<and> 0 < n \<or> n = length cs)"
proof (induction cs arbitrary: p n)
  case (Cons c cs)
  show ?case
  proof (cases "c = LF \<and> tail_lf p")
    case True
    with Cons.prems have "n = 1" by simp
    with True show ?thesis by simp
  next
    case False
    define n' where "n' = header_scan cs (if tail_lf (p @ [c]) then 1 else 0)"
    from Cons.prems False have n: "n = Suc n'"
      by (auto simp: n'_def Let_def)
    have p: "\<not> ends_headers (p @ [c])" using False by simp
    have IH: "n' \<le> length cs" "\<And>m. 0 < m \<Longrightarrow> m < n' \<Longrightarrow> \<not> ends_headers ((p @ [c]) @ take m cs)"
      "ends_headers ((p @ [c]) @ take n' cs) \<and> 0 < n' \<or> n' = length cs"
      using Cons.IH [OF n'_def] by blast+
    have "\<not> ends_headers (p @ take m (c # cs))" if "0 < m" "m < n" for m
      using that IH(2) [of "m - 1"] p n by (cases m; cases "m - 1") auto
    with IH(1,3) n show ?thesis by auto
  qed
qed simp

lemma header_scan_le: "header_scan cs k \<le> length cs"
  by (induction cs k rule: header_scan.induct) (simp_all add: Let_def)

text \<open>The byte loop of \<open>modperl_cgi_header_parse\<close> stops right after the first place where
the text has two line feeds with nothing but carriage returns between them, or at the end of the data when there is no
such place: \<open>header_scan\<close> agrees with the reference \<open>ends_headers\<close> on every input.\<close>

theorem header_scan_first_blank_line:
  "header_scan cs 0 = (case filter (\<lambda>n. ends_headers (take n cs)) [0..<Suc (length cs)] of
      [] \<Rightarrow> length cs | n # _ \<Rightarrow> n)"
proof -
  define n where "n = header_scan cs 0"
  have n: "n \<le> length cs" "\<And>m. m < n \<Longrightarrow> \<not> ends_headers (take m cs)" "ends_headers (take n cs) \<or> n = length cs"
    using header_scan_gen [of n cs "[]"] by (auto simp: n_def) (metis ends_headers_simps(1) gr0I take_0)+
  let ?P = "\<lambda>n. ends_headers (take n cs)"
  have "[0..<Suc (length cs)] = [0..<n] @ n # [Suc n..<Suc (length cs)]"
    using n(1) upt_add_eq_append [of 0 n "Suc (length cs) - n"] upt_conv_Cons [of n "Suc (length cs)"] by simp
  moreover have "filter ?P [0..<n] = []" using n(2) by (auto simp: filter_empty_conv)
  ultimately have "filter ?P [0..<Suc (length cs)] = (if ?P n then [n] else []) @ filter ?P [Suc n..<Suc (length cs)]"
    by simp
  with n(3) show ?thesis unfolding n_def [symmetric] by (auto split: list.splits)
qed

section \<open>The buffer stays within its bounds\<close>

definition wb_ok :: "wbucket \<Rightarrow> bool" where
  "wb_ok wb \<longleftrightarrow> length (outbuf wb) = MP_IOBUFSIZE \<and> outcnt wb \<le> MP_IOBUFSIZE"

definition wb_linked :: "wbucket \<Rightarrow> io_world \<Rightarrow> bool" where
  "wb_linked wb w \<longleftrightarrow> slot_filter (filters wb) w \<noteq> None \<and> \<not> (header_parse wb \<and> wb_r wb = None)"

definition buffered :: "wbucket \<Rightarrow> string" where
  "buffered wb = take (outcnt wb) (outbuf wb)"

named_theorems wb_defs \<open>definitions of the output buffer\<close>

lemmas wb_world_defs [wb_defs] = ap_pass_brigade_def set_req_def log_io_def

lemma slot_filter_upd [simp]:
  "slot_filter sl (w\<lparr>passed := ps\<rparr>) = slot_filter sl w"
  "slot_filter sl (w\<lparr>reqs := rs\<rparr>) = slot_filter sl w"
  "slot_filter sl (w\<lparr>io_log := l\<rparr>) = slot_filter sl w"
  by (simp_all add: slot_filter_def split: filter_slot.split)

lemma length_buf_put [simp]:
  "off + length bs \<le> length buf \<Longrightarrow> length (buf_put off bs buf) = length buf"
  by (simp add: buf_put_def)

lemma take_buf_put [simp]:
  "off + length bs \<le> length buf \<Longrightarrow> take (off + length bs) (buf_put off bs buf) = take off buf @ bs"
  by (simp add: buf_put_def)

lemma cgi_header_parse_slot [simp]:
  "slot_filter sl (snd (modperl_cgi_header_parse ops r b len w)) = slot_filter sl w"
  by (simp add: modperl_cgi_header_parse_def wb_defs Let_def split: option.split prod.split)

lemma cgi_header_parse_body:
  assumes "modperl_cgi_header_parse ops r (Some mem) len w = ((status, blen, body), w')" "blen \<noteq> 0"
  shows "body = Some (drop (len - blen) mem)" "blen \<le> len"
  using assms by (auto simp: modperl_cgi_header_parse_def Let_def split: option.splits prod.splits if_splits)

text \<open>What \<open>modperl_wbucket_pass\<close> leaves: the same buffer, with nothing pending and the headers behind it.\<close>

lemma wbucket_pass_ok:
  assumes "wb_linked wb w" "len \<le> length mem"
  shows "\<exists>rv w'. modperl_wbucket_pass ops wb mem len fl w = Inr (rv, wb\<lparr>outcnt := 0, header_parse := False\<rparr>, w') \<and>
           (\<forall>sl. slot_filter sl w' = slot_filter sl w)"
proof (cases "header_parse wb")
  case False
  with assms show ?thesis
    by (auto simp: modperl_wbucket_pass_def wbucket_send_def wb_linked_def wb_defs split: option.split)
next
  case True
  with assms obtain r f where r: "wb_r wb = Some r" and f: "slot_filter (filters wb) w = Some f"
    by (auto simp: wb_linked_def)
  obtain status blen body w1 where P: "modperl_cgi_header_parse ops r (Some mem) len w = ((status, blen, body), w1)"
    by (metis prod.collapse)
  have sl: "slot_filter sl w1 = slot_filter sl w" for sl
    using cgi_header_parse_slot [of sl ops r "Some mem" len w] P by simp
  have "body = Some (drop (len - blen) mem)" "blen \<le> length (drop (len - blen) mem)" if "blen \<noteq> 0"
    using cgi_header_parse_body [OF P that] assms(2) by auto
  then show ?thesis
    using True r f P sl
    by (auto simp: modperl_wbucket_pass_def wbucket_send_def wb_defs Let_def split: option.split)
qed

lemma wb_ok_pass [simp]:
  "wb_ok wb \<Longrightarrow> wb_ok (wb\<lparr>outcnt := 0, header_parse := hp\<rparr>)"
  by (simp add: wb_ok_def)

lemma wbucket_flush_ok:
  assumes "wb_ok wb" "wb_linked wb w"
  shows "\<exists>rv wb' w'. modperl_wbucket_flush ops wb fl w = Inr (rv, wb', w') \<and> wb_ok wb' \<and> outcnt wb' = 0 \<and>
           wb_linked wb' w' \<and> filters wb' = filters wb"
proof (cases "outcnt wb = 0")
  case True
  with assms show ?thesis
    by (auto simp: modperl_wbucket_flush_def send_output_flush_def wb_linked_def wb_defs)
next
  case False
  from assms(1) have "outcnt wb \<le> length (outbuf wb)" by (simp add: wb_ok_def)
  with wbucket_pass_ok [OF assms(2) this] obtain rv w' where
    "modperl_wbucket_pass ops wb (outbuf wb) (outcnt wb) fl w = Inr (rv, wb\<lparr>outcnt := 0, header_parse := False\<rparr>, w')"
    "\<forall>sl. slot_filter sl w' = slot_filter sl w" by blast
  with False assms show ?thesis by (auto simp: modperl_wbucket_flush_def wb_linked_def)
qed

text \<open>C21. Writing to the output buffer never goes outside the array or follows a null pointer, whatever the
filters and the header scanner answer, and keeps at most \<open>MP_IOBUFSIZE\<close> bytes pending; the number of bytes reported as
written is the number asked for or, after an error of the flush, zero. The length is bounded so that
\<open>len + outcnt\<close> does not wrap around in 64 bits.\<close>

theorem wbucket_write_bounds:
  assumes "wb_ok wb" "wb_linked wb w" "len \<le> length mem" "len + MP_IOBUFSIZE < 2 ^ 64"
  shows "\<exists>rv n wb' w'. modperl_wbucket_write ops wb mem len w = Inr (rv, n, wb', w') \<and>
           wb_ok wb' \<and> wb_linked wb' w' \<and> filters wb' = filters wb \<and> (n = len \<or> n = 0 \<and> rv \<noteq> APR_SUCCESS)"
proof -
  let ?over = "MP_IOBUFSIZE < (len + outcnt wb) mod 2 ^ 64"
  have small: "(len + outcnt wb) mod 2 ^ 64 = len + outcnt wb"
    using assms(1,4) by (intro mod_less) (simp add: wb_ok_def)
  obtain rv wb1 w1 where
    1: "(if ?over then modperl_wbucket_flush ops wb False w else Inr (APR_SUCCESS, wb, w)) = Inr (rv, wb1, w1)" and
    ok: "wb_ok wb1" and ln: "wb_linked wb1 w1" and fs: "filters wb1 = filters wb" and
    room: "outcnt wb1 = 0 \<or> outcnt wb1 + len \<le> MP_IOBUFSIZE"
  proof (cases ?over)
    case True
    then show ?thesis using wbucket_flush_ok [OF assms(1,2), of ops False] that by auto
  next
    case False
    then show ?thesis using that [of APR_SUCCESS wb w] assms(1,2) small by simp
  qed
  show ?thesis
  proof (cases "rv = APR_SUCCESS \<and> MP_IOBUFSIZE \<le> len")
    case True
    from wbucket_pass_ok [OF ln assms(3), of ops False] obtain rv' w' where
      "modperl_wbucket_pass ops wb1 mem len False w1 = Inr (rv', wb1\<lparr>outcnt := 0, header_parse := False\<rparr>, w')"
      "\<forall>sl. slot_filter sl w' = slot_filter sl w1" by blast
    with True 1 ok ln fs show ?thesis by (auto simp: modperl_wbucket_write_def wb_linked_def)
  next
    case False
    with 1 ok ln fs room assms(3) show ?thesis
      by (auto simp: modperl_wbucket_write_def wb_ok_def wb_linked_def)
  qed
qed

section \<open>Everything written arrives, in order\<close>

text \<open>The bytes of a brigade and of everything passed to one filter.\<close>

fun bucket_bytes :: "bucket \<Rightarrow> string" where
  "bucket_bytes (DataBucket s) = s"
| "bucket_bytes (FailBucket rc) = []"
| "bucket_bytes EosBucket = []"
| "bucket_bytes FlushBucket = []"

definition brigade_bytes :: "brigade \<Rightarrow> string" where
  "brigade_bytes bb = concat (map bucket_bytes bb)"

definition sent_to :: "nat \<Rightarrow> (nat \<times> brigade) list \<Rightarrow> string" where
  "sent_to f ps = concat (map (\<lambda>(g, bb). if g = f then brigade_bytes bb else []) ps)"

lemma brigade_bytes_simps [simp]:
  "brigade_bytes [] = []" "brigade_bytes (b # bb) = bucket_bytes b @ brigade_bytes bb"
  "brigade_bytes (bb @ cc) = brigade_bytes bb @ brigade_bytes cc"
  by (simp_all add: brigade_bytes_def)

lemma sent_to_simps [simp]:
  "sent_to f [] = []" "sent_to f ((g, bb) # ps) = (if g = f then brigade_bytes bb else []) @ sent_to f ps"
  "sent_to f (ps @ qs) = sent_to f ps @ sent_to f qs"
  by (simp_all add: sent_to_def)

text \<open>
  The loop over the arguments of a print call, \<^verbatim>\<open>mpxs_write_loop\<close> in \<^verbatim>\<open>src/xs/modperl_xs_util.h\<close>: an error of a write
  is thrown as a Perl exception, otherwise the lengths add up.
\<close>

datatype perl_die = DieRc int | DieMsg string

primrec mpxs_write_loop ::
    "(string \<Rightarrow> 's \<Rightarrow> (int \<times> nat \<times> 's) res) \<Rightarrow> string list \<Rightarrow> nat \<Rightarrow> 's \<Rightarrow> ((perl_die + nat) \<times> 's) res" where
  "mpxs_write_loop func [] bytes s = Inr (Inr bytes, s)"
| "mpxs_write_loop func (buf # bufs) bytes s = and_then (func buf s) (\<lambda>(rc, wlen, s').
     if rc \<noteq> APR_SUCCESS then Inr (Inl (DieRc rc), s') else mpxs_write_loop func bufs (bytes + wlen) s')"

text \<open>
  The interface of a sink for bytes: \<open>put\<close> takes any string that \<open>fits\<close>, \<open>flush\<close> empties what is pending; \<open>out\<close> is
  what has left the sink. A client that writes pieces and flushes at the end has sent their concatenation.
\<close>

locale byte_sink =
  fixes inv :: "'s \<Rightarrow> bool" and fits :: "string \<Rightarrow> bool"
    and put :: "string \<Rightarrow> 's \<Rightarrow> (int \<times> nat \<times> 's) res" and flush :: "'s \<Rightarrow> (int \<times> 's) res"
    and out :: "'s \<Rightarrow> string" and pend :: "'s \<Rightarrow> string"
  assumes put_law: "inv s \<Longrightarrow> fits bs \<Longrightarrow>
      \<exists>s'. put bs s = Inr (APR_SUCCESS, length bs, s') \<and> inv s' \<and> out s' @ pend s' = out s @ pend s @ bs"
    and flush_law: "inv s \<Longrightarrow>
      \<exists>s'. flush s = Inr (APR_SUCCESS, s') \<and> inv s' \<and> out s' = out s @ pend s \<and> pend s' = []"
begin

lemma write_loop_law:
  "inv s \<Longrightarrow> list_all fits bss \<Longrightarrow>
     \<exists>s'. mpxs_write_loop put bss bytes s = Inr (Inr (bytes + length (concat bss)), s') \<and> inv s' \<and>
       out s' @ pend s' = out s @ pend s @ concat bss"
proof (induction bss arbitrary: s bytes)
  case (Cons bs bss)
  obtain s1 where 1: "put bs s = Inr (APR_SUCCESS, length bs, s1)" "inv s1" "out s1 @ pend s1 = out s @ pend s @ bs"
    using put_law Cons.prems by fastforce
  obtain s2 where 2: "mpxs_write_loop put bss (bytes + length bs) s1 =
        Inr (Inr (bytes + length bs + length (concat bss)), s2)" "inv s2"
      "out s2 @ pend s2 = out s1 @ pend s1 @ concat bss"
    using Cons.IH [OF 1(2)] Cons.prems by fastforce
  have "out s2 @ pend s2 = out s @ pend s @ concat (bs # bss)"
    unfolding 2(3) append_assoc [symmetric] 1(3) by simp
  with 1 2 show ?case by (simp add: add.assoc)
qed simp

lemma print_flush_law:
  assumes "inv s" "list_all fits bss"
  shows "\<exists>s1 s2. mpxs_write_loop put bss bytes s = Inr (Inr (bytes + length (concat bss)), s1) \<and>
           flush s1 = Inr (APR_SUCCESS, s2) \<and> inv s2 \<and> out s2 = out s @ pend s @ concat bss \<and> pend s2 = []"
proof -
  obtain s1 where 1: "mpxs_write_loop put bss bytes s = Inr (Inr (bytes + length (concat bss)), s1)" "inv s1"
      "out s1 @ pend s1 = out s @ pend s @ concat bss"
    using write_loop_law [OF assms] by blast
  obtain s2 where "flush s1 = Inr (APR_SUCCESS, s2)" "inv s2" "out s2 = out s1 @ pend s1" "pend s2 = []"
    using flush_law [OF 1(2)] by blast
  with 1 show ?thesis by simp
qed

end

text \<open>The output buffer is such a sink, for the filter it is linked to, once header parsing is over and as long as the
filters accept what they get.\<close>

definition wb_sink_inv :: "httpd_ops \<Rightarrow> nat \<Rightarrow> wbucket \<times> io_world \<Rightarrow> bool" where
  "wb_sink_inv ops f = (\<lambda>(wb, w). wb_ok wb \<and> slot_filter (filters wb) w = Some f \<and> \<not> header_parse wb \<and>
     (\<forall>h. pass_rv ops h = APR_SUCCESS))"

definition wb_fits :: "string \<Rightarrow> bool" where
  "wb_fits bs \<longleftrightarrow> length bs + MP_IOBUFSIZE < 2 ^ 64"

definition wb_put :: "httpd_ops \<Rightarrow> string \<Rightarrow> wbucket \<times> io_world \<Rightarrow> (int \<times> nat \<times> wbucket \<times> io_world) res" where
  "wb_put ops buf = (\<lambda>(wb, w). modperl_wbucket_write ops wb buf (length buf) w)"

lemma wbucket_pass_plain:
  assumes "wb_sink_inv ops f (wb, w)" "len \<le> length mem"
  shows "modperl_wbucket_pass ops wb mem len fl w = Inr (APR_SUCCESS, wb\<lparr>outcnt := 0\<rparr>,
           w\<lparr>passed := passed w @ [(f, DataBucket (take len mem) # (if fl then [FlushBucket] else []))]\<rparr>)"
  using assms by (simp add: modperl_wbucket_pass_def wbucket_send_def wb_sink_inv_def ap_pass_brigade_def)

lemma wbucket_flush_plain:
  assumes "wb_sink_inv ops f (wb, w)"
  obtains w' where "modperl_wbucket_flush ops wb fl w = Inr (APR_SUCCESS, wb\<lparr>outcnt := 0\<rparr>, w')"
    "wb_sink_inv ops f (wb\<lparr>outcnt := 0\<rparr>, w')" "sent_to f (passed w') = sent_to f (passed w) @ buffered wb"
proof (cases "outcnt wb = 0")
  case True
  then have "wb\<lparr>outcnt := 0\<rparr> = wb" by simp
  with True assms that show ?thesis
    by (cases fl) (auto simp: modperl_wbucket_flush_def send_output_flush_def wb_sink_inv_def ap_pass_brigade_def
        buffered_def)
next
  case False
  have "outcnt wb \<le> length (outbuf wb)" using assms by (simp add: wb_sink_inv_def wb_ok_def)
  from wbucket_pass_plain [OF assms this, of fl] False assms that show ?thesis
    by (cases fl) (auto simp: modperl_wbucket_flush_def wb_sink_inv_def wb_ok_def buffered_def)
qed

lemma wbucket_put_plain:
  assumes "wb_sink_inv ops f (wb, w)" "wb_fits bs"
  obtains wb' w' where "modperl_wbucket_write ops wb bs (length bs) w = Inr (APR_SUCCESS, length bs, wb', w')"
    "wb_sink_inv ops f (wb', w')"
    "sent_to f (passed w') @ buffered wb' = sent_to f (passed w) @ buffered wb @ bs"
proof -
  have small: "(length bs + outcnt wb) mod 2 ^ 64 = length bs + outcnt wb"
    using assms by (intro mod_less) (simp add: wb_sink_inv_def wb_ok_def wb_fits_def)
  obtain wb1 w1 where
    1: "(if MP_IOBUFSIZE < (length bs + outcnt wb) mod 2 ^ 64 then modperl_wbucket_flush ops wb False w
         else Inr (APR_SUCCESS, wb, w)) = Inr (APR_SUCCESS, wb1, w1)" and
    inv1: "wb_sink_inv ops f (wb1, w1)" and
    out1: "sent_to f (passed w1) @ buffered wb1 = sent_to f (passed w) @ buffered wb" and
    room: "outcnt wb1 = 0 \<or> length bs + outcnt wb1 \<le> MP_IOBUFSIZE"
  proof (cases "MP_IOBUFSIZE < (length bs + outcnt wb) mod 2 ^ 64")
    case True
    obtain w' where "modperl_wbucket_flush ops wb False w = Inr (APR_SUCCESS, wb\<lparr>outcnt := 0\<rparr>, w')"
      "wb_sink_inv ops f (wb\<lparr>outcnt := 0\<rparr>, w')" "sent_to f (passed w') = sent_to f (passed w) @ buffered wb"
      using wbucket_flush_plain [OF assms(1), of False] by blast
    with True show ?thesis by (intro that [of "wb\<lparr>outcnt := 0\<rparr>" w']) (simp_all add: buffered_def)
  next
    case False
    with assms(1) small show ?thesis by (intro that [of wb w]) simp_all
  qed
  show ?thesis
  proof (cases "MP_IOBUFSIZE \<le> length bs")
    case True
    then have "outcnt wb1 = 0" using room by (auto simp: MP_IOBUFSIZE_def)
    with True 1 inv1 out1 wbucket_pass_plain [OF inv1 order.refl, of bs False]
    show ?thesis
      by (intro that [of "wb1\<lparr>outcnt := 0\<rparr>" "w1\<lparr>passed := passed w1 @ [(f, [DataBucket bs])]\<rparr>"])
         (simp_all add: modperl_wbucket_write_def wb_sink_inv_def wb_ok_def buffered_def)
  next
    case False
    then have fit: "outcnt wb1 + length bs \<le> length (outbuf wb1)"
      using inv1 room by (auto simp: wb_sink_inv_def wb_ok_def)
    define wb2 where "wb2 = wb1\<lparr>outbuf := buf_put (outcnt wb1) bs (outbuf wb1), outcnt := outcnt wb1 + length bs\<rparr>"
    have "modperl_wbucket_write ops wb bs (length bs) w = Inr (APR_SUCCESS, length bs, wb2, w1)"
      using False 1 fit by (simp add: modperl_wbucket_write_def wb2_def)
    moreover have "wb_sink_inv ops f (wb2, w1)"
      using fit inv1 by (simp add: wb2_def wb_sink_inv_def wb_ok_def)
    moreover have "buffered wb2 = buffered wb1 @ bs"
      using fit by (simp add: wb2_def buffered_def)
    ultimately show ?thesis using out1 that by (metis append.assoc)
  qed
qed

interpretation wbs: byte_sink "wb_sink_inv ops f" wb_fits "wb_put ops"
  "\<lambda>(wb, w). modperl_wbucket_flush ops wb fl w" "\<lambda>(wb, w). sent_to f (passed w)" "\<lambda>(wb, w). buffered wb"
  for ops f fl
proof
  fix s bs
  assume a: "wb_sink_inv ops f s" "wb_fits bs"
  obtain wb w where s: "s = (wb, w)" by force
  from wbucket_put_plain [OF a [unfolded s]] obtain wb' w' where
    "modperl_wbucket_write ops wb bs (length bs) w = Inr (APR_SUCCESS, length bs, wb', w')"
    "wb_sink_inv ops f (wb', w')"
    "sent_to f (passed w') @ buffered wb' = sent_to f (passed w) @ buffered wb @ bs" .
  then show "\<exists>s'. wb_put ops bs s = Inr (APR_SUCCESS, length bs, s') \<and> wb_sink_inv ops f s' \<and>
      (case s' of (wb, w) \<Rightarrow> sent_to f (passed w)) @ (case s' of (wb, w) \<Rightarrow> buffered wb) =
      (case s of (wb, w) \<Rightarrow> sent_to f (passed w)) @ (case s of (wb, w) \<Rightarrow> buffered wb) @ bs"
    by (simp add: s wb_put_def)
next
  fix s
  assume a: "wb_sink_inv ops f s"
  obtain wb w where s: "s = (wb, w)" by force
  from wbucket_flush_plain [OF a [unfolded s], of fl] obtain w' where
    "modperl_wbucket_flush ops wb fl w = Inr (APR_SUCCESS, wb\<lparr>outcnt := 0\<rparr>, w')"
    "wb_sink_inv ops f (wb\<lparr>outcnt := 0\<rparr>, w')" "sent_to f (passed w') = sent_to f (passed w) @ buffered wb" .
  then show "\<exists>s'. (case s of (wb, w) \<Rightarrow> modperl_wbucket_flush ops wb fl w) = Inr (APR_SUCCESS, s') \<and>
      wb_sink_inv ops f s' \<and>
      (case s' of (wb, w) \<Rightarrow> sent_to f (passed w)) =
      (case s of (wb, w) \<Rightarrow> sent_to f (passed w)) @ (case s of (wb, w) \<Rightarrow> buffered wb) \<and>
      (case s' of (wb, w) \<Rightarrow> buffered wb) = []"
    by (simp add: s buffered_def)
qed

section \<open>Header parsing happens once\<close>

text \<open>With header parsing on, the first data that leaves the buffer is split: when the scanner accepts the
headers and finds no redirect, the filter gets exactly the bytes after the end of the headers, nothing is sent twice and
the parser is off afterwards.\<close>

theorem wbucket_header_split:
  assumes "slot_filter (filters wb) w = Some f" "header_parse wb" "wb_r wb = Some r" "len \<le> length mem"
    "scan_header ops mem (reqs w r) = (OK, rq)" "rq_location rq = None"
  shows "\<exists>rv w'. modperl_wbucket_pass ops wb mem len fl w = Inr (rv, wb\<lparr>outcnt := 0, header_parse := False\<rparr>, w') \<and>
           sent_to f (passed w') = sent_to f (passed w) @ drop (header_scan (take len mem) 0) (take len mem) \<and>
           reqs w' r = rq"
proof -
  let ?n = "header_scan (take len mem) 0"
  have "modperl_cgi_header_parse ops r (Some mem) len w =
      ((OK, if ?n \<ge> len then (0, None) else (len - ?n, Some (drop ?n mem))), set_req r rq w)"
    using assms(5,6) by (simp add: modperl_cgi_header_parse_def Let_def)
  moreover have "take (len - ?n) (drop ?n mem) = drop ?n (take len mem)" by (simp add: drop_take)
  ultimately show ?thesis
    using assms by (auto simp: modperl_wbucket_pass_def wbucket_send_def wb_defs Let_def OK_def HTTP_MOVED_TEMPORARILY_def)
qed

section \<open>An instance\<close>

text \<open>Filters that accept everything and a scanner that accepts every header and reads only \<open>Location\<close>.\<close>

definition demo_httpd :: httpd_ops where
  "demo_httpd = \<lparr>pass_rv = (\<lambda>h. APR_SUCCESS), scan_header = (\<lambda>mem rq. (OK, rq)), redirect_passes = (\<lambda>loc. [])\<rparr>"

definition demo_req :: request_rec where
  "demo_req = \<lparr>rq_status = 200, rq_method = ''POST'', rq_method_number = 2, rq_location = None,
     rq_content_length = Some ''3'', rq_cfg_status = 0\<rparr>"

definition demo_io :: io_world where
  "demo_io = \<lparr>fl_next = (\<lambda>f. Some (Suc f)), req_filters = (\<lambda>r. Some 5), reqs = (\<lambda>r. demo_req), passed = [], io_log = []\<rparr>"

definition demo_wb :: wbucket where
  "demo_wb = \<lparr>outcnt = 8190, outbuf = replicate MP_IOBUFSIZE (CHR ''x''), filters = OutputFilters 1,
     header_parse = False, wb_r = Some 1\<rparr>"

lemmas demo_wb_defs = demo_httpd_def demo_req_def demo_io_def demo_wb_def

theorem wbucket_write_bounds_witness:
  "\<exists>rv n wb' w'. modperl_wbucket_write demo_httpd demo_wb ''abcd'' 4 demo_io = Inr (rv, n, wb', w') \<and>
     wb_ok wb' \<and> wb_linked wb' w' \<and> filters wb' = OutputFilters 1 \<and> (n = 4 \<or> n = 0 \<and> rv \<noteq> APR_SUCCESS)"
  using wbucket_write_bounds [of demo_wb demo_io 4 "''abcd''" demo_httpd]
  by (simp add: wb_ok_def wb_linked_def slot_filter_def demo_wb_defs MP_IOBUFSIZE_def)

theorem wbucket_header_split_witness:
  "\<exists>rv w'. modperl_wbucket_pass demo_httpd (demo_wb\<lparr>header_parse := True\<rparr>) [CHR ''A'', LF, CR, LF, CHR ''b'', CHR ''c''] 5 False demo_io
       = Inr (rv, demo_wb\<lparr>outcnt := 0, header_parse := False\<rparr>, w') \<and>
     sent_to 5 (passed w') = ''b'' \<and> reqs w' 1 = demo_req"
  using wbucket_header_split [of "demo_wb\<lparr>header_parse := True\<rparr>" demo_io 5 1 5
      "[CHR ''A'', LF, CR, LF, CHR ''b'', CHR ''c'']" demo_httpd demo_req False]
  by (simp add: slot_filter_def demo_wb_defs MP_IOBUFSIZE_def LF_def CR_def)

end
