(* ===== verification/Request_IO.thy ===== *)
theory Request_IO
  imports Wbucket
begin

text \<open>
  Input and output of a request: the start and the end of a response (\<^verbatim>\<open>modperl_response_init\<close> and
  \<^verbatim>\<open>modperl_response_finish\<close> of \<^verbatim>\<open>src/src/modules/perl/mod_perl.c\<close>), the print and flush methods of the request
  object (\<^verbatim>\<open>src/xs/Apache2/RequestIO/Apache2__RequestIO.h\<close>), the PerlIO layer of \<open>STDOUT\<close> and the reader of the
  request body (\<^verbatim>\<open>modperl_io_apache.c\<close>).

  A method either returns or throws a Perl exception (\<open>perl_die\<close>); both leave a state behind, so the result of a
  method is a sum next to the new state, inside the results that stand for memory errors.
\<close>

section \<open>State\<close>

record io_state =
  io_w :: io_world
  rcfg_wbucket :: "nat \<Rightarrow> wbucket option"
  req_parse_headers :: "nat \<Rightarrow> bool"      \<comment> \<open>\<open>MpReqPARSE_HEADERS\<close>\<close>
  conn_keepalive_closed :: "nat \<Rightarrow> bool"
  in_log :: "nat \<Rightarrow> brigade list"          \<comment> \<open>what \<open>ap_get_brigade\<close> has returned so far\<close>

type_synonym 'a meth = "io_state \<Rightarrow> ((perl_die + 'a) \<times> io_state) res"

definition set_wb :: "nat \<Rightarrow> wbucket \<times> io_world \<Rightarrow> io_state \<Rightarrow> io_state" where
  "set_wb r = (\<lambda>(wb, w) st. st\<lparr>rcfg_wbucket := (rcfg_wbucket st)(r := Some wb), io_w := w\<rparr>)"

section \<open>Start and end of a response\<close>

text \<open>\<open>fresh\<close> is the content of newly allocated memory, which \<open>apr_palloc\<close> does not clear.\<close>

definition modperl_response_init :: "string \<Rightarrow> bool \<Rightarrow> nat \<Rightarrow> io_state \<Rightarrow> io_state" where
  "modperl_response_init fresh dir_parse_headers r st =
     (let buf = (case rcfg_wbucket st r of None \<Rightarrow> fresh | Some wb \<Rightarrow> outbuf wb)
      in st\<lparr>rcfg_wbucket := (rcfg_wbucket st)(r := Some
           \<lparr>outcnt = 0, outbuf = buf, filters = OutputFilters r,
            header_parse = (dir_parse_headers \<and> req_parse_headers st r), wb_r = Some r\<rparr>)\<rparr>)"

definition modperl_response_finish :: "httpd_ops \<Rightarrow> nat \<Rightarrow> io_state \<Rightarrow> (int \<times> io_state) res" where
  "modperl_response_finish ops r st = (case rcfg_wbucket st r of
       None \<Rightarrow> Inl NullDeref
     | Some wb \<Rightarrow> and_then (modperl_wbucket_flush ops wb False (io_w st)) (\<lambda>(rc, s). Inr (rc, set_wb r s st)))"

text \<open>\<open>MP_CGI_HEADER_PARSER_OFF\<close>.\<close>

definition header_parser_off :: "nat \<Rightarrow> io_state \<Rightarrow> io_state" where
  "header_parser_off r st =
     (let st1 = st\<lparr>req_parse_headers := (req_parse_headers st)(r := False)\<rparr> in
      case rcfg_wbucket st1 r of None \<Rightarrow> st1
      | Some wb \<Rightarrow> st1\<lparr>rcfg_wbucket := (rcfg_wbucket st1)(r := Some (wb\<lparr>header_parse := False\<rparr>))\<rparr>)"

section \<open>Methods that print\<close>

text \<open>\<open>MP_CHECK_WBUCKET_INIT\<close>, and the rest of the method with the buffer.\<close>

definition with_wbucket :: "string \<Rightarrow> nat \<Rightarrow> (wbucket \<Rightarrow> 'a meth) \<Rightarrow> 'a meth" where
  "with_wbucket func r k st = (case rcfg_wbucket st r of
       None \<Rightarrow> Inr (Inl (DieMsg (func @ '' can't be called before the response phase'')), st)
     | Some wb \<Rightarrow> k wb st)"

text \<open>\<open>MP_RUN_CROAK\<close> around a flush.\<close>

definition flush_or_croak :: "httpd_ops \<Rightarrow> nat \<Rightarrow> bool \<Rightarrow> 'a \<Rightarrow> 'a meth" where
  "flush_or_croak ops r add_flush_bucket x = with_wbucket ''flush'' r (\<lambda>wb st.
     and_then (modperl_wbucket_flush ops wb add_flush_bucket (io_w st)) (\<lambda>(rc, s).
       Inr (if rc \<noteq> APR_SUCCESS then Inl (DieRc rc) else Inr x, set_wb r s st)))"

text \<open>\<open>MP_RUN_CROAK_RESET_OK\<close> around a flush: a connection that the client dropped is only logged.\<close>

definition flush_or_croak_reset_ok :: "httpd_ops \<Rightarrow> (int \<Rightarrow> bool) \<Rightarrow> nat \<Rightarrow> bool \<Rightarrow> 'a \<Rightarrow> 'a meth" where
  "flush_or_croak_reset_ok ops conn_gone r add_flush_bucket x = with_wbucket ''flush'' r (\<lambda>wb st.
     and_then (modperl_wbucket_flush ops wb add_flush_bucket (io_w st)) (\<lambda>(rc, wb', w').
       if rc = APR_SUCCESS then Inr (Inr x, set_wb r (wb', w') st)
       else if conn_gone rc then Inr (Inr x, set_wb r (wb', log_io (LogInfo rc) w') st)
       else Inr (Inl (DieRc rc), set_wb r (wb', w') st)))"

definition write_args :: "httpd_ops \<Rightarrow> string \<Rightarrow> nat \<Rightarrow> string list \<Rightarrow> nat meth" where
  "write_args ops func r args = with_wbucket func r (\<lambda>wb st.
     and_then (mpxs_write_loop (wb_put ops) args 0 (wb, io_w st)) (\<lambda>(res, s). Inr (res, set_wb r s st)))"

text \<open>\<open>io_flush\<close> is \<open>IoFLUSH(PL_defoutgv)\<close>, the Perl variable \<open>$|\<close>.\<close>

definition mpxs_output_flush :: "httpd_ops \<Rightarrow> bool \<Rightarrow> nat \<Rightarrow> nat \<Rightarrow> nat meth" where
  "mpxs_output_flush ops io_flush r bytes st =
     (if io_flush then flush_or_croak ops r True bytes st else Inr (Inr bytes, st))"

definition die_or :: "((perl_die + 'a) \<times> io_state) res \<Rightarrow> ('a \<Rightarrow> 'b meth) \<Rightarrow> ((perl_die + 'b) \<times> io_state) res" where
  "die_or m k = and_then m (\<lambda>(res, st). case res of Inl e \<Rightarrow> Inr (Inl e, st) | Inr x \<Rightarrow> k x st)"

definition mpxs_ap_rvputs :: "httpd_ops \<Rightarrow> nat \<Rightarrow> string list \<Rightarrow> nat meth" where
  "mpxs_ap_rvputs ops r args = write_args ops ''$r->puts'' r args"

definition RequestRec_print :: "httpd_ops \<Rightarrow> bool \<Rightarrow> nat \<Rightarrow> string list \<Rightarrow> nat meth" where
  "RequestRec_print ops io_flush r args st =
     die_or (write_args ops ''$r->print'' r args st) (mpxs_output_flush ops io_flush r)"

text \<open>\<open>text\<close> is the formatted string.\<close>

definition mpxs_ap_rprintf :: "httpd_ops \<Rightarrow> bool \<Rightarrow> nat \<Rightarrow> string \<Rightarrow> nat meth" where
  "mpxs_ap_rprintf ops io_flush r text st =
     die_or (write_args ops ''$r->printf'' r [text] st) (mpxs_output_flush ops io_flush r)"

text \<open>\<open>len\<close> is an \<open>apr_size_t\<close> (the default \<open>-1\<close> is \<open>2 ^ 64 - 1\<close>), \<open>offset\<close> a signed \<open>apr_off_t\<close>. Adding the offset to
the pointer gives an address inside the string only for offsets up to its length.\<close>

definition RequestRec_write :: "httpd_ops \<Rightarrow> nat \<Rightarrow> string \<Rightarrow> nat \<Rightarrow> int \<Rightarrow> nat meth" where
  "RequestRec_write ops r buffer len offset =
     (let avail = length buffer;
          wlen = (if len = 2 ^ 64 - 1
                  then (if offset \<noteq> 0 then nat ((int avail - offset) mod 2 ^ 64) else avail) else len)
      in with_wbucket ''$r->write'' r (\<lambda>wb st.
           if offset < 0 \<or> offset > int avail then Inl OutOfBounds
           else and_then (modperl_wbucket_write ops wb (drop (nat offset) buffer) wlen (io_w st)) (\<lambda>(rc, n, s).
                  Inr (if rc \<noteq> APR_SUCCESS then Inl (DieRc rc) else Inr n, set_wb r s st))))"

definition RequestRec_rflush :: "httpd_ops \<Rightarrow> (int \<Rightarrow> bool) \<Rightarrow> nat \<Rightarrow> unit meth" where
  "RequestRec_rflush ops conn_gone r =
     with_wbucket ''$r->rflush'' r (\<lambda>_. flush_or_croak_reset_ok ops conn_gone r True ())"

section \<open>The PerlIO layer\<close>

definition PerlIOApache_write :: "httpd_ops \<Rightarrow> bool \<Rightarrow> nat \<Rightarrow> string \<Rightarrow> nat meth" where
  "PerlIOApache_write ops can_write r vbuf st =
     (if \<not> can_write then Inr (Inr 0, st) else write_args ops ''print'' r [vbuf] st)"

text \<open>\<open>r\<close> is \<open>None\<close> for a stale handle.\<close>

definition PerlIOApache_flush :: "httpd_ops \<Rightarrow> (int \<Rightarrow> bool) \<Rightarrow> bool \<Rightarrow> nat option \<Rightarrow> int meth" where
  "PerlIOApache_flush ops conn_gone can_write r st = (case r of
       None \<Rightarrow> Inr (Inr (- 1), st)
     | Some r' \<Rightarrow> if \<not> can_write then Inr (Inr (- 1), st)
                 else with_wbucket ''flush'' r' (\<lambda>_. flush_or_croak_reset_ok ops conn_gone r' False 0) st)"

section \<open>Sending a file\<close>

text \<open>
  \<open>opened\<close> is the result of \<open>apr_file_open\<close>: an error or the content of the file. \<open>send_fd\<close> is \<open>ap_send_fd\<close>, given the
  content, the offset and the length.
\<close>

definition RequestRec_sendfile ::
    "httpd_ops \<Rightarrow> (string \<Rightarrow> nat \<Rightarrow> nat \<Rightarrow> io_world \<Rightarrow> int \<times> io_world) \<Rightarrow> bool \<Rightarrow> nat \<Rightarrow> (int + string) \<Rightarrow> nat \<Rightarrow> nat \<Rightarrow> int meth" where
  "RequestRec_sendfile ops send_fd void r opened offset len st = (case opened of
       Inl rc \<Rightarrow> if void then Inr (Inl (DieRc rc), st) else Inr (Inr rc, st)
     | Inr content \<Rightarrow>
         let len' = (if len = 0 then nat ((int (length content) - int offset) mod 2 ^ 64) else len) in
         with_wbucket ''$r->rflush'' r (\<lambda>wb st.
           die_or (if outcnt wb \<noteq> 0 then flush_or_croak ops r True () st else Inr (Inr (), st)) (\<lambda>_ st1.
             let (rc, w') = send_fd content offset len' (io_w st1)
             in Inr (if void \<and> rc \<noteq> APR_SUCCESS then Inl (DieRc rc) else Inr rc, st1\<lparr>io_w := w'\<rparr>))) st)"

section \<open>Reading the request body\<close>

type_synonym flatten_fun = "nat \<Rightarrow> brigade \<Rightarrow> int \<times> string"

definition log_in :: "nat \<Rightarrow> brigade list \<Rightarrow> io_state \<Rightarrow> io_state" where
  "log_in r bbs st = st\<lparr>in_log := (in_log st)(r := in_log st r @ bbs)\<rparr>"

text \<open>
  The loop of \<open>modperl_request_read\<close>; \<open>get\<close> is \<open>ap_get_brigade\<close> on the input filters in blocking mode, given what it
  returned before and how many bytes are asked for; \<open>flat\<close> is \<open>apr_brigade_flatten\<close>, given the room in the buffer; \<open>acc\<close> is what has been written to the buffer. The loop asks again
  as long as it gets neither enough data nor the end of the stream, hence the fuel.
\<close>

primrec request_read_loop ::
    "nat \<Rightarrow> (brigade list \<Rightarrow> nat \<Rightarrow> int \<times> brigade) \<Rightarrow> flatten_fun \<Rightarrow> nat \<Rightarrow> nat \<Rightarrow> string \<Rightarrow> string meth" where
  "request_read_loop 0 get flat r len acc st = Inl Diverges"
| "request_read_loop (Suc fuel) get flat r len acc st =
     (let (rc, bb) = get (in_log st r) len;
          st1 = log_in r [bb] st
      in if rc \<noteq> APR_SUCCESS
         then Inr (Inl (DieRc rc), st1\<lparr>conn_keepalive_closed := (conn_keepalive_closed st1)(r := True)\<rparr>)
         else if bb = []
         then Inr (Inl (DieMsg ''Apache2::RequestIO::read: Aborting read from client. One of the input filters is broken. It returned an empty bucket brigade for the APR_BLOCK_READ mode request''), st1)
         else let seen_eos = (last bb = EosBucket); (rc', bytes) = flat len bb
              in if rc' \<noteq> APR_SUCCESS then Inr (Inl (DieRc rc'), st1)
                 else if len - length bytes > 0 \<and> \<not> seen_eos
                 then request_read_loop fuel get flat r (len - length bytes) (acc @ bytes) st1
                 else Inr (Inr (acc @ bytes), st1))"

definition modperl_request_read ::
    "nat \<Rightarrow> (brigade list \<Rightarrow> nat \<Rightarrow> int \<times> brigade) \<Rightarrow> flatten_fun \<Rightarrow> nat \<Rightarrow> nat \<Rightarrow> string meth" where
  "modperl_request_read fuel get flat r len st = (if len = 0 then Inr (Inr [], st) else request_read_loop fuel get flat r len [] st)"

text \<open>
  The method \<open>read\<close>: \<open>len\<close> is unsigned, so the test for a length that is not positive catches zero only. The result is
  the number of bytes read and the new value of the buffer.
\<close>

definition RequestRec_read ::
    "nat \<Rightarrow> (brigade list \<Rightarrow> nat \<Rightarrow> int \<times> brigade) \<Rightarrow> flatten_fun \<Rightarrow> nat \<Rightarrow> string \<Rightarrow> nat \<Rightarrow> int \<Rightarrow> (nat \<times> string) meth" where
  "RequestRec_read fuel get flat r buffer len offset st =
     (let blen = length buffer in
      if len = 0 then Inr (Inl (DieMsg ''The LENGTH argument can't be negative''), st)
      else if offset < 0 \<and> - offset > sint (word_of_nat blen :: 32 word)
      then Inr (Inl (DieMsg ''Offset outside string''), st)
      else let off = nat (if offset < 0 then offset + int blen else offset);
               base = take off (buffer @ replicate (off - blen) (CHR 0x00))
           in die_or (modperl_request_read fuel get flat r len st) (\<lambda>data st'. Inr (Inr (length data, base @ data), st')))"

definition PerlIOApache_read ::
    "nat \<Rightarrow> (brigade list \<Rightarrow> nat \<Rightarrow> int \<times> brigade) \<Rightarrow> flatten_fun \<Rightarrow> bool \<Rightarrow> nat \<Rightarrow> nat \<Rightarrow> string meth" where
  "PerlIOApache_read fuel get flat can_read r count st =
     (if \<not> can_read then Inr (Inr [], st) else modperl_request_read fuel get flat r count st)"

section \<open>The body is read in order and the loop ends\<close>

text \<open>What APR promises of \<open>apr_brigade_flatten\<close>: the data of readable buckets, as much as there is room for.\<close>

definition flatten_ok :: "flatten_fun \<Rightarrow> bool" where
  "flatten_ok flat \<longleftrightarrow> (\<forall>len bb. (\<forall>rc. FailBucket rc \<notin> set bb) \<longrightarrow> flat len bb = (APR_SUCCESS, take len (brigade_bytes bb)))"

text \<open>What the input filters promise for a blocking read: success, a brigade that is not empty, readable buckets, and
at least a byte or the end of the stream.\<close>

definition input_ok :: "(brigade list \<Rightarrow> nat \<Rightarrow> int \<times> brigade) \<Rightarrow> bool" where
  "input_ok get \<longleftrightarrow> (\<forall>h n. case get h n of (rc, bb) \<Rightarrow> rc = APR_SUCCESS \<and> bb \<noteq> [] \<and> (\<forall>rc. FailBucket rc \<notin> set bb) \<and>
     (brigade_bytes bb \<noteq> [] \<or> last bb = EosBucket))"

lemma log_in_simps [simp]:
  "log_in r cs (log_in r bs st) = log_in r (bs @ cs) st" "in_log (log_in r bs st) r = in_log st r @ bs" "log_in r [] st = st"
  by (simp_all add: log_in_def)

lemma request_read_loop_ok:
  assumes "input_ok get" "0 < len" "len \<le> fuel" "flatten_ok flat"
  shows "\<exists>bbs st'. request_read_loop fuel get flat r len acc st = Inr (Inr (acc @ take len (concat (map brigade_bytes bbs))), st') \<and>
           st' = log_in r bbs st \<and> bbs \<noteq> [] \<and>
           (len \<le> length (concat (map brigade_bytes bbs)) \<or> last (last bbs) = EosBucket)"
  using assms(2,3)
proof (induction fuel arbitrary: len acc st)
  case (Suc fuel)
  obtain bb where bb: "get (in_log st r) len = (APR_SUCCESS, bb)" "bb \<noteq> []" "\<forall>rc. FailBucket rc \<notin> set bb"
      "brigade_bytes bb \<noteq> [] \<or> last bb = EosBucket"
    using assms(1) [unfolded input_ok_def, rule_format, of "in_log st r" len]
    by (cases "get (in_log st r) len") auto
  have flat: "flat len bb = (APR_SUCCESS, take len (brigade_bytes bb))" for len
    using assms(4) bb(3) by (simp add: flatten_ok_def)
  define st1 where "st1 = log_in r [bb] st"
  let ?k = "length (brigade_bytes bb)"
  show ?case
  proof (cases "?k < len \<and> last bb \<noteq> EosBucket")
    case False
    with bb have "request_read_loop (Suc fuel) get flat r len acc st = Inr (Inr (acc @ take len (brigade_bytes bb)), st1)"
      by (auto simp: flat Let_def st1_def)
    with False show ?thesis by (intro exI [of _ "[bb]"] exI [of _ st1]) (auto simp: st1_def)
  next
    case True
    with bb(4) have "0 < ?k" by simp
    with True Suc.prems have "0 < len - ?k" "len - ?k \<le> fuel" by linarith+
    from Suc.IH [OF this, of "acc @ brigade_bytes bb" st1] obtain bbs where bbs:
      "request_read_loop fuel get flat r (len - ?k) (acc @ brigade_bytes bb) st1 =
         Inr (Inr ((acc @ brigade_bytes bb) @ take (len - ?k) (concat (map brigade_bytes bbs))),
              log_in r bbs st1)"
      "bbs \<noteq> []" "len - ?k \<le> length (concat (map brigade_bytes bbs)) \<or> last (last bbs) = EosBucket"
      by auto
    have "request_read_loop (Suc fuel) get flat r len acc st =
        request_read_loop fuel get flat r (len - ?k) (acc @ brigade_bytes bb) st1"
      using True bb by (simp add: flat st1_def)
    with True bbs show ?thesis
      by (intro exI [of _ "bb # bbs"] exI [of _ "log_in r bbs st1"])
         (auto simp: st1_def)
  qed
qed simp

text \<open>C24. \<open>modperl_request_read\<close> ends when the input filters keep their promise: at most \<open>len\<close> rounds are
enough, the buffer gets the bytes of the brigades in order and never more than \<open>len\<close>, and it gets fewer only when the
stream ended.\<close>

theorem request_read_returns:
  assumes "input_ok get" "flatten_ok flat"
  shows "\<exists>bbs data. modperl_request_read (Suc len) get flat r len st = Inr (Inr data, log_in r bbs st) \<and>
           data = take len (concat (map brigade_bytes bbs)) \<and> length data \<le> len \<and>
           (length data = len \<or> last (last bbs) = EosBucket)"
proof (cases "len = 0")
  case True
  then show ?thesis by (intro exI [of _ "[]"]) (simp add: modperl_request_read_def)
next
  case False
  with request_read_loop_ok [OF assms(1) _ _ assms(2), of len "Suc len" r "[]" st] show ?thesis
    by (auto simp: modperl_request_read_def simp del: request_read_loop.simps)
qed

section \<open>A response as a whole\<close>

text \<open>A response handler that only prints: a list of calls of \<open>print\<close>, each with the value of \<open>$|\<close> at the call, and
the number of bytes they reported.\<close>

primrec print_calls :: "httpd_ops \<Rightarrow> nat \<Rightarrow> (bool \<times> string list) list \<Rightarrow> nat \<Rightarrow> nat meth" where
  "print_calls ops r [] n st = Inr (Inr n, st)"
| "print_calls ops r (c # cs) n st =
     die_or (RequestRec_print ops (fst c) r (snd c) st) (\<lambda>k. print_calls ops r cs (n + k))"

definition response_inv :: "httpd_ops \<Rightarrow> nat \<Rightarrow> nat \<Rightarrow> io_state \<Rightarrow> bool" where
  "response_inv ops f r st \<longleftrightarrow> (case rcfg_wbucket st r of None \<Rightarrow> False | Some wb \<Rightarrow> wb_sink_inv ops f (wb, io_w st))"

definition response_out :: "nat \<Rightarrow> nat \<Rightarrow> io_state \<Rightarrow> string" where
  "response_out f r st = sent_to f (passed (io_w st)) @
     (case rcfg_wbucket st r of None \<Rightarrow> [] | Some wb \<Rightarrow> buffered wb)"

lemma flush_or_croak_inv:
  assumes "response_inv ops f r st"
  shows "\<exists>st'. flush_or_croak ops r fl x st = Inr (Inr x, st') \<and> response_inv ops f r st' \<and>
           response_out f r st' = response_out f r st"
proof -
  obtain wb where wb: "rcfg_wbucket st r = Some wb" "wb_sink_inv ops f (wb, io_w st)"
    using assms by (auto simp: response_inv_def split: option.splits)
  obtain w' where "modperl_wbucket_flush ops wb fl (io_w st) = Inr (APR_SUCCESS, wb\<lparr>outcnt := 0\<rparr>, w')"
    "wb_sink_inv ops f (wb\<lparr>outcnt := 0\<rparr>, w')" "sent_to f (passed w') = sent_to f (passed (io_w st)) @ buffered wb"
    using wbucket_flush_plain [OF wb(2), of fl] by blast
  with wb(1) show ?thesis
    by (auto simp: flush_or_croak_def with_wbucket_def set_wb_def response_inv_def response_out_def buffered_def)
qed

lemma RequestRec_print_inv:
  assumes "response_inv ops f r st" "list_all wb_fits args"
  shows "\<exists>st'. RequestRec_print ops fl r args st = Inr (Inr (length (concat args)), st') \<and> response_inv ops f r st' \<and>
           response_out f r st' = response_out f r st @ concat args"
proof -
  obtain wb where wb: "rcfg_wbucket st r = Some wb" "wb_sink_inv ops f (wb, io_w st)"
    using assms by (auto simp: response_inv_def split: option.splits)
  obtain wb' w' where 1: "mpxs_write_loop (wb_put ops) args 0 (wb, io_w st) = Inr (Inr (length (concat args)), wb', w')"
    "wb_sink_inv ops f (wb', w')"
    "sent_to f (passed w') @ buffered wb' = sent_to f (passed (io_w st)) @ buffered wb @ concat args"
    using wbs.write_loop_law [OF wb(2) assms(2), of 0] by auto
  define st1 where "st1 = set_wb r (wb', w') st"
  have 2: "response_inv ops f r st1" "response_out f r st1 = response_out f r st @ concat args"
    using 1 wb(1) by (simp_all add: st1_def response_inv_def response_out_def set_wb_def)
  have "write_args ops ''$r->print'' r args st = Inr (Inr (length (concat args)), st1)"
    using 1(1) wb(1) by (simp add: write_args_def with_wbucket_def st1_def)
  with 2 flush_or_croak_inv [OF 2(1), of True "length (concat args)"] show ?thesis
    by (auto simp: RequestRec_print_def die_or_def mpxs_output_flush_def)
qed

lemma print_calls_inv:
  assumes "response_inv ops f r st" "list_all (\<lambda>c. list_all wb_fits (snd c)) cs"
  shows "\<exists>st'. print_calls ops r cs n st = Inr (Inr (n + length (concat (concat (map snd cs)))), st') \<and>
           response_inv ops f r st' \<and> response_out f r st' = response_out f r st @ concat (concat (map snd cs))"
  using assms
proof (induction cs arbitrary: n st)
  case (Cons c cs)
  obtain st1 where 1: "RequestRec_print ops (fst c) r (snd c) st = Inr (Inr (length (concat (snd c))), st1)"
    "response_inv ops f r st1" "response_out f r st1 = response_out f r st @ concat (snd c)"
    using RequestRec_print_inv [OF Cons.prems(1)] Cons.prems(2) by fastforce
  from Cons.IH [OF 1(2), of "n + length (concat (snd c))"] Cons.prems(2) 1 show ?case
    by (auto simp: die_or_def add.assoc)
qed simp


section \<open>Limits of the interface\<close>

lemma write_after_flush:
  assumes "(len + outcnt wb) mod 2 ^ 64 > MP_IOBUFSIZE" "len < 2 ^ 64"
    "modperl_wbucket_flush ops wb False w = Inr (APR_SUCCESS, wb', w')" "outcnt wb' = 0"
  shows "modperl_wbucket_write ops wb mem len w = modperl_wbucket_write ops wb' mem len w'"
  using assms by (simp add: modperl_wbucket_write_def modperl_wbucket_flush_def)

text \<open>\<open>$r->write\<close> checks the length against nothing: with an explicit length that is larger than what
is left of the string after the offset, the bytes after the end of the string are read.\<close>

theorem request_write_overread:
  assumes "response_inv ops f r st" "0 \<le> offset" "offset \<le> int (length buffer)"
    "length buffer - nat offset < len" "len + MP_IOBUFSIZE < 2 ^ 64"
  shows "RequestRec_write ops r buffer len offset st = Inl OutOfBounds"
proof -
  obtain wb where wb: "rcfg_wbucket st r = Some wb" "wb_sink_inv ops f (wb, io_w st)"
    using assms by (auto simp: response_inv_def split: option.splits)
  let ?mem = "drop (nat offset) buffer"
  have short: "length ?mem < len" using assms(4) by simp
  have over: "modperl_wbucket_write ops wb' ?mem len w' = Inl OutOfBounds"
    if "wb_sink_inv ops f (wb', w')" "\<not> MP_IOBUFSIZE < (len + outcnt wb') mod 2 ^ 64 \<or> outcnt wb' = 0" for wb' w'
    using that short by (auto simp: modperl_wbucket_write_def modperl_wbucket_flush_def modperl_wbucket_pass_def
        wbucket_send_def wb_sink_inv_def)
  have "modperl_wbucket_write ops wb ?mem len (io_w st) = Inl OutOfBounds"
  proof (cases "MP_IOBUFSIZE < (len + outcnt wb) mod 2 ^ 64")
    case False
    with over wb(2) show ?thesis by blast
  next
    case True
    obtain w' where "modperl_wbucket_flush ops wb False (io_w st) = Inr (APR_SUCCESS, wb\<lparr>outcnt := 0\<rparr>, w')"
      "wb_sink_inv ops f (wb\<lparr>outcnt := 0\<rparr>, w')"
      using wbucket_flush_plain [OF wb(2), of False] by blast
    with True assms(5) over [of "wb\<lparr>outcnt := 0\<rparr>" w'] show ?thesis
      by (subst write_after_flush) simp_all
  qed
  with assms(2,3,5) wb(1) show ?thesis
    by (simp add: RequestRec_write_def with_wbucket_def MP_IOBUFSIZE_def)
qed

text \<open>The headers have to leave the buffer in one piece: when the part that was written first does not
contain the blank line and the next write overflows the buffer, the parser sees only the first part, and the rest of the
headers goes to the client as the body.\<close>

theorem header_split_by_flush:
  assumes "wb_ok wb" "outcnt wb = 0" "header_parse wb" "wb_r wb = Some r" "slot_filter (filters wb) w = Some f"
    "\<forall>h. pass_rv ops h = APR_SUCCESS" "\<forall>mem. scan_header ops mem (reqs w r) = (OK, rq)" "rq_location rq = None"
    "bs1 \<noteq> []" "length bs1 < MP_IOBUFSIZE" "header_scan bs1 0 = length bs1"
    "wb_fits bs2" "MP_IOBUFSIZE < length bs1 + length bs2"
  shows "\<exists>wb' w'. mpxs_write_loop (wb_put ops) [bs1, bs2] 0 (wb, w) = Inr (Inr (length (bs1 @ bs2)), wb', w') \<and>
           sent_to f (passed w') @ buffered wb' = sent_to f (passed w) @ bs2"
proof -
  define wb1 where "wb1 = wb\<lparr>outbuf := buf_put 0 bs1 (outbuf wb), outcnt := length bs1\<rparr>"
  have room: "\<not> MP_IOBUFSIZE < (length bs1 + outcnt wb) mod 2 ^ 64"
    using assms(2,10) mod_less_eq_dividend [of "length bs1" "2 ^ 64"] by simp
  have w1: "modperl_wbucket_write ops wb bs1 (length bs1) w = Inr (APR_SUCCESS, length bs1, wb1, w)"
    using assms(1,2,10) room by (simp add: modperl_wbucket_write_def wb_ok_def wb1_def del: power_numeral)
  have take1: "take (length bs1) (outbuf wb1) = bs1"
    using assms(1,10) take_buf_put [of 0 bs1 "outbuf wb"] by (simp add: wb1_def wb_ok_def)
  have wb1: "outcnt wb1 = length bs1" "length (outbuf wb1) = MP_IOBUFSIZE" "header_parse wb1" "wb_r wb1 = Some r" "filters wb1 = filters wb"
    using assms(1,3,4,10) by (simp_all add: wb1_def wb_ok_def)
  define wb2 where "wb2 = wb1\<lparr>outcnt := 0, header_parse := False\<rparr>"
  have "modperl_cgi_header_parse ops r (Some (outbuf wb1)) (length bs1) w = ((OK, 0, None), set_req r rq w)"
    using assms(7,8,11) take1 by (simp add: modperl_cgi_header_parse_def)
  then have w2: "modperl_wbucket_flush ops wb1 False w = Inr (APR_SUCCESS, wb2, set_req r rq w)"
    using wb1 assms(5,9) by (simp add: modperl_wbucket_flush_def modperl_wbucket_pass_def wb2_def OK_def HTTP_MOVED_TEMPORARILY_def)
  have inv2: "wb_sink_inv ops f (wb2, set_req r rq w)"
    using wb1 assms(5,6) by (simp add: wb2_def wb_sink_inv_def wb_ok_def set_req_def)
  have "buffered wb2 = []" "passed (set_req r rq w) = passed w" by (simp_all add: wb2_def buffered_def set_req_def)
  with wbucket_put_plain [OF inv2 assms(12)] obtain wb3 w3 where
    3: "modperl_wbucket_write ops wb2 bs2 (length bs2) (set_req r rq w) = Inr (APR_SUCCESS, length bs2, wb3, w3)"
    "sent_to f (passed w3) @ buffered wb3 = sent_to f (passed w) @ bs2" by (metis append_Nil)
  have "modperl_wbucket_write ops wb1 bs2 (length bs2) w = Inr (APR_SUCCESS, length bs2, wb3, w3)"
    unfolding 3(1) [symmetric]
    using assms(10,12,13) wb1(1) w2 by (intro write_after_flush) (simp_all add: wb_fits_def wb2_def)
  with w1 3(2) show ?thesis by (simp add: wb_put_def)
qed

text \<open>\<open>$r->read\<close> with an offset: a negative one counts from the end of the buffer, bytes before the offset
are kept and padded with null bytes up to it, and the buffer ends with the data.\<close>

theorem request_read_offset:
  assumes "input_ok get" "flatten_ok flat" "0 < len" "length buffer < 2 ^ 31" "- int (length buffer) \<le> offset"
  shows "\<exists>bbs data. RequestRec_read (Suc len) get flat r buffer len offset st =
             Inr (Inr (length data, take (nat (if offset < 0 then offset + int (length buffer) else offset)) buffer @
                        replicate (nat offset - length buffer) (CHR 0x00) @ data), log_in r bbs st) \<and>
           data = take len (concat (map brigade_bytes bbs))"
proof -
  obtain bbs where "modperl_request_read (Suc len) get flat r len st =
      Inr (Inr (take len (concat (map brigade_bytes bbs))), log_in r bbs st)"
    using request_read_loop_ok [OF assms(1,3) _ assms(2), of "Suc len" r "[]" st] assms(3)
    by (auto simp: modperl_request_read_def simp del: request_read_loop.simps)
  moreover have "sint (word_of_nat (length buffer) :: 32 word) = int (length buffer)"
    using assms(4) by (simp add: signed_of_nat signed_take_bit_int_eq_self)
  ultimately show ?thesis
    using assms(3,5) by (auto simp: RequestRec_read_def die_or_def Let_def)
qed

section \<open>Instances\<close>

definition demo_io_state :: io_state where
  "demo_io_state = \<lparr>io_w = demo_io, rcfg_wbucket = (\<lambda>r. None), req_parse_headers = (\<lambda>r. True),
     conn_keepalive_closed = (\<lambda>r. False), in_log = (\<lambda>r. [])\<rparr>"

text \<open>An input that gives two bytes at a time and the end of the stream with the third brigade.\<close>

definition demo_get :: "brigade list \<Rightarrow> nat \<Rightarrow> int \<times> brigade" where
  "demo_get h n = (APR_SUCCESS, if length h < 2 then [DataBucket ''ab''] else [DataBucket ''c'', EosBucket])"

text \<open>The bytes of the buckets up to \<open>len\<close>, or the error of a bucket that cannot be read.\<close>

fun brigade_flatten :: "nat \<Rightarrow> brigade \<Rightarrow> int \<times> string" where
  "brigade_flatten len [] = (APR_SUCCESS, [])"
| "brigade_flatten len (FailBucket rc # bb) = (rc, [])"
| "brigade_flatten len (b # bb) =
     (let s = take len (bucket_bytes b) in
      if length s = len then (APR_SUCCESS, s)
      else let (rc, t) = brigade_flatten (len - length s) bb in (rc, s @ t))"

lemma brigade_flatten_ok: "flatten_ok brigade_flatten"
proof -
  have "\<forall>rc. FailBucket rc \<notin> set bb \<Longrightarrow> brigade_flatten len bb = (APR_SUCCESS, take len (brigade_bytes bb))" for len bb
    by (induction len bb rule: brigade_flatten.induct) (auto simp: Let_def)
  then show ?thesis by (simp add: flatten_ok_def)
qed

lemma demo_get_ok: "input_ok demo_get"
  by (simp add: input_ok_def demo_get_def)

theorem request_read_returns_witness:
  "\<exists>bbs data. modperl_request_read 10 demo_get brigade_flatten 1 9 demo_io_state = Inr (Inr data, log_in 1 bbs demo_io_state) \<and>
     data = take 9 (concat (map brigade_bytes bbs)) \<and> length data \<le> 9 \<and>
     (length data = 9 \<or> last (last bbs) = EosBucket)"
  using request_read_returns [OF demo_get_ok brigade_flatten_ok, of 9 1 demo_io_state] by simp

theorem request_read_offset_witness:
  "\<exists>bbs data. RequestRec_read 3 demo_get brigade_flatten 1 ''xyz'' 2 (- 1) demo_io_state =
       Inr (Inr (length data, ''xy'' @ data), log_in 1 bbs demo_io_state) \<and>
     data = take 2 (concat (map brigade_bytes bbs))"
  using request_read_offset [OF demo_get_ok brigade_flatten_ok, of 2 "''xyz''" "- 1" 1 demo_io_state] by (simp add: numeral_3_eq_3)


theorem request_write_overread_witness:
  "RequestRec_write demo_httpd 1 ''abc'' 3 1 (modperl_response_init (replicate 8192 (CHR 0x00)) False 1 demo_io_state)
     = Inl OutOfBounds"
  by (rule request_write_overread [where f = 5])
     (simp_all add: demo_io_state_def demo_wb_defs MP_IOBUFSIZE_def modperl_response_init_def response_inv_def
        wb_sink_inv_def wb_ok_def slot_filter_def)

theorem header_split_by_flush_witness:
  "\<exists>wb' w'. mpxs_write_loop (wb_put demo_httpd) [''A: b'' @ [LF], LF # replicate 8191 (CHR ''x'')] 0
         (demo_wb\<lparr>outcnt := 0, header_parse := True\<rparr>, demo_io) = Inr (Inr 8197, wb', w') \<and>
     sent_to 5 (passed w') @ buffered wb' = LF # replicate 8191 (CHR ''x'')"
proof -
  let ?bs2 = "LF # replicate 8191 (CHR ''x'')"
  have "\<exists>wb' w'. mpxs_write_loop (wb_put demo_httpd) [''A: b'' @ [LF], ?bs2] 0
         (demo_wb\<lparr>outcnt := 0, header_parse := True\<rparr>, demo_io) = Inr (Inr (length ((''A: b'' @ [LF]) @ ?bs2)), wb', w') \<and>
      sent_to 5 (passed w') @ buffered wb' = sent_to 5 (passed demo_io) @ ?bs2"
    by (rule header_split_by_flush [where r = 1 and rq = demo_req])
       (simp_all add: demo_wb_defs MP_IOBUFSIZE_def slot_filter_def wb_ok_def wb_fits_def CR_def LF_def)
  then show ?thesis by (simp add: demo_io_def del: mpxs_write_loop.simps)
qed

end
