(* ===== verification/Stream_Filter.thy ===== *)
theory Stream_Filter
  imports Handler Wbucket
begin

text \<open>
  Streaming filters, \<^verbatim>\<open>src/src/modules/perl/modperl_filter.c\<close>: reading the brigade of an invocation, writing to the
  next filter (output) or to the brigade of the caller (input), running the handler and postponing the end of the
  stream until the handler has returned.

  A filter is a number; \<open>fl_next\<close> of the world gives the next filter of its chain. The Perl handler is an interaction
  tree \<open>fprog\<close>: it calls \<open>$f->read\<close>, \<open>$f->print\<close> and \<open>$f->seen_eos\<close>, sees what they return or throw and ends with the
  status and the error variable that \<open>modperl_callback\<close> gets. \<open>ap_get_brigade\<close> and the results of \<open>ap_pass_brigade\<close> are
  parameters; so is the selection of an interpreter around the handler. Buckets that grow while they are read (files, pipes) appear as the sequence of the buckets they turn into.
\<close>

section \<open>State\<close>

datatype filter_mode = INPUT_FILTER_MODE | OUTPUT_FILTER_MODE

text \<open>\<open>leftover\<close> holds the \<open>remaining\<close> bytes that the pointer of that name points to; \<open>bucket\<close> is a position in
\<open>bb_in\<close>.\<close>

record modperl_filter =
  seen_eos :: bool
  eos :: bool
  flt_flush :: bool
  flt :: nat
  leftover :: string
  flt_wbucket :: "wbucket option"
  bucket :: "nat option"
  bb_in :: "brigade option"
  bb_out :: "brigade option"
  input_mode :: int
  block :: int
  readbytes :: int
  flt_rc :: int
  mode :: filter_mode

record fworld =
  fio :: io_world
  sent_eos :: "nat \<Rightarrow> bool"           \<comment> \<open>of the context of each filter\<close>
  got :: "(nat option \<times> brigade) list"  \<comment> \<open>the calls of \<open>ap_get_brigade\<close> and their brigades\<close>
  ferrsv :: perl_err                 \<comment> \<open>the variable \<open>$@\<close>\<close>

record filter_ops =
  f_httpd :: httpd_ops
  get_brigade :: "(nat option \<times> brigade) list \<Rightarrow> nat option \<Rightarrow> int \<times> int \<times> int \<Rightarrow> int \<times> brigade"
  nobody_wrote :: int
  conn_gone :: "int \<Rightarrow> bool"          \<comment> \<open>\<open>APR_STATUS_IS_ECONNRESET\<close> or \<open>APR_STATUS_IS_ECONNABORTED\<close>\<close>

type_synonym 'a fmeth = "modperl_filter \<Rightarrow> fworld \<Rightarrow> ('a \<times> modperl_filter \<times> fworld) res"

definition ap_get_brigade :: "filter_ops \<Rightarrow> nat option \<Rightarrow> int \<times> int \<times> int \<Rightarrow> fworld \<Rightarrow> (int \<times> brigade) \<times> fworld" where
  "ap_get_brigade ops f how w =
     (let (rc, bb) = get_brigade ops (got w) f how in ((rc, bb), w\<lparr>got := got w @ [(f, bb)]\<rparr>))"

text \<open>\<open>ap_pass_brigade\<close> with the next filter of a chain, which may be missing.\<close>

definition pass_next :: "filter_ops \<Rightarrow> nat option \<Rightarrow> brigade \<Rightarrow> fworld \<Rightarrow> int \<times> fworld" where
  "pass_next ops f bb w = (case f of
       None \<Rightarrow> (nobody_wrote ops, w)
     | Some g \<Rightarrow> let (rv, io') = ap_pass_brigade (f_httpd ops) g bb (fio w) in (rv, w\<lparr>fio := io'\<rparr>))"

section \<open>Sending metadata\<close>

definition send_input_eos :: "int fmeth" where
  "send_input_eos fl w = (case bb_out fl of
       None \<Rightarrow> Inl NullDeref
     | Some bb \<Rightarrow> Inr (APR_SUCCESS, fl\<lparr>bb_out := Some (bb @ [EosBucket])\<rparr>,
                      w\<lparr>sent_eos := (sent_eos w)(flt fl := True)\<rparr>))"

definition send_input_flush :: "int fmeth" where
  "send_input_flush fl w = (case bb_out fl of
       None \<Rightarrow> Inl NullDeref
     | Some bb \<Rightarrow> Inr (APR_SUCCESS, fl\<lparr>bb_out := Some (bb @ [FlushBucket])\<rparr>, w))"

definition send_output_eos :: "filter_ops \<Rightarrow> nat \<Rightarrow> fworld \<Rightarrow> int \<times> fworld" where
  "send_output_eos ops f w =
     pass_next ops (fl_next (fio w) f) [EosBucket] (w\<lparr>sent_eos := (sent_eos w)(f := True)\<rparr>)"

section \<open>A filter object\<close>

definition modperl_filter_new :: "nat \<Rightarrow> brigade \<Rightarrow> filter_mode \<Rightarrow> int \<times> int \<times> int \<Rightarrow> modperl_filter" where
  "modperl_filter_new f bb m how = (case how of (im, bl, rb) \<Rightarrow>
     \<lparr>seen_eos = False, eos = False, flt_flush = False, flt = f, leftover = [], flt_wbucket = None, bucket = None,
      bb_in = (if m = INPUT_FILTER_MODE then None else Some bb),
      bb_out = (if m = INPUT_FILTER_MODE then Some bb else None),
      input_mode = (if m = INPUT_FILTER_MODE then im else 0), block = (if m = INPUT_FILTER_MODE then bl else 0),
      readbytes = (if m = INPUT_FILTER_MODE then rb else 0), flt_rc = APR_SUCCESS, mode = m\<rparr>)"

definition WBUCKET_INIT :: "modperl_filter \<Rightarrow> modperl_filter \<times> wbucket" where
  "WBUCKET_INIT fl = (case flt_wbucket fl of
       Some wb \<Rightarrow> (fl, wb)
     | None \<Rightarrow> let wb = \<lparr>outcnt = 0, outbuf = replicate MP_IOBUFSIZE (CHR 0x00), filters = NextOf (flt fl),
                        header_parse = False, wb_r = None\<rparr>
              in (fl\<lparr>flt_wbucket := Some wb\<rparr>, wb))"

definition set_fwb :: "wbucket \<times> io_world \<Rightarrow> modperl_filter \<Rightarrow> fworld \<Rightarrow> modperl_filter \<times> fworld" where
  "set_fwb = (\<lambda>(wb, io') fl w. (fl\<lparr>flt_wbucket := Some wb\<rparr>, w\<lparr>fio := io'\<rparr>))"

section \<open>Reading\<close>

text \<open>The next data bucket: \<open>True\<close> when \<open>bucket\<close> has moved to one.\<close>

definition get_bucket :: "modperl_filter \<Rightarrow> bool \<times> modperl_filter" where
  "get_bucket fl = (case bb_in fl of
       None \<Rightarrow> (False, fl)
     | Some [] \<Rightarrow> (False, fl)
     | Some bb \<Rightarrow>
         let pos = (case bucket fl of None \<Rightarrow> 0 | Some i \<Rightarrow> Suc i) in
         if pos \<ge> length bb then (False, fl\<lparr>bucket := None, bb_in := Some []\<rparr>)
         else (case bb ! pos of
             EosBucket \<Rightarrow> (False, fl\<lparr>bucket := Some pos, seen_eos := True\<rparr>)
           | FlushBucket \<Rightarrow> (False, fl\<lparr>bucket := Some pos, flt_flush := True\<rparr>)
           | _ \<Rightarrow> (True, fl\<lparr>bucket := Some pos\<rparr>)))"

definition cur_bucket :: "modperl_filter \<Rightarrow> bucket option" where
  "cur_bucket fl = (case (bb_in fl, bucket fl) of
       (Some bb, Some i) \<Rightarrow> if i < length bb then Some (bb ! i) else None
     | _ \<Rightarrow> None)"

definition read_left :: "modperl_filter \<Rightarrow> nat" where
  "read_left fl = (case bb_in fl of None \<Rightarrow> 0 | Some bb \<Rightarrow> (case bucket fl of None \<Rightarrow> Suc (length bb) | Some i \<Rightarrow> length bb - i))"

lemma get_bucket_read_left: "get_bucket fl = (True, fl') \<Longrightarrow> read_left fl' < read_left fl"
  by (auto simp: get_bucket_def read_left_def Let_def split: option.splits list.splits if_splits bucket.splits)

lemma read_left_rc [simp]: "read_left (fl\<lparr>flt_rc := rc\<rparr>) = read_left fl"
  by (simp add: read_left_def split: option.split)

text \<open>
  The loop of \<open>modperl_filter_read\<close>; \<open>buf\<close> is the Perl buffer. The number of bytes taken of the last bucket is held in a
  32-bit \<open>int\<close>: a larger one turns negative and the copy runs away.
\<close>

function filter_read_loop :: "modperl_filter \<Rightarrow> nat \<Rightarrow> string \<Rightarrow> ((perl_die + string) \<times> modperl_filter) res" where
  "filter_read_loop fl wanted buf =
     (let r = get_bucket fl; fl1 = snd r in
      if \<not> fst r then Inr (Inr buf, fl1)
      else case cur_bucket fl1 of
        Some (FailBucket rc) \<Rightarrow> Inr (Inl (DieRc rc), fl1\<lparr>flt_rc := rc\<rparr>)
      | Some (DataBucket s) \<Rightarrow>
          let fl2 = fl1\<lparr>flt_rc := APR_SUCCESS\<rparr> in
          if s = [] then filter_read_loop fl2 wanted buf
          else if length buf + length s \<ge> wanted
          then let nibble = wanted - length buf in
               if nibble \<ge> 2 ^ 31 then Inl OutOfBounds
               else Inr (Inr (buf @ take nibble s), fl2\<lparr>leftover := drop nibble s\<rparr>)
          else filter_read_loop fl2 wanted (buf @ s)
      | _ \<Rightarrow> Inl NullDeref)"
  by pat_completeness auto
termination
  by (relation "measure (\<lambda>(fl, wanted, buf). read_left fl)")
     (simp_all, (metis get_bucket_read_left prod.collapse)+)

declare filter_read_loop.simps [simp del]

definition modperl_filter_read :: "modperl_filter \<Rightarrow> nat \<Rightarrow> ((perl_die + string) \<times> modperl_filter) res" where
  "modperl_filter_read fl wanted =
     (if seen_eos fl then Inr (Inr [], fl)
      else if leftover fl \<noteq> []
      then (if length (leftover fl) \<ge> wanted
            then Inr (Inr (take wanted (leftover fl)), fl\<lparr>leftover := drop wanted (leftover fl)\<rparr>)
            else filter_read_loop (fl\<lparr>leftover := []\<rparr>) wanted (leftover fl))
      else filter_read_loop fl wanted [])"

section \<open>Flushing and writing\<close>

definition modperl_input_filter_flush :: "int fmeth" where
  "modperl_input_filter_flush fl w =
     (if sent_eos w (flt fl) then Inr (flt_rc fl, fl, w)
      else and_then (if flt_flush fl
                     then and_then (send_input_flush fl w) (\<lambda>(rc, fl', w'). Inr (fl'\<lparr>flt_rc := rc, flt_flush := False\<rparr>, w'))
                     else Inr (fl, w)) (\<lambda>(fl1, w1).
           and_then (if eos fl1
                     then and_then (send_input_eos fl1 w1) (\<lambda>(rc, fl', w'). Inr (fl'\<lparr>flt_rc := rc, eos := False\<rparr>, w'))
                     else Inr (fl1, w1)) (\<lambda>(fl2, w2). Inr (flt_rc fl2, fl2, w2))))"

definition modperl_output_filter_flush :: "filter_ops \<Rightarrow> int fmeth" where
  "modperl_output_filter_flush ops fl w =
     (if sent_eos w (flt fl) then Inr (flt_rc fl, fl, w)
      else let add_flush_bucket = flt_flush fl;
               (fl1, wb) = WBUCKET_INIT (fl\<lparr>flt_flush := False\<rparr>)
           in and_then (modperl_wbucket_flush (f_httpd ops) wb add_flush_bucket (fio w)) (\<lambda>(rc, s).
              let (fl2, w2) = set_fwb s (fl1\<lparr>flt_rc := rc\<rparr>) w in
              if rc \<noteq> APR_SUCCESS then Inr (rc, fl2, w2)
              else if eos fl2
              then let (rc', w3) = send_output_eos ops (flt fl2) w2
                   in Inr (rc', fl2\<lparr>flt_rc := rc', bb_in := None, eos := False\<rparr>, w3)
              else Inr (rc, fl2, w2)))"

definition modperl_input_filter_write :: "string \<Rightarrow> modperl_filter \<times> fworld \<Rightarrow> (int \<times> nat \<times> modperl_filter \<times> fworld) res" where
  "modperl_input_filter_write buf = (\<lambda>(fl, w). case bb_out fl of
       None \<Rightarrow> Inl NullDeref
     | Some bb \<Rightarrow> Inr (APR_SUCCESS, length buf, fl\<lparr>bb_out := Some (bb @ [DataBucket buf])\<rparr>, w))"

definition modperl_output_filter_write ::
    "filter_ops \<Rightarrow> string \<Rightarrow> modperl_filter \<times> fworld \<Rightarrow> (int \<times> nat \<times> modperl_filter \<times> fworld) res" where
  "modperl_output_filter_write ops buf = (\<lambda>(fl, w).
     let (fl1, wb) = WBUCKET_INIT fl in
     and_then (modperl_wbucket_write (f_httpd ops) wb buf (length buf) (fio w)) (\<lambda>(rc, n, s).
       Inr (rc, n, set_fwb s fl1 w)))"

section \<open>The read methods\<close>

definition read_then_flush :: "int fmeth \<Rightarrow> nat \<Rightarrow> (perl_die + string) fmeth" where
  "read_then_flush flush_meth wanted fl w =
     and_then (modperl_filter_read fl wanted) (\<lambda>(res, fl1). case res of
         Inl e \<Rightarrow> Inr (Inl e, fl1, w)
       | Inr buf \<Rightarrow>
           if flt_flush fl1 \<and> buf = []
           then and_then (flush_meth fl1 w) (\<lambda>(rc, fl2, w2).
                  Inr (if rc \<noteq> APR_SUCCESS then Inl (DieRc rc) else Inr buf, fl2, w2))
           else Inr (Inr buf, fl1, w))"

definition modperl_output_filter_read :: "filter_ops \<Rightarrow> nat \<Rightarrow> (perl_die + string) fmeth" where
  "modperl_output_filter_read ops wanted = read_then_flush (modperl_output_filter_flush ops) wanted"

definition modperl_input_filter_read :: "filter_ops \<Rightarrow> nat \<Rightarrow> (perl_die + string) fmeth" where
  "modperl_input_filter_read ops wanted fl w = (case bb_in fl of
       Some _ \<Rightarrow> read_then_flush modperl_input_filter_flush wanted fl w
     | None \<Rightarrow>
         let ((rc, bb), w1) = ap_get_brigade ops (fl_next (fio w) (flt fl)) (input_mode fl, block fl, readbytes fl) w;
             fl1 = fl\<lparr>bb_in := Some bb\<rparr>
         in if rc \<noteq> APR_SUCCESS then Inr (Inl (DieRc rc), fl1, w1)
            else read_then_flush modperl_input_filter_flush wanted fl1 w1)"

section \<open>Running the handler\<close>

datatype fprog =
    FDone int perl_err
  | FRead nat "perl_die + string \<Rightarrow> fprog"
  | FPrint "string list" "perl_die + nat \<Rightarrow> fprog"
  | FSetEos bool fprog

text \<open>\<open>$f->read\<close> and \<open>$f->print\<close> (\<^verbatim>\<open>src/xs/Apache2/Filter/Apache2__Filter.h\<close>).\<close>

definition Filter_read :: "filter_ops \<Rightarrow> nat \<Rightarrow> (perl_die + string) fmeth" where
  "Filter_read ops wanted fl w = (case mode fl of
       INPUT_FILTER_MODE \<Rightarrow> modperl_input_filter_read ops wanted fl w
     | OUTPUT_FILTER_MODE \<Rightarrow> modperl_output_filter_read ops wanted fl w)"

definition Filter_print :: "filter_ops \<Rightarrow> string list \<Rightarrow> (perl_die + nat) fmeth" where
  "Filter_print ops args fl w =
     mpxs_write_loop (case mode fl of OUTPUT_FILTER_MODE \<Rightarrow> modperl_output_filter_write ops
                      | INPUT_FILTER_MODE \<Rightarrow> modperl_input_filter_write) args 0 (fl, w)"

primrec run_fprog :: "filter_ops \<Rightarrow> fprog \<Rightarrow> (int \<times> perl_err) fmeth" where
  "run_fprog ops (FDone status e) fl w = Inr ((status, e), fl, w)"
| "run_fprog ops (FRead wanted k) fl w =
     and_then (Filter_read ops wanted fl w) (\<lambda>(res, fl', w'). run_fprog ops (k res) fl' w')"
| "run_fprog ops (FPrint args k) fl w =
     and_then (Filter_print ops args fl w) (\<lambda>(res, fl', w'). run_fprog ops (k res) fl' w')"
| "run_fprog ops (FSetEos b p) fl w = run_fprog ops p (fl\<lparr>seen_eos := b\<rparr>) w"

text \<open>The status of \<open>modperl_callback\<close> after \<open>modperl_errsv\<close>.\<close>

definition filter_status :: "int \<Rightarrow> perl_err \<Rightarrow> int" where
  "filter_status status e = (if status \<noteq> OK \<and> e = ExitErr then OK else status)"

text \<open>\<open>MP_RUN_CROAK_RESET_OK\<close>.\<close>

definition croak_reset_ok :: "filter_ops \<Rightarrow> int \<times> modperl_filter \<times> fworld \<Rightarrow> (modperl_filter \<times> fworld) res" where
  "croak_reset_ok ops = (\<lambda>(rc, fl, w).
     if rc = APR_SUCCESS then Inr (fl, w)
     else if conn_gone ops rc then Inr (fl, w\<lparr>fio := log_io (LogInfo rc) (fio w)\<rparr>)
     else Inl (Croak ''Apache2::Filter internal flush''))"

definition modperl_run_filter :: "filter_ops \<Rightarrow> fprog \<Rightarrow> int fmeth" where
  "modperl_run_filter ops prog fl w =
     and_then (run_fprog ops prog fl w) (\<lambda>((status0, e), fl1, w1).
       let status = filter_status status0 e;
           fl2 = (if seen_eos fl1 then fl1\<lparr>eos := True, seen_eos := False\<rparr> else fl1);
           saved = (if ferrsv w \<noteq> NoErr then ferrsv w else e)
       in and_then
            (case mode fl2 of
               INPUT_FILTER_MODE \<Rightarrow>
                 if bb_in fl2 \<noteq> None \<and> status = DECLINED
                 then Inl (Croak ''a filter calling $f->read must return OK and not DECLINED'')
                 else and_then (modperl_input_filter_flush (fl2\<lparr>bb_in := None\<rparr>) w1) (croak_reset_ok ops)
             | OUTPUT_FILTER_MODE \<Rightarrow> and_then (modperl_output_filter_flush ops fl2 w1) (croak_reset_ok ops))
            (\<lambda>(fl3, w3). Inr (status, fl3, w3\<lparr>ferrsv := saved\<rparr>)))"

text \<open>A brigade that was destroyed is empty.\<close>

definition modperl_output_filter_handler :: "filter_ops \<Rightarrow> fprog \<Rightarrow> nat \<Rightarrow> brigade \<Rightarrow> fworld \<Rightarrow> (int \<times> fworld) res" where
  "modperl_output_filter_handler ops prog f bb w =
     (if sent_eos w f then Inr (pass_next ops (fl_next (fio w) f) bb w)
      else and_then (modperl_run_filter ops prog (modperl_filter_new f bb OUTPUT_FILTER_MODE (0, 0, 0)) w)
        (\<lambda>(status, fl, w').
           if status = OK then Inr (APR_SUCCESS, w')
           else if status = DECLINED
           then Inr (pass_next ops (fl_next (fio w') f) (case bb_in fl of None \<Rightarrow> [] | Some bb' \<Rightarrow> bb') w')
           else Inr (status, w')))"

definition MODPERL_FILTER_ERROR :: "int" where "MODPERL_FILTER_ERROR = 120001"

definition modperl_input_filter_handler ::
    "filter_ops \<Rightarrow> fprog \<Rightarrow> nat \<Rightarrow> brigade \<Rightarrow> int \<times> int \<times> int \<Rightarrow> fworld \<Rightarrow> (int \<times> brigade \<times> fworld) res" where
  "modperl_input_filter_handler ops prog f bb how w =
     (let pull = (\<lambda>bb0 w0. case ap_get_brigade ops (fl_next (fio w0) f) how w0 of ((rc, bb'), w') \<Rightarrow> (rc, bb0 @ bb', w'))
      in if sent_eos w f then Inr (pull bb w)
         else and_then (modperl_run_filter ops prog (modperl_filter_new f bb INPUT_FILTER_MODE how) w)
           (\<lambda>(status, fl, w').
              let bb' = (case bb_out fl of None \<Rightarrow> [] | Some b \<Rightarrow> b) in
              if status = OK then Inr (APR_SUCCESS, bb', w')
              else if status = DECLINED then Inr (pull bb' w')
              else if status = HTTP_INTERNAL_SERVER_ERROR then Inr (MODPERL_FILTER_ERROR, bb', w')
              else Inr (status, bb', w')))"

section \<open>What a read returns\<close>

text \<open>The data before the first end-of-stream or flush bucket, and what is there after it.\<close>

fun seg :: "brigade \<Rightarrow> string" where
  "seg (DataBucket s # bb) = s @ seg bb"
| "seg (FailBucket rc # bb) = seg bb"
| "seg bb = []"

fun after_seg :: "brigade \<Rightarrow> brigade" where
  "after_seg (DataBucket s # bb) = after_seg bb"
| "after_seg (FailBucket rc # bb) = after_seg bb"
| "after_seg bb = bb"

definition rest :: "modperl_filter \<Rightarrow> brigade" where
  "rest fl = (case bb_in fl of None \<Rightarrow> [] | Some bb \<Rightarrow> drop (case bucket fl of None \<Rightarrow> 0 | Some i \<Rightarrow> Suc i) bb)"

definition pending :: "modperl_filter \<Rightarrow> string" where
  "pending fl = leftover fl @ seg (rest fl)"

definition readable :: "brigade \<Rightarrow> bool" where
  "readable bb \<longleftrightarrow> list_all (\<lambda>b. \<not> is_FailBucket b) bb"

text \<open>What reading leaves alone.\<close>

definition same_filter :: "modperl_filter \<Rightarrow> modperl_filter \<Rightarrow> bool" where
  "same_filter fl fl' \<longleftrightarrow> flt fl' = flt fl \<and> mode fl' = mode fl \<and> eos fl' = eos fl \<and> flt_wbucket fl' = flt_wbucket fl \<and>
     bb_out fl' = bb_out fl \<and> (bb_in fl' = None \<longleftrightarrow> bb_in fl = None)"

lemma same_filter_trans: "same_filter a b \<Longrightarrow> same_filter b c \<Longrightarrow> same_filter a c"
  by (simp add: same_filter_def)

lemma rest_upd [simp]:
  "rest (fl\<lparr>flt_rc := rc\<rparr>) = rest fl" "rest (fl\<lparr>leftover := l\<rparr>) = rest fl" "rest (fl\<lparr>seen_eos := b\<rparr>) = rest fl"
  "rest (fl\<lparr>flt_flush := b\<rparr>) = rest fl" "rest (fl\<lparr>eos := b\<rparr>) = rest fl" "rest (fl\<lparr>flt_wbucket := wb\<rparr>) = rest fl"
  by (simp_all add: rest_def split: option.split)

lemma get_bucket_end:
  assumes "rest fl = []"
  obtains fl' where "get_bucket fl = (False, fl')" "rest fl' = []" "same_filter fl fl'" "seen_eos fl' = seen_eos fl"
    "flt_flush fl' = flt_flush fl" "leftover fl' = leftover fl" "flt_rc fl' = flt_rc fl"
proof (cases "bb_in fl = None \<or> bb_in fl = Some []")
  case True
  with assms show ?thesis by (intro that [of fl]) (auto simp: get_bucket_def same_filter_def)
next
  case False
  then obtain b bs where bb: "bb_in fl = Some (b # bs)" by (metis neq_Nil_conv option.exhaust)
  with assms show ?thesis
    by (intro that [of "fl\<lparr>bucket := None, bb_in := Some []\<rparr>"])
       (auto simp: get_bucket_def rest_def same_filter_def Let_def split: option.splits)
qed

lemma get_bucket_step:
  assumes "rest fl = b # bs"
  obtains fl' where "cur_bucket fl' = Some b" "rest fl' = bs" "same_filter fl fl'" "seen_eos fl' = seen_eos fl"
    "flt_flush fl' = flt_flush fl" "leftover fl' = leftover fl" "flt_rc fl' = flt_rc fl"
    "get_bucket fl = (case b of EosBucket \<Rightarrow> (False, fl'\<lparr>seen_eos := True\<rparr>) | FlushBucket \<Rightarrow> (False, fl'\<lparr>flt_flush := True\<rparr>)
       | _ \<Rightarrow> (True, fl'))"
proof -
  obtain bb where bb: "bb_in fl = Some bb" using assms by (auto simp: rest_def split: option.splits)
  define pos where "pos = (case bucket fl of None \<Rightarrow> 0 | Some i \<Rightarrow> Suc i)"
  have d: "drop pos bb = b # bs" using assms bb by (simp add: rest_def pos_def)
  then have p: "pos < length bb" "bb ! pos = b" "drop (Suc pos) bb = bs"
    by (metis drop_all linorder_not_le list.distinct(1), metis hd_drop_conv_nth drop_all linorder_not_le list.distinct(1) list.sel(1),
        metis drop_Suc drop_tl list.sel(3) tl_drop)
  define fl' where "fl' = fl\<lparr>bucket := Some pos\<rparr>"
  have "get_bucket fl = (case b of EosBucket \<Rightarrow> (False, fl'\<lparr>seen_eos := True\<rparr>)
      | FlushBucket \<Rightarrow> (False, fl'\<lparr>flt_flush := True\<rparr>) | _ \<Rightarrow> (True, fl'))"
    using bb p by (cases b) (auto simp: get_bucket_def fl'_def pos_def [symmetric] Let_def split: list.splits)
  with bb p show ?thesis
    by (intro that [of fl']) (simp_all add: fl'_def cur_bucket_def rest_def same_filter_def)
qed

text \<open>The state after a read that wanted \<open>n\<close> bytes: either there was enough data, or the reader has moved over the next
metadata bucket.\<close>

definition after_read :: "nat \<Rightarrow> modperl_filter \<Rightarrow> modperl_filter \<Rightarrow> bool" where
  "after_read n fl fl' \<longleftrightarrow> same_filter fl fl' \<and>
     (if pending fl \<noteq> [] \<and> n \<le> length (pending fl)
      then pending fl' = drop n (pending fl) \<and> seen_eos fl' = seen_eos fl \<and> flt_flush fl' = flt_flush fl \<and>
           after_seg (rest fl') = after_seg (rest fl)
      else leftover fl' = [] \<and> (case after_seg (rest fl) of
          [] \<Rightarrow> rest fl' = [] \<and> seen_eos fl' = seen_eos fl \<and> flt_flush fl' = flt_flush fl
        | EosBucket # bs \<Rightarrow> seen_eos fl' \<and> rest fl' = bs \<and> flt_flush fl' = flt_flush fl
        | _ # bs \<Rightarrow> flt_flush fl' \<and> rest fl' = bs \<and> seen_eos fl' = seen_eos fl)) \<and>
     (readable (rest fl) \<longrightarrow> readable (rest fl')) \<and> (flt_rc fl = APR_SUCCESS \<longrightarrow> flt_rc fl' = APR_SUCCESS)"

lemma after_read_shift:
  assumes "after_read n a fl'" "same_filter b a" "seen_eos a = seen_eos b" "flt_flush a = flt_flush b"
    "after_seg (rest a) = after_seg (rest b)" "readable (rest b) \<Longrightarrow> readable (rest a)"
    "flt_rc b = APR_SUCCESS \<Longrightarrow> flt_rc a = APR_SUCCESS"
    "(pending a \<noteq> [] \<and> n \<le> length (pending a)) = (pending b \<noteq> [] \<and> m \<le> length (pending b))"
    "drop n (pending a) = drop m (pending b)"
  shows "after_read m b fl'"
  using assms(1,6,7) same_filter_trans [OF assms(2)] unfolding after_read_def assms(3,4,5,8,9) by blast

lemma filter_read_loop_ok:
  assumes "readable (rest fl)" "leftover fl = []" "length buf \<le> wanted" "wanted < 2 ^ 31"
  shows "\<exists>fl'. filter_read_loop fl wanted buf = Inr (Inr (buf @ take (wanted - length buf) (seg (rest fl))), fl') \<and>
           after_read (wanted - length buf) fl fl'"
  using assms
proof (induction "rest fl" arbitrary: fl buf)
  case Nil
  from get_bucket_end [OF Nil.hyps [symmetric]] obtain fl' where
    "get_bucket fl = (False, fl')" "rest fl' = []" "same_filter fl fl'" "seen_eos fl' = seen_eos fl"
    "flt_flush fl' = flt_flush fl" "leftover fl' = leftover fl" "flt_rc fl' = flt_rc fl" .
  with Nil show ?case
    by (subst filter_read_loop.simps) (simp add: after_read_def pending_def Nil.hyps [symmetric])
next
  case (Cons b bs)
  note r = Cons.hyps(2) [symmetric]
  from get_bucket_step [OF r] obtain fl1 where g: "cur_bucket fl1 = Some b" "rest fl1 = bs" "same_filter fl fl1"
    "seen_eos fl1 = seen_eos fl" "flt_flush fl1 = flt_flush fl" "leftover fl1 = leftover fl" "flt_rc fl1 = flt_rc fl"
    "get_bucket fl = (case b of EosBucket \<Rightarrow> (False, fl1\<lparr>seen_eos := True\<rparr>) | FlushBucket \<Rightarrow> (False, fl1\<lparr>flt_flush := True\<rparr>)
       | _ \<Rightarrow> (True, fl1))" .
  have bs: "readable bs" "\<not> is_FailBucket b" using Cons.prems(1) r by (simp_all add: readable_def)
  show ?case
  proof (cases b)
    case (DataBucket s)
    define fl2 where "fl2 = fl1\<lparr>flt_rc := APR_SUCCESS\<rparr>"
    have fl2: "rest fl2 = bs" "same_filter fl fl2" "seen_eos fl2 = seen_eos fl" "flt_flush fl2 = flt_flush fl"
      "leftover fl2 = []" "flt_rc fl2 = APR_SUCCESS"
      using g Cons.prems(2) by (simp_all add: fl2_def same_filter_def)
    have unf: "filter_read_loop fl wanted buf =
        (if s = [] then filter_read_loop fl2 wanted buf
         else if length buf + length s \<ge> wanted
         then Inr (Inr (buf @ take (wanted - length buf) s), fl2\<lparr>leftover := drop (wanted - length buf) s\<rparr>)
         else filter_read_loop fl2 wanted (buf @ s))"
      using g DataBucket less_imp_diff_less [OF Cons.prems(4), of "length buf"]
      by (subst filter_read_loop.simps) (simp add: fl2_def Let_def)
    show ?thesis
    proof (cases "s \<noteq> [] \<and> length buf + length s \<ge> wanted")
      case True
      with unf fl2 r DataBucket bs show ?thesis
        by (auto simp: after_read_def pending_def same_filter_def Cons.prems(2))
    next
      case False
      then have len: "length (buf @ s) \<le> wanted" using Cons.prems(3) by auto
      from Cons.hyps(1) [of fl2 "buf @ s"] fl2 bs len Cons.prems(4) obtain fl' where
        1: "filter_read_loop fl2 wanted (buf @ s) = Inr (Inr ((buf @ s) @ take (wanted - length (buf @ s)) (seg bs)), fl')"
        and 2: "after_read (wanted - length (buf @ s)) fl2 fl'" by auto
      have 3: "filter_read_loop fl wanted buf = filter_read_loop fl2 wanted (buf @ s)"
        using unf False by (cases "s = []") auto
      have "seg (rest fl) = s @ seg bs" "after_seg (rest fl) = after_seg bs" using r DataBucket by simp_all
      moreover have "take (wanted - length buf) (s @ seg bs) = s @ take (wanted - length (buf @ s)) (seg bs)"
        using False by (auto simp: diff_diff_left)
      moreover have "after_read (wanted - length buf) fl fl'"
        by (rule after_read_shift [OF 2 fl2(2,3,4)]) (use False fl2 bs Cons.prems(2) r DataBucket in \<open>auto simp: pending_def\<close>)
      ultimately show ?thesis using 1 3 by simp
    qed
  next
    case (FailBucket rc)
    with bs show ?thesis by simp
  next
    case EosBucket
    with g Cons.prems(2) r bs show ?thesis
      by (subst filter_read_loop.simps) (auto simp: after_read_def pending_def same_filter_def)
  next
    case FlushBucket
    with g Cons.prems(2) r bs show ?thesis
      by (subst filter_read_loop.simps) (auto simp: after_read_def pending_def same_filter_def)
  qed
qed

lemma filter_read_ok:
  assumes "\<not> seen_eos fl" "readable (rest fl)" "wanted < 2 ^ 31"
  shows "\<exists>fl'. modperl_filter_read fl wanted = Inr (Inr (take wanted (pending fl)), fl') \<and> after_read wanted fl fl'"
proof (cases "leftover fl = []")
  case True
  with assms filter_read_loop_ok [of fl "[]" wanted] show ?thesis
    by (auto simp: modperl_filter_read_def pending_def)
next
  case lo: False
  show ?thesis
  proof (cases "wanted \<le> length (leftover fl)")
    case True
    with assms lo show ?thesis
      by (auto simp: modperl_filter_read_def after_read_def pending_def same_filter_def)
  next
    case False
    let ?fl0 = "fl\<lparr>leftover := []\<rparr>" and ?n = "wanted - length (leftover fl)"
    obtain fl' where 1: "filter_read_loop ?fl0 wanted (leftover fl) =
        Inr (Inr (leftover fl @ take ?n (seg (rest fl))), fl')" and 2: "after_read ?n ?fl0 fl'"
      using filter_read_loop_ok [of ?fl0 "leftover fl" wanted] assms(2,3) False by auto
    have "after_read wanted fl fl'"
      by (rule after_read_shift [OF 2]) (use False in \<open>auto simp: same_filter_def pending_def\<close>)
    with 1 assms(1) lo False show ?thesis by (simp add: modperl_filter_read_def pending_def)
  qed
qed

text \<open>\<open>$f->read\<close> of an output filter gives the next bytes of the stream: at most as many as wanted, all of
those that are there before the next end-of-stream or flush bucket when they are fewer, none lost and none repeated.\<close>

theorem filter_read_prefix:
  assumes "\<not> seen_eos fl" "readable (rest fl)" "wanted < 2 ^ 31"
  shows "\<exists>data fl'. modperl_filter_read fl wanted = Inr (Inr data, fl') \<and> length data \<le> wanted \<and>
           (if wanted \<le> length (pending fl) then length data = wanted else data = pending fl \<and> leftover fl' = []) \<and>
           (if wanted \<le> length (pending fl) \<and> pending fl \<noteq> [] then data @ pending fl' = pending fl
            else seen_eos fl' = (case after_seg (rest fl) of EosBucket # _ \<Rightarrow> True | _ \<Rightarrow> False))"
proof -
  obtain fl' where 1: "modperl_filter_read fl wanted = Inr (Inr (take wanted (pending fl)), fl')"
    and 2: "after_read wanted fl fl'"
    using filter_read_ok [OF assms] by blast
  from 2 assms(1) show ?thesis
    by (intro exI [of _ "take wanted (pending fl)"] exI [of _ fl'] conjI)
       (auto simp: 1 after_read_def split: list.splits bucket.splits if_splits)
qed

section \<open>Filters as byte sinks\<close>

text \<open>What reading depends on; writing leaves it alone.\<close>

definition reader_part :: "modperl_filter \<Rightarrow> fworld \<Rightarrow>
    brigade option \<times> nat option \<times> string \<times> bool \<times> bool \<times> nat \<times> filter_mode \<times> (nat \<Rightarrow> bool) \<times> (nat option \<times> brigade) list" where
  "reader_part fl w = (bb_in fl, bucket fl, leftover fl, seen_eos fl, eos fl, flt fl, mode fl, sent_eos w, got w)"

definition fwb :: "modperl_filter \<Rightarrow> wbucket" where
  "fwb fl = snd (WBUCKET_INIT fl)"

lemma WBUCKET_INIT_eq: "WBUCKET_INIT fl = (fl\<lparr>flt_wbucket := Some (fwb fl)\<rparr>, fwb fl)"
  by (cases "flt_wbucket fl") (auto simp: WBUCKET_INIT_def fwb_def Let_def)

lemma fwb_Some [simp]: "flt_wbucket fl = Some wb \<Longrightarrow> fwb fl = wb"
  by (simp add: fwb_def WBUCKET_INIT_def)

lemma fwb_cong: "flt_wbucket fl' = flt_wbucket fl \<Longrightarrow> flt fl' = flt fl \<Longrightarrow> fwb fl' = fwb fl"
  by (simp add: fwb_def WBUCKET_INIT_def Let_def split: option.split)

text \<open>An output filter that is linked to the filter \<open>g\<close> and has not sent the end of the stream.\<close>

definition out_inv where
  "out_inv ops g key = (\<lambda>(fl, w). reader_part fl w = key \<and> \<not> sent_eos w (flt fl) \<and> \<not> eos fl \<and>
     fl_next (fio w) (flt fl) = Some g \<and> wb_sink_inv (f_httpd ops) g (fwb fl, fio w) \<and> filters (fwb fl) = NextOf (flt fl))"

lemma wb_sink_inv_next:
  "wb_sink_inv ops g (wb, w) \<Longrightarrow> filters wb = NextOf f \<Longrightarrow> fl_next w f = Some g"
  by (simp add: wb_sink_inv_def slot_filter_def)

lemma wbucket_write_filters:
  "modperl_wbucket_write ops wb buf len w = Inr (rc, n, wb', w') \<Longrightarrow> filters wb' = filters wb"
  by (auto simp: modperl_wbucket_write_def modperl_wbucket_flush_def modperl_wbucket_pass_def wbucket_send_def
      send_output_flush_def and_then_eq_Inr Let_def split: if_splits option.splits prod.splits)

lemma output_write_law:
  assumes "out_inv ops g key (fl, w)" "wb_fits bs"
  obtains fl' w' where "modperl_output_filter_write ops bs (fl, w) = Inr (APR_SUCCESS, length bs, fl', w')"
    "out_inv ops g key (fl', w')" "flt_flush fl' = flt_flush fl" "flt_rc fl' = flt_rc fl"
    "sent_to g (passed (fio w')) @ buffered (fwb fl') = sent_to g (passed (fio w)) @ buffered (fwb fl) @ bs"
proof -
  have inv: "wb_sink_inv (f_httpd ops) g (fwb fl, fio w)" using assms(1) by (simp add: out_inv_def)
  from wbucket_put_plain [OF inv assms(2)] obtain wb' io' where
    1: "modperl_wbucket_write (f_httpd ops) (fwb fl) bs (length bs) (fio w) = Inr (APR_SUCCESS, length bs, wb', io')"
    "wb_sink_inv (f_httpd ops) g (wb', io')"
    "sent_to g (passed io') @ buffered wb' = sent_to g (passed (fio w)) @ buffered (fwb fl) @ bs" .
  let ?fl = "fl\<lparr>flt_wbucket := Some wb'\<rparr>" and ?w = "w\<lparr>fio := io'\<rparr>"
  have 2: "filters wb' = NextOf (flt fl)"
    using wbucket_write_filters [OF 1(1)] assms(1) by (simp add: out_inv_def)
  have "modperl_output_filter_write ops bs (fl, w) = Inr (APR_SUCCESS, length bs, ?fl, ?w)"
    using 1(1) by (simp add: modperl_output_filter_write_def WBUCKET_INIT_eq set_fwb_def)
  moreover have "out_inv ops g key (?fl, ?w)"
    using assms(1) 1(2) 2 wb_sink_inv_next [OF 1(2) 2] by (auto simp: out_inv_def reader_part_def)
  ultimately show ?thesis using 1(3) that by simp
qed

lemma output_flush_law:
  assumes "out_inv ops g key (fl, w)"
  obtains fl' w' where "modperl_output_filter_flush ops fl w = Inr (APR_SUCCESS, fl', w')"
    "out_inv ops g key (fl', w')" "\<not> flt_flush fl'" "flt_rc fl' = APR_SUCCESS" "buffered (fwb fl') = []"
    "sent_to g (passed (fio w')) = sent_to g (passed (fio w)) @ buffered (fwb fl)"
proof -
  let ?fl0 = "fl\<lparr>flt_flush := False\<rparr>"
  have wb: "fwb ?fl0 = fwb fl" by (rule fwb_cong) simp_all
  have inv: "wb_sink_inv (f_httpd ops) g (fwb fl, fio w)" using assms(1) by (simp add: out_inv_def)
  from wbucket_flush_plain [OF inv, of "flt_flush fl"] obtain io' where
    1: "modperl_wbucket_flush (f_httpd ops) (fwb fl) (flt_flush fl) (fio w) = Inr (APR_SUCCESS, (fwb fl)\<lparr>outcnt := 0\<rparr>, io')"
    "wb_sink_inv (f_httpd ops) g ((fwb fl)\<lparr>outcnt := 0\<rparr>, io')"
    "sent_to g (passed io') = sent_to g (passed (fio w)) @ buffered (fwb fl)" .
  let ?wb = "(fwb fl)\<lparr>outcnt := 0\<rparr>"
  let ?fl = "fl\<lparr>flt_flush := False, flt_rc := APR_SUCCESS, flt_wbucket := Some ?wb\<rparr>" and ?w = "w\<lparr>fio := io'\<rparr>"
  have 2: "filters ?wb = NextOf (flt fl)" using assms by (simp add: out_inv_def)
  have "modperl_output_filter_flush ops fl w = Inr (APR_SUCCESS, ?fl, ?w)"
    using assms 1(1) by (simp add: modperl_output_filter_flush_def WBUCKET_INIT_eq wb set_fwb_def out_inv_def)
  moreover have "out_inv ops g key (?fl, ?w)"
    using assms 1(2) 2 wb_sink_inv_next [OF 1(2) 2] by (auto simp: out_inv_def reader_part_def)
  ultimately show ?thesis using 1(3) that by (simp add: buffered_def)
qed

interpretation ofs: byte_sink "out_inv ops g key" wb_fits "modperl_output_filter_write ops"
  "\<lambda>(fl, w). modperl_output_filter_flush ops fl w" "\<lambda>(fl, w). sent_to g (passed (fio w))" "\<lambda>(fl, w). buffered (fwb fl)"
  for ops g key
proof
  fix s bs
  assume a: "out_inv ops g key s" "wb_fits bs"
  obtain fl w where s: "s = (fl, w)" by force
  from output_write_law [OF a [unfolded s]] obtain fl' w' where
    "modperl_output_filter_write ops bs (fl, w) = Inr (APR_SUCCESS, length bs, fl', w')"
    "out_inv ops g key (fl', w')" "flt_flush fl' = flt_flush fl" "flt_rc fl' = flt_rc fl"
    "sent_to g (passed (fio w')) @ buffered (fwb fl') = sent_to g (passed (fio w)) @ buffered (fwb fl) @ bs" .
  then show "\<exists>s'. modperl_output_filter_write ops bs s = Inr (APR_SUCCESS, length bs, s') \<and> out_inv ops g key s' \<and>
      (case s' of (fl, w) \<Rightarrow> sent_to g (passed (fio w))) @ (case s' of (fl, w) \<Rightarrow> buffered (fwb fl)) =
      (case s of (fl, w) \<Rightarrow> sent_to g (passed (fio w))) @ (case s of (fl, w) \<Rightarrow> buffered (fwb fl)) @ bs"
    by (simp add: s)
next
  fix s
  assume a: "out_inv ops g key s"
  obtain fl w where s: "s = (fl, w)" by force
  from output_flush_law [OF a [unfolded s]] obtain fl' w' where
    "modperl_output_filter_flush ops fl w = Inr (APR_SUCCESS, fl', w')"
    "out_inv ops g key (fl', w')" "\<not> flt_flush fl'" "flt_rc fl' = APR_SUCCESS" "buffered (fwb fl') = []"
    "sent_to g (passed (fio w')) = sent_to g (passed (fio w)) @ buffered (fwb fl)" .
  then show "\<exists>s'. (case s of (fl, w) \<Rightarrow> modperl_output_filter_flush ops fl w) = Inr (APR_SUCCESS, s') \<and> out_inv ops g key s' \<and>
      (case s' of (fl, w) \<Rightarrow> sent_to g (passed (fio w))) =
      (case s of (fl, w) \<Rightarrow> sent_to g (passed (fio w))) @ (case s of (fl, w) \<Rightarrow> buffered (fwb fl)) \<and>
      (case s' of (fl, w) \<Rightarrow> buffered (fwb fl)) = []"
    by (simp add: s)
qed

text \<open>An input filter writes straight into the brigade of its caller.\<close>

definition in_inv :: "modperl_filter \<times> fworld \<Rightarrow> bool" where
  "in_inv = (\<lambda>(fl, w). bb_out fl \<noteq> None \<and> \<not> sent_eos w (flt fl) \<and> \<not> eos fl \<and> flt_rc fl = APR_SUCCESS)"

definition in_bytes :: "modperl_filter \<times> fworld \<Rightarrow> string" where
  "in_bytes = (\<lambda>(fl, w). case bb_out fl of None \<Rightarrow> [] | Some bb \<Rightarrow> brigade_bytes bb)"

interpretation ifs: byte_sink in_inv "\<lambda>bs. True" modperl_input_filter_write
  "\<lambda>(fl, w). modperl_input_filter_flush fl w" in_bytes "\<lambda>s. []"
  by unfold_locales (auto simp: in_inv_def in_bytes_def modperl_input_filter_write_def modperl_input_filter_flush_def
      send_input_flush_def)

section \<open>A streaming filter\<close>

text \<open>The loop that filter handlers are written as, \<open>while ($f->read(my $buf, $wanted)) { $f->print(...) } return OK\<close>, with a
change of every byte by \<open>h\<close>; \<open>n\<close> bounds the number of rounds.\<close>

primrec stream_prog :: "nat \<Rightarrow> (char \<Rightarrow> char) \<Rightarrow> nat \<Rightarrow> fprog" where
  "stream_prog wanted h 0 = FDone HTTP_INTERNAL_SERVER_ERROR NoErr"
| "stream_prog wanted h (Suc n) = FRead wanted (\<lambda>res. case res of
       Inl e \<Rightarrow> FDone HTTP_INTERNAL_SERVER_ERROR (ErrStr [])
     | Inr buf \<Rightarrow> if buf = [] then FDone OK NoErr
                 else FPrint [map h buf] (\<lambda>_. stream_prog wanted h n))"

text \<open>Before each round: the data up to the end of the stream is \<open>P\<close>.\<close>

definition stream_at :: "modperl_filter \<Rightarrow> string \<Rightarrow> bool" where
  "stream_at fl P \<longleftrightarrow> mode fl = OUTPUT_FILTER_MODE \<and> \<not> flt_flush fl \<and> readable (rest fl) \<and>
     (if seen_eos fl then P = [] else pending fl = P \<and> (\<exists>bs. after_seg (rest fl) = EosBucket # bs))"

lemma stream_at_reader:
  assumes "reader_part fl' w' = reader_part fl w" "flt_flush fl' = flt_flush fl" "stream_at fl P"
  shows "stream_at fl' P"
proof -
  have "bb_in fl' = bb_in fl" "bucket fl' = bucket fl" "leftover fl' = leftover fl" "seen_eos fl' = seen_eos fl" "mode fl' = mode fl"
    using assms(1) by (simp_all add: reader_part_def)
  moreover from this have "rest fl' = rest fl" unfolding rest_def by metis
  ultimately show ?thesis using assms(2,3) by (auto simp: stream_at_def pending_def split: if_splits)
qed

lemma stream_read:
  assumes "stream_at fl P" "0 < wanted" "wanted < 2 ^ 31"
  obtains fl' where "Filter_read ops wanted fl w = Inr (Inr (take wanted P), fl', w)" "stream_at fl' (drop wanted P)"
    "flt fl' = flt fl" "eos fl' = eos fl" "flt_wbucket fl' = flt_wbucket fl" "P \<noteq> [] \<or> seen_eos fl'"
proof (cases "seen_eos fl")
  case True
  with assms that [of fl] show ?thesis
    by (auto simp: stream_at_def Filter_read_def modperl_output_filter_read_def read_then_flush_def modperl_filter_read_def)
next
  case False
  with assms(1) obtain bs where P: "pending fl = P" "after_seg (rest fl) = EosBucket # bs" "readable (rest fl)"
    "mode fl = OUTPUT_FILTER_MODE" "\<not> flt_flush fl"
    by (auto simp: stream_at_def)
  obtain fl' where 1: "modperl_filter_read fl wanted = Inr (Inr (take wanted P), fl')" and 2: "after_read wanted fl fl'"
    using filter_read_ok [OF False P(3) assms(3)] P(1) by blast
  have "\<not> flt_flush fl'" "stream_at fl' (drop wanted P)" "P \<noteq> [] \<or> seen_eos fl'"
    using 2 P False assms(2) by (auto simp: after_read_def stream_at_def same_filter_def split: if_splits)
  with 1 2 P(4) that [of fl'] show ?thesis
    by (auto simp: Filter_read_def modperl_output_filter_read_def read_then_flush_def after_read_def same_filter_def)
qed

lemma stream_prog_run:
  assumes "stream_at fl P" "length P < n" "0 < wanted" "wanted < 2 ^ 31" "out_inv ops g (reader_part fl w) (fl, w)"
  shows "\<exists>fl' w'. run_fprog ops (stream_prog wanted h n) fl w = Inr ((OK, NoErr), fl', w') \<and>
           out_inv ops g (reader_part fl' w') (fl', w') \<and> seen_eos fl' \<and> flt fl' = flt fl \<and> mode fl' = mode fl \<and>
           sent_to g (passed (fio w')) @ buffered (fwb fl') = sent_to g (passed (fio w)) @ buffered (fwb fl) @ map h P"
  using assms(1,2,5)
proof (induction n arbitrary: fl w P)
  case (Suc n)
  from stream_read [OF Suc.prems(1) assms(3,4), of ops w] obtain fl1 where
    1: "Filter_read ops wanted fl w = Inr (Inr (take wanted P), fl1, w)" "stream_at fl1 (drop wanted P)"
    "flt fl1 = flt fl" "eos fl1 = eos fl" "flt_wbucket fl1 = flt_wbucket fl" "P \<noteq> [] \<or> seen_eos fl1" .
  have wb1: "fwb fl1 = fwb fl" by (rule fwb_cong [OF 1(5,3)])
  have inv1: "out_inv ops g (reader_part fl1 w) (fl1, w)" using Suc.prems(3) 1(3,4) wb1 by (simp add: out_inv_def)
  have m1: "mode fl1 = OUTPUT_FILTER_MODE" "mode fl = OUTPUT_FILTER_MODE"
    using 1(2) Suc.prems(1) by (simp_all add: stream_at_def)
  show ?case
  proof (cases "P = []")
    case True
    with 1 inv1 wb1 m1 show ?thesis by auto
  next
    case False
    let ?bs = "map h (take wanted P)"
    have "wb_fits ?bs" using assms(4) by (simp add: wb_fits_def MP_IOBUFSIZE_def)
    from output_write_law [OF inv1 this] obtain fl2 w2 where
      2: "modperl_output_filter_write ops ?bs (fl1, w) = Inr (APR_SUCCESS, length ?bs, fl2, w2)"
      "out_inv ops g (reader_part fl1 w) (fl2, w2)" "flt_flush fl2 = flt_flush fl1"
      "sent_to g (passed (fio w2)) @ buffered (fwb fl2) = sent_to g (passed (fio w)) @ buffered (fwb fl1) @ ?bs" .
    have rp: "reader_part fl2 w2 = reader_part fl1 w" using 2(2) by (simp add: out_inv_def)
    have s2: "stream_at fl2 (drop wanted P)" by (rule stream_at_reader [OF rp 2(3) 1(2)])
    have len: "length (drop wanted P) < n" using Suc.prems(2) False assms(3) by (cases P) auto
    have inv2: "out_inv ops g (reader_part fl2 w2) (fl2, w2)" using 2(2) rp by simp
    from Suc.IH [OF s2 len inv2] obtain fl' w' where
      3: "run_fprog ops (stream_prog wanted h n) fl2 w2 = Inr ((OK, NoErr), fl', w')"
      "out_inv ops g (reader_part fl' w') (fl', w')" "seen_eos fl'" "flt fl' = flt fl2" "mode fl' = mode fl2"
      "sent_to g (passed (fio w')) @ buffered (fwb fl') = sent_to g (passed (fio w2)) @ buffered (fwb fl2) @ map h (drop wanted P)"
      by blast
    have fm: "flt fl2 = flt fl1" "mode fl2 = mode fl1" using rp by (simp_all add: reader_part_def)
    have "run_fprog ops (stream_prog wanted h (Suc n)) fl w = Inr ((OK, NoErr), fl', w')"
      using 1(1) 2(1) 3(1) False assms(3) m1 by (simp add: Filter_print_def)
    moreover have "sent_to g (passed (fio w')) @ buffered (fwb fl') = sent_to g (passed (fio w)) @ buffered (fwb fl) @ map h P"
      unfolding 3(6) append_assoc [symmetric] 2(4) wb1 by (simp flip: map_append)
    ultimately show ?thesis using 3 fm 1(3) m1 by auto
  qed
qed simp

text \<open>A filter that starts: the invariant, and the last flush, which sends the end of the stream.\<close>

lemma out_inv_new:
  assumes "fl_next (fio w) f = Some g" "\<not> sent_eos w f" "\<forall>h. pass_rv (f_httpd ops) h = APR_SUCCESS"
    and fl: "fl = modperl_filter_new f bb OUTPUT_FILTER_MODE how"
  shows "out_inv ops g (reader_part fl w) (fl, w)" "buffered (fwb fl) = []" "flt fl = f" "rest fl = bb" "leftover fl = []"
  using assms by (cases how; simp add: modperl_filter_new_def out_inv_def fwb_def WBUCKET_INIT_def Let_def wb_sink_inv_def
      wb_ok_def slot_filter_def buffered_def rest_def)+

lemma output_flush_eos:
  assumes "out_inv ops g key (fl, w)" "seen_eos fl"
  obtains fl' w' where "modperl_output_filter_flush ops (fl\<lparr>eos := True, seen_eos := False\<rparr>) w = Inr (APR_SUCCESS, fl', w')"
    "sent_eos w' = (sent_eos w)(flt fl := True)" "passed (fio w') \<noteq> []" "last (passed (fio w')) = (g, [EosBucket])"
    "sent_to g (passed (fio w')) = sent_to g (passed (fio w)) @ buffered (fwb fl)"
proof -
  let ?fl0 = "fl\<lparr>eos := True, seen_eos := False, flt_flush := False\<rparr>"
  have wb: "fwb ?fl0 = fwb fl" by (rule fwb_cong) simp_all
  have inv: "wb_sink_inv (f_httpd ops) g (fwb fl, fio w)" and ok: "\<forall>h. pass_rv (f_httpd ops) h = APR_SUCCESS"
    using assms(1) by (simp_all add: out_inv_def wb_sink_inv_def slot_filter_def)
  from wbucket_flush_plain [OF inv, of "flt_flush fl"] obtain io' where
    1: "modperl_wbucket_flush (f_httpd ops) (fwb fl) (flt_flush fl) (fio w) = Inr (APR_SUCCESS, (fwb fl)\<lparr>outcnt := 0\<rparr>, io')"
    "wb_sink_inv (f_httpd ops) g ((fwb fl)\<lparr>outcnt := 0\<rparr>, io')"
    "sent_to g (passed io') = sent_to g (passed (fio w)) @ buffered (fwb fl)" .
  have 2: "fl_next io' (flt fl) = Some g"
    using wb_sink_inv_next [OF 1(2)] assms(1) by (simp add: out_inv_def)
  show ?thesis
    using assms 1 2 ok that
    by (simp add: modperl_output_filter_flush_def WBUCKET_INIT_eq wb set_fwb_def out_inv_def send_output_eos_def
        pass_next_def ap_pass_brigade_def)
qed

lemma seg_data:
  assumes "list_all (\<lambda>b. \<exists>s. b = DataBucket s) datas"
  shows "seg (datas @ EosBucket # bs) = brigade_bytes datas" "after_seg (datas @ EosBucket # bs) = EosBucket # bs"
  using assms by (induction datas) auto


text \<open>A flush bucket with no data before it makes \<open>$f->read\<close> return nothing, and the read loop ends: the
flush is passed on, but the data that follows in the same brigade, and the end of the stream, are never read or passed on,
although the filter reports success.\<close>

theorem filter_flush_drops_rest:
  assumes "fl_next (fio w) f = Some g" "\<not> sent_eos w f" "\<forall>h. pass_rv (f_httpd ops) h = APR_SUCCESS" "wanted < 2 ^ 31"
  shows "\<exists>w'. modperl_output_filter_handler ops (stream_prog wanted h (Suc n)) f (FlushBucket # bs) w = Inr (APR_SUCCESS, w') \<and>
           passed (fio w') = passed (fio w) @ [(g, [FlushBucket])] \<and> \<not> sent_eos w' f"
proof -
  define fl where "fl = modperl_filter_new f (FlushBucket # bs) OUTPUT_FILTER_MODE (0, 0, 0)"
  let ?fl1 = "fl\<lparr>bucket := Some 0, flt_flush := True\<rparr>"
  define w1 where "w1 = w\<lparr>fio := (fio w)\<lparr>passed := passed (fio w) @ [(g, [FlushBucket])]\<rparr>\<rparr>"
  have m: "mode fl = OUTPUT_FILTER_MODE" by (simp add: fl_def modperl_filter_new_def)
  have "modperl_filter_read fl wanted = Inr (Inr [], ?fl1)"
    by (simp add: modperl_filter_read_def fl_def modperl_filter_new_def filter_read_loop.simps get_bucket_def)
  moreover define fl2 where "fl2 = ?fl1\<lparr>flt_flush := False, flt_rc := APR_SUCCESS, flt_wbucket := Some (fwb fl)\<rparr>"
  have "modperl_output_filter_flush ops ?fl1 w = Inr (APR_SUCCESS, fl2, w1)"
    using assms by (simp add: fl2_def modperl_output_filter_flush_def fl_def modperl_filter_new_def WBUCKET_INIT_def fwb_def Let_def
        modperl_wbucket_flush_def send_output_flush_def slot_filter_def set_fwb_def ap_pass_brigade_def w1_def)
  ultimately have run: "run_fprog ops (stream_prog wanted h (Suc n)) fl w = Inr ((OK, NoErr), fl2, w1)"
    using m by (simp add: Filter_read_def modperl_output_filter_read_def read_then_flush_def fl2_def)
  have fl2: "mode fl2 = OUTPUT_FILTER_MODE" "\<not> seen_eos fl2" "\<not> eos fl2" "\<not> flt_flush fl2" "flt fl2 = f"
    "flt_wbucket fl2 = Some (fwb fl)" "outcnt (fwb fl) = 0"
    by (simp_all add: fl2_def fl_def modperl_filter_new_def fwb_def WBUCKET_INIT_def Let_def)
  then have "modperl_output_filter_flush ops fl2 w1 = Inr (APR_SUCCESS, fl2\<lparr>flt_flush := False, flt_rc := APR_SUCCESS, flt_wbucket := Some (fwb fl)\<rparr>, w1)"
    using assms(2) by (simp add: modperl_output_filter_flush_def WBUCKET_INIT_def modperl_wbucket_flush_def set_fwb_def w1_def)
  with run fl2 assms(2) show ?thesis
    by (simp add: modperl_output_filter_handler_def fl_def [symmetric] modperl_run_filter_def filter_status_def
        croak_reset_ok_def w1_def Let_def del: stream_prog.simps run_fprog.simps)
qed

section \<open>The end of the stream is sent once, at the end\<close>

definition no_eos :: "(nat \<times> brigade) list \<Rightarrow> bool" where
  "no_eos ps \<longleftrightarrow> list_all (\<lambda>p. EosBucket \<notin> set (snd p)) ps"

definition quiet :: "io_world \<Rightarrow> io_world \<Rightarrow> bool" where
  "quiet w w' \<longleftrightarrow> fl_next w' = fl_next w \<and> (\<exists>ps. no_eos ps \<and> passed w' = passed w @ ps)"

lemma quiet_refl [simp]: "quiet w w"
  by (simp add: quiet_def no_eos_def)

lemma quiet_trans: "quiet a b \<Longrightarrow> quiet b c \<Longrightarrow> quiet a c"
  by (auto simp: quiet_def no_eos_def intro: exI [of _ "_ @ _"])

lemma quiet_pass: "EosBucket \<notin> set bb \<Longrightarrow> quiet w (w\<lparr>passed := passed w @ [(f, bb)]\<rparr>)"
  by (auto simp: quiet_def no_eos_def)

lemma wbucket_pass_quiet:
  "modperl_wbucket_pass ops wb mem len fl w = Inr (rc, wb', w') \<Longrightarrow> \<not> header_parse wb \<Longrightarrow>
     quiet w w' \<and> \<not> header_parse wb' \<and> outcnt wb' = 0"
  by (auto simp: modperl_wbucket_pass_def wbucket_send_def ap_pass_brigade_def quiet_pass Let_def split: if_splits option.splits)

lemma wbucket_flush_quiet:
  "modperl_wbucket_flush ops wb fl w = Inr (rc, wb', w') \<Longrightarrow> \<not> header_parse wb \<Longrightarrow> quiet w w' \<and> \<not> header_parse wb'"
  by (auto simp: modperl_wbucket_flush_def send_output_flush_def ap_pass_brigade_def quiet_pass and_then_eq_Inr Let_def
      dest: wbucket_pass_quiet split: if_splits option.splits)

lemma wbucket_write_quiet:
  assumes "modperl_wbucket_write ops wb mem len w = Inr (rc, n, wb', w')" "\<not> header_parse wb"
  shows "quiet w w' \<and> \<not> header_parse wb'"
proof -
  obtain rv wb1 w1 where 1: "(if MP_IOBUFSIZE < (len + outcnt wb) mod 2 ^ 64 then modperl_wbucket_flush ops wb False w
      else Inr (APR_SUCCESS, wb, w)) = Inr (rv, wb1, w1)"
    and 2: "(if rv \<noteq> APR_SUCCESS then Inr (rv, 0, wb1, w1)
       else if len \<ge> MP_IOBUFSIZE
       then and_then (modperl_wbucket_pass ops wb1 mem len False w1) (\<lambda>(rv', wb2, w2). Inr (rv', len, wb2, w2))
       else if outcnt wb1 + len > length (outbuf wb1) \<or> len > length mem then Inl OutOfBounds
       else Inr (APR_SUCCESS, len,
                 wb1\<lparr>outbuf := buf_put (outcnt wb1) (take len mem) (outbuf wb1), outcnt := outcnt wb1 + len\<rparr>, w1))
      = Inr (rc, n, wb', w')"
    using assms(1) by (auto simp: modperl_wbucket_write_def and_then_eq_Inr)
  have q: "quiet w w1 \<and> \<not> header_parse wb1"
    using 1 assms(2) by (auto dest: wbucket_flush_quiet split: if_splits)
  show ?thesis
  proof (cases "rv = APR_SUCCESS \<and> len \<ge> MP_IOBUFSIZE")
    case True
    with 2 have "modperl_wbucket_pass ops wb1 mem len False w1 = Inr (rc, wb', w')"
      by (auto simp: and_then_eq_Inr)
    with q show ?thesis using wbucket_pass_quiet quiet_trans by blast
  next
    case False
    with 2 q show ?thesis by (auto split: if_splits)
  qed
qed

text \<open>A step of an output filter that passes on data and flushes only.\<close>

definition calm :: "modperl_filter \<Rightarrow> fworld \<Rightarrow> modperl_filter \<Rightarrow> fworld \<Rightarrow> bool" where
  "calm fl w fl' w' \<longleftrightarrow> quiet (fio w) (fio w') \<and> sent_eos w' = sent_eos w \<and> mode fl' = mode fl \<and> flt fl' = flt fl \<and>
     eos fl' = eos fl \<and> \<not> header_parse (fwb fl')"

lemma calm_trans: "calm a w b w' \<Longrightarrow> calm b w' c w'' \<Longrightarrow> calm a w c w''"
  by (auto simp: calm_def intro: quiet_trans)

lemma get_bucket_same: "same_filter fl (snd (get_bucket fl))"
  by (auto simp: get_bucket_def same_filter_def Let_def split: option.splits list.splits bucket.splits)

lemma same_filter_upd [simp]:
  "same_filter fl (fl'\<lparr>flt_rc := rc\<rparr>) = same_filter fl fl'" "same_filter fl (fl'\<lparr>leftover := l\<rparr>) = same_filter fl fl'"
  "same_filter (fl\<lparr>leftover := l\<rparr>) fl' = same_filter fl fl'" "same_filter fl fl"
  by (auto simp: same_filter_def)

lemma filter_read_loop_same:
  "filter_read_loop fl wanted buf = Inr (res, fl') \<Longrightarrow> same_filter fl fl'"
proof (induction "read_left fl" arbitrary: fl buf rule: less_induct)
  case less
  obtain more fl1 where gb: "get_bucket fl = (more, fl1)" by force
  let ?fl2 = "fl1\<lparr>flt_rc := APR_SUCCESS\<rparr>"
  have g: "same_filter fl fl1" using get_bucket_same [of fl] gb by simp
  have IH: "filter_read_loop ?fl2 wanted buf' = Inr (res, fl') \<Longrightarrow> same_filter fl fl'" if more for buf'
    using less.hyps [of ?fl2 buf'] get_bucket_read_left [of fl fl1] gb that g same_filter_trans [of fl ?fl2 fl'] by simp
  show ?case
  proof (cases "\<exists>s. more \<and> cur_bucket fl1 = Some (DataBucket s)")
    case True
    then obtain s where s: more "cur_bucket fl1 = Some (DataBucket s)" by blast
    consider "s = []" | "s \<noteq> []" "length buf + length s \<ge> wanted" | "s \<noteq> []" "\<not> length buf + length s \<ge> wanted" by blast
    then show ?thesis
    proof cases
      case 2
      with less.prems gb s g show ?thesis
        by (subst (asm) filter_read_loop.simps) (auto simp: Let_def split: if_splits)
    qed (use less.prems gb s IH in \<open>subst (asm) filter_read_loop.simps; simp add: Let_def\<close>)+
  next
    case False
    with less.prems gb g show ?thesis
      by (subst (asm) filter_read_loop.simps) (auto simp: Let_def split: if_splits option.splits bucket.splits)
  qed
qed

lemma filter_read_same: "modperl_filter_read fl wanted = Inr (res, fl') \<Longrightarrow> same_filter fl fl'"
  by (auto simp: modperl_filter_read_def dest!: filter_read_loop_same split: if_splits)

lemma output_flush_calm:
  assumes "modperl_output_filter_flush ops fl w = Inr (rc, fl', w')" "\<not> eos fl" "\<not> header_parse (fwb fl)"
  shows "calm fl w fl' w'"
proof (cases "sent_eos w (flt fl)")
  case True
  with assms show ?thesis by (simp add: modperl_output_filter_flush_def calm_def)
next
  case False
  have wb: "fwb (fl\<lparr>flt_flush := False\<rparr>) = fwb fl" by (rule fwb_cong) simp_all
  from False assms(1,2) obtain wb' io' where
    1: "modperl_wbucket_flush (f_httpd ops) (fwb fl) (flt_flush fl) (fio w) = Inr (rc, wb', io')"
    "fl' = fl\<lparr>flt_flush := False, flt_wbucket := Some wb', flt_rc := rc\<rparr>" "w' = w\<lparr>fio := io'\<rparr>"
    by (auto simp: modperl_output_filter_flush_def WBUCKET_INIT_eq wb set_fwb_def and_then_eq_Inr split: if_splits)
  with wbucket_flush_quiet [OF 1(1) assms(3)] show ?thesis by (simp add: calm_def)
qed

lemma output_read_calm:
  assumes "modperl_output_filter_read ops wanted fl w = Inr (res, fl', w')" "\<not> eos fl" "\<not> header_parse (fwb fl)"
  shows "calm fl w fl' w'"
proof -
  obtain res1 fl1 where 1: "modperl_filter_read fl wanted = Inr (res1, fl1)"
    using assms(1) by (auto simp: modperl_output_filter_read_def read_then_flush_def and_then_eq_Inr)
  have s: "same_filter fl fl1" by (rule filter_read_same [OF 1])
  then have wb: "fwb fl1 = fwb fl" by (intro fwb_cong) (simp_all add: same_filter_def)
  have c1: "calm fl w fl1 w" using s wb assms(3) by (simp add: calm_def same_filter_def)
  show ?thesis
  proof (cases "\<exists>rc. modperl_output_filter_flush ops fl1 w = Inr (rc, fl', w')")
    case True
    then obtain rc where f: "modperl_output_filter_flush ops fl1 w = Inr (rc, fl', w')" by blast
    have "\<not> eos fl1" "\<not> header_parse (fwb fl1)" using s wb assms(2,3) by (simp_all add: same_filter_def)
    from calm_trans [OF c1 output_flush_calm [OF f this]] show ?thesis .
  next
    case False
    with assms(1) 1 have "fl' = fl1" "w' = w"
      by (auto simp: modperl_output_filter_read_def read_then_flush_def and_then_eq_Inr split: sum.splits if_splits)
    with c1 show ?thesis by simp
  qed
qed

lemma output_write_calm:
  assumes "modperl_output_filter_write ops buf (fl, w) = Inr (rc, n, fl', w')" "\<not> header_parse (fwb fl)"
  shows "calm fl w fl' w'"
proof -
  from assms(1) obtain wb' io' where
    1: "modperl_wbucket_write (f_httpd ops) (fwb fl) buf (length buf) (fio w) = Inr (rc, n, wb', io')"
    "fl' = fl\<lparr>flt_wbucket := Some wb'\<rparr>" "w' = w\<lparr>fio := io'\<rparr>"
    by (auto simp: modperl_output_filter_write_def WBUCKET_INIT_eq set_fwb_def and_then_eq_Inr)
  with wbucket_write_quiet [OF 1(1) assms(2)] show ?thesis by (simp add: calm_def)
qed

lemma output_print_calm:
  "mpxs_write_loop (modperl_output_filter_write ops) args n (fl, w) = Inr (res, fl', w') \<Longrightarrow>
     \<not> header_parse (fwb fl) \<Longrightarrow> calm fl w fl' w'"
proof (induction args arbitrary: n fl w)
  case Nil
  then show ?case by (simp add: calm_def)
next
  case (Cons a args)
  from Cons.prems(1) obtain rc k fl1 w1 where
    1: "modperl_output_filter_write ops a (fl, w) = Inr (rc, k, fl1, w1)" by (auto simp: and_then_eq_Inr)
  note c = output_write_calm [OF 1 Cons.prems(2)]
  show ?case
  proof (cases "rc = APR_SUCCESS")
    case True
    with Cons.prems(1) 1 have "mpxs_write_loop (modperl_output_filter_write ops) args (n + k) (fl1, w1) = Inr (res, fl', w')"
      by simp
    from Cons.IH [OF this] c show ?thesis by (meson calm_def calm_trans)
  next
    case False
    with Cons.prems(1) 1 c show ?thesis by simp
  qed
qed

lemma run_fprog_calm:
  "run_fprog ops prog fl w = Inr (res, fl', w') \<Longrightarrow> mode fl = OUTPUT_FILTER_MODE \<Longrightarrow> \<not> eos fl \<Longrightarrow>
     \<not> header_parse (fwb fl) \<Longrightarrow> calm fl w fl' w'"
proof (induction prog arbitrary: fl w)
  case (FDone status e)
  then show ?case by (simp add: calm_def)
next
  case (FRead wanted k)
  then obtain r fl1 w1 where 1: "modperl_output_filter_read ops wanted fl w = Inr (r, fl1, w1)"
    "run_fprog ops (k r) fl1 w1 = Inr (res, fl', w')" by (auto simp: Filter_read_def and_then_eq_Inr)
  have c: "calm fl w fl1 w1" by (rule output_read_calm [OF 1(1) FRead.prems(3,4)])
  with FRead.IH [OF rangeI 1(2)] FRead.prems show ?case by (auto simp: calm_def intro: quiet_trans)
next
  case (FPrint args k)
  then obtain r fl1 w1 where 1: "mpxs_write_loop (modperl_output_filter_write ops) args 0 (fl, w) = Inr (r, fl1, w1)"
    "run_fprog ops (k r) fl1 w1 = Inr (res, fl', w')" by (auto simp: Filter_print_def and_then_eq_Inr)
  have c: "calm fl w fl1 w1" by (rule output_print_calm [OF 1(1) FPrint.prems(4)])
  with FPrint.IH [OF rangeI 1(2)] FPrint.prems show ?case by (auto simp: calm_def intro: quiet_trans)
next
  case (FSetEos b p)
  have "fwb (fl\<lparr>seen_eos := b\<rparr>) = fwb fl" by (rule fwb_cong) simp_all
  with FSetEos.IH [of "fl\<lparr>seen_eos := b\<rparr>" w] FSetEos.prems show ?case by (simp add: calm_def)
qed

lemma output_flush_end:
  assumes "modperl_output_filter_flush ops fl w = Inr (rc, fl', w')" "\<not> header_parse (fwb fl)" "flt fl = f"
    "\<not> sent_eos w f" "fl_next (fio w) f = Some g"
  shows "\<exists>qs. no_eos qs \<and> (passed (fio w') = passed (fio w) @ qs \<and> sent_eos w' = sent_eos w \<or>
           passed (fio w') = passed (fio w) @ qs @ [(g, [EosBucket])] \<and> sent_eos w' = (sent_eos w)(f := True))"
proof -
  have wb: "fwb (fl\<lparr>flt_flush := False\<rparr>) = fwb fl" by (rule fwb_cong) simp_all
  from assms(1,3,4) obtain rc0 wb' io' where
    1: "modperl_wbucket_flush (f_httpd ops) (fwb fl) (flt_flush fl) (fio w) = Inr (rc0, wb', io')" and
    2: "w' = w\<lparr>fio := io'\<rparr> \<or> w' = snd (send_output_eos ops f (w\<lparr>fio := io'\<rparr>))"
    by (auto simp: modperl_output_filter_flush_def WBUCKET_INIT_eq wb set_fwb_def and_then_eq_Inr Let_def
        split: if_splits prod.splits)
  obtain qs where qs: "no_eos qs" "passed io' = passed (fio w) @ qs" "fl_next io' f = Some g"
    using wbucket_flush_quiet [OF 1 assms(2)] assms(5) by (auto simp: quiet_def)
  have "passed (fio (snd (send_output_eos ops f (w\<lparr>fio := io'\<rparr>)))) = passed io' @ [(g, [EosBucket])]"
    "sent_eos (snd (send_output_eos ops f (w\<lparr>fio := io'\<rparr>))) = (sent_eos w)(f := True)"
    using qs(3) by (simp_all add: send_output_eos_def pass_next_def ap_pass_brigade_def)
  with 2 qs show ?thesis by (intro exI [of _ qs]) auto
qed

text \<open>C25. Whatever the handler of an output filter does, in one invocation the filter passes on the end of the
stream at most once, as the last brigade, after all the data the handler printed, and it does so exactly when it
marks itself as finished.\<close>

theorem filter_eos_once:
  assumes "modperl_run_filter ops prog (modperl_filter_new f bb OUTPUT_FILTER_MODE how) w = Inr (status, fl', w')"
    "\<not> sent_eos w f" "fl_next (fio w) f = Some g"
  shows "\<exists>ps. no_eos ps \<and>
           (passed (fio w') = passed (fio w) @ ps \<and> sent_eos w' = sent_eos w \<or>
            passed (fio w') = passed (fio w) @ ps @ [(g, [EosBucket])] \<and> sent_eos w' = (sent_eos w)(f := True))"
proof -
  define fl where "fl = modperl_filter_new f bb OUTPUT_FILTER_MODE how"
  have fl: "mode fl = OUTPUT_FILTER_MODE" "\<not> eos fl" "\<not> header_parse (fwb fl)" "flt fl = f"
    by (cases how; simp add: fl_def modperl_filter_new_def fwb_def WBUCKET_INIT_def Let_def)+
  from assms(1) obtain status0 e fl1 w1 where run: "run_fprog ops prog fl w = Inr ((status0, e), fl1, w1)"
    by (auto simp: modperl_run_filter_def fl_def and_then_eq_Inr)
  have c: "calm fl w fl1 w1" by (rule run_fprog_calm [OF run fl(1-3)])
  define fl2 where "fl2 = (if seen_eos fl1 then fl1\<lparr>eos := True, seen_eos := False\<rparr> else fl1)"
  have fl2: "mode fl2 = OUTPUT_FILTER_MODE" "flt fl2 = f" "fwb fl2 = fwb fl1"
    using c fl by (auto simp: fl2_def calm_def intro: fwb_cong)
  have "modperl_run_filter ops prog fl w = and_then (and_then (modperl_output_filter_flush ops fl2 w1) (croak_reset_ok ops))
      (\<lambda>(fl3, w3). Inr (filter_status status0 e, fl3, w3\<lparr>ferrsv := (if ferrsv w \<noteq> NoErr then ferrsv w else e)\<rparr>))"
    using run fl2(1) by (simp add: modperl_run_filter_def fl2_def [symmetric] Let_def)
  with assms(1) obtain rc fl3 w3 where
    3: "modperl_output_filter_flush ops fl2 w1 = Inr (rc, fl3, w3)" "passed (fio w') = passed (fio w3)" "sent_eos w' = sent_eos w3"
    by (auto simp: fl_def [symmetric] and_then_eq_Inr croak_reset_ok_def log_io_def split: if_splits)
  have "\<not> sent_eos w1 f" "fl_next (fio w1) f = Some g" using c assms(2,3) by (simp_all add: calm_def quiet_def)
  from output_flush_end [OF 3(1) _ fl2(2) this] c fl2(3) obtain qs where
    "no_eos qs" "passed (fio w3) = passed (fio w1) @ qs \<and> sent_eos w3 = sent_eos w1 \<or>
     passed (fio w3) = passed (fio w1) @ qs @ [(g, [EosBucket])] \<and> sent_eos w3 = (sent_eos w1)(f := True)"
    by (auto simp: calm_def)
  moreover obtain ps where "no_eos ps" "passed (fio w1) = passed (fio w) @ ps" using c by (auto simp: calm_def quiet_def)
  moreover have "sent_eos w1 = sent_eos w" using c by (simp add: calm_def)
  ultimately show ?thesis using 3 by (intro exI [of _ "ps @ qs"]) (auto simp: no_eos_def)
qed

section \<open>Instances\<close>

definition demo_fops :: filter_ops where
  "demo_fops = \<lparr>f_httpd = demo_httpd, get_brigade = (\<lambda>h f how. (APR_SUCCESS, [DataBucket ''in'', EosBucket])),
     nobody_wrote = - 1, conn_gone = (\<lambda>rc. False)\<rparr>"

definition demo_fworld :: fworld where
  "demo_fworld = \<lparr>fio = demo_io, sent_eos = (\<lambda>f. False), got = [], ferrsv = NoErr\<rparr>"

definition demo_filter :: modperl_filter where
  "demo_filter = modperl_filter_new 3 [DataBucket ''abc'', DataBucket ''de'', EosBucket] OUTPUT_FILTER_MODE (0, 0, 0)"

lemmas demo_filter_defs = demo_fops_def demo_fworld_def demo_filter_def demo_wb_defs modperl_filter_new_def

theorem filter_read_prefix_witness:
  "\<exists>data fl'. modperl_filter_read demo_filter 4 = Inr (Inr data, fl') \<and>
     length data \<le> 4 \<and> length data = 4 \<and> data @ pending fl' = ''abcde''"
  using filter_read_prefix [of demo_filter 4] by (simp add: demo_filter_defs rest_def pending_def readable_def)


theorem filter_flush_drops_rest_witness:
  "\<exists>w'. modperl_output_filter_handler demo_fops (stream_prog 1024 (\<lambda>c. c) (Suc 9)) 3 (FlushBucket # [DataBucket ''lost'', EosBucket]) demo_fworld
       = Inr (APR_SUCCESS, w') \<and> passed (fio w') = [(4, [FlushBucket])] \<and> \<not> sent_eos w' 3"
  using filter_flush_drops_rest [of demo_fworld 3 4 demo_fops 1024 "\<lambda>c. c" 9 "[DataBucket ''lost'', EosBucket]"]
  by (simp add: demo_fworld_def demo_fops_def demo_wb_defs del: stream_prog.simps)

theorem filter_eos_once_witness:
  "\<exists>status fl' w' ps. modperl_run_filter demo_fops (FPrint [''hi''] (\<lambda>_. FSetEos True (FDone OK NoErr))) demo_filter demo_fworld
       = Inr (status, fl', w') \<and> no_eos ps \<and>
     (passed (fio w') = ps \<and> sent_eos w' = (\<lambda>f. False) \<or> passed (fio w') = ps @ [(4, [EosBucket])] \<and> sent_eos w' = (\<lambda>f. False)(3 := True))"
proof -
  let ?prog = "FPrint [''hi''] (\<lambda>_. FSetEos True (FDone OK NoErr))"
  have "\<exists>status fl' w'. modperl_run_filter demo_fops ?prog demo_filter demo_fworld = Inr (status, fl', w')"
    by (simp add: modperl_run_filter_def Filter_print_def modperl_output_filter_write_def WBUCKET_INIT_def
        modperl_wbucket_write_def set_fwb_def modperl_output_filter_flush_def modperl_wbucket_flush_def
        modperl_wbucket_pass_def wbucket_send_def slot_filter_def ap_pass_brigade_def send_output_eos_def pass_next_def
        croak_reset_ok_def demo_filter_defs MP_IOBUFSIZE_def Let_def)
  then obtain status fl' w' where r: "modperl_run_filter demo_fops ?prog demo_filter demo_fworld = Inr (status, fl', w')"
    by blast
  with filter_eos_once [OF r [unfolded demo_filter_def], of 4] show ?thesis
    by (auto simp: demo_fworld_def demo_io_def)
qed

end
