(* ===== verification/Filter_Add.thy ===== *)
theory Filter_Add
  imports Handler
begin

unbundle bit_operations_syntax

text \<open>
  Adding filters to a connection or a request, \<^verbatim>\<open>modperl_filter_add_connection\<close>, \<^verbatim>\<open>modperl_filter_add_request\<close> and
  \<^verbatim>\<open>modperl_filter_runtime_add\<close> of \<^verbatim>\<open>src/src/modules/perl/modperl_filter.c\<close>.

  What has been added is the list of the calls of \<open>ap_add_input_filter\<close> or \<open>ap_add_output_filter\<close>, with the name and,
  for the filters of mod\_perl, the handler in the context. The table of registered filters (is there one of this name,
  and is its type below \<open>AP_FTYPE_PROTOCOL\<close>) and running an init handler are parameters.
\<close>

section \<open>Filter handlers\<close>

definition MP_FILTER_CONNECTION_HANDLER :: "16 word" where "MP_FILTER_CONNECTION_HANDLER = 1"
definition MP_FILTER_REQUEST_HANDLER :: "16 word" where "MP_FILTER_REQUEST_HANDLER = 2"
definition MP_FILTER_HTTPD_HANDLER_f :: "16 word" where "MP_FILTER_HTTPD_HANDLER_f = 16"

text \<open>A handler with its field \<open>next\<close>, the init handler.\<close>

record fhandler = handler +
  next_handler :: "handler option"

definition attr :: "16 word \<Rightarrow> ('a) handler_scheme \<Rightarrow> bool" where
  "attr a h \<longleftrightarrow> attrs h AND a \<noteq> 0"

type_synonym added = "(string \<times> fhandler option) list"

record add_env =
  below_protocol :: "string \<Rightarrow> bool option"    \<comment> \<open>\<open>frec->ftype < AP_FTYPE_PROTOCOL\<close>; \<open>None\<close>: no such filter\<close>
  run_init :: "handler \<Rightarrow> added \<Rightarrow> int"         \<comment> \<open>\<open>modperl_run_filter_init\<close>\<close>

definition ascii_lower :: "char \<Rightarrow> char" where
  "ascii_lower c = (let n = (of_char c :: nat) in if 65 \<le> n \<and> n \<le> 90 then char_of (n + 32) else c)"

definition str_tolower :: "string \<Rightarrow> string" where
  "str_tolower s = map ascii_lower s"

section \<open>At the start of a connection and of a request\<close>

text \<open>The end of both loops: the init handler of a filter that was just added.\<close>

definition init_status :: "add_env \<Rightarrow> fhandler \<Rightarrow> added \<Rightarrow> int" where
  "init_status env h added =
     (if attr MP_FILTER_HAS_INIT_HANDLER h
      then (case next_handler h of None \<Rightarrow> OK | Some i \<Rightarrow> run_init env i added) else OK)"

fun add_connection_loop :: "add_env \<Rightarrow> string \<Rightarrow> fhandler list \<Rightarrow> added \<Rightarrow> (int \<times> added) res" where
  "add_connection_loop env name [] added = Inr (OK, added)"
| "add_connection_loop env name (h # hs) added =
     (if attr MP_FILTER_HTTPD_HANDLER_f h
      then (case hname h of
          None \<Rightarrow> Inl NullDeref
        | Some n \<Rightarrow> if below_protocol env (str_tolower n) = Some True then add_connection_loop env name hs added
                   else add_connection_loop env name hs (added @ [(n, None)]))
      else if \<not> attr MP_FILTER_CONNECTION_HANDLER h then add_connection_loop env name hs added
      else let added' = added @ [(name, Some h)]; status = init_status env h added'
           in if status \<noteq> OK then Inr (status, added') else add_connection_loop env name hs added')"

text \<open>\<open>av\<close> is the array of the directory configuration, \<open>None\<close> when nothing is configured.\<close>

definition modperl_filter_add_connection :: "add_env \<Rightarrow> string \<Rightarrow> fhandler list option \<Rightarrow> added \<Rightarrow> (int \<times> added) res" where
  "modperl_filter_add_connection env name av added = (case av of
       None \<Rightarrow> Inr (DECLINED, added)
     | Some hs \<Rightarrow> add_connection_loop env name hs added)"

text \<open>The search for the handler in the chain of the connection, given by the names and contexts of its filters.\<close>

fun already_registered :: "string \<Rightarrow> fhandler \<Rightarrow> added \<Rightarrow> bool res" where
  "already_registered name h [] = Inr False"
| "already_registered name h ((fname, ctx) # fs) =
     (if fname \<noteq> [] \<and> hd fname = CHR ''M'' \<and> fname = name
      then (case ctx of
          None \<Rightarrow> Inl NullDeref
        | Some h' \<Rightarrow> and_then (modperl_handler_equal (handler.truncate h') (handler.truncate h)) (\<lambda>eq.
            if eq then Inr True else already_registered name h fs))
      else already_registered name h fs)"

fun add_request_loop :: "add_env \<Rightarrow> string \<Rightarrow> added \<Rightarrow> fhandler list \<Rightarrow> added \<Rightarrow> (int \<times> added) res" where
  "add_request_loop env name chain [] added = Inr (OK, added)"
| "add_request_loop env name chain (h # hs) added =
     (if attr MP_FILTER_HTTPD_HANDLER_f h
      then (case hname h of
          None \<Rightarrow> Inl NullDeref
        | Some n \<Rightarrow> add_request_loop env name chain hs (added @ [(n, None)]))
      else if attr MP_FILTER_CONNECTION_HANDLER h then add_request_loop env name chain hs added
      else and_then (already_registered name h chain) (\<lambda>registered.
        if registered then add_request_loop env name chain hs added
        else let added' = added @ [(name, Some h)]; status = init_status env h added'
             in if status \<noteq> OK then Inr (status, added') else add_request_loop env name chain hs added'))"

definition modperl_filter_add_request ::
    "add_env \<Rightarrow> string \<Rightarrow> added \<Rightarrow> fhandler list option \<Rightarrow> added \<Rightarrow> (int \<times> added) res" where
  "modperl_filter_add_request env name chain av added = (case av of
       None \<Rightarrow> Inr (DECLINED, added)
     | Some hs \<Rightarrow> add_request_loop env name chain hs added)"

definition modperl_output_filter_add_connection :: "add_env \<Rightarrow> fhandler list option \<Rightarrow> added \<Rightarrow> added res" where
  "modperl_output_filter_add_connection env av added =
     and_then (modperl_filter_add_connection env ''MODPERL_CONNECTION_OUTPUT'' av added) (\<lambda>(_, added'). Inr added')"

definition modperl_output_filter_add_request :: "add_env \<Rightarrow> added \<Rightarrow> fhandler list option \<Rightarrow> added \<Rightarrow> added res" where
  "modperl_output_filter_add_request env chain av added =
     and_then (modperl_filter_add_request env ''MODPERL_REQUEST_OUTPUT'' chain av added) (\<lambda>(_, added'). Inr added')"

definition modperl_input_filter_add_connection :: "add_env \<Rightarrow> fhandler list option \<Rightarrow> added \<Rightarrow> added res" where
  "modperl_input_filter_add_connection env av added =
     and_then (modperl_filter_add_connection env ''MODPERL_CONNECTION_INPUT'' av added) (\<lambda>(_, added'). Inr added')"

definition modperl_input_filter_add_request :: "add_env \<Rightarrow> added \<Rightarrow> fhandler list option \<Rightarrow> added \<Rightarrow> added res" where
  "modperl_input_filter_add_request env chain av added =
     and_then (modperl_filter_add_request env ''MODPERL_REQUEST_INPUT'' chain av added) (\<lambda>(_, added'). Inr added')"

section \<open>At run time\<close>

text \<open>
  \<open>r\<close> is \<open>None\<close> when a connection filter is added. A handler without a name is an anonymous one, which
  \<open>modperl_mgv_resolve\<close> leaves alone; the init handler is what resolution found.
\<close>

definition runtime_add_checked ::
    "add_env \<Rightarrow> (handler \<Rightarrow> handler option) \<Rightarrow> nat option \<Rightarrow> string \<Rightarrow> string \<Rightarrow> added \<Rightarrow> bool \<Rightarrow> handler \<Rightarrow> added res" where
  "runtime_add_checked env init_of r name type added found h =
     (if \<not> found then Inl (Croak (''unable to resolve handler '' @ modperl_handler_name h))
      else if r = None \<and> \<not> attr MP_FILTER_CONNECTION_HANDLER h
      then Inl (Croak (''Can't add connection filter handler '' @ modperl_handler_name h))
      else if r \<noteq> None \<and> attrs h \<noteq> 0 \<and> \<not> attr MP_FILTER_REQUEST_HANDLER h
      then Inl (Croak (''Can't add request filter handler '' @ modperl_handler_name h))
      else let fh = handler.extend h (fhandler.fields (init_of h));
               added' = added @ [(name, Some fh)]
           in if init_status env fh added' \<noteq> OK
              then Inl (Croak (if type = ''InputFilter'' then ''Apache2::Filter::add_input_filter''
                               else ''Apache2::Filter::add_output_filter''))
              else Inr added')"

definition modperl_filter_runtime_add ::
    "'p perl_ops \<Rightarrow> add_env \<Rightarrow> (handler \<Rightarrow> handler option) \<Rightarrow> nat option \<Rightarrow> string \<Rightarrow> sv \<Rightarrow> string \<Rightarrow> added \<Rightarrow> 'p hstate
      \<Rightarrow> (added \<times> 'p hstate) res" where
  "modperl_filter_runtime_add ops env init_of r name callback type added st =
     and_then (modperl_handler_new_from_sv ops callback st) (\<lambda>(ho, st1). case ho of
         None \<Rightarrow> Inl (Croak ''unable to resolve handler'')
       | Some h0 \<Rightarrow>
           and_then (modperl_mgv_resolve ops h0 (case hname h0 of None \<Rightarrow> [] | Some n \<Rightarrow> n) True st1) (\<lambda>(found, h, st2).
           and_then (runtime_add_checked env init_of r name type added found h) (\<lambda>added'. Inr (added', st2))))"

section \<open>Which filters are added where\<close>

definition inits_ok :: "add_env \<Rightarrow> bool" where
  "inits_ok env \<longleftrightarrow> (\<forall>h a. run_init env h a = OK)"

lemma init_status_ok [simp]: "inits_ok env \<Longrightarrow> init_status env h a = OK"
  by (simp add: init_status_def inits_ok_def split: option.split)

definition named :: "fhandler list \<Rightarrow> bool" where
  "named hs \<longleftrightarrow> list_all (\<lambda>h. hname h \<noteq> None) hs"

text \<open>The reference: the calls for the handlers of one level.\<close>

definition added_as :: "string \<Rightarrow> fhandler \<Rightarrow> string \<times> fhandler option" where
  "added_as name h = (if attr MP_FILTER_HTTPD_HANDLER_f h then (the (hname h), None) else (name, Some h))"

definition connection_level :: "add_env \<Rightarrow> fhandler \<Rightarrow> bool" where
  "connection_level env h =
     (if attr MP_FILTER_HTTPD_HANDLER_f h then below_protocol env (str_tolower (the (hname h))) \<noteq> Some True
      else attr MP_FILTER_CONNECTION_HANDLER h)"

definition request_level :: "fhandler \<Rightarrow> bool" where
  "request_level h = (if attr MP_FILTER_HTTPD_HANDLER_f h then True else \<not> attr MP_FILTER_CONNECTION_HANDLER h)"

lemma add_connection_loop_eq:
  assumes "inits_ok env" "named hs"
  shows "add_connection_loop env name hs added = Inr (OK, added @ map (added_as name) (filter (connection_level env) hs))"
  using assms(2)
  by (induction hs arbitrary: added)
     (auto simp: named_def added_as_def connection_level_def Let_def assms(1) split: option.split)

text \<open>The names in a chain are in lower case, so the test for a capital \<open>M\<close> never succeeds.\<close>

lemma ascii_lower_M: "ascii_lower (CHR ''M'') = CHR ''m''"
  by code_simp

lemma lower_not_M: "str_tolower s = s \<Longrightarrow> s \<noteq> [] \<Longrightarrow> hd s \<noteq> CHR ''M''"
  by (cases s) (auto simp: str_tolower_def ascii_lower_M)

lemma already_registered_lower:
  "list_all (\<lambda>(n, _). str_tolower n = n) chain \<Longrightarrow> already_registered name h chain = Inr False"
  by (induction name h chain rule: already_registered.induct) (auto dest: lower_not_M)

lemma add_request_loop_eq:
  assumes "inits_ok env" "named hs" "list_all (\<lambda>(n, _). str_tolower n = n) chain"
  shows "add_request_loop env name chain hs added = Inr (OK, added @ map (added_as name) (filter request_level hs))"
  using assms(2)
  by (induction hs arbitrary: added)
     (auto simp: named_def added_as_def request_level_def Let_def assms(1) already_registered_lower [OF assms(3)]
       split: option.split)

text \<open>C36. For the same configured handlers, what a connection adds and what a request on it adds: a handler of
mod\_perl is added at exactly one of the two levels, by its attribute. A filter of httpd that belongs to a connection
(its type is not below the protocol level) is added at both. A chain with names in lower case, as httpd keeps them,
never suppresses an addition.\<close>

theorem filter_add_levels:
  assumes "inits_ok env" "named hs" "list_all (\<lambda>(n, _). str_tolower n = n) chain"
  shows "modperl_output_filter_add_connection env (Some hs) [] =
           Inr (map (added_as ''MODPERL_CONNECTION_OUTPUT'') (filter (connection_level env) hs)) \<and>
         modperl_output_filter_add_request env chain (Some hs) [] =
           Inr (map (added_as ''MODPERL_REQUEST_OUTPUT'') (filter request_level hs)) \<and>
         list_all (\<lambda>h. if attr MP_FILTER_HTTPD_HANDLER_f h
           then request_level h \<and> (connection_level env h \<longleftrightarrow> below_protocol env (str_tolower (the (hname h))) \<noteq> Some True)
           else connection_level env h = (\<not> request_level h)) hs"
  using add_connection_loop_eq [OF assms(1,2)] add_request_loop_eq [OF assms]
  by (simp add: modperl_output_filter_add_connection_def modperl_filter_add_connection_def
      modperl_output_filter_add_request_def modperl_filter_add_request_def connection_level_def request_level_def list_all_iff)

text \<open>A filter added at run time is of the right kind: whenever \<open>modperl_filter_runtime_add\<close> succeeds, one
filter was added, a connection filter has the connection attribute, and a request filter has the request attribute or
no attribute at all.\<close>

theorem filter_runtime_add_kind:
  assumes "modperl_filter_runtime_add ops env init_of r name callback type added st = Inr (added', st')"
  shows "\<exists>h. added' = added @ [(name, Some h)] \<and>
           (if r = None then attr MP_FILTER_CONNECTION_HANDLER h else attrs h = 0 \<or> attr MP_FILTER_REQUEST_HANDLER h) \<and>
           init_status env h added' = OK"
proof -
  obtain ho st1 where "modperl_handler_new_from_sv ops callback st = Inr (ho, st1)"
    using assms by (auto simp: modperl_filter_runtime_add_def and_then_eq_Inr)
  then obtain found h where "runtime_add_checked env init_of r name type added found h = Inr added'"
    using assms by (cases ho) (auto simp: modperl_filter_runtime_add_def and_then_eq_Inr)
  then have c: "\<not> (r = None \<and> \<not> attr MP_FILTER_CONNECTION_HANDLER h)"
    "\<not> (r \<noteq> None \<and> attrs h \<noteq> 0 \<and> \<not> attr MP_FILTER_REQUEST_HANDLER h)"
    "added' = added @ [(name, Some (handler.extend h (fhandler.fields (init_of h))))]"
    "init_status env (handler.extend h (fhandler.fields (init_of h))) added' = OK"
    by (simp_all add: runtime_add_checked_def Let_def split: if_splits)
  have "attrs (handler.extend h (fhandler.fields (init_of h))) = attrs h" by (simp add: handler.defs)
  with c show ?thesis
    by (intro exI [of _ "handler.extend h (fhandler.fields (init_of h))"]) (auto simp: attr_def)
qed

section \<open>Instances\<close>

definition demo_add_env :: add_env where
  "demo_add_env = \<lparr>below_protocol = (\<lambda>n. if n = ''deflate'' then Some True else if n = ''logio'' then Some False else None),
     run_init = (\<lambda>h a. OK)\<rparr>"

definition demo_fhandler :: "string \<Rightarrow> 16 word \<Rightarrow> fhandler" where
  "demo_fhandler n a = \<lparr>mgv_obj = None, mgv_cv = None, hname = Some n, hflags = 0, attrs = a, next_handler = None\<rparr>"

definition demo_fhandlers :: "fhandler list" where
  "demo_fhandlers = [demo_fhandler ''My::Conn'' 1, demo_fhandler ''My::Req'' 0, demo_fhandler ''DEFLATE'' 16, demo_fhandler ''LOGIO'' 16]"

theorem filter_add_levels_witness:
  "modperl_output_filter_add_connection demo_add_env (Some demo_fhandlers) [] =
     Inr [(''MODPERL_CONNECTION_OUTPUT'', Some (demo_fhandler ''My::Conn'' 1)), (''LOGIO'', None)] \<and>
   modperl_output_filter_add_request demo_add_env [(''core'', None)] (Some demo_fhandlers) [] =
     Inr [(''MODPERL_REQUEST_OUTPUT'', Some (demo_fhandler ''My::Req'' 0)), (''DEFLATE'', None), (''LOGIO'', None)]"
proof -
  have "inits_ok demo_add_env" "named demo_fhandlers" "list_all (\<lambda>(n, _). str_tolower n = n) [(''core'', None)]"
    by (simp add: inits_ok_def demo_add_env_def) (simp add: named_def demo_fhandlers_def demo_fhandler_def, code_simp)
  note filter_add_levels [OF this]
  moreover have "map (added_as ''MODPERL_CONNECTION_OUTPUT'') (filter (connection_level demo_add_env) demo_fhandlers) =
      [(''MODPERL_CONNECTION_OUTPUT'', Some (demo_fhandler ''My::Conn'' 1)), (''LOGIO'', None)]" by code_simp
  moreover have "map (added_as ''MODPERL_REQUEST_OUTPUT'') (filter request_level demo_fhandlers) =
      [(''MODPERL_REQUEST_OUTPUT'', Some (demo_fhandler ''My::Req'' 0)), (''DEFLATE'', None), (''LOGIO'', None)]" by code_simp
  ultimately show ?thesis by simp
qed

end
