(* ===== verification/Startup.thy ===== *)
theory Startup
  imports Prelude
begin

text \<open>
  The start of the server, \<^verbatim>\<open>src/src/modules/perl/mod_perl.c\<close>: one Perl for the main server and for every virtual host with
  \<open>PerlOptions +Parent\<close>, an interpreter pool for these and for the hosts with \<open>+Clone\<close>, the pool of the main server for
  the others, and the pools filled once when the server runs threads.

  Servers, interpreters and pools are numbers. The Perl interpreter itself and the loading of modules are parameters: what
  counts here is whether \<open>perl_parse\<close>, \<open>PerlRequire\<close> and \<open>PerlModule\<close> succeed for a server. The build is the one with
  interpreter threads.
\<close>

section \<open>State\<close>

record start_env =
  base :: nat                          \<comment> \<open>\<open>modperl_global_get_server_rec()\<close>\<close>
  vhosts :: "nat list"                 \<comment> \<open>the servers after it in the list\<close>
  has_scfg :: "nat \<Rightarrow> bool"
  is_virtual :: "nat \<Rightarrow> bool"
  enable :: "nat \<Rightarrow> bool"               \<comment> \<open>\<open>MpSrvENABLE\<close>\<close>
  parent_flag :: "nat \<Rightarrow> bool"          \<comment> \<open>\<open>MpSrvPARENT\<close>\<close>
  clone_flag :: "nat \<Rightarrow> bool"           \<comment> \<open>\<open>MpSrvCLONE\<close>\<close>
  pool_start :: "nat \<Rightarrow> nat"            \<comment> \<open>\<open>PerlInterpStart\<close> of a server\<close>
  parse_ok :: "nat \<Rightarrow> bool"
  require_ok :: "nat \<Rightarrow> bool"
  module_ok :: "nat \<Rightarrow> bool"
  post_config_ok :: "nat \<Rightarrow> bool"
  threaded_mpm :: bool

record pool =
  pool_parent :: nat                   \<comment> \<open>the Perl of \<open>mip->parent\<close>\<close>
  pool_size :: nat                     \<comment> \<open>\<open>cfg->start\<close>\<close>
  pool_idle :: bool                    \<comment> \<open>\<open>tipool->idle\<close> is not null\<close>

datatype start_event = PerlStarted nat nat | Required nat nat | Loaded nat nat | PoolFilled nat

record start_state =
  init_status :: nat                   \<comment> \<open>\<open>MP_init_status\<close>: 0 not running, 1 starting, 2 running\<close>
  threads_started :: bool
  post_post_config :: bool
  srv_mip :: "nat \<Rightarrow> nat option"
  pools :: "nat \<Rightarrow> pool"
  pool_brk :: nat
  perl_brk :: nat
  perl_context :: "nat option"
  sys_inits :: nat
  start_log :: "start_event list"

definition log_start :: "start_event list \<Rightarrow> start_state \<Rightarrow> start_state" where
  "log_start es st = st\<lparr>start_log := start_log st @ es\<rparr>"

section \<open>Starting a Perl\<close>

text \<open>\<open>modperl_interp_init\<close>: a new pool for a server, with the given Perl as the parent.\<close>

definition interp_init :: "start_env \<Rightarrow> nat \<Rightarrow> nat \<Rightarrow> start_state \<Rightarrow> start_state" where
  "interp_init env s perl st =
     st\<lparr>pools := (pools st)(pool_brk st := \<lparr>pool_parent = perl, pool_size = pool_start env s, pool_idle = False\<rparr>),
        pool_brk := Suc (pool_brk st), srv_mip := (srv_mip st)(s := Some (pool_brk st))\<rparr>"

text \<open>\<open>modperl_config_apply_PerlRequire\<close> and \<open>modperl_config_apply_PerlModule\<close>, in this order.\<close>

definition apply_config :: "start_env \<Rightarrow> nat \<Rightarrow> nat \<Rightarrow> start_state \<Rightarrow> bool \<times> start_state" where
  "apply_config env s perl st =
     (if \<not> require_ok env s then (False, st)
      else if \<not> module_ok env s then (False, log_start [Required s perl] st)
      else (True, log_start [Required s perl, Loaded s perl] st))"

text \<open>The body of \<open>modperl_startup\<close> after the test of the flag.\<close>

definition startup_one :: "start_env \<Rightarrow> nat \<Rightarrow> start_state \<Rightarrow> (nat \<times> start_state) res" where
  "startup_one env s st =
     (if \<not> parse_ok env s then Inl Exited
      else let perl = perl_brk st;
               st1 = log_start [PerlStarted s perl] (st\<lparr>perl_brk := Suc perl, perl_context := Some perl\<rparr>);
               (ok, st2) = apply_config env s perl (interp_init env s perl st1)
           in if ok then Inr (perl, st2) else Inl Exited)"

definition modperl_startup :: "start_env \<Rightarrow> nat \<Rightarrow> start_state \<Rightarrow> (nat \<times> start_state) res" where
  "modperl_startup env s st =
     (if init_status st \<noteq> 2
      then and_then (startup_one env (base env) (st\<lparr>init_status := 2\<rparr>)) (\<lambda>(base_perl, st1).
             if base env = s then Inr (base_perl, st1) else startup_one env s st1)
      else startup_one env s st)"

section \<open>Virtual hosts\<close>

definition modperl_init_vhost :: "start_env \<Rightarrow> nat \<Rightarrow> nat option \<Rightarrow> start_state \<Rightarrow> (int \<times> start_state) res" where
  "modperl_init_vhost env s base_server st =
     (if \<not> has_scfg env s then Inr (OK, st)
      else let b = (case base_server of None \<Rightarrow> base env | Some b \<Rightarrow> b) in
        if b = s then Inr (OK, st)
        else case srv_mip st b of
          None \<Rightarrow> Inl NullDeref
        | Some bm \<Rightarrow>
            let base_perl = pool_parent (pools st bm) in
            if srv_mip st s \<noteq> None then Inr (OK, st)
            else if \<not> enable env s \<and> is_virtual env s then Inr (OK, st\<lparr>srv_mip := (srv_mip st)(s := None)\<rparr>)
            else let st1 = st\<lparr>perl_context := Some base_perl\<rparr> in
              if parent_flag env s
              then and_then (modperl_startup env s st1) (\<lambda>(_, st2).
                     Inr (OK, if srv_mip st2 s = None then st2\<lparr>srv_mip := (srv_mip st2)(s := Some bm)\<rparr> else st2))
              else let st2 = (if clone_flag env s then interp_init env s base_perl st1 else st1);
                       (ok, st3) = apply_config env s base_perl st2
                   in if \<not> ok then Inr (HTTP_INTERNAL_SERVER_ERROR, st3)
                      else Inr (OK, if srv_mip st3 s = None then st3\<lparr>srv_mip := (srv_mip st3)(s := Some bm)\<rparr> else st3))"

fun init_vhosts :: "start_env \<Rightarrow> nat list \<Rightarrow> start_state \<Rightarrow> start_state res" where
  "init_vhosts env [] st = Inr st"
| "init_vhosts env (s # ss) st =
     and_then (modperl_init_vhost env s (Some (base env)) st) (\<lambda>(rc, st').
       if rc \<noteq> OK then Inl Exited else init_vhosts env ss st')"

definition modperl_init :: "start_env \<Rightarrow> start_state \<Rightarrow> start_state res" where
  "modperl_init env st =
     and_then (modperl_startup env (base env) st) (\<lambda>(base_perl, st1).
     and_then (init_vhosts env (vhosts env) st1) (\<lambda>st2. Inr (st2\<lparr>perl_context := Some base_perl\<rparr>)))"

section \<open>The hooks\<close>

definition modperl_hook_init :: "start_env \<Rightarrow> start_state \<Rightarrow> (int \<times> start_state) res" where
  "modperl_hook_init env st =
     (if init_status st = 1 \<or> init_status st = 2 then Inr (OK, st)
      else and_then (modperl_init env (st\<lparr>init_status := 1, sys_inits := Suc (sys_inits st)\<rparr>)) (\<lambda>st'. Inr (OK, st')))"

definition modperl_run :: "start_env \<Rightarrow> start_state \<Rightarrow> (int \<times> start_state) res" where
  "modperl_run env st = modperl_hook_init env st"

definition modperl_is_running :: "start_state \<Rightarrow> bool" where
  "modperl_is_running st = (init_status st = 2)"

text \<open>The cleanup of the server pool.\<close>

definition modperl_sys_term :: "start_state \<Rightarrow> start_state" where
  "modperl_sys_term st = st\<lparr>init_status := 0, threads_started := False, post_post_config := False\<rparr>"

text \<open>\<open>modperl_tipool_init\<close> makes \<open>start\<close> interpreters; with none the list of idle ones stays empty.\<close>

fun init_clones_loop :: "start_env \<Rightarrow> nat list \<Rightarrow> start_state \<Rightarrow> start_state res" where
  "init_clones_loop env [] st = Inr st"
| "init_clones_loop env (s # ss) st = (case srv_mip st s of
       None \<Rightarrow> Inl NullDeref
     | Some m \<Rightarrow>
         if pool_idle (pools st m) then init_clones_loop env ss st
         else init_clones_loop env ss (log_start [PoolFilled m]
                (st\<lparr>pools := (pools st)(m := (pools st m)\<lparr>pool_idle := (0 < pool_size (pools st m))\<rparr>)\<rparr>)))"

definition modperl_init_clones :: "start_env \<Rightarrow> start_state \<Rightarrow> start_state res" where
  "modperl_init_clones env st =
     (if \<not> threaded_mpm env then Inr st else init_clones_loop env (base env # vhosts env) st)"

definition modperl_post_config_require :: "start_env \<Rightarrow> bool" where
  "modperl_post_config_require env = list_all (post_config_ok env) (base env # vhosts env)"

definition modperl_hook_post_config_last :: "start_env \<Rightarrow> start_state \<Rightarrow> (int \<times> start_state) res" where
  "modperl_hook_post_config_last env st =
     (if srv_mip st (base env) = None then Inl NullDeref
      else if \<not> modperl_post_config_require env then Inl Exited
      else let st1 = st\<lparr>threads_started := (threads_started st \<or> threaded_mpm env), post_post_config := True\<rparr>
           in and_then (modperl_init_clones env st1) (\<lambda>st2. Inr (OK, st2)))"

section \<open>Every server gets the right pool\<close>

text \<open>A virtual host with a pool of its own.\<close>

definition own_pool :: "start_env \<Rightarrow> nat \<Rightarrow> bool" where
  "own_pool env s \<longleftrightarrow> enable env s \<and> (parent_flag env s \<or> clone_flag env s)"

definition host_ok :: "start_env \<Rightarrow> nat \<Rightarrow> nat \<Rightarrow> nat \<Rightarrow> start_state \<Rightarrow> bool" where
  "host_ok env m0 p0 s st =
     (if \<not> enable env s then srv_mip st s = None
      else if own_pool env s
      then (case srv_mip st s of None \<Rightarrow> False | Some m \<Rightarrow> m \<noteq> m0 \<and> ((pool_parent (pools st m) = p0) = (\<not> parent_flag env s)))
      else srv_mip st s = Some m0)"

lemma host_ok_cong:
  "srv_mip st' s = srv_mip st s \<Longrightarrow> pools st' = pools st \<Longrightarrow> host_ok env m0 p0 s st' = host_ok env m0 p0 s st"
  by (simp add: host_ok_def cong: option.case_cong)

text \<open>After the main server and the hosts \<open>ps\<close> have been started, with \<open>m0\<close> the pool and \<open>p0\<close> the Perl of the main
server.\<close>

definition started :: "start_env \<Rightarrow> nat \<Rightarrow> nat \<Rightarrow> nat list \<Rightarrow> start_state \<Rightarrow> bool" where
  "started env m0 p0 ps st \<longleftrightarrow> init_status st = 2 \<and> srv_mip st (base env) = Some m0 \<and> pool_parent (pools st m0) = p0 \<and>
     p0 < perl_brk st \<and> (\<forall>s m. srv_mip st s = Some m \<longrightarrow> m < pool_brk st) \<and>
     (\<forall>s. s \<noteq> base env \<and> s \<notin> set ps \<longrightarrow> srv_mip st s = None) \<and>
     (\<forall>s \<in> set ps. host_ok env m0 p0 s st) \<and> inj_on (srv_mip st) (insert (base env) {s \<in> set ps. own_pool env s})"

definition loads :: "start_env \<Rightarrow> nat \<Rightarrow> bool" where
  "loads env s \<longleftrightarrow> parse_ok env s \<and> require_ok env s \<and> module_ok env s"

lemma srv_mip_log [simp]: "srv_mip (log_start es st) = srv_mip st" "pools (log_start es st) = pools st"
  "init_status (log_start es st) = init_status st" "perl_brk (log_start es st) = perl_brk st"
  "pool_brk (log_start es st) = pool_brk st"
  by (simp_all add: log_start_def)

lemma srv_mip_interp_init [simp]:
  "srv_mip (interp_init env s p st) = (srv_mip st)(s := Some (pool_brk st))"
  "pools (interp_init env s p st) = (pools st)(pool_brk st := \<lparr>pool_parent = p, pool_size = pool_start env s, pool_idle = False\<rparr>)"
  "init_status (interp_init env s p st) = init_status st" "perl_brk (interp_init env s p st) = perl_brk st"
  "pool_brk (interp_init env s p st) = Suc (pool_brk st)"
  by (simp_all add: interp_init_def)

lemma pools_inj:
  "inj_on (srv_mip st) A \<Longrightarrow> (\<And>t. t \<in> A \<Longrightarrow> srv_mip st' t = srv_mip st t) \<Longrightarrow> inj_on (srv_mip st') A"
  unfolding inj_on_def by metis

text \<open>A new pool for one more host keeps everything that was established.\<close>

lemma started_own:
  assumes "started env m0 p0 ps st" "s \<notin> set ps" "s \<noteq> base env" "own_pool env s"
    "init_status st' = 2" "perl_brk st \<le> perl_brk st'" "srv_mip st' = (srv_mip st)(s := Some (pool_brk st))"
    "pools st' = (pools st)(pool_brk st := pl)" "pool_brk st' = Suc (pool_brk st)"
    "(pool_parent pl = p0) = (\<not> parent_flag env s)"
  shows "started env m0 p0 (s # ps) st'"
proof -
  have lt: "\<And>t m. srv_mip st t = Some m \<Longrightarrow> m < pool_brk st" and m0: "m0 < pool_brk st"
    using assms(1) by (auto simp: started_def)
  have "host_ok env m0 p0 t st'" if "t \<in> set ps" for t
  proof -
    have "host_ok env m0 p0 t st" "t \<noteq> s" using assms(1,2) that by (auto simp: started_def)
    then show ?thesis using lt assms(7,8) by (fastforce simp: host_ok_def split: option.splits if_splits)
  qed
  moreover have "host_ok env m0 p0 s st'"
    using assms(4,7,8,10) m0 by (simp add: host_ok_def own_pool_def)
  moreover have "inj_on (srv_mip st') (insert (base env) {t \<in> set (s # ps). own_pool env t})"
  proof -
    have "insert (base env) {t \<in> set (s # ps). own_pool env t} = insert s (insert (base env) {t \<in> set ps. own_pool env t})"
      using assms(4) by auto
    moreover have "inj_on (srv_mip st') (insert (base env) {t \<in> set ps. own_pool env t})"
    proof (rule pools_inj)
      show "inj_on (srv_mip st) (insert (base env) {t \<in> set ps. own_pool env t})" using assms(1) unfolding started_def by blast
    qed (use assms(2,3,7) in auto)
    moreover have "srv_mip st' s \<notin> srv_mip st' ` (insert (base env) {t \<in> set ps. own_pool env t} - {s})"
      using assms(7) lt by (auto simp: image_iff dest: sym split: if_splits)
    ultimately show ?thesis by (simp add: inj_on_insert)
  qed
  ultimately show ?thesis
    using assms(1,3,5,6,7,8,9) m0 lt by (auto simp: started_def less_Suc_eq)
qed

lemma init_vhost_started:
  assumes "started env m0 p0 ps st" "s \<notin> set ps" "s \<noteq> base env" "has_scfg env s" "is_virtual env s" "loads env s"
  shows "\<exists>st'. modperl_init_vhost env s (Some (base env)) st = Inr (OK, st') \<and> started env m0 p0 (s # ps) st'"
proof -
  have st: "srv_mip st (base env) = Some m0" "pool_parent (pools st m0) = p0" "srv_mip st s = None" "init_status st = 2"
    "p0 < perl_brk st"
    using assms(1-3) by (simp_all add: started_def)
  have ld: "parse_ok env s" "require_ok env s" "module_ok env s" using assms(6) by (simp_all add: loads_def)
  consider (off) "\<not> enable env s" | (par) "enable env s" "parent_flag env s"
    | (cln) "enable env s" "\<not> parent_flag env s" "clone_flag env s"
    | (inh) "enable env s" "\<not> parent_flag env s" "\<not> clone_flag env s" by blast
  then show ?thesis
  proof cases
    case off
    have "(srv_mip st)(s := None) = srv_mip st" using st(3) by (simp add: fun_upd_idem)
    moreover from this have "st\<lparr>srv_mip := (srv_mip st)(s := None)\<rparr> = st" by simp
    moreover have "{t \<in> set (s # ps). own_pool env t} = {t \<in> set ps. own_pool env t}" using off by (auto simp: own_pool_def)
    ultimately show ?thesis
      using off assms(1,3,4,5) st by (auto simp: modperl_init_vhost_def started_def host_ok_def)
  next
    case par
    let ?pl = "\<lparr>pool_parent = perl_brk st, pool_size = pool_start env s, pool_idle = False\<rparr>"
    from par st ld assms(3,4) obtain st' where
      1: "modperl_init_vhost env s (Some (base env)) st = Inr (OK, st')" "init_status st' = 2" "perl_brk st' = Suc (perl_brk st)"
        "srv_mip st' = (srv_mip st)(s := Some (pool_brk st))" "pools st' = (pools st)(pool_brk st := ?pl)"
        "pool_brk st' = Suc (pool_brk st)"
      by (auto simp: modperl_init_vhost_def modperl_startup_def startup_one_def apply_config_def Let_def)
    from started_own [OF assms(1-3) _ 1(2) _ 1(4,5,6)] par st(5) 1(1,3) show ?thesis by (auto simp: own_pool_def)
  next
    case cln
    let ?pl = "\<lparr>pool_parent = p0, pool_size = pool_start env s, pool_idle = False\<rparr>"
    from cln st ld assms(3,4) obtain st' where
      1: "modperl_init_vhost env s (Some (base env)) st = Inr (OK, st')" "init_status st' = 2" "perl_brk st' = perl_brk st"
        "srv_mip st' = (srv_mip st)(s := Some (pool_brk st))" "pools st' = (pools st)(pool_brk st := ?pl)"
        "pool_brk st' = Suc (pool_brk st)"
      by (auto simp: modperl_init_vhost_def apply_config_def Let_def)
    from started_own [OF assms(1-3) _ 1(2) _ 1(4,5,6)] cln 1(1,3) show ?thesis by (auto simp: own_pool_def)
  next
    case inh
    from inh st ld assms(3,4) obtain st' where
      1: "modperl_init_vhost env s (Some (base env)) st = Inr (OK, st')" "init_status st' = 2" "perl_brk st' = perl_brk st"
        "srv_mip st' = (srv_mip st)(s := Some m0)" "pools st' = pools st" "pool_brk st' = pool_brk st"
      by (auto simp: modperl_init_vhost_def apply_config_def Let_def)
    have own: "{t \<in> set (s # ps). own_pool env t} = {t \<in> set ps. own_pool env t}" using inh by (auto simp: own_pool_def)
    have "inj_on (srv_mip st') (insert (base env) {t \<in> set ps. own_pool env t})"
    proof (rule pools_inj)
      show "inj_on (srv_mip st) (insert (base env) {t \<in> set ps. own_pool env t})" using assms(1) unfolding started_def by blast
    qed (use assms(2,3) 1(4) in auto)
    moreover have "host_ok env m0 p0 t st'" if "t \<in> set ps" for t
    proof -
      have "host_ok env m0 p0 t st" "t \<noteq> s" using assms(1,2) that by (auto simp: started_def)
      then show ?thesis using 1(4,5) host_ok_cong [of st' t st] by simp
    qed
    moreover have "host_ok env m0 p0 s st'" using inh 1(4) by (simp add: host_ok_def own_pool_def)
    ultimately have "started env m0 p0 (s # ps) st'"
      using assms(1,3) 1(2-6) own unfolding started_def by (auto simp del: inj_on_insert)
    with 1(1) show ?thesis by blast
  qed
qed

lemma init_vhosts_started:
  assumes "started env m0 p0 ps st" "distinct (ps @ ss)" "base env \<notin> set ss"
    "list_all (\<lambda>s. has_scfg env s \<and> is_virtual env s \<and> loads env s) ss"
  shows "\<exists>st'. init_vhosts env ss st = Inr st' \<and> started env m0 p0 (rev ss @ ps) st'"
  using assms
proof (induction ss arbitrary: ps st)
  case (Cons s ss)
  from init_vhost_started [OF Cons.prems(1), of s] Cons.prems(2-4) obtain st1 where
    1: "modperl_init_vhost env s (Some (base env)) st = Inr (OK, st1)" "started env m0 p0 (s # ps) st1" by auto
  from Cons.IH [OF 1(2)] Cons.prems(2-4) 1(1) show ?case by auto
qed simp

lemma hook_init_pools:
  assumes "init_status st = 0" "\<forall>s. srv_mip st s = None" "distinct (vhosts env)" "base env \<notin> set (vhosts env)" "loads env (base env)"
    "list_all (\<lambda>s. has_scfg env s \<and> is_virtual env s \<and> loads env s) (vhosts env)"
  shows "\<exists>st' m0 p0. modperl_hook_init env st = Inr (OK, st') \<and> modperl_is_running st' \<and> perl_context st' = Some p0 \<and>
           srv_mip st' (base env) = Some m0 \<and> pool_parent (pools st' m0) = p0 \<and>
           list_all (\<lambda>s. host_ok env m0 p0 s st') (vhosts env) \<and>
           inj_on (srv_mip st') (insert (base env) {s \<in> set (vhosts env). own_pool env s}) \<and>
           modperl_hook_init env st' = Inr (OK, st')"
proof -
  let ?st0 = "st\<lparr>init_status := 1, sys_inits := Suc (sys_inits st)\<rparr>"
  let ?m0 = "pool_brk st" and ?p0 = "perl_brk st"
  from assms(2,5) obtain st1 where
    1: "modperl_startup env (base env) ?st0 = Inr (?p0, st1)" "init_status st1 = 2" "perl_brk st1 = Suc ?p0"
      "srv_mip st1 = (srv_mip st)(base env := Some ?m0)"
      "pools st1 = (pools st)(?m0 := \<lparr>pool_parent = ?p0, pool_size = pool_start env (base env), pool_idle = False\<rparr>)"
      "pool_brk st1 = Suc ?m0"
    by (auto simp: modperl_startup_def startup_one_def apply_config_def loads_def Let_def)
  have "started env ?m0 ?p0 [] st1" using 1(2-6) assms(2) by (auto simp: started_def)
  from init_vhosts_started [OF this, of "vhosts env"] assms(3,4,6) obtain st2 where
    2: "init_vhosts env (vhosts env) st1 = Inr st2" "started env ?m0 ?p0 (rev (vhosts env)) st2" by auto
  let ?st3 = "st2\<lparr>perl_context := Some ?p0\<rparr>"
  have i2: "init_status st2 = 2" and b2: "srv_mip st2 (base env) = Some ?m0" "pool_parent (pools st2 ?m0) = ?p0"
    using 2(2) by (simp_all add: started_def)
  have "modperl_hook_init env st = Inr (OK, ?st3)"
    using 1(1) 2(1) assms(1) by (simp add: modperl_hook_init_def modperl_init_def)
  moreover have "list_all (\<lambda>s. host_ok env ?m0 ?p0 s ?st3) (vhosts env)"
  proof -
    have "\<forall>s \<in> set (vhosts env). host_ok env ?m0 ?p0 s st2" using 2(2) by (simp add: started_def)
    then show ?thesis by (simp add: list_all_iff host_ok_cong [of ?st3 _ st2])
  qed
  moreover have "inj_on (srv_mip ?st3) (insert (base env) {s \<in> set (vhosts env). own_pool env s})"
  proof -
    from 2(2) have "inj_on (srv_mip st2) (insert (base env) {s \<in> set (vhosts env). own_pool env s})"
      unfolding started_def set_rev append_Nil2 by blast
    then show ?thesis by simp
  qed
  ultimately show ?thesis
    using i2 b2 by (intro exI [of _ ?st3] exI [of _ ?m0] exI [of _ ?p0]) (simp add: modperl_is_running_def modperl_hook_init_def)
qed

text \<open>C27. The start of a server whose interpreters load: the main server gets a Perl and a pool; every enabled virtual host with
\<open>+Parent\<close> or \<open>+Clone\<close> gets a pool of its own, over a Perl of its own exactly with \<open>+Parent\<close>; every other enabled host
uses the pool of the main server; a disabled one has none. No two servers that have a pool of their own share it, and a
second call of the hook changes nothing.\<close>

theorem startup_pools:
  assumes "init_status st = 0" "\<forall>s. srv_mip st s = None" "distinct (vhosts env)" "base env \<notin> set (vhosts env)" "loads env (base env)"
    "list_all (\<lambda>s. has_scfg env s \<and> is_virtual env s \<and> loads env s) (vhosts env)"
  shows "\<exists>st' m0 p0. modperl_hook_init env st = Inr (OK, st') \<and> modperl_is_running st' \<and> perl_context st' = Some p0 \<and>
           srv_mip st' (base env) = Some m0 \<and> pool_parent (pools st' m0) = p0 \<and>
           list_all (\<lambda>s. host_ok env m0 p0 s st') (vhosts env) \<and>
           inj_on (srv_mip st') (insert (base env) {s \<in> set (vhosts env). own_pool env s}) \<and>
           modperl_hook_init env st' = Inr (OK, st')"
  by (rule hook_init_pools [OF assms])

section \<open>Filling the pools\<close>

lemma init_clones_none:
  "\<exists>s \<in> set ss. srv_mip st s = None \<Longrightarrow> init_clones_loop env ss st = Inl NullDeref"
proof (induction ss arbitrary: st)
  case (Cons s ss)
  show ?case
  proof (cases "srv_mip st s")
    case (Some m)
    then have "\<exists>s \<in> set ss. srv_mip st s = None" using Cons.prems by auto
    with Cons.IH Some show ?thesis by simp
  qed simp
qed simp

text \<open>A server with threads and a virtual host that switched mod\_perl off does not come up: the host has no
pool, and filling the pools follows the pool pointer of every server.\<close>

theorem disabled_vhost_crash:
  assumes "init_status st = 0" "\<forall>s. srv_mip st s = None" "distinct (vhosts env)" "base env \<notin> set (vhosts env)" "loads env (base env)"
    "list_all (\<lambda>s. has_scfg env s \<and> is_virtual env s \<and> loads env s) (vhosts env)"
    "threaded_mpm env" "modperl_post_config_require env" "s \<in> set (vhosts env)" "\<not> enable env s"
  shows "\<exists>st'. modperl_hook_init env st = Inr (OK, st') \<and> modperl_hook_post_config_last env st' = Inl NullDeref"
proof -
  obtain st' m0 p0 where 1: "modperl_hook_init env st = Inr (OK, st')" "srv_mip st' (base env) = Some m0"
    "list_all (\<lambda>s. host_ok env m0 p0 s st') (vhosts env)"
    using hook_init_pools [OF assms(1-6)] by blast
  then have "srv_mip st' s = None" using assms(9,10) by (auto simp: list_all_iff host_ok_def)
  then have none: "\<exists>t \<in> set (base env # vhosts env). srv_mip st' t = None" using assms(9) by auto
  show ?thesis
    using 1 assms(7,8) init_clones_none [of "base env # vhosts env" "st'\<lparr>threads_started := True, post_post_config := True\<rparr>" env] none
    by (intro exI [of _ st']) (simp add: modperl_hook_post_config_last_def modperl_init_clones_def del: init_clones_loop.simps)
qed

lemma init_clones_fill:
  "\<forall>s \<in> set ss. srv_mip st s \<noteq> None \<Longrightarrow>
     \<exists>st' es. init_clones_loop env ss st = Inr st' \<and> start_log st' = start_log st @ es \<and>
       (\<forall>m. 0 < pool_size (pools st m) \<longrightarrow>
          count_list es (PoolFilled m) = (if Some m \<in> srv_mip st ` set ss \<and> \<not> pool_idle (pools st m) then 1 else 0) \<and>
          pool_idle (pools st' m) = (pool_idle (pools st m) \<or> Some m \<in> srv_mip st ` set ss))"
proof (induction ss arbitrary: st)
  case (Cons s ss)
  then obtain k where k: "srv_mip st s = Some k" by auto
  show ?case
  proof (cases "pool_idle (pools st k)")
    case True
    with Cons.IH [of st] Cons.prems k show ?thesis by auto
  next
    case False
    let ?st1 = "log_start [PoolFilled k] (st\<lparr>pools := (pools st)(k := (pools st k)\<lparr>pool_idle := (0 < pool_size (pools st k))\<rparr>)\<rparr>)"
    have "\<forall>s \<in> set ss. srv_mip ?st1 s \<noteq> None" using Cons.prems by simp
    from Cons.IH [OF this] obtain st' es where
      1: "init_clones_loop env ss ?st1 = Inr st'" "start_log st' = start_log ?st1 @ es"
      "\<forall>m. 0 < pool_size (pools ?st1 m) \<longrightarrow>
          count_list es (PoolFilled m) = (if Some m \<in> srv_mip ?st1 ` set ss \<and> \<not> pool_idle (pools ?st1 m) then 1 else 0) \<and>
          pool_idle (pools st' m) = (pool_idle (pools ?st1 m) \<or> Some m \<in> srv_mip ?st1 ` set ss)"
      by blast
    have "\<forall>m. 0 < pool_size (pools st m) \<longrightarrow>
          count_list (PoolFilled k # es) (PoolFilled m) =
            (if Some m \<in> srv_mip st ` set (s # ss) \<and> \<not> pool_idle (pools st m) then 1 else 0) \<and>
          pool_idle (pools st' m) = (pool_idle (pools st m) \<or> Some m \<in> srv_mip st ` set (s # ss))"
    proof (intro allI impI)
      fix m assume m: "0 < pool_size (pools st m)"
      with 1(3) [rule_format, of m] k False show "count_list (PoolFilled k # es) (PoolFilled m) =
            (if Some m \<in> srv_mip st ` set (s # ss) \<and> \<not> pool_idle (pools st m) then 1 else 0) \<and>
          pool_idle (pools st' m) = (pool_idle (pools st m) \<or> Some m \<in> srv_mip st ` set (s # ss))"
        by (cases "m = k") (auto split: if_splits)
    qed
    with 1(1,2) k False show ?thesis
      by (intro exI [of _ st'] exI [of _ "PoolFilled k # es"]) (simp add: log_start_def)
  qed
qed simp

text \<open>When every server has a pool, each pool that starts with interpreters is filled exactly once, however many
hosts share it.\<close>

theorem startup_fill_once:
  assumes "threaded_mpm env" "\<forall>s \<in> set (base env # vhosts env). srv_mip st s \<noteq> None" "0 < pool_size (pools st m)"
    "Some m \<in> srv_mip st ` set (base env # vhosts env)" "\<not> pool_idle (pools st m)"
  shows "\<exists>st' es. modperl_init_clones env st = Inr st' \<and> start_log st' = start_log st @ es \<and>
           count_list es (PoolFilled m) = 1 \<and> pool_idle (pools st' m)"
proof -
  obtain st' es where 1: "init_clones_loop env (base env # vhosts env) st = Inr st'" "start_log st' = start_log st @ es"
    and 2: "\<forall>m. 0 < pool_size (pools st m) \<longrightarrow>
          count_list es (PoolFilled m) = (if Some m \<in> srv_mip st ` set (base env # vhosts env) \<and> \<not> pool_idle (pools st m) then 1 else 0) \<and>
          pool_idle (pools st' m) = (pool_idle (pools st m) \<or> Some m \<in> srv_mip st ` set (base env # vhosts env))"
    using init_clones_fill [OF assms(2), of env] by blast
  from 2 [rule_format, OF assms(3)] assms(4,5) have "count_list es (PoolFilled m) = 1 \<and> pool_idle (pools st' m)"
    by (simp only: if_True simp_thms)
  with 1 assms(1) show ?thesis by (simp add: modperl_init_clones_def del: init_clones_loop.simps)
qed

section \<open>An instance\<close>

definition demo_start_env :: start_env where
  "demo_start_env = \<lparr>base = 0, vhosts = [1, 2, 3, 4], has_scfg = (\<lambda>s. True), is_virtual = (\<lambda>s. s \<noteq> 0), enable = (\<lambda>s. s \<noteq> 4),
     parent_flag = (\<lambda>s. s = 1), clone_flag = (\<lambda>s. s = 2), pool_start = (\<lambda>s. 3), parse_ok = (\<lambda>s. True),
     require_ok = (\<lambda>s. True), module_ok = (\<lambda>s. True), post_config_ok = (\<lambda>s. True), threaded_mpm = True\<rparr>"

definition demo_start_state :: start_state where
  "demo_start_state = \<lparr>init_status = 0, threads_started = False, post_post_config = False, srv_mip = (\<lambda>s. None),
     pools = (\<lambda>m. \<lparr>pool_parent = 0, pool_size = 0, pool_idle = False\<rparr>), pool_brk = 0, perl_brk = 0, perl_context = None,
     sys_inits = 0, start_log = []\<rparr>"

lemma demo_start:
  "init_status demo_start_state = 0" "\<forall>s. srv_mip demo_start_state s = None" "distinct (vhosts demo_start_env)"
  "base demo_start_env \<notin> set (vhosts demo_start_env)" "loads demo_start_env (base demo_start_env)"
  "list_all (\<lambda>s. has_scfg demo_start_env s \<and> is_virtual demo_start_env s \<and> loads demo_start_env s) (vhosts demo_start_env)"
  by (simp_all add: demo_start_env_def demo_start_state_def loads_def)

theorem startup_pools_witness:
  "\<exists>st' m0 p0. modperl_hook_init demo_start_env demo_start_state = Inr (OK, st') \<and> srv_mip st' 0 = Some m0 \<and>
     list_all (\<lambda>s. host_ok demo_start_env m0 p0 s st') [1, 2, 3, 4] \<and> modperl_hook_init demo_start_env st' = Inr (OK, st')"
proof -
  have e: "base demo_start_env = 0" "vhosts demo_start_env = [1, 2, 3, 4]" by (simp_all add: demo_start_env_def)
  from startup_pools [OF demo_start] show ?thesis unfolding e by blast
qed

theorem disabled_vhost_crash_witness:
  "\<exists>st'. modperl_hook_init demo_start_env demo_start_state = Inr (OK, st') \<and>
     modperl_hook_post_config_last demo_start_env st' = Inl NullDeref"
  by (rule disabled_vhost_crash [OF demo_start, of 4])
     (simp_all add: demo_start_env_def modperl_post_config_require_def)

theorem startup_fill_once_witness:
  "\<exists>st' es. modperl_init_clones demo_start_env (demo_start_state\<lparr>srv_mip := (\<lambda>s. Some 7), pools := (\<lambda>m. \<lparr>pool_parent = 0, pool_size = 3, pool_idle = False\<rparr>)\<rparr>)
       = Inr st' \<and> start_log st' = es \<and> count_list es (PoolFilled 7) = 1 \<and> pool_idle (pools st' 7)"
proof -
  let ?st = "demo_start_state\<lparr>srv_mip := (\<lambda>s. Some 7), pools := (\<lambda>m. \<lparr>pool_parent = 0, pool_size = 3, pool_idle = False\<rparr>)\<rparr>"
  have "threaded_mpm demo_start_env" "start_log ?st = []" by (simp_all add: demo_start_env_def demo_start_state_def)
  with startup_fill_once [of demo_start_env ?st 7] show ?thesis by (simp del: init_clones_loop.simps)
qed

end
