(* ===== verification/Perl_Global.thy ===== *)
theory Perl_Global
  imports Env
begin

text \<open>
  The Perl globals that a \<open>perl-script\<close> request may change and gets back afterwards,
  \<^verbatim>\<open>src/src/modules/perl/modperl_perl_global.c\<close>: \<open>%ENV\<close>, \<open>@INC\<close>, \<open>$|\<close>, \<open>$/\<close> and the list of \<open>END\<close> blocks. They
  are saved in \<open>rcfg->perl_globals\<close> before the response handler and restored after it. \<open>END\<close> blocks compiled in between in a
  package registered with \<open>ModPerl::Global::special_list_register\<close> go to a list of their own.
\<close>

section \<open>State\<close>

text \<open>
  The globals of one interpreter. \<open>genv\<close> holds the hash that the glob of \<open>%ENV\<close> points to. \<open>PL_endav\<close> is \<open>None\<close> for a null
  pointer; \<open>end_magic\<close> is the name of the key its magic points to and \<open>end_smagical\<close> says that the magic is on. \<open>PL_modglobal\<close> maps a key to
  the hash of its packages.
\<close>

record ('t, 'e) gstate =
  genv :: "('t, 'e) env_state"
  inc_av :: "string list"
  PL_defoutgv :: nat
  io_flags :: "nat \<Rightarrow> 8 word"
  PL_rs :: string
  PL_endav :: "nat list option"
  end_magic :: "string option"
  end_smagical :: bool
  PL_modglobal :: "string \<Rightarrow> (string \<Rightarrow> nat list option) option"

type_synonym env_hv = "(string \<Rightarrow> (string \<times> bool) option) \<times> bool \<times> nat option"

record perl_globals =
  env_orighv :: env_hv
  inc_origav :: "string list"
  defout_gv :: nat
  defout_flags :: "8 word"
  rs_pv :: string
  rs_cur :: nat

definition perl_globals_zero :: perl_globals where
  "perl_globals_zero = \<lparr>env_orighv = (\<lambda>_. None, False, None), inc_origav = [], defout_gv = 0, defout_flags = 0,
     rs_pv = replicate 256 (CHR 0x00), rs_cur = 0\<rparr>"

definition modperl_perl_global_init :: "('t, 'e) gstate \<Rightarrow> perl_globals \<Rightarrow> perl_globals" where
  "modperl_perl_global_init st g = g\<lparr>defout_gv := PL_defoutgv st\<rparr>"

section \<open>Special lists\<close>

definition MP_modglobal_keys :: "(string \<times> string) list" where
  "MP_modglobal_keys = [(''END'', ''ModPerl::END''), (''ANONSUB'', ''ModPerl::ANONSUB'')]"

definition modperl_modglobal_lookup :: "string \<Rightarrow> string option" where
  "modperl_modglobal_lookup name = map_of MP_modglobal_keys name"

definition modperl_perl_global_avcv_fetch ::
    "string \<Rightarrow> string \<Rightarrow> bool \<Rightarrow> ('t, 'e) gstate \<Rightarrow> nat list option \<times> ('t, 'e) gstate" where
  "modperl_perl_global_avcv_fetch gkey package autovivify st =
     (if PL_modglobal st gkey = None \<and> \<not> autovivify then (None, st)
      else let hv = (case PL_modglobal st gkey of None \<Rightarrow> \<lambda>_. None | Some hv \<Rightarrow> hv);
               st1 = st\<lparr>PL_modglobal := (PL_modglobal st)(gkey \<mapsto> hv)\<rparr>
      in case hv package of
           Some av \<Rightarrow> (Some av, st1)
         | None \<Rightarrow> if autovivify then (Some [], st1\<lparr>PL_modglobal := (PL_modglobal st1)(gkey \<mapsto> hv(package \<mapsto> []))\<rparr>)
                   else (None, st1))"

text \<open>The array of a package is replaced by \<open>av\<close>.\<close>

definition avcv_put :: "string \<Rightarrow> string \<Rightarrow> nat list \<Rightarrow> ('t, 'e) gstate \<Rightarrow> ('t, 'e) gstate" where
  "avcv_put gkey package av st = (case PL_modglobal st gkey of
       None \<Rightarrow> st
     | Some hv \<Rightarrow> st\<lparr>PL_modglobal := (PL_modglobal st)(gkey \<mapsto> hv(package \<mapsto> av))\<rparr>)"

definition modperl_perl_global_avcv_register :: "string \<Rightarrow> string \<Rightarrow> ('t, 'e) gstate \<Rightarrow> ('t, 'e) gstate" where
  "modperl_perl_global_avcv_register gkey package st = snd (modperl_perl_global_avcv_fetch gkey package True st)"

definition modperl_perl_global_avcv_clear :: "string \<Rightarrow> string \<Rightarrow> ('t, 'e) gstate \<Rightarrow> ('t, 'e) gstate" where
  "modperl_perl_global_avcv_clear gkey package st = (case modperl_perl_global_avcv_fetch gkey package False st of
       (None, st') \<Rightarrow> st' | (Some _, st') \<Rightarrow> avcv_put gkey package [] st')"

text \<open>
  \<open>modperl_perl_call_list\<close> (\<^verbatim>\<open>modperl_util.c\<close>): \<open>call\<close> calls one subroutine under \<open>G_EVAL\<close> and returns \<open>$@\<close>. The subroutines do not
  change the list that is being called. The first failure ends the queue with an exception.
\<close>

primrec modperl_perl_call_list ::
    "(nat \<Rightarrow> 's \<Rightarrow> string \<times> 's) \<Rightarrow> string \<Rightarrow> nat list \<Rightarrow> 's \<Rightarrow> string option \<times> 's" where
  "modperl_perl_call_list call name [] st = (None, st)"
| "modperl_perl_call_list call name (cv # cvs) st =
     (case call cv st of (atsv, st') \<Rightarrow>
        if atsv \<noteq> [] then (Some (atsv @ name @ '' failed--call queue aborted''), st')
        else modperl_perl_call_list call name cvs st')"

definition modperl_perl_global_avcv_call ::
    "(nat \<Rightarrow> ('t, 'e) gstate \<Rightarrow> string \<times> ('t, 'e) gstate) \<Rightarrow> string \<Rightarrow> string \<Rightarrow> string \<Rightarrow> ('t, 'e) gstate
      \<Rightarrow> string option \<times> ('t, 'e) gstate" where
  "modperl_perl_global_avcv_call call name gkey package st = (case modperl_perl_global_avcv_fetch gkey package False st of
       (None, st') \<Rightarrow> (None, st') | (Some av, st') \<Rightarrow> modperl_perl_call_list call name av st')"

text \<open>\<open>PL_endav\<close> at the end of an interpreter (\<^verbatim>\<open>modperl_perl.c\<close>).\<close>

definition modperl_perl_call_endav ::
    "(nat \<Rightarrow> ('t, 'e) gstate \<Rightarrow> string \<times> ('t, 'e) gstate) \<Rightarrow> ('t, 'e) gstate \<Rightarrow> string option \<times> ('t, 'e) gstate" where
  "modperl_perl_call_endav call st = (case PL_endav st of
       None \<Rightarrow> (None, st) | Some av \<Rightarrow> modperl_perl_call_list call ''END'' av st)"

text \<open>The methods of \<open>ModPerl::Global\<close> (\<^verbatim>\<open>src/xs/ModPerl/Global/ModPerl__Global.h\<close>).\<close>

definition mpxs_special_list_do :: "string \<Rightarrow> (string \<Rightarrow> 's \<Rightarrow> 's) \<Rightarrow> 's \<Rightarrow> bool \<times> 's" where
  "mpxs_special_list_do name f st = (case modperl_modglobal_lookup name of None \<Rightarrow> (False, st) | Some gkey \<Rightarrow> (True, f gkey st))"

definition special_list_register :: "string \<Rightarrow> string \<Rightarrow> ('t, 'e) gstate \<Rightarrow> bool \<times> ('t, 'e) gstate" where
  "special_list_register name package = mpxs_special_list_do name (\<lambda>gkey. modperl_perl_global_avcv_register gkey package)"

definition special_list_clear :: "string \<Rightarrow> string \<Rightarrow> ('t, 'e) gstate \<Rightarrow> bool \<times> ('t, 'e) gstate" where
  "special_list_clear name package = mpxs_special_list_do name (\<lambda>gkey. modperl_perl_global_avcv_clear gkey package)"

text \<open>The set magic of \<open>PL_endav\<close>, called when Perl has put a subroutine in front of the list.\<close>

definition modperl_perl_global_avcv_set :: "string \<Rightarrow> string \<Rightarrow> ('t, 'e) gstate \<Rightarrow> ('t, 'e) gstate res" where
  "modperl_perl_global_avcv_set gkey curstash st = (case modperl_perl_global_avcv_fetch gkey curstash False st of
       (None, st') \<Rightarrow> Inr st'
     | (Some mav, st') \<Rightarrow> (case PL_endav st' of
           None \<Rightarrow> Inl NullDeref
         | Some [] \<Rightarrow> Inl OutOfBounds
         | Some (sv # rest) \<Rightarrow> Inr (avcv_put gkey curstash (mav @ [sv]) (st'\<lparr>PL_endav := Some rest\<rparr>))))"

definition modperl_perl_global_avcv_tie :: "string \<Rightarrow> ('t, 'e) gstate \<Rightarrow> ('t, 'e) gstate" where
  "modperl_perl_global_avcv_tie key st =
     st\<lparr>end_magic := (case end_magic st of None \<Rightarrow> Some key | Some k \<Rightarrow> Some k), end_smagical := True\<rparr>"

definition modperl_perl_global_avcv_untie :: "('t, 'e) gstate \<Rightarrow> ('t, 'e) gstate" where
  "modperl_perl_global_avcv_untie st = st\<lparr>end_smagical := False\<rparr>"

section \<open>Saving and restoring each kind of global\<close>

definition modperl_perl_global_avcv_save :: "('t, 'e) gstate \<Rightarrow> ('t, 'e) gstate" where
  "modperl_perl_global_avcv_save st =
     modperl_perl_global_avcv_tie ''ModPerl::END''
       (st\<lparr>PL_endav := Some (case PL_endav st of None \<Rightarrow> [] | Some av \<Rightarrow> av)\<rparr>)"

definition modperl_perl_global_avcv_restore :: "('t, 'e) gstate \<Rightarrow> ('t, 'e) gstate res" where
  "modperl_perl_global_avcv_restore st =
     (if PL_endav st = None then Inl NullDeref else Inr (modperl_perl_global_avcv_untie st))"

text \<open>
  \<open>copyENV\<close>: the copy has the same keys and values; \<open>ct\<close> says which values of a hash Perl marks as tainted when it copies them. The
  copy of an empty hash gets no magic.
\<close>

type_synonym copy_taint = "(string \<Rightarrow> (string \<times> bool) option) \<Rightarrow> string \<Rightarrow> bool"

definition copyENV :: "copy_taint \<Rightarrow> (string \<Rightarrow> (string \<times> bool) option) \<Rightarrow> env_hv" where
  "copyENV ct ohv = (\<lambda>k. map_option (\<lambda>v. (fst v, ct ohv k)) (ohv k), ohv \<noteq> (\<lambda>_. None), None)"

definition get_env_hv :: "('t, 'e) gstate \<Rightarrow> env_hv" where
  "get_env_hv st = (envhv (genv st), env_mg_ok (genv st), env_mg_obj (genv st))"

definition set_env_hv :: "env_hv \<Rightarrow> ('t, 'e) gstate \<Rightarrow> ('t, 'e) gstate" where
  "set_env_hv h st = st\<lparr>genv := (genv st)\<lparr>envhv := fst h, env_mg_ok := fst (snd h), env_mg_obj := snd (snd h)\<rparr>\<rparr>"

definition modperl_perl_global_gvhv_save ::
    "copy_taint \<Rightarrow> ('t, 'e) gstate \<times> perl_globals \<Rightarrow> ('t, 'e) gstate \<times> perl_globals" where
  "modperl_perl_global_gvhv_save ct = (\<lambda>(st, g).
     (set_env_hv (copyENV ct (envhv (genv st))) st, g\<lparr>env_orighv := get_env_hv st\<rparr>))"

definition modperl_perl_global_gvhv_restore :: "perl_globals \<Rightarrow> ('t, 'e) gstate \<Rightarrow> ('t, 'e) gstate" where
  "modperl_perl_global_gvhv_restore g st = set_env_hv (env_orighv g) st"

text \<open>
  \<open>modperl_perl_av_push_elts_ref\<close> (\<^verbatim>\<open>modperl_util.c\<close>): an array is the list of its elements and the number of slots
  allocated for it. \<open>av_extend\<close> is asked for as many slots as the source has elements, whatever is in the destination already.
\<close>

definition modperl_perl_av_push_elts_ref :: "'a list \<times> nat \<Rightarrow> 'a list \<Rightarrow> ('a list \<times> nat) res" where
  "modperl_perl_av_push_elts_ref = (\<lambda>(dst, slots) src.
     let slots' = (if slots < length src then length src else slots)
     in if slots' < length dst + length src then Inl OutOfBounds else Inr (dst @ src, slots'))"

definition modperl_perl_global_gvav_save ::
    "('t, 'e) gstate \<times> perl_globals \<Rightarrow> (('t, 'e) gstate \<times> perl_globals) res" where
  "modperl_perl_global_gvav_save = (\<lambda>(st, g).
     and_then (modperl_perl_av_push_elts_ref ([], 0) (inc_av st)) (\<lambda>(tmpav, _).
       Inr (st\<lparr>inc_av := tmpav\<rparr>, g\<lparr>inc_origav := inc_av st\<rparr>)))"

definition modperl_perl_global_gvav_restore :: "perl_globals \<Rightarrow> ('t, 'e) gstate \<Rightarrow> ('t, 'e) gstate" where
  "modperl_perl_global_gvav_restore g st = st\<lparr>inc_av := inc_origav g\<rparr>"

definition modperl_perl_global_gvio_save ::
    "('t, 'e) gstate \<times> perl_globals \<Rightarrow> ('t, 'e) gstate \<times> perl_globals" where
  "modperl_perl_global_gvio_save = (\<lambda>(st, g). (st, g\<lparr>defout_flags := io_flags st (defout_gv g)\<rparr>))"

definition modperl_perl_global_gvio_restore :: "perl_globals \<Rightarrow> ('t, 'e) gstate \<Rightarrow> ('t, 'e) gstate" where
  "modperl_perl_global_gvio_restore g st = st\<lparr>io_flags := (io_flags st)(defout_gv g := defout_flags g)\<rparr>"

text \<open>\<open>strncpy\<close> stops at the first null character and fills the rest of the \<open>n\<close> bytes with null characters.\<close>

definition strncpy :: "nat \<Rightarrow> string \<Rightarrow> string" where
  "strncpy n s = take n (takeWhile (\<lambda>c. c \<noteq> CHR 0x00) s @ replicate n (CHR 0x00))"

definition modperl_perl_global_svpv_save ::
    "('t, 'e) gstate \<times> perl_globals \<Rightarrow> ('t, 'e) gstate \<times> perl_globals" where
  "modperl_perl_global_svpv_save = (\<lambda>(st, g). (st, g\<lparr>rs_cur := length (PL_rs st), rs_pv := strncpy 256 (PL_rs st)\<rparr>))"

definition modperl_perl_global_svpv_restore :: "perl_globals \<Rightarrow> ('t, 'e) gstate \<Rightarrow> ('t, 'e) gstate res" where
  "modperl_perl_global_svpv_restore g st =
     (if length (rs_pv g) < rs_cur g then Inl OutOfBounds else Inr (st\<lparr>PL_rs := take (rs_cur g) (rs_pv g)\<rparr>))"

section \<open>The table of globals\<close>

datatype global_type = GLOBAL_AVCV | GLOBAL_GVHV | GLOBAL_GVAV | GLOBAL_GVIO | GLOBAL_SVPV

definition MP_perl_global_entries :: "(string \<times> global_type) list" where
  "MP_perl_global_entries = [(''END'', GLOBAL_AVCV), (''ENV'', GLOBAL_GVHV), (''INC'', GLOBAL_GVAV), (''STDOUT'', GLOBAL_GVIO),
     (''/'', GLOBAL_SVPV)]"

fun global_save :: "copy_taint \<Rightarrow> global_type \<Rightarrow> ('t, 'e) gstate \<times> perl_globals \<Rightarrow> (('t, 'e) gstate \<times> perl_globals) res" where
  "global_save ct GLOBAL_AVCV s = Inr (modperl_perl_global_avcv_save (fst s), snd s)"
| "global_save ct GLOBAL_GVHV s = Inr (modperl_perl_global_gvhv_save ct s)"
| "global_save ct GLOBAL_GVAV s = modperl_perl_global_gvav_save s"
| "global_save ct GLOBAL_GVIO s = Inr (modperl_perl_global_gvio_save s)"
| "global_save ct GLOBAL_SVPV s = Inr (modperl_perl_global_svpv_save s)"

fun global_restore :: "global_type \<Rightarrow> perl_globals \<Rightarrow> ('t, 'e) gstate \<Rightarrow> ('t, 'e) gstate res" where
  "global_restore GLOBAL_AVCV g st = modperl_perl_global_avcv_restore st"
| "global_restore GLOBAL_GVHV g st = Inr (modperl_perl_global_gvhv_restore g st)"
| "global_restore GLOBAL_GVAV g st = Inr (modperl_perl_global_gvav_restore g st)"
| "global_restore GLOBAL_GVIO g st = Inr (modperl_perl_global_gvio_restore g st)"
| "global_restore GLOBAL_SVPV g st = modperl_perl_global_svpv_restore g st"

fun global_save_loop ::
    "copy_taint \<Rightarrow> (string \<times> global_type) list \<Rightarrow> ('t, 'e) gstate \<times> perl_globals \<Rightarrow> (('t, 'e) gstate \<times> perl_globals) res" where
  "global_save_loop ct [] s = Inr s"
| "global_save_loop ct (e # es) s = and_then (global_save ct (snd e) s) (global_save_loop ct es)"

fun global_restore_loop :: "(string \<times> global_type) list \<Rightarrow> perl_globals \<Rightarrow> ('t, 'e) gstate \<Rightarrow> ('t, 'e) gstate res" where
  "global_restore_loop [] g st = Inr st"
| "global_restore_loop (e # es) g st = and_then (global_restore (snd e) g st) (global_restore_loop es g)"

definition modperl_perl_global_request_save ::
    "copy_taint \<Rightarrow> ('t, 'e) gstate \<times> perl_globals \<Rightarrow> (('t, 'e) gstate \<times> perl_globals) res" where
  "modperl_perl_global_request_save ct = (\<lambda>(st, g).
     global_save_loop ct MP_perl_global_entries (st, modperl_perl_global_init st g))"

definition modperl_perl_global_request_restore :: "perl_globals \<Rightarrow> ('t, 'e) gstate \<Rightarrow> ('t, 'e) gstate res" where
  "modperl_perl_global_request_restore g st = global_restore_loop MP_perl_global_entries g st"

section \<open>Perl code between save and restore\<close>

datatype glob_op =
    EnvOp env_op
  | IncSet "string list"
  | SelectHandle nat
  | SetAutoflush bool
  | SetRS string
  | EndBlock string nat        \<comment> \<open>an \<open>END\<close> block is compiled in a package\<close>
  | ListRegister string string
  | ListClear string string

definition IOf_FLUSH :: "8 word" where "IOf_FLUSH = 4"

definition perl_end_block :: "string \<Rightarrow> nat \<Rightarrow> ('t, 'e) gstate \<Rightarrow> ('t, 'e) gstate res" where
  "perl_end_block package cv st =
     (let st1 = st\<lparr>PL_endav := Some (cv # (case PL_endav st of None \<Rightarrow> [] | Some av \<Rightarrow> av))\<rparr>
      in case end_magic st1 of
           Some key \<Rightarrow> if end_smagical st1 then modperl_perl_global_avcv_set key package st1 else Inr st1
         | None \<Rightarrow> Inr st1)"

fun glob_perl_op :: "('t, 'e) env_ops \<Rightarrow> glob_op \<Rightarrow> ('t, 'e) gstate \<Rightarrow> ('t, 'e) gstate res" where
  "glob_perl_op A (EnvOp x) st = and_then (env_perl_op A x (genv st)) (\<lambda>e. Inr (st\<lparr>genv := e\<rparr>))"
| "glob_perl_op A (IncSet xs) st = Inr (st\<lparr>inc_av := xs\<rparr>)"
| "glob_perl_op A (SelectHandle gv) st = Inr (st\<lparr>PL_defoutgv := gv\<rparr>)"
| "glob_perl_op A (SetAutoflush b) st =
     (let f = io_flags st (PL_defoutgv st)
      in Inr (st\<lparr>io_flags := (io_flags st)(PL_defoutgv st := (if b then f OR IOf_FLUSH else f AND NOT IOf_FLUSH))\<rparr>))"
| "glob_perl_op A (SetRS s) st = Inr (st\<lparr>PL_rs := s\<rparr>)"
| "glob_perl_op A (EndBlock package cv) st = perl_end_block package cv st"
| "glob_perl_op A (ListRegister name package) st = Inr (snd (special_list_register name package st))"
| "glob_perl_op A (ListClear name package) st = Inr (snd (special_list_clear name package st))"

fun glob_perl_ops :: "('t, 'e) env_ops \<Rightarrow> glob_op list \<Rightarrow> ('t, 'e) gstate \<Rightarrow> ('t, 'e) gstate res" where
  "glob_perl_ops A [] st = Inr st"
| "glob_perl_ops A (x # xs) st = and_then (glob_perl_op A x st) (glob_perl_ops A xs)"

section \<open>The globals come back\<close>

lemmas global_defs = modperl_perl_global_request_save_def modperl_perl_global_request_restore_def MP_perl_global_entries_def
  modperl_perl_global_init_def modperl_perl_global_avcv_save_def modperl_perl_global_avcv_tie_def
  modperl_perl_global_avcv_restore_def modperl_perl_global_avcv_untie_def modperl_perl_global_gvhv_save_def
  modperl_perl_global_gvhv_restore_def modperl_perl_global_gvav_save_def modperl_perl_global_gvav_restore_def
  modperl_perl_global_gvio_save_def modperl_perl_global_gvio_restore_def modperl_perl_global_svpv_save_def
  modperl_perl_global_svpv_restore_def

lemma push_elts_empty: "modperl_perl_av_push_elts_ref ([], 0) xs = Inr (xs, length xs)"
  by (simp add: modperl_perl_av_push_elts_ref_def)

lemma strncpy_length [simp]: "length (strncpy n s) = n"
  by (simp add: strncpy_def min_def)

lemma strncpy_take:
  assumes "CHR 0x00 \<notin> set s" "length s \<le> n"
  shows "take (length s) (strncpy n s) = s"
proof -
  have "takeWhile (\<lambda>c. c \<noteq> CHR 0x00) s = s" unfolding takeWhile_eq_all_conv using assms(1) by metis
  then have "strncpy n s = take n (s @ replicate n (CHR 0x00))" by (simp only: strncpy_def)
  then show ?thesis using assms(2) by (simp add: min_def)
qed

text \<open>What saving does.\<close>

definition saved_globals :: "('t, 'e) gstate \<Rightarrow> perl_globals" where
  "saved_globals st = \<lparr>env_orighv = get_env_hv st, inc_origav = inc_av st, defout_gv = PL_defoutgv st,
     defout_flags = io_flags st (PL_defoutgv st), rs_pv = strncpy 256 (PL_rs st), rs_cur = length (PL_rs st)\<rparr>"

lemma request_save_run:
  "modperl_perl_global_request_save ct (st, g) =
     Inr (set_env_hv (copyENV ct (envhv (genv st))) (modperl_perl_global_avcv_save st), saved_globals st)"
  by (simp add: global_defs push_elts_empty set_env_hv_def get_env_hv_def saved_globals_def )

text \<open>Perl code leaves the list of \<open>END\<close> blocks in place and its magic on.\<close>

lemma avcv_fetch_fields:
  assumes "modperl_perl_global_avcv_fetch gkey package av st = (x, st')"
  shows "PL_endav st' = PL_endav st" "end_magic st' = end_magic st" "end_smagical st' = end_smagical st"
    "genv st' = genv st" "inc_av st' = inc_av st" "PL_defoutgv st' = PL_defoutgv st" "io_flags st' = io_flags st" "PL_rs st' = PL_rs st"
  using assms by (auto simp: modperl_perl_global_avcv_fetch_def Let_def split: if_splits option.splits)

lemmas avcv_fetch_snd = avcv_fetch_fields [OF surjective_pairing]

lemma avcv_put_fields [simp]:
  "PL_endav (avcv_put gkey package xs st) = PL_endav st" "end_magic (avcv_put gkey package xs st) = end_magic st"
  "end_smagical (avcv_put gkey package xs st) = end_smagical st" "inc_av (avcv_put gkey package xs st) = inc_av st"
  "genv (avcv_put gkey package xs st) = genv st"
  by (simp_all add: avcv_put_def split: option.split)

definition end_tied :: "('t, 'e) gstate \<Rightarrow> bool" where
  "end_tied st \<longleftrightarrow> PL_endav st \<noteq> None \<and> end_smagical st \<and> end_magic st \<noteq> None"

lemma special_list_tied:
  "end_tied st \<Longrightarrow> end_tied (snd (special_list_register name package st))"
  "end_tied st \<Longrightarrow> end_tied (snd (special_list_clear name package st))"
proof -
  assume st: "end_tied st"
  have f: "end_tied (snd (modperl_perl_global_avcv_fetch gkey package b st))" for gkey b
    using st unfolding end_tied_def avcv_fetch_snd by blast
  then show "end_tied (snd (special_list_register name package st))"
    using st by (auto simp: special_list_register_def mpxs_special_list_do_def modperl_perl_global_avcv_register_def split: option.split)
  have "end_tied (modperl_perl_global_avcv_clear gkey package st)" for gkey
    using f [of gkey False]
    by (cases "modperl_perl_global_avcv_fetch gkey package False st")
      (auto simp: modperl_perl_global_avcv_clear_def end_tied_def split: option.split)
  then show "end_tied (snd (special_list_clear name package st))"
    using st by (auto simp: special_list_clear_def mpxs_special_list_do_def split: option.split)
qed

lemma perl_end_block_tied:
  assumes "end_tied st"
  shows "\<exists>st'. perl_end_block package cv st = Inr st' \<and> end_tied st'"
proof -
  define st1 where "st1 = st\<lparr>PL_endav := Some (cv # (case PL_endav st of None \<Rightarrow> [] | Some av \<Rightarrow> av))\<rparr>"
  obtain key where key: "end_magic st = Some key" using assms by (auto simp: end_tied_def)
  obtain m st2 where f: "modperl_perl_global_avcv_fetch key package False st1 = (m, st2)" by fastforce
  have s1: "end_magic st1 = Some key" "end_smagical st1" "\<exists>av. PL_endav st1 = Some (cv # av)"
    using assms key by (simp_all add: st1_def end_tied_def)
  with avcv_fetch_fields(1-3) [OF f] have s2: "end_magic st2 = Some key" "end_smagical st2" "\<exists>av. PL_endav st2 = Some (cv # av)"
    by simp_all
  have "perl_end_block package cv st = modperl_perl_global_avcv_set key package st1"
    using s1 by (simp add: perl_end_block_def st1_def [symmetric] Let_def)
  then show ?thesis using s2 by (cases m) (auto simp: modperl_perl_global_avcv_set_def f end_tied_def)
qed

lemma glob_ops_tied:
  assumes "end_tied st" "glob_perl_ops A xs st = Inr st'"
  shows "end_tied st'"
  using assms
proof (induction xs arbitrary: st)
  case (Cons x xs)
  from Cons.prems(2) obtain st1 where s1: "glob_perl_op A x st = Inr st1" "glob_perl_ops A xs st1 = Inr st'"
    by (auto simp: and_then_eq_Inr)
  have "end_tied st1"
  proof (cases x)
    case (EndBlock package cv)
    with s1(1) perl_end_block_tied [OF Cons.prems(1), of package cv] show ?thesis by auto
  next
    case (ListRegister name package)
    with s1(1) special_list_tied(1) [OF Cons.prems(1)] show ?thesis by auto
  next
    case (ListClear name package)
    with s1(1) special_list_tied(2) [OF Cons.prems(1)] show ?thesis by auto
  qed (use s1(1) Cons.prems(1) in \<open>auto simp: and_then_eq_Inr end_tied_def Let_def\<close>)
  with Cons.IH s1(2) show ?case by blast
qed simp

text \<open>Restoring what was saved, whatever the globals are now.\<close>

lemma request_restore_run:
  assumes "PL_endav st2 \<noteq> None" "CHR 0x00 \<notin> set (PL_rs st)" "length (PL_rs st) \<le> 256"
  shows "modperl_perl_global_request_restore (saved_globals st) st2 =
     Inr (set_env_hv (get_env_hv st) (st2\<lparr>end_smagical := False, inc_av := inc_av st,
       io_flags := (io_flags st2)(PL_defoutgv st := io_flags st (PL_defoutgv st)), PL_rs := PL_rs st\<rparr>))"
  using assms by (simp add: global_defs saved_globals_def strncpy_take set_env_hv_def get_env_hv_def)



section \<open>The blocks of a registered package\<close>

abbreviation END_KEY :: string where "END_KEY \<equiv> ''ModPerl::END''"

text \<open>The list of a package in \<open>PL_modglobal\<close>.\<close>

definition special_list :: "('t, 'e) gstate \<Rightarrow> string \<Rightarrow> nat list option" where
  "special_list st package = Option.bind (PL_modglobal st END_KEY) (\<lambda>hv. hv package)"

lemma fetch_special:
  "special_list st package = Some av \<Longrightarrow> modperl_perl_global_avcv_fetch END_KEY package b st = (Some av, st)"
  by (auto simp: special_list_def modperl_perl_global_avcv_fetch_def Let_def fun_upd_idem bind_eq_Some_conv)

lemma put_special:
  assumes "special_list st package = Some av"
  shows "special_list (avcv_put END_KEY package xs st) package = Some xs"
    "q \<noteq> package \<Longrightarrow> special_list (avcv_put END_KEY package xs st) q = special_list st q"
  using assms by (auto simp: special_list_def avcv_put_def bind_eq_Some_conv)

lemma end_block_registered:
  assumes "special_list st package = Some av" "PL_endav st = Some e" "end_smagical st" "end_magic st = Some END_KEY"
  shows "\<exists>st'. perl_end_block package cv st = Inr st' \<and> special_list st' package = Some (av @ [cv]) \<and>
     PL_endav st' = Some e \<and> end_smagical st' \<and> end_magic st' = Some END_KEY \<and>
     (\<forall>q. q \<noteq> package \<longrightarrow> special_list st' q = special_list st q)"
proof -
  define st1 where "st1 = st\<lparr>PL_endav := Some (cv # e)\<rparr>"
  define st2 where "st2 = st1\<lparr>PL_endav := Some e\<rparr>"
  have 1: "special_list st1 package = Some av" using assms(1) by (simp add: special_list_def st1_def)
  have 2: "special_list st2 package = Some av" "\<And>q. special_list st2 q = special_list st q"
    using assms(1) by (simp_all add: special_list_def st1_def st2_def)
  have "perl_end_block package cv st = modperl_perl_global_avcv_set END_KEY package st1"
    using assms(2-4) by (simp add: perl_end_block_def st1_def Let_def)
  also have "\<dots> = Inr (avcv_put END_KEY package (av @ [cv]) st2)"
    using fetch_special [OF 1, of False] by (simp add: modperl_perl_global_avcv_set_def st2_def) (simp add: st1_def)
  finally have "perl_end_block package cv st = Inr (avcv_put END_KEY package (av @ [cv]) st2)" .
  then show ?thesis using put_special [OF 2(1)] 2(2) assms(3,4) by (auto simp: st1_def st2_def)
qed

lemma end_blocks_registered:
  assumes "special_list st package = Some av" "PL_endav st = Some e" "end_smagical st" "end_magic st = Some END_KEY"
  shows "\<exists>st'. glob_perl_ops A (map (EndBlock package) cvs) st = Inr st' \<and> special_list st' package = Some (av @ cvs) \<and>
     PL_endav st' = Some e \<and> (\<forall>q. q \<noteq> package \<longrightarrow> special_list st' q = special_list st q)"
  using assms
proof (induction cvs arbitrary: st av)
  case (Cons cv cvs)
  from end_block_registered [OF Cons.prems, of cv] obtain st1 where st1: "perl_end_block package cv st = Inr st1"
    "special_list st1 package = Some (av @ [cv])" "PL_endav st1 = Some e" "end_smagical st1" "end_magic st1 = Some END_KEY"
    "\<forall>q. q \<noteq> package \<longrightarrow> special_list st1 q = special_list st q" by blast
  from Cons.IH [OF st1(2-5)] st1(1,6) show ?case by auto
qed simp

lemma register_special:
  "special_list (snd (special_list_register ''END'' package st)) package =
     Some (case special_list st package of None \<Rightarrow> [] | Some av \<Rightarrow> av)"
  "q \<noteq> package \<Longrightarrow> special_list (snd (special_list_register ''END'' package st)) q = special_list st q"
  by (auto simp: special_list_register_def mpxs_special_list_do_def modperl_modglobal_lookup_def MP_modglobal_keys_def
      modperl_perl_global_avcv_register_def modperl_perl_global_avcv_fetch_def special_list_def Let_def split: option.splits)

lemma clear_special:
  assumes "special_list st package = Some av"
  shows "special_list (snd (special_list_clear ''END'' package st)) package = Some []"
    "q \<noteq> package \<Longrightarrow> special_list (snd (special_list_clear ''END'' package st)) q = special_list st q"
  using assms
  by (auto simp: special_list_clear_def mpxs_special_list_do_def modperl_modglobal_lookup_def MP_modglobal_keys_def
      modperl_perl_global_avcv_clear_def fetch_special put_special)

lemma special_list_endav:
  "PL_endav (snd (special_list_register name package st)) = PL_endav st"
  "end_smagical (snd (special_list_register name package st)) = end_smagical st"
  "end_magic (snd (special_list_register name package st)) = end_magic st"
  "PL_endav (snd (special_list_clear name package st)) = PL_endav st"
  "end_smagical (snd (special_list_clear name package st)) = end_smagical st"
  "end_magic (snd (special_list_clear name package st)) = end_magic st"
  by (auto simp: special_list_register_def special_list_clear_def mpxs_special_list_do_def avcv_fetch_snd
      modperl_perl_global_avcv_register_def modperl_perl_global_avcv_clear_def dest: avcv_fetch_fields split: option.split prod.split)

text \<open>
  The \<open>END\<close> blocks that a script compiled in its registered package contains are kept from Perl and called in the
  order they were compiled, each time the special list of the package is called; other packages and \<open>PL_endav\<close> are untouched.
\<close>

theorem perl_end_blocks_set_aside:
  assumes "modperl_perl_global_request_save ct (st, g0) = Inr (st1, g)" "end_magic st \<in> {None, Some END_KEY}"
  shows "\<exists>st2. glob_perl_ops A (ListRegister ''END'' package # ListClear ''END'' package # map (EndBlock package) cvs) st1 = Inr st2 \<and>
     modperl_perl_global_avcv_call call ''END'' END_KEY package st2 = modperl_perl_call_list call ''END'' cvs st2 \<and>
     PL_endav st2 = Some (case PL_endav st of None \<Rightarrow> [] | Some av \<Rightarrow> av) \<and>
     (\<forall>q. q \<noteq> package \<longrightarrow> special_list st2 q = special_list st q)"
proof -
  have st1: "PL_endav st1 = Some (case PL_endav st of None \<Rightarrow> [] | Some av \<Rightarrow> av)" "end_smagical st1" "end_magic st1 = Some END_KEY"
      "\<And>q. special_list st1 q = special_list st q"
    using assms by (auto simp: request_save_run set_env_hv_def modperl_perl_global_avcv_save_def modperl_perl_global_avcv_tie_def
        special_list_def)
  let ?s = "snd (special_list_clear ''END'' package (snd (special_list_register ''END'' package st1)))"
  have sl: "special_list ?s package = Some []" "\<And>q. q \<noteq> package \<Longrightarrow> special_list ?s q = special_list st q"
    by (simp_all add: clear_special [OF register_special(1)] register_special(2) st1)
  have "PL_endav ?s = PL_endav st1" "end_smagical ?s" "end_magic ?s = Some END_KEY"
    using st1 by (simp_all add: special_list_endav)
  from end_blocks_registered [OF sl(1) this(1) [unfolded st1(1)] this(2,3), of A cvs] sl(2) st1(1) show ?thesis
    by (auto simp: modperl_perl_global_avcv_call_def fetch_special)
qed

text \<open>
  A second \<open>perl-script\<close> request inside the first, a subrequest, saves and restores its own globals. Restoring switches the magic of
  \<open>PL_endav\<close> off, although the outer request is still running: blocks that it compiles afterwards go to Perl, registered or not.
\<close>

theorem perl_end_untied_by_subrequest:
  assumes "modperl_perl_global_request_save ct (st, g0) = Inr (st1, g)" "modperl_perl_global_request_save ct (st1, h0) = Inr (st2, h)"
    and "modperl_perl_global_request_restore h st2 = Inr st3"
  shows "\<exists>st4. perl_end_block package cv st3 = Inr st4 \<and>
     PL_endav st4 = Some (cv # (case PL_endav st of None \<Rightarrow> [] | Some av \<Rightarrow> av))"
proof -
  have s: "st1 = set_env_hv (copyENV ct (envhv (genv st))) (modperl_perl_global_avcv_save st)"
    "st2 = set_env_hv (copyENV ct (envhv (genv st1))) (modperl_perl_global_avcv_save st1)"
    using assms(1,2) by (simp_all add: request_save_run)
  have "PL_endav st2 = Some (case PL_endav st of None \<Rightarrow> [] | Some av \<Rightarrow> av)"
    by (simp add: s set_env_hv_def modperl_perl_global_avcv_save_def modperl_perl_global_avcv_tie_def)
  moreover have "PL_endav st3 = PL_endav st2" "\<not> end_smagical st3"
    using assms(3) by (auto simp: global_defs set_env_hv_def and_then_eq_Inr split: if_splits)
  ultimately show ?thesis by (auto simp: perl_end_block_def Let_def split: option.split)
qed

section \<open>Witnesses\<close>

definition demo_gstate :: "((string \<times> string) list, string \<Rightarrow> string option) gstate" where
  "demo_gstate = \<lparr>genv = demo_env_state, inc_av = [''/usr/lib/perl5''], PL_defoutgv = 0, io_flags = (\<lambda>_. 0), PL_rs = [CHR 0x0A],
     PL_endav = None, end_magic = None, end_smagical = False, PL_modglobal = (\<lambda>_. None)\<rparr>"


theorem perl_end_blocks_set_aside_witness:
  "\<exists>st1 g st2. modperl_perl_global_request_save (\<lambda>_ _. False) (demo_gstate, perl_globals_zero) = Inr (st1, g) \<and>
     glob_perl_ops demo_env_ops (ListRegister ''END'' ''A'' # ListClear ''END'' ''A'' # map (EndBlock ''A'') [1, 2]) st1 = Inr st2 \<and>
     PL_endav st2 = Some []"
proof -
  obtain st1 g where 1: "modperl_perl_global_request_save (\<lambda>_ _. False) (demo_gstate, perl_globals_zero) = Inr (st1, g)"
    by (simp add: request_save_run)
  from perl_end_blocks_set_aside [OF 1, of demo_env_ops "''A''" "[1, 2]"] 1 show ?thesis
    by (auto simp: demo_gstate_def)
qed

theorem perl_end_untied_by_subrequest_witness:
  "\<exists>st1 g st2 h st3 st4. modperl_perl_global_request_save (\<lambda>_ _. False) (demo_gstate, perl_globals_zero) = Inr (st1, g) \<and>
     modperl_perl_global_request_save (\<lambda>_ _. False) (st1, perl_globals_zero) = Inr (st2, h) \<and>
     modperl_perl_global_request_restore h st2 = Inr st3 \<and> perl_end_block ''A'' 7 st3 = Inr st4 \<and> PL_endav st4 = Some [7]"
proof -
  obtain st1 g where 1: "modperl_perl_global_request_save (\<lambda>_ _. False) (demo_gstate, perl_globals_zero) = Inr (st1, g)"
    by (simp add: request_save_run)
  obtain st2 h where 2: "modperl_perl_global_request_save (\<lambda>_ _. False) (st1, perl_globals_zero) = Inr (st2, h)"
    by (simp add: request_save_run)
  have "PL_endav st2 \<noteq> None" "h = saved_globals st1" "PL_rs st1 = [CHR 0x0A]"
    using 1 2 by (auto simp: request_save_run set_env_hv_def modperl_perl_global_avcv_save_def modperl_perl_global_avcv_tie_def demo_gstate_def)
  then obtain st3 where 3: "modperl_perl_global_request_restore h st2 = Inr st3" using request_restore_run [of st2 st1] by auto
  from perl_end_untied_by_subrequest [OF 1 2 3, of "''A''" 7] 1 2 3 show ?thesis by (auto simp: demo_gstate_def)
qed

end
