(* ===== verification/Global_Request.thy ===== *)
theory Global_Request
  imports Prelude
begin

text \<open>
  The global request object, \<^verbatim>\<open>src/src/modules/perl/modperl_global.c\<close>: \<open>Apache2::RequestUtil->request\<close> is a pointer that each thread
  keeps for itself. Setting it registers a cleanup on the pool of the request that puts the old value back. The second part is
  how the methods of the request object find their request (\<^verbatim>\<open>modperl_util.c\<close>).

  A request is a number, \<open>None\<close> is \<open>NULL\<close>. The cleanups of a pool are kept newest first, the order in which APR runs them.
\<close>

section \<open>State\<close>

record tls_state =
  MP_tls_request_rec :: "nat \<Rightarrow> nat option"        \<comment> \<open>the pointer of each thread\<close>
  tls_created :: bool
  SET_GLOBAL_REQUEST :: "nat \<Rightarrow> bool"              \<comment> \<open>\<open>MpReqSET_GLOBAL_REQUEST\<close> of each request\<close>
  tls_cleanups :: "nat \<Rightarrow> nat option list"         \<comment> \<open>the registered \<open>modperl_tls_reset\<close> of the pool of each request\<close>
  anon_cnt :: int

section \<open>Thread-local data\<close>

definition modperl_tls_create :: "tls_state \<Rightarrow> tls_state" where
  "modperl_tls_create st = st\<lparr>tls_created := True, MP_tls_request_rec := (\<lambda>_. None)\<rparr>"

definition modperl_tls_get :: "nat \<Rightarrow> tls_state \<Rightarrow> nat option" where
  "modperl_tls_get t st = (if tls_created st then MP_tls_request_rec st t else None)"

definition modperl_tls_set :: "nat \<Rightarrow> nat option \<Rightarrow> tls_state \<Rightarrow> tls_state" where
  "modperl_tls_set t data st = st\<lparr>MP_tls_request_rec := (MP_tls_request_rec st)(t := data)\<rparr>"

definition modperl_tls_reset :: "nat \<Rightarrow> nat option \<Rightarrow> tls_state \<Rightarrow> tls_state" where
  "modperl_tls_reset t data st = modperl_tls_set t data st"

definition modperl_tls_reset_cleanup :: "nat \<Rightarrow> nat option \<Rightarrow> tls_state \<Rightarrow> tls_state" where
  "modperl_tls_reset_cleanup p data st = st\<lparr>tls_cleanups := (tls_cleanups st)(p := data # tls_cleanups st p)\<rparr>"

section \<open>Getting and setting the request\<close>

definition modperl_global_request_set :: "nat \<Rightarrow> nat \<Rightarrow> tls_state \<Rightarrow> tls_state" where
  "modperl_global_request_set t r st =
     (let old_r = modperl_tls_get t st;
          st1 = modperl_tls_set t (Some r) (modperl_tls_reset_cleanup r old_r st)
      in st1\<lparr>SET_GLOBAL_REQUEST := (SET_GLOBAL_REQUEST st1)(r := True)\<rparr>)"

text \<open>\<open>dir_flag\<close> is \<open>MpDirGLOBAL_REQUEST\<close>.\<close>

definition modperl_global_request_cfg_set :: "nat \<Rightarrow> bool \<Rightarrow> nat \<Rightarrow> tls_state \<Rightarrow> tls_state" where
  "modperl_global_request_cfg_set t dir_flag r st =
     (if dir_flag \<and> \<not> SET_GLOBAL_REQUEST st r then modperl_global_request_set t r st else st)"

text \<open>\<open>svr\<close> is the request of the argument, if there is one; \<open>void\<close> is the void context.\<close>

definition modperl_global_request :: "nat \<Rightarrow> bool \<Rightarrow> nat option \<Rightarrow> tls_state \<Rightarrow> (nat option \<times> tls_state) res" where
  "modperl_global_request t void svr st =
     (let cur = modperl_tls_get t st in
      if \<not> void \<and> cur = None
      then Inl (Croak ''Global $r object is not available. Set: PerlOptions +GlobalRequest in httpd.conf'')
      else Inr (cur, case svr of None \<Rightarrow> st | Some r \<Rightarrow> modperl_global_request_set t r st))"

definition modperl_global_anon_cnt_next :: "tls_state \<Rightarrow> int \<times> tls_state" where
  "modperl_global_anon_cnt_next st = (anon_cnt st + 1, st\<lparr>anon_cnt := anon_cnt st + 1\<rparr>)"

section \<open>Requests and subrequests of a thread\<close>

text \<open>
  A request runs Perl code, which sets the global request, and subrequests; when it is over its pool is destroyed and the
  cleanups run. \<open>SetTo\<close> is \<open>Apache2::RequestUtil->request($other)\<close>, in void context, for another request.
\<close>

datatype req_act =
    CfgSet bool              \<comment> \<open>the \<open>post_read_request\<close> and \<open>header_parser\<close> hooks\<close>
  | SetCurrent               \<comment> \<open>a \<open>perl-script\<close> handler starts, or Perl code sets the request it works on\<close>
  | SetTo nat
  | Sub nat "req_act list"

definition pool_destroy :: "nat \<Rightarrow> nat \<Rightarrow> tls_state \<Rightarrow> tls_state" where
  "pool_destroy t p st = (fold (modperl_tls_reset t) (tls_cleanups st p) st)\<lparr>tls_cleanups := (tls_cleanups st)(p := [])\<rparr>"

definition create_request :: "nat \<Rightarrow> tls_state \<Rightarrow> tls_state" where
  "create_request r st = st\<lparr>SET_GLOBAL_REQUEST := (SET_GLOBAL_REQUEST st)(r := False)\<rparr>"

fun run_act :: "nat \<Rightarrow> nat \<Rightarrow> req_act \<Rightarrow> tls_state \<Rightarrow> tls_state"
  and run_acts :: "nat \<Rightarrow> nat \<Rightarrow> req_act list \<Rightarrow> tls_state \<Rightarrow> tls_state" where
  "run_act t r (CfgSet b) st = modperl_global_request_cfg_set t b r st"
| "run_act t r SetCurrent st = modperl_global_request_set t r st"
| "run_act t r (SetTo r') st = modperl_global_request_set t r' st"
| "run_act t r (Sub r' acts) st = pool_destroy t r' (run_acts t r' acts (create_request r' st))"
| "run_acts t r [] st = st"
| "run_acts t r (a # as) st = run_acts t r as (run_act t r a st)"

text \<open>Requests have pools of their own, and code sets the request it works on only.\<close>

fun act_reqs :: "req_act \<Rightarrow> nat list" and acts_reqs :: "req_act list \<Rightarrow> nat list" where
  "act_reqs (CfgSet b) = []"
| "act_reqs SetCurrent = []"
| "act_reqs (SetTo r') = []"
| "act_reqs (Sub r' acts) = r' # acts_reqs acts"
| "acts_reqs [] = []"
| "acts_reqs (a # as) = act_reqs a @ acts_reqs as"

fun act_local :: "req_act \<Rightarrow> bool" and acts_local :: "req_act list \<Rightarrow> bool" where
  "act_local (CfgSet b) \<longleftrightarrow> True"
| "act_local SetCurrent \<longleftrightarrow> True"
| "act_local (SetTo r') \<longleftrightarrow> False"
| "act_local (Sub r' acts) \<longleftrightarrow> r' \<notin> set (acts_reqs acts) \<and> acts_local acts"
| "acts_local [] \<longleftrightarrow> True"
| "acts_local (a # as) \<longleftrightarrow> act_local a \<and> acts_local as"

lemma fold_reset:
  "fold (modperl_tls_reset t) xs st = (if xs = [] then st else modperl_tls_set t (last xs) st)"
  by (induction xs arbitrary: st) (auto simp: modperl_tls_reset_def modperl_tls_set_def)

text \<open>
  Where a thread stands in request \<open>r\<close>: \<open>v\<close> is the value it had before. As long as nothing was set, it has that value; then
  it has \<open>r\<close>, and the oldest cleanup of the pool of \<open>r\<close> puts \<open>v\<close> back.
\<close>

definition at_request :: "nat \<Rightarrow> nat \<Rightarrow> nat option \<Rightarrow> tls_state \<Rightarrow> bool" where
  "at_request t r v st \<longleftrightarrow> tls_created st \<and>
     (if tls_cleanups st r = [] then MP_tls_request_rec st t = v
      else MP_tls_request_rec st t = Some r \<and> last (tls_cleanups st r) = v)"

definition others_same :: "nat \<Rightarrow> nat set \<Rightarrow> tls_state \<Rightarrow> tls_state \<Rightarrow> bool" where
  "others_same t R st st' \<longleftrightarrow> tls_created st' = tls_created st \<and>
     (\<forall>u. u \<noteq> t \<longrightarrow> MP_tls_request_rec st' u = MP_tls_request_rec st u) \<and>
     (\<forall>p. p \<notin> R \<longrightarrow> tls_cleanups st' p = tls_cleanups st p)"

lemma set_at_request:
  assumes "at_request t r v st"
  shows "at_request t r v (modperl_global_request_set t r st)" "others_same t {r} st (modperl_global_request_set t r st)"
  using assms by (auto simp: at_request_def others_same_def modperl_global_request_set_def modperl_tls_get_def modperl_tls_set_def
      modperl_tls_reset_cleanup_def Let_def split: if_splits)

lemma others_same_refl [simp]: "others_same t R st st"
  by (simp add: others_same_def)

lemma others_same_trans:
  "others_same t R st st1 \<Longrightarrow> others_same t S st1 st2 \<Longrightarrow> R \<subseteq> U \<Longrightarrow> S \<subseteq> U \<Longrightarrow> others_same t U st st2"
  unfolding others_same_def by (metis subsetD)

lemma destroy_at_request:
  assumes "at_request t r v st"
  shows "MP_tls_request_rec (pool_destroy t r st) t = v" "tls_cleanups (pool_destroy t r st) r = []"
    "others_same t {r} st (pool_destroy t r st)"
  using assms by (auto simp: at_request_def pool_destroy_def fold_reset others_same_def modperl_tls_set_def split: if_splits)

lemma run_local:
  "act_local a \<Longrightarrow> at_request t r v st \<Longrightarrow> r \<notin> set (act_reqs a) \<Longrightarrow> \<forall>p\<in>set (act_reqs a). tls_cleanups st p = [] \<Longrightarrow>
     at_request t r v (run_act t r a st) \<and> others_same t (insert r (set (act_reqs a))) st (run_act t r a st) \<and>
     (\<forall>p\<in>set (act_reqs a). tls_cleanups (run_act t r a st) p = [])"
  "acts_local as \<Longrightarrow> at_request t r v st \<Longrightarrow> r \<notin> set (acts_reqs as) \<Longrightarrow> \<forall>p\<in>set (acts_reqs as). tls_cleanups st p = [] \<Longrightarrow>
     at_request t r v (run_acts t r as st) \<and> others_same t (insert r (set (acts_reqs as))) st (run_acts t r as st) \<and>
     (\<forall>p\<in>set (acts_reqs as). tls_cleanups (run_acts t r as st) p = [])"
proof (induction t r a st and t r as st arbitrary: v and v rule: run_act_run_acts.induct)
  case (1 t r b st)
  then show ?case using set_at_request [of t r v st] by (simp add: modperl_global_request_cfg_set_def)
next
  case (2 t r st)
  then show ?case using set_at_request [of t r v st] by simp
next
  case (3 t r r' st)
  then show ?case by simp
next
  case (4 t r r' acts st)
  let ?s0 = "create_request r' st"
  let ?s1 = "run_acts t r' acts ?s0"
  have c: "tls_cleanups ?s0 = tls_cleanups st" "MP_tls_request_rec ?s0 = MP_tls_request_rec st" "tls_created ?s0 = tls_created st"
    by (simp_all add: create_request_def)
  have "at_request t r' (MP_tls_request_rec st t) ?s0" using 4 c by (simp add: at_request_def)
  then have s1: "at_request t r' (MP_tls_request_rec st t) ?s1" "others_same t (insert r' (set (acts_reqs acts))) ?s0 ?s1"
      "\<forall>p\<in>set (acts_reqs acts). tls_cleanups ?s1 p = []"
    using 4 c by auto
  note d = destroy_at_request [OF s1(1)]
  have same: "others_same t (insert r' (set (acts_reqs acts))) st (pool_destroy t r' ?s1)"
    using s1(2) d(3) c by (auto simp: others_same_def)
  have "\<forall>p\<in>set (acts_reqs acts). tls_cleanups (pool_destroy t r' ?s1) p = []"
    using s1(3) by (simp add: pool_destroy_def)
  moreover have "at_request t r v (pool_destroy t r' ?s1)"
    using 4 same d(1) by (auto simp: at_request_def others_same_def)
  moreover have "others_same t (insert r (insert r' (set (acts_reqs acts)))) st (pool_destroy t r' ?s1)"
    using same by (auto simp: others_same_def)
  ultimately show ?case using d(2) by simp
next
  case (5 t r st)
  then show ?case by simp
next
  case (6 t r a as st)
  let ?s1 = "run_act t r a st"
  have 1: "at_request t r v ?s1" "others_same t (insert r (set (act_reqs a))) st ?s1" "\<forall>p\<in>set (act_reqs a). tls_cleanups ?s1 p = []"
    using 6 by auto
  have "tls_cleanups ?s1 p = []" if "p \<in> set (acts_reqs as)" for p
    using that 1(2,3) 6(4-6) by (cases "p \<in> set (act_reqs a)") (auto simp: others_same_def)
  then have 2: "at_request t r v (run_acts t r as ?s1)" "others_same t (insert r (set (acts_reqs as))) ?s1 (run_acts t r as ?s1)"
      "\<forall>p\<in>set (acts_reqs as). tls_cleanups (run_acts t r as ?s1) p = []"
    using 6 1 by auto
  have "tls_cleanups (run_acts t r as ?s1) p = []" if "p \<in> set (act_reqs a)" for p
    using that 2(2,3) 1(3) 6(5) by (cases "p \<in> set (acts_reqs as)") (auto simp: others_same_def)
  then show ?case using 2 others_same_trans [OF 1(2) 2(2), of "insert r (set (acts_reqs (a # as)))"] by auto
qed


definition demo_tls :: tls_state where
  "demo_tls = \<lparr>MP_tls_request_rec = (\<lambda>_. None), tls_created = True, SET_GLOBAL_REQUEST = (\<lambda>_. False), tls_cleanups = (\<lambda>_. []), anon_cnt = 0\<rparr>"


text \<open>
  Code of a subrequest that sets the global request to its main request, which has not been set itself, leaves a pointer to the
  subrequest behind: the cleanup of the main request puts it back after the subrequest is gone.
\<close>

theorem global_request_dangling:
  assumes "tls_created st" "tls_cleanups st r = []" "tls_cleanups st r' = []" "r \<noteq> r'"
  shows "MP_tls_request_rec (run_act t r0 (Sub r [Sub r' [SetCurrent, SetTo r]]) st) t = Some r'"
  using assms by (simp add: create_request_def modperl_global_request_set_def pool_destroy_def fold_reset modperl_tls_get_def
      modperl_tls_set_def modperl_tls_reset_def modperl_tls_reset_cleanup_def Let_def)

theorem global_request_dangling_witness:
  "MP_tls_request_rec (run_act 0 9 (Sub 1 [Sub 2 [SetCurrent, SetTo 1]]) demo_tls) 0 = Some 2"
  by (rule global_request_dangling) (simp_all add: demo_tls_def)

section \<open>The request of a method\<close>

text \<open>
  What the first argument of a method can be: a string, another value that is not a reference, a reference to a blessed scalar (its class, its number and the pointer in
  its \<open>PERL_MAGIC_ext\<close> magic, if any), a reference to a hash, or a reference to something else. \<open>isa\<close> is
  \<open>sv_derived_from\<close>.
\<close>

datatype msv =
    StrSV string
  | PlainSV
  | ObjRef string nat "nat option"
  | HashRef string "(string \<times> msv) list"
  | OtherRef

datatype found_sv = ScalarObj nat "nat option" | PlainStr string | NotScalar

definition sv_target :: "msv \<Rightarrow> found_sv" where
  "sv_target sv = (case sv of ObjRef c iv mg \<Rightarrow> ScalarObj iv mg | StrSV s \<Rightarrow> PlainStr s | _ \<Rightarrow> NotScalar)"

definition r_keys :: "string list" where "r_keys = [''r'', ''_r'']"

text \<open>\<open>modperl_hv_request_find\<close>: a hash under one of the keys is searched in turn; anything else ends the search.\<close>

definition r_entry :: "(string \<times> msv) list \<Rightarrow> msv option" where
  "r_entry hv = (case map_of hv ''r'' of Some sv \<Rightarrow> Some sv | None \<Rightarrow> map_of hv ''_r'')"

lemma r_entry_member: "r_entry hv = Some sv \<Longrightarrow> \<exists>k. (k, sv) \<in> set hv"
  by (auto simp: r_entry_def dest: map_of_SomeD split: option.splits)

function modperl_hv_request_find :: "(string \<times> msv) list \<Rightarrow> found_sv res" where
  "modperl_hv_request_find hv =
     (case r_entry hv of
        None \<Rightarrow> Inl (Croak ''method invoked by an object with no `r' key!'')
      | Some (HashRef c hv') \<Rightarrow> modperl_hv_request_find hv'
      | Some sv \<Rightarrow> Inr (sv_target sv))"
  by pat_completeness auto
termination
proof (relation "measure (size_list (size_prod (\<lambda>_. 0) size))")
  fix hv hv' :: "(string \<times> msv) list" and x c
  assume "r_entry hv = Some x" "x = HashRef c hv'"
  then obtain k where k: "(k, HashRef c hv') \<in> set hv" using r_entry_member by blast
  have "size_list (size_prod (\<lambda>_. 0) size) hv' < size (HashRef c hv')" by simp
  also have "\<dots> \<le> size_prod (\<lambda>_. 0) size (k, HashRef c hv')" by simp
  also have "\<dots> \<le> size_list (size_prod (\<lambda>_. 0) size) hv" using k by (rule size_list_estimation') simp
  finally show "(hv', hv) \<in> measure (size_list (size_prod (\<lambda>_. 0) size))" by simp
qed simp

declare modperl_hv_request_find.simps [simp del]

definition modperl_xs_sv2request_rec ::
    "(msv \<Rightarrow> string \<Rightarrow> bool) \<Rightarrow> nat \<Rightarrow> string option \<Rightarrow> msv \<Rightarrow> tls_state \<Rightarrow> nat option res" where
  "modperl_xs_sv2request_rec isa t classname inp st =
     and_then (case inp of
         StrSV s \<Rightarrow> Inr None
       | PlainSV \<Rightarrow> Inr None
       | ObjRef c iv mg \<Rightarrow> Inr (Some (ScalarObj iv mg))
       | HashRef c hv \<Rightarrow> and_then (modperl_hv_request_find hv) (\<lambda>f. Inr (Some f))
       | OtherRef \<Rightarrow> Inl (Croak ''panic: unsupported request_rec type'')) (\<lambda>svo.
     case svo of
       None \<Rightarrow>
         (if (case (classname, inp) of (Some cn, StrSV s) \<Rightarrow> s \<noteq> cn | _ \<Rightarrow> False)
          then (if isa inp (the classname) then Inl NullDeref else Inr None)
          else case modperl_tls_get t st of
              None \<Rightarrow> Inl (Croak ''method called without setting Apache2->request!'')
            | Some r \<Rightarrow> Inr (Some r))
     | Some (ScalarObj iv (Some p)) \<Rightarrow> Inr (Some p)
     | Some f \<Rightarrow>
         (case classname of
            Some cn \<Rightarrow> if \<not> isa inp cn then Inr None
                       else (case f of ScalarObj iv _ \<Rightarrow> Inr (Some iv) | _ \<Rightarrow> Inl WrongType)
          | None \<Rightarrow> (case f of ScalarObj iv _ \<Rightarrow> Inr (Some iv) | _ \<Rightarrow> Inl WrongType)))"

definition modperl_sv2request_rec :: "(msv \<Rightarrow> string \<Rightarrow> bool) \<Rightarrow> nat \<Rightarrow> msv \<Rightarrow> tls_state \<Rightarrow> nat option res" where
  "modperl_sv2request_rec isa t inp st = modperl_xs_sv2request_rec isa t None inp st"

text \<open>The server: of the object, of the global request, or the main server. \<open>rserver\<close> is \<open>r->server\<close>.\<close>

definition modperl_sv2server_rec :: "(nat \<Rightarrow> nat) \<Rightarrow> nat \<Rightarrow> nat \<Rightarrow> msv \<Rightarrow> tls_state \<Rightarrow> nat" where
  "modperl_sv2server_rec rserver base t sv st = (case sv of
       ObjRef c iv mg \<Rightarrow> iv
     | _ \<Rightarrow> (case modperl_tls_get t st of Some r \<Rightarrow> rserver r | None \<Rightarrow> base))"

end
