(* ===== verification/Response.thy ===== *)
theory Response
  imports Interp Perl_Global Global_Request Request_IO
begin

text \<open>
  The two response handlers of \<^verbatim>\<open>src/src/modules/perl/mod_perl.c\<close>, \<open>modperl\<close> and \<open>perl-script\<close>, put together from the other
  components: an interpreter is selected, its globals are saved, \<open>%ENV\<close> is filled and tied, \<open>STDIN\<close> and \<open>STDOUT\<close> are redirected, the
  response phase runs, everything is undone in the reverse order, the interpreter goes back and the output buffer is flushed.

  The code of the handlers is the parameter \<open>body\<close>, \<open>None\<close> when no response handler is configured; it gets the interpreter it runs on. Whenever mod\_perl itself
  works on an interpreter, \<open>uses\<close> records the interpreter and whether it was marked as in use.
\<close>

section \<open>State\<close>

text \<open>The tables of a request and the environment of the process are shared by all interpreters (\<open>shared_renv\<close>,
\<open>shared_environ\<close>); the rest of \<open>gstate\<close> belongs to one Perl runtime. \<open>std_saved\<close> holds, for each runtime, the handles that
\<open>save_gp\<close> has put aside with the flags of their IO objects.\<close>

record ('p, 't, 'e) resp =
  ris :: "'p istate"
  rgl :: "nat \<Rightarrow> ('t, 'e) gstate"
  shared_renv :: "nat \<Rightarrow> 't req_env option"
  shared_environ :: 'e
  std_saved :: "nat \<Rightarrow> (nat \<times> 8 word) list"
  rio :: io_state
  rtls :: tls_state
  rcfg_globals :: "nat \<Rightarrow> perl_globals"
  r_handler :: "nat \<Rightarrow> string"
  r_content_type :: "nat \<Rightarrow> string option"
  uses :: "(nat \<times> bool) list"

record dir_opts =
  opt_SETUP_ENV :: bool
  seen_SETUP_ENV :: bool
  opt_GLOBAL_REQUEST :: bool
  seen_GLOBAL_REQUEST :: bool
  opt_PARSE_HEADERS :: bool

record ('t, 'e) resp_ops =
  ro_http :: httpd_ops
  ro_conn_gone :: "int \<Rightarrow> bool"
  ro_env :: "('t, 'e) env_ops"
  ro_taint :: copy_taint
  ro_fresh :: string
  ro_open_ok :: "nat \<Rightarrow> bool"        \<comment> \<open>\<open>do_open9\<close> of the redirected handle succeeds\<close>
  ro_dir :: "nat \<Rightarrow> dir_opts"
  ro_thread :: nat

type_synonym ('p, 't, 'e) rstep = "('p, 't, 'e) resp \<Rightarrow> ('p, 't, 'e) resp res"
type_synonym ('p, 't, 'e) rbody = "nat \<Rightarrow> ('p, 't, 'e) resp \<Rightarrow> (int \<times> ('p, 't, 'e) resp) res"

text \<open>Sequencing of operations that may have to wait for an interpreter.\<close>

definition sel_then :: "('a, 's) isel res \<Rightarrow> ('a \<Rightarrow> 's \<Rightarrow> ('b, 's) isel res) \<Rightarrow> ('b, 's) isel res" where
  "sel_then m f = and_then m (\<lambda>g. case g of IBlocked s \<Rightarrow> Inr (IBlocked s) | IGot a s \<Rightarrow> f a s)"

definition perl_of :: "nat \<Rightarrow> ('p, 't, 'e) resp \<Rightarrow> nat res" where
  "perl_of a st = and_then (get_interp_obj (ris st) a) (\<lambda>i. Inr (perl i))"

definition note_use :: "nat \<Rightarrow> interp \<Rightarrow> ('p, 't, 'e) rstep" where
  "note_use a i st = Inr (st\<lparr>uses := uses st @ [(a, has_flag MpInterpIN_USE_f i)]\<rparr>)"

text \<open>An operation on the globals of interpreter \<open>a\<close>, and one on its \<open>%ENV\<close>.\<close>

definition on_interp :: "nat \<Rightarrow> (nat \<Rightarrow> ('p, 't, 'e) rstep) \<Rightarrow> ('p, 't, 'e) rstep" where
  "on_interp a f st = and_then (get_interp_obj (ris st) a) (\<lambda>i. and_then (note_use a i st) (f (perl i)))"

definition on_env ::
    "nat \<Rightarrow> (('t, 'e) env_state \<Rightarrow> ('t, 'e) env_state res) \<Rightarrow> ('p, 't, 'e) rstep" where
  "on_env a f = on_interp a (\<lambda>pl st.
     and_then (f ((genv (rgl st pl))\<lparr>renv := shared_renv st, environ := shared_environ st\<rparr>)) (\<lambda>e.
       Inr (st\<lparr>rgl := (rgl st)(pl := (rgl st pl)\<lparr>genv := e\<rparr>), shared_renv := renv e, shared_environ := environ e\<rparr>)))"

definition set_rcfg_interp :: "nat \<Rightarrow> nat option \<Rightarrow> ('p, 't, 'e) rstep" where
  "set_rcfg_interp r x st = and_then (the_obj (istate.reqs (ris st) r) UseAfterFree) (\<lambda>q.
     Inr (st\<lparr>ris := (ris st)\<lparr>istate.reqs := (istate.reqs (ris st))(r \<mapsto> q\<lparr>rcfg_interp := x\<rparr>)\<rparr>\<rparr>))"

definition unselect :: "nat \<Rightarrow> ('p, 't, 'e) rstep" where
  "unselect a st = and_then (modperl_interp_unselect a (ris st)) (\<lambda>i. Inr (st\<lparr>ris := i\<rparr>))"

text \<open>\<open>MpInterpPUTBACK(interp)\<close>.\<close>

definition if_putback :: "nat \<Rightarrow> ('p, 't, 'e) rstep \<Rightarrow> ('p, 't, 'e) rstep" where
  "if_putback a f st = and_then (get_interp_obj (ris st) a) (\<lambda>i. if has_flag MpInterpPUTBACK_f i then f st else Inr st)"

section \<open>Redirecting the standard handles\<close>

definition STDIN_gv :: nat where "STDIN_gv = 1"
definition STDOUT_gv :: nat where "STDOUT_gv = 2"

text \<open>\<open>save_gp\<close> puts the handle aside and gives it a new IO object.\<close>

definition modperl_io_perlio_override_stdhandle ::
    "('t, 'e) resp_ops \<Rightarrow> nat \<Rightarrow> nat \<Rightarrow> ('p, 't, 'e) rstep" where
  "modperl_io_perlio_override_stdhandle P a gv = on_interp a (\<lambda>pl st.
     if \<not> ro_open_ok P gv then Inl (Croak ''Failed to open'')
     else Inr (st\<lparr>std_saved := (std_saved st)(pl := (gv, io_flags (rgl st pl) gv) # std_saved st pl),
                 rgl := (rgl st)(pl := (rgl st pl)\<lparr>io_flags := (io_flags (rgl st pl))(gv := 0)\<rparr>)\<rparr>))"

text \<open>\<open>modperl_io_perlio_restore_stdhandle\<close>: \<open>STDOUT\<close>, a handle of the layer \<open>:Apache2\<close>, is flushed before it is closed.\<close>

definition modperl_io_perlio_restore_stdhandle ::
    "('t, 'e) resp_ops \<Rightarrow> nat \<Rightarrow> nat \<Rightarrow> nat \<Rightarrow> ('p, 't, 'e) rstep" where
  "modperl_io_perlio_restore_stdhandle P r a gv = on_interp a (\<lambda>pl st.
     if gv = STDIN_gv then Inr st
     else and_then (PerlIOApache_flush (ro_http P) (ro_conn_gone P) True (Some r) (rio st)) (\<lambda>(res, io).
       case res of
         Inl e \<Rightarrow> Inl (Croak ''flush'')
       | Inr n \<Rightarrow> if n = - 1 then Inl (Croak ''Failed to flush STDOUT'') else Inr (st\<lparr>rio := io\<rparr>)))"

text \<open>\<open>LEAVE\<close> brings the handles back that were put aside since \<open>ENTER\<close>; \<open>n\<close> is their number.\<close>

definition perl_leave :: "nat \<Rightarrow> nat \<Rightarrow> ('p, 't, 'e) rstep" where
  "perl_leave n a = on_interp a (\<lambda>pl st.
     Inr (st\<lparr>rgl := (rgl st)(pl := (rgl st pl)\<lparr>io_flags := fold (\<lambda>(gv, f) m. m(gv := f)) (take n (std_saved st pl)) (io_flags (rgl st pl))\<rparr>),
             std_saved := (std_saved st)(pl := drop n (std_saved st pl))\<rparr>))"

section \<open>Running the response phase\<close>

text \<open>The part of \<open>modperl_callback_run_handlers\<close> around the handlers (\<^verbatim>\<open>modperl_callback.c\<close>).\<close>

definition response_phase ::
    "('p, 't, 'e) rbody option \<Rightarrow> nat \<Rightarrow> nat \<Rightarrow> ('p, 't, 'e) resp \<Rightarrow> (int, ('p, 't, 'e) resp) isel res" where
  "response_phase body r s st = (case body of
       None \<Rightarrow> Inr (IGot DECLINED st)
     | Some f \<Rightarrow>
         and_then (the_obj (istate.reqs (ris st) r) UseAfterFree) (\<lambda>q.
         and_then (the_obj (scfgs (ris st) s) NullDeref) (\<lambda>scfg.
         and_then (modperl_interp_select (Some r) (if interp_scope scfg = SCOPE_CONNECTION then Some (r_conn_pool q) else None) s (ris st)) (\<lambda>g.
         case g of
           IBlocked i \<Rightarrow> Inr (IBlocked (st\<lparr>ris := i\<rparr>))
         | IGot None i \<Rightarrow> Inl NullDeref
         | IGot (Some a) i \<Rightarrow>
             and_then (f a (st\<lparr>ris := i\<rparr>)) (\<lambda>(n, st1).
             and_then (if_putback a (unselect a) st1) (\<lambda>st2. Inr (IGot n st2)))))))"

definition modperl_response_handler_run ::
    "('t, 'e) resp_ops \<Rightarrow> ('p, 't, 'e) rbody option \<Rightarrow> nat \<Rightarrow> nat \<Rightarrow> ('p, 't, 'e) resp \<Rightarrow> (int, ('p, 't, 'e) resp) isel res" where
  "modperl_response_handler_run P body r s st =
     sel_then (response_phase body r s
                 (st\<lparr>rio := modperl_response_init (ro_fresh P) (opt_PARSE_HEADERS (ro_dir P r)) r (rio st)\<rparr>)) (\<lambda>retval st1.
       Inr (IGot retval (case r_content_type st1 r of
           Some ct \<Rightarrow> if retval = DECLINED then st1\<lparr>r_handler := (r_handler st1)(r := ct)\<rparr> else st1
         | None \<Rightarrow> st1)))"

section \<open>The handlers\<close>

text \<open>\<open>modperl_interp_select\<close> for the request, its connection and its server, as both handlers call it.\<close>

definition response_select :: "nat \<Rightarrow> nat \<Rightarrow> ('p, 't, 'e) resp \<Rightarrow> (nat, ('p, 't, 'e) resp) isel res" where
  "response_select r s st =
     and_then (the_obj (istate.reqs (ris st) r) UseAfterFree) (\<lambda>q.
     and_then (modperl_interp_select (Some r) (Some (r_conn_pool q)) s (ris st)) (\<lambda>g. case g of
         IBlocked i \<Rightarrow> Inr (IBlocked (st\<lparr>ris := i\<rparr>))
       | IGot None i \<Rightarrow> Inl NullDeref
       | IGot (Some a) i \<Rightarrow>
           and_then (if_putback a (set_rcfg_interp r (Some a)) (st\<lparr>ris := i\<rparr>)) (\<lambda>st1. Inr (IGot a st1))))"

definition response_finish :: "('t, 'e) resp_ops \<Rightarrow> nat \<Rightarrow> ('p, 't, 'e) resp \<Rightarrow> (int \<times> ('p, 't, 'e) resp) res" where
  "response_finish P r st = and_then (modperl_response_finish (ro_http P) r (rio st)) (\<lambda>(rc, io). Inr (rc, st\<lparr>rio := io\<rparr>))"

definition modperl_response_handler ::
    "('t, 'e) resp_ops \<Rightarrow> ('p, 't, 'e) rbody option \<Rightarrow> nat \<Rightarrow> nat \<Rightarrow> ('p, 't, 'e) resp \<Rightarrow> (int, ('p, 't, 'e) resp) isel res" where
  "modperl_response_handler P body r s st =
     (if r_handler st r \<noteq> ''modperl'' then Inr (IGot DECLINED st)
      else sel_then (response_select r s st) (\<lambda>a st1.
        and_then (if opt_SETUP_ENV (ro_dir P r) then on_env a (modperl_env_request_populate (ro_env P) r) st1 else Inr st1) (\<lambda>st2.
        sel_then (modperl_response_handler_run P body r s st2) (\<lambda>retval st3.
        and_then (response_finish P r st3) (\<lambda>(rc, st4).
        and_then (if_putback a (\<lambda>st. and_then (set_rcfg_interp r None st) (unselect a)) st4) (\<lambda>st5.
          Inr (IGot (if rc \<noteq> APR_SUCCESS then rc else retval) st5)))))))"

definition globals_request_save :: "('t, 'e) resp_ops \<Rightarrow> nat \<Rightarrow> nat \<Rightarrow> ('p, 't, 'e) rstep" where
  "globals_request_save P r a = on_interp a (\<lambda>pl st.
     and_then (modperl_perl_global_request_save (ro_taint P) (rgl st pl, rcfg_globals st r)) (\<lambda>(gl, g).
       Inr (st\<lparr>rgl := (rgl st)(pl := gl), rcfg_globals := (rcfg_globals st)(r := g)\<rparr>)))"

definition globals_request_restore :: "nat \<Rightarrow> nat \<Rightarrow> ('p, 't, 'e) rstep" where
  "globals_request_restore r a = on_interp a (\<lambda>pl st.
     and_then (modperl_perl_global_request_restore (rcfg_globals st r) (rgl st pl)) (\<lambda>gl.
       Inr (st\<lparr>rgl := (rgl st)(pl := gl)\<rparr>)))"

text \<open>What \<open>modperl_response_handler_cgi\<close> does to the interpreter before and after the phase.\<close>

definition cgi_enter :: "('t, 'e) resp_ops \<Rightarrow> nat \<Rightarrow> nat \<Rightarrow> ('p, 't, 'e) rstep" where
  "cgi_enter P r a st =
     (let d = ro_dir P r in
      and_then (globals_request_save P r a st) (\<lambda>st1.
      and_then (if opt_SETUP_ENV d \<or> \<not> seen_SETUP_ENV d then on_env a (modperl_env_request_populate (ro_env P) r) st1
                else Inr st1) (\<lambda>st2.
      let st3 = (if opt_GLOBAL_REQUEST d \<or> \<not> seen_GLOBAL_REQUEST d
                 then st2\<lparr>rtls := modperl_global_request_set (ro_thread P) r (rtls st2)\<rparr> else st2)
      in and_then (modperl_io_perlio_override_stdhandle P a STDIN_gv st3) (\<lambda>st4.
         and_then (modperl_io_perlio_override_stdhandle P a STDOUT_gv st4) (\<lambda>st5.
           on_env a (\<lambda>e. Inr (modperl_env_request_tie r e)) st5)))))"

definition cgi_leave :: "('t, 'e) resp_ops \<Rightarrow> nat \<Rightarrow> nat \<Rightarrow> ('p, 't, 'e) rstep" where
  "cgi_leave P r a st =
     and_then (on_env a (\<lambda>e. Inr (modperl_env_request_untie r e)) st) (\<lambda>st1.
     and_then (globals_request_restore r a st1) (\<lambda>st2.
     and_then (modperl_io_perlio_restore_stdhandle P r a STDIN_gv st2) (\<lambda>st3.
     and_then (modperl_io_perlio_restore_stdhandle P r a STDOUT_gv st3) (\<lambda>st4.
       perl_leave 2 a st4))))"

definition modperl_response_handler_cgi ::
    "('t, 'e) resp_ops \<Rightarrow> ('p, 't, 'e) rbody option \<Rightarrow> nat \<Rightarrow> nat \<Rightarrow> ('p, 't, 'e) resp \<Rightarrow> (int, ('p, 't, 'e) resp) isel res" where
  "modperl_response_handler_cgi P body r s st =
     (if r_handler st r \<noteq> ''perl-script'' then Inr (IGot DECLINED st)
      else sel_then (response_select r s st) (\<lambda>a st1.
        and_then (cgi_enter P r a st1) (\<lambda>st2.
        sel_then (modperl_response_handler_run P body r s st2) (\<lambda>retval st3.
        and_then (cgi_leave P r a st3) (\<lambda>st4.
        and_then (if_putback a (\<lambda>st. and_then (unselect a st) (set_rcfg_interp r None)) st4) (\<lambda>st5.
        and_then (response_finish P r st5) (\<lambda>(rc, st6).
          Inr (IGot (if rq_cfg_status (io_world.reqs (io_w (rio st6)) r) = HTTP_MOVED_TEMPORARILY then HTTP_MOVED_TEMPORARILY
                     else if rc \<noteq> APR_SUCCESS then rc else retval) st6))))))))"

section \<open>Entering and leaving\<close>

text \<open>The output buffer of the request can be flushed, and the filters accept what they get.\<close>

definition wb_ready :: "nat \<Rightarrow> io_state \<Rightarrow> bool" where
  "wb_ready r io \<longleftrightarrow> (case rcfg_wbucket io r of None \<Rightarrow> False | Some wb \<Rightarrow> wb_ok wb \<and> wb_linked wb (io_w io))"

definition filters_accept :: "('t, 'e) resp_ops \<Rightarrow> bool" where
  "filters_accept P \<longleftrightarrow> (\<forall>h. pass_rv (ro_http P) h = APR_SUCCESS)"

definition rs_fits :: "('t, 'e) gstate \<Rightarrow> bool" where
  "rs_fits g \<longleftrightarrow> CHR 0x00 \<notin> set (PL_rs g) \<and> length (PL_rs g) \<le> 256"

definition same_globals :: "('t, 'e) gstate \<Rightarrow> ('t, 'e) gstate \<Rightarrow> bool" where
  "same_globals g h \<longleftrightarrow> get_env_hv h = get_env_hv g \<and> inc_av h = inc_av g \<and> PL_rs h = PL_rs g \<and>
     io_flags h STDIN_gv = io_flags g STDIN_gv \<and> io_flags h STDOUT_gv = io_flags g STDOUT_gv \<and> \<not> end_smagical h"

lemma on_interp_run:
  assumes "interps (iw (ris st)) a = Some i"
  shows "on_interp a f st = f (perl i) (st\<lparr>uses := uses st @ [(a, has_flag MpInterpIN_USE_f i)]\<rparr>)"
  using assms by (simp add: on_interp_def get_interp_obj_def note_use_def)

lemma wbucket_pass_rv:
  assumes "\<forall>h. pass_rv ops h = APR_SUCCESS" "modperl_wbucket_pass ops wb mem len fl w = Inr (rv, wb', w')"
  shows "rv = APR_SUCCESS"
  using assms by (auto simp: modperl_wbucket_pass_def wbucket_send_def ap_pass_brigade_def Let_def
      split: if_splits option.splits prod.splits)

lemma wbucket_flush_accept:
  assumes "\<forall>h. pass_rv ops h = APR_SUCCESS" "wb_ok wb" "wb_linked wb w"
  shows "\<exists>wb' w'. modperl_wbucket_flush ops wb False w = Inr (APR_SUCCESS, wb', w') \<and> wb_ok wb' \<and> outcnt wb' = 0 \<and> wb_linked wb' w'"
proof -
  obtain rv wb' w' where f: "modperl_wbucket_flush ops wb False w = Inr (rv, wb', w')" "wb_ok wb'" "outcnt wb' = 0" "wb_linked wb' w'"
    using wbucket_flush_ok [OF assms(2,3)] by blast
  have "rv = APR_SUCCESS"
    using f(1) wbucket_pass_rv [OF assms(1)] by (auto simp: modperl_wbucket_flush_def split: if_splits)
  with f show ?thesis by blast
qed

lemma stdout_flush_run:
  assumes "filters_accept P" "wb_ready r io"
  shows "\<exists>io'. PerlIOApache_flush (ro_http P) g True (Some r) io = Inr (Inr 0, io') \<and> wb_ready r io' \<and>
           (\<exists>wb. rcfg_wbucket io' r = Some wb \<and> outcnt wb = 0)"
proof -
  obtain wb where wb: "rcfg_wbucket io r = Some wb" "wb_ok wb" "wb_linked wb (io_w io)"
    using assms(2) by (auto simp: wb_ready_def split: option.splits)
  from wbucket_flush_accept [OF assms(1) [unfolded filters_accept_def] wb(2,3)] obtain wb' w' where
    "modperl_wbucket_flush (ro_http P) wb False (io_w io) = Inr (APR_SUCCESS, wb', w')" "wb_ok wb'" "outcnt wb' = 0" "wb_linked wb' w'"
    by blast
  with wb show ?thesis
    by (auto simp: PerlIOApache_flush_def with_wbucket_def flush_or_croak_reset_ok_def set_wb_def wb_ready_def)
qed

lemma finish_empty:
  assumes "rcfg_wbucket (rio st) r = Some wb" "outcnt wb = 0"
  shows "response_finish P r st = Inr (APR_SUCCESS, st\<lparr>rio := set_wb r (wb, io_w (rio st)) (rio st)\<rparr>)"
  using assms by (simp add: response_finish_def modperl_response_finish_def modperl_wbucket_flush_def)

definition opens_ok :: "('t, 'e) resp_ops \<Rightarrow> bool" where
  "opens_ok P \<longleftrightarrow> ro_open_ok P STDIN_gv \<and> ro_open_ok P STDOUT_gv"

lemma on_env_run:
  assumes "interps (iw (ris st)) a = Some i"
    and "f ((genv (rgl st (perl i)))\<lparr>renv := shared_renv st, environ := shared_environ st\<rparr>) = Inr e"
  shows "on_env a f st = Inr (st\<lparr>uses := uses st @ [(a, has_flag MpInterpIN_USE_f i)],
     rgl := (rgl st)(perl i := (rgl st (perl i))\<lparr>genv := e\<rparr>), shared_renv := renv e, shared_environ := environ e\<rparr>)"
  using assms by (simp add: on_env_def on_interp_run)

text \<open>What the operations before the phase leave alone, and what they save.\<close>

definition entered :: "nat \<Rightarrow> nat \<Rightarrow> interp \<Rightarrow> ('p, 't, 'e) resp \<Rightarrow> ('p, 't, 'e) resp \<Rightarrow> bool" where
  "entered r a i st st' \<longleftrightarrow> ris st' = ris st \<and> rio st' = rio st \<and> r_handler st' = r_handler st \<and>
     rcfg_globals st' r = saved_globals (rgl st (perl i)) \<and>
     std_saved st' = (std_saved st)(perl i :=
       (STDOUT_gv, io_flags (rgl st (perl i)) STDOUT_gv) # (STDIN_gv, io_flags (rgl st (perl i)) STDIN_gv) # std_saved st (perl i)) \<and>
     (\<forall>x. x \<noteq> perl i \<longrightarrow> rgl st' x = rgl st x) \<and> PL_endav (rgl st' (perl i)) \<noteq> None \<and>
     (\<exists>us. uses st' = uses st @ us \<and> set us \<subseteq> {(a, has_flag MpInterpIN_USE_f i)})"

lemma STD_neq [simp]: "STDIN_gv \<noteq> STDOUT_gv" "STDOUT_gv \<noteq> STDIN_gv"
  by (simp_all add: STDIN_gv_def STDOUT_gv_def)

lemma cgi_enter_run:
  assumes i: "interps (iw (ris st)) a = Some i" and "opens_ok P" and q: "shared_renv st r \<noteq> None"
  shows "\<exists>st'. cgi_enter P r a st = Inr st' \<and> entered r a i st st'"
proof -
  let ?pl = "perl i" and ?u = "(a, has_flag MpInterpIN_USE_f i)"
  let ?g0 = "rgl st ?pl"
  let ?g1 = "set_env_hv (copyENV (ro_taint P) (envhv (genv ?g0))) (modperl_perl_global_avcv_save ?g0)"
  define st1 where "st1 = st\<lparr>uses := uses st @ [?u], rgl := (rgl st)(?pl := ?g1),
    rcfg_globals := (rcfg_globals st)(r := saved_globals ?g0)\<rparr>"
  have 1: "globals_request_save P r a st = Inr st1"
    by (simp add: globals_request_save_def on_interp_run [OF i] request_save_run st1_def)
  have st1: "interps (iw (ris st1)) a = Some i" "shared_renv st1 r \<noteq> None"
      "io_flags (rgl st1 ?pl) = io_flags ?g0" "PL_endav (rgl st1 ?pl) \<noteq> None"
    using i q by (simp_all add: st1_def set_env_hv_def modperl_perl_global_avcv_save_def modperl_perl_global_avcv_tie_def)
  let ?env = "\<lambda>st. if opt_SETUP_ENV (ro_dir P r) \<or> \<not> seen_SETUP_ENV (ro_dir P r)
    then on_env a (modperl_env_request_populate (ro_env P) r) st else Inr st"
  have "\<exists>us e s v. ?env st1 = Inr (st1\<lparr>uses := uses st1 @ us, rgl := (rgl st1)(?pl := (rgl st1 ?pl)\<lparr>genv := e\<rparr>),
      shared_renv := s, shared_environ := v\<rparr>) \<and> set us \<subseteq> {?u}"
  proof (cases "opt_SETUP_ENV (ro_dir P r) \<or> \<not> seen_SETUP_ENV (ro_dir P r)")
    case True
    obtain e where "modperl_env_request_populate (ro_env P) r
        ((genv (rgl st1 ?pl))\<lparr>renv := shared_renv st1, environ := shared_environ st1\<rparr>) = Inr e"
      using st1(2) by (auto simp: modperl_env_request_populate_def get_renv_def Let_def)
    from on_env_run [where f = "modperl_env_request_populate (ro_env P) r", OF st1(1) this] True show ?thesis by force
  next
    case False
    then show ?thesis
      by (intro exI [of _ "[]"] exI [of _ "genv (rgl st1 ?pl)"] exI [of _ "shared_renv st1"] exI [of _ "shared_environ st1"]) simp
  qed
  then obtain us e s v where 2: "?env st1 = Inr (st1\<lparr>uses := uses st1 @ us, rgl := (rgl st1)(?pl := (rgl st1 ?pl)\<lparr>genv := e\<rparr>),
      shared_renv := s, shared_environ := v\<rparr>)" "set us \<subseteq> {?u}" by blast
  define st2 where "st2 = st1\<lparr>uses := uses st1 @ us, rgl := (rgl st1)(?pl := (rgl st1 ?pl)\<lparr>genv := e\<rparr>),
      shared_renv := s, shared_environ := v\<rparr>"
  define t where "t = (if opt_GLOBAL_REQUEST (ro_dir P r) \<or> \<not> seen_GLOBAL_REQUEST (ro_dir P r)
      then modperl_global_request_set (ro_thread P) r (rtls st2) else rtls st2)"
  define st3 where "st3 = st2\<lparr>rtls := t\<rparr>"
  have 3: "(if opt_GLOBAL_REQUEST (ro_dir P r) \<or> \<not> seen_GLOBAL_REQUEST (ro_dir P r)
      then st2\<lparr>rtls := modperl_global_request_set (ro_thread P) r (rtls st2)\<rparr> else st2) = st3"
    by (simp add: st3_def t_def)
  let ?fl = "io_flags ?g0"
  define st4 where "st4 = st3\<lparr>uses := uses st3 @ [?u], std_saved := (std_saved st)(?pl := (STDIN_gv, ?fl STDIN_gv) # std_saved st ?pl),
      rgl := (rgl st3)(?pl := (rgl st3 ?pl)\<lparr>io_flags := ?fl(STDIN_gv := 0)\<rparr>)\<rparr>"
  have i3: "interps (iw (ris st3)) a = Some i" using st1 by (simp add: st3_def st2_def)
  have 4: "modperl_io_perlio_override_stdhandle P a STDIN_gv st3 = Inr st4"
    using assms(2) st1(3) by (simp add: modperl_io_perlio_override_stdhandle_def on_interp_run [OF i3] opens_ok_def)
      (simp add: st4_def st3_def st2_def st1_def)
  define st5 where "st5 = st4\<lparr>uses := uses st4 @ [?u],
      std_saved := (std_saved st)(?pl := (STDOUT_gv, ?fl STDOUT_gv) # (STDIN_gv, ?fl STDIN_gv) # std_saved st ?pl),
      rgl := (rgl st4)(?pl := (rgl st4 ?pl)\<lparr>io_flags := ?fl(STDIN_gv := 0, STDOUT_gv := 0)\<rparr>)\<rparr>"
  have i4: "interps (iw (ris st4)) a = Some i" using i3 by (simp add: st4_def)
  have 5: "modperl_io_perlio_override_stdhandle P a STDOUT_gv st4 = Inr st5"
    using assms(2) by (simp add: modperl_io_perlio_override_stdhandle_def on_interp_run [OF i4] opens_ok_def)
      (simp add: st5_def st4_def)
  have i5: "interps (iw (ris st5)) a = Some i" using i4 by (simp add: st5_def)
  from on_env_run [where f = "\<lambda>e. Inr (modperl_env_request_tie r e)", OF i5 refl]
  obtain st6 e6 where 6: "on_env a (\<lambda>e. Inr (modperl_env_request_tie r e)) st5 = Inr st6"
    "st6 = st5\<lparr>uses := uses st5 @ [?u], rgl := (rgl st5)(?pl := (rgl st5 ?pl)\<lparr>genv := e6\<rparr>),
       shared_renv := renv e6, shared_environ := environ e6\<rparr>" by blast
  have "entered r a i st st6"
    using st1(4) 2(2) by (auto simp: 6(2) entered_def st5_def st4_def st3_def st2_def st1_def set_env_hv_def)
  have "cgi_enter P r a st = Inr st6"
    unfolding cgi_enter_def Let_def 1 and_then_Inr 2(1) st2_def [symmetric] 3 4 5 6(1) ..
  with \<open>entered r a i st st6\<close> show ?thesis by blast
qed

definition cgi_left :: "nat \<Rightarrow> nat \<Rightarrow> interp \<Rightarrow> ('t, 'e) gstate \<Rightarrow> ('p, 't, 'e) resp \<Rightarrow> ('p, 't, 'e) resp \<Rightarrow> bool" where
  "cgi_left r a i g0 st st' \<longleftrightarrow> ris st' = ris st \<and> r_handler st' = r_handler st \<and>
     std_saved st' = (std_saved st)(perl i := drop 2 (std_saved st (perl i))) \<and>
     (\<forall>x. x \<noteq> perl i \<longrightarrow> rgl st' x = rgl st x) \<and> same_globals g0 (rgl st' (perl i)) \<and> wb_ready r (rio st') \<and>
     (\<exists>wb. rcfg_wbucket (rio st') r = Some wb \<and> outcnt wb = 0) \<and>
     (\<exists>us. uses st' = uses st @ us \<and> set us \<subseteq> {(a, has_flag MpInterpIN_USE_f i)})"

lemma cgi_leave_run:
  assumes i: "interps (iw (ris st)) a = Some i" and P: "filters_accept P" and wb: "wb_ready r (rio st)"
    and g: "rcfg_globals st r = saved_globals g0" "rs_fits g0" "PL_endav (rgl st (perl i)) \<noteq> None"
    and std: "std_saved st (perl i) = (STDOUT_gv, io_flags g0 STDOUT_gv) # (STDIN_gv, io_flags g0 STDIN_gv) # rest"
  shows "\<exists>st'. cgi_leave P r a st = Inr st' \<and> cgi_left r a i g0 st st'"
proof -
  let ?pl = "perl i" and ?u = "(a, has_flag MpInterpIN_USE_f i)"
  from on_env_run [where f = "\<lambda>e. Inr (modperl_env_request_untie r e)", OF i refl]
  obtain st1 e1 where 1: "on_env a (\<lambda>e. Inr (modperl_env_request_untie r e)) st = Inr st1"
    "st1 = st\<lparr>uses := uses st @ [?u], rgl := (rgl st)(?pl := (rgl st ?pl)\<lparr>genv := e1\<rparr>),
       shared_renv := renv e1, shared_environ := environ e1\<rparr>" by blast
  have i1: "interps (iw (ris st1)) a = Some i" using i by (simp add: 1(2))
  have g1: "rcfg_globals st1 r = saved_globals g0" using g(1) by (simp add: 1(2))
  have end1: "PL_endav (rgl st1 ?pl) \<noteq> None" using g(3) by (simp add: 1(2))
  have rs: "CHR 0x00 \<notin> set (PL_rs g0)" "length (PL_rs g0) \<le> 256" using g(2) by (simp_all add: rs_fits_def)
  from request_restore_run [OF end1 rs]
  obtain h where h: "modperl_perl_global_request_restore (saved_globals g0) (rgl st1 ?pl) = Inr h"
    "get_env_hv h = get_env_hv g0" "inc_av h = inc_av g0" "PL_rs h = PL_rs g0" "\<not> end_smagical h"
    by (simp add: get_env_hv_def set_env_hv_def)
  define st2 where "st2 = st1\<lparr>uses := uses st1 @ [?u], rgl := (rgl st1)(?pl := h)\<rparr>"
  have 2: "globals_request_restore r a st1 = Inr st2"
    using g1 h(1) by (simp add: globals_request_restore_def on_interp_run [OF i1] st2_def)
  have i2: "interps (iw (ris st2)) a = Some i" using i1 by (simp add: st2_def)
  define st3 where "st3 = st2\<lparr>uses := uses st2 @ [?u]\<rparr>"
  have 3: "modperl_io_perlio_restore_stdhandle P r a STDIN_gv st2 = Inr st3"
    by (simp add: modperl_io_perlio_restore_stdhandle_def on_interp_run [OF i2] st3_def)
  have i3: "interps (iw (ris st3)) a = Some i" using i2 by (simp add: st3_def)
  obtain io' where io: "PerlIOApache_flush (ro_http P) (ro_conn_gone P) True (Some r) (rio st) = Inr (Inr 0, io')" "wb_ready r io'"
      "\<exists>wb. rcfg_wbucket io' r = Some wb \<and> outcnt wb = 0"
    using stdout_flush_run [OF P wb] by blast
  have rio3: "rio st3 = rio st" by (simp add: st3_def st2_def 1(2))
  define st4 where "st4 = st3\<lparr>uses := uses st3 @ [?u], rio := io'\<rparr>"
  have 4: "modperl_io_perlio_restore_stdhandle P r a STDOUT_gv st3 = Inr st4"
    using io(1) rio3 by (simp add: modperl_io_perlio_restore_stdhandle_def on_interp_run [OF i3] st4_def)
  have i4: "interps (iw (ris st4)) a = Some i" using i3 by (simp add: st4_def)
  define st5 where "st5 = st4\<lparr>uses := uses st4 @ [?u],
      rgl := (rgl st4)(?pl := h\<lparr>io_flags := (io_flags h)(STDOUT_gv := io_flags g0 STDOUT_gv, STDIN_gv := io_flags g0 STDIN_gv)\<rparr>),
      std_saved := (std_saved st4)(?pl := rest)\<rparr>"
  have std4: "std_saved st4 ?pl = (STDOUT_gv, io_flags g0 STDOUT_gv) # (STDIN_gv, io_flags g0 STDIN_gv) # rest"
    and h4: "rgl st4 ?pl = h"
    using std by (simp_all add: st4_def st3_def st2_def 1(2))
  have 5: "perl_leave 2 a st4 = Inr st5"
    using std4 h4 by (simp add: perl_leave_def on_interp_run [OF i4] numeral_2_eq_2 st5_def)
  have "cgi_leave P r a st = Inr st5"
    unfolding cgi_leave_def 1(1) and_then_Inr 2 3 4 5 ..
  moreover have "cgi_left r a i g0 st st5"
    using h io(2,3) std by (auto simp: cgi_left_def st5_def st4_def st3_def st2_def 1(2) same_globals_def get_env_hv_def)
  ultimately show ?thesis by blast
qed

section \<open>A whole response in the request scope\<close>

text \<open>What the code of the handlers does: it returns, does not touch the interpreter pools, what is saved for the request and the
Perl runtimes of others, and leaves an output buffer that can be flushed. The globals of its own runtime it may change.\<close>

definition body_ok :: "nat \<Rightarrow> ('p, 't, 'e) rbody \<Rightarrow> bool" where
  "body_ok r f \<longleftrightarrow> (\<forall>a st i. interps (iw (ris st)) a = Some i \<longrightarrow> wb_ready r (rio st) \<longrightarrow>
     (\<exists>n st'. f a st = Inr (n, st') \<and> ris st' = ris st \<and> std_saved st' = std_saved st \<and> rcfg_globals st' r = rcfg_globals st r \<and>
        (PL_endav (rgl st (perl i)) \<noteq> None \<longrightarrow> PL_endav (rgl st' (perl i)) \<noteq> None) \<and>
        (\<forall>x. x \<noteq> perl i \<longrightarrow> rgl st' x = rgl st x) \<and> wb_ready r (rio st') \<and> uses st' = uses st))"

definition can_respond :: "('t, 'e) resp_ops \<Rightarrow> nat \<Rightarrow> io_state \<Rightarrow> bool" where
  "can_respond P r io \<longleftrightarrow> req_filters (io_w io) r \<noteq> None \<and>
     length (case rcfg_wbucket io r of None \<Rightarrow> ro_fresh P | Some wb \<Rightarrow> outbuf wb) = MP_IOBUFSIZE"

lemma response_init_ready: "can_respond P r io \<Longrightarrow> wb_ready r (modperl_response_init (ro_fresh P) b r io)"
  by (simp add: can_respond_def wb_ready_def modperl_response_init_def Let_def wb_ok_def wb_linked_def slot_filter_def)

lemma interp_find_any_conn:
  "scope \<noteq> SCOPE_CONNECTION \<Longrightarrow> interp_find ro c scope st = interp_find ro c' scope st"
  by (simp add: interp_find_def)

lemma if_putback_not:
  assumes "interps (iw (ris st)) a = Some i" "\<not> has_flag MpInterpPUTBACK_f i"
  shows "if_putback a f st = Inr st"
  using assms by (simp add: if_putback_def get_interp_obj_def)

lemma response_phase_run:
  assumes "body_ok r f" "interps (iw (ris st)) a = Some i" "\<not> has_flag MpInterpPUTBACK_f i" "wb_ready r (rio st)"
    and "istate.reqs (ris st) r = Some q" "scfgs (ris st) s = Some scfg"
    and sel: "\<And>c. modperl_interp_select (Some r) c s (ris st) = Inr (IGot (Some a) (ris st))"
  shows "\<exists>n st'. response_phase (Some f) r s st = Inr (IGot n st') \<and> ris st' = ris st \<and> std_saved st' = std_saved st \<and>
     rcfg_globals st' r = rcfg_globals st r \<and> (PL_endav (rgl st (perl i)) \<noteq> None \<longrightarrow> PL_endav (rgl st' (perl i)) \<noteq> None) \<and>
     (\<forall>x. x \<noteq> perl i \<longrightarrow> rgl st' x = rgl st x) \<and> wb_ready r (rio st') \<and> uses st' = uses st"
proof -
  from assms(1,2,4) obtain n st' where b: "f a st = Inr (n, st')" "ris st' = ris st" "std_saved st' = std_saved st"
      "rcfg_globals st' r = rcfg_globals st r" "PL_endav (rgl st (perl i)) \<noteq> None \<longrightarrow> PL_endav (rgl st' (perl i)) \<noteq> None"
      "\<forall>x. x \<noteq> perl i \<longrightarrow> rgl st' x = rgl st x" "wb_ready r (rio st')" "uses st' = uses st"
    unfolding body_ok_def by metis
  have st: "st\<lparr>ris := ris st\<rparr> = st" by simp
  have "if_putback a (unselect a) st' = Inr st'" by (rule if_putback_not) (use assms(2,3) b(2) in simp_all)
  then have "response_phase (Some f) r s st = Inr (IGot n st')"
    by (simp add: response_phase_def assms(5,6) sel st b(1))
  with b show ?thesis by blast
qed

lemma handler_run_frame:
  assumes "response_phase body r s (st\<lparr>rio := modperl_response_init (ro_fresh P) (opt_PARSE_HEADERS (ro_dir P r)) r (rio st)\<rparr>) = Inr (IGot n st1)"
  shows "\<exists>h. modperl_response_handler_run P body r s st = Inr (IGot n (st1\<lparr>r_handler := h\<rparr>))"
proof -
  have "modperl_response_handler_run P body r s st = Inr (IGot n (case r_content_type st1 r of
           Some ct \<Rightarrow> if n = DECLINED then st1\<lparr>r_handler := (r_handler st1)(r := ct)\<rparr> else st1 | None \<Rightarrow> st1))"
    by (simp add: modperl_response_handler_run_def assms sel_then_def)
  moreover have "\<exists>h. (case r_content_type st1 r of Some ct \<Rightarrow> if n = DECLINED then st1\<lparr>r_handler := (r_handler st1)(r := ct)\<rparr> else st1
       | None \<Rightarrow> st1) = st1\<lparr>r_handler := h\<rparr>"
  proof (cases "n = DECLINED \<and> r_content_type st1 r \<noteq> None")
    case True
    then show ?thesis by auto
  next
    case False
    then show ?thesis by (intro exI [of _ "r_handler st1"]) (auto split: option.split)
  qed
  ultimately show ?thesis by metis
qed

lemma select_again_any_conn:
  assumes inv: "mip_inv api is0 m I B" and s: "scfgs is0 s = Some scfg" "scfg_mip scfg = Some m"
    and q: "istate.reqs is0 r = Some q" "rcfg_interp q = None" and thr: "threaded_mpm is0"
    and scope: "interp_scope_of (Some q) scfg \<noteq> SCOPE_CONNECTION" and p: "interp_scope_pool is0 (Some r) c s = Some p"
    and sel: "modperl_interp_select (Some r) c s is0 = Inr (IGot (Some a) is1)"
  obtains I' i where "mip_inv api is1 m I' (B @ [a])" "interps (iw is1) a = Some i" "has_flag MpInterpIN_USE_f i"
    "istate.reqs is1 r = Some q" "scfgs is1 s = Some scfg" "userdata is1 p = Some a"
    "\<And>c'. modperl_interp_select (Some r) c' s is1 = Inr (IGot (Some a) is1)"
proof -
  have live: "\<forall>r'. Some r = Some r' \<longrightarrow> istate.reqs is0 r' \<noteq> None" and rc: "Option.bind (Option.bind (Some r) (istate.reqs is0)) rcfg_interp = None"
    using q by simp_all
  from inv s live thr rc p show thesis
  proof (cases rule: modperl_interp_select_new)
    case (waits st2)
    with sel show thesis by simp
  next
    case (got b i I' st2)
    then have eq: "st2 = is1" "b = a" using sel by simp_all
    note got = got [unfolded eq]
    have find: "interp_find (Some q) c (interp_scope_of (Some q) scfg) is0 = Inr (Some p, None)"
      using s(1) q p by (auto simp: interp_scope_pool_def Let_def split: if_splits sum.splits option.splits)
    have "modperl_interp_select (Some r) c' s is1 = Inr (IGot (Some a) is1)" for c'
    proof -
      have "interp_find (Some q) c' (interp_scope_of (Some q) scfg) is0 = Inr (Some p, None)"
        using find interp_find_any_conn [OF scope] by metis
      from interp_find_again [OF this got(7,9)] obtain p' where
        "interp_find (Some q) c' (interp_scope_of (Some q) scfg) is1 = Inr (p', Some a)" by blast
      then show ?thesis using got(9-11) q s(1) by (intro modperl_interp_select_found) simp_all
    qed
    with got q s(1) show thesis by (intro that [of I' i]) simp_all
  qed
qed


section \<open>The handler scope\<close>

lemma unselect_frame:
  assumes "modperl_interp_unselect a st = Inr st'"
  shows "scfgs st' = scfgs st" "threaded_mpm st' = threaded_mpm st"
    "istate.reqs st r = Some q \<Longrightarrow> \<exists>q'. istate.reqs st' r = Some q' \<and> rcfg_interp q' = rcfg_interp q"
  using assms
  by (auto simp: modperl_interp_unselect_def and_then_eq_Inr interp_request_cleanup_def set_tipool_def the_obj_def
      split: if_splits option.splits)

lemma select_rcfg:
  assumes "scfgs st s = Some scfg" "threaded_mpm st" "istate.reqs st r = Some q" "rcfg_interp q = Some a"
  shows "modperl_interp_select (Some r) c s st = Inr (IGot (Some a) st)"
  using assms by (simp add: modperl_interp_select_def)

text \<open>
  C40: with \<open>PerlInterpScope handler\<close> the response handlers store the selected interpreter in \<open>rcfg->interp\<close>, so the phase
  gets the same interpreter, finds it marked to be put back and puts it back itself. When the phase returns to the response handler, which still has to
  restore the globals, untie \<open>%ENV\<close> and close \<open>STDOUT\<close> on that interpreter, the interpreter is idle and any thread can take it;
  and the request goes on to get it from \<open>rcfg->interp\<close>.
\<close>

theorem response_handler_scope_early:
  assumes "mip_inv api (ris st) m I B" "a \<in> set B" "interps (iw (ris st)) a = Some i" "has_flag MpInterpPUTBACK_f i" "refcnt i = 0"
    and "irequest i = Some r" "istate.reqs (ris st) r = Some q" "rcfg_interp q = Some a" "scfgs (ris st) s = Some scfg"
    and "threaded_mpm (ris st)" "mip_cfg (ris st) m = Some cf" "int (length I) < cfg_max_spare cf"
    and "num_requests i \<le> cfg_max_requests cf" "body_ok r f" "can_respond P r (rio st)"
  shows "\<exists>n st' i'. modperl_response_handler_run P (Some f) r s st = Inr (IGot n st') \<and>
     mip_inv api (ris st') m (a # I) (remove1 a B) \<and> interps (iw (ris st')) a = Some i' \<and> \<not> has_flag MpInterpIN_USE_f i' \<and>
     modperl_interp_select (Some r) c s (ris st') = Inr (IGot (Some a) (ris st'))"
proof -
  let ?st1 = "st\<lparr>rio := modperl_response_init (ro_fresh P) (opt_PARSE_HEADERS (ro_dir P r)) r (rio st)\<rparr>"
  have ready: "wb_ready r (rio ?st1)" and i: "interps (iw (ris ?st1)) a = Some i"
    using response_init_ready [OF assms(15)] assms(3) by simp_all
  obtain n st2 where b: "f a ?st1 = Inr (n, st2)" "ris st2 = ris ?st1"
    using assms(14) [unfolded body_ok_def] i ready by blast
  have ris2: "ris st2 = ris st" using b(2) by simp
  have "\<forall>r. irequest i = Some r \<longrightarrow> istate.reqs (ris st) r \<noteq> None" using assms(6,7) by simp
  from modperl_interp_unselect_run [OF assms(1-3,5) this assms(11)] assms(12,13) obtain is' i' where u:
    "modperl_interp_unselect a (ris st) = Inr is'" "mip_inv api is' m (a # I) (remove1 a B)"
    "interps (iw is') a = Some i'" "\<not> has_flag MpInterpIN_USE_f i'"
    by blast
  have sel: "modperl_interp_select (Some r) c' s (ris st) = Inr (IGot (Some a) (ris st))" for c'
    using select_rcfg assms(7-10) by blast
  obtain q' where q': "istate.reqs is' r = Some q'" "rcfg_interp q' = Some a" using unselect_frame(3) [OF u(1) assms(7)] assms(8) by auto
  have "modperl_interp_select (Some r) c s is' = Inr (IGot (Some a) is')"
    by (rule select_rcfg [OF _ _ q']) (use unselect_frame(1,2) [OF u(1)] assms(9,10) in simp_all)
  moreover have "if_putback a (unselect a) st2 = Inr (st2\<lparr>ris := is'\<rparr>)"
    using assms(3,4) by (simp add: if_putback_def get_interp_obj_def ris2 unselect_def u(1))
  moreover have "?st1\<lparr>ris := ris st\<rparr> = ?st1" by simp
  ultimately have "response_phase (Some f) r s ?st1 = Inr (IGot n (st2\<lparr>ris := is'\<rparr>))"
    by (simp add: response_phase_def assms(7,9) sel b(1))
  from handler_run_frame [OF this] u(2-4) \<open>modperl_interp_select (Some r) c s is' = Inr (IGot (Some a) is')\<close>
  show ?thesis by fastforce
qed

section \<open>Witnesses\<close>

type_synonym demo_resp = "(unit, (string \<times> string) list, string \<Rightarrow> string option) resp"

definition demo_resp_ops :: "((string \<times> string) list, string \<Rightarrow> string option) resp_ops" where
  "demo_resp_ops = \<lparr>ro_http = demo_httpd, ro_conn_gone = (\<lambda>_. False), ro_env = demo_env_ops, ro_taint = (\<lambda>_ _. False),
     ro_fresh = replicate 8192 (CHR 0x00), ro_open_ok = (\<lambda>_. True),
     ro_dir = (\<lambda>_. \<lparr>opt_SETUP_ENV = False, seen_SETUP_ENV = False, opt_GLOBAL_REQUEST = False, seen_GLOBAL_REQUEST = False,
       opt_PARSE_HEADERS = False\<rparr>), ro_thread = 0\<rparr>"

definition demo_resp :: "unit istate \<Rightarrow> demo_resp" where
  "demo_resp i = \<lparr>ris = i, rgl = (\<lambda>_. demo_gstate), shared_renv = (\<lambda>_. Some \<lparr>subprocess_env = [], PERL_SET_ENV_SRV = False,
     PERL_SET_ENV_DIR = False, SETUP_ENV = False\<rparr>), shared_environ = (\<lambda>_. None), std_saved = (\<lambda>_. []),
     rio = demo_io_state\<lparr>io_w := (io_w demo_io_state)\<lparr>req_filters := (\<lambda>_. Some 5)\<rparr>, rcfg_wbucket := (\<lambda>_. None)\<rparr>, rtls = demo_tls,
     rcfg_globals = (\<lambda>_. perl_globals_zero), r_handler = (\<lambda>_. ''perl-script''), r_content_type = (\<lambda>_. None), uses = []\<rparr>"

text \<open>A handler that empties \<open>@INC\<close> and sets \<open>$/\<close>.\<close>

definition demo_body :: "nat \<Rightarrow> demo_resp \<Rightarrow> (int \<times> demo_resp) res" where
  "demo_body a st = and_then (perl_of a st) (\<lambda>pl.
     Inr (OK, st\<lparr>rgl := (rgl st)(pl := (rgl st pl)\<lparr>inc_av := [], PL_rs := ''x''\<rparr>)\<rparr>))"

lemma demo_body_ok: "body_ok r demo_body"
  by (auto simp: body_ok_def demo_body_def perl_of_def get_interp_obj_def)

lemma demo_resp_facts:
  "opens_ok demo_resp_ops" "filters_accept demo_resp_ops" "can_respond demo_resp_ops r (rio (demo_resp is))"
  "shared_renv (demo_resp is) r \<noteq> None" "rs_fits (rgl (demo_resp is) x)" "r_handler (demo_resp is) r = ''perl-script''"
  "ris (demo_resp is) = is"
  by (simp_all add: opens_ok_def demo_resp_ops_def filters_accept_def demo_wb_defs can_respond_def demo_resp_def demo_io_state_def
      MP_IOBUFSIZE_def rs_fits_def demo_gstate_def)



theorem response_handler_scope_early_witness:
  "\<exists>is0 n st' a i'. modperl_response_handler_run demo_resp_ops (Some demo_body) 5 0 (demo_resp is0) = Inr (IGot n st') \<and>
     interps (iw (ris st')) a = Some i' \<and> \<not> has_flag MpInterpIN_USE_f i' \<and>
     modperl_interp_select (Some 5) None 0 (ris st') = Inr (IGot (Some a) (ris st'))"
proof -
  let ?st = "demo_state demo_cfg SCOPE_HANDLER"
  let ?scfg = "\<lparr>scfg_mip = Some 0, interp_scope = SCOPE_REQUEST, interp_pool_cfg = demo_cfg\<rparr>"
  have scfg: "scfgs ?st 0 = Some ?scfg" by (simp add: demo_state_def)
  have ev: "case modperl_interp_get 0 ?st of
      Inr (IGot a st1) \<Rightarrow> (case interps (iw st1) a of Some i \<Rightarrow> refcnt i = 0 \<and> num_requests i = 0 | None \<Rightarrow> False) \<and>
        map_option cfg_max_spare (mip_cfg st1 0) = Some 3 \<and> map_option cfg_max_requests (mip_cfg st1 0) = Some 2000 \<and>
        threaded_mpm st1 \<and> istate.reqs st1 5 \<noteq> None \<and> scfgs st1 0 \<noteq> None
    | _ \<Rightarrow> False" by code_simp
  from demo_mip_inv scfg srv_interp.select_convs(1) show ?thesis
  proof (cases rule: modperl_interp_get_run)
    case (got a i I' st1)
    let ?u = "\<lambda>i. flag_on MpInterpPUTBACK_f (i\<lparr>irequest := Some 5\<rparr>)"
    obtain c q sc where c: "mip_cfg st1 0 = Some c" "cfg_max_spare c = 3" "cfg_max_requests c = 2000"
        "refcnt i = 0" "num_requests i = 0" "istate.reqs st1 5 = Some q" "threaded_mpm st1" "scfgs st1 0 = Some sc"
      using ev got(1,5) by auto
    let ?is = "st1\<lparr>iw := upd_interp a ?u (iw st1), istate.reqs := (istate.reqs st1)(5 \<mapsto> q\<lparr>rcfg_interp := Some a\<rparr>)\<rparr>"
    have inv: "mip_inv demo_api ?is 0 I' ([] @ [a])"
      by (rule mip_inv_same [OF got(2)]) (auto simp: flag_on_def intro!: same_objects_upd)
    have i: "interps (iw ?is) a = Some (?u i)" using got(5) by (simp add: upd_interp_def)
    have pb: "has_flag MpInterpPUTBACK_f (?u i)"
      by (simp add: has_flag_def flag_on_def interp_flags and.commute bit.conj_disj_distrib)
    have f: "refcnt (?u i) = 0" "irequest (?u i) = Some 5" "num_requests (?u i) = 0" by (simp_all add: flag_on_def c)
    have "mip_cfg ?is 0 = Some c" using c(1) by (simp add: mip_cfg_def)
    then have "\<exists>n st' i'. modperl_response_handler_run demo_resp_ops (Some demo_body) 5 0 (demo_resp ?is) = Inr (IGot n st') \<and>
       mip_inv demo_api (ris st') 0 (a # I') (remove1 a ([] @ [a])) \<and> interps (iw (ris st')) a = Some i' \<and>
       \<not> has_flag MpInterpIN_USE_f i' \<and> modperl_interp_select (Some 5) None 0 (ris st') = Inr (IGot (Some a) (ris st'))"
      using response_handler_scope_early [of demo_api "demo_resp ?is" 0 I' "[] @ [a]" a "?u i" 5 "q\<lparr>rcfg_interp := Some a\<rparr>" 0 sc c
          demo_body demo_resp_ops None, unfolded demo_resp_facts, OF inv _ i pb f(1,2) _ _ _ _ _ _ _ demo_body_ok demo_resp_facts(3)] c f(3) got(4)
      by (simp add: mip_cfg_def)
    then show ?thesis by blast
  qed (use ev in simp)
qed

end
