(* ===== verification/Perl_Module.thy ===== *)
theory Perl_Module
  imports Svptr_Table Mgv
begin

text \<open>
  Apache modules written in Perl: \<^verbatim>\<open>src/src/modules/perl/modperl_module.c\<close> and \<^verbatim>\<open>src/xs/Apache2/Module/Apache2__Module.h\<close>.

  For each configuration section httpd keeps a small structure per module (\<open>modperl_module_cfg_t\<close>); the Perl object with
  the settings is found under the address of the structure in the table of the interpreter, since every interpreter
  has its own copy of the object. Addresses come from APR and are arguments of the operations that allocate; the interpreter
  that \<open>modperl_interp_pool_select\<close> picks is the argument \<open>perl\<close> (selecting is the subject of \<^verbatim>\<open>Interp\<close>). SVs are numbers,
  0 is the null pointer.
\<close>

section \<open>Modules, configuration structures, state\<close>

record module_info =
  dir_create :: "mgv list option"
  dir_merge :: "mgv list option"
  srv_create :: "mgv list option"
  srv_merge :: "mgv list option"
  namelen :: nat

record module_cfg =
  cfg_server :: "nat option"
  cfg_minfo :: "module_info option"

text \<open>
  \<open>config_sv\<close> is the entry \<open>ModPerl::Module::ConfigTable\<close> of \<open>PL_modglobal\<close> of each interpreter: no entry, an undefined scalar,
  or the address of a table. \<open>obj_refs\<close> counts the references of each interpreter's SVs that this code holds. \<open>cfg_cleanups\<close> are
  the registered \<open>config_obj_cleanup_t\<close> with their pools, the newest first. A \<open>modules\<close> hash is shared by its number.
\<close>

record 'p mod_state =
  config_sv :: "nat \<Rightarrow> ptr_tbl option option"
  cfgs :: "ptr \<Rightarrow> (nat \<times> module_cfg) option"
  cfg_cleanups :: "(nat \<times> nat \<times> ptr) list"
  obj_refs :: "nat \<Rightarrow> nat \<Rightarrow> int"
  scfg_modules :: "nat \<Rightarrow> nat option option"
  module_hashes :: "nat \<Rightarrow> string \<Rightarrow> nat option"
  mperl :: 'p

datatype call_arg = ClassArg string | ObjArg nat | ParmsArg | StrArg string

datatype callee = CallCV nat | CallMethod string

text \<open>What a call gives: the SV on the stack when there is one, its string when it is a string, and the text in \<open>$@\<close> when that is true.\<close>

record call_out =
  ret_sv :: "nat option"
  ret_pv :: "string option"
  err_pv :: "string option"

text \<open>What is not code of the repository: the symbol tables and calls of Perl, and what httpd knows of its servers.\<close>

record 'p mod_env =
  hash_of :: hash_fun
  defstash :: "nat \<Rightarrow> 'p \<Rightarrow> (string \<times> glob) list option"
  perl_call :: "nat \<Rightarrow> callee \<Rightarrow> call_arg list \<Rightarrow> 'p \<Rightarrow> call_out \<times> 'p"
  bless_new :: "nat \<Rightarrow> string \<Rightarrow> 'p \<Rightarrow> nat \<times> 'p"
  sv_undef :: nat
  pconf :: nat
  base_server :: nat
  is_virtual :: "nat \<Rightarrow> bool"
  srv_cfg_of :: "nat \<Rightarrow> nat \<Rightarrow> ptr"

definition modperl_module_cfg_new :: "nat \<Rightarrow> ptr \<Rightarrow> 'p mod_state \<Rightarrow> 'p mod_state" where
  "modperl_module_cfg_new p a st = st\<lparr>cfgs := (cfgs st)(a \<mapsto> (p, \<lparr>cfg_server = None, cfg_minfo = None\<rparr>))\<rparr>"

definition cfg_at :: "ptr \<Rightarrow> 'p mod_state \<Rightarrow> module_cfg res" where
  "cfg_at a st = (if a = 0 then Inl NullDeref else case cfgs st a of None \<Rightarrow> Inl UseAfterFree | Some (p, c) \<Rightarrow> Inr c)"

section \<open>The table of an interpreter\<close>

text \<open>\<open>hv_fetch\<close> with \<open>create\<close> makes an undefined entry; an undefined scalar read as an integer is the null pointer.\<close>

definition modperl_module_config_hash_get :: "nat \<Rightarrow> bool \<Rightarrow> 'p mod_state \<Rightarrow> ptr_tbl option option \<times> 'p mod_state" where
  "modperl_module_config_hash_get perl create st =
     (case config_sv st perl of
        None \<Rightarrow> if create then (Some None, st\<lparr>config_sv := (config_sv st)(perl := Some None)\<rparr>) else (None, st)
      | Some sv \<Rightarrow> (Some sv, st))"

definition modperl_module_config_table_set :: "nat \<Rightarrow> ptr_tbl option \<Rightarrow> 'p mod_state \<Rightarrow> 'p mod_state" where
  "modperl_module_config_table_set perl table st =
     (let (svp, st1) = modperl_module_config_hash_get perl True st in st1\<lparr>config_sv := (config_sv st1)(perl := Some table)\<rparr>)"

definition modperl_module_config_table_get :: "nat \<Rightarrow> bool \<Rightarrow> 'p mod_state \<Rightarrow> ptr_tbl option \<times> 'p mod_state" where
  "modperl_module_config_table_get perl create st =
     (let (svp, st1) = modperl_module_config_hash_get perl create st
      in case svp of
          None \<Rightarrow> (None, st1)
        | Some sv \<Rightarrow> if sv = None \<and> create
            then (Some modperl_svptr_table_new, st1\<lparr>config_sv := (config_sv st1)(perl := Some (Some modperl_svptr_table_new))\<rparr>)
            else (sv, st1))"

text \<open>The table at the address that the interpreter's entry holds.\<close>

definition config_table :: "nat \<Rightarrow> 'p mod_state \<Rightarrow> ptr_tbl" where
  "config_table perl st = (case config_sv st perl of Some (Some t) \<Rightarrow> t | _ \<Rightarrow> modperl_svptr_table_new)"

definition set_config_table :: "nat \<Rightarrow> ptr_tbl \<Rightarrow> 'p mod_state \<Rightarrow> 'p mod_state" where
  "set_config_table perl t st = st\<lparr>config_sv := (config_sv st)(perl := Some (Some t))\<rparr>"

definition obj_inc :: "nat \<Rightarrow> nat \<Rightarrow> 'p mod_state \<Rightarrow> 'p mod_state" where
  "obj_inc perl sv st = (if sv = 0 then st else st\<lparr>obj_refs := (obj_refs st)(perl := (obj_refs st perl)(sv := obj_refs st perl sv + 1))\<rparr>)"

definition obj_dec :: "nat \<Rightarrow> nat \<Rightarrow> 'p mod_state \<Rightarrow> 'p mod_state" where
  "obj_dec perl sv st = (if sv = 0 then st else st\<lparr>obj_refs := (obj_refs st)(perl := (obj_refs st perl)(sv := obj_refs st perl sv - 1))\<rparr>)"

definition modperl_module_config_obj_cleanup :: "nat \<times> ptr \<Rightarrow> 'p mod_state \<Rightarrow> 'p mod_state" where
  "modperl_module_config_obj_cleanup cleanup st =
     (case cleanup of (perl, key) \<Rightarrow>
        let (t, sv) = modperl_svptr_table_delete (config_table perl st) key
        in (case sv of None \<Rightarrow> id | Some v \<Rightarrow> obj_dec perl v) (set_config_table perl t st))"

definition modperl_module_config_obj_cleanup_register :: "nat \<Rightarrow> nat \<Rightarrow> ptr \<Rightarrow> 'p mod_state \<Rightarrow> 'p mod_state" where
  "modperl_module_config_obj_cleanup_register perl p key st = st\<lparr>cfg_cleanups := (p, perl, key) # cfg_cleanups st\<rparr>"

text \<open>\<open>apr_pool_destroy\<close>: the cleanups of the pool run, the newest first, and its memory is given back.\<close>

definition run_cfg_cleanups :: "(nat \<times> nat \<times> ptr) list \<Rightarrow> 'p mod_state \<Rightarrow> 'p mod_state" where
  "run_cfg_cleanups cs st = fold (\<lambda>(q, c). modperl_module_config_obj_cleanup c) cs st"

definition cfg_pool_destroy :: "nat \<Rightarrow> 'p mod_state \<Rightarrow> 'p mod_state" where
  "cfg_pool_destroy p st =
     (let st1 = run_cfg_cleanups (filter (\<lambda>(q, c). q = p) (cfg_cleanups st)) st
      in st1\<lparr>cfg_cleanups := filter (\<lambda>(q, c). q \<noteq> p) (cfg_cleanups st1),
             cfgs := (\<lambda>a. case cfgs st1 a of Some (q, c) \<Rightarrow> if q = p then None else Some (q, c) | None \<Rightarrow> None)\<rparr>)"

section \<open>Creating and merging the objects\<close>

definition find_gv :: "'p mod_env \<Rightarrow> nat \<Rightarrow> 'p mod_state \<Rightarrow> mgv list option \<Rightarrow> nat option res" where
  "find_gv A perl st meth = (case meth of
       None \<Rightarrow> Inr None
     | Some symbol \<Rightarrow> and_then (modperl_mgv_lookup (hash_of A) (defstash A perl (mperl st)) symbol) (\<lambda>gv.
         case gv of NoGv \<Rightarrow> Inr None | FoundGv n \<Rightarrow> Inr (Some n) | ClassName c \<Rightarrow> Inl WrongType))"

definition run_call :: "'p mod_env \<Rightarrow> nat \<Rightarrow> callee \<Rightarrow> call_arg list \<Rightarrow> 'p mod_state \<Rightarrow> call_out \<times> 'p mod_state" where
  "run_call A perl f args st = (let (x, pl) = perl_call A perl f args (mperl st) in (x, st\<lparr>mperl := pl\<rparr>))"

text \<open>\<open>SvREFCNT_inc(POPs)\<close> when there is a value on the stack, the null pointer otherwise.\<close>

definition keep_value :: "nat \<Rightarrow> call_out \<Rightarrow> 'p mod_state \<Rightarrow> nat \<times> 'p mod_state" where
  "keep_value perl x st = (case ret_sv x of Some sv \<Rightarrow> (sv, obj_inc perl sv st) | None \<Rightarrow> (0, st))"

datatype merge_type = MP_CFG_MERGE_DIR | MP_CFG_MERGE_SRV

text \<open>\<open>a\<close> is the address of the new structure.\<close>

definition modperl_module_config_merge ::
    "'p mod_env \<Rightarrow> nat \<Rightarrow> nat \<Rightarrow> ptr \<Rightarrow> ptr \<Rightarrow> ptr \<Rightarrow> merge_type \<Rightarrow> 'p mod_state \<Rightarrow> (ptr \<times> 'p mod_state) res" where
  "modperl_module_config_merge A perl p a base add typ st =
     and_then (if base = 0 then Inr None else and_then (cfg_at base st) (\<lambda>c. Inr (cfg_server c))) (\<lambda>base_server.
       let tmp = (if base_server \<noteq> None then base else add) in
       if tmp = 0 then Inl NullDeref
       else and_then (cfg_at tmp st) (\<lambda>tmp_cfg.
         if cfg_server tmp_cfg = None then Inr (base, st)
         else
           let is_startup = (p = pconf A);
               (table, st1) = modperl_module_config_table_get perl True st;
               base_obj = modperl_svptr_table_fetch (config_table perl st1) base;
               add_obj = modperl_svptr_table_fetch (config_table perl st1) add
           in if base_obj = 0 \<or> base_obj = add_obj then Inr (add, st1)
              else
                let st2 = modperl_module_cfg_new p a st1;
                    st3 = st2\<lparr>cfgs := (cfgs st2)(a \<mapsto> (p, tmp_cfg))\<rparr>
                in case cfg_minfo tmp_cfg of
                     None \<Rightarrow> Inl NullDeref
                   | Some minfo \<Rightarrow>
                     let meth = (if typ = MP_CFG_MERGE_DIR then dir_merge minfo else srv_merge minfo)
                     in and_then (find_gv A perl st3 meth) (\<lambda>gv.
                       let (mrg_obj, st4) = (case gv of
                           Some cv \<Rightarrow> (let (x, st') = run_call A perl (CallCV cv) [ObjArg base_obj, ObjArg add_obj] st3
                                       in keep_value perl x st')
                         | None \<Rightarrow> (add_obj, obj_inc perl add_obj st3));
                           st5 = set_config_table perl (modperl_svptr_table_store (config_table perl st4) a mrg_obj) st4
                       in Inr (a, if is_startup then st5 else modperl_module_config_obj_cleanup_register perl p a st5))))"

definition modperl_module_config_dir_merge where
  "modperl_module_config_dir_merge A perl p a base add st = modperl_module_config_merge A perl p a base add MP_CFG_MERGE_DIR st"

definition modperl_module_config_srv_merge where
  "modperl_module_config_srv_merge A perl p a base add st = modperl_module_config_merge A perl p a base add MP_CFG_MERGE_SRV st"

text \<open>\<open>retval\<close>: an error message, or nothing.\<close>

definition modperl_module_config_create_obj ::
    "'p mod_env \<Rightarrow> nat \<Rightarrow> nat \<Rightarrow> ptr \<Rightarrow> string \<Rightarrow> module_info \<Rightarrow> mgv list option \<Rightarrow> nat \<Rightarrow> 'p mod_state
      \<Rightarrow> (string option \<times> nat \<times> 'p mod_state) res" where
  "modperl_module_config_create_obj A perl p cfg modname minfo meth server st =
     (let is_startup = (p = pconf A); obj = modperl_svptr_table_fetch (config_table perl st) cfg
      in if obj \<noteq> 0 then Inr (None, obj, st)
      else and_then (cfg_at cfg st) (\<lambda>_.
        let st1 = st\<lparr>cfgs := (cfgs st)(cfg \<mapsto> (fst (the (cfgs st cfg)), \<lparr>cfg_server = Some server, cfg_minfo = Some minfo\<rparr>))\<rparr>
        in and_then (find_gv A perl st1 meth) (\<lambda>gv.
          let (err, new_obj, st2) = (case gv of
              Some cv \<Rightarrow> (let (x, st') = run_call A perl (CallCV cv) [ClassArg (take (namelen minfo) modname), ParmsArg] st1;
                             (sv, st'') = keep_value perl x st' in (err_pv x, sv, st''))
            | None \<Rightarrow> (let (sv, pl) = bless_new A perl (take (namelen minfo) modname) (mperl st1)
                       in (None, sv, obj_inc perl sv (st1\<lparr>mperl := pl\<rparr>))))
          in if err \<noteq> None then Inr (err, new_obj, st2)
             else
               let st3 = (if is_startup then st2 else modperl_module_config_obj_cleanup_register perl p cfg st2)
               in Inr (None, new_obj, set_config_table perl (modperl_svptr_table_store (config_table perl st3) cfg new_obj) st3))))"

section \<open>Running a directive\<close>

record cmd_parms =
  parms_server :: nat
  parms_pool :: nat
  parms_module :: nat
  parms_modname :: string
  parms_minfo :: module_info
  parms_func :: string
  parms_no_args :: bool

definition DECLINE_CMD :: string where "DECLINE_CMD = [CHR 0x07, CHR 0x08]"

text \<open>The alias of the base server's list of modules for a virtual host that has none of its own. The second result says whether it was made.\<close>

definition modules_alias :: "'p mod_env \<Rightarrow> nat \<Rightarrow> 'p mod_state \<Rightarrow> (bool \<times> 'p mod_state) res" where
  "modules_alias A s st =
     (if is_virtual A s
      then let st1 = (if scfg_modules st s = None then st\<lparr>scfg_modules := (scfg_modules st)(s := Some None)\<rparr> else st)
           in if scfg_modules st1 s = Some None
              then case scfg_modules st1 (base_server A) of
                  None \<Rightarrow> Inl NullDeref
                | Some None \<Rightarrow> Inr (False, st1)
                | Some (Some h) \<Rightarrow> Inr (True, st1\<lparr>scfg_modules := (scfg_modules st1)(s := Some (Some h))\<rparr>)
              else Inr (False, st1)
      else Inr (False, st))"

definition push_args :: "cmd_parms \<Rightarrow> string option list \<Rightarrow> call_arg list" where
  "push_args parms args = (if parms_no_args parms then [] else concat (map (\<lambda>x. case x of Some s \<Rightarrow> [StrArg s] | None \<Rightarrow> []) args))"

definition call_directive ::
    "'p mod_env \<Rightarrow> nat \<Rightarrow> cmd_parms \<Rightarrow> nat \<Rightarrow> string option list \<Rightarrow> 'p mod_state \<Rightarrow> (string option \<times> 'p mod_state) res" where
  "call_directive A perl parms obj args st =
     (if obj = 0 then Inl NullDeref
      else let (x, st') = run_call A perl (CallMethod (parms_func parms)) ([ObjArg obj, ParmsArg] @ push_args parms args) st;
               retval = (if ret_sv x \<noteq> None \<and> ret_pv x = Some DECLINE_CMD then Some DECLINE_CMD else None)
           in Inr (if err_pv x \<noteq> None then err_pv x else retval, st'))"

definition modperl_module_cmd_take123 ::
    "'p mod_env \<Rightarrow> nat \<Rightarrow> cmd_parms \<Rightarrow> ptr \<Rightarrow> string option \<Rightarrow> string option \<Rightarrow> string option \<Rightarrow> 'p mod_state
      \<Rightarrow> (string option \<times> 'p mod_state) res" where
  "modperl_module_cmd_take123 A perl parms mconfig one two three st =
     (let s = parms_server parms; p = parms_pool parms; minfo = parms_minfo parms;
          (table, st1) = modperl_module_config_table_get perl True st
      in and_then (modules_alias A s st1) (\<lambda>(alias, st2).
         and_then (modperl_module_config_create_obj A perl p mconfig (parms_modname parms) minfo (dir_create minfo) s st2)
           (\<lambda>(errmsg, obj, st3).
         if errmsg \<noteq> None then Inr (errmsg, st3)
         else and_then (let srv_cfg = srv_cfg_of A s (parms_module parms)
                        in if srv_cfg \<noteq> 0
                           then modperl_module_config_create_obj A perl p srv_cfg (parms_modname parms) minfo (srv_create minfo) s st3
                           else Inr (None, 0, st3))
           (\<lambda>(errmsg, srv_obj, st4).
         if errmsg \<noteq> None then Inr (errmsg, st4)
         else and_then (call_directive A perl parms obj [one, two, three] st4) (\<lambda>(retval, st5).
           Inr (retval, if alias then st5\<lparr>scfg_modules := (scfg_modules st5)(s := Some None)\<rparr> else st5))))))"

definition modperl_module_cmd_take1 where
  "modperl_module_cmd_take1 A perl parms mconfig one st = modperl_module_cmd_take123 A perl parms mconfig (Some one) None None st"

definition modperl_module_cmd_take2 where
  "modperl_module_cmd_take2 A perl parms mconfig one two st = modperl_module_cmd_take123 A perl parms mconfig (Some one) two None st"

text \<open>\<open>apr_snprintf\<close> into two bytes keeps one digit; httpd passes 0 or 1.\<close>

definition modperl_module_cmd_flag where
  "modperl_module_cmd_flag A perl parms mconfig flag st =
     modperl_module_cmd_take123 A perl parms mconfig (Some (if flag then ''1'' else ''0'')) None None st"

definition modperl_module_cmd_no_args where
  "modperl_module_cmd_no_args A perl parms mconfig st = modperl_module_cmd_take123 A perl parms mconfig None None None st"

section \<open>\<open>Apache2::Module::get_config\<close>\<close>

text \<open>\<open>v\<close> is the vector of a section, if one was given: what it has for each module. \<open>PL_sv_undef\<close> is \<open>None\<close>.\<close>

definition modperl_module_config_get_obj ::
    "'p mod_env \<Rightarrow> nat \<Rightarrow> string \<Rightarrow> nat \<Rightarrow> (nat \<Rightarrow> ptr) option \<Rightarrow> 'p mod_state \<Rightarrow> nat option res" where
  "modperl_module_config_get_obj A perl name s v st =
     (case scfg_modules st s of
        None \<Rightarrow> Inl NullDeref
      | Some mods \<Rightarrow>
        let vec = (case v of None \<Rightarrow> srv_cfg_of A s | Some f \<Rightarrow> f) in
        (case mods of
           None \<Rightarrow> Inr None
         | Some h \<Rightarrow> (case module_hashes st h name of
             None \<Rightarrow> Inr None
           | Some modp \<Rightarrow>
             if vec modp = 0 then Inr None
             else case fst (modperl_module_config_table_get perl False st) of
                 None \<Rightarrow> Inr None
               | Some table \<Rightarrow> (let obj = modperl_svptr_table_fetch table (vec modp)
                                 in Inr (if obj = 0 then None else Some obj)))))"

section \<open>What the table of an interpreter holds\<close>

definition config_obj :: "nat \<Rightarrow> ptr \<Rightarrow> 'p mod_state \<Rightarrow> nat" where
  "config_obj perl k st = modperl_svptr_table_fetch (config_table perl st) k"

definition obj_at :: "nat \<Rightarrow> ptr \<Rightarrow> 'p mod_state \<Rightarrow> nat option" where
  "obj_at perl k st = tbl_map (config_table perl st) k"

lemma config_obj_at: "config_obj perl k st = (case obj_at perl k st of None \<Rightarrow> 0 | Some v \<Rightarrow> v)"
  by (simp add: config_obj_def obj_at_def fetch_map)

definition put_obj :: "nat \<Rightarrow> ptr \<Rightarrow> nat \<Rightarrow> 'p mod_state \<Rightarrow> 'p mod_state" where
  "put_obj perl k sv st = set_config_table perl (modperl_svptr_table_store (config_table perl st) k sv) st"

definition tables_ok :: "'p mod_state \<Rightarrow> bool" where
  "tables_ok st \<longleftrightarrow> (\<forall>perl. ptr_tbl_inv (config_table perl st) \<and> (\<forall>k. obj_at perl k st \<noteq> None \<longrightarrow> 8 dvd unat k))"

lemma card_aligned: "card {k :: ptr. 8 dvd unat k} \<le> 2 ^ 61"
proof -
  have "inj_on (\<lambda>k :: ptr. unat k div 8) {k. 8 dvd unat k}"
    by (rule inj_onI) (metis dvd_mult_div_cancel mem_Collect_eq word_unat_eq_iff)
  moreover have "(\<lambda>k :: ptr. unat k div 8) ` {k. 8 dvd unat k} \<subseteq> {..<2 ^ 61}"
  proof
    fix x assume "x \<in> (\<lambda>k :: ptr. unat k div 8) ` {k. 8 dvd unat k}"
    then obtain k :: ptr where "x = unat k div 8" by blast
    moreover have "unat k < 2 ^ 64" using unsigned_less [of k] by simp
    ultimately show "x \<in> {..<2 ^ 61}" by (simp add: less_mult_imp_div_less)
  qed
  ultimately have "card {k :: ptr. 8 dvd unat k} \<le> card {..<(2::nat) ^ 61}" by (intro card_inj_on_le) auto
  then show ?thesis by simp
qed

lemma tables_room: "tables_ok st \<Longrightarrow> tbl_room (config_table perl st)"
proof -
  assume ok: "tables_ok st"
  then have "dom (tbl_map (config_table perl st)) \<subseteq> {k. 8 dvd unat k}"
    unfolding tables_ok_def obj_at_def by blast
  then have "card (dom (tbl_map (config_table perl st))) \<le> card {k :: ptr. 8 dvd unat k}" by (intro card_mono) auto
  also have "\<dots> \<le> 2 ^ 61" by (rule card_aligned)
  finally show ?thesis by (simp add: tbl_room_def)
qed

lemma config_table_simps [simp]:
  "config_table perl (set_config_table perl' t st) = (if perl = perl' then t else config_table perl st)"
  "config_table perl (st\<lparr>cfgs := x\<rparr>) = config_table perl st"
  "config_table perl (st\<lparr>cfg_cleanups := y\<rparr>) = config_table perl st"
  "config_table perl (st\<lparr>obj_refs := z\<rparr>) = config_table perl st"
  "config_table perl (st\<lparr>scfg_modules := u\<rparr>) = config_table perl st"
  "config_table perl (st\<lparr>mperl := v\<rparr>) = config_table perl st"
  "config_table perl (obj_inc perl' sv st) = config_table perl st"
  "config_table perl (obj_dec perl' sv st) = config_table perl st"
  by (simp_all add: config_table_def set_config_table_def obj_inc_def obj_dec_def)

lemma set_config_table_fields [simp]:
  "cfgs (set_config_table perl t st) = cfgs st" "cfg_cleanups (set_config_table perl t st) = cfg_cleanups st"
  "obj_refs (set_config_table perl t st) = obj_refs st" "scfg_modules (set_config_table perl t st) = scfg_modules st"
  "mperl (set_config_table perl t st) = mperl st"
  by (simp_all add: set_config_table_def)

lemma obj_inc_fields [simp]:
  "cfgs (obj_inc perl sv st) = cfgs st" "cfg_cleanups (obj_inc perl sv st) = cfg_cleanups st"
  "scfg_modules (obj_inc perl sv st) = scfg_modules st" "mperl (obj_inc perl sv st) = mperl st"
  "cfgs (obj_dec perl sv st) = cfgs st" "cfg_cleanups (obj_dec perl sv st) = cfg_cleanups st"
  "scfg_modules (obj_dec perl sv st) = scfg_modules st" "mperl (obj_dec perl sv st) = mperl st"
  by (simp_all add: obj_inc_def obj_dec_def)

lemma obj_inc_refs: "sv \<noteq> 0 \<Longrightarrow> obj_refs (obj_inc perl sv st) q x = obj_refs st q x + (if q = perl \<and> x = sv then 1 else 0)"
  "obj_refs (obj_inc perl 0 st) = obj_refs st"
  by (simp_all add: obj_inc_def)

lemma obj_dec_refs: "sv \<noteq> 0 \<Longrightarrow> obj_refs (obj_dec perl sv st) q x = obj_refs st q x - (if q = perl \<and> x = sv then 1 else 0)"
  "obj_refs (obj_dec perl 0 st) = obj_refs st"
  by (simp_all add: obj_dec_def)

lemma table_get_create:
  obtains t st1 where "modperl_module_config_table_get perl True st = (t, st1)"
    "\<And>q. config_table q st1 = config_table q st" "cfgs st1 = cfgs st" "cfg_cleanups st1 = cfg_cleanups st" "obj_refs st1 = obj_refs st"
    "scfg_modules st1 = scfg_modules st" "mperl st1 = mperl st" "config_sv st1 perl = Some (Some (config_table perl st))"
    "module_hashes st1 = module_hashes st"
  by (cases "config_sv st perl"; cases "the (config_sv st perl)")
     (auto simp: modperl_module_config_table_get_def modperl_module_config_hash_get_def config_table_def Let_def)

lemma put_obj_at:
  assumes "tables_ok st" "8 dvd unat k"
  shows "tables_ok (put_obj perl k sv st)"
    "obj_at q x (put_obj perl k sv st) = (if q = perl \<and> x = k then Some sv else obj_at q x st)"
proof -
  have i: "ptr_tbl_inv (config_table perl st)" using assms(1) by (simp add: tables_ok_def)
  note m = store_map [OF i tables_room [OF assms(1)], of k sv]
  show at: "obj_at q x (put_obj perl k sv st) = (if q = perl \<and> x = k then Some sv else obj_at q x st)" for q x
    by (simp add: obj_at_def put_obj_def m)
  show "tables_ok (put_obj perl k sv st)"
    using assms m(1) by (auto simp: tables_ok_def at) (auto simp: put_obj_def)
qed

lemma put_obj_fields [simp]:
  "cfgs (put_obj perl k sv st) = cfgs st" "cfg_cleanups (put_obj perl k sv st) = cfg_cleanups st"
  "obj_refs (put_obj perl k sv st) = obj_refs st" "scfg_modules (put_obj perl k sv st) = scfg_modules st"
  "mperl (put_obj perl k sv st) = mperl st"
  by (simp_all add: put_obj_def)

lemma delete_value:
  assumes "ptr_tbl_inv t"
  shows "snd (modperl_svptr_table_delete t k) = tbl_map t k"
proof -
  from assms obtain n where n: "ptr_tbl_ok n t" by (auto simp: ptr_tbl_inv_def)
  have "distinct (tbl_keys (tbl_bucket t (tbl_index t k)))"
    using bucket_keys(1) [OF n tbl_index_less [OF n]] by (simp add: tbl_bucket_ok [OF n tbl_index_less [OF n]])
  then show ?thesis
    by (auto simp: modperl_svptr_table_delete_def tbl_map_def Let_def chain_delete_None map_of_absent [symmetric]
        split: option.splits dest!: chain_delete_Some(2))
qed

lemma cleanup_at:
  assumes "tables_ok st"
  shows "tables_ok (modperl_module_config_obj_cleanup (perl, k) st)"
    "obj_at q x (modperl_module_config_obj_cleanup (perl, k) st) = (if q = perl \<and> x = k then None else obj_at q x st)"
    "sv \<noteq> 0 \<Longrightarrow> obj_refs (modperl_module_config_obj_cleanup (perl, k) st) q sv =
       obj_refs st q sv - (if q = perl \<and> obj_at perl k st = Some sv then 1 else 0)"
    "cfgs (modperl_module_config_obj_cleanup (perl, k) st) = cfgs st"
    "cfg_cleanups (modperl_module_config_obj_cleanup (perl, k) st) = cfg_cleanups st"
    "scfg_modules (modperl_module_config_obj_cleanup (perl, k) st) = scfg_modules st"
proof -
  have i: "ptr_tbl_inv (config_table perl st)" using assms by (simp add: tables_ok_def)
  obtain t v where d: "modperl_svptr_table_delete (config_table perl st) k = (t, v)" by fastforce
  have v: "v = obj_at perl k st" using delete_value [OF i, of k] by (simp add: d obj_at_def)
  have t: "ptr_tbl_inv t" "tbl_map t = (tbl_map (config_table perl st))(k := None)" using delete_map [OF i, of k] by (simp_all add: d)
  have c: "config_table q (modperl_module_config_obj_cleanup (perl, k) st) = (if q = perl then t else config_table q st)" for q
    by (simp add: modperl_module_config_obj_cleanup_def d split: option.split)
  show at: "obj_at q x (modperl_module_config_obj_cleanup (perl, k) st) = (if q = perl \<and> x = k then None else obj_at q x st)" for q x
    by (simp add: obj_at_def c t)
  show "tables_ok (modperl_module_config_obj_cleanup (perl, k) st)"
    using assms t(1) by (auto simp: tables_ok_def at) (auto simp: c)
  show "sv \<noteq> 0 \<Longrightarrow> obj_refs (modperl_module_config_obj_cleanup (perl, k) st) q sv =
       obj_refs st q sv - (if q = perl \<and> obj_at perl k st = Some sv then 1 else 0)"
    by (cases "the v = 0") (auto simp: modperl_module_config_obj_cleanup_def d v [symmetric] obj_dec_refs split: option.split)
  show "cfgs (modperl_module_config_obj_cleanup (perl, k) st) = cfgs st"
    "cfg_cleanups (modperl_module_config_obj_cleanup (perl, k) st) = cfg_cleanups st"
    "scfg_modules (modperl_module_config_obj_cleanup (perl, k) st) = scfg_modules st"
    by (auto simp: modperl_module_config_obj_cleanup_def d split: option.split)
qed

section \<open>The invariant\<close>

definition refs_ok :: "'p mod_env \<Rightarrow> 'p mod_state \<Rightarrow> bool" where
  "refs_ok A st \<longleftrightarrow> (\<forall>q x. x \<noteq> 0 \<longrightarrow> x \<noteq> sv_undef A \<longrightarrow> obj_refs st q x = int (card {k. obj_at q k st = Some x}))"

lemma refs_put:
  assumes r: "refs_ok A st" "tables_ok st" "8 dvd unat k" "config_obj perl k st = 0"
    and same: "\<And>q x. obj_at q x st' = obj_at q x st" "tables_ok st'"
    and refs: "\<And>q x. x \<noteq> 0 \<Longrightarrow> x \<noteq> sv_undef A \<Longrightarrow> obj_refs st' q x = obj_refs st q x + (if q = perl \<and> x = sv then 1 else 0)"
  shows "refs_ok A (put_obj perl k sv st')"
  unfolding refs_ok_def
proof (intro allI impI)
  fix q x assume x: "x \<noteq> (0::nat)" "x \<noteq> sv_undef A"
  note at = put_obj_at(2) [OF same(2) assms(3), of _ _ perl sv]
  have "obj_at perl k st \<noteq> Some x" using r(4) x(1) by (auto simp: config_obj_at)
  then have "{k'. obj_at q k' (put_obj perl k sv st') = Some x} =
      (if q = perl \<and> x = sv then insert k {k'. obj_at q k' st = Some x} else {k'. obj_at q k' st = Some x})"
    by (auto simp: at same(1))
  moreover have "k \<notin> {k'. obj_at q k' st = Some x}" if "q = perl" using \<open>obj_at perl k st \<noteq> Some x\<close> that by simp
  ultimately show "obj_refs (put_obj perl k sv st') q x = int (card {k'. obj_at q k' (put_obj perl k sv st') = Some x})"
    using r(1) x by (auto simp: refs refs_ok_def)
qed

lemma refs_cleanup:
  assumes "refs_ok A st" "tables_ok st"
  shows "refs_ok A (modperl_module_config_obj_cleanup (perl, k) st)"
  unfolding refs_ok_def
proof (intro allI impI)
  fix q x assume x: "x \<noteq> (0::nat)" "x \<noteq> sv_undef A"
  have "{k'. obj_at q k' (modperl_module_config_obj_cleanup (perl, k) st) = Some x} =
      (if q = perl then {k'. obj_at q k' st = Some x} - {k} else {k'. obj_at q k' st = Some x})"
    by (auto simp: cleanup_at(2) [OF assms(2)])
  moreover have "int (card ({k'. obj_at perl k' st = Some x} - {k})) =
      int (card {k'. obj_at perl k' st = Some x}) - (if obj_at perl k st = Some x then 1 else 0)"
  proof (cases "obj_at perl k st = Some x")
    case True
    then have "card {k'. obj_at perl k' st = Some x} > 0" by (auto simp: card_gt_0_iff)
    with True show ?thesis by (simp add: of_nat_diff)
  qed simp
  ultimately show "obj_refs (modperl_module_config_obj_cleanup (perl, k) st) q x =
      int (card {k'. obj_at q k' (modperl_module_config_obj_cleanup (perl, k) st) = Some x})"
    using assms(1) x by (auto simp: cleanup_at(3) [OF assms(2)] refs_ok_def)
qed

definition minfo_ok :: "'p mod_env \<Rightarrow> module_info \<Rightarrow> bool" where
  "minfo_ok A m \<longleftrightarrow> (\<forall>x \<in> {dir_create m, dir_merge m, srv_create m, srv_merge m}.
     x \<noteq> None \<longrightarrow> (\<exists>s. x = Some (modperl_mgv_compile (hash_of A) s)))"

definition cfgs_ok :: "'p mod_env \<Rightarrow> 'p mod_state \<Rightarrow> bool" where
  "cfgs_ok A st \<longleftrightarrow> (\<forall>a q c. cfgs st a = Some (q, c) \<longrightarrow> a \<noteq> 0 \<and> 8 dvd unat a \<and>
     (cfg_server c \<noteq> None \<longrightarrow> (\<exists>m. cfg_minfo c = Some m \<and> minfo_ok A m)))"

definition live_keys :: "'p mod_env \<Rightarrow> 'p mod_state \<Rightarrow> bool" where
  "live_keys A st \<longleftrightarrow> (\<forall>perl k. obj_at perl k st \<noteq> None \<longrightarrow>
     (\<exists>q c. cfgs st k = Some (q, c) \<and> (q \<noteq> pconf A \<longrightarrow> (q, perl, k) \<in> set (cfg_cleanups st))))"

definition mod_inv :: "'p mod_env \<Rightarrow> 'p mod_state \<Rightarrow> bool" where
  "mod_inv A st \<longleftrightarrow> tables_ok st \<and> refs_ok A st \<and> cfgs_ok A st \<and> live_keys A st"

text \<open>What the model relies on of Perl: names that were compiled are looked up in the symbol tables without harm, a call in scalar
context leaves one value, and that is \<open>undef\<close> when the call died.\<close>

definition mod_laws :: "'p mod_env \<Rightarrow> bool" where
  "mod_laws A \<longleftrightarrow>
     (\<forall>perl pl s. \<exists>g. modperl_mgv_lookup (hash_of A) (defstash A perl pl) (modperl_mgv_compile (hash_of A) s) = Inr g \<and> (\<forall>c. g \<noteq> ClassName c)) \<and>
     (\<forall>perl f args pl. \<exists>sv. ret_sv (fst (perl_call A perl f args pl)) = Some sv \<and> sv \<noteq> 0 \<and>
        (err_pv (fst (perl_call A perl f args pl)) \<noteq> None \<longrightarrow> sv = sv_undef A)) \<and>
     (\<forall>perl c pl. fst (bless_new A perl c pl) \<noteq> 0)"

lemma find_gv_ok:
  assumes "mod_laws A" "x \<noteq> None \<longrightarrow> (\<exists>s. x = Some (modperl_mgv_compile (hash_of A) s))"
  shows "\<exists>g. find_gv A perl st x = Inr g"
proof (cases x)
  case (Some m)
  with assms(2) obtain s where "x = Some (modperl_mgv_compile (hash_of A) s)" by auto
  moreover from assms(1) obtain g where "modperl_mgv_lookup (hash_of A) (defstash A perl (mperl st)) (modperl_mgv_compile (hash_of A) s) = Inr g"
      "\<forall>c. g \<noteq> ClassName c" unfolding mod_laws_def by blast
  ultimately show ?thesis by (cases g) (auto simp: find_gv_def)
qed (simp add: find_gv_def)

lemma put_inv:
  assumes i: "mod_inv A st" and fresh: "config_obj perl k st = 0"
    and st': "\<And>q. config_table q st' = config_table q st" "cfgs_ok A st'"
      "\<And>a q c. cfgs st a = Some (q, c) \<Longrightarrow> \<exists>c'. cfgs st' a = Some (q, c')" "set (cfg_cleanups st) \<subseteq> set (cfg_cleanups st')"
    and refs: "\<And>q x. x \<noteq> 0 \<Longrightarrow> x \<noteq> sv_undef A \<Longrightarrow> obj_refs st' q x = obj_refs st q x + (if q = perl \<and> x = sv then 1 else 0)"
    and k: "cfgs st' k = Some (q, c)" "q \<noteq> pconf A \<Longrightarrow> (q, perl, k) \<in> set (cfg_cleanups st')"
  shows "mod_inv A (put_obj perl k sv st')"
proof -
  have t: "tables_ok st" "refs_ok A st" "live_keys A st" using i by (auto simp: mod_inv_def)
  have al: "8 dvd unat k" using st'(2) k(1) by (auto simp: cfgs_ok_def)
  have at: "obj_at q x st' = obj_at q x st" for q x by (simp add: obj_at_def st'(1))
  have t': "tables_ok st'" using t(1) by (simp add: tables_ok_def at st'(1))
  have "live_keys A (put_obj perl k sv st')"
    unfolding live_keys_def put_obj_at(2) [OF t' al] put_obj_fields
  proof (intro allI impI)
    fix p x assume a: "(if p = perl \<and> x = k then Some sv else obj_at p x st') \<noteq> None"
    show "\<exists>q c. cfgs st' x = Some (q, c) \<and> (q \<noteq> pconf A \<longrightarrow> (q, p, x) \<in> set (cfg_cleanups st'))"
    proof (cases "p = perl \<and> x = k")
      case False
      with a have "obj_at p x st \<noteq> None" using at by simp
      with t(3) obtain q c where "cfgs st x = Some (q, c)" "q \<noteq> pconf A \<longrightarrow> (q, p, x) \<in> set (cfg_cleanups st)"
        unfolding live_keys_def by blast
      with st'(3,4) show ?thesis by blast
    qed (use k in auto)
  qed
  moreover have "refs_ok A (put_obj perl k sv st')" by (rule refs_put [OF t(2,1) al fresh at t' refs])
  ultimately show ?thesis using put_obj_at(1) [OF t' al] st'(2) by (simp add: mod_inv_def cfgs_ok_def)
qed

lemma inv_cong:
  assumes i: "mod_inv A st"
    and st': "\<And>q. config_table q st' = config_table q st" "cfgs_ok A st'"
      "\<And>a q c. cfgs st a = Some (q, c) \<Longrightarrow> \<exists>c'. cfgs st' a = Some (q, c')" "set (cfg_cleanups st) \<subseteq> set (cfg_cleanups st')"
    and refs: "\<And>q x. x \<noteq> 0 \<Longrightarrow> x \<noteq> sv_undef A \<Longrightarrow> obj_refs st' q x = obj_refs st q x"
  shows "mod_inv A st'"
proof -
  have at: "obj_at q x st' = obj_at q x st" for q x by (simp add: obj_at_def st'(1))
  have "live_keys A st'"
    unfolding live_keys_def at
  proof (intro allI impI)
    fix p x assume "obj_at p x st \<noteq> None"
    with i obtain q c where "cfgs st x = Some (q, c)" "q \<noteq> pconf A \<longrightarrow> (q, p, x) \<in> set (cfg_cleanups st)"
      unfolding mod_inv_def live_keys_def by blast
    with st'(3,4) show "\<exists>q c. cfgs st' x = Some (q, c) \<and> (q \<noteq> pconf A \<longrightarrow> (q, p, x) \<in> set (cfg_cleanups st'))" by blast
  qed
  then show ?thesis using i st' refs by (simp add: mod_inv_def tables_ok_def refs_ok_def at)
qed

lemma call_value:
  assumes "mod_laws A" "run_call A perl f args st = (x, st')"
  obtains sv where "ret_sv x = Some sv" "sv \<noteq> 0" "err_pv x \<noteq> None \<Longrightarrow> sv = sv_undef A" "st' = st\<lparr>mperl := mperl st'\<rparr>"
    "keep_value perl x st' = (sv, obj_inc perl sv st')"
proof -
  have x: "x = fst (perl_call A perl f args (mperl st))" "st' = st\<lparr>mperl := mperl st'\<rparr>"
    using assms(2) by (auto simp: run_call_def split: prod.splits)
  from assms(1) obtain sv where "ret_sv x = Some sv" "sv \<noteq> 0" "err_pv x \<noteq> None \<longrightarrow> sv = sv_undef A"
    unfolding mod_laws_def x(1) by blast
  with x(2) that show thesis by (auto simp: keep_value_def)
qed

lemma cfgs_ok_upd: "cfgs_ok A st \<Longrightarrow> a \<noteq> 0 \<Longrightarrow> 8 dvd unat a \<Longrightarrow>
    (cfg_server c \<noteq> None \<longrightarrow> (\<exists>m. cfg_minfo c = Some m \<and> minfo_ok A m)) \<Longrightarrow> cfgs_ok A (st\<lparr>cfgs := (cfgs st)(a \<mapsto> (q, c))\<rparr>)"
  by (auto simp: cfgs_ok_def)

lemma cfgs_ok_cong: "cfgs_ok A st \<Longrightarrow> cfgs st' = cfgs st \<Longrightarrow> cfgs_ok A st'"
  by (simp add: cfgs_ok_def)

text \<open>The part of a state that no directive or merge takes away: the structures with their pools, the registered cleanups, the lists of modules.\<close>

definition keeps_cfgs :: "'p mod_state \<Rightarrow> 'p mod_state \<Rightarrow> bool" where
  "keeps_cfgs st st' \<longleftrightarrow> (\<forall>a q c. cfgs st a = Some (q, c) \<longrightarrow> (\<exists>c'. cfgs st' a = Some (q, c'))) \<and>
     set (cfg_cleanups st) \<subseteq> set (cfg_cleanups st') \<and> module_hashes st' = module_hashes st"

lemma keeps_cfgs_refl [simp]: "keeps_cfgs st st"
  by (simp add: keeps_cfgs_def)

lemma keeps_cfgs_trans: "keeps_cfgs st st' \<Longrightarrow> keeps_cfgs st' st'' \<Longrightarrow> keeps_cfgs st st''"
  by (fastforce simp: keeps_cfgs_def)

lemma hashes_same [simp]:
  "module_hashes (obj_inc perl sv st) = module_hashes st" "module_hashes (set_config_table perl t st) = module_hashes st"
  "module_hashes (put_obj perl k sv st) = module_hashes st"
  by (simp_all add: obj_inc_def set_config_table_def put_obj_def)

lemma create_obj_new:
  assumes laws: "mod_laws A" and i: "mod_inv A st" and k: "cfgs st k = Some (q, c)" "q = p \<or> q = pconf A"
    and m: "minfo_ok A minfo" "meth \<in> {dir_create minfo, srv_create minfo}" and none: "config_obj perl k st = 0"
  obtains err obj st' where
    "modperl_module_config_create_obj A perl p k name minfo meth s st = Inr (err, obj, st')" "mod_inv A st'" "obj \<noteq> 0"
    "err = None \<Longrightarrow> config_obj perl k st' = obj" "scfg_modules st' = scfg_modules st" "keeps_cfgs st st'"
    "\<And>r x. r \<noteq> perl \<or> x \<noteq> k \<Longrightarrow> obj_at r x st' = obj_at r x st"
    "set (cfg_cleanups st') \<subseteq> insert (p, perl, k) (set (cfg_cleanups st))"
    "p \<noteq> pconf A \<Longrightarrow> obj_at perl k st' \<noteq> obj_at perl k st \<Longrightarrow> (p, perl, k) \<in> set (cfg_cleanups st')"
    "\<exists>c'. cfgs st' = (cfgs st)(k \<mapsto> (q, c'))"
proof -
  let ?c = "\<lparr>cfg_server = Some s, cfg_minfo = Some minfo\<rparr>"
  let ?st1 = "st\<lparr>cfgs := (cfgs st)(k \<mapsto> (q, ?c))\<rparr>"
  let ?cls = "take (namelen minfo) name"
  have ok: "cfgs_ok A st" using i by (simp add: mod_inv_def)
  then have k0: "k \<noteq> 0" "8 dvd unat k" using k(1) unfolding cfgs_ok_def by blast+
  have at: "cfg_at k st = Inr c" using k(1) k0 by (simp add: cfg_at_def)
  have ok1: "cfgs_ok A ?st1" by (rule cfgs_ok_upd [OF ok k0]) (simp add: m(1))
  have keep1: "keeps_cfgs st ?st1" using k(1) by (auto simp: keeps_cfgs_def)
  obtain gv where gv: "find_gv A perl ?st1 meth = Inr gv"
    using find_gv_ok [OF laws] m by (metis (no_types, lifting) insert_iff minfo_ok_def singletonD)
  define res where "res = (case gv of
              Some cv \<Rightarrow> (let (x, st') = run_call A perl (CallCV cv) [ClassArg ?cls, ParmsArg] ?st1;
                             (sv, st'') = keep_value perl x st' in (err_pv x, sv, st''))
            | None \<Rightarrow> (let (sv, pl) = bless_new A perl ?cls (mperl ?st1)
                       in (None, sv, obj_inc perl sv (?st1\<lparr>mperl := pl\<rparr>))))"
  obtain err obj st2 where res: "res = (err, obj, st2)" by (cases res) auto
  have "obj \<noteq> 0 \<and> (err \<noteq> None \<longrightarrow> obj = sv_undef A) \<and> (\<exists>pl. st2 = obj_inc perl obj (?st1\<lparr>mperl := pl\<rparr>))"
  proof (cases gv)
    case None
    then have r: "obj = fst (bless_new A perl ?cls (mperl ?st1))" "err = None" "\<exists>pl. st2 = obj_inc perl obj (?st1\<lparr>mperl := pl\<rparr>)"
      using res by (auto simp: res_def split: prod.splits)
    then show ?thesis using laws unfolding mod_laws_def by blast
  next
    case (Some cv)
    obtain x st' where x: "run_call A perl (CallCV cv) [ClassArg ?cls, ParmsArg] ?st1 = (x, st')" by fastforce
    obtain sv where sv: "sv \<noteq> 0" "err_pv x \<noteq> None \<Longrightarrow> sv = sv_undef A" "st' = ?st1\<lparr>mperl := mperl st'\<rparr>"
      "keep_value perl x st' = (sv, obj_inc perl sv st')" using call_value [OF laws x] by metis
    have "(err_pv x, sv, obj_inc perl sv st') = (err, obj, st2)" unfolding res [symmetric] by (simp add: res_def Some x sv(4))
    then have e: "err = err_pv x" "obj = sv" "st2 = obj_inc perl sv st'" by auto
    have "st2 = obj_inc perl obj (?st1\<lparr>mperl := mperl st'\<rparr>)" unfolding e using sv(3) by simp
    with sv(1,2) show ?thesis unfolding e by blast
  qed
  then obtain pl where o: "obj \<noteq> 0" "err \<noteq> None \<Longrightarrow> obj = sv_undef A" "st2 = obj_inc perl obj (?st1\<lparr>mperl := pl\<rparr>)" by blast
  have f2: "cfgs st2 = cfgs ?st1" "cfg_cleanups st2 = cfg_cleanups st" "scfg_modules st2 = scfg_modules st"
    "\<And>r. config_table r st2 = config_table r st" "module_hashes st2 = module_hashes st" by (simp_all add: o(3))
  have refs2: "obj_refs st2 r x = obj_refs st r x + (if r = perl \<and> x = obj then 1 else 0)" for r x
    by (simp add: o(3) obj_inc_refs(1) [OF o(1)])
  define st3 where "st3 = (if p = pconf A then st2 else modperl_module_config_obj_cleanup_register perl p k st2)"
  have f3: "cfgs st3 = cfgs ?st1" "set (cfg_cleanups st) \<subseteq> set (cfg_cleanups st3)" "scfg_modules st3 = scfg_modules st"
    "\<And>r. config_table r st3 = config_table r st" "obj_refs st3 = obj_refs st2" "module_hashes st3 = module_hashes st"
    "p \<noteq> pconf A \<Longrightarrow> (p, perl, k) \<in> set (cfg_cleanups st3)"
    by (auto simp: st3_def f2 modperl_module_config_obj_cleanup_register_def)
  have run: "modperl_module_config_create_obj A perl p k name minfo meth s st =
      Inr (if err \<noteq> None then (err, obj, st2) else (None, obj, put_obj perl k obj st3))"
    using none k(1)
    by (simp add: modperl_module_config_create_obj_def config_obj_def Let_def at gv res_def [symmetric] res st3_def [symmetric] put_obj_def)
  have keep2: "keeps_cfgs st st2" using keep1 f2 by (simp add: keeps_cfgs_def)
  have keep3: "keeps_cfgs st (put_obj perl k obj st3)" using keep1 f3 by (auto simp: keeps_cfgs_def)
  show thesis
  proof (cases "err = None")
    case True
    have ok3: "cfgs_ok A st3" using ok1 f3(1) by (rule cfgs_ok_cong)
    have inv3: "mod_inv A (put_obj perl k obj st3)"
    proof (rule put_inv [OF i none f3(4) ok3 _ f3(2)])
      show "\<And>a q c. cfgs st a = Some (q, c) \<Longrightarrow> \<exists>c'. cfgs st3 a = Some (q, c')" using keep1 f3(1) by (auto simp: keeps_cfgs_def)
      show "cfgs st3 k = Some (q, ?c)" by (simp add: f3(1))
      show "q \<noteq> pconf A \<Longrightarrow> (q, perl, k) \<in> set (cfg_cleanups st3)" using k(2) f3(7) by auto
    qed (simp add: f3(5) refs2)
    have t3: "tables_ok st3" using i by (simp add: mod_inv_def tables_ok_def obj_at_def f3(4))
    note put = put_obj_at(2) [OF t3 k0(2)]
    show thesis
    proof (rule that [of None obj "put_obj perl k obj st3"])
      show "set (cfg_cleanups (put_obj perl k obj st3)) \<subseteq> insert (p, perl, k) (set (cfg_cleanups st))"
        by (auto simp: st3_def f2 modperl_module_config_obj_cleanup_register_def)
    qed (use run True inv3 o(1) keep3 f3 put in \<open>auto simp: config_obj_at obj_at_def [of _ _ st3] obj_at_def [of _ _ st]\<close>)
  next
    case False
    have "mod_inv A st2"
    proof (rule inv_cong [OF i f2(4)])
      show "cfgs_ok A st2" by (rule cfgs_ok_cong [OF ok1 f2(1)])
      show "\<And>a q c. cfgs st a = Some (q, c) \<Longrightarrow> \<exists>c'. cfgs st2 a = Some (q, c')" using keep2 by (auto simp: keeps_cfgs_def)
    qed (use f2 refs2 o(2) [OF False] in simp_all)
    then show thesis
      by (rule that [of err obj st2, rotated])
         (use run False o(1) keep2 f2 in \<open>auto simp: obj_at_def\<close>)
  qed
qed

section \<open>What one operation does to the state\<close>

text \<open>The objects that are not going to be removed with the pool \<open>p\<close>.\<close>

definition outside :: "nat \<Rightarrow> nat \<Rightarrow> ptr \<Rightarrow> 'p mod_state \<Rightarrow> nat" where
  "outside p r x st = (if (p, r, x) \<in> set (cfg_cleanups st) then 0 else config_obj r x st)"

definition step_ok :: "'p mod_env \<Rightarrow> nat \<Rightarrow> 'p mod_state \<Rightarrow> 'p mod_state \<Rightarrow> bool" where
  "step_ok A p st st' \<longleftrightarrow> mod_inv A st' \<and> keeps_cfgs st st' \<and>
     (p \<noteq> pconf A \<longrightarrow> (\<forall>r x. outside p r x st' = outside p r x st))"

lemma step_ok_refl: "mod_inv A st \<Longrightarrow> step_ok A p st st"
  by (simp add: step_ok_def)

lemma step_ok_trans: "step_ok A p st st' \<Longrightarrow> step_ok A p st' st'' \<Longrightarrow> step_ok A p st st''"
  unfolding step_ok_def using keeps_cfgs_trans by auto

text \<open>A step that gives an object to one key that had none, and registers a cleanup for it outside of start-up.\<close>

lemma step_okI:
  assumes i: "mod_inv A st'" "keeps_cfgs st st'" and none: "config_obj perl k st = 0"
    and at: "\<And>r x. r \<noteq> perl \<or> x \<noteq> k \<Longrightarrow> obj_at r x st' = obj_at r x st"
    and c: "set (cfg_cleanups st') \<subseteq> insert (p, perl, k) (set (cfg_cleanups st))"
    and reg: "p \<noteq> pconf A \<Longrightarrow> obj_at perl k st' \<noteq> obj_at perl k st \<Longrightarrow> (p, perl, k) \<in> set (cfg_cleanups st')"
  shows "step_ok A p st st'"
  unfolding step_ok_def
proof (intro conjI allI impI)
  fix r x assume p: "p \<noteq> pconf A"
  have sub: "set (cfg_cleanups st) \<subseteq> set (cfg_cleanups st')" using i(2) by (simp add: keeps_cfgs_def)
  show "outside p r x st' = outside p r x st"
  proof (cases "r = perl \<and> x = k")
    case True
    show ?thesis
    proof (cases "(p, perl, k) \<in> set (cfg_cleanups st')")
      case False
      then have "obj_at perl k st' = obj_at perl k st" using reg [OF p] by blast
      then have "config_obj perl k st' = config_obj perl k st" by (simp add: config_obj_at)
      with False True sub show ?thesis by (auto simp: outside_def)
    qed (use True none in \<open>auto simp: outside_def\<close>)
  next
    case False
    then have "(p, r, x) \<in> set (cfg_cleanups st') \<longleftrightarrow> (p, r, x) \<in> set (cfg_cleanups st)" using c sub by auto
    with at [of r x] False show ?thesis by (simp add: outside_def config_obj_at)
  qed
qed (use i in simp_all)

lemma create_obj_step:
  assumes laws: "mod_laws A" and i: "mod_inv A st" and k: "cfgs st k = Some (q, c)" "q = p \<or> q = pconf A"
    and m: "minfo_ok A minfo" "meth \<in> {dir_create minfo, srv_create minfo}"
  obtains err obj st' where
    "modperl_module_config_create_obj A perl p k name minfo meth s st = Inr (err, obj, st')" "step_ok A p st st'" "obj \<noteq> 0"
    "err = None \<Longrightarrow> config_obj perl k st' = obj" "scfg_modules st' = scfg_modules st"
    "\<And>x. config_obj perl x st \<noteq> 0 \<Longrightarrow> config_obj perl x st' = config_obj perl x st"
    "\<And>r x. r \<noteq> perl \<or> x \<noteq> k \<Longrightarrow> obj_at r x st' = obj_at r x st"
proof (cases "config_obj perl k st = 0")
  case True
  obtain err obj st' where o:
    "modperl_module_config_create_obj A perl p k name minfo meth s st = Inr (err, obj, st')" "mod_inv A st'" "obj \<noteq> 0"
    "err = None \<Longrightarrow> config_obj perl k st' = obj" "scfg_modules st' = scfg_modules st" "keeps_cfgs st st'"
    "\<And>r x. r \<noteq> perl \<or> x \<noteq> k \<Longrightarrow> obj_at r x st' = obj_at r x st"
    "set (cfg_cleanups st') \<subseteq> insert (p, perl, k) (set (cfg_cleanups st))"
    "p \<noteq> pconf A \<Longrightarrow> obj_at perl k st' \<noteq> obj_at perl k st \<Longrightarrow> (p, perl, k) \<in> set (cfg_cleanups st')"
    by (rule create_obj_new [OF laws i k m True, of name s]) blast
  have "config_obj perl x st' = config_obj perl x st" if "config_obj perl x st \<noteq> 0" for x
    using that o(7) [of perl x] True by (cases "x = k") (auto simp: config_obj_at)
  with that [OF o(1) step_okI [OF o(2,6) True o(7,8,9)] o(3,4,5) _ o(7)] show thesis by blast
next
  case False
  then have "modperl_module_config_create_obj A perl p k name minfo meth s st = Inr (None, config_obj perl k st, st)"
    by (simp add: modperl_module_config_create_obj_def config_obj_def Let_def)
  from that [OF this step_ok_refl [OF i] False] show thesis by simp
qed

lemma merge_none:
  assumes i: "mod_inv A st" and t: "modperl_module_config_table_get perl True st = (t, st1)"
    "\<And>q. config_table q st1 = config_table q st" "cfgs st1 = cfgs st" "cfg_cleanups st1 = cfg_cleanups st" "obj_refs st1 = obj_refs st"
    "module_hashes st1 = module_hashes st"
  shows "step_ok A p st st1"
proof -
  have "mod_inv A st1"
    by (rule inv_cong [OF i t(2)]) (use i t in \<open>auto simp: mod_inv_def intro: cfgs_ok_cong\<close>)
  then show ?thesis using t by (simp add: step_ok_def keeps_cfgs_def outside_def config_obj_def)
qed

definition fresh_cfg :: "ptr \<Rightarrow> 'p mod_state \<Rightarrow> bool" where
  "fresh_cfg a st \<longleftrightarrow> cfgs st a = None \<and> a \<noteq> 0 \<and> 8 dvd unat a"

definition live_or_null :: "ptr \<Rightarrow> 'p mod_state \<Rightarrow> bool" where
  "live_or_null a st \<longleftrightarrow> a = 0 \<or> cfgs st a \<noteq> None"

definition base_has_server :: "ptr \<Rightarrow> 'p mod_state \<Rightarrow> bool" where
  "base_has_server base st \<longleftrightarrow> (\<exists>q c. base \<noteq> 0 \<and> cfgs st base = Some (q, c) \<and> cfg_server c \<noteq> None)"

lemma fresh_no_obj: "mod_inv A st \<Longrightarrow> cfgs st a = None \<Longrightarrow> obj_at perl a st = None"
  unfolding mod_inv_def live_keys_def by (metis option.distinct(1))

lemma new_cfg_step:
  assumes i: "mod_inv A st" and a: "fresh_cfg a st" and c: "cfg_server c \<noteq> None \<longrightarrow> (\<exists>m. cfg_minfo c = Some m \<and> minfo_ok A m)"
  shows "step_ok A p st (st\<lparr>cfgs := (cfgs st)(a \<mapsto> (q, c))\<rparr>)"
proof -
  let ?st' = "st\<lparr>cfgs := (cfgs st)(a \<mapsto> (q, c))\<rparr>"
  have ok: "cfgs_ok A ?st'" by (rule cfgs_ok_upd) (use i a c in \<open>auto simp: mod_inv_def fresh_cfg_def\<close>)
  have keep: "keeps_cfgs st ?st'" using a by (auto simp: keeps_cfgs_def fresh_cfg_def)
  have "mod_inv A ?st'"
    by (rule inv_cong [OF i _ ok]) (use keep in \<open>auto simp: keeps_cfgs_def\<close>)
  with keep show ?thesis by (simp add: step_ok_def outside_def config_obj_def)
qed

lemma put_register: "modperl_module_config_obj_cleanup_register perl p a (put_obj perl k obj st) =
    put_obj perl k obj (modperl_module_config_obj_cleanup_register perl p a st)"
  by (simp add: put_obj_def modperl_module_config_obj_cleanup_register_def set_config_table_def config_table_def)

lemma merge_step:
  assumes laws: "mod_laws A" and i: "mod_inv A st" and a: "fresh_cfg a st"
    and live: "live_or_null base st" "live_or_null add st" and tmp: "base_has_server base st \<or> add \<noteq> 0"
  obtains r st' where "modperl_module_config_merge A perl p a base add typ st = Inr (r, st')" "step_ok A p st st'"
    "scfg_modules st' = scfg_modules st" "\<And>x. config_obj perl x st \<noteq> 0 \<Longrightarrow> config_obj perl x st' = config_obj perl x st"
proof -
  define tmpp where "tmpp = (if base_has_server base st then base else add)"
  have tmp0: "tmpp \<noteq> 0" using tmp by (auto simp: tmpp_def base_has_server_def)
  have "live_or_null tmpp st" using live by (simp add: tmpp_def)
  then obtain q tc where tc: "cfgs st tmpp = Some (q, tc)" using tmp0 by (auto simp: live_or_null_def)
  have first: "(if base = 0 then Inr None else and_then (cfg_at base st) (\<lambda>c. Inr (cfg_server c))) =
      (Inr (if base = 0 then None else cfg_server (snd (the (cfgs st base)))) :: nat option res)"
    using live(1) by (auto simp: cfg_at_def live_or_null_def)
  have pick: "(if (if base = 0 then None else cfg_server (snd (the (cfgs st base)))) \<noteq> None then base else add) = tmpp"
    using live(1) by (auto simp: tmpp_def base_has_server_def live_or_null_def)
  have at: "cfg_at tmpp st = Inr tc" using tc tmp0 by (simp add: cfg_at_def)
  note run = modperl_module_config_merge_def [of A perl p a base add "typ" st, unfolded first and_then_Inr Let_def pick at]
  show thesis
  proof (cases "cfg_server tc = None")
    case True
    then have "modperl_module_config_merge A perl p a base add typ st = Inr (base, st)" by (simp add: run tmp0 at)
    then show thesis by (rule that) (simp_all add: step_ok_refl i)
  next
    case False
    then obtain srvr where srv: "cfg_server tc = Some srvr" by blast
    obtain t st1 where t: "modperl_module_config_table_get perl True st = (t, st1)"
      "\<And>q. config_table q st1 = config_table q st" "cfgs st1 = cfgs st" "cfg_cleanups st1 = cfg_cleanups st" "obj_refs st1 = obj_refs st"
      "scfg_modules st1 = scfg_modules st" "mperl st1 = mperl st" "module_hashes st1 = module_hashes st"
      by (rule table_get_create [of perl st]) blast
    have s1: "step_ok A p st st1" by (rule merge_none [OF i t(1-5,8)])
    let ?b = "config_obj perl base st" and ?a = "config_obj perl add st"
    show thesis
    proof (cases "?b = 0 \<or> ?b = ?a")
      case True
      then have "modperl_module_config_merge A perl p a base add typ st = Inr (add, st1)"
        using srv by (simp add: run tmp0 at t(1,2) config_obj_def)
      then show thesis by (rule that) (simp_all add: s1 t config_obj_def)
    next
      case False
      have i1: "mod_inv A st1" using s1 by (simp add: step_ok_def)
      have a1: "fresh_cfg a st1" using a by (simp add: fresh_cfg_def t(3))
      obtain m where m: "cfg_minfo tc = Some m" "minfo_ok A m"
        using i tc srv unfolding mod_inv_def cfgs_ok_def by blast
      define st3 where "st3 = st1\<lparr>cfgs := (cfgs st1)(a \<mapsto> (p, tc))\<rparr>"
      have st3_eq: "st1\<lparr>cfgs := (cfgs st)(a \<mapsto> (p, tc))\<rparr> = st3" by (simp add: st3_def t(3))
      have s3: "step_ok A p st1 st3" unfolding st3_def by (rule new_cfg_step [OF i1 a1]) (use m in simp)
      define meth where "meth = (if typ = MP_CFG_MERGE_DIR then dir_merge m else srv_merge m)"
      obtain gv where gv: "find_gv A perl st3 meth = Inr gv"
      proof -
        have "meth \<in> {dir_create m, dir_merge m, srv_create m, srv_merge m}" by (simp add: meth_def)
        with m(2) have "meth \<noteq> None \<longrightarrow> (\<exists>s. meth = Some (modperl_mgv_compile (hash_of A) s))" unfolding minfo_ok_def by blast
        from find_gv_ok [OF laws this, of perl st3] that show ?thesis by blast
      qed
      obtain obj pl where o: "(case gv of
              Some cv \<Rightarrow> (let (x, st') = run_call A perl (CallCV cv) [ObjArg ?b, ObjArg ?a] st3 in keep_value perl x st')
            | None \<Rightarrow> (?a, obj_inc perl ?a st3)) = (obj, obj_inc perl obj (st3\<lparr>mperl := pl\<rparr>))"
      proof (cases gv)
        case None
        have "st3 = st3\<lparr>mperl := mperl st3\<rparr>" by simp
        with that [of ?a "mperl st3"] None show ?thesis by simp
      next
        case (Some cv)
        obtain x st' where x: "run_call A perl (CallCV cv) [ObjArg ?b, ObjArg ?a] st3 = (x, st')" by fastforce
        obtain sv where "st' = st3\<lparr>mperl := mperl st'\<rparr>" "keep_value perl x st' = (sv, obj_inc perl sv st')"
          using call_value [OF laws x] by metis
        with that [of sv "mperl st'"] Some x show ?thesis by simp
      qed
      define st5 where "st5 = obj_inc perl obj (st3\<lparr>mperl := pl\<rparr>)"
      define st6 where "st6 = (if p = pconf A then st5 else modperl_module_config_obj_cleanup_register perl p a st5)"
      have conf: "config_obj perl x st = modperl_svptr_table_fetch (config_table perl st) x" for x by (simp add: config_obj_def)
      have res: "modperl_module_config_merge A perl p a base add typ st = Inr (a, put_obj perl a obj st6)"
        using srv False gv o [unfolded Let_def]
        by (simp cong: option.case_cong add: run tmp0 at t(1,2) conf [symmetric] modperl_module_cfg_new_def m(1) st3_eq meth_def [symmetric] st5_def [symmetric]
              put_obj_def [symmetric] st6_def put_register t(3))
      have i3: "mod_inv A st3" using s3 by (simp add: step_ok_def)
      have t3: "config_table r st3 = config_table r st" for r by (simp add: st3_def t(2))
      have f6: "cfgs st6 = cfgs st3" "set (cfg_cleanups st3) \<subseteq> set (cfg_cleanups st6)" "\<And>r. config_table r st6 = config_table r st3"
        "scfg_modules st6 = scfg_modules st" "set (cfg_cleanups st6) \<subseteq> insert (p, perl, a) (set (cfg_cleanups st3))"
        "p \<noteq> pconf A \<Longrightarrow> (p, perl, a) \<in> set (cfg_cleanups st6)" "module_hashes st6 = module_hashes st3"
        by (auto simp: st6_def st5_def st3_def t(6) modperl_module_config_obj_cleanup_register_def)
      have none: "obj_at perl a st3 = None" "config_obj perl a st3 = 0"
        using fresh_no_obj [OF i, of a perl] a by (auto simp: fresh_cfg_def obj_at_def config_obj_at t3)
      have al: "8 dvd unat a" using a by (simp add: fresh_cfg_def)
      have inv: "mod_inv A (put_obj perl a obj st6)"
      proof (rule put_inv [OF i3 none(2) f6(3) _ _ f6(2)])
        show "cfgs_ok A st6" by (rule cfgs_ok_cong [OF _ f6(1)]) (use i3 in \<open>simp add: mod_inv_def\<close>)
        show "cfgs st6 a = Some (p, tc)" by (simp add: f6(1) st3_def)
        show "obj_refs st6 q x = obj_refs st3 q x + (if q = perl \<and> x = obj then 1 else 0)" if "x \<noteq> 0" for q x
          using that by (cases "obj = 0") (auto simp: st6_def st5_def obj_inc_refs modperl_module_config_obj_cleanup_register_def)
      qed (use f6(1,6) in auto)
      have t6: "tables_ok st6" using i3 by (simp add: mod_inv_def tables_ok_def obj_at_def f6(3))
      note put = put_obj_at(2) [OF t6 al]
      have at6: "obj_at r x (put_obj perl a obj st6) = (if r = perl \<and> x = a then Some obj else obj_at r x st3)" for r x
        by (simp add: put) (simp add: obj_at_def f6(3))
      have "step_ok A p st3 (put_obj perl a obj st6)"
      proof (rule step_okI [OF inv _ none(2)])
        show "keeps_cfgs st3 (put_obj perl a obj st6)" using f6 by (simp add: keeps_cfgs_def)
      qed (use f6 in \<open>auto simp: at6\<close>)
      then have "step_ok A p st (put_obj perl a obj st6)" using s1 s3 step_ok_trans by blast
      moreover have "config_obj perl x (put_obj perl a obj st6) = config_obj perl x st" if "config_obj perl x st \<noteq> 0" for x
      proof -
        have "x \<noteq> a" using that fresh_no_obj [OF i, of a perl] a by (auto simp: fresh_cfg_def config_obj_at)
        then show ?thesis by (simp add: config_obj_at at6) (simp add: obj_at_def t3)
      qed
      ultimately show thesis using that [OF res] f6(4) by simp
    qed
  qed
qed

text \<open>A change outside of the objects and structures: the lists of modules, the Perl data.\<close>

lemma other_step:
  assumes "mod_inv A st" "\<And>q. config_table q st' = config_table q st" "cfgs st' = cfgs st" "cfg_cleanups st' = cfg_cleanups st"
    "obj_refs st' = obj_refs st" "module_hashes st' = module_hashes st"
  shows "step_ok A p st st'"
proof -
  have "mod_inv A st'"
    by (rule inv_cong [OF assms(1,2)]) (use assms in \<open>auto simp: mod_inv_def intro: cfgs_ok_cong\<close>)
  then show ?thesis using assms by (simp add: step_ok_def keeps_cfgs_def outside_def config_obj_def)
qed

lemma modules_alias_run:
  assumes "is_virtual A s \<longrightarrow> scfg_modules st (base_server A) \<noteq> None"
  obtains al m where "modules_alias A s st = Inr (al, st\<lparr>scfg_modules := m\<rparr>)" "al \<Longrightarrow> m s \<noteq> None \<and> m s \<noteq> Some None"
    "\<not> al \<Longrightarrow> m = scfg_modules st \<or> scfg_modules st s = None \<and> m = (scfg_modules st)(s := Some None)"
    "al \<Longrightarrow> (scfg_modules st s = None \<or> scfg_modules st s = Some None) \<and> m = (scfg_modules st)(s := m s)"
proof -
  let ?m = "if scfg_modules st s = None then (scfg_modules st)(s := Some None) else scfg_modules st"
  have self: "st\<lparr>scfg_modules := scfg_modules st\<rparr> = st" by simp
  consider (real) "\<not> is_virtual A s" | (own) "is_virtual A s" "?m s \<noteq> Some None" | (linked) "is_virtual A s" "?m s = Some None" by blast
  then show thesis
  proof cases
    case real
    then show ?thesis using that [of False "scfg_modules st"] by (simp add: modules_alias_def)
  next
    case own
    then have "scfg_modules st s \<noteq> None" "scfg_modules st s \<noteq> Some None" by (auto split: if_splits)
    then show ?thesis using own that [of False "scfg_modules st"] by (auto simp: modules_alias_def)
  next
    case linked
    have st1: "(if scfg_modules st s = None then st\<lparr>scfg_modules := (scfg_modules st)(s := Some None)\<rparr> else st) = st\<lparr>scfg_modules := ?m\<rparr>" by simp
    from assms linked obtain h where h: "?m (base_server A) = Some h" by fastforce
    show ?thesis
    proof (cases h)
      case None
      then have "modules_alias A s st = Inr (False, st\<lparr>scfg_modules := ?m\<rparr>)"
        using linked h unfolding modules_alias_def Let_def st1 by simp
      from that [OF this] show ?thesis by (cases "scfg_modules st s = None") auto
    next
      case (Some n)
      then have "modules_alias A s st = Inr (True, st\<lparr>scfg_modules := ?m(s := Some (Some n))\<rparr>)"
        using linked h unfolding modules_alias_def Let_def st1 by simp
      from that [OF this] linked show ?thesis by (cases "scfg_modules st s = None") auto
    qed
  qed
qed

definition section_of :: "'p mod_env \<Rightarrow> nat \<Rightarrow> ptr \<Rightarrow> 'p mod_state \<Rightarrow> bool" where
  "section_of A p a st \<longleftrightarrow> (\<exists>q c. cfgs st a = Some (q, c) \<and> (q = p \<or> q = pconf A))"

definition parms_ok :: "'p mod_env \<Rightarrow> cmd_parms \<Rightarrow> 'p mod_state \<Rightarrow> bool" where
  "parms_ok A parms st \<longleftrightarrow> minfo_ok A (parms_minfo parms) \<and>
     (is_virtual A (parms_server parms) \<longrightarrow> scfg_modules st (base_server A) \<noteq> None) \<and>
     (srv_cfg_of A (parms_server parms) (parms_module parms) = 0 \<or>
      section_of A (parms_pool parms) (srv_cfg_of A (parms_server parms) (parms_module parms)) st)"

lemma section_of_keeps: "section_of A p a st \<Longrightarrow> keeps_cfgs st st' \<Longrightarrow> section_of A p a st'"
  unfolding section_of_def keeps_cfgs_def by blast

lemma directive_step:
  assumes laws: "mod_laws A" and i: "mod_inv A st" and k: "section_of A (parms_pool parms) mconfig st" and ok: "parms_ok A parms st"
  obtains ret st' where "modperl_module_cmd_take123 A perl parms mconfig one two three st = Inr (ret, st')"
    "step_ok A (parms_pool parms) st st'" "\<And>x. config_obj perl x st \<noteq> 0 \<Longrightarrow> config_obj perl x st' = config_obj perl x st"
    "ret = None \<Longrightarrow> config_obj perl mconfig st' \<noteq> 0"
proof -
  let ?s = "parms_server parms" and ?p = "parms_pool parms" and ?m = "parms_minfo parms"
  let ?srv = "srv_cfg_of A ?s (parms_module parms)"
  have mok: "minfo_ok A ?m" using ok by (simp add: parms_ok_def)
  obtain t st1 where t: "modperl_module_config_table_get perl True st = (t, st1)"
    "\<And>q. config_table q st1 = config_table q st" "cfgs st1 = cfgs st" "cfg_cleanups st1 = cfg_cleanups st" "obj_refs st1 = obj_refs st"
    "scfg_modules st1 = scfg_modules st" "mperl st1 = mperl st" "module_hashes st1 = module_hashes st"
    by (rule table_get_create [of perl st]) blast
  have s1: "step_ok A ?p st st1" by (rule merge_none [OF i t(1-5,8)])
  obtain al m where al: "modules_alias A ?s st1 = Inr (al, st1\<lparr>scfg_modules := m\<rparr>)"
    by (rule modules_alias_run [of A ?s st1]) (use ok t(6) in \<open>auto simp: parms_ok_def\<close>)
  let ?st2 = "st1\<lparr>scfg_modules := m\<rparr>"
  have s2: "step_ok A ?p st ?st2"
    by (rule step_ok_trans [OF s1 other_step]) (use s1 in \<open>simp_all add: step_ok_def\<close>)
  have i2: "mod_inv A ?st2" and keep2: "keeps_cfgs st ?st2" using s2 by (simp_all add: step_ok_def)
  from section_of_keeps [OF k keep2] obtain q c where q: "cfgs ?st2 mconfig = Some (q, c)" "q = ?p \<or> q = pconf A" by (auto simp: section_of_def)
  obtain err obj st3 where o: "modperl_module_config_create_obj A perl ?p mconfig (parms_modname parms) ?m (dir_create ?m) ?s ?st2 = Inr (err, obj, st3)"
    "step_ok A ?p ?st2 st3" "obj \<noteq> 0" "err = None \<Longrightarrow> config_obj perl mconfig st3 = obj" "\<And>x. config_obj perl x ?st2 \<noteq> 0 \<Longrightarrow> config_obj perl x st3 = config_obj perl x ?st2"
    by (rule create_obj_step [OF laws i2 q mok, of "dir_create ?m"]) auto
  have s3: "step_ok A ?p st st3" by (rule step_ok_trans [OF s2 o(2)])
  have same2: "config_obj perl x ?st2 = config_obj perl x st" for x by (simp add: config_obj_def t(2))
  show thesis
  proof (cases "err = None")
    case False
    have "modperl_module_cmd_take123 A perl parms mconfig one two three st = Inr (err, st3)"
      using False by (simp add: modperl_module_cmd_take123_def t(1) al o(1))
    then show thesis by (rule that) (use s3 o(5) same2 False in simp_all)
  next
    case True
    have "\<exists>err2 obj2 st4. (if ?srv \<noteq> 0 then modperl_module_config_create_obj A perl ?p ?srv (parms_modname parms) ?m (srv_create ?m) ?s st3
         else Inr (None, 0, st3)) = Inr (err2, obj2, st4) \<and> step_ok A ?p st3 st4 \<and>
         (\<forall>x. config_obj perl x st3 \<noteq> 0 \<longrightarrow> config_obj perl x st4 = config_obj perl x st3)"
    proof (cases "?srv = 0")
      case False
      have i3: "mod_inv A st3" and keep3: "keeps_cfgs st st3" using s3 by (simp_all add: step_ok_def)
      from ok False have "section_of A ?p ?srv st" by (simp add: parms_ok_def)
      from section_of_keeps [OF this keep3] obtain q c where q: "cfgs st3 ?srv = Some (q, c)" "q = ?p \<or> q = pconf A" by (auto simp: section_of_def)
      show ?thesis using False by (rule_tac create_obj_step [OF laws i3 q mok, of "srv_create ?m" perl "parms_modname parms" ?s]) auto
    next
      case True
      have "mod_inv A st3" using s3 by (simp add: step_ok_def)
      then show ?thesis using True by (simp add: step_ok_refl)
    qed
    then obtain err2 obj2 st4 where o2: "(if ?srv \<noteq> 0 then modperl_module_config_create_obj A perl ?p ?srv (parms_modname parms) ?m (srv_create ?m) ?s st3
         else Inr (None, 0, st3)) = Inr (err2, obj2, st4)" "step_ok A ?p st3 st4"
         "\<And>x. config_obj perl x st3 \<noteq> 0 \<Longrightarrow> config_obj perl x st4 = config_obj perl x st3" by blast
    have s4: "step_ok A ?p st st4" by (rule step_ok_trans [OF s3 o2(2)])
    have same4: "config_obj perl x st4 = config_obj perl x st" if "config_obj perl x st \<noteq> 0" for x
      using o(5) o2(3) that same2 by simp
    show thesis
    proof (cases "err2 = None")
      case False
      have "modperl_module_cmd_take123 A perl parms mconfig one two three st = Inr (err2, st4)"
        using False True o2(1) by (simp add: modperl_module_cmd_take123_def t(1) al o(1) Let_def)
      then show thesis by (rule that) (use s4 same4 False in simp_all)
    next
      case False2: True
      obtain x st5 where x: "run_call A perl (CallMethod (parms_func parms)) (ObjArg obj # ParmsArg # push_args parms [one, two, three]) st4 = (x, st5)"
        by fastforce
      have st5: "st5 = st4\<lparr>mperl := mperl st5\<rparr>" using x by (auto simp: run_call_def split: prod.splits)
      let ?st6 = "if al then st5\<lparr>scfg_modules := (scfg_modules st5)(?s := Some None)\<rparr> else st5"
      obtain ret where "modperl_module_cmd_take123 A perl parms mconfig one two three st = Inr (ret, ?st6)"
        using False2 True o2(1) o(3) by (simp add: modperl_module_cmd_take123_def t(1) al o(1) Let_def call_directive_def x)
      moreover have same: "config_table q ?st6 = config_table q st4" "cfgs ?st6 = cfgs st4" "cfg_cleanups ?st6 = cfg_cleanups st4"
        "obj_refs ?st6 = obj_refs st4" "module_hashes ?st6 = module_hashes st4" for q
        by (subst st5, simp)+
      have "step_ok A ?p st ?st6"
        by (rule step_ok_trans [OF s4 other_step]) (use s4 same in \<open>simp_all only: step_ok_def\<close>)
      moreover have "config_obj perl mconfig st4 \<noteq> 0" using o2(3) [of mconfig] o(3,4) True by simp
      ultimately show thesis using that same4 same(1) unfolding config_obj_def by simp
    qed
  qed
qed

lemma cleanups_fold_all:
  "tables_ok st \<Longrightarrow> refs_ok A st \<Longrightarrow> tables_ok (run_cfg_cleanups cs st) \<and> refs_ok A (run_cfg_cleanups cs st) \<and>
     cfgs (run_cfg_cleanups cs st) = cfgs st \<and> cfg_cleanups (run_cfg_cleanups cs st) = cfg_cleanups st \<and>
     (\<forall>r x. obj_at r x (run_cfg_cleanups cs st) = (if (r, x) \<in> snd ` set cs then None else obj_at r x st))"
proof (induction cs arbitrary: st)
  case (Cons c cs)
  obtain q perl k where c: "c = (q, perl, k)" by (cases c) auto
  note f = cleanup_at [OF Cons.prems(1), where perl = perl and k = k]
  have run: "run_cfg_cleanups (c # cs) st = run_cfg_cleanups cs (modperl_module_config_obj_cleanup (perl, k) st)"
    by (simp add: run_cfg_cleanups_def c)
  from Cons.IH [OF f(1) refs_cleanup [OF Cons.prems(2,1)]] show ?case unfolding run f(4,5) by (auto simp: f(2) c)
qed (simp add: run_cfg_cleanups_def)

lemmas cleanups_fold = cleanups_fold_all [THEN conjunct1] cleanups_fold_all [THEN conjunct2, THEN conjunct1]
  cleanups_fold_all [THEN conjunct2, THEN conjunct2, THEN conjunct1]
  cleanups_fold_all [THEN conjunct2, THEN conjunct2, THEN conjunct2, THEN conjunct1]
  cleanups_fold_all [THEN conjunct2, THEN conjunct2, THEN conjunct2, THEN conjunct2, rule_format]

lemma destroy_step:
  assumes i: "mod_inv A st" and p: "p \<noteq> pconf A"
  shows "mod_inv A (cfg_pool_destroy p st)" "config_obj r x (cfg_pool_destroy p st) = outside p r x st"
    "cfgs st a = Some (q, c) \<Longrightarrow> q \<noteq> p \<Longrightarrow> cfgs (cfg_pool_destroy p st) a = Some (q, c)"
proof -
  have ok: "tables_ok st" "refs_ok A st" "cfgs_ok A st" "live_keys A st" using i by (auto simp: mod_inv_def)
  let ?cs = "filter (\<lambda>(q, c). q = p) (cfg_cleanups st)"
  define st1 where "st1 = run_cfg_cleanups ?cs st"
  note f = cleanups_fold [OF ok(1,2), where cs = ?cs, folded st1_def]
  have mem: "(r, x) \<in> snd ` set ?cs \<longleftrightarrow> (p, r, x) \<in> set (cfg_cleanups st)" for r x by force
  have d: "cfgs (cfg_pool_destroy p st) a = (case cfgs st a of Some (q, c) \<Rightarrow> if q = p then None else Some (q, c) | None \<Rightarrow> None)"
    "cfg_cleanups (cfg_pool_destroy p st) = filter (\<lambda>(q, c). q \<noteq> p) (cfg_cleanups st)"
    "config_table r (cfg_pool_destroy p st) = config_table r st1" "obj_refs (cfg_pool_destroy p st) = obj_refs st1" for a r
    by (simp_all add: cfg_pool_destroy_def Let_def st1_def [symmetric] f(3,4))
  have at: "obj_at r x (cfg_pool_destroy p st) = (if (p, r, x) \<in> set (cfg_cleanups st) then None else obj_at r x st)" for r x
    unfolding f(5) [of r x, unfolded mem, symmetric] by (simp add: obj_at_def d)
  show "config_obj r x (cfg_pool_destroy p st) = outside p r x st" by (simp add: config_obj_at at outside_def)
  show "cfgs st a = Some (q, c) \<Longrightarrow> q \<noteq> p \<Longrightarrow> cfgs (cfg_pool_destroy p st) a = Some (q, c)" by (simp add: d)
  have "live_keys A (cfg_pool_destroy p st)"
    unfolding live_keys_def
  proof (intro allI impI)
    fix r x assume "obj_at r x (cfg_pool_destroy p st) \<noteq> None"
    then have n: "(p, r, x) \<notin> set (cfg_cleanups st)" "obj_at r x st \<noteq> None" by (auto simp: at split: if_splits)
    with ok(4) obtain q c where "cfgs st x = Some (q, c)" "q \<noteq> pconf A \<longrightarrow> (q, r, x) \<in> set (cfg_cleanups st)"
      unfolding live_keys_def by blast
    with n(1) p show "\<exists>q c. cfgs (cfg_pool_destroy p st) x = Some (q, c) \<and> (q \<noteq> pconf A \<longrightarrow> (q, r, x) \<in> set (cfg_cleanups (cfg_pool_destroy p st)))"
      by (cases "q = p") (auto simp: d)
  qed
  moreover have "cfgs_ok A (cfg_pool_destroy p st)"
    using ok(3) unfolding cfgs_ok_def d(1) by (auto split: option.splits if_splits)
  moreover have "refs_ok A (cfg_pool_destroy p st)" "tables_ok (cfg_pool_destroy p st)"
    using f(1,2) by (simp_all add: refs_ok_def tables_ok_def obj_at_def d)
  ultimately show "mod_inv A (cfg_pool_destroy p st)" by (simp add: mod_inv_def)
qed

section \<open>Histories\<close>

datatype mod_op =
    NewSection nat ptr
  | MergeSections nat nat ptr ptr ptr merge_type
  | Directive nat cmd_parms ptr "string option list"
  | PoolDestroy nat

definition arg :: "string option list \<Rightarrow> nat \<Rightarrow> string option" where
  "arg args n = (if n < length args then args ! n else None)"

definition run_mod_op :: "'p mod_env \<Rightarrow> mod_op \<Rightarrow> 'p mod_state \<Rightarrow> 'p mod_state res" where
  "run_mod_op A x st = (case x of
       NewSection p a \<Rightarrow> Inr (modperl_module_cfg_new p a st)
     | MergeSections perl p a base add mt \<Rightarrow> and_then (modperl_module_config_merge A perl p a base add mt st) (\<lambda>(r, st'). Inr st')
     | Directive perl parms mconfig args \<Rightarrow>
         and_then (modperl_module_cmd_take123 A perl parms mconfig (arg args 0) (arg args 1) (arg args 2) st) (\<lambda>(r, st'). Inr st')
     | PoolDestroy p \<Rightarrow> Inr (cfg_pool_destroy p st))"

fun run_mod_ops :: "'p mod_env \<Rightarrow> mod_op list \<Rightarrow> 'p mod_state \<Rightarrow> 'p mod_state res" where
  "run_mod_ops A [] st = Inr st"
| "run_mod_ops A (x # xs) st = and_then (run_mod_op A x st) (run_mod_ops A xs)"

text \<open>What httpd guarantees: new structures have new addresses, sections that it merges or configures exist, a directive is
run with the pool of its section, and the configuration pool lives as long as the interpreters.\<close>

definition mod_op_ok :: "'p mod_env \<Rightarrow> 'p mod_state \<Rightarrow> mod_op \<Rightarrow> bool" where
  "mod_op_ok A st x = (case x of
       NewSection p a \<Rightarrow> fresh_cfg a st
     | MergeSections perl p a base add mt \<Rightarrow> fresh_cfg a st \<and> live_or_null base st \<and> live_or_null add st \<and> (base_has_server base st \<or> add \<noteq> 0)
     | Directive perl parms mconfig args \<Rightarrow> section_of A (parms_pool parms) mconfig st \<and> parms_ok A parms st
     | PoolDestroy p \<Rightarrow> p \<noteq> pconf A)"

fun mod_ops_ok :: "'p mod_env \<Rightarrow> 'p mod_state \<Rightarrow> mod_op list \<Rightarrow> bool" where
  "mod_ops_ok A st [] = True"
| "mod_ops_ok A st (x # xs) = (mod_op_ok A st x \<and> (case run_mod_op A x st of Inl e \<Rightarrow> True | Inr st' \<Rightarrow> mod_ops_ok A st' xs))"

definition op_pool :: "mod_op \<Rightarrow> nat" where
  "op_pool x = (case x of NewSection p a \<Rightarrow> p | MergeSections perl p a base add mt \<Rightarrow> p
     | Directive perl parms mconfig args \<Rightarrow> parms_pool parms | PoolDestroy p \<Rightarrow> p)"

definition is_destroy :: "mod_op \<Rightarrow> bool" where
  "is_destroy x = (case x of PoolDestroy p \<Rightarrow> True | _ \<Rightarrow> False)"

lemma run_op_step:
  assumes laws: "mod_laws A" and i: "mod_inv A st" and ok: "mod_op_ok A st x"
  shows "\<exists>st'. run_mod_op A x st = Inr st' \<and> mod_inv A st' \<and> (\<not> is_destroy x \<longrightarrow> step_ok A (op_pool x) st st')"
proof (cases x)
  case (NewSection p a)
  have "step_ok A p st (modperl_module_cfg_new p a st)"
    unfolding modperl_module_cfg_new_def by (rule new_cfg_step [OF i]) (use ok NewSection in \<open>simp_all add: mod_op_ok_def\<close>)
  then show ?thesis by (simp add: NewSection run_mod_op_def op_pool_def) (simp add: step_ok_def)
next
  case (MergeSections perl p a base add mt)
  then obtain r st' where "modperl_module_config_merge A perl p a base add mt st = Inr (r, st')" "step_ok A p st st'"
    using ok by (auto simp: mod_op_ok_def intro: merge_step [OF laws i])
  then show ?thesis by (simp add: MergeSections run_mod_op_def op_pool_def) (simp add: step_ok_def)
next
  case (Directive perl parms mconfig args)
  then obtain r st' where "modperl_module_cmd_take123 A perl parms mconfig (arg args 0) (arg args 1) (arg args 2) st = Inr (r, st')"
      "step_ok A (parms_pool parms) st st'"
    using ok by (auto simp: mod_op_ok_def intro: directive_step [OF laws i])
  then show ?thesis by (simp add: Directive run_mod_op_def op_pool_def) (simp add: step_ok_def)
next
  case (PoolDestroy p)
  then show ?thesis using ok destroy_step(1) [OF i] by (simp add: run_mod_op_def mod_op_ok_def is_destroy_def)
qed

lemma run_mod_ops_append: "run_mod_ops A (xs @ ys) st = and_then (run_mod_ops A xs st) (run_mod_ops A ys)"
proof (induction xs arbitrary: st)
  case (Cons x xs)
  have "run_mod_ops A (xs @ ys) = (\<lambda>st. and_then (run_mod_ops A xs st) (run_mod_ops A ys))" using Cons.IH by blast
  then show ?case by (simp add: and_then_assoc)
qed simp

lemma run_ops_inv:
  assumes laws: "mod_laws A"
  shows "mod_inv A st \<Longrightarrow> mod_ops_ok A st xs \<Longrightarrow> \<exists>st'. run_mod_ops A xs st = Inr st' \<and> mod_inv A st'"
proof (induction xs arbitrary: st)
  case (Cons x xs)
  from run_op_step [OF laws Cons.prems(1), of x] Cons.prems(2) obtain st1 where "run_mod_op A x st = Inr st1" "mod_inv A st1" by auto
  with Cons.IH [of st1] Cons.prems(2) show ?case by simp
qed simp

lemma run_ops_step:
  assumes laws: "mod_laws A"
  shows "mod_inv A st \<Longrightarrow> mod_ops_ok A st xs \<Longrightarrow> (\<forall>x\<in>set xs. op_pool x = p \<and> \<not> is_destroy x) \<Longrightarrow>
    \<exists>st'. run_mod_ops A xs st = Inr st' \<and> step_ok A p st st'"
proof (induction xs arbitrary: st)
  case (Cons x xs)
  from run_op_step [OF laws Cons.prems(1), of x] Cons.prems obtain st1 where
    1: "run_mod_op A x st = Inr st1" "mod_inv A st1" "step_ok A p st st1" by auto
  with Cons.IH [of st1] Cons.prems obtain st2 where "run_mod_ops A xs st1 = Inr st2" "step_ok A p st1 st2" by auto
  with 1 step_ok_trans show ?case by auto
qed (simp add: step_ok_refl)

text \<open>The state before any configuration is read.\<close>

definition mod_start :: "(nat \<Rightarrow> nat option option) \<Rightarrow> (nat \<Rightarrow> string \<Rightarrow> nat option) \<Rightarrow> 'p \<Rightarrow> 'p mod_state" where
  "mod_start mods hashes pl = \<lparr>config_sv = (\<lambda>_. None), cfgs = (\<lambda>_. None), cfg_cleanups = [], obj_refs = (\<lambda>_ _. 0),
     scfg_modules = mods, module_hashes = hashes, mperl = pl\<rparr>"

lemma mod_start_inv: "mod_inv A (mod_start mods hashes pl)"
  by (simp add: mod_inv_def tables_ok_def refs_ok_def cfgs_ok_def live_keys_def mod_start_def obj_at_def config_table_def new_map)

text \<open>
  C9: whatever sections httpd creates, merges and configures, and whichever request pools it destroys in between, no
  operation on the module configurations crashes; an interpreter's table never has an object for an address where no section lives, so a
  new section never finds the object of an earlier request; and each object has one reference for every section it belongs to.
\<close>

theorem module_config_safe:
  assumes "mod_laws A" "mod_ops_ok A (mod_start mods hashes pl) xs"
  shows "\<exists>st. run_mod_ops A xs (mod_start mods hashes pl) = Inr st \<and>
     (\<forall>perl a. cfgs st a = None \<longrightarrow> modperl_svptr_table_fetch (config_table perl st) a = 0) \<and>
     (\<forall>perl obj. obj \<noteq> 0 \<longrightarrow> obj \<noteq> sv_undef A \<longrightarrow>
        obj_refs st perl obj = int (card {a. modperl_svptr_table_fetch (config_table perl st) a = obj}))"
proof -
  from run_ops_inv [OF assms(1) mod_start_inv assms(2)] obtain st where
    st: "run_mod_ops A xs (mod_start mods hashes pl) = Inr st" "mod_inv A st" by blast
  have f: "modperl_svptr_table_fetch (config_table perl st) a = config_obj perl a st" for perl a by (simp add: config_obj_def)
  have "{a. config_obj perl a st = obj} = {a. obj_at perl a st = Some obj}" if "obj \<noteq> 0" for perl obj
    using that by (auto simp: config_obj_at split: option.splits)
  then have "obj_refs st perl obj = int (card {a. config_obj perl a st = obj})" if "obj \<noteq> 0" "obj \<noteq> sv_undef A" for perl obj
    using st(2) that by (simp add: mod_inv_def refs_ok_def)
  moreover have "config_obj perl a st = 0" if "cfgs st a = None" for perl a
    using fresh_no_obj [OF st(2) that] by (simp add: config_obj_at)
  ultimately have "(\<forall>perl a. cfgs st a = None \<longrightarrow> config_obj perl a st = 0) \<and> (\<forall>perl obj. obj \<noteq> 0 \<longrightarrow> obj \<noteq> sv_undef A \<longrightarrow>
      obj_refs st perl obj = int (card {a. config_obj perl a st = obj}))" by simp
  with st(1) show ?thesis by (intro exI [of _ st] conjI) (simp_all add: config_obj_def)
qed

text \<open>
  what the directives and merges of a request (its \<open>.htaccess\<close> files and containers) give to the interpreters is
  gone with the pool of the request: every section has the object that it had before the request.
\<close>

theorem module_config_request_undone:
  assumes "mod_laws A" "mod_inv A st" "mod_ops_ok A st xs" "p \<noteq> pconf A"
    and "\<forall>x\<in>set xs. op_pool x = p \<and> \<not> is_destroy x" "\<forall>c\<in>set (cfg_cleanups st). fst c \<noteq> p"
  shows "\<exists>st'. run_mod_ops A (xs @ [PoolDestroy p]) st = Inr st' \<and>
     (\<forall>perl a. modperl_svptr_table_fetch (config_table perl st') a = modperl_svptr_table_fetch (config_table perl st) a)"
proof -
  from run_ops_step [OF assms(1,2,3,5)] obtain st1 where st1: "run_mod_ops A xs st = Inr st1" "step_ok A p st st1" by blast
  have app: "run_mod_ops A (xs @ ys) st = and_then (run_mod_ops A xs st) (run_mod_ops A ys)" for ys
    by (rule run_mod_ops_append)
  have "config_obj perl a (cfg_pool_destroy p st1) = config_obj perl a st" for perl a
  proof -
    have "config_obj perl a (cfg_pool_destroy p st1) = outside p perl a st1"
      by (rule destroy_step(2)) (use st1(2) assms(4) in \<open>simp_all add: step_ok_def\<close>)
    also have "\<dots> = outside p perl a st" using st1(2) assms(4) by (simp add: step_ok_def)
    also have "\<dots> = config_obj perl a st" using assms(6) by (auto simp: outside_def)
    finally show ?thesis .
  qed
  then show ?thesis by (simp add: app st1(1) run_mod_op_def config_obj_def)
qed

lemma get_obj_section:
  assumes "config_obj perl a st \<noteq> 0" "scfg_modules st s = Some (Some h)" "module_hashes st h name = Some modp" "a \<noteq> 0"
  shows "modperl_module_config_get_obj A perl name s (Some (\<lambda>m. if m = modp then a else w m)) st = Inr (Some (config_obj perl a st))"
proof -
  obtain t where "config_sv st perl = Some (Some t)"
    using assms(1) by (auto simp: config_obj_at obj_at_def config_table_def new_map split: option.splits)
  then show ?thesis using assms
    by (simp add: modperl_module_config_get_obj_def modperl_module_config_table_get_def modperl_module_config_hash_get_def config_obj_def config_table_def)
qed

text \<open>
  after a directive has run without an error, \<open>get_config\<close> with the vector of the section gives the object that the section
  has, and every later directive of the section works on that same object.
\<close>

theorem module_directive_get:
  assumes "mod_laws A" "mod_inv A st" "section_of A (parms_pool parms) mconfig st" "parms_ok A parms st"
    and "modperl_module_cmd_take123 A perl parms mconfig one two three st = Inr (None, st1)"
    and "scfg_modules st1 s = Some (Some h)" "module_hashes st1 h name = Some (parms_module parms)"
    and "parms_pool later = parms_pool parms" "parms_ok A later st1"
  shows "\<exists>obj. modperl_module_config_get_obj A perl name s (Some (\<lambda>m. if m = parms_module parms then mconfig else w m)) st1 = Inr (Some obj) \<and>
     (\<exists>ret st2. modperl_module_cmd_take123 A perl later mconfig uno due tre st1 = Inr (ret, st2) \<and>
        modperl_svptr_table_fetch (config_table perl st2) mconfig = obj)"
proof -
  obtain ret st1' where "modperl_module_cmd_take123 A perl parms mconfig one two three st = Inr (ret, st1')"
    "step_ok A (parms_pool parms) st st1'" "ret = None \<Longrightarrow> config_obj perl mconfig st1' \<noteq> 0"
    by (rule directive_step [OF assms(1-4), where perl = perl and one = one and two = two and three = three]) blast
  then have 1: "step_ok A (parms_pool parms) st st1" "config_obj perl mconfig st1 \<noteq> 0" using assms(5) by auto
  have k: "section_of A (parms_pool later) mconfig st1"
    unfolding assms(8) by (rule section_of_keeps [OF assms(3)]) (use 1 in \<open>simp add: step_ok_def\<close>)
  have i1: "mod_inv A st1" using 1 by (simp add: step_ok_def)
  obtain ret2 st2 where 2: "modperl_module_cmd_take123 A perl later mconfig uno due tre st1 = Inr (ret2, st2)"
    "\<And>x. config_obj perl x st1 \<noteq> 0 \<Longrightarrow> config_obj perl x st2 = config_obj perl x st1"
    by (rule directive_step [OF assms(1) i1 k assms(9), where perl = perl and one = uno and two = due and three = tre]) blast
  have "mconfig \<noteq> 0" using assms(2,3) by (auto simp: section_of_def mod_inv_def cfgs_ok_def)
  from get_obj_section [OF 1(2) assms(6,7) this] 2 1(2) show ?thesis by (simp add: config_obj_def)
qed

section \<open>Examples\<close>

lemma compile_nodes:
  "(\<forall>s. hash s \<noteq> 0) \<Longrightarrow> (\<forall>m\<in>set acc. mhash m \<noteq> 0) \<Longrightarrow> mgv_compile_loop hash s i j acc \<noteq> [] \<and> (\<forall>m\<in>set (mgv_compile_loop hash s i j acc). mhash m \<noteq> 0)"
proof (induction "hash" s i j acc rule: mgv_compile_loop.induct)
  case (1 hash s i j acc)
  let ?acc = "if j < i then acc @ [mgv_node hash (take (i - j) (drop j s) @ ''::'')] else acc"
  have acc: "\<forall>m\<in>set ?acc. mhash m \<noteq> 0" using 1(3,4) by (simp add: mgv_node_def)
  show ?case
  proof (cases "i < length s")
    case True
    show ?thesis
      using 1(1) [OF True _ 1(3) acc] 1(2) [OF True _ 1(3,4)] True
      by (cases "s ! i = CHR '':'' \<and> Suc i < length s \<and> s ! Suc i = CHR '':''") (auto simp: mgv_compile_loop.simps [of hash s i j acc])
  next
    case False
    then show ?thesis using 1(3,4) by (simp add: mgv_compile_loop.simps [of hash s i j acc] mgv_node_def)
  qed
qed

definition demo_env :: "nat mod_env" where
  "demo_env = \<lparr>hash_of = (\<lambda>s. 1), defstash = (\<lambda>_ _. Some []),
     perl_call = (\<lambda>perl f args pl. (\<lparr>ret_sv = Some 5, ret_pv = None, err_pv = None\<rparr>, pl)),
     bless_new = (\<lambda>perl c pl. (pl + 10, pl + 1)), sv_undef = 1, pconf = 0, base_server = 0, is_virtual = (\<lambda>_. False),
     srv_cfg_of = (\<lambda>_ _. 0)\<rparr>"

definition demo_minfo :: module_info where
  "demo_minfo = \<lparr>dir_create = None, dir_merge = None, srv_create = None, srv_merge = None, namelen = 3\<rparr>"

definition demo_parms :: cmd_parms where
  "demo_parms = \<lparr>parms_server = 0, parms_pool = 1, parms_module = 4, parms_modname = ''Foo'', parms_minfo = demo_minfo,
     parms_func = ''MySwitch'', parms_no_args = False\<rparr>"

definition demo_start :: "nat mod_state" where
  "demo_start = mod_start (\<lambda>_. Some (Some 0)) (\<lambda>h name. if name = ''Foo'' then Some 4 else None) 0"

lemma demo_laws: "mod_laws demo_env"
proof -
  have "\<exists>g. modperl_mgv_lookup (\<lambda>s. 1) (Some []) (modperl_mgv_compile (\<lambda>s. 1) s) = Inr g \<and> (\<forall>c. g \<noteq> ClassName c)" for s
  proof -
    have "modperl_mgv_compile (\<lambda>s. 1) s \<noteq> []" "\<forall>m\<in>set (modperl_mgv_compile (\<lambda>s. 1) s). mhash m \<noteq> 0"
      using compile_nodes [of "\<lambda>s. 1" "[]"] by (simp_all add: modperl_mgv_compile_def)
    then obtain m ms where "modperl_mgv_compile (\<lambda>s. 1) s = m # ms" "mhash m \<noteq> 0" by (cases "modperl_mgv_compile (\<lambda>s. 1) s") auto
    then show ?thesis by (auto simp: modperl_mgv_lookup_def modperl_perl_hv_fetch_he_def)
  qed
  then show ?thesis by (simp add: mod_laws_def demo_env_def)
qed

lemma demo_parms_ok: "parms_ok demo_env demo_parms st"
  by (simp add: parms_ok_def demo_env_def demo_parms_def minfo_ok_def demo_minfo_def)

definition demo_section :: "nat mod_state" where
  "demo_section = modperl_module_cfg_new 1 16 demo_start"

lemma demo_section_of: "section_of demo_env 1 16 demo_section"
  by (simp add: section_of_def demo_section_def modperl_module_cfg_new_def)

lemma demo_ops_ok: "mod_ops_ok demo_env demo_start [NewSection 1 16, Directive 0 demo_parms 16 [Some ''On'']]"
  "mod_ops_ok demo_env demo_start [NewSection 1 16, Directive 0 demo_parms 16 [Some ''On''], PoolDestroy 1]"
  using demo_section_of demo_parms_ok
  by (auto simp: mod_op_ok_def fresh_cfg_def demo_start_def mod_start_def run_mod_op_def demo_section_def demo_parms_def demo_env_def split: sum.split)

theorem module_config_safe_witness:
  "\<exists>st. run_mod_ops demo_env [NewSection 1 16, Directive 0 demo_parms 16 [Some ''On''], PoolDestroy 1] demo_start = Inr st \<and>
     (\<forall>perl a. cfgs st a = None \<longrightarrow> modperl_svptr_table_fetch (config_table perl st) a = 0)"
  using module_config_safe [OF demo_laws demo_ops_ok(2) [unfolded demo_start_def]] unfolding demo_start_def by blast

theorem module_config_request_undone_witness:
  "\<exists>st'. run_mod_ops demo_env ([NewSection 1 16, Directive 0 demo_parms 16 [Some ''On'']] @ [PoolDestroy 1]) demo_start = Inr st' \<and>
     (\<forall>perl a. modperl_svptr_table_fetch (config_table perl st') a = modperl_svptr_table_fetch (config_table perl demo_start) a)"
proof (rule module_config_request_undone [OF demo_laws _ demo_ops_ok(1)])
  show "mod_inv demo_env demo_start" by (simp add: demo_start_def mod_start_inv)
  show "1 \<noteq> pconf demo_env" by (simp add: demo_env_def)
  show "\<forall>x\<in>set [NewSection 1 16, Directive 0 demo_parms 16 [Some ''On'']]. op_pool x = 1 \<and> \<not> is_destroy x"
    by (simp add: op_pool_def is_destroy_def demo_parms_def)
  show "\<forall>c\<in>set (cfg_cleanups demo_start). fst c \<noteq> 1" by (simp add: demo_start_def mod_start_def)
qed

lemma fetch_new: "modperl_svptr_table_fetch modperl_svptr_table_new k = 0"
  by (simp add: fetch_map new_map)

lemma demo_directive:
  "\<exists>st1. modperl_module_cmd_take123 demo_env 0 demo_parms 16 (Some ''On'') None None demo_section = Inr (None, st1) \<and>
     scfg_modules st1 = scfg_modules demo_start \<and> module_hashes st1 = module_hashes demo_start"
  by (simp add: modperl_module_cmd_take123_def modules_alias_def demo_env_def modperl_module_config_create_obj_def config_table_def
      modperl_module_config_table_get_def modperl_module_config_hash_get_def demo_section_def demo_start_def mod_start_def fetch_new
      modperl_module_cfg_new_def cfg_at_def find_gv_def demo_parms_def demo_minfo_def obj_inc_def call_directive_def run_call_def push_args_def
      modperl_module_config_obj_cleanup_register_def set_config_table_def Let_def)

theorem module_directive_get_witness:
  "\<exists>st1 obj. modperl_module_cmd_take123 demo_env 0 demo_parms 16 (Some ''On'') None None demo_section = Inr (None, st1) \<and>
     modperl_module_config_get_obj demo_env 0 ''Foo'' 0 (Some (\<lambda>m. if m = 4 then 16 else 0)) st1 = Inr (Some obj)"
proof -
  from demo_directive obtain st1 where 1: "modperl_module_cmd_take123 demo_env 0 demo_parms 16 (Some ''On'') None None demo_section = Inr (None, st1)"
    "scfg_modules st1 = scfg_modules demo_start" "module_hashes st1 = module_hashes demo_start" by blast
  have m: "parms_module demo_parms = 4" "parms_pool demo_parms = 1" by (simp_all add: demo_parms_def)
  have i: "mod_inv demo_env demo_section"
    using run_ops_inv [OF demo_laws mod_start_inv demo_ops_ok(1) [unfolded demo_start_def]]
      new_cfg_step [OF mod_start_inv, of 16 _ _ _ "\<lparr>cfg_server = None, cfg_minfo = None\<rparr>" demo_env]
    by (simp add: demo_section_def demo_start_def modperl_module_cfg_new_def step_ok_def fresh_cfg_def mod_start_def)
  show ?thesis
    using module_directive_get [OF demo_laws i _ demo_parms_ok 1(1), where s = 0 and h = 0 and name = "''Foo''" and later = demo_parms and w = "\<lambda>_. 0"]
      1 demo_section_of demo_parms_ok by (simp add: m demo_start_def mod_start_def) blast
qed

end
