(* ===== verification/Util.thy ===== *)
theory Util
  imports Apr_Table "HOL-Library.AList"
begin

text \<open>
  Helpers of \<^verbatim>\<open>src/src/modules/perl/modperl_util.c\<close>: package names from file names, \<open>$r->dir_config\<close>, \<open>pnotes\<close>, arrays of
  strings, unloading a package, reading a file, the restart counter. C strings are lists without the terminating null character; what is read behind
  the end of a string or written behind the end of a buffer is an error.
\<close>

section \<open>Package and file names\<close>

text \<open>\<open>isalnum\<close> in the C locale.\<close>

definition is_alnum :: "char \<Rightarrow> bool" where
  "is_alnum c = (let n = of_char c :: nat in 48 \<le> n \<and> n \<le> 57 \<or> 65 \<le> n \<and> n \<le> 90 \<or> 97 \<le> n \<and> n \<le> 122)"

definition MP_VALID_PKG_CHAR :: "char \<Rightarrow> bool" where
  "MP_VALID_PKG_CHAR c = (is_alnum c \<or> c = CHR ''_'')"

definition MP_VALID_PATH_DELIM :: "char \<Rightarrow> bool" where
  "MP_VALID_PATH_DELIM c = (c = CHR ''/'' \<or> c = CHR 0x5C)"

fun skip_prefix :: "string \<Rightarrow> string res" where
  "skip_prefix [] = Inl OutOfBounds"
| "skip_prefix (c # cs) = (if MP_VALID_PKG_CHAR c then Inr (c # cs) else skip_prefix cs)"

definition put_char :: "nat \<Rightarrow> char \<Rightarrow> string \<Rightarrow> string res" where
  "put_char i c buf = (if i < length buf then Inr (buf[i := c]) else Inl OutOfBounds)"

function f2p_loop :: "string \<Rightarrow> nat \<Rightarrow> string \<Rightarrow> string res" where
  "f2p_loop [] i buf = Inr buf"
| "f2p_loop (c # cs) i buf =
     (if MP_VALID_PKG_CHAR c then and_then (put_char i c buf) (f2p_loop cs (i + 1))
      else if MP_VALID_PATH_DELIM c
      then (let rest = dropWhile MP_VALID_PATH_DELIM cs
            in if rest = [] then Inr buf
               else and_then (put_char (i + 1) (CHR '':'') buf) (\<lambda>b. and_then (put_char i (CHR '':'') b) (f2p_loop rest (i + 2))))
      else and_then (put_char i (CHR ''_'') buf) (f2p_loop cs (i + 1)))"
  by pat_completeness auto
termination by (relation "measure (\<lambda>(cs, i, buf). length cs)") (auto simp: le_imp_less_Suc length_dropWhile_le)

definition modperl_file2package :: "string \<Rightarrow> string res" where
  "modperl_file2package path =
     and_then (skip_prefix path) (\<lambda>rest.
       let len = length rest + 1 + length (filter MP_VALID_PATH_DELIM rest)
       in and_then (f2p_loop rest 0 (replicate len (CHR 0x00))) (\<lambda>buf. Inr (takeWhile (\<lambda>c. c \<noteq> CHR 0x00) buf)))"

fun package2filename_body :: "string \<Rightarrow> string" where
  "package2filename_body [] = []"
| "package2filename_body (c # cs) = (case cs of
       [] \<Rightarrow> [c]
     | d # ds \<Rightarrow> if c = CHR '':'' \<and> d = CHR '':'' then CHR ''/'' # package2filename_body ds else c # package2filename_body cs)"

definition package2filename :: "string \<Rightarrow> string" where
  "package2filename package = package2filename_body package @ ''.pm''"

definition modperl_str_toupper :: "string \<Rightarrow> string" where
  "modperl_str_toupper s = map (\<lambda>c. let n = of_char c :: nat in if 97 \<le> n \<and> n \<le> 122 then char_of (n - 32) else c) s"

subsection \<open>The package name is what the components of the path say\<close>

function f2p_ref :: "string \<Rightarrow> string" where
  "f2p_ref [] = []"
| "f2p_ref (c # cs) =
     (if MP_VALID_PKG_CHAR c then c # f2p_ref cs
      else if MP_VALID_PATH_DELIM c
      then (if dropWhile MP_VALID_PATH_DELIM cs = [] then [] else ''::'' @ f2p_ref (dropWhile MP_VALID_PATH_DELIM cs))
      else CHR ''_'' # f2p_ref cs)"
  by pat_completeness auto
termination by (relation "measure length") (auto simp: le_imp_less_Suc length_dropWhile_le)

lemma dropWhile_count: "length (dropWhile Q cs) + length (filter P (dropWhile Q cs)) \<le> length cs + length (filter P cs)"
  by (induction cs) auto

lemma f2p_ref_length: "length (f2p_ref cs) \<le> length cs + length (filter MP_VALID_PATH_DELIM cs)"
proof (induction cs rule: f2p_ref.induct)
  case (2 c cs)
  have le: "length (dropWhile MP_VALID_PATH_DELIM cs) + length (filter MP_VALID_PATH_DELIM (dropWhile MP_VALID_PATH_DELIM cs))
      \<le> length cs + length (filter MP_VALID_PATH_DELIM cs)" by (rule dropWhile_count)
  show ?case
  proof (cases "\<not> MP_VALID_PKG_CHAR c \<and> MP_VALID_PATH_DELIM c \<and> dropWhile MP_VALID_PATH_DELIM cs \<noteq> []")
    case True
    with 2(2) le show ?thesis by (simp del: dropWhile_eq_Nil_conv)
  next
    case False
    with 2(1,3) show ?thesis by (auto simp del: dropWhile_eq_Nil_conv)
  qed
qed simp

lemma nul_not_pkg [simp]: "\<not> MP_VALID_PKG_CHAR (CHR 0x00)"
  by (simp add: MP_VALID_PKG_CHAR_def is_alnum_def)

lemma f2p_ref_chars: "c \<in> set (f2p_ref cs) \<Longrightarrow> MP_VALID_PKG_CHAR c \<or> c = CHR '':''"
proof (induction cs rule: f2p_ref.induct)
  case (2 d ds)
  then show ?case by (auto simp: MP_VALID_PKG_CHAR_def split: if_splits)
qed simp

lemma put_next: "put_char (length pre) c (pre @ x # ys) = Inr (pre @ c # ys)"
  by (simp add: put_char_def)

lemma f2p_loop_run:
  "length (f2p_ref cs) \<le> n \<Longrightarrow> i = length pre \<Longrightarrow>
     f2p_loop cs i (pre @ replicate n (CHR 0x00)) = Inr (pre @ f2p_ref cs @ replicate (n - length (f2p_ref cs)) (CHR 0x00))"
proof (induction cs arbitrary: i n pre rule: f2p_ref.induct)
  case (2 c cs)
  show ?case
  proof (cases "MP_VALID_PKG_CHAR c \<or> \<not> MP_VALID_PATH_DELIM c")
    case True
    let ?d = "if MP_VALID_PKG_CHAR c then c else CHR ''_''"
    have r: "f2p_ref (c # cs) = ?d # f2p_ref cs" using True by auto
    then obtain m where m: "n = Suc m" "length (f2p_ref cs) \<le> m" using 2(4) by (cases n) auto
    have "f2p_loop (c # cs) i (pre @ replicate n (CHR 0x00)) = f2p_loop cs (i + 1) ((pre @ [?d]) @ replicate m (CHR 0x00))"
      using True 2(5) by (auto simp: m(1) put_next)
    also have "\<dots> = Inr ((pre @ [?d]) @ f2p_ref cs @ replicate (m - length (f2p_ref cs)) (CHR 0x00))"
    proof (cases "MP_VALID_PKG_CHAR c")
      case True
      then show ?thesis by (intro 2(1)) (use m(2) 2(5) in simp_all)
    next
      case False
      then show ?thesis using \<open>_ \<or> _\<close> by (intro 2(3)) (use m(2) 2(5) in simp_all)
    qed
    finally show ?thesis using r m(1) by simp
  next
    case False
    let ?rest = "dropWhile MP_VALID_PATH_DELIM cs"
    have cd: "\<not> MP_VALID_PKG_CHAR c" "MP_VALID_PATH_DELIM c" using False by simp_all
    show ?thesis
    proof (cases "?rest = []")
      case True
      have "f2p_ref (c # cs) = []" "f2p_loop (c # cs) i buf = Inr buf" for buf
        using True by (simp_all only: cd f2p_ref.simps(2) f2p_loop.simps(2) Let_def simp_thms if_True if_False)
      then show ?thesis by simp
    next
      case rest: False
      have r: "f2p_ref (c # cs) = ''::'' @ f2p_ref ?rest" using rest by (simp only: cd f2p_ref.simps(2) simp_thms if_True if_False)
      then obtain m where m: "n = Suc (Suc m)" "length (f2p_ref ?rest) \<le> m" using 2(4) by (cases n; cases "n - 1") auto
      have p1: "put_char (i + 1) (CHR '':'') (pre @ replicate n (CHR 0x00)) = Inr (pre @ CHR 0x00 # CHR '':'' # replicate m (CHR 0x00))"
        using put_next [of "pre @ [CHR 0x00]" "CHR '':''" "CHR 0x00" "replicate m (CHR 0x00)"] by (simp add: m(1) 2(5))
      have p2: "put_char i (CHR '':'') (pre @ CHR 0x00 # CHR '':'' # replicate m (CHR 0x00)) = Inr (pre @ CHR '':'' # CHR '':'' # replicate m (CHR 0x00))"
        by (simp only: 2(5) put_next)
      have "f2p_loop (c # cs) i (pre @ replicate n (CHR 0x00)) = f2p_loop ?rest (i + 2) ((pre @ ''::'') @ replicate m (CHR 0x00))"
        using rest by (simp only: cd f2p_loop.simps(2) Let_def simp_thms if_True if_False p1 p2 and_then_Inr append.simps append_assoc)
      also have "\<dots> = Inr ((pre @ ''::'') @ f2p_ref ?rest @ replicate (m - length (f2p_ref ?rest)) (CHR 0x00))"
        by (rule 2(2)) (use cd rest m(2) 2(5) in \<open>simp_all del: dropWhile_eq_Nil_conv\<close>)
      finally show ?thesis using r m(1) by simp
    qed
  qed
qed simp

lemma skip_prefix_run:
  "skip_prefix path = (if \<exists>c\<in>set path. MP_VALID_PKG_CHAR c then Inr (dropWhile (\<lambda>c. \<not> MP_VALID_PKG_CHAR c) path) else Inl OutOfBounds)"
  by (induction path) auto

text \<open>
  for a file name with at least one letter, digit or underscore, the buffer that \<open>modperl_file2package\<close> allocates is
  never overrun, and the result is the name after its first such character, where groups of path delimiters are \<open>::\<close>, delimiters at
  the end are dropped and other characters are \<open>_\<close>. A name without such a character makes the function read past its end.
\<close>

theorem file2package_spec:
  "modperl_file2package path =
     (if \<exists>c\<in>set path. MP_VALID_PKG_CHAR c then Inr (f2p_ref (dropWhile (\<lambda>c. \<not> MP_VALID_PKG_CHAR c) path)) else Inl OutOfBounds)"
proof (cases "\<exists>c\<in>set path. MP_VALID_PKG_CHAR c")
  case True
  define rest where "rest = dropWhile (\<lambda>c. \<not> MP_VALID_PKG_CHAR c) path"
  define len where "len = length rest + 1 + length (filter MP_VALID_PATH_DELIM rest)"
  have "length (f2p_ref rest) \<le> len" using f2p_ref_length [of rest] by (simp add: len_def)
  from f2p_loop_run [OF this, of 0 "[]"]
  have "f2p_loop rest 0 (replicate len (CHR 0x00)) = Inr (f2p_ref rest @ replicate (len - length (f2p_ref rest)) (CHR 0x00))" by simp
  moreover have "takeWhile (\<lambda>c. c \<noteq> CHR 0x00) (f2p_ref rest @ replicate k (CHR 0x00)) = f2p_ref rest" for k
  proof -
    have "c \<noteq> CHR 0x00" if "c \<in> set (f2p_ref rest)" for c
      using f2p_ref_chars [OF that] by auto
    then show ?thesis by (simp add: takeWhile_append2)
  qed
  ultimately show ?thesis
    using True by (simp add: modperl_file2package_def skip_prefix_run Let_def rest_def [symmetric] len_def [symmetric] del: One_nat_def)
next
  case False
  then show ?thesis by (simp add: modperl_file2package_def skip_prefix_run)
qed

theorem file2package_spec_witness:
  "modperl_file2package ''/etc/httpd/a-b.conf'' = Inr ''etc::httpd::a_b_conf'' \<and> modperl_file2package ''//'' = Inl OutOfBounds"
  by (simp add: file2package_spec MP_VALID_PKG_CHAR_def MP_VALID_PATH_DELIM_def is_alnum_def Let_def)

section \<open>Tables: \<open>$r->dir_config\<close>\<close>

text \<open>What the methods return: \<open>undef\<close>, a new undefined scalar, the tied table, or a string. A value argument is absent, \<open>undef\<close> or
a string. \<open>apr_table_set\<close> copies its arguments and has the effect of \<open>apr_table_setn\<close>.\<close>

datatype table_result = PL_sv_undef | NewUndef | TiedTable | StrValue string

definition SvOK :: "table_result \<Rightarrow> bool" where
  "SvOK x \<longleftrightarrow> x \<noteq> PL_sv_undef \<and> x \<noteq> NewUndef"

definition modperl_table_get_set ::
    "'t apr_table_ops \<Rightarrow> 't option \<Rightarrow> string option \<Rightarrow> string option option \<Rightarrow> table_result \<times> 't option" where
  "modperl_table_get_set T table key sv_val = (case table of
       None \<Rightarrow> (PL_sv_undef, None)
     | Some t \<Rightarrow> (case key of
         None \<Rightarrow> (TiedTable, Some t)
       | Some k \<Rightarrow> (case sv_val of
           None \<Rightarrow> (case apr_table_get T t k of Some v \<Rightarrow> StrValue v | None \<Rightarrow> NewUndef, Some t)
         | Some None \<Rightarrow> (PL_sv_undef, Some (apr_table_unset T k t))
         | Some (Some v) \<Rightarrow> (PL_sv_undef, Some (apr_table_setn T k v t)))))"

text \<open>\<open>dcfg\<close> is the table of the directory, \<open>None\<close> when the request has no per-directory configuration; \<open>scfg\<close> that of the
server, \<open>None\<close> when there is no server.\<close>

definition modperl_dir_config ::
    "'t apr_table_ops \<Rightarrow> 't option option \<Rightarrow> 't option option \<Rightarrow> string option \<Rightarrow> string option option
      \<Rightarrow> table_result \<times> 't option option \<times> 't option option" where
  "modperl_dir_config T dcfg scfg key sv_val =
     (let (retval, dcfg') = (case dcfg of None \<Rightarrow> (PL_sv_undef, None)
            | Some t \<Rightarrow> (let (x, t') = modperl_table_get_set T t key sv_val in (x, Some t')))
      in if SvOK retval then (retval, dcfg', scfg)
         else case scfg of
             None \<Rightarrow> (PL_sv_undef, dcfg', None)
           | Some t \<Rightarrow> (let (x, t') = modperl_table_get_set T t key sv_val in (x, dcfg', Some t')))"

text \<open>
  A lookup gives the value of the directory and, if that has none, the value of the server, and changes nothing. Setting a
  value changes the table of the directory, and the table of the server, which other directories share, as well.
\<close>

theorem dir_config_lookup_set:
  assumes "apr_table_laws T"
  shows "modperl_dir_config T (Some (Some d)) (Some (Some s)) (Some k) None =
       (case (apr_table_get T d k, apr_table_get T s k) of
          (Some v, _) \<Rightarrow> StrValue v | (None, Some v) \<Rightarrow> StrValue v | (None, None) \<Rightarrow> NewUndef, Some (Some d), Some (Some s)) \<and>
     (\<exists>d' s'. modperl_dir_config T (Some (Some d)) (Some (Some s)) (Some k) (Some (Some v)) =
       (PL_sv_undef, Some (Some d'), Some (Some s')) \<and> apr_table_get T d' k = Some v \<and> apr_table_get T s' k = Some v)"
  using apr_table_lawsD [OF assms]
  by (auto simp: modperl_dir_config_def modperl_table_get_set_def SvOK_def apr_table_get_def split: option.split list.split)

theorem dir_config_lookup_set_witness:
  "\<exists>d' s'. modperl_dir_config list_tables (Some (Some [])) (Some (Some [(''A'', ''x'')])) (Some ''a'') (Some (Some ''y'')) =
       (PL_sv_undef, Some (Some d'), Some (Some s')) \<and> apr_table_get list_tables s' ''a'' = Some ''y''"
  using dir_config_lookup_set [OF list_tables_laws, of "[]" "[(''A'', ''x'')]" "''a''" "''y''", THEN conjunct2] by blast

section \<open>Notes in Perl data\<close>

text \<open>\<open>pnotes\<close> is a Perl hash with its values; \<open>sv_refcnt\<close> counts the references of each scalar. The first call creates the hash and
registers its cleanup. The result is a new reference to the value.\<close>

record pnotes_state =
  pnotes :: "(string \<times> nat) list option"
  sv_refcnt :: "nat \<Rightarrow> int"
  pnotes_cleanups :: nat

datatype pnotes_result = NoNote | Note nat | NotesRef

definition sv_inc :: "nat \<Rightarrow> pnotes_state \<Rightarrow> pnotes_state" where
  "sv_inc x st = st\<lparr>sv_refcnt := (sv_refcnt st)(x := sv_refcnt st x + 1)\<rparr>"

definition sv_dec :: "nat \<Rightarrow> pnotes_state \<Rightarrow> pnotes_state" where
  "sv_dec x st = st\<lparr>sv_refcnt := (sv_refcnt st)(x := sv_refcnt st x - 1)\<rparr>"

text \<open>\<open>hv_store\<close> takes over the reference it is given and releases the value it replaces.\<close>

definition notes_store :: "string \<Rightarrow> nat \<Rightarrow> pnotes_state \<Rightarrow> pnotes_state" where
  "notes_store k v st = (case pnotes st of
       None \<Rightarrow> st
     | Some hv \<Rightarrow> (case map_of hv k of None \<Rightarrow> id | Some old \<Rightarrow> sv_dec old) (st\<lparr>pnotes := Some (AList.update k v hv)\<rparr>))"

definition modperl_pnotes :: "string option \<Rightarrow> nat option \<Rightarrow> pnotes_state \<Rightarrow> pnotes_result \<times> pnotes_state" where
  "modperl_pnotes key val st =
     (let st1 = (if pnotes st = None then st\<lparr>pnotes := Some [], pnotes_cleanups := pnotes_cleanups st + 1\<rparr> else st)
      in case key of
          None \<Rightarrow> (NotesRef, st1)
        | Some k \<Rightarrow> (case val of
            Some v \<Rightarrow> (Note v, sv_inc v (notes_store k v (sv_inc v st1)))
          | None \<Rightarrow> (case map_of (the (pnotes st1)) k of Some v \<Rightarrow> (Note v, sv_inc v st1) | None \<Rightarrow> (NoNote, st1))))"

definition modperl_cleanup_pnotes :: "pnotes_state \<Rightarrow> pnotes_state" where
  "modperl_cleanup_pnotes st = (case pnotes st of
       None \<Rightarrow> st | Some hv \<Rightarrow> (fold sv_dec (map snd hv) st)\<lparr>pnotes := None\<rparr>)"

fun pnotes_calls :: "(string option \<times> nat option) list \<Rightarrow> pnotes_state \<Rightarrow> pnotes_result list \<times> pnotes_state" where
  "pnotes_calls [] st = ([], st)"
| "pnotes_calls (c # cs) st = (let (x, st1) = modperl_pnotes (fst c) (snd c) st; (xs, st2) = pnotes_calls cs st1 in (x # xs, st2))"

definition hv_refs :: "(string \<times> nat) list \<Rightarrow> nat \<Rightarrow> int" where
  "hv_refs hv x = int (count_list (map snd hv) x)"

definition notes_count :: "pnotes_state \<Rightarrow> nat \<Rightarrow> int" where
  "notes_count st x = (case pnotes st of None \<Rightarrow> 0 | Some hv \<Rightarrow> hv_refs hv x)"

definition handed :: "nat \<Rightarrow> pnotes_result list \<Rightarrow> int" where
  "handed x rs = int (count_list rs (Note x))"

lemma count_update:
  "hv_refs (AList.update k v hv) x = hv_refs hv x + (if x = v then 1 else 0) - (if map_of hv k = Some x then 1 else 0)"
  "hv_refs [] x = 0" "hv_refs [(k, v)] x = (if x = v then 1 else 0)"
  by (induction hv) (auto simp: hv_refs_def)

lemma pnotes_call_count:
  assumes "modperl_pnotes key val st = (r, st')"
  shows "sv_refcnt st' x - notes_count st' x = sv_refcnt st x - notes_count st x + (if r = Note x then 1 else 0)"
  using assms
  by (auto simp: modperl_pnotes_def notes_count_def Let_def notes_store_def sv_inc_def sv_dec_def count_update
      split: option.splits if_splits)

lemma pnotes_calls_count:
  "pnotes_calls cs st = (rs, st') \<Longrightarrow>
     sv_refcnt st' x - notes_count st' x = sv_refcnt st x - notes_count st x + handed x rs"
proof (induction cs arbitrary: st rs)
  case (Cons c cs)
  obtain y st1 where y: "modperl_pnotes (fst c) (snd c) st = (y, st1)" by fastforce
  obtain ys where ys: "pnotes_calls cs st1 = (ys, st')" "rs = y # ys" using Cons.prems y by (auto split: prod.splits)
  from Cons.IH [OF ys(1)] pnotes_call_count [OF y, of x] show ?case by (auto simp: handed_def ys(2))
qed (simp add: handed_def)

lemma fold_sv_dec: "sv_refcnt (fold sv_dec xs st) x = sv_refcnt st x - int (count_list xs x)"
  by (induction xs arbitrary: st) (auto simp: sv_dec_def)

text \<open>
  Whatever is stored in the notes of a request, replaced and read, after the cleanup every scalar has exactly the references it had
  before plus those the calls have returned: nothing leaks and nothing is freed too early.
\<close>

theorem pnotes_balanced:
  "sv_refcnt (modperl_cleanup_pnotes (snd (pnotes_calls cs (st\<lparr>pnotes := None\<rparr>)))) x =
     sv_refcnt st x + handed x (fst (pnotes_calls cs (st\<lparr>pnotes := None\<rparr>)))"
proof -
  obtain rs st' where r: "pnotes_calls cs (st\<lparr>pnotes := None\<rparr>) = (rs, st')" by fastforce
  from pnotes_calls_count [OF r, of x] show ?thesis
    by (auto simp: r modperl_cleanup_pnotes_def notes_count_def hv_refs_def fold_sv_dec split: option.splits)
qed

lemma pnotes_get_set: "fst (modperl_pnotes (Some k) None (snd (modperl_pnotes (Some k) (Some v) st))) = Note v"
  by (auto simp: modperl_pnotes_def Let_def notes_store_def sv_inc_def sv_dec_def update_conv' split: option.splits)

section \<open>Arrays of strings\<close>

text \<open>A C string ends at its first null character.\<close>

definition c_string :: "string \<Rightarrow> string" where
  "c_string s = takeWhile (\<lambda>c. c \<noteq> CHR 0x00) s"

definition modperl_apr_array_header2avrv :: "string list option \<Rightarrow> string list" where
  "modperl_apr_array_header2avrv array = (case array of None \<Rightarrow> [] | Some xs \<Rightarrow> xs)"

text \<open>\<open>None\<close> stands for a scalar that is not a reference to an array.\<close>

definition modperl_avrv2apr_array_header :: "string list option \<Rightarrow> string list res" where
  "modperl_avrv2apr_array_header avrv = (case avrv of
       None \<Rightarrow> Inl (Croak ''Not an array reference'') | Some xs \<Rightarrow> Inr (map c_string xs))"

lemma array_roundtrip:
  assumes "\<forall>s\<in>set xs. CHR 0x00 \<notin> set s"
  shows "modperl_avrv2apr_array_header (Some (modperl_apr_array_header2avrv (Some xs))) = Inr xs"
proof -
  have "c_string s = s" if "s \<in> set xs" for s
    unfolding c_string_def takeWhile_eq_all_conv using assms that by metis
  then show ?thesis by (simp add: modperl_avrv2apr_array_header_def modperl_apr_array_header2avrv_def map_idI)
qed

section \<open>Unloading a package\<close>

text \<open>
  An entry of a stash is its name and the stash it came from. \<open>dl_librefs\<close> and \<open>dl_modules\<close> are the arrays of DynaLoader; an element is
  \<open>None\<close> when it is undefined.
\<close>

record unload_state =
  stashes :: "string \<Rightarrow> (string \<times> nat) list option"
  stash_id :: "string \<Rightarrow> nat"
  inc_hash :: "string \<Rightarrow> string option"
  librefs :: "nat option list"
  modules :: "string option list"
  libs_closed :: "nat list"

definition MP_STASH_SUBSTASH :: "string \<Rightarrow> bool" where
  "MP_STASH_SUBSTASH key = (length key \<ge> 2 \<and> key ! (length key - 1) = CHR '':'' \<and> key ! (length key - 2) = CHR '':'')"

definition MP_STASH_DEBUGGER :: "string \<Rightarrow> bool" where
  "MP_STASH_DEBUGGER key = (length key \<ge> 2 \<and> key ! 0 = CHR ''_'' \<and> key ! 1 = CHR ''<'')"

definition MP_SAFE_STASH :: "string \<Rightarrow> bool" where
  "MP_SAFE_STASH key = (\<not> (MP_STASH_SUBSTASH key \<or> MP_STASH_DEBUGGER key))"

definition modperl_package_clear_stash :: "string \<Rightarrow> unload_state \<Rightarrow> unload_state" where
  "modperl_package_clear_stash package st = (case stashes st package of
       None \<Rightarrow> st
     | Some es \<Rightarrow> st\<lparr>stashes := (stashes st)(package \<mapsto>
         filter (\<lambda>(key, owner). \<not> (MP_SAFE_STASH key \<and> owner = stash_id st package)) es)\<rparr>)"

definition modperl_package_delete_from_inc :: "string \<Rightarrow> unload_state \<Rightarrow> unload_state" where
  "modperl_package_delete_from_inc package st = st\<lparr>inc_hash := (inc_hash st)(package2filename package := None)\<rparr>"

definition modperl_perl_module_loaded :: "string \<Rightarrow> unload_state \<Rightarrow> bool" where
  "modperl_perl_module_loaded name st \<longleftrightarrow> inc_hash st (package2filename name) \<noteq> None"

text \<open>The loop runs while \<open>i < av_len(modules)\<close>, and \<open>av_len\<close> is the index of the last element.\<close>

fun dynamic_loop :: "string \<Rightarrow> nat \<Rightarrow> string option list \<Rightarrow> nat option res" where
  "dynamic_loop package i [] = Inr None"
| "dynamic_loop package i (m # ms) =
     (if ms = [] then Inr None
      else case m of
          None \<Rightarrow> Inl NullDeref
        | Some name \<Rightarrow> if package = name then Inr (Some i) else dynamic_loop package (i + 1) ms)"

definition modperl_package_is_dynamic :: "string \<Rightarrow> unload_state \<Rightarrow> nat option res" where
  "modperl_package_is_dynamic package st = dynamic_loop package 0 (modules st)"

text \<open>\<open>av_store\<close> extends the array when the index is behind its end.\<close>

definition av_store :: "nat \<Rightarrow> 'a option \<Rightarrow> 'a option list \<Rightarrow> 'a option list" where
  "av_store i x av = (if i < length av then av[i := x] else av @ replicate (i - length av) None @ [x])"

fun store_loop :: "nat \<Rightarrow> 'a option list \<Rightarrow> 'a option list \<Rightarrow> 'a option list" where
  "store_loop i [] av = av"
| "store_loop i (x # xs) av = store_loop (i + 1) xs (av_store i x av)"

definition modperl_av_remove_entry :: "'a option list \<Rightarrow> nat \<Rightarrow> 'a option list" where
  "modperl_av_remove_entry av index =
     (let tmpav = take (index + 1) av;
          shifted = drop (index + 1) av;
          unshifted = replicate (index - 1) None @ shifted
      in store_loop 0 (take index tmpav) unshifted)"

definition modperl_package_unload_dynamic :: "nat \<Rightarrow> unload_state \<Rightarrow> unload_state res" where
  "modperl_package_unload_dynamic dl_index st =
     (if dl_index < length (librefs st)
      then case librefs st ! dl_index of
          None \<Rightarrow> Inl NullDeref
        | Some h \<Rightarrow> Inr (st\<lparr>libs_closed := libs_closed st @ [h],
            librefs := modperl_av_remove_entry (librefs st) dl_index,
            modules := modperl_av_remove_entry (modules st) dl_index\<rparr>)
      else Inl NullDeref)"

definition modperl_package_unload :: "string \<Rightarrow> unload_state \<Rightarrow> unload_state res" where
  "modperl_package_unload package st =
     (let st1 = modperl_package_delete_from_inc package (modperl_package_clear_stash package st)
      in and_then (modperl_package_is_dynamic package st1) (\<lambda>d.
           case d of None \<Rightarrow> Inr st1 | Some i \<Rightarrow> modperl_package_unload_dynamic i st1))"

lemma store_loop_put:
  "length pre = i \<Longrightarrow> length xs \<le> length ys \<Longrightarrow> store_loop i xs (pre @ ys) = pre @ xs @ drop (length xs) ys"
proof (induction xs arbitrary: i pre ys)
  case (Cons x xs)
  then obtain y ys' where ys: "ys = y # ys'" by (cases ys) auto
  with Cons.IH [of "pre @ [x]" "i + 1" ys'] Cons.prems show ?case by (simp add: av_store_def list_update_append)
qed simp

text \<open>Removing the entry with the index \<open>index\<close> takes the next entry away too, unless \<open>index\<close> is 0.\<close>

theorem av_remove_entry_loses:
  assumes "index + 1 < length av"
  shows "modperl_av_remove_entry av index = (if index = 0 then tl av else take index av @ drop (index + 2) av)"
proof (cases "index = 0")
  case True
  then show ?thesis by (simp add: modperl_av_remove_entry_def drop_Suc)
next
  case False
  let ?ys = "replicate (index - 1) None @ drop (index + 1) av"
  have "length (take index av) \<le> length ?ys" using assms by simp
  from store_loop_put [of "[]" 0, OF _ this] have "store_loop 0 (take index av) ?ys = take index av @ drop index ?ys"
    using assms by simp
  moreover have "drop index ?ys = drop (index + 2) av" using False by (simp add: drop_drop)
  ultimately show ?thesis using False assms by (simp add: modperl_av_remove_entry_def Let_def min_def)
qed

theorem av_remove_entry_loses_witness:
  "modperl_av_remove_entry [Some ''A'', Some ''B'', Some ''C'', Some ''D''] 1 = [Some ''A'', Some ''D'']"
  using av_remove_entry_loses [of 1 "[Some ''A'', Some ''B'', Some ''C'', Some ''D'']"] by simp

lemma dynamic_last_missed: "modperl_package_is_dynamic package (st\<lparr>modules := [Some package]\<rparr>) = Inr None"
  by (simp add: modperl_package_is_dynamic_def)

text \<open>Unloading a package without a shared library: the file is gone from \<open>%INC\<close>, the symbols that the package defined are gone, and
the nested packages, the symbols imported from elsewhere and the other packages stay.\<close>

lemma package_unload_static:
  assumes "modperl_package_is_dynamic package st = Inr None" "stashes st package = Some es"
  shows "\<exists>st'. modperl_package_unload package st = Inr st' \<and> \<not> modperl_perl_module_loaded package st' \<and>
     stashes st' = (stashes st)(package \<mapsto> filter (\<lambda>(key, owner). \<not> (MP_SAFE_STASH key \<and> owner = stash_id st package)) es)"
  using assms by (simp add: modperl_package_unload_def modperl_package_is_dynamic_def modperl_package_delete_from_inc_def
        modperl_package_clear_stash_def modperl_perl_module_loaded_def Let_def)

section \<open>Reading a file\<close>

text \<open>What APR answers: the status of opening, reading with the bytes there are, and closing.\<close>

record slurp_io =
  open_rc :: int
  read_rc :: int
  contents :: string
  close_rc :: int

definition modperl_slurp_filename :: "slurp_io \<Rightarrow> nat \<Rightarrow> (int + string) res" where
  "modperl_slurp_filename f finfo_size =
     (if open_rc f \<noteq> APR_SUCCESS then Inr (Inl (open_rc f))
      else if read_rc f \<noteq> APR_SUCCESS then Inr (Inl (read_rc f))
      else let data = take finfo_size (contents f) in
        if length data \<noteq> finfo_size then Inl (Croak ''Error: read bytes, expected'')
        else if close_rc f \<noteq> APR_SUCCESS then Inr (Inl (close_rc f))
        else Inr (Inr data))"

section \<open>The restart counter\<close>

definition modperl_restart_count_inc :: "int option \<Rightarrow> int option" where
  "modperl_restart_count_inc data = (case data of Some n \<Rightarrow> Some (n + 1) | None \<Rightarrow> Some 1)"

definition modperl_restart_count :: "int option \<Rightarrow> int" where
  "modperl_restart_count data = (case data of Some n \<Rightarrow> n | None \<Rightarrow> 0)"

lemma restart_count_inc: "modperl_restart_count (modperl_restart_count_inc d) = modperl_restart_count d + 1"
  by (simp add: modperl_restart_count_inc_def modperl_restart_count_def split: option.split)

end
