(* ===== verification/Module_Add.thy ===== *)
theory Module_Add
  imports Perl_Module Util
begin

text \<open>
  Adding an Apache module from Perl: \<open>Apache2::Module::add\<close> with its list of directives, the rest of
  \<^verbatim>\<open>src/src/modules/perl/modperl_module.c\<close>, and \<^verbatim>\<open>src/xs/Apache2/Module/Apache2__Module.h\<close>.
\<close>

section \<open>Descriptions of directives\<close>

datatype cmd_how = RAW_ARGS | TAKE1 | TAKE2 | ITERATE | ITERATE2 | FLAG | NO_ARGS | TAKE12 | TAKE3 | TAKE23 | TAKE123 | TAKE13

datatype cmd_func = CmdTake1 | CmdTake2 | CmdTake123 | CmdFlag | CmdNoArgs

text \<open>A Perl value read from a description: its string, its integer if it is one, its truth.\<close>

record cmd_val =
  v_pv :: string
  v_iv :: "int option"
  v_true :: bool

text \<open>A description is an object with accessor methods (each call leaves a value or nothing and may leave an error in \<open>$@\<close>), a hash, or something else.\<close>

datatype cmd_desc =
    DescObject string "string \<Rightarrow> cmd_val option \<times> string option"
  | DescHash "string \<Rightarrow> cmd_val option"
  | DescOther

record command_rec =
  c_name :: string
  c_args_how :: int
  c_func :: cmd_func
  c_req_override :: int
  c_errmsg :: string
  c_func_name :: string
  c_cmd_data :: "string option"

text \<open>The numbers of httpd's \<open>cmd_how\<close> and of \<open>OR_ALL\<close>, and the lookup of the constants of \<open>Apache2::Const\<close>, which dies on an unknown name.\<close>

record cmd_consts =
  how_of :: "int \<Rightarrow> cmd_how option"
  TAKE1_num :: int
  OR_ALL :: int
  const_lookup :: "string \<Rightarrow> int res"

definition modperl_module_cmd_lookup :: "cmd_how option \<Rightarrow> cmd_func option" where
  "modperl_module_cmd_lookup how = (case how of
       None \<Rightarrow> None
     | Some TAKE1 \<Rightarrow> Some CmdTake1 | Some ITERATE \<Rightarrow> Some CmdTake1
     | Some TAKE2 \<Rightarrow> Some CmdTake2 | Some ITERATE2 \<Rightarrow> Some CmdTake2 | Some TAKE12 \<Rightarrow> Some CmdTake2
     | Some TAKE3 \<Rightarrow> Some CmdTake123 | Some TAKE23 \<Rightarrow> Some CmdTake123 | Some TAKE123 \<Rightarrow> Some CmdTake123 | Some TAKE13 \<Rightarrow> Some CmdTake123
     | Some RAW_ARGS \<Rightarrow> Some CmdTake1
     | Some FLAG \<Rightarrow> Some CmdFlag
     | Some NO_ARGS \<Rightarrow> Some CmdNoArgs)"

text \<open>The results are \<open>errmsg\<close> and \<open>retval\<close>.\<close>

definition modperl_module_cmd_fetch :: "cmd_desc \<Rightarrow> string \<Rightarrow> string option \<times> cmd_val option" where
  "modperl_module_cmd_fetch obj name = (case obj of
       DescObject class meth \<Rightarrow>
         (let (sv, err) = meth name;
              retval = (case sv of Some v \<Rightarrow> if v_true v then Some v else None | None \<Rightarrow> None);
              errmsg = (if retval = None
                        then Some (class @ ''->'' @ name @ '' did not return a '' @ (if sv \<noteq> None then ''true '' else '''') @ ''value'')
                        else None)
          in (if err \<noteq> None then err else errmsg, retval))
     | DescHash hv \<Rightarrow> (case hv name of
         Some v \<Rightarrow> (None, Some v)
       | None \<Rightarrow> (Some (''HASH key '' @ name @ '' does not exist''), None))
     | DescOther \<Rightarrow> (Some ''command entry is not an object or a HASH reference'', None))"

text \<open>The number of a constant that is given as an integer or by name.\<close>

definition const_value :: "cmd_consts \<Rightarrow> cmd_val \<Rightarrow> int res" where
  "const_value K v = (case v_iv v of Some n \<Rightarrow> Inr n | None \<Rightarrow> const_lookup K (v_pv v))"

text \<open>With no error message there is a value unless the call both succeeded and left an error; \<open>SvPV\<close> of the null pointer crashes.\<close>

definition fetched :: "string option \<times> cmd_val option \<Rightarrow> 'a res \<Rightarrow> (cmd_val \<Rightarrow> 'a res) \<Rightarrow> 'a res" where
  "fetched x no yes = (case x of (Some e, _) \<Rightarrow> no | (None, Some v) \<Rightarrow> yes v | (None, None) \<Rightarrow> Inl NullDeref)"

definition module_add_cmd :: "cmd_consts \<Rightarrow> cmd_desc \<Rightarrow> (string + command_rec) res" where
  "module_add_cmd K obj = (case modperl_module_cmd_fetch obj ''name'' of
       (Some e, _) \<Rightarrow> Inr (Inl e)
     | (None, None) \<Rightarrow> Inl NullDeref
     | (None, Some nm) \<Rightarrow>
       and_then (fetched (modperl_module_cmd_fetch obj ''args_how'') (Inr (TAKE1_num K)) (const_value K)) (\<lambda>args_how.
       case modperl_module_cmd_lookup (how_of K args_how) of
         None \<Rightarrow> Inr (Inl ''no command function defined for args_how'')
       | Some func \<Rightarrow>
         and_then (fetched (modperl_module_cmd_fetch obj ''func'') (Inr (v_pv nm)) (\<lambda>v. Inr (v_pv v))) (\<lambda>func_name.
         and_then (fetched (modperl_module_cmd_fetch obj ''req_override'') (Inr (OR_ALL K)) (const_value K)) (\<lambda>req_override.
         and_then (fetched (modperl_module_cmd_fetch obj ''errmsg'') (Inr (v_pv nm @ '' command'')) (\<lambda>v. Inr (v_pv v))) (\<lambda>errmsg.
         and_then (fetched (modperl_module_cmd_fetch obj ''cmd_data'') (Inr None) (\<lambda>v. Inr (Some (v_pv v)))) (\<lambda>cmd_data.
           Inr (Inr \<lparr>c_name = v_pv nm, c_args_how = args_how, c_func = func, c_req_override = req_override, c_errmsg = errmsg,
             c_func_name = func_name, c_cmd_data = cmd_data\<rparr>)))))))"

fun add_cmds_loop :: "cmd_consts \<Rightarrow> cmd_desc list \<Rightarrow> (string + command_rec list) res" where
  "add_cmds_loop K [] = Inr (Inr [])"
| "add_cmds_loop K (obj # objs) = and_then (module_add_cmd K obj) (\<lambda>x. case x of
       Inl e \<Rightarrow> Inr (Inl e)
     | Inr c \<Rightarrow> and_then (add_cmds_loop K objs) (\<lambda>y. Inr (case y of Inl e \<Rightarrow> Inl e | Inr cs \<Rightarrow> Inr (c # cs))))"

section \<open>Registering the module\<close>

record pmodule =
  pm_id :: nat
  pm_name :: string
  pm_minfo :: module_info
  pm_cmds :: "command_rec list"

text \<open>\<open>after_perl\<close>: the modules behind \<open>perl_module\<close> in httpd's list. \<open>pool_interp\<close>: what \<open>modperl_interp_pool_get\<close> has for a pool.\<close>

record 'p add_state =
  mst :: "'p mod_state"
  after_perl :: "pmodule list"
  loaded_mods :: "pmodule list"
  remove_cleanups :: "(nat \<times> nat) list"
  pool_interp :: "nat \<Rightarrow> nat option"

text \<open>Parameters: the methods a class has, the parent interpreter of a server (\<open>None\<close> where \<open>scfg->mip\<close> is null), and \<open>ap_single_module_configure\<close>.\<close>

record 'p add_env =
  cmd_env :: cmd_consts
  mod_hash :: hash_fun
  has_method :: "nat \<Rightarrow> 'p \<Rightarrow> string \<Rightarrow> string \<Rightarrow> bool"
  parent_perl :: "nat \<Rightarrow> nat option"
  module_configure :: "nat \<Rightarrow> nat \<Rightarrow> pmodule \<Rightarrow> 'p mod_state \<Rightarrow> 'p mod_state"
  new_hash :: "'p mod_state \<Rightarrow> nat"

definition modperl_module_fetch_method :: "'p add_env \<Rightarrow> nat \<Rightarrow> 'p \<Rightarrow> string \<Rightarrow> string \<Rightarrow> mgv list option" where
  "modperl_module_fetch_method E perl pl name meth =
     (if has_method E perl pl name meth then Some (modperl_mgv_compile (mod_hash E) (name @ ''::'' @ meth)) else None)"

definition modperl_module_insert :: "pmodule \<Rightarrow> 'p add_state \<Rightarrow> 'p add_state" where
  "modperl_module_insert modp st = st\<lparr>after_perl := modp # after_perl st\<rparr>"

definition modperl_module_remove :: "nat \<Rightarrow> 'p add_state \<Rightarrow> 'p add_state" where
  "modperl_module_remove modp st = st\<lparr>after_perl := filter (\<lambda>m. pm_id m \<noteq> modp) (after_perl st),
     loaded_mods := filter (\<lambda>m. pm_id m \<noteq> modp) (loaded_mods st)\<rparr>"

text \<open>\<open>scfg->modules\<close> of the server, created when there is none yet, gets the new module under its name.\<close>

definition modules_hash_set :: "'p add_env \<Rightarrow> nat \<Rightarrow> string \<Rightarrow> nat \<Rightarrow> 'p mod_state \<Rightarrow> 'p mod_state" where
  "modules_hash_set E s name modp st =
     (let (h, st1) = (case scfg_modules st s of
          Some (Some h) \<Rightarrow> (h, st)
        | _ \<Rightarrow> (let h = new_hash E st in (h, st\<lparr>scfg_modules := (scfg_modules st)(s := Some (Some h)),
                                            module_hashes := (module_hashes st)(h := Map.empty)\<rparr>)))
      in st1\<lparr>module_hashes := (module_hashes st1)(h := (module_hashes st1 h)(name \<mapsto> modp))\<rparr>)"

text \<open>\<open>i\<close> is the new module. The result is an error message or nothing.\<close>

definition modperl_module_add ::
    "'p add_env \<Rightarrow> nat \<Rightarrow> nat \<Rightarrow> nat \<Rightarrow> string \<Rightarrow> cmd_desc list \<Rightarrow> 'p add_state \<Rightarrow> (string option \<times> 'p add_state) res" where
  "modperl_module_add E i p s name mod_cmds st = (case parent_perl E s of
       None \<Rightarrow> Inl NullDeref
     | Some perl \<Rightarrow>
       let fetch = modperl_module_fetch_method E perl (mperl (mst st)) name;
           minfo = \<lparr>dir_create = fetch ''DIR_CREATE'', dir_merge = fetch ''DIR_MERGE'', srv_create = fetch ''SERVER_CREATE'',
                    srv_merge = fetch ''SERVER_MERGE'', namelen = length name\<rparr>
       in and_then (add_cmds_loop (cmd_env E) mod_cmds) (\<lambda>r. case r of
            Inl e \<Rightarrow> Inr (Some e, st)
          | Inr cmds \<Rightarrow>
            let modp = \<lparr>pm_id = i, pm_name = name, pm_minfo = minfo, pm_cmds = cmds\<rparr>;
                st1 = modperl_module_insert modp st;
                st2 = st1\<lparr>loaded_mods := modp # loaded_mods st1, remove_cleanups := (p, i) # remove_cleanups st1\<rparr>;
                st3 = st2\<lparr>mst := modules_hash_set E s name i (module_configure E p s modp (mst st2))\<rparr>
            in Inr (None, if pool_interp st3 p = None then st3\<lparr>pool_interp := (pool_interp st3)(p := Some perl)\<rparr> else st3)))"

text \<open>\<open>Apache2::Module::add\<close>: the descriptions have to be in an array (\<open>None\<close> otherwise); an error is a Perl exception.\<close>

definition Module_add ::
    "'p add_env \<Rightarrow> nat \<Rightarrow> nat \<Rightarrow> nat \<Rightarrow> string \<Rightarrow> cmd_desc list option \<Rightarrow> 'p add_state \<Rightarrow> 'p add_state res" where
  "Module_add E i p s package cmds st = (case cmds of
       None \<Rightarrow> Inl (Croak ''Usage: Apache2::Module::add(__PACKAGE__, [])'')
     | Some cs \<Rightarrow> and_then (modperl_module_add E i p s package cs st) (\<lambda>(err, st').
         case err of Some e \<Rightarrow> Inl (Croak (''Apache2::Module::add('' @ package @ '') failed : '' @ e)) | None \<Rightarrow> Inr st'))"

section \<open>What a module that was added can do\<close>

definition desc_ok :: "cmd_consts \<Rightarrow> cmd_desc \<Rightarrow> bool" where
  "desc_ok K obj \<longleftrightarrow> (\<exists>c. module_add_cmd K obj = Inr (Inr c))"

lemma add_cmds_loop_ok:
  "add_cmds_loop K objs = Inr (Inr cs) \<longleftrightarrow> list_all2 (\<lambda>obj c. module_add_cmd K obj = Inr (Inr c)) objs cs"
proof (induction objs arbitrary: cs)
  case (Cons obj objs)
  show ?case
  proof (cases "module_add_cmd K obj")
    case (Inr x)
    then show ?thesis using Cons.IH
      by (cases x; cases "add_cmds_loop K objs"; cases cs) (auto split: sum.splits, metis sum.inject(2))
  qed (simp add: list_all2_Cons1)
qed auto

text \<open>
  When \<open>Apache2::Module::add\<close> does not die, every description has become a directive, in the order given; the module then stands directly behind mod_perl in httpd's list, its configurations are made, it is found under
  its name by the lookups of the server, and the pool knows an interpreter.
\<close>

theorem module_add_result:
  assumes "Module_add E i p s name (Some descs) st = Inr st'" "scfg_modules (mst st) s \<noteq> None"
    and "\<And>m x. scfg_modules (module_configure E p s m x) = scfg_modules x \<and> module_hashes (module_configure E p s m x) = module_hashes x"
  shows "\<exists>m h. after_perl st' = m # after_perl st \<and> pm_name m = name \<and> (p, i) \<in> set (remove_cleanups st') \<and>
     list_all2 (\<lambda>d c. module_add_cmd (cmd_env E) d = Inr (Inr c)) descs (pm_cmds m) \<and>
     scfg_modules (mst st') s = Some (Some h) \<and> module_hashes (mst st') h name = Some i \<and> pool_interp st' p \<noteq> None \<and>
     (\<forall>other h'. scfg_modules (mst st) s = Some (Some h') \<longrightarrow> other \<noteq> name \<longrightarrow> module_hashes (mst st') h other = module_hashes (mst st) h' other)"
proof -
  obtain perl where perl: "parent_perl E s = Some perl" using assms(1) by (auto simp: Module_add_def modperl_module_add_def split: option.splits)
  obtain cs where cs: "add_cmds_loop (cmd_env E) descs = Inr (Inr cs)"
  proof (cases "add_cmds_loop (cmd_env E) descs")
    case (Inr r)
    then show ?thesis using assms(1) perl that by (cases r) (simp_all add: Module_add_def modperl_module_add_def Let_def)
  qed (use assms(1) perl in \<open>simp add: Module_add_def modperl_module_add_def Let_def\<close>)
  let ?fetch = "modperl_module_fetch_method E perl (mperl (mst st)) name"
  let ?m = "\<lparr>pm_id = i, pm_name = name, pm_minfo = \<lparr>dir_create = ?fetch ''DIR_CREATE'', dir_merge = ?fetch ''DIR_MERGE'',
      srv_create = ?fetch ''SERVER_CREATE'', srv_merge = ?fetch ''SERVER_MERGE'', namelen = length name\<rparr>, pm_cmds = cs\<rparr>"
  let ?x = "module_configure E p s ?m (mst st)"
  have st': "after_perl st' = ?m # after_perl st" "remove_cleanups st' = (p, i) # remove_cleanups st" "pool_interp st' p \<noteq> None"
    "mst st' = modules_hash_set E s name i ?x"
    using assms(1) perl cs by (auto simp: Module_add_def modperl_module_add_def Let_def modperl_module_insert_def)
  note x = assms(3) [of ?m "mst st"]
  obtain h where h: "scfg_modules (mst st') s = Some (Some h)" "module_hashes (mst st') h name = Some i"
    "\<forall>other h'. scfg_modules (mst st) s = Some (Some h') \<longrightarrow> other \<noteq> name \<longrightarrow> module_hashes (mst st') h other = module_hashes (mst st) h' other"
  proof (cases "scfg_modules (mst st) s")
    case (Some mo)
    with that x show ?thesis by (cases mo) (auto simp: st'(4) modules_hash_set_def Let_def)
  qed (use assms(2) in simp)
  show ?thesis
    by (rule exI [of _ ?m], rule exI [of _ h]) (use st' h cs in \<open>simp add: add_cmds_loop_ok\<close>)
qed

text \<open>
  A directive that is described by an object takes one argument instead of raw ones when the object says \<open>RAW_ARGS\<close>: that
  constant is 0, the accessor's value counts as missing, and the default is used. The same description as a hash is understood.
\<close>

theorem module_cmd_raw_args:
  assumes "how_of K 0 = Some RAW_ARGS" "how_of K (TAKE1_num K) = Some TAKE1" "v_pv nm = name"
    and "\<And>k. hv k = (if k = ''name'' then Some nm else if k = ''args_how'' then Some \<lparr>v_pv = ''0'', v_iv = Some 0, v_true = False\<rparr> else None)"
    and "v_true nm"
  shows "(\<exists>c. module_add_cmd K (DescObject class (\<lambda>k. (hv k, None))) = Inr (Inr c) \<and> c_name c = name \<and> c_args_how c = TAKE1_num K) \<and>
     (\<exists>c. module_add_cmd K (DescHash hv) = Inr (Inr c) \<and> c_name c = name \<and> c_args_how c = 0)"
  using assms by (simp add: module_add_cmd_def modperl_module_cmd_fetch_def modperl_module_cmd_lookup_def fetched_def const_value_def)

section \<open>Is a module loaded?\<close>

text \<open>\<open>linked\<close> is \<open>ap_find_linked_module\<close> with the question whether the module was loaded dynamically.\<close>

definition Module_loaded :: "(string \<Rightarrow> bool option) \<Rightarrow> unload_state \<Rightarrow> string \<Rightarrow> bool res" where
  "Module_loaded linked perl name =
     (if CHR ''.'' \<in> set name
      then let base = takeWhile (\<lambda>c. c \<noteq> CHR ''.'') name; ext = drop (length base + 1) name
           in if length base + 3 > 256 then Inl OutOfBounds
              else Inr (case linked (base @ ''.c'') of
                  None \<Rightarrow> False
                | Some dynamic \<Rightarrow> take 1 ext = ''c'' \<or> ext = ''so'' \<and> dynamic)
      else Inr (modperl_perl_module_loaded name perl))"

text \<open>
  The name is copied into 256 bytes without a check: the call writes outside of them exactly when there are more than 253 characters
  before the first dot, and answers otherwise.
\<close>

theorem module_loaded_overflow:
  "(Module_loaded linked perl name = Inl OutOfBounds) =
     (CHR ''.'' \<in> set name \<and> 253 < length (takeWhile (\<lambda>c. c \<noteq> CHR ''.'') name))"
  by (auto simp: Module_loaded_def Let_def split: option.splits)

section \<open>Examples\<close>

definition demo_consts :: cmd_consts where
  "demo_consts = \<lparr>how_of = (\<lambda>n. if n = 0 then Some RAW_ARGS else if n = 1 then Some TAKE1 else if n = 6 then Some NO_ARGS else None),
     TAKE1_num = 1, OR_ALL = 31, const_lookup = (\<lambda>s. if s = ''NO_ARGS'' then Inr 6 else Inl (Croak ''unknown constant''))\<rparr>"

definition demo_add_env :: "nat add_env" where
  "demo_add_env = \<lparr>cmd_env = demo_consts, mod_hash = (\<lambda>s. 1), has_method = (\<lambda>perl pl c m. m = ''DIR_CREATE''), parent_perl = (\<lambda>s. Some 0),
     module_configure = (\<lambda>p s m st. st), new_hash = (\<lambda>st. 9)\<rparr>"

definition demo_desc :: cmd_desc where
  "demo_desc = DescHash (\<lambda>k. if k = ''name'' then Some \<lparr>v_pv = ''MySwitch'', v_iv = None, v_true = True\<rparr>
     else if k = ''args_how'' then Some \<lparr>v_pv = ''NO_ARGS'', v_iv = None, v_true = True\<rparr> else None)"

definition demo_add_state :: "nat add_state" where
  "demo_add_state = \<lparr>mst = demo_start, after_perl = [], loaded_mods = [], remove_cleanups = [], pool_interp = (\<lambda>_. None)\<rparr>"

lemma demo_add_cmd: "module_add_cmd demo_consts demo_desc = Inr (Inr \<lparr>c_name = ''MySwitch'', c_args_how = 6, c_func = CmdNoArgs,
    c_req_override = 31, c_errmsg = ''MySwitch command'', c_func_name = ''MySwitch'', c_cmd_data = None\<rparr>)"
  by (simp add: module_add_cmd_def demo_desc_def modperl_module_cmd_fetch_def fetched_def const_value_def demo_consts_def modperl_module_cmd_lookup_def)

theorem module_add_result_witness:
  "\<exists>st' m h. Module_add demo_add_env 7 0 0 ''My'' (Some [demo_desc]) demo_add_state = Inr st' \<and> after_perl st' = [m] \<and> pm_name m = ''My'' \<and>
     scfg_modules (mst st') 0 = Some (Some h) \<and> module_hashes (mst st') h ''My'' = Some 7"
proof -
  obtain st' where st': "Module_add demo_add_env 7 0 0 ''My'' (Some [demo_desc]) demo_add_state = Inr st'"
    by (simp add: Module_add_def modperl_module_add_def demo_add_env_def demo_add_cmd Let_def)
  have "scfg_modules (mst demo_add_state) 0 \<noteq> None" by (simp add: demo_add_state_def demo_start_def mod_start_def)
  from module_add_result [OF st' this] st' show ?thesis by (fastforce simp: demo_add_env_def demo_add_state_def)
qed

theorem module_cmd_raw_args_witness:
  "\<exists>c. module_add_cmd demo_consts (DescObject ''My'' (\<lambda>k. (if k = ''name'' then Some \<lparr>v_pv = ''Raw'', v_iv = None, v_true = True\<rparr>
     else if k = ''args_how'' then Some \<lparr>v_pv = ''0'', v_iv = Some 0, v_true = False\<rparr> else None, None))) = Inr (Inr c) \<and> c_args_how c = 1"
  using module_cmd_raw_args [of demo_consts "\<lparr>v_pv = ''Raw'', v_iv = None, v_true = True\<rparr>" "''Raw''"
      "\<lambda>k. if k = ''name'' then Some \<lparr>v_pv = ''Raw'', v_iv = None, v_true = True\<rparr>
        else if k = ''args_how'' then Some \<lparr>v_pv = ''0'', v_iv = Some 0, v_true = False\<rparr> else None" "''My''"]
  by (auto simp: demo_consts_def)

end
