(* ===== verification/Pool_Objects.thy ===== *)
theory Pool_Objects
  imports Prelude "HOL-Library.Multiset"
begin

text \<open>
  \<open>APR::Pool\<close> objects: \<^verbatim>\<open>src/xs/APR/Pool/APR__Pool.h\<close> and the pool magic of \<^verbatim>\<open>src/xs/modperl_xs_util.h\<close>.

  The Perl object of a pool that was made with \<open>APR::Pool->new\<close> owns the pool: destroying the object destroys the pool. A cleanup of the pool
  takes the ownership away when the pool goes first, for instance with its parent, and the magic of the object keeps the
  object of the parent alive. Scalars and pools are numbers, pool 0 is the null pointer.
\<close>

section \<open>State\<close>

text \<open>
  Of each scalar: whether it is allocated, its integer (the pool), its reference count, its \<open>PERL_MAGIC_ext\<close> magic with \<open>mg_obj\<close>. \<open>ext\<close> are the
  references that Perl code has, \<open>mortals\<close> those that \<open>sv_2mortal\<close> put off (an assignment of \<open>undef\<close> goes through the same list).
  \<open>pools\<close> has for each pool its ancestors, the parent first; \<open>cleanups\<close> are the registered ones. \<open>interp_refs\<close> are the references that this
  code has taken of the interpreter. \<open>ran\<close> records the Perl cleanups that were called.
\<close>

datatype pool_cleanup = Acct nat | PerlCleanup nat "nat option"

record pstate =
  sv_live :: "nat \<Rightarrow> bool"
  sv_iv :: "nat \<Rightarrow> nat"
  sv_refs :: "nat \<Rightarrow> nat"
  sv_mg :: "nat \<Rightarrow> nat option option"
  ext :: "nat \<Rightarrow> nat"
  from_new :: "nat \<Rightarrow> bool"
  mortals :: "nat list"
  pools :: "nat \<Rightarrow> nat list option"
  cleanups :: "(nat \<times> pool_cleanup) list"
  interp_refs :: int
  ran :: "(nat \<times> nat option) list"

text \<open>The order in which APR runs the cleanups of a pool and its descendants, and whether there is an interpreter to keep
(\<open>modperl_opt_thx_interp_get\<close> gives one).\<close>

record pool_env =
  cleanup_order :: "(nat \<times> pool_cleanup) list \<Rightarrow> (nat \<times> pool_cleanup) list"
  has_interp :: bool

section \<open>Ownership\<close>

definition mpxs_pool_is_custom :: "nat \<Rightarrow> pstate \<Rightarrow> bool res" where
  "mpxs_pool_is_custom sv st = (if sv_live st sv then Inr (sv_mg st sv \<noteq> None) else Inl UseAfterFree)"

definition interp_keep :: "pool_env \<Rightarrow> pstate \<Rightarrow> pstate" where
  "interp_keep E st = (if has_interp E then st\<lparr>interp_refs := interp_refs st + 1\<rparr> else st)"

definition interp_release :: "pool_env \<Rightarrow> pstate \<Rightarrow> pstate" where
  "interp_release E st = (if has_interp E then st\<lparr>interp_refs := interp_refs st - 1\<rparr> else st)"

text \<open>\<open>sv_magic\<close> adds nothing to a scalar that has magic of the kind already.\<close>

definition MP_APR_POOL_SV_TAKES_OWNERSHIP :: "pool_env \<Rightarrow> nat \<Rightarrow> nat \<Rightarrow> pstate \<Rightarrow> pstate" where
  "MP_APR_POOL_SV_TAKES_OWNERSHIP E sv pool st =
     interp_keep E (st\<lparr>sv_iv := (sv_iv st)(sv := pool),
       sv_mg := (if sv_mg st sv = None then (sv_mg st)(sv := Some None) else sv_mg st),
       cleanups := (pool, Acct sv) # cleanups st\<rparr>)"

definition MP_APR_POOL_SV_DROPS_OWNERSHIP :: "pool_env \<Rightarrow> nat \<Rightarrow> pstate \<Rightarrow> pstate res" where
  "MP_APR_POOL_SV_DROPS_OWNERSHIP E sv st =
     (if sv_live st sv
      then Inr (interp_release E (st\<lparr>mortals := mortals st @ (case sv_mg st sv of Some (Some obj) \<Rightarrow> [obj] | _ \<Rightarrow> []),
             sv_mg := (sv_mg st)(sv := None), sv_iv := (sv_iv st)(sv := 0)\<rparr>))
      else Inl UseAfterFree)"

definition mpxs_cleanup_run :: "pool_env \<Rightarrow> nat \<Rightarrow> nat option \<Rightarrow> pstate \<Rightarrow> pstate" where
  "mpxs_cleanup_run E cv arg st = interp_release E (st\<lparr>ran := ran st @ [(cv, arg)]\<rparr>)"

definition mpxs_apr_pool_cleanup :: "pool_env \<Rightarrow> pool_cleanup \<Rightarrow> pstate \<Rightarrow> pstate res" where
  "mpxs_apr_pool_cleanup E c st = (case c of
       Acct sv \<Rightarrow> MP_APR_POOL_SV_DROPS_OWNERSHIP E sv st
     | PerlCleanup cv arg \<Rightarrow> Inr (mpxs_cleanup_run E cv arg st))"

definition mpxs_apr_pool_cleanup_register :: "pool_env \<Rightarrow> nat \<Rightarrow> nat \<Rightarrow> nat option \<Rightarrow> pstate \<Rightarrow> pstate res" where
  "mpxs_apr_pool_cleanup_register E p cv arg st =
     (if p = 0 then Inl (Croak ''invalid pool object (already destroyed?)'')
      else if pools st p = None then Inl UseAfterFree
      else Inr (interp_keep E (st\<lparr>cleanups := (p, PerlCleanup cv arg) # cleanups st\<rparr>)))"

section \<open>Pools\<close>

definition under :: "nat \<Rightarrow> pstate \<Rightarrow> nat \<Rightarrow> bool" where
  "under p st q \<longleftrightarrow> (case pools st q of Some path \<Rightarrow> p \<in> set path | None \<Rightarrow> False)"

fun run_cleanups :: "pool_env \<Rightarrow> (nat \<times> pool_cleanup) list \<Rightarrow> pstate \<Rightarrow> pstate res" where
  "run_cleanups E [] st = Inr st"
| "run_cleanups E (c # cs) st = and_then (mpxs_apr_pool_cleanup E (snd c) st) (run_cleanups E cs)"

text \<open>\<open>apr_pool_clear\<close> destroys the descendants and runs all the cleanups; \<open>apr_pool_destroy\<close> gives the pool itself back too.\<close>

definition apr_pool_clear :: "pool_env \<Rightarrow> nat \<Rightarrow> pstate \<Rightarrow> pstate res" where
  "apr_pool_clear E p st =
     (if p = 0 then Inl NullDeref
      else if pools st p = None then Inl UseAfterFree
      else let mine = (\<lambda>(q, c). q = p \<or> under p st q)
           in and_then (run_cleanups E (cleanup_order E (filter mine (cleanups st)))
                (st\<lparr>cleanups := filter (\<lambda>c. \<not> mine c) (cleanups st)\<rparr>))
              (\<lambda>st1. Inr (st1\<lparr>pools := (\<lambda>q. if under p st q then None else pools st q)\<rparr>)))"

definition apr_pool_destroy :: "pool_env \<Rightarrow> nat \<Rightarrow> pstate \<Rightarrow> pstate res" where
  "apr_pool_destroy E p st = and_then (apr_pool_clear E p st) (\<lambda>st1. Inr (st1\<lparr>pools := (pools st1)(p := None)\<rparr>))"

text \<open>\<open>sv_setref_pv\<close>: a new object, with one reference of Perl code, for a pool; \<open>new\<close> says that it is made by \<open>APR::Pool->new\<close>.\<close>

definition sv_setref_pv :: "nat \<Rightarrow> nat \<Rightarrow> bool \<Rightarrow> pstate \<Rightarrow> pstate" where
  "sv_setref_pv s p new st = st\<lparr>sv_live := (sv_live st)(s := True), sv_refs := (sv_refs st)(s := 1), ext := (ext st)(s := 1),
     from_new := (from_new st)(s := new), sv_mg := (sv_mg st)(s := None), sv_iv := (sv_iv st)(s := p)\<rparr>"

text \<open>
  \<open>mpxs_add_pool_magic\<close> for an object that has magic with a free slot. The new pool is \<open>c\<close>, the new scalar \<open>s\<close>; \<open>None\<close> is the class as
  argument. Two different pools never have the same address, so the check for that is not in the model.
\<close>

definition mpxs_add_pool_magic :: "nat \<Rightarrow> nat \<Rightarrow> pstate \<Rightarrow> pstate res" where
  "mpxs_add_pool_magic obj pool_obj st = and_then (mpxs_pool_is_custom pool_obj st) (\<lambda>custom.
     if \<not> custom then Inr st
     else case sv_mg st obj of
         Some None \<Rightarrow> Inr (st\<lparr>sv_mg := (sv_mg st)(obj := Some (Some pool_obj)), sv_refs := (sv_refs st)(pool_obj := sv_refs st pool_obj + 1)\<rparr>)
       | Some (Some _) \<Rightarrow> Inl (Croak ''Fixme: don't know how to handle magic w/ occupied mg->mg_obj'')
       | None \<Rightarrow> Inr (st\<lparr>sv_mg := (sv_mg st)(obj := Some (Some pool_obj)), sv_refs := (sv_refs st)(pool_obj := sv_refs st pool_obj + 1)\<rparr>))"

definition mpxs_apr_pool_create :: "pool_env \<Rightarrow> nat option \<Rightarrow> nat \<Rightarrow> nat \<Rightarrow> pstate \<Rightarrow> pstate res" where
  "mpxs_apr_pool_create E parent_obj c s st =
     (let parent_pool = (case parent_obj of None \<Rightarrow> 0 | Some po \<Rightarrow> sv_iv st po)
      in and_then (if parent_pool = 0 then Inr [] else case pools st parent_pool of None \<Rightarrow> Inl UseAfterFree | Some path \<Rightarrow> Inr (parent_pool # path))
        (\<lambda>path.
          let st1 = sv_setref_pv s c True (st\<lparr>pools := (pools st)(c \<mapsto> path)\<rparr>);
              st2 = MP_APR_POOL_SV_TAKES_OWNERSHIP E s c st1
          in case parent_obj of
               Some po \<Rightarrow> if parent_pool \<noteq> 0 then mpxs_add_pool_magic s po st2 else Inr st2
             | None \<Rightarrow> Inr st2))"

definition mpxs_APR__Pool_clear :: "pool_env \<Rightarrow> nat \<Rightarrow> pstate \<Rightarrow> pstate res" where
  "mpxs_APR__Pool_clear E sv st = (let p = sv_iv st sv in and_then (mpxs_pool_is_custom sv st) (\<lambda>own.
     if \<not> own then apr_pool_clear E p st
     else and_then (apr_pool_clear E p st) (\<lambda>st1. Inr (MP_APR_POOL_SV_TAKES_OWNERSHIP E sv p st1))))"

definition mpxs_apr_pool_DESTROY :: "pool_env \<Rightarrow> nat \<Rightarrow> pstate \<Rightarrow> pstate res" where
  "mpxs_apr_pool_DESTROY E sv st = and_then (mpxs_pool_is_custom sv st) (\<lambda>own.
     if own then apr_pool_destroy E (sv_iv st sv) st else Inr st)"

text \<open>The object of the parent is a new one (\<open>s\<close>), without ownership; \<open>None\<close> is \<open>undef\<close>.\<close>

definition mpxs_apr_pool_parent_get :: "nat \<Rightarrow> nat \<Rightarrow> pstate \<Rightarrow> (nat option \<times> pstate) res" where
  "mpxs_apr_pool_parent_get child_pool s st =
     (if child_pool = 0 then Inl (Croak ''invalid pool object (already destroyed?)'')
      else case pools st child_pool of
        None \<Rightarrow> Inl UseAfterFree
      | Some [] \<Rightarrow> Inr (None, st)
      | Some (p # path) \<Rightarrow> Inr (Some s, sv_setref_pv s p False st))"

section \<open>Reference counts\<close>

text \<open>One reference of a scalar is given up. At the last one Perl calls \<open>DESTROY\<close>, then frees the scalar.\<close>

definition sv_release :: "pool_env \<Rightarrow> nat \<Rightarrow> pstate \<Rightarrow> pstate res" where
  "sv_release E s st =
     (if \<not> sv_live st s \<or> sv_refs st s = 0 then Inl UseAfterFree
      else if sv_refs st s = 1
      then and_then (mpxs_apr_pool_DESTROY E s st) (\<lambda>st1. Inr (st1\<lparr>sv_live := (sv_live st1)(s := False), sv_refs := (sv_refs st1)(s := 0)\<rparr>))
      else Inr (st\<lparr>sv_refs := (sv_refs st)(s := sv_refs st s - 1)\<rparr>))"

datatype pool_op =
    PNew "nat option" nat nat
  | PClear nat
  | PDestroy nat
  | PCopy nat
  | PUndef nat
  | PFreeTmp
  | PParent nat nat
  | PRegister nat nat "nat option"
  | CoreDestroy nat

text \<open>A step: what Perl code calls, giving up a reference, freeing the next mortal, and httpd destroying a pool of its own.\<close>

definition pool_step :: "pool_env \<Rightarrow> pool_op \<Rightarrow> pstate \<Rightarrow> pstate res" where
  "pool_step E x st = (case x of
       PNew parent c s \<Rightarrow> mpxs_apr_pool_create E parent c s st
     | PClear s \<Rightarrow> mpxs_APR__Pool_clear E s st
     | PDestroy s \<Rightarrow> mpxs_apr_pool_DESTROY E s st
     | PCopy s \<Rightarrow> Inr (st\<lparr>ext := (ext st)(s := ext st s + 1), sv_refs := (sv_refs st)(s := sv_refs st s + 1)\<rparr>)
     | PUndef s \<Rightarrow> Inr (st\<lparr>ext := (ext st)(s := ext st s - 1), mortals := s # mortals st\<rparr>)
     | PFreeTmp \<Rightarrow> (case mortals st of [] \<Rightarrow> Inr st | s # ms \<Rightarrow> sv_release E s (st\<lparr>mortals := ms\<rparr>))
     | PParent s t \<Rightarrow> and_then (mpxs_apr_pool_parent_get (sv_iv st s) t st) (\<lambda>(r, st'). Inr st')
     | PRegister s cv arg \<Rightarrow> mpxs_apr_pool_cleanup_register E (sv_iv st s) cv arg st
     | CoreDestroy p \<Rightarrow> apr_pool_destroy E p st)"

text \<open>A Perl exception leaves the state as it is.\<close>

fun pool_run :: "pool_env \<Rightarrow> pool_op list \<Rightarrow> pstate \<Rightarrow> pstate res" where
  "pool_run E [] st = Inr st"
| "pool_run E (x # xs) st = (case pool_step E x st of Inl (Croak m) \<Rightarrow> pool_run E xs st | Inl e \<Rightarrow> Inl e | Inr st' \<Rightarrow> pool_run E xs st')"

section \<open>What running cleanups does\<close>

fun acct_of :: "nat \<times> pool_cleanup \<Rightarrow> nat option" where
  "acct_of (p, Acct s) = Some s"
| "acct_of (p, PerlCleanup cv arg) = None"

definition acct_svs :: "(nat \<times> pool_cleanup) list \<Rightarrow> nat list" where
  "acct_svs cs = List.map_filter acct_of cs"

lemma acct_svs_simps [simp]:
  "acct_svs [] = []" "acct_svs ((p, Acct s) # cs) = s # acct_svs cs" "acct_svs ((p, PerlCleanup cv arg) # cs) = acct_svs cs"
  by (simp_all add: acct_svs_def map_filter_simps)

lemma acct_svs_mem: "s \<in> set (acct_svs cs) \<longleftrightarrow> (\<exists>p. (p, Acct s) \<in> set cs)"
proof (induction cs)
  case (Cons c cs)
  then show ?case by (cases c rule: acct_of.cases) auto
qed simp

lemma mset_acct_svs: "mset (acct_svs cs) = image_mset the (filter_mset (\<lambda>x. x \<noteq> None) (image_mset acct_of (mset cs)))"
proof (induction cs)
  case (Cons c cs)
  then show ?case by (cases c rule: acct_of.cases) auto
qed simp

lemma acct_svs_perm: "mset cs = mset ds \<Longrightarrow> mset (acct_svs cs) = mset (acct_svs ds)"
  by (simp add: mset_acct_svs)

lemma acct_svs_filter: "distinct (acct_svs cs) \<Longrightarrow> distinct (acct_svs (filter P cs))"
proof (induction cs)
  case (Cons c cs)
  then show ?case by (cases c rule: acct_of.cases) (auto simp: acct_svs_mem)
qed simp

lemma acct_svs_split: "distinct (acct_svs cs) \<Longrightarrow> s \<in> set (acct_svs (filter P cs)) \<Longrightarrow> s \<in> set (acct_svs (filter (\<lambda>c. \<not> P c) cs)) \<Longrightarrow> False"
proof (induction cs)
  case (Cons c cs)
  then show ?case by (cases c rule: acct_of.cases) (auto simp: acct_svs_mem split: if_splits)
qed simp

definition holds_on :: "(nat \<Rightarrow> nat option option) \<Rightarrow> nat \<Rightarrow> nat \<times> pool_cleanup \<Rightarrow> bool" where
  "holds_on mg x c = (case acct_of c of Some s \<Rightarrow> mg s = Some (Some x) | None \<Rightarrow> False)"

text \<open>How often the scalar \<open>x\<close> is the \<open>mg_obj\<close> of the objects with a registered account.\<close>

definition held :: "(nat \<Rightarrow> nat option option) \<Rightarrow> (nat \<times> pool_cleanup) list \<Rightarrow> nat \<Rightarrow> nat" where
  "held mg cs x = size (filter_mset (holds_on mg x) (mset cs))"

lemma held_simps [simp]:
  "held mg [] x = 0" "held mg ((p, Acct s) # cs) x = (if mg s = Some (Some x) then 1 else 0) + held mg cs x"
  "held mg ((p, PerlCleanup cv arg) # cs) x = held mg cs x"
  by (simp_all add: held_def holds_on_def)

lemma held_perm: "mset cs = mset ds \<Longrightarrow> held mg cs x = held mg ds x"
  by (simp add: held_def)

lemma held_split: "held mg cs x = held mg (filter P cs) x + held mg (filter (\<lambda>c. \<not> P c) cs) x"
proof (induction cs)
  case (Cons c cs)
  then show ?case by (cases c rule: acct_of.cases) auto
qed simp

lemma held_cong: "(\<And>s. s \<in> set (acct_svs cs) \<Longrightarrow> mg s = mg' s) \<Longrightarrow> held mg cs x = held mg' cs x"
proof (induction cs)
  case (Cons c cs)
  then show ?case by (cases c rule: acct_of.cases) auto
qed simp

lemma held_pos: "held mg cs x > 0 \<longleftrightarrow> (\<exists>p s. (p, Acct s) \<in> set cs \<and> mg s = Some (Some x))"
proof (induction cs)
  case (Cons c cs)
  then show ?case by (cases c rule: acct_of.cases) auto
qed simp

lemma run_cleanups_eff:
  "(\<forall>s\<in>set (acct_svs cs). sv_live st s) \<Longrightarrow> distinct (acct_svs cs) \<Longrightarrow> \<exists>ms n ra.
     run_cleanups E cs st = Inr (st\<lparr>mortals := ms, sv_mg := (\<lambda>s. if s \<in> set (acct_svs cs) then None else sv_mg st s),
       sv_iv := (\<lambda>s. if s \<in> set (acct_svs cs) then 0 else sv_iv st s), interp_refs := n, ran := ra\<rparr>) \<and>
     (\<forall>x. count (mset ms) x = count (mset (mortals st)) x + held (sv_mg st) cs x) \<and>
     n = interp_refs st - (if has_interp E then int (length cs) else 0)"
proof (induction cs arbitrary: st)
  case Nil
  have "st = st\<lparr>mortals := mortals st, ran := ran st\<rparr>" by simp
  then show ?case by (intro exI [of _ "mortals st"] exI [of _ "interp_refs st"] exI [of _ "ran st"]) simp
next
  case (Cons c cs)
  show ?case
  proof (cases c rule: acct_of.cases)
    case (1 p s)
    let ?st = "interp_release E (st\<lparr>mortals := mortals st @ (case sv_mg st s of Some (Some obj) \<Rightarrow> [obj] | _ \<Rightarrow> []),
             sv_mg := (sv_mg st)(s := None), sv_iv := (sv_iv st)(s := 0)\<rparr>)"
    have run: "run_cleanups E (c # cs) st = run_cleanups E cs ?st"
      using Cons.prems by (simp add: 1 mpxs_apr_pool_cleanup_def MP_APR_POOL_SV_DROPS_OWNERSHIP_def)
    have live: "\<forall>s\<in>set (acct_svs cs). sv_live ?st s" using Cons.prems by (simp add: 1 interp_release_def)
    have d: "distinct (acct_svs cs)" "s \<notin> set (acct_svs cs)" using Cons.prems by (simp_all add: 1)
    from Cons.IH [OF live d(1)] obtain ms n ra where r: "run_cleanups E cs ?st = Inr (?st\<lparr>mortals := ms,
         sv_mg := (\<lambda>s. if s \<in> set (acct_svs cs) then None else sv_mg ?st s),
         sv_iv := (\<lambda>s. if s \<in> set (acct_svs cs) then 0 else sv_iv ?st s), interp_refs := n, ran := ra\<rparr>)"
       "\<forall>x. count (mset ms) x = count (mset (mortals ?st)) x + held (sv_mg ?st) cs x"
       "n = interp_refs ?st - (if has_interp E then int (length cs) else 0)" by blast
    have h: "held (sv_mg ?st) cs x = held (sv_mg st) cs x" for x
      by (rule held_cong) (use d in \<open>auto simp: interp_release_def\<close>)
    show ?thesis
      unfolding run r(1)
      by (rule exI [of _ ms], rule exI [of _ n], rule exI [of _ ra])
         (use r(2,3) h in \<open>auto simp: 1 interp_release_def fun_eq_iff split: option.splits\<close>)
  next
    case (2 p cv arg)
    let ?st = "mpxs_cleanup_run E cv arg st"
    have run: "run_cleanups E (c # cs) st = run_cleanups E cs ?st" by (simp add: 2 mpxs_apr_pool_cleanup_def)
    have st: "sv_live ?st = sv_live st" "sv_mg ?st = sv_mg st" "sv_iv ?st = sv_iv st" "mortals ?st = mortals st"
      by (simp_all add: mpxs_cleanup_run_def interp_release_def)
    have "\<forall>s\<in>set (acct_svs cs). sv_live ?st s" "distinct (acct_svs cs)" using Cons.prems by (simp_all add: 2 st)
    from Cons.IH [OF this] obtain ms n ra where r: "run_cleanups E cs ?st = Inr (?st\<lparr>mortals := ms,
         sv_mg := (\<lambda>s. if s \<in> set (acct_svs cs) then None else sv_mg ?st s),
         sv_iv := (\<lambda>s. if s \<in> set (acct_svs cs) then 0 else sv_iv ?st s), interp_refs := n, ran := ra\<rparr>)"
       "\<forall>x. count (mset ms) x = count (mset (mortals ?st)) x + held (sv_mg ?st) cs x"
       "n = interp_refs ?st - (if has_interp E then int (length cs) else 0)" by blast
    show ?thesis
      unfolding run r(1)
      by (rule exI [of _ ms], rule exI [of _ n], rule exI [of _ ra])
         (use r(2,3) in \<open>auto simp: 2 st mpxs_cleanup_run_def interp_release_def cong: if_cong\<close>)
  qed
qed

section \<open>The invariant\<close>

text \<open>References of a scalar: those of Perl code, the pending mortals, the magic of other pool objects.\<close>

definition refs_of :: "pstate \<Rightarrow> nat \<Rightarrow> nat" where
  "refs_of st x = ext st x + count (mset (mortals st)) x + held (sv_mg st) (cleanups st) x"

definition accounts_ok :: "pstate \<Rightarrow> bool" where
  "accounts_ok st \<longleftrightarrow> distinct (acct_svs (cleanups st)) \<and> (\<forall>p c. (p, c) \<in> set (cleanups st) \<longrightarrow> pools st p \<noteq> None) \<and>
     (\<forall>p s. (p, Acct s) \<in> set (cleanups st) \<longrightarrow> sv_live st s \<and> sv_iv st s = p \<and> sv_mg st s \<noteq> None \<and> from_new st s) \<and>
     (\<forall>s. sv_live st s \<longrightarrow> (sv_mg st s \<noteq> None \<longrightarrow> (sv_iv st s, Acct s) \<in> set (cleanups st)) \<and> (from_new st s \<and> sv_mg st s = None \<longrightarrow> sv_iv st s = 0))"

definition refcounts_ok :: "pstate \<Rightarrow> bool" where
  "refcounts_ok st \<longleftrightarrow> (\<forall>s. (sv_live st s \<longrightarrow> sv_refs st s = refs_of st s \<and> 0 < refs_of st s) \<and> (\<not> sv_live st s \<longrightarrow> refs_of st s = 0))"

definition pools_ok :: "pstate \<Rightarrow> bool" where
  "pools_ok st \<longleftrightarrow> pools st 0 = None \<and> (\<forall>p path. pools st p = Some path \<longrightarrow> p \<notin> set path) \<and>
     (\<forall>p path r. pools st p = Some path \<longrightarrow> r \<in> set path \<longrightarrow> (\<exists>pr. pools st r = Some pr \<and> set pr \<subseteq> set path))"

definition base_inv :: "pool_env \<Rightarrow> pstate \<Rightarrow> bool" where
  "base_inv E st \<longleftrightarrow> accounts_ok st \<and> pools_ok st \<and> interp_refs st = (if has_interp E then int (length (cleanups st)) else 0)"

definition pool_inv :: "pool_env \<Rightarrow> pstate \<Rightarrow> bool" where
  "pool_inv E st \<longleftrightarrow> base_inv E st \<and> refcounts_ok st"

text \<open>APR runs each cleanup once, in some order.\<close>

definition order_ok :: "pool_env \<Rightarrow> bool" where
  "order_ok E \<longleftrightarrow> (\<forall>cs. mset (cleanup_order E cs) = mset cs)"

definition mine :: "nat \<Rightarrow> pstate \<Rightarrow> nat \<times> pool_cleanup \<Rightarrow> bool" where
  "mine p st = (\<lambda>(q, c). q = p \<or> under p st q)"

lemma clear_run:
  assumes E: "order_ok E" and i: "base_inv E st" and p: "pools st p \<noteq> None"
  obtains ms n ra where "apr_pool_clear E p st = Inr (st\<lparr>cleanups := filter (\<lambda>c. \<not> mine p st c) (cleanups st), mortals := ms,
       sv_mg := (\<lambda>s. if s \<in> set (acct_svs (filter (mine p st) (cleanups st))) then None else sv_mg st s),
       sv_iv := (\<lambda>s. if s \<in> set (acct_svs (filter (mine p st) (cleanups st))) then 0 else sv_iv st s), interp_refs := n, ran := ra,
       pools := (\<lambda>q. if under p st q then None else pools st q)\<rparr>)"
    "\<And>x. count (mset ms) x = count (mset (mortals st)) x + held (sv_mg st) (filter (mine p st) (cleanups st)) x"
    "n = (if has_interp E then int (length (filter (\<lambda>c. \<not> mine p st c) (cleanups st))) else 0)"
proof -
  let ?m = "filter (mine p st) (cleanups st)" and ?o = "filter (\<lambda>c. \<not> mine p st c) (cleanups st)"
  let ?cs = "cleanup_order E ?m" and ?st = "st\<lparr>cleanups := ?o\<rparr>"
  have ok: "accounts_ok st" "pools_ok st" using i by (simp_all add: base_inv_def)
  have ms: "mset ?cs = mset ?m" using E by (simp add: order_ok_def)
  have perm: "mset (acct_svs ?cs) = mset (acct_svs ?m)" by (rule acct_svs_perm [OF ms])
  have dm: "distinct (acct_svs ?m)" using ok(1) by (intro acct_svs_filter) (simp add: accounts_ok_def)
  have d: "distinct (acct_svs ?cs)" by (rule mset_eq_imp_distinct_iff [OF perm, THEN iffD2, OF dm])
  have s: "set (acct_svs ?cs) = set (acct_svs ?m)" using perm by (rule mset_eq_setD)
  have live: "\<forall>s\<in>set (acct_svs ?cs). sv_live ?st s" using ok(1) unfolding s by (auto simp: acct_svs_mem accounts_ok_def)
  have p0: "p \<noteq> 0" using p ok(2) unfolding pools_ok_def by metis
  from run_cleanups_eff [OF live d, of E] obtain m n ra where r: "run_cleanups E ?cs ?st = Inr (?st\<lparr>mortals := m,
       sv_mg := (\<lambda>s. if s \<in> set (acct_svs ?m) then None else sv_mg st s),
       sv_iv := (\<lambda>s. if s \<in> set (acct_svs ?m) then 0 else sv_iv st s), interp_refs := n, ran := ra\<rparr>)"
     "\<forall>x. count (mset m) x = count (mset (mortals st)) x + held (sv_mg st) ?cs x"
     "n = interp_refs st - (if has_interp E then int (length ?cs) else 0)" by (simp add: s cong: if_cong) blast
  have len: "length ?cs = length ?m" using ms by (rule mset_eq_length)
  have "length ?m + length ?o = length (cleanups st)" by (rule sum_length_filter_compl)
  then have n: "n = (if has_interp E then int (length ?o) else 0)" using r(3) i len by (simp add: base_inv_def)
  have run: "apr_pool_clear E p st = Inr (st\<lparr>cleanups := ?o, mortals := m,
       sv_mg := (\<lambda>s. if s \<in> set (acct_svs ?m) then None else sv_mg st s),
       sv_iv := (\<lambda>s. if s \<in> set (acct_svs ?m) then 0 else sv_iv st s), interp_refs := n, ran := ra,
       pools := (\<lambda>q. if under p st q then None else pools st q)\<rparr>)"
    using p p0 r(1) by (simp add: apr_pool_clear_def Let_def mine_def [symmetric])
  show thesis by (rule that [OF run _ n]) (simp add: r(2) held_perm [OF ms])
qed

lemma clear_inv:
  assumes E: "order_ok E" and i: "base_inv E st" and p: "pools st p \<noteq> None"
  shows "\<exists>st'. apr_pool_clear E p st = Inr st' \<and> base_inv E st' \<and> sv_live st' = sv_live st \<and> sv_refs st' = sv_refs st \<and> ext st' = ext st \<and>
     from_new st' = from_new st \<and> pools st' = (\<lambda>q. if under p st q then None else pools st q) \<and>
     cleanups st' = filter (\<lambda>c. \<not> mine p st c) (cleanups st) \<and>
     (\<forall>s. (p, Acct s) \<in> set (cleanups st) \<longrightarrow> sv_mg st' s = None \<and> sv_iv st' s = 0) \<and>
     (\<forall>x. refs_of st' x = refs_of st x)"
proof -
  let ?m = "filter (mine p st) (cleanups st)" and ?o = "filter (\<lambda>c. \<not> mine p st c) (cleanups st)"
  have ok: "accounts_ok st" "pools_ok st" using i by (simp_all add: base_inv_def)
  obtain ms n ra where r: "apr_pool_clear E p st = Inr (st\<lparr>cleanups := ?o, mortals := ms,
       sv_mg := (\<lambda>s. if s \<in> set (acct_svs ?m) then None else sv_mg st s),
       sv_iv := (\<lambda>s. if s \<in> set (acct_svs ?m) then 0 else sv_iv st s), interp_refs := n, ran := ra,
       pools := (\<lambda>q. if under p st q then None else pools st q)\<rparr>)" (is "_ = Inr ?st'")
    and c: "\<And>x. count (mset ms) x = count (mset (mortals st)) x + held (sv_mg st) ?m x"
    and n: "n = (if has_interp E then int (length ?o) else 0)" by (rule clear_run [OF E i p]) blast
  have d: "distinct (acct_svs (cleanups st))" using ok(1) by (simp add: accounts_ok_def)
  have disj: "s \<notin> set (acct_svs ?m)" if "s \<in> set (acct_svs ?o)" for s using acct_svs_split [OF d _ that] by blast
  have h: "held (sv_mg ?st') ?o x = held (sv_mg st) ?o x" for x by (rule held_cong) (use disj in auto)
  have refs: "refs_of ?st' x = refs_of st x" for x
    using h [of x] c [of x] held_split [of "sv_mg st" "cleanups st" x "mine p st"] by (simp add: refs_of_def)
  have "accounts_ok ?st'"
    unfolding accounts_ok_def
  proof (intro conjI allI impI)
    show "distinct (acct_svs (cleanups ?st'))" using acct_svs_filter [OF d] by simp
  next
    fix q c assume q: "(q, c) \<in> set (cleanups ?st')"
    then show "pools ?st' q \<noteq> None" using ok(1) by (auto simp: mine_def accounts_ok_def)
  next
    fix q s assume q: "(q, Acct s) \<in> set (cleanups ?st')"
    then have "s \<in> set (acct_svs ?o)" by (auto simp: acct_svs_mem)
    then have s: "s \<notin> set (acct_svs ?m)" by (rule disj)
    show "sv_live ?st' s" "from_new ?st' s" "sv_iv ?st' s = q" "sv_mg ?st' s \<noteq> None" using q s ok(1) by (auto simp: accounts_ok_def)
  next
    fix s assume s: "sv_live ?st' s" "sv_mg ?st' s \<noteq> None"
    then have n: "s \<notin> set (acct_svs ?m)" "sv_mg st s \<noteq> None" by (auto split: if_splits)
    with s(1) ok(1) have "(sv_iv st s, Acct s) \<in> set (cleanups st)" by (simp add: accounts_ok_def)
    with n(1) show "(sv_iv ?st' s, Acct s) \<in> set (cleanups ?st')" by (auto simp: acct_svs_mem)
  next
    fix s assume s: "sv_live ?st' s" "from_new ?st' s \<and> sv_mg ?st' s = None"
    then show "sv_iv ?st' s = 0" using ok(1) by (auto simp: accounts_ok_def)
  qed
  moreover have "pools_ok ?st'"
    unfolding pools_ok_def
  proof (intro conjI allI impI)
    show "pools ?st' 0 = None" using ok(2) by (simp add: pools_ok_def)
  next
    fix q path assume "pools ?st' q = Some path"
    then show "q \<notin> set path" using ok(2) by (simp add: pools_ok_def split: if_splits)
  next
    fix q path r assume q: "pools ?st' q = Some path" "r \<in> set path"
    then have q': "pools st q = Some path" "\<not> under p st q" by (simp_all split: if_splits)
    with ok(2) q(2) obtain pr where pr: "pools st r = Some pr" "set pr \<subseteq> set path" unfolding pools_ok_def by blast
    then have "\<not> under p st r" using q' by (auto simp: under_def)
    with pr show "\<exists>pr. pools ?st' r = Some pr \<and> set pr \<subseteq> set path" by simp
  qed
  moreover have "sv_mg ?st' s = None \<and> sv_iv ?st' s = 0" if "(p, Acct s) \<in> set (cleanups st)" for s
  proof -
    have "s \<in> set (acct_svs ?m)" using that by (auto simp: acct_svs_mem mine_def)
    then show ?thesis by simp
  qed
  ultimately show ?thesis unfolding r base_inv_def by (intro exI [of _ ?st']) (use refs in \<open>simp add: n\<close>)
qed

lemma refcounts_cong:
  "refcounts_ok st \<Longrightarrow> sv_live st' = sv_live st \<Longrightarrow> sv_refs st' = sv_refs st \<Longrightarrow> (\<And>x. refs_of st' x = refs_of st x) \<Longrightarrow> refcounts_ok st'"
  by (simp add: refcounts_ok_def)

lemma destroy_inv:
  assumes E: "order_ok E" and i: "base_inv E st" and p: "pools st p \<noteq> None"
  shows "\<exists>st'. apr_pool_destroy E p st = Inr st' \<and> base_inv E st' \<and> sv_live st' = sv_live st \<and> sv_refs st' = sv_refs st \<and> ext st' = ext st \<and>
     from_new st' = from_new st \<and> (\<forall>s. (p, Acct s) \<in> set (cleanups st) \<longrightarrow> sv_mg st' s = None \<and> sv_iv st' s = 0) \<and>
     (\<forall>x. refs_of st' x = refs_of st x)"
proof -
  from clear_inv [OF E i p] obtain st1 where c: "apr_pool_clear E p st = Inr st1" "base_inv E st1" "sv_live st1 = sv_live st"
    "sv_refs st1 = sv_refs st" "ext st1 = ext st" "from_new st1 = from_new st" "pools st1 = (\<lambda>q. if under p st q then None else pools st q)"
    "cleanups st1 = filter (\<lambda>c. \<not> mine p st c) (cleanups st)" "\<forall>s. (p, Acct s) \<in> set (cleanups st) \<longrightarrow> sv_mg st1 s = None \<and> sv_iv st1 s = 0"
    "\<forall>x. refs_of st1 x = refs_of st x" by blast
  let ?st' = "st1\<lparr>pools := (pools st1)(p := None)\<rparr>"
  have none: "fst c \<noteq> p" if "c \<in> set (cleanups st1)" for c using that unfolding c(8) by (auto simp: mine_def)
  have "pools_ok ?st'"
    unfolding pools_ok_def
  proof (intro conjI allI impI)
    show "pools ?st' 0 = None" using c(2) by (simp add: base_inv_def pools_ok_def)
  next
    fix q path assume "pools ?st' q = Some path"
    then show "q \<notin> set path" using c(2) by (simp add: base_inv_def pools_ok_def split: if_splits)
  next
    fix q path r assume q: "pools ?st' q = Some path" "r \<in> set path"
    then have q1: "pools st1 q = Some path" "q \<noteq> p" by (simp_all split: if_splits)
    from c(2) q1(1) q(2) obtain pr where pr: "pools st1 r = Some pr" "set pr \<subseteq> set path" unfolding base_inv_def pools_ok_def by blast
    have "r \<noteq> p" using q1(1) q(2) by (auto simp: c(7) under_def split: if_splits)
    with pr show "\<exists>pr. pools ?st' r = Some pr \<and> set pr \<subseteq> set path" by simp
  qed
  moreover have "accounts_ok ?st'"
    using c(2) none by (fastforce simp: base_inv_def accounts_ok_def)
  ultimately have "base_inv E ?st'" using c(2) by (simp add: base_inv_def)
  moreover have "refs_of ?st' x = refs_of st x" for x using c(10) by (simp add: refs_of_def)
  ultimately show ?thesis using c by (intro exI [of _ ?st']) (simp add: apr_pool_destroy_def)
qed

lemma DESTROY_inv:
  assumes E: "order_ok E" and i: "base_inv E st" and s: "sv_live st s"
  shows "\<exists>st'. mpxs_apr_pool_DESTROY E s st = Inr st' \<and> base_inv E st' \<and> sv_live st' = sv_live st \<and> sv_refs st' = sv_refs st \<and> ext st' = ext st \<and>
     from_new st' = from_new st \<and> sv_mg st' s = None \<and> (\<forall>x. refs_of st' x = refs_of st x)"
proof (cases "sv_mg st s = None")
  case True
  then show ?thesis using s i by (simp add: mpxs_apr_pool_DESTROY_def mpxs_pool_is_custom_def)
next
  case False
  have a: "(sv_iv st s, Acct s) \<in> set (cleanups st)" using i s False by (auto simp: base_inv_def accounts_ok_def)
  then have "pools st (sv_iv st s) \<noteq> None" using i unfolding base_inv_def accounts_ok_def by blast
  from destroy_inv [OF E i this] a show ?thesis using s False by (fastforce simp: mpxs_apr_pool_DESTROY_def mpxs_pool_is_custom_def)
qed

lemma take_inv:
  assumes i: "base_inv E st" and s: "sv_live st s" "from_new st s" "sv_mg st s = None" and p: "pools st p \<noteq> None"
  shows "base_inv E (MP_APR_POOL_SV_TAKES_OWNERSHIP E s p st)"
    "refs_of (MP_APR_POOL_SV_TAKES_OWNERSHIP E s p st) x = refs_of st x"
proof -
  have no: "s \<notin> set (acct_svs (cleanups st))" using i s(3) unfolding base_inv_def accounts_ok_def acct_svs_mem by blast
  let ?st' = "MP_APR_POOL_SV_TAKES_OWNERSHIP E s p st"
  have f: "sv_live ?st' = sv_live st" "from_new ?st' = from_new st" "pools ?st' = pools st" "cleanups ?st' = (p, Acct s) # cleanups st"
    "sv_mg ?st' = (sv_mg st)(s := Some None)" "sv_iv ?st' = (sv_iv st)(s := p)" "ext ?st' = ext st" "mortals ?st' = mortals st"
    "interp_refs ?st' = interp_refs st + (if has_interp E then 1 else 0)"
    using s(3) by (simp_all add: MP_APR_POOL_SV_TAKES_OWNERSHIP_def interp_keep_def)
  have "accounts_ok ?st'"
    using i s p no by (auto simp: base_inv_def accounts_ok_def f acct_svs_mem)
  then show "base_inv E ?st'" using i by (simp add: base_inv_def f pools_ok_def)
  have "held ((sv_mg st)(s := Some None)) (cleanups st) x = held (sv_mg st) (cleanups st) x"
    by (rule held_cong) (use no in auto)
  then show "refs_of ?st' x = refs_of st x" by (simp add: refs_of_def f)
qed

lemma Pool_clear_inv:
  assumes E: "order_ok E" and i: "base_inv E st" and s: "sv_live st s" "pools st (sv_iv st s) \<noteq> None"
  shows "\<exists>st'. mpxs_APR__Pool_clear E s st = Inr st' \<and> base_inv E st' \<and> sv_live st' = sv_live st \<and> sv_refs st' = sv_refs st \<and>
     (\<forall>x. refs_of st' x = refs_of st x)"
proof -
  from clear_inv [OF E i s(2)] obtain st1 where c: "apr_pool_clear E (sv_iv st s) st = Inr st1" "base_inv E st1" "sv_live st1 = sv_live st"
    "sv_refs st1 = sv_refs st" "from_new st1 = from_new st" "pools st1 = (\<lambda>q. if under (sv_iv st s) st q then None else pools st q)"
    "\<forall>t. (sv_iv st s, Acct t) \<in> set (cleanups st) \<longrightarrow> sv_mg st1 t = None \<and> sv_iv st1 t = 0"
    "\<forall>x. refs_of st1 x = refs_of st x" by blast
  show ?thesis
  proof (cases "sv_mg st s = None")
    case True
    then show ?thesis using s(1) c by (simp add: mpxs_APR__Pool_clear_def mpxs_pool_is_custom_def)
  next
    case False
    let ?p = "sv_iv st s"
    have a: "(?p, Acct s) \<in> set (cleanups st)" using i s(1) False unfolding base_inv_def accounts_ok_def by blast
    then have n: "from_new st s" using i unfolding base_inv_def accounts_ok_def by blast
    have "\<not> under ?p st ?p" using i by (auto simp: under_def base_inv_def pools_ok_def split: option.splits)
    then have p: "pools st1 ?p \<noteq> None" using s(2) by (simp add: c(6))
    have t: "sv_live st1 s" "from_new st1 s" "sv_mg st1 s = None" using s(1) n a c(3,5,7) by simp_all
    note take = take_inv [OF c(2) t p]
    have f: "sv_live (MP_APR_POOL_SV_TAKES_OWNERSHIP E s ?p st1) = sv_live st" "sv_refs (MP_APR_POOL_SV_TAKES_OWNERSHIP E s ?p st1) = sv_refs st"
      by (simp_all add: MP_APR_POOL_SV_TAKES_OWNERSHIP_def interp_keep_def c(3,4))
    show ?thesis using take f c(8) s(1) False c(1) by (simp add: mpxs_APR__Pool_clear_def mpxs_pool_is_custom_def)
  qed
qed

lemma release_inv:
  assumes E: "order_ok E" and i: "pool_inv E st" and m: "mortals st = s # ms"
  shows "\<exists>st'. sv_release E s (st\<lparr>mortals := ms\<rparr>) = Inr st' \<and> pool_inv E st'"
proof -
  let ?st = "st\<lparr>mortals := ms\<rparr>"
  have b: "base_inv E ?st" using i by (simp add: pool_inv_def base_inv_def accounts_ok_def pools_ok_def)
  have refs: "refs_of st x = refs_of ?st x + (if x = s then 1 else 0)" for x by (simp add: refs_of_def m)
  have rc: "\<And>x. sv_live st x \<Longrightarrow> sv_refs st x = refs_of st x \<and> 0 < refs_of st x" "\<And>x. \<not> sv_live st x \<Longrightarrow> refs_of st x = 0"
    using i by (simp_all add: pool_inv_def refcounts_ok_def)
  have live: "sv_live st s" using rc(2) [of s] refs [of s] by auto
  have n: "sv_refs st s = refs_of ?st s + 1" using rc(1) [OF live] refs [of s] by simp
  show ?thesis
  proof (cases "sv_refs st s = 1")
    case True
    then have zero: "refs_of ?st s = 0" using n by simp
    have ls: "sv_live ?st s" using live by simp
    from DESTROY_inv [OF E b ls] obtain st1 where d: "mpxs_apr_pool_DESTROY E s ?st = Inr st1" "base_inv E st1" "sv_live st1 = sv_live st"
      "sv_refs st1 = sv_refs st" "sv_mg st1 s = None" "\<forall>x. refs_of st1 x = refs_of ?st x" by auto
    let ?st' = "st1\<lparr>sv_live := (sv_live st1)(s := False), sv_refs := (sv_refs st1)(s := 0)\<rparr>"
    have "refs_of ?st' x = refs_of ?st x" for x using d(6) by (simp add: refs_of_def)
    then have "refs_of ?st' x = (if x = s then 0 else refs_of st x)" for x using refs [of x] zero by simp
    then have "refcounts_ok ?st'" using rc by (auto simp: refcounts_ok_def d(3,4))
    moreover
    have "(q, Acct s) \<notin> set (cleanups st1)" for q using d(2,5) unfolding base_inv_def accounts_ok_def by blast
    then have "accounts_ok ?st'" using d(2) by (auto simp: base_inv_def accounts_ok_def)
    then have "base_inv E ?st'" using d(2) by (simp add: base_inv_def pools_ok_def)
    ultimately show ?thesis using True live by (simp add: sv_release_def d(1) pool_inv_def)
  next
    case False
    let ?st' = "?st\<lparr>sv_refs := (sv_refs st)(s := sv_refs st s - 1)\<rparr>"
    have "refs_of ?st' x = refs_of ?st x" for x by (simp add: refs_of_def)
    then have "refs_of ?st' x = (if x = s then sv_refs st s - 1 else refs_of st x)" for x using refs [of x] n by simp
    then have "refcounts_ok ?st'" using rc False live n by (auto simp: refcounts_ok_def)
    moreover have "base_inv E ?st'" using b by (simp add: base_inv_def accounts_ok_def pools_ok_def)
    ultimately show ?thesis using False live n by (simp add: sv_release_def pool_inv_def)
  qed
qed

lemma held_live: "accounts_ok st \<Longrightarrow> \<not> sv_live st s \<Longrightarrow> held ((sv_mg st)(s := v)) (cleanups st) x = held (sv_mg st) (cleanups st) x"
  by (rule held_cong) (auto simp: accounts_ok_def acct_svs_mem)

text \<open>A new object for an existing or a new pool, without magic.\<close>

lemma new_pool_ok:
  assumes ok: "pools_ok st" and c: "c \<noteq> 0" "pools st c = None" and path: "\<forall>r\<in>set path. \<exists>pr. pools st r = Some pr \<and> set pr \<subseteq> set path"
  shows "pools_ok (st\<lparr>pools := (pools st)(c \<mapsto> path)\<rparr>)"
proof -
  have nc: "c \<notin> set pa" if "pools st q = Some pa" for q pa using ok that c(2) unfolding pools_ok_def by fastforce
  have "c \<notin> set path" using path c(2) by auto
  note ok' = ok [unfolded pools_ok_def]
  let ?st' = "st\<lparr>pools := (pools st)(c \<mapsto> path)\<rparr>"
  show ?thesis
    unfolding pools_ok_def
  proof (intro conjI allI impI)
    show "pools ?st' 0 = None" using ok' c(1) by simp
  next
    fix q pa assume "pools ?st' q = Some pa"
    then show "q \<notin> set pa" using ok' \<open>c \<notin> set path\<close> by (auto split: if_splits)
  next
    fix q pa r assume q: "pools ?st' q = Some pa" "r \<in> set pa"
    obtain pr where pr: "pools st r = Some pr" "set pr \<subseteq> set pa"
    proof (cases "q = c")
      case True
      with q path that show ?thesis by auto
    next
      case False
      then have "pools st q = Some pa" using q(1) by simp
      with q(2) ok' that show ?thesis by blast
    qed
    then show "\<exists>pr. pools ?st' r = Some pr \<and> set pr \<subseteq> set pa" using c(2) by auto
  qed
qed

lemma new_sv_inv:
  assumes i: "pool_inv E st" and s: "\<not> sv_live st s" and pools: "pools_ok st'" "\<forall>q. pools st q \<noteq> None \<longrightarrow> pools st' q \<noteq> None"
    and st': "st' = st\<lparr>pools := pools st'\<rparr>" and that: "b \<longrightarrow> p = 0"
  shows "pool_inv E (sv_setref_pv s p b st')"
proof -
  have ok: "accounts_ok st" "refcounts_ok st" using i by (simp_all add: pool_inv_def base_inv_def)
  have f: "sv_live st' = sv_live st" "sv_mg st' = sv_mg st" "sv_iv st' = sv_iv st" "cleanups st' = cleanups st" "from_new st' = from_new st"
    "ext st' = ext st" "mortals st' = mortals st" "interp_refs st' = interp_refs st" "sv_refs st' = sv_refs st"
    by (subst st', simp)+
  have n: "(q, Acct s) \<notin> set (cleanups st)" for q using ok(1) s by (auto simp: accounts_ok_def)
  have "accounts_ok (sv_setref_pv s p b st')"
    using ok(1) n that pools(2) by (auto simp: accounts_ok_def sv_setref_pv_def f)
  moreover have "held ((sv_mg st)(s := None)) (cleanups st) x = held (sv_mg st) (cleanups st) x" for x by (rule held_live [OF ok(1) s])
  then have r: "refs_of (sv_setref_pv s p b st') x = (if x = s then 1 else refs_of st x)" for x
    using ok(2) s by (auto simp: refs_of_def refcounts_ok_def sv_setref_pv_def f)
  have "refcounts_ok (sv_setref_pv s p b st')"
    using ok(2) s by (simp add: refcounts_ok_def r) (simp add: sv_setref_pv_def f)
  moreover have "pools_ok (sv_setref_pv s p b st')" using pools(1) by (simp add: pools_ok_def sv_setref_pv_def)
  ultimately show ?thesis using i by (simp add: pool_inv_def base_inv_def) (simp add: sv_setref_pv_def f)
qed

text \<open>A handle that can be used: an object of \<open>APR::Pool->new\<close>, or another one whose pool is still there.\<close>

definition handle_ok :: "pstate \<Rightarrow> nat \<Rightarrow> bool" where
  "handle_ok st s \<longleftrightarrow> 0 < ext st s \<and> (from_new st s \<or> pools st (sv_iv st s) \<noteq> None)"

lemma live_iff: "pool_inv E st \<Longrightarrow> sv_live st s \<longleftrightarrow> 0 < refs_of st s"
  by (cases "sv_live st s") (simp_all add: pool_inv_def refcounts_ok_def)

lemma base_inv_mg:
  assumes "base_inv E st" "\<And>t. sv_mg st' t = None \<longleftrightarrow> sv_mg st t = None" "sv_live st' = sv_live st" "sv_iv st' = sv_iv st" "from_new st' = from_new st"
    "pools st' = pools st" "cleanups st' = cleanups st" "interp_refs st' = interp_refs st"
  shows "base_inv E st'"
  using assms by (simp add: base_inv_def accounts_ok_def pools_ok_def del: not_None_eq)

lemma refcounts_inc:
  assumes "refcounts_ok st" "sv_live st x" "sv_live st' = sv_live st" "sv_refs st' = (sv_refs st)(x := sv_refs st x + 1)"
    "\<And>y. refs_of st' y = refs_of st y + (if y = x then 1 else 0)"
  shows "refcounts_ok st'"
  using assms by (simp add: refcounts_ok_def)

lemma handle_pool:
  assumes i: "pool_inv E st" and h: "handle_ok st s"
  shows "sv_live st s" "sv_iv st s \<noteq> 0 \<Longrightarrow> pools st (sv_iv st s) \<noteq> None"
proof -
  have "refs_of st s > 0" using h by (simp add: refs_of_def handle_ok_def)
  then show l: "sv_live st s" by (simp add: live_iff [OF i])
  assume z: "sv_iv st s \<noteq> 0"
  show "pools st (sv_iv st s) \<noteq> None"
  proof (cases "from_new st s")
    case True
    then have "sv_mg st s \<noteq> None" 
    proof -
      have "\<forall>s. sv_live st s \<longrightarrow> (from_new st s \<and> sv_mg st s = None \<longrightarrow> sv_iv st s = 0)"
        using i unfolding pool_inv_def base_inv_def accounts_ok_def by blast
      with l z True show ?thesis by metis
    qed
    then show ?thesis using i l unfolding pool_inv_def base_inv_def accounts_ok_def by blast
  next
    case False
    then show ?thesis using h by (simp add: handle_ok_def)
  qed
qed

lemma take_sv_iv: "MP_APR_POOL_SV_TAKES_OWNERSHIP E s c (sv_setref_pv s c b st) = MP_APR_POOL_SV_TAKES_OWNERSHIP E s c (sv_setref_pv s 0 b st)"
  by (simp add: MP_APR_POOL_SV_TAKES_OWNERSHIP_def sv_setref_pv_def)

lemma create_inv:
  assumes i: "pool_inv E st" and c: "c \<noteq> 0" "pools st c = None" and s: "\<not> sv_live st s"
    and parent: "parent \<noteq> None \<longrightarrow> handle_ok st (the parent)"
  shows "\<exists>st'. mpxs_apr_pool_create E parent c s st = Inr st' \<and> pool_inv E st'"
proof -
  define pp where "pp = (case parent of None \<Rightarrow> 0 | Some po \<Rightarrow> sv_iv st po)"
  have pok: "pools_ok st" using i by (simp add: pool_inv_def base_inv_def)
  have "pp \<noteq> 0 \<longrightarrow> pools st pp \<noteq> None"
    using handle_pool(2) [OF i] parent by (auto simp: pp_def split: option.splits)
  then obtain path where path: "(if pp = 0 then Inr [] else case pools st pp of None \<Rightarrow> Inl UseAfterFree | Some path \<Rightarrow> Inr (pp # path)) = (Inr path :: nat list res)"
    "\<forall>r\<in>set path. \<exists>pr. pools st r = Some pr \<and> set pr \<subseteq> set path"
  proof (cases "pp = 0")
    case False
    with \<open>pp \<noteq> 0 \<longrightarrow> _\<close> obtain pa where pa: "pools st pp = Some pa" by blast
    have "\<forall>r\<in>set (pp # pa). \<exists>pr. pools st r = Some pr \<and> set pr \<subseteq> set (pp # pa)"
    proof
      fix r assume "r \<in> set (pp # pa)"
      then consider "r = pp" | "r \<in> set pa" by auto
      then show "\<exists>pr. pools st r = Some pr \<and> set pr \<subseteq> set (pp # pa)"
      proof cases
        case 2
        with pok pa obtain pr where "pools st r = Some pr" "set pr \<subseteq> set pa" unfolding pools_ok_def by blast
        then show ?thesis by auto
      qed (use pa in auto)
    qed
    with that [of "pp # pa"] pa False show ?thesis by simp
  qed (use that [of "[]"] in simp)
  let ?st0 = "st\<lparr>pools := (pools st)(c \<mapsto> path)\<rparr>"
  let ?st1 = "sv_setref_pv s 0 True ?st0" and ?st2 = "MP_APR_POOL_SV_TAKES_OWNERSHIP E s c (sv_setref_pv s c True ?st0)"
  have "pool_inv E ?st1"
    by (rule new_sv_inv [OF i s new_pool_ok [OF pok c path(2)]]) simp_all
  then have i1: "base_inv E ?st1" "refcounts_ok ?st1" by (simp_all add: pool_inv_def)
  have new: "sv_live ?st1 s" "from_new ?st1 s" "sv_mg ?st1 s = None" "pools ?st1 c \<noteq> None" by (simp_all add: sv_setref_pv_def)
  note take = take_inv [OF i1(1) new, folded take_sv_iv [of E s c True ?st0]]
  have f2: "sv_live ?st2 = (sv_live st)(s := True)" "sv_refs ?st2 = (sv_refs st)(s := 1)" "sv_mg ?st2 s = Some None"
    "t \<noteq> s \<Longrightarrow> sv_mg ?st2 t = sv_mg st t" "cleanups ?st2 = (c, Acct s) # cleanups st" for t
    by (auto simp: MP_APR_POOL_SV_TAKES_OWNERSHIP_def interp_keep_def sv_setref_pv_def)
  have f1: "sv_live ?st1 = (sv_live st)(s := True)" "sv_refs ?st1 = (sv_refs st)(s := 1)" by (simp_all add: sv_setref_pv_def)
  have r2: "refcounts_ok ?st2" by (rule refcounts_cong [OF i1(2)]) (simp_all add: f1 f2 take(2))
  have run: "mpxs_apr_pool_create E parent c s st = (case parent of
       Some po \<Rightarrow> if pp \<noteq> 0 then mpxs_add_pool_magic s po ?st2 else Inr ?st2 | None \<Rightarrow> Inr ?st2)"
    using path(1) by (simp add: mpxs_apr_pool_create_def pp_def [symmetric] Let_def)
  have inv2: "pool_inv E ?st2" using take(1) r2 by (simp add: pool_inv_def)
  show ?thesis
  proof (cases "\<exists>po. parent = Some po \<and> pp \<noteq> 0 \<and> sv_mg ?st2 po \<noteq> None")
    case False
    have "sv_live ?st2 po" if "parent = Some po" for po using handle_pool(1) [OF i] parent that by (simp add: f2)
    with False inv2 show ?thesis unfolding run by (cases parent) (auto simp: mpxs_add_pool_magic_def mpxs_pool_is_custom_def)
  next
    case True
    then obtain po where po: "parent = Some po" "pp \<noteq> 0" "sv_mg ?st2 po \<noteq> None" by blast
    have lo: "sv_live st po" using handle_pool(1) [OF i] parent po(1) by simp
    then have so: "po \<noteq> s" using s by auto
    let ?st3 = "?st2\<lparr>sv_mg := (sv_mg ?st2)(s := Some (Some po)), sv_refs := (sv_refs ?st2)(po := sv_refs ?st2 po + 1)\<rparr>"
    have "mpxs_apr_pool_create E parent c s st = Inr ?st3"
      unfolding run using po lo by (simp add: mpxs_add_pool_magic_def mpxs_pool_is_custom_def f2)
    moreover have "base_inv E ?st3"
      by (rule base_inv_mg [OF take(1)]) (use f2(3) in auto)
    moreover have "refs_of ?st3 x = refs_of ?st2 x + (if x = po then 1 else 0)" for x
    proof -
      have nin: "s \<notin> set (acct_svs (cleanups st))" using i s by (auto simp: pool_inv_def base_inv_def accounts_ok_def acct_svs_mem)
      have "held (sv_mg ?st3) (cleanups st) x = held (sv_mg ?st2) (cleanups st) x" by (rule held_cong) (use nin in auto)
      then show ?thesis by (simp add: refs_of_def f2)
    qed
    then have "refcounts_ok ?st3" by (intro refcounts_inc [OF r2, of po]) (use lo in \<open>simp_all add: f2(1)\<close>)
    ultimately show ?thesis by (simp add: pool_inv_def)
  qed
qed

definition pool_op_ok :: "pstate \<Rightarrow> pool_op \<Rightarrow> bool" where
  "pool_op_ok st x = (case x of
       PNew parent c s \<Rightarrow> c \<noteq> 0 \<and> pools st c = None \<and> \<not> sv_live st s \<and> (parent \<noteq> None \<longrightarrow> handle_ok st (the parent))
     | PClear s \<Rightarrow> handle_ok st s \<and> sv_iv st s \<noteq> 0
     | PDestroy s \<Rightarrow> 0 < ext st s
     | PCopy s \<Rightarrow> 0 < ext st s
     | PUndef s \<Rightarrow> 0 < ext st s
     | PFreeTmp \<Rightarrow> True
     | PParent s t \<Rightarrow> handle_ok st s \<and> \<not> sv_live st t
     | PRegister s cv arg \<Rightarrow> handle_ok st s
     | CoreDestroy p \<Rightarrow> pools st p \<noteq> None)"

fun pool_ops_ok :: "pool_env \<Rightarrow> pstate \<Rightarrow> pool_op list \<Rightarrow> bool" where
  "pool_ops_ok E st [] = True"
| "pool_ops_ok E st (x # xs) = (pool_op_ok st x \<and>
     (case pool_step E x st of Inl (Croak m) \<Rightarrow> pool_ops_ok E st xs | Inl e \<Rightarrow> True | Inr st' \<Rightarrow> pool_ops_ok E st' xs))"

lemma ext_live: "pool_inv E st \<Longrightarrow> 0 < ext st s \<Longrightarrow> sv_live st s"
  by (simp add: live_iff) (simp add: refs_of_def)

lemma pool_step_inv:
  assumes E: "order_ok E" and i: "pool_inv E st" and ok: "pool_op_ok st x"
  shows "(\<exists>st'. pool_step E x st = Inr st' \<and> pool_inv E st') \<or> (\<exists>m. pool_step E x st = Inl (Croak m))"
proof -
  have b: "base_inv E st" "refcounts_ok st" using i by (simp_all add: pool_inv_def)
  show ?thesis
  proof (cases x)
    case (PNew parent c s)
    then show ?thesis using create_inv [OF i] ok by (simp add: pool_step_def pool_op_ok_def)
  next
    case (PClear s)
    then have h: "handle_ok st s" "sv_iv st s \<noteq> 0" using ok by (simp_all add: pool_op_ok_def)
    from Pool_clear_inv [OF E b(1) handle_pool(1) [OF i h(1)] handle_pool(2) [OF i h]] b(2) PClear show ?thesis
      by (auto simp: pool_step_def pool_inv_def intro: refcounts_cong)
  next
    case (PDestroy s)
    then have "sv_live st s" using ok ext_live [OF i] by (simp add: pool_op_ok_def)
    from DESTROY_inv [OF E b(1) this] b(2) PDestroy show ?thesis
      by (auto simp: pool_step_def pool_inv_def intro: refcounts_cong)
  next
    case (PCopy s)
    then have l: "sv_live st s" using ok ext_live [OF i] by (simp add: pool_op_ok_def)
    let ?st' = "st\<lparr>ext := (ext st)(s := ext st s + 1), sv_refs := (sv_refs st)(s := sv_refs st s + 1)\<rparr>"
    have "refs_of ?st' y = refs_of st y + (if y = s then 1 else 0)" for y by (simp add: refs_of_def)
    then have "refcounts_ok ?st'" by (intro refcounts_inc [OF b(2) l]) simp_all
    moreover have "base_inv E ?st'" using b(1) by (simp add: base_inv_def accounts_ok_def pools_ok_def)
    ultimately show ?thesis using PCopy by (simp add: pool_step_def pool_inv_def)
  next
    case (PUndef s)
    let ?st' = "st\<lparr>ext := (ext st)(s := ext st s - 1), mortals := s # mortals st\<rparr>"
    have "refs_of ?st' y = refs_of st y" for y using ok by (auto simp: refs_of_def PUndef pool_op_ok_def)
    then have "refcounts_ok ?st'" using b(2) by (auto intro: refcounts_cong)
    moreover have "base_inv E ?st'" using b(1) by (simp add: base_inv_def accounts_ok_def pools_ok_def)
    ultimately show ?thesis using PUndef by (simp add: pool_step_def pool_inv_def)
  next
    case PFreeTmp
    then show ?thesis using release_inv [OF E i] i by (cases "mortals st") (auto simp: pool_step_def)
  next
    case (PParent s t)
    then have h: "handle_ok st s" "\<not> sv_live st t" using ok by (simp_all add: pool_op_ok_def)
    show ?thesis
    proof (cases "sv_iv st s = 0")
      case False
      with handle_pool(2) [OF i h(1)] obtain path where path: "pools st (sv_iv st s) = Some path" by blast
      have "pool_inv E (sv_setref_pv t p False st)" for p
        by (rule new_sv_inv [OF i h(2)]) (use b in \<open>simp_all add: base_inv_def\<close>)
      then show ?thesis using PParent False path i by (cases path) (simp_all add: pool_step_def mpxs_apr_pool_parent_get_def)
    qed (use PParent in \<open>simp add: pool_step_def mpxs_apr_pool_parent_get_def\<close>)
  next
    case (PRegister s cv arg)
    then have h: "handle_ok st s" using ok by (simp add: pool_op_ok_def)
    show ?thesis
    proof (cases "sv_iv st s = 0")
      case False
      let ?st' = "interp_keep E (st\<lparr>cleanups := (sv_iv st s, PerlCleanup cv arg) # cleanups st\<rparr>)"
      have p: "pools st (sv_iv st s) \<noteq> None" by (rule handle_pool(2) [OF i h False])
      have "base_inv E ?st'" using b(1) p by (auto simp: base_inv_def accounts_ok_def pools_ok_def interp_keep_def)
      moreover have "refs_of ?st' y = refs_of st y" for y by (simp add: refs_of_def interp_keep_def)
      then have "refcounts_ok ?st'" using b(2) by (auto simp: interp_keep_def intro: refcounts_cong)
      ultimately show ?thesis using PRegister False p by (simp add: pool_step_def mpxs_apr_pool_cleanup_register_def pool_inv_def)
    qed (use PRegister in \<open>simp add: pool_step_def mpxs_apr_pool_cleanup_register_def\<close>)
  next
    case (CoreDestroy p)
    then have "pools st p \<noteq> None" using ok by (simp add: pool_op_ok_def)
    from destroy_inv [OF E b(1) this] b(2) CoreDestroy show ?thesis
      by (auto simp: pool_step_def pool_inv_def intro: refcounts_cong)
  qed
qed

text \<open>The pools of httpd alone.\<close>

definition core_pools :: "(nat \<Rightarrow> nat list option) \<Rightarrow> pstate" where
  "core_pools ps = \<lparr>sv_live = (\<lambda>_. False), sv_iv = (\<lambda>_. 0), sv_refs = (\<lambda>_. 0), sv_mg = (\<lambda>_. None), ext = (\<lambda>_. 0), from_new = (\<lambda>_. False),
     mortals = [], pools = ps, cleanups = [], interp_refs = 0, ran = []\<rparr>"


text \<open>
  clearing a pool through its own object runs the cleanup of the object, which gives up the reference to the parent's object, and
  puts only the ownership back: afterwards the object owns its pool but no longer keeps the parent alive.
\<close>

theorem pool_clear_forgets_parent:
  assumes "order_ok E" "pool_inv E st" "handle_ok st s" "sv_mg st s = Some (Some po)"
  shows "\<exists>st'. mpxs_APR__Pool_clear E s st = Inr st' \<and> sv_mg st' s = Some None \<and> sv_iv st' s = sv_iv st s \<and> po \<in> set (mortals st')"
proof -
  have b: "base_inv E st" using assms(2) by (simp add: pool_inv_def)
  have l: "sv_live st s" by (rule handle_pool(1) [OF assms(2,3)])
  have mg: "sv_mg st s \<noteq> None" using assms(4) by simp
  have a: "(sv_iv st s, Acct s) \<in> set (cleanups st)" using b l mg unfolding base_inv_def accounts_ok_def by blast
  then have p: "pools st (sv_iv st s) \<noteq> None" using b unfolding base_inv_def accounts_ok_def by blast
  let ?m = "filter (mine (sv_iv st s) st) (cleanups st)"
  obtain ms n ra where r: "apr_pool_clear E (sv_iv st s) st = Inr (st\<lparr>cleanups := filter (\<lambda>c. \<not> mine (sv_iv st s) st c) (cleanups st), mortals := ms,
       sv_mg := (\<lambda>s'. if s' \<in> set (acct_svs ?m) then None else sv_mg st s'),
       sv_iv := (\<lambda>s'. if s' \<in> set (acct_svs ?m) then 0 else sv_iv st s'), interp_refs := n, ran := ra,
       pools := (\<lambda>q. if under (sv_iv st s) st q then None else pools st q)\<rparr>)"
    and c: "\<And>x. count (mset ms) x = count (mset (mortals st)) x + held (sv_mg st) ?m x"
    by (rule clear_run [OF assms(1) b p]) blast
  have mem: "(sv_iv st s, Acct s) \<in> set ?m" using a by (simp add: mine_def)
  then have s: "s \<in> set (acct_svs ?m)" by (auto simp: acct_svs_mem)
  have "held (sv_mg st) ?m po > 0" using mem assms(4) by (auto simp: held_pos)
  then have "count (mset ms) po > 0" using c [of po] by simp
  then have "po \<in> set ms" by (simp only: count_greater_zero_iff set_mset_mset)
  then obtain st1 where st1: "apr_pool_clear E (sv_iv st s) st = Inr st1" "sv_mg st1 s = None" "po \<in> set (mortals st1)"
    using r s by simp
  have "mpxs_APR__Pool_clear E s st = Inr (MP_APR_POOL_SV_TAKES_OWNERSHIP E s (sv_iv st s) st1)"
    using l mg st1(1) by (simp add: mpxs_APR__Pool_clear_def mpxs_pool_is_custom_def Let_def)
  then show ?thesis using st1(2,3) by (simp add: MP_APR_POOL_SV_TAKES_OWNERSHIP_def interp_keep_def)
qed

section \<open>Examples\<close>

definition demo_pool_env :: pool_env where
  "demo_pool_env = \<lparr>cleanup_order = (\<lambda>cs. cs), has_interp = True\<rparr>"

definition demo_pools :: pstate where
  "demo_pools = core_pools (\<lambda>p. if p = 7 then Some [] else None)"

lemma demo_order_ok: "order_ok demo_pool_env"
  by (simp add: order_ok_def demo_pool_env_def)

lemma demo_pools_ok: "pools_ok demo_pools"
  by (simp add: pools_ok_def demo_pools_def core_pools_def)


lemma demo_child_inv:
  "\<exists>st. pool_run demo_pool_env [PNew None 1 10, PNew (Some 10) 2 11] demo_pools = Inr st \<and> pool_inv demo_pool_env st \<and> handle_ok st 11 \<and> sv_mg st 11 = Some (Some 10)"
proof -
  have i: "pool_inv demo_pool_env demo_pools"
    using demo_pools_ok by (simp add: pool_inv_def base_inv_def accounts_ok_def refcounts_ok_def refs_of_def) (simp add: demo_pools_def core_pools_def)
  have ok: "pool_op_ok demo_pools (PNew None 1 10)" by code_simp
  have r: "\<exists>st1. pool_step demo_pool_env (PNew None 1 10) demo_pools = Inr st1 \<and> pool_op_ok st1 (PNew (Some 10) 2 11) \<and>
      (\<exists>st2. pool_step demo_pool_env (PNew (Some 10) 2 11) st1 = Inr st2 \<and> handle_ok st2 11 \<and> sv_mg st2 11 = Some (Some 10))"
    by (simp add: pool_step_def mpxs_apr_pool_create_def demo_pools_def core_pools_def sv_setref_pv_def MP_APR_POOL_SV_TAKES_OWNERSHIP_def
        interp_keep_def demo_pool_env_def pool_op_ok_def handle_ok_def mpxs_add_pool_magic_def mpxs_pool_is_custom_def)
  then obtain st1 st2 where s: "pool_step demo_pool_env (PNew None 1 10) demo_pools = Inr st1" "pool_op_ok st1 (PNew (Some 10) 2 11)"
    "pool_step demo_pool_env (PNew (Some 10) 2 11) st1 = Inr st2" "handle_ok st2 11" "sv_mg st2 11 = Some (Some 10)" by blast
  have "pool_inv demo_pool_env st1" using pool_step_inv [OF demo_order_ok i ok] s(1) by auto
  from pool_step_inv [OF demo_order_ok this s(2)] s show ?thesis by auto
qed

theorem pool_clear_forgets_parent_witness:
  "\<exists>st st'. pool_run demo_pool_env [PNew None 1 10, PNew (Some 10) 2 11] demo_pools = Inr st \<and> sv_mg st 11 = Some (Some 10) \<and>
     mpxs_APR__Pool_clear demo_pool_env 11 st = Inr st' \<and> sv_mg st' 11 = Some None"
proof -
  from demo_child_inv obtain st where "pool_run demo_pool_env [PNew None 1 10, PNew (Some 10) 2 11] demo_pools = Inr st"
    "pool_inv demo_pool_env st" "handle_ok st 11" "sv_mg st 11 = Some (Some 10)" by blast
  with pool_clear_forgets_parent [OF demo_order_ok, of st 11 10] show ?thesis by blast
qed

end
