(* ===== verification/Sv_Bucket.thy ===== *)
theory Sv_Bucket
  imports Prelude
begin

text \<open>
  Buckets whose data is a Perl scalar: \<^verbatim>\<open>src/src/modules/perl/modperl_bucket.c\<close> and the methods \<open>new\<close>, \<open>read\<close> and \<open>setaside\<close> of
  \<^verbatim>\<open>src/xs/APR/Bucket/APR__Bucket.h\<close>.

  A bucket of this kind does not copy the string: it keeps a reference to the scalar in a structure that all buckets split or copied
  from it share, and the structure counts them. So what is read is what the scalar holds at that time. The buckets of
  APR and their counting functions (\<open>apr_bucket_shared_*\<close>) are a library; the fields of \<open>bucket_ops\<close> stand for them.
\<close>

section \<open>State\<close>

text \<open>
  A scalar has its string, its reference count and the flag \<open>SvPADTMP\<close> of a temporary that Perl will use again. \<open>structs\<close> are the allocated
  \<open>modperl_bucket_sv_t\<close>. The type of a bucket is \<open>modperl_bucket_sv_type\<close> with the structure it points to, or that of the pool bucket that
  \<open>setaside\<close> turns it into. \<open>ext\<close> counts the references that Perl code holds, \<open>anon\<close> lists the scalars that \<open>APR::Bucket->new\<close> made itself.
\<close>

record scalar =
  pv :: string
  refs :: nat
  padtmp :: bool

record modperl_bucket_sv_t =
  refcount :: nat
  bsv :: nat

datatype bucket_data = SvData (sv_data: nat) | is_PoolData: PoolData string

record sv_bucket =
  bdata :: bucket_data
  bstart :: "64 word"
  blength :: "64 word"

record bstate =
  svs :: "nat \<Rightarrow> scalar option"
  structs :: "nat \<Rightarrow> modperl_bucket_sv_t option"
  buckets :: "nat \<Rightarrow> sv_bucket option"
  sv_next :: nat
  struct_next :: nat
  bucket_next :: nat
  ext :: "nat \<Rightarrow> nat"
  anon :: "nat list"

record bucket_ops =
  apr_bucket_shared_make :: "64 word \<Rightarrow> 64 word \<Rightarrow> (nat \<times> 64 word \<times> 64 word) option"
  apr_bucket_shared_destroy :: "nat \<Rightarrow> nat \<times> bool"
  apr_bucket_shared_copy :: "nat \<Rightarrow> nat"
  apr_bucket_shared_split :: "64 word \<Rightarrow> 64 word \<Rightarrow> 64 word \<Rightarrow> ((64 word \<times> 64 word) \<times> (64 word \<times> 64 word)) option"
  apr_pstrmemdup :: "string \<Rightarrow> string option"
  apr_bucket_pool_make :: "string \<Rightarrow> bool"
  apr_pool_bucket_read :: "string \<Rightarrow> 64 word \<Rightarrow> 64 word \<Rightarrow> string"
  apr_pool_bucket_setaside :: int

text \<open>
  What APR documents of them: \<open>make\<close> starts the count at one and stores offset and length, \<open>destroy\<close> takes one off and says whether it was
  the last, \<open>copy\<close> adds one, \<open>split\<close> divides the range at a point that is not behind its end; a pool bucket holds its own copy of
  the data. How APR counts the references of pool buckets is of no concern here.
\<close>

definition bucket_laws :: "bucket_ops \<Rightarrow> bool" where
  "bucket_laws A \<longleftrightarrow>
     (\<forall>off len r. apr_bucket_shared_make A off len = Some r \<longrightarrow> r = (1, off, len)) \<and>
     (\<forall>n. apr_bucket_shared_destroy A n = (n - 1, n = 1)) \<and>
     (\<forall>n. apr_bucket_shared_copy A n = n + 1) \<and>
     (\<forall>p st len. apr_bucket_shared_split A p st len = (if p \<le> len then Some ((st, p), (st + p, len - p)) else None)) \<and>
     (\<forall>s t. apr_pstrmemdup A s = Some t \<longrightarrow> t = s) \<and>
     (\<forall>s start len. apr_pool_bucket_read A s start len = take (unat len) (drop (unat start) s))"

section \<open>Reference counts of scalars\<close>

definition sv_at :: "nat \<Rightarrow> bstate \<Rightarrow> scalar res" where
  "sv_at x st = (case svs st x of Some sv \<Rightarrow> Inr sv | None \<Rightarrow> Inl UseAfterFree)"

definition struct_at :: "nat \<Rightarrow> bstate \<Rightarrow> modperl_bucket_sv_t res" where
  "struct_at s st = (case structs st s of Some sb \<Rightarrow> Inr sb | None \<Rightarrow> Inl UseAfterFree)"

definition bucket_at :: "nat \<Rightarrow> bstate \<Rightarrow> sv_bucket res" where
  "bucket_at b st = (case buckets st b of Some bk \<Rightarrow> Inr bk | None \<Rightarrow> Inl UseAfterFree)"

definition SvREFCNT_inc :: "nat \<Rightarrow> bstate \<Rightarrow> bstate res" where
  "SvREFCNT_inc x st = and_then (sv_at x st) (\<lambda>sv. Inr (st\<lparr>svs := (svs st)(x \<mapsto> sv\<lparr>refs := refs sv + 1\<rparr>)\<rparr>))"

definition SvREFCNT_dec :: "nat \<Rightarrow> bstate \<Rightarrow> bstate res" where
  "SvREFCNT_dec x st = and_then (sv_at x st)
     (\<lambda>sv. Inr (st\<lparr>svs := (svs st)(x := (if refs sv = 1 then None else Some (sv\<lparr>refs := refs sv - 1\<rparr>)))\<rparr>))"

definition newSV :: "string \<Rightarrow> bool \<Rightarrow> bstate \<Rightarrow> nat \<times> bstate" where
  "newSV s tmp st = (sv_next st, st\<lparr>svs := (svs st)(sv_next st \<mapsto> \<lparr>pv = s, refs = 1, padtmp = tmp\<rparr>), sv_next := sv_next st + 1\<rparr>)"

section \<open>The bucket type\<close>

text \<open>\<open>read\<close> hands out a pointer into the string and the length; both are given even when the status is \<open>APR_EGENERAL\<close>.\<close>

definition APR_EGENERAL :: int where "APR_EGENERAL = 20014"
definition APR_ENOMEM :: int where "APR_ENOMEM = 12"

definition too_short :: "scalar \<Rightarrow> sv_bucket \<Rightarrow> bool" where
  "too_short sv bk \<longleftrightarrow> (of_nat (length (pv sv)) :: 64 word) < bstart bk + blength bk"

definition modperl_bucket_sv_read :: "nat \<Rightarrow> sv_bucket \<Rightarrow> bstate \<Rightarrow> (int \<times> string \<times> 64 word \<times> 64 word) res" where
  "modperl_bucket_sv_read s bk st =
     and_then (struct_at s st) (\<lambda>sb. and_then (sv_at (bsv sb) st) (\<lambda>sv.
       Inr (if too_short sv bk then APR_EGENERAL else APR_SUCCESS, pv sv, bstart bk, blength bk)))"

definition modperl_bucket_sv_destroy :: "bucket_ops \<Rightarrow> nat \<Rightarrow> bstate \<Rightarrow> bstate res" where
  "modperl_bucket_sv_destroy A s st =
     and_then (struct_at s st) (\<lambda>sb.
       let (n, last) = apr_bucket_shared_destroy A (refcount sb) in
       if \<not> last then Inr (st\<lparr>structs := (structs st)(s \<mapsto> sb\<lparr>refcount := n\<rparr>)\<rparr>)
       else and_then (SvREFCNT_dec (bsv sb) st) (\<lambda>st1. Inr (st1\<lparr>structs := (structs st1)(s := None)\<rparr>)))"

text \<open>The bytes \<open>start\<close> to \<open>start + length\<close> of a string, which is an access outside it when they are not all there.\<close>

definition bytes_at :: "string \<Rightarrow> 64 word \<Rightarrow> 64 word \<Rightarrow> string res" where
  "bytes_at s start len =
     (if length s < unat start + unat len then Inl OutOfBounds else Inr (take (unat len) (drop (unat start) s)))"

definition modperl_bucket_sv_setaside :: "bucket_ops \<Rightarrow> nat \<Rightarrow> nat \<Rightarrow> sv_bucket \<Rightarrow> bstate \<Rightarrow> (int \<times> bstate) res" where
  "modperl_bucket_sv_setaside A b s bk st =
     and_then (struct_at s st) (\<lambda>sb. and_then (sv_at (bsv sb) st) (\<lambda>sv.
       if too_short sv bk then Inr (APR_EGENERAL, st)
       else and_then (bytes_at (pv sv) (bstart bk) (blength bk)) (\<lambda>bytes.
         case apr_pstrmemdup A bytes of
           None \<Rightarrow> Inr (APR_ENOMEM, st)
         | Some copy \<Rightarrow>
             if \<not> apr_bucket_pool_make A copy then Inr (APR_ENOMEM, st)
             else and_then (modperl_bucket_sv_destroy A s
                     (st\<lparr>buckets := (buckets st)(b \<mapsto> \<lparr>bdata = PoolData copy, bstart = 0, blength = blength bk\<rparr>)\<rparr>))
                   (\<lambda>st1. Inr (APR_SUCCESS, st1)))))"

section \<open>Creation\<close>

definition modperl_bucket_sv_make :: "bucket_ops \<Rightarrow> nat \<Rightarrow> nat \<Rightarrow> 64 word \<Rightarrow> 64 word \<Rightarrow> bstate \<Rightarrow> (bool \<times> bstate) res" where
  "modperl_bucket_sv_make A b x offset len st =
     (let s = struct_next st; st0 = st\<lparr>struct_next := s + 1\<rparr> in
      case apr_bucket_shared_make A offset len of
        None \<Rightarrow> Inr (False, st0)
      | Some (n, start, l) \<Rightarrow>
          and_then (sv_at x st0) (\<lambda>sv.
          and_then (if padtmp sv then Inr (newSV (pv sv) False st0)
                    else and_then (SvREFCNT_inc x st0) (\<lambda>st1. Inr (x, st1))) (\<lambda>(y, st1).
            Inr (True, st1\<lparr>structs := (structs st1)(s \<mapsto> \<lparr>refcount = n, bsv = y\<rparr>),
                           buckets := (buckets st1)(b \<mapsto> \<lparr>bdata = SvData s, bstart = start, blength = l\<rparr>)\<rparr>))))"

definition modperl_bucket_sv_create :: "bucket_ops \<Rightarrow> nat \<Rightarrow> 64 word \<Rightarrow> 64 word \<Rightarrow> bstate \<Rightarrow> (nat option \<times> bstate) res" where
  "modperl_bucket_sv_create A x offset len st =
     (let b = bucket_next st in
      and_then (modperl_bucket_sv_make A b x offset len (st\<lparr>bucket_next := b + 1\<rparr>)) (\<lambda>(ok, st1).
        Inr (if ok then Some b else None, st1)))"

section \<open>The Perl methods\<close>

text \<open>The outcome of a method that may raise a Perl exception: the exception leaves the state as it is at that point.\<close>

datatype 'a outcome = Returns 'a | Croaks

definition mpxs_APR__Bucket_new ::
    "bucket_ops \<Rightarrow> nat option \<Rightarrow> 64 word \<Rightarrow> 64 word \<Rightarrow> bstate \<Rightarrow> (nat option outcome \<times> bstate) res" where
  "mpxs_APR__Bucket_new A sv offset len st =
     (let (x, st1) = (case sv of Some x \<Rightarrow> (x, st)
                      | None \<Rightarrow> let (x, st1) = newSV [] False st in (x, st1\<lparr>anon := x # anon st1\<rparr>)) in
      and_then (sv_at x st1) (\<lambda>s.
        let full_len = of_nat (length (pv s)) :: 64 word in
        if len \<noteq> 0 \<and> len > full_len - offset then Inr (Croaks, st1)
        else and_then (modperl_bucket_sv_create A x offset (if len \<noteq> 0 then len else full_len - offset) st1)
               (\<lambda>(b, st2). Inr (Returns b, st2))))"

definition APR_EOF :: int where "APR_EOF = 70014"

definition mpxs_APR__Bucket_read :: "bucket_ops \<Rightarrow> nat \<Rightarrow> bstate \<Rightarrow> string outcome res" where
  "mpxs_APR__Bucket_read A b st =
     and_then (bucket_at b st) (\<lambda>bk. case bdata bk of
       PoolData d \<Rightarrow> Inr (Returns (apr_pool_bucket_read A d (bstart bk) (blength bk)))
     | SvData s \<Rightarrow> and_then (modperl_bucket_sv_read s bk st) (\<lambda>(rc, str, off, len).
         if \<not> (rc = APR_SUCCESS \<or> rc = APR_EOF) then Inr Croaks
         else if len \<noteq> 0 then and_then (bytes_at str off len) (\<lambda>bytes. Inr (Returns bytes))
         else Inr (Returns [])))"

text \<open>\<open>void_context\<close> says that the caller ignores the status.\<close>

definition mpxs_APR__Bucket_setaside :: "bucket_ops \<Rightarrow> bool \<Rightarrow> nat \<Rightarrow> bstate \<Rightarrow> (int outcome \<times> bstate) res" where
  "mpxs_APR__Bucket_setaside A void_context b st =
     and_then (bucket_at b st) (\<lambda>bk.
     and_then (case bdata bk of SvData s \<Rightarrow> modperl_bucket_sv_setaside A b s bk st
               | PoolData _ \<Rightarrow> Inr (apr_pool_bucket_setaside A, st)) (\<lambda>(rc, st1).
       Inr (if void_context \<and> rc \<noteq> APR_SUCCESS then Croaks else Returns rc, st1)))"

section \<open>Runs\<close>

text \<open>
  What the type \<open>modperl_bucket_sv_type\<close> has APR do when a bucket is destroyed, copied or split. Interleaved with the methods
  are the steps of Perl code: it makes scalars, changes their strings, takes references and gives them up.
\<close>

definition apr_bucket_destroy :: "bucket_ops \<Rightarrow> nat \<Rightarrow> bstate \<Rightarrow> bstate res" where
  "apr_bucket_destroy A b st = and_then (bucket_at b st) (\<lambda>bk.
     let st1 = st\<lparr>buckets := (buckets st)(b := None)\<rparr> in
     case bdata bk of SvData s \<Rightarrow> modperl_bucket_sv_destroy A s st1 | PoolData _ \<Rightarrow> Inr st1)"

definition share_struct :: "bucket_ops \<Rightarrow> bucket_data \<Rightarrow> bstate \<Rightarrow> bstate res" where
  "share_struct A d st = (case d of
       SvData s \<Rightarrow> and_then (struct_at s st) (\<lambda>sb.
         Inr (st\<lparr>structs := (structs st)(s \<mapsto> sb\<lparr>refcount := apr_bucket_shared_copy A (refcount sb)\<rparr>)\<rparr>))
     | PoolData _ \<Rightarrow> Inr st)"

definition put_bucket :: "nat \<Rightarrow> sv_bucket \<Rightarrow> bstate \<Rightarrow> bstate" where
  "put_bucket b bk st = st\<lparr>buckets := (buckets st)(b \<mapsto> bk)\<rparr>"

definition new_bucket :: "sv_bucket \<Rightarrow> bstate \<Rightarrow> bstate" where
  "new_bucket bk st = (put_bucket (bucket_next st) bk st)\<lparr>bucket_next := bucket_next st + 1\<rparr>"

definition apr_bucket_copy :: "bucket_ops \<Rightarrow> nat \<Rightarrow> bstate \<Rightarrow> bstate res" where
  "apr_bucket_copy A b st = and_then (bucket_at b st) (\<lambda>bk.
     and_then (share_struct A (bdata bk) st) (\<lambda>st1. Inr (new_bucket bk st1)))"

definition apr_bucket_split :: "bucket_ops \<Rightarrow> nat \<Rightarrow> 64 word \<Rightarrow> bstate \<Rightarrow> bstate res" where
  "apr_bucket_split A b p st = and_then (bucket_at b st) (\<lambda>bk.
     case apr_bucket_shared_split A p (bstart bk) (blength bk) of
       None \<Rightarrow> Inr st
     | Some ((s1, l1), (s2, l2)) \<Rightarrow> and_then (share_struct A (bdata bk) st) (\<lambda>st1.
         Inr (new_bucket (bk\<lparr>bstart := s2, blength := l2\<rparr>) (put_bucket b (bk\<lparr>bstart := s1, blength := l1\<rparr>) st1))))"

datatype bucket_op =
    PerlNew string bool
  | PerlSet nat string
  | PerlInc nat
  | PerlDec nat
  | BNew "nat option" "64 word" "64 word"
  | BRead nat
  | BSetaside bool nat
  | BCopy nat
  | BSplit nat "64 word"
  | BDestroy nat

definition set_ext :: "nat \<Rightarrow> nat \<Rightarrow> bstate \<Rightarrow> bstate" where
  "set_ext x n st = st\<lparr>ext := (ext st)(x := n)\<rparr>"

fun bucket_step :: "bucket_ops \<Rightarrow> bucket_op \<Rightarrow> bstate \<Rightarrow> bstate res" where
  "bucket_step A (PerlNew s tmp) st = Inr (let (x, st1) = newSV s tmp st in set_ext x 1 st1)"
| "bucket_step A (PerlSet x s) st = and_then (sv_at x st) (\<lambda>sv. Inr (st\<lparr>svs := (svs st)(x \<mapsto> sv\<lparr>pv := s\<rparr>)\<rparr>))"
| "bucket_step A (PerlInc x) st = and_then (SvREFCNT_inc x st) (\<lambda>st1. Inr (set_ext x (ext st x + 1) st1))"
| "bucket_step A (PerlDec x) st = and_then (SvREFCNT_dec x st) (\<lambda>st1. Inr (set_ext x (ext st x - 1) st1))"
| "bucket_step A (BNew sv off len) st = and_then (mpxs_APR__Bucket_new A sv off len st) (\<lambda>(b, st1). Inr st1)"
| "bucket_step A (BRead b) st = and_then (mpxs_APR__Bucket_read A b st) (\<lambda>r. Inr st)"
| "bucket_step A (BSetaside v b) st = and_then (mpxs_APR__Bucket_setaside A v b st) (\<lambda>(r, st1). Inr st1)"
| "bucket_step A (BCopy b) st = apr_bucket_copy A b st"
| "bucket_step A (BSplit b p) st = apr_bucket_split A b p st"
| "bucket_step A (BDestroy b) st = apr_bucket_destroy A b st"

text \<open>
  Perl code uses scalars that it holds a reference to and buckets that were not destroyed, strings fit into memory, and \<open>new\<close> is not
  called with an offset behind the end of the string.
\<close>

fun bucket_op_ok :: "bucket_op \<Rightarrow> bstate \<Rightarrow> bool" where
  "bucket_op_ok (PerlNew s tmp) st \<longleftrightarrow> length s < 2 ^ 63"
| "bucket_op_ok (PerlSet x s) st \<longleftrightarrow> ext st x > 0 \<and> length s < 2 ^ 63"
| "bucket_op_ok (PerlInc x) st \<longleftrightarrow> ext st x > 0"
| "bucket_op_ok (PerlDec x) st \<longleftrightarrow> ext st x > 0"
| "bucket_op_ok (BNew None off len) st \<longleftrightarrow> off = 0"
| "bucket_op_ok (BNew (Some x) off len) st \<longleftrightarrow> ext st x > 0 \<and> (case svs st x of Some sv \<Rightarrow> unat off \<le> length (pv sv) | None \<Rightarrow> True)"
| "bucket_op_ok (BRead b) st \<longleftrightarrow> buckets st b \<noteq> None"
| "bucket_op_ok (BSetaside v b) st \<longleftrightarrow> buckets st b \<noteq> None"
| "bucket_op_ok (BCopy b) st \<longleftrightarrow> buckets st b \<noteq> None"
| "bucket_op_ok (BSplit b p) st \<longleftrightarrow> buckets st b \<noteq> None"
| "bucket_op_ok (BDestroy b) st \<longleftrightarrow> buckets st b \<noteq> None"

fun bucket_run :: "bucket_ops \<Rightarrow> bucket_op list \<Rightarrow> bstate \<Rightarrow> bstate res" where
  "bucket_run A [] st = Inr st"
| "bucket_run A (op # ops) st = and_then (bucket_step A op st) (bucket_run A ops)"

fun bucket_run_ok :: "bucket_ops \<Rightarrow> bucket_op list \<Rightarrow> bstate \<Rightarrow> bool" where
  "bucket_run_ok A [] st \<longleftrightarrow> True"
| "bucket_run_ok A (op # ops) st \<longleftrightarrow>
     bucket_op_ok op st \<and> (case bucket_step A op st of Inr st1 \<Rightarrow> bucket_run_ok A ops st1 | Inl _ \<Rightarrow> True)"

definition bucket_init :: bstate where
  "bucket_init = \<lparr>svs = (\<lambda>_. None), structs = (\<lambda>_. None), buckets = (\<lambda>_. None), sv_next = 0, struct_next = 0, bucket_next = 0,
     ext = (\<lambda>_. 0), anon = []\<rparr>"

section \<open>Invariant\<close>

text \<open>\<open>mcount P f\<close> counts the entries of a map that have the property.\<close>

definition mcount :: "('b \<Rightarrow> bool) \<Rightarrow> ('a \<Rightarrow> 'b option) \<Rightarrow> nat" where
  "mcount P f = card {k. \<exists>v. f k = Some v \<and> P v}"

lemma mcount_finite: "finite (dom f) \<Longrightarrow> finite {k. \<exists>v. f k = Some v \<and> P v}"
  by (rule finite_subset [of _ "dom f"]) (auto simp: dom_def)

lemma mcount_upd:
  assumes "finite (dom f)"
  shows "mcount P (f(k := w)) + (if \<exists>v. f k = Some v \<and> P v then 1 else 0) = mcount P f + (if \<exists>v. w = Some v \<and> P v then 1 else 0)"
proof -
  let ?S = "{j. \<exists>v. f j = Some v \<and> P v}"
  have fin: "finite ?S" using assms by (rule mcount_finite)
  have eq: "{j. \<exists>v. (f(k := w)) j = Some v \<and> P v} = (if \<exists>v. w = Some v \<and> P v then insert k (?S - {k}) else ?S - {k})"
    by (auto split: if_splits)
  have "card {j. \<exists>v. (f(k := w)) j = Some v \<and> P v} = card (?S - {k}) + (if \<exists>v. w = Some v \<and> P v then 1 else 0)"
    unfolding eq using fin by (auto simp: card_insert_disjoint simp del: insert_Diff_single)
  moreover have "card (?S - {k}) + (if \<exists>v. f k = Some v \<and> P v then 1 else 0) = card ?S"
  proof (cases "k \<in> ?S")
    case True
    then have "0 < card ?S" using fin by (subst card_gt_0_iff) blast
    moreover have "card (?S - {k}) = card ?S - 1" using True by (rule card_Diff_singleton)
    ultimately show ?thesis using True by simp
  next
    case False
    then show ?thesis by (auto simp: Diff_insert0)
  qed
  ultimately show ?thesis unfolding mcount_def by linarith
qed

lemma mcount_pos: "finite (dom f) \<Longrightarrow> f k = Some v \<Longrightarrow> P v \<Longrightarrow> mcount P f > 0"
  unfolding mcount_def by (subst card_gt_0_iff) (use mcount_finite in blast)

lemma mcount_empty [simp]: "mcount P (\<lambda>_. None) = 0"
  by (simp add: mcount_def)

abbreviation sv_structs :: "nat \<Rightarrow> bstate \<Rightarrow> nat" where
  "sv_structs x st \<equiv> mcount (\<lambda>sb. bsv sb = x) (structs st)"

abbreviation struct_buckets :: "nat \<Rightarrow> bstate \<Rightarrow> nat" where
  "struct_buckets s st \<equiv> mcount (\<lambda>bk. bdata bk = SvData s) (buckets st)"

definition expected_refs :: "nat \<Rightarrow> bstate \<Rightarrow> nat" where
  "expected_refs x st = ext st x + sv_structs x st + count_list (anon st) x"

text \<open>A range that does not wrap, so that the comparison of the code is the one of the numbers.\<close>

definition range_ok :: "sv_bucket \<Rightarrow> bool" where
  "range_ok bk \<longleftrightarrow> unat (bstart bk) + unat (blength bk) < 2 ^ 64"

text \<open>Each allocated scalar has the references that are expected of it, and so has each structure.\<close>

definition svs_counted :: "(nat \<Rightarrow> scalar option) \<Rightarrow> (nat \<Rightarrow> nat) \<Rightarrow> bool" where
  "svs_counted f E \<longleftrightarrow> (\<forall>x. f x = None \<longrightarrow> E x = 0) \<and>
     (\<forall>x sv. f x = Some sv \<longrightarrow> refs sv = E x \<and> 0 < E x \<and> length (pv sv) < 2 ^ 63)"

definition structs_counted :: "(nat \<Rightarrow> modperl_bucket_sv_t option) \<Rightarrow> (nat \<Rightarrow> nat) \<Rightarrow> bool" where
  "structs_counted g B \<longleftrightarrow> (\<forall>s. g s = None \<longrightarrow> B s = 0) \<and> (\<forall>s sb. g s = Some sb \<longrightarrow> refcount sb = B s \<and> 0 < B s)"

definition fresh_ids :: "bstate \<Rightarrow> bool" where
  "fresh_ids st \<longleftrightarrow> (\<forall>x\<ge>sv_next st. svs st x = None) \<and> (\<forall>s\<ge>struct_next st. structs st s = None) \<and>
     (\<forall>b\<ge>bucket_next st. buckets st b = None)"

definition bucket_inv :: "bstate \<Rightarrow> bool" where
  "bucket_inv st \<longleftrightarrow> svs_counted (svs st) (\<lambda>x. expected_refs x st) \<and> structs_counted (structs st) (\<lambda>s. struct_buckets s st) \<and>
     (\<forall>b bk. buckets st b = Some bk \<longrightarrow> range_ok bk) \<and> fresh_ids st"

lemma bucket_inv_init: "bucket_inv bucket_init"
  by (simp add: bucket_inv_def bucket_init_def expected_refs_def svs_counted_def structs_counted_def fresh_ids_def)

lemma finite_below: "\<forall>x\<ge>n. f x = None \<Longrightarrow> finite (dom f)" for f :: "nat \<Rightarrow> 'b option"
proof -
  assume *: "\<forall>x\<ge>n. f x = None"
  have "dom f \<subseteq> {..<n}"
  proof
    fix x assume "x \<in> dom f"
    with * show "x \<in> {..<n}" by (cases "n \<le> x") auto
  qed
  then show "finite (dom f)" by (rule finite_subset) simp
qed

lemma bucket_inv_finite:
  assumes "bucket_inv st"
  shows "finite (dom (structs st))" "finite (dom (buckets st))"
  using assms finite_below unfolding bucket_inv_def fresh_ids_def by blast+

lemma svs_counted_set:
  assumes "svs_counted f E" "refs sv' = n" "0 < n" "length (pv sv') < 2 ^ 63"
  shows "svs_counted (f(x \<mapsto> sv')) (E(x := n))"
  using assms by (auto simp: svs_counted_def)

lemma svs_countedD:
  assumes "svs_counted f E" "f x = Some sv"
  shows "refs sv = E x" "0 < E x" "length (pv sv) < 2 ^ 63"
  using assms by (auto simp: svs_counted_def)

lemma svs_counted_live: "svs_counted f E \<Longrightarrow> 0 < E x \<Longrightarrow> \<exists>sv. f x = Some sv"
  unfolding svs_counted_def by (metis less_not_refl not_None_eq)

lemma svs_counted_dec:
  assumes "svs_counted f E" "f x = Some sv"
  shows "svs_counted (f(x := (if refs sv = 1 then None else Some (sv\<lparr>refs := refs sv - 1\<rparr>)))) (E(x := E x - 1))"
  using svs_countedD [OF assms] assms(1) by (auto simp: svs_counted_def Suc_lessI)

lemma structs_counted_set:
  assumes "structs_counted g B" "refcount sb = n" "0 < n"
  shows "structs_counted (g(s \<mapsto> sb)) (B(s := n))"
  using assms by (auto simp: structs_counted_def)

lemma structs_counted_del: "structs_counted g B \<Longrightarrow> structs_counted (g(s := None)) (B(s := 0))"
  by (auto simp: structs_counted_def)

lemma structs_countedD:
  assumes "structs_counted g B" "g s = Some sb"
  shows "refcount sb = B s" "0 < B s"
  using assms by (auto simp: structs_counted_def)

lemma structs_counted_live: "structs_counted g B \<Longrightarrow> 0 < B s \<Longrightarrow> \<exists>sb. g s = Some sb"
  unfolding structs_counted_def by (metis less_not_refl not_None_eq)

text \<open>What a bucket leads to.\<close>

lemma bucket_struct:
  assumes inv: "bucket_inv st" and b: "buckets st b = Some bk" "bdata bk = SvData s"
  obtains sb sv where "structs st s = Some sb" "svs st (bsv sb) = Some sv" "refcount sb = struct_buckets s st"
    "refs sv = expected_refs (bsv sb) st" "length (pv sv) < 2 ^ 63"
proof -
  have S: "structs_counted (structs st) (\<lambda>s. struct_buckets s st)" and V: "svs_counted (svs st) (\<lambda>x. expected_refs x st)"
    using inv by (auto simp: bucket_inv_def)
  have "0 < struct_buckets s st"
    by (rule mcount_pos [where k = b and v = bk]) (use bucket_inv_finite [OF inv] b in auto)
  with S obtain sb where sb: "structs st s = Some sb" using structs_counted_live by blast
  have "0 < sv_structs (bsv sb) st"
    by (rule mcount_pos [where k = s and v = sb]) (use bucket_inv_finite [OF inv] sb in auto)
  then have "0 < expected_refs (bsv sb) st" by (simp add: expected_refs_def)
  with V obtain sv where "svs st (bsv sb) = Some sv" using svs_counted_live by blast
  with sb show thesis using that structs_countedD [OF S sb] svs_countedD [OF V] by blast
qed

section \<open>Every operation keeps the invariant\<close>

lemma inc_svs:
  assumes "svs st x = Some sv"
  shows "SvREFCNT_inc x st = Inr (st\<lparr>svs := (svs st)(x \<mapsto> sv\<lparr>refs := refs sv + 1\<rparr>)\<rparr>)"
  using assms by (simp add: SvREFCNT_inc_def sv_at_def)

lemma svs_counted_cong: "svs_counted f E \<Longrightarrow> (\<And>x. E x = E' x) \<Longrightarrow> svs_counted f E'"
  by (simp add: svs_counted_def)

lemma structs_counted_cong: "structs_counted g B \<Longrightarrow> (\<And>x. B x = B' x) \<Longrightarrow> structs_counted g B'"
  by (simp add: structs_counted_def)

text \<open>Giving back a structure that has one bucket less than it counts.\<close>

lemma destroy_struct:
  assumes laws: "bucket_laws A"
    and V: "svs_counted (svs st) (\<lambda>x. expected_refs x st)"
    and S: "structs_counted (structs st) ((\<lambda>s. struct_buckets s st)(s := struct_buckets s st + 1))"
    and fin: "finite (dom (structs st))"
    and rest: "\<forall>b bk. buckets st b = Some bk \<longrightarrow> range_ok bk" "fresh_ids st"
  shows "\<exists>st'. modperl_bucket_sv_destroy A s st = Inr st' \<and> bucket_inv st' \<and> buckets st' = buckets st"
proof -
  from structs_counted_live [OF S, of s] obtain sb where sb: "structs st s = Some sb" by auto
  have rc: "refcount sb = struct_buckets s st + 1" using structs_countedD [OF S sb] by simp
  have d: "apr_bucket_shared_destroy A (refcount sb) = (struct_buckets s st, struct_buckets s st = 0)"
    using laws rc by (simp add: bucket_laws_def)
  show ?thesis
  proof (cases "struct_buckets s st = 0")
    case False
    let ?st = "st\<lparr>structs := (structs st)(s \<mapsto> sb\<lparr>refcount := struct_buckets s st\<rparr>)\<rparr>"
    have "modperl_bucket_sv_destroy A s st = Inr ?st"
      using sb d False by (simp add: modperl_bucket_sv_destroy_def struct_at_def)
    moreover have "sv_structs x ?st = sv_structs x st" for x
      using mcount_upd [OF fin, where P = "\<lambda>sb. bsv sb = x" and k = s and w = "Some (sb\<lparr>refcount := struct_buckets s st\<rparr>)"] sb
      by (simp split: if_splits)
    then have "svs_counted (svs ?st) (\<lambda>x. expected_refs x ?st)" using V by (simp add: expected_refs_def)
    moreover have "structs_counted (structs ?st) (\<lambda>s. struct_buckets s ?st)"
      using structs_counted_set [OF S, of "sb\<lparr>refcount := struct_buckets s st\<rparr>" "struct_buckets s st" s] False
      by (auto elim: structs_counted_cong)
    moreover have "fresh_ids ?st" using rest(2) sb by (auto simp: fresh_ids_def)
    ultimately show ?thesis using rest(1) by (auto simp: bucket_inv_def)
  next
    case True
    let ?x = "bsv sb"
    have pos: "0 < sv_structs ?x st" by (rule mcount_pos [where k = s and v = sb]) (use fin sb in auto)
    then have "0 < expected_refs ?x st" by (simp add: expected_refs_def)
    with V obtain sv where sv: "svs st ?x = Some sv" using svs_counted_live by blast
    let ?st = "st\<lparr>svs := (svs st)(?x := (if refs sv = 1 then None else Some (sv\<lparr>refs := refs sv - 1\<rparr>))), structs := (structs st)(s := None)\<rparr>"
    have "modperl_bucket_sv_destroy A s st = Inr ?st"
      using sb sv d True by (simp add: modperl_bucket_sv_destroy_def struct_at_def SvREFCNT_dec_def sv_at_def)
    moreover have E: "expected_refs x ?st = ((\<lambda>x. expected_refs x st)(?x := expected_refs ?x st - 1)) x" for x
      using mcount_upd [OF fin, where P = "\<lambda>sb. bsv sb = x" and k = s and w = None] sb pos
      by (auto simp: expected_refs_def split: if_splits)
    have "svs_counted (svs ?st) (\<lambda>x. expected_refs x ?st)"
      using svs_counted_dec [OF V sv] E by (simp del: fun_upd_apply) 
    moreover have "structs_counted (structs ?st) (\<lambda>s. struct_buckets s ?st)"
      using structs_counted_del [OF S, of s] True by (auto elim!: structs_counted_cong)
    moreover have "fresh_ids ?st" using rest(2) sv by (auto simp: fresh_ids_def)
    ultimately show ?thesis using rest(1) by (auto simp: bucket_inv_def)
  qed
qed

lemma drop_bucket:
  assumes laws: "bucket_laws A" and inv: "bucket_inv st" and b: "buckets st b = Some bk" "bdata bk = SvData s"
    and w: "\<And>bk'. w = Some bk' \<Longrightarrow> is_PoolData (bdata bk') \<and> range_ok bk'"
  shows "\<exists>st'. modperl_bucket_sv_destroy A s (st\<lparr>buckets := (buckets st)(b := w)\<rparr>) = Inr st' \<and> bucket_inv st' \<and>
    buckets st' = (buckets st)(b := w)"
proof -
  let ?st = "st\<lparr>buckets := (buckets st)(b := w)\<rparr>"
  have fin: "finite (dom (structs st))" "finite (dom (buckets st))" using bucket_inv_finite [OF inv] .
  have B: "struct_buckets t st = ((\<lambda>t. struct_buckets t ?st)(s := struct_buckets s ?st + 1)) t" for t
    using mcount_upd [OF fin(2), where P = "\<lambda>bk. bdata bk = SvData t" and k = b and w = w] b w
    by (force split: if_splits)
  have "structs_counted (structs ?st) ((\<lambda>t. struct_buckets t ?st)(s := struct_buckets s ?st + 1))"
    using inv by (intro structs_counted_cong [OF _ B]) (simp add: bucket_inv_def)
  moreover have "svs_counted (svs ?st) (\<lambda>x. expected_refs x ?st)" using inv by (simp add: bucket_inv_def expected_refs_def)
  moreover have "\<forall>c bk. buckets ?st c = Some bk \<longrightarrow> range_ok bk" using inv w by (auto simp: bucket_inv_def)
  moreover have "fresh_ids ?st" using inv b by (auto simp: bucket_inv_def fresh_ids_def)
  ultimately show ?thesis using destroy_struct [OF laws, of ?st s] fin(1) by simp
qed

lemma share_new:
  assumes laws: "bucket_laws A" and inv: "bucket_inv st" and b: "buckets st b = Some bk"
    and ok: "range_ok bk1" "range_ok bk2" and d: "bdata bk1 = bdata bk" "bdata bk2 = bdata bk"
  shows "\<exists>st1. share_struct A (bdata bk) st = Inr st1 \<and> bucket_inv (new_bucket bk2 (put_bucket b bk1 st1))"
proof -
  have fin: "finite (dom (structs st))" "finite (dom (buckets st))" using bucket_inv_finite [OF inv] .
  have ne: "bucket_next st \<noteq> b" "buckets st (bucket_next st) = None" using inv b by (auto simp: bucket_inv_def fresh_ids_def)
  let ?m = "(buckets st)(b \<mapsto> bk1, bucket_next st \<mapsto> bk2)"
  have fin1: "finite (dom ((buckets st)(b \<mapsto> bk1)))" using fin by simp
  have B: "mcount (\<lambda>bk. bdata bk = SvData t) ?m = struct_buckets t st + (if bdata bk = SvData t then 1 else 0)" for t
    using mcount_upd [OF fin1, where P = "\<lambda>bk. bdata bk = SvData t" and k = "bucket_next st" and w = "Some bk2"]
      mcount_upd [OF fin(2), where P = "\<lambda>bk. bdata bk = SvData t" and k = b and w = "Some bk1"] b d ne
    by (auto split: if_splits)
  have R: "\<forall>c bk. ?m c = Some bk \<longrightarrow> range_ok bk" using inv ok by (auto simp: bucket_inv_def)
  show ?thesis
  proof (cases "bdata bk")
    case (PoolData x)
    then have "share_struct A (bdata bk) st = Inr st" by (simp add: share_struct_def)
    moreover have "bucket_inv (new_bucket bk2 (put_bucket b bk1 st))"
      using inv B R PoolData b by (auto simp: bucket_inv_def new_bucket_def put_bucket_def expected_refs_def fresh_ids_def)
    ultimately show ?thesis by blast
  next
    case (SvData s)
    obtain sb where sb: "structs st s = Some sb" "refcount sb = struct_buckets s st"
      by (rule bucket_struct [OF inv b SvData])
    let ?sb = "sb\<lparr>refcount := refcount sb + 1\<rparr>"
    let ?st = "st\<lparr>structs := (structs st)(s \<mapsto> ?sb)\<rparr>"
    have "share_struct A (bdata bk) st = Inr ?st"
      using SvData sb laws by (simp add: share_struct_def struct_at_def bucket_laws_def)
    moreover have "bucket_inv (new_bucket bk2 (put_bucket b bk1 ?st))"
    proof -
      have E: "mcount (\<lambda>sb. bsv sb = x) ((structs st)(s \<mapsto> ?sb)) = sv_structs x st" for x
        using mcount_upd [OF fin(1), where P = "\<lambda>sb. bsv sb = x" and k = s and w = "Some ?sb"] sb
        by (simp split: if_splits)
      have "structs_counted (structs st) (\<lambda>s. struct_buckets s st)" using inv by (simp add: bucket_inv_def)
      from structs_counted_set [OF this, of ?sb "struct_buckets s st + 1" s] sb
      have "structs_counted ((structs st)(s \<mapsto> ?sb)) (\<lambda>t. mcount (\<lambda>bk. bdata bk = SvData t) ?m)"
        by (auto elim!: structs_counted_cong simp: B SvData)
      with inv R b sb E show ?thesis
        by (auto simp: bucket_inv_def new_bucket_def put_bucket_def expected_refs_def fresh_ids_def)
    qed
    ultimately show ?thesis by blast
  qed
qed

lemma sv_bucket_destroy_inv:
  assumes "bucket_laws A" "bucket_inv st" "buckets st b \<noteq> None"
  shows "\<exists>st'. apr_bucket_destroy A b st = Inr st' \<and> bucket_inv st'"
proof -
  obtain bk where b: "buckets st b = Some bk" using assms(3) by blast
  show ?thesis
  proof (cases "bdata bk")
    case (SvData s)
    with drop_bucket [OF assms(1,2) b SvData, of None] b show ?thesis
      by (auto simp: apr_bucket_destroy_def bucket_at_def)
  next
    case (PoolData d)
    have "mcount (\<lambda>bk. bdata bk = SvData t) ((buckets st)(b := None)) = struct_buckets t st" for t
      using mcount_upd [OF bucket_inv_finite(2) [OF assms(2)], where P = "\<lambda>bk. bdata bk = SvData t" and k = b and w = None] b PoolData
      by simp
    with assms(2) have "bucket_inv (st\<lparr>buckets := (buckets st)(b := None)\<rparr>)"
      by (auto simp: bucket_inv_def expected_refs_def fresh_ids_def)
    with b PoolData show ?thesis by (simp add: apr_bucket_destroy_def bucket_at_def)
  qed
qed

lemma put_same: "buckets st b = Some bk \<Longrightarrow> put_bucket b bk st = st"
  by (simp add: put_bucket_def fun_upd_idem)

lemma share_struct_buckets: "share_struct A d st = Inr st1 \<Longrightarrow> buckets st1 = buckets st"
  by (auto simp: share_struct_def and_then_eq_Inr split: bucket_data.splits)

lemma copy_inv:
  assumes "bucket_laws A" "bucket_inv st" "buckets st b \<noteq> None"
  shows "\<exists>st'. apr_bucket_copy A b st = Inr st' \<and> bucket_inv st'"
proof -
  obtain bk where b: "buckets st b = Some bk" using assms(3) by blast
  then have "range_ok bk" using assms(2) by (auto simp: bucket_inv_def)
  from share_new [OF assms(1,2) b this this] obtain st1
    where *: "share_struct A (bdata bk) st = Inr st1" "bucket_inv (new_bucket bk (put_bucket b bk st1))" by auto
  then have "put_bucket b bk st1 = st1" using b share_struct_buckets by (metis put_same)
  with * b show ?thesis by (simp add: apr_bucket_copy_def bucket_at_def)
qed

lemma split_inv:
  assumes "bucket_laws A" "bucket_inv st" "buckets st b \<noteq> None"
  shows "\<exists>st'. apr_bucket_split A b p st = Inr st' \<and> bucket_inv st'"
proof -
  obtain bk where b: "buckets st b = Some bk" using assms(3) by blast
  then have ok: "range_ok bk" using assms(2) by (auto simp: bucket_inv_def)
  show ?thesis
  proof (cases "p \<le> blength bk")
    case False
    then show ?thesis using assms b by (simp add: apr_bucket_split_def bucket_at_def bucket_laws_def)
  next
    case True
    then have "unat (bstart bk + p) = unat (bstart bk) + unat p" "unat (blength bk - p) = unat (blength bk) - unat p" "unat p \<le> unat (blength bk)"
      using ok by (auto simp: range_ok_def unat_plus_if' unat_sub word_le_nat_alt)
    then have "range_ok (bk\<lparr>bstart := bstart bk, blength := p\<rparr>)" "range_ok (bk\<lparr>bstart := bstart bk + p, blength := blength bk - p\<rparr>)"
      using ok by (auto simp: range_ok_def)
    from share_new [OF assms(1,2) b this] True assms(1) b show ?thesis
      by (auto simp: apr_bucket_split_def bucket_at_def bucket_laws_def)
  qed
qed

lemma too_short_iff:
  assumes "range_ok bk" "length (pv sv) < 2 ^ 63"
  shows "too_short sv bk \<longleftrightarrow> length (pv sv) < unat (bstart bk) + unat (blength bk)"
  using assms by (simp add: too_short_def range_ok_def word_less_nat_alt unat_word_ariths unat_of_nat)

text \<open>What \<open>read\<close> gives for a bucket of this type: the bytes of the range as the scalar has them now, an exception when the scalar was shortened.\<close>

lemma read_inv:
  assumes inv: "bucket_inv st" and b: "buckets st b = Some bk" "bdata bk = SvData s"
  shows "\<exists>sb sv. structs st s = Some sb \<and> svs st (bsv sb) = Some sv \<and>
    mpxs_APR__Bucket_read A b st =
      Inr (if length (pv sv) < unat (bstart bk) + unat (blength bk) then Croaks
           else Returns (take (unat (blength bk)) (drop (unat (bstart bk)) (pv sv))))"
proof -
  obtain sb sv where 1: "structs st s = Some sb" "svs st (bsv sb) = Some sv" "length (pv sv) < 2 ^ 63"
    by (rule bucket_struct [OF inv b])
  have "range_ok bk" using inv b by (auto simp: bucket_inv_def)
  note too_short_iff [OF this 1(3)]
  moreover have "blength bk = 0 \<longleftrightarrow> unat (blength bk) = 0" by (simp add: unat_eq_0)
  ultimately show ?thesis using 1 b
    by (auto simp: mpxs_APR__Bucket_read_def modperl_bucket_sv_read_def bucket_at_def struct_at_def sv_at_def bytes_at_def
        APR_EGENERAL_def APR_SUCCESS_def APR_EOF_def)
qed

lemma read_returns:
  assumes "bucket_inv st" "buckets st b \<noteq> None"
  shows "\<exists>r. mpxs_APR__Bucket_read A b st = Inr r"
proof -
  obtain bk where b: "buckets st b = Some bk" using assms(2) by blast
  show ?thesis
  proof (cases "bdata bk")
    case (SvData s)
    then show ?thesis using read_inv [OF assms(1) b] by blast
  next
    case (PoolData d)
    then show ?thesis using b by (simp add: mpxs_APR__Bucket_read_def bucket_at_def)
  qed
qed

lemma setaside_inv:
  assumes laws: "bucket_laws A" and inv: "bucket_inv st" and b: "buckets st b = Some bk" "bdata bk = SvData s"
  shows "\<exists>rc st'. modperl_bucket_sv_setaside A b s bk st = Inr (rc, st') \<and> bucket_inv st' \<and>
    (rc = APR_SUCCESS \<longrightarrow> (\<exists>sb sv. structs st s = Some sb \<and> svs st (bsv sb) = Some sv \<and>
        buckets st' = (buckets st)(b \<mapsto> \<lparr>bdata = PoolData (take (unat (blength bk)) (drop (unat (bstart bk)) (pv sv))),
                                        bstart = 0, blength = blength bk\<rparr>)))"
proof -
  obtain sb sv where 1: "structs st s = Some sb" "svs st (bsv sb) = Some sv" "length (pv sv) < 2 ^ 63"
    by (rule bucket_struct [OF inv b])
  have ok: "range_ok bk" using inv b by (auto simp: bucket_inv_def)
  let ?bytes = "take (unat (blength bk)) (drop (unat (bstart bk)) (pv sv))"
  show ?thesis
  proof (cases "too_short sv bk")
    case True
    then show ?thesis using 1 inv
      by (simp add: modperl_bucket_sv_setaside_def struct_at_def sv_at_def APR_EGENERAL_def APR_SUCCESS_def)
  next
    case False
    then have bts: "bytes_at (pv sv) (bstart bk) (blength bk) = Inr ?bytes"
      using too_short_iff [OF ok 1(3)] by (simp add: bytes_at_def)
    show ?thesis
    proof (cases "apr_pstrmemdup A ?bytes = None \<or> \<not> apr_bucket_pool_make A (the (apr_pstrmemdup A ?bytes))")
      case True
      then show ?thesis using 1 inv False bts
        by (auto simp: modperl_bucket_sv_setaside_def struct_at_def sv_at_def APR_ENOMEM_def APR_SUCCESS_def split: option.split)
    next
      case False
      then obtain c where c: "apr_pstrmemdup A ?bytes = Some c" "apr_bucket_pool_make A c" by auto
      then have "c = ?bytes" using laws unfolding bucket_laws_def by metis
      then have d: "apr_pstrmemdup A ?bytes = Some ?bytes" "apr_bucket_pool_make A ?bytes" using c by auto
      define w where "w = Some \<lparr>bdata = PoolData ?bytes, bstart = 0, blength = blength bk\<rparr>"
      have "unat (blength bk) < 2 ^ 64" using unsigned_less [of "blength bk"] by simp
      then have "w = Some bk' \<Longrightarrow> is_PoolData (bdata bk') \<and> range_ok bk'" for bk' by (auto simp: range_ok_def w_def)
      from drop_bucket [OF laws inv b this] obtain st'
        where st': "modperl_bucket_sv_destroy A s (st\<lparr>buckets := (buckets st)(b := w)\<rparr>) = Inr st'" "bucket_inv st'"
          "buckets st' = (buckets st)(b := w)" by blast
      have "modperl_bucket_sv_setaside A b s bk st = Inr (APR_SUCCESS, st')"
        using d 1 \<open>\<not> too_short sv bk\<close> bts st'(1) by (simp add: modperl_bucket_sv_setaside_def struct_at_def sv_at_def w_def)
      with st' 1 show ?thesis by (auto simp: w_def)
    qed
  qed
qed

lemma sv_fresh_inv:
  assumes inv: "bucket_inv st" and n: "length s < 2 ^ 63"
  shows "svs_counted ((svs st)(sv_next st \<mapsto> \<lparr>pv = s, refs = 1, padtmp = tmp\<rparr>)) ((\<lambda>x. expected_refs x st)(sv_next st := 1))"
    "expected_refs (sv_next st) st = 0" "svs st (sv_next st) = None"
proof -
  have *: "svs_counted (svs st) (\<lambda>x. expected_refs x st)" using inv by (simp add: bucket_inv_def)
  then show "svs_counted ((svs st)(sv_next st \<mapsto> \<lparr>pv = s, refs = 1, padtmp = tmp\<rparr>)) ((\<lambda>x. expected_refs x st)(sv_next st := 1))"
    using n by (intro svs_counted_set) auto
  show "svs st (sv_next st) = None" using inv by (simp add: bucket_inv_def fresh_ids_def)
  with * show "expected_refs (sv_next st) st = 0" by (simp add: svs_counted_def)
qed

lemma anon_inv:
  assumes inv: "bucket_inv st"
  shows "bucket_inv (let (x, st1) = newSV [] False st in st1\<lparr>anon := x # anon st1\<rparr>)"
proof -
  have E: "((\<lambda>x. expected_refs x st)(sv_next st := 1)) y = ext st y + sv_structs y st + count_list (sv_next st # anon st) y" for y
    using sv_fresh_inv(2) [OF inv, of "[]"] by (auto simp: expected_refs_def)
  have "svs_counted ((svs st)(sv_next st \<mapsto> \<lparr>pv = [], refs = 1, padtmp = False\<rparr>))
      (\<lambda>y. ext st y + sv_structs y st + count_list (sv_next st # anon st) y)"
    by (rule svs_counted_cong [OF sv_fresh_inv(1) [OF inv] E]) simp
  with inv show ?thesis
    by (auto simp: newSV_def bucket_inv_def fresh_ids_def expected_refs_def simp del: count_list.simps)
qed

lemma add_bucket_inv:
  assumes inv: "bucket_inv st" and V: "svs_counted V ((\<lambda>x. expected_refs x st)(y := expected_refs y st + 1))"
    and n: "sv_next st \<le> n" "\<forall>x\<ge>n. V x = None" and ok: "range_ok \<lparr>bdata = SvData (struct_next st), bstart = off, blength = len\<rparr>"
    and st': "st' = st\<lparr>svs := V, sv_next := n, struct_next := struct_next st + 1, bucket_next := bucket_next st + 1,
      structs := (structs st)(struct_next st \<mapsto> \<lparr>refcount = 1, bsv = y\<rparr>),
      buckets := (buckets st)(bucket_next st \<mapsto> \<lparr>bdata = SvData (struct_next st), bstart = off, blength = len\<rparr>)\<rparr>"
  shows "bucket_inv st'"
proof -
  have fin: "finite (dom (structs st))" "finite (dom (buckets st))" using bucket_inv_finite [OF inv] .
  have fr: "structs st (struct_next st) = None" "buckets st (bucket_next st) = None" using inv by (auto simp: bucket_inv_def fresh_ids_def)
  have E: "mcount (\<lambda>sb. bsv sb = x) ((structs st)(struct_next st \<mapsto> \<lparr>refcount = 1, bsv = y\<rparr>)) = sv_structs x st + (if x = y then 1 else 0)" for x
    using mcount_upd [OF fin(1), where P = "\<lambda>sb. bsv sb = x" and k = "struct_next st" and w = "Some \<lparr>refcount = 1, bsv = y\<rparr>"] fr
    by (auto split: if_splits)
  have B: "mcount (\<lambda>bk. bdata bk = SvData t) ((buckets st)(bucket_next st \<mapsto> \<lparr>bdata = SvData (struct_next st), bstart = off, blength = len\<rparr>))
      = struct_buckets t st + (if t = struct_next st then 1 else 0)" for t
    using mcount_upd [OF fin(2), where P = "\<lambda>bk. bdata bk = SvData t" and k = "bucket_next st"
        and w = "Some \<lparr>bdata = SvData (struct_next st), bstart = off, blength = len\<rparr>"] fr
    by (auto split: if_splits)
  have S: "structs_counted (structs st) (\<lambda>s. struct_buckets s st)" using inv by (simp add: bucket_inv_def)
  then have z: "struct_buckets (struct_next st) st = 0" using fr by (simp add: structs_counted_def)
  let ?st = "st\<lparr>svs := V, sv_next := n, struct_next := struct_next st + 1, bucket_next := bucket_next st + 1,
      structs := (structs st)(struct_next st \<mapsto> \<lparr>refcount = 1, bsv = y\<rparr>),
      buckets := (buckets st)(bucket_next st \<mapsto> \<lparr>bdata = SvData (struct_next st), bstart = off, blength = len\<rparr>)\<rparr>"
  have "svs_counted (svs ?st) (\<lambda>x. expected_refs x ?st)"
    using svs_counted_cong [OF V, of "\<lambda>x. expected_refs x ?st"] by (simp add: expected_refs_def E [unfolded One_nat_def])
  moreover have "structs_counted (structs ?st) (\<lambda>s. struct_buckets s ?st)"
    using structs_counted_cong [OF structs_counted_set [OF S, of "\<lparr>refcount = 1, bsv = y\<rparr>" 1 "struct_next st"], of "\<lambda>s. struct_buckets s ?st"] z
    by (simp add: B)
  moreover have "\<forall>b bk. buckets ?st b = Some bk \<longrightarrow> range_ok bk" using inv ok by (auto simp: bucket_inv_def)
  moreover have "fresh_ids ?st" using inv n by (simp add: bucket_inv_def fresh_ids_def)
  ultimately show ?thesis by (simp only: bucket_inv_def st')
qed

lemma skip_id_inv: "bucket_inv st \<Longrightarrow> bucket_inv (st\<lparr>bucket_next := Suc (bucket_next st), struct_next := Suc (struct_next st)\<rparr>)"
  by (auto simp: bucket_inv_def expected_refs_def fresh_ids_def)

lemma sv_bucket_create_inv:
  assumes laws: "bucket_laws A" and inv: "bucket_inv st" and x: "svs st x = Some sv"
    and ok: "unat off + unat len < 2 ^ 64"
  shows "\<exists>r st'. modperl_bucket_sv_create A x off len st = Inr (r, st') \<and> bucket_inv st'"
proof (cases "apr_bucket_shared_make A off len")
  case None
  then show ?thesis using skip_id_inv [OF inv]
    by (simp add: modperl_bucket_sv_create_def modperl_bucket_sv_make_def Let_def)
next
  case (Some m)
  then have m: "apr_bucket_shared_make A off len = Some (1, off, len)" using laws unfolding bucket_laws_def by metis
  have V: "svs_counted (svs st) (\<lambda>x. expected_refs x st)" using inv by (simp add: bucket_inv_def)
  note sv = svs_countedD [OF V x]
  have fr: "\<forall>x\<ge>sv_next st. svs st x = None" using inv by (simp add: bucket_inv_def fresh_ids_def)
  have rng: "range_ok \<lparr>bdata = SvData (struct_next st), bstart = off, blength = len\<rparr>" using ok by (simp add: range_ok_def)
  show ?thesis
  proof (cases "padtmp sv")
    case True
    have new: "svs_counted ((svs st)(sv_next st \<mapsto> \<lparr>pv = pv sv, refs = 1, padtmp = False\<rparr>))
        ((\<lambda>x. expected_refs x st)(sv_next st := expected_refs (sv_next st) st + 1))"
      using sv_fresh_inv [OF inv sv(3)] by simp
    let ?st = "st\<lparr>bucket_next := bucket_next st + 1, struct_next := struct_next st + 1,
        svs := (svs st)(sv_next st \<mapsto> \<lparr>pv = pv sv, refs = 1, padtmp = False\<rparr>), sv_next := sv_next st + 1,
        structs := (structs st)(struct_next st \<mapsto> \<lparr>refcount = 1, bsv = sv_next st\<rparr>),
        buckets := (buckets st)(bucket_next st \<mapsto> \<lparr>bdata = SvData (struct_next st), bstart = off, blength = len\<rparr>)\<rparr>"
    from add_bucket_inv [OF inv new _ _ rng, of "sv_next st + 1" ?st] fr have "bucket_inv ?st" by simp
    moreover have "modperl_bucket_sv_create A x off len st = Inr (Some (bucket_next st), ?st)" using m x True
      by (simp add: modperl_bucket_sv_create_def modperl_bucket_sv_make_def Let_def sv_at_def newSV_def)
    ultimately show ?thesis by blast
  next
    case False
    let ?st = "st\<lparr>bucket_next := bucket_next st + 1, struct_next := struct_next st + 1,
        svs := (svs st)(x \<mapsto> sv\<lparr>refs := refs sv + 1\<rparr>),
        structs := (structs st)(struct_next st \<mapsto> \<lparr>refcount = 1, bsv = x\<rparr>),
        buckets := (buckets st)(bucket_next st \<mapsto> \<lparr>bdata = SvData (struct_next st), bstart = off, blength = len\<rparr>)\<rparr>"
    have "svs_counted ((svs st)(x \<mapsto> sv\<lparr>refs := refs sv + 1\<rparr>)) ((\<lambda>x. expected_refs x st)(x := expected_refs x st + 1))"
      using sv by (intro svs_counted_set [OF V]) auto
    moreover have "\<forall>y\<ge>sv_next st. ((svs st)(x \<mapsto> sv\<lparr>refs := refs sv + 1\<rparr>)) y = None" using fr x by auto
    ultimately have "bucket_inv ?st" by (rule add_bucket_inv [OF inv _ order.refl _ rng]) (simp add: fun_upd_def)
    moreover have "modperl_bucket_sv_create A x off len st = Inr (Some (bucket_next st), ?st)" using m x False
      by (simp add: modperl_bucket_sv_create_def modperl_bucket_sv_make_def Let_def sv_at_def inc_svs)
    ultimately show ?thesis by blast
  qed
qed

lemma new_range:
  assumes "unat off \<le> n" "n < 2 ^ 63" "len \<noteq> 0 \<Longrightarrow> len \<le> (of_nat n :: 64 word) - off"
  shows "unat off + unat (if len \<noteq> 0 then len else (of_nat n :: 64 word) - off) \<le> n"
proof -
  have n: "unat (of_nat n :: 64 word) = n" using assms(2) by (simp add: unat_of_nat)
  then have "unat ((of_nat n :: 64 word) - off) = n - unat off" using assms(1) by (simp add: unat_sub word_le_nat_alt)
  then show ?thesis using assms(1,3) by (auto simp: word_le_nat_alt)
qed

lemma new_inv:
  assumes laws: "bucket_laws A" and inv: "bucket_inv st"
    and ok: "bucket_op_ok (BNew sv off len) st"
  shows "\<exists>r st'. mpxs_APR__Bucket_new A sv off len st = Inr (r, st') \<and> bucket_inv st'"
proof -
  define p where "p = (case sv of Some x \<Rightarrow> (x, st) | None \<Rightarrow> let (x, st1) = newSV [] False st in (x, st1\<lparr>anon := x # anon st1\<rparr>))"
  obtain x st1 where p: "p = (x, st1)" by fastforce
  have "bucket_inv st1 \<and> (\<exists>s. svs st1 x = Some s \<and> unat off \<le> length (pv s))"
  proof (cases sv)
    case None
    then show ?thesis using anon_inv [OF inv] p ok by (auto simp: p_def newSV_def)
  next
    case (Some y)
    then have "0 < expected_refs y st" using ok by (simp add: expected_refs_def)
    with inv obtain s where "svs st y = Some s" using svs_counted_live unfolding bucket_inv_def by blast
    with Some ok inv p show ?thesis by (auto simp: p_def)
  qed
  then obtain s where 1: "bucket_inv st1" "svs st1 x = Some s" "unat off \<le> length (pv s)" by blast
  have n: "length (pv s) < 2 ^ 63" using 1(1,2) svs_countedD(3) unfolding bucket_inv_def by blast
  let ?full = "of_nat (length (pv s)) :: 64 word"
  show ?thesis
  proof (cases "len \<noteq> 0 \<and> len > ?full - off")
    case True
    then show ?thesis using 1 p by (simp add: mpxs_APR__Bucket_new_def p_def [symmetric] sv_at_def)
  next
    case False
    then have "unat off + unat (if len \<noteq> 0 then len else ?full - off) \<le> length (pv s)"
      by (intro new_range [OF 1(3) n]) (auto simp: not_less)
    moreover have "length (pv s) < 2 ^ 64" using n by simp
    ultimately have "unat off + unat (if len \<noteq> 0 then len else ?full - off) < 2 ^ 64" by (rule le_less_trans)
    from sv_bucket_create_inv [OF laws 1(1,2) this] False 1 p show ?thesis
      by (auto simp: mpxs_APR__Bucket_new_def p_def [symmetric] sv_at_def Let_def)
  qed
qed

lemma step_inv:
  assumes laws: "bucket_laws A" and inv: "bucket_inv st" and ok: "bucket_op_ok op st"
  shows "\<exists>st'. bucket_step A op st = Inr st' \<and> bucket_inv st'"
proof -
  have V: "svs_counted (svs st) (\<lambda>x. expected_refs x st)" using inv by (simp add: bucket_inv_def)
  have live: "\<exists>sv. svs st x = Some sv" if "0 < ext st x" for x
    using svs_counted_live [OF V, of x] that by (simp add: expected_refs_def)
  have fr: "\<forall>y\<ge>sv_next st. svs st y = None" using inv by (simp add: bucket_inv_def fresh_ids_def)
  have upd: "bucket_inv (st\<lparr>svs := W, ext := (ext st)(x := n)\<rparr>)"
    if "svs_counted W ((\<lambda>x. expected_refs x st)(x := m))" "m + ext st x = expected_refs x st + n" "\<forall>y. svs st y = None \<longrightarrow> W y = None" for W x n m
  proof -
    have "((\<lambda>x. expected_refs x st)(x := m)) y = expected_refs y (st\<lparr>svs := W, ext := (ext st)(x := n)\<rparr>)" for y
      using that(2) by (auto simp: expected_refs_def)
    from svs_counted_cong [OF that(1) this] that(3) fr inv show ?thesis by (simp add: bucket_inv_def fresh_ids_def)
  qed
  show ?thesis
  proof (cases op)
    case (PerlNew s tmp)
    let ?E = "(\<lambda>x. expected_refs x st)(sv_next st := 1)"
    have "?E y = expected_refs y (set_ext (sv_next st) 1 (snd (newSV s tmp st)))" for y
      using sv_fresh_inv(2) [OF inv, of s] ok PerlNew by (auto simp: expected_refs_def set_ext_def newSV_def)
    from svs_counted_cong [OF sv_fresh_inv(1) [OF inv, of s tmp] this] ok PerlNew inv show ?thesis
      by (simp add: bucket_inv_def fresh_ids_def set_ext_def newSV_def)
  next
    case (PerlSet x s)
    then obtain sv where sv: "svs st x = Some sv" using ok live by auto
    have "svs_counted ((svs st)(x \<mapsto> sv\<lparr>pv := s\<rparr>)) ((\<lambda>x. expected_refs x st)(x := expected_refs x st))"
      using svs_countedD [OF V sv] ok PerlSet by (intro svs_counted_set [OF V]) auto
    from upd [OF this, of "ext st x"] sv PerlSet show ?thesis by (auto simp: sv_at_def)
  next
    case (PerlInc x)
    then obtain sv where sv: "svs st x = Some sv" using ok live by auto
    have "svs_counted ((svs st)(x \<mapsto> sv\<lparr>refs := refs sv + 1\<rparr>)) ((\<lambda>x. expected_refs x st)(x := expected_refs x st + 1))"
      using svs_countedD [OF V sv] by (intro svs_counted_set [OF V]) auto
    from upd [OF this, of "ext st x + 1"] sv PerlInc show ?thesis by (auto simp: inc_svs set_ext_def)
  next
    case (PerlDec x)
    then obtain sv where sv: "svs st x = Some sv" using ok live by auto
    from upd [OF svs_counted_dec [OF V sv], of "ext st x - 1"] sv PerlDec ok show ?thesis
      by (auto simp: SvREFCNT_dec_def sv_at_def set_ext_def expected_refs_def)
  next
    case (BNew sv off len)
    with new_inv [OF laws inv] ok show ?thesis by fastforce
  next
    case (BRead b)
    with read_returns [OF inv, of b A] ok inv show ?thesis by auto
  next
    case (BSetaside v b)
    then obtain bk where b: "buckets st b = Some bk" using ok by auto
    show ?thesis
    proof (cases "bdata bk")
      case (SvData s)
      with setaside_inv [OF laws inv b] b BSetaside show ?thesis by (auto simp: mpxs_APR__Bucket_setaside_def bucket_at_def)
    qed (use b BSetaside inv in \<open>simp add: mpxs_APR__Bucket_setaside_def bucket_at_def\<close>)
  next
    case (BCopy b)
    with copy_inv [OF laws inv, of b] ok show ?thesis by simp
  next
    case (BSplit b p)
    with split_inv [OF laws inv, of b p] ok show ?thesis by simp
  next
    case (BDestroy b)
    with sv_bucket_destroy_inv [OF laws inv, of b] ok show ?thesis by simp
  qed
qed

lemma run_inv:
  "bucket_laws A \<Longrightarrow> bucket_inv st \<Longrightarrow> bucket_run_ok A ops st \<Longrightarrow> \<exists>st'. bucket_run A ops st = Inr st' \<and> bucket_inv st'"
proof (induction ops arbitrary: st)
  case (Cons op ops)
  then obtain st1 where "bucket_step A op st = Inr st1" "bucket_inv st1" using step_inv [of A st op] by auto
  with Cons show ?case by auto
qed simp

lemmas bucket_eval = bucket_init_def newSV_def set_ext_def sv_at_def struct_at_def bucket_at_def SvREFCNT_inc_def SvREFCNT_dec_def
  mpxs_APR__Bucket_new_def modperl_bucket_sv_create_def modperl_bucket_sv_make_def mpxs_APR__Bucket_read_def modperl_bucket_sv_read_def
  mpxs_APR__Bucket_setaside_def modperl_bucket_sv_setaside_def modperl_bucket_sv_destroy_def apr_bucket_destroy_def apr_bucket_copy_def
  apr_bucket_split_def share_struct_def new_bucket_def put_bucket_def too_short_def bytes_at_def APR_EGENERAL_def APR_SUCCESS_def APR_EOF_def

text \<open>An instance of the library functions.\<close>

definition plain_buckets :: bucket_ops where
  "plain_buckets = \<lparr>apr_bucket_shared_make = (\<lambda>off len. Some (1, off, len)), apr_bucket_shared_destroy = (\<lambda>n. (n - 1, n = 1)),
     apr_bucket_shared_copy = (\<lambda>n. n + 1),
     apr_bucket_shared_split = (\<lambda>p st len. if p \<le> len then Some ((st, p), (st + p, len - p)) else None),
     apr_pstrmemdup = Some, apr_bucket_pool_make = (\<lambda>_. True),
     apr_pool_bucket_read = (\<lambda>s start len. take (unat len) (drop (unat start) s)), apr_pool_bucket_setaside = 0\<rparr>"

lemma plain_buckets_laws: "bucket_laws plain_buckets"
  by (simp add: bucket_laws_def plain_buckets_def)

section \<open>Properties\<close>

text \<open>
  C8. However buckets over scalars are made, read, set aside, copied, split and destroyed while Perl code changes the scalars, gives up
  its references and raises exceptions: nothing that was freed is used and nothing outside a string is read. Afterwards a scalar
  has one reference for each of Perl's, one for each structure that shares it, and one that is never given back for each call of \<open>new\<close> without a scalar;
  it is freed when it has none of these. A structure lives as long as it has buckets.
\<close>

theorem sv_bucket_refs:
  assumes "bucket_laws A" and "bucket_run_ok A ops bucket_init"
  shows "\<exists>st. bucket_run A ops bucket_init = Inr st \<and>
    (\<forall>x. map_option refs (svs st x) =
       (let n = ext st x + mcount (\<lambda>sb. bsv sb = x) (structs st) + count_list (anon st) x in if n = 0 then None else Some n)) \<and>
    (\<forall>s. map_option refcount (structs st s) =
       (let n = mcount (\<lambda>bk. bdata bk = SvData s) (buckets st) in if n = 0 then None else Some n))"
proof -
  obtain st where st: "bucket_run A ops bucket_init = Inr st" "bucket_inv st" using run_inv [OF assms(1) bucket_inv_init assms(2)] by blast
  have V: "svs_counted (svs st) (\<lambda>x. expected_refs x st)" and S: "structs_counted (structs st) (\<lambda>s. struct_buckets s st)"
    using st(2) by (auto simp: bucket_inv_def)
  have "map_option refs (svs st x) = (if expected_refs x st = 0 then None else Some (expected_refs x st))" for x
    using V by (cases "svs st x") (auto simp: svs_counted_def)
  moreover have "map_option refcount (structs st s) = (if struct_buckets s st = 0 then None else Some (struct_buckets s st))" for s
    using S by (cases "structs st s") (auto simp: structs_counted_def)
  ultimately show ?thesis using st(1) by (auto simp: expected_refs_def Let_def)
qed

lemma sv_bucket_refs_witness:
  "\<exists>st. bucket_run plain_buckets [PerlNew ''abcdef'' False, BNew (Some 0) 1 3, BSplit 0 1, PerlDec 0, BRead 1, BSetaside False 1, BDestroy 0] bucket_init = Inr st \<and>
    (\<forall>x. map_option refs (svs st x) =
       (let n = ext st x + mcount (\<lambda>sb. bsv sb = x) (structs st) + count_list (anon st) x in if n = 0 then None else Some n)) \<and>
    (\<forall>s. map_option refcount (structs st s) =
       (let n = mcount (\<lambda>bk. bdata bk = SvData s) (buckets st) in if n = 0 then None else Some n))"
  by (rule sv_bucket_refs [OF plain_buckets_laws]) (simp add: bucket_eval plain_buckets_def)

text \<open>
  A bucket that \<open>new\<close> made over a scalar in any state such a run leads to is a window on the scalar, not a copy: \<open>read\<close> gives the bytes from
  the offset on, up to the given length or to the end of the string as it was, as the string is when the bucket is read, and raises an
  exception when it has become too short for the window. After \<open>setaside\<close> the bucket keeps the bytes it had then.
\<close>

theorem sv_bucket_window:
  assumes "bucket_laws A" and "bucket_run_ok A ops bucket_init" and "bucket_run A ops bucket_init = Inr st"
    and "buckets st b = Some bk" and "bdata bk = SvData s" and "structs st s = Some sb" and "svs st (bsv sb) = Some sv"
  shows "mpxs_APR__Bucket_read A b st =
      Inr (if length (pv sv) < unat (bstart bk) + unat (blength bk) then Croaks
           else Returns (take (unat (blength bk)) (drop (unat (bstart bk)) (pv sv)))) \<and>
    (\<forall>void. \<exists>rc st'. mpxs_APR__Bucket_setaside A void b st = Inr (rc, st') \<and>
      (rc = Returns APR_SUCCESS \<longrightarrow> mpxs_APR__Bucket_read A b st' = Inr (Returns (take (unat (blength bk)) (drop (unat (bstart bk)) (pv sv))))))"
proof -
  have inv: "bucket_inv st" using run_inv [OF assms(1) bucket_inv_init assms(2)] assms(3) by auto
  note r = read_inv [OF inv assms(4,5), of A] and sa = setaside_inv [OF assms(1) inv assms(4,5)]
  from sa obtain rc st' where st': "modperl_bucket_sv_setaside A b s bk st = Inr (rc, st')"
    "rc = APR_SUCCESS \<Longrightarrow> buckets st' b = Some \<lparr>bdata = PoolData (take (unat (blength bk)) (drop (unat (bstart bk)) (pv sv))),
       bstart = 0, blength = blength bk\<rparr>" using assms(6,7) by fastforce
  show ?thesis
  proof (intro conjI allI)
    fix void
    have "mpxs_APR__Bucket_setaside A void b st = Inr (if void \<and> rc \<noteq> APR_SUCCESS then Croaks else Returns rc, st')"
      using st'(1) assms(4,5) by (simp add: mpxs_APR__Bucket_setaside_def bucket_at_def)
    moreover have "rc = APR_SUCCESS \<Longrightarrow>
      mpxs_APR__Bucket_read A b st' = Inr (Returns (take (unat (blength bk)) (drop (unat (bstart bk)) (pv sv))))"
      using st'(2) assms(1) by (simp add: mpxs_APR__Bucket_read_def bucket_at_def bucket_laws_def)
    ultimately show "\<exists>rc st'. mpxs_APR__Bucket_setaside A void b st = Inr (rc, st') \<and>
      (rc = Returns APR_SUCCESS \<longrightarrow> mpxs_APR__Bucket_read A b st' = Inr (Returns (take (unat (blength bk)) (drop (unat (bstart bk)) (pv sv)))))"
      by auto
  qed (use r assms(6,7) in auto)
qed

definition bucket_example :: bstate where
  "bucket_example = (case bucket_run plain_buckets [PerlNew ''abcdef'' False, BNew (Some 0) 1 3, PerlSet 0 ''uvwxyz''] bucket_init of
     Inr st \<Rightarrow> st | Inl _ \<Rightarrow> bucket_init)"

lemma sv_bucket_window_witness: "mpxs_APR__Bucket_read plain_buckets 0 bucket_example = Inr (Returns ''vwx'')"
  using sv_bucket_window [of plain_buckets "[PerlNew ''abcdef'' False, BNew (Some 0) 1 3, PerlSet 0 ''uvwxyz'']" bucket_example 0
      "\<lparr>bdata = SvData 0, bstart = 1, blength = 3\<rparr>" 0 "\<lparr>refcount = 1, bsv = 0\<rparr>" "\<lparr>pv = ''uvwxyz'', refs = 2, padtmp = False\<rparr>"]
    plain_buckets_laws
  by (simp add: bucket_example_def bucket_eval plain_buckets_def)

text \<open>
  The length that \<open>new\<close> computes and the check of \<open>read\<close> are both done in unsigned 64 bit arithmetic: for an offset behind the end
  of the string, or a negative one, and no length, the length wraps, the sum wraps back to the length of the string, the check
  passes and the read leaves the string.
\<close>

theorem sv_bucket_offset_overread:
  assumes "bucket_laws A" and "svs st x = Some sv" and "length (pv sv) < unat offset" and "length (pv sv) < 2 ^ 63" and "\<not> padtmp sv"
    and "mpxs_APR__Bucket_new A (Some x) offset 0 st = Inr (Returns (Some b), st')"
  shows "mpxs_APR__Bucket_read A b st' = Inl OutOfBounds"
proof -
  let ?n = "of_nat (length (pv sv)) :: 64 word"
  have un: "unat ?n = length (pv sv)" using assms(4) by (simp add: unat_of_nat)
  let ?len = "?n - offset"
  have ne: "?n \<noteq> offset" using assms(3) un by auto
  obtain m where m: "apr_bucket_shared_make A offset ?len = Some m"
    using assms(2,6) by (cases "apr_bucket_shared_make A offset ?len")
      (auto simp: mpxs_APR__Bucket_new_def sv_at_def modperl_bucket_sv_create_def modperl_bucket_sv_make_def Let_def)
  moreover have "m = (1, offset, ?len)" using m assms(1) unfolding bucket_laws_def by metis
  ultimately have "buckets st' b = Some \<lparr>bdata = SvData (struct_next st), bstart = offset, blength = ?len\<rparr>"
    "structs st' (struct_next st) = Some \<lparr>refcount = 1, bsv = x\<rparr>" "svs st' x = Some (sv\<lparr>refs := refs sv + 1\<rparr>)"
    using assms(2,5,6)
    by (auto simp: mpxs_APR__Bucket_new_def sv_at_def modperl_bucket_sv_create_def modperl_bucket_sv_make_def Let_def SvREFCNT_inc_def)
  moreover have "length (pv sv) < unat offset + unat ?len" using assms(3) by simp
  ultimately show ?thesis using ne
    by (simp add: mpxs_APR__Bucket_read_def modperl_bucket_sv_read_def bucket_at_def struct_at_def sv_at_def too_short_def bytes_at_def
        APR_SUCCESS_def)
qed

definition bucket_example1 :: bstate where
  "bucket_example1 = (case bucket_run plain_buckets [PerlNew ''abc'' False] bucket_init of Inr st \<Rightarrow> st | Inl _ \<Rightarrow> bucket_init)"

definition bucket_example2 :: bstate where
  "bucket_example2 = (case mpxs_APR__Bucket_new plain_buckets (Some 0) 5 0 bucket_example1 of Inr (_, st) \<Rightarrow> st | Inl _ \<Rightarrow> bucket_init)"

lemma sv_bucket_offset_overread_witness: "mpxs_APR__Bucket_read plain_buckets 0 bucket_example2 = Inl OutOfBounds"
  using sv_bucket_offset_overread [of plain_buckets bucket_example1 0 "\<lparr>pv = ''abc'', refs = 1, padtmp = False\<rparr>" 5 0 bucket_example2]
    plain_buckets_laws
  by (simp add: bucket_example2_def bucket_example1_def bucket_eval plain_buckets_def)

end
