(* ===== verification/Directive_Tree.thy ===== *)
theory Directive_Tree
  imports Apr_Table "HOL-Library.Sublist"
begin

text \<open>
  The configuration tree as Perl sees it: \<^verbatim>\<open>src/xs/Apache2/Directive/Apache2__Directive.h\<close>.

  httpd keeps the directives that were read as a tree: a directive, its arguments, the first child and the next sibling. \<open>as_hash\<close> turns
  it into nested Perl hashes and \<open>lookup\<close> searches one level of it.
\<close>

section \<open>Trees and Perl values\<close>

text \<open>A node with its siblings is a list of nodes; the node has the list of its children.\<close>

datatype dnode = Dir (directive: string) (dargs: string) (children: "dnode list")

datatype pval = Str string | Arr "pval list" | Hash "string \<Rightarrow> pval option"

definition container :: "dnode \<Rightarrow> bool" where
  "container d \<longleftrightarrow> children d \<noteq> []"

section \<open>Operations\<close>

definition mpxs_Apache2__Directive_as_string :: "dnode \<Rightarrow> string" where
  "mpxs_Apache2__Directive_as_string self =
     concat (map (\<lambda>d. directive d @ '' '' @ dargs d @ [CHR 0x0A]) (children self))"

text \<open>
  The reference in a hash entry is followed without a look at its type: for a string it is no pointer, and an array is then used as a hash.
\<close>

definition hash_insert :: "(string \<Rightarrow> pval option) \<Rightarrow> string \<Rightarrow> string \<Rightarrow> pval option \<Rightarrow> (string \<Rightarrow> pval option) res" where
  "hash_insert hash key args value = (case value of
       Some v \<Rightarrow> (case hash key of
           None \<Rightarrow> Inr (hash(key \<mapsto> Hash [args \<mapsto> v]))
         | Some (Hash subhash) \<Rightarrow> Inr (hash(key \<mapsto> Hash (subhash(args \<mapsto> v))))
         | Some _ \<Rightarrow> Inl WrongType)
     | None \<Rightarrow> Inr (case hash key of
           None \<Rightarrow> hash(key \<mapsto> Str args)
         | Some (Arr xs) \<Rightarrow> hash(key \<mapsto> Arr (xs @ [Str args]))
         | Some x \<Rightarrow> hash(key \<mapsto> Arr [x, Str args])))"

definition strip_lt :: "string \<Rightarrow> string" where
  "strip_lt d = (case d of c # cs \<Rightarrow> if c = CHR ''<'' then cs else d | [] \<Rightarrow> d)"

text \<open>The last character of the arguments is looked at even when there is none.\<close>

definition strip_gt :: "string \<Rightarrow> string res" where
  "strip_gt args = (if args = [] then Inl OutOfBounds
     else Inr (if last args = CHR ''>'' then butlast args else args))"

fun as_hash_loop :: "dnode list \<Rightarrow> (string \<Rightarrow> pval option) \<Rightarrow> (string \<Rightarrow> pval option) res" where
  "as_hash_loop [] hash = Inr hash"
| "as_hash_loop (Dir d args cs # tree) hash =
     (if cs \<noteq> [] then
        and_then (strip_gt args) (\<lambda>args1.
        and_then (as_hash_loop cs Map.empty) (\<lambda>subtree.
        and_then (hash_insert hash (strip_lt d) args1 (Some (Hash subtree))) (\<lambda>hash1. as_hash_loop tree hash1)))
      else and_then (hash_insert hash d args None) (\<lambda>hash1. as_hash_loop tree hash1))"

definition mpxs_Apache2__Directive_as_hash :: "dnode list \<Rightarrow> (string \<Rightarrow> pval option) res" where
  "mpxs_Apache2__Directive_as_hash tree = as_hash_loop tree Map.empty"

text \<open>\<open>strncasecmp\<close>: at most \<open>n\<close> characters are compared; a string that ends before differs.\<close>

definition strncase_eq :: "string \<Rightarrow> string \<Rightarrow> nat \<Rightarrow> bool" where
  "strncase_eq a b n \<longleftrightarrow> strcase_eq (take n a) (take n b)"

definition lookup_matches :: "string \<Rightarrow> string option \<Rightarrow> dnode \<Rightarrow> bool res" where
  "lookup_matches key value d =
     (let name = strip_lt (directive d) in
      if strncase_eq name key (length name)
      then (case value of
          None \<Rightarrow> Inr True
        | Some v \<Rightarrow> and_then (strip_gt (dargs d)) (\<lambda>args. Inr (strncase_eq (dargs d) v (length args))))
      else Inr False)"

definition lookup_value :: "dnode \<Rightarrow> pval res" where
  "lookup_value d = (if container d then and_then (mpxs_Apache2__Directive_as_hash (children d)) (\<lambda>h. Inr (Hash h))
     else Inr (Str (dargs d)))"

fun MPXS_Apache2__Directive_lookup :: "dnode list \<Rightarrow> string \<Rightarrow> string option \<Rightarrow> bool \<Rightarrow> pval list res" where
  "MPXS_Apache2__Directive_lookup [] key value scalar_context = Inr []"
| "MPXS_Apache2__Directive_lookup (d # tree) key value scalar_context =
     and_then (lookup_matches key value d) (\<lambda>match.
       if match then and_then (lookup_value d) (\<lambda>x.
         if scalar_context then Inr [x]
         else and_then (MPXS_Apache2__Directive_lookup tree key value scalar_context) (\<lambda>xs. Inr (x # xs)))
       else MPXS_Apache2__Directive_lookup tree key value scalar_context)"

section \<open>What the hash of a tree is\<close>

text \<open>
  The reference: an entry for a plain directive is its arguments, or the list of them in the order of the file when it is repeated; an
  entry for a container is a hash with the last section of each argument.
\<close>

definition key_of :: "dnode \<Rightarrow> string" where
  "key_of d = (if container d then strip_lt (directive d) else directive d)"

definition arg_of :: "dnode \<Rightarrow> string" where
  "arg_of d = (if container d \<and> dargs d \<noteq> [] \<and> last (dargs d) = CHR ''>'' then butlast (dargs d) else dargs d)"

definition named :: "string \<Rightarrow> (dnode \<Rightarrow> bool) \<Rightarrow> dnode list \<Rightarrow> dnode list" where
  "named k P ds = filter (\<lambda>d. key_of d = k \<and> P d) ds"

definition one_or_all :: "string list \<Rightarrow> pval" where
  "one_or_all xs = (case xs of [a] \<Rightarrow> Str a | _ \<Rightarrow> Arr (map Str xs))"

fun tree_sections :: "dnode list \<Rightarrow> (string \<times> string \<times> pval) list"
  and tree_hash :: "dnode list \<Rightarrow> string \<Rightarrow> pval option" where
  "tree_sections [] = []"
| "tree_sections (Dir d a cs # ds) =
     (if cs \<noteq> [] then [(key_of (Dir d a cs), arg_of (Dir d a cs), Hash (tree_hash cs))] else []) @ tree_sections ds"
| "tree_hash ds = (\<lambda>k.
     let plain = map dargs (named k (\<lambda>d. \<not> container d) ds);
         sections = filter (\<lambda>s. fst s = k) (tree_sections ds)
     in if plain \<noteq> [] then Some (one_or_all plain)
        else if sections \<noteq> [] then Some (Hash (map_of (rev (map snd sections)))) else None)"

text \<open>
  Trees as httpd builds them for which no name is used both for a container and for a plain directive on one level. The arguments of a
  container end with the \<open>>\<close> of its line, so they are not empty.
\<close>

fun conf_ok :: "dnode list \<Rightarrow> bool" where
  "conf_ok [] \<longleftrightarrow> True"
| "conf_ok (Dir d a cs # ds) \<longleftrightarrow> (cs \<noteq> [] \<longrightarrow> a \<noteq> [] \<and> conf_ok cs) \<and>
     (\<forall>e\<in>set ds. container e \<noteq> (cs \<noteq> []) \<longrightarrow> key_of e \<noteq> key_of (Dir d a cs)) \<and> conf_ok ds"

lemma tree_sections_append [simp]: "tree_sections (as @ bs) = tree_sections as @ tree_sections bs"
proof (induction as)
  case (Cons d as)
  then show ?case by (cases d) simp
qed simp

declare tree_hash.simps [simp del]

lemma named_append [simp]: "named k P (as @ bs) = named k P as @ named k P bs"
  by (simp add: named_def)

lemma named_simps [simp]: "named k P [] = []" "named k P (d # ds) = (if key_of d = k \<and> P d then d # named k P ds else named k P ds)"
  by (simp_all add: named_def)

lemma tree_hash_Nil: "tree_hash [] = Map.empty"
  by (rule ext) (simp add: tree_hash.simps named_def)

lemma strip_gt_arg: "container d \<Longrightarrow> dargs d \<noteq> [] \<Longrightarrow> strip_gt (dargs d) = Inr (arg_of d)"
  by (auto simp: strip_gt_def arg_of_def)

lemma sections_key: "s \<in> set (tree_sections ds) \<Longrightarrow> \<exists>e\<in>set ds. container e \<and> fst s = key_of e"
proof (induction ds)
  case (Cons d ds)
  then show ?case by (cases d) (auto simp: container_def split: if_splits)
qed simp

lemma map_of_rev_snoc: "map_of (rev (xs @ [(a, v)])) = (map_of (rev xs))(a \<mapsto> v)"
  by simp

lemma insert_section:
  assumes "cs \<noteq> []" and "\<forall>e\<in>set pre. \<not> container e \<longrightarrow> key_of e \<noteq> key_of (Dir d a cs)"
  shows "hash_insert (tree_hash pre) (key_of (Dir d a cs)) (arg_of (Dir d a cs)) (Some (Hash (tree_hash cs))) = Inr (tree_hash (pre @ [Dir d a cs]))"
proof -
  let ?d = "Dir d a cs"
  let ?k = "key_of ?d"
  have np: "named ?k (\<lambda>d. \<not> container d) pre = []" using assms(2) by (auto simp: named_def filter_empty_conv)
  have c: "container ?d" using assms(1) by (simp add: container_def)
  have secs: "tree_sections [?d] = [(?k, arg_of ?d, Hash (tree_hash cs))]" using assms(1) by simp
  let ?s = "filter (\<lambda>s. fst s = ?k) (tree_sections pre)"
  have at: "tree_hash pre ?k = (if ?s \<noteq> [] then Some (Hash (map_of (rev (map snd ?s)))) else None)"
    using np by (simp add: tree_hash.simps)
  have new: "tree_hash (pre @ [?d]) = (tree_hash pre)(?k \<mapsto> Hash ((map_of (rev (map snd ?s)))(arg_of ?d \<mapsto> Hash (tree_hash cs))))"
  proof
    fix k show "tree_hash (pre @ [?d]) k = ((tree_hash pre)(?k \<mapsto> Hash ((map_of (rev (map snd ?s)))(arg_of ?d \<mapsto> Hash (tree_hash cs))))) k"
    proof (cases "k = ?k")
      case True
      then show ?thesis using np c secs by (simp add: tree_hash.simps [of "pre @ [?d]"] del: tree_sections.simps)
    next
      case False
      then show ?thesis using c secs by (simp add: tree_hash.simps [of "pre @ [?d]"] tree_hash.simps [of pre] del: tree_sections.simps)
    qed
  qed
  show ?thesis unfolding hash_insert_def at new by (cases "?s = []") simp_all
qed

lemma insert_plain:
  assumes "\<forall>e\<in>set pre. container e \<longrightarrow> key_of e \<noteq> d"
  shows "hash_insert (tree_hash pre) d a None = Inr (tree_hash (pre @ [Dir d a []]))"
proof -
  have ns: "filter (\<lambda>s. fst s = d) (tree_sections pre) = []" using assms sections_key by (fastforce simp: filter_empty_conv)
  let ?p = "map dargs (named d (\<lambda>d. \<not> container d) pre)"
  have at: "tree_hash pre d = (if ?p \<noteq> [] then Some (one_or_all ?p) else None)" using ns by (simp add: tree_hash.simps)
  have new: "tree_hash (pre @ [Dir d a []]) = (tree_hash pre)(d \<mapsto> one_or_all (?p @ [a]))"
  proof
    fix k show "tree_hash (pre @ [Dir d a []]) k = ((tree_hash pre)(d \<mapsto> one_or_all (?p @ [a]))) k"
      by (cases "k = d") (simp_all add: tree_hash.simps [of "pre @ [Dir d a []]"] tree_hash.simps [of pre] container_def key_of_def Let_def)
  qed
  show ?thesis unfolding hash_insert_def at new
    by (cases ?p; cases "tl ?p") (simp_all add: one_or_all_def)
qed

lemma as_hash_loop_tree:
  "conf_ok ds \<Longrightarrow> \<forall>p\<in>set pre. \<forall>e\<in>set ds. container p \<noteq> container e \<longrightarrow> key_of p \<noteq> key_of e \<Longrightarrow>
    as_hash_loop ds (tree_hash pre) = Inr (tree_hash (pre @ ds))"
proof (induction ds arbitrary: pre rule: conf_ok.induct)
  case (2 d a cs ds)
  let ?d = "Dir d a cs"
  have tl: "as_hash_loop ds (tree_hash (pre @ [?d])) = Inr (tree_hash ((pre @ [?d]) @ ds))"
    using "2.prems" by (intro "2.IH"(2)) (auto simp: container_def)
  show ?case
  proof (cases "cs = []")
    case True
    then have "hash_insert (tree_hash pre) d a None = Inr (tree_hash (pre @ [?d]))"
      using "2.prems"(2) insert_plain [of pre d a] by (auto simp: container_def key_of_def)
    with True tl show ?thesis by simp
  next
    case False
    then have "a \<noteq> []" "conf_ok cs" using "2.prems"(1) by auto
    then have "strip_gt a = Inr (arg_of ?d)" "as_hash_loop cs Map.empty = Inr (tree_hash cs)"
      using strip_gt_arg [of ?d] False "2.IH"(1) [OF False, of "[]"] by (auto simp: container_def tree_hash_Nil)
    moreover have "strip_lt d = key_of ?d" using False by (simp add: key_of_def container_def)
    moreover have "hash_insert (tree_hash pre) (key_of ?d) (arg_of ?d) (Some (Hash (tree_hash cs))) = Inr (tree_hash (pre @ [?d]))"
      using "2.prems"(2) False by (intro insert_section) (auto simp: container_def)
    ultimately show ?thesis using False tl by simp
  qed
qed simp

section \<open>Properties\<close>

text \<open>
  C15. For a tree in which no name is used for a container and for a plain directive side by side, \<open>as_hash\<close> returns the hash the
  manual describes, on every level: the arguments of a directive, the list of them in the order of the configuration when it is repeated, and
  for a container a hash from the arguments of the sections to the hashes of their contents, the last section of an argument standing.
\<close>

theorem directive_as_hash:
  assumes "conf_ok tree"
  shows "mpxs_Apache2__Directive_as_hash tree = Inr (tree_hash tree)"
  unfolding mpxs_Apache2__Directive_as_hash_def using as_hash_loop_tree [OF assms, of "[]"] by (simp add: tree_hash_Nil)

lemma directive_as_hash_witness:
  "mpxs_Apache2__Directive_as_hash [Dir ''Listen'' ''80'' [], Dir ''<Location'' ''/a>'' [Dir ''SetHandler'' ''x'' []], Dir ''Listen'' ''81'' []] =
     Inr (tree_hash [Dir ''Listen'' ''80'' [], Dir ''<Location'' ''/a>'' [Dir ''SetHandler'' ''x'' []], Dir ''Listen'' ''81'' []])"
  by (rule directive_as_hash) (simp add: container_def key_of_def strip_lt_def)

definition close_stripped :: "string \<Rightarrow> string" where
  "close_stripped a = (if last a = CHR ''>'' then butlast a else a)"

definition ci_prefix :: "string \<Rightarrow> string \<Rightarrow> bool" where
  "ci_prefix a b \<longleftrightarrow> prefix (map ascii_lower a) (map ascii_lower b)"

lemma prefix_take_iff: "prefix xs ys \<longleftrightarrow> take (length xs) ys = xs"
  by (metis append_eq_conv_conj prefix_def take_is_prefix)

lemma strncase_prefix: "take n a = a' \<Longrightarrow> length a' = n \<Longrightarrow> strncase_eq a b n \<longleftrightarrow> ci_prefix a' b"
  by (auto simp: strncase_eq_def strcase_eq_def ci_prefix_def prefix_take_iff take_map [symmetric])

definition dir_value :: "dnode \<Rightarrow> pval" where
  "dir_value d = (if container d then Hash (tree_hash (children d)) else Str (dargs d))"

lemma take_close_stripped: "take (length (close_stripped a)) a = close_stripped a"
  by (cases a rule: rev_cases) (auto simp: close_stripped_def)

lemma lookup_matches_prefix:
  assumes "dargs d \<noteq> []"
  shows "lookup_matches key value d = Inr (ci_prefix (strip_lt (directive d)) key \<and>
     (case value of None \<Rightarrow> True | Some v \<Rightarrow> ci_prefix (close_stripped (dargs d)) v))"
proof -
  have "strip_gt (dargs d) = Inr (close_stripped (dargs d))" using assms by (simp add: strip_gt_def close_stripped_def)
  then show ?thesis
    by (auto simp: lookup_matches_def Let_def strncase_prefix [OF take_close_stripped] strncase_prefix split: option.split)
qed

lemma lookup_value_dir: "conf_ok (children d) \<Longrightarrow> lookup_value d = Inr (dir_value d)"
  using as_hash_loop_tree [of "children d" "[]"]
  by (simp add: lookup_value_def dir_value_def mpxs_Apache2__Directive_as_hash_def tree_hash_Nil)

text \<open>
  \<open>lookup\<close> looks at the nodes of one level in order and gives, in list context, the value of each one it takes and else the
  value of the first: the arguments of a plain directive, the hash of the contents of a container. It takes a node when the name of the
  node is, without regard to case, a prefix of the key and the arguments are a prefix of the given ones, so that the key
  \<open>ErrorLogFormat\<close> finds the directive \<open>ErrorLog\<close> too, and the section of \<open>/\<close> is found for every location.
\<close>

theorem directive_lookup:
  assumes "\<forall>d\<in>set tree. dargs d \<noteq> [] \<and> conf_ok (children d)"
  shows "MPXS_Apache2__Directive_lookup tree key value scalar_context = Inr ((if scalar_context then take 1 else id) (map dir_value (filter (\<lambda>d.
       ci_prefix (strip_lt (directive d)) key \<and> (case value of None \<Rightarrow> True | Some v \<Rightarrow> ci_prefix (close_stripped (dargs d)) v)) tree)))"
  using assms
proof (induction tree)
  case (Cons d tree)
  then show ?case by (cases scalar_context) (auto simp: lookup_matches_prefix lookup_value_dir)
qed simp

lemma directive_lookup_witness:
  "MPXS_Apache2__Directive_lookup [Dir ''ErrorLog'' ''log'' [], Dir ''<Location'' ''/>'' [Dir ''A'' ''b'' []]] ''ErrorLogFormat'' None False = Inr [Str ''log'']"
  using directive_lookup [of "[Dir ''ErrorLog'' ''log'' [], Dir ''<Location'' ''/>'' [Dir ''A'' ''b'' []]]" "''ErrorLogFormat''" None False]
  by (simp add: ci_prefix_def strip_lt_def ascii_lower_def dir_value_def container_def)

text \<open>
  The reference in a hash entry is used without a look at what it refers to: a section next to an earlier plain directive of
  the same name makes \<open>as_hash\<close> use a string or an array as a hash, whatever else the configuration holds.
\<close>

theorem directive_as_hash_mixed:
  assumes "conf_ok pre" and "e \<in> set pre" and "\<not> container e" and "cs \<noteq> []" and "conf_ok cs" and "a \<noteq> []" and "directive e = strip_lt d"
  shows "mpxs_Apache2__Directive_as_hash (pre @ Dir d a cs # rest) = Inl WrongType"
proof -
  have split: "as_hash_loop (ds @ ds') h = and_then (as_hash_loop ds h) (as_hash_loop ds')" for ds ds' h
    by (induction ds h rule: as_hash_loop.induct) (auto simp: and_then_def split: sum.split)
  have 1: "as_hash_loop pre Map.empty = Inr (tree_hash pre)" "as_hash_loop cs Map.empty = Inr (tree_hash cs)"
    using as_hash_loop_tree [of pre "[]"] as_hash_loop_tree [of cs "[]"] assms(1,5) by (simp_all add: tree_hash_Nil)
  have "e \<in> set (named (strip_lt d) (\<lambda>d. \<not> container d) pre)" using assms(2,3,7) by (simp add: named_def key_of_def)
  then obtain x xs where "named (strip_lt d) (\<lambda>d. \<not> container d) pre = x # xs" by (cases "named (strip_lt d) (\<lambda>d. \<not> container d) pre") auto
  then have "\<exists>v. tree_hash pre (strip_lt d) = Some v \<and> (\<forall>h. v \<noteq> Hash h)"
    by (cases xs) (auto simp: tree_hash.simps one_or_all_def)
  then have "hash_insert (tree_hash pre) (strip_lt d) b (Some v) = Inl WrongType" for b v
    by (auto simp: hash_insert_def split: pval.split)
  then show ?thesis using 1 assms(4,6)
    by (simp add: mpxs_Apache2__Directive_as_hash_def split strip_gt_def)
qed

lemma directive_as_hash_mixed_witness:
  "mpxs_Apache2__Directive_as_hash ([Dir ''Perl'' ''x'' []] @ Dir ''<Perl'' ''>'' [Dir ''A'' ''b'' []] # []) = Inl WrongType"
  by (rule directive_as_hash_mixed [where e = "Dir ''Perl'' ''x'' []"]) (simp_all add: container_def strip_lt_def)

end
