(* ===== verification/Table_Tie.thy ===== *)
theory Table_Tie
  imports Apr_Table
begin

text \<open>
  The Perl interface of APR tables: \<^verbatim>\<open>src/xs/APR/Table/APR__Table.h\<close> and the tied hashes of
  \<^verbatim>\<open>src/src/modules/perl/modperl_common_util.c\<close>.

  A table is a tied hash for Perl code. The object behind it has the pointer to the table in its integer slot and uses its string length, which it
  has no other use for, as the position of an iteration. A table can have many entries of one key, so \<open>FETCH\<close> answers from the entry the
  iteration is at when that has the key that is asked for.
\<close>

section \<open>Objects\<close>

record 't tied_table =
  ttable :: 't
  iterix :: nat

text \<open>
  What the methods can get as their first argument: no object of the class, an object that is not a hash, or a hash: tied, with magic of
  another kind, or without any.
\<close>

datatype tsv = NotDerived | Direct | TiedHash | OtherMagicHash | PlainHash

text \<open>The result says whether there is an object; a hash with magic but without the tie is reported with the type of a magic that was not found.\<close>

definition modperl_hash_tied_object_rv :: "tsv \<Rightarrow> bool res" where
  "modperl_hash_tied_object_rv sv = (case sv of
       NotDerived \<Rightarrow> Inl (Croak ''argument is not a blessed reference'')
     | Direct \<Rightarrow> Inr True
     | TiedHash \<Rightarrow> Inr True
     | OtherMagicHash \<Rightarrow> Inl NullDeref
     | PlainHash \<Rightarrow> Inr False)"

definition modperl_hash_tied_object :: "tsv \<Rightarrow> 't tied_table \<Rightarrow> 't option res" where
  "modperl_hash_tied_object sv ob = and_then (modperl_hash_tied_object_rv sv) (\<lambda>ok. Inr (if ok then Some (ttable ob) else None))"

definition modperl_hash_tie :: "'t \<Rightarrow> 't tied_table" where
  "modperl_hash_tie t = \<lparr>ttable = t, iterix = 0\<rparr>"

definition mpxs_APR__Table_make :: "'t apr_table_ops \<Rightarrow> 't tied_table" where
  "mpxs_APR__Table_make T = modperl_hash_tie (apr_table_make T)"

definition mpxs_APR__Table_copy :: "'t apr_table_ops \<Rightarrow> 't \<Rightarrow> 't tied_table" where
  "mpxs_APR__Table_copy T base = modperl_hash_tie (apr_table_copy T base)"

definition mpxs_APR__Table_overlay :: "'t apr_table_ops \<Rightarrow> 't \<Rightarrow> 't \<Rightarrow> 't tied_table" where
  "mpxs_APR__Table_overlay T base overlay = modperl_hash_tie (apr_table_overlay T overlay base)"

section \<open>The tied hash\<close>

definition mpxs_APR__Table_EXISTS :: "'t apr_table_ops \<Rightarrow> 't \<Rightarrow> string \<Rightarrow> bool" where
  "mpxs_APR__Table_EXISTS T t key = (case apr_table_get T t key of None \<Rightarrow> False | Some _ \<Rightarrow> True)"

text \<open>\<open>FIRSTKEY\<close> is \<open>NEXTKEY\<close> without a key.\<close>

definition mpxs_APR__Table_NEXTKEY :: "'t apr_table_ops \<Rightarrow> tsv \<Rightarrow> bool \<Rightarrow> 't tied_table \<Rightarrow> (string option \<times> 't tied_table) res" where
  "mpxs_APR__Table_NEXTKEY T sv first ob =
     and_then (modperl_hash_tied_object_rv sv) (\<lambda>ok.
       if \<not> ok then Inl (Croak ''first argument not an APR::Table object'')
       else if apr_is_empty_table T (ttable ob) then Inr (None, ob)
       else let ob1 = (if first then ob\<lparr>iterix := 0\<rparr> else ob) in
         if iterix ob1 < length (apr_table_elts T (ttable ob1))
         then Inr (Some (fst (apr_table_elts T (ttable ob1) ! iterix ob1)), ob1\<lparr>iterix := iterix ob1 + 1\<rparr>)
         else Inr (None, ob1\<lparr>iterix := 0\<rparr>))"

definition mpxs_APR__Table_FETCH :: "'t apr_table_ops \<Rightarrow> tsv \<Rightarrow> string \<Rightarrow> 't tied_table \<Rightarrow> string option res" where
  "mpxs_APR__Table_FETCH T sv key ob =
     and_then (modperl_hash_tied_object_rv sv) (\<lambda>ok.
       if \<not> ok then Inl WrongType
       else let i = iterix ob; elts = apr_table_elts T (ttable ob) in
         Inr (if i > 0 \<and> i \<le> length elts \<and> strcase_eq key (fst (elts ! (i - 1))) then Some (snd (elts ! (i - 1)))
              else apr_table_get T (ttable ob) key))"

text \<open>Perl asks for the magic of a new element of the hash; during an iteration its value is fetched at once.\<close>

definition modperl_table_magic_copy :: "'t apr_table_ops \<Rightarrow> tsv \<Rightarrow> string \<Rightarrow> 't tied_table \<Rightarrow> string option option res" where
  "modperl_table_magic_copy T sv key ob =
     (if iterix ob \<noteq> 0 then and_then (mpxs_APR__Table_FETCH T sv key ob) (\<lambda>v. Inr (Some v)) else Inr None)"

text \<open>All values in list context, the first one in scalar context.\<close>

fun get_loop :: "string \<Rightarrow> (string \<times> string) list \<Rightarrow> string list" where
  "get_loop key [] = []"
| "get_loop key (e # elts) = (if strcase_eq (fst e) key then snd e # get_loop key elts else get_loop key elts)"

definition MPXS_apr_table_get :: "'t apr_table_ops \<Rightarrow> tsv \<Rightarrow> bool \<Rightarrow> string \<Rightarrow> 't tied_table \<Rightarrow> string list res" where
  "MPXS_apr_table_get T sv scalar_context key ob =
     and_then (modperl_hash_tied_object sv ob) (\<lambda>t. case t of
         None \<Rightarrow> Inr []
       | Some t \<Rightarrow> Inr (if scalar_context then (case apr_table_get T t key of Some v \<Rightarrow> [v] | None \<Rightarrow> [])
                       else get_loop key (apr_table_elts T t)))"

section \<open>Traversal with a callback\<close>

text \<open>
  The callback gets a state of its own and returns a value or none. The filter is a hash with the keys that are wanted. \<open>apr_table_do\<close> is the
  traversal of the library: it calls the function for one entry after another until it returns 0.
\<close>

definition mpxs_apr_table_do_cb ::
    "string list option \<Rightarrow> ('s \<Rightarrow> string \<Rightarrow> string \<Rightarrow> int option \<times> 's) \<Rightarrow> string \<times> string \<Rightarrow> 's \<Rightarrow> int \<times> 's" where
  "mpxs_apr_table_do_cb wanted cv e s =
     (if (case wanted of Some ks \<Rightarrow> fst e \<notin> set ks | None \<Rightarrow> False) then (1, s)
      else let (r, s1) = cv s (fst e) (snd e) in (case r of Some rv \<Rightarrow> rv | None \<Rightarrow> 1, s1))"

definition mpxs_apr_table_do ::
    "((string \<times> string \<Rightarrow> 's \<Rightarrow> int \<times> 's) \<Rightarrow> 't \<Rightarrow> 's \<Rightarrow> 's) \<Rightarrow> 't \<Rightarrow> ('s \<Rightarrow> string \<Rightarrow> string \<Rightarrow> int option \<times> 's) \<Rightarrow> string list \<Rightarrow> 's \<Rightarrow> 's" where
  "mpxs_apr_table_do apr_table_do t sub args s =
     apr_table_do (mpxs_apr_table_do_cb (if args = [] then None else Some args) sub) t s"

fun do_entries :: "('e \<Rightarrow> 's \<Rightarrow> int \<times> 's) \<Rightarrow> 'e list \<Rightarrow> 's \<Rightarrow> 's" where
  "do_entries f [] s = s"
| "do_entries f (e # es) s = (let (r, s1) = f e s in if r = 0 then s1 else do_entries f es s1)"

section \<open>Loops of Perl code\<close>

text \<open>
  \<open>while (my ($k, $v) = each %$table)\<close>, which \<open>values\<close> does too: every step asks for the next key and fetches its value at once. The
  number bounds the steps; \<open>None\<close> says that they were not enough.
\<close>

fun each_loop :: "'t apr_table_ops \<Rightarrow> nat \<Rightarrow> bool \<Rightarrow> 't tied_table \<Rightarrow> ((string \<times> string option option) list \<times> 't tied_table) option res" where
  "each_loop T 0 first ob = Inr None"
| "each_loop T (Suc n) first ob =
     and_then (mpxs_APR__Table_NEXTKEY T TiedHash first ob) (\<lambda>(k, ob1). case k of
         None \<Rightarrow> Inr (Some ([], ob1))
       | Some key \<Rightarrow> and_then (modperl_table_magic_copy T TiedHash key ob1) (\<lambda>v.
           and_then (each_loop T n False ob1) (\<lambda>r. Inr (map_option (\<lambda>(es, ob2). ((key, v) # es, ob2)) r))))"

lemma each_loop_from:
  "elts = apr_table_elts T (ttable ob) \<Longrightarrow> elts \<noteq> [] \<Longrightarrow> iterix ob \<le> length elts \<Longrightarrow> length elts - iterix ob < n \<Longrightarrow>
    each_loop T n False ob = Inr (Some (map (\<lambda>(k, v). (k, Some (Some v))) (drop (iterix ob) elts), ob\<lparr>iterix := 0\<rparr>))"
proof (induction n arbitrary: ob)
  case (Suc n)
  show ?case
  proof (cases "iterix ob < length elts")
    case True
    let ?e = "elts ! iterix ob"
    have "each_loop T n False (ob\<lparr>iterix := iterix ob + 1\<rparr>) =
        Inr (Some (map (\<lambda>(k, v). (k, Some (Some v))) (drop (iterix ob + 1) elts), ob\<lparr>iterix := 0\<rparr>))"
      using Suc.IH [of "ob\<lparr>iterix := iterix ob + 1\<rparr>"] Suc.prems True by simp
    moreover have "drop (iterix ob) elts = ?e # drop (iterix ob + 1) elts" using True by (simp add: Cons_nth_drop_Suc)
    ultimately show ?thesis using True Suc.prems
      by (simp add: mpxs_APR__Table_NEXTKEY_def mpxs_APR__Table_FETCH_def modperl_table_magic_copy_def modperl_hash_tied_object_rv_def
          apr_is_empty_table_def case_prod_beta)
  next
    case False
    then show ?thesis using Suc.prems
      by (simp add: mpxs_APR__Table_NEXTKEY_def modperl_hash_tied_object_rv_def apr_is_empty_table_def)
  qed
qed simp

lemma get_loop_vals: "get_loop key es = key_vals key es"
  by (induction es) (auto simp: key_vals_Cons strcase_eq_commute)

section \<open>Properties\<close>

text \<open>
  C17. A loop with \<open>each\<close> over a table, started whatever an earlier loop left behind, ends after one step for each entry and gives
  every entry with its own value, in the order of the table and also when keys are repeated; \<open>FETCH\<close> then answers
  like the table again.
\<close>

theorem table_each_all:
  "\<exists>ob1. each_loop T (Suc (length (apr_table_elts T (ttable ob)))) True ob =
      Inr (Some (map (\<lambda>(k, v). (k, Some (Some v))) (apr_table_elts T (ttable ob)), ob1)) \<and>
    ttable ob1 = ttable ob \<and> mpxs_APR__Table_FETCH T TiedHash key ob1 = Inr (apr_table_get T (ttable ob) key)"
proof (cases "apr_table_elts T (ttable ob)")
  case Nil
  then show ?thesis
    by (auto simp: mpxs_APR__Table_NEXTKEY_def modperl_hash_tied_object_rv_def apr_is_empty_table_def mpxs_APR__Table_FETCH_def Let_def)
next
  case (Cons e es)
  let ?elts = "apr_table_elts T (ttable ob)"
  have "each_loop T (Suc (length ?elts)) True ob = each_loop T (Suc (length ?elts)) False (ob\<lparr>iterix := 0\<rparr>)"
    using Cons by (simp add: mpxs_APR__Table_NEXTKEY_def modperl_hash_tied_object_rv_def apr_is_empty_table_def)
  also have "\<dots> = Inr (Some (map (\<lambda>(k, v). (k, Some (Some v))) ?elts, ob\<lparr>iterix := 0\<rparr>))"
    using each_loop_from [of ?elts T "ob\<lparr>iterix := 0\<rparr>" "Suc (length ?elts)"] Cons by simp
  finally show ?thesis by (auto simp: mpxs_APR__Table_FETCH_def modperl_hash_tied_object_rv_def Let_def)
qed

text \<open>
  \<open>do\<close> calls the function for the entries whose key is literally one of the given ones, or for all without any, in order, up to
  the first call that returns 0; a call that returns nothing goes on. The keys of a table are compared without regard to case everywhere else.
\<close>

theorem table_do_visits:
  assumes "\<forall>f s. D f t s = do_entries f (apr_table_elts T t) s"
  shows "mpxs_apr_table_do D t sub keys s =
    do_entries (\<lambda>e s. let (r, s1) = sub s (fst e) (snd e) in (case r of Some rv \<Rightarrow> rv | None \<Rightarrow> 1, s1))
      (filter (\<lambda>e. keys = [] \<or> fst e \<in> set keys) (apr_table_elts T t)) s"
proof -
  have "do_entries (mpxs_apr_table_do_cb (if keys = [] then None else Some keys) sub) es s =
    do_entries (\<lambda>e s. let (r, s1) = sub s (fst e) (snd e) in (case r of Some rv \<Rightarrow> rv | None \<Rightarrow> 1, s1))
      (filter (\<lambda>e. keys = [] \<or> fst e \<in> set keys) es) s" for es
    by (induction es arbitrary: s) (auto simp: mpxs_apr_table_do_cb_def split: prod.split)
  then show ?thesis using assms by (simp add: mpxs_apr_table_do_def)
qed

lemma table_do_visits_witness:
  "mpxs_apr_table_do (\<lambda>f t s. do_entries f t s) [(''A'', ''1''), (''b'', ''2''), (''a'', ''3'')] (\<lambda>s k v. (Some 1, s @ [v])) [''a''] [] = [''3'']"
  using table_do_visits [of "\<lambda>f t s. do_entries f t s" "[(''A'', ''1''), (''b'', ''2''), (''a'', ''3'')]" list_tables "\<lambda>s k v. (Some 1, s @ [v])" "[''a'']" "[]"]
  by (simp add: list_tables_def)

end
