(* ===== verification/Request_Util.thy ===== *)
theory Request_Util
  imports Apr_Table Handler
begin

text \<open>
  Methods of requests and servers: \<^verbatim>\<open>src/xs/Apache2/RequestUtil/Apache2__RequestUtil.h\<close>, with the ones of
  \<^verbatim>\<open>src/xs/Apache2/ServerUtil/Apache2__ServerUtil.h\<close> that work on handlers in the same way.
\<close>

section \<open>Handlers\<close>

definition mpxs_Apache2__RequestRec_push_handlers where
  "mpxs_Apache2__RequestRec_push_handlers ops hlookup dir_defaults r scfg name sv st =
     modperl_handler_perl_add_handlers ops hlookup dir_defaults (Some r) scfg name sv ACTION_PUSH st"

definition mpxs_Apache2__RequestRec_set_handlers where
  "mpxs_Apache2__RequestRec_set_handlers ops hlookup dir_defaults r scfg name sv st =
     modperl_handler_perl_add_handlers ops hlookup dir_defaults (Some r) scfg name sv ACTION_SET st"

definition mpxs_Apache2__RequestRec_get_handlers where
  "mpxs_Apache2__RequestRec_get_handlers ops hlookup dir_defaults r scfg name st =
     and_then (modperl_handler_get_handlers hlookup dir_defaults (Some r) scfg name ACTION_GET st)
       (\<lambda>(handp, st1). modperl_handler_perl_get_handlers ops handp st1)"

definition mpxs_Apache2__ServerRec_push_handlers where
  "mpxs_Apache2__ServerRec_push_handlers ops hlookup dir_defaults scfg name sv st =
     modperl_handler_perl_add_handlers ops hlookup dir_defaults None scfg name sv ACTION_PUSH st"

definition mpxs_Apache2__ServerRec_set_handlers where
  "mpxs_Apache2__ServerRec_set_handlers ops hlookup dir_defaults scfg name sv st =
     modperl_handler_perl_add_handlers ops hlookup dir_defaults None scfg name sv ACTION_SET st"

definition mpxs_Apache2__ServerRec_get_handlers where
  "mpxs_Apache2__ServerRec_get_handlers ops hlookup dir_defaults scfg name st =
     and_then (modperl_handler_get_handlers hlookup dir_defaults None scfg name ACTION_GET st)
       (\<lambda>(handp, st1). modperl_handler_perl_get_handlers ops handp st1)"

section \<open>Credentials, caching and locations\<close>

text \<open>
  The fields of a request that the methods use; the tables are those of APR. \<open>base64\<close> is \<open>apr_base64_encode\<close>: the text it writes, which it ends with a null
  byte, and the count it returns.
\<close>

record 't request =
  the_request :: string
  protocol :: string
  status_line :: string
  no_cache :: int
  headers_in :: 't
  headers_out :: 't
  err_headers_out :: 't
  per_dir_config :: nat

definition base64_laws :: "(string \<Rightarrow> string \<times> nat) \<Rightarrow> bool" where
  "base64_laws base64 \<longleftrightarrow> (\<forall>s text n. base64 s = (text, n) \<longrightarrow>
     length text = 4 * ((length s + 2) div 3) \<and> (n = length text \<or> n = length text + 1))"

text \<open>Whatever is written at or behind the end of the 1024 bytes of \<open>encoded\<close> is outside of it.\<close>

definition encoded_size :: nat where
  "encoded_size = 1024"

definition mpxs_Apache2__RequestRec_set_basic_credentials ::
    "'t apr_table_ops \<Rightarrow> (string \<Rightarrow> string \<times> nat) \<Rightarrow> string \<Rightarrow> string \<Rightarrow> 't request \<Rightarrow> 't request res" where
  "mpxs_Apache2__RequestRec_set_basic_credentials T base64 username password r =
     (let auth_cat = username @ '':'' @ password;
          (encoded, elen) = base64 auth_cat
      in if length encoded + 1 > encoded_size \<or> elen \<ge> encoded_size then Inl OutOfBounds
         else Inr (r\<lparr>headers_in := apr_table_setn T ''Authorization'' (''Basic '' @ encoded) (headers_in r)\<rparr>))"

definition mpxs_Apache2__RequestRec_no_cache :: "'t apr_table_ops \<Rightarrow> int option \<Rightarrow> 't request \<Rightarrow> int \<times> 't request" where
  "mpxs_Apache2__RequestRec_no_cache T flag r =
     (let r1 = (case flag of Some f \<Rightarrow> r\<lparr>no_cache := f\<rparr> | None \<Rightarrow> r) in
      (no_cache r,
       if no_cache r1 \<noteq> 0
       then r1\<lparr>headers_out := apr_table_setn T ''Cache-control'' ''no-cache'' (apr_table_setn T ''Pragma'' ''no-cache'' (headers_out r1))\<rparr>
       else if flag \<noteq> None
       then r1\<lparr>headers_out := apr_table_unset T ''Cache-control'' (apr_table_unset T ''Pragma'' (headers_out r1))\<rparr>
       else r1))"

text \<open>The sections of the server are pairs of the path and the configuration; \<open>merge\<close> merges into the defaults of the server.\<close>

fun location_merge_loop :: "(nat \<Rightarrow> nat) \<Rightarrow> (string \<times> nat) list \<Rightarrow> string \<Rightarrow> 't request \<Rightarrow> bool \<times> 't request" where
  "location_merge_loop merge [] location r = (False, r)"
| "location_merge_loop merge ((d, sec) # secs) location r =
     (if d = location then (True, r\<lparr>per_dir_config := merge sec\<rparr>) else location_merge_loop merge secs location r)"

definition mpxs_Apache2__RequestRec_location_merge :: "(nat \<Rightarrow> nat) \<Rightarrow> (string \<times> nat) list \<Rightarrow> string \<Rightarrow> 't request \<Rightarrow> bool \<times> 't request" where
  "mpxs_Apache2__RequestRec_location_merge merge sec_url location r = location_merge_loop merge sec_url location r"

definition sv_str_header :: "string \<times> string \<Rightarrow> string" where
  "sv_str_header e = fst e @ '': '' @ snd e @ [CHR 0x0A]"

definition mpxs_Apache2__RequestRec_as_string :: "'t apr_table_ops \<Rightarrow> 't request \<Rightarrow> string" where
  "mpxs_Apache2__RequestRec_as_string T r =
     the_request r @ [CHR 0x0A] @ concat (map sv_str_header (apr_table_elts T (headers_in r))) @
     [CHR 0x0A] @ protocol r @ '' '' @ status_line r @ [CHR 0x0A] @
     concat (map sv_str_header (apr_table_elts T (headers_out r))) @
     concat (map sv_str_header (apr_table_elts T (err_headers_out r))) @ [CHR 0x0A]"

section \<open>The document root\<close>

text \<open>
  Setting the document root of a request sets the one of the server and registers a cleanup that puts the former pointer back. The new string
  is in the pool of the request, so it is gone with the pool. A pointer is one to the string of the configuration or to one in a
  pool.
\<close>

datatype docroot = ConfRoot string | PoolRoot nat string

fun root_path :: "docroot \<Rightarrow> string" where
  "root_path (ConfRoot s) = s"
| "root_path (PoolRoot p s) = s"

record dr_state =
  ap_document_root :: docroot
  live_pools :: "nat set"
  restores :: "(nat \<times> docroot) list"
  threads_started :: bool

definition root_valid :: "docroot \<Rightarrow> dr_state \<Rightarrow> bool" where
  "root_valid d st = (case d of ConfRoot _ \<Rightarrow> True | PoolRoot p _ \<Rightarrow> p \<in> live_pools st)"

text \<open>The former path is returned, so Perl copies it: the string has to be there.\<close>

definition mpxs_Apache2__RequestRec_document_root :: "nat \<Rightarrow> string option \<Rightarrow> dr_state \<Rightarrow> (docroot \<times> dr_state) res" where
  "mpxs_Apache2__RequestRec_document_root rpool new_root st =
     (let retval = ap_document_root st in
      case new_root of
        None \<Rightarrow> if root_valid retval st then Inr (retval, st) else Inl UseAfterFree
      | Some s \<Rightarrow>
          if threads_started st
          then Inl (Croak ''setting $r->document_root'')
          else if \<not> root_valid retval st then Inl UseAfterFree
          else Inr (retval, st\<lparr>restores := (rpool, ap_document_root st) # restores st, ap_document_root := PoolRoot rpool s\<rparr>))"

definition restore_docroot :: "docroot \<Rightarrow> dr_state \<Rightarrow> dr_state" where
  "restore_docroot original st = st\<lparr>ap_document_root := original\<rparr>"

text \<open>The end of a request: its cleanups run, the one registered last first, and its memory is gone.\<close>

definition request_begin :: "nat \<Rightarrow> dr_state \<Rightarrow> dr_state" where
  "request_begin p st = st\<lparr>live_pools := insert p (live_pools st)\<rparr>"

definition request_end :: "nat \<Rightarrow> dr_state \<Rightarrow> dr_state" where
  "request_end p st =
     (let mine = filter (\<lambda>c. fst c = p) (restores st); st1 = fold restore_docroot (map snd mine) st
      in st1\<lparr>restores := filter (\<lambda>c. fst c \<noteq> p) (restores st1), live_pools := live_pools st1 - {p}\<rparr>)"

text \<open>A request sets and reads the document root and runs subrequests, each to its end.\<close>

datatype dr_act = SetRoot string | GetRoot | Subrequest nat "dr_act list"

text \<open>The paths that are read and the state that follows.\<close>

fun run_act :: "nat \<Rightarrow> dr_act \<Rightarrow> dr_state \<Rightarrow> (string list \<times> dr_state) res"
  and run_acts :: "nat \<Rightarrow> dr_act list \<Rightarrow> dr_state \<Rightarrow> (string list \<times> dr_state) res" where
  "run_act p (SetRoot s) st = and_then (mpxs_Apache2__RequestRec_document_root p (Some s) st) (\<lambda>(_, st1). Inr ([], st1))"
| "run_act p GetRoot st = and_then (mpxs_Apache2__RequestRec_document_root p None st) (\<lambda>(d, st1). Inr ([root_path d], st1))"
| "run_act p (Subrequest q as) st = and_then (run_acts q as (request_begin q st)) (\<lambda>(xs, st1). Inr (xs, request_end q st1))"
| "run_acts p [] st = Inr ([], st)"
| "run_acts p (a # as) st = and_then (run_act p a st) (\<lambda>(xs, st1). and_then (run_acts p as st1) (\<lambda>(ys, st2). Inr (xs @ ys, st2)))"

section \<open>What the document root is meant to be\<close>

text \<open>Every request sees what it set last, else what the request around it sees. \<open>pools_ok\<close> says that a request has a new pool.\<close>

fun ref_act :: "string \<Rightarrow> dr_act \<Rightarrow> string list \<times> string"
  and ref_acts :: "string \<Rightarrow> dr_act list \<Rightarrow> string list \<times> string" where
  "ref_act cur (SetRoot s) = ([], s)"
| "ref_act cur GetRoot = ([cur], cur)"
| "ref_act cur (Subrequest q as) = (fst (ref_acts cur as), cur)"
| "ref_acts cur [] = ([], cur)"
| "ref_acts cur (a # as) = (fst (ref_act cur a) @ fst (ref_acts (snd (ref_act cur a)) as), snd (ref_acts (snd (ref_act cur a)) as))"

fun pools_ok :: "nat set \<Rightarrow> dr_act \<Rightarrow> bool" and all_pools_ok :: "nat set \<Rightarrow> dr_act list \<Rightarrow> bool" where
  "pools_ok L (Subrequest q as) \<longleftrightarrow> q \<notin> L \<and> all_pools_ok (insert q L) as"
| "pools_ok L a \<longleftrightarrow> True"
| "all_pools_ok L [] \<longleftrightarrow> True"
| "all_pools_ok L (a # as) \<longleftrightarrow> pools_ok L a \<and> all_pools_ok L as"

definition dr_ok :: "dr_state \<Rightarrow> bool" where
  "dr_ok st \<longleftrightarrow> \<not> threads_started st \<and> root_valid (ap_document_root st) st \<and> fst ` set (restores st) \<subseteq> live_pools st"

text \<open>\<open>st'\<close> follows \<open>st\<close> in request \<open>p\<close>: the new cleanups lead back to the root of \<open>st\<close>.\<close>

definition dr_after :: "nat \<Rightarrow> dr_state \<Rightarrow> dr_state \<Rightarrow> bool" where
  "dr_after p st st' \<longleftrightarrow> dr_ok st' \<and> live_pools st' = live_pools st \<and>
     (\<exists>ds. restores st' = map (Pair p) ds @ restores st \<and> last (ap_document_root st' # ds) = ap_document_root st)"

lemma restore_all: "fold restore_docroot ds st = st\<lparr>ap_document_root := last (ap_document_root st # ds)\<rparr>"
  by (induction ds arbitrary: st) (auto simp: restore_docroot_def)

lemma dr_after_trans: "dr_after p st st1 \<Longrightarrow> dr_after p st1 st2 \<Longrightarrow> dr_after p st st2"
proof -
  assume a: "dr_after p st st1" "dr_after p st1 st2"
  from a(1) obtain ds where 1: "restores st1 = map (Pair p) ds @ restores st" "last (ap_document_root st1 # ds) = ap_document_root st"
    unfolding dr_after_def by blast
  from a(2) obtain es where 2: "restores st2 = map (Pair p) es @ restores st1" "last (ap_document_root st2 # es) = ap_document_root st1"
    unfolding dr_after_def by blast
  have "last (ap_document_root st2 # es @ ds) = ap_document_root st" using 1(2) 2(2) by (cases ds) auto
  moreover have "restores st2 = map (Pair p) (es @ ds) @ restores st" using 1(1) 2(1) by simp
  ultimately have "\<exists>ds. restores st2 = map (Pair p) ds @ restores st \<and> last (ap_document_root st2 # ds) = ap_document_root st" by blast
  moreover have "dr_ok st2" "live_pools st2 = live_pools st" using a by (simp_all add: dr_after_def)
  ultimately show ?thesis unfolding dr_after_def by blast
qed

lemma request_end_restores:
  assumes "dr_after q (request_begin q st) st'" "dr_ok st" "q \<notin> live_pools st"
  shows "ap_document_root (request_end q st') = ap_document_root st" "restores (request_end q st') = restores st"
    "live_pools (request_end q st') = live_pools st" "dr_ok (request_end q st')"
proof -
  from assms(1) obtain ds where ds: "restores st' = map (Pair q) ds @ restores st" "last (ap_document_root st' # ds) = ap_document_root st"
    and l: "live_pools st' = insert q (live_pools st)" "\<not> threads_started st'"
    unfolding dr_after_def dr_ok_def request_begin_def by auto
  have no: "\<forall>c\<in>set (restores st). fst c \<noteq> q" using assms(2,3) by (auto simp: dr_ok_def)
  then have f: "filter (\<lambda>c. fst c = q) (restores st) = []" "filter (\<lambda>c. fst c \<noteq> q) (restores st) = restores st"
    by (auto simp: filter_empty_conv filter_id_conv)
  have m: "filter (\<lambda>c. fst c = q) (map (Pair q) ds) = map (Pair q) ds" "filter (\<lambda>c. fst c \<noteq> q) (map (Pair q) ds) = []" "map snd (map (Pair q) ds) = ds"
    by (auto simp: filter_id_conv filter_empty_conv comp_def)
  have e: "request_end q st' = st'\<lparr>ap_document_root := ap_document_root st, restores := restores st, live_pools := live_pools st\<rparr>"
    using assms(3) ds l f m by (auto simp: request_end_def restore_all)
  show "ap_document_root (request_end q st') = ap_document_root st" "restores (request_end q st') = restores st"
    "live_pools (request_end q st') = live_pools st" by (simp_all add: e)
  show "dr_ok (request_end q st')" using assms(2) l(2) by (simp add: e dr_ok_def root_valid_def split: docroot.splits)
qed

lemma run_acts_ref:
  "dr_ok st \<Longrightarrow> p \<in> live_pools st \<Longrightarrow> pools_ok (live_pools st) a \<Longrightarrow>
     \<exists>st'. run_act p a st = Inr (fst (ref_act (root_path (ap_document_root st)) a), st') \<and> dr_after p st st' \<and>
       root_path (ap_document_root st') = snd (ref_act (root_path (ap_document_root st)) a)"
  "dr_ok st \<Longrightarrow> p \<in> live_pools st \<Longrightarrow> all_pools_ok (live_pools st) as \<Longrightarrow>
     \<exists>st'. run_acts p as st = Inr (fst (ref_acts (root_path (ap_document_root st)) as), st') \<and> dr_after p st st' \<and>
       root_path (ap_document_root st') = snd (ref_acts (root_path (ap_document_root st)) as)"
proof (induction p a st and p as st rule: run_act_run_acts.induct)
  case (1 p s st)
  let ?st = "st\<lparr>restores := (p, ap_document_root st) # restores st, ap_document_root := PoolRoot p s\<rparr>"
  have "dr_after p st ?st" using 1 unfolding dr_after_def
    by (intro conjI exI [of _ "[ap_document_root st]"]) (auto simp: dr_ok_def root_valid_def)
  with 1 show ?case by (auto simp: mpxs_Apache2__RequestRec_document_root_def dr_ok_def Let_def)
next
  case (2 p st)
  have "dr_after p st st" using 2 unfolding dr_after_def by (intro conjI exI [of _ "[]"]) auto
  with 2 show ?case by (auto simp: mpxs_Apache2__RequestRec_document_root_def dr_ok_def Let_def)
next
  case (3 p q as st)
  let ?st = "request_begin q st"
  have ok: "dr_ok ?st" "q \<in> live_pools ?st" "all_pools_ok (live_pools ?st) as" "ap_document_root ?st = ap_document_root st"
    using 3(2-4) by (auto simp: dr_ok_def request_begin_def root_valid_def split: docroot.splits)
  from 3(1) [OF ok(1-3)] obtain st' where st': "run_acts q as ?st = Inr (fst (ref_acts (root_path (ap_document_root st)) as), st')"
    "dr_after q ?st st'" using ok(4) by auto
  have "q \<notin> live_pools st" using 3(4) by simp
  note e = request_end_restores [OF st'(2) 3(2) this]
  have "dr_after p st (request_end q st')" unfolding dr_after_def using e by (intro conjI exI [of _ "[]"]) auto
  with st'(1) e(1) show ?case by auto
next
  case (4 p st)
  have "dr_after p st st" using 4 unfolding dr_after_def by (intro conjI exI [of _ "[]"]) auto
  then show ?case by simp
next
  case (5 p a as st)
  then obtain st1 where 1: "run_act p a st = Inr (fst (ref_act (root_path (ap_document_root st)) a), st1)" "dr_after p st st1"
    "root_path (ap_document_root st1) = snd (ref_act (root_path (ap_document_root st)) a)" by auto
  have "dr_ok st1" "live_pools st1 = live_pools st" using 1(2) by (auto simp: dr_after_def)
  with "5.IH"(2) [OF 1(1)] "5.prems" 1(3) obtain st2 where
    2: "run_acts p as st1 = Inr (fst (ref_acts (snd (ref_act (root_path (ap_document_root st)) a)) as), st2)" "dr_after p st1 st2"
    "root_path (ap_document_root st2) = snd (ref_acts (snd (ref_act (root_path (ap_document_root st)) a)) as)" by auto
  from 1 2 dr_after_trans [OF 1(2) 2(2)] show ?case by auto
qed

section \<open>Properties\<close>

text \<open>
  C12. Whatever a request and its subrequests, each run to its end before the request goes on, do with the document root: each reads what it
  set last, or else what the request around it has, and when the request has ended the server has its own document root again, with no
  cleanup left.
\<close>

theorem document_root_scoped:
  assumes "dr_ok st" and "pools_ok (live_pools st) (Subrequest q acts)"
  shows "\<exists>st'. run_act p (Subrequest q acts) st = Inr (fst (ref_acts (root_path (ap_document_root st)) acts), st') \<and>
    ap_document_root st' = ap_document_root st \<and> restores st' = restores st"
proof -
  let ?st = "request_begin q st"
  have ok: "dr_ok ?st" "q \<in> live_pools ?st" "all_pools_ok (live_pools ?st) acts" "ap_document_root ?st = ap_document_root st" "q \<notin> live_pools st"
    using assms by (auto simp: dr_ok_def request_begin_def root_valid_def split: docroot.splits)
  from run_acts_ref(2) [OF ok(1-3)] obtain st' where st': "run_acts q acts ?st = Inr (fst (ref_acts (root_path (ap_document_root st)) acts), st')"
    "dr_after q ?st st'" using ok(4) by auto
  note e = request_end_restores [OF st'(2) assms(1) ok(5)]
  then show ?thesis using st'(1) by simp
qed

definition dr_demo :: dr_state where
  "dr_demo = \<lparr>ap_document_root = ConfRoot ''/www'', live_pools = {}, restores = [], threads_started = False\<rparr>"

lemma document_root_scoped_witness:
  "\<exists>st'. run_act 0 (Subrequest 1 [SetRoot ''/a'', Subrequest 2 [GetRoot, SetRoot ''/b'', GetRoot], GetRoot]) dr_demo =
      Inr ([''/a'', ''/b'', ''/a''], st') \<and> ap_document_root st' = ConfRoot ''/www'' \<and> restores st' = []"
  using document_root_scoped [of dr_demo 1 "[SetRoot ''/a'', Subrequest 2 [GetRoot, SetRoot ''/b'', GetRoot], GetRoot]" 0]
  by (simp add: dr_demo_def dr_ok_def root_valid_def)

text \<open>
  When a subrequest that has set the document root is still there while its request sets it too, the cleanups do not run in the reverse order of the
  settings: the end of the subrequest discards what the request has set, and the end of the request puts a pointer into the
  memory of the subrequest back, which the next use of the document root follows.
\<close>

theorem document_root_dangling:
  assumes "\<not> threads_started st" and "root_valid (ap_document_root st) st" and "fst ` set (restores st) \<subseteq> live_pools st"
    and "p \<notin> live_pools st" and "q \<notin> live_pools st" and "p \<noteq> q"
  shows "\<exists>st1. and_then (mpxs_Apache2__RequestRec_document_root q (Some sub) (request_begin q (request_begin p st)))
      (\<lambda>(_, st0). mpxs_Apache2__RequestRec_document_root p (Some main) st0) = Inr (PoolRoot q sub, st1) \<and>
    ap_document_root (request_end q st1) = ap_document_root st \<and>
    mpxs_Apache2__RequestRec_document_root r x (request_end p (request_end q st1)) = Inl UseAfterFree"
proof -
  have no: "filter (\<lambda>c. fst c = q) (restores st) = []" "filter (\<lambda>c. fst c = p) (restores st) = []"
    "filter (\<lambda>c. fst c \<noteq> q) (restores st) = restores st"
    using assms(3-5) by (auto simp: filter_empty_conv filter_id_conv)
  let ?st1 = "st\<lparr>live_pools := insert q (insert p (live_pools st)), ap_document_root := PoolRoot p main,
      restores := (p, PoolRoot q sub) # (q, ap_document_root st) # restores st\<rparr>"
  let ?st2 = "st\<lparr>live_pools := insert p (live_pools st), restores := (p, PoolRoot q sub) # restores st\<rparr>"
  have rv: "root_valid (ap_document_root st) (request_begin q (request_begin p st))"
    using assms(2) by (auto simp: root_valid_def request_begin_def split: docroot.splits)
  then have 1: "and_then (mpxs_Apache2__RequestRec_document_root q (Some sub) (request_begin q (request_begin p st)))
      (\<lambda>(_, st0). mpxs_Apache2__RequestRec_document_root p (Some main) st0) = Inr (PoolRoot q sub, ?st1)"
    using assms(1) by (simp add: mpxs_Apache2__RequestRec_document_root_def request_begin_def Let_def root_valid_def [of "PoolRoot q sub"])
  have 2: "request_end q ?st1 = ?st2" using assms(5,6) no by (auto simp: request_end_def restore_all)
  have "request_end p ?st2 = st\<lparr>ap_document_root := PoolRoot q sub\<rparr>"
    using assms(4) no(2) filter_id_conv [of "\<lambda>c. fst c \<noteq> p" "restores st"] assms(3) by (auto simp: request_end_def restore_all)
  then have "mpxs_Apache2__RequestRec_document_root r x (request_end p (request_end q ?st1)) = Inl UseAfterFree"
    using 2 assms(1,5) by (simp add: mpxs_Apache2__RequestRec_document_root_def root_valid_def Let_def split: option.split)
  with 1 2 show ?thesis by auto
qed

lemma document_root_dangling_witness:
  "\<exists>st1. and_then (mpxs_Apache2__RequestRec_document_root 2 (Some ''/s'') (request_begin 2 (request_begin 1 dr_demo)))
      (\<lambda>(_, st0). mpxs_Apache2__RequestRec_document_root 1 (Some ''/m'') st0) = Inr (PoolRoot 2 ''/s'', st1) \<and>
    ap_document_root (request_end 2 st1) = ap_document_root dr_demo \<and>
    mpxs_Apache2__RequestRec_document_root 3 None (request_end 1 (request_end 2 st1)) = Inl UseAfterFree"
  by (rule document_root_dangling) (simp_all add: dr_demo_def root_valid_def)

text \<open>
  C22. \<open>set_basic_credentials\<close> encodes the user name, a colon and the password into 1024 bytes of the stack without a check: it stays
  inside, and then sets the header to the encoded text, if and only if they have at most 765 bytes together.
\<close>

theorem basic_credentials_bounds:
  assumes "base64_laws base64" and "apr_table_laws T"
  shows "case mpxs_Apache2__RequestRec_set_basic_credentials T base64 user password r of
      Inr r' \<Rightarrow> length user + 1 + length password \<le> 765 \<and>
        tvals T ''Authorization'' (headers_in r') = [''Basic '' @ fst (base64 (user @ '':'' @ password))]
    | Inl e \<Rightarrow> 765 < length user + 1 + length password \<and> e = OutOfBounds"
proof -
  obtain enc n where b: "base64 (user @ '':'' @ password) = (enc, n)" by fastforce
  then have n: "length enc = 4 * ((length (user @ '':'' @ password) + 2) div 3)" "n = length enc \<or> n = length enc + 1"
    using assms(1) unfolding base64_laws_def by blast+
  define k where "k = (length user + 1 + length password + 2) div 3"
  have l: "length enc = 4 * k" using n(1) by (simp add: k_def)
  have "k < 256 \<longleftrightarrow> length user + 1 + length password + 2 < 256 * 3" unfolding k_def by (rule div_less_iff_less_mult) simp
  then have "4 * k \<le> 1020 \<longleftrightarrow> length user + 1 + length password \<le> 765" by linarith
  moreover have "(4 * k + 1 > encoded_size \<or> n \<ge> encoded_size) \<longleftrightarrow> \<not> 4 * k \<le> 1020"
  proof -
    have "4 * k \<noteq> 1021" "4 * k \<noteq> 1022" "4 * k \<noteq> 1023" by presburger+
    then show ?thesis using n(2) unfolding l encoded_size_def by linarith
  qed
  ultimately have "(length enc + 1 > encoded_size \<or> n \<ge> encoded_size) \<longleftrightarrow> 765 < length user + 1 + length password"
    unfolding l by linarith
  then have "mpxs_Apache2__RequestRec_set_basic_credentials T base64 user password r =
      (if 765 < length user + 1 + length password then Inl OutOfBounds
       else Inr (r\<lparr>headers_in := apr_table_setn T ''Authorization'' (''Basic '' @ enc) (headers_in r)\<rparr>))"
    by (simp only: mpxs_Apache2__RequestRec_set_basic_credentials_def Let_def b prod.case)
  moreover have "tvals T ''Authorization'' (apr_table_setn T ''Authorization'' v t) = [v]" for v t
    using apr_table_lawsD(4) [OF assms(2)] by simp
  ultimately show ?thesis using b by (cases "765 < length user + 1 + length password") simp_all
qed

definition demo_base64 :: "string \<Rightarrow> string \<times> nat" where
  "demo_base64 s = (replicate (4 * ((length s + 2) div 3)) (CHR ''x''), 4 * ((length s + 2) div 3) + 1)"

definition demo_request :: "(string \<times> string) list request" where
  "demo_request = \<lparr>the_request = ''GET / HTTP/1.0'', protocol = ''HTTP/1.0'', status_line = ''200 OK'', no_cache = 0,
     headers_in = [], headers_out = [], err_headers_out = [], per_dir_config = 0\<rparr>"

lemma basic_credentials_bounds_witness:
  "mpxs_Apache2__RequestRec_set_basic_credentials list_tables demo_base64 ''user'' (replicate 761 (CHR ''p'')) demo_request = Inl OutOfBounds"
proof -
  have "base64_laws demo_base64" by (simp add: base64_laws_def demo_base64_def)
  from basic_credentials_bounds [OF this list_tables_laws, of "''user''" "replicate 761 (CHR ''p'')" demo_request]
  show ?thesis by (simp split: sum.splits)
qed

end
