(* ===== verification/Filter_Attrs.thy ===== *)
theory Filter_Attrs
  imports Filter_Add
begin

text \<open>
  Filters as Perl code declares and uses them: the attributes of filter subroutines, the data a filter keeps between its invocations and
  the wrappers that add a filter (\<^verbatim>\<open>src/xs/Apache2/Filter/Apache2__Filter.h\<close>), and the functions of
  \<^verbatim>\<open>src/src/modules/perl/modperl_filter.c\<close> they lead to, \<open>modperl_filter_resolve_init_handler\<close> and \<open>modperl_filter_f_cleanup\<close>.
\<close>

section \<open>Attributes of subroutines\<close>

definition MP_FILTER_INIT_HANDLER :: "16 word" where "MP_FILTER_INIT_HANDLER = 8"

text \<open>
  \<open>MODPERL_FILTER_ATTACH_ATTR_CODE\<close>: the text between the parentheses is copied. The length is unsigned: without any text after the name
  of the attribute it wraps to a huge one, for which Perl finds no memory and exits; with one character the closing null byte
  is written in front of the copy.
\<close>

definition attach_attr_code :: "string \<Rightarrow> string res" where
  "attach_attr_code s =
     (if length s = 0 then Inl Exited
      else if length s = 1 then Inl OutOfBounds
      else Inr (take (length s - 2) (tl s)))"

text \<open>What one attribute says; the cases of the switch fall through, but no two of the names start with the same letter.\<close>

datatype filter_attr = Sets "16 word" | Carries string | Foreign

definition parse_filter_attribute :: "string \<Rightarrow> filter_attr" where
  "parse_filter_attribute attribute =
     (let p = (if take 6 attribute = ''Filter'' then drop 6 attribute else attribute) in
      if p = ''ConnectionHandler'' then Sets MP_FILTER_CONNECTION_HANDLER
      else if p = ''InitHandler'' then Sets MP_FILTER_INIT_HANDLER
      else if take 14 p = ''HasInitHandler'' then Carries (drop 14 p)
      else if p = ''RequestHandler'' then Sets MP_FILTER_REQUEST_HANDLER
      else Foreign)"

text \<open>
  The flags and the code are in the magic of the subroutine. The result is what Perl takes for the attributes nobody knows: the name of such an attribute
  is pushed behind the arguments, but returning one value returns the first argument, the package.
\<close>

record sub_magic =
  mg_private :: "16 word"
  mg_ptr :: "string option"

fun MPXS_modperl_filter_attributes :: "string \<Rightarrow> string list \<Rightarrow> sub_magic \<Rightarrow> (string list \<times> sub_magic) res" where
  "MPXS_modperl_filter_attributes package [] mg = Inr ([], mg)"
| "MPXS_modperl_filter_attributes package (a # as) mg = (case parse_filter_attribute a of
       Sets f \<Rightarrow> MPXS_modperl_filter_attributes package as (mg\<lparr>mg_private := mg_private mg OR f\<rparr>)
     | Carries s \<Rightarrow> and_then (attach_attr_code s) (\<lambda>code.
         MPXS_modperl_filter_attributes package as (mg\<lparr>mg_ptr := Some code, mg_private := mg_private mg OR MP_FILTER_HAS_INIT_HANDLER\<rparr>))
     | Foreign \<Rightarrow> Inr ([package], mg))"

section \<open>The init handler of a filter\<close>

text \<open>
  \<open>cv_magic\<close> looks at a subroutine: it has no magic, magic without code, or magic with code. \<open>eval_pv\<close> evaluates the code in the package of
  the filter; it raises an exception when that fails.
\<close>

definition init_from_code ::
    "'p perl_ops \<Rightarrow> (string \<Rightarrow> 'p \<Rightarrow> (sv \<times> 'p) res) \<Rightarrow> mgv list \<Rightarrow> string \<Rightarrow> fhandler \<Rightarrow> 'p hstate \<Rightarrow> (int \<times> fhandler \<times> 'p hstate) res" where
  "init_from_code ops eval_pv symb code h st =
     and_then (modperl_mgv_as_string symb True) (\<lambda>package_name.
     and_then (eval_pv (''package '' @ package_name @ '';'' @ code) (perlst st)) (\<lambda>(x, pl).
     and_then (modperl_handler_new_from_sv ops x (st\<lparr>perlst := pl\<rparr>)) (\<lambda>(ho, st1). case ho of
       None \<Rightarrow> Inl (Croak ''failed to eval code'')
     | Some init \<Rightarrow>
         and_then (modperl_mgv_resolve ops init (case hname init of Some n \<Rightarrow> n | None \<Rightarrow> []) True st1) (\<lambda>(_, init1, st2).
           if attrs init1 AND MP_FILTER_INIT_HANDLER = 0
           then Inl (Croak ''the handler doesn't have the FilterInitHandler attribute set'')
           else Inr (1, h\<lparr>next_handler := Some init1\<rparr>, st2)))))"

definition modperl_filter_resolve_init_handler ::
    "'p perl_ops \<Rightarrow> (nat \<Rightarrow> 'p \<Rightarrow> string option option) \<Rightarrow> (string \<Rightarrow> 'p \<Rightarrow> (sv \<times> 'p) res) \<Rightarrow> fhandler \<Rightarrow> 'p hstate
      \<Rightarrow> (int \<times> fhandler \<times> 'p hstate) res" where
  "modperl_filter_resolve_init_handler ops cv_magic eval_pv h st = (case mgv_cv h of
       None \<Rightarrow> Inr (1, h, st)
     | Some symb \<Rightarrow>
         and_then (modperl_mgv_lookup (p_hash ops) (p_defstash ops (perlst st)) symb) (\<lambda>gv.
         case (case gv of FoundGv g \<Rightarrow> cv_magic g (perlst st) | _ \<Rightarrow> Some None) of
           None \<Rightarrow> Inr (0, h, st)
         | Some None \<Rightarrow> Inr (1, h, st)
         | Some (Some code) \<Rightarrow> init_from_code ops eval_pv symb code h st))"

section \<open>The data of a filter\<close>

text \<open>
  \<open>$f->ctx\<close> keeps a reference to a scalar, which is the scalar that was passed and not a copy: Perl code can still change it. \<open>refcnt\<close> counts the
  references, \<open>defined\<close> is \<open>SvOK\<close>, \<open>ext\<close> the references of Perl code.
\<close>

record ctx_state =
  ctx_data :: "nat option"
  refcnt :: "nat \<Rightarrow> nat"
  defined :: "nat \<Rightarrow> bool"
  perl_refs :: "nat \<Rightarrow> nat"

definition ctx_inc :: "nat \<Rightarrow> ctx_state \<Rightarrow> ctx_state" where
  "ctx_inc x st = st\<lparr>refcnt := (refcnt st)(x := refcnt st x + 1)\<rparr>"

definition ctx_dec :: "nat \<Rightarrow> ctx_state \<Rightarrow> ctx_state res" where
  "ctx_dec x st = (if refcnt st x = 0 then Inl UseAfterFree else Inr (st\<lparr>refcnt := (refcnt st)(x := refcnt st x - 1)\<rparr>))"

definition ctx_release :: "ctx_state \<Rightarrow> ctx_state res" where
  "ctx_release st = (case ctx_data st of
       None \<Rightarrow> Inr st
     | Some d \<Rightarrow> if defined st d \<and> refcnt st d \<noteq> 0 then ctx_dec d st else Inr st)"

text \<open>The value that is returned has a reference for the caller; it is one of \<open>perl_refs\<close>.\<close>

definition mpxs_Apache2__Filter_ctx :: "nat option \<Rightarrow> ctx_state \<Rightarrow> (nat option \<times> ctx_state) res" where
  "mpxs_Apache2__Filter_ctx data st =
     and_then (case data of
         None \<Rightarrow> Inr st
       | Some x \<Rightarrow> and_then (ctx_release st) (\<lambda>st1. Inr ((ctx_inc x st1)\<lparr>ctx_data := Some x\<rparr>))) (\<lambda>st1.
       case ctx_data st1 of
         None \<Rightarrow> Inr (None, st1)
       | Some d \<Rightarrow> Inr (Some d, (ctx_inc d st1)\<lparr>perl_refs := (perl_refs st1)(d := perl_refs st1 d + 1)\<rparr>))"

definition modperl_filter_f_cleanup :: "ctx_state \<Rightarrow> ctx_state res" where
  "modperl_filter_f_cleanup st = (case ctx_data st of
       None \<Rightarrow> Inr st
     | Some d \<Rightarrow> if defined st d \<and> refcnt st d \<noteq> 0
               then and_then (ctx_dec d st) (\<lambda>st1. Inr (st1\<lparr>ctx_data := None\<rparr>)) else Inr st)"

text \<open>Steps of Perl code: a call of \<open>ctx\<close>, giving a reference up, making a scalar defined or not. \<open>ctx_ok\<close> says that it uses scalars it has.\<close>

datatype ctx_op = CtxSet nat | CtxGet | PerlDrop nat | PerlAssign nat bool

fun ctx_ok :: "ctx_op \<Rightarrow> ctx_state \<Rightarrow> bool" where
  "ctx_ok (CtxSet x) st \<longleftrightarrow> 0 < perl_refs st x"
| "ctx_ok CtxGet st \<longleftrightarrow> True"
| "ctx_ok (PerlDrop x) st \<longleftrightarrow> 0 < perl_refs st x"
| "ctx_ok (PerlAssign x d) st \<longleftrightarrow> 0 < perl_refs st x"

fun ctx_step :: "ctx_op \<Rightarrow> ctx_state \<Rightarrow> ctx_state res" where
  "ctx_step (CtxSet x) st = and_then (mpxs_Apache2__Filter_ctx (Some x) st) (\<lambda>r. Inr (snd r))"
| "ctx_step CtxGet st = and_then (mpxs_Apache2__Filter_ctx None st) (\<lambda>r. Inr (snd r))"
| "ctx_step (PerlDrop x) st = and_then (ctx_dec x st) (\<lambda>st1. Inr (st1\<lparr>perl_refs := (perl_refs st1)(x := perl_refs st1 x - 1)\<rparr>))"
| "ctx_step (PerlAssign x d) st = Inr (st\<lparr>defined := (defined st)(x := d)\<rparr>)"

fun ctx_run :: "ctx_op list \<Rightarrow> ctx_state \<Rightarrow> ctx_state res" where
  "ctx_run [] st = modperl_filter_f_cleanup st"
| "ctx_run (op # ops) st = and_then (ctx_step op st) (ctx_run ops)"

fun ctx_run_ok :: "ctx_op list \<Rightarrow> ctx_state \<Rightarrow> bool" where
  "ctx_run_ok [] st \<longleftrightarrow> True"
| "ctx_run_ok (op # ops) st \<longleftrightarrow> ctx_ok op st \<and> (case ctx_step op st of Inr st1 \<Rightarrow> ctx_run_ok ops st1 | Inl _ \<Rightarrow> True)"

text \<open>The references that are lost: the data was not defined when another took its place, or when the filter ended.\<close>

fun ctx_lost :: "ctx_op list \<Rightarrow> ctx_state \<Rightarrow> nat \<Rightarrow> nat" where
  "ctx_lost [] st x = (if ctx_data st = Some x \<and> \<not> defined st x then 1 else 0)"
| "ctx_lost (op # ops) st x =
     (case op of CtxSet _ \<Rightarrow> if ctx_data st = Some x \<and> \<not> defined st x then 1 else 0 | _ \<Rightarrow> 0) +
     (case ctx_step op st of Inr st1 \<Rightarrow> ctx_lost ops st1 x | Inl _ \<Rightarrow> 0)"

section \<open>Adding and removing filters\<close>

definition mpxs_Apache2__RequestRec_add_input_filter where
  "mpxs_Apache2__RequestRec_add_input_filter ops env init_of r callback added st =
     modperl_filter_runtime_add ops env init_of (Some r) ''MODPERL_REQUEST_INPUT'' callback ''InputFilter'' added st"

definition mpxs_Apache2__RequestRec_add_output_filter where
  "mpxs_Apache2__RequestRec_add_output_filter ops env init_of r callback added st =
     modperl_filter_runtime_add ops env init_of (Some r) ''MODPERL_REQUEST_OUTPUT'' callback ''OutputFilter'' added st"

definition mpxs_Apache2__Connection_add_input_filter where
  "mpxs_Apache2__Connection_add_input_filter ops env init_of callback added st =
     modperl_filter_runtime_add ops env init_of None ''MODPERL_CONNECTION_INPUT'' callback ''InputFilter'' added st"

definition mpxs_Apache2__Connection_add_output_filter where
  "mpxs_Apache2__Connection_add_output_filter ops env init_of callback added st =
     modperl_filter_runtime_add ops env init_of None ''MODPERL_CONNECTION_OUTPUT'' callback ''OutputFilter'' added st"

text \<open>
  The chains of input and output filters; \<open>rm_in\<close> and \<open>rm_out\<close> are \<open>ap_remove_input_filter\<close> and \<open>ap_remove_output_filter\<close>. The mode is that of a filter of
  mod\_perl, \<open>None\<close> for one of httpd.
\<close>

definition mpxs_Apache2__Filter_remove ::
    "('f \<Rightarrow> 'c \<Rightarrow> 'c) \<Rightarrow> ('f \<Rightarrow> 'c \<Rightarrow> 'c) \<Rightarrow> bool option \<Rightarrow> 'f \<Rightarrow> 'c \<Rightarrow> 'c" where
  "mpxs_Apache2__Filter_remove rm_in rm_out input f fs = (case input of
       None \<Rightarrow> rm_out f (rm_in f fs)
     | Some True \<Rightarrow> rm_in f fs
     | Some False \<Rightarrow> rm_out f fs)"

text \<open>The methods that hand on the status of httpd raise an exception when it is ignored.\<close>

definition mpxs_Apache2__Filter_fflush :: "bool \<Rightarrow> int \<Rightarrow> int res" where
  "mpxs_Apache2__Filter_fflush void_context rc =
     (if void_context \<and> rc \<noteq> APR_SUCCESS then Inl (Croak ''Apache2::Filter::fflush'') else Inr rc)"

definition mpxs_Apache2__Filter_get_brigade :: "bool \<Rightarrow> int \<Rightarrow> int res" where
  "mpxs_Apache2__Filter_get_brigade void_context rc =
     (if void_context \<and> rc \<noteq> APR_SUCCESS then Inl (Croak ''Apache2::Filter::get_brigade'') else Inr rc)"

definition mpxs_Apache2__Filter_pass_brigade :: "bool \<Rightarrow> int \<Rightarrow> int res" where
  "mpxs_Apache2__Filter_pass_brigade void_context rc =
     (if void_context \<and> rc \<noteq> APR_SUCCESS then Inl (Croak ''Apache2::Filter::pass_brigade'') else Inr rc)"

section \<open>Lemmas\<close>

definition ctx_counts :: "ctx_state \<Rightarrow> (nat \<Rightarrow> nat) \<Rightarrow> bool" where
  "ctx_counts st L \<longleftrightarrow> (\<forall>x. refcnt st x = perl_refs st x + (if ctx_data st = Some x then 1 else 0) + L x)"

lemma ctx_step_counts:
  assumes "ctx_counts st L" and "ctx_ok op st"
  shows "\<exists>st'. ctx_step op st = Inr st' \<and>
    ctx_counts st' (\<lambda>x. L x + (case op of CtxSet _ \<Rightarrow> if ctx_data st = Some x \<and> \<not> defined st x then 1 else 0 | _ \<Rightarrow> 0))"
proof (cases op)
  case (CtxSet y)
  have pos: "refcnt st d \<noteq> 0" if "ctx_data st = Some d" for d
    using spec [OF assms(1) [unfolded ctx_counts_def], of d] that by simp
  show ?thesis
  proof (cases "ctx_data st")
    case None
    with assms CtxSet show ?thesis
      by (auto simp: mpxs_Apache2__Filter_ctx_def ctx_release_def ctx_inc_def ctx_counts_def)
  next
    case (Some d)
    with assms CtxSet pos [OF Some] show ?thesis
      by (cases "defined st d") (auto simp: mpxs_Apache2__Filter_ctx_def ctx_release_def ctx_inc_def ctx_dec_def ctx_counts_def)
  qed
next
  case CtxGet
  with assms show ?thesis
    by (cases "ctx_data st") (auto simp: mpxs_Apache2__Filter_ctx_def ctx_inc_def ctx_counts_def)
next
  case (PerlDrop y)
  then have "refcnt st y \<noteq> 0" using assms by (auto simp: ctx_counts_def)
  with PerlDrop assms show ?thesis by (auto simp: ctx_dec_def ctx_counts_def)
next
  case (PerlAssign y d)
  with assms show ?thesis by (simp add: ctx_counts_def)
qed

lemma ctx_run_counts:
  "ctx_counts st L \<Longrightarrow> ctx_run_ok ops st \<Longrightarrow>
     \<exists>st'. ctx_run ops st = Inr st' \<and> (\<forall>x. refcnt st' x = perl_refs st' x + L x + ctx_lost ops st x)"
proof (induction ops arbitrary: st L)
  case Nil
  show ?case
  proof (cases "ctx_data st")
    case None
    with Nil show ?thesis by (simp add: modperl_filter_f_cleanup_def ctx_counts_def)
  next
    case (Some d)
    then have "refcnt st d \<noteq> 0" using Nil(1) by (simp add: ctx_counts_def)
    with Some Nil(1) show ?thesis by (auto simp: modperl_filter_f_cleanup_def ctx_dec_def ctx_counts_def)
  qed
next
  case (Cons op ops)
  then have "ctx_ok op st" by simp
  from ctx_step_counts [OF Cons.prems(1) this] obtain st1 where 1: "ctx_step op st = Inr st1"
    "ctx_counts st1 (\<lambda>x. L x + (case op of CtxSet _ \<Rightarrow> if ctx_data st = Some x \<and> \<not> defined st x then 1 else 0 | _ \<Rightarrow> 0))" by blast
  from Cons.IH [OF 1(2)] Cons.prems(2) 1(1) show ?case by (auto simp: add.assoc)
qed

fun known_attr :: "string \<Rightarrow> bool" where
  "known_attr a \<longleftrightarrow> (case parse_filter_attribute a of Foreign \<Rightarrow> False | _ \<Rightarrow> True)"

fun closed_attr :: "string \<Rightarrow> bool" where
  "closed_attr a \<longleftrightarrow> (case parse_filter_attribute a of Carries s \<Rightarrow> 2 \<le> length s | _ \<Rightarrow> True)"

definition attr_flag :: "string \<Rightarrow> 16 word" where
  "attr_flag a = (case parse_filter_attribute a of Sets f \<Rightarrow> f | Carries _ \<Rightarrow> MP_FILTER_HAS_INIT_HANDLER | Foreign \<Rightarrow> 0)"

definition attr_code :: "string \<Rightarrow> string option \<Rightarrow> string option" where
  "attr_code a c = (case parse_filter_attribute a of Carries s \<Rightarrow> Some (butlast (tl s)) | _ \<Rightarrow> c)"

lemma attach_butlast: "2 \<le> length s \<Longrightarrow> attach_attr_code s = Inr (butlast (tl s))"
  by (cases s) (auto simp: attach_attr_code_def butlast_conv_take)

lemma and_then_InrE: "and_then m f = Inr y \<Longrightarrow> (\<And>x. m = Inr x \<Longrightarrow> f x = Inr y \<Longrightarrow> P) \<Longrightarrow> P"
  by (auto simp: and_then_eq_Inr)

lemma init_from_code_sound:
  assumes "init_from_code ops eval_pv symb c h st = Inr (r, h', st')"
  shows "\<exists>init. h' = h\<lparr>next_handler := Some init\<rparr> \<and> attrs init AND MP_FILTER_INIT_HANDLER \<noteq> 0"
  using assms unfolding init_from_code_def
  apply (auto elim!: and_then_InrE split: option.splits if_splits)
   apply (rule exI, rule conjI, rule refl, assumption)+
  done

section \<open>Properties\<close>

text \<open>
  The attributes of a filter subroutine are read from the first on up to one that is not known, and the flags of those are set; the code for the init
  handler is the text between the parentheses of the last attribute that has some. For an unknown attribute Perl gets the name of the
  package instead of its name, and the attributes behind it are not read.
\<close>

theorem filter_attributes_read:
  assumes "\<forall>a\<in>set (takeWhile known_attr as). closed_attr a"
  shows "MPXS_modperl_filter_attributes package as mg =
    Inr (if \<forall>a\<in>set as. known_attr a then [] else [package],
         \<lparr>mg_private = fold (\<lambda>a f. f OR attr_flag a) (takeWhile known_attr as) (mg_private mg),
          mg_ptr = fold attr_code (takeWhile known_attr as) (mg_ptr mg)\<rparr>)"
  using assms
proof (induction as arbitrary: mg)
  case (Cons a as)
  show ?case
  proof (cases "parse_filter_attribute a")
    case (Carries s)
    then show ?thesis using Cons attach_butlast [of s] by (simp add: attr_flag_def attr_code_def)
  qed (use Cons in \<open>simp_all add: attr_flag_def attr_code_def\<close>)
qed simp

lemma filter_attributes_read_witness:
  "MPXS_modperl_filter_attributes ''My'' [''FilterRequestHandler'', ''FilterHasInitHandler(init)'', ''Lvalue'', ''FilterInitHandler''] \<lparr>mg_private = 0, mg_ptr = None\<rparr> =
     Inr ([''My''], \<lparr>mg_private = 6, mg_ptr = Some ''init''\<rparr>)"
  by (subst filter_attributes_read)
    (simp_all add: parse_filter_attribute_def attr_flag_def attr_code_def MP_FILTER_HAS_INIT_HANDLER_def MP_FILTER_REQUEST_HANDLER_def)

text \<open>
  C26. The data of a filter: through any calls of \<open>ctx\<close> and whatever Perl code does to the scalars in between, nothing is used after it was freed, and
  after the cleanup of the filter each scalar has exactly the references of Perl code and one that is lost for each time it was
  undefined when it was replaced or the filter ended.
\<close>

theorem filter_ctx_refs:
  assumes "ctx_data st = None" and "\<forall>x. refcnt st x = perl_refs st x" and "ctx_run_ok ops st"
  shows "\<exists>st'. ctx_run ops st = Inr st' \<and> (\<forall>x. refcnt st' x = perl_refs st' x + ctx_lost ops st x)"
  using ctx_run_counts [of st "\<lambda>_. 0" ops] assms by (simp add: ctx_counts_def)

lemma filter_ctx_refs_witness:
  "\<exists>st'. ctx_run [CtxSet 1, CtxGet, PerlAssign 1 False, CtxSet 2] \<lparr>ctx_data = None, refcnt = (\<lambda>_. 1), defined = (\<lambda>_. True), perl_refs = (\<lambda>_. 1)\<rparr> = Inr st' \<and>
    (\<forall>x. refcnt st' x = perl_refs st' x + ctx_lost [CtxSet 1, CtxGet, PerlAssign 1 False, CtxSet 2]
        \<lparr>ctx_data = None, refcnt = (\<lambda>_. 1), defined = (\<lambda>_. True), perl_refs = (\<lambda>_. 1)\<rparr> x)"
  by (rule filter_ctx_refs) (simp_all add: mpxs_Apache2__Filter_ctx_def ctx_release_def ctx_inc_def)

text \<open>
  The init handler that is found has the attribute and is put in the field \<open>next\<close>; nothing else of the filter handler changes, nor do the configured handlers.
  This is what the resolution of handlers assumes of it.
\<close>

theorem filter_init_handler_sound:
  assumes "modperl_filter_resolve_init_handler ops cv_magic eval_pv h st = Inr (r, h', st')"
  shows "handler.truncate h' = handler.truncate h \<and>
    (h' = h \<or> (\<exists>init. next_handler h' = Some init \<and> attrs init AND MP_FILTER_INIT_HANDLER \<noteq> 0))"
proof -
  have "h' = h \<or> (\<exists>init. h' = h\<lparr>next_handler := Some init\<rparr> \<and> attrs init AND MP_FILTER_INIT_HANDLER \<noteq> 0)"
  proof (cases "mgv_cv h")
    case None
    with assms show ?thesis by (simp add: modperl_filter_resolve_init_handler_def)
  next
    case (Some symb)
    with assms obtain gv where
      *: "(case (case gv of FoundGv g \<Rightarrow> cv_magic g (perlst st) | _ \<Rightarrow> Some None) of
           None \<Rightarrow> Inr (0, h, st)
         | Some None \<Rightarrow> Inr (1, h, st)
         | Some (Some code) \<Rightarrow> init_from_code ops eval_pv symb code h st) = Inr (r, h', st')"
      by (auto simp: modperl_filter_resolve_init_handler_def and_then_eq_Inr)
    show ?thesis
    proof (cases "case gv of FoundGv g \<Rightarrow> cv_magic g (perlst st) | _ \<Rightarrow> Some None")
      case None
      with * show ?thesis by simp
    next
      case (Some m)
      with * show ?thesis by (cases m) (auto dest: init_from_code_sound)
    qed
  qed
  then show ?thesis by (auto simp: handler.truncate_def)
qed

end
