(* ===== verification/Handler_Walk.thy ===== *)
theory Handler_Walk
  imports Config
begin

text \<open>
  Resolving all configured handlers when the server starts: the walk over the configuration of httpd (\<^verbatim>\<open>src/src/modules/perl/modperl_pcw.c\<close>)
  and what \<open>modperl_mgv_hash_handlers\<close> (\<^verbatim>\<open>modperl_mgv.c\<close>) does to the handlers on the way. Each server has an interpreter, found by the address of
  its pool; \<open>pops\<close> gives the operations of the interpreter of a pool. The names of anonymous subs are unique over all
  interpreters, so one table holds those of all.
\<close>

unbundle bit_operations_syntax

section \<open>The configuration of httpd\<close>

text \<open>
  A section is a vector of configurations, of which two matter: the directory of the core and the address of mod\_perl's. An absent list of sections is \<open>None\<close>.
  \<open>perl_scfg\<close> is mod\_perl's configuration of a server; the list of servers is the chain of \<open>next\<close> pointers.
\<close>

record conf_section =
  conf_d :: "string option"
  conf_perl :: "nat option"

record server_rec =
  sec_url :: "conf_section list option"
  sec_dir :: "conf_section list option"
  sec_file :: "conf_section list option"
  lookup_defaults :: conf_section
  perl_scfg :: "nat option"

type_synonym 's dir_cb = "server_rec \<Rightarrow> nat option \<Rightarrow> string option \<Rightarrow> 's \<Rightarrow> (bool \<times> 's) res"
type_synonym 's srv_cb = "server_rec \<Rightarrow> nat \<Rightarrow> 's \<Rightarrow> (bool \<times> 's) res"

fun pcw_sections :: "'s dir_cb \<Rightarrow> server_rec \<Rightarrow> conf_section list \<Rightarrow> 's \<Rightarrow> 's res" where
  "pcw_sections cb s [] st = Inr st"
| "pcw_sections cb s (c # cs) st =
     and_then (cb s (conf_perl c) (conf_d c) st) (\<lambda>(go, st1). if go then pcw_sections cb s cs st1 else Inr st1)"

definition ap_pcw_walk_location_config :: "'s dir_cb \<Rightarrow> server_rec \<Rightarrow> 's \<Rightarrow> 's res" where
  "ap_pcw_walk_location_config cb s st = (case sec_url s of None \<Rightarrow> Inr st | Some cs \<Rightarrow> pcw_sections cb s cs st)"

definition ap_pcw_walk_directory_config :: "'s dir_cb \<Rightarrow> server_rec \<Rightarrow> 's \<Rightarrow> 's res" where
  "ap_pcw_walk_directory_config cb s st = (case sec_dir s of None \<Rightarrow> Inr st | Some cs \<Rightarrow> pcw_sections cb s cs st)"

definition ap_pcw_walk_files_config :: "'s dir_cb \<Rightarrow> server_rec \<Rightarrow> 's \<Rightarrow> 's res" where
  "ap_pcw_walk_files_config cb s st = (case sec_file s of None \<Rightarrow> Inr st | Some cs \<Rightarrow> pcw_sections cb s cs st)"

definition ap_pcw_walk_default_config :: "'s dir_cb \<Rightarrow> server_rec \<Rightarrow> 's \<Rightarrow> 's res" where
  "ap_pcw_walk_default_config cb s st =
     and_then (cb s (conf_perl (lookup_defaults s)) (conf_d (lookup_defaults s)) st) (\<lambda>(go, st1). Inr st1)"

definition ap_pcw_walk_server_config :: "'s srv_cb \<Rightarrow> server_rec \<Rightarrow> 's \<Rightarrow> 's res" where
  "ap_pcw_walk_server_config cb s st = (case perl_scfg s of
       None \<Rightarrow> Inr st
     | Some pc \<Rightarrow> and_then (cb s pc st) (\<lambda>(go, st1). Inr st1))"

fun ap_pcw_walk_config :: "'s dir_cb option \<Rightarrow> 's srv_cb option \<Rightarrow> server_rec list \<Rightarrow> 's \<Rightarrow> 's res" where
  "ap_pcw_walk_config dir_cb srv_cb [] st = Inr st"
| "ap_pcw_walk_config dir_cb srv_cb (s # ss) st =
     and_then (case dir_cb of
         None \<Rightarrow> Inr st
       | Some cb \<Rightarrow>
           and_then (ap_pcw_walk_location_config cb s st) (\<lambda>st1.
           and_then (ap_pcw_walk_directory_config cb s st1) (\<lambda>st2.
           and_then (ap_pcw_walk_files_config cb s st2) (\<lambda>st3.
             ap_pcw_walk_default_config cb s st3)))) (\<lambda>st4.
     and_then (case srv_cb of None \<Rightarrow> Inr st4 | Some cb \<Rightarrow> ap_pcw_walk_server_config cb s st4) (\<lambda>st5.
       ap_pcw_walk_config dir_cb srv_cb ss st5))"

section \<open>Resolving the handlers of an array\<close>

text \<open>
  \<open>srv_of\<close> gives the configurations of the servers, \<open>MpSrv_f_PARENT\<close> and \<open>MpSrv_f_AUTOLOAD\<close> are the generated flags. A handler without a name is not resolved again; \<open>modperl_mgv_resolve\<close>
  reads the name of any other.
\<close>

record ('t, 'p) walk_env =
  w_num :: "handler_type \<Rightarrow> nat"
  MpSrv_f_PARENT :: modperl_opts_t
  MpSrv_f_AUTOLOAD :: modperl_opts_t
  srv_of :: "nat \<Rightarrow> 't srv_cfg option"
  pops :: "nat \<Rightarrow> 'p perl_ops"

definition hash_handler :: "'p perl_ops \<Rightarrow> bool \<Rightarrow> bool \<Rightarrow> nat \<Rightarrow> 'p hstate \<Rightarrow> 'p hstate res" where
  "hash_handler ops own_parent autoload a st = and_then (get_handler st a) (\<lambda>h.
     if hflag MpHandlerFAKE_f h then Inr st
     else if hflag MpHandlerPARSED_f h then
       (if own_parent \<and> autoload
        then (case mgv_cv h of
            None \<Rightarrow> Inl NullDeref
          | Some symb \<Rightarrow> and_then (modperl_mgv_lookup (p_hash ops) (p_defstash ops (perlst st)) symb) (\<lambda>gv.
              if gv \<noteq> NoGv then Inr st
              else and_then (modperl_mgv_require_module (\<lambda>package. p_require ops package True) symb (perlst st)) (\<lambda>(_, pl).
                Inr (st\<lparr>perlst := pl\<rparr>))))
        else Inr st)
     else
       let h1 = (if autoload then hflag_on MpHandlerAUTOLOAD_f h else h) in
       case hname h1 of
         None \<Rightarrow> if hflag MpHandlerANON_f h1 then Inr (set_handler a h1 st) else Inl NullDeref
       | Some n \<Rightarrow> and_then (modperl_mgv_resolve ops h1 n True st) (\<lambda>(_, h2, st1). Inr (set_handler a h2 st1)))"

fun hash_loop :: "'p perl_ops \<Rightarrow> bool \<Rightarrow> bool \<Rightarrow> nat list \<Rightarrow> 'p hstate \<Rightarrow> 'p hstate res" where
  "hash_loop ops own_parent autoload [] st = Inr st"
| "hash_loop ops own_parent autoload (a # as) st =
     and_then (hash_handler ops own_parent autoload a st) (hash_loop ops own_parent autoload as)"

text \<open>The configuration of a server (\<open>MP_dSCFG\<close>) and its interpreter (\<open>MP_dSCFG_dTHX\<close>).\<close>

definition scfg_of :: "('t, 'p) walk_env \<Rightarrow> server_rec \<Rightarrow> 't srv_cfg res" where
  "scfg_of W s = (case Option.bind (perl_scfg s) (srv_of W) of None \<Rightarrow> Inl NullDeref | Some x \<Rightarrow> Inr x)"

definition ops_of :: "('t, 'p) walk_env \<Rightarrow> 't srv_cfg \<Rightarrow> 'p perl_ops res" where
  "ops_of W scfg = (case s_mip scfg of None \<Rightarrow> Inl NullDeref | Some i \<Rightarrow> Inr (pops W i))"

definition modperl_hash_handlers :: "('t, 'p) walk_env \<Rightarrow> 'p perl_ops \<Rightarrow> server_rec \<Rightarrow> slot \<Rightarrow> 'p hstate \<Rightarrow> 'p hstate res" where
  "modperl_hash_handlers W ops s entry st =
     and_then (scfg_of W s) (\<lambda>scfg.
       case slots st entry of
         None \<Rightarrow> Inr st
       | Some arr \<Rightarrow> and_then (get_array st arr) (\<lambda>handlers.
           hash_loop ops (opts (s_flags scfg) AND MpSrv_f_PARENT W \<noteq> 0) (opts (s_flags scfg) AND MpSrv_f_AUTOLOAD W \<noteq> 0) handlers st))"

fun hash_slots :: "('t, 'p) walk_env \<Rightarrow> 'p perl_ops \<Rightarrow> server_rec \<Rightarrow> slot list \<Rightarrow> 'p hstate \<Rightarrow> 'p hstate res" where
  "hash_slots W ops s [] st = Inr st"
| "hash_slots W ops s (e # es) st = and_then (modperl_hash_handlers W ops s e st) (hash_slots W ops s es)"

definition modperl_hash_handlers_dir :: "('t, 'p) walk_env \<Rightarrow> 'p hstate dir_cb" where
  "modperl_hash_handlers_dir W s pc d st =
     and_then (scfg_of W s) (\<lambda>scfg.
     and_then (ops_of W scfg) (\<lambda>ops.
       case pc of
         None \<Rightarrow> Inr (True, st)
       | Some dcfg \<Rightarrow> and_then (hash_slots W ops s (map (DirSlot dcfg) [0..<w_num W PER_DIR]) st) (\<lambda>st1. Inr (True, st1))))"

definition modperl_hash_handlers_srv :: "('t, 'p) walk_env \<Rightarrow> 'p hstate srv_cb" where
  "modperl_hash_handlers_srv W s pc st =
     and_then (case srv_of W pc of None \<Rightarrow> Inl UseAfterFree | Some x \<Rightarrow> Inr x) (\<lambda>scfg.
     and_then (ops_of W scfg) (\<lambda>ops.
     and_then (hash_slots W ops s (map (SrvSlot pc PER_SRV) [0..<w_num W PER_SRV]) st) (\<lambda>st1.
     and_then (hash_slots W ops s (map (SrvSlot pc PROCESS) [0..<w_num W PROCESS]) st1) (\<lambda>st2.
     and_then (hash_slots W ops s (map (SrvSlot pc CONNECTION) [0..<w_num W CONNECTION]) st2) (\<lambda>st3.
     and_then (hash_slots W ops s (map (SrvSlot pc FILES) [0..<w_num W FILES]) st3) (\<lambda>st4.
       Inr (True, st4)))))))"

definition modperl_mgv_hash_handlers :: "('t, 'p) walk_env \<Rightarrow> server_rec list \<Rightarrow> 'p hstate \<Rightarrow> 'p hstate res" where
  "modperl_mgv_hash_handlers W = ap_pcw_walk_config (Some (modperl_hash_handlers_dir W)) (Some (modperl_hash_handlers_srv W))"

section \<open>What the walk visits and what it does\<close>

text \<open>The slots the walk visits, in its order.\<close>

definition section_slots :: "('t, 'p) walk_env \<Rightarrow> conf_section list option \<Rightarrow> slot list" where
  "section_slots W cs = concat (map (\<lambda>c. case conf_perl c of None \<Rightarrow> [] | Some d \<Rightarrow> map (DirSlot d) [0..<w_num W PER_DIR])
     (case cs of None \<Rightarrow> [] | Some xs \<Rightarrow> xs))"

definition server_slots :: "('t, 'p) walk_env \<Rightarrow> server_rec \<Rightarrow> slot list" where
  "server_slots W s = section_slots W (sec_url s) @ section_slots W (sec_dir s) @ section_slots W (sec_file s) @
     section_slots W (Some [lookup_defaults s]) @
     (case perl_scfg s of None \<Rightarrow> [] | Some pc \<Rightarrow>
        concat (map (\<lambda>t. map (SrvSlot pc t) [0..<w_num W t]) [PER_SRV, PROCESS, CONNECTION, FILES]))"

definition in_slots :: "'p hstate \<Rightarrow> slot list \<Rightarrow> nat set" where
  "in_slots st es = {a. \<exists>e\<in>set es. \<exists>xs. slot_list st e = Some xs \<and> a \<in> set xs}"

lemma in_slots_simps [simp]:
  "in_slots st [] = {}"
  "in_slots st (e # es) = (case slot_list st e of None \<Rightarrow> {} | Some xs \<Rightarrow> set xs) \<union> in_slots st es"
  "in_slots st (es @ es') = in_slots st es \<union> in_slots st es'"
  by (auto simp: in_slots_def split: option.splits)

lemma in_slots_cong: "slots st' = slots st \<Longrightarrow> arrays st' = arrays st \<Longrightarrow> in_slots st' es = in_slots st es"
  by (simp add: in_slots_def slot_list_def)

text \<open>
  \<open>handlers_ready\<close>: a handler that is parsed can be called, any other has a name and was never resolved. \<open>always_found\<close>: no interpreter fails to find the name, in any state.
\<close>

definition handlers_ready :: "'p hstate \<Rightarrow> bool" where
  "handlers_ready st \<longleftrightarrow> (\<forall>a h. hobjs st a = Some h \<longrightarrow>
     (if hflag MpHandlerPARSED_f h then callable h st else hflag MpHandlerFAKE_f h \<or> (\<exists>n. hname h = Some n \<and> unresolved h n)))"

definition always_found :: "('t, 'p) walk_env \<Rightarrow> string \<Rightarrow> bool" where
  "always_found W n \<longleftrightarrow> (\<forall>m h st h' st'. modperl_mgv_resolve (pops W m) h n True st \<noteq> Inr (False, h', st'))"

definition handler_walked :: "('t, 'p) walk_env \<Rightarrow> bool \<Rightarrow> handler \<Rightarrow> handler \<Rightarrow> bool" where
  "handler_walked W visited h h' \<longleftrightarrow>
     (hflag MpHandlerFAKE_f h \<or> hflag MpHandlerPARSED_f h \<or> \<not> visited \<longrightarrow> h' = h) \<and>
     (\<not> hflag MpHandlerPARSED_f h' \<longrightarrow> hname h' = hname h \<and> hflag MpHandlerFAKE_f h' = hflag MpHandlerFAKE_f h \<and>
        (visited \<and> \<not> hflag MpHandlerFAKE_f h \<longrightarrow> \<not> (\<exists>n. hname h = Some n \<and> always_found W n)))"

definition walked :: "('t, 'p) walk_env \<Rightarrow> nat set \<Rightarrow> 'p hstate \<Rightarrow> 'p hstate \<Rightarrow> bool" where
  "walked W V st st' \<longleftrightarrow> handlers_ready st' \<and> slots st' = slots st \<and> arrays st' = arrays st \<and> anon_kept st st' \<and>
     (\<forall>a. (hobjs st a = None \<longrightarrow> a \<notin> V \<and> hobjs st' a = None) \<and>
       (\<forall>h. hobjs st a = Some h \<longrightarrow> (\<exists>h'. hobjs st' a = Some h' \<and> handler_walked W (a \<in> V) h h')))"

lemma walked_refl: "handlers_ready st \<Longrightarrow> walked W {} st st"
  by (auto simp: walked_def handler_walked_def)

lemma anon_kept_trans: "anon_kept st st1 \<Longrightarrow> anon_kept st1 st2 \<Longrightarrow> anon_kept st st2"
  by (simp add: anon_kept_def)

lemma handler_walked_trans:
  "handler_walked W v h h1 \<Longrightarrow> handler_walked W v' h1 h2 \<Longrightarrow> handler_walked W (v \<or> v') h h2"
  unfolding handler_walked_def by (cases "hflag MpHandlerPARSED_f h1"; cases "hflag MpHandlerFAKE_f h") (auto 0 3)

lemma walked_trans:
  assumes 1: "walked W V st st1" and 2: "walked W V' st1 st2"
  shows "walked W (V \<union> V') st st2"
proof -
  have "(hobjs st a = None \<longrightarrow> a \<notin> V \<union> V' \<and> hobjs st2 a = None) \<and>
      (\<forall>h. hobjs st a = Some h \<longrightarrow> (\<exists>h'. hobjs st2 a = Some h' \<and> handler_walked W (a \<in> V \<union> V') h h'))" for a
  proof (cases "hobjs st a")
    case None
    with 1 have "a \<notin> V" "hobjs st1 a = None" by (simp_all add: walked_def)
    moreover from this 2 have "a \<notin> V'" "hobjs st2 a = None" by (simp_all add: walked_def)
    ultimately show ?thesis using None by simp
  next
    case (Some h)
    with 1 obtain h1 where h1: "hobjs st1 a = Some h1" "handler_walked W (a \<in> V) h h1" unfolding walked_def by blast
    with 2 obtain h2 where "hobjs st2 a = Some h2" "handler_walked W (a \<in> V') h1 h2" unfolding walked_def by blast
    with handler_walked_trans [OF h1(2)] Some show ?thesis by auto
  qed
  then show ?thesis using 1 2 anon_kept_trans [of st st1 st2] unfolding walked_def by simp
qed

lemma ready_set:
  assumes "handlers_ready st" and "same_objs st st1" and "anon_kept st st1"
    and "if hflag MpHandlerPARSED_f h then callable h st1 else \<exists>n. hname h = Some n \<and> unresolved h n"
  shows "handlers_ready (set_handler a h st1)"
proof -
  have c: "callable g (set_handler a h st1) = callable g st1" for g by (simp add: callable_def set_handler_def)
  show ?thesis
    unfolding handlers_ready_def c
  proof (intro allI impI)
    fix b g assume g: "hobjs (set_handler a h st1) b = Some g"
    show "if hflag MpHandlerPARSED_f g then callable g st1 else hflag MpHandlerFAKE_f g \<or> (\<exists>n. hname g = Some n \<and> unresolved g n)"
    proof (cases "b = a")
      case True
      then have "g = h" using g by (simp add: set_handler_def)
      then show ?thesis using assms(4) by (auto split: if_splits)
    next
      case False
      with g assms(2) have "hobjs st b = Some g" by (simp add: set_handler_def same_objs_def)
      with assms(1) callable_kept [OF _ assms(3)] show ?thesis unfolding handlers_ready_def by metis
    qed
  qed
qed

lemma walked_set:
  assumes "handlers_ready st" and "same_objs st st1" and "anon_kept st st1" and "hobjs st a = Some h" and "handler_walked W True h h'"
    and "if hflag MpHandlerPARSED_f h' then callable h' st1 else \<exists>n. hname h' = Some n \<and> unresolved h' n"
  shows "walked W {a} st (set_handler a h' st1)"
  using ready_set [OF assms(1-3,6)] assms(2-5)
  by (auto simp: walked_def same_objs_def set_handler_def anon_kept_def handler_walked_def)

lemma callable_perlst [simp]: "callable h (st\<lparr>perlst := pl\<rparr>) = callable h st"
  by (simp add: callable_def)

lemma hash_handler_walked:
  assumes handlers_ready: "handlers_ready st" and deep: "\<And>m. deep_keeps (pops W m)"
    and run: "hash_handler (pops W m) own auto a st = Inr st'"
  shows "walked W {a} st st'"
proof -
  from run obtain h where h: "hobjs st a = Some h" by (auto simp: hash_handler_def get_handler_def split: option.splits)
  show ?thesis
  proof (cases "hflag MpHandlerFAKE_f h \<or> hflag MpHandlerPARSED_f h")
    case True
    with run h have "st' = st \<or> (\<exists>pl. st' = st\<lparr>perlst := pl\<rparr>)"
      by (auto simp: hash_handler_def get_handler_def and_then_eq_Inr split: if_splits option.splits)
    moreover have "handlers_ready (st\<lparr>perlst := pl\<rparr>)" for pl using handlers_ready by (simp add: handlers_ready_def)
    ultimately show ?thesis using True h handlers_ready by (auto simp: walked_def handler_walked_def)
  next
    case False
    with handlers_ready h obtain n where n: "hname h = Some n" "unresolved h n" by (auto simp: handlers_ready_def split: if_splits)
    define h1 where "h1 = (if auto then hflag_on MpHandlerAUTOLOAD_f h else h)"
    have h1: "hname h1 = Some n" "unresolved h1 n" "hflag MpHandlerPARSED_f h1 = hflag MpHandlerPARSED_f h"
      "hflag MpHandlerFAKE_f h1 = hflag MpHandlerFAKE_f h"
      using n by (simp_all add: h1_def unresolved_def)
    from run False h h1(1) obtain ok h2 st1 where r: "modperl_mgv_resolve (pops W m) h1 n True st = Inr (ok, h2, st1)"
      and st': "st' = set_handler a h2 st1"
      by (auto simp: hash_handler_def get_handler_def and_then_eq_Inr Let_def simp flip: h1_def)
    note s = mgv_resolve_strong [OF deep h1(2) r]
    show ?thesis
      unfolding st'
    proof (rule walked_set [OF handlers_ready _ _ h])
      have "\<not> ok \<Longrightarrow> \<not> always_found W n" using r unfolding always_found_def by metis
      then show "handler_walked W True h h2"
        using s False h1 n by (cases ok) (auto simp: handler_walked_def callable_def)
      show "if hflag MpHandlerPARSED_f h2 then callable h2 st1 else \<exists>n. hname h2 = Some n \<and> unresolved h2 n"
        using s False h1 by (cases ok) (auto simp: callable_def)
    qed (use s in auto)
  qed
qed

lemma walked_slots: "walked W V st st1 \<Longrightarrow> in_slots st1 es = in_slots st es"
  unfolding walked_def by (elim conjE, rule in_slots_cong)

lemma walked_ready: "walked W V st st1 \<Longrightarrow> handlers_ready st1"
  unfolding walked_def by (elim conjE)

lemma hash_loop_walked:
  "handlers_ready st \<Longrightarrow> (\<And>m. deep_keeps (pops W m)) \<Longrightarrow> hash_loop (pops W m) own auto as st = Inr st' \<Longrightarrow> walked W (set as) st st'"
proof (induction as arbitrary: st)
  case Nil
  then show ?case by (simp add: walked_refl)
next
  case (Cons a as)
  from Cons.prems(3) obtain st1 where 1: "hash_handler (pops W m) own auto a st = Inr st1" "hash_loop (pops W m) own auto as st1 = Inr st'"
    by (auto simp: and_then_eq_Inr)
  note w = hash_handler_walked [OF Cons.prems(1,2) 1(1)]
  from w have "handlers_ready st1" by (simp add: walked_def)
  from walked_trans [OF w Cons.IH [OF this Cons.prems(2) 1(2)]] show ?case by simp
qed

lemma hash_slots_walked:
  "handlers_ready st \<Longrightarrow> (\<And>m. deep_keeps (pops W m)) \<Longrightarrow> hash_slots W (pops W m) s es st = Inr st' \<Longrightarrow> walked W (in_slots st es) st st'"
proof (induction es arbitrary: st)
  case Nil
  then show ?case by (simp add: walked_refl)
next
  case (Cons e es)
  from Cons.prems(3) obtain st1 where 1: "modperl_hash_handlers W (pops W m) s e st = Inr st1" "hash_slots W (pops W m) s es st1 = Inr st'"
    by (auto simp: and_then_eq_Inr)
  have w: "walked W (case slot_list st e of None \<Rightarrow> {} | Some xs \<Rightarrow> set xs) st st1"
  proof (cases "slots st e")
    case None
    with 1(1) Cons.prems(1) show ?thesis by (auto simp: modperl_hash_handlers_def and_then_eq_Inr slot_list_def walked_refl)
  next
    case (Some arr)
    with 1(1) obtain xs own auto where xs: "arrays st arr = Some xs" "hash_loop (pops W m) own auto xs st = Inr st1"
      by (auto simp: modperl_hash_handlers_def and_then_eq_Inr get_array_def split: option.splits)
    from hash_loop_walked [OF Cons.prems(1,2) xs(2)] Some xs(1) show ?thesis by (simp add: slot_list_def)
  qed
  from walked_trans [OF w Cons.IH [OF walked_ready [OF w] Cons.prems(2) 1(2)]] show ?case
    by (simp add: walked_slots [OF w])
qed

lemma hash_dir_walked:
  assumes "handlers_ready st" and deep: "\<And>m. deep_keeps (pops W m)" and "modperl_hash_handlers_dir W s pc d st = Inr (go, st')"
  shows "go \<and> walked W (in_slots st (case pc of None \<Rightarrow> [] | Some dcfg \<Rightarrow> map (DirSlot dcfg) [0..<w_num W PER_DIR])) st st'"
proof (cases pc)
  case None
  with assms show ?thesis by (auto simp: modperl_hash_handlers_dir_def and_then_eq_Inr walked_refl)
next
  case (Some dcfg)
  with assms(3) obtain m where "hash_slots W (pops W m) s (map (DirSlot dcfg) [0..<w_num W PER_DIR]) st = Inr st'" "go"
    by (auto simp: modperl_hash_handlers_dir_def and_then_eq_Inr ops_of_def split: option.splits)
  with hash_slots_walked [OF assms(1) deep] Some show ?thesis by simp
qed

lemma sections_walked:
  "handlers_ready st \<Longrightarrow> (\<And>m. deep_keeps (pops W m)) \<Longrightarrow> pcw_sections (modperl_hash_handlers_dir W) s cs st = Inr st' \<Longrightarrow>
     walked W (in_slots st (section_slots W (Some cs))) st st'"
proof (induction cs arbitrary: st)
  case Nil
  then show ?case by (simp add: section_slots_def walked_refl)
next
  case (Cons c cs)
  from Cons.prems(3) obtain go st1 where 1: "modperl_hash_handlers_dir W s (conf_perl c) (conf_d c) st = Inr (go, st1)"
      "(if go then pcw_sections (modperl_hash_handlers_dir W) s cs st1 else Inr st1) = Inr st'"
    by (auto simp: and_then_eq_Inr)
  from hash_dir_walked [OF Cons.prems(1,2) 1(1)] have go: "go"
    and w: "walked W (in_slots st (case conf_perl c of None \<Rightarrow> [] | Some dcfg \<Rightarrow> map (DirSlot dcfg) [0..<w_num W PER_DIR])) st st1" by blast+
  from 1(2) go have "pcw_sections (modperl_hash_handlers_dir W) s cs st1 = Inr st'" by simp
  from walked_trans [OF w Cons.IH [OF walked_ready [OF w] Cons.prems(2) this]] show ?case
    by (simp add: section_slots_def walked_slots [OF w])
qed

lemma option_sections_walked:
  assumes "handlers_ready st" and "\<And>m. deep_keeps (pops W m)"
    and "(case cs of None \<Rightarrow> Inr st | Some xs \<Rightarrow> pcw_sections (modperl_hash_handlers_dir W) s xs st) = Inr st'"
  shows "walked W (in_slots st (section_slots W cs)) st st'"
  using assms sections_walked [of st W s] by (cases cs) (auto simp: section_slots_def walked_refl)

lemma default_walked:
  assumes "handlers_ready st" and deep: "\<And>m. deep_keeps (pops W m)"
    and "ap_pcw_walk_default_config (modperl_hash_handlers_dir W) s st = Inr st'"
  shows "walked W (in_slots st (section_slots W (Some [lookup_defaults s]))) st st'"
  using hash_dir_walked [OF assms(1) deep] assms(3)
  by (auto simp: ap_pcw_walk_default_config_def and_then_eq_Inr section_slots_def)

lemma hash_srv_walked:
  assumes "handlers_ready st" and deep: "\<And>m. deep_keeps (pops W m)" and "modperl_hash_handlers_srv W s pc st = Inr (go, st')"
  shows "walked W (in_slots st (concat (map (\<lambda>t. map (SrvSlot pc t) [0..<w_num W t]) [PER_SRV, PROCESS, CONNECTION, FILES]))) st st'"
proof -
  from assms(3) obtain m st1 st2 st3 where
      1: "hash_slots W (pops W m) s (map (SrvSlot pc PER_SRV) [0..<w_num W PER_SRV]) st = Inr st1" and
      2: "hash_slots W (pops W m) s (map (SrvSlot pc PROCESS) [0..<w_num W PROCESS]) st1 = Inr st2" and
      3: "hash_slots W (pops W m) s (map (SrvSlot pc CONNECTION) [0..<w_num W CONNECTION]) st2 = Inr st3" and
      4: "hash_slots W (pops W m) s (map (SrvSlot pc FILES) [0..<w_num W FILES]) st3 = Inr st'"
    by (auto simp: modperl_hash_handlers_srv_def and_then_eq_Inr ops_of_def split: option.splits)
  note w1 = hash_slots_walked [OF assms(1) deep 1]
  note w2 = walked_trans [OF w1 hash_slots_walked [OF walked_ready [OF w1] deep 2]]
  note w3 = walked_trans [OF w2 hash_slots_walked [OF walked_ready [OF w2] deep 3]]
  note w4 = walked_trans [OF w3 hash_slots_walked [OF walked_ready [OF w3] deep 4]]
  show ?thesis using w4 by (simp add: walked_slots [OF w1] walked_slots [OF w2] walked_slots [OF w3] Un_assoc)
qed

lemma server_walked:
  assumes "handlers_ready st" and deep: "\<And>m. deep_keeps (pops W m)"
    and "ap_pcw_walk_server_config (modperl_hash_handlers_srv W) s st = Inr st'"
  shows "walked W (in_slots st (case perl_scfg s of None \<Rightarrow> [] | Some pc \<Rightarrow>
        concat (map (\<lambda>t. map (SrvSlot pc t) [0..<w_num W t]) [PER_SRV, PROCESS, CONNECTION, FILES]))) st st'"
proof (cases "perl_scfg s")
  case None
  with assms show ?thesis by (simp add: ap_pcw_walk_server_config_def walked_refl)
next
  case (Some pc)
  with assms(3) obtain go where "modperl_hash_handlers_srv W s pc st = Inr (go, st')"
    by (auto simp: ap_pcw_walk_server_config_def and_then_eq_Inr)
  from hash_srv_walked [OF assms(1) deep this] Some show ?thesis by simp
qed

lemma hash_walk_walked:
  assumes deep: "\<And>m. deep_keeps (pops W m)"
  shows "handlers_ready st \<Longrightarrow> modperl_mgv_hash_handlers W ss st = Inr st' \<Longrightarrow>
     walked W (in_slots st (concat (map (server_slots W) ss))) st st'"
proof (induction ss arbitrary: st)
  case Nil
  then show ?case by (simp add: modperl_mgv_hash_handlers_def walked_refl)
next
  case (Cons s ss)
  let ?cb = "modperl_hash_handlers_dir W"
  from Cons.prems(2) obtain st1 st2 st3 st4 st5 where
      1: "ap_pcw_walk_location_config ?cb s st = Inr st1" and 2: "ap_pcw_walk_directory_config ?cb s st1 = Inr st2" and
      3: "ap_pcw_walk_files_config ?cb s st2 = Inr st3" and 4: "ap_pcw_walk_default_config ?cb s st3 = Inr st4" and
      5: "ap_pcw_walk_server_config (modperl_hash_handlers_srv W) s st4 = Inr st5" and
      6: "modperl_mgv_hash_handlers W ss st5 = Inr st'"
    by (auto simp: modperl_mgv_hash_handlers_def and_then_eq_Inr)
  note w1 = option_sections_walked [OF Cons.prems(1) deep 1 [unfolded ap_pcw_walk_location_config_def]]
  note w2 = walked_trans [OF w1 option_sections_walked [OF walked_ready [OF w1] deep 2 [unfolded ap_pcw_walk_directory_config_def]]]
  note w3 = walked_trans [OF w2 option_sections_walked [OF walked_ready [OF w2] deep 3 [unfolded ap_pcw_walk_files_config_def]]]
  note w4 = walked_trans [OF w3 default_walked [OF walked_ready [OF w3] deep 4]]
  note w5 = walked_trans [OF w4 server_walked [OF walked_ready [OF w4] deep 5]]
  note w6 = walked_trans [OF w5 Cons.IH [OF walked_ready [OF w5] 6]]
  show ?case
    using w6 by (simp add: server_slots_def walked_slots [OF w1] walked_slots [OF w2] walked_slots [OF w3] walked_slots [OF w4]
        walked_slots [OF w5] Un_assoc)
qed

section \<open>Properties\<close>

text \<open>
  C28. After the walk every visited handler that can be found is parsed and can be called; one that cannot is left with its name, to be tried again for each request. Handlers that
  were parsed, fake ones and all the walk does not visit are as they were: in particular those of the pre-connection phase, which are in no slot it visits.
\<close>

theorem hash_walk_resolves:
  assumes "\<And>m. deep_keeps (pops W m)" and "handlers_ready st" and "modperl_mgv_hash_handlers W ss st = Inr st'"
    and "hobjs st a = Some h"
  shows "\<exists>h'. hobjs st' a = Some h' \<and>
    (if hflag MpHandlerFAKE_f h \<or> hflag MpHandlerPARSED_f h \<or> a \<notin> in_slots st (concat (map (server_slots W) ss)) then h' = h
     else if hflag MpHandlerPARSED_f h' then callable h' st'
     else hname h' = hname h \<and> \<not> (\<exists>n. hname h = Some n \<and> always_found W n))"
proof -
  note w = hash_walk_walked [OF assms(1-3)]
  then obtain h' where h': "hobjs st' a = Some h'"
      "handler_walked W (a \<in> in_slots st (concat (map (server_slots W) ss))) h h'"
    using assms(4) unfolding walked_def by blast
  have c: "callable h' st'" if "hflag MpHandlerPARSED_f h'"
    using walked_ready [OF w] h'(1) that unfolding handlers_ready_def by auto
  show ?thesis
  proof (intro exI conjI)
    show "hobjs st' a = Some h'" by (rule h')
    show "if hflag MpHandlerFAKE_f h \<or> hflag MpHandlerPARSED_f h \<or> a \<notin> in_slots st (concat (map (server_slots W) ss)) then h' = h
     else if hflag MpHandlerPARSED_f h' then callable h' st'
     else hname h' = hname h \<and> \<not> (\<exists>n. hname h = Some n \<and> always_found W n)"
      using h'(2) c unfolding handler_walked_def by auto
  qed
qed

definition demo_walk_srv :: "modperl_opts_t \<Rightarrow> nat \<Rightarrow> (string \<times> string) list srv_cfg" where
  "demo_walk_srv fl i = demo_base_srv\<lparr>s_flags := (s_flags demo_base_srv)\<lparr>opts := fl\<rparr>, s_mip := Some i\<rparr>"

definition demo_walk_env :: "((string \<times> string) list, unit) walk_env" where
  "demo_walk_env = \<lparr>w_num = (\<lambda>t. if t = PER_SRV then 1 else 0), MpSrv_f_PARENT = 1, MpSrv_f_AUTOLOAD = 2,
     srv_of = [0 \<mapsto> demo_walk_srv 0 0, 1 \<mapsto> demo_walk_srv 3 1], pops = (\<lambda>_. demo_ops)\<rparr>"

definition demo_server :: "nat \<Rightarrow> server_rec" where
  "demo_server i = \<lparr>sec_url = None, sec_dir = Some [\<lparr>conf_d = Some ''/'', conf_perl = None\<rparr>], sec_file = None,
     lookup_defaults = \<lparr>conf_d = None, conf_perl = None\<rparr>, perl_scfg = Some i\<rparr>"

text \<open>A server and a virtual host that shares the array of handlers with it.\<close>

definition demo_walk_state :: "string \<Rightarrow> unit hstate" where
  "demo_walk_state n = demo_hstate\<lparr>hobjs := [0 \<mapsto> modperl_handler_new n], slots := [SrvSlot 0 PER_SRV 0 \<mapsto> 0, SrvSlot 1 PER_SRV 0 \<mapsto> 0]\<rparr>"

lemma demo_deep: "deep_keeps demo_ops"
  by (simp add: deep_keeps_def demo_ops_def)

lemma hash_walk_resolves_witness:
  "case modperl_mgv_hash_handlers demo_walk_env [demo_server 0] (demo_walk_state ''My::handler'') of
     Inr st' \<Rightarrow> (\<exists>h'. hobjs st' 0 = Some h' \<and> callable h' st')
   | Inl _ \<Rightarrow> False"
proof -
  let ?st = "demo_walk_state ''My::handler''"
  let ?h = "modperl_handler_new ''My::handler''"
  have "case modperl_mgv_hash_handlers demo_walk_env [demo_server 0] ?st of
      Inr st' \<Rightarrow> (case hobjs st' 0 of Some h \<Rightarrow> hflag MpHandlerPARSED_f h | None \<Rightarrow> False) | Inl _ \<Rightarrow> False"
    by code_simp
  then obtain st' where r: "modperl_mgv_hash_handlers demo_walk_env [demo_server 0] ?st = Inr st'"
    and p: "case hobjs st' 0 of Some h \<Rightarrow> hflag MpHandlerPARSED_f h | None \<Rightarrow> False" by (auto split: sum.splits)
  have h: "\<not> hflag MpHandlerPARSED_f ?h" "\<not> hflag MpHandlerFAKE_f ?h" "unresolved ?h ''My::handler''" "hname ?h = Some ''My::handler''"
    by (simp_all add: modperl_handler_new_def new_handler_obj_def hflag_def unresolved_def)
  have "handlers_ready ?st" using h by (auto simp: handlers_ready_def demo_walk_state_def)
  from hash_walk_resolves [OF _ this r, of 0 ?h] h p r show ?thesis
    by (auto simp: demo_walk_env_def demo_deep demo_walk_state_def split: if_splits option.splits)
qed

text \<open>
  An anonymous sub is in no symbol table, so its handler has no name to look up. When a virtual host with its own interpreter and autoloading visits a handler that the
  main server has resolved, the null pointer is followed: the server crashes when it starts.
\<close>

lemma hash_walk_anon_crash:
  assumes "hobjs st a = Some h" and "hflag MpHandlerPARSED_f h" and "\<not> hflag MpHandlerFAKE_f h" and "mgv_cv h = None"
  shows "hash_handler ops True True a st = Inl NullDeref"
  using assms by (simp add: hash_handler_def get_handler_def)

lemma hash_walk_anon_crash_vhost:
  "(case modperl_mgv_hash_handlers demo_walk_env [demo_server 0, demo_server 1] (demo_walk_state ''sub {1}'') of
      Inl e \<Rightarrow> e = NullDeref | Inr _ \<Rightarrow> False) \<and>
   (case modperl_mgv_hash_handlers demo_walk_env [demo_server 0] (demo_walk_state ''sub {1}'') of Inl _ \<Rightarrow> False | Inr _ \<Rightarrow> True)"
  by code_simp

end
