(* ===== verification/Child_Process.thy ===== *)
theory Child_Process
  imports Interp Cmd Perl_Global
begin

text \<open>
  The life of a child process and the changes to the Perl runtime that belong to it: the process number, \<open>exit\<close>, the END blocks, the end of an interpreter and
  the hash seed (\<^verbatim>\<open>src/src/modules/perl/modperl_perl.c\<close>, the child hooks of \<^verbatim>\<open>mod_perl.c\<close>), and the replaced opcodes (\<^verbatim>\<open>modperl_perl_pp.c\<close>).
  The build has interpreter threads and Perl 5.18 or later, so Perl itself keeps the user and group numbers.
\<close>

section \<open>The Perl runtimes of a process\<close>

text \<open>
  What mod\_perl changes in an interpreter. \<open>exit_cv\<close> is the subroutine behind \<open>CORE::GLOBAL::exit\<close>, \<open>end_blocks\<close> is \<open>PL_endav\<close>, \<open>hash_seed\<close> the bytes of
  \<open>PL_hash_seed\<close>. Of a destroyed interpreter \<open>destroyed\<close> keeps the destruct level.
\<close>

record prt =
  pid_sv :: int
  exit_cv :: string
  exit_imported :: bool
  end_blocks :: "nat list option"
  hash_seed :: "8 word list"
  hash_seed_set :: bool
  command_table :: bool
  origenviron :: bool
  destroyed :: "int option"

text \<open>
  The process: its interpreters (by the numbers the pools use), what Perl code does outside (\<open>'w\<close>), and the server pool, with the interpreters its
  cleanups destroy, in that order; \<open>None\<close> when \<open>server_pool\<close> is null.
\<close>

record ('p, 'w) process =
  ist :: "'p istate"
  rts :: "nat \<Rightarrow> prt"
  outside :: 'w
  destruct_level :: int
  server_pool :: "nat list option"
  exit_registered :: bool

definition upd_rt :: "nat \<Rightarrow> (prt \<Rightarrow> prt) \<Rightarrow> ('p, 'w) process \<Rightarrow> ('p, 'w) process" where
  "upd_rt p f st = st\<lparr>rts := (rts st)(p := f (rts st p))\<rparr>"

text \<open>The functions that are called for each interpreter change no pool, so the walk gives the interpreters and the calls follow.\<close>

fun each_perl :: "(nat \<Rightarrow> 's \<Rightarrow> 's res) \<Rightarrow> nat list \<Rightarrow> 's \<Rightarrow> 's res" where
  "each_perl f [] st = Inr st"
| "each_perl f (p # ps) st = and_then (f p st) (each_perl f ps)"

definition walk_perls ::
    "nat \<Rightarrow> nat list \<Rightarrow> (nat \<Rightarrow> ('p, 'w) process \<Rightarrow> ('p, 'w) process res) \<Rightarrow> ('p, 'w) process \<Rightarrow> ('p, 'w) process res" where
  "walk_perls s vhosts f st =
     and_then (modperl_interp_mip_walk_servers 0 s vhosts (ist st)) (\<lambda>(ps, is1). each_perl f ps (st\<lparr>ist := is1\<rparr>))"

section \<open>exit\<close>

definition MODPERL_EXIT :: string where "MODPERL_EXIT = ''ModPerl::Util::exit''"

text \<open>\<open>exit\<close> raises an exception, without a handler for \<open>die\<close> in its way; the status is not used.\<close>

definition modperl_perl_exit :: "int \<Rightarrow> 'a res" where
  "modperl_perl_exit status = Inl (Croak MODPERL_EXIT)"

definition XS_ModPerl__Util_exit :: "int list \<Rightarrow> 'a res" where
  "XS_ModPerl__Util_exit items =
     (if 1 < length items then Inl (Croak ''Usage: ModPerl::Util::exit(status=0)'')
      else modperl_perl_exit (case items of [] \<Rightarrow> 0 | i # _ \<Rightarrow> i))"

definition MP_perl_core_global_entries :: "string list" where
  "MP_perl_core_global_entries = [''exit'']"

text \<open>Each entry replaces the core function of its name; the only one is \<open>exit\<close>.\<close>

definition modperl_perl_core_global_init :: "nat \<Rightarrow> ('p, 'w) process \<Rightarrow> ('p, 'w) process" where
  "modperl_perl_core_global_init p st =
     fold (\<lambda>name. upd_rt p (\<lambda>r. r\<lparr>exit_cv := ''ModPerl::Util::'' @ name, exit_imported := True\<rparr>)) MP_perl_core_global_entries st"

section \<open>The process number\<close>

definition modperl_perl_init_ids :: "int \<Rightarrow> nat \<Rightarrow> ('p, 'w) process \<Rightarrow> ('p, 'w) process res" where
  "modperl_perl_init_ids pid p st = Inr (upd_rt p (\<lambda>r. r\<lparr>pid_sv := pid\<rparr>) st)"

definition modperl_perl_init_ids_mip :: "int \<Rightarrow> nat \<Rightarrow> ('p, 'w) process \<Rightarrow> ('p, 'w) process res" where
  "modperl_perl_init_ids_mip pid p st = modperl_perl_init_ids pid p st"

text \<open>\<open>getpid\<close> is cut to 32 bits (\<open>modperl_perl_ids_get\<close>).\<close>

definition modperl_perl_ids_get :: "int \<Rightarrow> int" where
  "modperl_perl_ids_get getpid = sint (word_of_int getpid :: 32 word)"

definition modperl_perl_init_ids_server :: "int \<Rightarrow> nat \<Rightarrow> nat list \<Rightarrow> ('p, 'w) process \<Rightarrow> ('p, 'w) process res" where
  "modperl_perl_init_ids_server getpid s vhosts st = walk_perls s vhosts (modperl_perl_init_ids_mip (modperl_perl_ids_get getpid)) st"

section \<open>END blocks and the end of an interpreter\<close>

text \<open>\<open>call p cv\<close> calls a subroutine in interpreter \<open>p\<close> and gives \<open>$@\<close>. An exception raised by the queue is not caught by anybody here.\<close>

definition perl_call_endav :: "(nat \<Rightarrow> nat \<Rightarrow> 'w \<Rightarrow> string \<times> 'w) \<Rightarrow> nat \<Rightarrow> ('p, 'w) process \<Rightarrow> ('p, 'w) process res" where
  "perl_call_endav call p st = (case end_blocks (rts st p) of
       None \<Rightarrow> Inr st
     | Some av \<Rightarrow> (case modperl_perl_call_list (call p) ''END'' av (outside st) of
         (None, w) \<Rightarrow> Inr (st\<lparr>outside := w\<rparr>)
       | (Some e, w) \<Rightarrow> Inl (Croak e)))"

definition modperl_perl_call_endav_mip :: "(nat \<Rightarrow> nat \<Rightarrow> 'w \<Rightarrow> string \<times> 'w) \<Rightarrow> nat \<Rightarrow> ('p, 'w) process \<Rightarrow> ('p, 'w) process res" where
  "modperl_perl_call_endav_mip call p st = perl_call_endav call p st"

definition modperl_perl_destruct :: "(nat \<Rightarrow> nat \<Rightarrow> 'w \<Rightarrow> string \<times> 'w) \<Rightarrow> nat \<Rightarrow> ('p, 'w) process \<Rightarrow> ('p, 'w) process res" where
  "modperl_perl_destruct call p st =
     and_then (perl_call_endav call p st) (\<lambda>st1.
       Inr (upd_rt p (\<lambda>r. r\<lparr>origenviron := True, command_table := False, destroyed := Some (destruct_level st1)\<rparr>) st1))"

section \<open>The hooks of a child\<close>

definition modperl_hook_child_init :: "int \<Rightarrow> nat \<Rightarrow> nat list \<Rightarrow> ('p, 'w) process \<Rightarrow> ('p, 'w) process res" where
  "modperl_hook_child_init getpid s vhosts st =
     and_then (modperl_perl_init_ids_server getpid s vhosts st) (\<lambda>st1. Inr (st1\<lparr>exit_registered := True\<rparr>))"

text \<open>
  The exit of a child. \<open>handlers\<close> runs the \<open>PerlChildExitHandler\<close>s and \<open>level\<close> is the environment variable \<open>PERL_DESTRUCT_LEVEL\<close>. Clearing a null pool
  follows the null pointer.
\<close>

definition modperl_child_exit ::
    "(nat \<Rightarrow> nat \<Rightarrow> 'w \<Rightarrow> string \<times> 'w) \<Rightarrow> (('p, 'w) process \<Rightarrow> ('p, 'w) process res) \<Rightarrow> string option \<Rightarrow> nat \<Rightarrow> nat list
      \<Rightarrow> ('p, 'w) process \<Rightarrow> ('p, 'w) process res" where
  "modperl_child_exit call handlers level s vhosts st =
     and_then (handlers st) (\<lambda>st1.
     let st2 = st1\<lparr>destruct_level := (case level of Some l \<Rightarrow> atoi l | None \<Rightarrow> 0)\<rparr> in
     and_then (if destruct_level st2 \<noteq> 0
               then (case server_pool st2 of None \<Rightarrow> Inl NullDeref | Some ps \<Rightarrow> each_perl (modperl_perl_destruct call) ps st2)
               else walk_perls s vhosts (modperl_perl_call_endav_mip call) st2) (\<lambda>st3.
       Inr (st3\<lparr>server_pool := None\<rparr>)))"

section \<open>The hash seed\<close>

text \<open>
  The seed is kept for all interpreters. It is the number in the environment variable \<open>PERL_HASH_SEED\<close>, when that starts with a digit after white space, or is computed from an
  UUID; unsigned arithmetic wraps. \<open>Atol\<close> of a number too big for a long gives the largest one.
\<close>

record seed_state =
  MP_init_hash_seed :: "64 word"
  MP_init_hash_seed_set :: bool

definition is_space :: "char \<Rightarrow> bool" where
  "is_space c \<longleftrightarrow> c = CHR '' '' \<or> 9 \<le> (of_char c :: nat) \<and> (of_char c :: nat) \<le> 13"

definition Atol :: "string \<Rightarrow> int" where
  "Atol s = min (atoi s) (2 ^ 63 - 1)"

fun seed_of_uuid :: "nat \<Rightarrow> string \<Rightarrow> 64 word \<Rightarrow> 64 word" where
  "seed_of_uuid i [] seed = seed"
| "seed_of_uuid i (c # cs) seed = seed_of_uuid (Suc i) cs (seed + of_nat (i + 1) * (of_char c + seed))"

definition modperl_hash_seed_init :: "string option \<Rightarrow> string \<Rightarrow> seed_state \<Rightarrow> seed_state" where
  "modperl_hash_seed_init env uuid st0 =
     (let st = (case env of
          None \<Rightarrow> st0
        | Some s0 \<Rightarrow> let s = dropWhile is_space s0 in
            if s \<noteq> [] \<and> is_digit (hd s) then \<lparr>MP_init_hash_seed = word_of_int (Atol s), MP_init_hash_seed_set = True\<rparr> else st0)
      in if \<not> MP_init_hash_seed_set st
         then \<lparr>MP_init_hash_seed = seed_of_uuid 0 uuid (MP_init_hash_seed st), MP_init_hash_seed_set = True\<rparr>
         else st)"

text \<open>The seed is copied byte by byte into \<open>PL_hash_seed\<close>, as much of it as fits (little-endian).\<close>

definition modperl_hash_seed_set :: "seed_state \<Rightarrow> nat \<Rightarrow> ('p, 'w) process \<Rightarrow> ('p, 'w) process" where
  "modperl_hash_seed_set ss p st =
     (if MP_init_hash_seed_set ss
      then upd_rt p (\<lambda>r. r\<lparr>hash_seed := (let n = min 8 (length (hash_seed r)) in
               map (\<lambda>i. ucast (drop_bit (8 * i) (MP_init_hash_seed ss))) [0..<n] @ drop n (hash_seed r)),
             hash_seed_set := True\<rparr>) st
      else st)"

section \<open>Replaced opcodes\<close>

text \<open>
  \<open>PL_ppaddr\<close> maps an opcode of Perl to its function, \<open>MP_PERL_ppaddr\<close> keeps the function that was replaced; the only opcode is \<open>require\<close>, and the function that
  replaces it calls the one kept. Opcode 0 stands for \<open>OP_REQUIRE\<close>, \<open>Ours\<close> is \<open>modperl_pp_require\<close>. With fuel the calls of a chain are counted.
\<close>

datatype pp_fun = Core nat | Ours

record pp_state =
  PL_ppaddr :: "nat \<Rightarrow> pp_fun"
  MP_PERL_ppaddr :: "nat \<Rightarrow> pp_fun"

definition MP_pp_map :: "nat \<Rightarrow> nat" where "MP_pp_map idx = idx"

definition modperl_perl_pp_set :: "nat \<Rightarrow> pp_state \<Rightarrow> pp_state" where
  "modperl_perl_pp_set idx st =
     st\<lparr>MP_PERL_ppaddr := (MP_PERL_ppaddr st)(idx := PL_ppaddr st (MP_pp_map idx)), PL_ppaddr := (PL_ppaddr st)(MP_pp_map idx := Ours)\<rparr>"

definition modperl_perl_pp_unset :: "nat \<Rightarrow> pp_state \<Rightarrow> pp_state" where
  "modperl_perl_pp_unset idx st = st\<lparr>PL_ppaddr := (PL_ppaddr st)(MP_pp_map idx := MP_PERL_ppaddr st idx)\<rparr>"

definition MP_OP_max :: nat where "MP_OP_max = 1"

definition modperl_perl_pp_set_all :: "pp_state \<Rightarrow> pp_state" where
  "modperl_perl_pp_set_all st = fold modperl_perl_pp_set [0..<MP_OP_max] st"

definition modperl_perl_pp_unset_all :: "pp_state \<Rightarrow> pp_state" where
  "modperl_perl_pp_unset_all st = fold modperl_perl_pp_unset [0..<MP_OP_max] st"

fun pp_call :: "nat \<Rightarrow> pp_fun \<Rightarrow> pp_state \<Rightarrow> nat res" where
  "pp_call 0 f st = Inl Diverges"
| "pp_call (Suc fuel) (Core n) st = Inr n"
| "pp_call (Suc fuel) Ours st = pp_call fuel (MP_PERL_ppaddr st 0) st"

section \<open>Lemmas\<close>

lemma rts_upd_rt [simp]: "rts (upd_rt p f st) q = (if q = p then f (rts st p) else rts st q)"
  by (simp add: upd_rt_def)

lemma upd_rt_fields [simp]:
  "ist (upd_rt p f st) = ist st" "outside (upd_rt p f st) = outside st" "server_pool (upd_rt p f st) = server_pool st"
  "destruct_level (upd_rt p f st) = destruct_level st"
  by (simp_all add: upd_rt_def)

text \<open>A walk without a context of its own is one in the current context.\<close>

lemma mip_walk_current: "modperl_interp_mip_walk 0 pl m st = modperl_interp_mip_walk (thx (iw st)) pl m st"
  by (simp add: modperl_interp_mip_walk_def)

lemma mip_walk_state: "modperl_interp_mip_walk (thx (iw st)) pl m st = Inr (ps, st1) \<Longrightarrow> st1 = st"
  by (auto simp: modperl_interp_mip_walk_def and_then_eq_Inr split: if_splits)

lemma walk_loop_current: "walk_servers_loop 0 bm bpl ss st = walk_servers_loop (thx (iw st)) bm bpl ss st"
proof (induction ss)
  case (Cons s ss)
  show ?case
    unfolding walk_servers_loop.simps Let_def mip_walk_current [of _ _ st]
    by (intro and_then_cong refl) (auto simp: Cons.IH split: if_splits dest!: mip_walk_state intro!: and_then_cong)
qed simp

lemma walk_servers_current: "modperl_interp_mip_walk_servers 0 s ss st = modperl_interp_mip_walk_servers (thx (iw st)) s ss st"
  unfolding modperl_interp_mip_walk_servers_def mip_walk_current [of _ _ st]
  by (intro and_then_cong refl) (auto simp: walk_loop_current dest!: mip_walk_state intro!: and_then_cong)

text \<open>The parents of all servers are walked too.\<close>

lemma walk_loop_parents:
  "walk_servers_loop (thx (iw st)) bm bpl ss st = Inr (qs, st1) \<Longrightarrow> s \<in> set ss \<Longrightarrow> srv_mip s st = Inr (m, pl) \<Longrightarrow> pl \<noteq> 0 \<Longrightarrow>
     pl = bpl \<or> pl \<in> set qs"
proof (induction ss arbitrary: qs)
  case (Cons r rs)
  from Cons.prems(1) obtain m' pl' ps st2 qs2 where
      1: "srv_mip r st = Inr (m', pl')" and
      2: "(if (if pl' = bpl then 0 else pl') \<noteq> 0 \<or> (if m' = bm then None else Some m') \<noteq> None
           then modperl_interp_mip_walk (thx (iw st)) (if pl' = bpl then 0 else pl') (if m' = bm then None else Some m') st
           else Inr ([], st)) = Inr (ps, st2)" and
      3: "walk_servers_loop (thx (iw st)) bm bpl rs st2 = Inr (qs2, st1)" and qs: "qs = ps @ qs2"
    by (auto simp: and_then_eq_Inr Let_def)
  from 2 have st2: "st2 = st" by (auto split: if_splits dest!: mip_walk_state)
  show ?case
  proof (cases "s = r")
    case True
    with 1 Cons.prems(3) have "m' = m" "pl' = pl" by simp_all
    with 2 Cons.prems(4) qs show ?thesis by (auto simp: modperl_interp_mip_walk_def and_then_eq_Inr split: if_splits)
  next
    case False
    with Cons.IH [of qs2] Cons.prems(2-4) 3 st2 qs show ?thesis by auto
  qed
qed simp

lemma walk_servers_parents:
  assumes "modperl_interp_mip_walk_servers (thx (iw st)) s ss st = Inr (ps, st1)" and "r \<in> set (s # ss)"
    and "srv_mip r st = Inr (m, pl)" and "pl \<noteq> 0"
  shows "pl \<in> set ps"
proof -
  from assms(1) obtain bm bpl qs st2 qs2 where
      1: "srv_mip s st = Inr (bm, bpl)" and 2: "modperl_interp_mip_walk (thx (iw st)) bpl (Some bm) st = Inr (qs, st2)" and
      3: "walk_servers_loop (thx (iw st)) bm bpl ss st2 = Inr (qs2, st1)" and ps: "ps = qs @ qs2"
    by (auto simp: modperl_interp_mip_walk_servers_def and_then_eq_Inr)
  from 2 have st2: "st2 = st" by (rule mip_walk_state)
  have base: "bpl \<noteq> 0 \<Longrightarrow> bpl \<in> set ps" using 2 ps by (auto simp: modperl_interp_mip_walk_def and_then_eq_Inr)
  show ?thesis
  proof (cases "r = s")
    case True
    with 1 assms(3,4) base show ?thesis by simp
  next
    case False
    with assms(2) have "r \<in> set ss" by simp
    from walk_loop_parents [OF 3 [unfolded st2] this assms(3,4)] base assms(4) ps show ?thesis by auto
  qed
qed

lemma each_init_ids:
  "\<exists>st'. each_perl (modperl_perl_init_ids_mip pid) ps st = Inr st' \<and> ist st' = ist st \<and> outside st' = outside st \<and>
     server_pool st' = server_pool st \<and> (\<forall>p. rts st' p = (if p \<in> set ps then (rts st p)\<lparr>pid_sv := pid\<rparr> else rts st p))"
proof (induction ps arbitrary: st)
  case (Cons p ps)
  from Cons [of "upd_rt p (\<lambda>r. r\<lparr>pid_sv := pid\<rparr>) st"] show ?case
    by (auto simp: modperl_perl_init_ids_mip_def modperl_perl_init_ids_def)
qed simp

text \<open>The END blocks of interpreters, in the order they run.\<close>

definition end_calls :: "('p, 'w) process \<Rightarrow> nat list \<Rightarrow> (nat \<times> nat) list" where
  "end_calls st ps = concat (map (\<lambda>p. map (Pair p) (case end_blocks (rts st p) of None \<Rightarrow> [] | Some av \<Rightarrow> av)) ps)"

lemma call_list_quiet:
  "(\<And>cv w. fst (call cv w) = []) \<Longrightarrow> modperl_perl_call_list call nm av w = (None, fold (\<lambda>cv w. snd (call cv w)) av w)"
proof (induction av arbitrary: w)
  case (Cons cv av)
  from Cons.prems [of cv w] Cons.IH [OF Cons.prems] show ?case by (simp add: case_prod_unfold)
qed simp

lemma call_endav_quiet:
  assumes "\<And>q cv w. fst (call q cv w) = []"
  shows "perl_call_endav call p st = Inr (st\<lparr>outside := fold (\<lambda>(q, cv) w. snd (call q cv w)) (end_calls st [p]) (outside st)\<rparr>)"
proof -
  have "fold (\<lambda>cv w. snd (call p cv w)) av w = fold (\<lambda>(q, cv) w. snd (call q cv w)) (map (Pair p) av) w" for av w
    by (induction av arbitrary: w) simp_all
  then show ?thesis using assms
    by (cases "end_blocks (rts st p)") (simp_all add: perl_call_endav_def end_calls_def call_list_quiet)
qed

lemma end_calls_simps: "end_calls st (p # ps) = end_calls st [p] @ end_calls st ps"
  by (simp add: end_calls_def)

lemma end_calls_cong: "(\<And>p. end_blocks (rts st' p) = end_blocks (rts st p)) \<Longrightarrow> end_calls st' ps = end_calls st ps"
  by (simp add: end_calls_def)

lemma each_endav_quiet:
  assumes "\<And>q cv w. fst (call q cv w) = []"
  shows "each_perl (modperl_perl_call_endav_mip call) ps st =
    Inr (st\<lparr>outside := fold (\<lambda>(q, cv) w. snd (call q cv w)) (end_calls st ps) (outside st)\<rparr>)"
proof (induction ps arbitrary: st)
  case Nil
  then show ?case by (simp add: end_calls_def)
next
  case (Cons p ps)
  have "end_calls (st\<lparr>outside := w\<rparr>) ps = end_calls st ps" for w by (rule end_calls_cong) simp
  then show ?case
    using Cons.IH by (simp add: modperl_perl_call_endav_mip_def call_endav_quiet [OF assms] end_calls_simps [of st p ps])
qed

lemma each_destruct_quiet:
  assumes "\<And>q cv w. fst (call q cv w) = []"
  shows "\<exists>st'. each_perl (modperl_perl_destruct call) ps st = Inr st' \<and> destruct_level st' = destruct_level st \<and>
    outside st' = fold (\<lambda>(q, cv) w. snd (call q cv w)) (end_calls st ps) (outside st) \<and>
    (\<forall>p. end_blocks (rts st' p) = end_blocks (rts st p) \<and>
      destroyed (rts st' p) = (if p \<in> set ps then Some (destruct_level st) else destroyed (rts st p)))"
proof (induction ps arbitrary: st)
  case Nil
  then show ?case by (simp add: end_calls_def)
next
  case (Cons p ps)
  let ?w = "fold (\<lambda>(q, cv) w. snd (call q cv w)) (end_calls st [p]) (outside st)"
  let ?st = "upd_rt p (\<lambda>r. r\<lparr>origenviron := True, command_table := False, destroyed := Some (destruct_level st)\<rparr>) (st\<lparr>outside := ?w\<rparr>)"
  have 1: "modperl_perl_destruct call p st = Inr ?st"
    by (simp add: modperl_perl_destruct_def call_endav_quiet [OF assms])
  have 2: "end_calls ?st ps = end_calls st ps" by (rule end_calls_cong) simp
  from Cons.IH [of ?st] obtain st' where st': "each_perl (modperl_perl_destruct call) ps ?st = Inr st'"
      "destruct_level st' = destruct_level st"
      "outside st' = fold (\<lambda>(q, cv) w. snd (call q cv w)) (end_calls st ps) ?w"
      "\<forall>q. end_blocks (rts st' q) = end_blocks (rts ?st q) \<and>
        destroyed (rts st' q) = (if q \<in> set ps then Some (destruct_level st) else destroyed (rts ?st q))"
    unfolding 2 by auto
  show ?case
    by (rule exI [of _ st']) (use st' in \<open>simp add: 1 end_calls_simps [of st p ps]\<close>)
qed

section \<open>Properties\<close>

text \<open>
  When a child process starts, \<open>$$\<close> becomes its number in the parent interpreter of every server and in every idle interpreter of every pool,
  and the exit of the child is registered.
\<close>

theorem child_init_pids:
  assumes "srv_ok api (ist st) s I" and "list_all2 (srv_ok api (ist st)) ss Is" and "thx (iw (ist st)) \<noteq> 0"
  shows "\<exists>st'. modperl_hook_child_init getpid s ss st = Inr st' \<and> exit_registered st' \<and>
    (\<forall>J\<in>set (I # Is). \<forall>a\<in>set J. pid_sv (rts st' (perl (the (interps (iw (ist st)) a)))) = modperl_perl_ids_get getpid) \<and>
    (\<forall>r\<in>set (s # ss). \<exists>m pl. srv_mip r (ist st) = Inr (m, pl) \<and> pid_sv (rts st' pl) = modperl_perl_ids_get getpid)"
proof -
  obtain ps is1 where run: "modperl_interp_mip_walk_servers (thx (iw (ist st))) s ss (ist st) = Inr (ps, is1)"
    and idle: "\<forall>J\<in>set (I # Is). (\<lambda>a. perl (the (interps (iw (ist st)) a))) ` set J \<subseteq> set ps"
    using walk_servers_run [OF assms] by metis
  obtain st1 where st1: "each_perl (modperl_perl_init_ids_mip (modperl_perl_ids_get getpid)) ps (st\<lparr>ist := is1\<rparr>) = Inr st1"
      "\<forall>p. rts st1 p = (if p \<in> set ps then (rts st p)\<lparr>pid_sv := modperl_perl_ids_get getpid\<rparr> else rts st p)"
    using each_init_ids [of "modperl_perl_ids_get getpid" ps "st\<lparr>ist := is1\<rparr>"] by auto
  have pid: "p \<in> set ps \<Longrightarrow> pid_sv (rts st1 p) = modperl_perl_ids_get getpid" for p using st1(2) by simp
  have "modperl_hook_child_init getpid s ss st = Inr (st1\<lparr>exit_registered := True\<rparr>)"
    using st1(1) run by (simp add: modperl_hook_child_init_def modperl_perl_init_ids_server_def walk_perls_def walk_servers_current)
  moreover have "\<exists>m pl. srv_mip r (ist st) = Inr (m, pl) \<and> pid_sv (rts st1 pl) = modperl_perl_ids_get getpid"
    if r: "r \<in> set (s # ss)" for r
  proof -
    from r assms(1,2) obtain J where "srv_ok api (ist st) r J"
      by (auto simp: list_all2_conv_all_nth in_set_conv_nth)
    then obtain m B pl where "srv_mip r (ist st) = Inr (m, pl)" "pl \<noteq> 0" by (rule srv_mip_run)
    with walk_servers_parents [OF run r] pid show ?thesis by blast
  qed
  moreover have "\<forall>J\<in>set (I # Is). \<forall>a\<in>set J. pid_sv (rts st1 (perl (the (interps (iw (ist st)) a)))) = modperl_perl_ids_get getpid"
    using idle pid by blast
  ultimately show ?thesis by (intro exI [of _ "st1\<lparr>exit_registered := True\<rparr>"]) simp
qed

definition demo_prt :: prt where
  "demo_prt = \<lparr>pid_sv = 1, exit_cv = [], exit_imported = False, end_blocks = Some [7], hash_seed = [0, 0, 0, 0], hash_seed_set = False,
     command_table = True, origenviron = False, destroyed = None\<rparr>"

definition demo_process :: "(unit, (nat \<times> nat) list) process" where
  "demo_process = \<lparr>ist = demo_state demo_cfg SCOPE_UNDEF, rts = (\<lambda>_. demo_prt), outside = [], destruct_level = 2,
     server_pool = Some [1], exit_registered = False\<rparr>"

lemma child_init_pids_witness:
  "\<exists>st'. modperl_hook_child_init 4711 0 [] demo_process = Inr st' \<and> pid_sv (rts st' 1) = 4711"
proof -
  have ok: "srv_ok demo_api (ist demo_process) 0 []"
    using demo_mip_inv [of demo_cfg SCOPE_UNDEF] unfolding srv_ok_def by (auto simp: demo_process_def demo_state_def)
  have t: "thx (iw (ist demo_process)) \<noteq> 0" by (simp add: demo_process_def demo_state_def demo_world_def)
  have m: "srv_mip 0 (ist demo_process) = Inr (0, 1)"
    by (simp add: demo_process_def demo_state_def demo_world_def srv_mip_def get_interp_obj_def)
  have p: "modperl_perl_ids_get 4711 = 4711" by (simp add: modperl_perl_ids_get_def)
  from child_init_pids [OF ok _ t, of "[]" "[]" 4711] m p show ?thesis by auto
qed

text \<open>
  When a child exits and no END block fails, the END blocks of each interpreter run once for each time the interpreter comes up, in their order: of the interpreters of all servers,
  which stay as they are, when no destruct level is given or it is 0, and of those the server pool destroys, with that level, otherwise. Afterwards there is no
  server pool.
\<close>

theorem child_exit_end_blocks:
  assumes "\<And>q cv w. fst (call q cv w) = []" and "handlers st = Inr st1"
    and "modperl_child_exit call handlers level s ss st = Inr st'"
  shows "\<exists>ps. outside st' = fold (\<lambda>(q, cv) w. snd (call q cv w)) (end_calls st1 ps) (outside st1) \<and> server_pool st' = None \<and>
    (if level = None \<or> atoi (the level) = 0
     then (\<exists>is1. modperl_interp_mip_walk_servers 0 s ss (ist st1) = Inr (ps, is1)) \<and> (\<forall>p. destroyed (rts st' p) = destroyed (rts st1 p))
     else server_pool st1 = Some ps \<and> (\<forall>p\<in>set ps. destroyed (rts st' p) = Some (atoi (the level))))"
proof (cases "level = None \<or> atoi (the level) = 0")
  case True
  then have z: "(case level of Some l \<Rightarrow> atoi l | None \<Rightarrow> 0) = 0" by (cases level) auto
  from assms(2,3) obtain ps is1 where w: "modperl_interp_mip_walk_servers 0 s ss (ist st1) = Inr (ps, is1)"
    and r: "each_perl (modperl_perl_call_endav_mip call) ps (st1\<lparr>destruct_level := 0, ist := is1\<rparr>) = Inr (st'\<lparr>server_pool := server_pool st1\<rparr>)"
      "server_pool st' = None"
    by (auto simp: modperl_child_exit_def Let_def z walk_perls_def and_then_eq_Inr each_endav_quiet [OF assms(1)])
  have "end_calls (st1\<lparr>destruct_level := 0, ist := is1\<rparr>) ps = end_calls st1 ps" by (rule end_calls_cong) simp
  with r(1) have st': "st1\<lparr>destruct_level := 0, ist := is1, outside := fold (\<lambda>(q, cv) w. snd (call q cv w)) (end_calls st1 ps) (outside st1)\<rparr> =
      st'\<lparr>server_pool := server_pool st1\<rparr>" by (simp add: each_endav_quiet [OF assms(1)])
  from arg_cong [OF st', of outside] arg_cong [OF st', of rts]
  show ?thesis using True w r(2) by (intro exI [of _ ps]) auto
next
  case False
  then obtain l where l: "level = Some l" "atoi l \<noteq> 0" by auto
  with assms(2,3) obtain ps st3 where ps: "server_pool st1 = Some ps"
      "each_perl (modperl_perl_destruct call) ps (st1\<lparr>destruct_level := atoi l\<rparr>) = Inr st3" "st' = st3\<lparr>server_pool := None\<rparr>"
    by (auto simp: modperl_child_exit_def Let_def and_then_eq_Inr split: option.splits)
  have "end_calls (st1\<lparr>destruct_level := atoi l\<rparr>) ps = end_calls st1 ps" by (rule end_calls_cong) simp
  with each_destruct_quiet [of call ps "st1\<lparr>destruct_level := atoi l\<rparr>", OF assms(1)] ps l
  show ?thesis by (intro exI [of _ ps]) auto
qed

lemma child_exit_end_blocks_witness:
  "\<exists>st'. modperl_child_exit (\<lambda>q cv w. ([], w @ [(q, cv)])) (\<lambda>st. Inr st) (Some ''2'') 0 [] demo_process = Inr st' \<and>
     outside st' = [(1, 7)] \<and> destroyed (rts st' 1) = Some 2"
proof -
  let ?call = "\<lambda>(q::nat) (cv::nat) w. ([] :: string, w @ [(q, cv)])"
  have a: "atoi ''2'' = 2" by code_simp
  obtain st' where r: "modperl_child_exit ?call (\<lambda>st. Inr st) (Some ''2'') 0 [] demo_process = Inr st'"
    by (simp add: modperl_child_exit_def a demo_process_def demo_prt_def modperl_perl_destruct_def perl_call_endav_def)
  have c: "fst (?call q cv w) = []" for q cv w by simp
  from child_exit_end_blocks [of ?call, OF c refl r] r show ?thesis
    by (auto simp: a demo_process_def end_calls_def demo_prt_def)
qed

text \<open>An END block that fails takes the rest of the queue with it: neither the END blocks behind it nor those of other interpreters run.\<close>

lemma child_exit_end_failure:
  assumes "end_blocks (rts st p) = Some (cv # cvs)" and "fst (call p cv (outside st)) \<noteq> []"
  shows "\<exists>e. each_perl (modperl_perl_call_endav_mip call) (p # ps) st = Inl (Croak e)"
  using assms by (auto simp: modperl_perl_call_endav_mip_def perl_call_endav_def split: prod.splits)

text \<open>
  Replacing the opcodes and putting them back leaves Perl as it was, and in between \<open>require\<close> still ends in the function of Perl. Replaced a second time it would call itself
  for ever; \<open>modperl_hook_init\<close> prevents that.
\<close>

theorem perl_pp_roundtrip:
  "PL_ppaddr (modperl_perl_pp_unset_all (modperl_perl_pp_set_all st)) = PL_ppaddr st \<and>
   pp_call (Suc (Suc fuel)) (PL_ppaddr (modperl_perl_pp_set_all st) 0) (modperl_perl_pp_set_all st) =
     (case PL_ppaddr st 0 of Core n \<Rightarrow> Inr n | Ours \<Rightarrow> Inl Diverges)"
proof -
  have loop: "MP_PERL_ppaddr s 0 = Ours \<Longrightarrow> pp_call n Ours s = Inl Diverges" for n s
    by (induction n) simp_all
  show ?thesis
    by (cases "PL_ppaddr st 0")
      (auto simp: modperl_perl_pp_unset_all_def modperl_perl_pp_set_all_def MP_OP_max_def modperl_perl_pp_set_def modperl_perl_pp_unset_def
        MP_pp_map_def loop)
qed

text \<open>Every interpreter that is set up gets the same seed, and a seed once made stays through restarts.\<close>

lemma hash_seed_once:
  "modperl_hash_seed_init None uuid' (modperl_hash_seed_init env uuid st) = modperl_hash_seed_init env uuid st"
  by (auto simp: modperl_hash_seed_init_def Let_def split: option.splits)

lemma hash_seed_shared:
  assumes "length (hash_seed (rts st p)) = 8" and "length (hash_seed (rts st q)) = 8"
  shows "hash_seed (rts (modperl_hash_seed_set (modperl_hash_seed_init env uuid ss) p st) p) =
    hash_seed (rts (modperl_hash_seed_set (modperl_hash_seed_init env uuid ss) q st) q)"
  using assms by (auto simp: modperl_hash_seed_set_def modperl_hash_seed_init_def Let_def split: option.splits)

end
