(* ===== verification/Apr_Perlio.thy ===== *)
theory Apr_Perlio
  imports Prelude
begin

text \<open>
  The PerlIO layer \<open>:APR\<close>, \<^verbatim>\<open>src/xs/APR/PerlIO/modperl_apr_perlio.c\<close>: files of APR as Perl file handles. The functions of APR are parameters, and so is
  \<open>PerlIOBase_close\<close> of Perl; the stack of layers of a handle is modelled. The build has PerlIO layers and no tracing.
\<close>

unbundle bit_operations_syntax

section \<open>State\<close>

text \<open>
  A layer has its APR file and pool and the flags of PerlIO; a new layer is zero. \<open>stacks\<close> gives the layers of a handle, the topmost first. \<open>layer_defined\<close> says that Perl knows the name \<open>APR\<close>. Handles of
  APR files are numbers, \<open>0\<close> is the null pointer.
\<close>

record PerlIOAPR =
  a_file :: nat
  a_pool :: nat
  PERLIO_F_OPEN :: bool
  PERLIO_F_EOF :: bool
  PERLIO_F_ERROR :: bool

definition new_layer :: PerlIOAPR where
  "new_layer = \<lparr>a_file = 0, a_pool = 0, PERLIO_F_OPEN = False, PERLIO_F_EOF = False, PERLIO_F_ERROR = False\<rparr>"

record 'w pio =
  stacks :: "nat \<Rightarrow> PerlIOAPR list option"
  pio_brk :: nat
  layer_defined :: bool
  fs :: 'w

record 'w apr_file_ops =
  apr_file_open :: "string \<Rightarrow> 32 word \<Rightarrow> nat \<Rightarrow> 'w \<Rightarrow> int \<times> nat \<times> 'w"
  apr_file_dup :: "nat \<Rightarrow> nat \<Rightarrow> 'w \<Rightarrow> int \<times> nat \<times> 'w"
  apr_file_read :: "nat \<Rightarrow> nat \<Rightarrow> 'w \<Rightarrow> int \<times> string \<times> 'w"
  apr_file_write :: "nat \<Rightarrow> string \<Rightarrow> 'w \<Rightarrow> int \<times> nat \<times> 'w"
  apr_file_flush :: "nat \<Rightarrow> 'w \<Rightarrow> int \<times> 'w"
  apr_file_seek :: "nat \<Rightarrow> nat \<Rightarrow> int \<Rightarrow> 'w \<Rightarrow> int \<times> int \<times> 'w"
  apr_file_eof :: "nat \<Rightarrow> 'w \<Rightarrow> int"
  apr_file_close :: "nat \<Rightarrow> 'w \<Rightarrow> int \<times> 'w"

definition APR_EACCES :: int where "APR_EACCES = 13"
definition APR_EOF :: int where "APR_EOF = 70014"

definition APR_READ :: "32 word" where "APR_READ = 0x1"
definition APR_WRITE :: "32 word" where "APR_WRITE = 0x2"
definition APR_CREATE :: "32 word" where "APR_CREATE = 0x4"
definition APR_APPEND :: "32 word" where "APR_APPEND = 0x8"
definition APR_TRUNCATE :: "32 word" where "APR_TRUNCATE = 0x10"
definition APR_BINARY :: "32 word" where "APR_BINARY = 0x20"
definition APR_BUFFERED :: "32 word" where "APR_BUFFERED = 0x80"

lemmas apr_flags = APR_READ_def APR_WRITE_def APR_CREATE_def APR_APPEND_def APR_TRUNCATE_def APR_BINARY_def APR_BUFFERED_def

section \<open>Layers of a handle\<close>

definition PerlIO_push :: "nat option \<Rightarrow> 'w pio \<Rightarrow> nat \<times> 'w pio" where
  "PerlIO_push f st = (case f of
       None \<Rightarrow> (pio_brk st, st\<lparr>stacks := (stacks st)(pio_brk st \<mapsto> [new_layer]), pio_brk := Suc (pio_brk st)\<rparr>)
     | Some g \<Rightarrow> (g, st\<lparr>stacks := (stacks st)(g \<mapsto> new_layer # (case stacks st g of Some ls \<Rightarrow> ls | None \<Rightarrow> []))\<rparr>))"

definition PerlIO_pop :: "nat \<Rightarrow> 'w pio \<Rightarrow> 'w pio" where
  "PerlIO_pop f st = st\<lparr>stacks := (stacks st)(f := map_option tl (stacks st f))\<rparr>"

definition PerlIOSelf :: "nat \<Rightarrow> 'w pio \<Rightarrow> PerlIOAPR res" where
  "PerlIOSelf f st = (case stacks st f of Some (l # _) \<Rightarrow> Inr l | Some [] \<Rightarrow> Inl NullDeref | None \<Rightarrow> Inl UseAfterFree)"

definition set_top :: "nat \<Rightarrow> (PerlIOAPR \<Rightarrow> PerlIOAPR) \<Rightarrow> 'w pio \<Rightarrow> 'w pio" where
  "set_top f g st = (case stacks st f of Some (l # ls) \<Rightarrow> st\<lparr>stacks := (stacks st)(f \<mapsto> g l # ls)\<rparr> | _ \<Rightarrow> st)"

section \<open>Opening\<close>

text \<open>An argument of \<open>open\<close>: a string, an object (its number is taken for a pool, whatever its class), another reference, or nothing of these.\<close>

datatype open_arg = PathArg string | PoolArg nat | RefArg string | UndefArg

definition is_pok_or_rok :: "open_arg \<Rightarrow> bool" where
  "is_pok_or_rok a \<longleftrightarrow> a \<noteq> UndefArg"

fun arg_pv :: "open_arg \<Rightarrow> string" where
  "arg_pv (PathArg s) = s"
| "arg_pv (PoolArg p) = ''APR::Pool''"
| "arg_pv (RefArg s) = s"
| "arg_pv UndefArg = []"

definition open_flags :: "string \<Rightarrow> 32 word res" where
  "open_flags mode =
     (if mode \<noteq> [] \<and> hd mode = CHR ''a'' then Inr (APR_APPEND OR APR_CREATE OR APR_BUFFERED OR APR_BINARY)
      else if mode \<noteq> [] \<and> hd mode = CHR ''w'' then Inr (APR_WRITE OR APR_CREATE OR APR_TRUNCATE OR APR_BUFFERED OR APR_BINARY)
      else if mode \<noteq> [] \<and> hd mode = CHR ''r'' then Inr (APR_READ OR APR_BUFFERED OR APR_BINARY)
      else Inl (Croak ''unknown open mode''))"

text \<open>\<open>layer_arg\<close> is \<open>PerlIOArg\<close>, used when there is no argument. The path is the last argument but one, whether there is one or not.\<close>

definition PerlIOAPR_open ::
    "'w apr_file_ops \<Rightarrow> open_arg \<Rightarrow> string \<Rightarrow> nat option \<Rightarrow> open_arg list \<Rightarrow> 'w pio \<Rightarrow> (nat option \<times> 'w pio) res" where
  "PerlIOAPR_open F layer_arg mode fo args st =
     (if \<not> is_pok_or_rok (if args = [] then layer_arg else hd args) then Inr (None, st)
      else let (f, st1) = PerlIO_push fo st in
        if length args < 2 then Inl OutOfBounds
        else and_then (open_flags mode) (\<lambda>flags.
          case last args of
            PoolArg p \<Rightarrow>
              (let path = arg_pv (args ! (length args - 2));
                   (rc, h, w) = apr_file_open F path flags p (fs st1);
                   st2 = set_top f (\<lambda>l. l\<lparr>a_file := h, a_pool := p\<rparr>) (st1\<lparr>fs := w\<rparr>)
               in if rc \<noteq> APR_SUCCESS then Inr (None, PerlIO_pop f st2)
                  else Inr (Some f, set_top f (\<lambda>l. l\<lparr>PERLIO_F_OPEN := True\<rparr>) st2))
          | _ \<Rightarrow> Inl (Croak ''argument is not a blessed reference'')))"

definition PerlIOAPR_fileno :: "nat \<Rightarrow> int" where "PerlIOAPR_fileno f = -1"

text \<open>\<open>PerlIOBase_dup\<close> has pushed a new layer on \<open>f\<close> when it succeeds.\<close>

definition PerlIOAPR_dup :: "'w apr_file_ops \<Rightarrow> bool \<Rightarrow> nat option \<Rightarrow> nat \<Rightarrow> 'w pio \<Rightarrow> (nat option \<times> 'w pio) res" where
  "PerlIOAPR_dup F base_dup fo old st =
     (if \<not> base_dup then Inr (None, st)
      else let (f, st1) = PerlIO_push fo st in
        and_then (PerlIOSelf old st) (\<lambda>ost.
          let (rc, h, w) = apr_file_dup F (a_file ost) (a_pool ost) (fs st1);
              st2 = set_top f (\<lambda>l. l\<lparr>a_file := h\<rparr>) (st1\<lparr>fs := w\<rparr>)
          in if rc = APR_SUCCESS then Inr (Some f, set_top f (\<lambda>l. l\<lparr>a_pool := a_pool ost\<rparr>) st2) else Inr (None, st2)))"

section \<open>Reading and writing\<close>

definition PerlIOAPR_read :: "'w apr_file_ops \<Rightarrow> nat \<Rightarrow> nat \<Rightarrow> 'w pio \<Rightarrow> (string \<times> 'w pio) res" where
  "PerlIOAPR_read F f count st = and_then (PerlIOSelf f st) (\<lambda>l.
     let (rc, buf, w) = apr_file_read F (a_file l) count (fs st); st1 = st\<lparr>fs := w\<rparr> in
     if rc = APR_EOF then Inr (buf, set_top f (\<lambda>l. l\<lparr>PERLIO_F_EOF := True\<rparr>) st1)
     else if rc \<noteq> APR_SUCCESS then Inl (Croak ''APR::PerlIO::read'')
     else Inr (buf, st1))"

definition PerlIOAPR_write :: "'w apr_file_ops \<Rightarrow> nat \<Rightarrow> string \<Rightarrow> 'w pio \<Rightarrow> (int \<times> 'w pio) res" where
  "PerlIOAPR_write F f buf st = and_then (PerlIOSelf f st) (\<lambda>l.
     let (rc, count, w) = apr_file_write F (a_file l) buf (fs st); st1 = st\<lparr>fs := w\<rparr> in
     if rc = APR_SUCCESS then Inr (int count, st1)
     else Inr (-1, set_top f (\<lambda>l. l\<lparr>PERLIO_F_ERROR := True\<rparr>) st1))"

definition PerlIOAPR_flush :: "'w apr_file_ops \<Rightarrow> nat \<Rightarrow> 'w pio \<Rightarrow> (int \<times> 'w pio) res" where
  "PerlIOAPR_flush F f st = and_then (PerlIOSelf f st) (\<lambda>l.
     let (rc, w) = apr_file_flush F (a_file l) (fs st); st1 = st\<lparr>fs := w\<rparr> in
     if rc = APR_SUCCESS then Inr (0, st1) else Inr (-1, set_top f (\<lambda>l. l\<lparr>PERLIO_F_ERROR := True\<rparr>) st1))"

text \<open>\<open>conflict\<close> is \<open>MP_LARGE_FILES_CONFLICT\<close>. \<open>PerlIO_flush\<close> is the flush of the layer.\<close>

definition PerlIOAPR_seek :: "'w apr_file_ops \<Rightarrow> bool \<Rightarrow> nat \<Rightarrow> int \<Rightarrow> int \<Rightarrow> 'w pio \<Rightarrow> (int \<times> 'w pio) res" where
  "PerlIOAPR_seek F conflict f offset whence st = and_then (PerlIOSelf f st) (\<lambda>l.
     if conflict \<and> offset \<noteq> 0 then Inl (Croak ''PerlIO::APR::seek with non-zero offset is not supported'')
     else let seek_offset = (if conflict then 0 else offset) in
     and_then (PerlIOAPR_flush F f st) (\<lambda>(code, st1).
       if code \<noteq> 0 then Inr (-1, st1)
       else if whence \<noteq> 0 \<and> whence \<noteq> 1 \<and> whence \<noteq> 2 then Inl (Croak ''unknown whence mode'')
       else let (rc, pos, w) = apr_file_seek F (a_file l) (nat whence) seek_offset (fs st1) in
         Inr (if rc = APR_SUCCESS then 0 else -1, st1\<lparr>fs := w\<rparr>)))"

definition PerlIOAPR_tell :: "'w apr_file_ops \<Rightarrow> nat \<Rightarrow> 'w pio \<Rightarrow> (int \<times> 'w pio) res" where
  "PerlIOAPR_tell F f st = and_then (PerlIOSelf f st) (\<lambda>l.
     let (rc, pos, w) = apr_file_seek F (a_file l) 1 0 (fs st) in
     Inr (if rc = APR_SUCCESS then pos else -1, st\<lparr>fs := w\<rparr>))"

text \<open>\<open>dirty\<close>: Perl is being destructed; the handle is then left open with a warning.\<close>

definition PerlIOAPR_close ::
    "'w apr_file_ops \<Rightarrow> (nat \<Rightarrow> 'w pio \<Rightarrow> int \<times> 'w pio) \<Rightarrow> bool \<Rightarrow> nat \<Rightarrow> 'w pio \<Rightarrow> (int \<times> 'w pio) res" where
  "PerlIOAPR_close F base_close dirty f st = and_then (PerlIOSelf f st) (\<lambda>l.
     let (code, st1) = base_close f st in
     if dirty then Inr (-1, st1)
     else let (rc, w) = apr_file_flush F (a_file l) (fs st1); st2 = st1\<lparr>fs := w\<rparr> in
       if rc \<noteq> APR_SUCCESS then Inr (-1, st2)
       else let (rc, w) = apr_file_close F (a_file l) (fs st2); st3 = st2\<lparr>fs := w\<rparr> in
         Inr (if rc \<noteq> APR_SUCCESS then -1 else code, st3))"

definition PerlIOAPR_eof :: "'w apr_file_ops \<Rightarrow> nat \<Rightarrow> 'w pio \<Rightarrow> int res" where
  "PerlIOAPR_eof F f st = and_then (PerlIOSelf f st) (\<lambda>l. Inr (if apr_file_eof F (a_file l) (fs st) = APR_EOF then 1 else 0))"

definition PerlIOAPR_noop_fail :: "nat \<Rightarrow> int" where "PerlIOAPR_noop_fail f = -1"

definition modperl_apr_perlio_init :: "'w pio \<Rightarrow> 'w pio" where
  "modperl_apr_perlio_init st = st\<lparr>layer_defined := True\<rparr>"

section \<open>APR files as Perl globs\<close>

datatype perlio_hook = HOOK_READ | HOOK_WRITE | HOOK_OTHER int

text \<open>
  The handle is allocated, and the layer is pushed on it. The result of \<open>PerlIO_apply_layers\<close> is not looked at; the test that follows is of the handle again. Without the layer there is
  nothing to store the file in.
\<close>

definition modperl_apr_perlio_apr_file_to_PerlIO :: "bool \<Rightarrow> nat \<Rightarrow> nat \<Rightarrow> perlio_hook \<Rightarrow> 'w pio \<Rightarrow> (nat \<times> 'w pio) res" where
  "modperl_apr_perlio_apr_file_to_PerlIO allocated file pool hook st =
     (if \<not> allocated then Inl (Croak ''Failed to allocate PerlIO struct'')
      else if (case hook of HOOK_OTHER _ \<Rightarrow> True | _ \<Rightarrow> False) then Inl (Croak ''unknown MODPERL_APR_PERLIO type'')
      else let f = pio_brk st;
               st1 = (if layer_defined st then snd (PerlIO_push None st) else st\<lparr>stacks := (stacks st)(f \<mapsto> []), pio_brk := Suc f\<rparr>)
      in and_then (PerlIOSelf f st1) (\<lambda>_. Inr (f, set_top f (\<lambda>l. l\<lparr>a_pool := pool, a_file := file, PERLIO_F_OPEN := True\<rparr>) st1)))"

record glob_io =
  IoIFP :: "nat option"
  IoOFP :: "nat option"
  IOf_FLUSH :: bool
  IoTYPE :: char

definition modperl_apr_perlio_PerlIO_to_glob :: "nat \<Rightarrow> perlio_hook \<Rightarrow> glob_io" where
  "modperl_apr_perlio_PerlIO_to_glob pio hook = (case hook of
       HOOK_WRITE \<Rightarrow> \<lparr>IoIFP = Some pio, IoOFP = Some pio, IOf_FLUSH = True, IoTYPE = CHR ''>''\<rparr>
     | HOOK_READ \<Rightarrow> \<lparr>IoIFP = Some pio, IoOFP = None, IOf_FLUSH = False, IoTYPE = CHR ''<''\<rparr>
     | HOOK_OTHER _ \<Rightarrow> \<lparr>IoIFP = None, IoOFP = None, IOf_FLUSH = False, IoTYPE = CHR 0x00\<rparr>)"

definition modperl_apr_perlio_apr_file_to_glob :: "bool \<Rightarrow> nat \<Rightarrow> nat \<Rightarrow> perlio_hook \<Rightarrow> 'w pio \<Rightarrow> (glob_io \<times> 'w pio) res" where
  "modperl_apr_perlio_apr_file_to_glob allocated file pool hook st =
     and_then (modperl_apr_perlio_apr_file_to_PerlIO allocated file pool hook st) (\<lambda>(f, st1).
       Inr (modperl_apr_perlio_PerlIO_to_glob f hook, st1))"

section \<open>A file written and read back\<close>

text \<open>What Perl code does: write strings one after the other, and read blocks until one is empty.\<close>

fun print_all :: "'w apr_file_ops \<Rightarrow> nat \<Rightarrow> string list \<Rightarrow> 'w pio \<Rightarrow> (bool \<times> 'w pio) res" where
  "print_all F f [] st = Inr (True, st)"
| "print_all F f (s # ss) st = and_then (PerlIOAPR_write F f s st) (\<lambda>(n, st1).
     if n = int (length s) then print_all F f ss st1 else Inr (False, st1))"

fun slurp :: "nat \<Rightarrow> 'w apr_file_ops \<Rightarrow> nat \<Rightarrow> nat \<Rightarrow> 'w pio \<Rightarrow> (string \<times> 'w pio) res" where
  "slurp 0 F f n st = Inl Diverges"
| "slurp (Suc fuel) F f n st = and_then (PerlIOAPR_read F f n st) (\<lambda>(s, st1).
     if s = [] then Inr ([], st1) else and_then (slurp fuel F f n st1) (\<lambda>(t, st2). Inr (s @ t, st2)))"

text \<open>
  What the functions of APR promise for one path when nothing fails. \<open>out w h\<close> is what has been written to a file opened for writing, \<open>rest w h\<close> what is left of a file opened for reading, \<open>content w\<close> what is in the
  file. Reading gives at least one byte if any is left and any is wanted.
\<close>

record 'w file_view =
  out :: "'w \<Rightarrow> nat \<Rightarrow> string option"
  rest :: "'w \<Rightarrow> nat \<Rightarrow> string option"
  content :: "'w \<Rightarrow> string option"

definition writes_ok :: "'w apr_file_ops \<Rightarrow> 'w file_view \<Rightarrow> string \<Rightarrow> bool" where
  "writes_ok F V path \<longleftrightarrow>
     (\<forall>p w. \<exists>h w'. apr_file_open F path (APR_WRITE OR APR_CREATE OR APR_TRUNCATE OR APR_BUFFERED OR APR_BINARY) p w = (APR_SUCCESS, h, w') \<and>
        out V w' h = Some []) \<and>
     (\<forall>w h s d. out V w h = Some s \<longrightarrow> (\<exists>w'. apr_file_write F h d w = (APR_SUCCESS, length d, w') \<and> out V w' h = Some (s @ d))) \<and>
     (\<forall>w h s. out V w h = Some s \<longrightarrow> (\<exists>w'. apr_file_flush F h w = (APR_SUCCESS, w') \<and> out V w' h = Some s)) \<and>
     (\<forall>w h s. out V w h = Some s \<longrightarrow> (\<exists>w'. apr_file_close F h w = (APR_SUCCESS, w') \<and> content V w' = Some s))"

definition reads_ok :: "'w apr_file_ops \<Rightarrow> 'w file_view \<Rightarrow> string \<Rightarrow> bool" where
  "reads_ok F V path \<longleftrightarrow>
     (\<forall>p w s. content V w = Some s \<longrightarrow> (\<exists>h w'. apr_file_open F path (APR_READ OR APR_BUFFERED OR APR_BINARY) p w = (APR_SUCCESS, h, w') \<and>
        rest V w' h = Some s)) \<and>
     (\<forall>w h s n. rest V w h = Some s \<longrightarrow> 0 < n \<longrightarrow> (\<exists>k w'. k \<le> n \<and> k \<le> length s \<and> (s \<noteq> [] \<longrightarrow> 0 < k) \<and>
        apr_file_read F h n w = (if s = [] then APR_EOF else APR_SUCCESS, take k s, w') \<and> rest V w' h = Some (drop k s)))"

definition base_close_ok :: "(nat \<Rightarrow> 'w pio \<Rightarrow> int \<times> 'w pio) \<Rightarrow> bool" where
  "base_close_ok bc \<longleftrightarrow> (\<forall>f st. fst (bc f st) = 0 \<and> fs (snd (bc f st)) = fs st)"

lemma APR_EOF_neq [simp]: "APR_EOF \<noteq> APR_SUCCESS" "APR_SUCCESS \<noteq> APR_EOF"
  by (simp_all add: APR_EOF_def APR_SUCCESS_def)

lemma set_top_fields [simp]: "fs (set_top f g st) = fs st"
  by (simp add: set_top_def split: option.splits list.splits)

lemma PerlIOSelf_set_top: "PerlIOSelf f st = Inr l \<Longrightarrow> PerlIOSelf f (set_top f g st) = Inr (g l)"
  by (auto simp: PerlIOSelf_def set_top_def split: option.splits list.splits)

lemma PerlIOSelf_fs [simp]: "PerlIOSelf f (st\<lparr>fs := w\<rparr>) = PerlIOSelf f st"
  by (simp add: PerlIOSelf_def)

lemma PerlIOSelf_push: "PerlIO_push fo st = (f, st1) \<Longrightarrow> PerlIOSelf f st1 = Inr new_layer \<and> fs st1 = fs st"
  by (auto simp: PerlIO_push_def PerlIOSelf_def split: option.splits)

lemma open_run:
  assumes "open_flags mode = Inr flags" and "apr_file_open F path flags p (fs st) = (APR_SUCCESS, h, w)"
  shows "\<exists>f st1 l. PerlIOAPR_open F arg mode fo [PathArg path, PoolArg p] st = Inr (Some f, st1) \<and> fs st1 = w \<and>
    PerlIOSelf f st1 = Inr l \<and> a_file l = h"
proof -
  obtain f st1 where p: "PerlIO_push fo st = (f, st1)" by fastforce
  note q = PerlIOSelf_push [OF p]
  let ?st2 = "set_top f (\<lambda>l. l\<lparr>a_file := h, a_pool := p\<rparr>) (st1\<lparr>fs := w\<rparr>)"
  have "PerlIOSelf f ?st2 = Inr (new_layer\<lparr>a_file := h, a_pool := p\<rparr>)" using q by (intro PerlIOSelf_set_top) simp
  from PerlIOSelf_set_top [OF this, of "\<lambda>l. l\<lparr>PERLIO_F_OPEN := True\<rparr>"] show ?thesis
    using assms p q by (simp add: PerlIOAPR_open_def is_pok_or_rok_def Let_def)
qed

lemma print_all_run:
  assumes V: "writes_ok F V path"
  shows "PerlIOSelf f st = Inr l \<Longrightarrow> out V (fs st) (a_file l) = Some s \<Longrightarrow>
    \<exists>st'. print_all F f ss st = Inr (True, st') \<and> PerlIOSelf f st' = Inr l \<and> out V (fs st') (a_file l) = Some (s @ concat ss)"
proof (induction ss arbitrary: st s)
  case (Cons d ss)
  from V Cons.prems(2) obtain w' where w: "apr_file_write F (a_file l) d (fs st) = (APR_SUCCESS, length d, w')"
      "out V w' (a_file l) = Some (s @ d)" unfolding writes_ok_def by metis
  from Cons.IH [of "st\<lparr>fs := w'\<rparr>" "s @ d"] Cons.prems(1) w show ?case by (auto simp: PerlIOAPR_write_def)
qed simp

lemma close_run:
  assumes V: "writes_ok F V path" and "base_close_ok bc" and "PerlIOSelf f st = Inr l" and "out V (fs st) (a_file l) = Some s"
  shows "\<exists>st'. PerlIOAPR_close F bc False f st = Inr (0, st') \<and> content V (fs st') = Some s"
proof -
  obtain c st1 where b: "bc f st = (c, st1)" by fastforce
  with assms(2) have c: "c = 0" "fs st1 = fs st" unfolding base_close_ok_def by (metis fst_conv, metis snd_conv)
  from V assms(4) obtain w1 where 1: "apr_file_flush F (a_file l) (fs st) = (APR_SUCCESS, w1)" "out V w1 (a_file l) = Some s"
    unfolding writes_ok_def by metis
  from V 1(2) obtain w2 where 2: "apr_file_close F (a_file l) w1 = (APR_SUCCESS, w2)" "content V w2 = Some s"
    unfolding writes_ok_def by metis
  show ?thesis using assms(3) b c 1 2 by (simp add: PerlIOAPR_close_def)
qed

lemma slurp_run:
  assumes V: "reads_ok F V path" and "0 < n"
  shows "PerlIOSelf f st = Inr l \<Longrightarrow> rest V (fs st) (a_file l) = Some s \<Longrightarrow> length s < fuel \<Longrightarrow>
    \<exists>st'. slurp fuel F f n st = Inr (s, st') \<and> (\<exists>l'. PerlIOSelf f st' = Inr l' \<and> PERLIO_F_EOF l')"
proof (induction fuel arbitrary: st s l)
  case (Suc fuel)
  from V Suc.prems(2) \<open>0 < n\<close> obtain k w' where k: "k \<le> n" "k \<le> length s" "s \<noteq> [] \<longrightarrow> 0 < k"
      "apr_file_read F (a_file l) n (fs st) = (if s = [] then APR_EOF else APR_SUCCESS, take k s, w')"
      "rest V w' (a_file l) = Some (drop k s)" unfolding reads_ok_def by metis
  show ?case
  proof (cases "s = []")
    case True
    with k Suc.prems(1) PerlIOSelf_set_top [of f "st\<lparr>fs := w'\<rparr>" l "\<lambda>l. l\<lparr>PERLIO_F_EOF := True\<rparr>"] show ?thesis
      by (simp add: PerlIOAPR_read_def)
  next
    case False
    then have lt: "length (drop k s) < fuel" "take k s \<noteq> []" using k(2,3) Suc.prems(3) by auto
    from Suc.IH [of "st\<lparr>fs := w'\<rparr>" l "drop k s"] Suc.prems(1) k(5) lt(1) obtain st' where
        "slurp fuel F f n (st\<lparr>fs := w'\<rparr>) = Inr (drop k s, st')" "\<exists>l'. PerlIOSelf f st' = Inr l' \<and> PERLIO_F_EOF l'" by auto
    then show ?thesis using False k(4) lt(2) Suc.prems(1) by (simp add: PerlIOAPR_read_def)
  qed
qed simp

section \<open>Properties\<close>

text \<open>
  C20. What is printed to a file through the layer is read back through it: the file is opened for writing, any strings are printed and it is closed; when it is
  opened again for reading, reading in blocks of any size ends, with all that was printed, and with the end-of-file flag set.
\<close>

theorem perlio_write_read:
  assumes "writes_ok F V path" and "reads_ok F V path" and "base_close_ok bc" and "0 < n"
  shows "\<exists>f st1 st2 st3 g st4 st5. PerlIOAPR_open F arg ''w'' fo [PathArg path, PoolArg p] st = Inr (Some f, st1) \<and>
    print_all F f ss st1 = Inr (True, st2) \<and> PerlIOAPR_close F bc False f st2 = Inr (0, st3) \<and>
    PerlIOAPR_open F arg ''r'' fo [PathArg path, PoolArg p] st3 = Inr (Some g, st4) \<and>
    slurp (Suc (length (concat ss))) F g n st4 = Inr (concat ss, st5) \<and> (\<exists>l. PerlIOSelf g st5 = Inr l \<and> PERLIO_F_EOF l)"
proof -
  have fw: "open_flags ''w'' = Inr (APR_WRITE OR APR_CREATE OR APR_TRUNCATE OR APR_BUFFERED OR APR_BINARY)"
    and fr: "open_flags ''r'' = Inr (APR_READ OR APR_BUFFERED OR APR_BINARY)" by (simp_all add: open_flags_def)
  obtain h w where 1: "apr_file_open F path (APR_WRITE OR APR_CREATE OR APR_TRUNCATE OR APR_BUFFERED OR APR_BINARY) p (fs st) = (APR_SUCCESS, h, w)"
      "out V w h = Some []" using assms(1) unfolding writes_ok_def by metis
  from open_run [OF fw 1(1)] obtain f st1 l where o1: "PerlIOAPR_open F arg ''w'' fo [PathArg path, PoolArg p] st = Inr (Some f, st1)"
      "fs st1 = w" "PerlIOSelf f st1 = Inr l" "a_file l = h" by blast
  from print_all_run [OF assms(1) o1(3), of "[]" ss] 1(2) o1(2,4) obtain st2 where 2: "print_all F f ss st1 = Inr (True, st2)"
      "PerlIOSelf f st2 = Inr l" "out V (fs st2) (a_file l) = Some (concat ss)" by auto
  from close_run [OF assms(1,3) 2(2,3)] obtain st3 where 3: "PerlIOAPR_close F bc False f st2 = Inr (0, st3)"
      "content V (fs st3) = Some (concat ss)" by blast
  obtain h' w' where 4: "apr_file_open F path (APR_READ OR APR_BUFFERED OR APR_BINARY) p (fs st3) = (APR_SUCCESS, h', w')"
      "rest V w' h' = Some (concat ss)" using assms(2) 3(2) unfolding reads_ok_def by metis
  from open_run [OF fr 4(1)] obtain g st4 l' where o2: "PerlIOAPR_open F arg ''r'' fo [PathArg path, PoolArg p] st3 = Inr (Some g, st4)"
      "fs st4 = w'" "PerlIOSelf g st4 = Inr l'" "a_file l' = h'" by blast
  from slurp_run [OF assms(2,4) o2(3), of "concat ss" "Suc (length (concat ss))"] 4(2) o2(2,4) obtain st5 where
      "slurp (Suc (length (concat ss))) F g n st4 = Inr (concat ss, st5)" "\<exists>l. PerlIOSelf g st5 = Inr l \<and> PERLIO_F_EOF l" by auto
  with o1(1) 2(1) 3(1) o2(1) show ?thesis by blast
qed

text \<open>One file in memory: its content, what has been written, and what is left to read.\<close>

definition mem_file :: "(string \<times> string \<times> string) apr_file_ops" where
  "mem_file = \<lparr>apr_file_open = (\<lambda>path flags p (c, x, r). if flags AND APR_WRITE \<noteq> 0 then (APR_SUCCESS, 1, ([], [], r))
       else if flags AND APR_READ \<noteq> 0 then (APR_SUCCESS, 1, (c, x, c)) else (APR_EACCES, 0, (c, x, r))),
     apr_file_dup = (\<lambda>h p w. (APR_SUCCESS, h, w)),
     apr_file_read = (\<lambda>h n (c, x, r). if r = [] then (APR_EOF, [], (c, x, r)) else (APR_SUCCESS, take n r, (c, x, drop n r))),
     apr_file_write = (\<lambda>h s (c, x, r). (APR_SUCCESS, length s, (c, x @ s, r))),
     apr_file_flush = (\<lambda>h w. (APR_SUCCESS, w)), apr_file_seek = (\<lambda>h where off w. (APR_SUCCESS, 0, w)),
     apr_file_eof = (\<lambda>h (c, x, r). if r = [] then APR_EOF else APR_SUCCESS),
     apr_file_close = (\<lambda>h (c, x, r). (APR_SUCCESS, (x, x, r)))\<rparr>"

definition mem_view :: "(string \<times> string \<times> string) file_view" where
  "mem_view = \<lparr>out = (\<lambda>(c, x, r) h. Some x), rest = (\<lambda>(c, x, r) h. Some r), content = (\<lambda>(c, x, r). Some c)\<rparr>"

lemma mem_writes_ok: "writes_ok mem_file mem_view path"
  by (auto simp: writes_ok_def mem_file_def mem_view_def apr_flags)

lemma mem_reads_ok: "reads_ok mem_file mem_view path"
proof -
  have "\<exists>k\<le>n. k \<le> length r \<and> (r \<noteq> [] \<longrightarrow> 0 < k) \<and> take n r = take k r \<and> drop n r = drop k r" if "0 < n" for n and r :: string
    by (rule exI [of _ "min n (length r)"]) (use that in \<open>auto simp: min_def\<close>)
  then show ?thesis by (auto simp: reads_ok_def mem_file_def mem_view_def apr_flags)
qed

definition demo_pio :: "(string \<times> string \<times> string) pio" where
  "demo_pio = \<lparr>stacks = Map.empty, pio_brk = 0, layer_defined = True, fs = ([], [], [])\<rparr>"

lemma perlio_write_read_witness:
  "\<exists>f st1 st2 st3 g st4 st5. PerlIOAPR_open mem_file UndefArg ''w'' None [PathArg ''f'', PoolArg 0] demo_pio = Inr (Some f, st1) \<and>
    print_all mem_file f [''hello '', ''world''] st1 = Inr (True, st2) \<and> PerlIOAPR_close mem_file (\<lambda>f st. (0, st)) False f st2 = Inr (0, st3) \<and>
    PerlIOAPR_open mem_file UndefArg ''r'' None [PathArg ''f'', PoolArg 0] st3 = Inr (Some g, st4) \<and>
    slurp (Suc (length (concat [''hello '', ''world'']))) mem_file g 4 st4 = Inr (concat [''hello '', ''world''], st5) \<and>
    (\<exists>l. PerlIOSelf g st5 = Inr l \<and> PERLIO_F_EOF l)"
  by (rule perlio_write_read [OF mem_writes_ok mem_reads_ok]) (simp_all add: base_close_ok_def)

text \<open>
  Opening a file to append to it always fails: the flags ask neither for reading nor for writing, and APR then opens nothing. The file itself is not touched.
\<close>

lemma perlio_append_fails:
  assumes "\<And>path flags p w. flags AND (APR_READ OR APR_WRITE) = 0 \<Longrightarrow> apr_file_open F path flags p w = (APR_EACCES, 0, w)"
  shows "\<exists>st'. PerlIOAPR_open F arg ''a'' fo [PathArg path, PoolArg p] st = Inr (None, st') \<and> fs st' = fs st"
proof -
  obtain f st1 where p: "PerlIO_push fo st = (f, st1)" by fastforce
  have "(APR_APPEND OR APR_CREATE OR APR_BUFFERED OR APR_BINARY) AND (APR_READ OR APR_WRITE) = 0" by (simp add: apr_flags)
  then show ?thesis using assms p PerlIOSelf_push [OF p]
    by (simp add: PerlIOAPR_open_def is_pok_or_rok_def open_flags_def Let_def APR_EACCES_def APR_SUCCESS_def PerlIO_pop_def)
qed

text \<open>A file opened with a file name only reads the argument before the first.\<close>

lemma perlio_open_no_pool:
  "PerlIOAPR_open F arg mode fo [PathArg path] st = Inl OutOfBounds"
  by (simp add: PerlIOAPR_open_def is_pok_or_rok_def case_prod_unfold Let_def)

text \<open>Without the layer, a file of APR is not turned into a handle: the test for it looks at the wrong variable.\<close>

lemma perlio_no_layer:
  "\<not> layer_defined st \<Longrightarrow> modperl_apr_perlio_apr_file_to_PerlIO True file p HOOK_READ st = Inl NullDeref"
  by (simp add: modperl_apr_perlio_apr_file_to_PerlIO_def PerlIOSelf_def Let_def)

end
