(* ===== verification/Apr_Brigade.thy ===== *)
theory Apr_Brigade
  imports Prelude
begin

text \<open>
  Bucket brigades as Perl code handles them (\<^verbatim>\<open>src/xs/APR/Brigade/APR__Brigade.h\<close> and the operations on the links of buckets in
  \<^verbatim>\<open>src/xs/APR/Bucket/APR__Bucket.h\<close>), and the strings that data of APR is read into (\<open>flatten\<close>, and \<open>recv\<close> and \<open>send\<close> of
  \<^verbatim>\<open>src/xs/APR/Socket/APR__Socket.h\<close>). The macros of APR for rings are assignments of pointers, and are modelled as such.
\<close>

section \<open>Rings\<close>

text \<open>A node is a bucket or the sentinel of a brigade; every node has a next and a previous one.\<close>

datatype node = Bucket nat | Sentinel nat

record ring =
  nxt :: "node \<Rightarrow> node"
  prv :: "node \<Rightarrow> node"

definition set_nxt :: "node \<Rightarrow> node \<Rightarrow> ring \<Rightarrow> ring" where
  "set_nxt x y r = r\<lparr>nxt := (nxt r)(x := y)\<rparr>"

definition set_prv :: "node \<Rightarrow> node \<Rightarrow> ring \<Rightarrow> ring" where
  "set_prv x y r = r\<lparr>prv := (prv r)(x := y)\<rparr>"

definition ring_init :: "nat \<Rightarrow> ring \<Rightarrow> ring" where
  "ring_init bb r = set_prv (Sentinel bb) (Sentinel bb) (set_nxt (Sentinel bb) (Sentinel bb) r)"

definition splice_before :: "node \<Rightarrow> node \<Rightarrow> node \<Rightarrow> ring \<Rightarrow> ring" where
  "splice_before lep ep1 epN r =
     (let r1 = set_nxt epN lep r; r2 = set_prv ep1 (prv r1 lep) r1; r3 = set_nxt (prv r2 lep) ep1 r2 in set_prv lep epN r3)"

definition splice_after :: "node \<Rightarrow> node \<Rightarrow> node \<Rightarrow> ring \<Rightarrow> ring" where
  "splice_after lep ep1 epN r =
     (let r1 = set_prv ep1 lep r; r2 = set_nxt epN (nxt r1 lep) r1; r3 = set_prv (nxt r2 lep) epN r2 in set_nxt lep ep1 r3)"

definition unsplice :: "node \<Rightarrow> node \<Rightarrow> ring \<Rightarrow> ring" where
  "unsplice ep1 epN r = (let r1 = set_nxt (prv r ep1) (nxt r epN) r in set_prv (nxt r1 epN) (prv r1 ep1) r1)"

section \<open>Brigades\<close>

definition mpxs_APR__Brigade_first :: "nat \<Rightarrow> ring \<Rightarrow> node option" where
  "mpxs_APR__Brigade_first bb r = (if nxt r (Sentinel bb) = Sentinel bb then None else Some (nxt r (Sentinel bb)))"

definition mpxs_APR__Brigade_last :: "nat \<Rightarrow> ring \<Rightarrow> node option" where
  "mpxs_APR__Brigade_last bb r = (if prv r (Sentinel bb) = Sentinel bb then None else Some (prv r (Sentinel bb)))"

definition mpxs_APR__Brigade_next :: "nat \<Rightarrow> node \<Rightarrow> ring \<Rightarrow> node option" where
  "mpxs_APR__Brigade_next bb b r = (if nxt r b = Sentinel bb then None else Some (nxt r b))"

definition mpxs_APR__Brigade_prev :: "nat \<Rightarrow> node \<Rightarrow> ring \<Rightarrow> node option" where
  "mpxs_APR__Brigade_prev bb b r = (if prv r b = Sentinel bb then None else Some (prv r b))"

definition mpxs_APR__Brigade_insert_tail :: "nat \<Rightarrow> node \<Rightarrow> ring \<Rightarrow> ring" where
  "mpxs_APR__Brigade_insert_tail bb b r = splice_before (Sentinel bb) b b r"

definition mpxs_APR__Brigade_insert_head :: "nat \<Rightarrow> node \<Rightarrow> ring \<Rightarrow> ring" where
  "mpxs_APR__Brigade_insert_head bb b r = splice_after (Sentinel bb) b b r"

definition mpxs_APR__Brigade_is_empty :: "nat \<Rightarrow> ring \<Rightarrow> bool" where
  "mpxs_APR__Brigade_is_empty bb r \<longleftrightarrow> nxt r (Sentinel bb) = Sentinel bb"

definition mpxs_APR__Brigade_concat :: "nat \<Rightarrow> nat \<Rightarrow> ring \<Rightarrow> ring" where
  "mpxs_APR__Brigade_concat a b r =
     (if mpxs_APR__Brigade_is_empty b r then r
      else ring_init b (splice_before (Sentinel a) (nxt r (Sentinel b)) (prv r (Sentinel b)) r))"

definition mpxs_APR__Bucket_insert_before :: "node \<Rightarrow> node \<Rightarrow> ring \<Rightarrow> ring" where
  "mpxs_APR__Bucket_insert_before a b r = splice_before a b b r"

definition mpxs_APR__Bucket_insert_after :: "node \<Rightarrow> node \<Rightarrow> ring \<Rightarrow> ring" where
  "mpxs_APR__Bucket_insert_after a b r = splice_after a b b r"

definition mpxs_APR__Bucket_remove :: "node \<Rightarrow> ring \<Rightarrow> ring" where
  "mpxs_APR__Bucket_remove b r = unsplice b b r"

text \<open>A new brigade is empty, with the pool magic of its pool; \<open>pool_of\<close> is its field \<open>p\<close>.\<close>

record brigades =
  links :: ring
  pool_of :: "nat \<Rightarrow> nat"
  bb_brk :: nat
  magic_pool :: "nat \<Rightarrow> nat option"

definition mpxs_apr_brigade_create :: "nat \<Rightarrow> brigades \<Rightarrow> nat \<times> brigades" where
  "mpxs_apr_brigade_create p st =
     (bb_brk st, st\<lparr>links := ring_init (bb_brk st) (links st), pool_of := (pool_of st)(bb_brk st := p),
                    bb_brk := Suc (bb_brk st), magic_pool := (magic_pool st)(bb_brk st \<mapsto> p)\<rparr>)"

definition mpxs_APR__Brigade_pool :: "nat \<Rightarrow> brigades \<Rightarrow> nat" where
  "mpxs_APR__Brigade_pool bb st = pool_of st bb"

section \<open>Operations of Perl code, and their meaning on lists\<close>

datatype ring_op = InsertHead nat nat | InsertTail nat nat | InsertBefore nat nat | InsertAfter nat nat | Remove nat | Concat nat nat

fun ring_step :: "ring_op \<Rightarrow> ring \<Rightarrow> ring" where
  "ring_step (InsertHead bb b) r = mpxs_APR__Brigade_insert_head bb (Bucket b) r"
| "ring_step (InsertTail bb b) r = mpxs_APR__Brigade_insert_tail bb (Bucket b) r"
| "ring_step (InsertBefore a b) r = mpxs_APR__Bucket_insert_before (Bucket a) (Bucket b) r"
| "ring_step (InsertAfter a b) r = mpxs_APR__Bucket_insert_after (Bucket a) (Bucket b) r"
| "ring_step (Remove b) r = mpxs_APR__Bucket_remove (Bucket b) r"
| "ring_step (Concat a b) r = mpxs_APR__Brigade_concat a b r"

fun before :: "nat \<Rightarrow> nat \<Rightarrow> nat list \<Rightarrow> nat list" where
  "before a b [] = []"
| "before a b (x # xs) = (if x = a then b # x # xs else x # before a b xs)"

fun behind :: "nat \<Rightarrow> nat \<Rightarrow> nat list \<Rightarrow> nat list" where
  "behind a b [] = []"
| "behind a b (x # xs) = (if x = a then x # b # xs else x # behind a b xs)"

fun list_step :: "ring_op \<Rightarrow> (nat \<Rightarrow> nat list) \<Rightarrow> nat \<Rightarrow> nat list" where
  "list_step (InsertHead bb b) A = A(bb := b # A bb)"
| "list_step (InsertTail bb b) A = A(bb := A bb @ [b])"
| "list_step (InsertBefore a b) A = (\<lambda>bb. before a b (A bb))"
| "list_step (InsertAfter a b) A = (\<lambda>bb. behind a b (A bb))"
| "list_step (Remove b) A = (\<lambda>bb. remove1 b (A bb))"
| "list_step (Concat a b) A = A(a := A a @ A b, b := [])"

text \<open>A bucket that is inserted is in no brigade; one that is removed or that another is put next to is in one; a brigade is not appended to itself.\<close>

definition linked_in :: "nat \<Rightarrow> (nat \<Rightarrow> nat list) \<Rightarrow> bool" where
  "linked_in b A \<longleftrightarrow> (\<exists>bb. b \<in> set (A bb))"

fun op_ok :: "ring_op \<Rightarrow> (nat \<Rightarrow> nat list) \<Rightarrow> bool" where
  "op_ok (InsertHead bb b) A \<longleftrightarrow> \<not> linked_in b A"
| "op_ok (InsertTail bb b) A \<longleftrightarrow> \<not> linked_in b A"
| "op_ok (InsertBefore a b) A \<longleftrightarrow> linked_in a A \<and> \<not> linked_in b A"
| "op_ok (InsertAfter a b) A \<longleftrightarrow> linked_in a A \<and> \<not> linked_in b A"
| "op_ok (Remove b) A \<longleftrightarrow> linked_in b A"
| "op_ok (Concat a b) A \<longleftrightarrow> a \<noteq> b"

fun ops_ok :: "ring_op list \<Rightarrow> (nat \<Rightarrow> nat list) \<Rightarrow> bool" where
  "ops_ok [] A \<longleftrightarrow> True"
| "ops_ok (x # xs) A \<longleftrightarrow> op_ok x A \<and> ops_ok xs (list_step x A)"

text \<open>The loops \<open>for ($b = $bb->first; $b; $b = $bb->next($b))\<close> and \<open>for ($b = $bb->last; $b; $b = $bb->prev($b))\<close>, with the number of rounds bounded.\<close>

fun walk_next :: "nat \<Rightarrow> nat \<Rightarrow> node option \<Rightarrow> ring \<Rightarrow> node list option" where
  "walk_next fuel bb None r = Some []"
| "walk_next 0 bb (Some b) r = None"
| "walk_next (Suc fuel) bb (Some b) r = map_option (Cons b) (walk_next fuel bb (mpxs_APR__Brigade_next bb b r) r)"

fun walk_prev :: "nat \<Rightarrow> nat \<Rightarrow> node option \<Rightarrow> ring \<Rightarrow> node list option" where
  "walk_prev fuel bb None r = Some []"
| "walk_prev 0 bb (Some b) r = None"
| "walk_prev (Suc fuel) bb (Some b) r = map_option (Cons b) (walk_prev fuel bb (mpxs_APR__Brigade_prev bb b r) r)"

section \<open>Strings that data is read into\<close>

text \<open>
  A Perl string has its bytes and the size of its memory. \<open>MP_SvGROW\<close> asks for one byte more than the length, in unsigned arithmetic; more than \<open>maxmem\<close> bytes there are
  not, and Perl exits. \<open>fill_string\<close> stores the bytes that were read behind the pointer and ends them with a null byte.
\<close>

record perl_string =
  bytes :: string
  SvLEN :: nat

definition MP_SvGROW :: "nat \<Rightarrow> 64 word \<Rightarrow> perl_string \<Rightarrow> perl_string res" where
  "MP_SvGROW maxmem len sv =
     (let n = unat (len + 1) in
      if n \<le> SvLEN sv then Inr sv else if maxmem < n then Inl Exited else Inr (sv\<lparr>SvLEN := n\<rparr>))"

definition fill_string :: "string \<Rightarrow> perl_string \<Rightarrow> perl_string res" where
  "fill_string data sv = (if SvLEN sv \<le> length data then Inl OutOfBounds else Inr (sv\<lparr>bytes := data\<rparr>))"

text \<open>
  \<open>data\<close> is what the brigade holds and \<open>rc\<close> the status of \<open>apr_brigade_flatten\<close>, which copies as much as is wanted. \<open>len\<close> is the result of
  \<open>apr_brigade_length\<close>: when that fails it sets nothing, and \<open>garbage\<close> is what the variable holds.
\<close>

definition mpxs_APR__Brigade_length :: "int option \<Rightarrow> int option" where
  "mpxs_APR__Brigade_length len = map_option (\<lambda>n. sint (word_of_int n :: 32 word)) len"

definition mpxs_APR__Brigade_flatten ::
    "nat \<Rightarrow> int \<Rightarrow> string \<Rightarrow> int option \<Rightarrow> int \<Rightarrow> int option \<Rightarrow> perl_string \<Rightarrow> (nat \<times> perl_string) res" where
  "mpxs_APR__Brigade_flatten maxmem rc data len garbage arg buffer =
     (let wanted = (case arg of Some w \<Rightarrow> word_of_int w | None \<Rightarrow> word_of_int (case len of Some n \<Rightarrow> n | None \<Rightarrow> garbage)) :: 64 word
      in and_then (MP_SvGROW maxmem wanted buffer) (\<lambda>sv.
         let got = take (unat wanted) data in
         if rc \<noteq> APR_SUCCESS \<and> rc \<noteq> 70014 then (if SvLEN sv < length got then Inl OutOfBounds else Inl (Croak ''APR::Brigade::flatten''))
         else and_then (fill_string got sv) (\<lambda>sv1. Inr (length got, sv1))))"

text \<open>\<open>recv\<close> gives the data of a socket for a length; the length comes unsigned from Perl.\<close>

definition mpxs_APR__Socket_recv ::
    "nat \<Rightarrow> (nat \<Rightarrow> int \<times> string) \<Rightarrow> 64 word \<Rightarrow> perl_string \<Rightarrow> (nat \<times> perl_string) res" where
  "mpxs_APR__Socket_recv maxmem recv len buffer = and_then (MP_SvGROW maxmem len buffer) (\<lambda>sv.
     let (rc, got) = recv (unat len) in
     if rc \<noteq> APR_SUCCESS \<and> rc \<noteq> 70014 then Inl (Croak ''APR::Socket::recv'')
     else and_then (fill_string got sv) (\<lambda>sv1. Inr (length got, sv1)))"

text \<open>
  The older way to read the body of a request (\<^verbatim>\<open>src/xs/Apache2/RequestIO/Apache2__RequestIO.h\<close>). \<open>get\<close> is \<open>ap_get_client_block\<close>: it gives the number of bytes that were read, which can be
  negative, and the bytes. The size is an \<open>int\<close>. The reading is set up once for each request: \<open>rc\<close> is the status of that, and \<open>read_length\<close> says that some of the body was read.
\<close>

definition mpxs_ap_get_client_block :: "nat \<Rightarrow> (int \<Rightarrow> int \<times> string) \<Rightarrow> int \<Rightarrow> perl_string \<Rightarrow> (int \<times> perl_string) res" where
  "mpxs_ap_get_client_block maxmem get bufsiz buffer = and_then (MP_SvGROW maxmem (word_of_int bufsiz) buffer) (\<lambda>sv.
     let (nrd, got) = get bufsiz in
     if SvLEN sv < length got then Inl OutOfBounds
     else if nrd > 0 then and_then (fill_string got sv) (\<lambda>sv1. Inr (nrd, sv1))
     else and_then (MP_SvGROW maxmem 0 sv) (\<lambda>sv1. and_then (fill_string [] sv1) (\<lambda>sv2. Inr (nrd, sv2))))"

definition mpxs_setup_client_block :: "int \<Rightarrow> nat \<Rightarrow> string list \<Rightarrow> int \<times> string list" where
  "mpxs_setup_client_block rc read_length log =
     (if read_length = 0 \<and> rc \<noteq> OK then (rc, log @ [''mod_perl: ap_setup_client_block failed'']) else (APR_SUCCESS, log))"

definition mpxs_Apache2__RequestRec_GETC ::
    "int \<Rightarrow> bool \<Rightarrow> (int \<Rightarrow> int \<times> string) \<Rightarrow> nat \<Rightarrow> string list \<Rightarrow> string option \<times> string list" where
  "mpxs_Apache2__RequestRec_GETC rc should get read_length log =
     (let (status, log1) = mpxs_setup_client_block rc read_length log in
      (if status = APR_SUCCESS \<and> (read_length \<noteq> 0 \<or> should) \<and> fst (get 1) = 1 then Some (snd (get 1)) else None, log1))"

text \<open>\<open>send\<close> is \<open>apr_socket_send\<close>: it gives the status and how many bytes were sent. A length is compared unsigned.\<close>

definition mpxs_apr_socket_send :: "(string \<Rightarrow> int \<times> nat) \<Rightarrow> string \<Rightarrow> int option \<Rightarrow> nat res" where
  "mpxs_apr_socket_send send buf len =
     (case len of
        None \<Rightarrow> (case send buf of (rc, n) \<Rightarrow> if rc \<noteq> APR_SUCCESS then Inl (Croak ''APR::Socket::send'') else Inr n)
      | Some l \<Rightarrow> let k = unat (word_of_int l :: 64 word) in
          if length buf < k then Inl (Croak ''the 3rd arg is bigger than the length of the 2nd argument'')
          else (case send (take k buf) of (rc, n) \<Rightarrow> if rc \<noteq> APR_SUCCESS then Inl (Croak ''APR::Socket::send'') else Inr n))"

section \<open>Rings that are linked\<close>

fun linked :: "ring \<Rightarrow> node list \<Rightarrow> bool" where
  "linked r (x # y # zs) \<longleftrightarrow> nxt r x = y \<and> prv r y = x \<and> linked r (y # zs)"
| "linked r _ \<longleftrightarrow> True"

definition ring_nodes :: "nat \<Rightarrow> nat list \<Rightarrow> node list" where
  "ring_nodes bb bs = Sentinel bb # map Bucket bs @ [Sentinel bb]"

definition rings :: "ring \<Rightarrow> (nat \<Rightarrow> nat list) \<Rightarrow> bool" where
  "rings r A \<longleftrightarrow> (\<forall>bb. linked r (ring_nodes bb (A bb)) \<and> distinct (A bb)) \<and> (\<forall>bb cc. bb \<noteq> cc \<longrightarrow> set (A bb) \<inter> set (A cc) = {})"

lemma linked_append: "linked r (xs @ u # ys) \<longleftrightarrow> linked r (xs @ [u]) \<and> linked r (u # ys)"
  by (induction r xs rule: linked.induct) (cases ys; auto)+

lemma linked_cong:
  "(\<And>a. a \<in> set (butlast ns) \<Longrightarrow> nxt r' a = nxt r a) \<Longrightarrow> (\<And>b. b \<in> set (tl ns) \<Longrightarrow> prv r' b = prv r b) \<Longrightarrow> linked r' ns = linked r ns"
  by (induction r ns rule: linked.induct) auto

lemma set_nxt_simps [simp]:
  "nxt (set_nxt x y r) a = (if a = x then y else nxt r a)" "prv (set_nxt x y r) = prv r"
  "prv (set_prv x y r) a = (if a = x then y else prv r a)" "nxt (set_prv x y r) = nxt r"
  by (simp_all add: set_nxt_def set_prv_def)

lemma ring_eqI: "nxt r = nxt r' \<Longrightarrow> prv r = prv r' \<Longrightarrow> (r :: ring) = r'"
  by simp

text \<open>Both ways to insert put a node between two neighbours.\<close>

definition ins :: "node \<Rightarrow> node \<Rightarrow> node \<Rightarrow> ring \<Rightarrow> ring" where
  "ins u c v r = set_prv v c (set_nxt u c (set_prv c u (set_nxt c v r)))"

lemma splice_before_ins: "v \<noteq> c \<Longrightarrow> prv r v = u \<Longrightarrow> u \<noteq> c \<Longrightarrow> splice_before v c c r = ins u c v r"
  by (rule ring_eqI) (auto simp: splice_before_def ins_def Let_def fun_eq_iff)

lemma splice_after_ins: "u \<noteq> c \<Longrightarrow> nxt r u = v \<Longrightarrow> v \<noteq> c \<Longrightarrow> splice_after u c c r = ins u c v r"
  by (rule ring_eqI) (auto simp: splice_after_def ins_def Let_def fun_eq_iff)

lemma linked_ins:
  assumes l: "linked r (xs @ u # v # ys)" and d: "distinct (xs @ u # butlast (v # ys))" "distinct (tl (xs @ [u]) @ v # ys)"
    and c: "c \<notin> set (xs @ u # v # ys)"
  shows "linked (ins u c v r) (xs @ u # c # v # ys)"
proof -
  have 1: "linked r (xs @ [u])" "linked r (v # ys)" using linked_append [of r xs u "v # ys"] l by auto
  have "set (tl (xs @ [u])) \<subseteq> set (xs @ [u])" by (cases xs) auto
  then have "linked (ins u c v r) (xs @ [u]) = linked r (xs @ [u])"
    using d c by (intro linked_cong) (auto simp: ins_def)
  moreover have "linked (ins u c v r) (v # ys) = linked r (v # ys)"
  proof (rule linked_cong)
    fix a assume a: "a \<in> set (butlast (v # ys))"
    then have "a \<in> set (v # ys)" by (rule in_set_butlastD)
    then have "a \<noteq> c" using c by auto
    moreover have "a \<noteq> u" using a d(1) by (metis distinct.simps(2) distinct_append)
    ultimately show "nxt (ins u c v r) a = nxt r a" by (simp add: ins_def)
  next
    fix b assume "b \<in> set (tl (v # ys))"
    then have "b \<noteq> v" "b \<noteq> c" using d(2) c by auto
    then show "prv (ins u c v r) b = prv r b" by (simp add: ins_def)
  qed
  moreover have "nxt (ins u c v r) u = c" "prv (ins u c v r) c = u" "nxt (ins u c v r) c = v" "prv (ins u c v r) v = c"
    using c by (auto simp: ins_def)
  ultimately show ?thesis using 1 c linked_append [of "ins u c v r" xs u "c # v # ys"] by simp
qed

lemma linked_del:
  assumes l: "linked r (xs @ u # c # v # ys)" and d: "distinct (xs @ u # c # butlast (v # ys))" "distinct (tl (xs @ [u]) @ c # v # ys)"
    and c: "u \<noteq> c" "v \<noteq> c"
  shows "linked (unsplice c c r) (xs @ u # v # ys)"
proof -
  have 1: "linked r (xs @ [u])" "linked r (v # ys)" "prv r c = u" "nxt r c = v" using linked_append [of r xs u "c # v # ys"] l by auto
  then have un: "unsplice c c r = set_prv v u (set_nxt u v r)" using c by (simp add: unsplice_def Let_def)
  have "linked (set_prv v u (set_nxt u v r)) (xs @ [u]) = linked r (xs @ [u])"
    using d c by (intro linked_cong) auto
  moreover have "linked (set_prv v u (set_nxt u v r)) (v # ys) = linked r (v # ys)"
  proof (rule linked_cong)
    fix a assume "a \<in> set (butlast (v # ys))"
    then have "a \<noteq> u" using d(1) by (metis distinct.simps(2) distinct_append set_ConsD list.set_intros(2))
    then show "nxt (set_prv v u (set_nxt u v r)) a = nxt r a" by simp
  next
    fix b assume "b \<in> set (tl (v # ys))"
    then have "b \<noteq> v" using d(2) by auto
    then show "prv (set_prv v u (set_nxt u v r)) b = prv r b" by simp
  qed
  ultimately show ?thesis using 1 linked_append [of "unsplice c c r" xs u "v # ys"] by (simp add: un)
qed

lemma ring_nodes_set: "set (ring_nodes bb bs) = insert (Sentinel bb) (Bucket ` set bs)"
  by (auto simp: ring_nodes_def)

lemma ring_nodes_distinct:
  "distinct bs \<Longrightarrow> distinct (butlast (ring_nodes bb bs))" "distinct bs \<Longrightarrow> distinct (tl (ring_nodes bb bs))"
  by (auto simp: ring_nodes_def butlast_append distinct_map inj_on_def)

lemma linked_frame:
  "linked r ns \<Longrightarrow> (\<And>a. a \<in> set ns \<Longrightarrow> nxt r' a = nxt r a \<and> prv r' a = prv r a) \<Longrightarrow> linked r' ns"
  by (subst linked_cong [of _ r' r]) (auto dest: in_set_butlastD list.set_sel(2), metis list.sel(2) list.set_sel(2))

lemma rings_other:
  assumes "rings r A" and "distinct B" and "linked r' (ring_nodes bb B)" and "\<And>cc. cc \<noteq> bb \<Longrightarrow> set B \<inter> set (A cc) = {}"
    and "\<And>x. x \<notin> insert (Sentinel bb) (Bucket ` (set B \<union> set (A bb))) \<Longrightarrow> nxt r' x = nxt r x \<and> prv r' x = prv r x"
  shows "rings r' (A(bb := B))"
proof -
  have "linked r' (ring_nodes cc (A cc))" if "cc \<noteq> bb" for cc
  proof (rule linked_frame)
    show "linked r (ring_nodes cc (A cc))" using assms(1) by (simp add: rings_def)
    fix x assume "x \<in> set (ring_nodes cc (A cc))"
    moreover have "set (A bb) \<inter> set (A cc) = {}" using assms(1) that unfolding rings_def by blast
    ultimately have "x \<notin> insert (Sentinel bb) (Bucket ` (set B \<union> set (A bb)))"
      using that assms(4) [OF that] by (auto simp: ring_nodes_set)
    then show "nxt r' x = nxt r x \<and> prv r' x = prv r x" by (rule assms(5))
  qed
  with assms show ?thesis unfolding rings_def by (auto simp: Int_commute)
qed

lemma rings_ins:
  assumes r: "rings r A" and ns: "ring_nodes bb (A bb) = xs @ u # v # ys" and b: "\<not> linked_in b A"
    and B: "ring_nodes bb B = xs @ u # Bucket b # v # ys" "distinct B" "set B = insert b (set (A bb))"
  shows "rings (ins u (Bucket b) v r) (A(bb := B))"
proof (rule rings_other [OF r B(2)])
  have l: "linked r (xs @ u # v # ys)" and dist: "distinct (A bb)" using r ns unfolding rings_def by (metis, blast)
  have "distinct (xs @ u # butlast (v # ys))"
    using ring_nodes_distinct(1) [OF dist, of bb] unfolding ns by (simp add: butlast_append)
  moreover have "distinct (tl (xs @ [u]) @ v # ys)"
    using ring_nodes_distinct(2) [OF dist, of bb] unfolding ns by (cases xs) auto
  moreover have "Bucket b \<notin> set (xs @ u # v # ys)"
    using b unfolding ns [symmetric] by (auto simp: ring_nodes_set linked_in_def)
  ultimately show "linked (ins u (Bucket b) v r) (ring_nodes bb B)" unfolding B(1) by (intro linked_ins [OF l])
  show "set B \<inter> set (A cc) = {}" if "cc \<noteq> bb" for cc
    using r b that unfolding B(3) rings_def linked_in_def by blast
  have "u \<in> set (ring_nodes bb (A bb))" "v \<in> set (ring_nodes bb (A bb))" unfolding ns by auto
  then show "nxt (ins u (Bucket b) v r) x = nxt r x \<and> prv (ins u (Bucket b) v r) x = prv r x"
    if "x \<notin> insert (Sentinel bb) (Bucket ` (set B \<union> set (A bb)))" for x
    using that B(3) by (auto simp: ins_def ring_nodes_set)
qed

lemma rings_del:
  assumes r: "rings r A" and ns: "ring_nodes bb (A bb) = xs @ u # Bucket c # v # ys"
    and B: "ring_nodes bb B = xs @ u # v # ys" "distinct B" "set (A bb) = insert c (set B)" "c \<notin> set B"
  shows "rings (unsplice (Bucket c) (Bucket c) r) (A(bb := B))"
proof (rule rings_other [OF r B(2)])
  have l: "linked r (xs @ u # Bucket c # v # ys)" and dist: "distinct (A bb)" using r ns unfolding rings_def by (metis, blast)
  have d1: "distinct (xs @ u # Bucket c # butlast (v # ys))"
    using ring_nodes_distinct(1) [OF dist, of bb] unfolding ns by (simp add: butlast_append)
  have d2: "distinct (tl (xs @ [u]) @ Bucket c # v # ys)"
    using ring_nodes_distinct(2) [OF dist, of bb] unfolding ns by (cases xs) auto
  have uv: "u \<noteq> Bucket c" "v \<noteq> Bucket c" using d1 d2 by auto
  show "linked (unsplice (Bucket c) (Bucket c) r) (ring_nodes bb B)" unfolding B(1) by (rule linked_del [OF l d1 d2 uv])
  show "set B \<inter> set (A cc) = {}" if "cc \<noteq> bb" for cc
    using r that B(3) unfolding rings_def by blast
  have pn: "prv r (Bucket c) = u" "nxt r (Bucket c) = v" using linked_append [of r xs u "Bucket c # v # ys"] l by auto
  have "u \<in> set (ring_nodes bb (A bb))" "v \<in> set (ring_nodes bb (A bb))" unfolding ns by auto
  then show "nxt (unsplice (Bucket c) (Bucket c) r) x = nxt r x \<and> prv (unsplice (Bucket c) (Bucket c) r) x = prv r x"
    if "x \<notin> insert (Sentinel bb) (Bucket ` (set B \<union> set (A bb)))" for x
    using that uv by (auto simp: unsplice_def Let_def pn ring_nodes_set)
qed

text \<open>The neighbours of a position in a ring.\<close>

definition left :: "nat \<Rightarrow> nat list \<Rightarrow> node" where
  "left bb as = (if as = [] then Sentinel bb else Bucket (last as))"

definition right :: "nat \<Rightarrow> nat list \<Rightarrow> node" where
  "right bb cs = (if cs = [] then Sentinel bb else Bucket (hd cs))"

lemma ring_nodes_split:
  "ring_nodes bb (as @ cs) = butlast (Sentinel bb # map Bucket as) @ left bb as # right bb cs # tl (map Bucket cs @ [Sentinel bb])"
  by (cases as rule: rev_cases; cases cs) (auto simp: ring_nodes_def left_def right_def)

lemma ring_nodes_split_mid:
  "ring_nodes bb (as @ b # cs) =
     butlast (Sentinel bb # map Bucket as) @ left bb as # Bucket b # right bb cs # tl (map Bucket cs @ [Sentinel bb])"
  by (cases as rule: rev_cases; cases cs) (auto simp: ring_nodes_def left_def right_def)

lemma ring_links:
  assumes "rings r A" "A bb = as @ cs"
  shows "nxt r (left bb as) = right bb cs" "prv r (right bb cs) = left bb as"
proof -
  have "linked r (butlast (Sentinel bb # map Bucket as) @ left bb as # right bb cs # tl (map Bucket cs @ [Sentinel bb]))"
    using assms unfolding rings_def ring_nodes_split [symmetric] by metis
  then show "nxt r (left bb as) = right bb cs" "prv r (right bb cs) = left bb as"
    by (subst (asm) linked_append, simp)+
qed

lemma rings_insert_at:
  assumes r: "rings r A" and A: "A bb = as @ cs" and b: "\<not> linked_in b A"
  shows "rings (ins (left bb as) (Bucket b) (right bb cs) r) (A(bb := as @ b # cs))"
proof (rule rings_ins [OF r _ b])
  show "ring_nodes bb (A bb) = butlast (Sentinel bb # map Bucket as) @ left bb as # right bb cs # tl (map Bucket cs @ [Sentinel bb])"
    unfolding A by (rule ring_nodes_split)
  show "ring_nodes bb (as @ b # cs) =
      butlast (Sentinel bb # map Bucket as) @ left bb as # Bucket b # right bb cs # tl (map Bucket cs @ [Sentinel bb])"
    by (rule ring_nodes_split_mid)
  have "distinct (A bb)" "b \<notin> set (A bb)" using r b by (auto simp: rings_def linked_in_def)
  then show "distinct (as @ b # cs)" "set (as @ b # cs) = insert b (set (A bb))" unfolding A by auto
qed

lemma rings_remove_at:
  assumes r: "rings r A" and A: "A bb = as @ b # cs"
  shows "rings (unsplice (Bucket b) (Bucket b) r) (A(bb := as @ cs))"
proof (rule rings_del [OF r])
  show "ring_nodes bb (A bb) =
      butlast (Sentinel bb # map Bucket as) @ left bb as # Bucket b # right bb cs # tl (map Bucket cs @ [Sentinel bb])"
    unfolding A by (rule ring_nodes_split_mid)
  show "ring_nodes bb (as @ cs) = butlast (Sentinel bb # map Bucket as) @ left bb as # right bb cs # tl (map Bucket cs @ [Sentinel bb])"
    by (rule ring_nodes_split)
  have "distinct (A bb)" using r by (auto simp: rings_def)
  then show "distinct (as @ cs)" "set (A bb) = insert b (set (as @ cs))" "b \<notin> set (as @ cs)" unfolding A by auto
qed

lemma left_right_other: "b \<notin> set as \<Longrightarrow> left bb as \<noteq> Bucket b" "b \<notin> set cs \<Longrightarrow> right bb cs \<noteq> Bucket b"
  by (auto simp: left_def right_def split: if_splits)

lemma before_split: "a \<notin> set as \<Longrightarrow> before a b (as @ a # cs) = as @ b # a # cs"
  by (induction as) auto

lemma behind_split: "a \<notin> set as \<Longrightarrow> behind a b (as @ a # cs) = as @ a # b # cs"
  by (induction as) auto

lemma before_other: "a \<notin> set as \<Longrightarrow> before a b as = as"
  by (induction as) auto

lemma behind_other: "a \<notin> set as \<Longrightarrow> behind a b as = as"
  by (induction as) auto

lemma linked_in_split:
  assumes "rings r A" "linked_in a A"
  obtains bb as cs where "A bb = as @ a # cs" "a \<notin> set as" "a \<notin> set cs" "\<And>dd. dd \<noteq> bb \<Longrightarrow> a \<notin> set (A dd)"
proof -
  from assms(2) obtain bb where bb: "a \<in> set (A bb)" by (auto simp: linked_in_def)
  then obtain as cs where s: "A bb = as @ a # cs" by (meson split_list)
  have "distinct (A bb)" using assms(1) by (auto simp: rings_def)
  moreover have "a \<notin> set (A dd)" if "dd \<noteq> bb" for dd using assms(1) bb that unfolding rings_def by blast
  ultimately show ?thesis using s by (intro that [of bb as cs]) auto
qed

lemma rings_insert_head:
  assumes "rings r A" "\<not> linked_in b A"
  shows "rings (mpxs_APR__Brigade_insert_head bb (Bucket b) r) (A(bb := b # A bb))"
proof -
  have n: "nxt r (Sentinel bb) = right bb (A bb)" using ring_links(1) [OF assms(1), of bb "[]" "A bb"] by (simp add: left_def)
  have "b \<notin> set (A bb)" using assms(2) by (auto simp: linked_in_def)
  then have "mpxs_APR__Brigade_insert_head bb (Bucket b) r = ins (left bb []) (Bucket b) (right bb (A bb)) r"
    using left_right_other(2) [of b "A bb" bb] n by (simp add: mpxs_APR__Brigade_insert_head_def left_def splice_after_ins)
  then show ?thesis using rings_insert_at [OF assms(1) _ assms(2), of bb "[]" "A bb"] by simp
qed

lemma rings_insert_tail:
  assumes "rings r A" "\<not> linked_in b A"
  shows "rings (mpxs_APR__Brigade_insert_tail bb (Bucket b) r) (A(bb := A bb @ [b]))"
proof -
  have n: "prv r (Sentinel bb) = left bb (A bb)" using ring_links(2) [OF assms(1), of bb "A bb" "[]"] by (simp add: right_def)
  have "b \<notin> set (A bb)" using assms(2) by (auto simp: linked_in_def)
  then have "mpxs_APR__Brigade_insert_tail bb (Bucket b) r = ins (left bb (A bb)) (Bucket b) (right bb []) r"
    using left_right_other(1) [of b "A bb" bb] n by (simp add: mpxs_APR__Brigade_insert_tail_def right_def splice_before_ins)
  then show ?thesis using rings_insert_at [OF assms(1) _ assms(2), of bb "A bb" "[]"] by simp
qed

lemma rings_insert_before:
  assumes r: "rings r A" and "linked_in a A" and b: "\<not> linked_in b A"
  shows "rings (mpxs_APR__Bucket_insert_before (Bucket a) (Bucket b) r) (\<lambda>bb. before a b (A bb))"
proof -
  from linked_in_split [OF r assms(2)] obtain bb as cs where s: "A bb = as @ a # cs" "a \<notin> set as"
      "\<And>dd. dd \<noteq> bb \<Longrightarrow> a \<notin> set (A dd)" by metis
  have A': "(\<lambda>bb. before a b (A bb)) = A(bb := as @ b # a # cs)"
    using s by (auto simp: fun_eq_iff before_split before_other)
  have nb: "b \<notin> set (A bb)" using b by (auto simp: linked_in_def)
  then have ab: "b \<noteq> a" "b \<notin> set as" using s(1) by auto
  have "prv r (Bucket a) = left bb as" using ring_links(2) [OF r s(1)] by (simp add: right_def)
  then have "mpxs_APR__Bucket_insert_before (Bucket a) (Bucket b) r = ins (left bb as) (Bucket b) (right bb (a # cs)) r"
    using ab left_right_other(1) [of b as bb] by (simp add: mpxs_APR__Bucket_insert_before_def right_def splice_before_ins)
  then show ?thesis unfolding A' using rings_insert_at [OF r s(1) b] by simp
qed

lemma rings_insert_after:
  assumes r: "rings r A" and "linked_in a A" and b: "\<not> linked_in b A"
  shows "rings (mpxs_APR__Bucket_insert_after (Bucket a) (Bucket b) r) (\<lambda>bb. behind a b (A bb))"
proof -
  from linked_in_split [OF r assms(2)] obtain bb as cs where s: "A bb = as @ a # cs" "a \<notin> set as"
      "\<And>dd. dd \<noteq> bb \<Longrightarrow> a \<notin> set (A dd)" by metis
  have s1: "A bb = (as @ [a]) @ cs" using s(1) by simp
  have A': "(\<lambda>bb. behind a b (A bb)) = A(bb := (as @ [a]) @ b # cs)"
    using s by (auto simp: fun_eq_iff behind_split behind_other)
  have nb: "b \<notin> set (A bb)" using b by (auto simp: linked_in_def)
  then have ab: "b \<noteq> a" "b \<notin> set cs" using s(1) by auto
  have "nxt r (Bucket a) = right bb cs" using ring_links(1) [OF r s1] by (simp add: left_def)
  then have "mpxs_APR__Bucket_insert_after (Bucket a) (Bucket b) r = ins (left bb (as @ [a])) (Bucket b) (right bb cs) r"
    using ab left_right_other(2) [of b cs bb] by (simp add: mpxs_APR__Bucket_insert_after_def left_def splice_after_ins)
  then show ?thesis unfolding A' using rings_insert_at [OF r s1 b] by simp
qed

lemma rings_remove:
  assumes r: "rings r A" and "linked_in b A"
  shows "rings (mpxs_APR__Bucket_remove (Bucket b) r) (\<lambda>bb. remove1 b (A bb))"
proof -
  from linked_in_split [OF assms] obtain bb as cs where s: "A bb = as @ b # cs" "b \<notin> set as"
      "\<And>dd. dd \<noteq> bb \<Longrightarrow> b \<notin> set (A dd)" by metis
  have A': "(\<lambda>bb. remove1 b (A bb)) = A(bb := as @ cs)"
    using s by (auto simp: fun_eq_iff remove1_append remove1_idem)
  show ?thesis unfolding A' mpxs_APR__Bucket_remove_def by (rule rings_remove_at [OF r s(1)])
qed

lemma linked_prefix: "linked r (xs @ ys) \<Longrightarrow> linked r xs"
  by (induction r xs rule: linked.induct) auto

lemma linked_suffix: "linked r (xs @ ys) \<Longrightarrow> linked r ys"
  by (induction xs) (auto, metis linked.elims(3) linked.simps(1))

lemma rings_concat:
  assumes r: "rings r A" and ab: "a \<noteq> b"
  shows "rings (mpxs_APR__Brigade_concat a b r) (A(a := A a @ A b, b := []))"
proof (cases "A b = []")
  case True
  with ring_links(1) [OF r, of b "[]" "[]"] have "mpxs_APR__Brigade_concat a b r = r"
    by (simp add: mpxs_APR__Brigade_concat_def mpxs_APR__Brigade_is_empty_def left_def right_def)
  moreover have "A(a := A a @ A b, b := []) = A" using True by auto
  ultimately show ?thesis using r by simp
next
  case False
  define f where "f = Bucket (hd (A b))"
  define l where "l = Bucket (last (A b))"
  define u where "u = left a (A a)"
  have fl: "nxt r (Sentinel b) = f" "prv r (Sentinel b) = l"
    using ring_links(1) [OF r, of b "[]" "A b"] ring_links(2) [OF r, of b "A b" "[]"] False
    by (auto simp: left_def right_def f_def l_def)
  have pu: "prv r (Sentinel a) = u" using ring_links(2) [OF r, of a "A a" "[]"] by (simp add: right_def u_def)
  have disj: "set (A a) \<inter> set (A b) = {}" and da: "distinct (A a)" and db: "distinct (A b)" using r ab unfolding rings_def by blast+
  have "A a \<noteq> [] \<Longrightarrow> last (A a) \<notin> set (A b)" using disj last_in_set [of "A a"] by blast
  then have u_out: "u \<notin> Bucket ` set (A b)" "u \<noteq> Sentinel b" using ab by (auto simp: u_def left_def split: if_splits)
  have in_b: "f \<in> Bucket ` set (A b)" "l \<in> Bucket ` set (A b)" using False by (auto simp: f_def l_def)
  define r' where "r' = mpxs_APR__Brigade_concat a b r"
  have nx: "nxt r' x = (if x = Sentinel b then Sentinel b else if x = u then f else if x = l then Sentinel a else nxt r x)" for x
    using fl pu in_b u_out ab
    by (auto simp: r'_def mpxs_APR__Brigade_concat_def mpxs_APR__Brigade_is_empty_def ring_init_def splice_before_def Let_def)
  have pv: "prv r' x = (if x = Sentinel b then Sentinel b else if x = Sentinel a then l else if x = f then u else prv r x)" for x
    using fl pu in_b u_out ab
    by (auto simp: r'_def mpxs_APR__Brigade_concat_def mpxs_APR__Brigade_is_empty_def ring_init_def splice_before_def Let_def)
  have la: "linked r (ring_nodes a (A a))" and lb: "linked r (ring_nodes b (A b))" using r by (auto simp: rings_def)
  have start: "linked r' (Sentinel a # map Bucket (A a))"
  proof (subst linked_cong [of _ r' r])
    fix x assume "x \<in> set (butlast (Sentinel a # map Bucket (A a)))"
    moreover have "distinct (Sentinel a # map Bucket (A a))" using da by (auto simp: distinct_map inj_on_def)
    ultimately have "x \<noteq> u" "x \<in> insert (Sentinel a) (Bucket ` set (A a))"
      by (cases "A a" rule: rev_cases; auto simp: u_def left_def dest: in_set_butlastD split: if_splits)+
    then show "nxt r' x = nxt r x" using in_b disj ab by (auto simp: nx)
  next
    fix x assume "x \<in> set (tl (Sentinel a # map Bucket (A a)))"
    then show "prv r' x = prv r x" using in_b disj by (auto simp: pv)
  next
    show "linked r (Sentinel a # map Bucket (A a))" using la linked_prefix [of r "Sentinel a # map Bucket (A a)"] by (simp add: ring_nodes_def)
  qed
  have rest: "linked r' (map Bucket (A b))"
  proof (subst linked_cong [of _ r' r])
    fix x assume x: "x \<in> set (butlast (map Bucket (A b)))"
    then have "x \<in> Bucket ` set (A b)" by (auto dest: in_set_butlastD)
    moreover have "x \<noteq> l" using x db by (cases "A b" rule: rev_cases) (auto simp: l_def)
    ultimately show "nxt r' x = nxt r x" using u_out by (auto simp: nx)
  next
    fix x assume x: "x \<in> set (tl (map Bucket (A b)))"
    then have "x \<noteq> f" "x \<in> Bucket ` set (A b)" using db by (cases "A b"; auto simp: f_def)+
    then show "prv r' x = prv r x" by (auto simp: pv)
  next
    show "linked r (map Bucket (A b))"
      using lb linked_suffix [of r "[Sentinel b]" "map Bucket (A b) @ [Sentinel b]"] linked_prefix by (auto simp: ring_nodes_def)
  qed
  have "linked r' (ring_nodes a (A a @ A b))"
  proof -
    obtain xs where xs: "Sentinel a # map Bucket (A a) = xs @ [u]"
      by (cases "A a" rule: rev_cases) (auto simp: u_def left_def)
    obtain ys where ys: "map Bucket (A b) = f # ys" using False by (cases "A b") (auto simp: f_def)
    obtain zs where zs: "map Bucket (A b) = zs @ [l]" using False by (cases "A b" rule: rev_cases) (auto simp: l_def)
    have "linked r' (zs @ l # [Sentinel a])"
      unfolding linked_append [of r' zs l "[Sentinel a]"] using rest zs u_out in_b ab by (auto simp: nx pv)
    then have t: "linked r' (f # ys @ [Sentinel a])" using ys zs by (metis append_Cons append_assoc append_Nil)
    have "nxt r' u = f" "prv r' f = u" using u_out in_b by (auto simp: nx pv)
    with start t have "linked r' (xs @ u # f # ys @ [Sentinel a])" unfolding linked_append [of r' xs u "f # ys @ [Sentinel a]"] xs by simp
    moreover have "ring_nodes a (A a @ A b) = (Sentinel a # map Bucket (A a)) @ map Bucket (A b) @ [Sentinel a]" by (simp add: ring_nodes_def)
    ultimately show ?thesis unfolding xs ys by simp
  qed
  moreover have "linked r' (ring_nodes b [])" using ab u_out by (auto simp: ring_nodes_def nx pv)
  moreover have "linked r' (ring_nodes c (A c))" if "c \<noteq> a" "c \<noteq> b" for c
  proof (rule linked_frame)
    show "linked r (ring_nodes c (A c))" using r by (simp add: rings_def)
    fix x assume "x \<in> set (ring_nodes c (A c))"
    moreover have "set (A a) \<inter> set (A c) = {}" "set (A b) \<inter> set (A c) = {}" using r that unfolding rings_def by blast+
    moreover have "u \<in> insert (Sentinel a) (Bucket ` set (A a))" by (auto simp: u_def left_def)
    ultimately show "nxt r' x = nxt r x \<and> prv r' x = prv r x" using that in_b by (auto simp: nx pv ring_nodes_set)
  qed
  moreover have "distinct (A a @ A b)" using da db disj by simp
  ultimately show ?thesis
    using r unfolding r'_def [symmetric] rings_def by (auto simp: ab Int_Un_distrib2 Int_Un_distrib)
qed

lemma ring_step_rings: "rings r A \<Longrightarrow> op_ok x A \<Longrightarrow> rings (ring_step x r) (list_step x A)"
  by (cases x) (simp_all add: rings_insert_head rings_insert_tail rings_insert_before rings_insert_after rings_remove rings_concat)

lemma ring_run_rings: "rings r A \<Longrightarrow> ops_ok xs A \<Longrightarrow> rings (fold ring_step xs r) (fold list_step xs A)"
  by (induction xs arbitrary: r A) (auto intro: ring_step_rings)

lemma first_run: "rings r A \<Longrightarrow> mpxs_APR__Brigade_first bb r = (case A bb of [] \<Rightarrow> None | b # _ \<Rightarrow> Some (Bucket b))"
  using ring_links(1) [of r A bb "[]" "A bb"]
  by (auto simp: mpxs_APR__Brigade_first_def left_def right_def split: list.splits)

lemma last_run: "rings r A \<Longrightarrow> mpxs_APR__Brigade_last bb r = (case rev (A bb) of [] \<Rightarrow> None | b # _ \<Rightarrow> Some (Bucket b))"
  using ring_links(2) [of r A bb "A bb" "[]"]
  by (cases "A bb" rule: rev_cases) (auto simp: mpxs_APR__Brigade_last_def left_def right_def)

lemma walk_next_run:
  "rings r A \<Longrightarrow> A bb = as @ b # cs \<Longrightarrow> length cs < fuel \<Longrightarrow> walk_next fuel bb (Some (Bucket b)) r = Some (map Bucket (b # cs))"
proof (induction cs arbitrary: fuel as b)
  case Nil
  from ring_links(1) [OF Nil(1), of bb "as @ [b]" "[]"] Nil(2,3) show ?case
    by (cases fuel) (auto simp: left_def right_def mpxs_APR__Brigade_next_def)
next
  case (Cons c cs)
  from ring_links(1) [OF Cons.prems(1), of bb "as @ [b]" "c # cs"] Cons.prems(2,3) Cons.IH [OF Cons.prems(1), of "as @ [b]" c "fuel - 1"]
  show ?case by (cases fuel) (auto simp: left_def right_def mpxs_APR__Brigade_next_def)
qed

lemma walk_prev_run:
  "rings r A \<Longrightarrow> A bb = rev cs @ b # as \<Longrightarrow> length cs < fuel \<Longrightarrow> walk_prev fuel bb (Some (Bucket b)) r = Some (map Bucket (b # cs))"
proof (induction cs arbitrary: fuel as b)
  case Nil
  from ring_links(2) [OF Nil(1), of bb "[]" "b # as"] Nil(2,3) show ?case
    by (cases fuel) (auto simp: left_def right_def mpxs_APR__Brigade_prev_def)
next
  case (Cons c cs)
  from ring_links(2) [OF Cons.prems(1), of bb "rev (c # cs)" "b # as"] Cons.prems(2,3) Cons.IH [OF Cons.prems(1), of c "b # as" "fuel - 1"]
  show ?case by (cases fuel) (auto simp: left_def right_def mpxs_APR__Brigade_prev_def)
qed

section \<open>Properties\<close>

text \<open>
  C18. Brigades are lists: whatever buckets Perl code inserts, removes and appends, as long as it inserts buckets that are in no brigade and removes ones that are in one, the pointers
  link each brigade to the list the operations mean; the loops with \<open>first\<close> and \<open>next\<close> and with \<open>last\<close> and \<open>prev\<close> go through it once, forwards and backwards, and end.
\<close>

theorem brigade_lists:
  assumes "rings r A" and "ops_ok xs A"
  shows "rings (fold ring_step xs r) (fold list_step xs A) \<and>
    walk_next (length (fold list_step xs A bb)) bb (mpxs_APR__Brigade_first bb (fold ring_step xs r)) (fold ring_step xs r) =
      Some (map Bucket (fold list_step xs A bb)) \<and>
    walk_prev (length (fold list_step xs A bb)) bb (mpxs_APR__Brigade_last bb (fold ring_step xs r)) (fold ring_step xs r) =
      Some (map Bucket (rev (fold list_step xs A bb))) \<and>
    mpxs_APR__Brigade_is_empty bb (fold ring_step xs r) = (fold list_step xs A bb = [])"
proof -
  let ?r = "fold ring_step xs r" and ?A = "fold list_step xs A"
  have r: "rings ?r ?A" by (rule ring_run_rings [OF assms])
  have "walk_next (length (?A bb)) bb (mpxs_APR__Brigade_first bb ?r) ?r = Some (map Bucket (?A bb))"
    using walk_next_run [OF r, of bb "[]"] by (cases "?A bb") (simp_all add: first_run [OF r] del: walk_next.simps(3))
  moreover have "walk_prev (length (?A bb)) bb (mpxs_APR__Brigade_last bb ?r) ?r = Some (map Bucket (rev (?A bb)))"
    using walk_prev_run [OF r, of bb _ _ "[]"] by (cases "?A bb" rule: rev_cases) (simp_all add: last_run [OF r] del: walk_prev.simps(3))
  moreover have "mpxs_APR__Brigade_is_empty bb ?r = (?A bb = [])"
    using ring_links(1) [OF r, of bb "[]" "?A bb"] by (auto simp: mpxs_APR__Brigade_is_empty_def left_def right_def)
  ultimately show ?thesis using r by blast
qed

text \<open>The example of the manual: a bucket before and one behind \<open>d2\<close>, and one at the end.\<close>

definition demo_ring :: ring where
  "demo_ring = \<lparr>nxt = id, prv = id\<rparr>"

lemma demo_rings: "rings demo_ring (\<lambda>_. [])"
  by (simp add: rings_def demo_ring_def ring_nodes_def)

lemma brigade_lists_witness:
  "walk_next (length [1 :: nat, 3, 2, 4, 5]) 0 (mpxs_APR__Brigade_first 0 (fold ring_step [InsertHead 0 1, InsertAfter 1 2, InsertBefore 2 3, InsertAfter 2 4, InsertTail 0 5] demo_ring))
     (fold ring_step [InsertHead 0 1, InsertAfter 1 2, InsertBefore 2 3, InsertAfter 2 4, InsertTail 0 5] demo_ring) =
   Some (map Bucket [1, 3, 2, 4, 5])"
proof -
  let ?xs = "[InsertHead 0 1, InsertAfter 1 2, InsertBefore 2 3, InsertAfter 2 4, InsertTail 0 5]"
  have "ops_ok ?xs (\<lambda>_. [])" by (auto simp: linked_in_def)
  note t = brigade_lists [OF demo_rings this, of 0]
  have a: "fold list_step ?xs (\<lambda>_. []) 0 = [1, 3, 2, 4, 5]" by simp
  from t show ?thesis unfolding a by blast
qed

text \<open>A bucket put into a second brigade without being removed from the first: the loop over the first then gets the sentinel of the second as if it were a bucket.\<close>

lemma brigade_two_brigades:
  "mpxs_APR__Brigade_next 0 (Bucket b) (fold ring_step [InsertTail 0 b, InsertTail 1 b] demo_ring) = Some (Sentinel 1)"
  by (simp add: mpxs_APR__Brigade_insert_tail_def splice_before_def Let_def demo_ring_def mpxs_APR__Brigade_next_def)

text \<open>
  C23. The size of the string for \<open>flatten\<close>: for every length that is asked for but \<open>-1\<close> the string is big enough, or Perl runs out of memory, and it gets the data up to that length. For \<open>-1\<close> the size wraps to
  nothing, the string is not made bigger, and all the data is copied: behind the end of the memory, unless it happens to be big enough.
\<close>

theorem brigade_flatten_bounds:
  assumes "- (2 ^ 63) \<le> w" and "w < 2 ^ 63" and "rc = APR_SUCCESS"
  shows "mpxs_APR__Brigade_flatten maxmem rc data len garbage (Some w) buffer =
    (let k = (if w < 0 then nat (2 ^ 64 + w) else nat w) in
     if w = -1
     then if SvLEN buffer \<le> length (take k data) then Inl OutOfBounds else Inr (length (take k data), buffer\<lparr>bytes := take k data\<rparr>)
     else if SvLEN buffer < k + 1 \<and> maxmem < k + 1 then Inl Exited
     else Inr (length (take k data), \<lparr>bytes = take k data, SvLEN = max (SvLEN buffer) (k + 1)\<rparr>))"
proof -
  define k where "k = (if w < 0 then nat (2 ^ 64 + w) else nat w)"
  have u: "unat (word_of_int w :: 64 word) = k"
  proof -
    have "w mod 2 ^ 64 = (if w < 0 then 2 ^ 64 + w else w)"
    proof (cases "w < 0")
      case True
      have "w mod 2 ^ 64 = (2 ^ 64 + w) mod 2 ^ 64" by simp
      also have "\<dots> = 2 ^ 64 + w" using True assms(1) by (intro mod_pos_pos_trivial) auto
      finally show ?thesis using True by simp
    qed (use assms(2) in auto)
    then show ?thesis by (simp add: k_def unat_eq_nat_uint uint_word_of_int)
  qed
  have k_lt: "k < 2 ^ 64" using assms(1,2) by (auto simp: k_def)
  show ?thesis
  proof (cases "w = -1")
    case True
    then have "(word_of_int w :: 64 word) + 1 = 0" by simp
    then show ?thesis using True assms(3) u
      by (simp add: mpxs_APR__Brigade_flatten_def MP_SvGROW_def fill_string_def Let_def k_def)
  next
    case False
    then have "k + 1 < 2 ^ 64" using assms(1,2) k_lt by (auto simp: k_def)
    then have n: "unat ((word_of_int w :: 64 word) + 1) = k + 1"
      using u by (subst unat_word_ariths) (simp add: unat_of_nat)
    have "length (take k data) < k + 1" by simp
    then show ?thesis using False assms(3) u n
      by (cases buffer) (auto simp: mpxs_APR__Brigade_flatten_def MP_SvGROW_def fill_string_def Let_def k_def [symmetric])
  qed
qed

lemma brigade_flatten_bounds_witness:
  "mpxs_APR__Brigade_flatten 1000 APR_SUCCESS ''0123456789'' (Some 10) 0 (Some (-1)) \<lparr>bytes = [], SvLEN = 8\<rparr> = Inl OutOfBounds"
proof -
  have "take (nat (2 ^ 64 + -1)) ''0123456789'' = ''0123456789''" by (rule take_all) simp
  then show ?thesis by (subst brigade_flatten_bounds) (simp_all add: Let_def)
qed

text \<open>\<open>send\<close> never reads outside the string.\<close>

lemma socket_send_within:
  assumes "\<And>s. P s \<Longrightarrow> snd (send s) \<le> length s" and "\<And>k. P (take k buf)"
  shows "case mpxs_apr_socket_send send buf len of Inr n \<Rightarrow> n \<le> length buf | Inl _ \<Rightarrow> True"
proof -
  have b: "snd (send (take k buf)) \<le> length buf" for k using assms(1) [OF assms(2), of k] by simp
  from b [of "length buf"] b show ?thesis
    by (auto simp: mpxs_apr_socket_send_def Let_def split: option.splits prod.splits) (metis snd_conv)+
qed

text \<open>The same wrap-around in \<open>recv\<close>, whose length comes from Perl as it is.\<close>

lemma socket_recv_overflow:
  assumes "recv (2 ^ 64 - 1) = (APR_SUCCESS, data)" and "SvLEN buffer \<le> length data"
  shows "mpxs_APR__Socket_recv maxmem recv (-1) buffer = Inl OutOfBounds"
proof -
  have "unat (-1 :: 64 word) = 2 ^ 64 - 1" by (simp add: unsigned_minus_1_eq_mask mask_eq_exp_minus_1)
  then show ?thesis using assms by (simp add: mpxs_APR__Socket_recv_def MP_SvGROW_def fill_string_def Let_def)
qed

text \<open>Reading the body stays within the string for every size that is not negative; for \<open>-1\<close> no memory is asked for.\<close>

lemma client_block_within:
  assumes "0 \<le> bufsiz" and "bufsiz < 2 ^ 31" and "bufsiz < int maxmem" and "length (snd (get bufsiz)) \<le> nat bufsiz"
  shows "mpxs_ap_get_client_block maxmem get bufsiz buffer \<noteq> Inl OutOfBounds"
proof -
  from assms(1) obtain b where b: "bufsiz = int b" by (rule nonneg_int_cases)
  have u: "unat (word_of_int bufsiz + 1 :: 64 word) = Suc (nat bufsiz)"
  proof -
    have "word_of_int bufsiz + 1 = (of_nat (Suc b) :: 64 word)" by (simp add: b)
    then show ?thesis using assms(2) by (simp add: b unat_of_nat del: of_nat_Suc)
  qed
  have "\<exists>sv. MP_SvGROW maxmem (word_of_int bufsiz) buffer = Inr sv \<and> nat bufsiz < SvLEN sv"
    using assms(3) u by (auto simp: MP_SvGROW_def Let_def b)
  then obtain sv where sv: "MP_SvGROW maxmem (word_of_int bufsiz) buffer = Inr sv" "nat bufsiz < SvLEN sv" by blast
  obtain nrd got where g: "get bufsiz = (nrd, got)" by (cases "get bufsiz")
  with assms(4) sv(2) have "length got < SvLEN sv" by simp
  then show ?thesis using sv g by (auto simp: mpxs_ap_get_client_block_def MP_SvGROW_def fill_string_def Let_def)
qed

lemma client_block_overflow:
  "mpxs_ap_get_client_block maxmem (\<lambda>_. (5, ''hello'')) (-1) \<lparr>bytes = [], SvLEN = 0\<rparr> = Inl OutOfBounds"
  by (simp add: mpxs_ap_get_client_block_def MP_SvGROW_def)

end
