(* ===== verification/Io_Handles.thy ===== *)
theory Io_Handles
  imports Prelude
begin

text \<open>
  The handles of Perl code and the requests they belong to: the life of the PerlIO layer \<open>:Apache2\<close> (\<^verbatim>\<open>src/src/modules/perl/modperl_io_apache.c\<close>) and
  tied handles (\<^verbatim>\<open>modperl_io.c\<close>). What is read and written is in the theory of request input and output; here it counts whether a request is still there when its
  handle is used.
\<close>

section \<open>The layer\<close>

text \<open>A layer has the request it was opened for and the flags of PerlIO. A request is alive until its pool is destroyed.\<close>

record PerlIOApache =
  l_r :: "nat option"
  PERLIO_F_OPEN :: bool
  PERLIO_F_CANREAD :: bool
  PERLIO_F_CANWRITE :: bool

record handle_state =
  layers :: "nat \<Rightarrow> PerlIOApache option"
  layer_brk :: nat
  live :: "nat set"
  apache_layer :: bool

definition get_layer :: "nat \<Rightarrow> handle_state \<Rightarrow> PerlIOApache res" where
  "get_layer f st = (case layers st f of None \<Rightarrow> Inl UseAfterFree | Some l \<Rightarrow> Inr l)"

definition set_layer :: "nat \<Rightarrow> PerlIOApache \<Rightarrow> handle_state \<Rightarrow> handle_state" where
  "set_layer f l st = st\<lparr>layers := (layers st)(f \<mapsto> l)\<rparr>"

definition follow_request :: "nat \<Rightarrow> handle_state \<Rightarrow> unit res" where
  "follow_request r st = (if r \<in> live st then Inr () else Inl UseAfterFree)"

text \<open>
  \<open>PerlIOBase_pushed\<close> sets the flags of the mode. The argument is the request that the object holds; without one the layer is not pushed. The layer is new, its fields are zero.
\<close>

definition PerlIOApache_pushed :: "string \<Rightarrow> nat option \<Rightarrow> PerlIOApache \<Rightarrow> PerlIOApache res" where
  "PerlIOApache_pushed mode arg l = (case arg of
       None \<Rightarrow> Inl (Croak ''failed to insert the :Apache2 layer'')
     | Some r \<Rightarrow> Inr (l\<lparr>l_r := Some r,
         PERLIO_F_CANREAD := (mode \<noteq> [] \<and> (hd mode = CHR ''r'' \<or> CHR ''+'' \<in> set (tl mode))),
         PERLIO_F_CANWRITE := (mode \<noteq> [] \<and> (hd mode = CHR ''w'' \<or> hd mode = CHR ''a'' \<or> CHR ''+'' \<in> set (tl mode)))\<rparr>))"

definition zero_layer :: PerlIOApache where
  "zero_layer = \<lparr>l_r = None, PERLIO_F_OPEN = False, PERLIO_F_CANREAD = False, PERLIO_F_CANWRITE = False\<rparr>"

definition PerlIOApache_open :: "string \<Rightarrow> nat option \<Rightarrow> nat option \<Rightarrow> handle_state \<Rightarrow> (nat \<times> handle_state) res" where
  "PerlIOApache_open mode fo arg st =
     (let f = (case fo of None \<Rightarrow> layer_brk st | Some g \<Rightarrow> g);
          st1 = (case fo of None \<Rightarrow> st\<lparr>layer_brk := Suc (layer_brk st)\<rparr> | Some _ \<Rightarrow> st)
      in and_then (PerlIOApache_pushed mode arg zero_layer) (\<lambda>l. Inr (f, set_layer f (l\<lparr>PERLIO_F_OPEN := True\<rparr>) st1)))"

text \<open>The argument a copy of a handle is opened with: a new object for the request.\<close>

definition PerlIOApache_getarg :: "nat \<Rightarrow> handle_state \<Rightarrow> nat res" where
  "PerlIOApache_getarg f st = and_then (get_layer f st) (\<lambda>l. case l_r l of
       None \<Rightarrow> Inl (Croak ''an attempt to getarg from a stale io handle'') | Some r \<Rightarrow> Inr r)"

definition PerlIOApache_fileno :: "nat \<Rightarrow> int" where "PerlIOApache_fileno f = -1"
definition PerlIOApache_noop_fail :: "nat \<Rightarrow> int" where "PerlIOApache_noop_fail f = -1"

text \<open>\<open>PerlIOBase_dup\<close>: a new layer, pushed with the argument of the old one and the same mode.\<close>

definition dup_handle :: "nat \<Rightarrow> handle_state \<Rightarrow> (nat \<times> handle_state) res" where
  "dup_handle f st = and_then (PerlIOApache_getarg f st) (\<lambda>r. and_then (get_layer f st) (\<lambda>l.
     PerlIOApache_open (if PERLIO_F_CANWRITE l then (if PERLIO_F_CANREAD l then ''w+'' else ''w'') else ''r'') None (Some r) st))"

text \<open>
  What reading, writing and flushing do with the request. Writing looks at the configuration of the request before it looks at the flags; a null request has none, and the flags of a closed
  handle end the function then.
\<close>

definition touch_read :: "nat \<Rightarrow> handle_state \<Rightarrow> unit res" where
  "touch_read f st = and_then (get_layer f st) (\<lambda>l.
     if \<not> PERLIO_F_CANREAD l then Inr ()
     else case l_r l of None \<Rightarrow> Inl NullDeref | Some r \<Rightarrow> follow_request r st)"

definition touch_write :: "nat \<Rightarrow> handle_state \<Rightarrow> unit res" where
  "touch_write f st = and_then (get_layer f st) (\<lambda>l.
     and_then (case l_r l of None \<Rightarrow> Inr () | Some r \<Rightarrow> follow_request r st) (\<lambda>_.
       if \<not> PERLIO_F_CANWRITE l then Inr () else if l_r l = None then Inl NullDeref else Inr ()))"

definition touch_flush :: "nat \<Rightarrow> handle_state \<Rightarrow> unit res" where
  "touch_flush f st = and_then (get_layer f st) (\<lambda>l. case l_r l of
       None \<Rightarrow> Inr ()
     | Some r \<Rightarrow> if \<not> PERLIO_F_CANWRITE l then Inr () else follow_request r st)"

text \<open>\<open>PerlIOBase_close\<close> flushes the handle and takes the flags away.\<close>

definition base_close :: "nat \<Rightarrow> handle_state \<Rightarrow> handle_state res" where
  "base_close f st = and_then (touch_flush f st) (\<lambda>_. and_then (get_layer f st) (\<lambda>l.
     Inr (set_layer f (l\<lparr>PERLIO_F_OPEN := False, PERLIO_F_CANREAD := False, PERLIO_F_CANWRITE := False\<rparr>) st)))"

definition PerlIOApache_close :: "nat \<Rightarrow> handle_state \<Rightarrow> handle_state res" where
  "PerlIOApache_close f st = and_then (base_close f st) (\<lambda>st1. and_then (get_layer f st1) (\<lambda>l. Inr (set_layer f (l\<lparr>l_r := None\<rparr>) st1)))"

definition modperl_io_apache_init :: "handle_state \<Rightarrow> handle_state" where
  "modperl_io_apache_init st = st\<lparr>apache_layer := True\<rparr>"

section \<open>Tied handles\<close>

text \<open>
  The magic of a handle: the object it is tied to. Objects have a class, the request they hold and a reference count. \<open>io_flush\<close> is \<open>$|\<close> of the handle that
  is selected.
\<close>

record tie_obj =
  t_class :: string
  t_req :: nat
  t_refcnt :: nat

record tie_state =
  tie_magic :: "string \<Rightarrow> nat option"
  tobjs :: "nat \<Rightarrow> tie_obj option"
  tobj_brk :: nat
  io_flush :: bool

definition modperl_ptr2obj :: "string \<Rightarrow> nat \<Rightarrow> tie_state \<Rightarrow> nat \<times> tie_state" where
  "modperl_ptr2obj classname r st =
     (tobj_brk st, st\<lparr>tobjs := (tobjs st)(tobj_brk st \<mapsto> \<lparr>t_class = classname, t_req = r, t_refcnt = 1\<rparr>), tobj_brk := Suc (tobj_brk st)\<rparr>)"

definition tobj_inc :: "nat \<Rightarrow> tie_state \<Rightarrow> tie_state" where
  "tobj_inc x st = st\<lparr>tobjs := (tobjs st)(x := map_option (\<lambda>t. t\<lparr>t_refcnt := t_refcnt t + 1\<rparr>) (tobjs st x))\<rparr>"

definition tobj_dec :: "nat \<Rightarrow> tie_state \<Rightarrow> tie_state" where
  "tobj_dec x st = st\<lparr>tobjs := (tobjs st)(x := (case tobjs st x of
       Some t \<Rightarrow> if t_refcnt t \<le> 1 then None else Some (t\<lparr>t_refcnt := t_refcnt t - 1\<rparr>) | None \<Rightarrow> None))\<rparr>"

definition modperl_io_handle_untie :: "string \<Rightarrow> tie_state \<Rightarrow> tie_state" where
  "modperl_io_handle_untie handle st = (case tie_magic st handle of
       None \<Rightarrow> st | Some x \<Rightarrow> tobj_dec x (st\<lparr>tie_magic := (tie_magic st)(handle := None)\<rparr>))"

definition modperl_io_handle_tie :: "string \<Rightarrow> string \<Rightarrow> nat \<Rightarrow> tie_state \<Rightarrow> tie_state" where
  "modperl_io_handle_tie handle classname r st =
     (let (obj, st1) = modperl_ptr2obj classname r st;
          st2 = modperl_io_handle_untie handle st1;
          st3 = tobj_inc obj (st2\<lparr>tie_magic := (tie_magic st2)(handle \<mapsto> obj)\<rparr>)
      in tobj_dec obj st3)"

definition modperl_io_handle_tied :: "string \<Rightarrow> string \<Rightarrow> tie_state \<Rightarrow> bool res" where
  "modperl_io_handle_tied handle classname st = (case tie_magic st handle of
       None \<Rightarrow> Inr False
     | Some x \<Rightarrow> (case tobjs st x of None \<Rightarrow> Inl UseAfterFree | Some t \<Rightarrow> Inr (t_class t \<noteq> classname)))"

definition RequestRec :: string where "RequestRec = ''Apache2::RequestRec''"

definition modperl_io_tie_stdin :: "nat \<Rightarrow> tie_state \<Rightarrow> tie_state res" where
  "modperl_io_tie_stdin r st = and_then (modperl_io_handle_tied ''STDIN'' RequestRec st) (\<lambda>other.
     Inr (if other then st else modperl_io_handle_tie ''STDIN'' RequestRec r st))"

definition modperl_io_tie_stdout :: "nat \<Rightarrow> tie_state \<Rightarrow> tie_state res" where
  "modperl_io_tie_stdout r st = and_then (modperl_io_handle_tied ''STDOUT'' RequestRec st) (\<lambda>other.
     Inr (if other then st else modperl_io_handle_tie ''STDOUT'' RequestRec r (st\<lparr>io_flush := False\<rparr>)))"

section \<open>Handles that outlive requests\<close>

text \<open>What Perl code and httpd do with handles and requests.\<close>

datatype handle_op = OpenFor nat string | Dup nat | Read nat | Write nat | Flush nat | Close nat | EndRequest nat

fun handle_step :: "handle_op \<Rightarrow> handle_state \<Rightarrow> handle_state res" where
  "handle_step (OpenFor r mode) st = and_then (PerlIOApache_open mode None (Some r) st) (\<lambda>x. Inr (snd x))"
| "handle_step (Dup f) st = and_then (dup_handle f st) (\<lambda>x. Inr (snd x))"
| "handle_step (Read f) st = and_then (touch_read f st) (\<lambda>_. Inr st)"
| "handle_step (Write f) st = and_then (touch_write f st) (\<lambda>_. Inr st)"
| "handle_step (Flush f) st = and_then (touch_flush f st) (\<lambda>_. Inr st)"
| "handle_step (Close f) st = PerlIOApache_close f st"
| "handle_step (EndRequest r) st = Inr (st\<lparr>live := live st - {r}\<rparr>)"

text \<open>Perl code uses handles it has; a request is alive when a handle is opened for it, and when it ends no handle that is open is for it.\<close>

fun handle_ok :: "handle_op \<Rightarrow> handle_state \<Rightarrow> bool" where
  "handle_ok (OpenFor r mode) st \<longleftrightarrow> r \<in> live st"
| "handle_ok (EndRequest r) st \<longleftrightarrow> (\<forall>f l. layers st f = Some l \<longrightarrow> l_r l \<noteq> Some r)"
| "handle_ok (Dup f) st \<longleftrightarrow> layers st f \<noteq> None"
| "handle_ok (Read f) st \<longleftrightarrow> layers st f \<noteq> None"
| "handle_ok (Write f) st \<longleftrightarrow> layers st f \<noteq> None"
| "handle_ok (Flush f) st \<longleftrightarrow> layers st f \<noteq> None"
| "handle_ok (Close f) st \<longleftrightarrow> layers st f \<noteq> None"

text \<open>A Perl exception ends one operation and changes nothing.\<close>

fun handle_run :: "handle_op list \<Rightarrow> handle_state \<Rightarrow> handle_state res" where
  "handle_run [] st = Inr st"
| "handle_run (x # xs) st = (case handle_step x st of
       Inr st1 \<Rightarrow> handle_run xs st1 | Inl (Croak m) \<Rightarrow> handle_run xs st | Inl e \<Rightarrow> Inl e)"

fun handles_ok :: "handle_op list \<Rightarrow> handle_state \<Rightarrow> bool" where
  "handles_ok [] st \<longleftrightarrow> True"
| "handles_ok (x # xs) st \<longleftrightarrow> handle_ok x st \<and> (case handle_step x st of
       Inr st1 \<Rightarrow> handles_ok xs st1 | Inl (Croak m) \<Rightarrow> handles_ok xs st | Inl e \<Rightarrow> True)"

definition layers_ok :: "handle_state \<Rightarrow> bool" where
  "layers_ok st \<longleftrightarrow> (\<forall>f l. layers st f = Some l \<longrightarrow>
     (l_r l = None \<longrightarrow> \<not> PERLIO_F_CANREAD l \<and> \<not> PERLIO_F_CANWRITE l) \<and> (\<forall>r. l_r l = Some r \<longrightarrow> r \<in> live st))"

lemma layers_okD:
  "layers_ok st \<Longrightarrow> layers st f = Some l \<Longrightarrow> l_r l = Some r \<Longrightarrow> r \<in> live st"
  "layers_ok st \<Longrightarrow> layers st f = Some l \<Longrightarrow> l_r l = None \<Longrightarrow> \<not> PERLIO_F_CANREAD l \<and> \<not> PERLIO_F_CANWRITE l"
  by (auto simp: layers_ok_def)

lemma layers_ok_set:
  "layers_ok st \<Longrightarrow> (l_r l = None \<longrightarrow> \<not> PERLIO_F_CANREAD l \<and> \<not> PERLIO_F_CANWRITE l) \<and> (\<forall>r. l_r l = Some r \<longrightarrow> r \<in> live st) \<Longrightarrow>
     layers_ok (set_layer f l st)"
  by (auto simp: layers_ok_def set_layer_def)

lemma open_ok:
  assumes "layers_ok st" and "r \<in> live st"
  shows "\<exists>f st1. PerlIOApache_open mode None (Some r) st = Inr (f, st1) \<and> layers_ok st1"
proof -
  have "layers_ok (st\<lparr>layer_brk := Suc (layer_brk st)\<rparr>)" using assms(1) by (simp add: layers_ok_def)
  from layers_ok_set [OF this] assms(2) show ?thesis
    by (simp add: PerlIOApache_open_def PerlIOApache_pushed_def Let_def)
qed

lemma close_ok:
  assumes ok: "layers_ok st" and l: "layers st f = Some l"
  shows "\<exists>st1 l1. PerlIOApache_close f st = Inr st1 \<and> layers_ok st1 \<and> layers st1 f = Some l1 \<and> l_r l1 = None"
proof -
  let ?l = "l\<lparr>PERLIO_F_OPEN := False, PERLIO_F_CANREAD := False, PERLIO_F_CANWRITE := False\<rparr>"
  have "touch_flush f st = Inr ()"
    using layers_okD(1) [OF ok l] l by (auto simp: touch_flush_def get_layer_def follow_request_def split: option.splits)
  then have "PerlIOApache_close f st = Inr (set_layer f (?l\<lparr>l_r := None\<rparr>) (set_layer f ?l st))"
    using l by (simp add: PerlIOApache_close_def base_close_def get_layer_def set_layer_def)
  moreover have "layers_ok (set_layer f (?l\<lparr>l_r := None\<rparr>) (set_layer f ?l st))"
    using layers_ok_set [OF ok, of "?l\<lparr>l_r := None\<rparr>" f] by (simp add: set_layer_def)
  ultimately show ?thesis by (simp add: set_layer_def)
qed

lemma handle_step_ok:
  assumes ok: "layers_ok st" and x: "handle_ok x st"
  shows "(\<exists>st1. handle_step x st = Inr st1 \<and> layers_ok st1) \<or> (\<exists>m. handle_step x st = Inl (Croak m))"
proof (cases x)
  case (OpenFor r mode)
  with x open_ok [OF ok, of r mode] show ?thesis by auto
next
  case (Dup f)
  with x obtain l where l: "layers st f = Some l" by auto
  show ?thesis
  proof (cases "l_r l")
    case (Some r)
    have "r \<in> live st" by (rule layers_okD(1) [OF ok l Some])
    from open_ok [OF ok this] obtain g st1 where "PerlIOApache_open (if PERLIO_F_CANWRITE l then (if PERLIO_F_CANREAD l then ''w+'' else ''w'') else ''r'') None (Some r) st
        = Inr (g, st1)" "layers_ok st1" by blast
    with Dup l Some show ?thesis by (simp add: dup_handle_def PerlIOApache_getarg_def get_layer_def)
  qed (use Dup l in \<open>simp add: dup_handle_def PerlIOApache_getarg_def get_layer_def\<close>)
next
  case (Read f)
  with x obtain l where l: "layers st f = Some l" by auto
  with layers_okD [OF ok l] Read ok show ?thesis
    by (cases "l_r l") (auto simp: touch_read_def get_layer_def follow_request_def)
next
  case (Write f)
  with x obtain l where l: "layers st f = Some l" by auto
  with layers_okD [OF ok l] Write ok show ?thesis
    by (cases "l_r l") (auto simp: touch_write_def get_layer_def follow_request_def)
next
  case (Flush f)
  with x obtain l where l: "layers st f = Some l" by auto
  with layers_okD [OF ok l] Flush ok show ?thesis
    by (cases "l_r l") (auto simp: touch_flush_def get_layer_def follow_request_def)
next
  case (Close f)
  with x obtain l where "layers st f = Some l" by auto
  from close_ok [OF ok this] Close show ?thesis by auto
next
  case (EndRequest r)
  with x ok show ?thesis by (auto simp: layers_ok_def)
qed

section \<open>Properties\<close>

text \<open>
  Handles of the layer never use a request that is gone and never follow a null pointer, as long as none is open for a request when it ends: a handle that was closed is inert, whatever
  Perl code does with it afterwards.
\<close>

theorem io_handles_safe:
  assumes "layers_ok st" and "handles_ok xs st"
  shows "\<exists>st'. handle_run xs st = Inr st' \<and> layers_ok st'"
  using assms
proof (induction xs arbitrary: st)
  case (Cons x xs)
  then have "handle_ok x st" by simp
  from handle_step_ok [OF Cons.prems(1) this] Cons.IH Cons.prems show ?case by auto
qed simp

definition demo_handles :: handle_state where
  "demo_handles = \<lparr>layers = Map.empty, layer_brk = 0, live = {7}, apache_layer = True\<rparr>"

lemma io_handles_safe_witness:
  "\<exists>st'. handle_run [OpenFor 7 ''w'', Write 0, Close 0, EndRequest 7, Write 0, Read 0, Flush 0, Dup 0] demo_handles = Inr st' \<and> layers_ok st'"
  by (rule io_handles_safe)
    (simp_all add: demo_handles_def layers_ok_def PerlIOApache_open_def PerlIOApache_pushed_def set_layer_def zero_layer_def touch_write_def
      get_layer_def follow_request_def PerlIOApache_close_def base_close_def touch_flush_def touch_read_def dup_handle_def PerlIOApache_getarg_def Let_def)

text \<open>
  The comment of \<open>PerlIOApache_close\<close> gives a duplicated handle as the reason to forget the request. But a duplicate has a layer of its own: closing the handle
  does not reach it, and printing to it after the request is a use of freed memory.
\<close>

lemma io_handle_dup_stale:
  "handle_run [OpenFor 7 ''w'', Dup 0, Close 0, EndRequest 7, Write 1] demo_handles = Inl UseAfterFree"
  by (simp add: demo_handles_def PerlIOApache_open_def PerlIOApache_pushed_def set_layer_def zero_layer_def touch_write_def
      get_layer_def follow_request_def PerlIOApache_close_def base_close_def touch_flush_def dup_handle_def PerlIOApache_getarg_def Let_def)

text \<open>
  Tying \<open>STDOUT\<close> to a request: a handle that Perl code has tied to another class is left alone, any other is tied to an object of the request with one reference, and the
  object it was tied to before has lost its reference.
\<close>

lemma io_tie_stdout:
  assumes "modperl_io_tie_stdout r st = Inr st'" and "\<And>h x. tie_magic st h = Some x \<Longrightarrow> x < tobj_brk st"
  shows "if (\<exists>x t. tie_magic st ''STDOUT'' = Some x \<and> tobjs st x = Some t \<and> t_class t \<noteq> RequestRec) then st' = st
    else \<exists>x. tie_magic st' ''STDOUT'' = Some x \<and> tobjs st' x = Some \<lparr>t_class = RequestRec, t_req = r, t_refcnt = 1\<rparr> \<and>
      (\<forall>y t. tie_magic st ''STDOUT'' = Some y \<longrightarrow> tobjs st y = Some t \<longrightarrow> t_refcnt t = 1 \<longrightarrow> tobjs st' y = None)"
proof (cases "tie_magic st ''STDOUT''")
  case None
  with assms(1) show ?thesis
    by (auto simp: modperl_io_tie_stdout_def modperl_io_handle_tied_def modperl_io_handle_tie_def modperl_io_handle_untie_def
        modperl_ptr2obj_def tobj_inc_def tobj_dec_def Let_def)
next
  case (Some x)
  with assms(2) have "x < tobj_brk st" by blast
  with Some assms(1) show ?thesis
    by (auto simp: modperl_io_tie_stdout_def modperl_io_handle_tied_def modperl_io_handle_tie_def modperl_io_handle_untie_def
        modperl_ptr2obj_def tobj_inc_def tobj_dec_def Let_def split: option.splits if_splits)
qed

end
