(* ===== verification/Constants.thy ===== *)
theory Constants
  imports Prelude
begin

text \<open>
  The constants of httpd and APR as Perl subs (\<^verbatim>\<open>src/src/modules/perl/modperl_const.c\<close>): \<open>Apache2::Const\<close>, \<open>APR::Const\<close> and \<open>ModPerl::Const\<close> define
  a sub for each constant that is asked for, and give the package that asks the same sub. The tables from names to values and from groups to names are generated; they are parameters.
\<close>

section \<open>Symbol tables\<close>

text \<open>
  An entry of a package is a glob, with or without code, or a scalar that was made for a name nobody has defined. Code has a value (the constants are subs with a constant value; other subs
  count as a value, too) and the number of its references.
\<close>

datatype gv = NoGlob | Glob "nat option"

record 'v symtab =
  stash :: "string \<Rightarrow> string \<Rightarrow> gv option"
  code :: "nat \<Rightarrow> ('v \<times> nat) option"
  code_brk :: nat

definition set_gv :: "string \<Rightarrow> string \<Rightarrow> gv \<Rightarrow> 'v symtab \<Rightarrow> 'v symtab" where
  "set_gv p n g st = st\<lparr>stash := (stash st)(p := (stash st p)(n \<mapsto> g))\<rparr>"

text \<open>\<open>hv_fetch\<close> with \<open>TRUE\<close> makes an entry when there is none.\<close>

definition hv_fetch_lval :: "string \<Rightarrow> string \<Rightarrow> 'v symtab \<Rightarrow> gv \<times> 'v symtab" where
  "hv_fetch_lval p n st = (case stash st p n of Some g \<Rightarrow> (g, st) | None \<Rightarrow> (NoGlob, set_gv p n NoGlob st))"

definition newCONSTSUB :: "string \<Rightarrow> string \<Rightarrow> 'v \<Rightarrow> 'v symtab \<Rightarrow> nat \<times> 'v symtab" where
  "newCONSTSUB p n v st = (code_brk st, set_gv p n (Glob (Some (code_brk st)))
     (st\<lparr>code := (code st)(code_brk st \<mapsto> (v, 1)), code_brk := Suc (code_brk st)\<rparr>))"

definition code_inc :: "nat \<Rightarrow> 'v symtab \<Rightarrow> 'v symtab" where
  "code_inc c st = st\<lparr>code := (code st)(c := map_option (\<lambda>(v, k). (v, Suc k)) (code st c))\<rparr>"

text \<open>
  One constant. A sub that is there is not defined again, and its name is not looked up. An unknown name raises an exception (in the generated lookup). The state after an exception is
  the state when it was raised.
\<close>

definition new_constsub ::
    "(string \<Rightarrow> 'v option) \<Rightarrow> string option \<Rightarrow> string \<Rightarrow> string \<Rightarrow> 'v symtab \<Rightarrow> c_error option \<times> 'v symtab" where
  "new_constsub lookup caller_stash cls name st =
     (let (gvp, st1) = hv_fetch_lval cls name st;
          found = (case gvp of
              Glob (Some c) \<Rightarrow> Some (c, st1)
            | _ \<Rightarrow> map_option (\<lambda>v. newCONSTSUB cls name v st1) (lookup name))
      in case found of
           None \<Rightarrow> (Some (Croak ''unknown constant''), st1)
         | Some (c, st2) \<Rightarrow> (None, case caller_stash of
               None \<Rightarrow> st2
             | Some caller \<Rightarrow>
                 (let (_, st3) = hv_fetch_lval caller name st2 in set_gv caller name (Glob (Some c)) (code_inc c st3))))"

fun new_constsubs ::
    "(string \<Rightarrow> 'v option) \<Rightarrow> string option \<Rightarrow> string \<Rightarrow> string list \<Rightarrow> 'v symtab \<Rightarrow> c_error option \<times> 'v symtab" where
  "new_constsubs lookup caller_stash cls [] st = (None, st)"
| "new_constsubs lookup caller_stash cls (n # ns) st = (case new_constsub lookup caller_stash cls n st of
       (None, st1) \<Rightarrow> new_constsubs lookup caller_stash cls ns st1 | (Some e, st1) \<Rightarrow> (Some e, st1))"

text \<open>The two generated tables of each of the three families; the family is chosen by the name of the class.\<close>

datatype family = APR_Const | Apache2_Const | ModPerl_Const

definition const_family :: "string \<Rightarrow> family" where
  "const_family classname = (if take 3 classname = ''APR'' then APR_Const
     else if take 7 classname = ''Apache2'' then Apache2_Const else ModPerl_Const)"

record 'v const_tables =
  constants_lookup :: "family \<Rightarrow> string \<Rightarrow> 'v option"
  constants_group_lookup :: "family \<Rightarrow> string \<Rightarrow> string list option"

definition modperl_const_compile ::
    "'v const_tables \<Rightarrow> string \<Rightarrow> string \<Rightarrow> string \<Rightarrow> 'v symtab \<Rightarrow> c_error option \<times> 'v symtab" where
  "modperl_const_compile T classname arg name st =
     (let fam = const_family classname;
          lookup = constants_lookup T fam;
          caller_stash = (if take 1 arg = ''-'' then None else Some arg)
      in if take 1 name = '':'' then
           (case constants_group_lookup T fam (tl name) of
              None \<Rightarrow> (Some (Croak ''unknown group''), st)
            | Some grp \<Rightarrow> new_constsubs lookup caller_stash classname grp st)
         else new_constsub lookup caller_stash classname (if take 1 name = [CHR 0x26] then tl name else name) st)"

fun const_compile_loop ::
    "'v const_tables \<Rightarrow> string \<Rightarrow> string \<Rightarrow> string list \<Rightarrow> 'v symtab \<Rightarrow> c_error option \<times> 'v symtab" where
  "const_compile_loop T classname arg [] st = (None, st)"
| "const_compile_loop T classname arg (n # ns) st = (case modperl_const_compile T classname arg n st of
       (None, st1) \<Rightarrow> const_compile_loop T classname arg ns st1 | (Some e, st1) \<Rightarrow> (Some e, st1))"

text \<open>\<open>stashname\<close> is the package of the sub \<open>compile\<close> that is called; the arguments are the class, the package or \<open>-compile\<close>, and the names.\<close>

definition const_classname :: "string \<Rightarrow> string" where
  "const_classname stashname = (if take 1 (drop 1 stashname) = ''P'' then ''APR::Const''
     else if take 1 stashname = ''A'' then ''Apache2::Const'' else ''ModPerl'')"

definition XS_modperl_const_compile ::
    "'v const_tables \<Rightarrow> string \<Rightarrow> string list \<Rightarrow> 'v symtab \<Rightarrow> c_error option \<times> 'v symtab" where
  "XS_modperl_const_compile T stashname args st =
     (case args of
        cls # arg # names \<Rightarrow> const_compile_loop T (const_classname stashname) arg names st
      | _ \<Rightarrow> (Some (Croak ''Usage''), st))"

section \<open>What is asked for\<close>

text \<open>The names the arguments stand for; \<open>None\<close> is an unknown group.\<close>

definition expand :: "(string \<Rightarrow> string list option) \<Rightarrow> string \<Rightarrow> string option list" where
  "expand groups name = (if take 1 name = '':'' then (case groups (tl name) of None \<Rightarrow> [None] | Some g \<Rightarrow> map Some g)
     else [Some (if take 1 name = [CHR 0x26] then tl name else name)])"

definition sub_of :: "'v symtab \<Rightarrow> string \<Rightarrow> string \<Rightarrow> nat option" where
  "sub_of st p n = (case stash st p n of Some (Glob c) \<Rightarrow> c | _ \<Rightarrow> None)"

definition value_of :: "'v symtab \<Rightarrow> nat \<Rightarrow> 'v option" where
  "value_of st c = map_option fst (code st c)"

definition symtab_ok :: "'v symtab \<Rightarrow> bool" where
  "symtab_ok st \<longleftrightarrow> (\<forall>p n c. sub_of st p n = Some c \<longrightarrow> c < code_brk st)"

text \<open>
  What defining the names \<open>ns\<close> must do: the class has a sub for each, the one it had or one with the value of the table; the package that asks has the same sub; nothing else changes.
\<close>

definition defined ::
    "(string \<Rightarrow> 'v option) \<Rightarrow> string option \<Rightarrow> string \<Rightarrow> string set \<Rightarrow> 'v symtab \<Rightarrow> 'v symtab \<Rightarrow> bool" where
  "defined lookup caller cls ns st st' \<longleftrightarrow>
     (\<forall>n \<in> ns. \<exists>c. sub_of st' cls n = Some c \<and> (case caller of None \<Rightarrow> True | Some p \<Rightarrow> sub_of st' p n = Some c) \<and>
        (case sub_of st cls n of Some d \<Rightarrow> c = d | None \<Rightarrow> code_brk st \<le> c \<and> value_of st' c = lookup n)) \<and>
     (\<forall>p n. n \<notin> ns \<or> p \<noteq> cls \<and> Some p \<noteq> caller \<longrightarrow> sub_of st' p n = sub_of st p n) \<and>
     (\<forall>c < code_brk st. value_of st' c = value_of st c) \<and> code_brk st \<le> code_brk st'"

lemma sub_of_set: "sub_of (set_gv p n g st) q m = (if q = p \<and> m = n then (case g of Glob c \<Rightarrow> c | NoGlob \<Rightarrow> None) else sub_of st q m)"
  by (simp add: sub_of_def set_gv_def split: gv.split)

lemma value_of_set [simp]: "value_of (set_gv p n g st) c = value_of st c" "code_brk (set_gv p n g st) = code_brk st"
  by (simp_all add: value_of_def set_gv_def)

lemma value_of_inc [simp]: "value_of (code_inc d st) c = value_of st c" "code_brk (code_inc d st) = code_brk st"
    "sub_of (code_inc d st) p n = sub_of st p n"
  by (cases "code st d") (auto simp: value_of_def code_inc_def sub_of_def split: option.splits)

lemma hv_fetch_keeps:
  "hv_fetch_lval p n st = (g, st') \<Longrightarrow> sub_of st' = sub_of st \<and> value_of st' = value_of st \<and> code_brk st' = code_brk st \<and>
     (case g of Glob c \<Rightarrow> c | NoGlob \<Rightarrow> None) = sub_of st p n"
proof (cases "stash st p n")
  case None
  then have "sub_of st p n = None" by (simp add: sub_of_def)
  moreover assume "hv_fetch_lval p n st = (g, st')"
  ultimately show ?thesis using None by (auto simp: hv_fetch_lval_def sub_of_set fun_eq_iff)
qed (auto simp: hv_fetch_lval_def sub_of_def split: gv.splits)

lemma newCONSTSUB_facts:
  "newCONSTSUB p n v st = (c, st') \<Longrightarrow> c = code_brk st \<and> code_brk st' = Suc (code_brk st) \<and> value_of st' d = (if d = c then Some v else value_of st d) \<and>
     sub_of st' q m = (if q = p \<and> m = n then Some c else sub_of st q m)"
  by (auto simp: newCONSTSUB_def sub_of_set) (auto simp: value_of_def sub_of_def)

lemma symtab_ok_grow:
  "symtab_ok st \<Longrightarrow> code_brk st \<le> code_brk st' \<Longrightarrow> (\<And>p n d. sub_of st' p n = Some d \<Longrightarrow> d < code_brk st' \<or> sub_of st p n = Some d) \<Longrightarrow> symtab_ok st'"
  by (fastforce simp: symtab_ok_def)

lemma new_constsub_defined:
  assumes ok: "symtab_ok st"
  shows "if sub_of st cls n \<noteq> None \<or> lookup n \<noteq> None
    then \<exists>st'. new_constsub lookup caller cls n st = (None, st') \<and> defined lookup caller cls {n} st st' \<and> symtab_ok st'
    else \<exists>st' m. new_constsub lookup caller cls n st = (Some (Croak m), st') \<and> defined lookup caller cls {} st st'"
proof -
  obtain g st1 where f: "hv_fetch_lval cls n st = (g, st1)" by fastforce
  note k = hv_fetch_keeps [OF f]
  have export: "\<exists>st'. (case caller of None \<Rightarrow> st2 | Some p \<Rightarrow> (let (_, st3) = hv_fetch_lval p n st2 in set_gv p n (Glob (Some c)) (code_inc c st3))) = st' \<and>
      defined lookup caller cls {n} st st' \<and> symtab_ok st'"
    if s2: "sub_of st2 cls n = Some c" "\<And>p m. p \<noteq> cls \<or> m \<noteq> n \<Longrightarrow> sub_of st2 p m = sub_of st p m"
      "code_brk st \<le> code_brk st2" "\<And>d. d < code_brk st \<Longrightarrow> value_of st2 d = value_of st d" "c < code_brk st2"
      "case sub_of st cls n of Some d \<Rightarrow> c = d | None \<Rightarrow> code_brk st \<le> c \<and> value_of st2 c = lookup n" for c st2
  proof (cases caller)
    case None
    have "symtab_ok st2"
    proof (rule symtab_ok_grow [OF ok s2(3)])
      fix p m d assume "sub_of st2 p m = Some d"
      with s2(1,5) s2(2) [of p m] show "d < code_brk st2 \<or> sub_of st p m = Some d" by (cases "p = cls \<and> m = n") auto
    qed
    with None s2 show ?thesis by (auto simp: defined_def)
  next
    case (Some q)
    obtain h st3 where h: "hv_fetch_lval q n st2 = (h, st3)" by fastforce
    note k3 = hv_fetch_keeps [OF h]
    let ?st = "set_gv q n (Glob (Some c)) (code_inc c st3)"
    have sub: "sub_of ?st p m = (if m = n \<and> (p = q \<or> p = cls) then Some c else sub_of st p m)" for p m
      using k3 s2(1) s2(2) [of p m] by (auto simp: sub_of_set)
    have "symtab_ok ?st"
      by (rule symtab_ok_grow [OF ok]) (use k3 s2(3,5) in \<open>auto simp: sub split: if_splits\<close>)
    moreover have "defined lookup caller cls {n} st ?st"
      using k3 s2(3,4,6) Some by (auto simp: defined_def sub split: option.splits)
    ultimately show ?thesis using Some h by simp
  qed
  show ?thesis
  proof (cases "sub_of st cls n")
    case (Some c)
    with k have g: "g = Glob (Some c)" by (cases g) auto
    from Some ok have "c < code_brk st" by (simp add: symtab_ok_def)
    with k Some have "\<exists>st'. (case caller of None \<Rightarrow> st1 | Some p \<Rightarrow> (let (_, st3) = hv_fetch_lval p n st1 in set_gv p n (Glob (Some c)) (code_inc c st3))) = st' \<and>
      defined lookup caller cls {n} st st' \<and> symtab_ok st'" by (intro export) auto
    then show ?thesis using f g Some by (simp add: new_constsub_def)
  next
    case None
    with k have g: "g = NoGlob \<or> g = Glob None" by (cases g) auto
    show ?thesis
    proof (cases "lookup n")
      case None
      have "defined lookup caller cls {} st st1" using k by (simp add: defined_def)
      then show ?thesis using f g None \<open>sub_of st cls n = None\<close> by (auto simp: new_constsub_def)
    next
      case (Some v)
      obtain c st2 where c: "newCONSTSUB cls n v st1 = (c, st2)" by fastforce
      note nf = newCONSTSUB_facts [OF c]
      have "\<exists>st'. (case caller of None \<Rightarrow> st2 | Some p \<Rightarrow> (let (_, st3) = hv_fetch_lval p n st2 in set_gv p n (Glob (Some c)) (code_inc c st3))) = st' \<and>
        defined lookup caller cls {n} st st' \<and> symtab_ok st'"
        using nf k None Some by (intro export) auto
      then show ?thesis using f g c Some by (auto simp: new_constsub_def)
    qed
  qed
qed

definition sub_ok ::
    "(string \<Rightarrow> 'v option) \<Rightarrow> string option \<Rightarrow> string \<Rightarrow> string \<Rightarrow> 'v symtab \<Rightarrow> 'v symtab \<Rightarrow> bool" where
  "sub_ok lookup caller cls n st st' \<longleftrightarrow> (\<exists>c. sub_of st' cls n = Some c \<and> (case caller of None \<Rightarrow> True | Some p \<Rightarrow> sub_of st' p n = Some c) \<and>
     (case sub_of st cls n of Some d \<Rightarrow> c = d | None \<Rightarrow> code_brk st \<le> c \<and> value_of st' c = lookup n))"

lemma defined_alt:
  "defined lookup caller cls ns st st' \<longleftrightarrow> (\<forall>n \<in> ns. sub_ok lookup caller cls n st st') \<and>
     (\<forall>p n. n \<notin> ns \<or> p \<noteq> cls \<and> Some p \<noteq> caller \<longrightarrow> sub_of st' p n = sub_of st p n) \<and>
     (\<forall>c < code_brk st. value_of st' c = value_of st c) \<and> code_brk st \<le> code_brk st'"
  by (simp add: defined_def sub_ok_def)

lemma sub_ok_later:
  assumes "sub_ok lookup caller cls n st st1" "symtab_ok st1" "\<And>p. sub_of st2 p n = sub_of st1 p n" "\<forall>c < code_brk st1. value_of st2 c = value_of st1 c"
  shows "sub_ok lookup caller cls n st st2"
proof -
  from assms(1) obtain c where c: "sub_of st1 cls n = Some c" "case caller of None \<Rightarrow> True | Some p \<Rightarrow> sub_of st1 p n = Some c"
    "case sub_of st cls n of Some d \<Rightarrow> c = d | None \<Rightarrow> code_brk st \<le> c \<and> value_of st1 c = lookup n" by (auto simp: sub_ok_def)
  with assms(2) have "c < code_brk st1" by (simp add: symtab_ok_def)
  with c assms(3,4) show ?thesis by (auto simp: sub_ok_def split: option.splits)
qed

lemma sub_ok_earlier:
  assumes "sub_ok lookup caller cls n st1 st2" "code_brk st \<le> code_brk st1"
    "sub_of st1 cls n = sub_of st cls n \<or> sub_ok lookup caller cls n st st1"
    "symtab_ok st1" "\<forall>c < code_brk st1. value_of st2 c = value_of st1 c"
  shows "sub_ok lookup caller cls n st st2"
proof (cases "sub_of st1 cls n")
  case None
  with assms(1,2,3) show ?thesis by (auto simp: sub_ok_def split: option.splits)
next
  case (Some d)
  with assms(4) have "d < code_brk st1" by (simp add: symtab_ok_def)
  with Some assms(1,3,5) show ?thesis by (auto simp: sub_ok_def split: option.splits)
qed

lemma definedD:
  assumes "defined lookup caller cls ns st st'"
  shows "n \<in> ns \<Longrightarrow> sub_ok lookup caller cls n st st'" "n \<notin> ns \<or> p \<noteq> cls \<and> Some p \<noteq> caller \<Longrightarrow> sub_of st' p n = sub_of st p n"
    "\<forall>c < code_brk st. value_of st' c = value_of st c" "code_brk st \<le> code_brk st'"
  using assms unfolding defined_alt by blast+

lemma defined_trans:
  assumes 1: "defined lookup caller cls ns st st1" and 2: "defined lookup caller cls ms st1 st2" and ok: "symtab_ok st1"
  shows "defined lookup caller cls (ns \<union> ms) st st2"
  unfolding defined_alt
proof (intro conjI ballI allI impI)
  fix n assume n: "n \<in> ns \<union> ms"
  show "sub_ok lookup caller cls n st st2"
  proof (cases "n \<in> ms")
    case True
    show ?thesis
      by (rule sub_ok_earlier [OF definedD(1) [OF 2 True] definedD(4) [OF 1] _ ok definedD(3) [OF 2]])
        (use definedD(1) [OF 1, of n] definedD(2) [OF 1, of n cls] in blast)
  next
    case False
    with n have "n \<in> ns" by simp
    from sub_ok_later [OF definedD(1) [OF 1 this] ok definedD(2) [OF 2] definedD(3) [OF 2]] False show ?thesis by simp
  qed
next
  fix p n assume "n \<notin> ns \<union> ms \<or> p \<noteq> cls \<and> Some p \<noteq> caller"
  then show "sub_of st2 p n = sub_of st p n" using definedD(2) [OF 1, of n p] definedD(2) [OF 2, of n p] by auto
next
  fix c assume "c < code_brk st"
  moreover from this definedD(4) [OF 1] have "c < code_brk st1" by simp
  ultimately show "value_of st2 c = value_of st c" using definedD(3) [OF 1] definedD(3) [OF 2] by simp
next
  show "code_brk st \<le> code_brk st2" using definedD(4) [OF 1] definedD(4) [OF 2] by (rule le_trans)
qed

lemma new_constsubs_append:
  "new_constsubs lookup caller cls (ns @ ms) st = (case new_constsubs lookup caller cls ns st of
     (None, st1) \<Rightarrow> new_constsubs lookup caller cls ms st1 | (Some e, st1) \<Rightarrow> (Some e, st1))"
  by (induction ns arbitrary: st) (auto split: prod.splits option.splits)

text \<open>The names that are defined: those before the first that is neither defined already nor in the table.\<close>

fun known :: "(string \<Rightarrow> 'v option) \<Rightarrow> string \<Rightarrow> 'v symtab \<Rightarrow> string option \<Rightarrow> bool" where
  "known lookup cls st None \<longleftrightarrow> False"
| "known lookup cls st (Some n) \<longleftrightarrow> sub_of st cls n \<noteq> None \<or> lookup n \<noteq> None"

text \<open>The loops over the arguments and the groups go through the names the arguments stand for.\<close>

fun define_all ::
    "(string \<Rightarrow> 'v option) \<Rightarrow> string option \<Rightarrow> string \<Rightarrow> string option list \<Rightarrow> 'v symtab \<Rightarrow> c_error option \<times> 'v symtab" where
  "define_all lookup caller cls [] st = (None, st)"
| "define_all lookup caller cls (None # xs) st = (Some (Croak ''unknown group''), st)"
| "define_all lookup caller cls (Some n # xs) st = (case new_constsub lookup caller cls n st of
       (None, st1) \<Rightarrow> define_all lookup caller cls xs st1 | (Some e, st1) \<Rightarrow> (Some e, st1))"

lemma define_all_names: "define_all lookup caller cls (map Some ns) st = new_constsubs lookup caller cls ns st"
  by (induction ns arbitrary: st) (auto split: prod.splits option.splits)

lemma define_all_append:
  "define_all lookup caller cls (xs @ ys) st = (case define_all lookup caller cls xs st of
     (None, st1) \<Rightarrow> define_all lookup caller cls ys st1 | (Some e, st1) \<Rightarrow> (Some e, st1))"
  by (induction lookup caller cls xs st rule: define_all.induct) (auto split: prod.splits option.splits)

lemma compile_define_all:
  "modperl_const_compile T cls arg n st = define_all (constants_lookup T (const_family cls)) (if take 1 arg = ''-'' then None else Some arg) cls
     (expand (constants_group_lookup T (const_family cls)) n) st"
proof (cases "take 1 n = '':''")
  case True
  then show ?thesis by (auto simp: modperl_const_compile_def expand_def define_all_names Let_def split: option.splits)
next
  case False
  then show ?thesis by (auto simp: modperl_const_compile_def expand_def Let_def split: prod.splits option.splits)
qed

lemma compile_loop_define_all:
  "const_compile_loop T cls arg ns st = define_all (constants_lookup T (const_family cls)) (if take 1 arg = ''-'' then None else Some arg) cls
     (concat (map (expand (constants_group_lookup T (const_family cls))) ns)) st"
  by (induction ns arbitrary: st) (auto simp: compile_define_all define_all_append split: prod.splits option.splits)

lemma define_all_spec:
  assumes "symtab_ok st"
  shows "\<exists>e st'. define_all lookup caller cls xs st = (e, st') \<and> (e = None \<longleftrightarrow> (\<forall>x \<in> set xs. known lookup cls st x)) \<and>
     (\<forall>x. e = Some x \<longrightarrow> (\<exists>m. x = Croak m)) \<and>
     defined lookup caller cls (set (map the (takeWhile (known lookup cls st) xs))) st st' \<and> symtab_ok st'"
  using assms
proof (induction xs arbitrary: st)
  case Nil
  then show ?case by (simp add: defined_def)
next
  case (Cons x xs)
  show ?case
  proof (cases "known lookup cls st x")
    case False
    show ?thesis
    proof (cases x)
      case None
      with Cons.prems show ?thesis by (simp add: defined_def)
    next
      case (Some n)
      from new_constsub_defined [OF Cons.prems, of cls n lookup caller] False Some obtain st1 m where
        "new_constsub lookup caller cls n st = (Some (Croak m), st1)" "defined lookup caller cls {} st st1" by auto
      moreover from definedD(2) [OF this(2)] Cons.prems definedD(4) [OF this(2)] have "symtab_ok st1"
        by (intro symtab_ok_grow [of st st1]) simp_all
      ultimately show ?thesis using False Some by auto
    qed
  next
    case True
    then obtain n where n: "x = Some n" by (cases x) auto
    from new_constsub_defined [OF Cons.prems, of cls n lookup caller] True n obtain st1 where
      1: "new_constsub lookup caller cls n st = (None, st1)" "defined lookup caller cls {n} st st1" "symtab_ok st1" by auto
    have same: "known lookup cls st1 = known lookup cls st"
    proof
      fix y
      show "known lookup cls st1 y = known lookup cls st y"
      proof (cases y)
        case (Some m)
        with True n definedD(1) [OF 1(2), of n] definedD(2) [OF 1(2), of m cls] show ?thesis
          by (cases "m = n") (auto simp: sub_ok_def)
      qed simp
    qed
    from Cons.IH [OF 1(3)] same obtain e st' where
      2: "define_all lookup caller cls xs st1 = (e, st')" "e = None \<longleftrightarrow> (\<forall>x \<in> set xs. known lookup cls st x)" "\<forall>x. e = Some x \<longrightarrow> (\<exists>m. x = Croak m)"
        "defined lookup caller cls (set (map the (takeWhile (known lookup cls st) xs))) st1 st'" "symtab_ok st'" by auto
    from defined_trans [OF 1(2) 2(4) 1(3)] show ?thesis using 1 2 True n by simp
  qed
qed

lemma the_image: "None \<notin> S \<Longrightarrow> the ` S = {n. Some n \<in> S}"
  by (auto simp: image_iff) (metis option.exhaust_sel, metis option.sel)

lemma known_names: "set (map the (takeWhile (known lookup cls st) xs)) = {n. Some n \<in> set (takeWhile (known lookup cls st) xs)}"
proof -
  have "None \<notin> set (takeWhile (known lookup cls st) xs)" by (auto dest: set_takeWhileD)
  from the_image [OF this] show ?thesis by simp
qed

section \<open>Properties\<close>

text \<open>
  C39. \<open>compile\<close> defines every name and every member of a group that is asked for, in the package of the constants and, unless the first argument is an option, in the package that asks: with
  the sub that was there, or a new one with the value of the table of the right family. When a name or a group is not known it raises an exception, and exactly the names before that one
  are defined. Nothing else changes.
\<close>

theorem const_compile:
  assumes "symtab_ok st"
  shows "let cls = const_classname stashname; fam = const_family cls; caller = (if take 1 arg = ''-'' then None else Some arg);
      names = concat (map (expand (constants_group_lookup T fam)) args); ok = known (constants_lookup T fam) cls st
    in \<exists>e st'. XS_modperl_const_compile T stashname (self # arg # args) st = (e, st') \<and>
      (if \<forall>x \<in> set names. ok x then e = None else \<exists>m. e = Some (Croak m)) \<and>
      defined (constants_lookup T fam) caller cls {n. Some n \<in> set (takeWhile ok names)} st st' \<and> symtab_ok st'"
proof -
  let ?cls = "const_classname stashname"
  let ?fam = "const_family ?cls"
  from define_all_spec [OF assms, of "constants_lookup T ?fam" "if take 1 arg = ''-'' then None else Some arg" ?cls
      "concat (map (expand (constants_group_lookup T ?fam)) args)"]
  show ?thesis unfolding XS_modperl_const_compile_def compile_loop_define_all Let_def known_names list.case by (elim exE conjE, intro exI conjI) auto
qed

definition demo_tables :: "nat const_tables" where
  "demo_tables = \<lparr>constants_lookup = (\<lambda>f n. if f = Apache2_Const then map_of [(''OK'', 0), (''NOT_FOUND'', 404)] n else None),
     constants_group_lookup = (\<lambda>f g. if f = Apache2_Const \<and> g = ''http'' then Some [''NOT_FOUND''] else None)\<rparr>"

definition demo_symtab :: "nat symtab" where
  "demo_symtab = \<lparr>stash = (\<lambda>_ _. None), code = Map.empty, code_brk = 0\<rparr>"

lemma const_compile_witness:
  "\<exists>e st'. XS_modperl_const_compile demo_tables ''Apache2::Const'' [''Apache2::Const'', ''My'', ''OK'', '':http'', ''LATE'', ''OK''] demo_symtab = (e, st') \<and>
     (\<exists>m. e = Some (Croak m)) \<and> defined (constants_lookup demo_tables Apache2_Const) (Some ''My'') ''Apache2::Const'' {n. n = ''OK'' \<or> n = ''NOT_FOUND''} demo_symtab st' \<and> symtab_ok st'"
  using const_compile [of demo_symtab "''Apache2::Const''" "''My''" demo_tables "[''OK'', '':http'', ''LATE'', ''OK'']" "''Apache2::Const''"]
  by (simp add: symtab_ok_def demo_symtab_def sub_of_def const_classname_def const_family_def expand_def demo_tables_def Let_def)

text \<open>A name that is exported twice to the same package: the sub has a reference for each time, but only two entries hold it.\<close>

lemma const_export_leak:
  "\<exists>st'. XS_modperl_const_compile demo_tables ''Apache2::Const'' [''Apache2::Const'', ''My'', ''OK'', ''OK''] demo_symtab = (None, st') \<and>
     code st' 0 = Some (0, 3) \<and> (\<forall>p n. sub_of st' p n = Some 0 \<longleftrightarrow> n = ''OK'' \<and> (p = ''My'' \<or> p = ''Apache2::Const''))"
  by (auto simp: XS_modperl_const_compile_def const_classname_def modperl_const_compile_def const_family_def demo_tables_def demo_symtab_def new_constsub_def
      hv_fetch_lval_def newCONSTSUB_def code_inc_def set_gv_def sub_of_def Let_def)

end
