(* ===== verification/Config_Insert.thy ===== *)
theory Config_Insert
  imports Prelude
begin

unbundle bit_operations_syntax

text \<open>
  Configuration that Perl code adds at run time (\<open>modperl_config_insert\<close> and its callers in \<^verbatim>\<open>src/src/modules/perl/modperl_config.c\<close> and the headers under
  \<^verbatim>\<open>src/xs/Apache2/\<close>), and the access control that rests on it (\<^verbatim>\<open>src/xs/Apache2/Access/Apache2__Access.h\<close>). httpd builds a tree of the lines and walks it;
  both are parameters.
\<close>

section \<open>The lines\<close>

text \<open>The elements of an array: one that was never stored is a null pointer. A scalar that cannot be changed makes \<open>SvPV_force\<close> raise an exception.\<close>

datatype element = Hole | ReadOnly | Text string

datatype perl_arg = ArrayRef "element list" | NoArrayRef

record svav_param_t =
  av :: "element list"
  ix :: nat

text \<open>\<open>apr_cpystrn\<close> copies to the first null byte, and leaves room for one.\<close>

definition apr_cpystrn :: "string \<Rightarrow> nat \<Rightarrow> string" where
  "apr_cpystrn s n = take (n - 1) (takeWhile (\<lambda>c. c \<noteq> CHR 0x00) s)"

definition svav_getstr :: "nat \<Rightarrow> svav_param_t \<Rightarrow> string option res \<times> svav_param_t" where
  "svav_getstr bufsiz p =
     (if length (av p) \<le> ix p then (Inr None, p)
      else ((case av p ! ix p of
          Hole \<Rightarrow> Inl NullDeref
        | ReadOnly \<Rightarrow> Inl (Croak ''Modification of a read-only value attempted'')
        | Text s \<Rightarrow> Inr (Some (apr_cpystrn s bufsiz))), p\<lparr>ix := Suc (ix p)\<rparr>))"

text \<open>What a reader gets that calls it until the end: each line, or the exception in its place.\<close>

function read_lines :: "nat \<Rightarrow> svav_param_t \<Rightarrow> string res list" where
  "read_lines bufsiz p = (case svav_getstr bufsiz p of
       (Inr None, _) \<Rightarrow> []
     | (Inr (Some l), p') \<Rightarrow> Inr l # read_lines bufsiz p'
     | (Inl e, p') \<Rightarrow> Inl e # read_lines bufsiz p')"
  by auto
termination
  by (relation "measure (\<lambda>(n, p). length (av p) - ix p)") (auto simp: svav_getstr_def split: if_splits)

declare read_lines.simps [simp del]

section \<open>Inserting configuration\<close>

text \<open>
  \<open>'c\<close> is a vector of configurations for a directory, \<open>'t\<close> a tree of directives. Building reads the lines and stops at an exception; walking changes a vector in place, also
  when it ends with a message.
\<close>

record cmd_parms =
  server :: nat
  override :: "32 word"
  path :: "string option"
  pool :: nat
  override_opts :: "32 word"
  temp_pool :: nat

record ('t, 'c) httpd =
  ap_build_config :: "cmd_parms \<Rightarrow> string res list \<Rightarrow> (string + 't) res"
  ap_walk_config :: "'t \<Rightarrow> cmd_parms \<Rightarrow> 'c \<Rightarrow> string option \<times> 'c"
  ap_create_per_dir_config :: 'c
  ap_merge_per_dir_configs :: "'c \<Rightarrow> 'c \<Rightarrow> 'c"
  OPT_UNSET :: "32 word"
  OPT_ALL :: "32 word"
  OPT_SYM_OWNER :: "32 word"
  OPT_MULTI :: "32 word"
  cfg_bufsize :: nat

text \<open>The pools that exist, with their parents.\<close>

record pool_state =
  pools :: "nat \<Rightarrow> nat option"
  pool_brk :: nat

definition apr_pool_create :: "nat \<Rightarrow> pool_state \<Rightarrow> nat \<times> pool_state" where
  "apr_pool_create parent st = (pool_brk st, st\<lparr>pools := (pools st)(pool_brk st \<mapsto> parent), pool_brk := Suc (pool_brk st)\<rparr>)"

definition apr_pool_destroy :: "nat \<Rightarrow> pool_state \<Rightarrow> pool_state" where
  "apr_pool_destroy p st = st\<lparr>pools := (pools st)(p := None)\<rparr>"

definition MP_HTTPD_OVERRIDE_OPTS_UNSET :: "32 word" where "MP_HTTPD_OVERRIDE_OPTS_UNSET = -1"

text \<open>The options of httpd 2.4.\<close>

definition MP_HTTPD_OVERRIDE_OPTS_DEFAULT :: "('t, 'c) httpd \<Rightarrow> 32 word" where
  "MP_HTTPD_OVERRIDE_OPTS_DEFAULT H = OPT_UNSET H OR OPT_ALL H OR OPT_SYM_OWNER H OR OPT_MULTI H"

text \<open>The message, the vector and the pools afterwards; a Perl exception leaves the function as it is.\<close>

definition modperl_config_insert ::
    "('t, 'c) httpd \<Rightarrow> nat \<Rightarrow> nat \<Rightarrow> nat option \<Rightarrow> 32 word \<Rightarrow> string option \<Rightarrow> 32 word \<Rightarrow> 'c \<Rightarrow> perl_arg \<Rightarrow> pool_state \<Rightarrow>
     string option res \<times> 'c \<times> pool_state" where
  "modperl_config_insert H s p ptmp ovr pth override_options conf lines st =
     (let (tp, st1) = (case ptmp of Some t \<Rightarrow> (t, st) | None \<Rightarrow> apr_pool_create p st);
          parms = \<lparr>server = s, override = ovr, path = pth, pool = p,
             override_opts = (if override_options = MP_HTTPD_OVERRIDE_OPTS_UNSET then MP_HTTPD_OVERRIDE_OPTS_DEFAULT H else override_options),
             temp_pool = tp\<rparr>
      in case lines of
           NoArrayRef \<Rightarrow> (Inr (Some ''not an array reference''), conf, st1)
         | ArrayRef els \<Rightarrow> (case ap_build_config H parms (read_lines (cfg_bufsize H) \<lparr>av = els, ix = 0\<rparr>) of
             Inl e \<Rightarrow> (Inl e, conf, st1)
           | Inr built \<Rightarrow>
               (let (errmsg, conf1) = (case built of Inl m \<Rightarrow> (Some m, conf) | Inr conftree \<Rightarrow> ap_walk_config H conftree parms conf);
                    st2 = (if ptmp \<noteq> Some tp then apr_pool_destroy tp st1 else st1)
                in (Inr errmsg, conf1, st2))))"

definition modperl_config_insert_parms ::
    "('t, 'c) httpd \<Rightarrow> cmd_parms \<Rightarrow> 'c \<Rightarrow> perl_arg \<Rightarrow> pool_state \<Rightarrow> string option res \<times> 'c \<times> pool_state" where
  "modperl_config_insert_parms H parms ctxt lines st =
     modperl_config_insert H (server parms) (pool parms) (Some (temp_pool parms)) (override parms) (path parms) (override_opts parms) ctxt lines st"

definition OR_LIMIT :: "32 word" where "OR_LIMIT = 1"
definition OR_AUTHCFG :: "32 word" where "OR_AUTHCFG = 8"
definition OR_ALL :: "32 word" where "OR_ALL = 31"
definition RSRC_CONF :: "32 word" where "RSRC_CONF = 128"

definition modperl_config_insert_server ::
    "('t, 'c) httpd \<Rightarrow> nat \<Rightarrow> nat \<Rightarrow> 'c \<Rightarrow> perl_arg \<Rightarrow> pool_state \<Rightarrow> string option res \<times> 'c \<times> pool_state" where
  "modperl_config_insert_server H s pconf lookup_defaults lines st =
     modperl_config_insert H s pconf None ((RSRC_CONF OR OR_ALL) AND NOT (OR_AUTHCFG OR OR_LIMIT)) None MP_HTTPD_OVERRIDE_OPTS_UNSET
       lookup_defaults lines st"

text \<open>A request has its server, its pool and its configuration, the type and the name of its authentication among it.\<close>

record 'c request_rec =
  r_server :: nat
  r_pool :: nat
  per_dir_config :: 'c
  allowed_methods :: "string list"
  method_number :: nat

definition modperl_config_insert_request ::
    "('t, 'c) httpd \<Rightarrow> 'c request_rec \<Rightarrow> perl_arg \<Rightarrow> 32 word \<Rightarrow> string option \<Rightarrow> 32 word \<Rightarrow> pool_state \<Rightarrow>
     string option res \<times> 'c request_rec \<times> pool_state" where
  "modperl_config_insert_request H r lines ovr pth override_options st =
     (let dconf = ap_create_per_dir_config H;
          pth1 = (case pth of None \<Rightarrow> ''/'' | Some x \<Rightarrow> x);
          (errmsg, dconf1, st1) = modperl_config_insert H (r_server r) (r_pool r) (Some (r_pool r)) ovr (Some pth1) override_options dconf lines st
      in case errmsg of
           Inl e \<Rightarrow> (Inl e, r, st1)
         | Inr (Some m) \<Rightarrow> (Inr (Some m), r, st1)
         | Inr None \<Rightarrow> (Inr None, r\<lparr>per_dir_config := ap_merge_per_dir_configs H (per_dir_config r) dconf1\<rparr>, st1))"

text \<open>The Perl methods turn a message into an exception.\<close>

definition croak_message :: "string \<Rightarrow> string option res \<Rightarrow> unit res" where
  "croak_message what errmsg = and_then errmsg (\<lambda>m. case m of None \<Rightarrow> Inr () | Some t \<Rightarrow> Inl (Croak (what @ '' has failed: '' @ t)))"

definition mpxs_Apache2__RequestRec_add_config ::
    "('t, 'c) httpd \<Rightarrow> 'c request_rec \<Rightarrow> perl_arg \<Rightarrow> 32 word \<Rightarrow> string option \<Rightarrow> 32 word \<Rightarrow> pool_state \<Rightarrow> unit res \<times> 'c request_rec \<times> pool_state" where
  "mpxs_Apache2__RequestRec_add_config H r lines ovr pth override_options st =
     (let (errmsg, r1, st1) = modperl_config_insert_request H r lines ovr pth override_options st
      in (croak_message ''$r->add_config()'' errmsg, r1, st1))"

definition mpxs_Apache2__CmdParms_add_config ::
    "('t, 'c) httpd \<Rightarrow> cmd_parms \<Rightarrow> 'c \<Rightarrow> perl_arg \<Rightarrow> pool_state \<Rightarrow> unit res \<times> 'c \<times> pool_state" where
  "mpxs_Apache2__CmdParms_add_config H parms ctxt lines st =
     (let (errmsg, c1, st1) = modperl_config_insert_parms H parms ctxt lines st in (croak_message ''$parms->add_config()'' errmsg, c1, st1))"

text \<open>\<open>late\<close> tells that the server has started.\<close>

definition mpxs_Apache2__ServerRec_add_config ::
    "('t, 'c) httpd \<Rightarrow> bool \<Rightarrow> nat \<Rightarrow> nat \<Rightarrow> 'c \<Rightarrow> perl_arg \<Rightarrow> pool_state \<Rightarrow> unit res \<times> 'c \<times> pool_state" where
  "mpxs_Apache2__ServerRec_add_config H late s pconf lookup_defaults lines st =
     (if late then (Inl (Croak ''Can't run '$s->add_config' after server startup''), lookup_defaults, st)
      else (let (errmsg, c1, st1) = modperl_config_insert_server H s pconf lookup_defaults lines st
            in (croak_message ''$s->add_config()'' errmsg, c1, st1)))"

section \<open>Access control\<close>

text \<open>
  \<open>AuthType\<close> and \<open>AuthName\<close> for the request. A message becomes a warning; \<open>warned\<close> tells whether there was one. \<open>get\<close> is \<open>ap_auth_type\<close> or \<open>ap_auth_name\<close> for
  the configuration of the request.
\<close>

definition mpxs_insert_auth_cfg ::
    "('t, 'c) httpd \<Rightarrow> 'c request_rec \<Rightarrow> string \<Rightarrow> string \<Rightarrow> pool_state \<Rightarrow> bool res \<times> 'c request_rec \<times> pool_state" where
  "mpxs_insert_auth_cfg H r directive val st =
     (let (errmsg, r1, st1) = modperl_config_insert_request H r (ArrayRef [Text (directive @ '' '' @ val)]) OR_AUTHCFG None MP_HTTPD_OVERRIDE_OPTS_UNSET st
      in (and_then errmsg (\<lambda>m. Inr (m \<noteq> None)), r1, st1))"

definition mpxs_Apache2__RequestRec_auth_type ::
    "('t, 'c) httpd \<Rightarrow> ('c \<Rightarrow> string option) \<Rightarrow> 'c request_rec \<Rightarrow> string option \<Rightarrow> pool_state \<Rightarrow> string option res \<times> 'c request_rec \<times> pool_state" where
  "mpxs_Apache2__RequestRec_auth_type H get r type st = (case type of
       None \<Rightarrow> (Inr (get (per_dir_config r)), r, st)
     | Some t \<Rightarrow> (case mpxs_insert_auth_cfg H r ''AuthType'' t st of
         (Inl e, r1, st1) \<Rightarrow> (Inl e, r1, st1) | (Inr _, r1, st1) \<Rightarrow> (Inr (get (per_dir_config r1)), r1, st1)))"

definition mpxs_Apache2__RequestRec_auth_name ::
    "('t, 'c) httpd \<Rightarrow> ('c \<Rightarrow> string option) \<Rightarrow> 'c request_rec \<Rightarrow> string option \<Rightarrow> pool_state \<Rightarrow> string option res \<times> 'c request_rec \<times> pool_state" where
  "mpxs_Apache2__RequestRec_auth_name H get r name st = (case name of
       None \<Rightarrow> (Inr (get (per_dir_config r)), r, st)
     | Some t \<Rightarrow> (case mpxs_insert_auth_cfg H r ''AuthName'' t st of
         (Inl e, r1, st1) \<Rightarrow> (Inl e, r1, st1) | (Inr _, r1, st1) \<Rightarrow> (Inr (get (per_dir_config r1)), r1, st1)))"

text \<open>The password that was sent; \<open>get_pw\<close> is \<open>ap_get_basic_auth_pw\<close>, which needs the type \<open>Basic\<close>.\<close>

definition MPXS_ap_get_basic_auth_pw ::
    "('t, 'c) httpd \<Rightarrow> ('c \<Rightarrow> string option) \<Rightarrow> ('c request_rec \<Rightarrow> int \<times> string) \<Rightarrow> 'c request_rec \<Rightarrow> pool_state \<Rightarrow>
     (int \<times> string option) res \<times> 'c request_rec \<times> pool_state" where
  "MPXS_ap_get_basic_auth_pw H get get_pw r st =
     (let (e, r1, st1) = (if get (per_dir_config r) = None then mpxs_Apache2__RequestRec_auth_type H get r (Some ''Basic'') st
                          else (Inr None, r, st))
      in case e of Inl x \<Rightarrow> (Inl x, r1, st1)
         | Inr _ \<Rightarrow> (let (rc, sent_pw) = get_pw r1 in (Inr (rc, if rc = OK then Some sent_pw else None), r1, st1)))"

text \<open>
  The requirements that hold for the method of a request. The masks have 64 bits, but \<open>1 << r->method_number\<close> is a shift of an \<open>int\<close>: for 32 and more it has no meaning in C, and
  \<open>shift\<close> is what the compiler makes of it.
\<close>

record require_line =
  method_mask :: "64 word"
  requirement :: string

definition method_bit :: "(nat \<Rightarrow> 32 word) \<Rightarrow> nat \<Rightarrow> 64 word" where
  "method_bit shift n = scast (if n < 32 then push_bit n (1 :: 32 word) else shift n)"

fun requires_loop :: "64 word \<Rightarrow> require_line list \<Rightarrow> require_line list" where
  "requires_loop b [] = []"
| "requires_loop b (x # xs) = (if method_mask x AND b = 0 then requires_loop b xs else x # requires_loop b xs)"

definition mpxs_ap_requires :: "(nat \<Rightarrow> 32 word) \<Rightarrow> require_line list option \<Rightarrow> 'c request_rec \<Rightarrow> require_line list option" where
  "mpxs_ap_requires shift reqs_arr r = map_option (requires_loop (method_bit shift (method_number r))) reqs_arr"

text \<open>\<open>add\<close> is \<open>ap_method_list_add\<close>.\<close>

definition mpxs_ap_allow_methods :: "(string \<Rightarrow> string list \<Rightarrow> string list) \<Rightarrow> 'c request_rec \<Rightarrow> int \<Rightarrow> string list \<Rightarrow> 'c request_rec" where
  "mpxs_ap_allow_methods add r reset methods =
     r\<lparr>allowed_methods := fold add methods (if reset \<noteq> 0 then [] else allowed_methods r)\<rparr>"

section \<open>What is inserted\<close>

definition line_of :: "nat \<Rightarrow> element \<Rightarrow> string res" where
  "line_of bufsiz e = (case e of Hole \<Rightarrow> Inl NullDeref | ReadOnly \<Rightarrow> Inl (Croak ''Modification of a read-only value attempted'')
     | Text s \<Rightarrow> Inr (apr_cpystrn s bufsiz))"

lemma read_lines_from: "read_lines bufsiz p = map (line_of bufsiz) (drop (ix p) (av p))"
proof (induction bufsiz p rule: read_lines.induct)
  case (1 bufsiz p)
  show ?case
  proof (cases "ix p < length (av p)")
    case True
    then have "drop (ix p) (av p) = av p ! ix p # drop (Suc (ix p)) (av p)" by (simp add: Cons_nth_drop_Suc)
    with True 1 show ?thesis
      by (subst read_lines.simps) (auto simp: svav_getstr_def line_of_def split: element.splits)
  qed (subst read_lines.simps, simp add: svav_getstr_def)
qed

text \<open>
  One call of \<open>add_config\<close>: its lines, override, path and options. \<open>inserted\<close> is the vector it makes on its own, when it makes one.
\<close>

type_synonym insert_call = "perl_arg \<times> 32 word \<times> string option \<times> 32 word"

definition call_parms :: "('t, 'c) httpd \<Rightarrow> nat \<Rightarrow> nat \<Rightarrow> insert_call \<Rightarrow> cmd_parms" where
  "call_parms H s p x = (case x of (lines, ovr, pth, opts) \<Rightarrow> \<lparr>server = s, override = ovr, path = Some (case pth of None \<Rightarrow> ''/'' | Some d \<Rightarrow> d), pool = p,
     override_opts = (if opts = MP_HTTPD_OVERRIDE_OPTS_UNSET then MP_HTTPD_OVERRIDE_OPTS_DEFAULT H else opts), temp_pool = p\<rparr>)"

definition inserted :: "('t, 'c) httpd \<Rightarrow> nat \<Rightarrow> nat \<Rightarrow> insert_call \<Rightarrow> 'c option" where
  "inserted H s p x = (case fst x of
       NoArrayRef \<Rightarrow> None
     | ArrayRef els \<Rightarrow> (case ap_build_config H (call_parms H s p x) (map (line_of (cfg_bufsize H)) els) of
           Inr (Inr conftree) \<Rightarrow> (case ap_walk_config H conftree (call_parms H s p x) (ap_create_per_dir_config H) of
               (None, c) \<Rightarrow> Some c | _ \<Rightarrow> None)
         | _ \<Rightarrow> None))"

text \<open>The calls that Perl code makes, each under \<open>eval\<close>; the results tell which raised an exception.\<close>

fun add_all :: "('t, 'c) httpd \<Rightarrow> insert_call list \<Rightarrow> 'c request_rec \<Rightarrow> pool_state \<Rightarrow> unit res list \<times> 'c request_rec \<times> pool_state" where
  "add_all H [] r st = ([], r, st)"
| "add_all H (x # xs) r st =
     (let (e, r1, st1) = mpxs_Apache2__RequestRec_add_config H r (fst x) (fst (snd x)) (fst (snd (snd x))) (snd (snd (snd x))) st;
          (es, r2, st2) = add_all H xs r1 st1
      in (e # es, r2, st2))"

lemma insert_request_inserted:
  "\<exists>e. mpxs_Apache2__RequestRec_add_config H r (fst x) (fst (snd x)) (fst (snd (snd x))) (snd (snd (snd x))) st =
     (e, (case inserted H (r_server r) (r_pool r) x of None \<Rightarrow> r
          | Some c \<Rightarrow> r\<lparr>per_dir_config := ap_merge_per_dir_configs H (per_dir_config r) c\<rparr>), st) \<and>
     (e = Inr () \<longleftrightarrow> inserted H (r_server r) (r_pool r) x \<noteq> None)"
proof -
  obtain lines ovr pth opts where x: "x = (lines, ovr, pth, opts)" by (cases x)
  let ?p = "call_parms H (r_server r) (r_pool r) x"
  show ?thesis
  proof (cases lines)
    case NoArrayRef
    then show ?thesis
      by (simp add: x mpxs_Apache2__RequestRec_add_config_def modperl_config_insert_request_def modperl_config_insert_def inserted_def croak_message_def)
  next
    case (ArrayRef els)
    let ?b = "ap_build_config H ?p (map (line_of (cfg_bufsize H)) els)"
    note defs = x ArrayRef mpxs_Apache2__RequestRec_add_config_def modperl_config_insert_request_def modperl_config_insert_def inserted_def
      call_parms_def croak_message_def read_lines_from
    show ?thesis
    proof (cases ?b)
      case (Inl e)
      then show ?thesis by (simp add: defs)
    next
      case (Inr built)
      then show ?thesis
        by (cases built) (auto simp: defs split: prod.splits option.splits)
    qed
  qed
qed

section \<open>Properties\<close>

text \<open>
  C31. Whatever configuration Perl code adds to a request, its configuration in the end is the one it had, merged in order with the vectors of the calls that raised no exception: a call whose
  lines cannot be built, or whose directives end with a message half way, leaves no trace. A call raises an exception if and only if it makes no vector, and no pool is made or lost.
\<close>

theorem request_add_config_run:
  "\<exists>es. add_all H xs r st =
     (es, r\<lparr>per_dir_config := fold (\<lambda>x c. case inserted H (r_server r) (r_pool r) x of None \<Rightarrow> c | Some d \<Rightarrow> ap_merge_per_dir_configs H c d) xs (per_dir_config r)\<rparr>, st) \<and>
     map (\<lambda>e. e = Inr ()) es = map (\<lambda>x. inserted H (r_server r) (r_pool r) x \<noteq> None) xs"
proof (induction xs arbitrary: r)
  case (Cons x xs)
  let ?r = "case inserted H (r_server r) (r_pool r) x of None \<Rightarrow> r
    | Some c \<Rightarrow> r\<lparr>per_dir_config := ap_merge_per_dir_configs H (per_dir_config r) c\<rparr>"
  from insert_request_inserted [of H r x st] obtain e where
    1: "mpxs_Apache2__RequestRec_add_config H r (fst x) (fst (snd x)) (fst (snd (snd x))) (snd (snd (snd x))) st = (e, ?r, st)"
      "e = Inr () \<longleftrightarrow> inserted H (r_server r) (r_pool r) x \<noteq> None" by blast
  from Cons.IH [of ?r] 1 show ?case by (auto split: option.splits)
qed simp

text \<open>
  Configuration for a server goes to the defaults of the server in place, so directives before one that fails stay. Its temporary pool is destroyed, except when the lines are not an array or
  reading them raises an exception: then it stays until the server stops.
\<close>

lemma server_insert_pools:
  assumes "modperl_config_insert_server H s pconf conf lines st = (e, conf1, st1)" and "pools st (pool_brk st) = None"
  shows "pools st1 = (case lines of ArrayRef els \<Rightarrow> (if \<exists>x. e = Inl x then (pools st)(pool_brk st \<mapsto> pconf) else pools st)
    | NoArrayRef \<Rightarrow> (pools st)(pool_brk st \<mapsto> pconf))"
  using assms
  by (auto simp: modperl_config_insert_server_def modperl_config_insert_def apr_pool_create_def apr_pool_destroy_def Let_def fun_upd_idem
      split: perl_arg.splits sum.splits prod.splits)

text \<open>
  \<open>requires\<close> gives, in order, exactly the requirements whose mask has the bit of the method of the request, for the methods of httpd itself and every registered one up to 30.
\<close>

theorem requires_by_method:
  assumes "method_number r < 31"
  shows "mpxs_ap_requires shift (Some reqs) r = Some (filter (\<lambda>x. bit (method_mask x) (method_number r)) reqs)"
proof -
  let ?n = "method_number r"
  have b: "method_bit shift ?n = push_bit ?n 1"
    unfolding method_bit_def using assms by (auto intro!: bit_word_eqI simp: bit_simps)
  have "m AND push_bit ?n 1 = 0 \<longleftrightarrow> \<not> bit m ?n" for m :: "64 word"
  proof -
    have "m AND push_bit ?n 1 = (if bit m ?n then push_bit ?n 1 else 0)"
      by (auto intro!: bit_word_eqI simp: bit_simps)
    moreover have "push_bit ?n 1 \<noteq> (0 :: 64 word)" using assms by (simp add: push_bit_eq_0_iff)
    ultimately show ?thesis by simp
  qed
  with b have "requires_loop (method_bit shift ?n) reqs = filter (\<lambda>x. bit (method_mask x) ?n) reqs" by (induction reqs) auto
  then show ?thesis by (simp add: mpxs_ap_requires_def)
qed

definition demo_request :: "nat \<Rightarrow> unit request_rec" where
  "demo_request n = \<lparr>r_server = 0, r_pool = 1, per_dir_config = (), allowed_methods = [], method_number = n\<rparr>"

lemma requires_by_method_witness:
  "mpxs_ap_requires (\<lambda>_. 0) (Some [\<lparr>method_mask = 5, requirement = ''user a''\<rparr>, \<lparr>method_mask = 2, requirement = ''valid-user''\<rparr>]) (demo_request 2)
     = Some [\<lparr>method_mask = 5, requirement = ''user a''\<rparr>]"
  using requires_by_method [of "demo_request 2" "\<lambda>_. 0"] by (simp add: demo_request_def bit_numeral_rec)

text \<open>Method 31: the bit is the sign of the \<open>int\<close>, so the requirements of all later methods are given, too.\<close>

lemma requires_sign_extended:
  "mpxs_ap_requires shift (Some [\<lparr>method_mask = 2 ^ 40, requirement = ''user a''\<rparr>]) (demo_request 31) = Some [\<lparr>method_mask = 2 ^ 40, requirement = ''user a''\<rparr>]"
proof -
  have "method_bit shift 31 = 0xFFFFFFFF80000000" by (simp add: method_bit_def push_bit_eq_mult)
  then show ?thesis by (simp add: mpxs_ap_requires_def demo_request_def)
qed

end
