(* ===== verification/Log_Messages.thy ===== *)
theory Log_Messages
  imports Prelude
begin

unbundle bit_operations_syntax

text \<open>
  Logging from Perl (\<^verbatim>\<open>src/xs/Apache2/Log/Apache2__Log.h\<close>), the levels of tracing (\<^verbatim>\<open>src/src/modules/perl/modperl_common_log.c\<close>) and error objects
  (\<^verbatim>\<open>modperl_error.c\<close>). httpd writes the log and drops what is above its level; what counts here is what is handed to it.
\<close>

section \<open>Messages for the log\<close>

text \<open>An argument is a string, a reference to a subroutine, or an object for logging: of a request or of a server. \<open>text_of\<close> is what Perl makes of it as a string.\<close>

datatype sv = Str string | CodeRef nat | LogRequest nat | LogServer nat

datatype target = ToRequest nat | ToServer nat

record entry =
  e_file :: "string option"
  e_line :: int
  e_level :: int
  e_status :: int
  e_to :: target
  e_msg :: string

text \<open>
  The log, the subroutines that were called for messages and the references to messages that are taken at the moment. The environment has the place in the Perl code
  (\<open>PL_curcop\<close>), the log level of each server, the server of each request, the server that is used when no other is known, what the subroutines return,
  and the place in the C code (\<open>APLOG_MARK\<close>).
\<close>

record log_state =
  entries :: "entry list"
  called :: "nat list"
  held :: nat

record log_env =
  cop_file :: string
  cop_line :: int
  mp_loglevel :: "nat \<Rightarrow> int"
  r_server :: "nat \<Rightarrow> nat"
  global_server :: nat
  call_sv :: "nat \<Rightarrow> string res"
  text_of :: "sv \<Rightarrow> string"
  mark_file :: string
  mark_line :: int

definition APLOG_EMERG :: int where "APLOG_EMERG = 0"
definition APLOG_ALERT :: int where "APLOG_ALERT = 1"
definition APLOG_CRIT :: int where "APLOG_CRIT = 2"
definition APLOG_ERR :: int where "APLOG_ERR = 3"
definition APLOG_WARNING :: int where "APLOG_WARNING = 4"
definition APLOG_NOTICE :: int where "APLOG_NOTICE = 5"
definition APLOG_INFO :: int where "APLOG_INFO = 6"
definition APLOG_DEBUG :: int where "APLOG_DEBUG = 7"
definition APLOG_LEVELMASK :: int where "APLOG_LEVELMASK = 15"

definition log_push :: "entry \<Rightarrow> log_state \<Rightarrow> log_state" where
  "log_push e st = st\<lparr>entries := entries st @ [e]\<rparr>"

definition mpxs_ap_log_error :: "log_env \<Rightarrow> int \<Rightarrow> sv \<Rightarrow> sv \<Rightarrow> log_state \<Rightarrow> unit res \<times> log_state" where
  "mpxs_ap_log_error E level obj msg st =
     (let lmask = level AND APLOG_LEVELMASK;
          r = (case obj of LogRequest r \<Rightarrow> Some r | _ \<Rightarrow> None);
          s = (case obj of LogRequest r \<Rightarrow> r_server E r | LogServer s \<Rightarrow> s | _ \<Rightarrow> global_server E);
          place = (if lmask \<ge> APLOG_DEBUG \<and> mp_loglevel E s \<ge> APLOG_DEBUG then (Some (cop_file E), cop_line E) else (None, 0));
          (str, st1) = (case msg of
              CodeRef c \<Rightarrow> if mp_loglevel E s \<ge> lmask then (call_sv E c, st\<lparr>called := called st @ [c]\<rparr>) else (Inr (text_of E msg), st)
            | _ \<Rightarrow> (Inr (text_of E msg), st))
      in case str of
           Inl e \<Rightarrow> (Inl e, st1)
         | Inr t \<Rightarrow> (Inr (), log_push \<lparr>e_file = fst place, e_line = snd place, e_level = level, e_status = 0,
             e_to = (case r of Some r \<Rightarrow> ToRequest r | None \<Rightarrow> ToServer s), e_msg = t\<rparr> st1))"

text \<open>The object that \<open>$r->log\<close> and \<open>$s->log\<close> give; \<open>sv2r\<close> and \<open>sv2s\<close> are \<open>modperl_sv2request_rec\<close> and \<open>modperl_sv2server_rec\<close>.\<close>

definition mpxs_Apache2__Log_log :: "('a \<Rightarrow> nat res) \<Rightarrow> ('a \<Rightarrow> nat res) \<Rightarrow> 'a \<Rightarrow> nat \<Rightarrow> sv res" where
  "mpxs_Apache2__Log_log sv2r sv2s x logtype =
     (if logtype = 1 then and_then (sv2r x) (\<lambda>r. Inr (LogRequest r))
      else if logtype = 2 then and_then (sv2s x) (\<lambda>s. Inr (LogServer s))
      else Inl (Croak ''Argument is not an Apache2::RequestRec or Apache2::ServerRec object''))"

definition modperl_perl_do_join :: "log_env \<Rightarrow> sv list \<Rightarrow> sv" where
  "modperl_perl_do_join E xs = Str (concat (map (text_of E) xs))"

definition log_level :: "string \<Rightarrow> int" where
  "log_level name = (case name of
       (c # cs) \<Rightarrow>
         if c = CHR ''e'' then (if take 1 cs = ''r'' then APLOG_ERR else APLOG_EMERG)
         else if c = CHR ''w'' then APLOG_WARNING
         else if c = CHR ''n'' then APLOG_NOTICE
         else if c = CHR ''i'' then APLOG_INFO
         else if c = CHR ''d'' then APLOG_DEBUG
         else if c = CHR ''a'' then APLOG_ALERT
         else if c = CHR ''c'' then APLOG_CRIT
         else APLOG_ERR
     | [] \<Rightarrow> APLOG_ERR)"

text \<open>The reference to the message is given back unless the subroutine raises an exception.\<close>

definition MPXS_Apache2__Log_dispatch :: "log_env \<Rightarrow> string \<Rightarrow> sv list \<Rightarrow> log_state \<Rightarrow> unit res \<times> log_state" where
  "MPXS_Apache2__Log_dispatch E name args st =
     (if length args < 2 then (Inl (Croak ''usage''), st)
      else (let msgsv = (if length args > 2 then modperl_perl_do_join E (drop 1 args) else args ! 1)
            in case mpxs_ap_log_error E (log_level name) (hd args) msgsv (st\<lparr>held := Suc (held st)\<rparr>) of
                 (Inl e, st1) \<Rightarrow> (Inl e, st1)
               | (Inr _, st1) \<Rightarrow> (Inr (), st1\<lparr>held := held st1 - 1\<rparr>)))"

definition MPXS_Apache2__Log_LOG_MARK :: "log_env \<Rightarrow> sv list \<Rightarrow> (string \<times> int) res" where
  "MPXS_Apache2__Log_LOG_MARK E args = (if args \<noteq> [] then Inl (Croak ''usage'') else Inr (cop_file E, cop_line E))"

text \<open>\<open>log_rerror\<close> and \<open>log_serror\<close>; \<open>iv\<close> is the value of an argument as a number. The lines, levels and status values are \<open>int\<close>.\<close>

definition MPXS_Apache2__Log_log_xerror ::
    "log_env \<Rightarrow> (sv \<Rightarrow> nat res) \<Rightarrow> (sv \<Rightarrow> nat res) \<Rightarrow> (sv \<Rightarrow> 64 word) \<Rightarrow> string \<Rightarrow> sv list \<Rightarrow> log_state \<Rightarrow> unit res \<times> log_state" where
  "MPXS_Apache2__Log_log_xerror E sv2r sv2s iv name args st =
     (if length args < 6 then (Inl (Croak ''usage''), st)
      else (let to = (if take 1 (drop 4 name) = ''r'' then and_then (sv2r (hd args)) (\<lambda>r. Inr (ToRequest r))
                      else if take 1 (drop 4 name) = ''s'' then and_then (sv2s (hd args)) (\<lambda>s. Inr (ToServer s))
                      else Inl (Croak ''Argument is not an Apache2::RequestRec or Apache2::ServerRec object''));
                int_of = (\<lambda>x. sint (ucast (iv x) :: 32 word));
                msgsv = (if length args > 6 then modperl_perl_do_join E (drop 5 args) else args ! 5)
            in case to of
                 Inl e \<Rightarrow> (Inl e, st)
               | Inr t \<Rightarrow> (Inr (), log_push \<lparr>e_file = Some (text_of E (args ! 1)), e_line = int_of (args ! 2), e_level = int_of (args ! 3),
                   e_status = int_of (args ! 4), e_to = t, e_msg = text_of E msgsv\<rparr> st)))"

text \<open>
  \<open>log_error\<close> and \<open>warn\<close> of requests and servers, also called without an object. \<open>isa_s\<close> is the server of an object of the class of servers; \<open>sv2r\<close> is
  \<open>modperl_xs_sv2request_rec\<close> for the class of requests, with no request for other things, and \<open>tls_r\<close> the global request. Without any argument \<open>ST(0)\<close> is not on the stack.
\<close>

definition MPXS_Apache2__Log_log_error ::
    "log_env \<Rightarrow> (sv \<Rightarrow> nat option) \<Rightarrow> (sv \<Rightarrow> nat option res) \<Rightarrow> nat option \<Rightarrow> string \<Rightarrow> sv list \<Rightarrow> log_state \<Rightarrow> unit res \<times> log_state" where
  "MPXS_Apache2__Log_log_error E isa_s sv2r tls_r name args st =
     (let given = (if length args > 1 then
            (case isa_s (hd args) of Some s \<Rightarrow> Inr (Some s)
             | None \<Rightarrow> and_then (sv2r (hd args)) (\<lambda>r. Inr (map_option (r_server E) r)))
          else Inr None)
      in case given of
           Inl e \<Rightarrow> (Inl e, st)
         | Inr so \<Rightarrow>
             (let i = (if so = None then 0 else 1);
                  s = (case so of Some s \<Rightarrow> s | None \<Rightarrow> (case tls_r of Some r \<Rightarrow> r_server E r | None \<Rightarrow> global_server E))
              in if i < length args then
                   (Inr (), log_push \<lparr>e_file = Some (mark_file E), e_line = mark_line E,
                      e_level = (if take 1 name = ''w'' then APLOG_WARNING else APLOG_ERR), e_status = 0, e_to = ToServer s,
                      e_msg = (if length args > 1 + i then text_of E (modperl_perl_do_join E (drop i args)) else text_of E (args ! i))\<rparr> st)
                 else (Inl OutOfBounds, st)))"

section \<open>Tracing\<close>

text \<open>The letters of the trace options are generated; there are fewer than 31.\<close>

record trace_state =
  debug_level :: "64 word"
  logfile :: nat

definition isalpha :: "char \<Rightarrow> bool" where
  "isalpha c \<longleftrightarrow> c \<in> set ''abcdefghijklmnopqrstuvwxyzABCDEFGHIJKLMNOPQRSTUVWXYZ''"

fun digits :: "nat \<Rightarrow> string \<Rightarrow> nat" where
  "digits n [] = n"
| "digits n (c # cs) = (if c \<in> set ''0123456789'' then digits (10 * n + (of_char c - 48)) cs else n)"

definition atoi :: "string \<Rightarrow> 32 word" where
  "atoi s = (case dropWhile (\<lambda>c. c = CHR '' '') s of
       (c # cs) \<Rightarrow> if c = CHR ''-'' then - of_nat (digits 0 cs) else if c = CHR ''+'' then of_nat (digits 0 cs) else of_nat (digits 0 (c # cs))
     | [] \<Rightarrow> 0)"

fun strchr :: "string \<Rightarrow> char \<Rightarrow> nat option" where
  "strchr [] c = None"
| "strchr (d # ds) c = (if d = c then Some 0 else map_option Suc (strchr ds c))"

fun trace_loop :: "string \<Rightarrow> string \<Rightarrow> 64 word \<Rightarrow> 64 word" where
  "trace_loop opts [] l = l"
| "trace_loop opts (c # cs) l = (case strchr opts c of None \<Rightarrow> l | Some d \<Rightarrow> trace_loop opts cs (l OR push_bit d 1))"

text \<open>\<open>lower\<close> is what \<open>strcasecmp\<close> does to letters, \<open>env\<close> the variable \<open>MOD_PERL_TRACE\<close>.\<close>

definition modperl_trace_level_set ::
    "(char \<Rightarrow> char) \<Rightarrow> string \<Rightarrow> string option \<Rightarrow> nat \<Rightarrow> string option \<Rightarrow> trace_state \<Rightarrow> trace_state" where
  "modperl_trace_level_set lower opts env log level st =
     (case (case level of None \<Rightarrow> env | Some l \<Rightarrow> Some l) of
        None \<Rightarrow> st
      | Some l \<Rightarrow>
          (let lev = (if map lower l = ''all'' then 0xffffffff
               else if l \<noteq> [] \<and> isalpha (hd l) then trace_loop opts l 0
               else scast (atoi l))
           in st\<lparr>debug_level := lev OR 0x80000000, logfile := log\<rparr>))"

section \<open>Errors\<close>

definition APR_OS_START_USERERR :: int where "APR_OS_START_USERERR = 120000"

definition MP_error_strings :: "string list" where
  "MP_error_strings = [''exit was called'', ''filter handler has failed'']"

text \<open>\<open>apr_strerror\<close> fills a buffer of 256 bytes and returns it, or null.\<close>

definition modperl_error_strerror :: "(int \<Rightarrow> string option) \<Rightarrow> int \<Rightarrow> string res" where
  "modperl_error_strerror apr_strerror rc =
     (let ptr = (if rc \<ge> APR_OS_START_USERERR \<and> rc < APR_OS_START_USERERR + int (length MP_error_strings)
          then (let k = nat (rc - APR_OS_START_USERERR) in if k < length MP_error_strings then Inr (Some (MP_error_strings ! k)) else Inl OutOfBounds)
          else Inr (apr_strerror rc))
      in and_then ptr (\<lambda>p. Inr (case p of Some t \<Rightarrow> t | None \<Rightarrow> ''unknown error'')))"

text \<open>
  The exception object in \<open>$@\<close>. \<open>load\<close> gives the message when \<open>APR/Error.pm\<close> cannot be loaded; it is loaded with tainting off, which is on again afterwards if it was.
\<close>

record apr_error =
  er_rc :: int
  er_file :: string
  er_line :: int
  er_func :: string

datatype errsv = ErrText string | ErrObject apr_error

record perl_state =
  PL_tainted :: bool
  ERRSV :: "errsv option"

definition modperl_croak :: "log_env \<Rightarrow> (bool \<Rightarrow> string option) \<Rightarrow> int \<Rightarrow> string \<Rightarrow> perl_state \<Rightarrow> perl_state" where
  "modperl_croak E load rc func st =
     (let is_tainted = PL_tainted st;
          st1 = (if is_tainted then st\<lparr>PL_tainted := False\<rparr> else st);
          st2 = (case load (PL_tainted st1) of Some m \<Rightarrow> st1\<lparr>ERRSV := Some (ErrText m)\<rparr> | None \<Rightarrow> st1\<lparr>ERRSV := None\<rparr>);
          st3 = (if is_tainted then st2\<lparr>PL_tainted := True\<rparr> else st2)
      in if ERRSV st3 \<noteq> None then st3
         else st3\<lparr>ERRSV := Some (ErrObject \<lparr>er_rc = rc, er_file = cop_file E, er_line = cop_line E, er_func = func\<rparr>)\<rparr>)"

section \<open>What is logged\<close>

definition log_levels :: "(string \<times> int) list" where
  "log_levels = [(''emerg'', 0), (''alert'', 1), (''crit'', 2), (''error'', 3), (''warn'', 4), (''notice'', 5), (''info'', 6), (''debug'', 7)]"

definition level_of :: "string \<Rightarrow> int" where
  "level_of name = (case map_of log_levels name of Some l \<Rightarrow> l | None \<Rightarrow> 3)"

definition log_server :: "log_env \<Rightarrow> sv \<Rightarrow> nat" where
  "log_server E obj = (case obj of LogRequest r \<Rightarrow> r_server E r | LogServer s \<Rightarrow> s | _ \<Rightarrow> global_server E)"

text \<open>A subroutine that is the only message is called for its text, if its level is logged.\<close>

definition deferred :: "log_env \<Rightarrow> string \<times> sv list \<Rightarrow> nat option" where
  "deferred E x = (case x of
       (name, [obj, CodeRef c]) \<Rightarrow> if level_of name \<le> mp_loglevel E (log_server E obj) then Some c else None
     | _ \<Rightarrow> None)"

definition log_entry :: "log_env \<Rightarrow> string \<times> sv list \<Rightarrow> entry" where
  "log_entry E x = (let obj = hd (snd x); debug = (level_of (fst x) = 7 \<and> mp_loglevel E (log_server E obj) \<ge> 7) in
     \<lparr>e_file = (if debug then Some (cop_file E) else None), e_line = (if debug then cop_line E else 0),
      e_level = level_of (fst x), e_status = 0,
      e_to = (case obj of LogRequest r \<Rightarrow> ToRequest r | _ \<Rightarrow> ToServer (log_server E obj)),
      e_msg = (case deferred E x of
          Some c \<Rightarrow> (case call_sv E c of Inr t \<Rightarrow> t | Inl _ \<Rightarrow> [])
        | None \<Rightarrow> concat (map (text_of E) (tl (snd x))))\<rparr>)"

fun log_run :: "log_env \<Rightarrow> (string \<times> sv list) list \<Rightarrow> log_state \<Rightarrow> unit res \<times> log_state" where
  "log_run E [] st = (Inr (), st)"
| "log_run E (x # xs) st = (case MPXS_Apache2__Log_dispatch E (fst x) (snd x) st of
       (Inr _, st1) \<Rightarrow> log_run E xs st1 | (Inl e, st1) \<Rightarrow> (Inl e, st1))"

definition log_ok :: "log_env \<Rightarrow> string \<times> sv list \<Rightarrow> bool" where
  "log_ok E x \<longleftrightarrow> fst x \<in> fst ` set log_levels \<and> 2 \<le> length (snd x) \<and> (case deferred E x of None \<Rightarrow> True | Some c \<Rightarrow> (\<exists>t. call_sv E c = Inr t))"

lemma log_level_of: "name \<in> fst ` set log_levels \<Longrightarrow> log_level name = level_of name \<and> level_of name AND 15 = level_of name"
  by (auto simp: log_levels_def log_level_def level_of_def APLOG_ERR_def APLOG_EMERG_def APLOG_WARNING_def APLOG_NOTICE_def APLOG_INFO_def
      APLOG_DEBUG_def APLOG_ALERT_def APLOG_CRIT_def)

lemma level_of_le: "level_of name \<le> 7"
  by (simp add: level_of_def log_levels_def)

lemma dispatch_entry:
  assumes ok: "log_ok E x" and str: "\<And>t. text_of E (Str t) = t"
  shows "MPXS_Apache2__Log_dispatch E (fst x) (snd x) st =
    (Inr (), st\<lparr>entries := entries st @ [log_entry E x], called := called st @ (case deferred E x of None \<Rightarrow> [] | Some c \<Rightarrow> [c])\<rparr>)"
proof -
  obtain name obj m ms where x: "x = (name, obj # m # ms)"
    using ok by (cases x, cases "snd x", simp add: log_ok_def, cases "tl (snd x)") (auto simp: log_ok_def)
  from ok x have "name \<in> fst ` set log_levels" by (simp add: log_ok_def)
  note lv = log_level_of [OF this] level_of_le [of name]
  note defs = MPXS_Apache2__Log_dispatch_def mpxs_ap_log_error_def log_entry_def log_push_def APLOG_LEVELMASK_def APLOG_DEBUG_def log_server_def deferred_def
    modperl_perl_do_join_def
  show ?thesis
  proof (cases "ms = []")
    case False
    then obtain n ns where "ms = n # ns" by (cases ms) auto
    with x lv str show ?thesis by (cases m; cases obj; simp add: defs Let_def)
  next
    case True
    show ?thesis
    proof (cases m)
      case (CodeRef c)
      with x True lv ok show ?thesis by (cases obj) (auto simp: defs log_ok_def Let_def)
    qed (use x True lv in \<open>cases obj; simp add: defs Let_def\<close>)+
  qed
qed

section \<open>Properties\<close>

text \<open>
  C35. The methods of the eight levels hand httpd one message for each call, in order, with the level of their name, to the request or the server of their object; the arguments are joined, and
  a subroutine that is the only argument is called exactly when the level of the server lets the message through, and gives its text. Every reference that is taken is given back.
\<close>

theorem log_methods_run:
  assumes "\<And>t. text_of E (Str t) = t" and "list_all (log_ok E) calls"
  shows "log_run E calls st =
    (Inr (), st\<lparr>entries := entries st @ map (log_entry E) calls, called := called st @ List.map_filter (deferred E) calls\<rparr>)"
  using assms(2)
proof (induction calls arbitrary: st)
  case Nil
  then show ?case by (simp add: map_filter_simps)
next
  case (Cons x xs)
  then show ?case
    by (simp add: dispatch_entry [OF _ assms(1)] map_filter_simps split: option.split)
qed

definition demo_log_env :: log_env where
  "demo_log_env = \<lparr>cop_file = ''a.pl'', cop_line = 3, mp_loglevel = (\<lambda>_. 4), r_server = (\<lambda>r. r), global_server = 0,
     call_sv = (\<lambda>c. if c = 1 then Inr ''called'' else Inl (Croak ''died'')), text_of = (\<lambda>x. case x of Str t \<Rightarrow> t | _ \<Rightarrow> ''CODE''),
     mark_file = ''x.c'', mark_line = 9\<rparr>"

definition demo_log :: log_state where "demo_log = \<lparr>entries = [], called = [], held = 0\<rparr>"

lemma log_methods_run_witness:
  "log_run demo_log_env [(''warn'', [LogRequest 5, CodeRef 1]), (''debug'', [LogServer 2, CodeRef 2]), (''crit'', [LogServer 2, Str ''a'', Str ''b''])] demo_log =
    (Inr (), \<lparr>entries = [\<lparr>e_file = None, e_line = 0, e_level = 4, e_status = 0, e_to = ToRequest 5, e_msg = ''called''\<rparr>,
        \<lparr>e_file = None, e_line = 0, e_level = 7, e_status = 0, e_to = ToServer 2, e_msg = ''CODE''\<rparr>,
        \<lparr>e_file = None, e_line = 0, e_level = 2, e_status = 0, e_to = ToServer 2, e_msg = ''ab''\<rparr>], called = [1], held = 0\<rparr>)"
  using log_methods_run [of demo_log_env "[(''warn'', [LogRequest 5, CodeRef 1]), (''debug'', [LogServer 2, CodeRef 2]), (''crit'', [LogServer 2, Str ''a'', Str ''b''])]" demo_log]
  by (simp add: demo_log_env_def demo_log_def log_ok_def deferred_def level_of_def log_levels_def log_entry_def log_server_def map_filter_simps Let_def)

text \<open>When the subroutine of a message raises an exception, nothing is logged and the reference to the message is never given back.\<close>

lemma log_callback_leak:
  assumes "call_sv E c = Inl e" and "deferred E (name, [obj, CodeRef c]) = Some c" and "name \<in> fst ` set log_levels"
  shows "MPXS_Apache2__Log_dispatch E name [obj, CodeRef c] st = (Inl e, st\<lparr>called := called st @ [c], held := Suc (held st)\<rparr>)"
  using assms log_level_of [OF assms(3)]
  by (cases obj) (auto simp: MPXS_Apache2__Log_dispatch_def mpxs_ap_log_error_def deferred_def log_server_def APLOG_LEVELMASK_def Let_def split: if_splits)

text \<open>
  Called as a method of a class other than that of requests, \<open>log_error\<close> puts the name of the class at the head of the message.
\<close>

lemma log_error_class_method:
  assumes "isa_s (Str cls) = None" and "sv2r (Str cls) = Inr None" and "\<And>t. text_of E (Str t) = t"
  shows "MPXS_Apache2__Log_log_error E isa_s sv2r None ''log_error'' [Str cls, Str m] st =
    (Inr (), log_push \<lparr>e_file = Some (mark_file E), e_line = mark_line E, e_level = 3, e_status = 0, e_to = ToServer (global_server E), e_msg = cls @ m\<rparr> st)"
  using assms by (simp add: MPXS_Apache2__Log_log_error_def modperl_perl_do_join_def APLOG_ERR_def)

lemma log_error_no_argument: "MPXS_Apache2__Log_log_error E isa_s sv2r tls_r name [] st = (Inl OutOfBounds, st)"
  by (simp add: MPXS_Apache2__Log_log_error_def)

lemma strchr_Some: "strchr opts c = Some d \<Longrightarrow> d < length opts \<and> opts ! d = c"
  by (induction opts arbitrary: d) (auto split: if_splits)

lemma strchr_None: "strchr opts c = None \<longleftrightarrow> c \<notin> set opts"
  by (induction opts) auto

text \<open>The letters up to the first that is no option set the bit of their place among the options.\<close>

lemma trace_loop_bits:
  "bit (trace_loop opts cs l) n \<longleftrightarrow> bit l n \<or> n < 64 \<and> (\<exists>c \<in> set (takeWhile (\<lambda>c. c \<in> set opts) cs). strchr opts c = Some n)"
proof (induction cs arbitrary: l)
  case (Cons c cs)
  show ?case
  proof (cases "strchr opts c")
    case None
    moreover from None have "c \<notin> set opts" by (simp add: strchr_None)
    ultimately show ?thesis by simp
  next
    case (Some d)
    then have "c \<in> set opts" using strchr_None [of opts c] by auto
    with Some Cons.IH show ?thesis by (auto simp: bit_simps)
  qed
qed simp

text \<open>Every status has a text, and the two of the program itself theirs.\<close>

lemma strerror_total: "\<exists>t. modperl_error_strerror apr_strerror rc = Inr t"
  by (auto simp: modperl_error_strerror_def MP_error_strings_def APR_OS_START_USERERR_def Let_def)

lemma strerror_own:
  "modperl_error_strerror apr_strerror APR_OS_START_USERERR = Inr ''exit was called''"
  "modperl_error_strerror apr_strerror (APR_OS_START_USERERR + 1) = Inr ''filter handler has failed''"
  by (simp_all add: modperl_error_strerror_def MP_error_strings_def APR_OS_START_USERERR_def Let_def)

text \<open>An exception leaves the tainting as it was, and its object has the status; when the class of errors cannot be loaded the message of that failure is the exception.\<close>

lemma croak_error:
  "PL_tainted (modperl_croak E load rc func st) = PL_tainted st"
  "ERRSV (modperl_croak E load rc func st) = Some (case load False of Some m \<Rightarrow> ErrText m
     | None \<Rightarrow> ErrObject \<lparr>er_rc = rc, er_file = cop_file E, er_line = cop_line E, er_func = func\<rparr>)"
  by (cases "load False"; simp add: modperl_croak_def Let_def)+

end
