(* ===== verification/Sub_Process.thy ===== *)
theory Sub_Process
  imports Prelude
begin

text \<open>
  Running a program from a request (\<^verbatim>\<open>src/xs/Apache2/SubProcess/Apache2__SubProcess.h\<close>): the vector of arguments, the child process with its three pipes, and the
  handles that Perl code gets for them. Processes and files are APR; they are parameters.
\<close>

section \<open>State\<close>

text \<open>
  \<open>setup_rcs\<close> has the status of the four calls that prepare the process; \<open>create_process\<close> the status and the pipes for the arguments it is given, up to the null pointer that ends them.
  \<open>has_glob\<close> tells whether the function that makes handles is registered (\<open>APR::PerlIO\<close> is loaded).
\<close>

record spawn_env =
  setup_rcs :: "int list"
  create_process :: "string list \<Rightarrow> int \<times> nat option \<times> nat option \<times> nat option"
  apr_file_close :: "nat \<Rightarrow> int"
  has_glob :: bool

text \<open>Closed files, files with the timeout of the server, processes that are killed when their pool goes, and the log.\<close>

record spawn_state =
  closed :: "nat list"
  timed :: "nat list"
  noted :: nat
  spawn_log :: "string list"

text \<open>A vector of pointers: memory nobody has written, a null pointer, or a string.\<close>

datatype cell = Fresh | Null | Ptr string

definition store :: "nat \<Rightarrow> cell \<Rightarrow> cell list \<Rightarrow> cell list res" where
  "store i x a = (if i < length a then Inr (a[i := x]) else Inl OutOfBounds)"

text \<open>The strings of a vector up to its null pointer.\<close>

fun argv_strings :: "cell list \<Rightarrow> string list res" where
  "argv_strings [] = Inl OutOfBounds"
| "argv_strings (Null # xs) = Inr []"
| "argv_strings (Fresh # xs) = Inl UseAfterFree"
| "argv_strings (Ptr s # xs) = and_then (argv_strings xs) (\<lambda>ss. Inr (s # ss))"

section \<open>The process\<close>

fun first_failure :: "int list \<Rightarrow> int" where
  "first_failure [] = APR_SUCCESS"
| "first_failure (rc # rcs) = (if rc \<noteq> APR_SUCCESS then rc else first_failure rcs)"

definition set_stream :: "string \<Rightarrow> nat option \<Rightarrow> spawn_state \<Rightarrow> (nat \<times> spawn_state) res" where
  "set_stream name f st = (case f of None \<Rightarrow> Inl (Croak (''broken program-'' @ name @ '' stream'')) | Some x \<Rightarrow> Inr (x, st\<lparr>timed := timed st @ [x]\<rparr>))"

definition modperl_spawn_proc_prog ::
    "spawn_env \<Rightarrow> cell list \<Rightarrow> spawn_state \<Rightarrow> ((int \<times> (nat \<times> nat \<times> nat) option) \<times> spawn_state) res" where
  "modperl_spawn_proc_prog E argv st =
     (let rc = first_failure (setup_rcs E) in
      if rc \<noteq> APR_SUCCESS then Inr ((rc, None), st\<lparr>spawn_log := spawn_log st @ [''couldn't set child process attributes'']\<rparr>)
      else and_then (argv_strings argv) (\<lambda>args.
        case create_process E args of (rc1, fin, fout, ferr) \<Rightarrow>
          if rc1 \<noteq> APR_SUCCESS then Inr ((rc1, None), st\<lparr>spawn_log := spawn_log st @ [''couldn't create child process'']\<rparr>)
          else and_then (set_stream ''in'' fin (st\<lparr>noted := Suc (noted st)\<rparr>)) (\<lambda>(i, st1).
               and_then (set_stream ''out'' fout st1) (\<lambda>(u, st2).
               and_then (set_stream ''err'' ferr st2) (\<lambda>(e, st3). Inr ((rc1, Some (i, u, e)), st3))))))"

text \<open>The loop that copies the arguments behind the program: an element that was never stored is a null pointer.\<close>

fun argv_loop :: "nat \<Rightarrow> string option list \<Rightarrow> cell list \<Rightarrow> (nat \<times> cell list) res" where
  "argv_loop i [] a = Inr (i, a)"
| "argv_loop i (x # xs) a = (case x of None \<Rightarrow> Inl NullDeref | Some s \<Rightarrow> and_then (store (Suc i) (Ptr s) a) (argv_loop (Suc i) xs))"

text \<open>What is returned: handles to read from or to write to a file, or the undefined value. A stream that cannot be closed makes the whole result undefined.\<close>

datatype spawn_value = UndefValue | ReadHandle nat | WriteHandle nat

datatype want = G_VOID | G_SCALAR | G_ARRAY

fun close_all :: "spawn_env \<Rightarrow> nat list \<Rightarrow> spawn_state \<Rightarrow> bool \<times> spawn_state" where
  "close_all E [] st = (True, st)"
| "close_all E (f # fs) st = (if apr_file_close E f \<noteq> APR_SUCCESS then (False, st) else close_all E fs (st\<lparr>closed := closed st @ [f]\<rparr>))"

datatype spawn_arg = ArrayArg "string option list" | OtherArg

definition MPXS_modperl_spawn_proc_prog ::
    "spawn_env \<Rightarrow> want \<Rightarrow> string \<Rightarrow> spawn_arg list \<Rightarrow> spawn_state \<Rightarrow> (spawn_value list \<times> spawn_state) res" where
  "MPXS_modperl_spawn_proc_prog E want command rest st =
     and_then (case rest of
         [ArrayArg xs] \<Rightarrow> Inr xs | [OtherArg] \<Rightarrow> Inl (Croak ''Usage'') | _ \<Rightarrow> Inr []) (\<lambda>xs.
     and_then (store 0 (Ptr command) (replicate (length xs + 2) Fresh)) (\<lambda>a0.
     and_then (argv_loop 0 xs a0) (\<lambda>(i, a1).
     and_then (store (Suc i) Null a1) (\<lambda>argv.
     and_then (modperl_spawn_proc_prog E argv st) (\<lambda>((rc, streams), st1).
       case streams of
         None \<Rightarrow> Inr ([UndefValue], st1)
       | Some (fin, fout, ferr) \<Rightarrow> (case want of
           G_VOID \<Rightarrow> (case close_all E [fin, fout, ferr] st1 of (ok, st2) \<Rightarrow> Inr (if ok then [] else [UndefValue], st2))
         | G_SCALAR \<Rightarrow> if \<not> has_glob E then Inl NullDeref
             else (case close_all E [fin, ferr] st1 of (ok, st2) \<Rightarrow> Inr (if ok then [ReadHandle fout] else [UndefValue], st2))
         | G_ARRAY \<Rightarrow> if \<not> has_glob E then Inl NullDeref else Inr ([WriteHandle fin, ReadHandle fout, ReadHandle ferr], st1)))))))"

section \<open>Properties\<close>

text \<open>The vector after \<open>k\<close> arguments.\<close>

lemma argv_loop_run:
  assumes "length a = length xs + length ys + 2" and "\<forall>x \<in> set ys. x \<noteq> None" and "i = length xs" and "take (Suc i) a = map Ptr (c # xs)"
    and "drop (Suc i) a = replicate (Suc (length ys)) Fresh"
  shows "\<exists>a'. argv_loop i ys a = Inr (length xs + length ys, a') \<and> a' = map Ptr (c # xs @ map the ys) @ [Fresh]"
  using assms
proof (induction ys arbitrary: i a xs)
  case Nil
  have "a = take (Suc i) a @ drop (Suc i) a" by (rule append_take_drop_id [symmetric])
  with Nil show ?case by simp
next
  case (Cons y ys)
  then obtain s where y: "y = Some s" by auto
  have "a = take (Suc i) a @ drop (Suc i) a" by (rule append_take_drop_id [symmetric])
  with Cons.prems have a: "a = map Ptr (c # xs) @ Fresh # replicate (Suc (length ys)) Fresh" by simp
  let ?a = "map Ptr (c # xs @ [s]) @ replicate (Suc (length ys)) Fresh"
  have st: "store (Suc i) (Ptr s) a = Inr ?a"
    using Cons.prems(3) by (simp add: store_def a list_update_append)
  have "\<exists>a'. argv_loop (Suc i) ys ?a = Inr (length (xs @ [s]) + length ys, a') \<and> a' = map Ptr (c # (xs @ [s]) @ map the ys) @ [Fresh]"
    by (rule Cons.IH) (use Cons.prems in simp_all)
  with st y show ?case by simp
qed

lemma argv_strings_run: "argv_strings (map Ptr ss @ [Null]) = Inr ss"
  by (induction ss) simp_all

lemma argv_built:
  assumes "\<forall>x \<in> set xs. x \<noteq> None"
  shows "and_then (store 0 (Ptr c) (replicate (length xs + 2) Fresh)) (\<lambda>a0. and_then (argv_loop 0 xs a0) (\<lambda>(i, a1). store (Suc i) Null a1)) =
    Inr (map Ptr (c # map the xs) @ [Null])"
proof -
  let ?a = "Ptr c # replicate (Suc (length xs)) Fresh"
  from argv_loop_run [of ?a "[]" xs 0 c] assms have "argv_loop 0 xs ?a = Inr (length xs, map Ptr (c # map the xs) @ [Fresh])" by simp
  then show ?thesis by (simp add: store_def list_update_append)
qed

text \<open>
  A program is run with its name and the given arguments as strings, whatever their number, and the vector for them is never left. Perl code gets nothing in void context, with all three streams
  closed; the output in scalar context, with the other two closed; and input, output and error streams in list context, none of them closed. Every stream has the timeout of the server, and the
  process is noted for the end of the request.
\<close>

theorem spawn_streams:
  assumes "\<forall>x \<in> set xs. x \<noteq> None" and "\<forall>rc \<in> set (setup_rcs E). rc = APR_SUCCESS"
    and "create_process E (command # map the xs) = (APR_SUCCESS, Some fin, Some fout, Some ferr)"
    and "\<forall>f. apr_file_close E f = APR_SUCCESS" and "has_glob E"
  shows "MPXS_modperl_spawn_proc_prog E want command [ArrayArg xs] st =
    (let st1 = st\<lparr>timed := timed st @ [fin, fout, ferr], noted := Suc (noted st)\<rparr> in case want of
       G_VOID \<Rightarrow> Inr ([], st1\<lparr>closed := closed st @ [fin, fout, ferr]\<rparr>)
     | G_SCALAR \<Rightarrow> Inr ([ReadHandle fout], st1\<lparr>closed := closed st @ [fin, ferr]\<rparr>)
     | G_ARRAY \<Rightarrow> Inr ([WriteHandle fin, ReadHandle fout, ReadHandle ferr], st1))"
proof -
  have "first_failure rcs = APR_SUCCESS" if "\<forall>rc \<in> set rcs. rc = APR_SUCCESS" for rcs using that by (induction rcs) auto
  with assms(2) have f: "first_failure (setup_rcs E) = APR_SUCCESS" by blast
  have "argv_strings (map Ptr (command # map the xs) @ [Null]) = Inr (command # map the xs)" by (rule argv_strings_run)
  with f assms(3) have p: "modperl_spawn_proc_prog E (map Ptr (command # map the xs) @ [Null]) st =
      Inr ((APR_SUCCESS, Some (fin, fout, ferr)), st\<lparr>timed := timed st @ [fin, fout, ferr], noted := Suc (noted st)\<rparr>)"
    unfolding modperl_spawn_proc_prog_def by (simp add: set_stream_def)
  from argv_built [OF assms(1), of command] obtain a0 i a1 where
    "store 0 (Ptr command) (replicate (length xs + 2) Fresh) = Inr a0" "argv_loop 0 xs a0 = Inr (i, a1)"
    "store (Suc i) Null a1 = Inr (map Ptr (command # map the xs) @ [Null])"
    by (auto simp: and_then_eq_Inr)
  with p assms(4,5) show ?thesis
    by (cases want) (simp_all add: MPXS_modperl_spawn_proc_prog_def Let_def)
qed

definition demo_spawn :: spawn_env where
  "demo_spawn = \<lparr>setup_rcs = [0, 0, 0, 0], create_process = (\<lambda>args. (0, Some 3, Some 4, Some (5 + length args))), apr_file_close = (\<lambda>_. 0), has_glob = True\<rparr>"

definition demo_spawn_state :: spawn_state where
  "demo_spawn_state = \<lparr>closed = [], timed = [], noted = 0, spawn_log = []\<rparr>"

lemma spawn_streams_witness:
  "MPXS_modperl_spawn_proc_prog demo_spawn G_SCALAR ''/bin/ls'' [ArrayArg [Some ''-l'', Some ''/'']] demo_spawn_state =
    Inr ([ReadHandle 4], \<lparr>closed = [3, 8], timed = [3, 4, 8], noted = 1, spawn_log = []\<rparr>)"
  using spawn_streams [of "[Some ''-l'', Some ''/'']" demo_spawn "''/bin/ls''" 3 4 8 G_SCALAR demo_spawn_state]
  by (simp add: demo_spawn_def demo_spawn_state_def APR_SUCCESS_def)

text \<open>An argument that was never stored in the array: the null pointer is followed.\<close>

lemma spawn_hole: "MPXS_modperl_spawn_proc_prog E want command [ArrayArg [None]] st = Inl NullDeref"
  by (simp add: MPXS_modperl_spawn_proc_prog_def store_def)

text \<open>More than one argument behind the command: they are not used, and the program is run without arguments.\<close>

lemma spawn_list_ignored:
  "MPXS_modperl_spawn_proc_prog E want command (x # y # zs) st = MPXS_modperl_spawn_proc_prog E want command [] st"
  by (cases x) (simp_all add: MPXS_modperl_spawn_proc_prog_def)

end
