(* ===== verification/Perl_Section.thy ===== *)
theory Perl_Section
  imports Cmd Util
begin

text \<open>
  What happens with the code of \<open><Perl>\<close> sections and of the directive \<open>Perl\<close> (\<open>perldo\<close> in \<^verbatim>\<open>src/src/modules/perl/modperl_cmd.c\<close>). Reading a section is in
  the theory of directives. Running Perl code is a parameter.
\<close>

section \<open>The name of the package\<close>

text \<open>\<open>%d\<close> of \<open>apr_psprintf\<close> for a line number.\<close>

fun decimal :: "nat \<Rightarrow> string" where
  "decimal n = (if n < 10 then [char_of (48 + n)] else decimal (n div 10) @ [char_of (48 + n mod 10)])"

declare decimal.simps [simp del]

definition section_package :: "string \<Rightarrow> string \<Rightarrow> nat \<Rightarrow> string" where
  "section_package pkg_base pkg_namespace line_num = pkg_base @ ''::'' @ pkg_namespace @ ''::line_'' @ decimal line_num"

section \<open>State\<close>

text \<open>
  A world \<open>'w\<close> of Perl: the code that runs changes it, and so do the handler and the removal of a package. \<open>run_code\<close> gets the interpreter, the value of \<open>$0\<close> and the code;
  \<open>errsv\<close> is \<open>$@\<close> when it is true. \<open>sync\<close> copies \<open>%ENV\<close> to the tables of the server and the directory. \<open>init\<close> starts the Perl of the server, and says whether that
  worked. The variable that keeps the configuration is found before the handler runs (\<open>has_save\<close>), and its value is taken afterwards. What is done is kept in a list.
\<close>

datatype event = Ran string nat string | Handled string | Unloaded string

record ('w, 't) perldo_env =
  run_code :: "nat \<Rightarrow> string \<Rightarrow> string \<Rightarrow> 'w \<Rightarrow> 'w"
  errsv :: "'w \<Rightarrow> string option"
  sync :: "'w \<Rightarrow> 'w"
  run_handler :: "string \<Rightarrow> 't \<Rightarrow> 'w \<Rightarrow> int \<times> 'w"
  has_save :: "'w \<Rightarrow> bool"
  saveconfig :: "'w \<Rightarrow> bool"
  unload_package :: "string \<Rightarrow> 'w \<Rightarrow> 'w"
  init :: "'w \<Rightarrow> bool \<times> 'w"
  parent_perl :: nat

record ('w, 't) perldo_state =
  world :: 'w
  dollar0 :: string
  ctxt :: nat
  popts :: 't
  events :: "event list"

text \<open>The directive: the file and the line it is in, and the table of its arguments when it comes from a section.\<close>

record directive =
  d_filename :: string
  d_line :: nat
  d_section :: bool

definition section_options ::
    "'t apr_table_ops \<Rightarrow> directive \<Rightarrow> string \<Rightarrow> 't \<Rightarrow> (string \<times> string \<times> string \<times> 't) res" where
  "section_options T d arg otab =
     (let (handler_name, otab1) = (case apr_table_get T otab ''handler'' of
            Some h \<Rightarrow> (h, otab)
          | None \<Rightarrow> (''Apache2::PerlSections'', apr_table_setn T ''handler'' ''Apache2::PerlSections'' otab));
          pkg_base = (case apr_table_get T otab1 ''package'' of Some b \<Rightarrow> b | None \<Rightarrow> ''Apache2::ReadConfig'')
      in and_then (modperl_file2package (d_filename d)) (\<lambda>pkg_namespace.
           let pkg_name = section_package pkg_base pkg_namespace (d_line d);
               otab2 = apr_table_setn T ''package'' pkg_name otab1;
               code = ''package '' @ pkg_name @ '';'' @ [CHR 0x0A] @ ''#line '' @ decimal (d_line d) @ '' '' @ d_filename d @ [CHR 0x0A] @ arg
           in Inr (handler_name, pkg_name, code, otab2)))"

text \<open>The code is run with \<open>$0\<close> as the name of the file, which is local.\<close>

definition eval_section :: "('w, 't) perldo_env \<Rightarrow> string \<Rightarrow> string \<Rightarrow> ('w, 't) perldo_state \<Rightarrow> ('w, 't) perldo_state" where
  "eval_section E code filename st =
     (let old = dollar0 st;
          st1 = st\<lparr>dollar0 := filename\<rparr>;
          st2 = st1\<lparr>world := sync E (run_code E (ctxt st1) (dollar0 st1) code (world st1)), events := events st1 @ [Ran code (ctxt st1) (dollar0 st1)]\<rparr>
      in st2\<lparr>dollar0 := old\<rparr>)"

definition modperl_cmd_perldo ::
    "('w, 't) perldo_env \<Rightarrow> 't apr_table_ops \<Rightarrow> cmd_parms \<Rightarrow> directive \<Rightarrow> string \<Rightarrow> ('w, 't) perldo_state \<Rightarrow>
     (string option \<times> ('w, 't) perldo_state) res" where
  "modperl_cmd_perldo E T parms d arg st =
     (if arg = [] then Inr (None, st)
      else case check_context parms of Some err \<Rightarrow> Inr (Some err, st)
      | None \<Rightarrow> (case init E (world st) of (good, w0) \<Rightarrow>
          if \<not> good then Inr (Some ''init mod_perl vhost failed'', st\<lparr>world := w0\<rparr>)
          else
            let orig_perl = ctxt st;
                st1 = st\<lparr>world := w0, ctxt := parent_perl E\<rparr>
            in and_then (if d_section d then and_then (section_options T d arg (popts st1)) (\<lambda>(h, p, code, o2). Inr (Some (h, p), code, st1\<lparr>popts := o2\<rparr>))
                         else Inr (None, arg, st1)) (\<lambda>(sec, code, st2).
               let st3 = eval_section E code (d_filename d) st2 in
               case errsv E (world st3) of
                 Some m \<Rightarrow> Inr (Some m, st3\<lparr>ctxt := orig_perl\<rparr>)
               | None \<Rightarrow> (case sec of
                   None \<Rightarrow> Inr (None, st3\<lparr>ctxt := orig_perl\<rparr>)
                 | Some (handler, pkg_name) \<Rightarrow>
                     (let save_sv = has_save E (world st3);
                          (status, w4) = run_handler E handler (popts st3) (world st3);
                          st4 = st3\<lparr>world := w4, events := events st3 @ [Handled handler]\<rparr>;
                          st5 = (if save_sv \<and> saveconfig E (world st4) then st4
                                 else st4\<lparr>world := unload_package E pkg_name (world st4), events := events st4 @ [Unloaded pkg_name]\<rparr>)
                      in if status \<noteq> OK then
                           Inr (Some (case errsv E (world st5) of Some m \<Rightarrow> m
                                      | None \<Rightarrow> ''<Perl> handler '' @ handler @ '' failed''), st5\<lparr>ctxt := orig_perl\<rparr>)
                         else Inr (None, st5\<lparr>ctxt := orig_perl\<rparr>))))))"

section \<open>Files that are loaded when the configuration is read\<close>

text \<open>
  \<open>PerlPostConfigRequire\<close> (\<^verbatim>\<open>modperl_config.c\<close>): each file is loaded in the interpreter of the server, and \<open>%ENV\<close> is copied to the tables of the server and of the directory the
  directive was in. \<open>require_file\<close> is \<open>modperl_require_file\<close>; \<open>sync_dir\<close> gets the directory.
\<close>

fun modperl_config_apply_PerlPostConfigRequire ::
    "('w, 't) perldo_env \<Rightarrow> (nat \<Rightarrow> string \<Rightarrow> 'w \<Rightarrow> bool \<times> 'w) \<Rightarrow> (nat \<Rightarrow> 'w \<Rightarrow> 'w) \<Rightarrow> (string \<times> nat) list \<Rightarrow> ('w, 't) perldo_state \<Rightarrow>
     bool \<times> ('w, 't) perldo_state" where
  "modperl_config_apply_PerlPostConfigRequire E require_file sync_dir [] st = (True, st)"
| "modperl_config_apply_PerlPostConfigRequire E require_file sync_dir ((file, dcfg) # rest) st =
     (let orig_perl = ctxt st;
          st1 = st\<lparr>ctxt := parent_perl E\<rparr>;
          (retval, w) = require_file (ctxt st1) file (world st1);
          st2 = st1\<lparr>world := sync_dir dcfg (sync E w)\<rparr>;
          st3 = st2\<lparr>ctxt := orig_perl\<rparr>
      in if retval then modperl_config_apply_PerlPostConfigRequire E require_file sync_dir rest st3 else (False, st3))"

text \<open>The files up to the first that fails are loaded, in order and in the interpreter of the server, and the interpreter that was current is current again.\<close>

lemma post_config_require_loads:
  assumes "\<And>f w. fst (require_file (parent_perl E) f w) = good f"
  shows "\<exists>st'. modperl_config_apply_PerlPostConfigRequire E require_file sync_dir xs st = (list_all (good \<circ> fst) xs, st') \<and> ctxt st' = ctxt st \<and>
    world st' = fold (\<lambda>(f, d) w. sync_dir d (sync E (snd (require_file (parent_perl E) f w))))
      (takeWhile (good \<circ> fst) xs @ take 1 (dropWhile (good \<circ> fst) xs)) (world st)"
proof (induction xs arbitrary: st)
  case (Cons x xs)
  obtain f d where x: "x = (f, d)" by (cases x)
  obtain w where w: "require_file (parent_perl E) f (world st) = (good f, w)"
    using assms [of f "world st"] by (cases "require_file (parent_perl E) f (world st)") auto
  let ?st = "st\<lparr>world := sync_dir d (sync E w)\<rparr>"
  show ?case
  proof (cases "good f")
    case True
    from Cons.IH [of ?st] True w x show ?thesis by auto
  qed (use w x in simp)
qed simp

section \<open>Sections have packages of their own\<close>

fun undecimal :: "nat \<Rightarrow> string \<Rightarrow> nat" where
  "undecimal n [] = n"
| "undecimal n (c # cs) = undecimal (10 * n + (of_char c - 48)) cs"

lemma undecimal_append: "undecimal n (xs @ ys) = undecimal (undecimal n xs) ys"
  by (induction n xs rule: undecimal.induct) simp_all

lemma undecimal_decimal: "undecimal 0 (decimal n) = n"
proof (induction n rule: decimal.induct)
  case (1 n)
  show ?case
  proof (cases "n < 10")
    case True
    then have "of_char (char_of (48 + n) :: char) = 48 + n" by (simp add: of_char_of)
    with True show ?thesis by (subst decimal.simps) simp
  next
    case False
    have "of_char (char_of (48 + n mod 10) :: char) = 48 + n mod 10" by (simp add: of_char_of)
    with False 1 show ?thesis by (subst decimal.simps) (simp add: undecimal_append)
  qed
qed

lemma section_package_inj: "section_package b p n = section_package b p m \<Longrightarrow> n = m"
  unfolding section_package_def by (metis append_same_eq same_append_eq undecimal_decimal)

text \<open>Two sections of files whose names differ in characters that no package name has share the package when they are on the same line.\<close>

lemma section_packages_collide:
  "modperl_file2package ''/etc/a-b.conf'' = modperl_file2package ''/etc/a_b.conf''"
  by (simp add: modperl_file2package_def MP_VALID_PKG_CHAR_def MP_VALID_PATH_DELIM_def is_alnum_def Let_def put_char_def numeral_eq_Suc)

section \<open>Properties\<close>

text \<open>
  Whatever the code of the directive does, the interpreter that was current before is current again, and \<open>$0\<close> has its old value. The code runs once, in the interpreter of the
  server and with the name of the file as \<open>$0\<close>; the handler of a section runs exactly when the code left no error; and the package of a section is removed exactly when its handler has run
  and the configuration is not to be kept. There is no message if and only if the code left no error and the handler, if there is one, returned success.
\<close>

theorem perldo_outcome:
  assumes "arg \<noteq> []" and "check_context parms = None" and "init E (world st) = (True, w0)"
    and "d_section d \<longrightarrow> section_options T d arg (popts st) = Inr (h, p, code, otab)" and "\<not> d_section d \<longrightarrow> code = arg"
  shows "\<exists>msg st'. modperl_cmd_perldo E T parms d arg st = Inr (msg, st') \<and> ctxt st' = ctxt st \<and> dollar0 st' = dollar0 st \<and>
    (let w1 = sync E (run_code E (parent_perl E) (d_filename d) code w0);
         handle = d_section d \<and> errsv E w1 = None
     in events st' = events st @ [Ran code (parent_perl E) (d_filename d)] @ (if handle then [Handled h] else []) @
          (if handle \<and> \<not> (has_save E w1 \<and> saveconfig E (snd (run_handler E h otab w1))) then [Unloaded p] else []) \<and>
        (msg = None \<longleftrightarrow> errsv E w1 = None \<and> (handle \<longrightarrow> fst (run_handler E h otab w1) = OK)))"
proof -
  let ?w = "sync E (run_code E (parent_perl E) (d_filename d) code w0)"
  show ?thesis
  proof (cases "d_section d")
    case True
    with assms show ?thesis
      by (cases "errsv E ?w"; cases "run_handler E h otab ?w")
        (auto simp: modperl_cmd_perldo_def eval_section_def Let_def split: option.splits)
  next
    case False
    with assms show ?thesis
      by (cases "errsv E ?w") (auto simp: modperl_cmd_perldo_def eval_section_def Let_def)
  qed
qed

definition demo_perldo :: "(string option, (string \<times> string) list) perldo_env" where
  "demo_perldo = \<lparr>run_code = (\<lambda>_ _ c w. if c = ''die'' then Some ''died'' else None), errsv = (\<lambda>w. w), sync = (\<lambda>w. w), run_handler = (\<lambda>_ _ w. (0, w)),
     has_save = (\<lambda>_. False), saveconfig = (\<lambda>_. False), unload_package = (\<lambda>_ w. w), init = (\<lambda>w. (True, w)), parent_perl = 1\<rparr>"

definition demo_perldo_state :: "(string option, (string \<times> string) list) perldo_state" where
  "demo_perldo_state = \<lparr>world = None, dollar0 = ''httpd'', ctxt = 5, popts = [(''handler'', ''H''), (''package'', ''P'')], events = []\<rparr>"

definition demo_cmd_parms :: cmd_parms where
  "demo_cmd_parms = \<lparr>cp_scfg = 0, cp_dcfg = 0, cp_path = None, cp_access_conf = False, cp_global_only = None, cp_is_virtual = False,
     cp_hostname = [], cp_cmd_name = [], cp_directive = [], cp_parent = []\<rparr>"

lemma perldo_outcome_witness:
  "\<exists>msg st'. modperl_cmd_perldo demo_perldo list_tables demo_cmd_parms \<lparr>d_filename = ''/a'', d_line = 12, d_section = True\<rparr> ''1;'' demo_perldo_state = Inr (msg, st') \<and>
     ctxt st' = 5 \<and> dollar0 st' = ''httpd'' \<and> map (\<lambda>e. case e of Ran _ i n \<Rightarrow> n | Handled x \<Rightarrow> x | Unloaded x \<Rightarrow> x) (events st') = [''/a'', ''H'', ''P::a::line_12''] \<and> msg = None"
proof -
  let ?d = "\<lparr>d_filename = ''/a'', d_line = 12, d_section = True\<rparr>"
  have f: "modperl_file2package ''/a'' = Inr ''a''"
    by (simp add: modperl_file2package_def MP_VALID_PKG_CHAR_def MP_VALID_PATH_DELIM_def is_alnum_def Let_def put_char_def)
  have dec: "decimal 12 = ''12''" by (simp add: decimal.simps char_of_def bit_Suc_0_iff)
  obtain code otab where o: "section_options list_tables ?d ''1;'' (popts demo_perldo_state) = Inr (''H'', ''P::a::line_12'', code, otab)"
    by (simp add: section_options_def f demo_perldo_state_def apr_table_get_def tvals_def list_tables_def key_vals_def strcase_eq_def ascii_lower_def
        section_package_def dec Let_def)
  from o have "code \<noteq> ''die''"
    by (auto simp: section_options_def f demo_perldo_state_def apr_table_get_def tvals_def list_tables_def key_vals_def strcase_eq_def ascii_lower_def
        section_package_def dec Let_def)
  have "check_context demo_cmd_parms = None" "init demo_perldo (world demo_perldo_state) = (True, None)"
    by (simp_all add: check_context_def demo_cmd_parms_def demo_perldo_def demo_perldo_state_def)
  from perldo_outcome [of "''1;''", OF _ this, of ?d list_tables "''H''" "''P::a::line_12''" code otab] o obtain msg st' where
    "modperl_cmd_perldo demo_perldo list_tables demo_cmd_parms ?d ''1;'' demo_perldo_state = Inr (msg, st')" "ctxt st' = 5" "dollar0 st' = ''httpd''"
    "events st' = [Ran code 1 ''/a'', Handled ''H'', Unloaded ''P::a::line_12'']" "msg = None"
    using \<open>code \<noteq> ''die''\<close> by (auto simp: demo_perldo_def demo_perldo_state_def Let_def OK_def)
  then show ?thesis by (intro exI conjI) auto
qed

end
