(* ===== verification/Shutdown.thy ===== *)
theory Shutdown
  imports Prelude
begin

text \<open>
  What is done at the end: the cleanups of the server and \<open>$r->child_terminate\<close> (\<^verbatim>\<open>src/xs/Apache2/ServerUtil/Apache2__ServerUtil.h\<close>,
  \<^verbatim>\<open>src/xs/Apache2/RequestUtil/Apache2__RequestUtil.h\<close>), and the libraries that Perl modules have loaded (\<^verbatim>\<open>src/src/modules/perl/modperl_util.c\<close>).
  APR runs the cleanups of a pool from the last registered to the first.
\<close>

section \<open>Cleanups of a pool\<close>

text \<open>A cleanup in Perl has its code, an argument and the interpreter it was registered in; \<open>Terminate\<close> is \<open>child_terminate\<close>, with or without the pool as its data.\<close>

datatype cleanup = PerlCleanup nat "nat option" nat | Terminate bool | Foreign nat

datatype event = CleanupRan nat "nat option" nat | CleanupDied nat | ForeignRan nat

text \<open>\<open>refs\<close> counts the references to Perl values, and \<open>exited\<close> tells that the process is gone. The context is the interpreter that is current.\<close>

record end_state =
  cleanups :: "cleanup list"
  refs :: "nat \<Rightarrow> int"
  events :: "event list"
  exited :: bool
  perl_context :: nat

definition ref_add :: "nat \<Rightarrow> int \<Rightarrow> end_state \<Rightarrow> end_state" where
  "ref_add x k st = st\<lparr>refs := (refs st)(x := refs st x + k)\<rparr>"

definition ref_add_opt :: "nat option \<Rightarrow> int \<Rightarrow> end_state \<Rightarrow> end_state" where
  "ref_add_opt x k st = (case x of None \<Rightarrow> st | Some y \<Rightarrow> ref_add y k st)"

definition apr_pool_cleanup_register :: "cleanup \<Rightarrow> end_state \<Rightarrow> end_state" where
  "apr_pool_cleanup_register c st = st\<lparr>cleanups := c # cleanups st\<rparr>"

text \<open>\<open>late\<close> tells that the server has started; \<open>perl\<close> is the interpreter that registers.\<close>

definition mpxs_Apache2__ServerUtil_server_shutdown_cleanup_register ::
    "bool \<Rightarrow> nat \<Rightarrow> nat \<Rightarrow> nat option \<Rightarrow> end_state \<Rightarrow> end_state res" where
  "mpxs_Apache2__ServerUtil_server_shutdown_cleanup_register late perl cv arg st =
     (if late then Inl (Croak ''Can't run 'server_shutdown_cleanup_register' after server startup'')
      else Inr (apr_pool_cleanup_register (PerlCleanup cv arg perl) (ref_add_opt arg 1 (ref_add cv 1 st))))"

text \<open>\<open>dies\<close> tells whether the code raises an exception, which becomes a warning; \<open>$@\<close> is local.\<close>

definition mpxs_server_cleanup_run :: "(nat \<Rightarrow> bool) \<Rightarrow> nat \<Rightarrow> nat option \<Rightarrow> nat \<Rightarrow> end_state \<Rightarrow> end_state" where
  "mpxs_server_cleanup_run dies cv arg perl st =
     (let st1 = st\<lparr>perl_context := perl\<rparr>;
          st2 = st1\<lparr>events := events st1 @ [CleanupRan cv arg (perl_context st1)] @ (if dies cv then [CleanupDied cv] else [])\<rparr>
      in ref_add_opt arg (-1) (ref_add cv (-1) st2))"

definition child_terminate :: "bool \<Rightarrow> end_state \<Rightarrow> end_state" where
  "child_terminate data st = (if data then apr_pool_cleanup_register (Terminate False) st else st\<lparr>exited := True\<rparr>)"

definition mpxs_Apache2__RequestRec_child_terminate :: "bool \<Rightarrow> end_state \<Rightarrow> end_state res" where
  "mpxs_Apache2__RequestRec_child_terminate threaded st =
     (if threaded then Inl (Croak ''Can't run '$r->child_terminate' in a threaded mpm'')
      else Inr (apr_pool_cleanup_register (Terminate True) st))"

text \<open>APR takes the first cleanup off the list and runs it, until the list is empty or the process has exited. A cleanup of another module registers nothing.\<close>

definition run_cleanup :: "(nat \<Rightarrow> bool) \<Rightarrow> cleanup \<Rightarrow> end_state \<Rightarrow> end_state" where
  "run_cleanup dies c st = (case c of
       PerlCleanup cv arg perl \<Rightarrow> mpxs_server_cleanup_run dies cv arg perl st
     | Terminate data \<Rightarrow> child_terminate data st
     | Foreign n \<Rightarrow> st\<lparr>events := events st @ [ForeignRan n]\<rparr>)"

fun weight :: "cleanup \<Rightarrow> nat" where
  "weight (Terminate True) = 2"
| "weight _ = 1"

lemma run_cleanup_list:
  "cleanups (run_cleanup dies c st) = (if c = Terminate True then Terminate False # cleanups st else cleanups st)"
  by (cases c) (auto simp: run_cleanup_def mpxs_server_cleanup_run_def child_terminate_def apr_pool_cleanup_register_def ref_add_opt_def ref_add_def Let_def
      split: option.splits)

function run_cleanups :: "(nat \<Rightarrow> bool) \<Rightarrow> end_state \<Rightarrow> end_state" where
  "run_cleanups dies st =
     (if exited st then st
      else case cleanups st of [] \<Rightarrow> st | c # cs \<Rightarrow> run_cleanups dies (run_cleanup dies c (st\<lparr>cleanups := cs\<rparr>)))"
  by auto
termination
proof (relation "measure (\<lambda>(dies, st). sum_list (map weight (cleanups st)))")
  fix dies c cs and st :: end_state
  assume "cleanups st = c # cs"
  then show "((dies, run_cleanup dies c (st\<lparr>cleanups := cs\<rparr>)), (dies, st)) \<in> measure (\<lambda>(dies, st). sum_list (map weight (cleanups st)))"
    by (cases c) (auto simp: run_cleanup_list)
qed simp

declare run_cleanups.simps [simp del]

section \<open>Libraries of Perl modules\<close>

text \<open>
  \<open>@DynaLoader::dl_librefs\<close> and \<open>@DynaLoader::dl_modules\<close>: an element that was never stored is a null pointer. A handle of zero is no handle. The array of handles comes from \<open>malloc\<close>:
  what is not written is garbage.
\<close>

datatype cell = Garbage | Handle nat

record dl_state =
  dl_librefs :: "nat option list option"
  dl_modules :: "string option list option"

definition modperl_xs_dl_handles_clear :: "dl_state \<Rightarrow> dl_state" where
  "modperl_xs_dl_handles_clear st = (case dl_librefs st of None \<Rightarrow> st | Some _ \<Rightarrow> st\<lparr>dl_librefs := Some []\<rparr>)"

fun handles_loop :: "nat \<Rightarrow> nat \<Rightarrow> nat option list \<Rightarrow> string option list \<Rightarrow> cell list \<Rightarrow> cell list res" where
  "handles_loop 0 i librefs modules handles = Inr handles"
| "handles_loop (Suc n) i librefs modules handles =
     (if length librefs \<le> i \<or> length modules \<le> i \<or> librefs ! i = None \<or> modules ! i = None then Inl NullDeref
      else let handle = the (librefs ! i) in
        if handle = 0 then handles_loop n (Suc i) librefs modules handles
        else if length handles \<le> i then Inl OutOfBounds
        else handles_loop n (Suc i) librefs modules (handles[i := Handle handle]))"

definition modperl_xs_dl_handles_get :: "dl_state \<Rightarrow> (cell list option \<times> dl_state) res" where
  "modperl_xs_dl_handles_get st = (case dl_librefs st of
       None \<Rightarrow> Inr (None, st)
     | Some librefs \<Rightarrow>
         if librefs = [] then Inr (None, st)
         else (case dl_modules st of
             None \<Rightarrow> Inl NullDeref
           | Some modules \<Rightarrow>
               and_then (handles_loop (length librefs) 0 librefs modules (replicate (length librefs + 1) Garbage)) (\<lambda>handles.
                 Inr (Some (handles[length librefs := Handle 0]), st\<lparr>dl_librefs := Some [], dl_modules := Some []\<rparr>))))"

text \<open>The handles that are closed, in order; following garbage is an error.\<close>

fun close_loop :: "cell list \<Rightarrow> nat list res" where
  "close_loop [] = Inl OutOfBounds"
| "close_loop (Garbage # hs) = Inl UseAfterFree"
| "close_loop (Handle h # hs) = (if h = 0 then Inr [] else and_then (close_loop hs) (\<lambda>cs. Inr (h # cs)))"

definition modperl_xs_dl_handles_close :: "cell list option \<Rightarrow> nat list res" where
  "modperl_xs_dl_handles_close handles = (case handles of None \<Rightarrow> Inr [] | Some hs \<Rightarrow> close_loop hs)"

text \<open>Modules and files are loaded with \<open>require\<close>; \<open>eval\<close> gives \<open>$@\<close> when it is true, and a failure is logged when that is asked for.\<close>

definition modperl_require_module :: "(string \<Rightarrow> string option) \<Rightarrow> string \<Rightarrow> bool \<Rightarrow> string list \<Rightarrow> bool \<times> string list" where
  "modperl_require_module eval pv logfailure log = (case eval (''require '' @ pv) of
       Some m \<Rightarrow> (False, if logfailure then log @ [m] else log)
     | None \<Rightarrow> (True, log))"

definition modperl_require_file :: "(string \<Rightarrow> string option) \<Rightarrow> string \<Rightarrow> bool \<Rightarrow> string list \<Rightarrow> bool \<times> string list" where
  "modperl_require_file require_pv pv logfailure log = (case require_pv pv of
       Some m \<Rightarrow> (False, if logfailure then log @ [m] else log)
     | None \<Rightarrow> (True, log))"

section \<open>Properties\<close>

fun register_all :: "nat \<Rightarrow> (nat \<times> nat option) list \<Rightarrow> end_state \<Rightarrow> end_state res" where
  "register_all perl [] st = Inr st"
| "register_all perl (x # xs) st =
     and_then (mpxs_Apache2__ServerUtil_server_shutdown_cleanup_register False perl (fst x) (snd x) st) (register_all perl xs)"

definition ran :: "(nat \<Rightarrow> bool) \<Rightarrow> nat \<Rightarrow> nat \<times> nat option \<Rightarrow> event list" where
  "ran dies perl x = [CleanupRan (fst x) (snd x) perl] @ (if dies (fst x) then [CleanupDied (fst x)] else [])"

fun count_refs :: "nat \<Rightarrow> (nat \<times> nat option) list \<Rightarrow> int" where
  "count_refs y [] = 0"
| "count_refs y (x # xs) = (if fst x = y then 1 else 0) + (if snd x = Some y then 1 else 0) + count_refs y xs"

lemma register_all_run:
  "register_all perl xs st = Inr (st\<lparr>cleanups := map (\<lambda>x. PerlCleanup (fst x) (snd x) perl) (rev xs) @ cleanups st,
     refs := (\<lambda>y. refs st y + count_refs y xs)\<rparr>)"
proof (induction xs arbitrary: st)
  case (Cons x xs)
  then show ?case
    by (auto simp: mpxs_Apache2__ServerUtil_server_shutdown_cleanup_register_def apr_pool_cleanup_register_def ref_add_opt_def ref_add_def fun_eq_iff
        split: option.split)
qed simp

lemma run_perl_cleanups:
  assumes "cleanups st = map (\<lambda>x. PerlCleanup (fst x) (snd x) perl) xs @ rest" and "\<not> exited st" and "perl_context st = perl \<or> xs \<noteq> []"
  shows "run_cleanups dies st = run_cleanups dies (st\<lparr>cleanups := rest, refs := (\<lambda>y. refs st y - count_refs y xs),
     events := events st @ concat (map (ran dies perl) xs), perl_context := perl\<rparr>)"
  using assms
proof (induction xs arbitrary: st)
  case (Cons x xs)
  let ?st = "run_cleanup dies (PerlCleanup (fst x) (snd x) perl) (st\<lparr>cleanups := map (\<lambda>x. PerlCleanup (fst x) (snd x) perl) xs @ rest\<rparr>)"
  have st: "?st = st\<lparr>cleanups := map (\<lambda>x. PerlCleanup (fst x) (snd x) perl) xs @ rest,
      refs := (\<lambda>y. refs st y - count_refs y [x]), events := events st @ ran dies perl x, perl_context := perl\<rparr>"
    by (auto simp: run_cleanup_def mpxs_server_cleanup_run_def ref_add_opt_def ref_add_def ran_def Let_def fun_eq_iff split: option.split)
  have "run_cleanups dies st = run_cleanups dies ?st"
    using Cons.prems by (subst run_cleanups.simps) simp
  also have "\<dots> = run_cleanups dies (?st\<lparr>cleanups := rest, refs := (\<lambda>y. refs ?st y - count_refs y xs),
     events := events ?st @ concat (map (ran dies perl) xs), perl_context := perl\<rparr>)"
    by (rule Cons.IH) (use Cons.prems in \<open>simp_all add: st\<close>)
  also have "\<dots> = run_cleanups dies (st\<lparr>cleanups := rest, refs := (\<lambda>y. refs st y - count_refs y (x # xs)),
     events := events st @ concat (map (ran dies perl) (x # xs)), perl_context := perl\<rparr>)"
    by (rule arg_cong [of _ _ "run_cleanups dies"]) (simp add: st algebra_simps)
  finally show ?case .
next
  case Nil
  then have "st\<lparr>cleanups := rest, refs := (\<lambda>y. refs st y - count_refs y []), events := events st @ concat (map (ran dies perl) []), perl_context := perl\<rparr> = st"
    by (cases st) simp
  then show ?case by simp
qed

text \<open>
  The cleanups that Perl code registers at start-up run when the server stops: every one exactly once, the last registered first, with its argument and in the interpreter it was registered
  in; one that raises an exception does not keep the others from running; and all references are given back.
\<close>

theorem shutdown_cleanups_run:
  assumes "cleanups st = []" and "\<not> exited st" and "perl_context st = perl"
  shows "\<exists>st1. register_all perl xs st = Inr st1 \<and>
    run_cleanups dies st1 = st\<lparr>events := events st @ concat (map (ran dies perl) (rev xs))\<rparr>"
proof -
  let ?st = "st\<lparr>cleanups := map (\<lambda>x. PerlCleanup (fst x) (snd x) perl) (rev xs) @ cleanups st, refs := (\<lambda>y. refs st y + count_refs y xs)\<rparr>"
  have c: "count_refs y (rev xs) = count_refs y xs" for y
  proof -
    have a: "count_refs y (us @ vs) = count_refs y us + count_refs y vs" for us vs by (induction us) simp_all
    show ?thesis by (induction xs) (simp_all add: a)
  qed
  have "run_cleanups dies ?st = run_cleanups dies (?st\<lparr>cleanups := [], refs := (\<lambda>y. refs ?st y - count_refs y (rev xs)),
     events := events ?st @ concat (map (ran dies perl) (rev xs)), perl_context := perl\<rparr>)"
    by (rule run_perl_cleanups) (use assms in simp_all)
  also have "\<dots> = st\<lparr>events := events st @ concat (map (ran dies perl) (rev xs))\<rparr>"
    by (subst run_cleanups.simps) (use assms in \<open>simp add: c\<close>)
  finally show ?thesis using register_all_run [of perl xs st] by blast
qed

definition demo_end :: end_state where
  "demo_end = \<lparr>cleanups = [], refs = (\<lambda>_. 1), events = [], exited = False, perl_context = 0\<rparr>"

lemma shutdown_cleanups_run_witness:
  "\<exists>st1. register_all 0 [(4, None), (5, Some 6)] demo_end = Inr st1 \<and>
    run_cleanups (\<lambda>c. c = 5) st1 = demo_end\<lparr>events := [CleanupRan 5 (Some 6) 0, CleanupDied 5, CleanupRan 4 None 0]\<rparr>"
  using shutdown_cleanups_run [of demo_end 0 "[(4, None), (5, Some 6)]" "\<lambda>c. c = 5"] by (simp add: demo_end_def ran_def)

text \<open>
  \<open>child_terminate\<close> registers itself again to be the last cleanup, but APR runs the last registered next: the process exits at once, and the cleanups that were registered before the call
  of \<open>$r->child_terminate\<close> never run.
\<close>

theorem child_terminate_skips:
  assumes "mpxs_Apache2__RequestRec_child_terminate False st = Inr st1" and "\<not> exited st"
  shows "run_cleanups dies st1 = st\<lparr>exited := True\<rparr>"
proof -
  have st1: "st1 = st\<lparr>cleanups := Terminate True # cleanups st\<rparr>"
    using assms(1) by (simp add: mpxs_Apache2__RequestRec_child_terminate_def apr_pool_cleanup_register_def)
  have "run_cleanups dies st1 = run_cleanups dies (st\<lparr>cleanups := Terminate False # cleanups st\<rparr>)"
    using assms(2) by (subst run_cleanups.simps) (simp add: st1 run_cleanup_def child_terminate_def apr_pool_cleanup_register_def)
  also have "\<dots> = run_cleanups dies (st\<lparr>exited := True\<rparr>)"
    using assms(2) by (subst run_cleanups.simps) (simp add: run_cleanup_def child_terminate_def)
  also have "\<dots> = st\<lparr>exited := True\<rparr>" by (subst run_cleanups.simps) simp
  finally show ?thesis .
qed

lemma child_terminate_skips_witness:
  "\<exists>st1. mpxs_Apache2__RequestRec_child_terminate False (demo_end\<lparr>cleanups := [Foreign 3]\<rparr>) = Inr st1 \<and>
    run_cleanups dies st1 = demo_end\<lparr>cleanups := [Foreign 3], exited := True\<rparr>"
  using child_terminate_skips [of "demo_end\<lparr>cleanups := [Foreign 3]\<rparr>" _ dies]
  by (simp add: mpxs_Apache2__RequestRec_child_terminate_def demo_end_def)

text \<open>Every library is closed once, in the order of loading, when each has a handle and a name; the lists are empty afterwards.\<close>

lemma handles_loop_run:
  assumes "i + n = length librefs" and "length librefs \<le> length modules" and "\<forall>x \<in> set librefs. x \<noteq> None \<and> x \<noteq> Some 0" and "\<forall>x \<in> set modules. x \<noteq> None"
    and "length handles = Suc (length librefs)"
  shows "handles_loop n i librefs modules handles = Inr (take i handles @ map (Handle \<circ> the) (drop i librefs) @ drop (length librefs) handles)"
  using assms
proof (induction n arbitrary: i handles)
  case (Suc n)
  then have i: "i < length librefs" "i < length modules" by simp_all
  with Suc.prems(3,4) have l: "librefs ! i \<noteq> None" "librefs ! i \<noteq> Some 0" "modules ! i \<noteq> None" by auto
  have "handles_loop n (Suc i) librefs modules (handles[i := Handle (the (librefs ! i))]) =
      Inr (take (Suc i) (handles[i := Handle (the (librefs ! i))]) @ map (Handle \<circ> the) (drop (Suc i) librefs) @
        drop (length librefs) (handles[i := Handle (the (librefs ! i))]))"
    by (rule Suc.IH) (use Suc.prems in auto)
  moreover have "drop i librefs = librefs ! i # drop (Suc i) librefs" using i by (simp add: Cons_nth_drop_Suc)
  ultimately show ?case using i l Suc.prems(5) by (auto simp: take_Suc_conv_app_nth)
qed simp

lemma close_loop_run: "\<forall>h \<in> set hs. h \<noteq> 0 \<Longrightarrow> close_loop (map Handle hs @ [Handle 0]) = Inr hs"
  by (induction hs) simp_all

lemma dl_handles_closed:
  assumes "dl_librefs st = Some (map Some hs)" and "dl_modules st = Some (map Some ms)" and "length hs \<le> length ms" and "\<forall>h \<in> set hs. h \<noteq> 0"
  shows "\<exists>handles st1. modperl_xs_dl_handles_get st = Inr (handles, st1) \<and> modperl_xs_dl_handles_close handles = Inr hs \<and> dl_librefs st1 = Some []"
proof (cases "hs = []")
  case True
  with assms show ?thesis by (simp add: modperl_xs_dl_handles_get_def modperl_xs_dl_handles_close_def)
next
  case False
  have "handles_loop (length hs) 0 (map Some hs) (map Some ms) (replicate (length hs + 1) Garbage) = Inr (map Handle hs @ [Garbage])"
    using handles_loop_run [of 0 "length hs" "map Some hs" "map Some ms" "replicate (length hs + 1) Garbage"] assms(3,4)
    by (auto simp: comp_def replicate_append_same [symmetric])
  with False assms close_loop_run [OF assms(4)] show ?thesis
    by (simp add: modperl_xs_dl_handles_get_def modperl_xs_dl_handles_close_def list_update_append)
qed

text \<open>A library without a handle leaves a hole in the array, and closing follows what \<open>malloc\<close> left there.\<close>

lemma dl_handles_hole:
  "\<exists>handles st1. modperl_xs_dl_handles_get \<lparr>dl_librefs = Some [Some 0, Some 7], dl_modules = Some [Some ''A'', Some ''B'']\<rparr> = Inr (handles, st1) \<and>
     modperl_xs_dl_handles_close handles = Inl UseAfterFree"
  by (simp add: modperl_xs_dl_handles_get_def modperl_xs_dl_handles_close_def numeral_eq_Suc)

end
