(* ===== verification/Request_Rec.thy ===== *)
theory Request_Rec
  imports Prelude
begin

text \<open>
  Fields of requests (\<^verbatim>\<open>src/xs/Apache2/RequestRec/Apache2__RequestRec.h\<close>), the parts of a URI (\<^verbatim>\<open>src/xs/APR/URI/APR__URI.h\<close>), and the arguments of handlers
  (\<open>modperl_handler_make_args\<close> in \<^verbatim>\<open>src/src/modules/perl/modperl_handler.c\<close>).
\<close>

section \<open>Scalars\<close>

text \<open>
  A scalar with a string has its bytes and the size of its buffer. Strings that share the key of a hash have no buffer of their own: their \<open>SvLEN\<close> is zero. \<open>buffer\<close> is what can be
  read behind the pointer: the bytes, a null byte, and what else the buffer holds.
\<close>

record scalar =
  pv :: string
  SvPOK :: bool
  SvLEN :: nat
  slack :: string
  iv :: int

definition buffer :: "scalar \<Rightarrow> string" where
  "buffer sv = pv sv @ CHR 0x00 # slack sv"

definition scalar_ok :: "scalar \<Rightarrow> bool" where
  "scalar_ok sv \<longleftrightarrow> SvLEN sv = 0 \<or> length (buffer sv) = SvLEN sv"

definition cstring :: "string \<Rightarrow> string" where
  "cstring s = takeWhile (\<lambda>c. c \<noteq> CHR 0x00) s"

text \<open>\<open>apr_pmemdup\<close> and \<open>apr_pstrmemdup\<close> read as many bytes as they are told; the latter ends the copy with a null byte.\<close>

definition apr_pmemdup :: "string \<Rightarrow> nat \<Rightarrow> string res" where
  "apr_pmemdup s n = (if length s < n then Inl OutOfBounds else Inr (take n s))"

definition apr_pstrmemdup :: "string \<Rightarrow> nat \<Rightarrow> string res" where
  "apr_pstrmemdup s n = and_then (apr_pmemdup s n) (\<lambda>t. Inr (t @ [CHR 0x00]))"

section \<open>Requests\<close>

record parsed_uri =
  scheme :: "string option"
  hostname :: "string option"
  port_str :: "string option"
  port :: int
  upath :: "string option"

record request_rec =
  content_type :: "string option"
  proxyreq :: int
  handler :: "string option"
  uri_of :: parsed_uri
  r_uri :: string
  unparsed_uri :: string
  filename :: "string option"
  header_parser_on :: bool
  finfo :: nat

definition PROXYREQ_PROXY :: int where "PROXYREQ_PROXY = 1"

definition mpxs_Apache2__RequestRec_content_type :: "request_rec \<Rightarrow> scalar option \<Rightarrow> (string option \<times> request_rec) res" where
  "mpxs_Apache2__RequestRec_content_type r type = (case type of
       None \<Rightarrow> Inr (content_type r, r)
     | Some sv \<Rightarrow> and_then (apr_pmemdup (buffer sv) (length (pv sv) + 1)) (\<lambda>t.
         Inr (content_type r, r\<lparr>content_type := Some (cstring t), header_parser_on := False\<rparr>)))"

text \<open>\<open>ap_http_scheme\<close>, \<open>ap_default_port\<close> and \<open>ap_matches_request_vhost\<close> are parameters.\<close>

definition mpxs_Apache2__RequestRec_proxyreq ::
    "string \<Rightarrow> int \<Rightarrow> (string \<Rightarrow> int \<Rightarrow> bool) \<Rightarrow> request_rec \<Rightarrow> int option \<Rightarrow> int \<times> request_rec" where
  "mpxs_Apache2__RequestRec_proxyreq http_scheme default_port matches_vhost r val =
     (let u = uri_of r;
          is_proxy = (val = None \<and> proxyreq r = 0 \<and> scheme u \<noteq> None \<and>
            \<not> (hostname u \<noteq> None \<and> scheme u = Some http_scheme \<and>
               matches_vhost (the (hostname u)) (if port_str u \<noteq> None then port u else default_port)));
          r1 = (if is_proxy then r\<lparr>proxyreq := PROXYREQ_PROXY, r_uri := unparsed_uri r, filename := Some (''modperl-proxy:'' @ unparsed_uri r)\<rparr> else r);
          retval = (if is_proxy then PROXYREQ_PROXY else proxyreq r)
      in (retval, case val of None \<Rightarrow> r1 | Some v \<Rightarrow> r1\<lparr>proxyreq := v\<rparr>))"

definition mpxs_Apache2__RequestRec_finfo :: "request_rec \<Rightarrow> nat option \<Rightarrow> nat \<times> request_rec" where
  "mpxs_Apache2__RequestRec_finfo r f = (let r1 = (case f of None \<Rightarrow> r | Some x \<Rightarrow> r\<lparr>finfo := x\<rparr>) in (finfo r1, r1))"

text \<open>
  The handler of a request. In the response phase one kind of Perl handler cannot be replaced by the other. \<open>strEQ\<close> follows the old name, which is a null pointer when no handler is set.
\<close>

definition streq_old :: "string option \<Rightarrow> string \<Rightarrow> bool res" where
  "streq_old old name = (case old of None \<Rightarrow> Inl NullDeref | Some h \<Rightarrow> Inr (h = name))"

definition mpxs_Apache2__RequestRec_handler :: "string \<Rightarrow> request_rec \<Rightarrow> scalar option \<Rightarrow> (string option \<times> request_rec) res" where
  "mpxs_Apache2__RequestRec_handler callback r new = (case new of
       None \<Rightarrow> Inr (handler r, r)
     | Some sv \<Rightarrow>
         if \<not> SvPOK sv then Inl (Croak ''the new_handler argument must be a string'')
         else
           let new_handler = cstring (buffer sv)
           in and_then (if callback = ''PerlResponseHandler'' then
                 (if new_handler = ''modperl'' then and_then (streq_old (handler r) ''perl-script'') (\<lambda>same.
                    if same then Inl (Croak ''Can't switch from 'perl-script' to 'modperl' response handler'') else Inr ())
                  else if new_handler = ''perl-script'' then and_then (streq_old (handler r) ''modperl'') (\<lambda>same.
                    if same then Inl (Croak ''Can't switch from 'modperl' to 'perl-script' response handler'') else Inr ())
                  else Inr ())
               else Inr ()) (\<lambda>_.
             and_then (apr_pstrmemdup (buffer sv) (SvLEN sv)) (\<lambda>t. Inr (handler r, r\<lparr>handler := Some (cstring t)\<rparr>))))"

section \<open>URIs\<close>

text \<open>A URI made by \<open>parsed_uri\<close> of a request has the path info of the request with it.\<close>

record modperl_uri =
  uri :: parsed_uri
  path_info :: "string option"

definition mpxs_APR__URI_port :: "modperl_uri \<Rightarrow> scalar option \<Rightarrow> string option \<times> modperl_uri" where
  "mpxs_APR__URI_port u portsv =
     (port_str (uri u), case portsv of
        None \<Rightarrow> u
      | Some sv \<Rightarrow>
          if SvPOK sv then u\<lparr>uri := (uri u)\<lparr>port_str := Some (cstring (pv sv)), port := sint (word_of_int (iv sv) :: 32 word)\<rparr>\<rparr>
          else u\<lparr>uri := (uri u)\<lparr>port_str := None, port := 0\<rparr>\<rparr>)"

text \<open>The path without the path info; with a length of zero \<open>newSVpv\<close> would take the whole string.\<close>

definition mpxs_APR__URI_rpath :: "modperl_uri \<Rightarrow> string option res" where
  "mpxs_APR__URI_rpath u = (case path_info u of
       Some info \<Rightarrow> (case upath (uri u) of
           None \<Rightarrow> Inl NullDeref
         | Some p \<Rightarrow> Inr (let k = int (length p) - int (length info) in if k > 0 then Some (take (nat k) p) else None))
     | None \<Rightarrow> Inr (upath (uri u)))"

section \<open>Arguments of handlers\<close>

text \<open>A pointer that may be null, and the name of what it points to. The values are tied tables, numbers, strings, references to hashes and objects. \<open>sv_setref_pv\<close> makes the undefined value of a null pointer.\<close>

datatype arg_value = TiedTable "nat option" | IntValue nat | StringAt nat | HashRef nat | Object string nat | UndefValue

text \<open>The cases of the switch fall through to the next one and to the default.\<close>

fun arg_default :: "string \<Rightarrow> nat option \<Rightarrow> arg_value" where
  "arg_default c p = (case p of None \<Rightarrow> UndefValue | Some x \<Rightarrow> Object c x)"

fun arg_H :: "string \<Rightarrow> nat option \<Rightarrow> arg_value res" where
  "arg_H c p = (if c = ''HV'' then (case p of None \<Rightarrow> Inl NullDeref | Some x \<Rightarrow> Inr (HashRef x)) else Inr (arg_default c p))"

fun arg_P :: "string \<Rightarrow> nat option \<Rightarrow> arg_value res" where
  "arg_P c p = (if c = ''PV'' then Inr (case p of None \<Rightarrow> UndefValue | Some x \<Rightarrow> StringAt x) else arg_H c p)"

fun arg_I :: "string \<Rightarrow> nat option \<Rightarrow> arg_value res" where
  "arg_I c p = (if c = ''IV'' then Inr (case p of None \<Rightarrow> UndefValue | Some x \<Rightarrow> IntValue x) else arg_P c p)"

fun arg_A :: "string \<Rightarrow> nat option \<Rightarrow> arg_value res" where
  "arg_A c p = (if c = ''APR::Table'' then Inr (TiedTable p) else arg_I c p)"

definition make_arg :: "string \<Rightarrow> nat option \<Rightarrow> arg_value res" where
  "make_arg c p = (if take 1 c = ''A'' then arg_A c p else if take 1 c = ''I'' then arg_I c p else if take 1 c = ''P'' then arg_P c p
     else if take 1 c = ''H'' then arg_H c p else Inr (arg_default c p))"

fun modperl_handler_make_args :: "arg_value list option \<Rightarrow> (string \<times> nat option) list \<Rightarrow> arg_value list res" where
  "modperl_handler_make_args av [] = Inr (case av of None \<Rightarrow> [] | Some xs \<Rightarrow> xs)"
| "modperl_handler_make_args av ((c, p) # rest) =
     and_then (make_arg c p) (\<lambda>v. modperl_handler_make_args (Some ((case av of None \<Rightarrow> [] | Some xs \<Rightarrow> xs) @ [v])) rest)"

section \<open>Lemmas\<close>

text \<open>Every pointer becomes what its name says, in order, behind what was in the array.\<close>

definition arg_of :: "string \<times> nat option \<Rightarrow> arg_value" where
  "arg_of x = (case x of (c, p) \<Rightarrow>
     if c = ''APR::Table'' then TiedTable p
     else case p of None \<Rightarrow> UndefValue
       | Some a \<Rightarrow> if c = ''IV'' then IntValue a else if c = ''PV'' then StringAt a else if c = ''HV'' then HashRef a else Object c a)"

lemma make_arg_of: "(c = ''HV'' \<longrightarrow> p \<noteq> None) \<Longrightarrow> make_arg c p = Inr (arg_of (c, p))"
  by (auto simp: make_arg_def arg_of_def split: option.splits)

lemma make_args_run:
  "(\<forall>(c, p) \<in> set xs. c = ''HV'' \<longrightarrow> p \<noteq> None) \<Longrightarrow> modperl_handler_make_args av xs = Inr ((case av of None \<Rightarrow> [] | Some vs \<Rightarrow> vs) @ map arg_of xs)"
  by (induction av xs rule: modperl_handler_make_args.induct) (auto simp: make_arg_of split: option.splits)

lemma cstring_null: "cstring (s @ CHR 0x00 # t) = cstring s"
  by (induction s) (auto simp: cstring_def)

lemma takeWhile_buffer: "cstring (buffer sv) = cstring (pv sv)"
  by (simp add: buffer_def cstring_null)

lemma cstring_append_null: "cstring (s @ [CHR 0x00]) = cstring s"
  by (rule cstring_null)

section \<open>Properties\<close>

text \<open>
  A new name for the handler of a request is taken as it is, when its string has a buffer of its own; outside the response phase nothing else is looked at, and in it a change between the
  two kinds of Perl handlers raises an exception and leaves the request alone. The old name is returned.
\<close>

theorem request_handler_set:
  assumes "scalar_ok sv" and "SvPOK sv" and "SvLEN sv \<noteq> 0" and "handler r = Some old"
  shows "mpxs_Apache2__RequestRec_handler callback r (Some sv) =
    (if callback = ''PerlResponseHandler'' \<and> {old, cstring (pv sv)} = {''modperl'', ''perl-script''}
     then Inl (Croak (if old = ''modperl'' then ''Can't switch from 'modperl' to 'perl-script' response handler''
                      else ''Can't switch from 'perl-script' to 'modperl' response handler''))
     else Inr (Some old, r\<lparr>handler := Some (cstring (pv sv))\<rparr>))"
proof -
  have "apr_pstrmemdup (buffer sv) (SvLEN sv) = Inr (buffer sv @ [CHR 0x00])"
    using assms(1,3) by (simp add: scalar_ok_def apr_pstrmemdup_def apr_pmemdup_def)
  then show ?thesis
    using assms(2,4) by (auto simp: mpxs_Apache2__RequestRec_handler_def takeWhile_buffer cstring_append_null streq_old_def doubleton_eq_iff Let_def)
qed

definition demo_scalar :: "string \<Rightarrow> nat \<Rightarrow> scalar" where
  "demo_scalar s n = \<lparr>pv = s, SvPOK = True, SvLEN = n, slack = replicate (n - length s - 1) (CHR ''x''), iv = 0\<rparr>"

definition demo_request :: request_rec where
  "demo_request = \<lparr>content_type = None, proxyreq = 0, handler = Some ''modperl'',
     uri_of = \<lparr>scheme = None, hostname = None, port_str = None, port = 0, upath = None\<rparr>,
     r_uri = ''/'', unparsed_uri = ''/'', filename = None, header_parser_on = True, finfo = 0\<rparr>"

lemma request_handler_set_witness:
  "mpxs_Apache2__RequestRec_handler ''PerlFixupHandler'' demo_request (Some (demo_scalar ''perl-script'' 16)) =
    Inr (Some ''modperl'', demo_request\<lparr>handler := Some ''perl-script''\<rparr>)"
  using request_handler_set [of "demo_scalar ''perl-script'' 16" demo_request "''modperl''" "''PerlFixupHandler''"]
  by (simp add: demo_scalar_def demo_request_def scalar_ok_def buffer_def cstring_def)

text \<open>A string without a buffer of its own, such as a key of a hash: the handler becomes the empty string.\<close>

lemma request_handler_shared_key:
  assumes "SvPOK sv" and "SvLEN sv = 0"
  shows "mpxs_Apache2__RequestRec_handler ''PerlFixupHandler'' r (Some sv) = Inr (handler r, r\<lparr>handler := Some []\<rparr>)"
  using assms by (simp add: mpxs_Apache2__RequestRec_handler_def apr_pstrmemdup_def apr_pmemdup_def cstring_def Let_def)

text \<open>The check can be passed with another name in between.\<close>

lemma request_handler_two_steps:
  "\<exists>r1 r2 o1 o2. mpxs_Apache2__RequestRec_handler ''PerlResponseHandler'' demo_request (Some (demo_scalar ''x'' 16)) = Inr (o1, r1) \<and>
     mpxs_Apache2__RequestRec_handler ''PerlResponseHandler'' r1 (Some (demo_scalar ''perl-script'' 16)) = Inr (o2, r2) \<and> handler r2 = Some ''perl-script''"
  by (simp add: mpxs_Apache2__RequestRec_handler_def demo_scalar_def demo_request_def apr_pstrmemdup_def apr_pmemdup_def cstring_def buffer_def streq_old_def Let_def
      eval_nat_numeral)

text \<open>The path is the path without the path info and the path info, when the path ends in it.\<close>

lemma rpath_path_info:
  assumes "path_info u = Some info" and "upath (uri u) = Some (p @ info)" and "p \<noteq> []"
  shows "mpxs_APR__URI_rpath u = Inr (Some p)"
  using assms by (simp add: mpxs_APR__URI_rpath_def)

text \<open>Setting the type of the content gives the old one, and the headers are no longer looked for in the output.\<close>

lemma content_type_set:
  "mpxs_Apache2__RequestRec_content_type r (Some sv) = Inr (content_type r, r\<lparr>content_type := Some (cstring (pv sv)), header_parser_on := False\<rparr>)"
proof -
  have "take (length (pv sv) + 1) (buffer sv) = pv sv @ [CHR 0x00]" by (simp add: buffer_def)
  then show ?thesis
    by (simp add: mpxs_Apache2__RequestRec_content_type_def apr_pmemdup_def cstring_append_null) (simp add: buffer_def)
qed

end
