(* ===== verification/Spec2Isabelle.thy ===== *)
theory Spec2Isabelle
  imports Interp Svptr_Table Callback Options Cmd Request_IO Stream_Filter Filter_Add Startup Response Module_Add Pool_Objects
    Sv_Bucket Directive_Tree Table_Tie Request_Util Filter_Attrs Handler_Walk Child_Process Apr_Perlio Apr_Brigade Io_Handles
    Constants Config_Insert Log_Messages Sub_Process Perl_Section Shutdown Request_Rec
begin

text \<open>
  Verification of mod\_perl 2, the Apache module that embeds a Perl interpreter into httpd.

  The module reads its directives when httpd starts, creates Perl interpreters, keeps a pool of clones of them when httpd runs
  threads, and then, for every connection and request, finds the configured Perl handlers of a phase, selects an interpreter, calls the handlers, and passes
  what they read, print and filter through the buckets of httpd. Around that there are the methods of the Perl objects for requests, servers, pools, tables, buckets and
  files, written in C under \<^verbatim>\<open>src/xs/\<close>. The core is under \<^verbatim>\<open>src/src/modules/perl/\<close>; file names without a directory below are relative to it.

  Conventions. A record of the model is a structure of the code, with the fields under their own names where Isabelle allows them; an address is a number, a pointer that may be null an option. Where
  several structures share objects the model has a store from addresses to objects, so that aliasing is as in the code. A step that follows a null pointer or a pointer to freed memory, leaves a
  buffer, aborts, exits, raises a Perl exception or never ends is a value of \<open>c_error\<close> (theory \<open>Prelude\<close>); operations that can fail return a sum and are sequenced with
  \<open>and_then\<close>. Numbers have the width of the code where a wrap-around can happen. httpd, APR and Perl are not part of the repository: their functions are parameters
  (records such as \<open>perl_ops\<close>, \<open>perl_api\<close>, \<open>apr_table_ops\<close>), and what the code relies on are named hypotheses about them, each shown to be satisfiable by a
  concrete instance. The build is the one with interpreter threads, Perl 5.18 and httpd 2.4.

  Interpreters.
  \<^item> \<open>Tilist\<close>: the doubly linked lists of \<^verbatim>\<open>modperl_tipool.c\<close> on a heap of nodes; every operation is the operation of the same name on lists, and returns.
  \<^item> \<open>Tipool\<close>: the pool of items with its idle and busy lists and its counters, refined to two lists.
  \<^item> \<open>Tipool_Threads\<close>: any number of threads on one pool in any interleaving, with waiting and spurious wake-ups, as a step relation; safety, no lost wake-up, no deadlock. The locale \<open>item_source\<close> has
    what a pool needs of its callbacks.
  \<^item> \<open>Interp\<close>: \<^verbatim>\<open>modperl_interp.c\<close>: interpreters as the items of the pool; selection for every scope, reference counts, return; the theorems of the pool carried over by an
    interpretation of \<open>item_source\<close>.
  \<^item> \<open>Startup\<close>, \<open>Child_Process\<close>, \<open>Shutdown\<close>: \<^verbatim>\<open>mod_perl.c\<close> and \<^verbatim>\<open>modperl_perl.c\<close>: which servers get which interpreter and pool; process numbers, END
    blocks, exit and replaced opcodes of a child; cleanups of the server, libraries of Perl modules.
  \<^item> \<open>Svptr_Table\<close>: \<^verbatim>\<open>modperl_svptr_table.c\<close>, the hash table from structures to Perl values with its growing array, refined to a map (locale \<open>pointer_map\<close>).

  Configuration.
  \<^item> \<open>Options\<close>, \<open>Config\<close>, \<open>Cmd\<close>, \<open>Perl_Section\<close>: \<^verbatim>\<open>modperl_options.c\<close>, \<^verbatim>\<open>modperl_config.c\<close>, \<^verbatim>\<open>modperl_cmd.c\<close>: masks of options and their
    merging, configurations of servers and directories and their merging, the directives, the code of \<open><Perl>\<close> sections.
  \<^item> \<open>Config_Insert\<close>, \<open>Directive_Tree\<close>: configuration added by Perl code at run time with the access control that uses it, and the tree of directives as Perl sees it.
  \<^item> \<open>Perl_Module\<close>, \<open>Module_Add\<close>: \<^verbatim>\<open>modperl_module.c\<close>: Apache modules written in Perl, the objects of their configurations with reference counts.
  \<^item> \<open>Constants\<close>: \<^verbatim>\<open>modperl_const.c\<close>: the constants of httpd and APR as Perl subs.

  Handlers and phases.
  \<^item> \<open>Mgv\<close>, \<open>Handler\<close>, \<open>Handler_Walk\<close>: \<^verbatim>\<open>modperl_mgv.c\<close>, \<^verbatim>\<open>modperl_handler.c\<close>, \<^verbatim>\<open>modperl_pcw.c\<close>: names as chains, their compilation, printing
    and lookup; handlers, their resolution to code, arrays of them; resolving all of them at start-up.
  \<^item> \<open>Callback\<close>: \<^verbatim>\<open>modperl_callback.c\<close>: calling one handler, and running a phase in each of the three modes.
  \<^item> \<open>Env\<close>, \<open>Perl_Global\<close>, \<open>Global_Request\<close>, \<open>Io_Handles\<close>: \<^verbatim>\<open>modperl_env.c\<close>, \<^verbatim>\<open>modperl_perl_global.c\<close>, \<^verbatim>\<open>modperl_global.c\<close>,
    \<^verbatim>\<open>modperl_io.c\<close>: what is set up for a request and taken back after it: \<open>%ENV\<close>, special variables and END blocks, the global request, standard handles.
  \<^item> \<open>Response\<close>: the response handlers, put together from the interpreters, the globals, the environment, the global request and the output.
  \<^item> \<open>Util\<close>, \<open>Request_Util\<close>, \<open>Request_Rec\<close>, \<open>Log_Messages\<close>, \<open>Sub_Process\<close>: methods of requests and servers and the helpers of
    \<^verbatim>\<open>modperl_util.c\<close>; logging; programs run for a request.

  Data.
  \<^item> \<open>Wbucket\<close>, \<open>Request_IO\<close>: the output buffer and the parser of CGI headers (\<^verbatim>\<open>modperl_filter.c\<close>, \<^verbatim>\<open>modperl_cgi.c\<close>), print, read and flush of requests.
    The locale \<open>byte_sink\<close> has what writing to a buffer promises; the response and the two kinds of filters are its interpretations.
  \<^item> \<open>Filter_Add\<close>, \<open>Filter_Attrs\<close>, \<open>Stream_Filter\<close>: which filters a request and a connection get; attributes and data of filters; streaming filters, with the handler as an
    interaction tree.
  \<^item> \<open>Sv_Bucket\<close>, \<open>Apr_Brigade\<close>: buckets over Perl scalars with their reference counts; brigades as rings of pointers, refined to lists.
  \<^item> \<open>Apr_Table\<close>, \<open>Table_Tie\<close>: what is known of the tables of APR, and tables as tied hashes.
  \<^item> \<open>Pool_Objects\<close>, \<open>Apr_Perlio\<close>: pools as Perl objects, and files of APR as Perl handles.

  What is shown. For every structure that is shared or counted an invariant that all operations keep: no interpreter is handed out twice, no memory is used after it is freed, references are
  balanced. For the optimised or pointer-based code its abstract counterpart: lists for rings and pools, maps for the hash table, a reference definition for the tree of directives, the walk along
  components for symbol names. For what a request changes, that it is undone: environment, globals, document root, global request, interpreter. For output and filters, that all bytes arrive, in
  order and once, and that reading ends. Where the code does not do this, the theorem has the exact condition, and a lemma next to it has the counterexample.

  Bounds and fuel. The loops over linked nodes take as much fuel as nodes were ever allocated, plus one: a longer walk has met a node twice. Reading a body of \<open>len\<close> bytes takes at most
  \<open>len\<close> rounds, reading a file through the layer one round more than it has bytes, a loop with \<open>each\<close> one more than the table has entries, a loop over a brigade as many as it has buckets; the theorems
  say that with this fuel the result is there. Phases and streaming filters run on lists and trees of finite size. Everything else is structural or has a proof of termination.

  Not modelled, and why. The registration of hooks, the tables of commands and the start of an interpreter (\<open>modperl_register_hooks\<close>, \<open>modperl_boot\<close>): lists of calls into httpd and Perl. The locks of
  process-wide data: one mutex around one pointer. Debugging, memory statistics and trace output. Headers and the names for other versions of httpd, APR and Perl, and the branches for Windows
  and for Perls without threads or without PerlIO layers. The wrappers under \<^verbatim>\<open>src/xs/\<close> that are one call of APR or httpd. What is generated at build time (the glue code, the tables of constants, flags and
  directives): a parameter. The code written in Perl (the library, Registry, the test framework) and the tests.
\<close>

end
